(* ===== verification/Tokens.thy ===== *)
theory Tokens
  imports Mjc_Prelude
begin

text \<open>
  Tokens and source positions (\<open>src/src/lexer.hpp\<close>): \<open>TokenPos\<close>, \<open>SourceLocation\<close>, \<open>Token\<close> and
  its kinds, and the static tables of \<open>src/src/lexer.cpp\<close>: the keyword table, the names of
  the token kinds and the single-character operators.  The constructors of \<open>Token::Type\<close>
  carry the prefix \<open>TT_\<close>, after the alias \<open>TT\<close> of \<open>parser.cpp\<close>.
\<close>

section \<open>Positions\<close>

record token_pos =
  pos_line :: int
  pos_col :: int

definition mk_pos :: "int \<Rightarrow> int \<Rightarrow> token_pos" where
  "mk_pos l c = \<lparr>pos_line = l, pos_col = c\<rparr>"

text \<open>The default constructor of \<open>TokenPos\<close> marks an unknown position.\<close>

definition no_pos :: token_pos where
  "no_pos = \<lparr>pos_line = -1, pos_col = -1\<rparr>"

record source_location =
  startToken :: token_pos
  endToken :: token_pos

definition mk_loc :: "token_pos \<Rightarrow> token_pos \<Rightarrow> source_location" where
  "mk_loc s e = \<lparr>startToken = s, endToken = e\<rparr>"

definition no_loc :: source_location where
  "no_loc = mk_loc no_pos no_pos"

definition pos_toStr :: "token_pos \<Rightarrow> string" where
  "pos_toStr p = int_to_string (pos_line p) @ '':'' @ int_to_string (pos_col p)"

definition loc_toStr :: "source_location \<Rightarrow> string" where
  "loc_toStr l =
     (if pos_col (startToken l) = -1 then ''at unknown location''
      else if startToken l = endToken l
        then ''at token '' @ pos_toStr (startToken l) @ ''->'' @ pos_toStr (endToken l)
      else ''between token '' @ pos_toStr (startToken l) @ '' and '' @ pos_toStr (endToken l))"

section \<open>Token kinds\<close>

datatype ttype =
    TT_none | TT_Eof | TT_Identifier | TT_IntLiteral | TT_Boolean | TT_Class | TT_Else
    | TT_False | TT_If | TT_Int | TT_New | TT_Null | TT_Public | TT_Return | TT_Static
    | TT_This | TT_True | TT_Void | TT_While | TT_Amp | TT_AmpAmp | TT_AmpEq | TT_Bang
    | TT_BangEq | TT_Caret | TT_CaretEq | TT_Colon | TT_Comma | TT_Dot | TT_Eq | TT_EqEq
    | TT_Gt | TT_GtEq | TT_GtGt | TT_GtGtEq | TT_GtGtGt | TT_GtGtGtEq | TT_LBrace
    | TT_LBracket | TT_LParen | TT_LtEq | TT_LtLt | TT_Lt | TT_LtLtEq | TT_Minus
    | TT_MinusEq | TT_MinusMinus | TT_VBar | TT_VBarEq | TT_VBarVBar | TT_Percent
    | TT_PercentEq | TT_Plus | TT_PlusEq | TT_PlusPlus | TT_QMark | TT_RBrace | TT_RBracket
    | TT_RParen | TT_Semicolon | TT_Slash | TT_SlashEq | TT_Star | TT_StarEq | TT_Tilde
    | TT_ReservedKeyword

record token =
  tok_type :: ttype
  tok_pos :: token_pos
  tok_str :: string

definition mk_token :: "ttype \<Rightarrow> token_pos \<Rightarrow> string \<Rightarrow> token" where
  "mk_token t p s = \<lparr>tok_type = t, tok_pos = p, tok_str = s\<rparr>"

definition startPos :: "token \<Rightarrow> token_pos" where
  "startPos t = tok_pos t"

definition endPos :: "token \<Rightarrow> token_pos" where
  "endPos t = (tok_pos t)\<lparr>pos_col := pos_col (tok_pos t) + int (length (tok_str t)) - 1\<rparr>"

definition singleTokenSrcLoc :: "token \<Rightarrow> source_location" where
  "singleTokenSrcLoc t = mk_loc (startPos t) (endPos t)"

definition tok_toStr :: "token \<Rightarrow> string" where
  "tok_toStr t = ''<'' @ tok_str t @ '' at '' @ int_to_string (pos_line (tok_pos t)) @ '':''
     @ int_to_string (pos_col (tok_pos t)) @ ''>''"

text \<open>\<open>operator<<\<close> on tokens, the line that \<open>--lextest\<close> prints.\<close>

definition tok_print :: "token \<Rightarrow> string" where
  "tok_print t = (case tok_type t of
       TT_Identifier \<Rightarrow> ''identifier '' @ tok_str t
     | TT_IntLiteral \<Rightarrow> ''integer literal '' @ tok_str t
     | _ \<Rightarrow> tok_str t)"

section \<open>Static tables\<close>

definition identifierTokens :: "(string \<times> ttype) list" where
  "identifierTokens = [
     (''boolean'', TT_Boolean), (''class'', TT_Class), (''else'', TT_Else)
     , (''false'', TT_False), (''if'', TT_If), (''int'', TT_Int), (''new'', TT_New)
     , (''null'', TT_Null), (''public'', TT_Public), (''return'', TT_Return)
     , (''static'', TT_Static), (''this'', TT_This), (''true'', TT_True)
     , (''void'', TT_Void), (''while'', TT_While), (''abstract'', TT_ReservedKeyword)
     , (''assert'', TT_ReservedKeyword), (''break'', TT_ReservedKeyword)
     , (''byte'', TT_ReservedKeyword), (''case'', TT_ReservedKeyword)
     , (''catch'', TT_ReservedKeyword), (''char'', TT_ReservedKeyword)
     , (''const'', TT_ReservedKeyword), (''continue'', TT_ReservedKeyword)
     , (''default'', TT_ReservedKeyword), (''double'', TT_ReservedKeyword)
     , (''do'', TT_ReservedKeyword), (''enum'', TT_ReservedKeyword)
     , (''extends'', TT_ReservedKeyword), (''finally'', TT_ReservedKeyword)
     , (''final'', TT_ReservedKeyword), (''float'', TT_ReservedKeyword)
     , (''for'', TT_ReservedKeyword), (''goto'', TT_ReservedKeyword)
     , (''implements'', TT_ReservedKeyword), (''import'', TT_ReservedKeyword)
     , (''instanceof'', TT_ReservedKeyword), (''interface'', TT_ReservedKeyword)
     , (''long'', TT_ReservedKeyword), (''native'', TT_ReservedKeyword)
     , (''package'', TT_ReservedKeyword), (''private'', TT_ReservedKeyword)
     , (''protected'', TT_ReservedKeyword), (''short'', TT_ReservedKeyword)
     , (''strictfp'', TT_ReservedKeyword), (''super'', TT_ReservedKeyword)
     , (''switch'', TT_ReservedKeyword), (''synchronized'', TT_ReservedKeyword)
     , (''throws'', TT_ReservedKeyword), (''throw'', TT_ReservedKeyword)
     , (''transient'', TT_ReservedKeyword), (''try'', TT_ReservedKeyword)
     , (''volatile'', TT_ReservedKeyword)]"

fun tokenNameNeedsQuotes :: "ttype \<Rightarrow> bool" where
  "tokenNameNeedsQuotes TT_Eof = False"
| "tokenNameNeedsQuotes TT_Identifier = False"
| "tokenNameNeedsQuotes TT_IntLiteral = False"
| "tokenNameNeedsQuotes TT_ReservedKeyword = False"
| "tokenNameNeedsQuotes _ = True"

fun getTokenName :: "ttype \<Rightarrow> string" where
  "getTokenName TT_Eof = ''End of File''"
| "getTokenName TT_Identifier = ''identifier''"
| "getTokenName TT_IntLiteral = ''integer literal''"
| "getTokenName TT_Boolean = ''boolean''"
| "getTokenName TT_Class = ''class''"
| "getTokenName TT_Else = ''else''"
| "getTokenName TT_False = ''false''"
| "getTokenName TT_If = ''if''"
| "getTokenName TT_Int = ''int''"
| "getTokenName TT_New = ''new''"
| "getTokenName TT_Null = ''null''"
| "getTokenName TT_Public = ''public''"
| "getTokenName TT_Return = ''return''"
| "getTokenName TT_Static = ''static''"
| "getTokenName TT_This = ''this''"
| "getTokenName TT_True = ''true''"
| "getTokenName TT_Void = ''void''"
| "getTokenName TT_While = ''while''"
| "getTokenName TT_Amp = ''&''"
| "getTokenName TT_AmpAmp = ''&&''"
| "getTokenName TT_AmpEq = ''&=''"
| "getTokenName TT_Bang = ''!''"
| "getTokenName TT_BangEq = ''!=''"
| "getTokenName TT_Caret = ''^''"
| "getTokenName TT_CaretEq = ''^=''"
| "getTokenName TT_Colon = '':''"
| "getTokenName TT_Comma = '',''"
| "getTokenName TT_Dot = ''.''"
| "getTokenName TT_Eq = ''=''"
| "getTokenName TT_EqEq = ''==''"
| "getTokenName TT_Gt = ''>''"
| "getTokenName TT_GtEq = ''>=''"
| "getTokenName TT_GtGt = ''>>''"
| "getTokenName TT_GtGtEq = ''>>=''"
| "getTokenName TT_GtGtGt = ''>>>''"
| "getTokenName TT_GtGtGtEq = ''>>>=''"
| "getTokenName TT_LBrace = ''{''"
| "getTokenName TT_LBracket = ''[''"
| "getTokenName TT_LParen = ''(''"
| "getTokenName TT_LtEq = ''<=''"
| "getTokenName TT_LtLt = ''<<''"
| "getTokenName TT_Lt = ''<''"
| "getTokenName TT_LtLtEq = ''<<=''"
| "getTokenName TT_Minus = ''-''"
| "getTokenName TT_MinusEq = ''-=''"
| "getTokenName TT_MinusMinus = ''--''"
| "getTokenName TT_VBar = ''|''"
| "getTokenName TT_VBarEq = ''|=''"
| "getTokenName TT_VBarVBar = ''||''"
| "getTokenName TT_Percent = ''%''"
| "getTokenName TT_PercentEq = ''%=''"
| "getTokenName TT_Plus = ''+''"
| "getTokenName TT_PlusEq = ''+=''"
| "getTokenName TT_PlusPlus = ''++''"
| "getTokenName TT_QMark = ''?''"
| "getTokenName TT_RBrace = ''}''"
| "getTokenName TT_RBracket = '']''"
| "getTokenName TT_RParen = '')''"
| "getTokenName TT_Semicolon = '';''"
| "getTokenName TT_Slash = ''/''"
| "getTokenName TT_SlashEq = ''/=''"
| "getTokenName TT_Star = ''*''"
| "getTokenName TT_StarEq = ''*=''"
| "getTokenName TT_Tilde = ''~''"
| "getTokenName TT_ReservedKeyword = ''reserved keyword''"
| "getTokenName TT_none = ''<unknown token type>''"

definition getSingleCharOpToken :: "int \<Rightarrow> ttype" where
  "getSingleCharOpToken c =
     (if c = schar (CHR ''('') then TT_LParen
      else if c = schar (CHR '')'') then TT_RParen
      else if c = schar (CHR ''['') then TT_LBracket
      else if c = schar (CHR '']'') then TT_RBracket
      else if c = schar (CHR ''{'') then TT_LBrace
      else if c = schar (CHR ''}'') then TT_RBrace
      else if c = schar (CHR ''?'') then TT_QMark
      else if c = schar (CHR '','') then TT_Comma
      else if c = schar (CHR ''.'') then TT_Dot
      else if c = schar (CHR '':'') then TT_Colon
      else if c = schar (CHR '';'') then TT_Semicolon
      else if c = schar (CHR ''~'') then TT_Tilde
      else TT_none)"

end
