(* ===== verification/Lexer.thy ===== *)
theory Lexer
  imports Tokens
begin

text \<open>
  The lexer (\<open>src/src/lexer.hpp\<close>, \<open>src/src/lexer.cpp\<close>).  The record \<open>lexer\<close> holds the members of
  \<open>class Lexer\<close>; the input stream is its content (\<open>input\<close>) and its read position
  (\<open>inpos\<close>).  The function-local \<open>static enum lineState\<close> of \<open>nextChar\<close> is the field
  \<open>lineState\<close>.  An access outside \<open>char buffer[maxBufferSize]\<close> is the error \<open>BufferOverrun\<close>,
  \<open>std::vector::at\<close> out of range is \<open>OutOfRange\<close> and a failing \<open>assert\<close> is \<open>AssertFailed\<close>.
  Lines and columns are unbounded here; the \<open>int\<close> of the code overflows on inputs with $2^{31}$ or more lines or columns.
\<close>

section \<open>State\<close>

datatype line_state = LS_normal | LS_cr | LS_lf | LS_crlf

record lexer =
  input :: string
  inpos :: nat
  filename :: string
  lastChar :: int
  buffer :: "nat \<Rightarrow> int"
  nextCharPos :: nat
  curBufferSize :: nat
  streamIsEof :: bool
  bufferStartOffset :: nat
  tokenString :: string
  line :: int
  column :: int
  tokenLine :: int
  tokenCol :: int
  lineStartFileOffsets :: "nat list"
  tokenLookahead :: "token list"
  lineState :: line_state

datatype lex_error =
    LexError (err_file: string) (err_line: int) (err_col: int) (err_msg: string) (err_text: string)
  | BufferOverrun
  | OutOfRange
  | AssertFailed

definition maxBufferSize :: nat where
  "maxBufferSize = 1024"

section \<open>Reading characters\<close>

text \<open>
  \<open>istream::read\<close> delivers up to \<open>maxBufferSize\<close> bytes and sets the end-of-file flag when
  fewer were available; \<open>EOF\<close> stored into a \<open>char\<close> is \<open>-1\<close>.
\<close>

definition readIntoBuffer :: "lexer \<Rightarrow> lex_error + lexer" where
  "readIntoBuffer st =
     (let data = take maxBufferSize (drop (inpos st) (input st));
          n = length data;
          st1 = st\<lparr>bufferStartOffset := inpos st, inpos := inpos st + n,
                   buffer := (\<lambda>i. if i < n then schar (data ! i) else buffer st i),
                   streamIsEof := n < maxBufferSize, curBufferSize := n, nextCharPos := 0\<rparr>
      in if streamIsEof st1
         then if n < maxBufferSize then Inr (st1\<lparr>buffer := (buffer st1)(n := -1)\<rparr>)
              else Inl BufferOverrun
         else Inr st1)"

definition isEof :: "lexer \<Rightarrow> bool" where
  "isEof st \<longleftrightarrow> streamIsEof st \<and> nextCharPos st = curBufferSize st + 1"

abbreviation c_cr :: int where "c_cr \<equiv> 13"
abbreviation c_lf :: int where "c_lf \<equiv> 10"
abbreviation c_tab :: int where "c_tab \<equiv> 9"

text \<open>The switch of \<open>nextChar\<close> that recognises CR, LF and CRLF: the new line state and whether
  control reaches the label \<open>newline\<close>.\<close>

fun lineStep :: "line_state \<Rightarrow> int \<Rightarrow> line_state \<times> bool" where
  "lineStep LS_normal c =
     (if c = c_cr then LS_cr else if c = c_lf then LS_lf else LS_normal, False)"
| "lineStep LS_cr c =
     (if c = c_cr then (LS_cr, True) else if c = c_lf then (LS_crlf, False)
      else (LS_normal, True))"
| "lineStep LS_lf c =
     (if c = c_cr then LS_cr else if c = c_lf then LS_lf else LS_normal, True)"
| "lineStep LS_crlf c =
     (if c = c_cr then LS_cr else if c = c_lf then LS_lf else LS_normal, True)"

definition nextChar :: "lexer \<Rightarrow> lex_error + lexer" where
  "nextChar st =
     (let st1 = (if lastChar st = c_tab then st\<lparr>column := column st + 1\<rparr> else st) in
      bindE (if \<not> streamIsEof st1 \<and> nextCharPos st1 = curBufferSize st1
             then readIntoBuffer st1 else Inr st1)
        (\<lambda>st2.
          if nextCharPos st2 \<ge> maxBufferSize then Inl BufferOverrun
          else
            let c = buffer st2 (nextCharPos st2);
                st3 = st2\<lparr>lastChar := c, nextCharPos := nextCharPos st2 + 1\<rparr>;
                (ls, newline) = lineStep (lineState st3) c
            in if newline
               then Inr (st3\<lparr>lineState := ls, column := 1, line := line st3 + 1,
                      lineStartFileOffsets := lineStartFileOffsets st3 @
                        [bufferStartOffset st3 + nextCharPos st3 - 1]\<rparr>)
               else Inr (st3\<lparr>lineState := ls, column := column st3 + 1\<rparr>)))"

definition appendAndNext :: "lexer \<Rightarrow> lex_error + lexer" where
  "appendAndNext st =
     nextChar (st\<lparr>tokenString := tokenString st @ [char_of_int (lastChar st)]\<rparr>)"

definition initToken :: "lexer \<Rightarrow> lexer" where
  "initToken st = st\<lparr>tokenString := [], tokenLine := line st, tokenCol := column st\<rparr>"

definition makeToken :: "ttype \<Rightarrow> lexer \<Rightarrow> token" where
  "makeToken t st = mk_token t (mk_pos (tokenLine st) (tokenCol st)) (tokenString st)"

section \<open>Errors\<close>

text \<open>\<open>isprint\<close> of the C locale.\<close>

definition isprint :: "int \<Rightarrow> bool" where
  "isprint c \<longleftrightarrow> 32 \<le> c \<and> c \<le> 126"

definition line_char :: "char \<Rightarrow> string" where
  "line_char c =
     (if c = CHR 0x09 then ''  ''
      else if \<not> isprint (int (of_char c)) then [CHR 0xC2, CHR 0xB7]
      else [c])"

text \<open>The loop of \<open>getCurrentLineFromInput\<close>: \<open>n\<close> is \<open>lineLength\<close>, the list what the stream
  still holds.\<close>

fun line_text :: "nat \<Rightarrow> string \<Rightarrow> string \<times> nat" where
  "line_text n [] = ([], n)"
| "line_text n (c # cs) =
     (if c = CHR 0x0D \<or> c = CHR 0x0A then ([], n)
      else if n + 1 < 1024
        then (let (s, m) = line_text (n + 1) cs in (line_char c @ s, m))
      else ([], n + 1))"

definition empty_line :: string where
  "empty_line = [CHR 0x1B] @ ''[0;36m'' @ [CHR 0x5C] @ ''empty-line'' @ [CHR 0x1B] @ ''[00m''"

definition getCurrentLineFromInput :: "int \<Rightarrow> lexer \<Rightarrow> lex_error + string" where
  "getCurrentLineFromInput lineNr st =
     (if 1 \<le> lineNr \<and> nat (lineNr - 1) < length (lineStartFileOffsets st)
      then let off = lineStartFileOffsets st ! nat (lineNr - 1);
               (res0, n) = line_text 0 (drop off (input st));
               res = (if n = 1024 then res0 @ ''...'' else res0)
           in Inr (if res = [] then empty_line else res)
      else Inl OutOfRange)"

definition lexFail :: "string \<Rightarrow> lexer \<Rightarrow> lex_error + 'a" where
  "lexFail msg st =
     bindE (getCurrentLineFromInput (line st) st)
       (\<lambda>inp. Inl (LexError (filename st) (line st) (column st) msg inp))"

definition hex_digit :: "nat \<Rightarrow> char" where
  "hex_digit d = (if d < 10 then char_of (48 + d) else char_of (87 + d))"

fun hex_string :: "nat \<Rightarrow> string" where
  "hex_string n =
     (if n < 16 then [hex_digit n] else hex_string (n div 16) @ [hex_digit (n mod 16)])"

declare hex_string.simps [simp del]

definition invalidCharError :: "int \<Rightarrow> lexer \<Rightarrow> lex_error + 'a" where
  "invalidCharError c st =
     (if isprint c
      then lexFail (''Invalid input character: '' @ [CHR 0x27, char_of_int c, CHR 0x27]) st
      else lexFail (''Invalid input character: '' @ [CHR 0x27, CHR 0x5C] @ ''0x''
             @ hex_string (nat (c mod 256)) @ [CHR 0x27]) st)"

section \<open>Character classes\<close>

definition isSpace :: "int \<Rightarrow> bool" where
  "isSpace c \<longleftrightarrow> c = 32 \<or> c = c_cr \<or> c = c_lf \<or> c = c_tab"

definition isAlphaOrUnderscore :: "int \<Rightarrow> bool" where
  "isAlphaOrUnderscore c \<longleftrightarrow> (97 \<le> c \<and> c \<le> 122) \<or> (65 \<le> c \<and> c \<le> 90) \<or> c = 95"

definition isAlphaNumOrUnderscore :: "int \<Rightarrow> bool" where
  "isAlphaNumOrUnderscore c \<longleftrightarrow>
     (97 \<le> c \<and> c \<le> 122) \<or> (65 \<le> c \<and> c \<le> 90) \<or> (48 \<le> c \<and> c \<le> 57) \<or> c = 95"

definition isDigit :: "int \<Rightarrow> bool" where
  "isDigit c \<longleftrightarrow> 48 \<le> c \<and> c \<le> 57"

section \<open>Progress measure\<close>

text \<open>
  Every call of \<open>nextChar\<close> that returns decreases \<open>lex_left\<close>: it either advances in the
  buffer, or refills it from a stream that has not hit its end.  All scanner loops
  terminate by this measure, on every state.
\<close>

definition lex_left :: "lexer \<Rightarrow> nat" where
  "lex_left st =
     (if streamIsEof st then 0 else 1025 * (length (input st) - inpos st + 1))
     + (1024 - nextCharPos st)"

lemma lex_left_readIntoBuffer:
  assumes "readIntoBuffer st = Inr st'" "\<not> streamIsEof st"
  shows "lex_left st' + 1 \<le> lex_left st" "nextCharPos st' = 0"
proof -
  let ?m = "length (input st) - inpos st"
  have st': "input st' = input st" "inpos st' = inpos st + min 1024 ?m"
    "streamIsEof st' = (?m < 1024)" "nextCharPos st' = 0"
    using assms by (auto simp: readIntoBuffer_def Let_def maxBufferSize_def split: if_splits)
  then show "nextCharPos st' = 0" by simp
  show "lex_left st' + 1 \<le> lex_left st"
  proof (cases "?m < 1024")
    case True
    with st' assms(2) show ?thesis by (simp add: lex_left_def)
  next
    case False
    then have "length (input st) - inpos st' + 1024 = ?m"
      using st'(2) by simp
    then have "1025 * (length (input st) - inpos st' + 1) + 1025 * 1024 = 1025 * (?m + 1)"
      by simp
    with st' assms(2) False show ?thesis by (simp add: lex_left_def)
  qed
qed

lemma lex_left_nextChar: "nextChar st = Inr st' \<Longrightarrow> lex_left st' < lex_left st"
proof -
  assume a: "nextChar st = Inr st'"
  define st1 where "st1 = (if lastChar st = c_tab then st\<lparr>column := column st + 1\<rparr> else st)"
  have f1: "lex_left st1 = lex_left st" "streamIsEof st1 = streamIsEof st"
    by (simp_all add: st1_def lex_left_def)
  from a obtain st2 where st2:
    "(if \<not> streamIsEof st1 \<and> nextCharPos st1 = curBufferSize st1 then readIntoBuffer st1
      else Inr st1) = Inr st2"
    and lt: "nextCharPos st2 < 1024"
    and st': "input st' = input st2" "inpos st' = inpos st2"
      "streamIsEof st' = streamIsEof st2" "nextCharPos st' = nextCharPos st2 + 1"
    unfolding nextChar_def Let_def st1_def [symmetric]
    by (auto simp: bindE_eq_Inr maxBufferSize_def split: if_splits prod.splits)
  have "lex_left st2 \<le> lex_left st1"
    using st2 lex_left_readIntoBuffer(1) [of st1 st2] by (auto split: if_splits)
  moreover have "lex_left st' < lex_left st2"
    using lt unfolding lex_left_def st' by auto
  ultimately show "lex_left st' < lex_left st" using f1 by simp
qed

lemma lex_left_frame [simp]:
  "lex_left (st\<lparr>tokenString := s\<rparr>) = lex_left st"
  "lex_left (initToken st) = lex_left st"
  by (simp_all add: lex_left_def initToken_def)

section \<open>Skipping comments and white space\<close>

text \<open>The inner loop of a multi line comment, entered after the opening slash and star.\<close>

function commentLoop :: "lexer \<Rightarrow> lex_error + lexer" where
  "commentLoop st =
     (if isEof st then lexFail ''unexpected end of file in multi line comment'' st
      else if bit (lastChar st) 7 then invalidCharError (lastChar st) st
      else if lastChar st = 42
        then bindE (nextChar st)
               (\<lambda>st1. if lastChar st1 = 47 then nextChar st1 else commentLoop st1)
      else bindE (nextChar st) commentLoop)"
  by pat_completeness auto
termination
  by (relation "measure lex_left") (simp_all add: lex_left_nextChar)

function spaceLoop :: "lexer \<Rightarrow> lex_error + lexer" where
  "spaceLoop st =
     bindE (nextChar st) (\<lambda>st1. if isSpace (lastChar st1) then spaceLoop st1 else Inr st1)"
  by pat_completeness auto
termination
  by (relation "measure lex_left") (simp_all add: lex_left_nextChar)

declare commentLoop.simps [simp del] spaceLoop.simps [simp del]

lemma lex_left_commentLoop: "commentLoop st = Inr st' \<Longrightarrow> lex_left st' < lex_left st"
proof (induction st rule: commentLoop.induct)
  case (1 st)
  from "1.prems" obtain st1 where st1: "nextChar st = Inr st1"
    and r: "(if lastChar st = 42 \<and> lastChar st1 = 47 then nextChar st1 else commentLoop st1) = Inr st'"
    by (subst (asm) commentLoop.simps)
      (auto simp: bindE_eq_Inr lexFail_def invalidCharError_def split: if_splits)
  from "1.prems" have g: "\<not> isEof st" "\<not> bit (lastChar st) 7"
    by (subst (asm) commentLoop.simps,
        force simp: lexFail_def bindE_eq_Inr invalidCharError_def split: if_splits)+
  have "lex_left st' < lex_left st1"
    using r lex_left_nextChar [of st1 st'] "1.IH" g st1 by (auto split: if_splits)
  with lex_left_nextChar [OF st1] show ?case by simp
qed

lemma lex_left_spaceLoop: "spaceLoop st = Inr st' \<Longrightarrow> lex_left st' < lex_left st"
proof (induction st rule: spaceLoop.induct)
  case (1 st)
  from "1.prems" obtain st1 where st1: "nextChar st = Inr st1"
    and r: "(if isSpace (lastChar st1) then spaceLoop st1 else Inr st1) = Inr st'"
    by (subst (asm) spaceLoop.simps) (auto simp: bindE_eq_Inr)
  have "lex_left st' \<le> lex_left st1"
    using r "1.IH" [OF st1] by (auto split: if_splits)
  with lex_left_nextChar [OF st1] show ?case by simp
qed

text \<open>Returns \<open>True\<close> if the character before \<open>lastChar\<close> was a slash that opens no comment.\<close>

function skipCommentsAndWhitespaces :: "lexer \<Rightarrow> lex_error + (bool \<times> lexer)" where
  "skipCommentsAndWhitespaces st =
     (if lastChar st = 47
      then bindE (nextChar (initToken st))
             (\<lambda>st1. if lastChar st1 = 42
                    then bindE (nextChar st1)
                           (\<lambda>st2. bindE (commentLoop st2) skipCommentsAndWhitespaces)
                    else Inr (True, st1))
      else if isSpace (lastChar st)
      then bindE (spaceLoop st) skipCommentsAndWhitespaces
      else Inr (False, st))"
  by pat_completeness auto
termination
proof (relation "measure lex_left")
  fix st st1 st2 st3
  assume "nextChar (initToken st) = Inr st1" "nextChar st1 = Inr st2" "commentLoop st2 = Inr st3"
  then show "(st3, st) \<in> measure lex_left"
    using lex_left_nextChar [of "initToken st" st1] lex_left_nextChar [of st1 st2]
      lex_left_commentLoop [of st2 st3] by simp
qed (simp_all add: lex_left_spaceLoop)

declare skipCommentsAndWhitespaces.simps [simp del]

section \<open>Token readers\<close>

definition emit :: "ttype \<Rightarrow> lexer \<Rightarrow> lex_error + (token \<times> lexer)" where
  "emit t st = Inr (makeToken t st, st)"

definition appendEmit :: "ttype \<Rightarrow> lexer \<Rightarrow> lex_error + (token \<times> lexer)" where
  "appendEmit t st = bindE (appendAndNext st) (emit t)"

function identLoop :: "lexer \<Rightarrow> lex_error + lexer" where
  "identLoop st =
     bindE (nextChar st)
       (\<lambda>st1. if isAlphaNumOrUnderscore (lastChar st1)
              then identLoop (st1\<lparr>tokenString := tokenString st1 @ [char_of_int (lastChar st1)]\<rparr>)
              else Inr st1)"
  by pat_completeness auto
termination
  by (relation "measure lex_left") (simp_all add: lex_left_nextChar)

function digitLoop :: "lexer \<Rightarrow> lex_error + lexer" where
  "digitLoop st =
     bindE (nextChar st)
       (\<lambda>st1. if isDigit (lastChar st1)
              then digitLoop (st1\<lparr>tokenString := tokenString st1 @ [char_of_int (lastChar st1)]\<rparr>)
              else Inr st1)"
  by pat_completeness auto
termination
  by (relation "measure lex_left") (simp_all add: lex_left_nextChar)

declare identLoop.simps [simp del] digitLoop.simps [simp del]

definition readIdentifier :: "lexer \<Rightarrow> lex_error + (token \<times> lexer)" where
  "readIdentifier st =
     bindE (identLoop (st\<lparr>tokenString := [char_of_int (lastChar st)]\<rparr>))
       (\<lambda>st1. case map_of identifierTokens (tokenString st1) of
                Some t \<Rightarrow> emit t st1
              | None \<Rightarrow> emit TT_Identifier st1)"

definition readDecNumber :: "lexer \<Rightarrow> lex_error + (token \<times> lexer)" where
  "readDecNumber st =
     (let st0 = st\<lparr>tokenString := [char_of_int (lastChar st)]\<rparr> in
      if lastChar st0 = 48 then bindE (nextChar st0) (emit TT_IntLiteral)
      else bindE (digitLoop st0) (emit TT_IntLiteral))"

definition readSlashFromSecondCharOn :: "lexer \<Rightarrow> lex_error + (token \<times> lexer)" where
  "readSlashFromSecondCharOn st =
     (let st1 = st\<lparr>tokenString := ''/''\<rparr> in
      if lastChar st1 = 61 then appendEmit TT_SlashEq st1 else emit TT_Slash st1)"

definition readStar :: "lexer \<Rightarrow> lex_error + (token \<times> lexer)" where
  "readStar st =
     bindE (nextChar (st\<lparr>tokenString := ''*''\<rparr>))
       (\<lambda>st1. if lastChar st1 = 61 then appendEmit TT_StarEq st1
              else emit TT_Star st1)"

definition readPercent :: "lexer \<Rightarrow> lex_error + (token \<times> lexer)" where
  "readPercent st =
     bindE (nextChar (st\<lparr>tokenString := ''%''\<rparr>))
       (\<lambda>st1. if lastChar st1 = 61 then appendEmit TT_PercentEq st1
              else emit TT_Percent st1)"

definition readPlus :: "lexer \<Rightarrow> lex_error + (token \<times> lexer)" where
  "readPlus st =
     bindE (nextChar (st\<lparr>tokenString := ''+''\<rparr>))
       (\<lambda>st1. if lastChar st1 = 61 then appendEmit TT_PlusEq st1
              else if lastChar st1 = 43 then appendEmit TT_PlusPlus st1
              else emit TT_Plus st1)"

definition readMinus :: "lexer \<Rightarrow> lex_error + (token \<times> lexer)" where
  "readMinus st =
     bindE (nextChar (st\<lparr>tokenString := ''-''\<rparr>))
       (\<lambda>st1. if lastChar st1 = 61 then appendEmit TT_MinusEq st1
              else if lastChar st1 = 45 then appendEmit TT_MinusMinus st1
              else emit TT_Minus st1)"

definition readLT :: "lexer \<Rightarrow> lex_error + (token \<times> lexer)" where
  "readLT st =
     bindE (nextChar (st\<lparr>tokenString := ''<''\<rparr>))
       (\<lambda>st1. if lastChar st1 = 61 then appendEmit TT_LtEq st1
              else if lastChar st1 = 60
              then bindE (appendAndNext st1)
                     (\<lambda>st2. if lastChar st2 = 61 then appendEmit TT_LtLtEq st2
                            else emit TT_LtLt st2)
              else emit TT_Lt st1)"

definition readGT :: "lexer \<Rightarrow> lex_error + (token \<times> lexer)" where
  "readGT st =
     bindE (nextChar (st\<lparr>tokenString := ''>''\<rparr>))
       (\<lambda>st1. if lastChar st1 = 61 then appendEmit TT_GtEq st1
              else if lastChar st1 = 62
              then bindE (appendAndNext st1)
                     (\<lambda>st2. if lastChar st2 = 61 then appendEmit TT_GtGtEq st2
                            else if lastChar st2 = 62
                            then bindE (appendAndNext st2)
                                   (\<lambda>st3. if lastChar st3 = 61 then appendEmit TT_GtGtGtEq st3
                                          else emit TT_GtGtGt st3)
                            else emit TT_GtGt st2)
              else emit TT_Gt st1)"

definition readEq :: "lexer \<Rightarrow> lex_error + (token \<times> lexer)" where
  "readEq st =
     bindE (nextChar (st\<lparr>tokenString := ''=''\<rparr>))
       (\<lambda>st1. if lastChar st1 = 61 then appendEmit TT_EqEq st1
              else emit TT_Eq st1)"

definition readBang :: "lexer \<Rightarrow> lex_error + (token \<times> lexer)" where
  "readBang st =
     bindE (nextChar (st\<lparr>tokenString := ''!''\<rparr>))
       (\<lambda>st1. if lastChar st1 = 61 then appendEmit TT_BangEq st1
              else emit TT_Bang st1)"

definition readAmp :: "lexer \<Rightarrow> lex_error + (token \<times> lexer)" where
  "readAmp st =
     bindE (nextChar (st\<lparr>tokenString := ''&''\<rparr>))
       (\<lambda>st1. if lastChar st1 = 38 then appendEmit TT_AmpAmp st1
              else if lastChar st1 = 61 then appendEmit TT_AmpEq st1
              else emit TT_Amp st1)"

definition readVBar :: "lexer \<Rightarrow> lex_error + (token \<times> lexer)" where
  "readVBar st =
     bindE (nextChar (st\<lparr>tokenString := ''|''\<rparr>))
       (\<lambda>st1. if lastChar st1 = 124 then appendEmit TT_VBarVBar st1
              else if lastChar st1 = 61 then appendEmit TT_VBarEq st1
              else emit TT_VBar st1)"

definition readCaret :: "lexer \<Rightarrow> lex_error + (token \<times> lexer)" where
  "readCaret st =
     bindE (nextChar (st\<lparr>tokenString := ''^''\<rparr>))
       (\<lambda>st1. if lastChar st1 = 61 then appendEmit TT_CaretEq st1
              else emit TT_Caret st1)"

definition readNextToken :: "lexer \<Rightarrow> lex_error + (token \<times> lexer)" where
  "readNextToken st0 =
     bindE (skipCommentsAndWhitespaces st0)
       (\<lambda>(slash, st1).
          if slash then readSlashFromSecondCharOn st1
          else
            let st = initToken st1; c = lastChar st in
            if isAlphaOrUnderscore c then readIdentifier st
            else if isDigit c then readDecNumber st
            else if c = 42 then readStar st
            else if c = 37 then readPercent st
            else if c = 43 then readPlus st
            else if c = 45 then readMinus st
            else if c = 60 then readLT st
            else if c = 62 then readGT st
            else if c = 38 then readAmp st
            else if c = 124 then readVBar st
            else if c = 94 then readCaret st
            else if c = 61 then readEq st
            else if c = 33 then readBang st
            else if isEof st then emit TT_Eof (st\<lparr>tokenString := ''EOF''\<rparr>)
            else
              let st' = st\<lparr>tokenString := [char_of_int c]\<rparr>; t = getSingleCharOpToken c in
              if t = TT_none then invalidCharError c st'
              else bindE (nextChar st') (emit t))"

section \<open>Lookahead queue\<close>

definition nextToken :: "lexer \<Rightarrow> lex_error + (token \<times> lexer)" where
  "nextToken st =
     (case tokenLookahead st of
        [] \<Rightarrow> readNextToken st
      | t # ts \<Rightarrow> Inr (t, st\<lparr>tokenLookahead := ts\<rparr>))"

fun pushTokens :: "nat \<Rightarrow> lexer \<Rightarrow> lex_error + lexer" where
  "pushTokens 0 st = Inr st"
| "pushTokens (Suc k) st =
     bindE (readNextToken st)
       (\<lambda>(t, st1). pushTokens k (st1\<lparr>tokenLookahead := tokenLookahead st1 @ [t]\<rparr>))"

text \<open>The loop runs \<open>i\<close> from \<open>tokenLookahead.size()\<close> to \<open>numTokens\<close> inclusive.\<close>

definition peekAhead :: "nat \<Rightarrow> lexer \<Rightarrow> lex_error + (token \<times> lexer)" where
  "peekAhead numTokens st =
     bindE (pushTokens (Suc numTokens - length (tokenLookahead st)) st)
       (\<lambda>st1. Inr (tokenLookahead st1 ! (numTokens - 1), st1))"

definition lookAhead :: "nat \<Rightarrow> lexer \<Rightarrow> lex_error + (token \<times> lexer)" where
  "lookAhead numTokens st =
     (if numTokens = 0 then Inl AssertFailed
      else if numTokens \<le> length (tokenLookahead st)
        then Inr (tokenLookahead st ! (numTokens - 1), st)
      else peekAhead numTokens st)"

section \<open>Construction\<close>

text \<open>
  The constructor on an open stream with content \<open>inp\<close>.  \<open>garbage\<close> is what the uninitialised
  \<open>buffer\<close>, \<open>tokenLine\<close> and \<open>tokenCol\<close> hold, \<open>ls\<close> what an earlier lexer of the same process left
  in the static \<open>lineState\<close>.
\<close>

definition rawLexer :: "(nat \<Rightarrow> int) \<Rightarrow> line_state \<Rightarrow> string \<Rightarrow> string \<Rightarrow> lexer" where
  "rawLexer garbage ls fname inp =
     \<lparr>input = inp, inpos = 0, filename = fname, lastChar = 0, buffer = garbage,
      nextCharPos = 0, curBufferSize = 0, streamIsEof = False, bufferStartOffset = 0,
      tokenString = [], line = 1, column = 0, tokenLine = garbage 0, tokenCol = garbage 1,
      lineStartFileOffsets = [0], tokenLookahead = [], lineState = ls\<rparr>"

definition newLexer :: "(nat \<Rightarrow> int) \<Rightarrow> line_state \<Rightarrow> string \<Rightarrow> string \<Rightarrow> lex_error + lexer" where
  "newLexer garbage ls fname inp =
     bindE (readIntoBuffer (rawLexer garbage ls fname inp)) nextChar"

end
