(* ===== verification/Ast.thy ===== *)
theory Ast
  imports Tokens "HOL-Library.Sublist"
begin

text \<open>
  The abstract syntax tree (\<open>ast.hpp\<close>, \<open>ast.cpp\<close>): semantic types, syntactic types,
  expressions, statements, members, classes and programs, with the attributes that later phases
  fill in (\<open>targetType\<close>, \<open>cfb\<close>, the definition pointers, local variable numbers and mangled
  names).  A pointer to a definition is modelled by what identifies the pointee.  A failed
  \<open>assert\<close> is the value \<open>None\<close>.  \<open>std::lower_bound\<close> is the binary search of the C++ library.
\<close>

section \<open>Semantic types\<close>

datatype type_kind = TK_Array | TK_Class | TK_Bool | TK_Int | TK_Void | TK_Null | TK_Unresolved

record sem_type =
  kind :: type_kind
  innerKind :: type_kind
  tname :: string
  dimension :: int

definition new_type :: sem_type where
  "new_type = \<lparr>kind = TK_Unresolved, innerKind = TK_Unresolved, tname = [], dimension = 0\<rparr>"

definition setInt :: "sem_type \<Rightarrow> sem_type" where "setInt t = t\<lparr>kind := TK_Int\<rparr>"
definition setBool :: "sem_type \<Rightarrow> sem_type" where "setBool t = t\<lparr>kind := TK_Bool\<rparr>"
definition setNull :: "sem_type \<Rightarrow> sem_type" where "setNull t = t\<lparr>kind := TK_Null\<rparr>"
definition setVoid :: "sem_type \<Rightarrow> sem_type" where "setVoid t = t\<lparr>kind := TK_Void\<rparr>"

definition setClass :: "string \<Rightarrow> sem_type \<Rightarrow> sem_type" where
  "setClass n t = t\<lparr>kind := TK_Class, tname := n\<rparr>"

definition setArray :: "type_kind \<Rightarrow> int \<Rightarrow> string \<Rightarrow> sem_type \<Rightarrow> sem_type option" where
  "setArray ik dim n t =
     (if ik = TK_Array then None
      else Some (t\<lparr>kind := TK_Array, tname := n, innerKind := ik, dimension := dim\<rparr>))"

definition isInt :: "sem_type \<Rightarrow> bool" where "isInt t \<longleftrightarrow> kind t = TK_Int"
definition isBool :: "sem_type \<Rightarrow> bool" where "isBool t \<longleftrightarrow> kind t = TK_Bool"
definition isClass :: "sem_type \<Rightarrow> bool" where "isClass t \<longleftrightarrow> kind t = TK_Class"
definition isArray :: "sem_type \<Rightarrow> bool" where "isArray t \<longleftrightarrow> kind t = TK_Array"
definition isNull :: "sem_type \<Rightarrow> bool" where "isNull t \<longleftrightarrow> kind t = TK_Null"
definition isVoid :: "sem_type \<Rightarrow> bool" where "isVoid t \<longleftrightarrow> kind t = TK_Void"

definition isVoidArray :: "sem_type \<Rightarrow> bool" where
  "isVoidArray t \<longleftrightarrow> isArray t \<and> innerKind t = TK_Void"

definition isVoidOrVoidArray :: "sem_type \<Rightarrow> bool" where
  "isVoidOrVoidArray t \<longleftrightarrow> isVoid t \<or> isVoidArray t"

lemmas is_defs [mjc_defs] =
  isInt_def isBool_def isClass_def isArray_def isNull_def isVoid_def isVoidArray_def
  isVoidOrVoidArray_def setInt_def setBool_def setNull_def setVoid_def setClass_def setArray_def
  new_type_def

definition getArrayInnerType :: "sem_type \<Rightarrow> sem_type option" where
  "getArrayInnerType t =
     (if kind t = TK_Array \<and> dimension t > 0 then
        let res = t\<lparr>dimension := dimension t - 1\<rparr> in
        Some (if dimension res = 0 then res\<lparr>kind := innerKind res, innerKind := TK_Unresolved\<rparr>
              else res)
      else None)"

definition sem_eq :: "sem_type \<Rightarrow> sem_type \<Rightarrow> bool" where
  "sem_eq t other = (case kind t of
       TK_Class \<Rightarrow> kind other = TK_Class \<and> tname t = tname other
     | TK_Array \<Rightarrow>
         if kind other \<noteq> TK_Array \<or> dimension t \<noteq> dimension other \<or> innerKind t \<noteq> innerKind other
         then False
         else if innerKind t = TK_Class then tname t = tname other
         else True
     | _ \<Rightarrow> kind t = kind other)"

definition sem_ge :: "sem_type \<Rightarrow> sem_type \<Rightarrow> bool" where
  "sem_ge t other =
     (if (kind t = TK_Class \<or> kind t = TK_Array) \<and> kind other = TK_Null then True
      else sem_eq t other)"

definition calculateSize :: "sem_type \<Rightarrow> nat option" where
  "calculateSize t = (case kind t of
       TK_Array \<Rightarrow> Some 8
     | TK_Class \<Rightarrow> Some 8
     | TK_Bool \<Rightarrow> Some 1
     | TK_Int \<Rightarrow> Some 4
     | _ \<Rightarrow> None)"

datatype control_flow = MayContinue | Return

definition combineCFB :: "control_flow \<Rightarrow> control_flow \<Rightarrow> control_flow" where
  "combineCFB c1 c2 = (if c1 = c2 then c1 else MayContinue)"

definition typeKindToString :: "type_kind \<Rightarrow> string option" where
  "typeKindToString k = (case k of
       TK_Bool \<Rightarrow> Some ''bool''
     | TK_Int \<Rightarrow> Some ''int''
     | TK_Class \<Rightarrow> Some ''Class''
     | TK_Array \<Rightarrow> None
     | TK_Void \<Rightarrow> Some ''void''
     | TK_Null \<Rightarrow> Some ''null''
     | TK_Unresolved \<Rightarrow> Some ''Unresolved'')"

definition type_print :: "sem_type \<Rightarrow> string option" where
  "type_print t = (case kind t of
       TK_Class \<Rightarrow> map_option (\<lambda>s. s @ ''('' @ tname t @ '')'') (typeKindToString (kind t))
     | TK_Array \<Rightarrow> map_option (\<lambda>s. s
           @ (if innerKind t = TK_Class then ''('' @ tname t @ '')'' else [])
           @ concat (replicate (nat (dimension t)) ''[]''))
         (typeKindToString (innerKind t))
     | k \<Rightarrow> typeKindToString k)"

section \<open>Syntactic types\<close>

datatype prim_type = PT_Boolean | PT_Int | PT_Void | PT_None

text \<open>The last component of \<open>ClassType\<close> is the class that \<open>classDef\<close> points to.\<close>

datatype basic_type =
    PrimitiveType source_location prim_type
  | ClassType source_location string "string option"

datatype ast_type =
    BasicType basic_type
  | ArrayType source_location basic_type int

definition getTypeForToken :: "ttype \<Rightarrow> prim_type" where
  "getTypeForToken t = (case t of
       TT_Boolean \<Rightarrow> PT_Boolean
     | TT_Int \<Rightarrow> PT_Int
     | TT_Void \<Rightarrow> PT_Void
     | _ \<Rightarrow> PT_None)"

fun basic_getSemaType :: "basic_type \<Rightarrow> sem_type option" where
  "basic_getSemaType (PrimitiveType _ p) = (case p of
       PT_Boolean \<Rightarrow> Some (setBool new_type)
     | PT_Int \<Rightarrow> Some (setInt new_type)
     | PT_Void \<Rightarrow> Some (setVoid new_type)
     | PT_None \<Rightarrow> None)"
| "basic_getSemaType (ClassType _ n _) = Some (setClass n new_type)"

fun getSemaType :: "ast_type \<Rightarrow> sem_type option" where
  "getSemaType (BasicType b) = basic_getSemaType b"
| "getSemaType (ArrayType _ b dim) =
     Option.bind (basic_getSemaType b) (\<lambda>inner. setArray (kind inner) dim (tname inner) new_type)"

fun basic_getMangledName :: "basic_type \<Rightarrow> string option" where
  "basic_getMangledName (PrimitiveType _ p) = (case p of
       PT_Boolean \<Rightarrow> Some ''b''
     | PT_Int \<Rightarrow> Some ''i''
     | PT_Void \<Rightarrow> Some ''v''
     | PT_None \<Rightarrow> None)"
| "basic_getMangledName (ClassType _ n _) = Some (nat_to_string (length n) @ n)"

fun getMangledName :: "ast_type \<Rightarrow> string option" where
  "getMangledName (BasicType b) = basic_getMangledName b"
| "getMangledName (ArrayType _ b dim) =
     map_option (\<lambda>s. replicate (nat dim) CHR ''P'' @ s) (basic_getMangledName b)"

fun type_loc :: "ast_type \<Rightarrow> source_location" where
  "type_loc (BasicType (PrimitiveType l _)) = l"
| "type_loc (BasicType (ClassType l _ _)) = l"
| "type_loc (ArrayType l _ _) = l"

section \<open>Members and definitions\<close>

record field =
  f_loc :: source_location
  f_type :: ast_type
  f_name :: string

record parameter =
  p_loc :: source_location
  p_type :: ast_type
  p_name :: string
  p_idx :: int

record var_decl =
  vd_loc :: source_location
  vd_type :: ast_type
  vd_name :: string
  vd_idx :: int

text \<open>What a \<open>SymbolTable::Definition\<close> pointer can point to.\<close>

datatype sym_def =
    Def_Field field
  | Def_Parameter parameter
  | Def_VarDecl var_decl
  | Def_DummySystem
  | Def_MainArg

fun def_getType :: "sym_def \<Rightarrow> ast_type option" where
  "def_getType (Def_Field f) = Some (f_type f)"
| "def_getType (Def_Parameter p) = Some (p_type p)"
| "def_getType (Def_VarDecl d) = Some (vd_type d)"
| "def_getType Def_DummySystem = None"
| "def_getType Def_MainArg = None"

text \<open>What \<open>FieldAccess::fieldDef\<close> can point to: a field of a class, or one of the two dummies.\<close>

datatype field_ref =
    FR_Field string field
  | FR_SystemOut
  | FR_SystemIn

section \<open>Expressions and statements\<close>

datatype binop =
    Op_None | Op_Assign | Op_Or | Op_And | Op_Equals | Op_NotEquals | Op_Less | Op_LessEquals
  | Op_Greater | Op_GreaterEquals | Op_Plus | Op_Minus | Op_Mul | Op_Div | Op_Mod

datatype unop = UOp_Not | UOp_Neg | UOp_None

definition binary_getOpForToken :: "ttype \<Rightarrow> binop" where
  "binary_getOpForToken t = (case t of
       TT_Eq \<Rightarrow> Op_Assign
     | TT_VBarVBar \<Rightarrow> Op_Or
     | TT_AmpAmp \<Rightarrow> Op_And
     | TT_EqEq \<Rightarrow> Op_Equals
     | TT_BangEq \<Rightarrow> Op_NotEquals
     | TT_Lt \<Rightarrow> Op_Less
     | TT_LtEq \<Rightarrow> Op_LessEquals
     | TT_Gt \<Rightarrow> Op_Greater
     | TT_GtEq \<Rightarrow> Op_GreaterEquals
     | TT_Plus \<Rightarrow> Op_Plus
     | TT_Minus \<Rightarrow> Op_Minus
     | TT_Star \<Rightarrow> Op_Mul
     | TT_Slash \<Rightarrow> Op_Div
     | TT_Percent \<Rightarrow> Op_Mod
     | _ \<Rightarrow> Op_None)"

definition unary_getOpForToken :: "ttype \<Rightarrow> unop" where
  "unary_getOpForToken t = (case t of
       TT_Minus \<Rightarrow> UOp_Neg
     | TT_Bang \<Rightarrow> UOp_Not
     | _ \<Rightarrow> UOp_None)"

text \<open>
  Every expression starts with its location and its \<open>targetType\<close>.  \<open>NewObjectExpression\<close>,
  \<open>VarRef\<close>, \<open>MethodInvocation\<close> and \<open>FieldAccess\<close> also have their definition pointer; the one of a
  method invocation is the class and the name of the method, followed by \<open>isSysout\<close>.
\<close>

datatype expr =
    NewArrayExpression (eloc: source_location) (targetType: sem_type) ast_type expr
  | NewObjectExpression (eloc: source_location) (targetType: sem_type) string "string option"
  | IntLiteral (eloc: source_location) (targetType: sem_type) int
  | BoolLiteral (eloc: source_location) (targetType: sem_type) bool
  | NullLiteral (eloc: source_location) (targetType: sem_type)
  | ThisLiteral (eloc: source_location) (targetType: sem_type)
  | VarRef (eloc: source_location) (targetType: sem_type) string "sym_def option"
  | MethodInvocation (eloc: source_location) (targetType: sem_type) expr string "expr list"
      "(string \<times> string) option" bool
  | FieldAccess (eloc: source_location) (targetType: sem_type) expr string "field_ref option"
  | ArrayAccess (eloc: source_location) (targetType: sem_type) expr expr
  | BinaryExpression (eloc: source_location) (targetType: sem_type) expr expr binop
  | UnaryExpression (eloc: source_location) (targetType: sem_type) expr unop

text \<open>
  Every statement starts with its location and its control flow behaviour; the flag of a block is
  \<open>containsNothingExceptOneSingleLonelyEmtpyExpression\<close>.  A null statement pointer is \<open>None\<close>.
\<close>

datatype stmt =
    Block (sloc: source_location) (cfb: control_flow) "stmt list" bool
  | ExpressionStatement (sloc: source_location) (cfb: control_flow) expr
  | IfStatement (sloc: source_location) (cfb: control_flow) expr "stmt option" "stmt option"
  | WhileStatement (sloc: source_location) (cfb: control_flow) expr "stmt option"
  | ReturnStatement (sloc: source_location) (cfb: control_flow) "expr option"
  | VariableDeclaration (sloc: source_location) (cfb: control_flow) ast_type string "expr option"
      "int option"

definition getArgumentsLoc :: "source_location \<Rightarrow> expr list \<Rightarrow> source_location" where
  "getArgumentsLoc l args =
     (if args \<noteq> [] then mk_loc (startToken (eloc (hd args))) (endToken (eloc (last args)))
      else mk_loc (endToken l) (endToken l))"

record regular_method =
  rm_loc :: source_location
  rm_returnType :: ast_type
  rm_name :: string
  rm_mangledName :: string
  rm_parameters :: "parameter list"
  rm_block :: stmt
  rm_varDecls :: "var_decl list"

record main_method =
  mm_loc :: source_location
  mm_name :: string
  mm_argName :: string
  mm_block :: stmt
  mm_varDecls :: "var_decl list"

record klass =
  c_loc :: source_location
  c_name :: string
  c_fields :: "field list"
  c_methods :: "regular_method list"
  c_mainMethods :: "main_method list"

record program =
  pr_loc :: source_location
  pr_classes :: "klass list"

definition mkMangledName :: "string \<Rightarrow> string \<Rightarrow> parameter list \<Rightarrow> string option" where
  "mkMangledName className n params =
     map_option (\<lambda>ps. ''_ZN'' @ nat_to_string (length className) @ className
                     @ nat_to_string (length n) @ n @ ''E'' @ ps)
       (if params = [] then Some ''v''
        else map_option concat (those (map (\<lambda>p. getMangledName (p_type p)) params)))"

definition createMangledName :: "string \<Rightarrow> regular_method \<Rightarrow> regular_method option" where
  "createMangledName className m =
     map_option (\<lambda>s. m\<lparr>rm_mangledName := s\<rparr>) (mkMangledName className (rm_name m) (rm_parameters m))"

section \<open>Sorting and searching by name\<close>

definition sortFields :: "field list \<Rightarrow> field list" where
  "sortFields fs = sort_key f_name fs"

definition sortMethods :: "regular_method list \<Rightarrow> regular_method list" where
  "sortMethods ms = sort_key rm_name ms"

definition sortMembers :: "klass \<Rightarrow> klass" where
  "sortMembers k = k\<lparr>c_fields := sortFields (c_fields k), c_methods := sortMethods (c_methods k)\<rparr>"

text \<open>\<open>std::lower_bound\<close> on \<open>xs\<close> from index \<open>first\<close>, over \<open>len\<close> elements.\<close>

function lower_bound :: "('a \<Rightarrow> 'b::linorder) \<Rightarrow> 'a list \<Rightarrow> 'b \<Rightarrow> nat \<Rightarrow> nat \<Rightarrow> nat" where
  "lower_bound f xs key first len =
     (if len = 0 then first
      else let half = len div 2; mid = first + half in
        if f (xs ! mid) < key then lower_bound f xs key (Suc mid) (len - half - 1)
        else lower_bound f xs key first half)"
  by pat_completeness auto
termination by (relation "measure (\<lambda>(_, _, _, _, len). len)") auto

declare lower_bound.simps [simp del]

definition find_by_name :: "('a \<Rightarrow> string) \<Rightarrow> 'a list \<Rightarrow> string \<Rightarrow> 'a option" where
  "find_by_name f xs n =
     (let pos = lower_bound f xs n 0 (length xs) in
      if pos = length xs \<or> n < f (xs ! pos) then None else Some (xs ! pos))"

definition findClassByName :: "program \<Rightarrow> string \<Rightarrow> klass option" where
  "findClassByName p n = find_by_name c_name (pr_classes p) n"

definition findMethodInClass :: "klass \<Rightarrow> string \<Rightarrow> regular_method option" where
  "findMethodInClass k n = find_by_name rm_name (c_methods k) n"

definition findFieldInClass :: "klass \<Rightarrow> string \<Rightarrow> field option" where
  "findFieldInClass k n = find_by_name f_name (c_fields k) n"

end
