(* ===== verification/Symbol_Table.thy ===== *)
theory Symbol_Table
  imports Mjc_Prelude
begin

text \<open>
  The string table and the symbol table (\<open>symboltable.hpp\<close>, \<open>symboltable.cpp\<close>).  Symbols are
  shared mutable objects, one per name: \<open>store\<close> maps a name to the contents of its symbol.  A
  \<open>Scope\<close> is a heap object, so its identity is an address; \<open>new Scope\<close> returns some address that
  no live scope has, which is an argument of \<open>enterScope\<close>.  The log \<open>changes\<close> holds what the
  destructors of the \<open>Change\<close> objects restore.

  The locale \<open>scoped_map\<close> is the contract of a block-structured map; the symbol table
  implements it by a log of changes, and client lemmas are proved once from the contract.
\<close>

section \<open>The string table\<close>

text \<open>\<open>StringTable::symbols\<close> holds one symbol per interned name, identified by the name.\<close>

type_synonym string_table = "string list"

definition findOrInsert :: "string \<Rightarrow> string_table \<Rightarrow> string \<times> string_table" where
  "findOrInsert n tbl = (if n \<in> set tbl then (n, tbl) else (n, tbl @ [n]))"

lemma findOrInsert_distinct: "distinct tbl \<Longrightarrow> distinct (snd (findOrInsert n tbl))"
  by (simp add: findOrInsert_def)

section \<open>The symbol table\<close>

type_synonym addr = nat

record 'd symbol =
  sym_scope :: "addr option"
  sym_def :: "'d option"

record scope =
  sc_addr :: addr
  oldSize :: nat

record 'd change =
  ch_sym :: string
  prevDef :: "'d option"
  prevScope :: "addr option"

record 'd symtab =
  store :: "string \<Rightarrow> 'd symbol"
  changes :: "'d change list"
  scopes :: "scope list"

definition currentScope :: "'d symtab \<Rightarrow> addr option" where
  "currentScope st = (case scopes st of [] \<Rightarrow> None | s # _ \<Rightarrow> Some (sc_addr s))"

definition new_symtab :: "'d symtab" where
  "new_symtab = \<lparr>store = (\<lambda>_. \<lparr>sym_scope = None, sym_def = None\<rparr>), changes = [], scopes = []\<rparr>"

text \<open>The constructor and the destructor of \<open>Change\<close>.\<close>

definition new_change :: "string \<Rightarrow> 'd \<Rightarrow> addr option \<Rightarrow> (string \<Rightarrow> 'd symbol)
    \<Rightarrow> 'd change \<times> (string \<Rightarrow> 'd symbol)" where
  "new_change n d sc m =
     (\<lparr>ch_sym = n, prevDef = sym_def (m n), prevScope = sym_scope (m n)\<rparr>,
      m(n := \<lparr>sym_scope = sc, sym_def = Some d\<rparr>))"

definition undo_change :: "'d change \<Rightarrow> (string \<Rightarrow> 'd symbol) \<Rightarrow> (string \<Rightarrow> 'd symbol)" where
  "undo_change c m = m(ch_sym c := \<lparr>sym_scope = prevScope c, sym_def = prevDef c\<rparr>)"

definition st_insert :: "string \<Rightarrow> 'd \<Rightarrow> 'd symtab \<Rightarrow> 'd symtab" where
  "st_insert n d st =
     (let (c, m) = new_change n d (currentScope st) (store st)
      in st\<lparr>store := m, changes := changes st @ [c]\<rparr>)"

definition enterScope :: "addr \<Rightarrow> 'd symtab \<Rightarrow> 'd symtab" where
  "enterScope a st = st\<lparr>scopes := \<lparr>sc_addr = a, oldSize = length (changes st)\<rparr> # scopes st\<rparr>"

text \<open>The loop of \<open>leaveScope\<close>: changes are destroyed from the back.\<close>

function pop_changes :: "nat \<Rightarrow> 'd change list \<Rightarrow> (string \<Rightarrow> 'd symbol)
    \<Rightarrow> 'd change list \<times> (string \<Rightarrow> 'd symbol)" where
  "pop_changes old chs m =
     (if length chs > old then pop_changes old (butlast chs) (undo_change (last chs) m) else (chs, m))"
  by pat_completeness auto
termination by (relation "measure (\<lambda>(_, chs, _). length chs)") auto

declare pop_changes.simps [simp del]

text \<open>Leaving when no scope is open dereferences a null pointer: \<open>None\<close>.\<close>

definition leaveScope :: "'d symtab \<Rightarrow> 'd symtab option" where
  "leaveScope st = (case scopes st of
       [] \<Rightarrow> None
     | s # rest \<Rightarrow>
         let (chs, m) = pop_changes (oldSize s) (changes st) (store st)
         in Some (st\<lparr>store := m, changes := chs, scopes := rest\<rparr>))"

definition st_lookup :: "string \<Rightarrow> 'd symtab \<Rightarrow> 'd option" where
  "st_lookup n st = sym_def (store st n)"

definition isDefinedInCurrentScope :: "string \<Rightarrow> 'd symtab \<Rightarrow> bool" where
  "isDefinedInCurrentScope n st \<longleftrightarrow> sym_scope (store st n) = currentScope st"

section \<open>The contract of a block-structured map\<close>

fun frames_lookup :: "(string \<rightharpoonup> 'd) list \<Rightarrow> string \<Rightarrow> 'd option" where
  "frames_lookup [] n = None"
| "frames_lookup (f # fs) n = (case f n of Some d \<Rightarrow> Some d | None \<Rightarrow> frames_lookup fs n)"

locale scoped_map =
  fixes rep :: "'s \<Rightarrow> (string \<rightharpoonup> 'd) list \<Rightarrow> bool"
    and fresh :: "addr \<Rightarrow> 's \<Rightarrow> bool"
    and enter :: "addr \<Rightarrow> 's \<Rightarrow> 's"
    and leave :: "'s \<Rightarrow> 's option"
    and ins :: "string \<Rightarrow> 'd \<Rightarrow> 's \<Rightarrow> 's"
    and look :: "string \<Rightarrow> 's \<Rightarrow> 'd option"
    and defd :: "string \<Rightarrow> 's \<Rightarrow> bool"
  assumes enter_rep: "rep s fs \<Longrightarrow> fresh a s \<Longrightarrow> rep (enter a s) (Map.empty # fs)"
    and leave_rep: "rep s (f # fs) \<Longrightarrow> \<exists>s'. leave s = Some s' \<and> rep s' fs"
    and ins_rep: "rep s (f # fs) \<Longrightarrow> rep (ins n d s) (f(n \<mapsto> d) # fs)"
    and look_rep: "rep s fs \<Longrightarrow> look n s = frames_lookup fs n"
    and defd_rep: "rep s (f # fs) \<Longrightarrow> defd n s \<longleftrightarrow> f n \<noteq> None"
    and fresh_ex: "\<exists>a. fresh a s"
begin

text \<open>A block: some scope operations, well nested, that end at the depth where they started.\<close>

lemma insert_then_lookup: "rep s (f # fs) \<Longrightarrow> look n (ins n d s) = Some d"
  using look_rep [OF ins_rep [of s f fs n d]] by simp

lemma insert_other_lookup: "rep s (f # fs) \<Longrightarrow> m \<noteq> n \<Longrightarrow> look m (ins n d s) = look m s"
  using ins_rep [of s f fs n d] by (simp add: look_rep)

lemma inserts_rep:
  "rep s (f # fs) \<Longrightarrow> rep (fold (\<lambda>(n, d). ins n d) xs s) (fold (\<lambda>(n, d) m. m(n \<mapsto> d)) xs f # fs)"
  by (induction xs arbitrary: s f) (auto intro: ins_rep)

lemma block_restores:
  assumes "rep s fs" "fresh a s"
  shows "\<exists>s'. leave (fold (\<lambda>(n, d). ins n d) xs (enter a s)) = Some s' \<and> rep s' fs
    \<and> (\<forall>n. look n s' = look n s)"
  using leave_rep [OF inserts_rep [OF enter_rep [OF assms]]] assms(1) look_rep by fastforce

end

section \<open>The symbol table implements it\<close>

fun undo_all :: "'d change list \<Rightarrow> (string \<Rightarrow> 'd symbol) \<Rightarrow> (string \<Rightarrow> 'd symbol)" where
  "undo_all [] m = m"
| "undo_all (c # cs) m = undo_change c (undo_all cs m)"

lemma undo_all_snoc: "undo_all (cs @ [c]) m = undo_all cs (undo_change c m)"
  by (induction cs) simp_all

lemma undo_new: "undo_change (fst (new_change n d sc m)) (snd (new_change n d sc m)) = m"
  by (auto simp: undo_change_def new_change_def)

lemma pop_changes_undo:
  "old \<le> length chs \<Longrightarrow> pop_changes old chs m = (take old chs, undo_all (drop old chs) m)"
proof (induction chs arbitrary: m rule: rev_induct)
  case Nil
  then show ?case by (simp add: pop_changes.simps)
next
  case (snoc c chs)
  show ?case
  proof (cases "old = Suc (length chs)")
    case True
    then show ?thesis by (simp add: pop_changes.simps)
  next
    case False
    with snoc show ?thesis
      by (simp add: pop_changes.simps [of old "chs @ [c]"] undo_all_snoc)
  qed
qed

text \<open>
  \<open>st_rep\<close>: the frames from the innermost scope outwards.  Every frame overrides the store of
  the enclosing scopes, and undoing its changes gives that store back.
\<close>

inductive frames_rep :: "(string \<Rightarrow> 'd symbol) \<Rightarrow> 'd change list \<Rightarrow> scope list
    \<Rightarrow> (string \<rightharpoonup> 'd) list \<Rightarrow> bool" where
  bottom: "(\<forall>n. m n = \<lparr>sym_scope = None, sym_def = None\<rparr>) \<Longrightarrow> frames_rep m [] [] []"
| frame: "frames_rep m0 (take (oldSize s) chs) ss fs \<Longrightarrow> oldSize s \<le> length chs
    \<Longrightarrow> undo_all (drop (oldSize s) chs) m = m0
    \<Longrightarrow> (\<forall>n. m n = (case f n of Some d \<Rightarrow> \<lparr>sym_scope = Some (sc_addr s), sym_def = Some d\<rparr>
                      | None \<Rightarrow> m0 n))
    \<Longrightarrow> sc_addr s \<notin> sc_addr ` set ss
    \<Longrightarrow> frames_rep m chs (s # ss) (f # fs)"

inductive_cases frames_rep_consE: "frames_rep m chs ss (f # fs)"
inductive_cases frames_rep_nilE: "frames_rep m chs [] fs"

definition st_rep :: "'d symtab \<Rightarrow> (string \<rightharpoonup> 'd) list \<Rightarrow> bool" where
  "st_rep st fs \<longleftrightarrow> frames_rep (store st) (changes st) (scopes st) fs"

definition fresh_scope :: "addr \<Rightarrow> 'd symtab \<Rightarrow> bool" where
  "fresh_scope a st \<longleftrightarrow> a \<notin> sc_addr ` set (scopes st)"

lemma frames_rep_lookup: "frames_rep m chs ss fs \<Longrightarrow> sym_def (m n) = frames_lookup fs n"
  by (induction rule: frames_rep.induct) (auto split: option.splits)

text \<open>No symbol refers to a scope that is not open.\<close>

lemma frames_rep_scope:
  "frames_rep m chs ss fs \<Longrightarrow> sym_scope (m n) = Some a \<Longrightarrow> a \<in> sc_addr ` set ss"
  by (induction rule: frames_rep.induct) (auto split: option.splits)

lemma enterScope_rep:
  assumes "st_rep st fs" "fresh_scope a st"
  shows "st_rep (enterScope a st) (Map.empty # fs)"
  using assms unfolding st_rep_def fresh_scope_def enterScope_def
  by (auto intro!: frames_rep.frame)

lemma st_insert_rep:
  assumes "st_rep st (f # fs)"
  shows "st_rep (st_insert n d st) (f(n \<mapsto> d) # fs)"
proof -
  from assms obtain s ss m0 where s: "scopes st = s # ss"
    and r: "frames_rep m0 (take (oldSize s) (changes st)) ss fs" "oldSize s \<le> length (changes st)"
      "undo_all (drop (oldSize s) (changes st)) (store st) = m0"
      "\<forall>n. store st n = (case f n of Some d \<Rightarrow> \<lparr>sym_scope = Some (sc_addr s), sym_def = Some d\<rparr>
                      | None \<Rightarrow> m0 n)" "sc_addr s \<notin> sc_addr ` set ss"
    unfolding st_rep_def by (elim frames_rep_consE) auto
  define c where "c = fst (new_change n d (Some (sc_addr s)) (store st))"
  define m where "m = snd (new_change n d (Some (sc_addr s)) (store st))"
  have i: "st_insert n d st = st\<lparr>store := m, changes := changes st @ [c]\<rparr>"
    by (simp add: st_insert_def currentScope_def s c_def m_def split: prod.split)
  have "undo_all (drop (oldSize s) (changes st @ [c])) m = m0"
    using r(2,3) undo_new [of n d "Some (sc_addr s)" "store st"]
    by (simp add: undo_all_snoc c_def m_def)
  moreover have "\<forall>k. m k = (case (f(n \<mapsto> d)) k of
      Some d \<Rightarrow> \<lparr>sym_scope = Some (sc_addr s), sym_def = Some d\<rparr> | None \<Rightarrow> m0 k)"
    using r(4) by (simp add: m_def new_change_def)
  ultimately show ?thesis
    using r unfolding st_rep_def i by (auto simp: s intro!: frames_rep.frame)
qed

lemma leaveScope_rep:
  assumes "st_rep st (f # fs)"
  shows "\<exists>st'. leaveScope st = Some st' \<and> st_rep st' fs"
proof -
  from assms obtain s ss m0 where s: "scopes st = s # ss"
    and r: "frames_rep m0 (take (oldSize s) (changes st)) ss fs" "oldSize s \<le> length (changes st)"
      "undo_all (drop (oldSize s) (changes st)) (store st) = m0"
    unfolding st_rep_def by (elim frames_rep_consE) auto
  with pop_changes_undo [OF r(2), of "store st"] show ?thesis
    by (simp add: leaveScope_def st_rep_def)
qed

lemma isDefined_rep:
  assumes "st_rep st (f # fs)"
  shows "isDefinedInCurrentScope n st \<longleftrightarrow> f n \<noteq> None"
proof -
  from assms obtain s ss m0 where s: "scopes st = s # ss"
    and r: "frames_rep m0 (take (oldSize s) (changes st)) ss fs"
      "\<forall>n. store st n = (case f n of Some d \<Rightarrow> \<lparr>sym_scope = Some (sc_addr s), sym_def = Some d\<rparr>
                      | None \<Rightarrow> m0 n)" "sc_addr s \<notin> sc_addr ` set ss"
    unfolding st_rep_def by (elim frames_rep_consE) auto
  with frames_rep_scope [OF r(1), of n "sc_addr s"] show ?thesis
    by (auto simp: isDefinedInCurrentScope_def currentScope_def split: option.splits)
qed

lemma fresh_scope_ex: "\<exists>a. fresh_scope a st"
  using ex_new_if_finite [of "sc_addr ` set (scopes st)"] by (auto simp: fresh_scope_def)

lemma st_lookup_rep: "st_rep st fs \<Longrightarrow> st_lookup n st = frames_lookup fs n"
  by (simp add: st_lookup_def st_rep_def frames_rep_lookup)

interpretation symtab: scoped_map st_rep fresh_scope enterScope leaveScope st_insert st_lookup
  isDefinedInCurrentScope
  by unfold_locales
    (simp_all add: enterScope_rep leaveScope_rep st_insert_rep isDefined_rep fresh_scope_ex
      st_lookup_rep)

lemma new_symtab_rep [simp]: "st_rep new_symtab []"
  by (simp add: st_rep_def new_symtab_def frames_rep.bottom)

lemma new_symtab_fresh [simp]: "fresh_scope a new_symtab"
  by (simp add: fresh_scope_def new_symtab_def)

section \<open>Properties\<close>

text \<open>Sequences of operations; \<open>Enter\<close> carries the address that the allocator returns.\<close>

datatype 'd st_op = Enter addr | Leave | Insert string 'd

fun st_step :: "'d st_op \<Rightarrow> 'd symtab \<Rightarrow> 'd symtab option" where
  "st_step (Enter a) st = (if fresh_scope a st then Some (enterScope a st) else None)"
| "st_step Leave st = leaveScope st"
| "st_step (Insert n d) st = Some (st_insert n d st)"

fun st_run :: "'d st_op list \<Rightarrow> 'd symtab \<Rightarrow> 'd symtab option" where
  "st_run [] st = Some st"
| "st_run (x # xs) st = Option.bind (st_step x st) (st_run xs)"

text \<open>The same operations on a stack of maps; inserting needs an open scope.\<close>

fun fr_step :: "'d st_op \<Rightarrow> (string \<rightharpoonup> 'd) list \<Rightarrow> (string \<rightharpoonup> 'd) list option" where
  "fr_step (Enter a) fs = Some (Map.empty # fs)"
| "fr_step Leave fs = (case fs of [] \<Rightarrow> None | f # fs' \<Rightarrow> Some fs')"
| "fr_step (Insert n d) fs = (case fs of [] \<Rightarrow> None | f # fs' \<Rightarrow> Some (f(n \<mapsto> d) # fs'))"

fun fr_run :: "'d st_op list \<Rightarrow> (string \<rightharpoonup> 'd) list \<Rightarrow> (string \<rightharpoonup> 'd) list option" where
  "fr_run [] fs = Some fs"
| "fr_run (x # xs) fs = Option.bind (fr_step x fs) (fr_run xs)"

lemma st_step_rep:
  assumes "st_rep st fs" "st_step x st = Some st'" "fr_step x fs = Some fs'"
  shows "st_rep st' fs'"
  using assms symtab.enter_rep symtab.leave_rep symtab.ins_rep
  by (cases x) (fastforce split: list.splits if_splits)+

lemma st_run_rep:
  "st_rep st fs \<Longrightarrow> st_run xs st = Some st' \<Longrightarrow> fr_run xs fs = Some fs' \<Longrightarrow> st_rep st' fs'"
proof (induction xs arbitrary: st fs)
  case (Cons x xs)
  from Cons.prems(2) obtain st1 where st1: "st_step x st = Some st1" "st_run xs st1 = Some st'"
    by (auto simp: bind_eq_Some_conv)
  from Cons.prems(3) obtain fs1 where fs1: "fr_step x fs = Some fs1" "fr_run xs fs1 = Some fs'"
    by (auto simp: bind_eq_Some_conv)
  from Cons.IH [OF st_step_rep [OF Cons.prems(1) st1(1) fs1(1)] st1(2) fs1(2)] show ?case .
qed auto

text \<open>
  C7: The symbol table refines a stack of maps.  After any sequence of \<open>enterScope\<close>,
  \<open>leaveScope\<close> and \<open>insert\<close> on a new table (whatever addresses the allocator returns for the
  scopes, also addresses of scopes that were left before), \<open>lookup\<close> returns the innermost
  definition of the name, and \<open>isDefinedInCurrentScope\<close> holds exactly for the names inserted
  since the current scope was entered.
\<close>

theorem symbol_table_refines_stack:
  assumes "st_run xs new_symtab = Some st" "fr_run xs [] = Some fs"
  shows "st_lookup n st = frames_lookup fs n
    \<and> (fs \<noteq> [] \<longrightarrow> isDefinedInCurrentScope n st = (hd fs n \<noteq> None))"
proof -
  have "st_rep st fs" using st_run_rep [OF new_symtab_rep assms] .
  then show ?thesis
    using symtab.look_rep [of st fs n] symtab.defd_rep [of st "hd fs" "tl fs" n] by (cases fs) auto
qed

theorem symbol_table_refines_stack_witness:
  "(\<exists>st. st_run [Enter 7, Insert ''x'' (1::nat), Enter 9, Insert ''x'' 2, Leave, Enter 9] new_symtab = Some st
    \<and> st_lookup ''x'' st = Some 1 \<and> \<not> isDefinedInCurrentScope ''x'' st)"
proof -
  let ?xs = "[Enter 7, Insert ''x'' (1::nat), Enter 9, Insert ''x'' 2, Leave, Enter 9]"
  have "st_run ?xs new_symtab \<noteq> None" by code_simp
  then obtain st where st: "st_run ?xs new_symtab = Some st" by blast
  have fr: "fr_run ?xs [] = Some [Map.empty, [''x'' \<mapsto> 1]]" by simp
  from symbol_table_refines_stack [OF st fr, of "''x''"] st show ?thesis by auto
qed

text \<open>
  C18: Leaving a scope undoes it.  Entering a scope, inserting any definitions (also several
  for one name) and leaving the scope gives every name the definition it had before.
\<close>

theorem scope_restores:
  assumes "st_rep st fs" "fresh_scope a st"
  shows "\<exists>st'. leaveScope (fold (\<lambda>(n, d). st_insert n d) xs (enterScope a st)) = Some st'
    \<and> st_rep st' fs \<and> (\<forall>n. st_lookup n st' = st_lookup n st)"
  by (rule symtab.block_restores [OF assms])

theorem scope_restores_witness:
  "\<exists>st'. leaveScope (fold (\<lambda>(n, d). st_insert n d) [(''x'', 1), (''y'', 2), (''x'', 3)]
      (enterScope 0 new_symtab)) = Some st' \<and> st_lookup ''x'' st' = (None :: nat option)"
  using scope_restores [OF new_symtab_rep new_symtab_fresh [of 0],
      of "[(''x'', 1), (''y'', 2), (''x'', 3 :: nat)]"]
  by (auto simp: new_symtab_def st_lookup_def)

end
