(* ===== verification/Semantic.thy ===== *)
theory Semantic
  imports Lexer Ast Symbol_Table
begin

text \<open>
  The semantic analysis (\<open>semantic_visitor.hpp\<close>, \<open>semantic_visitor.cpp\<close>): name resolution, type
  checking, control flow behaviour with removal of dead code, and name mangling.  A \<open>visit\<close>
  function returns the node with its attributes set, or the error that is thrown.  Visiting an
  expression reads the state of the visitor; visiting a statement or a member also changes it.
  The function for an expression class (such as \<open>visitBinaryExpression\<close>) takes the children as
  \<open>acceptChildren\<close> leaves them; \<open>visitExpr\<close> is \<open>accept\<close>.
\<close>

section \<open>State and errors\<close>

datatype sem_error =
    SemanticError source_location string string string bool
  | LineError lex_error
  | AssertFail
  | NullDeref

datatype method_ref =
    RegularM regular_method
  | MainM main_method

text \<open>
  \<open>s_alloc\<close> is the allocator: the address that \<open>new Scope\<close> returns when the scopes with the given
  addresses are live.  \<open>s_varDecls\<close> is \<open>varDecls\<close> of the current method.
\<close>

record sstate =
  s_lexer :: lexer
  s_program :: program
  s_class :: "klass option"
  s_method :: "method_ref option"
  s_varNr :: int
  s_mainCount :: int
  s_symTbl :: "sym_def symtab"
  s_varDecls :: "var_decl list"
  s_alloc :: "addr list \<Rightarrow> addr"

definition newSemanticVisitor :: "(addr list \<Rightarrow> addr) \<Rightarrow> lexer \<Rightarrow> program \<Rightarrow> sstate" where
  "newSemanticVisitor alloc l p =
     \<lparr>s_lexer = l, s_program = p, s_class = None, s_method = None, s_varNr = 0, s_mainCount = 0,
      s_symTbl = new_symtab, s_varDecls = [], s_alloc = alloc\<rparr>"

definition sem_fail :: "sstate \<Rightarrow> source_location \<Rightarrow> string \<Rightarrow> bool \<Rightarrow> sem_error + 'a" where
  "sem_fail st loc msg atEnd =
     (case getCurrentLineFromInput
             (pos_line (if atEnd then endToken loc else startToken loc)) (s_lexer st) of
        Inl e \<Rightarrow> Inl (LineError e)
      | Inr ln \<Rightarrow> Inl (SemanticError loc (filename (s_lexer st)) msg ln atEnd))"

definition semaType :: "ast_type \<Rightarrow> sem_error + sem_type" where
  "semaType t = (case getSemaType t of None \<Rightarrow> Inl AssertFail | Some s \<Rightarrow> Inr s)"

definition printType :: "sem_type \<Rightarrow> sem_error + string" where
  "printType t = (case type_print t of None \<Rightarrow> Inl AssertFail | Some s \<Rightarrow> Inr s)"

definition sq :: "string \<Rightarrow> string" where
  "sq s = CHR 0x27 # s @ [CHR 0x27]"

definition sem_enterScope :: "sstate \<Rightarrow> sstate" where
  "sem_enterScope st =
     st\<lparr>s_symTbl := enterScope (s_alloc st (map sc_addr (scopes (s_symTbl st)))) (s_symTbl st)\<rparr>"

definition sem_leaveScope :: "sstate \<Rightarrow> sem_error + sstate" where
  "sem_leaveScope st = (case leaveScope (s_symTbl st) of
       None \<Rightarrow> Inl NullDeref
     | Some tbl \<Rightarrow> Inr (st\<lparr>s_symTbl := tbl\<rparr>))"

definition sem_insert :: "string \<Rightarrow> sym_def \<Rightarrow> sstate \<Rightarrow> sstate" where
  "sem_insert n d st = st\<lparr>s_symTbl := st_insert n d (s_symTbl st)\<rparr>"

definition isMainM :: "method_ref option \<Rightarrow> bool" where
  "isMainM m = (case m of Some (MainM _) \<Rightarrow> True | _ \<Rightarrow> False)"

definition isRegularM :: "method_ref option \<Rightarrow> bool" where
  "isRegularM m = (case m of Some (RegularM _) \<Rightarrow> True | _ \<Rightarrow> False)"

fun method_returnType :: "method_ref \<Rightarrow> ast_type" where
  "method_returnType (RegularM m) = rm_returnType m"
| "method_returnType (MainM m) = BasicType (PrimitiveType no_loc PT_Void)"

section \<open>Types\<close>

fun visitBasicType :: "sstate \<Rightarrow> basic_type \<Rightarrow> sem_error + basic_type" where
  "visitBasicType st (PrimitiveType l p) = Inr (PrimitiveType l p)"
| "visitBasicType st (ClassType l n d) =
     (case findClassByName (s_program st) n of
        None \<Rightarrow> sem_fail st l (''Undefined class '' @ sq n) False
      | Some k \<Rightarrow> Inr (ClassType l n (Some (c_name k))))"

fun visitType :: "sstate \<Rightarrow> ast_type \<Rightarrow> sem_error + ast_type" where
  "visitType st (BasicType b) = bindE (visitBasicType st b) (\<lambda>b'. Inr (BasicType b'))"
| "visitType st (ArrayType l b d) = bindE (visitBasicType st b) (\<lambda>b'. Inr (ArrayType l b' d))"

section \<open>Expressions\<close>

definition visitVarRef :: "sstate \<Rightarrow> source_location \<Rightarrow> sem_type \<Rightarrow> string \<Rightarrow> sem_error + expr" where
  "visitVarRef st loc tt n =
     (case st_lookup n (s_symTbl st) of
        None \<Rightarrow>
          if n = ''System'' then Inr (VarRef loc tt n (Some Def_DummySystem))
          else sem_fail st loc (''Unknown variable '' @ sq n) False
      | Some d \<Rightarrow>
          if d = Def_MainArg then
            sem_fail st loc ''Access to the parameter of a main method is forbidden'' False
          else if isMainM (s_method st) \<and> (case d of Def_Field _ \<Rightarrow> True | _ \<Rightarrow> False) then
            sem_fail st loc ''Cannot use fields in static method'' False
          else (case def_getType d of
              None \<Rightarrow> Inl AssertFail
            | Some t \<Rightarrow> bindE (semaType t) (\<lambda>s. Inr (VarRef loc s n (Some d)))))"

definition visitNewObjectExpression :: "sstate \<Rightarrow> source_location \<Rightarrow> sem_type \<Rightarrow> string
    \<Rightarrow> sem_error + expr" where
  "visitNewObjectExpression st loc tt n =
     (case findClassByName (s_program st) n of
        None \<Rightarrow> sem_fail st loc (''Undefined class '' @ sq n) False
      | Some k \<Rightarrow> Inr (NewObjectExpression loc (setClass n tt) n (Some (c_name k))))"

definition visitThisLiteral :: "sstate \<Rightarrow> source_location \<Rightarrow> sem_type \<Rightarrow> sem_error + expr" where
  "visitThisLiteral st loc tt =
     (case s_class st of
        None \<Rightarrow> sem_fail st loc (sq ''this'' @ '' may not be used outside of classes'') False
      | Some k \<Rightarrow>
          if isRegularM (s_method st) then Inr (ThisLiteral loc (setClass (c_name k) tt))
          else sem_fail st loc ''Cannot access class members in static method'' False)"

text \<open>The classes derived from \<open>PrimaryRValueExpression\<close> or \<open>RValueExpression\<close>.\<close>

fun is_rvalue :: "expr \<Rightarrow> bool" where
  "is_rvalue (VarRef _ _ _ _) = False"
| "is_rvalue (FieldAccess _ _ _ _ _) = False"
| "is_rvalue (ArrayAccess _ _ _ _) = False"
| "is_rvalue _ = True"

definition visitBinaryExpression :: "sstate \<Rightarrow> source_location \<Rightarrow> sem_type \<Rightarrow> expr \<Rightarrow> expr \<Rightarrow> binop
    \<Rightarrow> sem_error + expr" where
  "visitBinaryExpression st loc tt left right op =
     (let res = (\<lambda>t. Inr (BinaryExpression loc t left right op));
          lt = targetType left; rt = targetType right in
      if op \<in> set [Op_Plus, Op_Minus, Op_Mul, Op_Div, Op_Mod] then
        if \<not> isInt rt \<or> \<not> isInt lt then sem_fail st loc ''operands must both be int'' False
        else res (setInt tt)
      else if op \<in> set [Op_Less, Op_LessEquals, Op_Greater, Op_GreaterEquals] then
        if \<not> isInt rt \<or> \<not> isInt lt then sem_fail st loc ''operands must both be int'' False
        else res (setBool tt)
      else if op \<in> set [Op_Or, Op_And] then
        if \<not> isBool rt \<or> \<not> isBool lt then sem_fail st loc ''operands must both be bool'' False
        else res (setBool tt)
      else if op = Op_Assign then
        if is_rvalue left then
          sem_fail st (eloc left) ''Left hand side of assignment may not be an rvalue'' False
        else if \<not> sem_ge lt rt then
          bindE (printType rt) (\<lambda>rs. bindE (printType lt) (\<lambda>ls.
            sem_fail st loc (''Can'' @ [CHR 0x27] @ ''t assign value of type '' @ rs @ '' to variable of type '' @ ls) False))
        else res lt
      else if op \<in> set [Op_Equals, Op_NotEquals] then
        if \<not> isVoid lt \<and> \<not> isVoid rt \<and> (sem_ge lt rt \<or> sem_ge rt lt) then res (setBool tt)
        else
          bindE (printType lt) (\<lambda>ls. bindE (printType rt) (\<lambda>rs.
            sem_fail st loc (''Can'' @ [CHR 0x27] @ ''t compare expression of type '' @ sq ls
              @ '' to expression of type '' @ sq rs) False))
      else Inl AssertFail)"

definition visitNewArrayExpression :: "sstate \<Rightarrow> source_location \<Rightarrow> sem_type \<Rightarrow> ast_type \<Rightarrow> expr
    \<Rightarrow> sem_error + expr" where
  "visitNewArrayExpression st loc tt arrayType sz =
     (if \<not> isInt (targetType sz) then sem_fail st (eloc sz) ''Array indices must be ints'' False
      else bindE (semaType arrayType) (\<lambda>s.
        if isVoidOrVoidArray s then
          bindE (printType s) (\<lambda>m. sem_fail st loc (''Cannot create new object of type '' @ sq m) False)
        else Inr (NewArrayExpression loc s arrayType sz)))"

text \<open>The definition that an expression's \<open>VarRef\<close> or \<open>FieldAccess\<close> pointer has.\<close>

fun varref_def :: "expr \<Rightarrow> sym_def option" where
  "varref_def (VarRef _ _ _ d) = d"
| "varref_def _ = None"

fun fieldaccess_def :: "expr \<Rightarrow> field_ref option" where
  "fieldaccess_def (FieldAccess _ _ _ _ d) = d"
| "fieldaccess_def _ = None"

fun is_VarRef :: "expr \<Rightarrow> bool" where
  "is_VarRef (VarRef _ _ _ _) = True"
| "is_VarRef _ = False"

definition visitFieldAccess :: "sstate \<Rightarrow> source_location \<Rightarrow> sem_type \<Rightarrow> expr \<Rightarrow> string
    \<Rightarrow> sem_error + expr" where
  "visitFieldAccess st loc tt left n =
     (if varref_def left = Some Def_DummySystem then
        if n = ''out'' then Inr (FieldAccess loc tt left n (Some FR_SystemOut))
        else if n = ''in'' then Inr (FieldAccess loc tt left n (Some FR_SystemIn))
        else sem_fail st loc (''invalid field access '' @ sq n @ '' on '' @ sq ''System'') False
      else if fieldaccess_def left = Some FR_SystemOut then
        sem_fail st loc (''invalid access '' @ sq n @ '' on System.out'') False
      else if fieldaccess_def left = Some FR_SystemIn then
        sem_fail st loc (''invalid access '' @ sq n @ '' on System.in'') False
      else
        let lhsType = targetType left in
        if \<not> isClass lhsType then
          bindE (printType lhsType) (\<lambda>m. sem_fail st (eloc left)
            (''Left hand side of field access must be class type object, but is '' @ sq m) False)
        else (case findClassByName (s_program st) (tname lhsType) of
            None \<Rightarrow> Inl AssertFail
          | Some cls \<Rightarrow>
              (case findFieldInClass cls n of
                 None \<Rightarrow> sem_fail st loc (''Unknown field '' @ n @ '' in class '' @ tname lhsType) False
               | Some f \<Rightarrow> bindE (semaType (f_type f)) (\<lambda>s.
                   Inr (FieldAccess loc s left n (Some (FR_Field (c_name cls) f)))))))"

text \<open>The calls on \<open>System.out\<close> and \<open>System.in\<close>.\<close>

definition visitSystemCall :: "sstate \<Rightarrow> source_location \<Rightarrow> sem_type \<Rightarrow> expr \<Rightarrow> string \<Rightarrow> expr list
    \<Rightarrow> sem_error + expr" where
  "visitSystemCall st loc tt left n args =
     (let sysout = (\<lambda>t. Inr (MethodInvocation loc t left n args None True)) in
      if fieldaccess_def left = Some FR_SystemOut then
        if n = ''println'' \<or> n = ''write'' then
          if length args \<noteq> 1 then
            sem_fail st loc (''System.out.'' @ n @ '' takes exactly one int argument, ''
              @ nat_to_string (length args) @ '' given'') False
          else if \<not> isInt (targetType (hd args)) then
            bindE (printType (targetType (hd args))) (\<lambda>m.
              sem_fail st loc (''System.out.'' @ n @ '' takes one int argument, but argument is of type ''
                @ m) False)
          else sysout (setVoid tt)
        else if n = ''flush'' then
          if args \<noteq> [] then sem_fail st loc ''System.out.flush takes no arguments'' False
          else sysout (setVoid tt)
        else sem_fail st loc (''Invalid method call '' @ sq n @ '' on '' @ sq ''System.out'') False
      else
        if n = ''read'' then
          if args \<noteq> [] then sem_fail st loc ''System.out.flush takes no arguments'' False
          else sysout (setInt tt)
        else sem_fail st loc (''Invalid method call '' @ sq n @ '' on '' @ sq ''System.in'') False)"

text \<open>The loop over parameters and arguments.\<close>

fun checkArgs :: "sstate \<Rightarrow> parameter list \<Rightarrow> expr list \<Rightarrow> sem_error + unit" where
  "checkArgs st (p # ps) (a # as) =
     bindE (semaType (p_type p)) (\<lambda>s.
     if \<not> sem_ge s (targetType a) then
       bindE (printType s) (\<lambda>m1. bindE (printType (targetType a)) (\<lambda>m2.
         sem_fail st (eloc a) (''Invalid Argument type. Expected '' @ m1 @ '' but have '' @ m2) False))
     else checkArgs st ps as)"
| "checkArgs st _ _ = Inr ()"

text \<open>The checks for a receiver that is a variable, before the general ones.\<close>

definition checkVarRefReceiver :: "sstate \<Rightarrow> source_location \<Rightarrow> expr \<Rightarrow> string \<Rightarrow> sem_error + unit" where
  "checkVarRefReceiver st loc left n =
     (if is_VarRef left then
        (case varref_def left of
           None \<Rightarrow> Inl NullDeref
         | Some d \<Rightarrow>
             if d = Def_DummySystem then
               sem_fail st loc (''invalid method call '' @ sq n @ '' on '' @ sq ''System'') False
             else (case def_getType d of
                 None \<Rightarrow> Inl AssertFail
               | Some t \<Rightarrow> bindE (semaType t) (\<lambda>s.
                   if kind s = TK_Class then
                     (case findClassByName (s_program st) (tname s) of
                        None \<Rightarrow> Inl AssertFail
                      | Some k \<Rightarrow>
                          (case findMethodInClass k n of
                             None \<Rightarrow> sem_fail st loc (''Class '' @ tname s
                               @ '' does not contain a method '' @ n) False
                           | Some m \<Rightarrow> Inr ()))
                   else sem_fail st loc ''Methods can only be invoked on class types'' False)))
      else Inr ())"

definition visitMethodInvocation :: "sstate \<Rightarrow> source_location \<Rightarrow> sem_type \<Rightarrow> expr \<Rightarrow> string \<Rightarrow> expr list
    \<Rightarrow> sem_error + expr" where
  "visitMethodInvocation st loc tt left n args =
     bindE (checkVarRefReceiver st loc left n) (\<lambda>_.
     if fieldaccess_def left = Some FR_SystemOut \<or> fieldaccess_def left = Some FR_SystemIn then
       visitSystemCall st loc tt left n args
     else if \<not> isClass (targetType left) then
       sem_fail st loc ''Methods can only be called on class types'' False
     else (case findClassByName (s_program st) (tname (targetType left)) of
         None \<Rightarrow> Inl NullDeref
       | Some k \<Rightarrow>
           (case findMethodInClass k n of
              None \<Rightarrow> (case s_class st of
                  None \<Rightarrow> Inl NullDeref
                | Some cur \<Rightarrow> sem_fail st loc (''Class '' @ c_name cur
                    @ '' does not have a method called '' @ sq n) False)
            | Some m \<Rightarrow>
                if length (rm_parameters m) \<noteq> length args then
                  sem_fail st (getArgumentsLoc loc args) (''invalid number of arguments: expected ''
                    @ nat_to_string (length (rm_parameters m)) @ '' but have ''
                    @ nat_to_string (length args)) False
                else
                  bindE (checkArgs st (rm_parameters m) args) (\<lambda>_.
                  bindE (semaType (rm_returnType m)) (\<lambda>s.
                    Inr (MethodInvocation loc s left n args (Some (c_name k, rm_name m)) False))))))"

definition visitUnaryExpression :: "sstate \<Rightarrow> source_location \<Rightarrow> sem_type \<Rightarrow> expr \<Rightarrow> unop
    \<Rightarrow> sem_error + expr" where
  "visitUnaryExpression st loc tt inner op =
     (if op = UOp_Neg then
        if \<not> isInt (targetType inner) then
          bindE (printType (targetType inner)) (\<lambda>m.
            sem_fail st (eloc inner) (''Negation requires int expression, not '' @ m) False)
        else Inr (UnaryExpression loc (setInt tt) inner op)
      else if op = UOp_Not then
        if \<not> isBool (targetType inner) then
          bindE (printType (targetType inner)) (\<lambda>m.
            sem_fail st (eloc inner) (''Negation requires boolean expression, not '' @ m) False)
        else Inr (UnaryExpression loc (setBool tt) inner op)
      else Inl AssertFail)"

definition visitArrayAccess :: "sstate \<Rightarrow> source_location \<Rightarrow> expr \<Rightarrow> expr \<Rightarrow> sem_error + expr" where
  "visitArrayAccess st loc array index =
     (if \<not> isInt (targetType index) then
        bindE (printType (targetType index)) (\<lambda>m.
          sem_fail st (eloc index) (''Array indices must be integer expressions, but have '' @ m) False)
      else if \<not> isArray (targetType array) then
        bindE (printType (targetType index)) (\<lambda>m.
          sem_fail st (eloc array) (''Array access on non-array expression, but have '' @ m) False)
      else
        let t = (targetType array)\<lparr>dimension := dimension (targetType array) - 1\<rparr> in
        Inr (ArrayAccess loc (if dimension t = 0 then t\<lparr>kind := innerKind t\<rparr> else t) array index))"

fun visitExpr :: "sstate \<Rightarrow> expr \<Rightarrow> sem_error + expr"
  and visitExprs :: "sstate \<Rightarrow> expr list \<Rightarrow> sem_error + expr list" where
  "visitExpr st (NewArrayExpression loc tt t sz) =
     bindE (visitType st t) (\<lambda>t'. bindE (visitExpr st sz) (\<lambda>sz'. visitNewArrayExpression st loc tt t' sz'))"
| "visitExpr st (NewObjectExpression loc tt n d) = visitNewObjectExpression st loc tt n"
| "visitExpr st (IntLiteral loc tt v) = Inr (IntLiteral loc (setInt tt) v)"
| "visitExpr st (BoolLiteral loc tt v) = Inr (BoolLiteral loc (setBool tt) v)"
| "visitExpr st (NullLiteral loc tt) = Inr (NullLiteral loc (setNull tt))"
| "visitExpr st (ThisLiteral loc tt) = visitThisLiteral st loc tt"
| "visitExpr st (VarRef loc tt n d) = visitVarRef st loc tt n"
| "visitExpr st (MethodInvocation loc tt l n args d b) =
     bindE (visitExpr st l) (\<lambda>l'. bindE (visitExprs st args) (\<lambda>args'.
       visitMethodInvocation st loc tt l' n args'))"
| "visitExpr st (FieldAccess loc tt l n d) =
     bindE (visitExpr st l) (\<lambda>l'. visitFieldAccess st loc tt l' n)"
| "visitExpr st (ArrayAccess loc tt a i) =
     bindE (visitExpr st a) (\<lambda>a'. bindE (visitExpr st i) (\<lambda>i'. visitArrayAccess st loc a' i'))"
| "visitExpr st (BinaryExpression loc tt l r op) =
     bindE (visitExpr st l) (\<lambda>l'. bindE (visitExpr st r) (\<lambda>r'. visitBinaryExpression st loc tt l' r' op))"
| "visitExpr st (UnaryExpression loc tt e op) =
     bindE (visitExpr st e) (\<lambda>e'. visitUnaryExpression st loc tt e' op)"
| "visitExprs st [] = Inr []"
| "visitExprs st (e # es) =
     bindE (visitExpr st e) (\<lambda>e'. bindE (visitExprs st es) (\<lambda>es'. Inr (e' # es')))"

section \<open>Statements\<close>

text \<open>
  The loop of \<open>visitBlock\<close> after its children were visited: the statements up to the first that
  returns, and the control flow behaviour of the block.
\<close>

fun cutDead :: "stmt list \<Rightarrow> stmt list \<times> control_flow" where
  "cutDead [] = ([], MayContinue)"
| "cutDead (s # ss) =
     (if cfb s = Return then ([s], Return) else let (ss', c) = cutDead ss in (s # ss', c))"

definition declare_var :: "sstate \<Rightarrow> source_location \<Rightarrow> ast_type \<Rightarrow> string \<Rightarrow> sem_error + (int \<times> sstate)" where
  "declare_var st loc t n =
     (let already = sem_fail st loc (''Variable '' @ sq n @ '' already defined'') False in
      if isDefinedInCurrentScope n (s_symTbl st) then already
      else if (case st_lookup n (s_symTbl st) of
                 None \<Rightarrow> False | Some (Def_Field _) \<Rightarrow> False | Some _ \<Rightarrow> True) then already
      else
        let i = s_varNr st;
            d = \<lparr>vd_loc = loc, vd_type = t, vd_name = n, vd_idx = i\<rparr>;
            st1 = (sem_insert n (Def_VarDecl d) st)\<lparr>s_varNr := i + 1\<rparr>
        in case s_method st of
             None \<Rightarrow> Inl NullDeref
           | Some _ \<Rightarrow> Inr (i, st1\<lparr>s_varDecls := s_varDecls st1 @ [d]\<rparr>))"

definition visitOptExpr :: "sstate \<Rightarrow> expr option \<Rightarrow> sem_error + expr option" where
  "visitOptExpr st e = (case e of None \<Rightarrow> Inr None | Some x \<Rightarrow> bindE (visitExpr st x) (\<lambda>x'. Inr (Some x')))"

definition visitVariableDeclaration :: "source_location \<Rightarrow> control_flow \<Rightarrow> ast_type \<Rightarrow> string
    \<Rightarrow> expr option \<Rightarrow> sstate \<Rightarrow> sem_error + stmt \<times> sstate" where
  "visitVariableDeclaration loc c t n initializer st =
     bindE (declare_var st loc t n) (\<lambda>(i, st1).
     bindE (visitType st1 t) (\<lambda>t'.
     bindE (visitOptExpr st1 initializer) (\<lambda>init'.
     bindE (semaType t') (\<lambda>s.
     bindE (case init' of
              None \<Rightarrow> Inr ()
            | Some e \<Rightarrow>
                if \<not> sem_ge s (targetType e) then
                  bindE (printType (targetType e)) (\<lambda>m1. bindE (printType s) (\<lambda>m2.
                    sem_fail st1 loc (''May not assign from '' @ m1 @ '' to '' @ m2) False))
                else Inr ()) (\<lambda>_.
     if isVoidOrVoidArray s then
       bindE (printType s) (\<lambda>m. sem_fail st1 loc (''Variable may not be of type '' @ sq m) False)
     else Inr (VariableDeclaration loc c t' n init' (Some i), st1))))))"

definition visitReturnStatement :: "source_location \<Rightarrow> expr option \<Rightarrow> sstate \<Rightarrow> sem_error + stmt" where
  "visitReturnStatement loc e st =
     bindE (visitOptExpr st e) (\<lambda>e'.
     case s_method st of
       None \<Rightarrow> sem_fail st loc ''Return statement outside of Method'' False
     | Some m \<Rightarrow>
         bindE (semaType (method_returnType m)) (\<lambda>rt.
         case e' of
           None \<Rightarrow>
             if isVoid rt then Inr (ReturnStatement loc Return None)
             else sem_fail st loc ''Non-Void methods must return a value'' False
         | Some x \<Rightarrow>
             if isVoid rt then sem_fail st (eloc x) ''Void method may not return any value'' False
             else if \<not> sem_ge rt (targetType x) then
               bindE (printType (targetType x)) (\<lambda>m1. bindE (printType rt) (\<lambda>m2.
                 sem_fail st (eloc x) (''May not return expression of type '' @ sq m1
                   @ '' from method with return type '' @ sq m2) False))
             else Inr (ReturnStatement loc Return (Some x))))"

definition checkCondition :: "sstate \<Rightarrow> string \<Rightarrow> expr \<Rightarrow> sem_error + unit" where
  "checkCondition st what c =
     (if \<not> isBool (targetType c) then
        bindE (printType (targetType c)) (\<lambda>m.
          sem_fail st (eloc c) (what @ '' condition must be boolean, not '' @ m) False)
      else Inr ())"

definition optCFB :: "stmt option \<Rightarrow> control_flow" where
  "optCFB o' = (case o' of None \<Rightarrow> MayContinue | Some s \<Rightarrow> cfb s)"

fun visitStmt :: "stmt \<Rightarrow> sstate \<Rightarrow> sem_error + stmt \<times> sstate"
  and visitStmts :: "stmt list \<Rightarrow> sstate \<Rightarrow> sem_error + stmt list \<times> sstate" where
  "visitStmt (Block loc c ss flag) st =
     bindE (visitStmts ss (sem_enterScope st)) (\<lambda>(ss', st1).
     bindE (sem_leaveScope st1) (\<lambda>st2.
     let (ss'', c') = cutDead ss' in Inr (Block loc c' ss'' flag, st2)))"
| "visitStmt (ExpressionStatement loc c e) st =
     bindE (visitExpr st e) (\<lambda>e'. Inr (ExpressionStatement loc c e', st))"
| "visitStmt (IfStatement loc c e t f) st =
     bindE (visitExpr st e) (\<lambda>e'.
     bindE (case t of None \<Rightarrow> Inr (None, st)
            | Some s \<Rightarrow> bindE (visitStmt s st) (\<lambda>(s', st1). Inr (Some s', st1))) (\<lambda>(t', st1).
     bindE (case f of None \<Rightarrow> Inr (None, st1)
            | Some s \<Rightarrow> bindE (visitStmt s st1) (\<lambda>(s', st2). Inr (Some s', st2))) (\<lambda>(f', st2).
     bindE (checkCondition st2 ''if'' e') (\<lambda>_.
       Inr (IfStatement loc (combineCFB (optCFB t') (optCFB f')) e' t' f', st2)))))"
| "visitStmt (WhileStatement loc c e b) st =
     bindE (visitExpr st e) (\<lambda>e'.
     bindE (case b of None \<Rightarrow> Inr (None, st)
            | Some s \<Rightarrow> bindE (visitStmt s st) (\<lambda>(s', st1). Inr (Some s', st1))) (\<lambda>(b', st1).
     bindE (checkCondition st1 ''while'' e') (\<lambda>_.
       Inr (WhileStatement loc MayContinue e' b', st1))))"
| "visitStmt (ReturnStatement loc c e) st =
     bindE (visitReturnStatement loc e st) (\<lambda>s. Inr (s, st))"
| "visitStmt (VariableDeclaration loc c t n e i) st = visitVariableDeclaration loc c t n e st"
| "visitStmts [] st = Inr ([], st)"
| "visitStmts (s # ss) st =
     bindE (visitStmt s st) (\<lambda>(s', st1).
     bindE (visitStmts ss st1) (\<lambda>(ss', st2). Inr (s' # ss', st2)))"

section \<open>Members\<close>

definition visitParameter :: "parameter \<Rightarrow> sstate \<Rightarrow> sem_error + parameter \<times> sstate" where
  "visitParameter p st =
     bindE (visitType st (p_type p)) (\<lambda>t.
     if isDefinedInCurrentScope (p_name p) (s_symTbl st) then
       sem_fail st (p_loc p) (''Parameter '' @ sq (p_name p) @ '' already defined'') False
     else bindE (semaType t) (\<lambda>s.
       if isVoidOrVoidArray s then
         bindE (printType s) (\<lambda>m. sem_fail st (type_loc t) (''Parameter may not be of type '' @ sq m) False)
       else let p' = p\<lparr>p_type := t\<rparr> in Inr (p', sem_insert (p_name p) (Def_Parameter p') st)))"

fun visitParameters :: "parameter list \<Rightarrow> sstate \<Rightarrow> sem_error + parameter list \<times> sstate" where
  "visitParameters [] st = Inr ([], st)"
| "visitParameters (p # ps) st =
     bindE (visitParameter p st) (\<lambda>(p', st1).
     bindE (visitParameters ps st1) (\<lambda>(ps', st2). Inr (p' # ps', st2)))"

definition visitRegularMethod :: "regular_method \<Rightarrow> sstate \<Rightarrow> sem_error + regular_method \<times> sstate" where
  "visitRegularMethod m st =
     (let st0 = (sem_enterScope st)\<lparr>s_method := Some (RegularM m), s_varNr := 0, s_varDecls := []\<rparr> in
      bindE (visitType st0 (rm_returnType m)) (\<lambda>rt.
      bindE (visitParameters (rm_parameters m) st0) (\<lambda>(ps, st1).
      bindE (visitStmt (rm_block m) st1) (\<lambda>(b, st2).
      bindE (sem_leaveScope st2) (\<lambda>st3.
      let st4 = st3\<lparr>s_method := None\<rparr>;
          m' = m\<lparr>rm_returnType := rt, rm_parameters := ps, rm_block := b, rm_varDecls := s_varDecls st2\<rparr>
      in bindE (semaType rt) (\<lambda>s.
      if isVoidArray s then
        sem_fail st4 (rm_loc m) (''Method return type cannot be of type '' @ sq ''void[]'') False
      else if \<not> isVoid s \<and> cfb b \<noteq> Return then
        sem_fail st4 (rm_loc m) ''Non-Void method must return a value on every path'' True
      else (case s_class st4 of
          None \<Rightarrow> Inl NullDeref
        | Some k \<Rightarrow>
            (case createMangledName (c_name k) m' of
               None \<Rightarrow> Inl AssertFail
             | Some m'' \<Rightarrow> Inr (m'', st4)))))))))"

definition visitMainMethod :: "main_method \<Rightarrow> sstate \<Rightarrow> sem_error + main_method \<times> sstate" where
  "visitMainMethod m st =
     (let st0 = sem_insert (mm_argName m) Def_MainArg
                  (st\<lparr>s_method := Some (MainM m), s_varNr := 0, s_varDecls := []\<rparr>) in
      bindE (visitStmt (mm_block m) st0) (\<lambda>(b, st1).
      Inr (m\<lparr>mm_block := b, mm_varDecls := s_varDecls st1\<rparr>,
           st1\<lparr>s_method := None,
               s_mainCount := (if mm_name m = ''main'' then s_mainCount st1 + 1 else s_mainCount st1)\<rparr>)))"

definition visitField :: "field \<Rightarrow> sstate \<Rightarrow> sem_error + field" where
  "visitField f st =
     bindE (visitType st (f_type f)) (\<lambda>t.
     bindE (semaType t) (\<lambda>s.
     if isVoidOrVoidArray s then
       bindE (printType s) (\<lambda>m. sem_fail st (type_loc t) (''Field may not be of type '' @ sq m) False)
     else Inr (f\<lparr>f_type := t\<rparr>)))"

text \<open>\<open>std::adjacent_find\<close>: the second of the first two adjacent elements with the same name.\<close>

fun adjacent_dup :: "('a \<Rightarrow> string) \<Rightarrow> 'a list \<Rightarrow> 'a option" where
  "adjacent_dup f (x # y # xs) = (if f x = f y then Some y else adjacent_dup f (y # xs))"
| "adjacent_dup f _ = None"

definition checkForDuplicates :: "sstate \<Rightarrow> ('a \<Rightarrow> string) \<Rightarrow> ('a \<Rightarrow> source_location) \<Rightarrow> string \<Rightarrow> 'a list
    \<Rightarrow> sem_error + 'a list" where
  "checkForDuplicates st nm loc what xs =
     (let ys = sort_key nm xs in
      case adjacent_dup nm ys of
        None \<Rightarrow> Inr ys
      | Some d \<Rightarrow> sem_fail st (loc d) (''invalid duplicate definition of '' @ what) False)"

fun mapM_st :: "('a \<Rightarrow> sstate \<Rightarrow> sem_error + 'a \<times> sstate) \<Rightarrow> 'a list \<Rightarrow> sstate
    \<Rightarrow> sem_error + 'a list \<times> sstate" where
  "mapM_st f [] st = Inr ([], st)"
| "mapM_st f (x # xs) st =
     bindE (f x st) (\<lambda>(x', st1). bindE (mapM_st f xs st1) (\<lambda>(xs', st2). Inr (x' # xs', st2)))"

definition visitFieldList :: "field list \<Rightarrow> sstate \<Rightarrow> sem_error + field list \<times> sstate" where
  "visitFieldList fs st =
     bindE (checkForDuplicates st f_name f_loc ''field'' fs) (\<lambda>fs1.
     let st1 = fold (\<lambda>f. sem_insert (f_name f) (Def_Field f)) fs1 st in
     mapM_st (\<lambda>f s. bindE (visitField f s) (\<lambda>f'. Inr (f', s))) (sort_key f_name fs1) st1)"

definition visitMethodList :: "regular_method list \<Rightarrow> sstate \<Rightarrow> sem_error + regular_method list \<times> sstate" where
  "visitMethodList ms st =
     bindE (checkForDuplicates st rm_name rm_loc ''method'' ms) (\<lambda>ms1.
     mapM_st visitRegularMethod (sort_key rm_name ms1) st)"

definition visitMainMethodList :: "main_method list \<Rightarrow> sstate \<Rightarrow> sem_error + main_method list \<times> sstate" where
  "visitMainMethodList ms st =
     (if length ms > 1 then
        sem_fail st (mm_loc (ms ! 1)) ''Not more than one main method allowed per class'' False
      else mapM_st visitMainMethod (sort_key mm_name ms) st)"

definition visitClass :: "klass \<Rightarrow> sstate \<Rightarrow> sem_error + klass \<times> sstate" where
  "visitClass k st =
     bindE (visitFieldList (c_fields k) (sem_enterScope (st\<lparr>s_class := Some k\<rparr>))) (\<lambda>(fs, st1).
     bindE (visitMethodList (c_methods k) st1) (\<lambda>(ms, st2).
     bindE (visitMainMethodList (c_mainMethods k) st2) (\<lambda>(mms, st3).
     bindE (sem_leaveScope st3) (\<lambda>st4.
     let k' = k\<lparr>c_fields := fs, c_methods := ms, c_mainMethods := mms\<rparr> in
     case (if mms = [] then None else findMethodInClass k' (mm_name (hd mms))) of
       Some m \<Rightarrow> sem_fail st4 (rm_loc m) ''may not overload main method'' False
     | None \<Rightarrow> Inr (k', st4)))))"

definition visitProgram :: "(addr list \<Rightarrow> addr) \<Rightarrow> lexer \<Rightarrow> program \<Rightarrow> sem_error + program \<times> sstate" where
  "visitProgram alloc l p =
     (let st0 = newSemanticVisitor alloc l p in
      bindE (checkForDuplicates st0 c_name c_loc ''class'' (pr_classes p)) (\<lambda>ks.
      let p1 = p\<lparr>pr_classes := map sortMembers ks\<rparr>;
          p2 = p1\<lparr>pr_classes := sort_key c_name (pr_classes p1)\<rparr>;
          st1 = st0\<lparr>s_program := p2\<rparr>
      in bindE (mapM_st visitClass (pr_classes p2) st1) (\<lambda>(ks', st2).
      if s_mainCount st2 = 0 then
        sem_fail st2 (pr_loc p) ''Program does not contain a valid main method'' True
      else if s_mainCount st2 > 1 then
        sem_fail st2 (pr_loc p) ''Program contains more than one main method'' True
      else Inr (p2\<lparr>pr_classes := ks'\<rparr>, st2))))"

end
