(* ===== verification/Semantic_Lemmas.thy ===== *)
theory Semantic_Lemmas
  imports Semantic
begin

text \<open>
  What a successful visit returns: the node with its children, location and name kept and its
  attributes set.  The other theories on the semantic analysis use these facts instead of the
  definitions of the visit functions.
\<close>

lemma sem_fail_not_Inr [simp]: "sem_fail st l m b \<noteq> Inr x" "Inr x \<noteq> sem_fail st l m b"
  by (simp_all add: sem_fail_def split: sum.split)

lemma printType_fail [simp]: "bindE (printType t) (\<lambda>m. sem_fail st l (f m) b) \<noteq> Inr x"
  by (simp add: bindE_eq_Inr)

lemma printType_fail2 [simp]:
  "bindE (printType t) (\<lambda>m. bindE (printType u) (\<lambda>n. sem_fail st l (f m n) b)) \<noteq> Inr x"
  by (simp add: bindE_eq_Inr)

lemma semaType_Inr [simp]: "semaType t = Inr s \<longleftrightarrow> getSemaType t = Some s"
  by (simp add: semaType_def split: option.split)

section \<open>Types\<close>

lemma visitBasicType_Inr:
  "visitBasicType st b = Inr b' \<Longrightarrow>
    (\<exists>l p. b = PrimitiveType l p \<and> b' = b)
    \<or> (\<exists>l n d k. b = ClassType l n d \<and> findClassByName (s_program st) n = Some k \<and> b' = ClassType l n (Some (c_name k)))"
  by (cases b) (auto split: option.splits)

lemma visitBasicType_sema: "visitBasicType st b = Inr b' \<Longrightarrow> basic_getSemaType b' = basic_getSemaType b"
  by (auto dest!: visitBasicType_Inr)

lemma visitType_sema: "visitType st t = Inr t' \<Longrightarrow> getSemaType t' = getSemaType t"
  by (cases t) (auto simp: bindE_eq_Inr dest!: visitBasicType_sema)

lemma visitType_mangled: "visitType st t = Inr t' \<Longrightarrow> getMangledName t' = getMangledName t"
  by (cases t) (auto simp: bindE_eq_Inr dest!: visitBasicType_Inr)

section \<open>Expressions\<close>

lemma visitVarRef_Inr:
  "visitVarRef st loc tt n = Inr e \<Longrightarrow>
    (e = VarRef loc tt n (Some Def_DummySystem) \<and> n = ''System'' \<and> st_lookup n (s_symTbl st) = None)
    \<or> (\<exists>d t s. e = VarRef loc s n (Some d) \<and> st_lookup n (s_symTbl st) = Some d \<and> d \<noteq> Def_MainArg
        \<and> def_getType d = Some t \<and> getSemaType t = Some s)"
  by (auto simp: visitVarRef_def bindE_eq_Inr split: option.splits if_splits)

lemma visitNewObject_Inr:
  "visitNewObjectExpression st loc tt n = Inr e \<Longrightarrow>
    \<exists>k. findClassByName (s_program st) n = Some k \<and> e = NewObjectExpression loc (setClass n tt) n (Some (c_name k))"
  by (auto simp: visitNewObjectExpression_def split: option.splits)

lemma visitThis_Inr:
  "visitThisLiteral st loc tt = Inr e \<Longrightarrow>
    \<exists>k. s_class st = Some k \<and> isRegularM (s_method st) \<and> e = ThisLiteral loc (setClass (c_name k) tt)"
  by (auto simp: visitThisLiteral_def split: option.splits if_splits)

lemma visitBinary_Inr:
  "visitBinaryExpression st loc tt l r op = Inr e \<Longrightarrow>
    \<exists>t. e = BinaryExpression loc t l r op \<and> t \<in> {setInt tt, setBool tt, targetType l}"
  by (auto simp: visitBinaryExpression_def Let_def split: if_splits)

lemma visitNewArray_Inr:
  "visitNewArrayExpression st loc tt t sz = Inr e \<Longrightarrow>
    \<exists>s. getSemaType t = Some s \<and> \<not> isVoidOrVoidArray s \<and> isInt (targetType sz) \<and> e = NewArrayExpression loc s t sz"
  by (auto simp: visitNewArrayExpression_def bindE_eq_Inr split: if_splits)

lemma visitFieldAccess_Inr:
  "visitFieldAccess st loc tt l n = Inr e \<Longrightarrow>
    (\<exists>d. e = FieldAccess loc tt l n (Some d) \<and> varref_def l = Some Def_DummySystem \<and> d \<in> {FR_SystemOut, FR_SystemIn})
    \<or> (\<exists>k f s. e = FieldAccess loc s l n (Some (FR_Field (c_name k) f)) \<and> isClass (targetType l)
        \<and> findClassByName (s_program st) (tname (targetType l)) = Some k \<and> findFieldInClass k n = Some f
        \<and> getSemaType (f_type f) = Some s)"
  by (auto simp: visitFieldAccess_def Let_def bindE_eq_Inr split: if_splits option.splits)

lemma visitSystemCall_Inr:
  "visitSystemCall st loc tt l n args = Inr e \<Longrightarrow>
    \<exists>t. e = MethodInvocation loc t l n args None True \<and> t \<in> {setVoid tt, setInt tt}"
  by (auto simp: visitSystemCall_def Let_def bindE_eq_Inr split: if_splits)

lemma visitMethodInvocation_Inr:
  "visitMethodInvocation st loc tt l n args = Inr e \<Longrightarrow>
    (\<exists>t. e = MethodInvocation loc t l n args None True \<and> t \<in> {setVoid tt, setInt tt})
    \<or> (\<exists>k m s. e = MethodInvocation loc s l n args (Some (c_name k, rm_name m)) False
        \<and> isClass (targetType l) \<and> findClassByName (s_program st) (tname (targetType l)) = Some k
        \<and> findMethodInClass k n = Some m \<and> length (rm_parameters m) = length args
        \<and> checkArgs st (rm_parameters m) args = Inr () \<and> getSemaType (rm_returnType m) = Some s)"
  by (auto simp: visitMethodInvocation_def bindE_eq_Inr split: if_splits option.splits
      dest!: visitSystemCall_Inr)

lemma visitUnary_Inr:
  "visitUnaryExpression st loc tt x op = Inr e \<Longrightarrow>
    \<exists>t. e = UnaryExpression loc t x op \<and> t \<in> {setInt tt, setBool tt}"
  by (auto simp: visitUnaryExpression_def split: if_splits)

lemma visitArrayAccess_Inr:
  "visitArrayAccess st loc a i = Inr e \<Longrightarrow>
    \<exists>t. e = ArrayAccess loc t a i \<and> isInt (targetType i) \<and> isArray (targetType a)
      \<and> t = (let u = (targetType a)\<lparr>dimension := dimension (targetType a) - 1\<rparr>
             in if dimension u = 0 then u\<lparr>kind := innerKind u\<rparr> else u)"
  by (auto simp: visitArrayAccess_def Let_def split: if_splits)

lemmas visit_Inr = visitVarRef_Inr visitNewObject_Inr visitThis_Inr visitBinary_Inr visitNewArray_Inr
  visitFieldAccess_Inr visitMethodInvocation_Inr visitUnary_Inr visitArrayAccess_Inr

lemma visitExpr_eloc: "visitExpr st e = Inr e' \<Longrightarrow> eloc e' = eloc e"
  by (cases e) (auto simp: bindE_eq_Inr dest!: visit_Inr)

lemma visitOptExpr_Inr:
  "visitOptExpr st e = Inr e' \<Longrightarrow>
    (e = None \<and> e' = None) \<or> (\<exists>x x'. e = Some x \<and> e' = Some x' \<and> visitExpr st x = Inr x')"
  by (auto simp: visitOptExpr_def bindE_eq_Inr split: option.splits)

section \<open>Statements\<close>

lemma declare_var_Inr:
  "declare_var st loc t n = Inr (i, st') \<Longrightarrow>
    \<exists>d. d = \<lparr>vd_loc = loc, vd_type = t, vd_name = n, vd_idx = s_varNr st\<rparr> \<and> i = s_varNr st
      \<and> \<not> isDefinedInCurrentScope n (s_symTbl st)
      \<and> (\<forall>x. st_lookup n (s_symTbl st) = Some x \<longrightarrow> (\<exists>f. x = Def_Field f))
      \<and> st' = (sem_insert n (Def_VarDecl d) st)\<lparr>s_varNr := s_varNr st + 1, s_varDecls := s_varDecls st @ [d]\<rparr>"
  by (auto simp: declare_var_def Let_def sem_insert_def split: if_splits option.splits sym_def.splits)

lemma visitVariableDeclaration_Inr:
  "visitVariableDeclaration loc c t n e st = Inr (s, st') \<Longrightarrow>
    \<exists>i t' e' ty. declare_var st loc t n = Inr (i, st') \<and> visitType st' t = Inr t' \<and> visitOptExpr st' e = Inr e'
      \<and> s = VariableDeclaration loc c t' n e' (Some i) \<and> getSemaType t = Some ty \<and> \<not> isVoidOrVoidArray ty
      \<and> (\<forall>x. e' = Some x \<longrightarrow> sem_ge ty (targetType x))"
  by (auto simp: visitVariableDeclaration_def bindE_eq_Inr visitType_sema split: if_splits option.splits)

lemma visitReturnStatement_Inr:
  "visitReturnStatement loc e st = Inr s \<Longrightarrow>
    \<exists>e' m rt. visitOptExpr st e = Inr e' \<and> s = ReturnStatement loc Return e' \<and> s_method st = Some m
      \<and> getSemaType (method_returnType m) = Some rt
      \<and> (case e' of None \<Rightarrow> isVoid rt | Some x \<Rightarrow> \<not> isVoid rt \<and> sem_ge rt (targetType x))"
  by (auto simp: visitReturnStatement_def bindE_eq_Inr split: if_splits option.splits)

lemma checkCondition_Inr [simp]: "checkCondition st w e = Inr u \<longleftrightarrow> isBool (targetType e)"
  by (simp add: checkCondition_def)

end
