(* ===== verification/Lexer_Stream.thy ===== *)
theory Lexer_Stream
  imports Lexer
begin

text \<open>
  The buffered reader of the lexer implements a plain cursor over the input text.
  \<open>nidx\<close> counts the characters delivered so far (the end-of-file marker counts as one);
  \<open>stream_inv\<close> ties the buffer to the text.  \<open>nextChar_ok\<close> is the refinement step: as long as
  the end-of-file marker has not been delivered, \<open>nextChar\<close> succeeds, touches the buffer only
  inside its valid part, and delivers the next character of the text.  Positions are described
  by \<open>pos_upto\<close>, which does not mention the buffer, and then characterised by the line breaks and
  tabs of the text.
\<close>

section \<open>Positions as a function of the text\<close>

definition char_at :: "string \<Rightarrow> nat \<Rightarrow> int" where
  "char_at inp k = (if k < length inp then schar (inp ! k) else -1)"

record lpos =
  p_last :: int
  p_state :: line_state
  p_line :: int
  p_col :: int
  p_offs :: "nat list"

definition pos_step :: "int \<Rightarrow> nat \<Rightarrow> lpos \<Rightarrow> lpos" where
  "pos_step c k p =
     (let col = (if p_last p = c_tab then p_col p + 1 else p_col p);
          (ls, nl) = lineStep (p_state p) c
      in if nl then \<lparr>p_last = c, p_state = ls, p_line = p_line p + 1, p_col = 1,
                     p_offs = p_offs p @ [k]\<rparr>
         else \<lparr>p_last = c, p_state = ls, p_line = p_line p, p_col = col + 1, p_offs = p_offs p\<rparr>)"

fun pos_upto :: "string \<Rightarrow> nat \<Rightarrow> lpos" where
  "pos_upto inp 0 = \<lparr>p_last = 0, p_state = LS_normal, p_line = 1, p_col = 0, p_offs = [0]\<rparr>"
| "pos_upto inp (Suc k) = pos_step (char_at inp k) k (pos_upto inp k)"

definition lpos_of :: "lexer \<Rightarrow> lpos" where
  "lpos_of st = \<lparr>p_last = lastChar st, p_state = lineState st, p_line = line st,
                 p_col = column st, p_offs = lineStartFileOffsets st\<rparr>"

section \<open>The stream invariant\<close>

definition nidx :: "lexer \<Rightarrow> nat" where
  "nidx st = bufferStartOffset st + nextCharPos st"

definition stream_inv :: "lexer \<Rightarrow> bool" where
  "stream_inv st \<longleftrightarrow>
     curBufferSize st \<le> maxBufferSize
   \<and> bufferStartOffset st + curBufferSize st = inpos st
   \<and> inpos st \<le> length (input st)
   \<and> (\<forall>i < curBufferSize st. buffer st i = schar (input st ! (bufferStartOffset st + i)))
   \<and> (streamIsEof st \<longrightarrow> inpos st = length (input st) \<and> curBufferSize st < maxBufferSize
        \<and> buffer st (curBufferSize st) = -1)
   \<and> nextCharPos st \<le> curBufferSize st + (if streamIsEof st then 1 else 0)"

definition pre_ok :: "lexer \<Rightarrow> bool" where
  "pre_ok st \<longleftrightarrow> stream_inv st \<and> lpos_of st = pos_upto (input st) (nidx st)"

text \<open>\<open>lex_ok\<close> holds between the public operations: at least one character was delivered.\<close>

definition lex_ok :: "lexer \<Rightarrow> bool" where
  "lex_ok st \<longleftrightarrow> pre_ok st \<and> 0 < nidx st"

text \<open>What a run of \<open>n\<close> calls of \<open>nextChar\<close> leaves alone and what it advances.\<close>

definition adv :: "nat \<Rightarrow> lexer \<Rightarrow> lexer \<Rightarrow> bool" where
  "adv n st st' \<longleftrightarrow>
     lex_ok st' \<and> input st' = input st \<and> nidx st' = nidx st + n
   \<and> tokenLine st' = tokenLine st \<and> tokenCol st' = tokenCol st
   \<and> filename st' = filename st \<and> tokenLookahead st' = tokenLookahead st"

definition rest :: "lexer \<Rightarrow> string" where
  "rest st = drop (nidx st - 1) (input st)"

lemma readIntoBuffer_ok:
  assumes "inpos st \<le> length (input st)"
  obtains st' where "readIntoBuffer st = Inr st'" "stream_inv st'"
    "nidx st' = inpos st" "nextCharPos st' = 0" "input st' = input st" "lpos_of st' = lpos_of st"
    "tokenLine st' = tokenLine st" "tokenCol st' = tokenCol st" "filename st' = filename st"
    "tokenLookahead st' = tokenLookahead st" "tokenString st' = tokenString st"
    "streamIsEof st' \<or> 0 < curBufferSize st'"
proof -
  have "\<exists>st'. readIntoBuffer st = Inr st' \<and> stream_inv st' \<and> nidx st' = inpos st
    \<and> nextCharPos st' = 0 \<and> input st' = input st \<and> lpos_of st' = lpos_of st
    \<and> tokenLine st' = tokenLine st \<and> tokenCol st' = tokenCol st \<and> filename st' = filename st
    \<and> tokenLookahead st' = tokenLookahead st \<and> tokenString st' = tokenString st
    \<and> (streamIsEof st' \<or> 0 < curBufferSize st')"
    using assms
    by (auto simp: readIntoBuffer_def Let_def stream_inv_def nidx_def lpos_of_def min_def
        maxBufferSize_def)
  then show thesis using that by blast
qed

lemma nextChar_ok:
  assumes ok: "pre_ok st" and le: "nidx st \<le> length (input st)"
  obtains st' where "nextChar st = Inr st'" "adv 1 st st'" "tokenString st' = tokenString st"
    "lastChar st' = char_at (input st) (nidx st)"
proof -
  define st1 where "st1 = (if lastChar st = c_tab then st\<lparr>column := column st + 1\<rparr> else st)"
  have si: "stream_inv st" using ok by (simp add: pre_ok_def)
  have s1: "stream_inv st1" "nidx st1 = nidx st" "input st1 = input st"
    "lpos_of st1 = (lpos_of st)\<lparr>p_col := (if lastChar st = c_tab then column st + 1 else column st)\<rparr>"
    "inpos st1 \<le> length (input st1)"
    using si by (auto simp: st1_def stream_inv_def nidx_def lpos_of_def)
  obtain st2 where st2: "(if \<not> streamIsEof st1 \<and> nextCharPos st1 = curBufferSize st1
      then readIntoBuffer st1 else Inr st1) = Inr st2"
    and s2: "stream_inv st2" "nidx st2 = nidx st" "input st2 = input st" "lpos_of st2 = lpos_of st1"
      "tokenLine st2 = tokenLine st" "tokenCol st2 = tokenCol st" "filename st2 = filename st"
      "tokenLookahead st2 = tokenLookahead st" "tokenString st2 = tokenString st"
      "streamIsEof st2 \<or> nextCharPos st2 < curBufferSize st2"
  proof (cases "\<not> streamIsEof st1 \<and> nextCharPos st1 = curBufferSize st1")
    case True
    then have idx: "inpos st1 = nidx st"
      using s1 by (auto simp: stream_inv_def nidx_def)
    obtain st' where "readIntoBuffer st1 = Inr st'" "stream_inv st'"
      "nidx st' = inpos st1" "nextCharPos st' = 0" "input st' = input st1" "lpos_of st' = lpos_of st1"
      "tokenLine st' = tokenLine st1" "tokenCol st' = tokenCol st1" "filename st' = filename st1"
      "tokenLookahead st' = tokenLookahead st1" "tokenString st' = tokenString st1"
      "streamIsEof st' \<or> 0 < curBufferSize st'"
      by (rule readIntoBuffer_ok [OF s1(5)])
    then show ?thesis using True idx s1 that [of st'] by (simp add: st1_def)
  next
    case False
    with s1 show ?thesis using that [of st1]
      by (auto simp: st1_def stream_inv_def split: if_splits)
  qed
  have c: "nextCharPos st2 < maxBufferSize"
      "buffer st2 (nextCharPos st2) = char_at (input st) (nidx st)"
    using s2(1,2,3,10) le
    by (auto simp: stream_inv_def nidx_def char_at_def less_Suc_eq_le le_less split: if_splits)
  have lp: "lineState st2 = lineState st" "line st2 = line st" "lineStartFileOffsets st2 = lineStartFileOffsets st"
    "column st2 = (if lastChar st = c_tab then column st + 1 else column st)"
    using s2(4) s1(4) by (auto simp: lpos_of_def)
  let ?c = "char_at (input st) (nidx st)"
  let ?st' = "if snd (lineStep (lineState st) ?c)
     then st2\<lparr>lastChar := ?c, nextCharPos := nextCharPos st2 + 1, lineState := fst (lineStep (lineState st) ?c),
            column := 1, line := line st2 + 1,
            lineStartFileOffsets := lineStartFileOffsets st2 @ [bufferStartOffset st2 + (nextCharPos st2 + 1) - 1]\<rparr>
     else st2\<lparr>lastChar := ?c, nextCharPos := nextCharPos st2 + 1, lineState := fst (lineStep (lineState st) ?c),
            column := column st2 + 1\<rparr>"
  have eq: "nextChar st = Inr ?st'"
    unfolding nextChar_def Let_def st1_def [symmetric] st2
    using c by (auto simp: lp split: prod.splits)
  have inv: "stream_inv ?st'"
    using s2(1,2,3,10) le by (auto simp: stream_inv_def nidx_def split: if_splits)
  have nx: "nidx ?st' = Suc (nidx st)"
    using s2(2) by (simp add: nidx_def)
  have off: "bufferStartOffset st2 + (nextCharPos st2 + 1) - 1 = nidx st"
    using s2(2) by (simp add: nidx_def)
  have "lpos_of ?st' = pos_step ?c (nidx st) (lpos_of st)"
    using off by (auto simp: lpos_of_def pos_step_def Let_def lp split: prod.splits)
  then have "lpos_of ?st' = pos_upto (input st) (Suc (nidx st))"
    using ok by (simp add: pre_ok_def)
  moreover have "input ?st' = input st" using s2(3) by simp
  ultimately have "lex_ok ?st'"
    using inv nx by (simp only: lex_ok_def pre_ok_def) simp
  then have "adv 1 st ?st'"
    using s2 nx unfolding adv_def by simp
  with eq show thesis using that [of ?st'] s2 by simp
qed

section \<open>The cursor view\<close>

lemma lex_ok_frame [simp]:
  "lex_ok (st\<lparr>tokenString := s\<rparr>) = lex_ok st"
  "lex_ok (st\<lparr>tokenLookahead := ts\<rparr>) = lex_ok st"
  "lex_ok (initToken st) = lex_ok st"
  "rest (st\<lparr>tokenString := s\<rparr>) = rest st"
  "rest (st\<lparr>tokenLookahead := ts\<rparr>) = rest st"
  "rest (initToken st) = rest st"
  "nidx (st\<lparr>tokenString := s\<rparr>) = nidx st"
  "nidx (st\<lparr>tokenLookahead := ts\<rparr>) = nidx st"
  "nidx (initToken st) = nidx st"
  by (simp_all add: lex_ok_def pre_ok_def stream_inv_def lpos_of_def nidx_def rest_def initToken_def)

lemma initToken_fields [simp]:
  "input (initToken st) = input st" "lastChar (initToken st) = lastChar st"
  "line (initToken st) = line st" "column (initToken st) = column st"
  "tokenLine (initToken st) = line st" "tokenCol (initToken st) = column st"
  "tokenString (initToken st) = []" "filename (initToken st) = filename st"
  "tokenLookahead (initToken st) = tokenLookahead st"
  by (simp_all add: initToken_def)

lemma p_last_pos_upto: "p_last (pos_upto inp (Suc k)) = char_at inp k"
  by (simp add: pos_step_def Let_def split: prod.splits)

lemma lex_ok_lastChar: "lex_ok st \<Longrightarrow> lastChar st = char_at (input st) (nidx st - 1)"
proof -
  assume "lex_ok st"
  then obtain k where k: "nidx st = Suc k" and e: "lpos_of st = pos_upto (input st) (Suc k)"
    by (auto simp: lex_ok_def pre_ok_def gr0_conv_Suc)
  from e have "p_last (lpos_of st) = char_at (input st) k"
    by (simp only: p_last_pos_upto)
  with k show ?thesis by (simp add: lpos_of_def)
qed

lemma lex_ok_nidx: "lex_ok st \<Longrightarrow> nidx st \<le> Suc (length (input st))"
  by (auto simp: lex_ok_def pre_ok_def stream_inv_def nidx_def split: if_splits)

lemma isEof_iff: "lex_ok st \<Longrightarrow> isEof st \<longleftrightarrow> rest st = []"
  by (auto simp: lex_ok_def pre_ok_def stream_inv_def nidx_def rest_def isEof_def split: if_splits)

lemma isEof_frame [simp]:
  "isEof (initToken st) = isEof st" "isEof (st\<lparr>tokenString := s\<rparr>) = isEof st"
  by (simp_all add: isEof_def initToken_def)

lemma lastChar_Nil: "lex_ok st \<Longrightarrow> rest st = [] \<Longrightarrow> lastChar st = -1"
  using lex_ok_lastChar [of st] by (simp add: rest_def char_at_def)

lemma lastChar_Cons: "lex_ok st \<Longrightarrow> rest st = c # cs \<Longrightarrow> lastChar st = schar c"
proof -
  assume a: "lex_ok st" "rest st = c # cs"
  from a(2) have "nidx st - 1 < length (input st)" "input st ! (nidx st - 1) = c"
    by (auto simp: rest_def dest: nth_via_drop) (metis drop_all list.distinct(1) not_le)
  with lex_ok_lastChar [OF a(1)] show ?thesis by (simp add: char_at_def)
qed

lemma nextChar_Cons:
  assumes "lex_ok st" "rest st = c # cs"
  obtains st' where "nextChar st = Inr st'" "adv 1 st st'" "tokenString st' = tokenString st"
    "rest st' = cs" "lex_ok st'"
proof -
  have lt: "nidx st - 1 < length (input st)" "0 < nidx st"
    using assms by (auto simp: rest_def lex_ok_def) (metis drop_all list.distinct(1) not_le)
  then have "nidx st \<le> length (input st)" by simp
  moreover have "pre_ok st" using assms(1) by (simp add: lex_ok_def)
  ultimately obtain st' where st': "nextChar st = Inr st'" "adv 1 st st'"
    "tokenString st' = tokenString st"
    using nextChar_ok [of st] by metis
  have "rest st' = tl (rest st)"
    using st'(2) lt by (simp add: adv_def rest_def tl_drop drop_Suc [symmetric] flip: drop_Suc)
  with st' assms show thesis using that by (simp add: adv_def)
qed

lemma adv_trans: "adv m st st1 \<Longrightarrow> adv n st1 st2 \<Longrightarrow> adv (m + n) st st2"
  by (simp add: adv_def)

lemma adv_frame [simp]:
  "adv n st (st'\<lparr>tokenString := s\<rparr>) = adv n st st'"
  "adv n (st\<lparr>tokenString := s\<rparr>) st' = adv n st st'"
  by (simp_all add: adv_def)

lemma adv_refl: "lex_ok st \<Longrightarrow> adv 0 st st"
  by (simp add: adv_def)

lemma rest_adv: "adv n st st' \<Longrightarrow> lex_ok st \<Longrightarrow> rest st' = drop n (rest st)"
  by (auto simp: adv_def rest_def lex_ok_def add.commute)

text \<open>Constructing a lexer reads the first character.\<close>

lemma newLexer_ok:
  obtains st where "newLexer g LS_normal f inp = Inr st" "lex_ok st" "rest st = inp"
    "input st = inp" "tokenLookahead st = []" "filename st = f"
proof -
  let ?r = "rawLexer g LS_normal f inp"
  obtain st1 where st1: "readIntoBuffer ?r = Inr st1" "stream_inv st1" "nidx st1 = inpos ?r"
      "input st1 = input ?r" "lpos_of st1 = lpos_of ?r"
      "tokenLookahead st1 = tokenLookahead ?r" "filename st1 = filename ?r"
    by (rule readIntoBuffer_ok [of ?r]) (auto simp: rawLexer_def)
  then have "pre_ok st1" "nidx st1 = 0" "input st1 = inp"
    by (simp_all add: pre_ok_def rawLexer_def lpos_of_def)
  then obtain st2 where "nextChar st1 = Inr st2" "adv 1 st1 st2"
    using nextChar_ok [of st1] by (metis le0)
  with st1 show thesis using that [of st2]
    by (simp add: newLexer_def adv_def rest_def rawLexer_def)
qed

section \<open>Lines and columns of the text\<close>

text \<open>A line ends at a line feed, and at a carriage return that no line feed follows.\<close>

definition line_end :: "string \<Rightarrow> nat \<Rightarrow> bool" where
  "line_end inp j \<longleftrightarrow> char_at inp j = c_lf \<or> char_at inp j = c_cr \<and> char_at inp (Suc j) \<noteq> c_lf"

fun line_start :: "string \<Rightarrow> nat \<Rightarrow> nat" where
  "line_start inp 0 = 0"
| "line_start inp (Suc k) = (if line_end inp k then Suc k else line_start inp k)"

definition line_no :: "string \<Rightarrow> nat \<Rightarrow> int" where
  "line_no inp k = 1 + int (length (filter (line_end inp) [0..<k]))"

definition chars :: "string \<Rightarrow> nat \<Rightarrow> int list" where
  "chars inp k = map (char_at inp) [0..<k]"

lemma chars_Suc: "chars inp (Suc k) = chars inp k @ [char_at inp k]"
  by (simp add: chars_def)

lemma pos_upto_state:
  "p_state (pos_upto inp k) =
     (if k = 0 then LS_normal
      else let c = char_at inp (k - 1) in
        if c = c_cr then LS_cr
        else if c = c_lf then (if 1 < k \<and> char_at inp (k - 2) = c_cr then LS_crlf else LS_lf)
        else LS_normal)"
proof (induction k)
  case (Suc k)
  then show ?case
    by (cases "p_state (pos_upto inp k)"; cases k)
      (auto simp: pos_step_def Let_def split: if_splits)
qed simp

lemma pos_upto_line: "p_line (pos_upto inp (Suc k)) = line_no inp k"
proof (induction k)
  case 0
  then show ?case by (simp add: pos_step_def line_no_def Let_def split: prod.splits)
next
  case (Suc k)
  then show ?case
    unfolding pos_upto.simps(2) [of inp "Suc k"] using pos_upto_state [of inp "Suc k"]
    by (cases "p_state (pos_upto inp (Suc k))")
      (auto simp: pos_step_def [of _ "Suc k"] Let_def line_no_def line_end_def
        simp del: pos_upto.simps split: if_splits)
qed

lemma pos_upto_start: "last (p_offs (pos_upto inp (Suc k))) = line_start inp k"
proof (induction k)
  case 0
  then show ?case by (simp add: pos_step_def Let_def split: prod.splits)
next
  case (Suc k)
  then show ?case
    unfolding pos_upto.simps(2) [of inp "Suc k"] using pos_upto_state [of inp "Suc k"]
    by (cases "p_state (pos_upto inp (Suc k))")
      (auto simp: pos_step_def [of _ "Suc k"] Let_def line_end_def
        simp del: pos_upto.simps split: if_splits)
qed

definition tab_count :: "int list \<Rightarrow> nat" where
  "tab_count cs = length (filter (\<lambda>c. c = c_tab) cs)"

lemma pos_upto_offs:
  "length (p_offs (pos_upto inp k)) = nat (p_line (pos_upto inp k)) \<and> 1 \<le> p_line (pos_upto inp k)
   \<and> p_offs (pos_upto inp k) \<noteq> [] \<and> (\<forall>o' \<in> set (p_offs (pos_upto inp k)). o' \<le> k - 1)"
proof (induction k)
  case (Suc k)
  then show ?case by (auto simp: pos_step_def Let_def nat_add_distrib split: prod.splits)
qed simp

lemma pos_upto_col:
  "p_col (pos_upto inp (Suc k)) =
     1 + int (k - last (p_offs (pos_upto inp (Suc k))))
       + int (tab_count (drop (last (p_offs (pos_upto inp (Suc k)))) (chars inp k)))"
proof (induction k)
  case 0
  then show ?case by (simp add: pos_step_def Let_def chars_def tab_count_def split: prod.splits)
next
  case (Suc k)
  let ?p = "pos_upto inp (Suc k)"
  have lo: "last (p_offs ?p) \<le> k"
    using pos_upto_offs [of inp "Suc k"] by auto
  have "p_last ?p = char_at inp k" by (rule p_last_pos_upto)
  moreover have "length (chars inp k) = k" by (simp add: chars_def)
  ultimately show ?case
    using Suc.IH lo
    unfolding pos_upto.simps(2) [of inp "Suc k"]
    by (auto simp: pos_step_def [of "char_at inp (Suc k)"] Let_def chars_Suc tab_count_def chars_def
        split: prod.splits)
qed

end
