(* ===== verification/Lexer_Props.thy ===== *)
theory Lexer_Props
  imports Lexer_Stream "HOL-Library.Sublist"
begin

text \<open>
  What a call of \<open>Lexer::readNextToken\<close> returns, stated on the text that is still to be read
  (\<open>rest\<close>).  \<open>blank\<close> are the strings of white space and complete comments; \<open>lexeme\<close> gives
  the token kind of a complete lexeme.  A token consists of a blank prefix and the longest
  lexeme that follows it.
\<close>

section \<open>Lexemes\<close>

abbreviation alpha :: "char \<Rightarrow> bool" where "alpha c \<equiv> isAlphaOrUnderscore (schar c)"
abbreviation alnum :: "char \<Rightarrow> bool" where "alnum c \<equiv> isAlphaNumOrUnderscore (schar c)"
abbreviation digit :: "char \<Rightarrow> bool" where "digit c \<equiv> isDigit (schar c)"

definition op_types :: "ttype list" where
  "op_types =
     [TT_Amp, TT_AmpAmp, TT_AmpEq, TT_Bang, TT_BangEq, TT_Caret, TT_CaretEq, TT_Colon, TT_Comma,
      TT_Dot, TT_Eq, TT_EqEq, TT_Gt, TT_GtEq, TT_GtGt, TT_GtGtEq, TT_GtGtGt, TT_GtGtGtEq,
      TT_LBrace, TT_LBracket, TT_LParen, TT_LtEq, TT_LtLt, TT_Lt, TT_LtLtEq, TT_Minus,
      TT_MinusEq, TT_MinusMinus, TT_VBar, TT_VBarEq, TT_VBarVBar, TT_Percent, TT_PercentEq,
      TT_Plus, TT_PlusEq, TT_PlusPlus, TT_QMark, TT_RBrace, TT_RBracket, TT_RParen,
      TT_Semicolon, TT_Slash, TT_SlashEq, TT_Star, TT_StarEq, TT_Tilde]"

definition is_ident :: "string \<Rightarrow> bool" where
  "is_ident s \<longleftrightarrow> (case s of [] \<Rightarrow> False | c # cs \<Rightarrow> alpha c \<and> (\<forall>d \<in> set cs. alnum d))"

definition is_intlit :: "string \<Rightarrow> bool" where
  "is_intlit s \<longleftrightarrow> s = ''0'' \<or>
     (case s of [] \<Rightarrow> False | c # cs \<Rightarrow> digit c \<and> c \<noteq> CHR ''0'' \<and> (\<forall>d \<in> set cs. digit d))"

definition op_table :: "(string \<times> ttype) list" where
  "op_table = map (\<lambda>t. (getTokenName t, t)) op_types"

definition lexeme :: "string \<Rightarrow> ttype option" where
  "lexeme s =
     (if is_ident s then
        Some (case map_of identifierTokens s of Some t \<Rightarrow> t | None \<Rightarrow> TT_Identifier)
      else if is_intlit s then Some TT_IntLiteral
      else map_of op_table s)"

definition longest_lexeme :: "string \<Rightarrow> string \<Rightarrow> bool" where
  "longest_lexeme s txt' \<longleftrightarrow>
     prefix s txt' \<and> lexeme s \<noteq> None \<and>
     (\<forall>p. prefix p txt' \<and> lexeme p \<noteq> None \<longrightarrow> length p \<le> length s)"

definition is_comment :: "string \<Rightarrow> bool" where
  "is_comment w \<longleftrightarrow>
     (\<exists>b. w = ''/*'' @ b @ ''*/'' \<and> (\<forall>c \<in> set b. 0 \<le> schar c) \<and> \<not> sublist ''*/'' (b @ ''*''))"

inductive blank :: "string \<Rightarrow> bool" where
  blank_Nil: "blank []"
| blank_space: "isSpace (schar c) \<Longrightarrow> blank w \<Longrightarrow> blank (c # w)"
| blank_comment: "is_comment u \<Longrightarrow> blank w \<Longrightarrow> blank (u @ w)"

text \<open>The text after an opening slash and star does not complete a comment.\<close>

definition bad_comment :: "string \<Rightarrow> bool" where
  "bad_comment r \<longleftrightarrow> \<not> (\<exists>b r'. r = b @ ''*/'' @ r' \<and> (\<forall>c \<in> set b. 0 \<le> schar c))"

section \<open>Symbolic steps\<close>

definition nx :: "lexer \<Rightarrow> lexer" where
  "nx st = projr (nextChar st)"

lemma nx_simps [simp]:
  assumes "lex_ok st" "rest st \<noteq> []"
  shows "nextChar st = Inr (nx st)" "lex_ok (nx st)" "rest (nx st) = tl (rest st)"
    "tokenString (nx st) = tokenString st" "tokenLine (nx st) = tokenLine st"
    "tokenCol (nx st) = tokenCol st" "input (nx st) = input st" "filename (nx st) = filename st"
    "tokenLookahead (nx st) = tokenLookahead st" "nidx (nx st) = Suc (nidx st)" "adv (Suc 0) st (nx st)"
proof -
  obtain c cs where cs: "rest st = c # cs" using assms(2) by (cases "rest st") auto
  obtain st' where "nextChar st = Inr st'" "adv 1 st st'" "tokenString st' = tokenString st"
    "rest st' = cs" "lex_ok st'"
    by (rule nextChar_Cons [OF assms(1) cs])
  moreover from this have "nx st = st'" by (simp add: nx_def)
  ultimately show "nextChar st = Inr (nx st)" "lex_ok (nx st)" "rest (nx st) = tl (rest st)"
    "tokenString (nx st) = tokenString st" "tokenLine (nx st) = tokenLine st"
    "tokenCol (nx st) = tokenCol st" "input (nx st) = input st" "filename (nx st) = filename st"
    "tokenLookahead (nx st) = tokenLookahead st" "nidx (nx st) = Suc (nidx st)" "adv (Suc 0) st (nx st)"
    using cs by (simp_all add: adv_def)
qed

definition hdc :: "string \<Rightarrow> int" where
  "hdc s = (case s of [] \<Rightarrow> -1 | c # _ \<Rightarrow> schar c)"

lemma hdc_simps [simp]: "hdc [] = -1" "hdc (c # s) = schar c"
  by (simp_all add: hdc_def)

lemma lastChar_hdc: "lex_ok st \<Longrightarrow> lastChar st = hdc (rest st)"
  by (cases "rest st") (simp_all add: lastChar_Nil lastChar_Cons)

lemma lastChar_frame [simp]: "lastChar (st\<lparr>tokenString := s\<rparr>) = lastChar st"
  by simp

lemma lexFail_LexError:
  assumes "lex_ok st"
  shows "\<exists>txt'. lexFail msg st = Inl (LexError (filename st) (line st) (column st) msg txt')"
proof -
  have lp: "lpos_of st = pos_upto (input st) (nidx st)"
    using assms by (simp add: lex_ok_def pre_ok_def)
  then have "length (lineStartFileOffsets st) = nat (line st)" "1 \<le> line st"
    using pos_upto_offs [of "input st" "nidx st"] unfolding lp [symmetric]
    by (simp_all add: lpos_of_def)
  then have "1 \<le> line st \<and> nat (line st - 1) < length (lineStartFileOffsets st)"
    by (simp add: nat_diff_distrib)
  then show ?thesis
    by (auto simp: lexFail_def getCurrentLineFromInput_def Let_def split: prod.splits)
qed

lemma schar_range: "-128 \<le> schar c" "schar c \<le> 127"
  using of_char_less_256 [of c] unfolding schar_def Let_def
  by (cases "(of_char c :: nat) < 128"; simp only: if_True if_False; linarith)+

lemma bit7_schar: "bit (schar c) 7 \<longleftrightarrow> schar c < 0"
proof (cases "schar c < 0")
  case True
  then have "schar c div 128 = -1" using schar_range [of c] by auto
  with True show ?thesis by (simp add: bit_iff_odd)
next
  case False
  then have "schar c div 128 = 0" using schar_range [of c] by auto
  with False show ?thesis by (simp add: bit_iff_odd)
qed

lemma invalidCharError_LexError:
  assumes "lex_ok st"
  shows "\<exists>msg txt'. invalidCharError c st = Inl (LexError (filename st) (line st) (column st) msg txt')"
  using lexFail_LexError [OF assms] unfolding invalidCharError_def by metis

section \<open>Scanning loops\<close>

text \<open>Both token loops append characters of a class until the first character outside it.\<close>

locale scan_loop =
  fixes loop :: "lexer \<Rightarrow> lex_error + lexer"
    and cls :: "int \<Rightarrow> bool"
  assumes loop_unfold:
    "loop st = bindE (nextChar st)
       (\<lambda>st1. if cls (lastChar st1)
              then loop (st1\<lparr>tokenString := tokenString st1 @ [char_of_int (lastChar st1)]\<rparr>)
              else Inr st1)"
    and cls_eof: "\<not> cls (-1)"
begin

lemma loop_spec:
  assumes "lex_ok st" "rest st = c # r"
  shows "\<exists>st'. loop st = Inr st' \<and> adv (Suc (length (takeWhile (\<lambda>d. cls (schar d)) r))) st st'
    \<and> tokenString st' = tokenString st @ takeWhile (\<lambda>d. cls (schar d)) r"
  using assms
proof (induction r arbitrary: st c)
  case Nil
  then have "loop st = Inr (nx st)"
    by (subst loop_unfold) (simp add: lastChar_hdc cls_eof)
  with Nil nx_simps(11) [of st] show ?case by simp
next
  case (Cons d r)
  let ?st1 = "(nx st)\<lparr>tokenString := tokenString st @ [d]\<rparr>"
  have ok: "lex_ok ?st1" "rest ?st1 = d # r" using Cons.prems by simp_all
  have lp: "loop st = (if cls (schar d) then loop ?st1 else Inr (nx st))"
    using Cons.prems by (subst loop_unfold) (simp add: lastChar_hdc)
  have a1: "adv (Suc 0) st (nx st)" using Cons.prems by simp
  show ?case
  proof (cases "cls (schar d)")
    case True
    obtain st' where "loop ?st1 = Inr st'"
      "adv (Suc (length (takeWhile (\<lambda>d. cls (schar d)) r))) ?st1 st'"
      "tokenString st' = (tokenString st @ [d]) @ takeWhile (\<lambda>d. cls (schar d)) r"
      using Cons.IH [OF ok] by auto
    moreover from this(2) a1 have "adv (Suc 0 + Suc (length (takeWhile (\<lambda>d. cls (schar d)) r))) st st'"
      using adv_trans [OF a1] by simp
    ultimately show ?thesis using True lp by simp
  next
    case False
    with lp a1 Cons.prems show ?thesis by simp
  qed
qed

end

interpretation ident: scan_loop identLoop isAlphaNumOrUnderscore
  by unfold_locales (simp_all add: identLoop.simps isAlphaNumOrUnderscore_def)

interpretation digits: scan_loop digitLoop isDigit
  by unfold_locales (simp_all add: digitLoop.simps isDigit_def)

section \<open>Blanks\<close>

lemma schar_eqI: "schar d = k \<Longrightarrow> (schar c = k \<longleftrightarrow> c = d)"
  by (metis schar_inject)

lemma schar_iffs:
  "schar c = 42 \<longleftrightarrow> c = CHR ''*''"
  "schar c = 47 \<longleftrightarrow> c = CHR ''/''"
  "schar c = 61 \<longleftrightarrow> c = CHR ''=''"
  "schar c = 43 \<longleftrightarrow> c = CHR ''+''"
  "schar c = 45 \<longleftrightarrow> c = CHR ''-''"
  "schar c = 60 \<longleftrightarrow> c = CHR ''<''"
  "schar c = 62 \<longleftrightarrow> c = CHR ''>''"
  "schar c = 38 \<longleftrightarrow> c = CHR ''&''"
  "schar c = 124 \<longleftrightarrow> c = CHR ''|''"
  "schar c = 37 \<longleftrightarrow> c = CHR ''%''"
  "schar c = 94 \<longleftrightarrow> c = CHR ''^''"
  "schar c = 33 \<longleftrightarrow> c = CHR ''!''"
  "schar c = 48 \<longleftrightarrow> c = CHR ''0''"
  "schar c = 9 \<longleftrightarrow> c = CHR 0x09"
  "schar c = 10 \<longleftrightarrow> c = CHR 0x0A"
  "schar c = 13 \<longleftrightarrow> c = CHR 0x0D"
  "schar c = 32 \<longleftrightarrow> c = CHR '' ''"
  by (rule schar_eqI; simp add: schar_def)+

lemma schar_space [simp]: "isSpace (schar c) \<longleftrightarrow> c \<in> {CHR '' '', CHR 0x0D, CHR 0x0A, CHR 0x09}"
  by (auto simp: isSpace_def schar_iffs)

lemma isSpace_eof [simp]: "\<not> isSpace (-1)"
  by (simp add: isSpace_def)

lemma spaceLoop_spec:
  assumes "lex_ok st" "rest st = c # r"
  shows "\<exists>st'. spaceLoop st = Inr st'
    \<and> adv (Suc (length (takeWhile (\<lambda>d. isSpace (schar d)) r))) st st'"
  using assms
proof (induction r arbitrary: st c)
  case Nil
  then have "spaceLoop st = Inr (nx st)"
    by (subst spaceLoop.simps) (simp add: lastChar_hdc)
  with Nil show ?case by simp
next
  case (Cons d r)
  have ok: "lex_ok (nx st)" "rest (nx st) = d # r" "adv (Suc 0) st (nx st)"
    using Cons.prems by simp_all
  have lp: "spaceLoop st = (if isSpace (schar d) then spaceLoop (nx st) else Inr (nx st))"
    using Cons.prems by (subst spaceLoop.simps) (simp add: lastChar_hdc)
  show ?case
  proof (cases "isSpace (schar d)")
    case True
    obtain st' where "spaceLoop (nx st) = Inr st'"
      "adv (Suc (length (takeWhile (\<lambda>d. isSpace (schar d)) r))) (nx st) st'"
      using Cons.IH [OF ok(1,2)] by auto
    then show ?thesis using True lp adv_trans [OF ok(3)] by fastforce
  next
    case False
    with lp ok show ?thesis by auto
  qed
qed

text \<open>A comment body that the loop has accepted so far, and what the loop makes of the rest.\<close>

lemma sublist_close_Cons:
  "sublist ''*/'' (c # s) \<longleftrightarrow> (c = CHR ''*'' \<and> (\<exists>t. s = CHR ''/'' # t)) \<or> sublist ''*/'' s"
  by (cases s) (auto simp: sublist_Cons_right)

definition comment_result :: "lexer \<Rightarrow> lex_error + lexer \<Rightarrow> bool" where
  "comment_result st r = (case r of
       Inl e \<Rightarrow> (\<exists>l col msg t. e = LexError (filename st) l col msg t) \<and> bad_comment (rest st)
     | Inr st' \<Rightarrow> (\<exists>b. rest st = b @ ''*/'' @ rest st' \<and> adv (length b + 2) st st'
          \<and> (\<forall>c \<in> set b. 0 \<le> schar c) \<and> \<not> sublist ''*/'' (b @ ''*'')))"

lemma comment_result_step:
  assumes "lex_ok st" "rest st = c # cs" "0 \<le> schar c"
    and no: "c = CHR ''*'' \<Longrightarrow> \<not> (\<exists>t. cs = CHR ''/'' # t)"
    and r: "comment_result (nx st) r"
  shows "comment_result st r"
proof (cases r)
  case (Inl e)
  have "bad_comment (c # cs)" if "bad_comment cs"
    using that no by (auto simp: bad_comment_def append_eq_Cons_conv Cons_eq_append_conv)
  with Inl r assms(1,2) show ?thesis by (simp add: comment_result_def)
next
  case (Inr st')
  with r obtain b where b: "rest (nx st) = b @ ''*/'' @ rest st'" "adv (length b + 2) (nx st) st'"
    "\<forall>c \<in> set b. 0 \<le> schar c" "\<not> sublist ''*/'' (b @ ''*'')"
    by (auto simp: comment_result_def)
  have cs: "cs = b @ ''*/'' @ rest st'" using b(1) assms(1,2) by simp
  have "\<not> sublist ''*/'' (c # b @ ''*'')"
    using no b(4) unfolding cs sublist_close_Cons by (cases b) auto
  moreover have "adv (Suc 0 + (length b + 2)) st st'"
    using adv_trans [of "Suc 0" st "nx st" "length b + 2" st'] b(2) assms(1,2) by simp
  ultimately show ?thesis
    using Inr b assms(2,3) cs by (auto simp: comment_result_def intro!: exI [of _ "c # b"])
qed

lemma commentLoop_spec: "lex_ok st \<Longrightarrow> comment_result st (commentLoop st)"
proof (induction "length (rest st)" arbitrary: st rule: less_induct)
  case less
  note ok = less.prems
  show ?case
  proof (cases "rest st")
    case Nil
    then have "commentLoop st = lexFail ''unexpected end of file in multi line comment'' st"
      using ok by (subst commentLoop.simps) (simp add: isEof_iff)
    moreover obtain t where "lexFail ''unexpected end of file in multi line comment'' st =
        (Inl (LexError (filename st) (line st) (column st)
          ''unexpected end of file in multi line comment'' t) :: lex_error + lexer)"
      using lexFail_LexError [OF ok] by blast
    ultimately show ?thesis using Nil by (simp add: comment_result_def bad_comment_def)
  next
    case (Cons c cs)
    then have ok1: "lex_ok (nx st)" "rest (nx st) = cs" "nextChar st = Inr (nx st)"
      using ok by simp_all
    have ne: "\<not> isEof st" "lastChar st = schar c"
      using ok Cons by (simp_all add: isEof_iff lastChar_hdc)
    show ?thesis
    proof (cases "schar c < 0")
      case True
      then have "commentLoop st = invalidCharError (schar c) st"
        using ne by (subst commentLoop.simps) (simp add: bit7_schar)
      moreover obtain m t where "invalidCharError (schar c) st =
          (Inl (LexError (filename st) (line st) (column st) m t) :: lex_error + lexer)"
        using invalidCharError_LexError [OF ok] by blast
      moreover have "c \<noteq> CHR ''*''" using True by (auto simp: schar_def)
      then have "bad_comment (rest st)"
        using True Cons by (auto simp: bad_comment_def Cons_eq_append_conv)
      ultimately show ?thesis by (simp add: comment_result_def)
    next
      case False
      note pos = this
      show ?thesis
      proof (cases "c = CHR ''*'' \<and> (\<exists>t. cs = CHR ''/'' # t)")
        case True
        then obtain t where t: "cs = CHR ''/'' # t" "c = CHR ''*''" by auto
        have "commentLoop st = Inr (nx (nx st))"
          using ne pos ok ok1 t Cons
          by (subst commentLoop.simps) (simp add: bit7_schar schar_iffs lastChar_hdc)
        moreover have "rest (nx (nx st)) = t" using ok1 t by simp
        moreover have "adv (Suc 0 + Suc 0) st (nx (nx st))"
          using ok ok1 t Cons by (intro adv_trans [of _ _ "nx st"]) simp_all
        ultimately show ?thesis
          using t Cons
          by (auto simp: comment_result_def sublist_close_Cons intro!: exI [of _ "[]"])
      next
        case False
        have "commentLoop st = commentLoop (nx st)"
          using ne pos ok ok1 False Cons
          by (subst commentLoop.simps) (cases cs; auto simp: bit7_schar schar_iffs lastChar_hdc)
        moreover have "comment_result (nx st) (commentLoop (nx st))"
          using less.hyps [of "nx st"] ok1 Cons by simp
        ultimately show ?thesis
          using comment_result_step [OF ok Cons] pos False by auto
      qed
    qed
  qed
qed

text \<open>\<open>adv0\<close> is \<open>adv\<close> without the token position, which skipping sets at every slash.\<close>

definition adv0 :: "nat \<Rightarrow> lexer \<Rightarrow> lexer \<Rightarrow> bool" where
  "adv0 n st st' \<longleftrightarrow>
     lex_ok st' \<and> input st' = input st \<and> nidx st' = nidx st + n
   \<and> filename st' = filename st \<and> tokenLookahead st' = tokenLookahead st"

lemma adv0_trans: "adv0 m st st1 \<Longrightarrow> adv0 n st1 st2 \<Longrightarrow> adv0 (m + n) st st2"
  by (simp add: adv0_def)

lemma adv_adv0: "adv n st st' \<Longrightarrow> adv0 n st st'"
  by (simp add: adv_def adv0_def)

definition pos_at :: "string \<Rightarrow> nat \<Rightarrow> token_pos" where
  "pos_at inp k = mk_pos (p_line (pos_upto inp (Suc k))) (p_col (pos_upto inp (Suc k)))"

lemma lex_ok_pos_at:
  assumes "lex_ok st"
  shows "mk_pos (line st) (column st) = pos_at (input st) (nidx st - 1)"
proof -
  have lp: "lpos_of st = pos_upto (input st) (nidx st)" and "0 < nidx st"
    using assms by (simp_all add: lex_ok_def pre_ok_def)
  then have "pos_at (input st) (nidx st - 1) = mk_pos (p_line (lpos_of st)) (p_col (lpos_of st))"
    by (simp add: pos_at_def del: pos_upto.simps)
  then show ?thesis by (simp add: lpos_of_def)
qed

definition skip_result :: "lexer \<Rightarrow> lex_error + bool \<times> lexer \<Rightarrow> bool" where
  "skip_result st r = (case r of
       Inl e \<Rightarrow> (\<exists>l col msg t. e = LexError (filename st) l col msg t)
         \<and> (\<exists>w r'. blank w \<and> rest st = w @ ''/*'' @ r' \<and> bad_comment r')
     | Inr (slash, st') \<Rightarrow> (\<exists>w. blank w \<and> rest st = w @ (if slash then ''/'' else []) @ rest st'
         \<and> adv0 (length w + (if slash then 1 else 0)) st st'
         \<and> (if slash
            then mk_pos (tokenLine st') (tokenCol st') = pos_at (input st) (nidx st - 1 + length w)
              \<and> \<not> (\<exists>t. rest st' = CHR ''*'' # t)
            else \<not> isSpace (hdc (rest st')) \<and> hdc (rest st') \<noteq> 47)))"

lemma skip_result_prepend:
  assumes "lex_ok st" "adv0 (length u) st st1" "rest st = u @ rest st1"
    and "\<And>w. blank w \<Longrightarrow> blank (u @ w)" and "skip_result st1 r"
  shows "skip_result st r"
proof (cases r)
  case (Inl e)
  with assms(5) obtain w r' where "blank w" "rest st1 = w @ ''/*'' @ r'" "bad_comment r'"
    by (auto simp: skip_result_def)
  then have "blank (u @ w) \<and> rest st = (u @ w) @ ''/*'' @ r' \<and> bad_comment r'"
    using assms(3,4) by simp
  with Inl assms(2,5) show ?thesis unfolding skip_result_def adv0_def by auto
next
  case (Inr p)
  obtain slash st' where p: "p = (slash, st')" by (cases p)
  with Inr assms(5) obtain w where w: "blank w"
    "rest st1 = w @ (if slash then ''/'' else []) @ rest st'"
    "adv0 (length w + (if slash then 1 else 0)) st1 st'"
    "if slash then mk_pos (tokenLine st') (tokenCol st') = pos_at (input st1) (nidx st1 - 1 + length w)
              \<and> \<not> (\<exists>t. rest st' = CHR ''*'' # t)
            else \<not> isSpace (hdc (rest st')) \<and> hdc (rest st') \<noteq> 47"
    by (auto simp: skip_result_def)
  have n: "input st1 = input st" "nidx st1 - 1 = nidx st - 1 + length u"
    using assms(1,2) by (auto simp: adv0_def lex_ok_def)
  have "adv0 (length u + (length w + (if slash then 1 else 0))) st st'"
    using assms(2) w(3) by (rule adv0_trans)
  moreover have "blank (u @ w)" using assms(4) w(1) .
  ultimately show ?thesis
    using Inr p assms(3) w n unfolding skip_result_def
    by (auto simp: add.assoc intro!: exI [of _ "u @ w"])
qed

lemma blank_spaces: "\<forall>c \<in> set u. isSpace (schar c) \<Longrightarrow> blank w \<Longrightarrow> blank (u @ w)"
  by (induction u) (auto intro: blank.intros simp del: schar_space)

lemma skip_spec: "lex_ok st \<Longrightarrow> skip_result st (skipCommentsAndWhitespaces st)"
proof (induction "length (rest st)" arbitrary: st rule: less_induct)
  case less
  note ok = less.prems
  have hd: "lastChar st = hdc (rest st)" using ok by (rule lastChar_hdc)
  have shorter: "length (rest st1) < length (rest st)" if "adv0 n st st1" "0 < n" "rest st \<noteq> []" for n st1
    using that ok lex_ok_nidx [of st] by (auto simp: adv0_def rest_def lex_ok_def)
  consider (slash) r where "rest st = CHR ''/'' # r" | (space) c r where "rest st = c # r" "isSpace (schar c)"
    | (other) "hdc (rest st) \<noteq> 47" "\<not> isSpace (hdc (rest st))"
    by (cases "rest st") (auto simp: schar_iffs simp del: schar_space)
  then show ?case
  proof cases
    case other
    then have "skipCommentsAndWhitespaces st = Inr (False, st)"
      by (subst skipCommentsAndWhitespaces.simps) (simp add: hd)
    with ok other show ?thesis
      by (auto simp: skip_result_def adv0_def intro!: exI [of _ "[]"] blank.intros)
  next
    case space
    obtain st1 where st1: "spaceLoop st = Inr st1"
      "adv (Suc (length (takeWhile (\<lambda>d. isSpace (schar d)) r))) st st1"
      using spaceLoop_spec [OF ok space(1)] by blast
    let ?u = "c # takeWhile (\<lambda>d. isSpace (schar d)) r"
    have ne: "schar c \<noteq> 47" using space(2) by (auto simp: schar_iffs)
    have eq: "skipCommentsAndWhitespaces st = skipCommentsAndWhitespaces st1"
      using space st1 ne by (subst skipCommentsAndWhitespaces.simps) (simp add: hd del: schar_space)
    have a0: "adv0 (length ?u) st st1" using adv_adv0 [OF st1(2)] by simp
    have "skip_result st1 (skipCommentsAndWhitespaces st1)"
      using less.hyps [of st1] shorter [OF a0] a0 space by (simp add: adv0_def)
    moreover have "rest st = ?u @ rest st1"
      using rest_adv [OF st1(2) ok] space(1) by (simp add: dropWhile_eq_drop [symmetric])
    ultimately show ?thesis
      unfolding eq
      using space(2) blank_spaces [of ?u]
      by (intro skip_result_prepend [OF ok a0]) (auto dest: set_takeWhileD simp del: schar_space)
  next
    case slash
    let ?i = "initToken st"
    have ok1: "lex_ok (nx ?i)" "rest (nx ?i) = r" "nextChar ?i = Inr (nx ?i)"
      using ok slash by simp_all
    show ?thesis
    proof (cases "\<exists>t. r = CHR ''*'' # t")
      case False
      then have "skipCommentsAndWhitespaces st = Inr (True, nx ?i)"
        using ok1 slash
        by (subst skipCommentsAndWhitespaces.simps)
          (cases r; auto simp: hd schar_iffs lastChar_hdc)
      moreover have "mk_pos (line st) (column st) = pos_at (input st) (nidx st - 1)"
        using ok by (rule lex_ok_pos_at)
      ultimately show ?thesis
        using ok ok1 slash False
        by (auto simp: skip_result_def adv0_def intro!: exI [of _ "[]"] blank.intros)
    next
      case True
      then obtain t where t: "r = CHR ''*'' # t" by auto
      let ?s2 = "nx (nx ?i)"
      have s2: "lex_ok ?s2" "rest ?s2 = t" "nextChar (nx ?i) = Inr ?s2" "nidx ?s2 = nidx st + 2"
          "input ?s2 = input st" "filename ?s2 = filename st" "tokenLookahead ?s2 = tokenLookahead st"
        using ok ok1 t slash by simp_all
      have eq: "skipCommentsAndWhitespaces st = bindE (commentLoop ?s2) skipCommentsAndWhitespaces"
        using ok1 s2 slash t
        by (subst skipCommentsAndWhitespaces.simps) (simp add: hd schar_iffs lastChar_hdc)
      show ?thesis
      proof (cases "commentLoop ?s2")
        case (Inl e)
        then have "\<exists>l col msg u. e = LexError (filename st) l col msg u" "bad_comment t"
          using commentLoop_spec [OF s2(1)] s2(2,6) by (simp_all add: comment_result_def)
        moreover from this have "blank [] \<and> rest st = [] @ ''/*'' @ t \<and> bad_comment t"
          using slash t by (simp add: blank_Nil)
        ultimately show ?thesis unfolding eq Inl skip_result_def by auto
      next
        case (Inr st3)
        then obtain b where b: "t = b @ ''*/'' @ rest st3" "adv (length b + 2) ?s2 st3"
          "\<forall>c \<in> set b. 0 \<le> schar c" "\<not> sublist ''*/'' (b @ ''*'')"
          using commentLoop_spec [OF s2(1)] s2(2) by (auto simp: comment_result_def)
        let ?u = "''/*'' @ b @ ''*/''"
        have a0: "adv0 (length ?u) st st3"
          using b(2) s2 by (simp add: adv_def adv0_def)
        have "is_comment ?u" using b(3,4) unfolding is_comment_def by blast
        then have bl: "\<And>w. blank w \<Longrightarrow> blank (?u @ w)" by (rule blank.blank_comment)
        have "rest st = ?u @ rest st3" using slash t b(1) by simp
        moreover have "skip_result st3 (skipCommentsAndWhitespaces st3)"
          using less.hyps [of st3] shorter [OF a0] a0 slash by (simp add: adv0_def)
        ultimately show ?thesis
          unfolding eq Inr bindE_simps using bl by (intro skip_result_prepend [OF ok a0]) simp_all
      qed
    qed
  qed
qed

section \<open>Operators\<close>

definition token_at :: "lexer \<Rightarrow> token \<Rightarrow> lexer \<Rightarrow> bool" where
  "token_at st t st' \<longleftrightarrow>
     adv (length (tok_str t)) st st' \<and> longest_lexeme (tok_str t) (rest st)
   \<and> lexeme (tok_str t) = Some (tok_type t)
   \<and> tok_pos t = mk_pos (tokenLine st) (tokenCol st)"

definition op_char :: "char \<Rightarrow> bool" where
  "op_char c \<longleftrightarrow> \<not> alnum c"

lemma alpha_alnum: "isAlphaOrUnderscore c \<Longrightarrow> isAlphaNumOrUnderscore c"
  "isDigit c \<Longrightarrow> isAlphaNumOrUnderscore c"
  by (auto simp: isAlphaOrUnderscore_def isAlphaNumOrUnderscore_def isDigit_def)

lemma lexeme_op_char:
  assumes "op_char c"
  shows "lexeme (c # s) = map_of op_table (c # s)"
proof -
  have "\<not> alpha c" "\<not> digit c"
    using assms alpha_alnum by (auto simp: op_char_def)
  moreover have "c \<noteq> CHR ''0''"
    using assms by (auto simp: op_char_def isAlphaNumOrUnderscore_def schar_def)
  ultimately show ?thesis by (simp add: lexeme_def is_ident_def is_intlit_def)
qed

lemma longest_op:
  assumes "op_char c" "prefix (c # s) r" "map_of op_table (c # s) \<noteq> None"
    and "\<forall>p \<in> set (map fst op_table). prefix p r \<longrightarrow> length p \<le> Suc (length s)"
  shows "longest_lexeme (c # s) r"
  unfolding longest_lexeme_def
proof (intro conjI allI impI)
  show "prefix (c # s) r" by fact
  show "lexeme (c # s) \<noteq> None" using assms(1,3) by (simp add: lexeme_op_char)
  fix p assume p: "prefix p r \<and> lexeme p \<noteq> None"
  show "length p \<le> length (c # s)"
  proof (cases p)
    case (Cons d q)
    with p assms(2) have "d = c" by (auto simp: prefix_def)
    with Cons p assms(1) have "map_of op_table p \<noteq> None" by (simp add: lexeme_op_char)
    then have "p \<in> set (map fst op_table)" by (auto simp: map_of_eq_None_iff)
    with p assms(4) show ?thesis by auto
  qed simp
qed

lemmas op_eval = op_table_def op_types_def

lemma op_chars [simp]:
  "op_char CHR ''*''" "op_char CHR ''/''" "op_char CHR ''%''" "op_char CHR ''+''" "op_char CHR ''-''"
  "op_char CHR ''<''" "op_char CHR ''>''" "op_char CHR ''&''" "op_char CHR ''|''" "op_char CHR ''^''"
  "op_char CHR ''=''" "op_char CHR ''!''" "op_char CHR ''(''" "op_char CHR '')''" "op_char CHR ''[''"
  "op_char CHR '']''" "op_char CHR ''{''" "op_char CHR ''}''" "op_char CHR ''?''" "op_char CHR '',''"
  "op_char CHR ''.''" "op_char CHR '':''" "op_char CHR '';''" "op_char CHR ''~''"
  by (simp_all add: op_char_def isAlphaNumOrUnderscore_def schar_def)

lemmas reader_defs = readStar_def readPercent_def readPlus_def readMinus_def readLT_def readGT_def
  readEq_def readBang_def readAmp_def readVBar_def readCaret_def emit_def appendEmit_def
  appendAndNext_def makeToken_def mk_token_def

lemmas token_at_eval = token_at_def adv_def lexeme_op_char longest_op op_eval

lemma op_tokens:
  assumes "lex_ok st"
  shows
    "rest st = CHR ''*'' # r \<Longrightarrow> \<exists>t st'. readStar st = Inr (t, st') \<and> token_at st t st'"
    "rest st = CHR ''%'' # r \<Longrightarrow> \<exists>t st'. readPercent st = Inr (t, st') \<and> token_at st t st'"
    "rest st = CHR ''+'' # r \<Longrightarrow> \<exists>t st'. readPlus st = Inr (t, st') \<and> token_at st t st'"
    "rest st = CHR ''-'' # r \<Longrightarrow> \<exists>t st'. readMinus st = Inr (t, st') \<and> token_at st t st'"
    "rest st = CHR ''='' # r \<Longrightarrow> \<exists>t st'. readEq st = Inr (t, st') \<and> token_at st t st'"
    "rest st = CHR ''!'' # r \<Longrightarrow> \<exists>t st'. readBang st = Inr (t, st') \<and> token_at st t st'"
    "rest st = CHR ''&'' # r \<Longrightarrow> \<exists>t st'. readAmp st = Inr (t, st') \<and> token_at st t st'"
    "rest st = CHR ''|'' # r \<Longrightarrow> \<exists>t st'. readVBar st = Inr (t, st') \<and> token_at st t st'"
    "rest st = CHR ''^'' # r \<Longrightarrow> \<exists>t st'. readCaret st = Inr (t, st') \<and> token_at st t st'"
  using assms
  by (cases r; simp add: reader_defs lastChar_hdc schar_iffs token_at_eval)+

lemma readLT_token:
  assumes "lex_ok st" "rest st = CHR ''<'' # r"
  shows "\<exists>t st'. readLT st = Inr (t, st') \<and> token_at st t st'"
proof (cases r)
  case Nil
  with assms show ?thesis by (simp add: reader_defs lastChar_hdc schar_iffs token_at_eval)
next
  case (Cons d r1)
  with assms show ?thesis
    by (cases r1) (simp_all add: reader_defs lastChar_hdc schar_iffs token_at_eval)
qed

lemma readGT_token:
  assumes "lex_ok st" "rest st = CHR ''>'' # r"
  shows "\<exists>t st'. readGT st = Inr (t, st') \<and> token_at st t st'"
proof (cases r)
  case Nil
  with assms show ?thesis by (simp add: reader_defs lastChar_hdc schar_iffs token_at_eval)
next
  case (Cons d r1)
  note r = this
  show ?thesis
  proof (cases r1)
    case Nil
    with r assms show ?thesis by (simp add: reader_defs lastChar_hdc schar_iffs token_at_eval)
  next
    case (Cons d2 r2)
    with r assms show ?thesis
      by (cases r2) (simp_all add: reader_defs lastChar_hdc schar_iffs token_at_eval)
  qed
qed

section \<open>Identifiers and numbers\<close>

lemma length_prefix_takeWhile:
  "prefix q r \<Longrightarrow> \<forall>d \<in> set q. P d \<Longrightarrow> length q \<le> length (takeWhile P r)"
  by (auto simp: prefix_def takeWhile_append)

lemma op_table_op_char: "map_of op_table (c # s) \<noteq> None \<Longrightarrow> op_char c"
proof -
  have all: "\<forall>p \<in> set (map fst op_table). op_char (hd p)"
    by (simp add: op_eval)
  assume "map_of op_table (c # s) \<noteq> None"
  then have "c # s \<in> set (map fst op_table)"
    by (simp add: map_of_eq_None_iff image_iff)
  with all have "op_char (hd (c # s))" by blast
  then show "op_char c" by simp
qed

lemma alpha_not_digit: "isAlphaOrUnderscore c \<Longrightarrow> \<not> isDigit c"
  by (auto simp: isAlphaOrUnderscore_def isDigit_def)

lemma op_table_alnum: "alnum c \<Longrightarrow> map_of op_table (c # s) = None"
  using op_table_op_char [of c s] by (cases "map_of op_table (c # s)") (auto simp: op_char_def)

lemma lexeme_alpha:
  assumes "alpha c"
  shows "lexeme (c # s) =
    (if \<forall>d \<in> set s. alnum d then
       Some (case map_of identifierTokens (c # s) of Some t \<Rightarrow> t | None \<Rightarrow> TT_Identifier) else None)"
proof -
  have "alnum c" "\<not> digit c" using assms alpha_alnum alpha_not_digit by blast+
  moreover from this have "c \<noteq> CHR ''0''" by (auto simp: isDigit_def schar_def)
  ultimately show ?thesis
    using assms by (simp add: lexeme_def is_ident_def is_intlit_def op_table_alnum)
qed

lemma lexeme_digit:
  assumes "digit c"
  shows "lexeme (c # s) =
    (if (c = CHR ''0'' \<and> s = []) \<or> (c \<noteq> CHR ''0'' \<and> (\<forall>d \<in> set s. digit d))
     then Some TT_IntLiteral else None)"
proof -
  have "alnum c" "\<not> alpha c" using assms alpha_alnum alpha_not_digit by blast+
  then show ?thesis
    using assms by (auto simp: lexeme_def is_ident_def is_intlit_def op_table_alnum)
qed

lemma readIdentifier_token:
  assumes "lex_ok st" "rest st = c # r" "alpha c"
  shows "\<exists>t st'. readIdentifier st = Inr (t, st') \<and> token_at st t st'"
proof -
  let ?w = "takeWhile alnum r"
  obtain st' where st': "identLoop (st\<lparr>tokenString := [c]\<rparr>) = Inr st'"
    "adv (Suc (length ?w)) st st'" "tokenString st' = c # ?w"
    using ident.loop_spec [of "st\<lparr>tokenString := [c]\<rparr>" c r] assms by auto
  have "longest_lexeme (c # ?w) (rest st)"
    unfolding longest_lexeme_def
  proof (intro conjI allI impI)
    show "prefix (c # ?w) (rest st)" using assms(2) by (simp add: takeWhile_is_prefix)
    show "lexeme (c # ?w) \<noteq> None" using assms(3) by (auto simp: lexeme_alpha dest: set_takeWhileD)
    fix p assume p: "prefix p (rest st) \<and> lexeme p \<noteq> None"
    then show "length p \<le> length (c # ?w)"
      using assms(2,3) length_prefix_takeWhile [of "tl p" r alnum]
      by (cases p) (auto simp: lexeme_alpha split: if_splits)
  qed
  with st' assms show ?thesis
    by (auto simp: readIdentifier_def lastChar_hdc emit_def makeToken_def mk_token_def token_at_def
        lexeme_alpha adv_def split: option.splits dest: set_takeWhileD)
qed

lemma readDecNumber_token:
  assumes "lex_ok st" "rest st = c # r" "digit c"
  shows "\<exists>t st'. readDecNumber st = Inr (t, st') \<and> token_at st t st'"
proof (cases "c = CHR ''0''")
  case True
  have "longest_lexeme ''0'' (rest st)"
    unfolding longest_lexeme_def
  proof (intro conjI allI impI)
    show "prefix ''0'' (rest st)" using assms(2) True by simp
    show "lexeme ''0'' \<noteq> None" using assms(3) True by (simp add: lexeme_digit)
    fix p assume "prefix p (rest st) \<and> lexeme p \<noteq> None"
    then show "length p \<le> length ''0''"
      using assms(2,3) True by (cases p) (auto simp: lexeme_digit split: if_splits)
  qed
  with True assms show ?thesis
    by (simp add: readDecNumber_def lastChar_hdc emit_def makeToken_def mk_token_def token_at_def
        lexeme_digit adv_def schar_iffs)
next
  case False
  let ?w = "takeWhile digit r"
  obtain st' where st': "digitLoop (st\<lparr>tokenString := [c]\<rparr>) = Inr st'"
    "adv (Suc (length ?w)) st st'" "tokenString st' = c # ?w"
    using digits.loop_spec [of "st\<lparr>tokenString := [c]\<rparr>" c r] assms by auto
  have "longest_lexeme (c # ?w) (rest st)"
    unfolding longest_lexeme_def
  proof (intro conjI allI impI)
    show "prefix (c # ?w) (rest st)" using assms(2) by (simp add: takeWhile_is_prefix)
    show "lexeme (c # ?w) \<noteq> None"
      using assms(3) False by (auto simp: lexeme_digit dest: set_takeWhileD)
    fix p assume p: "prefix p (rest st) \<and> lexeme p \<noteq> None"
    then show "length p \<le> length (c # ?w)"
      using assms(2,3) False length_prefix_takeWhile [of "tl p" r digit]
      by (cases p) (auto simp: lexeme_digit split: if_splits)
  qed
  with st' assms False show ?thesis
    by (auto simp: readDecNumber_def lastChar_hdc emit_def makeToken_def mk_token_def token_at_def
        lexeme_digit adv_def schar_iffs dest: set_takeWhileD)
qed

end
