(* ===== verification/Lexer_Spec.thy ===== *)
theory Lexer_Spec
  imports Lexer_Props
begin

text \<open>
  The specification of \<open>Lexer::readNextToken\<close>, \<open>nextToken\<close> and \<open>lookAhead\<close>: a token is a blank
  prefix followed by the longest lexeme, at the position of its first character; the only
  exception that can be thrown is a \<open>LexError\<close>, and its reason lies in the text.
\<close>

section \<open>One token\<close>

definition illegal_char :: "char \<Rightarrow> bool" where
  "illegal_char c \<longleftrightarrow> \<not> isSpace (schar c) \<and> \<not> alnum c \<and> map_of op_table [c] = None"

definition token_result :: "lexer \<Rightarrow> lex_error + token \<times> lexer \<Rightarrow> bool" where
  "token_result st r = (case r of
       Inl e \<Rightarrow> (\<exists>l col msg t. e = LexError (filename st) l col msg t)
         \<and> ((\<exists>w r'. blank w \<and> rest st = w @ ''/*'' @ r' \<and> bad_comment r')
           \<or> (\<exists>w c r'. blank w \<and> rest st = w @ c # r' \<and> illegal_char c))
     | Inr (t, st') \<Rightarrow> (\<exists>w. blank w
         \<and> tok_pos t = pos_at (input st) (nidx st - 1 + length w)
         \<and> lex_ok st' \<and> input st' = input st \<and> filename st' = filename st
         \<and> tokenLookahead st' = tokenLookahead st
         \<and> (if tok_type t = TT_Eof then rest st = w \<and> rest st' = [] \<and> tok_str t = ''EOF''
            else rest st = w @ tok_str t @ rest st' \<and> lexeme (tok_str t) = Some (tok_type t)
              \<and> longest_lexeme (tok_str t) (tok_str t @ rest st'))))"

lemma lexeme_not_Eof: "lexeme s \<noteq> Some TT_Eof"
proof -
  have "TT_Eof \<notin> snd ` set identifierTokens" by (simp add: identifierTokens_def)
  then have "map_of identifierTokens s \<noteq> Some TT_Eof" by (force dest: map_of_SomeD)
  moreover have "TT_Eof \<notin> snd ` set op_table" by (simp add: op_eval)
  then have "map_of op_table s \<noteq> Some TT_Eof" by (force dest: map_of_SomeD)
  ultimately show ?thesis by (auto simp: lexeme_def split: option.splits)
qed

lemma getSingleCharOpToken_token:
  assumes "lex_ok st" "rest st = c # r" "getSingleCharOpToken (schar c) \<noteq> TT_none"
  shows "token_at st (makeToken (getSingleCharOpToken (schar c)) (st\<lparr>tokenString := [c]\<rparr>)) (nx st)"
  using assms
  by (simp add: getSingleCharOpToken_def makeToken_def mk_token_def token_at_eval split: if_splits)

lemma illegal_char_none:
  assumes "\<not> isSpace (schar c)" "\<not> alpha c" "\<not> digit c" "getSingleCharOpToken (schar c) = TT_none"
    "schar c \<notin> {42, 37, 43, 45, 60, 62, 38, 124, 94, 61, 33, 47}"
  shows "illegal_char c"
proof -
  have "\<not> alnum c" using assms(2,3)
    by (auto simp: isAlphaNumOrUnderscore_def isAlphaOrUnderscore_def isDigit_def)
  moreover have "map_of op_table [c] = None"
    using assms(4,5)
    by (simp add: getSingleCharOpToken_def op_eval schar_iffs split: if_splits)
  ultimately show ?thesis using assms(1) by (simp add: illegal_char_def)
qed

definition scan_token :: "lexer \<Rightarrow> lex_error + token \<times> lexer" where
  "scan_token st =
     (let c = lastChar st in
            if isAlphaOrUnderscore c then readIdentifier st
            else if isDigit c then readDecNumber st
            else if c = 42 then readStar st
            else if c = 37 then readPercent st
            else if c = 43 then readPlus st
            else if c = 45 then readMinus st
            else if c = 60 then readLT st
            else if c = 62 then readGT st
            else if c = 38 then readAmp st
            else if c = 124 then readVBar st
            else if c = 94 then readCaret st
            else if c = 61 then readEq st
            else if c = 33 then readBang st
            else if isEof st then emit TT_Eof (st\<lparr>tokenString := ''EOF''\<rparr>)
            else
              let st' = st\<lparr>tokenString := [char_of_int c]\<rparr>; t = getSingleCharOpToken c in
              if t = TT_none then invalidCharError c st'
              else bindE (nextChar st') (emit t))"

lemma readNextToken_eq: "readNextToken st0 =
  bindE (skipCommentsAndWhitespaces st0)
    (\<lambda>(slash, st1). if slash then readSlashFromSecondCharOn st1 else scan_token (initToken st1))"
  unfolding readNextToken_def scan_token_def Let_def by (rule refl)

lemma scan_token_spec:
  assumes "lex_ok st" "\<not> isSpace (hdc (rest st))" "hdc (rest st) \<noteq> 47"
  shows "case scan_token st of
      Inl e \<Rightarrow> (\<exists>l col msg t. e = LexError (filename st) l col msg t)
        \<and> (\<exists>c r. rest st = c # r \<and> illegal_char c)
    | Inr (t, st') \<Rightarrow>
        (if rest st = [] then tok_type t = TT_Eof \<and> tok_str t = ''EOF''
           \<and> tok_pos t = mk_pos (tokenLine st) (tokenCol st) \<and> adv 0 st st'
         else token_at st t st')"
proof (cases "rest st")
  case Nil
  have "scan_token st = emit TT_Eof (st\<lparr>tokenString := ''EOF''\<rparr>)"
    using assms(1) Nil
    by (simp add: scan_token_def lastChar_hdc isEof_iff Let_def isAlphaOrUnderscore_def isDigit_def)
  with Nil assms(1) show ?thesis
    by (simp add: emit_def makeToken_def mk_token_def adv_refl)
next
  case (Cons c r)
  have lc: "lastChar st = schar c" and ne: "\<not> isEof st"
    using assms(1) Cons by (simp_all add: lastChar_hdc isEof_iff)
  consider (id) "alpha c" | (num) "\<not> alpha c" "digit c"
    | (op) "\<not> alpha c" "\<not> digit c" "schar c \<in> {42, 37, 43, 45, 60, 62, 38, 124, 94, 61, 33}"
    | (single) "\<not> alpha c" "\<not> digit c" "schar c \<notin> {42, 37, 43, 45, 60, 62, 38, 124, 94, 61, 33}"
    by blast
  then show ?thesis
  proof cases
    case id
    then have "scan_token st = readIdentifier st" by (simp add: scan_token_def lc)
    with readIdentifier_token [OF assms(1) Cons id] Cons show ?thesis by auto
  next
    case num
    then have "scan_token st = readDecNumber st" by (simp add: scan_token_def lc)
    with readDecNumber_token [OF assms(1) Cons num(2)] Cons show ?thesis by auto
  next
    case op
    then have "\<exists>t st'. scan_token st = Inr (t, st') \<and> token_at st t st'"
      using op_tokens [OF assms(1), of r] readLT_token [OF assms(1), of r]
        readGT_token [OF assms(1), of r] Cons
      by (auto simp: scan_token_def lc schar_iffs)
    with Cons show ?thesis by auto
  next
    case single
    show ?thesis
    proof (cases "getSingleCharOpToken (schar c) = TT_none")
      case True
      have "scan_token st = invalidCharError (schar c) (st\<lparr>tokenString := [c]\<rparr>)"
        using single True ne by (simp add: scan_token_def lc Let_def)
      moreover obtain m t where "invalidCharError (schar c) (st\<lparr>tokenString := [c]\<rparr>) =
          (Inl (LexError (filename st) (line st) (column st) m t) :: lex_error + token \<times> lexer)"
        using invalidCharError_LexError [of "st\<lparr>tokenString := [c]\<rparr>" "schar c"] assms(1) by auto
      moreover have "illegal_char c"
        using illegal_char_none single True assms(2,3) Cons by auto
      ultimately show ?thesis using Cons by simp
    next
      case False
      have "nextChar (st\<lparr>tokenString := [c]\<rparr>) = Inr (nx (st\<lparr>tokenString := [c]\<rparr>))"
        using assms(1) Cons by simp
      then have "scan_token st = emit (getSingleCharOpToken (schar c)) (nx (st\<lparr>tokenString := [c]\<rparr>))"
        using single False ne by (simp add: scan_token_def lc Let_def)
      moreover have "token_at st (makeToken (getSingleCharOpToken (schar c)) (nx (st\<lparr>tokenString := [c]\<rparr>)))
          (nx (st\<lparr>tokenString := [c]\<rparr>))"
        using getSingleCharOpToken_token [OF assms(1) Cons False] assms(1) Cons
        by (simp add: makeToken_def mk_token_def token_at_def adv_def)
      ultimately show ?thesis using Cons by (simp add: emit_def)
    qed
  qed
qed

lemma readSlash_spec:
  assumes "lex_ok st" "\<not> (\<exists>t. rest st = CHR ''*'' # t)"
  shows "\<exists>t st'. readSlashFromSecondCharOn st = Inr (t, st') \<and> adv (length (tok_str t) - 1) st st'
    \<and> ''/'' @ rest st = tok_str t @ rest st' \<and> lexeme (tok_str t) = Some (tok_type t)
    \<and> longest_lexeme (tok_str t) (''/'' @ rest st)
    \<and> tok_pos t = mk_pos (tokenLine st) (tokenCol st)"
proof -
  consider (nil) "rest st = []" | (eq) r where "rest st = CHR ''='' # r"
    | (other) c r where "rest st = c # r" "c \<noteq> CHR ''=''" "c \<noteq> CHR ''*''"
    using assms(2) by (cases "rest st") auto
  then show ?thesis
    using assms(1)
    by cases (simp_all add: readSlashFromSecondCharOn_def reader_defs lastChar_hdc schar_iffs
        adv_def lexeme_op_char longest_op op_eval)
qed

lemma readNextToken_spec:
  assumes ok: "lex_ok st"
  shows "token_result st (readNextToken st)"
proof (cases "skipCommentsAndWhitespaces st")
  case (Inl e)
  with skip_spec [OF ok] show ?thesis
    by (simp add: readNextToken_eq token_result_def skip_result_def)
next
  case (Inr p)
  obtain slash st1 where p: "p = (slash, st1)" by (cases p)
  with Inr skip_spec [OF ok] obtain w where w: "blank w"
    "rest st = w @ (if slash then ''/'' else []) @ rest st1"
    "adv0 (length w + (if slash then 1 else 0)) st st1"
    "if slash then mk_pos (tokenLine st1) (tokenCol st1) = pos_at (input st) (nidx st - 1 + length w)
              \<and> \<not> (\<exists>t. rest st1 = CHR ''*'' # t)
            else \<not> isSpace (hdc (rest st1)) \<and> hdc (rest st1) \<noteq> 47"
    by (auto simp: skip_result_def)
  have ok1: "lex_ok st1" "input st1 = input st" "filename st1 = filename st"
    "tokenLookahead st1 = tokenLookahead st"
    using w(3) by (simp_all add: adv0_def)
  show ?thesis
  proof (cases slash)
    case True
    have nc: "\<not> (\<exists>t. rest st1 = CHR ''*'' # t)" using w(4) True by simp
    obtain t st' where t: "readSlashFromSecondCharOn st1 = Inr (t, st')"
      "adv (length (tok_str t) - 1) st1 st'" "''/'' @ rest st1 = tok_str t @ rest st'"
      "lexeme (tok_str t) = Some (tok_type t)" "longest_lexeme (tok_str t) (''/'' @ rest st1)"
      "tok_pos t = mk_pos (tokenLine st1) (tokenCol st1)"
      using readSlash_spec [OF ok1(1) nc] by blast
    then have "readNextToken st = Inr (t, st')"
      using Inr p True by (simp add: readNextToken_eq)
    moreover have "tok_type t \<noteq> TT_Eof" using t(4) lexeme_not_Eof by metis
    ultimately show ?thesis
      using t w ok1 True unfolding token_result_def adv_def by (auto intro!: exI [of _ w])
  next
    case False
    let ?s = "initToken st1"
    have eq: "readNextToken st = scan_token ?s"
      using Inr p False by (simp add: readNextToken_eq)
    have pos: "mk_pos (tokenLine ?s) (tokenCol ?s) = pos_at (input st) (nidx st - 1 + length w)"
      using lex_ok_pos_at [OF ok1(1)] w(3) ok False by (simp add: adv0_def lex_ok_def)
    have sp: "lex_ok ?s" "\<not> isSpace (hdc (rest ?s))" "hdc (rest ?s) \<noteq> 47"
      using ok1(1) w(4) False by simp_all
    have rs: "rest st = w @ rest st1" using w(2) False by simp
    show ?thesis
    proof (cases "scan_token ?s")
      case (Inl e)
      then obtain c r where "\<exists>l col msg t. e = LexError (filename st) l col msg t"
        "rest st = w @ c # r" "illegal_char c"
        using scan_token_spec [OF sp] ok1 rs by auto
      with Inl w(1) show ?thesis unfolding eq token_result_def by auto
    next
      case (Inr q)
      obtain t st' where q: "q = (t, st')" by (cases q)
      show ?thesis
      proof (cases "rest st1 = []")
        case True
        then have "tok_type t = TT_Eof" "tok_str t = ''EOF''"
          "tok_pos t = mk_pos (tokenLine ?s) (tokenCol ?s)" "adv 0 ?s st'"
          using scan_token_spec [OF sp] Inr q by auto
        moreover from this have "rest st' = []"
          using rest_adv [of 0 ?s st'] sp(1) True by simp
        ultimately show ?thesis
          using Inr q w(1) rs True pos ok1
          unfolding eq token_result_def by (auto simp: adv_def)
      next
        case False
        then have t: "token_at ?s t st'"
          using scan_token_spec [OF sp] Inr q by auto
        have "rest st' = drop (length (tok_str t)) (rest st1)"
          using t rest_adv [of _ ?s st'] sp(1) by (simp add: token_at_def)
        moreover have "prefix (tok_str t) (rest st1)"
          using t by (simp add: token_at_def longest_lexeme_def)
        ultimately have sp2: "rest st1 = tok_str t @ rest st'"
          by (auto simp: prefix_def)
        have "tok_type t \<noteq> TT_Eof" using t lexeme_not_Eof by (metis token_at_def)
        then show ?thesis
          using Inr q w(1) rs sp2 pos ok1 t
          unfolding eq token_result_def by (auto simp: token_at_def adv_def)
      qed
    qed
  qed
qed

end
