(* ===== verification/Lexer_Queue.thy ===== *)
theory Lexer_Queue
  imports Lexer_Spec
begin

text \<open>
  The token queue of the lexer (\<open>nextToken\<close>, \<open>lookAhead\<close>, \<open>peekAhead\<close>) as the token source
  that the parser reads from.  The locale \<open>token_source\<close> states the contract: an invariant,
  the number of tokens that can still be delivered, and its decrease.  It is interpreted on
  the lexer.  Looking ahead does not change the tokens delivered later.
\<close>

section \<open>The contract of a token source\<close>

locale token_source =
  fixes good :: "'s \<Rightarrow> bool"
    and nxt :: "'s \<Rightarrow> 'e + token \<times> 's"
    and look :: "nat \<Rightarrow> 's \<Rightarrow> 'e + token \<times> 's"
    and left :: "'s \<Rightarrow> nat"
    and lexical :: "'e \<Rightarrow> bool"
  assumes nxt_good: "good s \<Longrightarrow> nxt s = Inr (t, s') \<Longrightarrow> good s'"
    and nxt_left: "good s \<Longrightarrow> nxt s = Inr (t, s') \<Longrightarrow>
      left s' + (if tok_type t = TT_Eof then 0 else 1) \<le> left s"
    and nxt_error: "good s \<Longrightarrow> nxt s = Inl e \<Longrightarrow> lexical e"
    and look_good: "good s \<Longrightarrow> look n s = Inr (t, s') \<Longrightarrow> good s'"
    and look_left: "good s \<Longrightarrow> look n s = Inr (t, s') \<Longrightarrow> left s' \<le> left s"
    and look_error: "good s \<Longrightarrow> 0 < n \<Longrightarrow> look n s = Inl e \<Longrightarrow> lexical e"
begin

text \<open>Reading to the end: the tokens before the first \<open>Eof\<close> or error.\<close>

fun drain :: "nat \<Rightarrow> 's \<Rightarrow> ('e + token list) option" where
  "drain 0 s = None"
| "drain (Suc n) s = (case nxt s of
       Inl e \<Rightarrow> Some (Inl e)
     | Inr (t, s') \<Rightarrow>
         if tok_type t = TT_Eof then Some (Inr [t])
         else map_option (map_sum id (\<lambda>ts. t # ts)) (drain n s'))"

lemma drain_terminates: "good s \<Longrightarrow> left s < n \<Longrightarrow> \<exists>r. drain n s = Some r"
proof (induction n arbitrary: s)
  case (Suc n)
  show ?case
  proof (cases "nxt s")
    case (Inr p)
    obtain t s' where p: "p = (t, s')" by (cases p)
    show ?thesis
    proof (cases "tok_type t = TT_Eof")
      case False
      then have "\<exists>r. drain n s' = Some r"
        using Suc.IH [of s'] nxt_good nxt_left Inr p Suc.prems by fastforce
      with False Inr p show ?thesis by auto
    qed (use Inr p in simp)
  qed simp
qed simp

lemma drain_error: "good s \<Longrightarrow> drain n s = Some (Inl e) \<Longrightarrow> lexical e"
proof (induction n arbitrary: s)
  case (Suc n)
  show ?case
  proof (cases "nxt s")
    case (Inl e')
    with Suc.prems nxt_error show ?thesis by simp
  next
    case (Inr p)
    obtain t s' where p: "p = (t, s')" by (cases p)
    have "drain n s' = Some (Inl e)"
      using Suc.prems(2) Inr p
      by (cases "drain n s'" rule: option.exhaust)
        (auto split: if_splits, case_tac x2, auto)
    with Suc.IH [of s'] nxt_good Suc.prems(1) Inr p show ?thesis by blast
  qed
qed simp

end

section \<open>The lexer is a token source\<close>

definition is_LexError :: "lex_error \<Rightarrow> bool" where
  "is_LexError e \<longleftrightarrow> (\<exists>f l c m t. e = LexError f l c m t)"

definition lex_toks :: "lexer \<Rightarrow> nat" where
  "lex_toks st = length (filter (\<lambda>t. tok_type t \<noteq> TT_Eof) (tokenLookahead st)) + length (rest st)"

lemma lexeme_nonempty: "lexeme s = Some t \<Longrightarrow> s \<noteq> []"
proof -
  have "[] \<notin> fst ` set op_table" by (simp add: op_eval)
  then have "map_of op_table [] = None" by (simp add: map_of_eq_None_iff)
  then have "lexeme [] = None" by (simp add: lexeme_def is_ident_def is_intlit_def)
  then show "lexeme s = Some t \<Longrightarrow> s \<noteq> []" by (cases s) auto
qed

lemma readNextToken_left:
  assumes "lex_ok st" "readNextToken st = Inr (t, st')"
  shows "lex_ok st'" "tokenLookahead st' = tokenLookahead st"
    "length (rest st') + (if tok_type t = TT_Eof then 0 else 1) \<le> length (rest st)"
proof -
  obtain w where w: "lex_ok st'" "tokenLookahead st' = tokenLookahead st"
    "if tok_type t = TT_Eof then rest st = w \<and> rest st' = [] \<and> tok_str t = ''EOF''
     else rest st = w @ tok_str t @ rest st' \<and> lexeme (tok_str t) = Some (tok_type t)
       \<and> longest_lexeme (tok_str t) (tok_str t @ rest st')"
    using readNextToken_spec [OF assms(1)] assms(2) unfolding token_result_def by auto
  then show "lex_ok st'" "tokenLookahead st' = tokenLookahead st" by simp_all
  show "length (rest st') + (if tok_type t = TT_Eof then 0 else 1) \<le> length (rest st)"
    using w(3) lexeme_nonempty [of "tok_str t"] by (cases "tok_str t") (auto split: if_splits)
qed

lemma readNextToken_error: "lex_ok st \<Longrightarrow> readNextToken st = Inl e \<Longrightarrow> is_LexError e"
  using readNextToken_spec [of st] by (auto simp: token_result_def is_LexError_def)

lemma nextToken_left:
  assumes "lex_ok st" "nextToken st = Inr (t, st')"
  shows "lex_ok st'" "lex_toks st' + (if tok_type t = TT_Eof then 0 else 1) \<le> lex_toks st"
  using assms readNextToken_left [of st t st']
  by (auto simp: nextToken_def lex_toks_def split: list.splits)

lemma pushTokens_left:
  assumes "lex_ok st" "pushTokens k st = Inr st'"
  shows "lex_ok st' \<and> lex_toks st' \<le> lex_toks st
    \<and> length (tokenLookahead st') = length (tokenLookahead st) + k"
  using assms
proof (induction k arbitrary: st)
  case (Suc k)
  from Suc.prems(2) obtain t st1 where t: "readNextToken st = Inr (t, st1)"
    and p: "pushTokens k (st1\<lparr>tokenLookahead := tokenLookahead st1 @ [t]\<rparr>) = Inr st'"
    by (auto simp: bindE_eq_Inr)
  note r = readNextToken_left [OF Suc.prems(1) t]
  let ?s = "st1\<lparr>tokenLookahead := tokenLookahead st1 @ [t]\<rparr>"
  have "lex_ok ?s" "lex_toks ?s \<le> lex_toks st"
    using r by (auto simp: lex_toks_def split: if_splits)
  with Suc.IH [OF _ p] r(2) show ?case by auto
qed simp

lemma pushTokens_error: "lex_ok st \<Longrightarrow> pushTokens k st = Inl e \<Longrightarrow> is_LexError e"
proof (induction k arbitrary: st)
  case (Suc k)
  show ?case
  proof (cases "readNextToken st")
    case (Inl e')
    with Suc.prems readNextToken_error show ?thesis by auto
  next
    case (Inr p)
    obtain t st1 where p: "p = (t, st1)" by (cases p)
    have "lex_ok (st1\<lparr>tokenLookahead := tokenLookahead st1 @ [t]\<rparr>)"
      using readNextToken_left(1) Suc.prems(1) Inr p by simp
    moreover have "pushTokens k (st1\<lparr>tokenLookahead := tokenLookahead st1 @ [t]\<rparr>) = Inl e"
      using Suc.prems(2) Inr p by simp
    ultimately show ?thesis by (rule Suc.IH)
  qed
qed simp

lemma lookAhead_left:
  assumes "lex_ok st" "lookAhead n st = Inr (t, st')"
  shows "lex_ok st'" "lex_toks st' \<le> lex_toks st"
  using assms pushTokens_left [OF assms(1)]
  by (auto simp: lookAhead_def peekAhead_def bindE_eq_Inr split: if_splits)

interpretation lexq: token_source lex_ok nextToken lookAhead lex_toks is_LexError
proof
  fix s t s' assume "lex_ok s" "nextToken s = Inr (t, s')"
  then show "lex_ok s'" "lex_toks s' + (if tok_type t = TT_Eof then 0 else 1) \<le> lex_toks s"
    by (rule nextToken_left)+
next
  fix s e assume "lex_ok s" "nextToken s = Inl e"
  then show "is_LexError e" by (auto simp: nextToken_def readNextToken_error split: list.splits)
next
  fix s n t s' assume "lex_ok s" "lookAhead n s = Inr (t, s')"
  then show "lex_ok s'" "lex_toks s' \<le> lex_toks s" by (rule lookAhead_left)+
next
  fix s n e assume "lex_ok s" "0 < n" "lookAhead n s = Inl e"
  then show "is_LexError e"
    by (auto simp: lookAhead_def peekAhead_def bindE_eq_Inl pushTokens_error split: if_splits)
qed

section \<open>The scanner does not depend on the queue\<close>

definition la :: "token list \<Rightarrow> lexer \<Rightarrow> lexer" where
  "la q st = st\<lparr>tokenLookahead := q\<rparr>"

definition mapR :: "('a \<Rightarrow> 'b) \<Rightarrow> 'e + 'a \<Rightarrow> 'e + 'b" where
  "mapR f r = (case r of Inl e \<Rightarrow> Inl e | Inr x \<Rightarrow> Inr (f x))"

lemma mapR_simps [simp]: "mapR f (Inl e) = Inl e" "mapR f (Inr x) = Inr (f x)"
  by (simp_all add: mapR_def)

lemma bindE_mapR [simp]: "bindE (mapR g m) f = bindE m (\<lambda>x. f (g x))"
  by (cases m) simp_all

lemma mapR_bindE [simp]: "mapR h (bindE m f) = bindE m (\<lambda>x. mapR h (f x))"
  by (cases m) simp_all

definition laP :: "token list \<Rightarrow> 'a \<times> lexer \<Rightarrow> 'a \<times> lexer" where
  "laP q p = (fst p, la q (snd p))"

lemma laP_Pair [simp]: "laP q (t, st) = (t, la q st)"
  by (simp add: laP_def)

lemma la_fields [simp]:
  "lastChar (la q st) = lastChar st" "isEof (la q st) = isEof st" "tokenString (la q st) = tokenString st"
  "initToken (la q st) = la q (initToken st)"
  "(la q st)\<lparr>tokenString := s\<rparr> = la q (st\<lparr>tokenString := s\<rparr>)"
  "makeToken t (la q st) = makeToken t st" "tokenLookahead (la q st) = q"
  "la q (la q' st) = la q st"
  by (cases st; simp add: la_def isEof_def initToken_def makeToken_def)+

lemma la_id: "tokenLookahead st = q \<Longrightarrow> la q st = st"
  by (simp add: la_def)

lemma errors_la [simp]:
  "lexFail msg (la q st) = lexFail msg st"
  "invalidCharError c (la q st) = invalidCharError c st"
  by (simp_all add: lexFail_def invalidCharError_def getCurrentLineFromInput_def la_def)

lemma errors_mapR [simp]:
  "mapR f (lexFail msg st) = lexFail msg st" "mapR f (invalidCharError c st) = invalidCharError c st"
  by (simp_all add: lexFail_def invalidCharError_def getCurrentLineFromInput_def split: prod.splits)

lemma readIntoBuffer_la: "readIntoBuffer (la q st) = mapR (la q) (readIntoBuffer st)"
  by (cases st) (simp add: readIntoBuffer_def Let_def la_def cong: if_cong)

lemma nextChar_la [simp]: "nextChar (la q st) = mapR (la q) (nextChar st)"
proof -
  define k where "k = (\<lambda>st2 :: lexer.
          if nextCharPos st2 \<ge> maxBufferSize then Inl BufferOverrun
          else
            let c = buffer st2 (nextCharPos st2);
                st3 = st2\<lparr>lastChar := c, nextCharPos := nextCharPos st2 + 1\<rparr>;
                (ls, newline) = lineStep (lineState st3) c
            in if newline
               then Inr (st3\<lparr>lineState := ls, column := 1, line := line st3 + 1,
                      lineStartFileOffsets := lineStartFileOffsets st3 @
                        [bufferStartOffset st3 + nextCharPos st3 - 1]\<rparr>)
               else Inr (st3\<lparr>lineState := ls, column := column st3 + 1\<rparr>))"
  have k: "k (la q s) = mapR (la q) (k s)" for s
    by (cases s) (simp add: k_def la_def Let_def split: prod.splits)
  define u where "u = (\<lambda>st :: lexer. if lastChar st = c_tab then st\<lparr>column := column st + 1\<rparr> else st)"
  have u: "u (la q st) = la q (u st)"
    by (cases st) (simp add: u_def la_def)
  have f: "streamIsEof (la q s) = streamIsEof s" "nextCharPos (la q s) = nextCharPos s"
    "curBufferSize (la q s) = curBufferSize s" for s
    by (simp_all add: la_def)
  have nc: "nextChar s = bindE (if \<not> streamIsEof (u s) \<and> nextCharPos (u s) = curBufferSize (u s)
      then readIntoBuffer (u s) else Inr (u s)) k" for s
    unfolding nextChar_def Let_def k_def u_def by (rule refl)
  show ?thesis
    unfolding nc u f by (simp add: readIntoBuffer_la k)
qed

lemma appendAndNext_la [simp]: "appendAndNext (la q st) = mapR (la q) (appendAndNext st)"
  by (simp add: appendAndNext_def)

lemma commentLoop_la [simp]: "commentLoop (la q st) = mapR (la q) (commentLoop st)"
proof (induction st rule: commentLoop.induct)
  case (1 st)
  show ?case
    by (subst (1 2) commentLoop.simps) (auto simp: "1.IH" intro!: bindE_cong)
qed

lemma spaceLoop_la [simp]: "spaceLoop (la q st) = mapR (la q) (spaceLoop st)"
proof (induction st rule: spaceLoop.induct)
  case (1 st)
  show ?case by (subst (1 2) spaceLoop.simps) (auto simp: "1.IH" intro!: bindE_cong)
qed

lemma skip_la [simp]:
  "skipCommentsAndWhitespaces (la q st) = mapR (laP q) (skipCommentsAndWhitespaces st)"
proof (induction st rule: skipCommentsAndWhitespaces.induct)
  case (1 st)
  show ?case
    by (subst (1 2) skipCommentsAndWhitespaces.simps) (auto simp: "1.IH" intro!: bindE_cong)
qed

lemma identLoop_la [simp]: "identLoop (la q st) = mapR (la q) (identLoop st)"
proof (induction st rule: identLoop.induct)
  case (1 st)
  show ?case by (subst (1 2) identLoop.simps) (auto simp: "1.IH" intro!: bindE_cong)
qed

lemma digitLoop_la [simp]: "digitLoop (la q st) = mapR (la q) (digitLoop st)"
proof (induction st rule: digitLoop.induct)
  case (1 st)
  show ?case by (subst (1 2) digitLoop.simps) (auto simp: "1.IH" intro!: bindE_cong)
qed

lemma emit_la [simp]:
  "emit t (la q st) = mapR (laP q) (emit t st)"
  "appendEmit t (la q st) = mapR (laP q) (appendEmit t st)"
  by (simp_all add: emit_def appendEmit_def)

lemma readers_la [simp]:
  "readIdentifier (la q st) = mapR (laP q) (readIdentifier st)"
  "readDecNumber (la q st) = mapR (laP q) (readDecNumber st)"
  "readSlashFromSecondCharOn (la q st) = mapR (laP q) (readSlashFromSecondCharOn st)"
  "readStar (la q st) = mapR (laP q) (readStar st)"
  "readPercent (la q st) = mapR (laP q) (readPercent st)"
  "readPlus (la q st) = mapR (laP q) (readPlus st)"
  "readMinus (la q st) = mapR (laP q) (readMinus st)"
  "readLT (la q st) = mapR (laP q) (readLT st)"
  "readGT (la q st) = mapR (laP q) (readGT st)"
  "readEq (la q st) = mapR (laP q) (readEq st)"
  "readBang (la q st) = mapR (laP q) (readBang st)"
  "readAmp (la q st) = mapR (laP q) (readAmp st)"
  "readVBar (la q st) = mapR (laP q) (readVBar st)"
  "readCaret (la q st) = mapR (laP q) (readCaret st)"
  by (auto simp: readIdentifier_def readDecNumber_def readSlashFromSecondCharOn_def Let_def
      readStar_def readPercent_def readPlus_def readMinus_def readLT_def readGT_def readEq_def
      readBang_def readAmp_def readVBar_def readCaret_def intro!: bindE_cong split: option.splits)

lemma scan_token_la: "scan_token (la q st) = mapR (laP q) (scan_token st)"
  by (simp add: scan_token_def Let_def)

lemma readNextToken_la: "readNextToken (la q st) = mapR (laP q) (readNextToken st)"
  by (auto simp: readNextToken_eq scan_token_la intro!: bindE_cong)

section \<open>Looking ahead is transparent\<close>

text \<open>The \<open>n\<close>-th token that repeated calls of \<open>nextToken\<close> deliver.\<close>

fun tokenN :: "nat \<Rightarrow> lexer \<Rightarrow> lex_error + token" where
  "tokenN 0 st = mapR fst (nextToken st)"
| "tokenN (Suc n) st = bindE (nextToken st) (\<lambda>(_, st1). tokenN n st1)"

lemma nextToken_Cons: "nextToken (la (t # q) st) = Inr (t, la q st)"
  by (simp add: nextToken_def la_def)

lemma nextToken_Nil: "nextToken (la [] st) = mapR (laP []) (readNextToken st)"
  by (simp add: nextToken_def readNextToken_la)

lemma readNextToken_queue:
  assumes "readNextToken st = Inr (t, st')"
  shows "tokenLookahead st' = tokenLookahead st"
proof -
  have "readNextToken st = mapR (laP (tokenLookahead st)) (readNextToken st)"
    using readNextToken_la [of "tokenLookahead st" st] by (simp add: la_id)
  with assms have "st' = la (tokenLookahead st) st'" by simp
  then show ?thesis by (metis la_fields(7))
qed

lemma tokenN_push1:
  assumes "readNextToken b = Inr (t, b1)"
  shows "tokenN n (la (q @ [t]) b1) = tokenN n (la q b)"
proof (induction q arbitrary: n)
  case Nil
  have "nextToken (la [t] b1) = nextToken (la [] b)"
    using assms by (simp add: nextToken_Cons nextToken_Nil)
  then show ?case by (cases n) simp_all
next
  case (Cons x q)
  then show ?case by (cases n) (simp_all add: nextToken_Cons)
qed

lemma tokenN_pushTokens: "pushTokens k st = Inr st' \<Longrightarrow> tokenN n st' = tokenN n st"
proof (induction k arbitrary: st)
  case (Suc k)
  then obtain t st1 where t: "readNextToken st = Inr (t, st1)"
    and p: "pushTokens k (la (tokenLookahead st @ [t]) st1) = Inr st'"
    by (auto simp: bindE_eq_Inr la_def readNextToken_queue)
  have "tokenN n st' = tokenN n (la (tokenLookahead st @ [t]) st1)"
    by (rule Suc.IH [OF p])
  also have "\<dots> = tokenN n (la (tokenLookahead st) st)"
    by (rule tokenN_push1 [OF t])
  finally show ?case by (simp add: la_id)
qed simp

lemma tokenN_queue: "n < length (tokenLookahead st) \<Longrightarrow> tokenN n st = Inr (tokenLookahead st ! n)"
  by (induction n arbitrary: st) (auto simp: nextToken_def split: list.splits)

lemma pushTokens_length:
  "pushTokens k st = Inr st' \<Longrightarrow> length (tokenLookahead st') = length (tokenLookahead st) + k"
proof (induction k arbitrary: st)
  case (Suc k)
  then show ?case by (auto simp: bindE_eq_Inr dest: readNextToken_queue)
qed simp

lemma lookAhead_tokenN:
  assumes "lookAhead n st = Inr (t, st')"
  shows "tokenN (n - 1) st = Inr t" "tokenN k st' = tokenN k st" "n \<le> length (tokenLookahead st')"
proof -
  have n: "0 < n" using assms by (cases n) (auto simp: lookAhead_def)
  consider "st' = st" "t = tokenLookahead st ! (n - 1)" "n \<le> length (tokenLookahead st)"
    | "pushTokens (Suc n - length (tokenLookahead st)) st = Inr st'"
      "t = tokenLookahead st' ! (n - 1)" "length (tokenLookahead st) < n"
    using assms n by (auto simp: lookAhead_def peekAhead_def bindE_eq_Inr split: if_splits)
  then have "tokenN j st' = tokenN j st \<and> n \<le> length (tokenLookahead st')
      \<and> t = tokenLookahead st' ! (n - 1)" for j
    by cases (auto simp: tokenN_pushTokens dest: pushTokens_length)
  then have q: "tokenN j st' = tokenN j st" "n \<le> length (tokenLookahead st')"
    "t = tokenLookahead st' ! (n - 1)" for j by blast+
  then show "tokenN k st' = tokenN k st" "n \<le> length (tokenLookahead st')" by blast+
  have "n - 1 < length (tokenLookahead st')" using q(2) n by linarith
  from tokenN_queue [OF this] q show "tokenN (n - 1) st = Inr t" by metis
qed

end
