(* ===== verification/Messages.thy ===== *)
theory Messages
  imports Tokens "HOL-Library.Word"
begin

text \<open>
  Coloured output (\<open>color_ostream.hpp\<close>), the string helpers of \<open>util.hpp\<close> and the reports that
  the error classes write (\<open>error.hpp\<close>, \<open>lexer.hpp\<close>, \<open>parser.hpp\<close>, \<open>ast.hpp\<close>).  Sizes are \<open>size_t\<close>
  (64 bit) and \<open>unsigned\<close> (32 bit) words, as in the code, since several of the computations can
  wrap around.  \<open>None\<close> is a thrown \<open>std::out_of_range\<close> or a loop that does not end.
\<close>

section \<open>Coloured streams\<close>

definition co_normal :: int where "co_normal = 0"
definition co_bold :: int where "co_bold = 1"
definition co_regular :: int where "co_regular = 39"
definition co_red :: int where "co_red = 31"
definition co_green :: int where "co_green = 32"
definition co_cyan :: int where "co_cyan = 36"

definition color_end :: string where
  "color_end = CHR 0x1B # ''[00m''"

definition color_init :: "int \<Rightarrow> int \<Rightarrow> string" where
  "color_init color mode = CHR 0x1B # ''['' @ int_to_string mode @ '';'' @ int_to_string color @ ''m''"

definition color_output :: "int \<Rightarrow> int \<Rightarrow> string \<Rightarrow> string" where
  "color_output color mode t = color_init color mode @ t @ color_end"

record color_ostream =
  co_color :: int
  co_mode :: int
  co_enabled :: bool

definition make_colored :: color_ostream where
  "make_colored = \<lparr>co_color = co_regular, co_mode = co_normal, co_enabled = True\<rparr>"

text \<open>What can be put into a coloured stream with \<open>operator<<\<close>.\<close>

datatype co_item = Put string | Color int | Mode int | Enable bool | Endl | Reset

fun co_step :: "co_item \<Rightarrow> color_ostream \<Rightarrow> string \<times> color_ostream" where
  "co_step (Put t) c = (if co_enabled c then color_output (co_color c) (co_mode c) t else t, c)"
| "co_step (Color v) c = ([], c\<lparr>co_color := v\<rparr>)"
| "co_step (Mode v) c = ([], c\<lparr>co_mode := v\<rparr>)"
| "co_step (Enable b) c = ([], c\<lparr>co_enabled := b\<rparr>)"
| "co_step Endl c = ([CHR 0x0A], c)"
| "co_step Reset c = ([], c\<lparr>co_color := co_regular, co_mode := co_normal\<rparr>)"

fun co_run :: "co_item list \<Rightarrow> color_ostream \<Rightarrow> string" where
  "co_run [] c = []"
| "co_run (i # is) c = (let (s, c') = co_step i c in s @ co_run is c')"

lemma co_run_append:
  "co_run (is @ js) c = co_run is c @ co_run js (fold (\<lambda>i c. snd (co_step i c)) is c)"
  by (induction "is" arbitrary: c) (simp_all split: prod.split)

section \<open>String helpers\<close>

text \<open>\<open>listToString\<close> on the texts of the elements; an element is last if it equals the last one.\<close>

definition listToString :: "'a list \<Rightarrow> string \<Rightarrow> ('a \<Rightarrow> string) \<Rightarrow> string" where
  "listToString xs lastSep callback =
     co_run (concat (map (\<lambda>(i, e).
         (if i = 0 then []
          else if e = last xs then [Put lastSep]
          else [Put '', '']) @ [Mode co_bold, Put (callback e), Mode co_regular])
       (zip [0 ..< length xs] xs))) make_colored"

definition UTF8Ellipsis :: string where
  "UTF8Ellipsis = [CHR 0xE2, CHR 0x80, CHR 0xA6]"

definition str_resize :: "nat \<Rightarrow> string \<Rightarrow> string" where
  "str_resize n s = take n s @ replicate (n - length s) (CHR 0x00)"

definition truncateString :: "string \<Rightarrow> 32 word \<Rightarrow> string" where
  "truncateString s maxLen =
     (if length s > unat maxLen then str_resize (unat (maxLen - 1)) s @ UTF8Ellipsis else s)"

definition str_substr :: "string \<Rightarrow> nat \<Rightarrow> nat \<Rightarrow> string option" where
  "str_substr s pos n = (if pos > length s then None else Some (take n (drop pos s)))"

definition truncatedErrorLine :: "string \<Rightarrow> 32 word \<Rightarrow> 32 word \<Rightarrow> string option" where
  "truncatedErrorLine ln lineOffset maxLen0 =
     (let res = (if lineOffset > 0 then UTF8Ellipsis else []);
          maxLen = (if lineOffset > 0 then maxLen0 - 1 else maxLen0)
      in if unat (maxLen + lineOffset) < length ln
         then map_option (\<lambda>s. res @ s @ UTF8Ellipsis) (str_substr ln (unat lineOffset) (unat (maxLen - 1)))
         else map_option (\<lambda>s. res @ s) (str_substr ln (unat lineOffset) (unat maxLen)))"

definition maxErrorIdentLength :: nat where "maxErrorIdentLength = 64"
definition maxErrorLineLength :: nat where "maxErrorLineLength = 200"

section \<open>Reports\<close>

text \<open>\<open>ArgumentError::writeErrorMessage\<close>.\<close>

definition ArgumentError_write :: "string \<Rightarrow> string" where
  "ArgumentError_write msg =
     co_run [Color co_red, Mode co_bold, Put ''error: '', Color co_regular, Put msg, Endl] make_colored"

text \<open>
  \<open>LexError::writeErrorLineHighlight\<close>; \<open>col\<close> is converted from \<open>int\<close> to \<open>size_t\<close>, and the offset to
  \<open>unsigned\<close>.
\<close>

definition LexError_highlight :: "int \<Rightarrow> string \<Rightarrow> string option" where
  "LexError_highlight col errorLine =
     (let pos = (word_of_int col :: 64 word);
          rest = (\<lambda>ln hp. Some (co_run ([Put ln, Endl, Color co_green]
                   @ replicate (unat hp - 1) (Put ''~'') @ [Put ''^'', Endl]) make_colored))
      in if pos > 200
         then (let hp = 192 in
           Option.bind (truncatedErrorLine errorLine (ucast (pos - hp + 1)) 200) (\<lambda>ln. rest ln hp))
         else rest errorLine pos)"

text \<open>
  \<open>LexError::writeErrorMessage\<close> writes and flushes its first line before it calls \<open>writeErrorLineHighlight\<close>.  The
  whole text is \<open>None\<close> if that call throws; the stream has got the first line then.
\<close>

definition LexError_head :: "string \<Rightarrow> int \<Rightarrow> int \<Rightarrow> string \<Rightarrow> string" where
  "LexError_head fname line col msg =
     co_run [Mode co_bold, Put fname, Put '':'', Put (int_to_string line), Put '':'',
       Put (int_to_string col), Put '': '', Color co_red, Put ''error: '', Color co_regular,
       Put msg, Endl] make_colored"

definition LexError_write :: "string \<Rightarrow> int \<Rightarrow> int \<Rightarrow> string \<Rightarrow> string \<Rightarrow> string option" where
  "LexError_write fname line col msg errorLine =
     map_option (\<lambda>h. LexError_head fname line col msg @ h) (LexError_highlight col errorLine)"

text \<open>
  The counting loops of \<open>SourceLocation::writeErrorLineHighlight\<close>: the second one runs while
  \<open>i <= highlightEnd\<close>, which for the largest \<open>size_t\<close> is always true.
\<close>

definition carets :: "64 word \<Rightarrow> 64 word \<Rightarrow> co_item list option" where
  "carets from to =
     (if to = - 1 then None
      else Some (concat (replicate (if from \<le> to then unat (to - from) + 1 else 0)
             [Mode co_bold, Put ''^''])))"

definition loc_highlight :: "source_location \<Rightarrow> string \<Rightarrow> bool \<Rightarrow> string option" where
  "loc_highlight loc errorLine highlightEndToken =
     (let hs0 = (word_of_int (if highlightEndToken then pos_col (endToken loc) - 1
                              else pos_col (startToken loc) - 1) :: 64 word);
          he0 = (word_of_int (pos_col (endToken loc) - 1) :: 64 word);
          n = (word_of_nat (length errorLine) :: 64 word);
          offset = min hs0 (n - 200);
          long = length errorLine > maxErrorLineLength;
          hs = (if long \<and> offset > 0 then hs0 - (offset - 1) else hs0);
          he = (if long then min (he0 - (offset - 1)) (200 - 2) else he0)
      in Option.bind (if long then truncatedErrorLine errorLine (ucast offset) 200 else Some errorLine)
        (\<lambda>ln. Option.bind
          (if pos_line (startToken loc) = pos_line (endToken loc) then carets hs he
           else Some [Mode co_bold, Put ''^''])
          (\<lambda>cs. Some (co_run ([Put ln, Endl, Color co_green] @ replicate (unat hs) (Put ''~'')
                     @ cs @ [Endl]) make_colored))))"

text \<open>\<open>ParseError::writeErrorMessage\<close> and \<open>SemanticError::writeErrorMessage\<close>.\<close>

definition error_head :: "string \<Rightarrow> token_pos \<Rightarrow> string \<Rightarrow> string" where
  "error_head fname p msg =
     co_run [Mode co_bold, Put fname, Put '':'', Put (int_to_string (pos_line p)), Put '':'',
       Put (int_to_string (pos_col p)), Put '': '', Color co_red, Put ''error: '', Reset,
       Put msg, Endl] make_colored"

definition ParseError_write :: "source_location \<Rightarrow> string \<Rightarrow> string \<Rightarrow> string \<Rightarrow> string option" where
  "ParseError_write loc fname msg errorLine =
     map_option (\<lambda>h. error_head fname (startToken loc) msg @ h) (loc_highlight loc errorLine False)"

definition SemanticError_write ::
    "source_location \<Rightarrow> string \<Rightarrow> string \<Rightarrow> string \<Rightarrow> bool \<Rightarrow> string option" where
  "SemanticError_write loc fname msg errorLine reportAtScopeEnd =
     map_option (\<lambda>h. error_head fname (if reportAtScopeEnd then endToken loc else startToken loc) msg @ h)
       (loc_highlight loc errorLine reportAtScopeEnd)"

section \<open>Word arithmetic of the reports\<close>

lemma unat_of_col: "0 \<le> c \<Longrightarrow> c < 2 ^ 31 \<Longrightarrow> unat (word_of_int c :: 64 word) = nat c"
  by (simp add: unat_eq_nat_uint uint_word_of_int take_bit_int_eq_self)

lemma truncatedErrorLine_throws:
  assumes "maxLen \<noteq> 0"
  shows "truncatedErrorLine ln off maxLen = None \<longleftrightarrow> unat off > length ln"
  by (auto simp: truncatedErrorLine_def str_substr_def Let_def)

lemma unat_ucast_col:
  "0 \<le> d \<Longrightarrow> d < 2 ^ 31 \<Longrightarrow> unat (ucast (word_of_int d :: 64 word) :: 32 word) = nat d"
  by (simp add: unat_eq_nat_uint unsigned_ucast_eq uint_word_of_int take_bit_int_eq_self)

lemma lex_offset:
  assumes "200 < c" "c < 2 ^ 31"
  shows "unat (ucast (word_of_int c - 192 + 1 :: 64 word) :: 32 word) = nat c - 191"
proof -
  have "word_of_int c - 192 + 1 = (word_of_int (c - 191) :: 64 word)" by simp
  then show ?thesis
    using unat_ucast_col [of "c - 191"] assms by simp
qed

lemma LexError_highlight_throws:
  assumes "0 \<le> c" "c < 2 ^ 31"
  shows "LexError_highlight c ln = None \<longleftrightarrow> 200 < c \<and> length ln < nat c - 191"
proof -
  have gt: "(word_of_int c > (200 :: 64 word)) = (200 < c)"
    using assms unat_of_col [OF assms] by (simp add: word_less_nat_alt zless_nat_eq_int_zless)
  show ?thesis
  proof (cases "200 < c")
    case True
    have "LexError_highlight c ln = None \<longleftrightarrow>
        truncatedErrorLine ln (ucast (word_of_int c - 192 + 1 :: 64 word)) 200 = None"
      using True gt by (auto simp: LexError_highlight_def Let_def split: Option.bind_splits)
    also have "\<dots> \<longleftrightarrow> length ln < nat c - 191"
      using truncatedErrorLine_throws [of 200 ln] lex_offset [OF True assms(2)] by simp
    finally show ?thesis using True by simp
  qed (use gt in \<open>simp add: LexError_highlight_def\<close>)
qed

lemma min_offset:
  assumes "unat hs < 2 ^ 31" "200 < n" "n < 2 ^ 31"
  shows "unat (ucast (min hs (word_of_nat n - 200) :: 64 word) :: 32 word) = min (unat hs) (n - 200)"
proof -
  have "unat (word_of_nat n - 200 :: 64 word) = n - 200"
    using assms by (simp add: unat_sub word_le_nat_alt unat_of_nat take_bit_nat_eq_self)
  then have "unat (min hs (word_of_nat n - 200)) = min (unat hs) (n - 200)"
    by (simp add: min_def word_le_nat_alt)
  moreover have "min (unat hs) (n - 200) < 2 ^ 32" using assms by (simp add: min_def)
  ultimately show ?thesis by (simp add: unsigned_ucast_eq take_bit_nat_eq_self)
qed

lemma loc_highlight_returns:
  assumes "1 \<le> pos_col (startToken loc)" "pos_col (startToken loc) < 2 ^ 31"
    "1 \<le> pos_col (endToken loc)" "pos_col (endToken loc) < 2 ^ 31" "length ln < 2 ^ 31"
  shows "loc_highlight loc ln b \<noteq> None"
proof -
  define c where "c = (if b then pos_col (endToken loc) - 1 else pos_col (startToken loc) - 1)"
  define he0 where "he0 = (word_of_int (pos_col (endToken loc) - 1) :: 64 word)"
  have c: "0 \<le> c" "c < 2 ^ 31" using assms by (simp_all add: c_def)
  have he: "he0 \<noteq> - 1"
  proof
    assume "he0 = - 1"
    then have "unat he0 = 2 ^ 64 - 1" by (simp add: unsigned_minus_1_eq_mask mask_eq_exp_minus_1)
    moreover have "unat he0 < 2 ^ 31"
      using assms unat_of_col [of "pos_col (endToken loc) - 1"] by (simp add: he0_def nat_less_iff)
    ultimately show False by simp
  qed
  have m: "min x (198 :: 64 word) \<noteq> - 1" for x
  proof
    assume "min x (198 :: 64 word) = - 1"
    moreover have "min x (198 :: 64 word) \<le> 198" by simp
    ultimately have "- 1 \<le> (198 :: 64 word)" by metis
    then show False
      by (simp add: word_le_nat_alt unsigned_minus_1_eq_mask mask_eq_exp_minus_1)
  qed
  have t: "length ln > maxErrorLineLength \<Longrightarrow>
      truncatedErrorLine ln (ucast (min (word_of_int c) (word_of_nat (length ln) - 200 :: 64 word))) 200 \<noteq> None"
    using min_offset [of "word_of_int c" "length ln"] c assms(5) unat_of_col [OF c]
      truncatedErrorLine_throws [of 200 ln]
    by (simp add: maxErrorLineLength_def nat_less_iff, linarith)
  show ?thesis
  proof (cases "length ln > maxErrorLineLength")
    case True
    from t [OF True] obtain l where l: "truncatedErrorLine ln
        (ucast (min (word_of_int c) (word_of_nat (length ln) - 200 :: 64 word))) 200 = Some l" by blast
    show ?thesis
      unfolding loc_highlight_def Let_def c_def [symmetric] he0_def [symmetric]
      by (simp only: True if_True simp_thms l Option.bind.simps carets_def m if_False diff_numeral_simps
          eval_nat_numeral split: if_splits) (simp add: m)
  next
    case False
    then show ?thesis
      unfolding loc_highlight_def Let_def c_def [symmetric] he0_def [symmetric]
      by (simp add: carets_def he)
  qed
qed

section \<open>Properties\<close>

text \<open>
  C22: When reporting a lexical error itself fails.  For every column that fits an
  \<open>int\<close>, \<open>LexError::writeErrorMessage\<close> throws \<open>std::out_of_range\<close> exactly when the column is beyond
  200 and more than 191 columns behind the end of the error line it was given, and writes its
  report otherwise.  Since \<open>getCurrentLineFromInput\<close> gives at most 1023 source characters of the
  line, a lexical error far to the right in a long line ends in an
  exception instead of a report.
\<close>

theorem lex_report_throws_iff:
  assumes "0 \<le> col" "col < 2 ^ 31"
  shows "LexError_write fname line col msg errorLine = None
    \<longleftrightarrow> 200 < col \<and> length errorLine < nat col - 191"
  using LexError_highlight_throws [OF assms] by (simp add: LexError_write_def)

theorem lex_report_throws_iff_witness:
  "LexError_write ''f'' 1 1300 ''m'' (replicate 1023 CHR '' '' @ ''...'') = None"
  using lex_report_throws_iff [of 1300 "''f''" 1 "''m''" "replicate 1023 CHR '' '' @ ''...''"] by simp

text \<open>
  C23: Parse and semantic errors are always reported.  For a location with proper columns
  (from 1, within \<open>int\<close>) and an error line of less than $2^{31}$ bytes, writing the report
  neither throws nor loops forever, however the columns lie relative to the line.
\<close>

theorem location_report_returns:
  assumes "1 \<le> pos_col (startToken loc)" "pos_col (startToken loc) < 2 ^ 31"
    "1 \<le> pos_col (endToken loc)" "pos_col (endToken loc) < 2 ^ 31" "length errorLine < 2 ^ 31"
  shows "ParseError_write loc fname msg errorLine \<noteq> None
    \<and> SemanticError_write loc fname msg errorLine atEnd \<noteq> None"
  using loc_highlight_returns [OF assms]
  by (simp add: ParseError_write_def SemanticError_write_def)

theorem location_report_returns_witness:
  "ParseError_write (mk_loc (mk_pos 1 5000) (mk_pos 1 5002)) ''f'' ''m'' (replicate 300 CHR ''a'') \<noteq> None"
  using location_report_returns [of "mk_loc (mk_pos 1 5000) (mk_pos 1 5002)" "replicate 300 CHR ''a''"]
  by (simp add: mk_loc_def mk_pos_def)

end
