(* ===== verification/Parser.thy ===== *)
theory Parser
  imports Lexer_Queue Ast Symbol_Table Messages
begin

text \<open>
  The recursive descent parser (\<open>parser.hpp\<close>, \<open>parser.cpp\<close>).  Its state is the lexer, the current
  token and the string table.  A parsing function that calls itself through others takes the parser
  it recurs to as an argument; the knots are tied in \<open>precedenceParse\<close> and \<open>parseStmt\<close>, by
  recursion on fuel.  Loops take fuel as well.  Running out of fuel is the error \<open>OutOfFuel\<close>; fuel
  above the number of tokens left is always enough (proved in the theory \<open>Parser_Total\<close>).
\<close>

section \<open>State and errors\<close>

datatype parse_error =
    LexErr lex_error
  | ParseError source_location string string string
  | RuntimeError string
  | OutOfFuel

record pstate =
  lexr :: lexer
  curTok :: token
  strTbl :: string_table

type_synonym 'a presult = "parse_error + 'a \<times> pstate"

definition liftLex :: "lex_error + 'a \<Rightarrow> parse_error + 'a" where
  "liftLex r = (case r of Inl e \<Rightarrow> Inl (LexErr e) | Inr x \<Rightarrow> Inr x)"

abbreviation curType :: "pstate \<Rightarrow> ttype" where
  "curType ps \<equiv> tok_type (curTok ps)"

definition p_readNextToken :: "pstate \<Rightarrow> parse_error + pstate" where
  "p_readNextToken ps =
     bindE (liftLex (nextToken (lexr ps))) (\<lambda>(t, l). Inr (ps\<lparr>lexr := l, curTok := t\<rparr>))"

definition p_lookAhead :: "nat \<Rightarrow> pstate \<Rightarrow> token presult" where
  "p_lookAhead n ps = bindE (liftLex (lookAhead n (lexr ps))) (\<lambda>(t, l). Inr (t, ps\<lparr>lexr := l\<rparr>))"

definition p_error :: "string \<Rightarrow> pstate \<Rightarrow> parse_error + 'a" where
  "p_error msg ps =
     bindE (liftLex (getCurrentLineFromInput (pos_line (tok_pos (curTok ps))) (lexr ps)))
       (\<lambda>ln. Inl (ParseError (singleTokenSrcLoc (curTok ps)) (filename (lexr ps)) msg ln))"

definition quote :: "string \<Rightarrow> string" where
  "quote s = CHR 0x27 # s @ [CHR 0x27]"

definition unexpected :: "pstate \<Rightarrow> string \<Rightarrow> co_item list" where
  "unexpected ps what =
     [Put ''Unexpected '', Mode co_bold, Put [CHR 0x27], Put (truncateString (tok_str (curTok ps)) 64),
      Put [CHR 0x27], Reset, Put what]"

definition errorExpectedAnyOf :: "ttype list \<Rightarrow> pstate \<Rightarrow> parse_error + 'a" where
  "errorExpectedAnyOf toks ps =
     p_error (co_run (unexpected ps '', expected one of ''
         @ [Put (listToString toks '' or '' (\<lambda>t. quote (getTokenName t)))]) make_colored) ps"

definition expect :: "ttype \<Rightarrow> pstate \<Rightarrow> parse_error + unit" where
  "expect tt ps =
     (if curType ps \<noteq> tt
      then p_error (co_run (unexpected ps '', expected ''
             @ (if tokenNameNeedsQuotes tt
                then [Mode co_bold, Put [CHR 0x27], Put (getTokenName tt), Put [CHR 0x27]]
                else [Mode co_bold, Put (getTokenName tt)])) make_colored) ps
      else Inr ())"

definition expectAndNext :: "ttype \<Rightarrow> pstate \<Rightarrow> parse_error + pstate" where
  "expectAndNext tt ps = bindE (expect tt ps) (\<lambda>_. p_readNextToken ps)"

definition expectGetIdentAndNext :: "ttype \<Rightarrow> pstate \<Rightarrow> string presult" where
  "expectGetIdentAndNext tt ps =
     bindE (expect tt ps) (\<lambda>_.
     bindE (p_readNextToken ps) (\<lambda>ps1. Inr (tok_str (curTok ps), ps1)))"

definition intern :: "string \<Rightarrow> pstate \<Rightarrow> string \<times> pstate" where
  "intern n ps = (let (sym, tbl) = findOrInsert n (strTbl ps) in (sym, ps\<lparr>strTbl := tbl\<rparr>))"

text \<open>The constructor reads the first token.\<close>

definition newParser :: "lexer \<Rightarrow> string_table \<Rightarrow> parse_error + pstate" where
  "newParser l tbl = p_readNextToken \<lparr>lexr = l, curTok = mk_token TT_none no_pos [], strTbl = tbl\<rparr>"

section \<open>Types\<close>

definition parseBasicType :: "pstate \<Rightarrow> basic_type presult" where
  "parseBasicType ps =
     (let loc = singleTokenSrcLoc (curTok ps); ty = curType ps in
      if ty = TT_Boolean \<or> ty = TT_Int \<or> ty = TT_Void then
        bindE (p_readNextToken ps) (\<lambda>ps1. Inr (PrimitiveType loc (getTypeForToken ty), ps1))
      else if ty = TT_Identifier then
        bindE (p_readNextToken ps) (\<lambda>ps1. Inr (ClassType loc (tok_str (curTok ps)) None, ps1))
      else errorExpectedAnyOf [TT_Boolean, TT_Identifier, TT_Int, TT_Void] ps)"

fun typeLoop :: "nat \<Rightarrow> token_pos \<Rightarrow> token_pos \<Rightarrow> basic_type \<Rightarrow> int \<Rightarrow> pstate \<Rightarrow> ast_type presult" where
  "typeLoop 0 startP endP b dims ps = Inl OutOfFuel"
| "typeLoop (Suc n) startP endP b dims ps =
     (if curType ps = TT_LBracket then
        bindE (p_readNextToken ps) (\<lambda>ps1.
        let endP1 = endPos (curTok ps1) in
        bindE (expectAndNext TT_RBracket ps1) (\<lambda>ps2. typeLoop n startP endP1 b (dims + 1) ps2))
      else if dims = 0 then Inr (BasicType b, ps)
      else Inr (ArrayType (mk_loc startP endP) b dims, ps))"

definition parseType :: "nat \<Rightarrow> pstate \<Rightarrow> ast_type presult" where
  "parseType n ps =
     (let startP = startPos (curTok ps); endP = endPos (curTok ps) in
      bindE (parseBasicType ps) (\<lambda>(b, ps1). typeLoop n startP endP b 0 ps1))"

section \<open>Expressions\<close>

definition getOpPrec :: "ttype \<Rightarrow> int" where
  "getOpPrec tt =
     (if tt = TT_Eq then 1
      else if tt = TT_VBarVBar then 2
      else if tt = TT_AmpAmp then 3
      else if tt = TT_EqEq \<or> tt = TT_BangEq then 4
      else if tt = TT_Lt \<or> tt = TT_LtEq \<or> tt = TT_Gt \<or> tt = TT_GtEq then 5
      else if tt = TT_Plus \<or> tt = TT_Minus then 6
      else if tt = TT_Star \<or> tt = TT_Slash \<or> tt = TT_Percent then 7
      else - 1)"

text \<open>The tokens an expression can start with.\<close>

definition exprStart :: "ttype list" where
  "exprStart = [TT_Bang, TT_False, TT_Identifier, TT_IntLiteral, TT_New, TT_Null, TT_True,
     TT_LParen, TT_Minus, TT_This]"

text \<open>\<open>std::stoi\<close>: \<open>strtol\<close> in base 10, and the check of the range of \<open>int\<close>.\<close>

datatype stoi_error = InvalidArgument | StoiOutOfRange

definition stoi :: "string \<Rightarrow> stoi_error + int" where
  "stoi s0 =
     (let s = dropWhile (\<lambda>c. c \<in> set [CHR 0x20, CHR 0x09, CHR 0x0A, CHR 0x0B, CHR 0x0C, CHR 0x0D]) s0;
          neg = (case s of c # _ \<Rightarrow> c = CHR ''-'' | [] \<Rightarrow> False);
          ds = (case s of c # cs \<Rightarrow> if c = CHR ''-'' \<or> c = CHR ''+'' then cs else s | [] \<Rightarrow> s);
          pre = takeWhile is_digit ds;
          v = (if neg then - int (digits_val 0 pre) else int (digits_val 0 pre))
      in if pre = [] then Inl InvalidArgument
         else if - (2 ^ 31) \<le> v \<and> v \<le> 2 ^ 31 - 1 then Inr v
         else Inl StoiOutOfRange)"

fun argLoop :: "nat \<Rightarrow> (pstate \<Rightarrow> expr presult) \<Rightarrow> expr list \<Rightarrow> pstate \<Rightarrow> expr list presult" where
  "argLoop 0 pexpr acc ps = Inl OutOfFuel"
| "argLoop (Suc n) pexpr acc ps =
     (if curType ps = TT_Comma then
        bindE (p_readNextToken ps) (\<lambda>ps1.
        bindE (pexpr ps1) (\<lambda>(e, ps2). argLoop n pexpr (acc @ [e]) ps2))
      else Inr (acc, ps))"

definition parseArguments :: "nat \<Rightarrow> (pstate \<Rightarrow> expr presult) \<Rightarrow> pstate \<Rightarrow> expr list presult" where
  "parseArguments n pexpr ps =
     (if curType ps \<in> set exprStart then
        bindE (pexpr ps) (\<lambda>(e, ps1). argLoop n pexpr [e] ps1)
      else if curType ps = TT_RParen then Inr ([], ps)
      else errorExpectedAnyOf (exprStart @ [TT_RParen]) ps)"

fun newDimLoop :: "nat \<Rightarrow> token_pos \<Rightarrow> int \<Rightarrow> pstate \<Rightarrow> (token_pos \<times> int) presult" where
  "newDimLoop 0 endP dim ps = Inl OutOfFuel"
| "newDimLoop (Suc n) endP dim ps =
     (if curType ps = TT_LBracket then
        bindE (p_lookAhead 1 ps) (\<lambda>(t, ps1).
        if tok_type t = TT_RBracket then
          bindE (p_readNextToken ps1) (\<lambda>ps2.
          let endP1 = endPos (curTok ps2) in
          bindE (p_readNextToken ps2) (\<lambda>ps3. newDimLoop n endP1 (dim + 1) ps3))
        else Inr ((endP, dim), ps1))
      else Inr ((endP, dim), ps))"

definition parseNewExpr :: "nat \<Rightarrow> (pstate \<Rightarrow> expr presult) \<Rightarrow> pstate \<Rightarrow> expr presult" where
  "parseNewExpr n pexpr ps =
     (let startP = startPos (curTok ps) in
      bindE (expectAndNext TT_New ps) (\<lambda>ps1.
      bindE (p_lookAhead 1 ps1) (\<lambda>(t, ps2).
      if tok_type t = TT_LParen then
        bindE (expectGetIdentAndNext TT_Identifier ps2) (\<lambda>(ident, ps3).
        bindE (p_readNextToken ps3) (\<lambda>ps4.
        let endP = startPos (curTok ps4) in
        bindE (expectAndNext TT_RParen ps4) (\<lambda>ps5.
          Inr (NewObjectExpression (mk_loc startP endP) new_type ident None, ps5))))
      else if tok_type t = TT_LBracket then
        bindE (parseBasicType ps2) (\<lambda>(elementType, ps3).
        bindE (p_readNextToken ps3) (\<lambda>ps4.
        bindE (pexpr ps4) (\<lambda>(size', ps5).
        let endP = endPos (curTok ps5) in
        bindE (expectAndNext TT_RBracket ps5) (\<lambda>ps6.
        bindE (newDimLoop n endP 1 ps6) (\<lambda>((endP', dim), ps7).
          let loc = mk_loc startP endP' in
          Inr (NewArrayExpression loc new_type (ArrayType loc elementType dim) size', ps7))))))
      else errorExpectedAnyOf [TT_LParen, TT_LBracket] ps2)))"

definition parsePrimary :: "nat \<Rightarrow> (pstate \<Rightarrow> expr presult) \<Rightarrow> pstate \<Rightarrow> expr presult" where
  "parsePrimary n pexpr ps =
     (let ty = curType ps; loc = singleTokenSrcLoc (curTok ps) in
      if ty = TT_LParen then
        bindE (p_readNextToken ps) (\<lambda>ps1.
        bindE (pexpr ps1) (\<lambda>(e, ps2).
        bindE (expectAndNext TT_RParen ps2) (\<lambda>ps3. Inr (e, ps3))))
      else if ty = TT_False then
        bindE (p_readNextToken ps) (\<lambda>ps1. Inr (BoolLiteral loc new_type False, ps1))
      else if ty = TT_True then
        bindE (p_readNextToken ps) (\<lambda>ps1. Inr (BoolLiteral loc new_type True, ps1))
      else if ty = TT_Null then
        bindE (p_readNextToken ps) (\<lambda>ps1. Inr (NullLiteral loc new_type, ps1))
      else if ty = TT_This then
        bindE (p_readNextToken ps) (\<lambda>ps1. Inr (ThisLiteral loc new_type, ps1))
      else if ty = TT_IntLiteral then
        (case stoi (tok_str (curTok ps)) of
           Inl StoiOutOfRange \<Rightarrow>
             p_error (''Integer literal '' @ quote (tok_str (curTok ps)) @ '' out of range'') ps
         | Inl InvalidArgument \<Rightarrow> Inl (RuntimeError ''Invalid integer literal'')
         | Inr v \<Rightarrow> bindE (p_readNextToken ps) (\<lambda>ps1. Inr (IntLiteral loc new_type v, ps1)))
      else if ty = TT_Identifier then
        (let startP = startPos (curTok ps); fieldEndP = endPos (curTok ps);
             ident = tok_str (curTok ps) in
         bindE (p_readNextToken ps) (\<lambda>ps1.
         if curType ps1 = TT_LParen then
           bindE (p_readNextToken ps1) (\<lambda>ps2.
           bindE (parseArguments n pexpr ps2) (\<lambda>(args, ps3).
           let endP = endPos (curTok ps3); l = mk_loc startP endP in
           bindE (expectAndNext TT_RParen ps3) (\<lambda>ps4.
             Inr (MethodInvocation l new_type (ThisLiteral l new_type) ident args None False, ps4))))
         else
           let (sym, ps2) = intern ident ps1 in
           Inr (VarRef (mk_loc startP fieldEndP) new_type sym None, ps2)))
      else if ty = TT_New then parseNewExpr n pexpr ps
      else errorExpectedAnyOf [TT_LParen, TT_False, TT_True, TT_Null, TT_This, TT_IntLiteral,
             TT_Identifier, TT_New] ps)"

definition parseMemberAccess :: "nat \<Rightarrow> (pstate \<Rightarrow> expr presult) \<Rightarrow> expr \<Rightarrow> pstate \<Rightarrow> expr presult" where
  "parseMemberAccess n pexpr lhs ps =
     (let startP = startPos (curTok ps) in
      bindE (expectAndNext TT_Dot ps) (\<lambda>ps1.
      let endP = endPos (curTok ps1) in
      bindE (expectGetIdentAndNext TT_Identifier ps1) (\<lambda>(ident, ps2).
      if curType ps2 = TT_LParen then
        bindE (p_readNextToken ps2) (\<lambda>ps3.
        bindE (parseArguments n pexpr ps3) (\<lambda>(args, ps4).
        let endP' = endPos (curTok ps4) in
        bindE (expectAndNext TT_RParen ps4) (\<lambda>ps5.
          Inr (MethodInvocation (mk_loc startP endP') new_type lhs ident args None False, ps5))))
      else Inr (FieldAccess (mk_loc startP endP) new_type lhs ident None, ps2))))"

definition parseArrayAccess :: "(pstate \<Rightarrow> expr presult) \<Rightarrow> expr \<Rightarrow> pstate \<Rightarrow> expr presult" where
  "parseArrayAccess pexpr lhs ps =
     (let startP = startPos (curTok ps) in
      bindE (expectAndNext TT_LBracket ps) (\<lambda>ps1.
      bindE (pexpr ps1) (\<lambda>(index, ps2).
      bindE (expectAndNext TT_RBracket ps2) (\<lambda>ps3.
      let endP = endPos (curTok ps3) in
      Inr (ArrayAccess (mk_loc startP endP) new_type lhs index, ps3)))))"

fun postfixLoop :: "nat \<Rightarrow> (pstate \<Rightarrow> expr presult) \<Rightarrow> expr \<Rightarrow> pstate \<Rightarrow> expr presult" where
  "postfixLoop 0 pexpr lhs ps = Inl OutOfFuel"
| "postfixLoop (Suc n) pexpr lhs ps =
     (if curType ps = TT_Dot then
        bindE (parseMemberAccess (Suc n) pexpr lhs ps) (\<lambda>(e, ps1). postfixLoop n pexpr e ps1)
      else if curType ps = TT_LBracket then
        bindE (parseArrayAccess pexpr lhs ps) (\<lambda>(e, ps1). postfixLoop n pexpr e ps1)
      else Inr (lhs, ps))"

definition parsePostfixExpr :: "nat \<Rightarrow> (pstate \<Rightarrow> expr presult) \<Rightarrow> pstate \<Rightarrow> expr presult" where
  "parsePostfixExpr n pexpr ps =
     bindE (parsePrimary n pexpr ps) (\<lambda>(lhs, ps1). postfixLoop n pexpr lhs ps1)"

text \<open>The loop that wraps the operand in the unary operators, from the last to the first.\<close>

definition wrapUnaries :: "token list \<Rightarrow> expr \<Rightarrow> expr" where
  "wrapUnaries unaries e =
     (let endP = endToken (eloc e) in
      foldr (\<lambda>t e'. UnaryExpression (mk_loc (startPos t) endP) new_type e' (unary_getOpForToken (tok_type t)))
        unaries e)"

fun parseUnary :: "nat \<Rightarrow> (pstate \<Rightarrow> expr presult) \<Rightarrow> token list \<Rightarrow> pstate \<Rightarrow> expr presult" where
  "parseUnary 0 pexpr unaries ps = Inl OutOfFuel"
| "parseUnary (Suc n) pexpr unaries ps =
     (if curType ps = TT_Bang \<or> curType ps = TT_Minus then
        bindE (p_readNextToken ps) (\<lambda>ps1. parseUnary n pexpr (unaries @ [curTok ps]) ps1)
      else
        let merge = curType ps = TT_IntLiteral \<and> unaries \<noteq> [] \<and> tok_type (last unaries) = TT_Minus;
            ps1 = (if merge then ps\<lparr>curTok := (curTok ps)\<lparr>tok_str := ''-'' @ tok_str (curTok ps)\<rparr>\<rparr> else ps);
            us = (if merge then butlast unaries else unaries)
        in bindE (parsePostfixExpr (Suc n) pexpr ps1) (\<lambda>(e, ps2). Inr (wrapUnaries us e, ps2)))"

fun precLoop :: "nat \<Rightarrow> (int \<Rightarrow> pstate \<Rightarrow> expr presult) \<Rightarrow> int \<Rightarrow> token_pos \<Rightarrow> expr \<Rightarrow> pstate
    \<Rightarrow> expr presult" where
  "precLoop 0 pprec minPrec startP result ps = Inl OutOfFuel"
| "precLoop (Suc n) pprec minPrec startP result ps =
     (let opPrec = getOpPrec (curType ps) in
      if opPrec \<ge> minPrec then
        (let opTy = curType ps in
         bindE (p_readNextToken ps) (\<lambda>ps1.
         bindE (pprec (if opTy \<noteq> TT_Eq then opPrec + 1 else opPrec) ps1) (\<lambda>(rhs, ps2).
         let endP = endToken (eloc rhs) in
         precLoop n pprec minPrec startP
           (BinaryExpression (mk_loc startP endP) new_type result rhs (binary_getOpForToken opTy)) ps2)))
      else Inr (result, ps))"

primrec precedenceParse :: "nat \<Rightarrow> int \<Rightarrow> pstate \<Rightarrow> expr presult" where
  "precedenceParse 0 = (\<lambda>minPrec ps. Inl OutOfFuel)"
| "precedenceParse (Suc n) = (\<lambda>minPrec ps.
     let startP = startPos (curTok ps) in
     bindE (parseUnary (Suc n) (precedenceParse n 0) [] ps) (\<lambda>(result, ps1).
       precLoop (Suc n) (precedenceParse n) minPrec startP result ps1))"

definition parseExpr :: "nat \<Rightarrow> pstate \<Rightarrow> expr presult" where
  "parseExpr n ps = precedenceParse n 0 ps"

section \<open>Statements\<close>

definition parseLocalVarDeclStmt :: "nat \<Rightarrow> pstate \<Rightarrow> stmt presult" where
  "parseLocalVarDeclStmt n ps =
     (let startP = startPos (curTok ps) in
      bindE (parseType n ps) (\<lambda>(ty, ps1).
      bindE (expectGetIdentAndNext TT_Identifier ps1) (\<lambda>(ident, ps2).
      if curType ps2 = TT_Eq then
        bindE (p_readNextToken ps2) (\<lambda>ps3.
        bindE (parseExpr n ps3) (\<lambda>(initializer, ps4).
        let endP = endToken (eloc initializer) in
        bindE (expectAndNext TT_Semicolon ps4) (\<lambda>ps5.
        let (sym, ps6) = intern ident ps5 in
        Inr (VariableDeclaration (mk_loc startP endP) MayContinue ty sym (Some initializer) None, ps6))))
      else if curType ps2 = TT_Semicolon then
        (let endP = endPos (curTok ps2) in
         bindE (p_readNextToken ps2) (\<lambda>ps3.
         let (sym, ps4) = intern ident ps3 in
         Inr (VariableDeclaration (mk_loc startP endP) MayContinue ty sym None None, ps4)))
      else errorExpectedAnyOf [TT_Eq, TT_Semicolon] ps2)))"

definition parseExprStmt :: "nat \<Rightarrow> pstate \<Rightarrow> stmt presult" where
  "parseExprStmt n ps =
     (let startP = startPos (curTok ps) in
      bindE (parseExpr n ps) (\<lambda>(e, ps1).
      let endP = endPos (curTok ps1) in
      bindE (expectAndNext TT_Semicolon ps1) (\<lambda>ps2.
        Inr (ExpressionStatement (mk_loc startP endP) MayContinue e, ps2))))"

definition parseIfStmt :: "nat \<Rightarrow> (pstate \<Rightarrow> stmt option presult) \<Rightarrow> pstate \<Rightarrow> stmt presult" where
  "parseIfStmt n pstmt ps =
     (let startP = startPos (curTok ps) in
      bindE (expectAndNext TT_If ps) (\<lambda>ps1.
      bindE (expectAndNext TT_LParen ps1) (\<lambda>ps2.
      bindE (parseExpr n ps2) (\<lambda>(condition, ps3).
      let endP = endPos (curTok ps3) in
      bindE (expectAndNext TT_RParen ps3) (\<lambda>ps4.
      bindE (pstmt ps4) (\<lambda>(thenStmt, ps5).
      bindE (if curType ps5 = TT_Else then bindE (p_readNextToken ps5) pstmt else Inr (None, ps5))
        (\<lambda>(elseStmt, ps6).
          Inr (IfStatement (mk_loc startP endP) MayContinue condition thenStmt elseStmt, ps6))))))))"

definition parseReturnStmt :: "nat \<Rightarrow> pstate \<Rightarrow> stmt presult" where
  "parseReturnStmt n ps =
     (let startP = startPos (curTok ps) in
      bindE (expectAndNext TT_Return ps) (\<lambda>ps1.
      if curType ps1 = TT_Semicolon then
        (let endP = startPos (curTok ps1) in
         bindE (p_readNextToken ps1) (\<lambda>ps2.
           Inr (ReturnStatement (mk_loc startP endP) MayContinue None, ps2)))
      else
        bindE (parseExpr n ps1) (\<lambda>(e, ps2).
        let endP = startPos (curTok ps2) in
        bindE (expectAndNext TT_Semicolon ps2) (\<lambda>ps3.
          Inr (ReturnStatement (mk_loc startP endP) MayContinue (Some e), ps3)))))"

definition parseWhileStmt :: "nat \<Rightarrow> (pstate \<Rightarrow> stmt option presult) \<Rightarrow> pstate \<Rightarrow> stmt presult" where
  "parseWhileStmt n pstmt ps =
     (let startP = startPos (curTok ps) in
      bindE (expectAndNext TT_While ps) (\<lambda>ps1.
      bindE (expectAndNext TT_LParen ps1) (\<lambda>ps2.
      bindE (parseExpr n ps2) (\<lambda>(condition, ps3).
      bindE (expectAndNext TT_RParen ps3) (\<lambda>ps4.
      bindE (pstmt ps4) (\<lambda>(body, ps5).
      let endP = endPos (curTok ps5) in
      Inr (WhileStatement (mk_loc startP endP) MayContinue condition body, ps5)))))))"

text \<open>The tokens a statement can start with, apart from a declaration's.\<close>

definition stmtStart :: "ttype list" where
  "stmtStart = [TT_Bang, TT_False, TT_If, TT_IntLiteral, TT_New, TT_Null, TT_True, TT_LBrace,
     TT_LParen, TT_Minus, TT_Return, TT_Semicolon, TT_This, TT_While]"

definition parseBlockStatement :: "nat \<Rightarrow> (pstate \<Rightarrow> stmt option presult) \<Rightarrow> pstate
    \<Rightarrow> stmt option presult" where
  "parseBlockStatement n pstmt ps =
     (let ty = curType ps;
          decl = (\<lambda>ps. bindE (parseLocalVarDeclStmt n ps) (\<lambda>(s, ps1). Inr (Some s, ps1)))
      in
      if ty = TT_Boolean \<or> ty = TT_Int \<or> ty = TT_Void then decl ps
      else if ty \<in> set stmtStart then pstmt ps
      else if ty = TT_Identifier then
        bindE (p_lookAhead 1 ps) (\<lambda>(nextTok, ps1).
        bindE (p_lookAhead 2 ps1) (\<lambda>(afterNextTok, ps2).
        if tok_type nextTok = TT_Identifier \<or>
           (tok_type nextTok = TT_LBracket \<and> tok_type afterNextTok = TT_RBracket)
        then decl ps2 else pstmt ps2))
      else Inr (None, ps))"

text \<open>The tokens that \<open>parseBlock\<close> hands to \<open>parseBlockStatement\<close>, in the order of the code.\<close>

definition blockStart :: "ttype list" where
  "blockStart = [TT_Bang, TT_Boolean, TT_False, TT_Identifier, TT_If, TT_Int, TT_IntLiteral, TT_New,
     TT_Null, TT_True, TT_LBrace, TT_LParen, TT_Minus, TT_Return, TT_Semicolon, TT_This, TT_Void,
     TT_While]"

fun lonelyEmpty :: "stmt \<Rightarrow> bool" where
  "lonelyEmpty (Block _ _ _ flag) = flag"
| "lonelyEmpty _ = False"

fun blockLoop :: "nat \<Rightarrow> (pstate \<Rightarrow> stmt option presult) \<Rightarrow> token_pos \<Rightarrow> stmt list \<Rightarrow> pstate
    \<Rightarrow> stmt presult" where
  "blockLoop 0 pstmt startP acc ps = Inl OutOfFuel"
| "blockLoop (Suc n) pstmt startP acc ps =
     (if curType ps = TT_RBrace then
        (let endP = endPos (curTok ps) in
         bindE (p_readNextToken ps) (\<lambda>ps1.
           Inr (Block (mk_loc startP endP) MayContinue acc (\<forall>s \<in> set acc. lonelyEmpty s), ps1)))
      else if curType ps \<in> set blockStart then
        bindE (parseBlockStatement (Suc n) pstmt ps) (\<lambda>(s, ps1).
          blockLoop n pstmt startP (case s of Some s' \<Rightarrow> acc @ [s'] | None \<Rightarrow> acc) ps1)
      else errorExpectedAnyOf (TT_RBrace # blockStart) ps)"

definition parseBlock :: "nat \<Rightarrow> (pstate \<Rightarrow> stmt option presult) \<Rightarrow> pstate \<Rightarrow> stmt presult" where
  "parseBlock n pstmt ps =
     (let startP = startPos (curTok ps) in
      bindE (expectAndNext TT_LBrace ps) (\<lambda>ps1. blockLoop n pstmt startP [] ps1))"

definition some_stmt :: "stmt presult \<Rightarrow> stmt option presult" where
  "some_stmt r = bindE r (\<lambda>(s, ps). Inr (Some s, ps))"

primrec parseStmt :: "nat \<Rightarrow> pstate \<Rightarrow> stmt option presult" where
  "parseStmt 0 = (\<lambda>ps. Inl OutOfFuel)"
| "parseStmt (Suc n) = (\<lambda>ps.
     let ty = curType ps in
     if ty = TT_LBrace then some_stmt (parseBlock (Suc n) (parseStmt n) ps)
     else if ty = TT_Semicolon then bindE (p_readNextToken ps) (\<lambda>ps1. Inr (None, ps1))
     else if ty = TT_If then some_stmt (parseIfStmt (Suc n) (parseStmt n) ps)
     else if ty = TT_Return then some_stmt (parseReturnStmt (Suc n) ps)
     else if ty = TT_While then some_stmt (parseWhileStmt (Suc n) (parseStmt n) ps)
     else if ty \<in> set exprStart then some_stmt (parseExprStmt (Suc n) ps)
     else errorExpectedAnyOf [TT_LBrace, TT_Semicolon, TT_If, TT_Return, TT_While, TT_Bang,
            TT_False, TT_IntLiteral, TT_New, TT_Null, TT_True, TT_LParen, TT_Minus, TT_This,
            TT_Identifier] ps)"

section \<open>Classes\<close>

definition parseParameter :: "nat \<Rightarrow> int \<Rightarrow> pstate \<Rightarrow> parameter presult" where
  "parseParameter n idx ps =
     (let startP = startPos (curTok ps) in
      bindE (parseType n ps) (\<lambda>(ty, ps1).
      let endP = endPos (curTok ps1) in
      bindE (expectGetIdentAndNext TT_Identifier ps1) (\<lambda>(ident, ps2).
      let (sym, ps3) = intern ident ps2 in
      Inr (\<lparr>p_loc = mk_loc startP endP, p_type = ty, p_name = sym, p_idx = idx\<rparr>, ps3))))"

fun paramLoop :: "nat \<Rightarrow> int \<Rightarrow> parameter list \<Rightarrow> pstate \<Rightarrow> parameter list presult" where
  "paramLoop 0 idx acc ps = Inl OutOfFuel"
| "paramLoop (Suc n) idx acc ps =
     (if curType ps = TT_Comma then
        bindE (p_readNextToken ps) (\<lambda>ps1.
        bindE (parseParameter (Suc n) (idx + 1) ps1) (\<lambda>(p, ps2). paramLoop n (idx + 1) (acc @ [p]) ps2))
      else Inr (acc, ps))"

definition parseParameterList :: "nat \<Rightarrow> pstate \<Rightarrow> parameter list presult" where
  "parseParameterList n ps =
     (if curType ps \<in> set [TT_Boolean, TT_Identifier, TT_Int, TT_Void] then
        bindE (parseParameter n 1 ps) (\<lambda>(p, ps1). paramLoop n 1 [p] ps1)
      else Inr ([], ps))"

text \<open>The optional \<open>throws\<close> clause.\<close>

definition skipThrows :: "pstate \<Rightarrow> parse_error + pstate" where
  "skipThrows ps =
     (if tok_str (curTok ps) = ''throws'' then
        bindE (p_readNextToken ps) (\<lambda>ps1. expectAndNext TT_Identifier ps1)
      else Inr ps)"

definition parseMainMethod :: "nat \<Rightarrow> pstate \<Rightarrow> main_method presult" where
  "parseMainMethod n ps =
     (let startP = startPos (curTok ps) in
      bindE (expectAndNext TT_Public ps) (\<lambda>ps1.
      bindE (expectAndNext TT_Static ps1) (\<lambda>ps2.
      bindE (expectAndNext TT_Void ps2) (\<lambda>ps3.
      bindE (expectGetIdentAndNext TT_Identifier ps3) (\<lambda>(methodName, ps4).
      bindE (expectAndNext TT_LParen ps4) (\<lambda>ps5.
      bindE (expect TT_Identifier ps5) (\<lambda>_.
      bindE (if tok_str (curTok ps5) \<noteq> ''String''
             then p_error (''Unexpected '' @ quote (tok_str (curTok ps5)) @ '', expected '' @ quote ''String'') ps5
             else Inr ()) (\<lambda>_.
      bindE (p_readNextToken ps5) (\<lambda>ps6.
      bindE (expectAndNext TT_LBracket ps6) (\<lambda>ps7.
      bindE (expectAndNext TT_RBracket ps7) (\<lambda>ps8.
      bindE (expectGetIdentAndNext TT_Identifier ps8) (\<lambda>(paramName, ps9).
      bindE (expectAndNext TT_RParen ps9) (\<lambda>ps10.
      bindE (skipThrows ps10) (\<lambda>ps11.
      bindE (parseBlock n (parseStmt n) ps11) (\<lambda>(block, ps12).
      let (sym, ps13) = intern paramName ps12 in
      Inr (\<lparr>mm_loc = mk_loc startP (endPos (curTok ps12)), mm_name = methodName, mm_argName = sym,
            mm_block = block, mm_varDecls = []\<rparr>, ps13))))))))))))))))"

definition parseFieldOrMethod :: "nat \<Rightarrow> field list \<Rightarrow> regular_method list \<Rightarrow> pstate
    \<Rightarrow> (field list \<times> regular_method list) presult" where
  "parseFieldOrMethod n fs ms ps =
     (let startP = startPos (curTok ps) in
      bindE (expectAndNext TT_Public ps) (\<lambda>ps1.
      bindE (parseType n ps1) (\<lambda>(ty, ps2).
      bindE (expectGetIdentAndNext TT_Identifier ps2) (\<lambda>(name', ps3).
      if curType ps3 = TT_Semicolon then
        (let endP = endPos (curTok ps3); (sym, ps4) = intern name' ps3 in
         bindE (p_readNextToken ps4) (\<lambda>ps5.
           Inr ((fs @ [\<lparr>f_loc = mk_loc startP endP, f_type = ty, f_name = sym\<rparr>], ms), ps5)))
      else if curType ps3 = TT_LParen then
        bindE (p_readNextToken ps3) (\<lambda>ps4.
        bindE (parseParameterList n ps4) (\<lambda>(params, ps5).
        bindE (expectAndNext TT_RParen ps5) (\<lambda>ps6.
        bindE (skipThrows ps6) (\<lambda>ps7.
        bindE (parseBlock n (parseStmt n) ps7) (\<lambda>(block, ps8).
          Inr ((fs, ms @ [\<lparr>rm_loc = mk_loc startP (endToken (sloc block)), rm_returnType = ty,
                  rm_name = name', rm_mangledName = [], rm_parameters = params, rm_block = block,
                  rm_varDecls = []\<rparr>]), ps8))))))
      else errorExpectedAnyOf [TT_Semicolon, TT_LParen] ps3))))"

definition parseClassMember :: "nat \<Rightarrow> klass \<Rightarrow> pstate \<Rightarrow> klass presult" where
  "parseClassMember n k ps =
     bindE (p_lookAhead 1 ps) (\<lambda>(t, ps1).
     if tok_type t = TT_Static then
       bindE (parseMainMethod n ps1) (\<lambda>(m, ps2). Inr (k\<lparr>c_mainMethods := c_mainMethods k @ [m]\<rparr>, ps2))
     else if tok_type t \<in> set [TT_Boolean, TT_Identifier, TT_Int, TT_Void] then
       bindE (parseFieldOrMethod n (c_fields k) (c_methods k) ps1) (\<lambda>((fs, ms), ps2).
         Inr (k\<lparr>c_fields := fs, c_methods := ms\<rparr>, ps2))
     else errorExpectedAnyOf [TT_Static, TT_Boolean, TT_Identifier, TT_Int, TT_Void] ps1)"

fun memberLoop :: "nat \<Rightarrow> token_pos \<Rightarrow> klass \<Rightarrow> pstate \<Rightarrow> klass presult" where
  "memberLoop 0 startP k ps = Inl OutOfFuel"
| "memberLoop (Suc n) startP k ps =
     (if curType ps = TT_RBrace then
        (let endP = endPos (curTok ps) in
         bindE (p_readNextToken ps) (\<lambda>ps1. Inr (k\<lparr>c_loc := mk_loc startP endP\<rparr>, ps1)))
      else if curType ps = TT_Public then
        bindE (parseClassMember (Suc n) k ps) (\<lambda>(k1, ps1). memberLoop n startP k1 ps1)
      else errorExpectedAnyOf [TT_RBrace, TT_Public] ps)"

definition parseClassDeclaration :: "nat \<Rightarrow> pstate \<Rightarrow> klass presult" where
  "parseClassDeclaration n ps =
     (let startP = startPos (curTok ps) in
      bindE (expectAndNext TT_Class ps) (\<lambda>ps1.
      bindE (expectGetIdentAndNext TT_Identifier ps1) (\<lambda>(name', ps2).
      bindE (expectAndNext TT_LBrace ps2) (\<lambda>ps3.
        memberLoop n startP \<lparr>c_loc = no_loc, c_name = name', c_fields = [], c_methods = [],
          c_mainMethods = []\<rparr> ps3))))"

fun programLoop :: "nat \<Rightarrow> token_pos \<Rightarrow> klass list \<Rightarrow> pstate \<Rightarrow> program presult" where
  "programLoop 0 startP acc ps = Inl OutOfFuel"
| "programLoop (Suc n) startP acc ps =
     (if curType ps = TT_Class then
        bindE (parseClassDeclaration (Suc n) ps) (\<lambda>(k, ps1). programLoop n startP (acc @ [k]) ps1)
      else if curType ps = TT_Eof then
        Inr (\<lparr>pr_loc = mk_loc startP (startPos (curTok ps)), pr_classes = acc\<rparr>, ps)
      else errorExpectedAnyOf [TT_Class, TT_Eof] ps)"

definition parseProgram :: "nat \<Rightarrow> pstate \<Rightarrow> program presult" where
  "parseProgram n ps = programLoop n (startPos (curTok ps)) [] ps"

end
