(* ===== verification/Ast_Props.thy ===== *)
theory Ast_Props
  imports Ast
begin

text \<open>
  Properties of the syntax tree's helpers: the binary searches find exactly the member with the
  name, \<open>sem::Type\<close> comparison is an equivalence and assignability a preorder above it, and the
  mangled names of methods determine class, method and parameter types.
\<close>

section \<open>Binary search\<close>

lemma lower_bound_spec:
  assumes "sorted (map f xs)" "first + len \<le> length xs"
    and "\<forall>i < first. f (xs ! i) < key" "\<forall>i. first + len \<le> i \<and> i < length xs \<longrightarrow> key \<le> f (xs ! i)"
  shows "lower_bound f xs key first len \<le> length xs
    \<and> (\<forall>i < lower_bound f xs key first len. f (xs ! i) < key)
    \<and> (\<forall>i. lower_bound f xs key first len \<le> i \<and> i < length xs \<longrightarrow> key \<le> f (xs ! i))"
  using assms
proof (induction f xs key first len rule: lower_bound.induct)
  case (1 f xs key first len)
  note IH = "1.IH" and prems = "1.prems"
  have mono: "f (xs ! i) \<le> f (xs ! j)" if "i \<le> j" "j < length xs" for i j
    using sorted_nth_mono [OF prems(1), of i j] that by simp
  show ?case
  proof (cases "len = 0")
    case True
    with prems show ?thesis by (simp add: lower_bound.simps [of f xs key first])
  next
    case False
    define half where "half = len div 2"
    define mid where "mid = first + half"
    have mid: "mid < first + len" "mid < length xs" "first \<le> mid" "half < len"
      using False prems(2) by (simp_all add: mid_def half_def)
    show ?thesis
    proof (cases "f (xs ! mid) < key")
      case True
      have "lower_bound f xs key first len = lower_bound f xs key (Suc mid) (len - half - 1)"
        using False True by (simp add: lower_bound.simps [of f xs key first len] half_def mid_def Let_def)
      moreover have "\<forall>i < Suc mid. f (xs ! i) < key"
        using True mono mid by (metis le_less_trans less_Suc_eq_le)
      moreover have "Suc mid + (len - half - 1) = first + len" using mid by (simp add: mid_def)
      ultimately show ?thesis
        using IH(1) [OF False half_def mid_def]
          True prems by simp
    next
      case nT: False
      have "lower_bound f xs key first len = lower_bound f xs key first half"
        using False nT by (simp add: lower_bound.simps [of f xs key first len] half_def mid_def Let_def)
      moreover have "\<forall>i. first + half \<le> i \<and> i < length xs \<longrightarrow> key \<le> f (xs ! i)"
      proof (intro allI impI)
        fix i assume "first + half \<le> i \<and> i < length xs"
        then have "f (xs ! mid) \<le> f (xs ! i)" using mono [of mid i] by (simp add: mid_def)
        with nT show "key \<le> f (xs ! i)" by simp
      qed
      moreover have "first + half \<le> length xs" using mid(2) by (simp add: mid_def)
      ultimately show ?thesis
        using IH(2) [OF False half_def mid_def nT prems(1) _ prems(3)] by presburger
    qed
  qed
qed

lemma find_by_name_sorted:
  assumes "sorted (map f xs)"
  shows "find_by_name f xs n = List.find (\<lambda>x. f x = n) xs"
proof -
  define r where "r = lower_bound f xs n 0 (length xs)"
  have "0 + length xs \<le> length xs" "\<forall>i < 0. f (xs ! i) < n"
    "\<forall>i. 0 + length xs \<le> i \<and> i < length xs \<longrightarrow> n \<le> f (xs ! i)" by auto
  from lower_bound_spec [OF assms this]
  have r: "r \<le> length xs" "\<And>i. i < r \<Longrightarrow> f (xs ! i) < n"
    "\<And>i. r \<le> i \<Longrightarrow> i < length xs \<Longrightarrow> n \<le> f (xs ! i)"
    by (simp_all add: r_def)
  have mono: "f (xs ! r) \<le> f (xs ! i)" if "r \<le> i" "i < length xs" for i
    using sorted_nth_mono [OF assms, of r i] that by simp
  show ?thesis
  proof (cases "r = length xs \<or> n < f (xs ! r)")
    case True
    then have "f x \<noteq> n" if "x \<in> set xs" for x
    proof -
      from that obtain i where i: "i < length xs" "x = xs ! i" by (auto simp: in_set_conv_nth)
      show ?thesis
      proof (cases "i < r")
        case True
        then show ?thesis using r(2) i(2) by fastforce
      next
        case False
        then show ?thesis using \<open>r = length xs \<or> n < f (xs ! r)\<close> i mono [of i] by fastforce
      qed
    qed
    then have "List.find (\<lambda>x. f x = n) xs = None" by (auto simp: find_None_iff)
    then show ?thesis using True by (simp add: find_by_name_def r_def [symmetric])
  next
    case False
    then have "r < length xs" "f (xs ! r) = n" using r(1,3) by fastforce+
    moreover have "\<forall>j < r. f (xs ! j) \<noteq> n" using r(2) by fastforce
    ultimately have "List.find (\<lambda>x. f x = n) xs = Some (xs ! r)"
      by (auto simp: find_Some_iff)
    then show ?thesis using False by (simp add: find_by_name_def r_def [symmetric])
  qed
qed

lemma lower_bound_le: "lower_bound f xs key first len \<le> first + len"
proof (induction f xs key first len rule: lower_bound.induct)
  case (1 f xs key first len)
  show ?case
  proof (cases "len = 0")
    case False
    have d: "len div 2 < len" using False by simp
    show ?thesis
      using 1(1) [OF False refl refl] 1(2) [OF False refl refl] d False
      by (subst lower_bound.simps) (auto simp: Let_def)
  qed (simp add: lower_bound.simps [of f xs key first])
qed

lemma find_by_name_mem: "find_by_name f xs n = Some x \<Longrightarrow> x \<in> set xs"
  using lower_bound_le [of f xs n 0 "length xs"]
  by (auto simp: find_by_name_def Let_def split: if_splits)

section \<open>Comparison of types\<close>

lemma sem_eq_refl [simp]: "sem_eq t t"
  by (auto simp: sem_eq_def split: type_kind.split)

lemma sem_eq_sym: "sem_eq t u \<Longrightarrow> sem_eq u t"
  by (auto simp: sem_eq_def split: type_kind.splits if_splits)

lemma sem_eq_trans: "sem_eq t u \<Longrightarrow> sem_eq u v \<Longrightarrow> sem_eq t v"
  by (auto simp: sem_eq_def split: type_kind.splits if_splits)

lemma sem_eq_kind: "sem_eq t u \<Longrightarrow> kind t = kind u"
  by (auto simp: sem_eq_def split: type_kind.splits if_splits)

lemma sem_ge_refl [simp]: "sem_ge t t"
  by (simp add: sem_ge_def)

lemma sem_ge_trans: "sem_ge t u \<Longrightarrow> sem_ge u v \<Longrightarrow> sem_ge t v"
  by (auto simp: sem_ge_def split: if_splits dest: sem_eq_trans sem_eq_kind)

lemma sem_ge_antisym: "sem_ge t u \<Longrightarrow> sem_ge u t \<Longrightarrow> sem_eq t u"
  by (auto simp: sem_ge_def split: if_splits dest: sem_eq_kind)

section \<open>Name mangling\<close>

definition valid_name :: "string \<Rightarrow> bool" where
  "valid_name n \<longleftrightarrow> n \<noteq> [] \<and> \<not> is_digit (hd n)"

fun basic_valid :: "basic_type \<Rightarrow> bool" where
  "basic_valid (PrimitiveType _ p) \<longleftrightarrow> p \<noteq> PT_None"
| "basic_valid (ClassType _ n _) \<longleftrightarrow> valid_name n"

fun type_valid :: "ast_type \<Rightarrow> bool" where
  "type_valid (BasicType b) \<longleftrightarrow> basic_valid b"
| "type_valid (ArrayType _ b dim) \<longleftrightarrow> basic_valid b \<and> 0 < dim"

text \<open>The parameters that \<open>visitParameter\<close> lets pass.\<close>

definition param_ok :: "parameter \<Rightarrow> bool" where
  "param_ok p \<longleftrightarrow> type_valid (p_type p) \<and>
     (case getSemaType (p_type p) of None \<Rightarrow> False | Some s \<Rightarrow> \<not> isVoidOrVoidArray s)"

lemma counted_name_inject:
  assumes "nat_to_string (length c) @ c @ r = nat_to_string (length c') @ c' @ r'"
    and "valid_name c" "valid_name c'"
  shows "c = c' \<and> r = r'"
proof -
  have tw: "takeWhile is_digit (nat_to_string (length n) @ n @ s) = nat_to_string (length n)"
    if "valid_name n" for n s
    using that nat_to_string_digits by (cases n) (auto simp: takeWhile_append2 valid_name_def)
  from arg_cong [OF assms(1), of "takeWhile is_digit"] tw assms(2,3)
  have "length c = length c'" by simp
  with assms(1) show ?thesis by simp
qed

lemma digit_not_letter:
  "\<not> is_digit CHR ''b''" "\<not> is_digit CHR ''i''" "\<not> is_digit CHR ''v''" "\<not> is_digit CHR ''P''"
  by (simp_all add: is_digit_def less_eq_char_def)

lemma hd_nat_to_string: "is_digit (hd (nat_to_string n @ s))"
  using nat_to_string_digits [of "hd (nat_to_string n)" n] by simp

lemma basic_mangled_cases:
  assumes "basic_valid b"
  obtains (letter) l p c where "b = PrimitiveType l p" "basic_getMangledName b = Some [c]"
      "c \<in> {CHR ''b'', CHR ''i'', CHR ''v''}"
    | (name) l n d where "b = ClassType l n d"
        "basic_getMangledName b = Some (nat_to_string (length n) @ n)" "valid_name n"
proof (cases b)
  case (PrimitiveType l p)
  then show ?thesis using assms letter by (cases p) auto
next
  case (ClassType l n d)
  then show ?thesis using assms name by simp
qed

lemma basic_mangled_inject:
  assumes "basic_getMangledName a = Some s" "basic_getMangledName b = Some t"
    "basic_valid a" "basic_valid b" "s @ r = t @ r'"
  shows "basic_getSemaType a = basic_getSemaType b \<and> r = r'"
  using assms(3)
proof (cases rule: basic_mangled_cases)
  case a: (letter l p c)
  show ?thesis
      using assms(4)
  proof (cases rule: basic_mangled_cases)
    case (letter l' p' c')
    with a assms show ?thesis by (cases p; cases p') auto
  next
    case (name l' n d)
    then have "is_digit (hd (t @ r'))" using assms(2) hd_nat_to_string [of _ "n @ r'"] by auto
    moreover have "\<not> is_digit (hd (s @ r))" using a assms(1) digit_not_letter by auto
    ultimately show ?thesis using assms(5) by simp
  qed
next
  case a: (name l n d)
  show ?thesis
      using assms(4)
  proof (cases rule: basic_mangled_cases)
    case (letter l' p' c')
    then have "\<not> is_digit (hd (t @ r'))" using assms(2) digit_not_letter by auto
    moreover have "is_digit (hd (s @ r))" using a assms(1) hd_nat_to_string [of _ "n @ r"] by auto
    ultimately show ?thesis using assms(5) by simp
  next
    case (name l' n' d')
    have "nat_to_string (length n) @ n @ r = nat_to_string (length n') @ n' @ r'"
      using a name assms(1,2,5) by (metis append.assoc option.inject)
    then have "n = n' \<and> r = r'" using counted_name_inject a(3) name(3) by blast
    with a name show ?thesis by simp
  qed
qed

lemma basic_mangled_not_P:
  assumes "basic_getMangledName b = Some s" "basic_valid b"
  shows "s \<noteq> [] \<and> hd s \<noteq> CHR ''P''"
  using assms(2)
proof (cases rule: basic_mangled_cases)
  case (name l n d)
  then show ?thesis using assms(1) hd_nat_to_string [of "length n" n] digit_not_letter(4)
    by (cases "hd (nat_to_string (length n) @ n) = CHR ''P''") auto
qed (use assms(1) in auto)

text \<open>A mangled type is a number of \<open>P\<close>s and the mangled element type.\<close>

fun type_parts :: "ast_type \<Rightarrow> nat \<times> basic_type" where
  "type_parts (BasicType b) = (0, b)"
| "type_parts (ArrayType _ b dim) = (nat dim, b)"

lemma getMangledName_parts:
  "getMangledName t =
     map_option (\<lambda>s. replicate (fst (type_parts t)) CHR ''P'' @ s) (basic_getMangledName (snd (type_parts t)))"
  by (cases t) (simp_all add: option.map_ident)

lemma getSemaType_parts:
  assumes "type_valid t" "type_valid u" "fst (type_parts t) = fst (type_parts u)"
    "basic_getSemaType (snd (type_parts t)) = basic_getSemaType (snd (type_parts u))"
  shows "getSemaType t = getSemaType u"
  using assms by (cases t; cases u) (auto simp: eq_nat_nat_iff)

lemma type_mangled_inject:
  assumes "getMangledName a = Some s" "getMangledName b = Some t" "type_valid a" "type_valid b"
    "s @ r = t @ r'"
  shows "getSemaType a = getSemaType b \<and> r = r'"
proof -
  obtain m x n y where p: "type_parts a = (m, x)" "type_parts b = (n, y)" by (metis prod.exhaust)
  obtain sa sb where sa: "basic_getMangledName x = Some sa" "s = replicate m CHR ''P'' @ sa"
    and sb: "basic_getMangledName y = Some sb" "t = replicate n CHR ''P'' @ sb"
    using assms(1,2) p by (auto simp: getMangledName_parts)
  have v: "basic_valid x" "basic_valid y" using assms(3,4) p by (cases a; cases b; auto)+
  have tw: "takeWhile (\<lambda>c. c = CHR ''P'') (replicate k CHR ''P'' @ z @ w) = replicate k CHR ''P''"
    if "z \<noteq> [] \<and> hd z \<noteq> CHR ''P''" for k z w
    using that by (cases z) (induction k; simp)+
  have "replicate m CHR ''P'' = replicate n CHR ''P''"
    using arg_cong [OF assms(5), of "takeWhile (\<lambda>c. c = CHR ''P'')"] sa sb
      tw [OF basic_mangled_not_P [OF sa(1) v(1)]] tw [OF basic_mangled_not_P [OF sb(1) v(2)]]
    by simp
  then have mn: "m = n" by (metis length_replicate)
  with assms(5) sa sb have "sa @ r = sb @ r'" by simp
  from basic_mangled_inject [OF sa(1) sb(1) v this] have
    "basic_getSemaType x = basic_getSemaType y" "r = r'" by simp_all
  with getSemaType_parts [OF assms(3,4)] p mn show ?thesis by simp
qed

lemma types_mangled_inject:
  assumes "list_all2 (\<lambda>t s. getMangledName t = Some s) ts ss"
    "list_all2 (\<lambda>t s. getMangledName t = Some s) us zs"
    "list_all type_valid ts" "list_all type_valid us" "concat ss = concat zs"
  shows "map getSemaType ts = map getSemaType us"
  using assms
proof (induction ts arbitrary: ss us zs)
  case Nil
  have "z \<noteq> []" if "getMangledName t = Some z" "type_valid t" for t z
    using that basic_mangled_not_P by (cases t) auto
  then show ?case using Nil by (cases us; cases zs) auto
next
  case (Cons t ts)
  have ne: "z \<noteq> []" if "getMangledName t = Some z" "type_valid t" for t z
    using that basic_mangled_not_P by (cases t) auto
  obtain s ss' where ss: "ss = s # ss'" "getMangledName t = Some s"
    "list_all2 (\<lambda>t s. getMangledName t = Some s) ts ss'"
    using Cons.prems(1) by (cases ss) auto
  obtain u us' z zs' where us: "us = u # us'" "zs = z # zs'" "getMangledName u = Some z"
    "list_all2 (\<lambda>t s. getMangledName t = Some s) us' zs'"
    using Cons.prems ss ne [OF ss(2)] by (cases us; cases zs) auto
  have "getSemaType t = getSemaType u \<and> concat ss' = concat zs'"
    using type_mangled_inject [OF ss(2) us(3), of "concat ss'" "concat zs'"] Cons.prems ss us by simp
  with Cons.IH [OF ss(3) us(4)] Cons.prems us(1) show ?case by simp
qed

lemma those_list_all2: "those xs = Some ys \<Longrightarrow> list_all2 (\<lambda>x y. x = Some y) xs ys"
  by (induction xs arbitrary: ys) (auto split: option.splits)

lemma params_mangled:
  assumes "those (map (\<lambda>p. getMangledName (p_type p)) ps) = Some ss"
  shows "list_all2 (\<lambda>t s. getMangledName t = Some s) (map p_type ps) ss"
  using those_list_all2 [OF assms] by (simp add: list_all2_map1)

lemma params_not_v:
  assumes "those (map (\<lambda>p. getMangledName (p_type p)) ps) = Some ss" "ps \<noteq> []" "list_all param_ok ps"
  shows "concat ss \<noteq> ''v''"
proof
  assume v: "concat ss = ''v''"
  obtain p ps' where ps: "ps = p # ps'" using assms(2) by (cases ps) auto
  then obtain s ss' where ss: "ss = s # ss'" "getMangledName (p_type p) = Some s"
    using params_mangled [OF assms(1)] by (cases ss) auto
  have pk: "type_valid (p_type p)"
    "case getSemaType (p_type p) of None \<Rightarrow> False | Some s \<Rightarrow> \<not> isVoidOrVoidArray s"
    using assms(3) ps by (simp_all add: param_ok_def)
  have "getMangledName (BasicType (PrimitiveType no_loc PT_Void)) = Some ''v''" by simp
  from type_mangled_inject [OF ss(2) this pk(1), of "concat ss'" "[]"] v ss(1)
  have "getSemaType (p_type p) = Some (setVoid new_type)" by simp
  with pk(2) show False by (simp add: mjc_defs)
qed

lemma createMangledName_inject:
  assumes "mkMangledName c n ps = Some s" "mkMangledName c' n' ps' = Some s"
    and "valid_name c" "valid_name n" "valid_name c'" "valid_name n'"
    and "list_all param_ok ps" "list_all param_ok ps'"
  shows "c = c' \<and> n = n' \<and> map (\<lambda>p. getSemaType (p_type p)) ps = map (\<lambda>p. getSemaType (p_type p)) ps'"
proof -
  let ?m = "\<lambda>ps. if ps = [] then Some ''v''
        else map_option concat (those (map (\<lambda>p. getMangledName (p_type p)) ps))"
  obtain x x' where x: "?m ps = Some x" "?m ps' = Some x'"
    and eq: "nat_to_string (length c) @ c @ nat_to_string (length n) @ n @ ''E'' @ x
      = nat_to_string (length c') @ c' @ nat_to_string (length n') @ n' @ ''E'' @ x'"
    using assms(1,2) by (auto simp: mkMangledName_def)
  from counted_name_inject [OF eq assms(3,5)]
  have "c = c'" and eq2: "nat_to_string (length n) @ n @ ''E'' @ x = nat_to_string (length n') @ n' @ ''E'' @ x'"
    by simp_all
  from counted_name_inject [OF eq2 assms(4,6)] have "n = n'" "x = x'" by simp_all
  moreover have "map (\<lambda>p. getSemaType (p_type p)) ps = map (\<lambda>p. getSemaType (p_type p)) ps'"
  proof (cases "ps = [] \<or> ps' = []")
    case True
    then show ?thesis
      using x \<open>x = x'\<close> params_not_v [OF _ _ assms(7)] params_not_v [OF _ _ assms(8)]
      by (auto split: if_splits)
  next
    case False
    with x obtain ss ss' where ss: "those (map (\<lambda>p. getMangledName (p_type p)) ps) = Some ss"
      "those (map (\<lambda>p. getMangledName (p_type p)) ps') = Some ss'" "concat ss = x" "concat ss' = x'"
      by auto
    have "list_all type_valid (map p_type ps)" "list_all type_valid (map p_type ps')"
      using assms(7,8) by (auto simp: list_all_iff param_ok_def)
    from types_mangled_inject [OF params_mangled [OF ss(1)] params_mangled [OF ss(2)] this]
    show ?thesis using ss(3,4) \<open>x = x'\<close> by (simp add: comp_def)
  qed
  ultimately show ?thesis using \<open>c = c'\<close> by simp
qed

section \<open>Properties\<close>

text \<open>
  C19: Member lookup by binary search is exact.  On classes, methods or fields sorted by
  name (the order that \<open>checkForDuplicates\<close> and \<open>sortMembers\<close> establish), \<open>findClassByName\<close>,
  \<open>findMethodInClass\<close> and \<open>findFieldInClass\<close> return the first member with the given name, and
  a null pointer exactly when no member has it.
\<close>

theorem member_lookup_exact:
  assumes "sorted (map c_name (pr_classes p))" "sorted (map rm_name (c_methods k))"
    "sorted (map f_name (c_fields k))"
  shows "findClassByName p n = List.find (\<lambda>c. c_name c = n) (pr_classes p)
    \<and> findMethodInClass k n = List.find (\<lambda>m. rm_name m = n) (c_methods k)
    \<and> findFieldInClass k n = List.find (\<lambda>f. f_name f = n) (c_fields k)"
  using assms
  by (simp add: findClassByName_def findMethodInClass_def findFieldInClass_def find_by_name_sorted)

definition ex_class :: "string \<Rightarrow> string list \<Rightarrow> klass" where
  "ex_class n fs = \<lparr>c_loc = no_loc, c_name = n,
     c_fields = map (\<lambda>f. \<lparr>f_loc = no_loc, f_type = BasicType (PrimitiveType no_loc PT_Int), f_name = f\<rparr>) fs,
     c_methods = [], c_mainMethods = []\<rparr>"

definition ex_program :: program where
  "ex_program = \<lparr>pr_loc = no_loc, pr_classes = [ex_class ''A'' [''x'', ''y'', ''z''], ex_class ''B'' []]\<rparr>"

theorem member_lookup_exact_witness:
  "findClassByName ex_program ''B'' = Some (ex_class ''B'' [])
   \<and> findFieldInClass (ex_class ''A'' [''x'', ''y'', ''z'']) ''w'' = None"
proof -
  have "sorted (map c_name (pr_classes ex_program))"
    "sorted (map rm_name (c_methods (ex_class ''A'' [''x'', ''y'', ''z''])))"
    "sorted (map f_name (c_fields (ex_class ''A'' [''x'', ''y'', ''z''])))"
    by code_simp+
  note m = member_lookup_exact [OF this]
  show ?thesis using m [of "''B''"] m [of "''w''"] by (simp add: ex_program_def ex_class_def)
qed

text \<open>
  C20: Mangled names are unique.  If \<open>createMangledName\<close> gives two methods the same name, for
  class and method names that are identifiers and parameters that the semantic check lets pass,
  the two methods have the same class name, the same name and the same parameter types.
\<close>

theorem mangled_name_unique:
  assumes "createMangledName c m = Some x" "createMangledName c' m' = Some x'"
    and "rm_mangledName x = rm_mangledName x'"
    and "valid_name c" "valid_name (rm_name m)" "valid_name c'" "valid_name (rm_name m')"
    and "list_all param_ok (rm_parameters m)" "list_all param_ok (rm_parameters m')"
  shows "c = c' \<and> rm_name m = rm_name m'
    \<and> map (\<lambda>p. getSemaType (p_type p)) (rm_parameters m)
      = map (\<lambda>p. getSemaType (p_type p)) (rm_parameters m')"
proof -
  obtain s where "mkMangledName c (rm_name m) (rm_parameters m) = Some s"
    "mkMangledName c' (rm_name m') (rm_parameters m') = Some s"
    using assms(1-3) by (auto simp: createMangledName_def)
  from createMangledName_inject [OF this assms(4-9)] show ?thesis .
qed

definition ex_method :: "string \<Rightarrow> ast_type list \<Rightarrow> regular_method" where
  "ex_method n ts = \<lparr>rm_loc = no_loc, rm_returnType = BasicType (PrimitiveType no_loc PT_Int),
     rm_name = n, rm_mangledName = [],
     rm_parameters = map (\<lambda>t. \<lparr>p_loc = no_loc, p_type = t, p_name = ''x'', p_idx = 1\<rparr>) ts,
     rm_block = Block no_loc MayContinue [] True, rm_varDecls = []\<rparr>"

theorem mangled_name_unique_witness:
  "(\<exists>x. createMangledName ''A'' (ex_method ''f'' [ArrayType no_loc (ClassType no_loc ''B'' None) 2]) = Some x
     \<and> rm_mangledName x = ''_ZN1A1fEPP1B'')
   \<and> map (\<lambda>p. getSemaType (p_type p))
       (rm_parameters (ex_method ''f'' [ArrayType no_loc (ClassType no_loc ''B'' None) 2]))
     = map (\<lambda>p. getSemaType (p_type p))
       (rm_parameters (ex_method ''f'' [ArrayType (mk_loc no_pos no_pos) (ClassType no_loc ''B'' (Some ''B'')) 2]))"
proof -
  let ?m = "ex_method ''f'' [ArrayType no_loc (ClassType no_loc ''B'' None) 2]"
  let ?m' = "ex_method ''f'' [ArrayType (mk_loc no_pos no_pos) (ClassType no_loc ''B'' (Some ''B'')) 2]"
  have m: "map_option rm_mangledName (createMangledName ''A'' ?m) = Some ''_ZN1A1fEPP1B''"
    "map_option rm_mangledName (createMangledName ''A'' ?m') = Some ''_ZN1A1fEPP1B''"
    by code_simp+
  then obtain x x' where x: "createMangledName ''A'' ?m = Some x" "createMangledName ''A'' ?m' = Some x'"
    "rm_mangledName x = ''_ZN1A1fEPP1B''" "rm_mangledName x' = ''_ZN1A1fEPP1B''" by auto
  have v: "valid_name ''A''" "valid_name (rm_name ?m)" "valid_name (rm_name ?m')"
    "list_all param_ok (rm_parameters ?m)" "list_all param_ok (rm_parameters ?m')"
    by code_simp+
  have "rm_mangledName x = rm_mangledName x'" using x by simp
  from mangled_name_unique [OF x(1,2) this v(1,2) v(1,3) v(4,5)] x show ?thesis by blast
qed

text \<open>
  C21: Assignability (\<open>operator>=\<close>) is a preorder whose symmetric part is \<open>operator==\<close>: for all
  types it is reflexive and transitive, and two types are equal when each is assignable to
  the other.  The null type is assignable to classes and arrays, and to no other type but itself.
\<close>

theorem assignability_preorder:
  "sem_ge t t
   \<and> (sem_ge t u \<and> sem_ge u v \<longrightarrow> sem_ge t v)
   \<and> (sem_ge t u \<and> sem_ge u t \<longleftrightarrow> sem_eq t u)
   \<and> (isNull n \<longrightarrow> sem_ge t n = (isClass t \<or> isArray t \<or> isNull t))"
proof (intro conjI impI)
  show "(sem_ge t u \<and> sem_ge u t) = sem_eq t u"
    using sem_ge_antisym [of t u] sem_eq_sym [of t u] by (auto simp: sem_ge_def)
  show "sem_ge t n = (isClass t \<or> isArray t \<or> isNull t)" if "isNull n"
    using that by (auto simp: sem_ge_def sem_eq_def is_defs split: type_kind.splits)
qed (auto intro: sem_ge_trans)

theorem assignability_preorder_witness:
  "sem_ge (setClass ''A'' new_type) (setNull new_type) \<and> \<not> sem_ge (setInt new_type) (setNull new_type)"
  using assignability_preorder [of "setClass ''A'' new_type" undefined undefined "setNull new_type"]
    assignability_preorder [of "setInt new_type" undefined undefined "setNull new_type"]
  by (simp add: is_defs)

end
