(* ===== verification/Ast_Wf.thy ===== *)
theory Ast_Wf
  imports Parser Ast_Props
begin

text \<open>
  Well-formed trees: what the parser guarantees of its result.  Names are identifiers of the
  lexer, integer literals fit 32 bits, array types have at least one dimension, no operator or
  primitive type is the null value of its enumeration, branches and loop bodies are statements
  (not declarations), and all attributes still have their initial values.
\<close>

definition ident :: "string \<Rightarrow> bool" where
  "ident n \<longleftrightarrow> lexeme n = Some TT_Identifier"

fun wf_basic :: "basic_type \<Rightarrow> bool" where
  "wf_basic (PrimitiveType _ p) \<longleftrightarrow> p \<noteq> PT_None"
| "wf_basic (ClassType _ n d) \<longleftrightarrow> ident n \<and> d = None"

fun wf_type :: "ast_type \<Rightarrow> bool" where
  "wf_type (BasicType b) \<longleftrightarrow> wf_basic b"
| "wf_type (ArrayType _ b dim) \<longleftrightarrow> wf_basic b \<and> 1 \<le> dim"

fun wf_expr :: "expr \<Rightarrow> bool" where
  "wf_expr (NewArrayExpression _ tt t e) \<longleftrightarrow>
     tt = new_type \<and> (case t of ArrayType _ _ _ \<Rightarrow> wf_type t | BasicType _ \<Rightarrow> False) \<and> wf_expr e"
| "wf_expr (NewObjectExpression _ tt n d) \<longleftrightarrow> tt = new_type \<and> ident n \<and> d = None"
| "wf_expr (IntLiteral _ tt v) \<longleftrightarrow> tt = new_type \<and> - (2 ^ 31) \<le> v \<and> v \<le> 2 ^ 31 - 1"
| "wf_expr (BoolLiteral _ tt v) \<longleftrightarrow> tt = new_type"
| "wf_expr (NullLiteral _ tt) \<longleftrightarrow> tt = new_type"
| "wf_expr (ThisLiteral _ tt) \<longleftrightarrow> tt = new_type"
| "wf_expr (VarRef _ tt n d) \<longleftrightarrow> tt = new_type \<and> ident n \<and> d = None"
| "wf_expr (MethodInvocation _ tt l n args d b) \<longleftrightarrow>
     tt = new_type \<and> wf_expr l \<and> ident n \<and> (\<forall>a \<in> set args. wf_expr a) \<and> d = None \<and> \<not> b"
| "wf_expr (FieldAccess _ tt l n d) \<longleftrightarrow> tt = new_type \<and> wf_expr l \<and> ident n \<and> d = None"
| "wf_expr (ArrayAccess _ tt a i) \<longleftrightarrow> tt = new_type \<and> wf_expr a \<and> wf_expr i"
| "wf_expr (BinaryExpression _ tt l r op) \<longleftrightarrow> tt = new_type \<and> wf_expr l \<and> wf_expr r \<and> op \<noteq> Op_None"
| "wf_expr (UnaryExpression _ tt e op) \<longleftrightarrow> tt = new_type \<and> wf_expr e \<and> op \<noteq> UOp_None"

fun is_decl :: "stmt \<Rightarrow> bool" where
  "is_decl (VariableDeclaration _ _ _ _ _ _) = True"
| "is_decl _ = False"

fun wf_stmt :: "stmt \<Rightarrow> bool" where
  "wf_stmt (Block _ c ss flag) \<longleftrightarrow>
     c = MayContinue \<and> (\<forall>s \<in> set ss. wf_stmt s) \<and> flag = (\<forall>s \<in> set ss. lonelyEmpty s)"
| "wf_stmt (ExpressionStatement _ c e) \<longleftrightarrow> c = MayContinue \<and> wf_expr e"
| "wf_stmt (IfStatement _ c e t f) \<longleftrightarrow> c = MayContinue \<and> wf_expr e
     \<and> (case t of None \<Rightarrow> True | Some s \<Rightarrow> wf_stmt s \<and> \<not> is_decl s)
     \<and> (case f of None \<Rightarrow> True | Some s \<Rightarrow> wf_stmt s \<and> \<not> is_decl s)"
| "wf_stmt (WhileStatement _ c e t) \<longleftrightarrow> c = MayContinue \<and> wf_expr e
     \<and> (case t of None \<Rightarrow> True | Some s \<Rightarrow> wf_stmt s \<and> \<not> is_decl s)"
| "wf_stmt (ReturnStatement _ c e) \<longleftrightarrow>
     c = MayContinue \<and> (case e of None \<Rightarrow> True | Some x \<Rightarrow> wf_expr x)"
| "wf_stmt (VariableDeclaration _ c t n e i) \<longleftrightarrow> c = MayContinue \<and> wf_type t \<and> ident n
     \<and> (case e of None \<Rightarrow> True | Some x \<Rightarrow> wf_expr x) \<and> i = None"

definition is_block :: "stmt \<Rightarrow> bool" where
  "is_block s = (case s of Block _ _ _ _ \<Rightarrow> True | _ \<Rightarrow> False)"

definition wf_field :: "field \<Rightarrow> bool" where
  "wf_field f \<longleftrightarrow> wf_type (f_type f) \<and> ident (f_name f)"

definition wf_params :: "parameter list \<Rightarrow> bool" where
  "wf_params ps \<longleftrightarrow> (\<forall>p \<in> set ps. wf_type (p_type p) \<and> ident (p_name p))
     \<and> map p_idx ps = map int [1..<Suc (length ps)]"

definition wf_method :: "regular_method \<Rightarrow> bool" where
  "wf_method m \<longleftrightarrow> wf_type (rm_returnType m) \<and> ident (rm_name m) \<and> wf_params (rm_parameters m)
     \<and> wf_stmt (rm_block m) \<and> is_block (rm_block m) \<and> rm_varDecls m = []"

definition wf_main :: "main_method \<Rightarrow> bool" where
  "wf_main m \<longleftrightarrow> ident (mm_name m) \<and> ident (mm_argName m) \<and> wf_stmt (mm_block m)
     \<and> is_block (mm_block m) \<and> mm_varDecls m = []"

definition wf_class :: "klass \<Rightarrow> bool" where
  "wf_class k \<longleftrightarrow> ident (c_name k) \<and> (\<forall>f \<in> set (c_fields k). wf_field f)
     \<and> (\<forall>m \<in> set (c_methods k). wf_method m) \<and> (\<forall>m \<in> set (c_mainMethods k). wf_main m)"

definition wf_program :: "program \<Rightarrow> bool" where
  "wf_program p \<longleftrightarrow> (\<forall>k \<in> set (pr_classes p). wf_class k)"

lemma wf_type_semaType: "wf_type t \<Longrightarrow> \<exists>s. getSemaType t = Some s \<and> innerKind s \<noteq> TK_Array
  \<and> kind s \<noteq> TK_Null \<and> kind s \<noteq> TK_Unresolved"
proof -
  have b: "wf_basic b \<Longrightarrow> \<exists>s. basic_getSemaType b = Some s \<and> innerKind s = TK_Unresolved
      \<and> kind s \<in> {TK_Bool, TK_Int, TK_Void, TK_Class}" for b
    by (cases b) (auto simp: is_defs split: prim_type.splits)
  show "wf_type t \<Longrightarrow> ?thesis"
  proof (cases t)
    case (BasicType x)
    moreover assume "wf_type t"
    ultimately show ?thesis using b [of x] by auto
  next
    case (ArrayType l x d)
    moreover assume "wf_type t"
    ultimately show ?thesis using b [of x] by (auto simp: setArray_def new_type_def)
  qed
qed

lemma ident_valid_name: "ident n \<Longrightarrow> valid_name n"
proof -
  assume "ident n"
  moreover have "TT_Identifier \<notin> snd ` set op_table" by (simp add: op_eval)
  then have "map_of op_table n \<noteq> Some TT_Identifier" by (force dest: map_of_SomeD)
  ultimately have "is_ident n" by (auto simp: ident_def lexeme_def split: if_splits)
  then obtain c cs where c: "n = c # cs" "isAlphaOrUnderscore (schar c)"
    by (auto simp: is_ident_def split: list.splits)
  have "\<not> is_digit c"
  proof
    assume "is_digit c"
    then have "48 \<le> (of_char c :: nat)" "(of_char c :: nat) \<le> 57"
      by (simp_all add: is_digit_def less_eq_char_def)
    then show False using c(2) by (simp add: schar_def isAlphaOrUnderscore_def)
  qed
  with c show ?thesis by (simp add: valid_name_def)
qed

end
