(* ===== verification/Semantic_Safety.thy ===== *)
theory Semantic_Safety
  imports Semantic_Lemmas Ast_Wf
begin

text \<open>
  Absence of crashes in the semantic analysis.  \<open>sok Q r\<close>: the result \<open>r\<close> is no failed assertion and
  no null pointer access, and satisfies \<open>Q\<close> if it is a normal result.  The invariant \<open>state_ok\<close>
  relates the symbol table to a stack of maps, whose definitions have types of declared classes.
  It needs that the signatures of the program (types of fields, parameters and results) mention
  declared classes only; without that the analysis can crash, see \<open>Semantic_Claims\<close>.
\<close>

section \<open>Results\<close>

definition sok :: "('a \<Rightarrow> bool) \<Rightarrow> sem_error + 'a \<Rightarrow> bool" where
  "sok Q r = (case r of Inl e \<Rightarrow> e \<noteq> AssertFail \<and> e \<noteq> NullDeref | Inr x \<Rightarrow> Q x)"

lemma sok_Inr [simp]: "sok Q (Inr x) = Q x"
  by (simp add: sok_def)

lemma sok_bind: "sok R m \<Longrightarrow> (\<And>x. R x \<Longrightarrow> m = Inr x \<Longrightarrow> sok Q (f x)) \<Longrightarrow> sok Q (bindE m f)"
  by (cases m) (auto simp: sok_def)

lemma sok_fail [simp, intro]: "sok Q (sem_fail st l m b)"
  by (simp add: sem_fail_def sok_def split: sum.split)

lemma sok_mono: "sok R r \<Longrightarrow> (\<And>x. R x \<Longrightarrow> Q x) \<Longrightarrow> sok Q r"
  by (auto simp: sok_def split: sum.splits)

section \<open>Types over a program\<close>

definition declared :: "program \<Rightarrow> string \<Rightarrow> bool" where
  "declared P n \<longleftrightarrow> findClassByName P n \<noteq> None"

definition okT :: "program \<Rightarrow> sem_type \<Rightarrow> bool" where
  "okT P t \<longleftrightarrow>
     (kind t = TK_Array \<longrightarrow> innerKind t \<noteq> TK_Array \<and> 1 \<le> dimension t
        \<and> (innerKind t = TK_Class \<longrightarrow> declared P (tname t)))
     \<and> (kind t = TK_Class \<longrightarrow> declared P (tname t))"

definition tyok :: "program \<Rightarrow> ast_type \<Rightarrow> bool" where
  "tyok P t \<longleftrightarrow> (\<exists>s. getSemaType t = Some s \<and> okT P s)"

definition program_ok :: "program \<Rightarrow> bool" where
  "program_ok P \<longleftrightarrow> (\<forall>k \<in> set (pr_classes P). (\<forall>f \<in> set (c_fields k). tyok P (f_type f))
     \<and> (\<forall>m \<in> set (c_methods k). tyok P (rm_returnType m) \<and> (\<forall>p \<in> set (rm_parameters m). tyok P (p_type p))))"

lemma sok_print: "okT P t \<Longrightarrow> (\<And>m. sok Q (f m)) \<Longrightarrow> sok Q (bindE (printType t) f)"
  by (auto simp: printType_def type_print_def okT_def typeKindToString_def split: type_kind.splits)

lemma sok_semaType: "tyok P t \<Longrightarrow> (\<And>s. getSemaType t = Some s \<Longrightarrow> okT P s \<Longrightarrow> sok Q (f s))
    \<Longrightarrow> sok Q (bindE (semaType t) f)"
  by (auto simp: tyok_def semaType_def)

lemma okT_set [simp]:
  "okT P (setInt t)" "okT P (setBool t)" "okT P (setNull t)" "okT P (setVoid t)"
  "declared P n \<Longrightarrow> okT P (setClass n t)" "okT P new_type"
  by (simp_all add: okT_def is_defs)

lemma found_field: "program_ok P \<Longrightarrow> findClassByName P c = Some k \<Longrightarrow> findFieldInClass k n = Some f
    \<Longrightarrow> tyok P (f_type f)"
  by (auto simp: program_ok_def findClassByName_def findFieldInClass_def dest!: find_by_name_mem)

lemma found_method: "program_ok P \<Longrightarrow> findClassByName P c = Some k \<Longrightarrow> findMethodInClass k n = Some m
    \<Longrightarrow> tyok P (rm_returnType m) \<and> (\<forall>p \<in> set (rm_parameters m). tyok P (p_type p))"
  by (auto simp: program_ok_def findClassByName_def findMethodInClass_def dest!: find_by_name_mem)

lemma wf_type_sema:
  assumes "wf_type t" "\<And>l n d. t = BasicType (ClassType l n d) \<Longrightarrow> declared P n"
    "\<And>l' l n d dim. t = ArrayType l' (ClassType l n d) dim \<Longrightarrow> declared P n"
  shows "tyok P t"
proof (cases t)
  case (BasicType b)
  with assms show ?thesis by (cases b) (auto simp: tyok_def okT_def is_defs split: prim_type.splits)
next
  case (ArrayType l b d)
  with assms show ?thesis by (cases b) (auto simp: tyok_def okT_def is_defs split: prim_type.splits)
qed

lemma visitBasicType_sok:
  "wf_basic b \<Longrightarrow> sok (\<lambda>b'. \<forall>l n d. b = ClassType l n d \<longrightarrow> declared (s_program st) n) (visitBasicType st b)"
  by (cases b) (auto simp: declared_def split: option.split)

lemma visitType_sok: "wf_type t \<Longrightarrow> sok (\<lambda>t'. tyok (s_program st) t \<and> tyok (s_program st) t') (visitType st t)"
proof -
  assume w: "wf_type t"
  have "sok (\<lambda>t'. tyok (s_program st) t) (visitType st t)"
    by (cases t; use w in \<open>auto intro!: sok_bind [OF visitBasicType_sok] wf_type_sema\<close>)
  then show ?thesis
    using visitType_sema [of st t] by (cases "visitType st t") (auto simp: sok_def tyok_def)
qed

section \<open>Expressions\<close>

definition def_ok :: "program \<Rightarrow> sym_def \<Rightarrow> bool" where
  "def_ok P d \<longleftrightarrow> d \<noteq> Def_DummySystem \<and> (d \<noteq> Def_MainArg \<longrightarrow> (\<exists>t. def_getType d = Some t \<and> tyok P t))"

definition env_ok :: "sstate \<Rightarrow> bool" where
  "env_ok st \<longleftrightarrow> program_ok (s_program st)
     \<and> (\<forall>n d. st_lookup n (s_symTbl st) = Some d \<longrightarrow> def_ok (s_program st) d)
     \<and> (\<exists>k. s_class st = Some k \<and> declared (s_program st) (c_name k))
     \<and> (\<forall>m. s_method st = Some m \<longrightarrow> tyok (s_program st) (method_returnType m))"

text \<open>What a visited expression satisfies.\<close>

definition vexpr :: "program \<Rightarrow> expr \<Rightarrow> bool" where
  "vexpr P e \<longleftrightarrow> okT P (targetType e)
     \<and> (is_VarRef e \<longrightarrow> (\<exists>d. varref_def e = Some d \<and> (d = Def_DummySystem \<or> def_ok P d \<and> d \<noteq> Def_MainArg)))"

lemma visitVarRef_sok:
  assumes "env_ok st"
  shows "sok (vexpr (s_program st)) (visitVarRef st loc new_type n)"
proof (cases "st_lookup n (s_symTbl st)")
  case None
  then show ?thesis by (simp add: visitVarRef_def vexpr_def)
next
  case (Some d)
  then have "def_ok (s_program st) d" using assms by (auto simp: env_ok_def)
  with Some show ?thesis
    by (auto simp: visitVarRef_def def_ok_def vexpr_def intro!: sok_semaType)
qed

lemma visitBinary_sok:
  assumes "vexpr P l" "vexpr P r" "op \<noteq> Op_None"
  shows "sok (vexpr P) (visitBinaryExpression st loc tt l r op)"
  using assms
  by (cases op) (auto simp: visitBinaryExpression_def Let_def vexpr_def intro!: sok_print)

lemma visitFieldAccess_sok:
  assumes "env_ok st" "vexpr (s_program st) l"
  shows "sok (vexpr (s_program st)) (visitFieldAccess st loc new_type l n)"
proof -
  have "sok (vexpr (s_program st)) (case findClassByName (s_program st) (tname (targetType l)) of
      None \<Rightarrow> Inl AssertFail
    | Some cls \<Rightarrow> (case findFieldInClass cls n of
         None \<Rightarrow> sem_fail st loc m False
       | Some f \<Rightarrow> bindE (semaType (f_type f)) (\<lambda>s. Inr (FieldAccess loc s l n (Some (FR_Field (c_name cls) f))))))"
    if "isClass (targetType l)" for m
    using that assms found_field [of "s_program st"]
    by (auto simp: vexpr_def okT_def is_defs declared_def env_ok_def split: option.splits
        intro!: sok_semaType [of "s_program st"])
  then show ?thesis
    using assms(2) by (auto simp: visitFieldAccess_def Let_def vexpr_def intro!: sok_print)
qed

lemma visitSystemCall_sok:
  assumes "\<forall>a \<in> set args. vexpr P a"
  shows "sok (vexpr P) (visitSystemCall st loc tt l n args)"
  using assms by (cases args) (auto simp: visitSystemCall_def Let_def vexpr_def intro!: sok_print [of P])

lemma checkArgs_sok:
  assumes "\<forall>p \<in> set ps. tyok P (p_type p)" "\<forall>a \<in> set as. vexpr P a"
  shows "sok (\<lambda>_. True) (checkArgs st ps as)"
  using assms
proof (induction ps as rule: list_induct2')
  case (4 p ps a as)
  then show ?case by (auto simp: vexpr_def intro!: sok_semaType [of P] sok_print [of P])
qed auto

lemma checkReceiver_sok:
  assumes "env_ok st" "vexpr (s_program st) l"
  shows "sok (\<lambda>_. True) (checkVarRefReceiver st loc l n)"
proof (cases "is_VarRef l")
  case True
  then obtain d where d: "varref_def l = Some d" "d = Def_DummySystem \<or> def_ok (s_program st) d \<and> d \<noteq> Def_MainArg"
    using assms(2) by (auto simp: vexpr_def)
  then show ?thesis
    by (auto simp: checkVarRefReceiver_def def_ok_def okT_def declared_def split: option.splits
        intro!: sok_semaType [of "s_program st"])
qed (simp add: checkVarRefReceiver_def)

lemma visitMethodInvocation_sok:
  assumes "env_ok st" "vexpr (s_program st) l" "\<forall>a \<in> set args. vexpr (s_program st) a"
  shows "sok (vexpr (s_program st)) (visitMethodInvocation st loc tt l n args)"
proof -
  let ?P = "s_program st"
  have m: "sok (vexpr ?P) (bindE (checkArgs st (rm_parameters m) args) (\<lambda>_.
      bindE (semaType (rm_returnType m)) (\<lambda>s. Inr (MethodInvocation loc s l n args x False))))"
    if "findClassByName ?P c = Some k" "findMethodInClass k n = Some m" for c k m x
    using found_method [OF _ that] assms
    by (auto simp: env_ok_def vexpr_def intro!: sok_bind [OF checkArgs_sok [of _ ?P]] sok_semaType [of ?P])
  show ?thesis
    unfolding visitMethodInvocation_def
  proof (rule sok_bind [OF checkReceiver_sok [OF assms(1,2)]])
    fix u
    show "sok (vexpr ?P) (if fieldaccess_def l = Some FR_SystemOut \<or> fieldaccess_def l = Some FR_SystemIn
      then visitSystemCall st loc tt l n args
      else if \<not> isClass (targetType l) then sem_fail st loc ''Methods can only be called on class types'' False
      else (case findClassByName ?P (tname (targetType l)) of None \<Rightarrow> Inl NullDeref
       | Some k \<Rightarrow>
           (case findMethodInClass k n of
              None \<Rightarrow> (case s_class st of
                  None \<Rightarrow> Inl NullDeref
                | Some cur \<Rightarrow> sem_fail st loc (''Class '' @ c_name cur
                    @ '' does not have a method called '' @ sq n) False)
            | Some m \<Rightarrow>
                if length (rm_parameters m) \<noteq> length args then
                  sem_fail st (getArgumentsLoc loc args) (''invalid number of arguments: expected ''
                    @ nat_to_string (length (rm_parameters m)) @ '' but have ''
                    @ nat_to_string (length args)) False
                else
                  bindE (checkArgs st (rm_parameters m) args) (\<lambda>_.
                  bindE (semaType (rm_returnType m)) (\<lambda>s.
                    Inr (MethodInvocation loc s l n args (Some (c_name k, rm_name m)) False))))))"
      using assms m
      by (auto simp: visitSystemCall_sok vexpr_def okT_def isClass_def declared_def env_ok_def
          split: option.splits)
  qed
qed

lemma visitUnary_sok:
  assumes "vexpr P x" "op \<noteq> UOp_None"
  shows "sok (vexpr P) (visitUnaryExpression st loc tt x op)"
  using assms by (cases op) (auto simp: visitUnaryExpression_def vexpr_def intro!: sok_print [of P])

lemma visitArrayAccess_sok:
  assumes "vexpr P a" "vexpr P i"
  shows "sok (vexpr P) (visitArrayAccess st loc a i)"
proof -
  have t: "okT P (targetType a)" "okT P (targetType i)" using assms by (simp_all add: vexpr_def)
  have d: "okT P ((targetType a)\<lparr>dimension := 0, kind := innerKind (targetType a)\<rparr>)"
    if "isArray (targetType a)" "dimension (targetType a) = 1"
    using t(1) that by (simp add: okT_def isArray_def)
  have d': "okT P ((targetType a)\<lparr>dimension := dimension (targetType a) - 1\<rparr>)"
    if "isArray (targetType a)" "dimension (targetType a) \<noteq> 1"
    using t(1) that by (simp add: okT_def isArray_def)
  show ?thesis
    unfolding visitArrayAccess_def Let_def
    using d d' by (cases "dimension (targetType a) = 1") (simp_all add: sok_print [OF t(2)] vexpr_def)
qed

lemma visitNewArray_sok:
  assumes "tyok P t" "vexpr P sz"
  shows "sok (vexpr P) (visitNewArrayExpression st loc tt t sz)"
  unfolding visitNewArrayExpression_def
  using assms(2) by (auto simp: vexpr_def intro!: sok_semaType [OF assms(1)] sok_print [of P])

lemma visitThis_sok: "env_ok st \<Longrightarrow> sok (vexpr (s_program st)) (visitThisLiteral st loc new_type)"
  by (auto simp: visitThisLiteral_def env_ok_def vexpr_def)

lemma visitNewObject_sok: "sok (vexpr (s_program st)) (visitNewObjectExpression st loc tt n)"
  by (auto simp: visitNewObjectExpression_def vexpr_def declared_def split: option.split)

lemma visitExpr_sok:
  "env_ok st \<Longrightarrow> wf_expr e \<Longrightarrow> sok (vexpr (s_program st)) (visitExpr st e)"
  "env_ok st \<Longrightarrow> \<forall>e \<in> set es. wf_expr e \<Longrightarrow> sok (\<lambda>es'. \<forall>e \<in> set es'. vexpr (s_program st) e) (visitExprs st es)"
proof (induction st e and st es rule: visitExpr_visitExprs.induct)
  case (1 st loc tt t sz)
  have t: "wf_type t" using "1.prems"(2) by (cases t) auto
  show ?case
    unfolding visitExpr.simps(1)
    by (rule sok_bind [OF visitType_sok [OF t]], rule sok_bind [OF "1.IH"])
      (use "1.prems" in \<open>auto intro!: visitNewArray_sok\<close>)
next
  case (8 st loc tt l n args d b)
  then show ?case
    by (auto intro!: sok_bind [OF "8.IH"(1)] sok_bind [OF "8.IH"(2)] visitMethodInvocation_sok)
next
  case (9 st loc tt l n d)
  then show ?case by (auto intro!: sok_bind [OF "9.IH"] visitFieldAccess_sok)
next
  case (10 st loc tt a i)
  then show ?case by (auto intro!: sok_bind [OF "10.IH"(1)] sok_bind [OF "10.IH"(2)] visitArrayAccess_sok)
next
  case (11 st loc tt l r op)
  then show ?case by (auto intro!: sok_bind [OF "11.IH"(1)] sok_bind [OF "11.IH"(2)] visitBinary_sok)
next
  case (12 st loc tt e op)
  then show ?case by (auto intro!: sok_bind [OF "12.IH"] visitUnary_sok)
next
  case (14 st e es)
  then show ?case by (auto intro!: sok_bind [OF "14.IH"(1)] sok_bind [OF "14.IH"(2)])
qed (auto simp: visitNewObject_sok visitThis_sok visitVarRef_sok vexpr_def)

lemma visitOptExpr_sok:
  "env_ok st \<Longrightarrow> (case e of None \<Rightarrow> True | Some x \<Rightarrow> wf_expr x) \<Longrightarrow>
    sok (\<lambda>o'. case o' of None \<Rightarrow> True | Some x \<Rightarrow> vexpr (s_program st) x) (visitOptExpr st e)"
  by (cases e) (auto simp: visitOptExpr_def intro!: sok_bind [OF visitExpr_sok(1)])

section \<open>Statements\<close>

definition state_ok :: "program \<Rightarrow> (string \<rightharpoonup> sym_def) list \<Rightarrow> sstate \<Rightarrow> bool" where
  "state_ok P fs st \<longleftrightarrow> s_program st = P \<and> program_ok P \<and> st_rep (s_symTbl st) fs
     \<and> (\<forall>f \<in> set fs. \<forall>d \<in> ran f. def_ok P d) \<and> (\<forall>xs. s_alloc st xs \<notin> set xs)
     \<and> (\<exists>k. s_class st = Some k \<and> declared P (c_name k))
     \<and> (\<forall>m. s_method st = Some m \<longrightarrow> tyok P (method_returnType m))"

text \<open>Visiting a statement changes the symbol table and the variables of the method only.\<close>

definition same_env :: "sstate \<Rightarrow> sstate \<Rightarrow> bool" where
  "same_env st st' \<longleftrightarrow> s_lexer st' = s_lexer st \<and> s_program st' = s_program st \<and> s_class st' = s_class st
    \<and> s_method st' = s_method st \<and> s_mainCount st' = s_mainCount st \<and> s_alloc st' = s_alloc st"

lemma same_env_refl [simp]: "same_env st st"
  by (simp add: same_env_def)

lemma same_env_trans [trans]: "same_env a b \<Longrightarrow> same_env b c \<Longrightarrow> same_env a c"
  by (simp add: same_env_def)

lemma frames_ok_lookup:
  "\<forall>f \<in> set fs. \<forall>d \<in> ran f. Q d \<Longrightarrow> frames_lookup fs n = Some d \<Longrightarrow> Q d"
  by (induction fs n rule: frames_lookup.induct) (auto split: option.splits intro: ranI)

lemma state_ok_env: "state_ok P fs st \<Longrightarrow> env_ok st \<and> s_program st = P"
  using frames_ok_lookup [of fs "def_ok P"] by (auto simp: state_ok_def env_ok_def st_lookup_rep)

lemma state_ok_enter: "state_ok P fs st \<Longrightarrow> state_ok P (Map.empty # fs) (sem_enterScope st)"
proof -
  assume s: "state_ok P fs st"
  then have "s_alloc st (map sc_addr (scopes (s_symTbl st))) \<notin> set (map sc_addr (scopes (s_symTbl st)))"
    unfolding state_ok_def by blast
  then have "fresh_scope (s_alloc st (map sc_addr (scopes (s_symTbl st)))) (s_symTbl st)"
    by (simp add: fresh_scope_def)
  with s show ?thesis
    by (simp add: state_ok_def sem_enterScope_def symtab.enter_rep)
qed

lemma state_ok_leave: "state_ok P (f # fs) st \<Longrightarrow> sok (\<lambda>st'. state_ok P fs st' \<and> same_env st st') (sem_leaveScope st)"
  using symtab.leave_rep [of "s_symTbl st" f fs]
  by (auto simp: state_ok_def sem_leaveScope_def same_env_def)

lemma state_ok_insert: "state_ok P (f # fs) st \<Longrightarrow> def_ok P d \<Longrightarrow> state_ok P (f(n \<mapsto> d) # fs) (sem_insert n d st)"
  by (auto simp: state_ok_def sem_insert_def symtab.ins_rep ran_def split: if_splits)

lemma same_env_simps [simp]: "same_env st (sem_enterScope st)" "same_env st (sem_insert n d st)"
  by (simp_all add: same_env_def sem_enterScope_def sem_insert_def)

text \<open>The variable is in the table before its type is checked.\<close>

lemma declare_var_sok:
  assumes "state_ok P (f # fs) st" "s_method st \<noteq> None"
  shows "sok (\<lambda>(i, st'). same_env st st' \<and> (tyok P t \<longrightarrow> (\<exists>f'. state_ok P (f' # fs) st'))) (declare_var st loc t n)"
proof -
  let ?d = "Def_VarDecl \<lparr>vd_loc = loc, vd_type = t, vd_name = n, vd_idx = s_varNr st\<rparr>"
  have "state_ok P (f(n \<mapsto> ?d) # fs) (sem_insert n ?d st)" if "tyok P t"
    using assms(1) that by (intro state_ok_insert) (simp_all add: def_ok_def)
  then have "state_ok P (f(n \<mapsto> ?d) # fs) ((sem_insert n ?d st)\<lparr>s_varNr := v, s_varDecls := w\<rparr>)"
    if "tyok P t" for v w using that by (simp add: state_ok_def)
  moreover have "same_env st ((sem_insert n ?d st)\<lparr>s_varNr := v, s_varDecls := w\<rparr>)" for v w
    by (simp add: same_env_def sem_insert_def)
  ultimately show ?thesis
    using assms(2) by (auto simp: declare_var_def Let_def split: option.split sym_def.split)
qed

lemma visitVariableDeclaration_sok:
  assumes "state_ok P (f # fs) st" "s_method st \<noteq> None" "wf_type t" "case e of None \<Rightarrow> True | Some x \<Rightarrow> wf_expr x"
  shows "sok (\<lambda>(s, st'). same_env st st' \<and> (\<exists>f'. state_ok P (f' # fs) st')) (visitVariableDeclaration loc c t n e st)"
  unfolding visitVariableDeclaration_def
proof (rule sok_bind [OF declare_var_sok [OF assms(1,2)]], clarify)
  fix i st1
  assume e: "same_env st st1" and i: "tyok P t \<longrightarrow> (\<exists>f'. state_ok P (f' # fs) st1)"
  have P: "s_program st1 = P" using e assms(1) by (simp add: state_ok_def same_env_def)
  show "sok (\<lambda>(s, st'). same_env st st' \<and> (\<exists>f'. state_ok P (f' # fs) st'))
     (bindE (visitType st1 t) (\<lambda>t'. bindE (visitOptExpr st1 e) (\<lambda>init'. bindE (semaType t') (\<lambda>s.
     bindE (case init' of
              None \<Rightarrow> Inr ()
            | Some e \<Rightarrow>
                if \<not> sem_ge s (targetType e) then
                  bindE (printType (targetType e)) (\<lambda>m1. bindE (printType s) (\<lambda>m2.
                    sem_fail st1 loc (''May not assign from '' @ m1 @ '' to '' @ m2) False))
                else Inr ()) (\<lambda>_.
     if isVoidOrVoidArray s then
       bindE (printType s) (\<lambda>m. sem_fail st1 loc (''Variable may not be of type '' @ sq m) False)
     else Inr (VariableDeclaration loc c t' n init' (Some i), st1))))))"
  proof (rule sok_bind [OF visitType_sok [OF assms(3)]], goal_cases)
    case (1 t')
    then obtain f' where f': "state_ok P (f' # fs) st1" using i P by auto
    have c: "sok (\<lambda>_. True) (case init' of
              None \<Rightarrow> Inr ()
            | Some e \<Rightarrow>
                if \<not> sem_ge s (targetType e) then
                  bindE (printType (targetType e)) (\<lambda>m1. bindE (printType s) (\<lambda>m2.
                    sem_fail st1 loc (''May not assign from '' @ m1 @ '' to '' @ m2) False))
                else Inr ())" if "okT P s" "case init' of None \<Rightarrow> True | Some x \<Rightarrow> vexpr P x" for s init'
      using that by (auto simp: vexpr_def intro!: sok_print [of P] split: option.splits)
    show ?case
    proof (rule sok_bind [OF visitOptExpr_sok [OF _ assms(4)]], goal_cases)
      case (2 init')
      then show ?case
        using 1 e f' P
        by (auto intro!: sok_semaType [of P] sok_bind [OF c] sok_print [of P])
    qed (use state_ok_env [OF f'] in simp)
  qed
qed

lemma visitReturnStatement_sok:
  assumes "state_ok P fs st" "case e of None \<Rightarrow> True | Some x \<Rightarrow> wf_expr x"
  shows "sok (\<lambda>_. True) (visitReturnStatement loc e st)"
  unfolding visitReturnStatement_def
  using state_ok_env [OF assms(1)]
  by (auto intro!: sok_bind [OF visitOptExpr_sok [OF _ assms(2)]] sok_semaType [of P] sok_print [of P]
      simp: vexpr_def env_ok_def split: option.splits)

lemma checkCondition_sok: "vexpr P e \<Longrightarrow> sok (\<lambda>_. True) (checkCondition st w e)"
  by (auto simp: checkCondition_def vexpr_def intro!: sok_print [of P])

text \<open>What holds of the state after a statement, visited in the frames \<open>f # fs\<close>.\<close>

definition post :: "program \<Rightarrow> (string \<rightharpoonup> sym_def) list \<Rightarrow> sstate \<Rightarrow> sstate \<Rightarrow> bool" where
  "post P fs st st' \<longleftrightarrow> same_env st st' \<and> (\<exists>f'. state_ok P (f' # fs) st')"

lemma post_refl: "state_ok P (f # fs) st \<Longrightarrow> post P fs st st"
  by (auto simp: post_def)

lemma post_trans: "post P fs a b \<Longrightarrow> post P fs b c \<Longrightarrow> post P fs a c"
  by (auto simp: post_def intro: same_env_trans)

lemma post_method: "post P fs st st' \<Longrightarrow> s_method st' = s_method st"
  by (simp add: post_def same_env_def)

lemma sok_option:
  assumes "\<And>s. t = Some s \<Longrightarrow> sok (\<lambda>(s', st'). post P fs st st') (visitStmt s st)" "post P fs st st"
  shows "sok (\<lambda>(t', st'). post P fs st st') (case t of None \<Rightarrow> Inr (None, st)
            | Some s \<Rightarrow> bindE (visitStmt s st) (\<lambda>(s', st1). Inr (Some s', st1)))"
  using assms by (auto split: option.split intro!: sok_bind [OF assms(1)])

definition stmt_safe :: "stmt \<Rightarrow> bool" where
  "stmt_safe s \<longleftrightarrow> (\<forall>P f fs st. state_ok P (f # fs) st \<longrightarrow> s_method st \<noteq> None \<longrightarrow> wf_stmt s
     \<longrightarrow> sok (\<lambda>(s', st'). post P fs st st') (visitStmt s st))"

lemma stmt_safeD:
  "stmt_safe s \<Longrightarrow> post P fs st0 st \<Longrightarrow> s_method st0 \<noteq> None \<Longrightarrow> wf_stmt s
    \<Longrightarrow> sok (\<lambda>(s', st'). post P fs st0 st') (visitStmt s st)"
proof -
  assume a: "stmt_safe s" "post P fs st0 st" "s_method st0 \<noteq> None" "wf_stmt s"
  then obtain f where f: "state_ok P (f # fs) st" by (auto simp: post_def)
  have "sok (\<lambda>(s', st'). post P fs st st') (visitStmt s st)"
    using a f post_method [OF a(2)] unfolding stmt_safe_def by simp
  then show ?thesis by (rule sok_mono) (auto intro: post_trans [OF a(2)])
qed

lemma visitStmts_sok:
  assumes "\<forall>s \<in> set ss. stmt_safe s \<and> wf_stmt s" "post P fs st0 st" "s_method st0 \<noteq> None"
  shows "sok (\<lambda>(ss', st'). post P fs st0 st') (visitStmts ss st)"
  using assms
proof (induction ss arbitrary: st)
  case (Cons s ss)
  show ?case
    unfolding visitStmts.simps
  proof (rule sok_bind [OF stmt_safeD [of s P fs st0 st]], goal_cases)
    case (5 r)
    then show ?case using Cons by (auto intro!: sok_bind [OF Cons.IH])
  qed (use Cons in auto)
qed simp

lemma block_safe:
  assumes "\<forall>s \<in> set ss. stmt_safe s"
  shows "stmt_safe (Block loc c ss flag)"
  unfolding stmt_safe_def
proof (intro allI impI)
  fix P f fs st
  assume st: "state_ok P (f # fs) st" "s_method st \<noteq> None" and w: "wf_stmt (Block loc c ss flag)"
  let ?st = "sem_enterScope st"
  have i: "post P (f # fs) ?st ?st" using state_ok_enter [OF st(1)] by (rule post_refl)
  have m: "s_method ?st \<noteq> None" using st(2) by (simp add: sem_enterScope_def)
  show "sok (\<lambda>(s', st'). post P fs st st') (visitStmt (Block loc c ss flag) st)"
    unfolding visitStmt.simps
  proof (rule sok_bind [OF visitStmts_sok [OF _ i m]], goal_cases)
    case (2 r)
    obtain ss' st1 where r: "r = (ss', st1)" by (cases r)
    with 2 obtain f' where f': "state_ok P (f' # f # fs) st1" "same_env ?st st1" by (auto simp: post_def)
    show ?case
      unfolding r prod.case
      by (rule sok_bind [OF state_ok_leave [OF f'(1)]])
        (use f'(2) in \<open>auto simp: post_def same_env_def sem_enterScope_def split: prod.splits\<close>)
  qed (use assms w in auto)
qed

lemma if_safe:
  assumes "\<And>s. t = Some s \<Longrightarrow> stmt_safe s" "\<And>s. e = Some s \<Longrightarrow> stmt_safe s"
  shows "stmt_safe (IfStatement loc c x t e)"
  unfolding stmt_safe_def
proof (intro allI impI)
  fix P f fs st
  assume st: "state_ok P (f # fs) st" "s_method st \<noteq> None" and w: "wf_stmt (IfStatement loc c x t e)"
  have env: "env_ok st" "s_program st = P" using state_ok_env [OF st(1)] by auto
  show "sok (\<lambda>(s', st'). post P fs st st') (visitStmt (IfStatement loc c x t e) st)"
    unfolding visitStmt.simps
  proof (rule sok_bind [OF visitExpr_sok(1) [OF env(1)]], goal_cases)
    case (2 x')
    have x': "vexpr P x'" using 2 env by simp
    show ?case
    proof (rule sok_bind [OF sok_option [of t P fs]], goal_cases)
      case (1 s) then show ?case using assms w st by (auto intro!: stmt_safeD post_refl)
    next
      case (3 r)
      obtain t' st1 where r: "r = (t', st1)" by (cases r)
      with 3 have p1: "post P fs st st1" by simp
      then have p1': "post P fs st1 st1" by (auto simp: post_def)
      have m: "s_method st1 \<noteq> None" using st(2) p1 by (simp add: post_method)
      show ?case
        unfolding r prod.case
      proof (rule sok_bind [OF sok_option [of e P fs]], goal_cases)
        case (1 s) then show ?case using assms w p1' m by (auto intro!: stmt_safeD)
      next
        case (3 r)
        then show ?case
          using p1 by (auto intro!: sok_bind [OF checkCondition_sok [OF x']] intro: post_trans split: prod.splits)
      qed (use p1' in simp)
    qed (use st in \<open>simp add: post_refl\<close>)
  qed (use w in simp)
qed

lemma while_safe:
  assumes "\<And>s. b = Some s \<Longrightarrow> stmt_safe s"
  shows "stmt_safe (WhileStatement loc c x b)"
  unfolding stmt_safe_def
proof (intro allI impI)
  fix P f fs st
  assume st: "state_ok P (f # fs) st" "s_method st \<noteq> None" and w: "wf_stmt (WhileStatement loc c x b)"
  have env: "env_ok st" "s_program st = P" using state_ok_env [OF st(1)] by auto
  show "sok (\<lambda>(s', st'). post P fs st st') (visitStmt (WhileStatement loc c x b) st)"
    unfolding visitStmt.simps
  proof (rule sok_bind [OF visitExpr_sok(1) [OF env(1)]], goal_cases)
    case (2 x')
    have x': "vexpr P x'" using 2 env by simp
    show ?case
    proof (rule sok_bind [OF sok_option [of b P fs]], goal_cases)
      case (1 s) then show ?case using assms w st by (auto intro!: stmt_safeD post_refl)
    next
      case (3 r)
      then show ?case by (auto intro!: sok_bind [OF checkCondition_sok [OF x']] split: prod.splits)
    qed (use st in \<open>simp add: post_refl\<close>)
  qed (use w in simp)
qed

lemma all_stmt_safe: "stmt_safe s"
proof (induction s)
  case (Block loc c ss flag) then show ?case by (simp add: block_safe)
next
  case (ExpressionStatement loc c e)
  show ?case
    unfolding stmt_safe_def
  proof (intro allI impI)
    fix P f fs st
    assume st: "state_ok P (f # fs) st" and "wf_stmt (ExpressionStatement loc c e)"
    then show "sok (\<lambda>(s', st'). post P fs st st') (visitStmt (ExpressionStatement loc c e) st)"
      using state_ok_env [OF st] by (auto intro!: sok_bind [OF visitExpr_sok(1)] post_refl)
  qed
next
  case (IfStatement loc c x t e) then show ?case by (intro if_safe) (auto split: option.splits)
next
  case (WhileStatement loc c x b) then show ?case by (intro while_safe) (auto split: option.splits)
next
  case (ReturnStatement loc c e)
  show ?case
    unfolding stmt_safe_def
    by (auto intro!: sok_bind [OF visitReturnStatement_sok] post_refl)
next
  case (VariableDeclaration loc c t n e i)
  show ?case
    unfolding stmt_safe_def
    by (auto intro!: sok_mono [OF visitVariableDeclaration_sok] simp: post_def)
qed

lemma visitStmt_sok:
  "state_ok P (f # fs) st \<Longrightarrow> s_method st \<noteq> None \<Longrightarrow> wf_stmt s
    \<Longrightarrow> sok (\<lambda>(s', st'). post P fs st st') (visitStmt s st)"
  using all_stmt_safe [of s] by (simp add: stmt_safe_def)

section \<open>Members and classes\<close>

lemma visitParameter_sok:
  assumes "state_ok P (f # fs) st" "wf_type (p_type p)"
  shows "sok (\<lambda>(p', st'). post P fs st st' \<and> tyok P (p_type p')) (visitParameter p st)"
  unfolding visitParameter_def
proof (rule sok_bind [OF visitType_sok [OF assms(2)]], goal_cases)
  case (1 t)
  have P: "s_program st = P" using assms(1) by (simp add: state_ok_def)
  have "post P fs st (sem_insert (p_name p) (Def_Parameter (p\<lparr>p_type := t\<rparr>)) st)" if "tyok P t"
    using state_ok_insert [OF assms(1), of "Def_Parameter (p\<lparr>p_type := t\<rparr>)" "p_name p"] that
    by (auto simp: post_def def_ok_def)
  with 1 P show ?case by (auto simp: Let_def intro!: sok_semaType [of P] sok_print [of P])
qed

lemma visitParameters_sok:
  assumes "post P fs st0 st" "\<forall>p \<in> set ps. wf_type (p_type p)"
  shows "sok (\<lambda>(ps', st'). post P fs st0 st' \<and> (\<forall>p \<in> set ps'. tyok P (p_type p))) (visitParameters ps st)"
  using assms
proof (induction ps arbitrary: st)
  case (Cons p ps)
  obtain f where f: "state_ok P (f # fs) st" using Cons.prems(1) by (auto simp: post_def)
  show ?case
    unfolding visitParameters.simps
  proof (rule sok_bind [OF visitParameter_sok [OF f]], goal_cases)
    case (2 r)
    then show ?case
      using Cons.prems post_trans [OF Cons.prems(1)]
      by (auto intro!: sok_bind [OF Cons.IH])
  qed (use Cons.prems in simp)
qed simp

lemma tyok_mangled: "tyok P t \<Longrightarrow> getMangledName t \<noteq> None"
proof -
  have b: "basic_getMangledName b \<noteq> None" if "basic_getSemaType b = Some s" for b s
    using that by (cases b) (auto split: prim_type.splits)
  show "tyok P t \<Longrightarrow> ?thesis"
    using b by (cases t) (fastforce simp: tyok_def bind_eq_Some_conv)+
qed

lemma createMangledName_ok:
  assumes "\<forall>p \<in> set (rm_parameters m). tyok P (p_type p)"
  shows "\<exists>m'. createMangledName c m = Some m'"
proof -
  have "those (map (\<lambda>p. getMangledName (p_type p)) ps) \<noteq> None" if "\<forall>p \<in> set ps. tyok P (p_type p)" for ps
    using that by (induction ps) (auto dest!: tyok_mangled)
  with assms show ?thesis by (auto simp: createMangledName_def mkMangledName_def)
qed

lemma visitRegularMethod_sok:
  assumes "state_ok P fs st" "wf_method m" "tyok P (rm_returnType m)"
  shows "sok (\<lambda>(m', st'). state_ok P fs st') (visitRegularMethod m st)"
proof -
  let ?st = "(sem_enterScope st)\<lparr>s_method := Some (RegularM m), s_varNr := 0, s_varDecls := []\<rparr>"
  have i: "state_ok P (Map.empty # fs) ?st"
    using state_ok_enter [OF assms(1)] assms(3) by (simp add: state_ok_def)
  have P: "s_program ?st = P" using i by (simp add: state_ok_def)
  have w: "wf_type (rm_returnType m)" "\<forall>p \<in> set (rm_parameters m). wf_type (p_type p)" "wf_stmt (rm_block m)"
    using assms(2) by (simp_all add: wf_method_def wf_params_def)
  have e: "sok (\<lambda>(m', st'). state_ok P fs st')
      (let st4 = st3\<lparr>s_method := None\<rparr>;
          m' = m\<lparr>rm_returnType := rt, rm_parameters := ps, rm_block := b, rm_varDecls := s_varDecls st2\<rparr>
      in bindE (semaType rt) (\<lambda>s.
      if isVoidArray s then
        sem_fail st4 (rm_loc m) (''Method return type cannot be of type '' @ sq ''void[]'') False
      else if \<not> isVoid s \<and> cfb b \<noteq> Return then
        sem_fail st4 (rm_loc m) ''Non-Void method must return a value on every path'' True
      else (case s_class st4 of
          None \<Rightarrow> Inl NullDeref
        | Some k \<Rightarrow>
            (case createMangledName (c_name k) m' of
               None \<Rightarrow> Inl AssertFail
             | Some m'' \<Rightarrow> Inr (m'', st4)))))"
    if "state_ok P fs st3" "tyok P rt" "\<forall>p \<in> set ps. tyok P (p_type p)" for st2 st3 :: sstate and ps rt b
  proof -
    let ?m = "m\<lparr>rm_returnType := rt, rm_parameters := ps, rm_block := b, rm_varDecls := s_varDecls st2\<rparr>"
    have "\<forall>c. \<exists>x. createMangledName c ?m = Some x"
      using createMangledName_ok [of ?m P] that(3) by simp
    then obtain g where "\<And>c. createMangledName c ?m = Some (g c)" by metis
    with that show ?thesis
      by (auto simp: Let_def state_ok_def intro!: sok_semaType [of P] split: option.splits)
  qed
  have p: "post P fs ?st ?st" by (rule post_refl [OF i])
  show ?thesis
    unfolding visitRegularMethod_def Let_def [of "?st"]
  proof (rule sok_bind [OF visitType_sok [OF w(1)]], rule sok_bind [OF visitParameters_sok [OF p w(2)]], goal_cases)
    case o: (1 rt r)
    obtain ps st1 where r: "r = (ps, st1)" by (cases r)
    with o obtain f1 where f1: "state_ok P (f1 # fs) st1" "s_method st1 \<noteq> None"
      by (auto simp: post_def same_env_def)
    show ?case
      unfolding r prod.case
    proof (rule sok_bind [OF visitStmt_sok [OF f1 w(3)]], goal_cases)
      case (1 q)
      obtain b st2 where q: "q = (b, st2)" by (cases q)
      with 1 obtain f2 where f2: "state_ok P (f2 # fs) st2" by (auto simp: post_def)
      show ?case
        unfolding q prod.case
        by (rule sok_bind [OF state_ok_leave [OF f2]], rule e)
          (use o r P in auto)
    qed
  qed
qed

lemma visitMainMethod_sok:
  assumes "state_ok P (f # fs) st" "wf_main m"
  shows "sok (\<lambda>(m', st'). \<exists>f'. state_ok P (f' # fs) st') (visitMainMethod m st)"
proof -
  let ?s0 = "st\<lparr>s_method := Some (MainM m), s_varNr := 0, s_varDecls := []\<rparr>"
  have "tyok P (BasicType (PrimitiveType no_loc PT_Void))" by (simp add: tyok_def)
  then have "state_ok P (f # fs) ?s0" using assms(1) by (simp add: state_ok_def)
  then have i: "state_ok P (f(mm_argName m \<mapsto> Def_MainArg) # fs) (sem_insert (mm_argName m) Def_MainArg ?s0)"
    by (rule state_ok_insert) (simp add: def_ok_def)
  have m: "s_method (sem_insert (mm_argName m) Def_MainArg ?s0) \<noteq> None" by (simp add: sem_insert_def)
  have w: "wf_stmt (mm_block m)" using assms(2) by (simp add: wf_main_def)
  show ?thesis
    unfolding visitMainMethod_def Let_def
    by (rule sok_bind [OF visitStmt_sok [OF i m w]]) (auto simp: post_def state_ok_def)
qed

lemma visitField_sok:
  assumes "s_program st = P" "wf_field f"
  shows "sok (\<lambda>_. True) (visitField f st)"
proof -
  have w: "wf_type (f_type f)" using assms(2) by (simp add: wf_field_def)
  show ?thesis
    unfolding visitField_def
    by (rule sok_bind [OF visitType_sok [OF w]])
      (use assms(1) in \<open>auto intro!: sok_semaType [of P] sok_print [of P]\<close>)
qed

lemma mapM_sok:
  assumes "\<And>x st. x \<in> set xs \<Longrightarrow> I st \<Longrightarrow> sok (\<lambda>(x', st'). I st') (f x st)" "I st"
  shows "sok (\<lambda>(xs', st'). I st') (mapM_st f xs st)"
  using assms
proof (induction xs arbitrary: st)
  case (Cons x xs)
  show ?case
    unfolding mapM_st.simps
  proof (rule sok_bind [OF Cons.prems(1)], goal_cases)
    case (3 r)
    then show ?case using Cons.prems(1) by (auto intro!: sok_bind [OF Cons.IH])
  qed (use Cons.prems in auto)
qed simp

lemma checkForDuplicates_sok: "sok (\<lambda>ys. ys = sort_key nm xs) (checkForDuplicates st nm loc w xs)"
  by (auto simp: checkForDuplicates_def Let_def split: option.split)

lemma fields_inserted:
  assumes "state_ok P (f # fs) st" "\<forall>x \<in> set xs. tyok P (f_type x)"
  shows "\<exists>f'. state_ok P (f' # fs) (fold (\<lambda>x. sem_insert (f_name x) (Def_Field x)) xs st)"
  using assms
proof (induction xs arbitrary: f st)
  case (Cons x xs)
  have "state_ok P (f(f_name x \<mapsto> Def_Field x) # fs) (sem_insert (f_name x) (Def_Field x) st)"
    using Cons.prems by (intro state_ok_insert) (auto simp: def_ok_def)
  from Cons.IH [OF this] Cons.prems(2) show ?case by simp
qed auto

lemma visitFieldList_sok:
  assumes "state_ok P (f # fs) st" "\<forall>x \<in> set xs. tyok P (f_type x) \<and> wf_field x"
  shows "sok (\<lambda>(xs', st'). \<exists>f'. state_ok P (f' # fs) st') (visitFieldList xs st)"
  unfolding visitFieldList_def
proof (rule sok_bind [OF checkForDuplicates_sok], goal_cases)
  case (1 ys)
  have i: "\<exists>f'. state_ok P (f' # fs) (fold (\<lambda>f. sem_insert (f_name f) (Def_Field f)) ys st)"
    using fields_inserted [OF assms(1), of ys] assms(2) 1 by simp
  show ?case
    unfolding Let_def
  proof (rule mapM_sok [where I = "\<lambda>st. \<exists>f'. state_ok P (f' # fs) st"], goal_cases)
    case (1 x s)
    then show ?case
      using assms(2) \<open>ys = sort_key f_name xs\<close>
      by (auto intro!: sok_bind [OF visitField_sok [OF refl]])
  qed (rule i)
qed

lemma visitMethodList_sok:
  assumes "state_ok P fs st" "\<forall>x \<in> set xs. tyok P (rm_returnType x) \<and> wf_method x"
  shows "sok (\<lambda>(xs', st'). state_ok P fs st') (visitMethodList xs st)"
  unfolding visitMethodList_def
proof (rule sok_bind [OF checkForDuplicates_sok], goal_cases)
  case (1 ys)
  show ?case
    by (rule mapM_sok) (use assms 1 in \<open>auto intro!: visitRegularMethod_sok\<close>)
qed

lemma visitMainMethodList_sok:
  assumes "\<exists>f. state_ok P (f # fs) st" "\<forall>x \<in> set xs. wf_main x"
  shows "sok (\<lambda>(xs', st'). \<exists>f. state_ok P (f # fs) st') (visitMainMethodList xs st)"
proof -
  have "sok (\<lambda>(xs', st'). \<exists>f. state_ok P (f # fs) st') (mapM_st visitMainMethod (sort_key mm_name xs) st)"
    by (rule mapM_sok) (use assms in \<open>auto intro: visitMainMethod_sok\<close>)
  then show ?thesis by (simp add: visitMainMethodList_def)
qed

text \<open>Between classes there is no current class; the invariant without it.\<close>

definition prog_ok :: "program \<Rightarrow> sstate \<Rightarrow> bool" where
  "prog_ok P st \<longleftrightarrow> s_program st = P \<and> program_ok P \<and> st_rep (s_symTbl st) [] \<and> (\<forall>xs. s_alloc st xs \<notin> set xs)
     \<and> (\<forall>m. s_method st = Some m \<longrightarrow> tyok P (method_returnType m))"

lemma visitClass_sok:
  assumes "prog_ok P st" "k \<in> set (pr_classes P)" "declared P (c_name k)" "wf_class k"
  shows "sok (\<lambda>(k', st'). prog_ok P st') (visitClass k st)"
proof -
  have k: "\<forall>x \<in> set (c_fields k). tyok P (f_type x) \<and> wf_field x"
    "\<forall>x \<in> set (c_methods k). tyok P (rm_returnType x) \<and> wf_method x" "\<forall>x \<in> set (c_mainMethods k). wf_main x"
    using assms by (auto simp: prog_ok_def program_ok_def wf_class_def)
  have "state_ok P [] (st\<lparr>s_class := Some k\<rparr>)"
    using assms(1,3) by (simp add: prog_ok_def state_ok_def)
  then have i: "state_ok P [Map.empty] (sem_enterScope (st\<lparr>s_class := Some k\<rparr>))"
    by (rule state_ok_enter)
  show ?thesis
    unfolding visitClass_def
  proof (rule sok_bind [OF visitFieldList_sok [OF i k(1)]], clarify)
    fix xs st1 f1
    assume f1: "state_ok P [f1] st1"
    show "sok (\<lambda>(k', st'). prog_ok P st')
     (bindE (visitMethodList (c_methods k) st1) (\<lambda>(ms, st2).
     bindE (visitMainMethodList (c_mainMethods k) st2) (\<lambda>(mms, st3).
     bindE (sem_leaveScope st3) (\<lambda>st4.
     let k' = k\<lparr>c_fields := xs, c_methods := ms, c_mainMethods := mms\<rparr> in
     case (if mms = [] then None else findMethodInClass k' (mm_name (hd mms))) of
       Some m \<Rightarrow> sem_fail st4 (rm_loc m) ''may not overload main method'' False
     | None \<Rightarrow> Inr (k', st4)))))"
    proof (rule sok_bind [OF visitMethodList_sok [OF f1 k(2)]], clarify,
        rule sok_bind [OF visitMainMethodList_sok [OF _ k(3)]], blast, clarify, rule sok_bind [OF state_ok_leave],
        assumption, goal_cases)
      case (1 ms st2 mms st3 f st4)
      then have "prog_ok P st4" by (simp add: state_ok_def prog_ok_def)
      then show ?case by (auto simp: Let_def split: option.split)
    qed
  qed
qed

end
