(* ===== verification/Semantic_Accept.thy ===== *)
theory Semantic_Accept
  imports Semantic_Safety
begin

text \<open>
  What the analysis guarantees of the programs it accepts: the shape of visited members and
  classes, unique names, the number of main methods and the mangled names.
\<close>

section \<open>Frame\<close>

lemma sem_leaveScope_env: "sem_leaveScope st = Inr st' \<Longrightarrow> same_env st st'"
  by (auto simp: sem_leaveScope_def same_env_def split: option.splits)

lemma declare_var_env: "declare_var st loc t n = Inr (i, st') \<Longrightarrow> same_env st st'"
  by (auto dest!: declare_var_Inr simp: same_env_def sem_insert_def)

lemma visitOpt_env:
  assumes "(case t of None \<Rightarrow> Inr (None, st)
      | Some s \<Rightarrow> bindE (visitStmt s st) (\<lambda>(s', st1). Inr (Some s', st1))) = Inr (t', st')"
    and "\<And>s s' st'. t = Some s \<Longrightarrow> visitStmt s st = Inr (s', st') \<Longrightarrow> same_env st st'"
  shows "same_env st st'"
  using assms by (auto simp: bindE_eq_Inr split: option.splits)

lemma visitStmt_env:
  "visitStmt s st = Inr (s', st') \<Longrightarrow> same_env st st'"
  "visitStmts ss st = Inr (ss', st') \<Longrightarrow> same_env st st'"
proof (induction s st and ss st arbitrary: s' st' and ss' st' rule: visitStmt_visitStmts.induct)
  case (1 loc c ss flag st)
  from "1.prems" obtain ss' st1 where "visitStmts ss (sem_enterScope st) = Inr (ss', st1)"
    and l: "sem_leaveScope st1 = Inr st'"
    by (auto simp: bindE_eq_Inr case_prod_beta Let_def)
  note same_env_simps(1)
  also have "same_env (sem_enterScope st) st1" by (rule "1.IH") fact
  also have "same_env st1 st'" by (rule sem_leaveScope_env [OF l])
  finally show ?case .
next
  case (3 loc c e t f st)
  from "3.prems" obtain e' t' st1 f' where
    e: "visitExpr st e = Inr e'"
    and t: "(case t of None \<Rightarrow> Inr (None, st)
      | Some s \<Rightarrow> bindE (visitStmt s st) (\<lambda>(s', st1). Inr (Some s', st1))) = Inr (t', st1)"
    and f: "(case f of None \<Rightarrow> Inr (None, st1)
      | Some s \<Rightarrow> bindE (visitStmt s st1) (\<lambda>(s', st2). Inr (Some s', st2))) = Inr (f', st')"
    by (auto simp: bindE_eq_Inr)
  have "same_env st st1" by (rule visitOpt_env [OF t]) (rule "3.IH"(1) [OF e])
  also have "same_env st1 st'" by (rule visitOpt_env [OF f]) (rule "3.IH"(2) [OF e t refl])
  finally show ?case .
next
  case (4 loc c e b st)
  from "4.prems" obtain e' b' where
    e: "visitExpr st e = Inr e'"
    and b: "(case b of None \<Rightarrow> Inr (None, st)
      | Some s \<Rightarrow> bindE (visitStmt s st) (\<lambda>(s', st1). Inr (Some s', st1))) = Inr (b', st')"
    by (auto simp: bindE_eq_Inr)
  show ?case by (rule visitOpt_env [OF b]) (rule "4.IH" [OF e])
next
  case (6 loc c t n e i st)
  then show ?case by (auto dest!: visitVariableDeclaration_Inr declare_var_env)
next
  case (8 s ss st)
  from "8.prems" obtain s' st1 ss'' where v: "visitStmt s st = Inr (s', st1)" "visitStmts ss st1 = Inr (ss'', st')"
    by (auto simp: bindE_eq_Inr)
  show ?case by (rule same_env_trans [OF "8.IH"(1) [OF v(1)] "8.IH"(2) [OF v(1) refl v(2)]])
qed (auto simp: bindE_eq_Inr)

section \<open>Members\<close>

lemma visitParameter_Inr:
  "visitParameter p st = Inr (p', st') \<Longrightarrow> \<exists>t. visitType st (p_type p) = Inr t \<and> p' = p\<lparr>p_type := t\<rparr>
    \<and> st' = sem_insert (p_name p) (Def_Parameter p') st \<and> \<not> isDefinedInCurrentScope (p_name p) (s_symTbl st)"
  by (auto simp: visitParameter_def bindE_eq_Inr Let_def split: if_splits)

lemma visitParameters_Inr:
  "visitParameters ps st = Inr (ps', st') \<Longrightarrow> same_env st st'
    \<and> list_all2 (\<lambda>p p'. p_name p' = p_name p \<and> getMangledName (p_type p') = getMangledName (p_type p)
        \<and> getSemaType (p_type p') = getSemaType (p_type p)) ps ps'"
proof (induction ps arbitrary: st ps')
  case (Cons p ps)
  from Cons.prems obtain p' st1 ps'' where v: "visitParameter p st = Inr (p', st1)"
    "visitParameters ps st1 = Inr (ps'', st')" "ps' = p' # ps''"
    by (auto simp: bindE_eq_Inr)
  obtain t where t: "visitType st (p_type p) = Inr t" "p' = p\<lparr>p_type := t\<rparr>" "same_env st st1"
    using visitParameter_Inr [OF v(1)] by auto
  show ?case
    using Cons.IH [OF v(2)] v(3) t(2) visitType_mangled [OF t(1)] visitType_sema [OF t(1)] same_env_trans [OF t(3)]
    by auto
qed simp

lemma mkMangledName_cong:
  assumes "list_all2 (\<lambda>p p'. getMangledName (p_type p') = getMangledName (p_type p)) ps ps'"
  shows "mkMangledName c n ps' = mkMangledName c n ps"
proof -
  have "map (\<lambda>p. getMangledName (p_type p)) ps' = map (\<lambda>p. getMangledName (p_type p)) ps"
    using assms by (induction rule: list_all2_induct) auto
  moreover have "ps' = [] \<longleftrightarrow> ps = []" using assms by (cases ps; cases ps') auto
  ultimately show ?thesis by (simp add: mkMangledName_def)
qed

text \<open>A visited method keeps its name and gets the mangled name of its source signature.\<close>

lemma visitRegularMethod_Inr:
  assumes "visitRegularMethod m st = Inr (m', st')"
  shows "rm_name m' = rm_name m \<and> s_class st' = s_class st \<and> s_program st' = s_program st
    \<and> s_mainCount st' = s_mainCount st
    \<and> (\<exists>k. s_class st = Some k \<and> mkMangledName (c_name k) (rm_name m) (rm_parameters m) = Some (rm_mangledName m'))"
proof -
  let ?st = "(sem_enterScope st)\<lparr>s_method := Some (RegularM m), s_varNr := 0, s_varDecls := []\<rparr>"
  from assms obtain rt ps st1 b st2 st3 k where
    ps: "visitParameters (rm_parameters m) ?st = Inr (ps, st1)"
    and b: "visitStmt (rm_block m) st1 = Inr (b, st2)"
    and l: "sem_leaveScope st2 = Inr st3"
    and k: "s_class st3 = Some k"
    and m: "createMangledName (c_name k)
        (m\<lparr>rm_returnType := rt, rm_parameters := ps, rm_block := b, rm_varDecls := s_varDecls st2\<rparr>) = Some m'"
    and st': "st' = st3\<lparr>s_method := None\<rparr>"
    by (auto simp: visitRegularMethod_def Let_def bindE_eq_Inr split: if_splits option.splits)
  note p = visitParameters_Inr [OF ps]
  have e: "same_env ?st st3"
    using p visitStmt_env(1) [OF b] sem_leaveScope_env [OF l] by (blast intro: same_env_trans)
  have "mkMangledName (c_name k) (rm_name m) ps = mkMangledName (c_name k) (rm_name m) (rm_parameters m)"
    by (rule mkMangledName_cong) (use p in \<open>auto elim: list_all2_mono\<close>)
  with m e k st' show ?thesis
    by (intro conjI exI [of _ k]) (auto simp: createMangledName_def same_env_def sem_enterScope_def)
qed

lemma visitMainMethod_Inr:
  assumes "visitMainMethod m st = Inr (m', st')"
  shows "mm_name m' = mm_name m \<and> s_class st' = s_class st \<and> s_program st' = s_program st
    \<and> s_mainCount st' = s_mainCount st + (if mm_name m = ''main'' then 1 else 0)"
proof -
  from assms obtain b st1 where
    v: "visitStmt (mm_block m) (sem_insert (mm_argName m) Def_MainArg
          (st\<lparr>s_method := Some (MainM m), s_varNr := 0, s_varDecls := []\<rparr>)) = Inr (b, st1)"
    and m': "m' = m\<lparr>mm_block := b, mm_varDecls := s_varDecls st1\<rparr>"
      "st' = st1\<lparr>s_method := None,
               s_mainCount := (if mm_name m = ''main'' then s_mainCount st1 + 1 else s_mainCount st1)\<rparr>"
    unfolding visitMainMethod_def Let_def bindE_eq_Inr by (auto simp del: if_split)
  show ?thesis using visitStmt_env(1) [OF v] by (simp add: m' same_env_def sem_insert_def)
qed

lemma visitField_Inr: "visitField f st = Inr f' \<Longrightarrow> f_name f' = f_name f"
  by (auto simp: visitField_def bindE_eq_Inr split: if_splits)

lemma mapM_Inr:
  assumes "mapM_st f xs st = Inr (ys, st')"
    and "\<And>x y s s'. I s \<Longrightarrow> f x s = Inr (y, s') \<Longrightarrow> x \<in> set xs \<Longrightarrow> I s' \<and> R x y" and "I st"
  shows "I st' \<and> list_all2 R xs ys"
  using assms
proof (induction xs arbitrary: st ys)
  case (Cons x xs)
  from Cons.prems(1) obtain y st1 ys' where x: "f x st = Inr (y, st1)" "mapM_st f xs st1 = Inr (ys', st')"
    "ys = y # ys'" by (auto simp: bindE_eq_Inr)
  have "I st1 \<and> R x y" by (rule Cons.prems(2) [OF Cons.prems(3) x(1)]) simp
  moreover from this have "I st' \<and> list_all2 R xs ys'"
    by (intro Cons.IH [OF x(2) Cons.prems(2)]) auto
  ultimately show ?case using x(3) by simp
qed simp

section \<open>Duplicates\<close>

lemma adjacent_dup_distinct: "sorted (map f xs) \<Longrightarrow> adjacent_dup f xs = None \<Longrightarrow> distinct (map f xs)"
  for f :: "'a \<Rightarrow> string"
proof (induction f xs rule: adjacent_dup.induct)
  case (1 f x y xs)
  then have n: "f x \<noteq> f y" "distinct (map f (y # xs))" by (auto split: if_splits)
  have "f x \<le> f y" "\<forall>z \<in> set (map f (y # xs)). f y \<le> z" using 1(2) by auto
  then have "\<forall>z \<in> set (map f (y # xs)). f x < z" using n(1) by auto
  then have "f x \<notin> set (map f (y # xs))" by blast
  then show ?case using n(2) by simp
qed auto

lemma distinct_sort_key: "distinct (map f (sort_key f xs)) = distinct (map f xs)"
  by (simp add: distinct_map)

lemma checkForDuplicates_Inr:
  "checkForDuplicates st nm loc w xs = Inr ys \<Longrightarrow> ys = sort_key nm xs \<and> distinct (map nm xs)"
  using adjacent_dup_distinct [of nm "sort_key nm xs"]
  by (auto simp: checkForDuplicates_def Let_def distinct_sort_key split: option.splits)

lemma sort_key_sorted: "sorted (map f xs) \<Longrightarrow> sort_key f xs = xs"
  by (rule sort_key_id_if_sorted)

section \<open>Classes\<close>

lemma mapM_count:
  assumes "mapM_st f xs st = Inr (ys, st')"
    and "\<And>x y s s'. f x s = Inr (y, s') \<Longrightarrow> s_mainCount s' = s_mainCount s + int (g x)"
  shows "s_mainCount st' = s_mainCount st + int (sum_list (map g xs))"
  using assms(1)
proof (induction xs arbitrary: st ys)
  case (Cons x xs)
  then show ?case by (fastforce simp: bindE_eq_Inr dest: assms(2))
qed simp

definition mains :: "main_method list \<Rightarrow> nat" where
  "mains ms = sum_list (map (\<lambda>m. if mm_name m = ''main'' then 1 else 0) ms)"

lemma visitFieldList_Inr:
  assumes "visitFieldList fs st = Inr (fs', st')"
  shows "distinct (map f_name fs) \<and> s_class st' = s_class st \<and> s_program st' = s_program st
    \<and> s_mainCount st' = s_mainCount st"
proof -
  let ?st = "fold (\<lambda>f. sem_insert (f_name f) (Def_Field f)) (sort_key f_name fs) st"
  have "same_env st (fold (\<lambda>f. sem_insert (f_name f) (Def_Field f)) xs st)" for xs
    by (induction xs arbitrary: st) (auto intro: same_env_trans [OF same_env_simps(2)])
  then have e: "same_env st ?st" .
  from assms have v: "mapM_st (\<lambda>f s. bindE (visitField f s) (\<lambda>f'. Inr (f', s))) (sort_key f_name (sort_key f_name fs)) ?st
      = Inr (fs', st')" and d: "distinct (map f_name fs)"
    by (auto simp: visitFieldList_def bindE_eq_Inr Let_def dest!: checkForDuplicates_Inr)
  have "st' = ?st \<and> list_all2 (\<lambda>_ _. True) (sort_key f_name (sort_key f_name fs)) fs'"
    by (rule mapM_Inr [OF v, where I = "\<lambda>s. s = ?st"]) (auto simp: bindE_eq_Inr)
  with e d show ?thesis by (simp add: same_env_def)
qed

text \<open>A method and its visited form.\<close>

definition visited_method :: "string \<Rightarrow> regular_method \<Rightarrow> regular_method \<Rightarrow> bool" where
  "visited_method c m m' \<longleftrightarrow> rm_name m' = rm_name m
     \<and> mkMangledName c (rm_name m) (rm_parameters m) = Some (rm_mangledName m')"

lemma visitMethodList_Inr:
  assumes "visitMethodList ms st = Inr (ms', st')" "s_class st = Some k"
  shows "distinct (map rm_name ms) \<and> s_class st' = s_class st \<and> s_program st' = s_program st
    \<and> s_mainCount st' = s_mainCount st \<and> list_all2 (visited_method (c_name k)) (sort_key rm_name ms) ms'"
proof -
  from assms(1) have v: "mapM_st visitRegularMethod (sort_key rm_name (sort_key rm_name ms)) st = Inr (ms', st')"
    and d: "distinct (map rm_name ms)"
    by (auto simp: visitMethodList_def bindE_eq_Inr dest!: checkForDuplicates_Inr)
  have "(s_class st' = Some k \<and> s_program st' = s_program st \<and> s_mainCount st' = s_mainCount st)
      \<and> list_all2 (visited_method (c_name k)) (sort_key rm_name (sort_key rm_name ms)) ms'"
    by (rule mapM_Inr [OF v, where I = "\<lambda>s. s_class s = Some k \<and> s_program s = s_program st
          \<and> s_mainCount s = s_mainCount st"])
      (auto simp: assms(2) visited_method_def dest!: visitRegularMethod_Inr)
  with d assms(2) show ?thesis by (simp add: sort_key_id_if_sorted)
qed

lemma visitMainMethodList_Inr:
  assumes "visitMainMethodList ms st = Inr (ms', st')"
  shows "length ms \<le> 1 \<and> s_class st' = s_class st \<and> s_program st' = s_program st
    \<and> s_mainCount st' = s_mainCount st + int (mains ms) \<and> map mm_name ms' = map mm_name ms"
proof -
  from assms have l: "length ms \<le> 1" and v: "mapM_st visitMainMethod (sort_key mm_name ms) st = Inr (ms', st')"
    by (auto simp: visitMainMethodList_def split: if_splits)
  have s: "sort_key mm_name ms = ms"
    using l by (cases ms rule: remdups_adj.cases) auto
  show ?thesis
    using v l unfolding s
    by (cases ms rule: remdups_adj.cases) (auto simp: bindE_eq_Inr mains_def dest!: visitMainMethod_Inr)
qed

definition visited_class :: "klass \<Rightarrow> klass \<Rightarrow> bool" where
  "visited_class k k' \<longleftrightarrow> c_name k' = c_name k
     \<and> distinct (map f_name (c_fields k)) \<and> distinct (map rm_name (c_methods k))
     \<and> length (c_mainMethods k) \<le> 1
     \<and> (\<forall>m \<in> set (c_mainMethods k). mm_name m \<notin> rm_name ` set (c_methods k))
     \<and> list_all2 (visited_method (c_name k)) (sort_key rm_name (c_methods k)) (c_methods k')"

lemma visited_names: "list_all2 (visited_method c) ms ms' \<Longrightarrow> map rm_name ms' = map rm_name ms"
  by (induction rule: list_all2_induct) (auto simp: visited_method_def)

lemma visitClass_Inr:
  assumes "visitClass k st = Inr (k', st')"
  shows "visited_class k k' \<and> s_program st' = s_program st
    \<and> s_mainCount st' = s_mainCount st + int (mains (c_mainMethods k))"
proof -
  let ?st = "sem_enterScope (st\<lparr>s_class := Some k\<rparr>)"
  from assms obtain fs st1 ms st2 mms st3 where
    f: "visitFieldList (c_fields k) ?st = Inr (fs, st1)"
    and m: "visitMethodList (c_methods k) st1 = Inr (ms, st2)"
    and mm: "visitMainMethodList (c_mainMethods k) st2 = Inr (mms, st3)"
    and l: "sem_leaveScope st3 = Inr st'"
    and o: "(if mms = [] then None else findMethodInClass k' (mm_name (hd mms))) = None"
    and k': "k' = k\<lparr>c_fields := fs, c_methods := ms, c_mainMethods := mms\<rparr>"
    by (auto simp: visitClass_def Let_def bindE_eq_Inr split: option.splits)
  note F = visitFieldList_Inr [OF f]
  have c1: "s_class st1 = Some k" using F by (simp add: sem_enterScope_def)
  note M = visitMethodList_Inr [OF m c1]
  note MM = visitMainMethodList_Inr [OF mm]
  have names: "map rm_name ms = map rm_name (sort_key rm_name (c_methods k))"
    using M visited_names by blast
  have "mm_name x \<notin> rm_name ` set (c_methods k)" if "x \<in> set (c_mainMethods k)" for x
  proof -
    from that MM have "c_mainMethods k = [x]" by (cases "c_mainMethods k" rule: remdups_adj.cases) auto
    with MM obtain y where y: "mms = [y]" "mm_name y = mm_name x" by (cases mms) auto
    have "find_by_name rm_name ms (mm_name x) = None"
      using o y k' by (simp add: findMethodInClass_def)
    then have "\<forall>m \<in> set ms. rm_name m \<noteq> mm_name x"
      using find_by_name_sorted [of rm_name ms "mm_name x"] names by (simp add: find_None_iff)
    then have "mm_name x \<notin> set (map rm_name ms)" by auto
    then show ?thesis unfolding names by simp
  qed
  with F M MM sem_leaveScope_env [OF l] show ?thesis
    by (simp add: visited_class_def k' same_env_def sem_enterScope_def)
qed

section \<open>The program\<close>

definition all_mains :: "program \<Rightarrow> main_method list" where
  "all_mains p = concat (map c_mainMethods (pr_classes p))"

lemma sort_classes: "sort_key c_name (map sortMembers (sort_key c_name ks)) = map sortMembers (sort_key c_name ks)"
proof -
  have "map c_name (map sortMembers (sort_key c_name ks)) = map c_name (sort_key c_name ks)"
    by (simp add: sortMembers_def)
  then have "sorted (map c_name (map sortMembers (sort_key c_name ks)))" by (simp only: sorted_sort_key)
  then show ?thesis by (rule sort_key_id_if_sorted)
qed

lemma visitProgram_Inr:
  assumes "visitProgram alloc l p = Inr (p', st)"
  shows "distinct (map c_name (pr_classes p))
    \<and> list_all2 visited_class (map sortMembers (sort_key c_name (pr_classes p))) (pr_classes p')
    \<and> sum_list (map (\<lambda>k. mains (c_mainMethods k)) (sort_key c_name (pr_classes p))) = 1"
proof -
  let ?p1 = "p\<lparr>pr_classes := map sortMembers (sort_key c_name (pr_classes p))\<rparr>"
  let ?p2 = "?p1\<lparr>pr_classes := sort_key c_name (pr_classes ?p1)\<rparr>"
  let ?st = "(newSemanticVisitor alloc l p)\<lparr>s_program := ?p2\<rparr>"
  from assms have d: "distinct (map c_name (pr_classes p))"
    by (auto simp: visitProgram_def Let_def bindE_eq_Inr dest: checkForDuplicates_Inr)
  from assms obtain ks where v: "mapM_st visitClass (pr_classes ?p2) ?st = Inr (ks, st)"
    and c: "s_mainCount st \<noteq> 0" "\<not> 1 < s_mainCount st" and p': "pr_classes p' = ks"
    by (auto simp: visitProgram_def Let_def bindE_eq_Inr split: if_splits dest!: checkForDuplicates_Inr)
  have "True \<and> list_all2 visited_class (pr_classes ?p2) ks"
    by (rule mapM_Inr [OF v, where I = "\<lambda>_. True"]) (auto dest!: visitClass_Inr)
  moreover have "s_mainCount st = s_mainCount ?st + int (sum_list (map (\<lambda>k. mains (c_mainMethods k)) (pr_classes ?p2)))"
    by (rule mapM_count [OF v]) (auto dest!: visitClass_Inr)
  moreover have "(\<lambda>k. mains (c_mainMethods k)) \<circ> sortMembers = (\<lambda>k. mains (c_mainMethods k))"
    by (simp add: fun_eq_iff sortMembers_def)
  ultimately show ?thesis
    using d c p' by (simp add: sort_classes newSemanticVisitor_def del: sum_list_eq_0_iff)
qed

end
