(* ===== verification/Lexer_Claims.thy ===== *)
theory Lexer_Claims
  imports Lexer_Queue
begin

text \<open>
  The properties of the lexer: memory safety, maximal munch, the reasons of lexical errors,
  source positions, end of file, lookahead and the round trip from lexemes to text and back.
\<close>

section \<open>Auxiliary facts\<close>

definition lexer_of :: "string \<Rightarrow> lexer" where
  "lexer_of s = projr (newLexer (\<lambda>_. 0) LS_normal ''in'' s)"

lemma lexer_of_ok:
  "newLexer (\<lambda>_. 0) LS_normal ''in'' s = Inr (lexer_of s)" "lex_ok (lexer_of s)"
  "rest (lexer_of s) = s" "input (lexer_of s) = s" "tokenLookahead (lexer_of s) = []"
proof -
  obtain st where st: "newLexer (\<lambda>_. 0) LS_normal ''in'' s = Inr st" "lex_ok st" "rest st = s"
    "input st = s" "tokenLookahead st = []" "filename st = ''in''"
    by (rule newLexer_ok)
  then have "lexer_of s = st" by (simp add: lexer_of_def)
  with st show "newLexer (\<lambda>_. 0) LS_normal ''in'' s = Inr (lexer_of s)" "lex_ok (lexer_of s)"
    "rest (lexer_of s) = s" "input (lexer_of s) = s" "tokenLookahead (lexer_of s) = []"
    by simp_all
qed

lemma tokenN_error: "lex_ok s \<Longrightarrow> tokenN n s = Inl e \<Longrightarrow> is_LexError e"
proof (induction n arbitrary: s)
  case 0
  then show ?case using lexq.nxt_error [of s e] by (cases "nextToken s") auto
next
  case (Suc n)
  then show ?case
    using lexq.nxt_error [of s] lexq.nxt_good [of s] by (cases "nextToken s") auto
qed

lemma readNextToken_Eof:
  assumes "lex_ok st" "rest st = []"
  shows "\<exists>t st'. readNextToken st = Inr (t, st') \<and> tok_type t = TT_Eof \<and> lex_ok st' \<and> rest st' = []"
proof (cases "readNextToken st")
  case (Inl e)
  with readNextToken_spec [OF assms(1)] assms(2) show ?thesis by (auto simp: token_result_def)
next
  case (Inr p)
  then show ?thesis
    using readNextToken_spec [OF assms(1)] assms(2) lexeme_nonempty
    by (cases p) (auto simp: token_result_def split: if_splits)
qed

lemma tokenN_Eof:
  assumes "lex_ok st" "rest st = []" "tokenLookahead st = []"
  shows "\<exists>t. tokenN k st = Inr t \<and> tok_type t = TT_Eof"
  using assms
proof (induction k arbitrary: st)
  case 0
  then show ?case using readNextToken_Eof [of st] by (auto simp: nextToken_def)
next
  case (Suc k)
  obtain t st' where t: "readNextToken st = Inr (t, st')" "lex_ok st'" "rest st' = []"
    using readNextToken_Eof [OF Suc.prems(1,2)] by blast
  with Suc.IH [of st'] readNextToken_queue [OF t(1)] Suc.prems(3)
  show ?case by (simp add: nextToken_def)
qed

lemma tokenN_add:
  assumes "lex_ok st" "tokenLookahead st = []" "tokenN n st = Inr t" "tok_type t = TT_Eof"
  shows "\<exists>t'. tokenN (n + k) st = Inr t' \<and> tok_type t' = TT_Eof"
  using assms
proof (induction n arbitrary: st)
  case 0
  then obtain st' where "readNextToken st = Inr (t, st')"
    by (cases "readNextToken st") (auto simp: nextToken_def)
  moreover from this have "rest st' = []" "lex_ok st'" "tokenLookahead st' = []"
    using readNextToken_spec [OF 0(1)] 0 readNextToken_queue [of st t st']
    by (auto simp: token_result_def)
  ultimately show ?case
    using tokenN_Eof [of st'] 0 by (cases k) (auto simp: nextToken_def)
next
  case (Suc n)
  from Suc.prems obtain t1 st1 where n1: "readNextToken st = Inr (t1, st1)"
    and "tokenN n st1 = Inr t"
    by (auto simp: nextToken_def bindE_eq_Inr)
  with Suc.IH [of st1] readNextToken_queue [OF n1] readNextToken_left(1) [OF Suc.prems(1) n1]
    Suc.prems show ?case by (simp add: nextToken_def)
qed

text \<open>Facts on lexemes for the round trip.\<close>

lemma lexeme_chars: "lexeme s = Some t \<Longrightarrow> c \<in> set s \<Longrightarrow> \<not> isSpace (schar c)"
proof -
  assume l: "lexeme s = Some t" and c: "c \<in> set s"
  have sp: "\<not> alnum d" if "isSpace (schar d)" for d
    using that by (auto simp: isAlphaNumOrUnderscore_def isSpace_def)
  have ops: "\<forall>p \<in> set (map fst op_table). \<forall>d \<in> set p. \<not> isSpace (schar d)"
    by (simp add: op_eval)
  consider "is_ident s" | "is_intlit s" | "s \<in> set (map fst op_table)"
    using l by (force simp: lexeme_def dest!: map_of_SomeD split: if_splits)
  then show ?thesis
  proof cases
    case 1
    then have "alnum c" using c alpha_alnum by (auto simp: is_ident_def split: list.splits)
    with sp show ?thesis by blast
  next
    case 2
    then have "digit c" using c
      by (auto simp: is_intlit_def isDigit_def schar_def split: list.splits)
    with sp alpha_alnum show ?thesis by blast
  next
    case 3
    with ops c show ?thesis by blast
  qed
qed

lemma lexeme_hd_legal:
  assumes "lexeme (c # s) = Some t"
  shows "\<not> illegal_char c"
proof (cases "alnum c")
  case True
  then show ?thesis by (simp add: illegal_char_def)
next
  case False
  then have "op_char c" by (simp add: op_char_def)
  with assms have "map_of op_table (c # s) = Some t" by (simp add: lexeme_op_char)
  then have "c # s \<in> set (map fst op_table)" by (force dest: map_of_SomeD)
  moreover have "\<forall>p \<in> set (map fst op_table). map_of op_table [hd p] \<noteq> None"
    by (simp add: op_eval)
  ultimately have "map_of op_table [hd (c # s)] \<noteq> None" by blast
  then show ?thesis by (simp add: illegal_char_def)
qed

lemma lexeme_no_comment: "lexeme s = Some t \<Longrightarrow> \<not> prefix ''/*'' (s @ CHR '' '' # r)"
proof
  assume l: "lexeme s = Some t" and p: "prefix ''/*'' (s @ CHR '' '' # r)"
  then obtain s' where s: "s = CHR ''/'' # s'" using lexeme_nonempty [OF l] by (cases s) auto
  with l have "map_of op_table (CHR ''/'' # s') = Some t" by (simp add: lexeme_op_char)
  then have "CHR ''/'' # s' \<in> set (map fst op_table)" by (force dest: map_of_SomeD)
  moreover have "\<forall>p \<in> set (map fst op_table). hd p = CHR ''/'' \<longrightarrow> tl p = [] \<or> tl p = ''=''"
    by (simp add: op_eval)
  ultimately have "s' = [] \<or> s' = ''=''" by force
  with p s show False by auto
qed

text \<open>White space before a lexeme is exactly the blank prefix.\<close>

lemma blank_before_lexeme:
  assumes "blank w" "spc @ s @ CHR '' '' # r = w @ v" "lexeme s = Some t"
    and "\<forall>c \<in> set spc. c = CHR '' ''"
    and "v = [] \<or> \<not> isSpace (schar (hd v))"
  shows "w = spc"
  using assms(1,2,4)
proof (induction w arbitrary: spc rule: blank.induct)
  case blank_Nil
  show ?case
  proof (cases spc)
    case (Cons c cs)
    with blank_Nil.prems have "v = c # cs @ s @ CHR '' '' # r" "c = CHR '' ''" by simp_all
    with assms(5) show ?thesis by (simp add: isSpace_def schar_def)
  qed simp
next
  case (blank_space c w)
  show ?case
  proof (cases spc)
    case Nil
    then have "c \<in> set s"
      using blank_space.prems lexeme_nonempty [OF assms(3)] by (cases s) auto
    with lexeme_chars [OF assms(3)] blank_space.hyps(1) show ?thesis by blast
  next
    case (Cons d ds)
    with blank_space show ?thesis by auto
  qed
next
  case (blank_comment u w)
  then obtain b where b: "u = ''/*'' @ b" by (auto simp: is_comment_def)
  show ?case
  proof (cases spc)
    case Nil
    then have "prefix ''/*'' (s @ CHR '' '' # r)"
      using blank_comment.prems b by (auto simp: prefix_def)
    with lexeme_no_comment [OF assms(3)] show ?thesis by blast
  next
    case (Cons d ds)
    with blank_comment.prems b show ?thesis by auto
  qed
qed

lemma isSpace_blank [simp]: "isSpace (schar CHR '' '')"
  by (simp add: isSpace_def schar_def)

lemma readNextToken_lexeme:
  assumes ok: "lex_ok st" and rest: "rest st = spc @ s @ CHR '' '' # r"
    and spc: "\<forall>c \<in> set spc. c = CHR '' ''" and l: "lexeme s = Some ty"
  shows "\<exists>t st'. readNextToken st = Inr (t, st') \<and> tok_str t = s \<and> tok_type t = ty
    \<and> lex_ok st' \<and> rest st' = CHR '' '' # r \<and> tokenLookahead st' = tokenLookahead st"
proof -
  have sne: "s \<noteq> []" using lexeme_nonempty [OF l] .
  have split: "w = spc \<and> v = s @ CHR '' '' # r"
    if "blank w" "rest st = w @ v" "v = [] \<or> \<not> isSpace (schar (hd v))" for w v
    using blank_before_lexeme [OF that(1) _ l spc that(3), of r] rest that(2) by simp
  show ?thesis
  proof (cases "readNextToken st")
    case (Inl e)
    with readNextToken_spec [OF ok]
    consider (comment) w r' where "blank w" "rest st = w @ ''/*'' @ r'"
      | (char) w c r' where "blank w" "rest st = w @ c # r'" "illegal_char c"
      by (auto simp: token_result_def)
    then show ?thesis
    proof cases
      case comment
      then have "''/*'' @ r' = s @ CHR '' '' # r" using split by (simp add: isSpace_def schar_def)
      then show ?thesis using lexeme_no_comment [OF l, of r] by (metis prefixI)
    next
      case char
      then have "c # r' = s @ CHR '' '' # r"
        using split [of w "c # r'"] by (simp add: illegal_char_def)
      then show ?thesis
        using lexeme_hd_legal [of c] l sne char(3) by (cases s) auto
    qed
  next
    case (Inr p)
    obtain t st' where p: "p = (t, st')" by (cases p)
    with Inr readNextToken_spec [OF ok] obtain w where w: "blank w" "lex_ok st'"
      "tokenLookahead st' = tokenLookahead st"
      "if tok_type t = TT_Eof then rest st = w \<and> rest st' = [] \<and> tok_str t = ''EOF''
       else rest st = w @ tok_str t @ rest st' \<and> lexeme (tok_str t) = Some (tok_type t)
          \<and> longest_lexeme (tok_str t) (tok_str t @ rest st')"
      by (auto simp: token_result_def)
    have nE: "tok_type t \<noteq> TT_Eof" using w(1,4) split [of w "[]"] sne by auto
    with w(4) have t: "rest st = w @ tok_str t @ rest st'" "lexeme (tok_str t) = Some (tok_type t)"
      "longest_lexeme (tok_str t) (tok_str t @ rest st')" by simp_all
    have tne: "tok_str t \<noteq> []" using lexeme_nonempty [OF t(2)] .
    then have "\<not> isSpace (schar (hd (tok_str t @ rest st')))"
      using lexeme_chars [OF t(2)] by simp
    then have eq: "tok_str t @ rest st' = s @ CHR '' '' # r" using split [OF w(1) t(1)] by blast
    then have "length s \<le> length (tok_str t)"
      using t(3) l by (auto simp: longest_lexeme_def)
    then obtain u where u: "tok_str t = s @ u" "u @ rest st' = CHR '' '' # r"
      using eq by (metis append_eq_append_conv_if append_take_drop_id)
    have "u = []"
    proof (cases u)
      case (Cons c u')
      with u have "CHR '' '' \<in> set (tok_str t)" by simp
      with lexeme_chars [OF t(2)] isSpace_blank show ?thesis by blast
    qed
    with u l t(2) w(2,3) Inr p show ?thesis by simp
  qed
qed

definition spaced :: "string list \<Rightarrow> string" where
  "spaced ss = concat (map (\<lambda>s. s @ '' '') ss)"

lemma spaced_simps [simp]: "spaced [] = []" "spaced (s # ss) = s @ CHR '' '' # spaced ss"
  by (simp_all add: spaced_def)

lemma tokenN_spaced:
  assumes "lex_ok st" "tokenLookahead st = []" "rest st = spc @ spaced ss"
    "\<forall>c \<in> set spc. c = CHR '' ''" "\<forall>s \<in> set ss. lexeme s \<noteq> None" "i < length ss"
  shows "\<exists>t. tokenN i st = Inr t \<and> tok_str t = ss ! i \<and> lexeme (ss ! i) = Some (tok_type t)"
  using assms
proof (induction i arbitrary: st spc ss)
  case 0
  then obtain s ss' where ss: "ss = s # ss'" by (cases ss) auto
  with 0 obtain ty where ty: "lexeme s = Some ty" by auto
  have "rest st = spc @ s @ CHR '' '' # spaced ss'" using 0(3) ss by simp
  from readNextToken_lexeme [OF 0(1) this 0(4) ty] obtain t st' where
    "readNextToken st = Inr (t, st')" "tok_str t = s" "tok_type t = ty" by blast
  then show ?case using 0(2) ss ty by (simp add: nextToken_def)
next
  case (Suc i)
  then obtain s ss' where ss: "ss = s # ss'" by (cases ss) auto
  with Suc.prems obtain ty where ty: "lexeme s = Some ty" by auto
  have "rest st = spc @ s @ CHR '' '' # spaced ss'" using Suc.prems(3) ss by simp
  from readNextToken_lexeme [OF Suc.prems(1) this Suc.prems(4) ty] Suc.prems(2)
  obtain t st' where t: "readNextToken st = Inr (t, st')" "lex_ok st'"
    "rest st' = CHR '' '' # spaced ss'" "tokenLookahead st' = []" by auto
  have r: "rest st' = '' '' @ spaced ss'" using t(3) by simp
  have "\<exists>t. tokenN i st' = Inr t \<and> tok_str t = ss' ! i \<and> lexeme (ss' ! i) = Some (tok_type t)"
    by (rule Suc.IH [OF t(2,4) r]) (use Suc.prems ss in simp_all)
  with t(1) ss Suc.prems(2) show ?case by (simp add: nextToken_def)
qed

lemma readNextToken_spaces:
  assumes ok: "lex_ok st" and rest: "\<forall>c \<in> set (rest st). c = CHR '' ''"
  shows "\<exists>t st'. readNextToken st = Inr (t, st') \<and> tok_type t = TT_Eof"
proof (cases "readNextToken st")
  case (Inl e)
  with readNextToken_spec [OF ok]
  consider (comment) w r' where "rest st = w @ ''/*'' @ r'"
    | (char) w c r' where "rest st = w @ c # r'" "illegal_char c"
    by (auto simp: token_result_def)
  then show ?thesis
    using rest by cases (auto simp: illegal_char_def isSpace_def schar_def)
next
  case (Inr p)
  obtain t st' where p: "p = (t, st')" by (cases p)
  have False if "tok_type t \<noteq> TT_Eof"
  proof -
    from that Inr p readNextToken_spec [OF ok] obtain w where
      "rest st = w @ tok_str t @ rest st'" and l: "lexeme (tok_str t) = Some (tok_type t)"
      by (auto simp: token_result_def)
    then have "hd (tok_str t) = CHR '' ''" using rest lexeme_nonempty [OF l] by (cases "tok_str t") auto
    then have "CHR '' '' \<in> set (tok_str t)" using lexeme_nonempty [OF l] by (metis hd_in_set)
    with lexeme_chars [OF l] isSpace_blank show False by blast
  qed
  with Inr p show ?thesis by auto
qed

lemma tokenN_spaced_Eof:
  assumes "lex_ok st" "tokenLookahead st = []" "rest st = spc @ spaced ss"
    "\<forall>c \<in> set spc. c = CHR '' ''" "\<forall>s \<in> set ss. lexeme s \<noteq> None"
  shows "\<exists>t. tokenN (length ss) st = Inr t \<and> tok_type t = TT_Eof"
  using assms
proof (induction ss arbitrary: st spc)
  case Nil
  then have "\<forall>c \<in> set (rest st). c = CHR '' ''" by simp
  from readNextToken_spaces [OF Nil(1) this] obtain t st' where
    "readNextToken st = Inr (t, st')" "tok_type t = TT_Eof" by blast
  then show ?case using Nil(2) by (simp add: nextToken_def)
next
  case (Cons s ss)
  from Cons.prems(5) obtain ty where ty: "lexeme s = Some ty" by auto
  have "rest st = spc @ s @ CHR '' '' # spaced ss" using Cons.prems(3) by simp
  from readNextToken_lexeme [OF Cons.prems(1) this Cons.prems(4) ty] Cons.prems(2)
  obtain t st' where t: "readNextToken st = Inr (t, st')" "lex_ok st'"
    "rest st' = CHR '' '' # spaced ss" "tokenLookahead st' = []" by auto
  have r: "rest st' = '' '' @ spaced ss" using t(3) by simp
  have "\<exists>t. tokenN (length ss) st' = Inr t \<and> tok_type t = TT_Eof"
    by (rule Cons.IH [OF t(2,4) r]) (use Cons.prems in simp_all)
  with t(1) Cons.prems(2) show ?case by (simp add: nextToken_def)
qed

definition tok_sig :: "token \<Rightarrow> ttype \<times> string" where
  "tok_sig t = (tok_type t, tok_str t)"

lemma newLexer_Inr:
  assumes "newLexer g LS_normal f inp = Inr st"
  shows "lex_ok st" "rest st = inp" "input st = inp" "tokenLookahead st = []" "filename st = f"
  using newLexer_ok [of g f inp] assms by (metis sum.inject(2))+

lemma mapR_InrE:
  assumes "mapR f m = Inr y"
  obtains x where "m = Inr x" "f x = y"
  using assms by (cases m) auto

section \<open>Properties\<close>

text \<open>
  C13: Memory safety of the lexer.  On every input, whatever the buffer holds before it is first
  filled, constructing a lexer succeeds, and however many tokens are read, the only exception
  that can end the reading is a \<open>LexError\<close>: no access outside the buffer, no out-of-range
  access to the table of line starts and no failed assertion.
\<close>

theorem lexer_memory_safe:
  "case newLexer g LS_normal f inp of
     Inl e \<Rightarrow> False
   | Inr st \<Rightarrow> (\<forall>n. case tokenN n st of Inl e \<Rightarrow> is_LexError e | Inr t \<Rightarrow> True)"
proof (cases "newLexer g LS_normal f inp")
  case (Inl e)
  then show ?thesis using newLexer_ok [of g f inp] by (metis sum.distinct(1))
next
  case (Inr st)
  with newLexer_Inr(1) [OF Inr] tokenN_error [of st] show ?thesis by (auto split: sum.split)
qed

text \<open>
  C8: Maximal munch.  When \<open>readNextToken\<close> returns a token other than \<open>Eof\<close>, the text that was
  still to be read is a blank prefix (white space and complete comments), the token's string and
  the text that is left; the token's type is the one of its string, and no longer prefix of the
  text at this point is a lexeme.
\<close>

theorem readNextToken_longest:
  assumes "lex_ok st" and "readNextToken st = Inr (t, st')" and "tok_type t \<noteq> TT_Eof"
  shows "(\<exists>w. blank w \<and> rest st = w @ tok_str t @ rest st')
    \<and> lexeme (tok_str t) = Some (tok_type t)
    \<and> (\<forall>p. prefix p (tok_str t @ rest st') \<and> lexeme p \<noteq> None \<longrightarrow> length p \<le> length (tok_str t))"
  using readNextToken_spec [OF assms(1)] assms(2,3)
  by (auto simp: token_result_def longest_lexeme_def)

theorem readNextToken_longest_witness:
  "\<exists>t st'. readNextToken (lexer_of ''/**/ ab+1'') = Inr (t, st') \<and> tok_sig t = (TT_Identifier, ''ab'')
    \<and> (\<exists>w. blank w \<and> ''/**/ ab+1'' = w @ ''ab'' @ rest st') \<and> lexeme ''ab'' = Some TT_Identifier"
proof -
  have "mapR (\<lambda>p. tok_sig (fst p)) (readNextToken (lexer_of ''/**/ ab+1'')) = Inr (TT_Identifier, ''ab'')"
    by code_simp
  then obtain t st' where t: "readNextToken (lexer_of ''/**/ ab+1'') = Inr (t, st')"
    "tok_sig t = (TT_Identifier, ''ab'')" by (rule mapR_InrE) force
  then have "tok_type t \<noteq> TT_Eof" "tok_str t = ''ab''" "tok_type t = TT_Identifier"
    by (simp_all add: tok_sig_def)
  with readNextToken_longest [OF lexer_of_ok(2) t(1)] t show ?thesis by (auto simp: lexer_of_ok(3))
qed

text \<open>
  C15: Reasons of lexical errors.  When \<open>readNextToken\<close> throws, the exception is a
  \<open>LexError\<close> for the file of the lexer, and the text has, after a blank prefix, either an opened
  comment that is not completed (or holds a character outside ASCII) or a character that starts no
  lexeme.
\<close>

theorem readNextToken_error_reason:
  assumes "lex_ok st" and "readNextToken st = Inl e"
  shows "(\<exists>l c msg lt. e = LexError (filename st) l c msg lt)
    \<and> (\<exists>w r. blank w \<and> (rest st = w @ ''/*'' @ r \<and> bad_comment r
          \<or> (\<exists>c r'. rest st = w @ c # r' \<and> illegal_char c)))"
  using readNextToken_spec [OF assms(1)] assms(2) by (auto simp: token_result_def)

theorem readNextToken_error_reason_witness:
  "\<exists>e. readNextToken (lexer_of '' #'') = Inl e \<and> (\<exists>l c msg lt. e = LexError ''in'' l c msg lt)
    \<and> (\<exists>w r. blank w \<and> ('' #'' = w @ ''/*'' @ r \<and> bad_comment r
          \<or> (\<exists>c r'. '' #'' = w @ c # r' \<and> illegal_char c)))"
proof -
  have "(case readNextToken (lexer_of '' #'') of Inl e \<Rightarrow> True | Inr p \<Rightarrow> False)" by code_simp
  then obtain e where e: "readNextToken (lexer_of '' #'') = Inl e" by (cases "readNextToken (lexer_of '' #'')") auto
  have "filename (lexer_of '' #'') = ''in''" by code_simp
  with readNextToken_error_reason [OF lexer_of_ok(2) e] e show ?thesis by (simp add: lexer_of_ok(3))
qed

text \<open>
  C14: Source positions.  The line of a token is one more than the number of line ends (LF, CR or
  CRLF, each counted once) before its first character; its column is its distance from the start
  of that line, counted from 1, with one more column for every tab in between.
\<close>

theorem readNextToken_position:
  assumes "lex_ok st" and "readNextToken st = Inr (t, st')" and "tok_type t \<noteq> TT_Eof"
  shows "let k = length (input st) - length (tok_str t @ rest st'); b = line_start (input st) k in
    pos_line (tok_pos t) = line_no (input st) k
    \<and> pos_col (tok_pos t) = 1 + int (k - b) + int (tab_count (drop b (chars (input st) k)))"
proof -
  obtain w where w: "tok_pos t = pos_at (input st) (nidx st - 1 + length w)"
    "rest st = w @ tok_str t @ rest st'" "lexeme (tok_str t) = Some (tok_type t)"
    using readNextToken_spec [OF assms(1)] assms(2,3) by (auto simp: token_result_def)
  have "nidx st - 1 + length w = length (input st) - length (tok_str t @ rest st')"
    using arg_cong [OF w(2), of length] lex_ok_nidx [OF assms(1)] lexeme_nonempty [OF w(3)]
    by (cases "tok_str t") (simp_all add: rest_def [of st])
  with w(1) show ?thesis
    by (simp add: pos_at_def mk_pos_def pos_upto_line pos_upto_col pos_upto_start Let_def
        del: pos_upto.simps)
qed

theorem readNextToken_position_witness:
  "\<exists>t st'. readNextToken (lexer_of (CHR 0x0D # CHR 0x0A # CHR 0x09 # ''ab'')) = Inr (t, st')
    \<and> pos_line (tok_pos t) = 2 \<and> pos_col (tok_pos t) = 3"
proof -
  let ?s = "CHR 0x0D # CHR 0x0A # CHR 0x09 # ''ab''"
  have "mapR (\<lambda>p. (tok_sig (fst p), rest (snd p))) (readNextToken (lexer_of ?s))
      = Inr ((TT_Identifier, ''ab''), [])"
    by code_simp
  then obtain t st' where t: "readNextToken (lexer_of ?s) = Inr (t, st')"
    "tok_sig t = (TT_Identifier, ''ab'')" "rest st' = []" by (rule mapR_InrE) force
  then have ty: "tok_type t \<noteq> TT_Eof" "tok_str t = ''ab''" by (simp_all add: tok_sig_def)
  have k: "length ?s - length (''ab'' @ []) = 3" by simp
  have e: "line_start ?s 3 = 2" "line_no ?s 3 = 2" "tab_count (drop 2 (chars ?s 3)) = 1"
    by code_simp+
  from readNextToken_position [OF lexer_of_ok(2) t(1) ty(1)]
  have "pos_line (tok_pos t) = 2" "pos_col (tok_pos t) = 1 + int (3 - 2) + int 1"
    unfolding lexer_of_ok(4) ty(2) t(3) k Let_def e by blast+
  with t(1) show ?thesis by simp
qed

text \<open>C16: The end of the file is sticky: after an \<open>Eof\<close> token, only \<open>Eof\<close> tokens follow.\<close>

theorem Eof_sticky:
  assumes "newLexer g LS_normal f inp = Inr st" and "tokenN n st = Inr t" and "tok_type t = TT_Eof"
  shows "\<exists>t'. tokenN (n + k) st = Inr t' \<and> tok_type t' = TT_Eof"
  using tokenN_add newLexer_Inr [OF assms(1)] assms(2,3) by blast

theorem Eof_sticky_witness:
  "\<exists>t t'. tokenN 1 (lexer_of ''x'') = Inr t \<and> tok_type t = TT_Eof
    \<and> tokenN 4 (lexer_of ''x'') = Inr t' \<and> tok_type t' = TT_Eof"
proof -
  have "mapR tok_type (tokenN 1 (lexer_of ''x'')) = Inr TT_Eof" by code_simp
  then obtain t where t: "tokenN 1 (lexer_of ''x'') = Inr t" "tok_type t = TT_Eof" by (rule mapR_InrE)
  with Eof_sticky [OF lexer_of_ok(1) t, of 3] show ?thesis by simp
qed

text \<open>
  C17: Lookahead is transparent.  \<open>lookAhead n\<close> returns the \<open>n\<close>-th of the tokens that
  \<open>nextToken\<close> would deliver, and all later calls of \<open>nextToken\<close> deliver what they would have
  delivered without it.
\<close>

theorem lookAhead_transparent:
  assumes "lookAhead n st = Inr (t, st')"
  shows "tokenN (n - 1) st = Inr t \<and> (\<forall>k. tokenN k st' = tokenN k st)"
  using lookAhead_tokenN [OF assms] by blast

theorem lookAhead_transparent_witness:
  "\<exists>t st'. lookAhead 2 (lexer_of ''a b c'') = Inr (t, st') \<and> tok_str t = ''b''
    \<and> tokenN 1 (lexer_of ''a b c'') = Inr t \<and> tokenN 0 st' = tokenN 0 (lexer_of ''a b c'')"
proof -
  have "mapR (\<lambda>p. tok_str (fst p)) (lookAhead 2 (lexer_of ''a b c'')) = Inr ''b''" by code_simp
  then obtain t st' where t: "lookAhead 2 (lexer_of ''a b c'') = Inr (t, st')" "tok_str t = ''b''"
    by (rule mapR_InrE) force
  from lookAhead_transparent [OF t(1)]
  have "tokenN 1 (lexer_of ''a b c'') = Inr t" "tokenN 0 st' = tokenN 0 (lexer_of ''a b c'')"
    by (simp_all del: tokenN.simps)
  with t show ?thesis by blast
qed

text \<open>
  C4: Round trip.  Writing any sequence of lexemes with a space after each and lexing the
  text gives these lexemes back, in order, with their types, and then \<open>Eof\<close>.
\<close>

theorem lex_spaced_round_trip:
  assumes "list_all (\<lambda>s. lexeme s \<noteq> None) ss"
  shows "case newLexer g LS_normal f (spaced ss) of
     Inl e \<Rightarrow> False
   | Inr st \<Rightarrow>
      map (\<lambda>i. mapR tok_sig (tokenN i st)) [0..<length ss] = map (\<lambda>s. Inr (the (lexeme s), s)) ss
      \<and> mapR tok_type (tokenN (length ss) st) = Inr TT_Eof"
proof (cases "newLexer g LS_normal f (spaced ss)")
  case (Inl e)
  then show ?thesis using newLexer_ok [of g f "spaced ss"] by (metis sum.distinct(1))
next
  case (Inr st)
  note st = newLexer_Inr [OF Inr]
  have l: "\<forall>s \<in> set ss. lexeme s \<noteq> None" using assms by (simp add: list_all_iff)
  have "mapR tok_sig (tokenN i st) = Inr (the (lexeme (ss ! i)), ss ! i)" if "i < length ss" for i
    using tokenN_spaced [of st "[]" ss i] st l that by (auto simp: tok_sig_def)
  then have "map (\<lambda>i. mapR tok_sig (tokenN i st)) [0..<length ss] = map (\<lambda>s. Inr (the (lexeme s), s)) ss"
    by (intro nth_equalityI) simp_all
  moreover have "mapR tok_type (tokenN (length ss) st) = Inr TT_Eof"
    using tokenN_spaced_Eof [of st "[]" ss] st l by auto
  ultimately show ?thesis using Inr by simp
qed

theorem lex_spaced_round_trip_witness:
  "case newLexer (\<lambda>_. 7) LS_normal ''f'' ''class A { } '' of
     Inl e \<Rightarrow> False
   | Inr st \<Rightarrow> map (\<lambda>i. mapR tok_sig (tokenN i st)) [0..<4] =
       [Inr (TT_Class, ''class''), Inr (TT_Identifier, ''A''), Inr (TT_LBrace, ''{''),
        Inr (TT_RBrace, ''}'')] \<and> mapR tok_type (tokenN 4 st) = Inr TT_Eof"
proof -
  have s: "spaced [''class'', ''A'', ''{'', ''}''] = ''class A { } ''" by simp
  have l: "lexeme ''class'' = Some TT_Class" "lexeme ''A'' = Some TT_Identifier"
    "lexeme ''{'' = Some TT_LBrace" "lexeme ''}'' = Some TT_RBrace"
    by code_simp+
  have n: "length [''class'', ''A'', ''{'', ''}''] = 4" by simp
  show ?thesis
    using lex_spaced_round_trip [of "[''class'', ''A'', ''{'', ''}'']" "\<lambda>_. 7" "''f''"]
    unfolding s n by (simp add: l del: tokenN.simps split: sum.splits)
qed

end
