(* ===== verification/Control_Flow.thy ===== *)
theory Control_Flow
  imports Semantic_Lemmas Ast_Wf Lexer_Claims
begin

text \<open>
  Control flow of statements as a nondeterministic execution relation that does not look at values:
  a condition may go either way, a loop may run any number of times.  \<open>exec s tr r\<close> holds if \<open>s\<close> can
  evaluate the expressions at the locations \<open>tr\<close> in this order and then end, by a return
  statement if \<open>r\<close> and normally otherwise.  The control flow behaviour that the semantic analysis
  computes is sound and complete for this relation, and removing dead code does not change it.
\<close>

inductive exec :: "stmt \<Rightarrow> source_location list \<Rightarrow> bool \<Rightarrow> bool"
  and execs :: "stmt list \<Rightarrow> source_location list \<Rightarrow> bool \<Rightarrow> bool"
  and exec_opt :: "stmt option \<Rightarrow> source_location list \<Rightarrow> bool \<Rightarrow> bool" where
  ex_block: "execs ss tr r \<Longrightarrow> exec (Block l c ss flag) tr r"
| ex_expr: "exec (ExpressionStatement l c e) [eloc e] False"
| ex_decl: "exec (VariableDeclaration l c t n None i) [] False"
| ex_decl_init: "exec (VariableDeclaration l c t n (Some e) i) [eloc e] False"
| ex_return: "exec (ReturnStatement l c None) [] True"
| ex_return_value: "exec (ReturnStatement l c (Some e)) [eloc e] True"
| ex_then: "exec_opt t tr r \<Longrightarrow> exec (IfStatement l c e t f) (eloc e # tr) r"
| ex_else: "exec_opt f tr r \<Longrightarrow> exec (IfStatement l c e t f) (eloc e # tr) r"
| ex_while_end: "exec (WhileStatement l c e b) [eloc e] False"
| ex_while_return: "exec_opt b tr True \<Longrightarrow> exec (WhileStatement l c e b) (eloc e # tr) True"
| ex_while_next: "exec_opt b tr False \<Longrightarrow> exec (WhileStatement l c e b) tr' r
    \<Longrightarrow> exec (WhileStatement l c e b) (eloc e # tr @ tr') r"
| ex_nil: "execs [] [] False"
| ex_stop: "exec s tr True \<Longrightarrow> execs (s # ss) tr True"
| ex_step: "exec s tr False \<Longrightarrow> execs ss tr' r \<Longrightarrow> execs (s # ss) (tr @ tr') r"
| ex_none: "exec_opt None [] False"
| ex_some: "exec s tr r \<Longrightarrow> exec_opt (Some s) tr r"

inductive_cases execs_consE: "execs (s # ss) tr r"
inductive_simps exec_block_iff [simp]: "exec (Block l c ss flag) tr r"
inductive_simps exec_expr_iff [simp]: "exec (ExpressionStatement l c e) tr r"
inductive_simps exec_decl_iff: "exec (VariableDeclaration l c t n e i) tr r"
inductive_simps exec_return_iff: "exec (ReturnStatement l c e) tr r"
inductive_simps exec_if_iff: "exec (IfStatement l c e t f) tr r"
inductive_simps execs_nil_iff [simp]: "execs [] tr r"
inductive_simps execs_cons_iff: "execs (s # ss) tr r"
inductive_simps exec_none_iff [simp]: "exec_opt None tr r"
inductive_simps exec_some_iff [simp]: "exec_opt (Some s) tr r"

section \<open>The behaviour attribute\<close>

text \<open>What visiting establishes: the attribute is \<open>Return\<close> exactly if no execution ends normally.\<close>

definition cfb_ok :: "stmt \<Rightarrow> bool" where
  "cfb_ok s \<longleftrightarrow> (cfb s = Return \<longleftrightarrow> \<not> (\<exists>tr. exec s tr False))"

lemma cutDead_execs:
  assumes "\<forall>s \<in> set ss. cfb_ok s"
  shows "execs (fst (cutDead ss)) tr r = execs ss tr r"
  using assms
proof (induction ss arbitrary: tr r)
  case (Cons s ss)
  then show ?case
    by (auto simp: execs_cons_iff cfb_ok_def split: prod.splits)
qed simp

lemma cutDead_cfb:
  assumes "\<forall>s \<in> set ss. cfb_ok s"
  shows "snd (cutDead ss) = Return \<longleftrightarrow> \<not> (\<exists>tr. execs ss tr False)"
  using assms
proof (induction ss)
  case (Cons s ss)
  then show ?case
    by (auto simp: execs_cons_iff cfb_ok_def split: prod.splits)
qed simp

lemma while_mono:
  assumes "exec (WhileStatement l c e b) tr r" "eloc e' = eloc e"
    and "\<And>tr r. exec_opt b tr r \<Longrightarrow> exec_opt b' tr r"
  shows "exec (WhileStatement l c' e' b') tr r"
proof -
  have "(s = WhileStatement l c e b \<longrightarrow> exec (WhileStatement l c' e' b') tr r)" if "exec s tr r" for s tr r
    using that
  proof (induction rule: exec_execs_exec_opt.inducts(1)
      [where ?P2.0 = "\<lambda>_ _ _. True" and ?P3.0 = "\<lambda>_ _ _. True"])
    case (ex_while_end l' c'' x b'')
    then show ?case using exec_execs_exec_opt.ex_while_end [of l c' e' b'] assms(2) by auto
  next
    case (ex_while_return b'' tr l' c'' x)
    then show ?case using exec_execs_exec_opt.ex_while_return [OF assms(3), of tr l c' e'] assms(2) by auto
  next
    case (ex_while_next b'' tr l' c'' x tr' r)
    then show ?case
      using exec_execs_exec_opt.ex_while_next [OF assms(3), of tr l c' e' tr' r] assms(2) by auto
  qed auto
  with assms(1) show ?thesis by blast
qed

lemma while_cong:
  assumes "eloc e' = eloc e" "\<And>tr r. exec_opt b' tr r = exec_opt b tr r"
  shows "exec (WhileStatement l c' e' b') tr r = exec (WhileStatement l c e b) tr r"
  using while_mono [of l c e b tr r e' b' c'] while_mono [of l c' e' b' tr r e b c] assms by auto

text \<open>A statement before and after its visit.\<close>

definition same_flow :: "stmt \<Rightarrow> stmt \<Rightarrow> bool" where
  "same_flow s s' \<longleftrightarrow> (\<forall>tr r. exec s' tr r = exec s tr r) \<and> cfb_ok s'"

definition same_opt :: "stmt option \<Rightarrow> stmt option \<Rightarrow> bool" where
  "same_opt o1 o2 \<longleftrightarrow> (\<forall>tr r. exec_opt o2 tr r = exec_opt o1 tr r)
     \<and> (optCFB o2 = Return \<longleftrightarrow> \<not> (\<exists>tr. exec_opt o1 tr False))"

lemma same_flow_opt: "same_flow s s' \<Longrightarrow> same_opt (Some s) (Some s')"
  by (simp add: same_flow_def same_opt_def cfb_ok_def optCFB_def)

lemma same_opt_None [simp]: "same_opt None None"
  by (simp add: same_opt_def optCFB_def)

lemma same_if:
  assumes "eloc e' = eloc e" "same_opt t t'" "same_opt f f'"
  shows "same_flow (IfStatement l c e t f) (IfStatement l (combineCFB (optCFB t') (optCFB f')) e' t' f')"
proof -
  have "combineCFB (optCFB t') (optCFB f') = Return \<longleftrightarrow> optCFB t' = Return \<and> optCFB f' = Return"
    by (cases "optCFB t'"; cases "optCFB f'") (simp_all add: combineCFB_def)
  with assms show ?thesis by (auto simp: same_flow_def cfb_ok_def exec_if_iff same_opt_def)
qed

lemma same_while:
  assumes "eloc e' = eloc e" "same_opt b b'"
  shows "same_flow (WhileStatement l c e b) (WhileStatement l MayContinue e' b')"
proof -
  have "exec (WhileStatement l MayContinue e' b') tr r = exec (WhileStatement l c e b) tr r" for tr r
    using assms by (intro while_cong) (simp_all add: same_opt_def)
  then show ?thesis by (auto simp: same_flow_def cfb_ok_def intro: ex_while_end)
qed

lemma same_execs:
  "list_all2 same_flow ss ss' \<Longrightarrow> execs ss' tr r = execs ss tr r"
  by (induction ss ss' arbitrary: tr r rule: list_all2_induct)
    (auto simp: execs_cons_iff same_flow_def)

lemma same_block:
  assumes "list_all2 same_flow ss ss'" "cutDead ss' = (ss'', c')"
  shows "same_flow (Block l c ss flag) (Block l c' ss'' flag)"
proof -
  have ok: "\<forall>s \<in> set ss'. cfb_ok s"
    using assms(1) by (auto simp: list_all2_conv_all_nth in_set_conv_nth same_flow_def)
  show ?thesis
    using cutDead_execs [OF ok] cutDead_cfb [OF ok] same_execs [OF assms(1)] assms(2)
    by (auto simp: same_flow_def cfb_ok_def)
qed

lemma same_return:
  assumes "visitOptExpr st e = Inr e'"
  shows "same_flow (ReturnStatement l c e) (ReturnStatement l Return e')"
  using visitOptExpr_Inr [OF assms]
  by (auto simp: same_flow_def cfb_ok_def exec_return_iff visitExpr_eloc)

lemma same_decl:
  assumes "visitOptExpr st e = Inr e'"
  shows "same_flow (VariableDeclaration l MayContinue t n e i) (VariableDeclaration l MayContinue t' n e' i')"
  using visitOptExpr_Inr [OF assms]
  by (auto simp: same_flow_def cfb_ok_def exec_decl_iff visitExpr_eloc)

lemma visitStmt_flow:
  "visitStmt s st = Inr (s', st') \<Longrightarrow> wf_stmt s \<Longrightarrow> same_flow s s'"
  "visitStmts ss st = Inr (ss', st') \<Longrightarrow> \<forall>s \<in> set ss. wf_stmt s \<Longrightarrow> list_all2 same_flow ss ss'"
proof (induction s st and ss st arbitrary: s' st' and ss' st' rule: visitStmt_visitStmts.induct)
  case (1 loc c ss flag st)
  from "1.prems"(1) obtain ss1 st1 where v: "visitStmts ss (sem_enterScope st) = Inr (ss1, st1)"
    and s': "s' = Block loc (snd (cutDead ss1)) (fst (cutDead ss1)) flag"
    by (auto simp: bindE_eq_Inr Let_def split: prod.splits)
  have "list_all2 same_flow ss ss1" using "1.IH" [OF v] "1.prems"(2) by simp
  then show ?case unfolding s' by (rule same_block) simp
next
  case (2 loc c e st)
  then show ?case by (auto simp: bindE_eq_Inr same_flow_def cfb_ok_def visitExpr_eloc)
next
  case (3 loc c e t f st)
  from "3.prems"(1) obtain e' t' st1 f' st2 where
    e: "visitExpr st e = Inr e'"
    and t: "(case t of None \<Rightarrow> Inr (None, st)
      | Some s \<Rightarrow> bindE (visitStmt s st) (\<lambda>(s', st1). Inr (Some s', st1))) = Inr (t', st1)"
    and f: "(case f of None \<Rightarrow> Inr (None, st1)
      | Some s \<Rightarrow> bindE (visitStmt s st1) (\<lambda>(s', st2). Inr (Some s', st2))) = Inr (f', st2)"
    and s': "s' = IfStatement loc (combineCFB (optCFB t') (optCFB f')) e' t' f'"
    by (auto simp: bindE_eq_Inr)
  have "same_opt t t'"
    using t "3.IH"(1) [OF e] "3.prems"(2)
    by (cases t) (auto simp: bindE_eq_Inr intro: same_flow_opt)
  moreover have "same_opt f f'"
    using f "3.IH"(2) [OF e t] "3.prems"(2)
    by (cases f) (auto simp: bindE_eq_Inr intro: same_flow_opt)
  ultimately show ?case unfolding s' using visitExpr_eloc [OF e] by (intro same_if)
next
  case (4 loc c e b st)
  from "4.prems"(1) obtain e' b' st1 where
    e: "visitExpr st e = Inr e'"
    and b: "(case b of None \<Rightarrow> Inr (None, st)
      | Some s \<Rightarrow> bindE (visitStmt s st) (\<lambda>(s', st1). Inr (Some s', st1))) = Inr (b', st1)"
    and s': "s' = WhileStatement loc MayContinue e' b'"
    by (auto simp: bindE_eq_Inr)
  have "same_opt b b'"
    using b "4.IH" [OF e] "4.prems"(2)
    by (cases b) (auto simp: bindE_eq_Inr intro: same_flow_opt)
  then show ?case unfolding s' using visitExpr_eloc [OF e] by (intro same_while)
next
  case (5 loc c e st)
  then show ?case by (auto simp: bindE_eq_Inr dest!: visitReturnStatement_Inr intro: same_return)
next
  case (6 loc c t n e i st)
  then show ?case by (auto dest!: visitVariableDeclaration_Inr intro: same_decl)
next
  case (8 s ss st)
  then show ?case by (fastforce simp: bindE_eq_Inr)
qed simp

section \<open>Properties\<close>

definition ex_alloc :: "addr list \<Rightarrow> addr" where
  "ex_alloc xs = Suc (foldr max xs 0)"

lemma ex_alloc_fresh: "ex_alloc xs \<notin> set xs"
proof -
  have "x \<le> foldr max xs 0" if "x \<in> set xs" for x using that by (induction xs) auto
  then show ?thesis unfolding ex_alloc_def by force
qed

definition ex_state :: sstate where
  "ex_state = (newSemanticVisitor ex_alloc (lexer_of []) ex_program)
     \<lparr>s_class := Some (ex_class ''A'' [])\<rparr>"

definition ex_body :: stmt where
  "ex_body = Block no_loc MayContinue
     [IfStatement no_loc MayContinue (BoolLiteral no_loc new_type True)
        (Some (ReturnStatement no_loc MayContinue (Some (IntLiteral no_loc new_type 1))))
        (Some (ReturnStatement no_loc MayContinue (Some (IntLiteral no_loc new_type 2)))),
      ExpressionStatement no_loc MayContinue (IntLiteral no_loc new_type 3)] False"

text \<open>
  C5: The control flow attribute is exact and dead code removal is correct.  After a successful
  visit, a statement has the same executions as before (paths of evaluated expressions and the way
  they end), although statements behind a return were deleted, and its behaviour is \<open>Return\<close> exactly
  if no execution of the source statement ends without a return.
\<close>

theorem visit_preserves_flow:
  assumes "visitStmt s st = Inr (s', st')" and "wf_stmt s"
  shows "(\<forall>tr r. exec s' tr r = exec s tr r) \<and> (cfb s' = Return \<longleftrightarrow> \<not> (\<exists>tr. exec s tr False))"
  using visitStmt_flow(1) [OF assms] by (auto simp: same_flow_def cfb_ok_def)

theorem visit_preserves_flow_witness:
  "\<exists>s' st'. visitStmt ex_body (ex_state\<lparr>s_method := Some (RegularM (ex_method ''f'' []))\<rparr>) = Inr (s', st')
    \<and> cfb s' = Return \<and> \<not> (\<exists>tr. exec ex_body tr False)"
proof -
  have "mapR (\<lambda>p. cfb (fst p)) (visitStmt ex_body (ex_state\<lparr>s_method := Some (RegularM (ex_method ''f'' []))\<rparr>))
      = Inr Return" by code_simp
  then obtain s' st' where
    v: "visitStmt ex_body (ex_state\<lparr>s_method := Some (RegularM (ex_method ''f'' []))\<rparr>) = Inr (s', st')"
    "cfb s' = Return" by (rule mapR_InrE) force
  have "wf_stmt ex_body" by (simp add: ex_body_def)
  from visit_preserves_flow [OF v(1) this] v show ?thesis by blast
qed

text \<open>
  C12: No accepted method falls off its end.  If \<open>visitRegularMethod\<close> accepts a method whose return
  type is not \<open>void\<close>, every execution of the method's source body ends with a return statement.
\<close>

theorem nonvoid_method_returns:
  assumes "visitRegularMethod m st = Inr (m', st')" and "wf_method m"
    and "getSemaType (rm_returnType m) = Some t" and "\<not> isVoid t"
  shows "\<not> (\<exists>tr. exec (rm_block m) tr False)"
proof -
  from assms(1) obtain b st1 st2 rt where v: "visitStmt (rm_block m) st1 = Inr (b, st2)"
    and rt: "visitType ((sem_enterScope st)\<lparr>s_method := Some (RegularM m), s_varNr := 0, s_varDecls := []\<rparr>)
        (rm_returnType m) = Inr rt"
    and c: "\<And>s. getSemaType rt = Some s \<Longrightarrow> isVoid s \<or> cfb b = Return"
    by (fastforce simp: visitRegularMethod_def Let_def bindE_eq_Inr split: if_splits option.splits)
  have "cfb b = Return" using c [of t] visitType_sema [OF rt] assms(3,4) by simp
  moreover have "wf_stmt (rm_block m)" using assms(2) by (simp add: wf_method_def)
  ultimately show ?thesis
    using visitStmt_flow(1) [OF v] by (auto simp: same_flow_def cfb_ok_def)
qed

theorem nonvoid_method_returns_witness:
  "(\<exists>m' st'. visitRegularMethod ((ex_method ''f'' [])\<lparr>rm_block := ex_body\<rparr>) ex_state = Inr (m', st')
     \<and> rm_mangledName m' = ''_ZN1A1fEv'')
   \<and> \<not> (\<exists>tr. exec ex_body tr False)"
proof -
  let ?m = "(ex_method ''f'' [])\<lparr>rm_block := ex_body\<rparr>"
  have "mapR (\<lambda>p. rm_mangledName (fst p)) (visitRegularMethod ?m ex_state) = Inr ''_ZN1A1fEv''"
    by code_simp
  then obtain m' st' where v: "visitRegularMethod ?m ex_state = Inr (m', st')"
    "rm_mangledName m' = ''_ZN1A1fEv''" by (rule mapR_InrE) force
  have "ident ''f''" by code_simp
  then have "wf_method ?m"
    by (simp add: wf_method_def ex_method_def wf_params_def is_block_def ex_body_def)
  moreover have "getSemaType (rm_returnType ?m) = Some (setInt new_type)" "\<not> isVoid (setInt new_type)"
    by (simp_all add: ex_method_def is_defs)
  ultimately have "\<not> (\<exists>tr. exec (rm_block ?m) tr False)" by (rule nonvoid_method_returns [OF v(1)])
  with v show ?thesis by auto
qed

end
