(* ===== verification/Parser_Total.thy ===== *)
theory Parser_Total
  imports Parser Ast_Wf
begin

text \<open>
  The parser is total and safe: with fuel above the number of tokens left, parsing returns a
  tree or throws a \<open>LexError\<close> or a \<open>ParseError\<close>; it never runs out of fuel, never fails to find the
  source line for its message and never reaches the invalid integer literal.  \<open>res_ok N r\<close> states
  that of a result \<open>r\<close>, and that at most \<open>N\<close> tokens are left; one lemma per parsing function.
\<close>

section \<open>Invariant\<close>

definition tok_wf :: "token \<Rightarrow> bool" where
  "tok_wf t \<longleftrightarrow> tok_type t = TT_Eof \<or> lexeme (tok_str t) = Some (tok_type t)"

definition tok_line_ok :: "lexer \<Rightarrow> token \<Rightarrow> bool" where
  "tok_line_ok st t \<longleftrightarrow> 1 \<le> pos_line (tok_pos t) \<and> pos_line (tok_pos t) \<le> line st"

definition lq_ok :: "lexer \<Rightarrow> bool" where
  "lq_ok st \<longleftrightarrow> lex_ok st \<and> (\<forall>t \<in> set (tokenLookahead st). tok_wf t \<and> tok_line_ok st t)"

text \<open>\<open>parseUnary\<close> may have put a minus sign before the current integer literal.\<close>

definition cur_wf :: "token \<Rightarrow> bool" where
  "cur_wf t \<longleftrightarrow> tok_wf t \<or> (tok_type t = TT_IntLiteral \<and> (\<exists>s. tok_str t = CHR ''-'' # s \<and> is_intlit s))"

definition pgoodU :: "pstate \<Rightarrow> bool" where
  "pgoodU ps \<longleftrightarrow> lq_ok (lexr ps) \<and> cur_wf (curTok ps) \<and> tok_line_ok (lexr ps) (curTok ps)"

definition pgood :: "pstate \<Rightarrow> bool" where
  "pgood ps \<longleftrightarrow> lq_ok (lexr ps) \<and> tok_wf (curTok ps) \<and> tok_line_ok (lexr ps) (curTok ps)"

lemma pgood_U [simp, intro]: "pgood ps \<Longrightarrow> pgoodU ps"
  by (simp add: pgood_def pgoodU_def cur_wf_def)

lemma pgoodU_good: "pgoodU ps \<Longrightarrow> tok_type (curTok ps) \<noteq> TT_IntLiteral \<Longrightarrow> pgood ps"
  by (auto simp: pgood_def pgoodU_def cur_wf_def)

definition toks :: "pstate \<Rightarrow> nat" where
  "toks ps = lex_toks (lexr ps) + (if curType ps = TT_Eof then 0 else 1)"

definition perr_ok :: "parse_error \<Rightarrow> bool" where
  "perr_ok e = (case e of
       LexErr le \<Rightarrow> is_LexError le
     | ParseError _ _ _ _ \<Rightarrow> True
     | RuntimeError _ \<Rightarrow> False
     | OutOfFuel \<Rightarrow> False)"

section \<open>Tokens of the lexer\<close>

lemma lex_ok_line: "lex_ok st \<Longrightarrow> line st = line_no (input st) (nidx st - 1)"
proof -
  assume "lex_ok st"
  then have "lpos_of st = pos_upto (input st) (nidx st)" "0 < nidx st"
    by (simp_all add: lex_ok_def pre_ok_def)
  then have "p_line (lpos_of st) = line_no (input st) (nidx st - 1)"
    using pos_upto_line [of "input st" "nidx st - 1"] by (simp del: pos_upto.simps)
  then show ?thesis by (simp add: lpos_of_def)
qed

lemma line_no_mono: "i \<le> j \<Longrightarrow> line_no inp i \<le> line_no inp j"
proof -
  assume "i \<le> j"
  then have "[0..<j] = [0..<i] @ [i..<j]" using upt_add_eq_append [of 0 i "j - i"] by simp
  then show ?thesis by (simp add: line_no_def)
qed

lemma getLine_ok:
  assumes "lex_ok st" "1 \<le> l" "l \<le> line st"
  shows "\<exists>s. getCurrentLineFromInput l st = Inr s"
proof -
  have lp: "lpos_of st = pos_upto (input st) (nidx st)"
    using assms by (simp add: lex_ok_def pre_ok_def)
  then have "length (lineStartFileOffsets st) = nat (line st)"
    using pos_upto_offs [of "input st" "nidx st"] unfolding lp [symmetric]
    by (simp add: lpos_of_def)
  then have "1 \<le> l \<and> nat (l - 1) < length (lineStartFileOffsets st)" using assms by simp
  then show ?thesis by (auto simp: getCurrentLineFromInput_def Let_def split: prod.splits)
qed

lemma readNextToken_wf:
  assumes "lex_ok st" "readNextToken st = Inr (t, st')"
  shows "lex_ok st'" "tok_wf t" "tok_line_ok st' t" "line st \<le> line st'"
    "tokenLookahead st' = tokenLookahead st"
proof -
  obtain w where w: "tok_pos t = pos_at (input st) (nidx st - 1 + length w)" "lex_ok st'"
    "input st' = input st" "tokenLookahead st' = tokenLookahead st"
    and r: "if tok_type t = TT_Eof then rest st = w \<and> rest st' = [] \<and> tok_str t = ''EOF''
       else rest st = w @ tok_str t @ rest st' \<and> lexeme (tok_str t) = Some (tok_type t)
          \<and> longest_lexeme (tok_str t) (tok_str t @ rest st')"
    using readNextToken_spec [OF assms(1)] assms(2) by (auto simp: token_result_def)
  show "lex_ok st'" "tokenLookahead st' = tokenLookahead st" by (fact w)+
  show "tok_wf t" using r by (auto simp: tok_wf_def split: if_splits)
  have len: "length (rest st) = Suc (length (input st)) - nidx st"
    "length (rest st') = Suc (length (input st)) - nidx st'"
    using w(2,3) assms(1) by (auto simp: rest_def lex_ok_def)
  have n: "nidx st \<le> Suc (length (input st))" "0 < nidx st"
    "nidx st' \<le> Suc (length (input st))" "0 < nidx st'"
    using lex_ok_nidx [OF assms(1)] lex_ok_nidx [OF w(2)] assms(1) w(2,3) by (simp_all add: lex_ok_def)
  have le: "nidx st - 1 + length w \<le> nidx st' - 1"
  proof (cases "tok_type t = TT_Eof")
    case True
    with r len n show ?thesis by auto
  next
    case False
    with r have "length (rest st) = length w + length (tok_str t) + length (rest st')" by simp
    with len n show ?thesis by linarith
  qed
  have l: "pos_line (tok_pos t) = line_no (input st) (nidx st - 1 + length w)"
    using w(1) by (simp add: pos_at_def mk_pos_def pos_upto_line del: pos_upto.simps)
  have l': "line st' = line_no (input st) (nidx st' - 1)" using lex_ok_line [OF w(2)] w(3) by simp
  show "tok_line_ok st' t" unfolding tok_line_ok_def l l'
    using line_no_mono [OF le, of "input st"] by (auto simp: line_no_def)
  show "line st \<le> line st'" unfolding l' lex_ok_line [OF assms(1)]
    using line_no_mono [of "nidx st - 1" "nidx st' - 1" "input st"] le by simp
qed

lemma tok_line_ok_mono: "tok_line_ok st t \<Longrightarrow> line st \<le> line st' \<Longrightarrow> tok_line_ok st' t"
  by (simp add: tok_line_ok_def)

lemma nextToken_wf:
  assumes "lq_ok st" "nextToken st = Inr (t, st')"
  shows "lq_ok st'" "tok_wf t" "tok_line_ok st' t"
proof -
  have "lq_ok st' \<and> tok_wf t \<and> tok_line_ok st' t"
  proof (cases "tokenLookahead st")
    case Nil
    with assms have "readNextToken st = Inr (t, st')" "lex_ok st"
      by (simp_all add: nextToken_def lq_ok_def)
    from readNextToken_wf [OF this(2,1)] Nil show ?thesis by (simp add: lq_ok_def)
  next
    case (Cons a list)
    with assms show ?thesis
      by (auto simp: nextToken_def lq_ok_def tok_line_ok_def)
  qed
  then show "lq_ok st'" "tok_wf t" "tok_line_ok st' t" by simp_all
qed

lemma pushTokens_wf:
  "lq_ok st \<Longrightarrow> pushTokens k st = Inr st' \<Longrightarrow> lq_ok st' \<and> line st \<le> line st'"
proof (induction k arbitrary: st)
  case (Suc k)
  then obtain t st1 where t: "readNextToken st = Inr (t, st1)"
    and p: "pushTokens k (st1\<lparr>tokenLookahead := tokenLookahead st1 @ [t]\<rparr>) = Inr st'"
    by (auto simp: bindE_eq_Inr)
  have "lex_ok st" using Suc.prems(1) by (simp add: lq_ok_def)
  note w = readNextToken_wf [OF this t]
  have "lq_ok (st1\<lparr>tokenLookahead := tokenLookahead st1 @ [t]\<rparr>)"
    using w Suc.prems(1) by (auto simp: lq_ok_def tok_line_ok_def)
  with Suc.IH [OF _ p] w(4) show ?case by simp
qed simp

lemma lookAhead_wf:
  "lq_ok st \<Longrightarrow> lookAhead n st = Inr (t, st') \<Longrightarrow> lq_ok st' \<and> line st \<le> line st'"
  using pushTokens_wf
  by (auto simp: lookAhead_def peekAhead_def bindE_eq_Inr split: if_splits)

section \<open>Results\<close>

definition res_ok :: "('a \<Rightarrow> bool) \<Rightarrow> nat \<Rightarrow> 'a presult \<Rightarrow> bool" where
  "res_ok Q N r = (case r of Inl e \<Rightarrow> perr_ok e
     | Inr p \<Rightarrow> Q (fst p) \<and> pgood (snd p) \<and> toks (snd p) < N)"

definition ps_ok :: "nat \<Rightarrow> parse_error + pstate \<Rightarrow> bool" where
  "ps_ok N r = (case r of Inl e \<Rightarrow> perr_ok e | Inr ps \<Rightarrow> pgood ps \<and> toks ps < N)"

lemma res_ok_Inr [simp]: "res_ok Q N (Inr (x, ps)) \<longleftrightarrow> Q x \<and> pgood ps \<and> toks ps < N"
  by (simp add: res_ok_def)

lemma ps_ok_Inr [simp]: "ps_ok N (Inr ps) \<longleftrightarrow> pgood ps \<and> toks ps < N"
  by (simp add: ps_ok_def)

lemma res_bind:
  "res_ok R M m \<Longrightarrow> (\<And>x ps. R x \<Longrightarrow> pgood ps \<Longrightarrow> toks ps < M \<Longrightarrow> res_ok Q N (f (x, ps))) \<Longrightarrow> res_ok Q N (bindE m f)"
  by (cases m) (auto simp: res_ok_def [of _ _ m] res_ok_def [of _ _ "Inl _"])

lemma ps_bind:
  "ps_ok M m \<Longrightarrow> (\<And>ps. pgood ps \<Longrightarrow> toks ps < M \<Longrightarrow> res_ok Q N (f ps)) \<Longrightarrow> res_ok Q N (bindE m f)"
  by (cases m) (auto simp: ps_ok_def res_ok_def [of _ _ "Inl _"])

lemma ps_ps_bind:
  "ps_ok M m \<Longrightarrow> (\<And>ps. pgood ps \<Longrightarrow> toks ps < M \<Longrightarrow> ps_ok N (f ps)) \<Longrightarrow> ps_ok N (bindE m f)"
  by (cases m) (auto simp: ps_ok_def)

lemma res_ok_mono: "res_ok Q M r \<Longrightarrow> M \<le> N \<Longrightarrow> res_ok Q N r"
  by (auto simp: res_ok_def split: sum.splits)

lemma ps_ok_mono: "ps_ok M r \<Longrightarrow> M \<le> N \<Longrightarrow> ps_ok N r"
  by (auto simp: ps_ok_def split: sum.splits)

text \<open>
  \<open>consumer Q n p\<close>: with less than \<open>n\<close> tokens left, \<open>p\<close> is safe and takes at least one token;
  \<open>weak_consumer Q n p\<close>: it may take none.
\<close>

definition consumer :: "('a \<Rightarrow> bool) \<Rightarrow> nat \<Rightarrow> (pstate \<Rightarrow> 'a presult) \<Rightarrow> bool" where
  "consumer Q n p \<longleftrightarrow> (\<forall>ps. pgood ps \<longrightarrow> toks ps < n \<longrightarrow> res_ok Q (toks ps) (p ps))"

definition weak_consumer :: "('a \<Rightarrow> bool) \<Rightarrow> nat \<Rightarrow> (pstate \<Rightarrow> 'a presult) \<Rightarrow> bool" where
  "weak_consumer Q n p \<longleftrightarrow> (\<forall>ps. pgood ps \<longrightarrow> toks ps < n \<longrightarrow> res_ok Q (Suc (toks ps)) (p ps))"

lemma consumerD: "consumer Q n p \<Longrightarrow> pgood ps \<Longrightarrow> toks ps < n \<Longrightarrow> toks ps \<le> N \<Longrightarrow> res_ok Q N (p ps)"
  unfolding consumer_def using res_ok_mono by blast

lemma weak_consumerD: "weak_consumer Q n p \<Longrightarrow> pgood ps \<Longrightarrow> toks ps < n \<Longrightarrow> toks ps < N \<Longrightarrow> res_ok Q N (p ps)"
  unfolding weak_consumer_def using res_ok_mono Suc_leI by blast

lemma consumer_weak: "consumer Q n p \<Longrightarrow> weak_consumer Q n p"
  unfolding weak_consumer_def by (auto intro: consumerD)

lemma consumer_less: "consumer Q n p \<Longrightarrow> m \<le> n \<Longrightarrow> consumer Q m p"
  by (auto simp: consumer_def)

lemma weak_consumer_less: "weak_consumer Q n p \<Longrightarrow> m \<le> n \<Longrightarrow> weak_consumer Q m p"
  by (auto simp: weak_consumer_def)

lemma consumer_bind:
  "consumer R n p \<Longrightarrow> pgood ps \<Longrightarrow> toks ps < n
    \<Longrightarrow> (\<And>x ps'. R x \<Longrightarrow> pgood ps' \<Longrightarrow> toks ps' < toks ps \<Longrightarrow> res_ok Q N (f (x, ps'))) \<Longrightarrow> res_ok Q N (bindE (p ps) f)"
  by (rule res_bind [where M = "toks ps" and R = R]) (simp_all add: consumer_def)

lemma weak_consumer_bind:
  "weak_consumer R n p \<Longrightarrow> pgood ps \<Longrightarrow> toks ps < n
    \<Longrightarrow> (\<And>x ps'. R x \<Longrightarrow> pgood ps' \<Longrightarrow> toks ps' \<le> toks ps \<Longrightarrow> res_ok Q N (f (x, ps'))) \<Longrightarrow> res_ok Q N (bindE (p ps) f)"
  by (rule res_bind [where M = "Suc (toks ps)" and R = R]) (simp_all add: weak_consumer_def)

section \<open>Basic operations\<close>

lemma lexeme_semicolon: "lexeme '';'' = Some TT_Semicolon"
  by code_simp

lemma next_ok:
  assumes "pgoodU ps" "curType ps \<noteq> TT_Eof"
  shows "ps_ok (toks ps) (p_readNextToken ps)"
proof (cases "nextToken (lexr ps)")
  case (Inl e)
  then show ?thesis
    using lexq.nxt_error [OF _ Inl] assms(1)
    by (simp add: p_readNextToken_def liftLex_def ps_ok_def perr_ok_def pgoodU_def lq_ok_def)
next
  case (Inr p)
  obtain t l where p: "p = (t, l)" by (cases p)
  have ok: "lq_ok (lexr ps)" "lex_ok (lexr ps)" using assms by (simp_all add: pgoodU_def lq_ok_def)
  have "pgood (ps\<lparr>lexr := l, curTok := t\<rparr>)"
    using nextToken_wf [OF ok(1)] Inr p by (simp add: pgood_def)
  moreover have "toks (ps\<lparr>lexr := l, curTok := t\<rparr>) \<le> lex_toks (lexr ps)"
    using nextToken_left(2) [OF ok(2)] Inr p by (auto simp: toks_def)
  ultimately show ?thesis
    using Inr p assms(2) by (simp add: p_readNextToken_def liftLex_def toks_def)
qed

lemma next_bind:
  "pgoodU ps \<Longrightarrow> curType ps \<noteq> TT_Eof
    \<Longrightarrow> (\<And>ps'. pgood ps' \<Longrightarrow> toks ps' < toks ps \<Longrightarrow> res_ok Q N (f ps'))
    \<Longrightarrow> res_ok Q N (bindE (p_readNextToken ps) f)"
  by (rule ps_bind [OF next_ok])

lemma next_any_bind:
  assumes "pgoodU ps"
    and "\<And>ps'. pgood ps' \<Longrightarrow> toks ps' \<le> toks ps \<Longrightarrow> (curType ps \<noteq> TT_Eof \<Longrightarrow> toks ps' < toks ps)
      \<Longrightarrow> res_ok Q N (f ps')"
  shows "res_ok Q N (bindE (p_readNextToken ps) f)"
proof (cases "curType ps = TT_Eof")
  case True
  have "ps_ok (Suc (toks ps)) (p_readNextToken ps)"
  proof -
    have "ps_ok (toks (ps\<lparr>curTok := (curTok ps)\<lparr>tok_type := TT_Semicolon, tok_str := '';''\<rparr>\<rparr>))
        (p_readNextToken (ps\<lparr>curTok := (curTok ps)\<lparr>tok_type := TT_Semicolon, tok_str := '';''\<rparr>\<rparr>))"
      using assms(1) lexeme_semicolon
      by (intro next_ok) (simp_all add: pgoodU_def cur_wf_def tok_wf_def tok_line_ok_def)
    then show ?thesis using True by (simp add: toks_def p_readNextToken_def)
  qed
  then show ?thesis by (rule ps_bind) (use True assms(2) in simp_all)
qed (use assms in \<open>auto intro!: next_bind\<close>)

lemma look_bind:
  assumes "pgood ps" "0 < n"
    and "\<And>t ps'. pgood ps' \<Longrightarrow> toks ps' \<le> toks ps \<Longrightarrow> curType ps' = curType ps \<Longrightarrow> res_ok Q N (f (t, ps'))"
  shows "res_ok Q N (bindE (p_lookAhead n ps) f)"
proof (cases "lookAhead n (lexr ps)")
  case (Inl e)
  then show ?thesis
    using lexq.look_error [OF _ assms(2) Inl] assms(1)
    by (simp add: p_lookAhead_def liftLex_def res_ok_def perr_ok_def pgood_def lq_ok_def)
next
  case (Inr p)
  obtain t l where p: "p = (t, l)" by (cases p)
  have ok: "lq_ok (lexr ps)" "lex_ok (lexr ps)" using assms by (simp_all add: pgood_def lq_ok_def)
  have "pgood (ps\<lparr>lexr := l\<rparr>)"
    using lookAhead_wf [OF ok(1)] Inr p assms(1) by (auto simp: pgood_def intro: tok_line_ok_mono)
  moreover have "toks (ps\<lparr>lexr := l\<rparr>) \<le> toks ps"
    using lexq.look_left [OF ok(2)] Inr p by (simp add: toks_def)
  ultimately show ?thesis
    using Inr p assms(3) [of "ps\<lparr>lexr := l\<rparr>" t] by (simp add: p_lookAhead_def liftLex_def)
qed

lemma p_error_line:
  "pgoodU ps \<Longrightarrow>
    \<exists>ln. liftLex (getCurrentLineFromInput (pos_line (tok_pos (curTok ps))) (lexr ps)) = Inr ln"
  using getLine_ok [of "lexr ps" "pos_line (tok_pos (curTok ps))"]
  by (auto simp: liftLex_def pgoodU_def lq_ok_def tok_line_ok_def)

lemma p_error_res: "pgoodU ps \<Longrightarrow> res_ok Q N (p_error msg ps)"
  by (drule p_error_line) (auto simp: p_error_def res_ok_def perr_ok_def)

lemma p_error_bind: "pgoodU ps \<Longrightarrow> res_ok Q N (bindE (p_error msg ps) f)"
  by (drule p_error_line) (auto simp: p_error_def res_ok_def perr_ok_def)

lemma p_error_ps_bind: "pgoodU ps \<Longrightarrow> ps_ok N (bindE (p_error msg ps) f)"
  by (drule p_error_line) (auto simp: p_error_def ps_ok_def perr_ok_def)

lemma errorExpected_res: "pgoodU ps \<Longrightarrow> res_ok Q N (errorExpectedAnyOf ts ps)"
  unfolding errorExpectedAnyOf_def by (rule p_error_res)

lemma expect_bind:
  assumes "pgoodU ps" "curType ps = tt \<Longrightarrow> res_ok Q N (f ())"
  shows "res_ok Q N (bindE (expect tt ps) f)"
  using assms p_error_bind by (auto simp: expect_def)

lemma expectAndNext_ok: "pgoodU ps \<Longrightarrow> tt \<noteq> TT_Eof \<Longrightarrow> ps_ok (toks ps) (expectAndNext tt ps)"
  using next_ok [of ps] by (auto simp: expectAndNext_def expect_def p_error_ps_bind)

lemma expectAndNext_bind:
  "pgoodU ps \<Longrightarrow> tt \<noteq> TT_Eof
    \<Longrightarrow> (\<And>ps'. pgood ps' \<Longrightarrow> toks ps' < toks ps \<Longrightarrow> res_ok Q N (f ps'))
    \<Longrightarrow> res_ok Q N (bindE (expectAndNext tt ps) f)"
  by (rule ps_bind [OF expectAndNext_ok])

lemma expectGet_bind:
  assumes "pgood ps" "tt \<noteq> TT_Eof"
    and "\<And>s ps'. (tt = TT_Identifier \<Longrightarrow> ident s) \<Longrightarrow> pgood ps' \<Longrightarrow> toks ps' < toks ps \<Longrightarrow> res_ok Q N (f (s, ps'))"
  shows "res_ok Q N (bindE (expectGetIdentAndNext tt ps) f)"
  unfolding expectGetIdentAndNext_def bindE_assoc
  using assms
  by (intro expect_bind next_bind) (auto simp: pgood_def tok_wf_def ident_def)

lemma intern_res:
  assumes "pgood ps" "\<And>ps'. pgood ps' \<Longrightarrow> toks ps' = toks ps \<Longrightarrow> curType ps' = curType ps \<Longrightarrow> res_ok Q N (f n ps')"
  shows "res_ok Q N (case intern n ps of (s, ps') \<Rightarrow> f s ps')"
  using assms by (auto simp: intern_def findOrInsert_def pgood_def toks_def)

lemmas parse_ok_any = next_any_bind look_bind expectAndNext_bind expectGet_bind intern_res
  errorExpected_res p_error_bind p_error_res

lemmas parse_ok = next_bind look_bind expectAndNext_bind expectGet_bind intern_res errorExpected_res
  p_error_bind p_error_res

lemma cur_ident: "pgoodU ps \<Longrightarrow> curType ps = TT_Identifier \<Longrightarrow> ident (tok_str (curTok ps))"
  by (auto simp: pgoodU_def cur_wf_def tok_wf_def ident_def)

section \<open>Types\<close>

lemma parseBasicType_ok: "consumer wf_basic n parseBasicType"
  unfolding consumer_def parseBasicType_def Let_def
  by (auto intro!: parse_ok simp: getTypeForToken_def cur_ident)

lemma typeLoop_ok:
  "wf_basic b \<Longrightarrow> 0 \<le> dims \<Longrightarrow> weak_consumer wf_type n (typeLoop n startP endP b dims)"
proof (induction n arbitrary: endP dims)
  case (Suc n)
  show ?case
    unfolding weak_consumer_def using Suc.prems
    by (auto simp: Let_def intro!: parse_ok weak_consumerD [OF Suc.IH])
qed (simp add: weak_consumer_def)

lemma parseType_ok: "consumer wf_type n (parseType n)"
  unfolding consumer_def parseType_def Let_def
  by (auto intro!: consumer_bind [OF parseBasicType_ok [of n]] weak_consumerD [OF typeLoop_ok])

section \<open>Expressions\<close>

lemma is_digit_schar: "isDigit (schar c) \<longleftrightarrow> is_digit c"
proof (cases "(of_char c :: nat) < 128")
  case True
  then have "schar c = int (of_char c)" by (simp add: schar_def)
  then show ?thesis by (simp add: isDigit_def is_digit_def less_eq_char_def)
next
  case False
  then have "schar c = int (of_char c) - 256" by (simp add: schar_def)
  moreover have "(of_char c :: nat) < 256" by (rule of_char_less_256)
  ultimately have "schar c < 0" by linarith
  with False show ?thesis by (simp add: isDigit_def is_digit_def less_eq_char_def)
qed

lemma lexeme_intlit: "lexeme s = Some TT_IntLiteral \<Longrightarrow> is_intlit s"
proof -
  have "TT_IntLiteral \<notin> snd ` set identifierTokens" "TT_IntLiteral \<notin> snd ` set op_table"
    by (simp_all add: identifierTokens_def op_eval)
  then have "map_of identifierTokens s \<noteq> Some TT_IntLiteral" "map_of op_table s \<noteq> Some TT_IntLiteral"
    by (force dest: map_of_SomeD)+
  then show "lexeme s = Some TT_IntLiteral \<Longrightarrow> is_intlit s"
    by (auto simp: lexeme_def split: if_splits option.splits)
qed

lemma stoi_valid:
  assumes "cur_wf t" "tok_type t = TT_IntLiteral"
  shows "stoi (tok_str t) \<noteq> Inl InvalidArgument"
proof -
  have digits: "is_intlit s \<Longrightarrow> \<exists>c cs. s = c # cs \<and> is_digit c" for s
    by (auto simp: is_intlit_def is_digit_schar split: list.splits) (simp add: is_digit_def less_eq_char_def)
  note lexeme_intlit
  with assms have "\<exists>s. is_intlit s \<and> (tok_str t = s \<or> tok_str t = CHR ''-'' # s)"
    by (auto simp: cur_wf_def tok_wf_def)
  with digits obtain c cs where c: "is_digit c" "tok_str t = c # cs \<or> tok_str t = CHR ''-'' # c # cs"
    by blast
  then have "c \<notin> set [CHR 0x20, CHR 0x09, CHR 0x0A, CHR 0x0B, CHR 0x0C, CHR 0x0D]"
    "c \<noteq> CHR ''-''" "c \<noteq> CHR ''+''" by (auto simp: is_digit_def less_eq_char_def)
  with c show ?thesis by (auto simp: stoi_def Let_def)
qed

lemma stoi_range: "stoi s = Inr v \<Longrightarrow> - (2 ^ 31) \<le> v \<and> v \<le> 2 ^ 31 - 1"
  by (auto simp: stoi_def Let_def split: if_splits)

lemma argLoop_ok:
  assumes "consumer wf_expr n p" "n \<le> k" "\<forall>e \<in> set acc. wf_expr e"
  shows "weak_consumer (\<lambda>es. \<forall>e \<in> set es. wf_expr e) n (argLoop k p acc)"
  using assms
proof (induction k arbitrary: n acc)
  case (Suc k)
  have p: "consumer wf_expr (n - 1) p" using Suc.prems(1) by (rule consumer_less) simp
  have IH: "\<forall>e \<in> set acc'. wf_expr e
      \<Longrightarrow> weak_consumer (\<lambda>es. \<forall>e \<in> set es. wf_expr e) (n - 1) (argLoop k p acc')" for acc'
    using Suc.IH [OF p] Suc.prems(2) by simp
  show ?case
    unfolding weak_consumer_def using Suc.prems(3)
    by (auto simp: Let_def intro!: parse_ok consumer_bind [OF Suc.prems(1)] weak_consumerD [OF IH])
qed (simp add: weak_consumer_def)

lemma parseArguments_ok:
  assumes "consumer wf_expr n p" "n \<le> k"
  shows "weak_consumer (\<lambda>es. \<forall>e \<in> set es. wf_expr e) n (parseArguments k p)"
  unfolding weak_consumer_def parseArguments_def
  by (auto intro!: parse_ok consumer_bind [OF assms(1)] weak_consumerD [OF argLoop_ok [OF assms]])

lemma newDimLoop_ok: "1 \<le> dim \<Longrightarrow> weak_consumer (\<lambda>(_, d). 1 \<le> d) n (newDimLoop n endP dim)"
proof (induction n arbitrary: endP dim)
  case (Suc n)
  show ?case
    unfolding weak_consumer_def using Suc.prems
    by (auto simp: Let_def intro!: parse_ok_any weak_consumerD [OF Suc.IH])
qed (simp add: weak_consumer_def)

lemma parseNewExpr_ok:
  assumes "consumer wf_expr n p" "n \<le> k"
  shows "consumer wf_expr (Suc n) (parseNewExpr k p)"
  unfolding consumer_def parseNewExpr_def Let_def
  by (auto intro!: parse_ok_any consumer_bind [OF assms(1)] consumer_bind [OF parseBasicType_ok [of n]]
      weak_consumer_bind [OF weak_consumer_less [OF newDimLoop_ok assms(2)]])

lemma parsePrimary_ok:
  assumes p: "consumer wf_expr n p" "n \<le> k" and ps: "pgoodU ps" "toks ps < Suc n"
  shows "res_ok wf_expr (toks ps) (parsePrimary k p ps)"
proof (cases "curType ps = TT_New")
  case True
  then have "pgood ps" using ps(1) by (simp add: pgoodU_good)
  with True show ?thesis
    using consumerD [OF parseNewExpr_ok [OF p] _ ps(2), of "toks ps"]
    by (simp add: parsePrimary_def)
next
  case False
  have i: "curType ps = TT_IntLiteral \<Longrightarrow> stoi (tok_str (curTok ps)) \<noteq> Inl InvalidArgument"
    using ps(1) stoi_valid by (simp add: pgoodU_def)
  have r: "stoi (tok_str (curTok ps)) = Inr v \<Longrightarrow> - 2147483648 \<le> v \<and> v \<le> 2147483647" for v
    using stoi_range by force
  show ?thesis
    unfolding parsePrimary_def Let_def using ps False i r cur_ident [OF ps(1)]
    by (auto intro!: parse_ok consumer_bind [OF p(1)] weak_consumer_bind [OF parseArguments_ok [OF p]]
        split: sum.split stoi_error.split)
qed

lemma parseMemberAccess_ok:
  assumes "consumer wf_expr n p" "n \<le> k" "wf_expr lhs"
  shows "consumer wf_expr (Suc n) (parseMemberAccess k p lhs)"
  unfolding consumer_def parseMemberAccess_def Let_def
  using assms(3) by (auto intro!: parse_ok weak_consumer_bind [OF parseArguments_ok [OF assms(1,2)]])

lemma parseArrayAccess_ok:
  assumes "consumer wf_expr n p" "wf_expr lhs"
  shows "consumer wf_expr (Suc n) (parseArrayAccess p lhs)"
  unfolding consumer_def parseArrayAccess_def Let_def
  using assms(2) by (auto intro!: parse_ok consumer_bind [OF assms(1)])

lemma postfixLoop_ok:
  assumes "consumer wf_expr n p" "n \<le> k"
    "wf_expr lhs"
  shows "weak_consumer wf_expr n (postfixLoop k p lhs)"
  using assms
proof (induction k arbitrary: n lhs)
  case (Suc k)
  have p: "consumer wf_expr (n - 1) p" using Suc.prems(1) by (rule consumer_less) simp
  have IH: "wf_expr lhs' \<Longrightarrow> weak_consumer wf_expr (n - 1) (postfixLoop k p lhs')" for lhs'
    using Suc.IH [OF p] Suc.prems(2) by simp
  show ?case
    unfolding weak_consumer_def using Suc.prems(3)
    by (auto intro!: consumer_bind [OF parseMemberAccess_ok [OF Suc.prems]]
        consumer_bind [OF parseArrayAccess_ok [OF Suc.prems(1,3)]] weak_consumerD [OF IH])
qed (simp add: weak_consumer_def)

lemma parsePostfixExpr_ok:
  assumes p: "consumer wf_expr n p" "n \<le> k" and ps: "pgoodU ps" "toks ps < Suc n"
  shows "res_ok wf_expr (toks ps) (parsePostfixExpr k p ps)"
  unfolding parsePostfixExpr_def
  by (rule res_bind [OF parsePrimary_ok [OF assms]])
    (use ps in \<open>auto intro!: weak_consumerD [OF postfixLoop_ok [OF p]]\<close>)

text \<open>Putting a minus sign before the current literal.\<close>

lemma pgoodU_minus:
  assumes "pgood ps" "curType ps = TT_IntLiteral"
  shows "pgoodU (ps\<lparr>curTok := (curTok ps)\<lparr>tok_str := CHR ''-'' # tok_str (curTok ps)\<rparr>\<rparr>)"
proof -
  have "lexeme (tok_str (curTok ps)) = Some TT_IntLiteral"
    using assms by (simp add: pgood_def tok_wf_def)
  then have "is_intlit (tok_str (curTok ps))" by (rule lexeme_intlit)
  then show ?thesis using assms by (simp add: pgood_def pgoodU_def cur_wf_def tok_line_ok_def)
qed

definition unary_tok :: "token \<Rightarrow> bool" where
  "unary_tok t \<longleftrightarrow> tok_type t = TT_Bang \<or> tok_type t = TT_Minus"

lemma wrapUnaries_wf: "wf_expr e \<Longrightarrow> \<forall>t \<in> set us. unary_tok t \<Longrightarrow> wf_expr (wrapUnaries us e)"
  unfolding wrapUnaries_def Let_def
  by (induction us) (auto simp: unary_getOpForToken_def unary_tok_def)

lemma parseUnary_ok:
  assumes "consumer wf_expr n p" "n < k" "\<forall>t \<in> set us. unary_tok t"
  shows "consumer wf_expr (Suc n) (parseUnary k p us)"
  using assms
proof (induction k arbitrary: n us)
  case (Suc k)
  have post: "res_ok wf_expr (toks ps)
      (bindE (parsePostfixExpr (Suc k) p ps) (\<lambda>(e, ps2). Inr (wrapUnaries us' e, ps2)))"
    if "pgoodU ps" "toks ps < Suc n" "set us' \<subseteq> set us" for ps us'
    by (rule res_bind [OF parsePostfixExpr_ok [OF Suc.prems(1) _ that(1,2)]])
      (use Suc.prems(2,3) that(3) in \<open>auto intro!: wrapUnaries_wf\<close>)
  have un: "res_ok wf_expr (toks ps) (bindE (p_readNextToken ps) (parseUnary k p (us @ [curTok ps])))"
    if "pgood ps" "toks ps < Suc n" "curType ps = TT_Bang \<or> curType ps = TT_Minus" for ps
  proof -
    have p: "consumer wf_expr (n - 1) p" using Suc.prems(1) by (rule consumer_less) simp
    have "0 < toks ps" using that(3) by (auto simp: toks_def)
    then have "consumer wf_expr n (parseUnary k p (us @ [curTok ps]))"
      using Suc.IH [OF p, of "us @ [curTok ps]"] Suc.prems(2,3) that by (cases n) (auto simp: unary_tok_def)
    then show ?thesis using that by (auto intro!: next_bind consumerD)
  qed
  show ?case
    unfolding consumer_def
  proof (intro allI impI)
    fix ps assume ps: "pgood ps" "toks ps < Suc n"
    have t: "toks (ps\<lparr>curTok := (curTok ps)\<lparr>tok_str := s\<rparr>\<rparr>) = toks ps" for s
      by (simp add: toks_def)
    have "set (butlast us) \<subseteq> set us" by (auto dest: in_set_butlastD)
    then show "res_ok wf_expr (toks ps) (parseUnary (Suc k) p us ps)"
      using un [OF ps] post [OF pgood_U [OF ps(1)] ps(2), of us] pgoodU_minus [OF ps(1)] ps(2) t
        post [of "ps\<lparr>curTok := (curTok ps)\<lparr>tok_str := CHR ''-'' # tok_str (curTok ps)\<rparr>\<rparr>" "butlast us"]
      by (auto simp: Let_def)
  qed
qed (simp add: consumer_def)

lemma precLoop_ok:
  assumes "\<And>m. 0 \<le> m \<Longrightarrow> consumer wf_expr n (p m)" "n \<le> k" "0 \<le> minPrec" "wf_expr e"
  shows "weak_consumer wf_expr n (precLoop k p minPrec startP e)"
  using assms
proof (induction k arbitrary: n e)
  case (Suc k)
  have p: "consumer wf_expr (n - 1) (p m)" if "0 \<le> m" for m
    using Suc.prems(1) [OF that] by (rule consumer_less) simp
  have IH: "wf_expr e' \<Longrightarrow> weak_consumer wf_expr (n - 1) (precLoop k p minPrec startP e')" for e'
    using Suc.IH [OF p] Suc.prems(2,3) by simp
  have e: "getOpPrec TT_Eof = - 1" by (simp add: getOpPrec_def)
  have op: "binary_getOpForToken t \<noteq> Op_None" if "0 \<le> getOpPrec t" for t
    using that by (cases t) (simp_all add: getOpPrec_def binary_getOpForToken_def)
  show ?case
    unfolding weak_consumer_def using Suc.prems(3,4) e op
    by (auto simp: Let_def intro!: next_bind consumer_bind [OF Suc.prems(1)] weak_consumerD [OF IH])
qed (simp add: weak_consumer_def)

lemma precedenceParse_ok: "0 \<le> minPrec \<Longrightarrow> consumer wf_expr n (precedenceParse n minPrec)"
proof (induction n arbitrary: minPrec)
  case (Suc n)
  have u: "consumer wf_expr (Suc n) (parseUnary (Suc n) (precedenceParse n 0) [])"
    using Suc.IH by (rule parseUnary_ok) simp_all
  have l: "wf_expr e \<Longrightarrow> weak_consumer wf_expr n (precLoop (Suc n) (precedenceParse n) minPrec startP e)"
    for startP e
    using Suc by (intro precLoop_ok) simp_all
  show ?case
    unfolding consumer_def precedenceParse.simps Let_def
    by (auto simp del: parseUnary.simps precLoop.simps
        intro!: consumer_bind [OF u] weak_consumerD [OF l])
qed (simp add: consumer_def)

lemma parseExpr_ok: "consumer wf_expr n (parseExpr n)"
  using precedenceParse_ok [of 0 n] by (simp add: consumer_def parseExpr_def)

section \<open>Statements\<close>

text \<open>A statement that is no declaration, and what \<open>parseStmt\<close> returns.\<close>

definition wf_branch :: "stmt \<Rightarrow> bool" where
  "wf_branch s \<longleftrightarrow> wf_stmt s \<and> \<not> is_decl s"

definition wf_opt :: "stmt option \<Rightarrow> bool" where
  "wf_opt o' = (case o' of None \<Rightarrow> True | Some s \<Rightarrow> wf_branch s)"

lemma wf_opt_simps [simp]: "wf_opt None" "wf_opt (Some s) = wf_branch s"
  by (simp_all add: wf_opt_def)

lemma wf_opt_case: "wf_opt o' \<Longrightarrow> case o' of None \<Rightarrow> True | Some s \<Rightarrow> wf_stmt s \<and> \<not> is_decl s"
  by (simp add: wf_opt_def wf_branch_def split: option.splits)

lemma parseLocalVarDeclStmt_ok: "consumer wf_stmt n (parseLocalVarDeclStmt n)"
  unfolding consumer_def parseLocalVarDeclStmt_def Let_def
  by (auto intro!: parse_ok consumer_bind [OF parseType_ok] consumer_bind [OF parseExpr_ok])

lemma parseExprStmt_ok: "consumer wf_branch n (parseExprStmt n)"
  unfolding consumer_def parseExprStmt_def Let_def
  by (auto simp: wf_branch_def intro!: parse_ok consumer_bind [OF parseExpr_ok])

lemma parseReturnStmt_ok: "consumer wf_branch n (parseReturnStmt n)"
  unfolding consumer_def parseReturnStmt_def Let_def
  by (auto simp: wf_branch_def intro!: parse_ok consumer_bind [OF parseExpr_ok])

lemma parseIfStmt_ok:
  assumes "consumer wf_opt n p"
  shows "consumer wf_branch (Suc n) (parseIfStmt (Suc n) p)"
  unfolding consumer_def parseIfStmt_def Let_def
  using wf_opt_case by (auto simp: wf_branch_def intro!: parse_ok consumer_bind [OF parseExpr_ok] consumer_bind [OF assms]
      simp: bindE_assoc split: if_split)

lemma parseWhileStmt_ok:
  assumes "consumer wf_opt n p"
  shows "consumer wf_branch (Suc n) (parseWhileStmt (Suc n) p)"
  unfolding consumer_def parseWhileStmt_def Let_def
  using wf_opt_case by (auto simp: wf_branch_def intro!: parse_ok consumer_bind [OF parseExpr_ok] consumer_bind [OF assms])

lemma blockStart_cases:
  "t \<in> set blockStart \<Longrightarrow> t = TT_Boolean \<or> t = TT_Int \<or> t = TT_Void \<or> t \<in> set stmtStart \<or> t = TT_Identifier"
  by (auto simp: blockStart_def stmtStart_def)

lemma consumer_stmt:
  "consumer wf_opt n p \<Longrightarrow> consumer (\<lambda>o'. case o' of None \<Rightarrow> True | Some s \<Rightarrow> wf_stmt s) n p"
  unfolding consumer_def res_ok_def
  by (fastforce simp: wf_opt_def wf_branch_def split: sum.splits option.splits)

lemma parseBlockStatement_ok:
  assumes "consumer wf_opt n p" "n \<le> k" "pgood ps" "toks ps < n" "curType ps \<in> set blockStart"
  shows "res_ok (\<lambda>o'. case o' of None \<Rightarrow> True | Some s \<Rightarrow> wf_stmt s) (toks ps) (parseBlockStatement k p ps)"
  unfolding parseBlockStatement_def Let_def
  using assms(3,4) blockStart_cases [OF assms(5)]
  by (auto intro!: parse_ok consumer_bind [OF consumer_less [OF parseLocalVarDeclStmt_ok assms(2)]]
      consumerD [OF consumer_stmt [OF assms(1)]])

definition wf_block :: "stmt \<Rightarrow> bool" where
  "wf_block s \<longleftrightarrow> wf_stmt s \<and> is_block s"

lemma wf_block_branch: "wf_block s \<Longrightarrow> wf_branch s"
  by (cases s) (simp_all add: wf_block_def wf_branch_def is_block_def)

lemma blockLoop_ok:
  assumes "consumer wf_opt n p" "n \<le> k" "\<forall>s \<in> set acc. wf_stmt s"
  shows "weak_consumer wf_block n (blockLoop k p startP acc)"
  using assms
proof (induction k arbitrary: n acc)
  case (Suc k)
  have p: "consumer wf_opt (n - 1) p" using Suc.prems(1) by (rule consumer_less) simp
  have IH: "\<forall>s \<in> set acc'. wf_stmt s \<Longrightarrow> weak_consumer wf_block (n - 1) (blockLoop k p startP acc')"
    for acc'
    using Suc.IH [OF p] Suc.prems(2) by simp
  show ?case
    unfolding weak_consumer_def using Suc.prems(3)
    by (auto simp: Let_def wf_block_def is_block_def intro!: parse_ok
        res_bind [OF parseBlockStatement_ok [OF Suc.prems(1,2)]] weak_consumerD [OF IH]
        split: option.splits)
qed (simp add: weak_consumer_def)

lemma parseBlock_ok:
  assumes "consumer wf_opt n p" "n \<le> k"
  shows "consumer wf_block (Suc n) (parseBlock k p)"
  unfolding consumer_def parseBlock_def Let_def
  by (auto intro!: parse_ok weak_consumerD [OF blockLoop_ok [OF assms]])

lemma some_stmt_ok:
  "consumer wf_branch n p \<Longrightarrow> pgood ps \<Longrightarrow> toks ps < n \<Longrightarrow> res_ok wf_opt (toks ps) (some_stmt (p ps))"
  unfolding some_stmt_def by (auto intro!: consumer_bind)

lemma consumer_block: "consumer wf_block n p \<Longrightarrow> consumer wf_branch n p"
  unfolding consumer_def res_ok_def by (fastforce dest: wf_block_branch split: sum.splits)

lemma parseStmt_ok: "consumer wf_opt n (parseStmt n)"
proof (induction n)
  case (Suc n)
  have b: "consumer wf_branch (Suc n) (parseBlock (Suc n) (parseStmt n))"
    using Suc by (intro consumer_block parseBlock_ok) simp_all
  show ?case
    unfolding consumer_def parseStmt.simps Let_def
    by (auto intro!: parse_ok some_stmt_ok [OF b] some_stmt_ok [OF parseIfStmt_ok [OF Suc]]
        some_stmt_ok [OF parseWhileStmt_ok [OF Suc]] some_stmt_ok [OF parseReturnStmt_ok]
        some_stmt_ok [OF parseExprStmt_ok])
qed (simp add: consumer_def)

section \<open>Classes\<close>

definition wf_param :: "int \<Rightarrow> parameter \<Rightarrow> bool" where
  "wf_param i p \<longleftrightarrow> wf_type (p_type p) \<and> ident (p_name p) \<and> p_idx p = i"

lemma wf_params_Nil [simp]: "wf_params []"
  by (simp add: wf_params_def)

lemma wf_params_snoc: "wf_params ps \<Longrightarrow> wf_param (int (length ps) + 1) p \<Longrightarrow> wf_params (ps @ [p])"
  by (auto simp: wf_params_def wf_param_def)

lemma parseParameter_ok: "consumer (wf_param idx) n (parseParameter n idx)"
  unfolding consumer_def parseParameter_def Let_def
  by (auto simp: wf_param_def intro!: parse_ok consumer_bind [OF parseType_ok])

lemma paramLoop_ok:
  "wf_params acc \<Longrightarrow> idx = int (length acc) \<Longrightarrow> weak_consumer wf_params n (paramLoop n idx acc)"
proof (induction n arbitrary: idx acc)
  case (Suc n)
  have IH: "weak_consumer wf_params n (paramLoop n (idx + 1) (acc @ [p]))" if "wf_param (idx + 1) p" for p
    using Suc.IH [of "acc @ [p]" "idx + 1"] Suc.prems that wf_params_snoc by simp
  show ?case
    unfolding weak_consumer_def using Suc.prems(1)
    by (auto intro!: parse_ok consumer_bind [OF parseParameter_ok] weak_consumerD [OF IH])
qed (simp add: weak_consumer_def)

lemma parseParameterList_ok: "weak_consumer wf_params n (parseParameterList n)"
proof -
  have "weak_consumer wf_params n (paramLoop n 1 [p])" if "wf_param 1 p" for p
    using paramLoop_ok [of "[p]" 1 n] wf_params_snoc [of "[]" p] that by simp
  then show ?thesis
    unfolding weak_consumer_def [of _ _ "parseParameterList n"] parseParameterList_def
    by (auto intro!: consumer_bind [OF parseParameter_ok] weak_consumerD)
qed

lemma skipThrows_bind:
  "pgood ps \<Longrightarrow> (\<And>ps'. pgood ps' \<Longrightarrow> toks ps' \<le> toks ps \<Longrightarrow> res_ok Q N (f ps'))
    \<Longrightarrow> res_ok Q N (bindE (skipThrows ps) f)"
  unfolding skipThrows_def bindE_assoc
  by (auto simp: bindE_assoc intro!: next_any_bind expectAndNext_bind split: if_split)

lemma method_block_ok: "consumer wf_block (Suc n) (parseBlock n (parseStmt n))"
  by (rule parseBlock_ok [OF parseStmt_ok]) simp

lemma parseMainMethod_ok: "consumer wf_main n (parseMainMethod n)"
  unfolding consumer_def parseMainMethod_def Let_def
  by (auto simp: wf_main_def wf_block_def intro!: parse_ok expect_bind skipThrows_bind
      consumer_bind [OF method_block_ok] split: if_split)

definition wf_fms :: "field list \<times> regular_method list \<Rightarrow> bool" where
  "wf_fms fm \<longleftrightarrow> (\<forall>f \<in> set (fst fm). wf_field f) \<and> (\<forall>m \<in> set (snd fm). wf_method m)"

lemma parseFieldOrMethod_ok: "wf_fms (fs, ms) \<Longrightarrow> consumer wf_fms n (parseFieldOrMethod n fs ms)"
  unfolding consumer_def parseFieldOrMethod_def Let_def
  by (auto simp: wf_fms_def wf_field_def wf_method_def wf_block_def intro!: parse_ok
      consumer_bind [OF parseType_ok] weak_consumer_bind [OF parseParameterList_ok]
      skipThrows_bind consumer_bind [OF method_block_ok])

lemma parseClassMember_ok:
  assumes "wf_class k"
  shows "consumer wf_class n (parseClassMember n k)"
proof -
  have "wf_fms (c_fields k, c_methods k)" using assms by (simp add: wf_fms_def wf_class_def)
  note fm = parseFieldOrMethod_ok [OF this]
  show ?thesis
    unfolding consumer_def parseClassMember_def using assms
    by (auto simp: wf_class_def wf_fms_def intro!: parse_ok consumer_bind [OF parseMainMethod_ok]
        consumer_bind [OF fm])
qed

lemma memberLoop_ok: "wf_class k \<Longrightarrow> weak_consumer wf_class n (memberLoop n startP k)"
proof (induction n arbitrary: k)
  case (Suc n)
  have loc: "wf_class (k\<lparr>c_loc := l\<rparr>)" for l using Suc.prems by (simp add: wf_class_def)
  show ?case
    unfolding weak_consumer_def using loc
    by (auto simp: Let_def intro!: parse_ok consumer_bind [OF parseClassMember_ok [OF Suc.prems]]
        weak_consumerD [OF Suc.IH])
qed (simp add: weak_consumer_def)

lemma parseClassDeclaration_ok: "consumer wf_class n (parseClassDeclaration n)"
proof -
  have "wf_class \<lparr>c_loc = no_loc, c_name = s, c_fields = [], c_methods = [], c_mainMethods = []\<rparr>"
    if "ident s" for s using that by (simp add: wf_class_def)
  then show ?thesis
    unfolding consumer_def parseClassDeclaration_def Let_def
    by (auto intro!: parse_ok weak_consumerD [OF memberLoop_ok])
qed

lemma programLoop_ok:
  "\<forall>k \<in> set acc. wf_class k \<Longrightarrow> weak_consumer wf_program n (programLoop n startP acc)"
proof (induction n arbitrary: acc)
  case (Suc n)
  show ?case
    unfolding weak_consumer_def using Suc.prems
    by (auto simp: wf_program_def intro!: parse_ok consumer_bind [OF parseClassDeclaration_ok]
        weak_consumerD [OF Suc.IH])
qed (simp add: weak_consumer_def)

lemma parseProgram_ok: "weak_consumer wf_program n (parseProgram n)"
  unfolding weak_consumer_def parseProgram_def by (auto intro!: weak_consumerD [OF programLoop_ok])

end
