(* ===== verification/Parser_Fuel.thy ===== *)
theory Parser_Fuel
  imports Parser_Total
begin

text \<open>
  The result of a parsing function does not depend on its fuel once the fuel suffices: more fuel
  can only turn \<open>OutOfFuel\<close> into a proper result (\<open>rle\<close>), and \<open>Parser_Total\<close> excludes
  \<open>OutOfFuel\<close> for fuel above the number of tokens left.
\<close>

definition rle :: "parse_error + 'a \<Rightarrow> parse_error + 'a \<Rightarrow> bool" where
  "rle r r' \<longleftrightarrow> r = Inl OutOfFuel \<or> r = r'"

lemma rle_refl [simp, intro]: "rle r r"
  by (simp add: rle_def)

lemma rle_fuel [simp]: "rle (Inl OutOfFuel) r"
  by (simp add: rle_def)

lemma rle_bind:
  "rle m m' \<Longrightarrow> (\<And>x. rle (f x) (f' x)) \<Longrightarrow> rle (bindE m f) (bindE m' f')"
  unfolding rle_def by (cases m; cases m') auto

definition ple :: "(pstate \<Rightarrow> 'a presult) \<Rightarrow> (pstate \<Rightarrow> 'a presult) \<Rightarrow> bool" where
  "ple p p' \<longleftrightarrow> (\<forall>ps. rle (p ps) (p' ps))"

lemma pleD: "ple p p' \<Longrightarrow> rle (p ps) (p' ps)"
  by (simp add: ple_def)

lemma Suc_leE:
  assumes "Suc n \<le> n'"
  obtains m where "n' = Suc m" "n \<le> m"
  using assms by (cases n') auto

section \<open>Types and expressions\<close>

lemma typeLoop_fuel: "n \<le> n' \<Longrightarrow> rle (typeLoop n s e b d ps) (typeLoop n' s e b d ps)"
proof (induction n arbitrary: n' e d ps)
  case (Suc n)
  from Suc.prems obtain m where m: "n' = Suc m" "n \<le> m" by (rule Suc_leE)
  show ?case unfolding m(1) using Suc.IH [OF m(2)]
    by (auto simp: Let_def intro!: rle_bind)
qed simp

lemma parseType_fuel: "n \<le> n' \<Longrightarrow> rle (parseType n ps) (parseType n' ps)"
  by (auto simp: parseType_def Let_def intro!: rle_bind typeLoop_fuel)

lemma argLoop_fuel: "ple p p' \<Longrightarrow> n \<le> n' \<Longrightarrow> rle (argLoop n p acc ps) (argLoop n' p' acc ps)"
proof (induction n arbitrary: n' acc ps)
  case (Suc n)
  from Suc.prems(2) obtain m where m: "n' = Suc m" "n \<le> m" by (rule Suc_leE)
  show ?case unfolding m(1) using Suc.IH [OF Suc.prems(1) m(2)] pleD [OF Suc.prems(1)]
    by (auto intro!: rle_bind)
qed simp

lemma parseArguments_fuel:
  assumes "ple p p'" "n \<le> n'"
  shows "rle (parseArguments n p ps) (parseArguments n' p' ps)"
  using pleD [OF assms(1)] assms by (auto simp: parseArguments_def intro!: rle_bind argLoop_fuel)

lemma newDimLoop_fuel: "n \<le> n' \<Longrightarrow> rle (newDimLoop n e d ps) (newDimLoop n' e d ps)"
proof (induction n arbitrary: n' e d ps)
  case (Suc n)
  from Suc.prems obtain m where m: "n' = Suc m" "n \<le> m" by (rule Suc_leE)
  show ?case unfolding m(1) using Suc.IH [OF m(2)]
    by (auto simp: Let_def intro!: rle_bind)
qed simp

lemma parseNewExpr_fuel:
  assumes "ple p p'" "n \<le> n'"
  shows "rle (parseNewExpr n p ps) (parseNewExpr n' p' ps)"
  using pleD [OF assms(1)] assms by (auto simp: parseNewExpr_def Let_def intro!: rle_bind newDimLoop_fuel)

lemma parsePrimary_fuel:
  assumes "ple p p'" "n \<le> n'"
  shows "rle (parsePrimary n p ps) (parsePrimary n' p' ps)"
  using pleD [OF assms(1)] assms by (auto simp: parsePrimary_def Let_def intro!: rle_bind parseNewExpr_fuel parseArguments_fuel)

lemma parseMemberAccess_fuel:
  "ple p p' \<Longrightarrow> n \<le> n' \<Longrightarrow> rle (parseMemberAccess n p lhs ps) (parseMemberAccess n' p' lhs ps)"
  by (auto simp: parseMemberAccess_def Let_def intro!: rle_bind parseArguments_fuel)

lemma parseArrayAccess_fuel:
  assumes "ple p p'"
  shows "rle (parseArrayAccess p lhs ps) (parseArrayAccess p' lhs ps)"
  using pleD [OF assms(1)] assms by (auto simp: parseArrayAccess_def Let_def intro!: rle_bind)

lemma postfixLoop_fuel:
  "ple p p' \<Longrightarrow> n \<le> n' \<Longrightarrow> rle (postfixLoop n p lhs ps) (postfixLoop n' p' lhs ps)"
proof (induction n arbitrary: n' lhs ps)
  case (Suc n)
  from Suc.prems(2) obtain m where m: "n' = Suc m" "n \<le> m" by (rule Suc_leE)
  show ?case unfolding m(1) using Suc.IH [OF Suc.prems(1) m(2)] m(2) Suc.prems(1)
    by (auto intro!: rle_bind parseMemberAccess_fuel parseArrayAccess_fuel)
qed simp

lemma parsePostfixExpr_fuel:
  "ple p p' \<Longrightarrow> n \<le> n' \<Longrightarrow> rle (parsePostfixExpr n p ps) (parsePostfixExpr n' p' ps)"
  by (auto simp: parsePostfixExpr_def intro!: rle_bind parsePrimary_fuel postfixLoop_fuel)

lemma parseUnary_fuel:
  "ple p p' \<Longrightarrow> n \<le> n' \<Longrightarrow> rle (parseUnary n p us ps) (parseUnary n' p' us ps)"
proof (induction n arbitrary: n' us ps)
  case (Suc n)
  from Suc.prems(2) obtain m where m: "n' = Suc m" "n \<le> m" by (rule Suc_leE)
  show ?case unfolding m(1) using Suc.IH [OF Suc.prems(1) m(2)] m(2) Suc.prems(1)
    by (auto simp: Let_def intro!: rle_bind parsePostfixExpr_fuel)
qed simp

lemma precLoop_fuel:
  "(\<And>m. ple (p m) (p' m)) \<Longrightarrow> n \<le> n' \<Longrightarrow> rle (precLoop n p mp s e ps) (precLoop n' p' mp s e ps)"
proof (induction n arbitrary: n' e ps)
  case (Suc n)
  from Suc.prems(2) obtain m where m: "n' = Suc m" "n \<le> m" by (rule Suc_leE)
  show ?case unfolding m(1) using Suc.IH [OF Suc.prems(1) m(2)] pleD [OF Suc.prems(1)]
    by (auto simp: Let_def intro!: rle_bind)
qed simp

lemma precedenceParse_fuel: "n \<le> n' \<Longrightarrow> ple (precedenceParse n mp) (precedenceParse n' mp)"
proof (induction n arbitrary: n' mp)
  case (Suc n)
  from Suc.prems obtain m where m: "n' = Suc m" "n \<le> m" by (rule Suc_leE)
  show ?case
    unfolding m(1) ple_def precedenceParse.simps Let_def
    using Suc.IH [OF m(2)] m(2)
    by (auto simp del: parseUnary.simps precLoop.simps intro!: rle_bind parseUnary_fuel precLoop_fuel)
qed (simp add: ple_def)

lemma parseExpr_fuel: "n \<le> n' \<Longrightarrow> rle (parseExpr n ps) (parseExpr n' ps)"
  unfolding parseExpr_def by (rule pleD [OF precedenceParse_fuel])

section \<open>Statements and classes\<close>

lemma parseLocalVarDeclStmt_fuel:
  "n \<le> n' \<Longrightarrow> rle (parseLocalVarDeclStmt n ps) (parseLocalVarDeclStmt n' ps)"
  by (auto simp: parseLocalVarDeclStmt_def Let_def intro!: rle_bind parseType_fuel parseExpr_fuel)

lemma parseExprStmt_fuel: "n \<le> n' \<Longrightarrow> rle (parseExprStmt n ps) (parseExprStmt n' ps)"
  by (auto simp: parseExprStmt_def Let_def intro!: rle_bind parseExpr_fuel)

lemma parseReturnStmt_fuel: "n \<le> n' \<Longrightarrow> rle (parseReturnStmt n ps) (parseReturnStmt n' ps)"
  by (auto simp: parseReturnStmt_def Let_def intro!: rle_bind parseExpr_fuel)

lemma parseIfStmt_fuel:
  assumes "ple p p'" "n \<le> n'"
  shows "rle (parseIfStmt n p ps) (parseIfStmt n' p' ps)"
  using pleD [OF assms(1)] assms by (auto simp: parseIfStmt_def Let_def intro!: rle_bind parseExpr_fuel)

lemma parseWhileStmt_fuel:
  assumes "ple p p'" "n \<le> n'"
  shows "rle (parseWhileStmt n p ps) (parseWhileStmt n' p' ps)"
  using pleD [OF assms(1)] assms by (auto simp: parseWhileStmt_def Let_def intro!: rle_bind parseExpr_fuel)

lemma parseBlockStatement_fuel:
  assumes "ple p p'" "n \<le> n'"
  shows "rle (parseBlockStatement n p ps) (parseBlockStatement n' p' ps)"
  using pleD [OF assms(1)] assms by (auto simp: parseBlockStatement_def Let_def intro!: rle_bind parseLocalVarDeclStmt_fuel)

lemma blockLoop_fuel:
  "ple p p' \<Longrightarrow> n \<le> n' \<Longrightarrow> rle (blockLoop n p s acc ps) (blockLoop n' p' s acc ps)"
proof (induction n arbitrary: n' acc ps)
  case (Suc n)
  from Suc.prems(2) obtain m where m: "n' = Suc m" "n \<le> m" by (rule Suc_leE)
  show ?case unfolding m(1) using Suc.IH [OF Suc.prems(1) m(2)] m(2) Suc.prems(1)
    by (auto simp: Let_def intro!: rle_bind parseBlockStatement_fuel)
qed simp

lemma parseBlock_fuel: "ple p p' \<Longrightarrow> n \<le> n' \<Longrightarrow> rle (parseBlock n p ps) (parseBlock n' p' ps)"
  by (auto simp: parseBlock_def Let_def intro!: rle_bind blockLoop_fuel)

lemma some_stmt_fuel: "rle r r' \<Longrightarrow> rle (some_stmt r) (some_stmt r')"
  by (auto simp: some_stmt_def intro!: rle_bind)

lemma parseStmt_fuel: "n \<le> n' \<Longrightarrow> ple (parseStmt n) (parseStmt n')"
proof (induction n arbitrary: n')
  case (Suc n)
  from Suc.prems obtain m where m: "n' = Suc m" "n \<le> m" by (rule Suc_leE)
  show ?case
    unfolding m(1) ple_def parseStmt.simps Let_def
    using Suc.IH [OF m(2)] m(2)
    by (auto intro!: some_stmt_fuel parseBlock_fuel parseIfStmt_fuel parseWhileStmt_fuel
        parseReturnStmt_fuel parseExprStmt_fuel)
qed (simp add: ple_def)

lemma parseParameter_fuel: "n \<le> n' \<Longrightarrow> rle (parseParameter n i ps) (parseParameter n' i ps)"
  by (auto simp: parseParameter_def Let_def intro!: rle_bind parseType_fuel)

lemma paramLoop_fuel: "n \<le> n' \<Longrightarrow> rle (paramLoop n i acc ps) (paramLoop n' i acc ps)"
proof (induction n arbitrary: n' i acc ps)
  case (Suc n)
  from Suc.prems obtain m where m: "n' = Suc m" "n \<le> m" by (rule Suc_leE)
  show ?case unfolding m(1) using Suc.IH [OF m(2)] m(2)
    by (auto intro!: rle_bind parseParameter_fuel)
qed simp

lemma parseParameterList_fuel: "n \<le> n' \<Longrightarrow> rle (parseParameterList n ps) (parseParameterList n' ps)"
  by (auto simp: parseParameterList_def intro!: rle_bind parseParameter_fuel paramLoop_fuel)

lemma parseMainMethod_fuel: "n \<le> n' \<Longrightarrow> rle (parseMainMethod n ps) (parseMainMethod n' ps)"
  by (auto simp: parseMainMethod_def Let_def intro!: rle_bind parseBlock_fuel parseStmt_fuel)

lemma parseFieldOrMethod_fuel:
  "n \<le> n' \<Longrightarrow> rle (parseFieldOrMethod n fs ms ps) (parseFieldOrMethod n' fs ms ps)"
  by (auto simp: parseFieldOrMethod_def Let_def intro!: rle_bind parseType_fuel
      parseParameterList_fuel parseBlock_fuel parseStmt_fuel)

lemma parseClassMember_fuel: "n \<le> n' \<Longrightarrow> rle (parseClassMember n k ps) (parseClassMember n' k ps)"
  by (auto simp: parseClassMember_def intro!: rle_bind parseMainMethod_fuel parseFieldOrMethod_fuel)

lemma memberLoop_fuel: "n \<le> n' \<Longrightarrow> rle (memberLoop n s k ps) (memberLoop n' s k ps)"
proof (induction n arbitrary: n' k ps)
  case (Suc n)
  from Suc.prems obtain m where m: "n' = Suc m" "n \<le> m" by (rule Suc_leE)
  show ?case unfolding m(1) using Suc.IH [OF m(2)] m(2)
    by (auto simp: Let_def intro!: rle_bind parseClassMember_fuel)
qed simp

lemma parseClassDeclaration_fuel:
  "n \<le> n' \<Longrightarrow> rle (parseClassDeclaration n ps) (parseClassDeclaration n' ps)"
  by (auto simp: parseClassDeclaration_def Let_def intro!: rle_bind memberLoop_fuel)

lemma programLoop_fuel: "n \<le> n' \<Longrightarrow> rle (programLoop n s acc ps) (programLoop n' s acc ps)"
proof (induction n arbitrary: n' acc ps)
  case (Suc n)
  from Suc.prems obtain m where m: "n' = Suc m" "n \<le> m" by (rule Suc_leE)
  show ?case unfolding m(1) using Suc.IH [OF m(2)] m(2)
    by (auto intro!: rle_bind parseClassDeclaration_fuel)
qed simp

lemma parseProgram_fuel: "n \<le> n' \<Longrightarrow> rle (parseProgram n ps) (parseProgram n' ps)"
  unfolding parseProgram_def by (rule programLoop_fuel)

end
