(* ===== verification/Parser_Claims.thy ===== *)
theory Parser_Claims
  imports Parser_Fuel Lexer_Claims
begin

text \<open>
  The properties of the parser as a whole: constructing a \<open>Parser\<close> on a text and calling
  \<open>parseProgram\<close>.
\<close>

definition parseInput :: "(nat \<Rightarrow> int) \<Rightarrow> string \<Rightarrow> string \<Rightarrow> string_table \<Rightarrow> nat \<Rightarrow> program presult" where
  "parseInput garbage fname inp tbl n =
     bindE (liftLex (newLexer garbage LS_normal fname inp)) (\<lambda>l.
     bindE (newParser l tbl) (parseProgram n))"

section \<open>Auxiliary facts\<close>

lemma newParser_ok:
  assumes "newLexer g LS_normal f inp = Inr l"
  shows "ps_ok (Suc (length inp)) (newParser l tbl)"
proof -
  note l = newLexer_Inr [OF assms]
  let ?ps = "\<lparr>lexr = l, curTok = mk_token TT_none no_pos [], strTbl = tbl\<rparr>"
  have lq: "lq_ok l" "lex_toks l = length inp" using l by (simp_all add: lq_ok_def lex_toks_def)
  show ?thesis
  proof (cases "nextToken l")
    case (Inl e)
    with lexq.nxt_error [OF l(1) Inl] show ?thesis
      by (simp add: newParser_def p_readNextToken_def liftLex_def ps_ok_def perr_ok_def)
  next
    case (Inr p)
    obtain t l' where p: "p = (t, l')" by (cases p)
    have "lq_ok l'" "tok_wf t" "tok_line_ok l' t" using nextToken_wf [OF lq(1)] Inr p by simp_all
    moreover have "lex_toks l' + (if tok_type t = TT_Eof then 0 else 1) \<le> length inp"
      using nextToken_left(2) [OF l(1)] Inr p lq(2) by simp
    ultimately show ?thesis
      using Inr p by (simp add: newParser_def p_readNextToken_def liftLex_def pgood_def toks_def)
  qed
qed

lemma newLexer_Ex: "\<exists>l. newLexer g LS_normal f inp = Inr l"
  using newLexer_ok [of g f inp] by metis

lemma parseInput_res:
  assumes "length inp < n"
  shows "res_ok wf_program (Suc (length inp)) (parseInput g f inp tbl n)"
proof -
  obtain l where l: "newLexer g LS_normal f inp = Inr l" using newLexer_Ex by blast
  have "res_ok wf_program (Suc (length inp)) (bindE (newParser l tbl) (parseProgram n))"
    by (rule ps_bind [OF newParser_ok [OF l]])
      (use assms in \<open>auto intro!: weak_consumerD [OF parseProgram_ok]\<close>)
  then show ?thesis by (simp add: parseInput_def l liftLex_def)
qed

lemma parseInput_rle: "n \<le> n' \<Longrightarrow> rle (parseInput g f inp tbl n) (parseInput g f inp tbl n')"
  unfolding parseInput_def by (intro rle_bind rle_refl parseProgram_fuel)

lemma digits_takeWhile: "takeWhile is_digit (nat_to_string n) = nat_to_string n"
  using nat_to_string_digits by (simp add: takeWhile_eq_all_conv)

lemma nat_to_string_Cons: "\<exists>c cs. nat_to_string n = c # cs \<and> is_digit c"
  using nat_to_string_digits [of _ n] by (cases "nat_to_string n") auto

lemma digit_chars:
  "is_digit c \<Longrightarrow> c \<notin> set [CHR 0x20, CHR 0x09, CHR 0x0A, CHR 0x0B, CHR 0x0C, CHR 0x0D]
    \<and> c \<noteq> CHR ''-'' \<and> c \<noteq> CHR ''+''"
  by (auto simp: is_digit_def less_eq_char_def)

lemma stoi_int_to_string:
  "stoi (int_to_string v) =
     (if - (2 ^ 31) \<le> v \<and> v \<le> 2 ^ 31 - 1 then Inr v else Inl StoiOutOfRange)"
proof (cases "v < 0")
  case True
  have "dropWhile (\<lambda>c. c \<in> set [CHR 0x20, CHR 0x09, CHR 0x0A, CHR 0x0B, CHR 0x0C, CHR 0x0D]) (CHR ''-'' # s)
      = CHR ''-'' # s" for s by simp
  with True show ?thesis
    by (simp add: stoi_def int_to_string_def Let_def digits_takeWhile digits_val_nat_to_string)
next
  case False
  obtain c cs where c: "nat_to_string (nat v) = c # cs" "is_digit c" using nat_to_string_Cons by blast
  have tw: "takeWhile is_digit (c # cs) = c # cs" "digits_val 0 (c # cs) = nat v"
    using digits_takeWhile [of "nat v"] digits_val_nat_to_string [of "nat v"] c(1) by simp_all
  from False digit_chars [OF c(2)] show ?thesis
    by (simp add: stoi_def int_to_string_def Let_def c(1) tw del: takeWhile.simps digits_val.simps)
qed

section \<open>Properties\<close>

text \<open>
  C2: The parser is total and safe.  On every input text, parsing with fuel above the length
  of the text (a bound on the number of tokens) returns a well-formed tree, or throws a
  \<open>LexError\<close> or a \<open>ParseError\<close>; it does not run out of fuel, never fails to fetch the line for an
  error message and never meets an invalid integer literal.
\<close>

theorem parser_total:
  assumes "length inp < n"
  shows "case parseInput g f inp tbl n of
      Inl (LexErr e) \<Rightarrow> is_LexError e
    | Inl (ParseError loc fn msg ln) \<Rightarrow> True
    | Inl (RuntimeError m) \<Rightarrow> False
    | Inl OutOfFuel \<Rightarrow> False
    | Inr (p, ps) \<Rightarrow> wf_program p"
  using parseInput_res [OF assms, of g f tbl]
  by (auto simp: res_ok_def perr_ok_def split: sum.splits parse_error.splits)

theorem parser_total_witness:
  "length ''class A { }'' < 20 \<and> (\<exists>p ps. parseInput (\<lambda>_. 0) ''f'' ''class A { }'' [] 20 = Inr (p, ps)
     \<and> wf_program p \<and> map c_name (pr_classes p) = [''A''])"
proof -
  have "mapR (\<lambda>(p, ps). map c_name (pr_classes p)) (parseInput (\<lambda>_. 0) ''f'' ''class A { }'' [] 20)
      = Inr [''A'']" by code_simp
  then obtain p ps where "parseInput (\<lambda>_. 0) ''f'' ''class A { }'' [] 20 = Inr (p, ps)"
    "map c_name (pr_classes p) = [''A'']" by (rule mapR_InrE) force
  with parser_total [of "''class A { }''" 20 "\<lambda>_. 0" "''f''" "[]"] show ?thesis by simp
qed

end
