(* ===== verification/Semantic_Claims.thy ===== *)
theory Semantic_Claims
  imports Semantic_Accept Control_Flow Parser_Claims
begin

text \<open>
  The properties of the semantic analysis of a whole program: when it cannot crash, when it does,
  and what it guarantees of the programs it accepts.
\<close>

section \<open>Closed signatures\<close>

fun class_of_type :: "ast_type \<Rightarrow> string option" where
  "class_of_type (BasicType (ClassType _ n _)) = Some n"
| "class_of_type (ArrayType _ (ClassType _ n _) _) = Some n"
| "class_of_type _ = None"

text \<open>The types of fields, parameters and results name declared classes only.\<close>

definition closed_type :: "program \<Rightarrow> ast_type \<Rightarrow> bool" where
  "closed_type p t = (case class_of_type t of None \<Rightarrow> True | Some n \<Rightarrow> n \<in> c_name ` set (pr_classes p))"

definition closed_signatures :: "program \<Rightarrow> bool" where
  "closed_signatures p = (\<forall>k \<in> set (pr_classes p). (\<forall>f \<in> set (c_fields k). closed_type p (f_type f))
     \<and> (\<forall>m \<in> set (c_methods k). closed_type p (rm_returnType m) \<and> (\<forall>x \<in> set (rm_parameters m). closed_type p (p_type x))))"

lemma declared_sorted:
  assumes "sorted (map c_name (pr_classes P))"
  shows "declared P n \<longleftrightarrow> n \<in> c_name ` set (pr_classes P)"
  using find_by_name_sorted [OF assms, of n]
  by (auto simp: declared_def findClassByName_def find_Some_iff2 find_None_iff)

lemma closed_tyok:
  assumes "sorted (map c_name (pr_classes P))" "c_name ` set (pr_classes P) = c_name ` set (pr_classes p)"
    "wf_type t" "closed_type p t"
  shows "tyok P t"
  by (rule wf_type_sema [OF assms(3)])
    (use assms(2,4) declared_sorted [OF assms(1)] in \<open>auto simp: closed_type_def\<close>)

text \<open>The program that the classes are visited in: classes and members sorted by name.\<close>

definition sorted_program :: "program \<Rightarrow> program" where
  "sorted_program p = p\<lparr>pr_classes := map sortMembers (sort_key c_name (pr_classes p))\<rparr>"

lemma sorted_program_classes:
  "sorted (map c_name (pr_classes (sorted_program p)))"
  "c_name ` set (pr_classes (sorted_program p)) = c_name ` set (pr_classes p)"
proof -
  have "map c_name (pr_classes (sorted_program p)) = map c_name (sort_key c_name (pr_classes p))"
    by (simp add: sorted_program_def sortMembers_def)
  then show "sorted (map c_name (pr_classes (sorted_program p)))" by (simp only: sorted_sort_key)
qed (auto simp: sorted_program_def sortMembers_def image_image)

lemma sorted_program_ok:
  assumes "wf_program p" "closed_signatures p"
  shows "program_ok (sorted_program p)"
proof -
  have t: "tyok (sorted_program p) t" if "wf_type t" "closed_type p t" for t
    by (rule closed_tyok [OF sorted_program_classes that])
  have "\<forall>k \<in> set (pr_classes p). (\<forall>f \<in> set (c_fields k). tyok (sorted_program p) (f_type f))
     \<and> (\<forall>m \<in> set (c_methods k). tyok (sorted_program p) (rm_returnType m)
         \<and> (\<forall>x \<in> set (rm_parameters m). tyok (sorted_program p) (p_type x)))"
    using assms
    by (auto simp: wf_program_def wf_class_def wf_field_def wf_method_def wf_params_def closed_signatures_def intro!: t)
  then show ?thesis
    by (simp add: program_ok_def [of "sorted_program p"])
      (auto simp: sorted_program_def sortMembers_def sortFields_def sortMethods_def)
qed

lemma visitProgram_sok:
  assumes "wf_program p" "closed_signatures p" "\<And>xs. alloc xs \<notin> set xs"
  shows "sok (\<lambda>(p', st). st_rep (s_symTbl st) []) (visitProgram alloc l p)"
  unfolding visitProgram_def Let_def
proof (rule sok_bind [OF checkForDuplicates_sok], goal_cases)
  case (1 ks)
  let ?P = "sorted_program p"
  let ?st = "(newSemanticVisitor alloc l p)\<lparr>s_program := ?P\<rparr>"
  have P: "p\<lparr>pr_classes := map sortMembers ks\<rparr>\<lparr>pr_classes := sort_key c_name
      (pr_classes (p\<lparr>pr_classes := map sortMembers ks\<rparr>))\<rparr> = ?P"
    using 1 sort_classes by (simp add: sorted_program_def)
  have ok: "prog_ok ?P ?st"
    using sorted_program_ok [OF assms(1,2)] assms(3) by (simp add: prog_ok_def newSemanticVisitor_def)
  have c: "declared ?P (c_name k)" "wf_class k" if "k \<in> set (pr_classes ?P)" for k
  proof -
    show "declared ?P (c_name k)" using declared_sorted [OF sorted_program_classes(1)] that by simp
    show "wf_class k" using that assms(1)
      by (auto simp: sorted_program_def sortMembers_def sortFields_def sortMethods_def wf_program_def wf_class_def)
  qed
  have v: "sok (\<lambda>(ks', st'). prog_ok ?P st') (mapM_st visitClass (pr_classes ?P) ?st)"
    by (rule mapM_sok [OF visitClass_sok ok]) (use c in auto)
  show ?case
    unfolding P
    by (rule sok_bind [OF v]) (auto simp: prog_ok_def)
qed

lemma list_all2_setD1: "list_all2 R xs ys \<Longrightarrow> x \<in> set xs \<Longrightarrow> \<exists>y \<in> set ys. R x y"
  by (induction rule: list_all2_induct) auto

lemma list_all2_setD2: "list_all2 R xs ys \<Longrightarrow> y \<in> set ys \<Longrightarrow> \<exists>x \<in> set xs. R x y"
  by (induction rule: list_all2_induct) auto

section \<open>Properties\<close>

text \<open>
  C1: The analysis cannot crash on a program whose signatures are closed.  If every class named
  by the type of a field, a parameter or a result is declared, then analysing a tree of the parser
  fails no assertion and follows no null pointer, whatever errors the method bodies contain; and if
  it accepts the program, every scope that was entered has been left.
\<close>

theorem analysis_never_crashes:
  assumes "wf_program p" and "closed_signatures p" and "\<And>xs. alloc xs \<notin> set xs"
  shows "visitProgram alloc l p \<noteq> Inl AssertFail \<and> visitProgram alloc l p \<noteq> Inl NullDeref
    \<and> (\<forall>p' st. visitProgram alloc l p = Inr (p', st) \<longrightarrow> st_rep (s_symTbl st) [])"
  using visitProgram_sok [OF assms, of l] by (auto simp: sok_def split: sum.splits)

definition ex_main :: main_method where
  "ex_main = \<lparr>mm_loc = no_loc, mm_name = ''main'', mm_argName = ''a'',
     mm_block = Block no_loc MayContinue [] True, mm_varDecls = []\<rparr>"

definition ex_main_program :: program where
  "ex_main_program = \<lparr>pr_loc = no_loc, pr_classes =
     [\<lparr>c_loc = no_loc, c_name = ''M'', c_fields = [],
       c_methods = [(ex_method ''g'' [])\<lparr>rm_block := ex_body\<rparr>, (ex_method ''f'' [ArrayType no_loc (ClassType no_loc ''M'' None) 2])
           \<lparr>rm_block := ex_body\<rparr>], c_mainMethods = [ex_main]\<rparr>]\<rparr>"

lemma ex_main_program_ok:
  "wf_program ex_main_program" "closed_signatures ex_main_program" "\<And>xs. ex_alloc xs \<notin> set xs"
  by (code_simp, code_simp, rule ex_alloc_fresh)

lemma ex_main_program_accepted:
  "mapR (\<lambda>(p, st). map c_name (pr_classes p)) (visitProgram ex_alloc (lexer_of []) ex_main_program) = Inr [''M'']"
  by code_simp

theorem analysis_never_crashes_witness:
  "\<exists>p st. visitProgram ex_alloc (lexer_of []) ex_main_program = Inr (p, st) \<and> st_rep (s_symTbl st) []"
proof -
  obtain p st where v: "visitProgram ex_alloc (lexer_of []) ex_main_program = Inr (p, st)"
    by (rule mapR_InrE [OF ex_main_program_accepted]) force
  with analysis_never_crashes [OF ex_main_program_ok, of "lexer_of []"] show ?thesis by blast
qed

text \<open>
  C9: Names in accepted programs.  If the analysis accepts a program, its class names are
  distinct, so are the names of the fields and of the methods of each class, no class has more than
  one static method, its name is not the name of a method of the class, and exactly one static
  method of the whole program is called \<open>main\<close>.
\<close>

theorem accepted_names:
  assumes "visitProgram alloc l p = Inr (p', st)"
  shows "distinct (map c_name (pr_classes p))
    \<and> (\<forall>k \<in> set (pr_classes p). distinct (map f_name (c_fields k)) \<and> distinct (map rm_name (c_methods k))
        \<and> length (c_mainMethods k) \<le> 1
        \<and> (\<forall>m \<in> set (c_mainMethods k). mm_name m \<notin> rm_name ` set (c_methods k)))
    \<and> length (filter (\<lambda>m. mm_name m = ''main'') (all_mains p)) = 1"
proof -
  note v = visitProgram_Inr [OF assms]
  have "\<exists>k'. visited_class (sortMembers k) k'" if "k \<in> set (pr_classes p)" for k
    using list_all2_setD1 [OF conjunct1 [OF conjunct2 [OF v]], of "sortMembers k"] that by auto
  then have k: "\<forall>k \<in> set (pr_classes p). distinct (map f_name (c_fields k)) \<and> distinct (map rm_name (c_methods k))
        \<and> length (c_mainMethods k) \<le> 1
        \<and> (\<forall>m \<in> set (c_mainMethods k). mm_name m \<notin> rm_name ` set (c_methods k))"
    by (force simp: visited_class_def sortMembers_def sortFields_def sortMethods_def distinct_sort_key)
  have m: "mains ms = length (filter (\<lambda>m. mm_name m = ''main'') ms)" for ms
    by (induction ms) (auto simp: mains_def)
  have "sum_list (map f (sort_key c_name ks)) = sum_list (map f ks)" for f :: "klass \<Rightarrow> nat" and ks
  proof -
    have "sum_list (map f (insort_key c_name k ks)) = f k + sum_list (map f ks)" for k ks
      by (induction ks) auto
    then show ?thesis by (induction ks) (auto simp: sort_key_simps)
  qed
  then have "sum_list (map (\<lambda>k. mains (c_mainMethods k)) (pr_classes p)) = 1" using v by simp
  moreover have "length (filter (\<lambda>m. mm_name m = ''main'') (concat (map c_mainMethods ks)))
      = sum_list (map (\<lambda>k. mains (c_mainMethods k)) ks)" for ks :: "klass list"
    by (induction ks) (simp_all add: m)
  ultimately have "length (filter (\<lambda>m. mm_name m = ''main'') (all_mains p)) = 1"
    by (simp only: all_mains_def)
  with v k show ?thesis by blast
qed

theorem accepted_names_witness:
  "length (filter (\<lambda>m. mm_name m = ''main'') (all_mains ex_main_program)) = 1
    \<and> (\<exists>p st. visitProgram ex_alloc (lexer_of []) ex_main_program = Inr (p, st))"
proof -
  obtain p st where v: "visitProgram ex_alloc (lexer_of []) ex_main_program = Inr (p, st)"
    by (rule mapR_InrE [OF ex_main_program_accepted]) force
  with accepted_names [OF v] show ?thesis by blast
qed

text \<open>Distinct labels of the methods of a list of classes.\<close>

lemma distinct_methods:
  assumes "distinct (map c_name ks)" "\<And>k. k \<in> set ks \<Longrightarrow> distinct (map g (c_methods k))"
    and "\<And>k k' m m'. k \<in> set ks \<Longrightarrow> k' \<in> set ks \<Longrightarrow> m \<in> set (c_methods k) \<Longrightarrow> m' \<in> set (c_methods k')
      \<Longrightarrow> g m = g m' \<Longrightarrow> c_name k = c_name k'"
  shows "distinct (map g (concat (map c_methods ks)))"
  using assms
proof (induction ks)
  case (Cons k ks)
  have "g m \<noteq> g m'" if "m \<in> set (c_methods k)" "k' \<in> set ks" "m' \<in> set (c_methods k')" for m k' m'
  proof
    assume "g m = g m'"
    with that have "c_name k = c_name k'" by (intro Cons.prems(3) [of k k' m m']) auto
    then show False using Cons.prems(1) that(2) by auto
  qed
  then have "set (map g (c_methods k)) \<inter> set (map g (concat (map c_methods ks))) = {}" by auto
  moreover have "distinct (map g (concat (map c_methods ks)))"
  proof (rule Cons.IH, goal_cases)
    case 1 show ?case using Cons.prems(1) by simp
  next
    case (2 k) then show ?case using Cons.prems(2) by simp
  next
    case (3 k k' m m') then show ?case using Cons.prems(3) [of k k' m m'] by simp
  qed
  moreover have "distinct (map g (c_methods k))" by (rule Cons.prems(2)) simp
  ultimately show ?case by (simp only: list.map concat.simps map_append distinct_append)
qed simp

lemma mkMangledName_names:
  assumes "mkMangledName c n ps = Some s" "mkMangledName c' n' ps' = Some s"
    and "valid_name c" "valid_name n" "valid_name c'" "valid_name n'"
  shows "c = c' \<and> n = n'"
proof -
  obtain x x' where eq: "nat_to_string (length c) @ c @ nat_to_string (length n) @ n @ ''E'' @ x
      = nat_to_string (length c') @ c' @ nat_to_string (length n') @ n' @ ''E'' @ x'"
    using assms(1,2) by (auto simp: mkMangledName_def dest: sym)
  from counted_name_inject [OF eq assms(3,5)] counted_name_inject [OF _ assms(4,6)] show ?thesis by blast
qed

text \<open>
  C6: Labels are unique.  The mangled names of all methods of all classes of an accepted program
  are pairwise distinct, so no two functions of the generated assembly get the same label.
\<close>

theorem accepted_labels_distinct:
  assumes "visitProgram alloc l p = Inr (p', st)" and "wf_program p"
  shows "distinct (map rm_mangledName (concat (map c_methods (pr_classes p'))))"
proof (rule distinct_methods)
  note v = visitProgram_Inr [OF assms(1)]
  let ?ks = "map sortMembers (sort_key c_name (pr_classes p))"
  have l: "list_all2 visited_class ?ks (pr_classes p')" using v by blast
  have "map c_name (pr_classes p') = map c_name ?ks"
    using l by (induction rule: list_all2_induct) (auto simp: visited_class_def)
  also have "\<dots> = map c_name (sort_key c_name (pr_classes p))" by (simp add: sortMembers_def)
  finally show "distinct (map c_name (pr_classes p'))"
    using v distinct_sort_key [of c_name "pr_classes p"] by (simp only:)
  have src: "\<exists>ps. mkMangledName (c_name k') (rm_name m') ps = Some (rm_mangledName m')
      \<and> valid_name (c_name k') \<and> valid_name (rm_name m')"
    if k': "k' \<in> set (pr_classes p')" and m': "m' \<in> set (c_methods k')" for k' m'
  proof -
    obtain k where k: "k \<in> set (pr_classes p)" "visited_class (sortMembers k) k'"
      using list_all2_setD2 [OF l k'] by auto
    then have w: "wf_class k" using assms(2) by (simp add: wf_program_def)
    obtain m where m: "m \<in> set (sort_key rm_name (c_methods (sortMembers k)))" "visited_method (c_name k) m m'"
      using list_all2_setD2 [OF _ m', of "visited_method (c_name k)" "sort_key rm_name (c_methods (sortMembers k))"] k(2)
      by (auto simp: visited_class_def sortMembers_def)
    then show ?thesis
      using w k(2) by (auto simp: visited_method_def visited_class_def sortMembers_def sortMethods_def wf_class_def wf_method_def
          intro!: ident_valid_name)
  qed
  show "c_name k = c_name k'"
    if "k \<in> set (pr_classes p')" "k' \<in> set (pr_classes p')" "m \<in> set (c_methods k)" "m' \<in> set (c_methods k')"
      "rm_mangledName m = rm_mangledName m'" for k k' m m'
    using src [OF that(1,3)] src [OF that(2,4)] mkMangledName_names that(5) by metis
  show "distinct (map rm_mangledName (c_methods k'))" if k': "k' \<in> set (pr_classes p')" for k'
  proof -
    obtain k where k: "visited_class (sortMembers k) k'" using list_all2_setD2 [OF l k'] by auto
    then have "map rm_name (c_methods k') = map rm_name (sort_key rm_name (c_methods (sortMembers k)))"
      using visited_names by (auto simp: visited_class_def)
    then have d: "distinct (map rm_name (c_methods k'))"
      using k distinct_sort_key [of rm_name "c_methods (sortMembers k)"] by (simp add: visited_class_def)
    have i: "rm_name m = rm_name m'"
      if "m \<in> set (c_methods k')" "m' \<in> set (c_methods k')" "rm_mangledName m = rm_mangledName m'" for m m'
      using src [OF k' that(1)] src [OF k' that(2)] mkMangledName_names that(3) by metis
    have "inj_on rm_mangledName (set (c_methods k'))"
    proof (rule inj_onI)
      fix m m' assume m: "m \<in> set (c_methods k')" "m' \<in> set (c_methods k')" "rm_mangledName m = rm_mangledName m'"
      have "inj_on rm_name (set (c_methods k'))" using d by (simp add: distinct_map)
      then show "m = m'" using i [OF m] m by (simp add: inj_onD)
    qed
    then show ?thesis using d by (simp add: distinct_map)
  qed
qed

theorem accepted_labels_distinct_witness:
  "\<exists>p st. visitProgram ex_alloc (lexer_of []) ex_main_program = Inr (p, st)
    \<and> distinct (map rm_mangledName (concat (map c_methods (pr_classes p))))
    \<and> map rm_mangledName (concat (map c_methods (pr_classes p))) = [''_ZN1M1fEPP1M'', ''_ZN1M1gEv'']"
proof -
  have "mapR (\<lambda>(p, st). map rm_mangledName (concat (map c_methods (pr_classes p))))
      (visitProgram ex_alloc (lexer_of []) ex_main_program) = Inr [''_ZN1M1fEPP1M'', ''_ZN1M1gEv'']"
    by code_simp
  then obtain p st where v: "visitProgram ex_alloc (lexer_of []) ex_main_program = Inr (p, st)"
    "map rm_mangledName (concat (map c_methods (pr_classes p))) = [''_ZN1M1fEPP1M'', ''_ZN1M1gEv'']"
    by (rule mapR_InrE) force
  show ?thesis
    by (intro exI conjI, rule v(1), rule accepted_labels_distinct [OF v(1) ex_main_program_ok(1)], rule v(2))
qed

end
