(* ===== verification/Asm.thy ===== *)
theory Asm
  imports Mjc_Prelude
begin

text \<open>
  The data model of the generated assembly (\<open>asm.hpp\<close>, \<open>asm.cpp\<close>): operands, instructions, basic
  blocks, functions and programs, their construction and their output.  A block is identified
  by the number of its libfirm node (\<open>get_irn_node_nr\<close>), which is all that the code uses of it.
\<close>

datatype asm_error =
    AsmAssert      \<comment> \<open>a failed \<open>assert\<close>\<close>
  | OutOfRange     \<comment> \<open>thrown by \<open>std::vector::at\<close>\<close>
  | BadAccess      \<comment> \<open>a read of an inactive union member or through a stale pointer\<close>
  | IntOverflow    \<comment> \<open>signed overflow\<close>
  | AsmInvalidNode \<comment> \<open>\<open>errorInvalid\<close> of a graph pass: the compiler exits\<close>

section \<open>Operands\<close>

datatype mnemonic =
    M_Add | M_Sub | M_IMul | M_Div | M_Call | M_Cmp | M_Neg | M_Je | M_Jne | M_Jmp | M_Jg | M_Jge
  | M_Jl | M_Jle | M_Inc | M_Dec | M_Xor | M_Mov | M_Movq | M_Movl | M_Movb | M_Movslq | M_Cqto | M_Label

fun mne_name :: "mnemonic \<Rightarrow> string" where
  "mne_name M_Add = ''add''"
| "mne_name M_Sub = ''sub''"
| "mne_name M_IMul = ''imul''"
| "mne_name M_Div = ''idivq''"
| "mne_name M_Call = ''call''"
| "mne_name M_Cmp = ''cmp''"
| "mne_name M_Neg = ''neg''"
| "mne_name M_Je = ''je''"
| "mne_name M_Jne = ''jne''"
| "mne_name M_Jmp = ''jmp''"
| "mne_name M_Jg = ''jg''"
| "mne_name M_Jge = ''jge''"
| "mne_name M_Jl = ''jl''"
| "mne_name M_Jle = ''jle''"
| "mne_name M_Inc = ''inc''"
| "mne_name M_Dec = ''dec''"
| "mne_name M_Xor = ''xor''"
| "mne_name M_Mov = ''mov''"
| "mne_name M_Movq = ''movq''"
| "mne_name M_Movl = ''movl''"
| "mne_name M_Movb = ''movb''"
| "mne_name M_Movslq = ''movslq''"
| "mne_name M_Cqto = ''cqto''"
| "mne_name M_Label = ''______''"

datatype reg_name = RN_ax | RN_bx | RN_cx | RN_dx | RN_bp | RN_sp | RN_si | RN_di
  | RN_r8 | RN_r9 | RN_r10 | RN_r11 | RN_r12 | RN_r13 | RN_r14 | RN_r15

datatype reg_mode = RM_R | RM_E | RM_L

fun getRegAsmName :: "reg_name \<Rightarrow> reg_mode \<Rightarrow> asm_error + string" where
  "getRegAsmName n RM_R = Inr (case n of
       RN_ax \<Rightarrow> ''%rax'' | RN_bx \<Rightarrow> ''%rbx'' | RN_cx \<Rightarrow> ''%rcx'' | RN_dx \<Rightarrow> ''%rdx''
     | RN_bp \<Rightarrow> ''%rbp'' | RN_sp \<Rightarrow> ''%rsp'' | RN_si \<Rightarrow> ''%rsi'' | RN_di \<Rightarrow> ''%rdi''
     | RN_r8 \<Rightarrow> ''%r8'' | RN_r9 \<Rightarrow> ''%r9'' | RN_r10 \<Rightarrow> ''%r10'' | RN_r11 \<Rightarrow> ''%r11''
     | RN_r12 \<Rightarrow> ''%r12'' | RN_r13 \<Rightarrow> ''%r13'' | RN_r14 \<Rightarrow> ''%r14'' | RN_r15 \<Rightarrow> ''%r15'')"
| "getRegAsmName n RM_E = Inr (case n of
       RN_ax \<Rightarrow> ''%eax'' | RN_bx \<Rightarrow> ''%ebx'' | RN_cx \<Rightarrow> ''%ecx'' | RN_dx \<Rightarrow> ''%edx''
     | RN_bp \<Rightarrow> ''%ebp'' | RN_sp \<Rightarrow> ''%esp'' | RN_si \<Rightarrow> ''%esi'' | RN_di \<Rightarrow> ''%edi''
     | RN_r8 \<Rightarrow> ''%r8d'' | RN_r9 \<Rightarrow> ''%r9d'' | RN_r10 \<Rightarrow> ''%r10d'' | RN_r11 \<Rightarrow> ''%r11d''
     | RN_r12 \<Rightarrow> ''%r12d'' | RN_r13 \<Rightarrow> ''%r13d'' | RN_r14 \<Rightarrow> ''%r14d'' | RN_r15 \<Rightarrow> ''%r15d'')"
| "getRegAsmName n RM_L = (case n of
       RN_ax \<Rightarrow> Inr ''%al'' | RN_bx \<Rightarrow> Inr ''%bl'' | RN_cx \<Rightarrow> Inr ''%cl'' | RN_dx \<Rightarrow> Inr ''%dl''
     | RN_bp \<Rightarrow> Inl AsmAssert | RN_sp \<Rightarrow> Inl AsmAssert | RN_si \<Rightarrow> Inl AsmAssert | RN_di \<Rightarrow> Inl AsmAssert
     | RN_r8 \<Rightarrow> Inr ''%r8l'' | RN_r9 \<Rightarrow> Inr ''%r9l'' | RN_r10 \<Rightarrow> Inr ''%r10l'' | RN_r11 \<Rightarrow> Inr ''%r11l''
     | RN_r12 \<Rightarrow> Inr ''%r12l'' | RN_r13 \<Rightarrow> Inr ''%r13l'' | RN_r14 \<Rightarrow> Inr ''%r14l'' | RN_r15 \<Rightarrow> Inr ''%r15l'')"

text \<open>The immediate value and the offset are \<open>int\<close>s of 32 bits.\<close>

datatype op =
    OP_IMM int
  | OP_REG reg_name reg_mode
  | OP_IND reg_name reg_mode int
  | OP_STR string
  | OP_NONE

text \<open>The constructor \<open>Op(const Op &, int)\<close>.\<close>

fun op_offset :: "op \<Rightarrow> int \<Rightarrow> asm_error + op" where
  "op_offset (OP_IND b m _) off = Inr (OP_IND b m off)"
| "op_offset (OP_REG n m) off = Inr (OP_IND n m off)"
| "op_offset _ _ = Inl AsmAssert"

definition rax :: op where "rax = OP_REG RN_ax RM_R"
definition rbx :: op where "rbx = OP_REG RN_bx RM_R"
definition rcx :: op where "rcx = OP_REG RN_cx RM_R"
definition rbp :: op where "rbp = OP_REG RN_bp RM_R"
definition rsp :: op where "rsp = OP_REG RN_sp RM_R"

fun op_print :: "op \<Rightarrow> asm_error + string" where
  "op_print (OP_IMM v) = Inr (CHR ''$'' # int_to_string v)"
| "op_print (OP_REG n m) = getRegAsmName n m"
| "op_print (OP_IND b m off) =
     bindE (getRegAsmName b m) (\<lambda>r.
       Inr ((if off \<noteq> 0 then int_to_string off else []) @ CHR ''('' # r @ '')''))"
| "op_print (OP_STR s) = Inr s"
| "op_print OP_NONE = Inl AsmAssert"

section \<open>Instructions\<close>

record instr =
  ops0 :: op
  ops1 :: op
  nOps :: int
  mne :: mnemonic
  comment :: string

definition instr0 :: "mnemonic \<Rightarrow> instr" where
  "instr0 m = \<lparr>ops0 = OP_NONE, ops1 = OP_NONE, nOps = 0, mne = m, comment = []\<rparr>"

definition instr1 :: "mnemonic \<Rightarrow> op \<Rightarrow> string \<Rightarrow> instr" where
  "instr1 m a c = \<lparr>ops0 = a, ops1 = OP_NONE, nOps = 1, mne = m, comment = c\<rparr>"

definition instr2 :: "mnemonic \<Rightarrow> op \<Rightarrow> op \<Rightarrow> string \<Rightarrow> instr" where
  "instr2 m a b c = \<lparr>ops0 = a, ops1 = b, nOps = 2, mne = m, comment = c\<rparr>"

definition isJmp :: "instr \<Rightarrow> bool" where
  "isJmp i \<longleftrightarrow> mne i \<in> set [M_Jmp, M_Je, M_Jne, M_Jg, M_Jge, M_Jl, M_Jle]"

definition isMov :: "instr \<Rightarrow> bool" where
  "isMov i \<longleftrightarrow> mne i \<in> set [M_Mov, M_Movq, M_Movl, M_Movb]"

definition instr_print :: "instr \<Rightarrow> asm_error + string" where
  "instr_print i =
     (if mne i = M_Label then bindE (op_print (ops0 i)) (\<lambda>s. Inr (s @ '':''))
      else
        bindE (if nOps i > 0 then
                 bindE (op_print (ops0 i)) (\<lambda>a.
                 bindE (if nOps i > 1 then bindE (op_print (ops1 i)) (\<lambda>b. Inr ('', '' @ b)) else Inr []) (\<lambda>b.
                   Inr ('' '' @ a @ b)))
               else Inr []) (\<lambda>os.
        Inr (mne_name (mne i) @ os @ (if comment i \<noteq> [] then '' /* '' @ comment i @ '' */'' else []))))"

text \<open>
  The relations of a libfirm \<open>Cmp\<close> node that the code distinguishes, and the others.
\<close>

datatype ir_relation = Rel_equal | Rel_less_greater | Rel_true | Rel_greater | Rel_greater_equal
  | Rel_less | Rel_less_equal | Rel_other

fun relation_mnemonic :: "ir_relation \<Rightarrow> asm_error + mnemonic" where
  "relation_mnemonic Rel_equal = Inr M_Je"
| "relation_mnemonic Rel_less_greater = Inr M_Jne"
| "relation_mnemonic Rel_true = Inr M_Jmp"
| "relation_mnemonic Rel_greater = Inr M_Jg"
| "relation_mnemonic Rel_greater_equal = Inr M_Jge"
| "relation_mnemonic Rel_less = Inr M_Jl"
| "relation_mnemonic Rel_less_equal = Inr M_Jle"
| "relation_mnemonic Rel_other = Inl AsmAssert"

definition makeJump :: "string \<Rightarrow> ir_relation \<Rightarrow> asm_error + instr" where
  "makeJump target rel = bindE (relation_mnemonic rel) (\<lambda>m. Inr (instr1 m (OP_STR target) []))"

fun getInverseRelation :: "ir_relation \<Rightarrow> asm_error + ir_relation" where
  "getInverseRelation Rel_equal = Inr Rel_less_greater"
| "getInverseRelation Rel_less_greater = Inr Rel_equal"
| "getInverseRelation Rel_greater = Inr Rel_less_equal"
| "getInverseRelation Rel_less = Inr Rel_greater_equal"
| "getInverseRelation Rel_less_equal = Inr Rel_greater"
| "getInverseRelation Rel_greater_equal = Inr Rel_less"
| "getInverseRelation _ = Inl AsmAssert"

fun mov_mnemonic :: "reg_mode \<Rightarrow> mnemonic" where
  "mov_mnemonic RM_R = M_Movq"
| "mov_mnemonic RM_E = M_Movl"
| "mov_mnemonic RM_L = M_Movb"

definition makeMov :: "reg_mode \<Rightarrow> op \<Rightarrow> op \<Rightarrow> string \<Rightarrow> instr" where
  "makeMov m src dst c = instr2 (mov_mnemonic m) src dst c"

section \<open>Blocks\<close>

record basic_block =
  bb_comment :: string
  bb_node :: nat
  startPhiInstrs :: "instr list"
  phiInstrs :: "instr list"
  instrs :: "instr list"
  jumpInstrs :: "instr list"
  flattenedInstrs :: "instr list"

definition newBasicBlock :: "nat \<Rightarrow> string \<Rightarrow> basic_block" where
  "newBasicBlock n c = \<lparr>bb_comment = c, bb_node = n, startPhiInstrs = [], phiInstrs = [], instrs = [],
     jumpInstrs = [], flattenedInstrs = []\<rparr>"

definition getBlockLabel :: "nat \<Rightarrow> string" where
  "getBlockLabel n = ''.L'' @ nat_to_string n"

definition getLabelStr :: "basic_block \<Rightarrow> string" where
  "getLabelStr b = getBlockLabel (bb_node b)"

definition flattenInstrs :: "basic_block \<Rightarrow> asm_error + basic_block" where
  "flattenInstrs b =
     (if flattenedInstrs b \<noteq> [] then Inl AsmAssert
      else Inr (b\<lparr>flattenedInstrs := startPhiInstrs b @ instrs b @ phiInstrs b @ jumpInstrs b\<rparr>))"

definition pushInstr :: "instr \<Rightarrow> basic_block \<Rightarrow> basic_block" where
  "pushInstr i b = b\<lparr>instrs := instrs b @ [i]\<rparr>"

definition pushJumpInstr :: "instr \<Rightarrow> basic_block \<Rightarrow> basic_block" where
  "pushJumpInstr i b = b\<lparr>jumpInstrs := jumpInstrs b @ [i]\<rparr>"

definition pushPhiInstr :: "instr \<Rightarrow> basic_block \<Rightarrow> basic_block" where
  "pushPhiInstr i b = b\<lparr>phiInstrs := phiInstrs b @ [i]\<rparr>"

definition pushStartPhiInstr :: "instr \<Rightarrow> basic_block \<Rightarrow> basic_block" where
  "pushStartPhiInstr i b = b\<lparr>startPhiInstrs := startPhiInstrs b @ [i]\<rparr>"

text \<open>Removing the element at an index that is in range, as \<open>erase(begin() + index)\<close> does.\<close>

definition remove_at :: "nat \<Rightarrow> 'a list \<Rightarrow> 'a list" where
  "remove_at i xs = take i xs @ drop (Suc i) xs"

section \<open>Functions and programs\<close>

record asm_function =
  fnName :: string
  ARsize :: int
  orderedBasicBlocks :: "basic_block list"

definition newBB :: "nat \<Rightarrow> string \<Rightarrow> asm_function \<Rightarrow> asm_function" where
  "newBB n c f = f\<lparr>orderedBasicBlocks := orderedBasicBlocks f @ [newBasicBlock n c]\<rparr>"

definition getBB :: "nat \<Rightarrow> asm_function \<Rightarrow> basic_block option" where
  "getBB n f = List.find (\<lambda>b. bb_node b = n) (orderedBasicBlocks f)"

definition getEpilogLabel :: "asm_function \<Rightarrow> string" where
  "getEpilogLabel f = fnName f @ ''_epilog''"

type_synonym asm_program = "asm_function list"

fun mapE :: "('a \<Rightarrow> 'e + 'b) \<Rightarrow> 'a list \<Rightarrow> 'e + 'b list" where
  "mapE f [] = Inr []"
| "mapE f (x # xs) = bindE (f x) (\<lambda>y. bindE (mapE f xs) (\<lambda>ys. Inr (y # ys)))"

definition flattenFunctions :: "asm_program \<Rightarrow> asm_error + asm_program" where
  "flattenFunctions = mapE (\<lambda>f. bindE (mapE flattenInstrs (orderedBasicBlocks f)) (\<lambda>bs.
     Inr (f\<lparr>orderedBasicBlocks := bs\<rparr>)))"

section \<open>Output\<close>

definition nl :: string where "nl = [CHR 0x0A]"
definition tab :: string where "tab = [CHR 0x09]"

definition writeText :: "string \<Rightarrow> string" where
  "writeText s = s @ nl"

definition writeString :: "string \<Rightarrow> string" where
  "writeString s = tab @ s @ nl"

definition writeLabel :: "string \<Rightarrow> string" where
  "writeLabel l = l @ '':'' @ nl"

definition writeComment :: "string \<Rightarrow> string" where
  "writeComment c = ''/* -- '' @ c @ '' */'' @ nl"

definition writeInstr :: "instr \<Rightarrow> asm_error + string" where
  "writeInstr i = bindE (instr_print i) (\<lambda>s. Inr ((if mne i \<noteq> M_Label then tab else []) @ s @ nl))"

definition bb_write :: "basic_block \<Rightarrow> asm_error + string" where
  "bb_write b = bindE (mapE writeInstr (flattenedInstrs b)) (\<lambda>ls.
     Inr (writeLabel (getLabelStr b) @ concat ls))"

definition writeProlog :: "asm_function \<Rightarrow> string" where
  "writeProlog f =
     writeString ''pushq %rbp'' @ writeString ''mov %rsp, %rbp''
     @ (if ARsize f > 0 then writeString (''subq $'' @ int_to_string (ARsize f) @ '', %rsp'') else [])
     @ writeLabel (''.'' @ fnName f @ ''_body'')"

definition writeEpilog :: "asm_function \<Rightarrow> string" where
  "writeEpilog f =
     writeLabel (''.'' @ getEpilogLabel f)
     @ (if ARsize f > 0 then writeString (''addq $'' @ int_to_string (ARsize f) @ '', %rsp'') else [])
     @ writeString ''leave'' @ writeString ''ret''"

definition fn_write :: "asm_function \<Rightarrow> asm_error + string" where
  "fn_write f =
     bindE (mapE bb_write (orderedBasicBlocks f)) (\<lambda>bs.
       Inr (writeComment (''Begin '' @ fnName f)
         @ writeText (tab @ ''.p2align 4,,15'')
         @ writeText (tab @ ''.globl '' @ fnName f)
         @ writeText (tab @ ''.type '' @ fnName f @ '', @function'')
         @ writeLabel (fnName f)
         @ writeProlog f
         @ concat bs
         @ writeEpilog f
         @ writeText (tab @ ''.size '' @ fnName f @ '', .-'' @ fnName f)
         @ writeComment (''End '' @ fnName f)
         @ writeText []))"

definition program_write :: "asm_program \<Rightarrow> asm_error + string" where
  "program_write p = bindE (mapE fn_write p) (\<lambda>fs. Inr (writeText ''.text'' @ concat fs))"

end
