(* ===== verification/Asm_Opt.thy ===== *)
theory Asm_Opt
  imports Asm
begin

text \<open>
  The peephole optimizers on the generated assembly (\<open>asm_optimizer.hpp\<close>, \<open>asm_optimizer.cpp\<close>).
  A pass returns the new instructions and the number of optimizations that it counts, or the
  error it runs into.  Loops bounded by \<open>size() - 1\<close> on an empty vector have the bound
  \<open>2^64 - 1\<close> and throw in their first \<open>at\<close>; the loop functions test for this.
\<close>

section \<open>Reading operands\<close>

text \<open>
  Members of the union in \<open>Op\<close>.  \<open>reg\<close> and \<open>ind\<close> have the register as their common first member,
  so it can be read through either of them.
\<close>

fun op_base :: "op \<Rightarrow> asm_error + reg_name" where
  "op_base (OP_IND b _ _) = Inr b"
| "op_base (OP_REG n _) = Inr n"
| "op_base _ = Inl BadAccess"

fun op_off :: "op \<Rightarrow> asm_error + int" where
  "op_off (OP_IND _ _ off) = Inr off"
| "op_off _ = Inl BadAccess"

fun op_str :: "op \<Rightarrow> asm_error + string" where
  "op_str (OP_STR s) = Inr s"
| "op_str _ = Inl BadAccess"

fun is_ind :: "op \<Rightarrow> bool" where
  "is_ind (OP_IND _ _ _) = True"
| "is_ind _ = False"

fun is_reg :: "op \<Rightarrow> bool" where
  "is_reg (OP_REG _ _) = True"
| "is_reg _ = False"

fun is_imm :: "op \<Rightarrow> bool" where
  "is_imm (OP_IMM _) = True"
| "is_imm _ = False"

fun is_reg_name :: "op \<Rightarrow> reg_name \<Rightarrow> bool" where
  "is_reg_name (OP_REG n _) r = (n = r)"
| "is_reg_name _ _ = False"

definition touchesReg :: "instr \<Rightarrow> reg_name \<Rightarrow> bool" where
  "touchesReg i r =
     (if nOps i = 0 then False
      else if nOps i \<ge> 1 \<and> is_reg_name (ops0 i) r \<and> mne i \<in> set [M_Inc, M_Dec, M_Div, M_Neg] then True
      else if nOps i = 2 \<and> mne i \<noteq> M_Cmp \<and> is_reg_name (ops1 i) r then True
      else False)"

section \<open>Redundant jumps\<close>

text \<open>One iteration of \<open>AsmJumpOptimizer::optimizeFunction\<close>: the block and the label of the next.\<close>

definition jump_opt_block :: "string \<Rightarrow> instr list \<Rightarrow> asm_error + instr list \<times> int" where
  "jump_opt_block next_label js =
     (if js = [] then Inr (js, 0)
      else bindE (op_str (ops0 (last js))) (\<lambda>t.
        if t = next_label then Inr (butlast js, 1)
        else if length js \<ge> 2 then
          (let j = js ! (length js - 2) in
           if isJmp j then bindE (op_str (ops0 j)) (\<lambda>t2.
             if t2 = next_label then Inr (remove_at (length js - 2) js, 1) else Inr (js, 0))
           else Inr (js, 0))
        else Inr (js, 0)))"

fun jump_opt_blocks :: "basic_block list \<Rightarrow> asm_error + basic_block list \<times> int" where
  "jump_opt_blocks (b # c # bs) =
     bindE (jump_opt_block (getLabelStr c) (jumpInstrs b)) (\<lambda>(js, n).
     bindE (jump_opt_blocks (c # bs)) (\<lambda>(bs', m). Inr (b\<lparr>jumpInstrs := js\<rparr> # bs', n + m)))"
| "jump_opt_blocks [b] = Inr ([b], 0)"
| "jump_opt_blocks [] = Inl OutOfRange"

definition AsmJumpOptimizer :: "asm_function \<Rightarrow> asm_error + asm_function \<times> int" where
  "AsmJumpOptimizer f = bindE (jump_opt_blocks (orderedBasicBlocks f)) (\<lambda>(bs, n).
     Inr (f\<lparr>orderedBasicBlocks := bs\<rparr>, n))"

section \<open>Unused stack slots\<close>

text \<open>The slots that are read; an index beyond \<open>new bool[slots]\<close> is out of bounds.\<close>

definition slot_index :: "int \<Rightarrow> int \<Rightarrow> asm_error + nat" where
  "slot_index slots off = (if (- off) div 8 < slots then Inr (nat ((- off) div 8)) else Inl BadAccess)"

fun used_slots :: "int \<Rightarrow> instr list \<Rightarrow> nat list \<Rightarrow> asm_error + nat list" where
  "used_slots slots [] used = Inr used"
| "used_slots slots (i # is) used =
     (case ops0 i of
        OP_IND _ _ off \<Rightarrow>
          if nOps i \<ge> 1 \<and> off < 0 then bindE (slot_index slots off) (\<lambda>k. used_slots slots is (k # used))
          else used_slots slots is used
      | _ \<Rightarrow> used_slots slots is used)"

fun drop_unused :: "int \<Rightarrow> nat list \<Rightarrow> instr list \<Rightarrow> asm_error + instr list \<times> int" where
  "drop_unused slots used [] = Inr ([], 0)"
| "drop_unused slots used (i # is) =
     bindE (case ops1 i of
              OP_IND _ _ off \<Rightarrow>
                if isMov i \<and> off < 0 then bindE (slot_index slots off) (\<lambda>k. Inr (k \<notin> set used)) else Inr False
            | _ \<Rightarrow> Inr False) (\<lambda>dead.
     bindE (drop_unused slots used is) (\<lambda>(is', n). Inr (if dead then (is', n + 1) else (i # is', n))))"

fun drop_unused_blocks :: "int \<Rightarrow> nat list \<Rightarrow> basic_block list \<Rightarrow> asm_error + basic_block list \<times> int" where
  "drop_unused_blocks slots used [] = Inr ([], 0)"
| "drop_unused_blocks slots used (b # bs) =
     bindE (drop_unused slots used (flattenedInstrs b)) (\<lambda>(is, n).
     bindE (drop_unused_blocks slots used bs) (\<lambda>(bs', m). Inr (b\<lparr>flattenedInstrs := is\<rparr> # bs', n + m)))"

definition AsmStackOptimizer :: "asm_function \<Rightarrow> asm_error + asm_function \<times> int" where
  "AsmStackOptimizer f =
     bindE (used_slots (ARsize f) (concat (map flattenedInstrs (orderedBasicBlocks f))) []) (\<lambda>used.
     bindE (drop_unused_blocks (ARsize f) used (orderedBasicBlocks f)) (\<lambda>(bs, n).
     Inr (f\<lparr>orderedBasicBlocks := bs\<rparr>, n)))"

section \<open>Cheaper instructions\<close>

text \<open>One iteration of \<open>AsmSimpleOptimizer::optimizeBlock\<close>: \<open>None\<close> removes the instruction.\<close>

definition simple_opt :: "instr \<Rightarrow> instr option \<times> int" where
  "simple_opt i =
     (if mne i = M_Add \<and> is_imm (ops0 i) then
        if ops0 i = OP_IMM 0 then (None, 1)
        else if ops0 i = OP_IMM 1 then (Some (instr1 M_Inc (ops1 i) []), 1)
        else (Some i, 0)
      else if mne i = M_Sub \<and> ops0 i = OP_IMM 1 then (Some (instr1 M_Dec (ops1 i) []), 1)
      else if isMov i \<and> ops0 i = OP_IMM 0 \<and> \<not> is_ind (ops1 i) then
        (Some (instr2 M_Xor (ops1 i) (ops1 i) []), 1)
      else (Some i, 0))"

text \<open>After a removal the loop skips the instruction that moved to the index.\<close>

fun simple_opt_list :: "instr list \<Rightarrow> instr list \<times> int" where
  "simple_opt_list [] = ([], 0)"
| "simple_opt_list (i # is) =
     (case simple_opt i of
        (Some i', n) \<Rightarrow> (let (is', m) = simple_opt_list is in (i' # is', n + m))
      | (None, n) \<Rightarrow> (case is of [] \<Rightarrow> ([], n)
           | j # is2 \<Rightarrow> (let (is', m) = simple_opt_list is2 in (j # is', n + m))))"

text \<open>\<open>removeInstr\<close> and \<open>replaceInstr\<close> assert that the block is not flattened yet.\<close>

definition AsmSimpleOptimizer :: "basic_block \<Rightarrow> asm_error + basic_block \<times> int" where
  "AsmSimpleOptimizer b = (let (is, n) = simple_opt_list (instrs b) in
     if n > 0 \<and> flattenedInstrs b \<noteq> [] then Inl AsmAssert else Inr (b\<lparr>instrs := is\<rparr>, n))"

section \<open>Redundant moves\<close>

text \<open>
  The six loops of \<open>AsmMovOptimizer::optimizeBlock\<close>.  \<open>store_load\<close>: a move from a register to
  memory and a move from the same memory to a register.
\<close>

definition store_load :: "instr \<Rightarrow> instr \<Rightarrow> (reg_name \<times> reg_name) option" where
  "store_load m1 m2 =
     (case (ops0 m1, ops1 m1, ops0 m2, ops1 m2) of
        (OP_REG r1 _, OP_IND b1 _ o1, OP_IND b2 _ o2, OP_REG r2 _) \<Rightarrow>
          if isMov m1 \<and> isMov m2 \<and> b1 = b2 \<and> o1 = o2 then Some (r1, r2) else None
      | _ \<Rightarrow> None)"

function mov_pass1 :: "nat \<Rightarrow> instr list \<Rightarrow> int \<Rightarrow> asm_error + instr list \<times> int" where
  "mov_pass1 i xs n =
     (if xs = [] then Inl OutOfRange
      else if Suc i < length xs then
        (case store_load (xs ! i) (xs ! Suc i) of
           Some (r1, r2) \<Rightarrow>
             if r1 = r2 then mov_pass1 (Suc i) (remove_at (Suc i) xs) (n + 1) else mov_pass1 (Suc i) xs n
         | None \<Rightarrow> mov_pass1 (Suc i) xs n)
      else Inr (xs, n))"
  by pat_completeness auto
termination
  by (relation "measure (\<lambda>(i, xs, n). length xs - i)") (auto simp: remove_at_def)

fun op_mode :: "op \<Rightarrow> reg_mode" where
  "op_mode (OP_REG _ m) = m"
| "op_mode (OP_IND _ m _) = m"
| "op_mode _ = RM_R"

function mov_pass2 :: "nat \<Rightarrow> instr list \<Rightarrow> int \<Rightarrow> asm_error + instr list \<times> int" where
  "mov_pass2 i xs n =
     (if xs = [] then Inl OutOfRange
      else if Suc i < length xs then
        (let m2 = xs ! Suc i in
         case store_load (xs ! i) m2 of
           Some (r1, r2) \<Rightarrow>
             if r1 \<noteq> r2 then
               mov_pass2 (Suc i)
                 (xs[Suc i := makeMov (op_mode (ops1 m2)) (OP_REG r1 (op_mode (ops1 m2))) (ops1 m2) []]) (n + 1)
             else mov_pass2 (Suc i) xs n
         | None \<Rightarrow> mov_pass2 (Suc i) xs n)
      else Inr (xs, n))"
  by pat_completeness auto
termination
  by (relation "measure (\<lambda>(i, xs, n). length xs - i)") auto

text \<open>The index of the second move of the third loop: the next instruction, or the one behind it.\<close>

definition pass3_second :: "nat \<Rightarrow> instr list \<Rightarrow> reg_name \<Rightarrow> reg_name \<Rightarrow> nat" where
  "pass3_second i xs r b =
     (if (\<not> isMov (xs ! Suc i) \<or> \<not> touchesReg (xs ! Suc i) r \<and> \<not> touchesReg (xs ! Suc i) b)
         \<and> i + 2 < length xs
      then i + 2 else Suc i)"

function mov_pass3 :: "nat \<Rightarrow> instr list \<Rightarrow> int \<Rightarrow> asm_error + instr list \<times> int" where
  "mov_pass3 i xs n =
     (if xs = [] then Inl OutOfRange
      else if Suc i < length xs then
        (let m1 = xs ! i in
         case (ops0 m1, ops1 m1) of
           (OP_REG r1 _, OP_IND b1 _ o1) \<Rightarrow>
             if \<not> isMov m1 then mov_pass3 (Suc i) xs n
             else
               (let k = pass3_second i xs r1 b1; m2 = xs ! k in
                case (ops0 m2, ops1 m2) of
                  (OP_IND b2 _ o2, OP_REG r2 _) \<Rightarrow>
                    if isMov m2 \<and> b1 = b2 \<and> o1 = o2 then
                      if r1 = r2 then mov_pass3 (Suc i) (remove_at k xs) (n + 1)
                      else mov_pass3 (Suc i) (xs[k := m2\<lparr>ops0 := ops0 m1\<rparr>]) (n + 1)
                    else mov_pass3 (Suc i) xs n
                | _ \<Rightarrow> mov_pass3 (Suc i) xs n)
         | _ \<Rightarrow> mov_pass3 (Suc i) xs n)
      else Inr (xs, n))"
  by pat_completeness auto
termination
  by (relation "measure (\<lambda>(i, xs, n). length xs - i)") (auto simp: remove_at_def)

text \<open>
  The fourth loop.  After a removal its inner loop goes on with the pointer \<open>instr1\<close>, which then
  points to the instruction that moved to the index, or past the end.
\<close>

definition same_mov :: "instr \<Rightarrow> instr \<Rightarrow> asm_error + bool" where
  "same_mov i2 i1 =
     (if isMov i2 \<and> is_ind (ops0 i2) then
        bindE (op_base (ops0 i2)) (\<lambda>b2. bindE (op_base (ops0 i1)) (\<lambda>b1.
        if b2 \<noteq> b1 then Inr False
        else bindE (op_off (ops0 i2)) (\<lambda>o2. bindE (op_off (ops0 i1)) (\<lambda>o1.
          if o2 \<noteq> o1 \<or> \<not> is_reg (ops1 i2) then Inr False
          else bindE (op_base (ops1 i2)) (\<lambda>r2. bindE (op_base (ops1 i1)) (\<lambda>r1. Inr (r2 = r1)))))))
      else Inr False)"

definition MAX_LOOKBEHIND :: nat where "MAX_LOOKBEHIND = 3"

function pass4_inner :: "nat \<Rightarrow> nat \<Rightarrow> instr list \<Rightarrow> int \<Rightarrow> asm_error + instr list \<times> int" where
  "pass4_inner i l xs n =
     (if l > MAX_LOOKBEHIND \<or> l > i then Inr (xs, n)
      else if i \<ge> length xs then Inl BadAccess
      else
        (let i1 = xs ! i; i2 = xs ! (i - l) in
         bindE (same_mov i2 i1) (\<lambda>same.
           if same then pass4_inner i (Suc l) (remove_at i xs) (n + 1)
           else bindE (op_base (ops1 i1)) (\<lambda>r.
             if touchesReg i2 r then Inr (xs, n)
             else bindE (op_base (ops0 i1)) (\<lambda>b.
               if touchesReg i2 b then Inr (xs, n) else pass4_inner i (Suc l) xs n)))))"
  by pat_completeness auto
termination
  by (relation "measure (\<lambda>(i, l, xs, n). Suc MAX_LOOKBEHIND - l)") (auto simp: MAX_LOOKBEHIND_def)

fun mov_pass4 :: "nat \<Rightarrow> instr list \<Rightarrow> int \<Rightarrow> asm_error + instr list \<times> int" where
  "mov_pass4 0 xs n = Inr (xs, n)"
| "mov_pass4 (Suc j) xs n =
     (if Suc j \<ge> length xs then Inl OutOfRange
      else
        (case (ops0 (xs ! Suc j), ops1 (xs ! Suc j)) of
           (OP_IND b _ _, OP_REG r _) \<Rightarrow>
             if isMov (xs ! Suc j) \<and> b \<noteq> r then
               bindE (pass4_inner (Suc j) 1 xs n) (\<lambda>(xs', n'). mov_pass4 j xs' n')
             else mov_pass4 j xs n
         | _ \<Rightarrow> mov_pass4 j xs n))"

function mov_pass5 :: "nat \<Rightarrow> instr list \<Rightarrow> int \<Rightarrow> asm_error + instr list \<times> int" where
  "mov_pass5 i xs n =
     (if xs = [] then Inl OutOfRange
      else if Suc i < length xs then
        (let m1 = xs ! i; m2 = xs ! Suc i in
         case (ops0 m1, ops1 m1, ops0 m2, ops1 m2) of
           (OP_REG r1 _, OP_REG r2 _, OP_IND b md off, OP_REG _ _) \<Rightarrow>
             if isMov m1 \<and> isMov m2 \<and> b = r2 then
               mov_pass5 (Suc i) (remove_at i (xs[Suc i := m2\<lparr>ops0 := OP_IND r1 md off\<rparr>])) (n + 1)
             else mov_pass5 (Suc i) xs n
         | _ \<Rightarrow> mov_pass5 (Suc i) xs n)
      else Inr (xs, n))"
  by pat_completeness auto
termination
  by (relation "measure (\<lambda>(i, xs, n). length xs - i)") (auto simp: remove_at_def)

function mov_pass6 :: "nat \<Rightarrow> instr list \<Rightarrow> int \<Rightarrow> asm_error + instr list \<times> int" where
  "mov_pass6 i xs n =
     (if xs = [] then Inl OutOfRange
      else if Suc i < length xs then
        (let m1 = xs ! i; m2 = xs ! Suc i in
         case (ops0 m1, ops1 m1, ops0 m2, ops1 m2) of
           (OP_IND _ _ _, OP_REG r1 md, OP_REG r2 _, OP_REG r3 _) \<Rightarrow>
             if isMov m1 \<and> isMov m2 \<and> r1 = r2 then
               mov_pass6 (Suc i) (remove_at (Suc i) (xs[i := m1\<lparr>ops1 := OP_REG r3 md\<rparr>])) (n + 1)
             else mov_pass6 (Suc i) xs n
         | _ \<Rightarrow> mov_pass6 (Suc i) xs n)
      else Inr (xs, n))"
  by pat_completeness auto
termination
  by (relation "measure (\<lambda>(i, xs, n). length xs - i)") (auto simp: remove_at_def)

definition mov_opt :: "instr list \<Rightarrow> asm_error + instr list \<times> int" where
  "mov_opt xs =
     bindE (mov_pass1 0 xs 0) (\<lambda>(xs1, n1).
     bindE (mov_pass2 0 xs1 n1) (\<lambda>(xs2, n2).
     bindE (mov_pass3 0 xs2 n2) (\<lambda>(xs3, n3).
     bindE (if xs3 = [] then Inl OutOfRange else mov_pass4 (length xs3 - 1) xs3 n3) (\<lambda>(xs4, n4).
     bindE (mov_pass5 0 xs4 n4) (\<lambda>(xs5, n5). mov_pass6 0 xs5 n5)))))"

definition AsmMovOptimizer :: "basic_block \<Rightarrow> asm_error + basic_block \<times> int" where
  "AsmMovOptimizer b = bindE (mov_opt (flattenedInstrs b)) (\<lambda>(xs, n). Inr (b\<lparr>flattenedInstrs := xs\<rparr>, n))"

section \<open>Additions before memory accesses\<close>

definition MAX_LOOKAHEAD :: nat where "MAX_LOOKAHEAD = 3"

text \<open>
  The inner loops of \<open>AsmArrayOptimizer::optimizeBlock\<close> for register \<open>r\<close> of mode \<open>md\<close> and the
  addend \<open>off\<close>; the two branches for \<open>add\<close> and \<open>inc\<close> are the same but for the addend.
\<close>

definition array_rewrite :: "reg_name \<Rightarrow> reg_mode \<Rightarrow> int \<Rightarrow> instr \<Rightarrow> instr option" where
  "array_rewrite r md off m2 =
     (if \<not> isMov m2 then None
      else if \<not> is_ind (ops0 m2) then
        (case ops1 m2 of
           OP_IND b _ o2 \<Rightarrow> if b = r \<and> o2 = 0 then Some (m2\<lparr>ops1 := OP_IND r md off\<rparr>) else None
         | _ \<Rightarrow> None)
      else
        (case ops0 m2 of
           OP_IND b bm _ \<Rightarrow> if b = r then Some (m2\<lparr>ops0 := OP_IND b bm off\<rparr>) else None
         | _ \<Rightarrow> None))"

fun array_inner :: "nat list \<Rightarrow> nat \<Rightarrow> reg_name \<Rightarrow> reg_mode \<Rightarrow> int \<Rightarrow> instr list \<times> bool \<Rightarrow> instr list \<times> bool" where
  "array_inner [] i r md off (xs, rm) = (xs, rm)"
| "array_inner (l # ls) i r md off (xs, rm) =
     (if i + l \<ge> length xs then (xs, rm)
      else (case array_rewrite r md off (xs ! (i + l)) of
          Some m2 \<Rightarrow> array_inner ls i r md off (xs[i + l := m2], True)
        | None \<Rightarrow>
            if touchesReg (xs ! (i + l)) r then (xs, rm) else array_inner ls i r md off (xs, rm)))"

lemma array_inner_length [simp]: "length (fst (array_inner ls i r md off p)) = length (fst p)"
  by (induction ls i r md off p rule: array_inner.induct) (auto split: option.split)

definition array_step :: "nat \<Rightarrow> instr list \<Rightarrow> instr list \<times> bool" where
  "array_step i xs =
     (let m1 = xs ! i in
      if mne m1 = M_Add \<and> is_imm (ops0 m1) \<and> is_reg (ops1 m1) then
        (case (ops0 m1, ops1 m1) of
           (OP_IMM v, OP_REG r md) \<Rightarrow> array_inner [1 ..< Suc MAX_LOOKAHEAD] i r md v (xs, False)
         | _ \<Rightarrow> (xs, False))
      else if mne m1 = M_Inc then
        (case ops0 m1 of
           OP_REG r md \<Rightarrow> array_inner [1 ..< Suc MAX_LOOKAHEAD] i r md 1 (xs, False)
         | _ \<Rightarrow> (xs, False))
      else (xs, False))"

lemma array_step_length [simp]: "length (fst (array_step i xs)) = length xs"
  by (simp add: array_step_def Let_def split: op.split)

function array_opt :: "nat \<Rightarrow> instr list \<Rightarrow> int \<Rightarrow> asm_error + instr list \<times> int" where
  "array_opt i xs n =
     (if xs = [] then Inl OutOfRange
      else if Suc i < length xs then
        (if snd (array_step i xs) then array_opt (Suc i) (remove_at i (fst (array_step i xs))) (n + 1)
         else array_opt (Suc i) (fst (array_step i xs)) n)
      else Inr (xs, n))"
  by pat_completeness auto
termination
  by (relation "measure (\<lambda>(i, xs, n). length xs - i)") (auto simp: remove_at_def)

definition AsmArrayOptimizer :: "basic_block \<Rightarrow> asm_error + basic_block \<times> int" where
  "AsmArrayOptimizer b = bindE (array_opt 0 (flattenedInstrs b) 0) (\<lambda>(xs, n). Inr (b\<lparr>flattenedInstrs := xs\<rparr>, n))"

section \<open>Additions and subtractions of constants\<close>

definition in_int_range :: "int \<Rightarrow> bool" where
  "in_int_range v \<longleftrightarrow> - (2 ^ 31) \<le> v \<and> v \<le> 2 ^ 31 - 1"

text \<open>
  The instructions that replace an \<open>add\<close> and a \<open>sub\<close>: none for equal constants, otherwise one,
  with the register and mode of the \<open>add\<close>.  \<open>instr1\<close> still points to the \<open>add\<close> when it is replaced.
\<close>

definition arith_pair :: "instr \<Rightarrow> instr \<Rightarrow> (asm_error + instr list) option" where
  "arith_pair i1 i2 =
     (case (ops0 i1, ops1 i1, ops0 i2, ops1 i2) of
        (OP_IMM c1, OP_REG r1 md, OP_IMM c2, OP_REG r2 _) \<Rightarrow>
          if mne i1 = M_Add \<and> mne i2 = M_Sub \<and> r1 = r2 then
            Some (if c1 = c2 then Inr []
                  else
                    (let diff = c1 - c2 in
                     if \<not> in_int_range diff \<or> \<not> in_int_range (- diff) then Inl IntOverflow
                     else if diff < 0 then Inr [instr2 M_Sub (OP_IMM (- diff)) (OP_REG r1 md) []]
                     else Inr [instr2 M_Add (OP_IMM diff) (OP_REG r1 md) []]))
          else None
      | _ \<Rightarrow> None)"

text \<open>\<open>n\<close> counts two for a removed pair and one for a replaced one.\<close>

function arith_opt :: "nat \<Rightarrow> instr list \<Rightarrow> int \<Rightarrow> asm_error + instr list \<times> int" where
  "arith_opt i xs n =
     (if xs = [] then Inl OutOfRange
      else if Suc i < length xs then
        (case arith_pair (xs ! i) (xs ! Suc i) of
           Some (Inl e) \<Rightarrow> Inl e
         | Some (Inr []) \<Rightarrow> arith_opt (Suc i) (remove_at i (remove_at (Suc i) xs)) (n + 2)
         | Some (Inr (j # js)) \<Rightarrow> arith_opt (Suc i) ((remove_at (Suc i) xs)[i := j]) (n + 1)
         | None \<Rightarrow> arith_opt (Suc i) xs n)
      else Inr (xs, n))"
  by pat_completeness auto
termination
  by (relation "measure (\<lambda>(i, xs, n). length xs - i)") (auto simp: remove_at_def)

definition AsmArithOptimizer :: "basic_block \<Rightarrow> asm_error + basic_block \<times> int" where
  "AsmArithOptimizer b = bindE (arith_opt 0 (flattenedInstrs b) 0) (\<lambda>(xs, n). Inr (b\<lparr>flattenedInstrs := xs\<rparr>, n))"

section \<open>Register aliases\<close>

fun rename_op :: "reg_name \<Rightarrow> reg_name \<Rightarrow> op \<Rightarrow> op" where
  "rename_op dst src (OP_REG n m) = OP_REG (if n = dst then src else n) m"
| "rename_op dst src (OP_IND b m off) = OP_IND (if b = dst then src else b) m off"
| "rename_op dst src x = x"

definition rename_instr :: "reg_name \<Rightarrow> reg_name \<Rightarrow> instr \<Rightarrow> instr" where
  "rename_instr dst src i =
     i\<lparr>ops0 := (if nOps i > 0 then rename_op dst src (ops0 i) else ops0 i),
       ops1 := (if nOps i > 1 then rename_op dst src (ops1 i) else ops1 i)\<rparr>"

text \<open>
  The inner loop, on the instructions behind the move but for the last one of the block
  (\<open>x < size() - 1\<close>); it returns them and whether the move is to be removed.
\<close>

fun alias_inner :: "reg_name \<Rightarrow> reg_name \<Rightarrow> instr list \<Rightarrow> bool \<Rightarrow> instr list \<times> bool" where
  "alias_inner dst src [] rm = ([], rm)"
| "alias_inner dst src (i # is) rm =
     (if touchesReg i src then (i # is, False)
      else if touchesReg i dst then (i # is, rm)
      else if nOps i = 0 then (let (is', rm') = alias_inner dst src is rm in (i # is', rm'))
      else (let (is', rm') = alias_inner dst src is True in (rename_instr dst src i # is', rm')))"

lemma alias_inner_length [simp]: "length (fst (alias_inner dst src xs rm)) = length xs"
  by (induction xs arbitrary: rm) (auto split: prod.split simp: Let_def prod_eq_iff)

definition alias_step :: "nat \<Rightarrow> instr list \<Rightarrow> instr list \<times> bool" where
  "alias_step i xs =
     (let m = xs ! i in
      case (ops0 m, ops1 m) of
        (OP_REG src _, OP_REG dst _) \<Rightarrow>
          if isMov m \<and> dst \<noteq> RN_di \<and> dst \<noteq> RN_si then
            (let (mid, rm) = alias_inner dst src (drop (Suc i) (butlast xs)) False
             in (take (Suc i) xs @ mid @ [last xs], rm))
          else (xs, False)
      | _ \<Rightarrow> (xs, False))"

lemma alias_step_length [simp]: "Suc i < length xs \<Longrightarrow> length (fst (alias_step i xs)) = length xs"
proof -
  assume i: "Suc i < length xs"
  have "length (take (Suc i) xs @ fst (alias_inner d s (drop (Suc i) (butlast xs)) rm) @ [last xs]) = length xs"
    for d s rm using i by simp
  then show ?thesis by (auto simp: alias_step_def Let_def case_prod_beta split: op.split)
qed

function alias_opt :: "nat \<Rightarrow> instr list \<Rightarrow> int \<Rightarrow> asm_error + instr list \<times> int" where
  "alias_opt i xs n =
     (if xs = [] then Inl OutOfRange
      else if Suc i < length xs then
        (if snd (alias_step i xs) then alias_opt (Suc i) (remove_at i (fst (alias_step i xs))) (n + 1)
         else alias_opt (Suc i) (fst (alias_step i xs)) n)
      else Inr (xs, n))"
  by pat_completeness auto
termination
  by (relation "measure (\<lambda>(i, xs, n). length xs - i)") (auto simp: remove_at_def)

definition AsmAliasOptimizer :: "basic_block \<Rightarrow> asm_error + basic_block \<times> int" where
  "AsmAliasOptimizer b = bindE (alias_opt 0 (flattenedInstrs b) 0) (\<lambda>(xs, n). Inr (b\<lparr>flattenedInstrs := xs\<rparr>, n))"

section \<open>Running the optimizers\<close>

text \<open>\<open>AsmBlockOptimizer::run\<close> and \<open>AsmFunctionOptimizer::run\<close>; blocks are independent of each other.\<close>

definition run_blocks :: "(basic_block \<Rightarrow> asm_error + basic_block \<times> int) \<Rightarrow> asm_program \<Rightarrow> asm_error + asm_program" where
  "run_blocks opt = mapE (\<lambda>f.
     bindE (mapE (\<lambda>b. if instrs b \<noteq> [] then bindE (opt b) (\<lambda>(b', n). Inr b') else Inr b) (orderedBasicBlocks f))
       (\<lambda>bs. Inr (f\<lparr>orderedBasicBlocks := bs\<rparr>)))"

definition run_functions :: "(asm_function \<Rightarrow> asm_error + asm_function \<times> int) \<Rightarrow> asm_program \<Rightarrow> asm_error + asm_program" where
  "run_functions opt = mapE (\<lambda>f. bindE (opt f) (\<lambda>(f', n). Inr f'))"

text \<open>The order of the optimizers in \<open>Compiler::lowerFirmGraphs\<close>.\<close>

definition optimize_asm :: "asm_program \<Rightarrow> asm_error + asm_program" where
  "optimize_asm p =
     bindE (run_functions AsmJumpOptimizer p) (\<lambda>p1.
     bindE (run_blocks AsmSimpleOptimizer p1) (\<lambda>p2.
     bindE (flattenFunctions p2) (\<lambda>p3.
     bindE (run_blocks AsmMovOptimizer p3) (\<lambda>p4.
     bindE (run_functions AsmStackOptimizer p4) (\<lambda>p5.
     bindE (run_blocks AsmArrayOptimizer p5) (\<lambda>p6.
     bindE (run_blocks AsmMovOptimizer p6) (\<lambda>p7.
     bindE (run_blocks AsmAliasOptimizer p7) (\<lambda>p8.
     run_blocks AsmArithOptimizer p8))))))))"

end
