(* ===== verification/Asm_Sem.thy ===== *)
theory Asm_Sem
  imports Asm "HOL-Library.Word" "HOL-Library.Signed_Division"
begin

text \<open>
  The meaning of the instructions that the compiler emits, as a reference for the optimizers and
  the code generator: registers of 64 bits, a byte-addressed memory and the flags.  The size of an
  access follows the suffix of the mnemonic, and for the mnemonics without one the register
  operands.  \<open>None\<close> stands for an instruction that the assembler rejects or a fault of the machine.

  Only \<open>cmp\<close> defines the flags; arithmetic and calls leave them undefined, and a conditional jump
  on undefined flags has no result.  Code that runs to a result here does not depend on the flags
  of any other instruction.  The effect of a called function on registers and memory is a parameter.
\<close>

unbundle bit_operations_syntax

section \<open>State\<close>

record asm_state =
  regs :: "reg_name \<Rightarrow> 64 word"
  mem :: "64 word \<Rightarrow> 8 word"
  flags :: "(bool \<times> bool \<times> bool) option" \<comment> \<open>zero, sign and overflow\<close>

type_synonym asm_data = "(reg_name \<Rightarrow> 64 word) \<times> (64 word \<Rightarrow> 8 word)"

type_synonym calls = "string \<Rightarrow> asm_data \<Rightarrow> asm_data option"

fun bits :: "reg_mode \<Rightarrow> nat" where
  "bits RM_R = 64"
| "bits RM_E = 32"
| "bits RM_L = 8"

definition trunc :: "reg_mode \<Rightarrow> 64 word \<Rightarrow> 64 word" where
  "trunc w v = take_bit (bits w) v"

section \<open>Memory\<close>

fun read_mem :: "nat \<Rightarrow> 64 word \<Rightarrow> (64 word \<Rightarrow> 8 word) \<Rightarrow> 64 word" where
  "read_mem 0 a m = 0"
| "read_mem (Suc n) a m = (ucast (m a) OR push_bit 8 (read_mem n (a + 1) m))"

definition write_mem :: "nat \<Rightarrow> 64 word \<Rightarrow> 64 word \<Rightarrow> (64 word \<Rightarrow> 8 word) \<Rightarrow> (64 word \<Rightarrow> 8 word)" where
  "write_mem n a v m = (\<lambda>x. if unat (x - a) < n then ucast (drop_bit (8 * unat (x - a)) v) else m x)"

lemma bit_read_mem:
  "k < 64 \<Longrightarrow> bit (read_mem n a m) k \<longleftrightarrow> k < 8 * n \<and> bit (m (a + word_of_nat (k div 8))) (k mod 8)"
proof (induction n arbitrary: a k)
  case (Suc n)
  show ?case
  proof (cases "k < 8")
    case True
    then show ?thesis using Suc.prems by (simp add: bit_simps)
  next
    case False
    have d: "k div 8 = Suc ((k - 8) div 8)" "k mod 8 = (k - 8) mod 8"
      using False by (auto simp: le_div_geq le_mod_geq)
    have "bit (read_mem n (a + 1) m) (k - 8) \<longleftrightarrow> k - 8 < 8 * n
        \<and> bit (m (a + 1 + word_of_nat ((k - 8) div 8))) ((k - 8) mod 8)"
      using Suc.prems by (intro Suc.IH) simp
    moreover have "\<not> bit (m a) k" using False bit_imp_le_length [of "m a" k] by auto
    moreover have "a + word_of_nat (k div 8) = a + 1 + word_of_nat ((k - 8) div 8)" using d by simp
    moreover have "k - 8 < 8 * n \<longleftrightarrow> k < 8 * Suc n" using False by auto
    ultimately show ?thesis using False Suc.prems d by (simp add: bit_simps add.assoc)
  qed
qed simp

lemma read_write_mem:
  assumes "n \<le> 8"
  shows "read_mem n a (write_mem n a v m) = take_bit (8 * n) v"
proof (rule bit_word_eqI)
  fix k assume "k < LENGTH(64)"
  then have k: "k < 64" by simp
  have "k div 8 < 8" using k by auto
  then have u: "unat (word_of_nat (k div 8) :: 64 word) = k div 8"
    by (simp add: unat_of_nat)
  have "8 * (k div 8) + k mod 8 = k" by simp
  then show "bit (read_mem n a (write_mem n a v m)) k = bit (take_bit (8 * n) v) k"
    using k u by (auto simp: bit_read_mem write_mem_def bit_simps)
qed

section \<open>Operands\<close>

definition addr_of :: "reg_name \<Rightarrow> reg_mode \<Rightarrow> int \<Rightarrow> asm_state \<Rightarrow> 64 word" where
  "addr_of b m off s = trunc m (regs s b) + word_of_int off"

fun read_op :: "reg_mode \<Rightarrow> op \<Rightarrow> asm_state \<Rightarrow> 64 word option" where
  "read_op w (OP_IMM v) s = Some (trunc w (word_of_int v))"
| "read_op w (OP_REG r m) s = (if m = w then Some (trunc w (regs s r)) else None)"
| "read_op w (OP_IND b m off) s = Some (read_mem (bits w div 8) (addr_of b m off s) (mem s))"
| "read_op w _ s = None"

text \<open>A write of 32 bits to a register clears its upper half, a write of 8 bits keeps the rest.\<close>

definition write_reg :: "reg_mode \<Rightarrow> reg_name \<Rightarrow> 64 word \<Rightarrow> asm_state \<Rightarrow> asm_state" where
  "write_reg w r v s = s\<lparr>regs := (regs s)(r := (case w of
       RM_R \<Rightarrow> v
     | RM_E \<Rightarrow> take_bit 32 v
     | RM_L \<Rightarrow> (regs s r AND NOT (mask 8)) OR take_bit 8 v))\<rparr>"

fun write_op :: "reg_mode \<Rightarrow> op \<Rightarrow> 64 word \<Rightarrow> asm_state \<Rightarrow> asm_state option" where
  "write_op w (OP_REG r m) v s = (if m = w then Some (write_reg w r v s) else None)"
| "write_op w (OP_IND b m off) v s =
     Some (s\<lparr>mem := write_mem (bits w div 8) (addr_of b m off s) v (mem s)\<rparr>)"
| "write_op w _ v s = None"

section \<open>Instructions\<close>

text \<open>The access size of a two-operand instruction without suffix.\<close>

fun op_width :: "op \<Rightarrow> reg_mode option" where
  "op_width (OP_REG _ m) = Some m"
| "op_width _ = None"

definition instr_width :: "instr \<Rightarrow> reg_mode option" where
  "instr_width i = (case mne i of
       M_Movq \<Rightarrow> Some RM_R | M_Movl \<Rightarrow> Some RM_E | M_Movb \<Rightarrow> Some RM_L
     | _ \<Rightarrow> (case op_width (ops1 i) of Some w \<Rightarrow> Some w | None \<Rightarrow> op_width (ops0 i)))"

definition flags_of :: "reg_mode \<Rightarrow> int \<Rightarrow> 64 word \<Rightarrow> bool \<times> bool \<times> bool" where
  "flags_of w exact v = (trunc w v = 0, bit v (bits w - 1),
     exact < - (2 ^ (bits w - 1)) \<or> 2 ^ (bits w - 1) \<le> exact)"

definition sval :: "reg_mode \<Rightarrow> 64 word \<Rightarrow> int" where
  "sval w v = signed_take_bit (bits w - 1) (uint v)"

text \<open>An arithmetic instruction with source \<open>x\<close> and destination \<open>d\<close>.\<close>

definition arith :: "reg_mode \<Rightarrow> op \<Rightarrow> op \<Rightarrow> (64 word \<Rightarrow> 64 word \<Rightarrow> 64 word) \<Rightarrow> asm_state \<Rightarrow> asm_state option" where
  "arith w x d f s =
     Option.bind (read_op w x s) (\<lambda>a. Option.bind (read_op w d s) (\<lambda>b.
       write_op w d (trunc w (f b a)) (s\<lparr>flags := None\<rparr>)))"

definition exec_instr :: "calls \<Rightarrow> instr \<Rightarrow> asm_state \<Rightarrow> asm_state option" where
  "exec_instr ext i s =
     (let two = nOps i = 2; one = nOps i = 1; w = instr_width i in
      case mne i of
        M_Label \<Rightarrow> Some s
      | M_Add \<Rightarrow> if two then Option.bind w (\<lambda>w. arith w (ops0 i) (ops1 i) (+) s) else None
      | M_Sub \<Rightarrow> if two then Option.bind w (\<lambda>w. arith w (ops0 i) (ops1 i) (-) s) else None
      | M_IMul \<Rightarrow> if two then Option.bind w (\<lambda>w. arith w (ops0 i) (ops1 i) (*) s) else None
      | M_Xor \<Rightarrow> if two then Option.bind w (\<lambda>w. arith w (ops0 i) (ops1 i) (XOR) s) else None
      | M_Inc \<Rightarrow> if one then Option.bind w (\<lambda>w. arith w (OP_IMM 1) (ops0 i) (+) s) else None
      | M_Dec \<Rightarrow> if one then Option.bind w (\<lambda>w. arith w (OP_IMM 1) (ops0 i) (-) s) else None
      | M_Neg \<Rightarrow> if one then Option.bind w (\<lambda>w. arith w (OP_IMM 0) (ops0 i) (\<lambda>b a. a - b) s) else None
      | M_Cmp \<Rightarrow>
          if two then Option.bind w (\<lambda>w. Option.bind (read_op w (ops0 i) s) (\<lambda>a.
            Option.bind (read_op w (ops1 i) s) (\<lambda>b.
              Some (s\<lparr>flags := Some (flags_of w (sval w b - sval w a) (b - a))\<rparr>))))
          else None
      | M_Movslq \<Rightarrow>
          if two then Option.bind (read_op RM_E (ops0 i) s) (\<lambda>a.
            write_op RM_R (ops1 i) (word_of_int (sval RM_E a)) s)
          else None
      | M_Cqto \<Rightarrow> Some (write_reg RM_R RN_dx (if bit (regs s RN_ax) 63 then - 1 else 0) s)
      | M_Div \<Rightarrow>
          if one then Option.bind (read_op RM_R (ops0 i) s) (\<lambda>d.
            let x = 2 ^ 64 * sval RM_R (regs s RN_dx) + uint (regs s RN_ax);
                y = sval RM_R d in
            if y = 0 then None
            else let q = x sdiv y; r = x smod y in
              if q < - (2 ^ 63) \<or> 2 ^ 63 \<le> q then None
              else Some (write_reg RM_R RN_dx (word_of_int r) (write_reg RM_R RN_ax (word_of_int q) (s\<lparr>flags := None\<rparr>))))
          else None
      | M_Call \<Rightarrow>
          (case ops0 i of
             OP_STR f \<Rightarrow> if one then map_option (\<lambda>(r, m). \<lparr>regs = r, mem = m, flags = None\<rparr>) (ext f (regs s, mem s)) else None
           | _ \<Rightarrow> None)
      | _ \<Rightarrow>
          if isMov i \<and> two then Option.bind w (\<lambda>w. Option.bind (read_op w (ops0 i) s) (\<lambda>a.
            write_op w (ops1 i) a s))
          else None)"

text \<open>Code without jumps.\<close>

fun exec_code :: "calls \<Rightarrow> instr list \<Rightarrow> asm_state \<Rightarrow> asm_state option" where
  "exec_code ext [] s = Some s"
| "exec_code ext (i # is) s = Option.bind (exec_instr ext i s) (exec_code ext is)"

lemma exec_code_append: "exec_code ext (xs @ ys) s = Option.bind (exec_code ext xs s) (exec_code ext ys)"
  by (induction xs arbitrary: s) (auto simp: Option.bind_assoc split: Option.bind_splits)

lemma exec_single: "exec_code ext [i] s = exec_instr ext i s"
  by (cases "exec_instr ext i s") simp_all

section \<open>Jumps\<close>

fun jump_taken :: "mnemonic \<Rightarrow> asm_state \<Rightarrow> bool option" where
  "jump_taken M_Jmp s = Some True"
| "jump_taken M_Je s = map_option (\<lambda>(z, n, v). z) (flags s)"
| "jump_taken M_Jne s = map_option (\<lambda>(z, n, v). \<not> z) (flags s)"
| "jump_taken M_Jg s = map_option (\<lambda>(z, n, v). \<not> z \<and> n = v) (flags s)"
| "jump_taken M_Jge s = map_option (\<lambda>(z, n, v). n = v) (flags s)"
| "jump_taken M_Jl s = map_option (\<lambda>(z, n, v). n \<noteq> v) (flags s)"
| "jump_taken M_Jle s = map_option (\<lambda>(z, n, v). z \<or> n \<noteq> v) (flags s)"
| "jump_taken _ s = None"

text \<open>
  A block runs until a jump leaves it or control reaches its end: the result is the label of the
  next block, which is \<open>nxt\<close> at the end, and the state.  Jumps within a block go forward to a label,
  as in the code of \<open>generateBoolPhi\<close>.
\<close>

fun find_label :: "string \<Rightarrow> instr list \<Rightarrow> instr list option" where
  "find_label t [] = None"
| "find_label t (i # is) = (if mne i = M_Label \<and> ops0 i = OP_STR t then Some is else find_label t is)"

lemma find_label_length: "find_label t xs = Some ys \<Longrightarrow> length ys < length xs"
  by (induction xs) (auto split: if_splits)

function run_block :: "calls \<Rightarrow> string \<Rightarrow> instr list \<Rightarrow> asm_state \<Rightarrow> (string \<times> asm_state) option" where
  "run_block ext nxt [] s = Some (nxt, s)"
| "run_block ext nxt (i # is) s =
     (if isJmp i then
        (case jump_taken (mne i) s of
           Some True \<Rightarrow>
             (case ops0 i of
                OP_STR t \<Rightarrow> (case find_label t is of Some is' \<Rightarrow> run_block ext nxt is' s | None \<Rightarrow> Some (t, s))
              | _ \<Rightarrow> None)
         | Some False \<Rightarrow> run_block ext nxt is s
         | None \<Rightarrow> None)
      else Option.bind (exec_instr ext i s) (run_block ext nxt is))"
  by pat_completeness auto
termination
  by (relation "measure (\<lambda>(ext, nxt, is, s). length is)") (auto dest: find_label_length)

end
