(* ===== verification/Asm_Equiv.thy ===== *)
theory Asm_Equiv
  imports Asm_Opt Asm_Sem
begin

text \<open>
  Refinement of code.  \<open>sim f s t\<close>: the states have the same registers and memory, and if \<open>f\<close> also
  the flags of \<open>s\<close>, where they are defined, are those of \<open>t\<close>.  \<open>refines f a b\<close>: whenever \<open>a\<close> runs to
  its end, so does \<open>b\<close>, with related results.  No instruction but a jump reads the flags, so
  refinement is a congruence of code without jumps for both \<open>f\<close>, and of whole blocks for \<open>f = True\<close>.
  An optimizer that replaces a few neighbouring instructions is correct if the replacement refines
  them.  The locale \<open>block_optimizer\<close> is the contract of such an optimizer.
\<close>

definition sim :: "bool \<Rightarrow> asm_state \<Rightarrow> asm_state \<Rightarrow> bool" where
  "sim f s t \<longleftrightarrow> regs s = regs t \<and> mem s = mem t \<and> (f \<longrightarrow> flags s = None \<or> flags s = flags t)"

lemma sim_refl [simp]: "sim f s s"
  by (simp add: sim_def)

lemma sim_trans: "sim f s t \<Longrightarrow> sim f t u \<Longrightarrow> sim f s u"
  by (auto simp: sim_def)

lemma sim_data: "sim f s t \<Longrightarrow> regs s = regs t" "sim f s t \<Longrightarrow> mem s = mem t"
  by (simp_all add: sim_def)

lemma sim_flags: "sim f s t \<Longrightarrow> sim f (s\<lparr>flags := x\<rparr>) (t\<lparr>flags := x\<rparr>)"
  by (simp add: sim_def)

lemma sim_write_reg: "sim f s t \<Longrightarrow> sim f (write_reg w r v s) (write_reg w r v t)"
  by (cases w) (simp_all add: sim_def write_reg_def)

lemma read_op_sim: "sim f s t \<Longrightarrow> read_op w x s = read_op w x t"
  by (cases x) (simp_all add: sim_def addr_of_def)

lemma write_op_sim: "sim f s t \<Longrightarrow> rel_option (sim f) (write_op w x v s) (write_op w x v t)"
proof (cases x)
  case (OP_IND b m off)
  assume "sim f s t"
  then show ?thesis using OP_IND by (auto simp: sim_def addr_of_def)
qed (simp_all add: sim_write_reg)

lemma arith_sim: "sim f s t \<Longrightarrow> rel_option (sim f) (arith w x y g s) (arith w x y g t)"
  unfolding arith_def
  by (simp add: read_op_sim) (auto split: Option.bind_splits intro: write_op_sim sim_flags)

lemmas sim_intros = arith_sim write_op_sim sim_flags sim_write_reg

lemma exec_instr_sim: "sim f s t \<Longrightarrow> rel_option (sim f) (exec_instr ext i s) (exec_instr ext i t)"
proof -
  assume st: "sim f s t"
  note d = sim_data [OF st] read_op_sim [OF st]
  have ext: "rel_option (sim f) (map_option (\<lambda>(r, m). \<lparr>regs = r, mem = m, flags = None\<rparr>) x)
      (map_option (\<lambda>(r, m). \<lparr>regs = r, mem = m, flags = None\<rparr>) x)" for x
    by (cases x) auto
  show ?thesis
    unfolding exec_instr_def Let_def d
    by (cases "mne i") (auto split: Option.bind_splits op.splits intro: sim_intros st ext)
qed

lemma exec_code_sim: "sim f s t \<Longrightarrow> rel_option (sim f) (exec_code ext is s) (exec_code ext is t)"
proof (induction "is" arbitrary: s t)
  case (Cons i "is")
  from exec_instr_sim [OF Cons.prems, of ext i] show ?case
    by (cases "exec_instr ext i s"; cases "exec_instr ext i t") (auto intro: Cons.IH)
qed simp

section \<open>Refinement\<close>

definition refines :: "bool \<Rightarrow> instr list \<Rightarrow> instr list \<Rightarrow> bool" where
  "refines f a b \<longleftrightarrow> (\<forall>ext s s1. exec_code ext a s = Some s1 \<longrightarrow> (\<exists>s2. exec_code ext b s = Some s2 \<and> sim f s1 s2))"

lemma refines_refl [simp, intro]: "refines f a a"
  by (auto simp: refines_def)

lemma refines_trans [trans]: "refines f a b \<Longrightarrow> refines f b c \<Longrightarrow> refines f a c"
  unfolding refines_def by (blast intro: sim_trans)

lemma refines_sim:
  assumes "refines f a b" "sim f s t" "exec_code ext a s = Some s1"
  shows "\<exists>s2. exec_code ext b t = Some s2 \<and> sim f s1 s2"
proof -
  obtain s2 where s2: "exec_code ext b s = Some s2" "sim f s1 s2" using assms unfolding refines_def by blast
  from exec_code_sim [OF assms(2), of ext b] s2 show ?thesis
    by (cases "exec_code ext b t") (auto intro: sim_trans)
qed

lemma refines_append: "refines f a a' \<Longrightarrow> refines f b b' \<Longrightarrow> refines f (a @ b) (a' @ b')"
proof -
  assume a: "refines f a a'" and b: "refines f b b'"
  show ?thesis
    unfolding refines_def
  proof (intro allI impI)
    fix ext s s1 assume "exec_code ext (a @ b) s = Some s1"
    then obtain m where m: "exec_code ext a s = Some m" "exec_code ext b m = Some s1"
      by (auto simp: exec_code_append split: Option.bind_splits)
    obtain m' where m': "exec_code ext a' s = Some m'" "sim f m m'" using a m unfolding refines_def by blast
    from refines_sim [OF b m'(2) m(2)] m'(1)
    show "\<exists>s2. exec_code ext (a' @ b') s = Some s2 \<and> sim f s1 s2" by (auto simp: exec_code_append)
  qed
qed

lemma refines_Cons: "refines f b b' \<Longrightarrow> refines f (x # b) (x # b')"
  using refines_append [of f "[x]" "[x]" b b'] by simp

section \<open>Refinement of blocks\<close>

definition block_refines :: "instr list \<Rightarrow> instr list \<Rightarrow> bool" where
  "block_refines a b \<longleftrightarrow> (\<forall>ext nxt s t l s'. sim True s t \<longrightarrow> run_block ext nxt a s = Some (l, s') \<longrightarrow>
     (\<exists>t'. run_block ext nxt b t = Some (l, t') \<and> sim True s' t'))"

lemma block_refinesD:
  assumes "block_refines a b" "sim True s t" "run_block ext nxt a s = Some (l, s')"
  obtains t' where "run_block ext nxt b t = Some (l, t')" "sim True s' t'"
  using assms unfolding block_refines_def by blast

lemma jump_taken_sim: "sim True s t \<Longrightarrow> jump_taken m s = Some x \<Longrightarrow> jump_taken m t = Some x"
  by (cases m; cases "flags s"; simp add: sim_def; elim exE conjE; simp)

text \<open>Refinement of the instructions behind every jump gives refinement of the block.\<close>

lemma run_block_Cons_sim:
  assumes "sim True s t" "run_block ext nxt (i # a) s = Some (l, s')"
    and a: "block_refines a b"
    and lab: "\<And>u a'. find_label u a = Some a' \<Longrightarrow> \<exists>b'. find_label u b = Some b' \<and> block_refines a' b'"
    and nolab: "\<And>u. find_label u a = None \<Longrightarrow> find_label u b = None"
  shows "\<exists>t'. run_block ext nxt (i # b) t = Some (l, t') \<and> sim True s' t'"
proof (cases "isJmp i")
  case jmp: True
  then obtain x where x: "jump_taken (mne i) s = Some x"
    using assms(2) by (cases "jump_taken (mne i) s") auto
  note y = jump_taken_sim [OF assms(1) x]
  show ?thesis
  proof (cases x)
    case True
    obtain u where u: "ops0 i = OP_STR u" using assms(2) jmp x True by (cases "ops0 i") auto
    show ?thesis
    proof (cases "find_label u a")
      case None
      then show ?thesis using assms(1,2) jmp x y True u nolab [OF None] by auto
    next
      case (Some a')
      then obtain b' where "find_label u b = Some b'" "block_refines a' b'" using lab by blast
      then show ?thesis using assms(1,2) jmp x y True u Some by (auto simp: block_refines_def)
    qed
  next
    case False
    then show ?thesis using assms(1,2) jmp x y a by (auto simp: block_refines_def)
  qed
next
  case False
  then obtain m where m: "exec_instr ext i s = Some m" "run_block ext nxt a m = Some (l, s')"
    using assms(2) by (auto split: Option.bind_splits)
  from exec_instr_sim [OF assms(1), of ext i] m obtain m' where "exec_instr ext i t = Some m'" "sim True m m'"
    by (cases "exec_instr ext i t") auto
  then show ?thesis using False m a by (auto simp: block_refines_def)
qed

lemma block_refines_Cons:
  assumes "block_refines a b"
    and "\<And>u a'. find_label u a = Some a' \<Longrightarrow> \<exists>b'. find_label u b = Some b' \<and> block_refines a' b'"
    and "\<And>u. find_label u a = None \<Longrightarrow> find_label u b = None"
  shows "block_refines (i # a) (i # b)"
  unfolding block_refines_def by (intro allI impI) (rule run_block_Cons_sim [OF _ _ assms])

lemma block_refines_refl [simp, intro]: "block_refines a a"
proof (induction a rule: length_induct)
  case (1 a)
  show ?case
  proof (cases a)
    case Nil
    then show ?thesis by (simp add: block_refines_def)
  next
    case (Cons i "is")
    have "block_refines a' a'" if "find_label u is = Some a'" for u a'
      using 1 find_label_length [OF that] Cons by auto
    moreover have "block_refines is is" using 1 Cons by simp
    ultimately show ?thesis unfolding Cons by (intro block_refines_Cons) auto
  qed
qed

lemma block_refines_trans [trans]: "block_refines a b \<Longrightarrow> block_refines b c \<Longrightarrow> block_refines a c"
  unfolding block_refines_def by (meson sim_refl sim_trans)

text \<open>Instructions without jumps and labels.\<close>

definition plain :: "instr \<Rightarrow> bool" where
  "plain i \<longleftrightarrow> \<not> isJmp i \<and> mne i \<noteq> M_Label"

lemma find_label_plain: "list_all plain a \<Longrightarrow> find_label t (a @ post) = find_label t post"
  by (induction a) (auto simp: plain_def)

lemma run_block_plain:
  "list_all plain a \<Longrightarrow> run_block ext nxt (a @ post) s = Option.bind (exec_code ext a s) (run_block ext nxt post)"
  by (induction a arbitrary: s) (auto simp: plain_def split: Option.bind_splits)

lemma block_refines_plain:
  assumes "refines True a b" "list_all plain a" "list_all plain b"
  shows "block_refines (a @ post) (b @ post)"
  unfolding block_refines_def
proof (intro allI impI)
  fix ext nxt s t l s'
  assume st: "sim True s t" and run: "run_block ext nxt (a @ post) s = Some (l, s')"
  then obtain m where m: "exec_code ext a s = Some m" "run_block ext nxt post m = Some (l, s')"
    by (auto simp: run_block_plain [OF assms(2)] split: Option.bind_splits)
  from refines_sim [OF assms(1) st m(1)] obtain m' where "exec_code ext b t = Some m'" "sim True m m'" by blast
  moreover from block_refinesD [OF block_refines_refl this(2) m(2)] obtain t'
    where "run_block ext nxt post m' = Some (l, t')" "sim True s' t'" .
  ultimately show "\<exists>t'. run_block ext nxt (b @ post) t = Some (l, t') \<and> sim True s' t'"
    by (simp add: run_block_plain [OF assms(3)])
qed

lemma find_label_append:
  "find_label t (pre @ x) = (case find_label t pre of Some p \<Rightarrow> Some (p @ x) | None \<Rightarrow> find_label t x)"
  by (induction pre) auto

lemma block_refines_window:
  assumes "refines True a b" "list_all plain a" "list_all plain b"
  shows "block_refines (pre @ a @ post) (pre @ b @ post)"
proof (induction pre rule: length_induct)
  case (1 pre)
  show ?case
  proof (cases pre)
    case Nil
    then show ?thesis using block_refines_plain [OF assms] by simp
  next
    case (Cons i p)
    let ?a = "p @ a @ post" and ?b = "p @ b @ post"
    have ih: "block_refines ?a ?b" using 1 Cons by simp
    have lab: "\<exists>b'. find_label u ?b = Some b' \<and> block_refines a' b'" if "find_label u ?a = Some a'" for u a'
    proof (cases "find_label u p")
      case None
      then show ?thesis using that assms(2,3) by (auto simp: find_label_append [of _ p] find_label_plain)
    next
      case (Some q)
      then have "length q < length pre" using find_label_length Cons by fastforce
      then show ?thesis using that Some 1 by (auto simp: find_label_append [of _ p])
    qed
    have nolab: "find_label u ?b = None" if "find_label u ?a = None" for u
      using that assms(2,3) by (auto simp: find_label_append [of _ p] find_label_plain split: option.splits)
    from block_refines_Cons [OF ih lab nolab] show ?thesis unfolding Cons by simp
  qed
qed

section \<open>Windows in lists\<close>

text \<open>Lists around an index and its successor.\<close>

lemma split_pair:
  "Suc i < length xs \<Longrightarrow> xs = take i xs @ [xs ! i, xs ! Suc i] @ drop (Suc (Suc i)) xs"
  by (simp add: Cons_nth_drop_Suc)

lemma remove_at_pair:
  "Suc i < length xs \<Longrightarrow> remove_at (Suc i) xs = take i xs @ [xs ! i] @ drop (Suc (Suc i)) xs"
  by (simp add: remove_at_def take_Suc_conv_app_nth)

lemma update_pair:
  "Suc i < length xs \<Longrightarrow> xs[Suc i := y] = take i xs @ [xs ! i, y] @ drop (Suc (Suc i)) xs"
  by (simp add: upd_conv_take_nth_drop take_Suc_conv_app_nth)

lemma remove_both:
  "Suc i < length xs \<Longrightarrow> remove_at i (remove_at (Suc i) xs) = take i xs @ drop (Suc (Suc i)) xs"
  by (simp add: remove_at_pair remove_at_def [of i] nth_append min_def)

lemma replace_first:
  "Suc i < length xs \<Longrightarrow> (remove_at (Suc i) xs)[i := y] = take i xs @ [y] @ drop (Suc (Suc i)) xs"
  by (simp add: remove_at_pair list_update_append)

lemma block_refines_pair:
  assumes "Suc i < length xs" "refines True [xs ! i, xs ! Suc i] js"
    and "plain (xs ! i)" "plain (xs ! Suc i)" "list_all plain js"
  shows "block_refines xs (take i xs @ js @ drop (Suc (Suc i)) xs)"
  using block_refines_window [OF assms(2), of "take i xs" "drop (Suc (Suc i)) xs"] assms
    split_pair [OF assms(1)] by simp

text \<open>A condition on all neighbouring elements from an index on.\<close>

definition pairs :: "('a \<Rightarrow> 'a \<Rightarrow> bool) \<Rightarrow> 'a list \<Rightarrow> bool" where
  "pairs P xs \<longleftrightarrow> list_all (\<lambda>(x, y). P x y) (zip xs (tl xs))"

lemma pairs_Cons [simp]: "pairs P []" "pairs P [x]" "pairs P (x # y # zs) \<longleftrightarrow> P x y \<and> pairs P (y # zs)"
  by (simp_all add: pairs_def)

lemma pairs_tl: "pairs P (x # xs) \<Longrightarrow> pairs P xs"
  by (cases xs) simp_all

lemma pairs_drop: "Suc i < length xs \<Longrightarrow> pairs P (drop i xs) \<Longrightarrow> P (xs ! i) (xs ! Suc i) \<and> pairs P (drop (Suc i) xs)"
  by (simp flip: Cons_nth_drop_Suc)

section \<open>Functions\<close>

text \<open>
  A function runs from block to block until it reaches its epilog, in at most \<open>n\<close> blocks.  \<open>code\<close>
  selects the instructions of a block: the separate lists before flattening, or the flattened one.
\<close>

definition block_code :: "basic_block \<Rightarrow> instr list" where
  "block_code b = startPhiInstrs b @ instrs b @ phiInstrs b @ jumpInstrs b"

definition epilog :: "asm_function \<Rightarrow> string" where
  "epilog f = ''.'' @ getEpilogLabel f"

definition next_label :: "asm_function \<Rightarrow> nat \<Rightarrow> string" where
  "next_label f k = (if Suc k < length (orderedBasicBlocks f) then getLabelStr (orderedBasicBlocks f ! Suc k) else epilog f)"

definition block_at :: "asm_function \<Rightarrow> string \<Rightarrow> nat option" where
  "block_at f l = List.find (\<lambda>k. getLabelStr (orderedBasicBlocks f ! k) = l) [0..<length (orderedBasicBlocks f)]"

fun run_fn :: "calls \<Rightarrow> (basic_block \<Rightarrow> instr list) \<Rightarrow> asm_function \<Rightarrow> nat \<Rightarrow> string \<Rightarrow> asm_state \<Rightarrow> asm_state option" where
  "run_fn ext code f 0 l s = (if l = epilog f then Some s else None)"
| "run_fn ext code f (Suc n) l s =
     (if l = epilog f then Some s
      else Option.bind (block_at f l) (\<lambda>k.
        Option.bind (run_block ext (next_label f k) (code (orderedBasicBlocks f ! k)) s) (\<lambda>(l', s').
          run_fn ext code f n l' s')))"

definition fn_refines :: "(basic_block \<Rightarrow> instr list) \<Rightarrow> asm_function \<Rightarrow> asm_function \<Rightarrow> bool" where
  "fn_refines code f g \<longleftrightarrow> (\<forall>ext n l s t s'. sim True s t \<longrightarrow> run_fn ext code f n l s = Some s' \<longrightarrow>
     (\<exists>t'. run_fn ext code g n l t = Some t' \<and> sim True s' t'))"

definition refines_at :: "string \<Rightarrow> instr list \<Rightarrow> instr list \<Rightarrow> bool" where
  "refines_at nxt a b \<longleftrightarrow> (\<forall>ext s t l s'. sim True s t \<longrightarrow> run_block ext nxt a s = Some (l, s') \<longrightarrow>
     (\<exists>t'. run_block ext nxt b t = Some (l, t') \<and> sim True s' t'))"

lemma refines_atD:
  assumes "refines_at nxt a b" "sim True s t" "run_block ext nxt a s = Some (l, s')"
  obtains t' where "run_block ext nxt b t = Some (l, t')" "sim True s' t'"
  using assms unfolding refines_at_def by blast

lemma block_refines_at: "block_refines a b \<Longrightarrow> refines_at nxt a b"
  unfolding block_refines_def refines_at_def by blast

text \<open>Functions with the same labels whose blocks refine each other refine each other.\<close>

lemma fn_refinesI:
  assumes nm: "fnName g = fnName f"
    and lab: "map getLabelStr (orderedBasicBlocks g) = map getLabelStr (orderedBasicBlocks f)"
    and blk: "\<And>k. k < length (orderedBasicBlocks f) \<Longrightarrow>
      refines_at (next_label f k) (code (orderedBasicBlocks f ! k)) (code (orderedBasicBlocks g ! k))"
  shows "fn_refines code f g"
proof -
  have len: "length (orderedBasicBlocks g) = length (orderedBasicBlocks f)" using lab by (rule map_eq_imp_length_eq)
  have nth: "getLabelStr (orderedBasicBlocks g ! k) = getLabelStr (orderedBasicBlocks f ! k)"
    if "k < length (orderedBasicBlocks f)" for k
    using that lab len by (metis nth_map)
  have ep: "epilog g = epilog f" using nm by (simp add: epilog_def getEpilogLabel_def)
  have nx: "next_label g k = next_label f k" for k using len nth ep by (simp add: next_label_def)
  have at: "block_at g l = block_at f l" for l
    unfolding block_at_def len using nth by (intro find_cong) auto
  have "\<exists>t'. run_fn ext code g n l t = Some t' \<and> sim True s' t'"
    if "sim True s t" "run_fn ext code f n l s = Some s'" for ext n l s t s'
    using that
  proof (induction n arbitrary: l s t)
    case 0
    then show ?case using ep by (auto split: if_splits)
  next
    case (Suc n)
    show ?case
    proof (cases "l = epilog f")
      case True
      then show ?thesis using Suc.prems ep by auto
    next
      case False
      then obtain k l1 s1 where k: "block_at f l = Some k"
          and r: "run_block ext (next_label f k) (code (orderedBasicBlocks f ! k)) s = Some (l1, s1)"
          and f: "run_fn ext code f n l1 s1 = Some s'"
        using Suc.prems by (auto split: Option.bind_splits)
      have "k < length (orderedBasicBlocks f)" using k by (auto simp: block_at_def find_Some_iff)
      from refines_atD [OF blk [OF this] Suc.prems(1) r] obtain t1
        where "run_block ext (next_label f k) (code (orderedBasicBlocks g ! k)) t = Some (l1, t1)" "sim True s1 t1" .
      then show ?thesis using Suc.IH [OF _ f] False k ep by (simp add: nx at)
    qed
  qed
  then show ?thesis unfolding fn_refines_def by blast
qed

lemma mapE_Inr_iff: "mapE f xs = Inr ys \<longleftrightarrow> list_all2 (\<lambda>x y. f x = Inr y) xs ys"
proof (induction xs arbitrary: ys)
  case (Cons x xs)
  then show ?case by (cases ys) (auto simp: bindE_eq_Inr)
qed auto

section \<open>The contract of a block optimizer\<close>

locale block_optimizer =
  fixes opt :: "instr list \<Rightarrow> asm_error + instr list \<times> int"
    and ok :: "instr list \<Rightarrow> bool"
  assumes opt_refines: "ok xs \<Longrightarrow> opt xs = Inr (ys, n) \<Longrightarrow> block_refines xs ys"
begin

text \<open>The optimizer on the flattened code of a block, for every run of the block.\<close>

definition on_block :: "basic_block \<Rightarrow> asm_error + basic_block \<times> int" where
  "on_block b = bindE (opt (flattenedInstrs b)) (\<lambda>(xs, n). Inr (b\<lparr>flattenedInstrs := xs\<rparr>, n))"

lemma on_block_refines:
  assumes "ok (flattenedInstrs b)" "on_block b = Inr (b', n)"
  shows "block_refines (flattenedInstrs b) (flattenedInstrs b')" "getLabelStr b' = getLabelStr b"
  using assms opt_refines by (auto simp: on_block_def bindE_eq_Inr getLabelStr_def)

text \<open>Running the optimizer on a program refines all functions.\<close>

lemma run_blocks_refines:
  assumes ok: "\<forall>f \<in> set p. \<forall>b \<in> set (orderedBasicBlocks f). ok (flattenedInstrs b)"
    and run: "run_blocks on_block p = Inr p'"
  shows "list_all2 (fn_refines flattenedInstrs) p p'"
  unfolding list_all2_conv_all_nth
proof (intro conjI allI impI)
  let ?opt = "\<lambda>b. if instrs b \<noteq> [] then bindE (on_block b) (\<lambda>(b', n). Inr b') else Inr b"
  have p: "list_all2 (\<lambda>f g. bindE (mapE ?opt (orderedBasicBlocks f)) (\<lambda>bs. Inr (f\<lparr>orderedBasicBlocks := bs\<rparr>)) = Inr g) p p'"
    using run by (simp only: run_blocks_def mapE_Inr_iff)
  then show "length p = length p'" by (rule list_all2_lengthD)
  fix i assume i: "i < length p"
  let ?f = "p ! i" and ?g = "p' ! i"
  obtain bs where bs: "list_all2 (\<lambda>b c. ?opt b = Inr c) (orderedBasicBlocks ?f) bs" "?g = ?f\<lparr>orderedBasicBlocks := bs\<rparr>"
    using list_all2_nthD [OF p i] by (auto simp: bindE_eq_Inr mapE_Inr_iff)
  have one: "block_refines (flattenedInstrs b) (flattenedInstrs c) \<and> getLabelStr c = getLabelStr b"
    if "?opt b = Inr c" "b \<in> set (orderedBasicBlocks ?f)" for b c
  proof -
    have "ok (flattenedInstrs b)" using ok nth_mem [OF i] that(2) by blast
    then show ?thesis using that(1) on_block_refines by (fastforce simp: bindE_eq_Inr split: if_splits)
  qed
  have nth: "block_refines (flattenedInstrs (orderedBasicBlocks ?f ! k)) (flattenedInstrs (bs ! k)) \<and>
      getLabelStr (bs ! k) = getLabelStr (orderedBasicBlocks ?f ! k)" if "k < length (orderedBasicBlocks ?f)" for k
    using one [OF list_all2_nthD [OF bs(1) that]] that by simp
  have "map getLabelStr bs = map getLabelStr (orderedBasicBlocks ?f)"
    using nth list_all2_lengthD [OF bs(1)] by (simp add: list_eq_iff_nth_eq)
  then show "fn_refines flattenedInstrs ?f ?g"
    using nth bs(2) by (intro fn_refinesI block_refines_at) auto
qed

end

end
