(* ===== verification/Asm_Peephole.thy ===== *)
theory Asm_Peephole
  imports Asm_Equiv
begin

text \<open>
  Correctness of the optimizers that replace neighbouring instructions: the exchange of
  instructions for cheaper ones, the first two loops on redundant moves, and the sums of
  constants.  They satisfy the contract \<open>block_optimizer\<close>.  The conditions are on the sizes of the
  accesses: a 32 bit write clears the upper half of a register, so it cannot simply be dropped.
\<close>

declare mov_pass1.simps [simp del] mov_pass2.simps [simp del] arith_opt.simps [simp del]

lemma take_bit_64 [simp]: "take_bit 64 (v :: 64 word) = v"
  by (simp add: take_bit_word_eq_self)

lemma trunc_R [simp]: "trunc RM_R v = v"
  by (simp add: trunc_def)

section \<open>Moves\<close>

lemma exec_mov:
  assumes "isMov i"
  shows "exec_instr ext i s = (if nOps i = 2 then Option.bind (instr_width i) (\<lambda>w.
     Option.bind (read_op w (ops0 i) s) (\<lambda>a. write_op w (ops1 i) a s)) else None)"
  using assms by (cases "mne i") (auto simp: exec_instr_def isMov_def)

lemma plain_mov: "isMov i \<Longrightarrow> plain i"
  by (auto simp: isMov_def plain_def isJmp_def)

lemma makeMov_props [simp]:
  "isMov (makeMov m a b c)" "nOps (makeMov m a b c) = 2"
  "ops0 (makeMov m a b c) = a" "ops1 (makeMov m a b c) = b"
  "instr_width (makeMov m a b c) = Some m"
  by (cases m; simp add: makeMov_def instr2_def isMov_def instr_width_def)+

lemma store_loadE:
  assumes "store_load m1 m2 = Some (r1, r2)"
  obtains md1 b md2 off md3 md4 where "isMov m1" "isMov m2" "ops0 m1 = OP_REG r1 md1"
    "ops1 m1 = OP_IND b md2 off" "ops0 m2 = OP_IND b md3 off" "ops1 m2 = OP_REG r2 md4"
  using assms by (auto simp: store_load_def split: op.splits if_splits)

text \<open>
  A store of a whole register, followed by a load through the same base register.  The load reads
  what was stored, cut to its size.
\<close>

definition wide_store :: "instr \<Rightarrow> instr \<Rightarrow> bool" where
  "wide_store m1 m2 \<longleftrightarrow> instr_width m1 = Some RM_R \<and> op_mode (ops1 m1) = RM_R \<and> op_mode (ops0 m2) = RM_R"

lemma read_mem_bits:
  "read_mem (bits w div 8) a (write_mem 8 a v m) = trunc w v"
proof -
  have "read_mem n a (write_mem 8 a v m) = take_bit (8 * n) v" if "n \<le> 8" for n
  proof (rule bit_word_eqI)
    fix k assume "k < LENGTH(64)"
    then have k: "k < 64" by simp
    then have "k div 8 < 8" by auto
    then have u: "unat (word_of_nat (k div 8) :: 64 word) = k div 8" by (simp add: unat_of_nat)
    have "8 * (k div 8) + k mod 8 = k" by simp
    then show "bit (read_mem n a (write_mem 8 a v m)) k = bit (take_bit (8 * n) v) k"
      using k u \<open>k div 8 < 8\<close> that by (auto simp: bit_read_mem write_mem_def bit_simps)
  qed
  from this [of "bits w div 8"] show ?thesis by (cases w) (simp_all add: trunc_def)
qed

lemma exec_store_load:
  assumes "store_load m1 m2 = Some (r1, r2)" "wide_store m1 m2" "exec_code ext [m1, m2] s = Some t"
  obtains s' w where "exec_instr ext m1 s = Some s'" "regs s' = regs s" "instr_width m2 = Some w"
    "ops1 m2 = OP_REG r2 w" "t = write_reg w r2 (trunc w (regs s r1)) s'"
  using assms(1)
proof (rule store_loadE)
  fix md1 b md2 off md3 md4
  assume m: "isMov m1" "isMov m2" "ops0 m1 = OP_REG r1 md1"
    "ops1 m1 = OP_IND b md2 off" "ops0 m2 = OP_IND b md3 off" "ops1 m2 = OP_REG r2 md4"
  then have md: "md2 = RM_R" "md3 = RM_R" "instr_width m1 = Some RM_R" using assms(2) by (auto simp: wide_store_def)
  obtain w where w: "instr_width m2 = Some w"
    using assms(3) m by (cases "instr_width m2") (auto simp: exec_mov split: Option.bind_splits)
  show thesis
    by (rule that [of "s\<lparr>mem := write_mem 8 (regs s b + word_of_int off) (regs s r1) (mem s)\<rparr>" w])
      (use assms m md w in \<open>auto simp: exec_mov addr_of_def read_mem_bits split: if_splits\<close>)
qed

lemma store_load_same:
  assumes "store_load m1 m2 = Some (r, r)" "wide_store m1 m2" "instr_width m2 = Some RM_R"
  shows "refines True [m1, m2] [m1]"
  unfolding refines_def
proof (intro allI impI)
  fix ext s t assume "exec_code ext [m1, m2] s = Some t"
  then obtain s' w where "exec_instr ext m1 s = Some s'" "regs s' = regs s" "instr_width m2 = Some w"
      "t = write_reg w r (trunc w (regs s r)) s'"
    by (rule exec_store_load [OF assms(1,2)])
  with assms(3) show "\<exists>s2. exec_code ext [m1] s = Some s2 \<and> sim True t s2"
    by (auto simp: sim_def write_reg_def)
qed

lemma store_load_other:
  assumes "store_load m1 m2 = Some (r1, r2)" "wide_store m1 m2"
  shows "refines True [m1, m2] [m1, makeMov (op_mode (ops1 m2)) (OP_REG r1 (op_mode (ops1 m2))) (ops1 m2) []]"
  unfolding refines_def
proof (intro allI impI)
  fix ext s t assume "exec_code ext [m1, m2] s = Some t"
  then obtain s' w where "exec_instr ext m1 s = Some s'" "regs s' = regs s" "ops1 m2 = OP_REG r2 w"
    "t = write_reg w r2 (trunc w (regs s r1)) s'"
    by (rule exec_store_load [OF assms])
  then show "\<exists>s2. exec_code ext [m1, makeMov (op_mode (ops1 m2)) (OP_REG r1 (op_mode (ops1 m2)))
      (ops1 m2) []] s = Some s2 \<and> sim True t s2"
    by (auto simp: exec_mov)
qed

text \<open>The conditions of the two loops: on pairs of a store and a load of the same register, and of different ones.\<close>

definition same_ok :: "instr \<Rightarrow> instr \<Rightarrow> bool" where
  "same_ok m1 m2 = (case store_load m1 m2 of
     Some (r1, r2) \<Rightarrow> r1 = r2 \<longrightarrow> wide_store m1 m2 \<and> instr_width m2 = Some RM_R
   | None \<Rightarrow> True)"

definition other_ok :: "instr \<Rightarrow> instr \<Rightarrow> bool" where
  "other_ok m1 m2 = (case store_load m1 m2 of
     Some (r1, r2) \<Rightarrow> r1 \<noteq> r2 \<longrightarrow> wide_store m1 m2
   | None \<Rightarrow> True)"

lemma mov_pass1_refines:
  "pairs same_ok (drop i xs) \<Longrightarrow> mov_pass1 i xs n = Inr (ys, m) \<Longrightarrow> block_refines xs ys"
proof (induction i xs n rule: mov_pass1.induct)
  case (1 i xs n)
  show ?case
  proof (cases "Suc i < length xs")
    case len: True
    then have ne: "xs \<noteq> []" by auto
    note ok = pairs_drop [OF len "1.prems"(1)]
    show ?thesis
    proof (cases "\<exists>r. store_load (xs ! i) (xs ! Suc i) = Some (r, r)")
      case True
      then obtain r where r: "store_load (xs ! i) (xs ! Suc i) = Some (r, r)" ..
      then have w: "wide_store (xs ! i) (xs ! Suc i)" "instr_width (xs ! Suc i) = Some RM_R"
        and mv: "isMov (xs ! i)" "isMov (xs ! Suc i)"
        using ok by (auto simp: same_ok_def elim: store_loadE)
      have run: "mov_pass1 (Suc i) (remove_at (Suc i) xs) (n + 1) = Inr (ys, m)"
        using "1.prems" len ne r by (simp add: mov_pass1.simps [of i xs])
      have "pairs same_ok (drop (Suc i) (remove_at (Suc i) xs))"
        using ok len by (simp add: remove_at_def flip: Cons_nth_drop_Suc [of "Suc i"]) (auto dest: pairs_tl)
      then have ih: "block_refines (remove_at (Suc i) xs) ys"
        using "1.IH"(2) [OF ne len r refl refl] run by blast
      have "block_refines xs (remove_at (Suc i) xs)"
        unfolding remove_at_pair [OF len]
        using block_refines_pair [OF len store_load_same [OF r w]] mv by (simp add: plain_mov)
      then show ?thesis using ih by (rule block_refines_trans)
    next
      case False
      then have "mov_pass1 (Suc i) xs n = Inr (ys, m)"
        using "1.prems" len ne
        by (auto simp: mov_pass1.simps [of i xs] split: option.splits prod.splits if_splits)
      then show ?thesis using "1.IH" False ok len ne
        by (cases "store_load (xs ! i) (xs ! Suc i)") auto
    qed
  next
    case False
    then show ?thesis using "1.prems" by (simp add: mov_pass1.simps [of i xs] split: if_splits)
  qed
qed

lemma mov_pass2_refines:
  "pairs other_ok (drop i xs) \<Longrightarrow> mov_pass2 i xs n = Inr (ys, m) \<Longrightarrow> block_refines xs ys"
proof (induction i xs n rule: mov_pass2.induct)
  case (1 i xs n)
  show ?case
  proof (cases "Suc i < length xs")
    case len: True
    then have ne: "xs \<noteq> []" by auto
    note ok = pairs_drop [OF len "1.prems"(1)]
    show ?thesis
    proof (cases "\<exists>r1 r2. store_load (xs ! i) (xs ! Suc i) = Some (r1, r2) \<and> r1 \<noteq> r2")
      case True
      then obtain r1 r2 where r: "store_load (xs ! i) (xs ! Suc i) = Some (r1, r2)" and "r1 \<noteq> r2" by blast
      then have w: "wide_store (xs ! i) (xs ! Suc i)" and mv: "isMov (xs ! i)" "isMov (xs ! Suc i)"
        using ok by (auto simp: other_ok_def elim: store_loadE)
      let ?y = "makeMov (op_mode (ops1 (xs ! Suc i))) (OP_REG r1 (op_mode (ops1 (xs ! Suc i))))
        (ops1 (xs ! Suc i)) []"
      have run: "mov_pass2 (Suc i) (xs[Suc i := ?y]) (n + 1) = Inr (ys, m)"
        using "1.prems" len ne r \<open>r1 \<noteq> r2\<close> by (simp add: mov_pass2.simps [of i xs] Let_def)
      have "store_load ?y z = None" for z
        using r by (elim store_loadE) (simp add: store_load_def split: op.split)
      then have "pairs other_ok (?y # zs)" if "pairs other_ok zs" for zs
        using that by (cases zs) (auto simp: other_ok_def)
      then have "pairs other_ok (drop (Suc i) (xs[Suc i := ?y]))"
        using ok len by (auto simp: drop_update_swap simp flip: Cons_nth_drop_Suc dest: pairs_tl)
      then have ih: "block_refines (xs[Suc i := ?y]) ys"
        using "1.IH"(2) [OF ne len refl r refl \<open>r1 \<noteq> r2\<close>] run by blast
      have "block_refines xs (xs[Suc i := ?y])"
        unfolding update_pair [OF len]
        using block_refines_pair [OF len store_load_other [OF r w]] mv by (simp add: plain_mov)
      then show ?thesis using ih by (rule block_refines_trans)
    next
      case False
      then have "mov_pass2 (Suc i) xs n = Inr (ys, m)"
        using "1.prems" len ne
        by (auto simp: mov_pass2.simps [of i xs] Let_def split: option.splits prod.splits if_splits)
      then show ?thesis using "1.IH" False ok len ne
        by (cases "store_load (xs ! i) (xs ! Suc i)") auto
    qed
  next
    case False
    then show ?thesis using "1.prems" by (simp add: mov_pass2.simps [of i xs] split: if_splits)
  qed
qed

interpretation mov1: block_optimizer "\<lambda>xs. mov_pass1 0 xs n" "pairs same_ok" for n
  by unfold_locales (rule mov_pass1_refines [of 0], simp_all)

interpretation mov2: block_optimizer "\<lambda>xs. mov_pass2 0 xs n" "pairs other_ok" for n
  by unfold_locales (rule mov_pass2_refines [of 0], simp_all)

section \<open>Cheaper instructions\<close>

text \<open>
  These replacements change the flags, so they refine code without jumps only: the instructions of
  a block before its jumps, which is where \<open>AsmSimpleOptimizer\<close> works.
\<close>

lemma imm_add:
  assumes "mne i = M_Add" "ops0 i = OP_IMM c"
  shows "exec_instr ext i s = (if nOps i = 2 then Option.bind (instr_width i) (\<lambda>w. arith w (OP_IMM c) (ops1 i) (+) s) else None)"
    and "instr_width i = op_width (ops1 i)"
  using assms by (auto simp: exec_instr_def instr_width_def split: option.split)

lemma imm_sub:
  assumes "mne i = M_Sub" "ops0 i = OP_IMM c"
  shows "exec_instr ext i s = (if nOps i = 2 then Option.bind (instr_width i) (\<lambda>w. arith w (OP_IMM c) (ops1 i) (-) s) else None)"
    and "instr_width i = op_width (ops1 i)"
  using assms by (auto simp: exec_instr_def instr_width_def split: option.split)

lemma exec_inc_dec:
  "exec_instr ext (instr1 M_Inc x c) s = Option.bind (op_width x) (\<lambda>w. arith w (OP_IMM 1) x (+) s)"
  "exec_instr ext (instr1 M_Dec x c) s = Option.bind (op_width x) (\<lambda>w. arith w (OP_IMM 1) x (-) s)"
  by (auto simp: exec_instr_def instr1_def instr_width_def split: option.split)

text \<open>Additions and subtractions on a whole register or on memory.\<close>

definition wide_arith :: "instr \<Rightarrow> bool" where
  "wide_arith i \<longleftrightarrow> (mne i = M_Add \<or> mne i = M_Sub \<longrightarrow> op_mode (ops1 i) = RM_R)"

lemma simple_add0:
  assumes "mne i = M_Add" "ops0 i = OP_IMM 0" "wide_arith i"
  shows "refines False [i] []"
proof (cases "ops1 i")
  case (OP_REG r m)
  then have "m = RM_R" using assms by (simp add: wide_arith_def)
  then show ?thesis
    using imm_add [OF assms(1,2)] OP_REG
    by (auto simp: refines_def arith_def write_reg_def sim_def split: if_splits)
qed (use imm_add [OF assms(1,2)] in \<open>auto simp: refines_def split: if_splits\<close>)

lemma exec_xor_self:
  "exec_instr ext (instr2 M_Xor (OP_REG r m) (OP_REG r m) c) s = Some (write_reg m r 0 (s\<lparr>flags := None\<rparr>))"
  by (simp add: exec_instr_def instr2_def instr_width_def arith_def trunc_def)

lemma simple_mov0:
  assumes "isMov i" "ops0 i = OP_IMM 0" "\<not> is_ind (ops1 i)"
  shows "refines False [i] [instr2 M_Xor (ops1 i) (ops1 i) []]"
proof (cases "ops1 i")
  case (OP_REG r m)
  have "sim False (write_reg m r 0 s) (write_reg m r 0 (s\<lparr>flags := None\<rparr>))" for s
    by (rule sim_write_reg) (simp add: sim_def)
  then show ?thesis
    using assms OP_REG
    by (auto simp: refines_def exec_mov exec_xor_self trunc_def split: if_splits Option.bind_splits)
qed (use assms in \<open>auto simp: refines_def exec_mov split: if_splits Option.bind_splits\<close>)

lemma simple_opt_refines:
  assumes "wide_arith i" "simple_opt i = (r, n)"
  shows "refines False [i] (case r of Some j \<Rightarrow> [j] | None \<Rightarrow> [])"
proof -
  have inc: "refines False [i] [instr1 M_Inc (ops1 i) []]" if "mne i = M_Add" "ops0 i = OP_IMM 1"
    using imm_add [OF that] by (auto simp: refines_def exec_inc_dec split: if_splits)
  have dec: "refines False [i] [instr1 M_Dec (ops1 i) []]" if "mne i = M_Sub" "ops0 i = OP_IMM 1"
    using imm_sub [OF that] by (auto simp: refines_def exec_inc_dec split: if_splits)
  show ?thesis using assms
    by (auto simp: simple_opt_def split: if_splits intro: inc dec simple_add0 simple_mov0)
qed

lemma simple_opt_list_refines:
  "list_all wide_arith xs \<Longrightarrow> refines False xs (fst (simple_opt_list xs))"
proof (induction xs rule: simple_opt_list.induct)
  case (2 i "is")
  obtain r n where r: "simple_opt i = (r, n)" by fastforce
  have one: "refines False [i] (case r of Some j \<Rightarrow> [j] | None \<Rightarrow> [])"
    using "2.prems" simple_opt_refines [OF _ r] by simp
  show ?case
  proof (cases r)
    case (Some j)
    have "refines False is (fst (simple_opt_list is))" using "2.IH"(2) [OF r [symmetric] Some] "2.prems" by simp
    then show ?thesis using refines_append [OF one] r Some by (auto simp: case_prod_beta)
  next
    case None
    show ?thesis
    proof (cases "is")
      case Nil
      then show ?thesis using one r None by simp
    next
      case (Cons j is2)
      have "refines False is2 (fst (simple_opt_list is2))" using "2.IH"(1) [OF r [symmetric] None Cons] "2.prems" Cons by simp
      then show ?thesis using refines_append [OF one refines_Cons] r None Cons by (auto simp: case_prod_beta)
    qed
  qed
qed simp

section \<open>Sums of constants\<close>

lemma exec_imm2:
  "exec_instr ext (instr2 M_Add (OP_IMM c) (OP_REG r RM_R) k) s =
     Some (write_reg RM_R r (regs s r + word_of_int c) (s\<lparr>flags := None\<rparr>))"
  "exec_instr ext (instr2 M_Sub (OP_IMM c) (OP_REG r RM_R) k) s =
     Some (write_reg RM_R r (regs s r - word_of_int c) (s\<lparr>flags := None\<rparr>))"
  by (simp_all add: exec_instr_def instr2_def instr_width_def arith_def)

lemma arith_pairE:
  assumes "arith_pair i1 i2 = Some (Inr js)"
  obtains c1 r md c2 md2 where "ops0 i1 = OP_IMM c1" "ops1 i1 = OP_REG r md" "ops0 i2 = OP_IMM c2"
    "ops1 i2 = OP_REG r md2" "mne i1 = M_Add" "mne i2 = M_Sub"
    "js = (if c1 = c2 then [] else if c1 < c2 then [instr2 M_Sub (OP_IMM (c2 - c1)) (OP_REG r md) []]
       else [instr2 M_Add (OP_IMM (c1 - c2)) (OP_REG r md) []])"
  using assms by (auto simp: arith_pair_def Let_def split: op.splits if_splits)

lemma arith_pair_refines:
  assumes "arith_pair i1 i2 = Some (Inr js)" "wide_arith i1" "wide_arith i2"
  shows "refines True [i1, i2] js"
  using assms(1)
proof (rule arith_pairE)
  fix c1 r md c2 md2
  assume o: "ops0 i1 = OP_IMM c1" "ops1 i1 = OP_REG r md" "ops0 i2 = OP_IMM c2"
      "ops1 i2 = OP_REG r md2" "mne i1 = M_Add" "mne i2 = M_Sub"
    and js: "js = (if c1 = c2 then [] else if c1 < c2 then [instr2 M_Sub (OP_IMM (c2 - c1)) (OP_REG r md) []]
       else [instr2 M_Add (OP_IMM (c1 - c2)) (OP_REG r md) []])"
  have md: "md = RM_R" "md2 = RM_R" using assms(2,3) o by (auto simp: wide_arith_def)
  have run: "regs t = (regs s)(r := regs s r + word_of_int (c1 - c2))" "mem t = mem s" "flags t = None"
    if "exec_code ext [i1, i2] s = Some t" for ext s t
    using that o md imm_add [OF o(5,1)] imm_sub [OF o(6,3)]
    by (auto simp: arith_def write_reg_def fun_eq_iff split: if_splits)
  have "\<exists>s2. exec_code ext js s = Some s2 \<and> regs s2 = (regs s)(r := regs s r + word_of_int (c1 - c2)) \<and> mem s2 = mem s" for ext s
    using md unfolding js by (auto simp: exec_single exec_imm2 write_reg_def simp del: exec_code.simps(2))
  then show ?thesis unfolding refines_def sim_def using run by metis
qed

lemma arith_pair_plain:
  assumes "arith_pair i1 i2 = Some (Inr js)"
  shows "plain i1" "plain i2" "list_all plain js" "length js \<le> 1"
  using assms by (auto elim!: arith_pairE simp: plain_def isJmp_def instr2_def)

lemma arith_pair_wide: "arith_pair i1 i2 = Some (Inr js) \<Longrightarrow> wide_arith i1 \<Longrightarrow> list_all wide_arith js"
  by (elim arith_pairE) (simp add: wide_arith_def instr2_def)

lemma arith_opt_refines:
  "list_all wide_arith xs \<Longrightarrow> arith_opt i xs n = Inr (ys, m) \<Longrightarrow> block_refines xs ys"
proof (induction i xs n rule: arith_opt.induct)
  case (1 i xs n)
  show ?case
  proof (cases "Suc i < length xs")
    case len: True
    then have ne: "xs \<noteq> []" by auto
    let ?p = "arith_pair (xs ! i) (xs ! Suc i)"
    have w: "wide_arith (xs ! i)" "wide_arith (xs ! Suc i)" using "1.prems" len by (auto simp: list_all_length)
    have cut: "block_refines xs (take i xs @ js @ drop (Suc (Suc i)) xs)" if "?p = Some (Inr js)" for js
      using block_refines_pair [OF len arith_pair_refines [OF that w]] arith_pair_plain [OF that] by blast
    have all: "list_all wide_arith (take i xs @ js @ drop (Suc (Suc i)) xs)" if "?p = Some (Inr js)" for js
      using "1.prems"(1) arith_pair_wide [OF that w(1)]
      by (auto simp: list_all_iff dest: in_set_takeD in_set_dropD)
    consider "?p = None" | e where "?p = Some (Inl e)" | "?p = Some (Inr [])"
      | j js where "?p = Some (Inr (j # js))"
      by (cases ?p) (auto, metis list.exhaust sumE)
    then show ?thesis
    proof cases
      case 1
      with "1.IH"(1) "1.prems" len ne show ?thesis by (simp add: arith_opt.simps [of i xs])
    next
      case 2
      with "1.prems" len ne show ?thesis by (simp add: arith_opt.simps [of i xs])
    next
      case 3
      with "1.IH"(2) "1.prems" len ne cut [OF 3] all [OF 3] show ?thesis
        by (auto simp: arith_opt.simps [of i xs] remove_both intro: block_refines_trans)
    next
      case 4
      then have "js = []" using arith_pair_plain [OF 4] by simp
      with "1.IH"(3) "1.prems" len ne cut [OF 4] all [OF 4] 4 show ?thesis
        by (auto simp: arith_opt.simps [of i xs] replace_first intro: block_refines_trans)
    qed
  next
    case False
    then show ?thesis using "1.prems" by (simp add: arith_opt.simps [of i xs] split: if_splits)
  qed
qed

interpretation sums: block_optimizer "\<lambda>xs. arith_opt 0 xs 0" "list_all wide_arith"
  by unfold_locales (rule arith_opt_refines)

lemma sums_on_block: "sums.on_block = AsmArithOptimizer"
  by (simp add: fun_eq_iff sums.on_block_def AsmArithOptimizer_def)

end
