(* ===== verification/Asm_Jumps.thy ===== *)
theory Asm_Jumps
  imports Asm_Peephole
begin

text \<open>
  Comparisons and jumps: which jumps are taken after a \<open>cmp\<close>, and the removal of redundant jumps.
\<close>

section \<open>Relations\<close>

fun rel_holds :: "ir_relation \<Rightarrow> int \<Rightarrow> int \<Rightarrow> bool" where
  "rel_holds Rel_equal x y = (x = y)"
| "rel_holds Rel_less_greater x y = (x \<noteq> y)"
| "rel_holds Rel_true x y = True"
| "rel_holds Rel_greater x y = (x > y)"
| "rel_holds Rel_greater_equal x y = (x \<ge> y)"
| "rel_holds Rel_less x y = (x < y)"
| "rel_holds Rel_less_equal x y = (x \<le> y)"
| "rel_holds Rel_other x y = False"

lemma inverse_rel_holds: "getInverseRelation r = Inr r' \<Longrightarrow> rel_holds r' x y \<longleftrightarrow> \<not> rel_holds r x y"
  by (cases r) auto

text \<open>The sign flag and the overflow flag of a difference give its sign.\<close>

lemma sign_of_difference:
  fixes e :: int
  assumes "- (2 * 2 ^ k) < e" "e < 2 * 2 ^ k"
  shows "bit e k \<noteq> (e < - (2 ^ k) \<or> 2 ^ k \<le> e) \<longleftrightarrow> e < 0"
proof -
  let ?p = "2 ^ k :: int"
  have pos: "0 < ?p" by simp
  have q: "bit e k \<longleftrightarrow> odd (e div ?p)" by (simp add: bit_iff_odd)
  consider "e < - ?p" | "- ?p \<le> e" "e < 0" | "0 \<le> e" "e < ?p" | "?p \<le> e" by linarith
  then show ?thesis
  proof cases
    case 1
    then have "e div ?p = - 2" using assms by (intro int_div_pos_eq [of _ _ _ "e + 2 * ?p"]) auto
    moreover have "e < 0" using 1 pos by linarith
    ultimately show ?thesis using q 1 by simp
  next
    case 2
    then have "e div ?p = - 1" by (intro int_div_pos_eq [of _ _ _ "e + ?p"]) auto
    with q 2 show ?thesis by simp
  next
    case 3
    with q show ?thesis by simp
  next
    case 4
    then have "e div ?p = 1" using assms by (intro int_div_pos_eq [of _ _ _ "e - ?p"]) auto
    moreover have "\<not> e < 0" using 4 pos by linarith
    ultimately show ?thesis using q 4 by simp
  qed
qed

lemma bits_pos [simp]: "0 < bits w" "bits w \<le> 64"
  by (cases w; simp)+

lemma signed_bounds: "- (2 ^ (bits w - 1)) \<le> sval w v" "sval w v < 2 ^ (bits w - 1)"
  by (simp_all add: sval_def signed_take_bit_int_greater_eq_minus_exp signed_take_bit_int_less_exp)

lemma take_bit_signed: "take_bit (bits w) (sval w v) = take_bit (bits w) (uint v)"
proof -
  have "bits w - 1 < bits w \<or> bits w - 1 = 63" by (cases w) simp_all
  have "bits w = Suc (bits w - 1)" by (cases w) simp_all
  then show ?thesis unfolding sval_def by (metis signed_take_bit_eq_iff_take_bit_eq signed_take_bit_signed_take_bit min.idem)
qed

lemma signed_eq_iff: "sval w a = sval w b \<longleftrightarrow> trunc w a = trunc w b"
proof -
  have s: "bits w = Suc (bits w - 1)" by (cases w) simp_all
  have "sval w a = sval w b \<longleftrightarrow> take_bit (bits w) (uint a) = take_bit (bits w) (uint b)"
    unfolding sval_def by (subst s, subst (2) s) (simp only: signed_take_bit_eq_iff_take_bit_eq)
  also have "\<dots> \<longleftrightarrow> uint (trunc w a) = uint (trunc w b)" by (simp add: trunc_def unsigned_take_bit_eq)
  finally show ?thesis by (simp only: word_uint_eq_iff)
qed

lemma uint_difference: "take_bit (bits w) (uint (b - a)) = take_bit (bits w) (uint b - uint a)"
  for a b :: "64 word"
proof -
  have "uint (b - a) = take_bit 64 (uint b - uint a)" by (simp add: uint_word_ariths take_bit_eq_mod)
  then show ?thesis by (simp add: min_absorb1)
qed

lemma bit_of_difference:
  "bit (b - a) (bits w - 1) \<longleftrightarrow> bit (sval w b - sval w a) (bits w - 1)"
proof -
  have k: "bits w - 1 < bits w" "bits w - 1 < 64" by (cases w; simp)+
  have "take_bit (bits w) (uint (b - a)) = take_bit (bits w) (uint b - uint a)" by (rule uint_difference)
  also have "\<dots> = take_bit (bits w) (take_bit (bits w) (uint b) - take_bit (bits w) (uint a))"
    by (simp add: take_bit_diff)
  also have "\<dots> = take_bit (bits w) (take_bit (bits w) (sval w b) - take_bit (bits w) (sval w a))"
    by (simp only: take_bit_signed)
  also have "\<dots> = take_bit (bits w) (sval w b - sval w a)" by (simp add: take_bit_diff)
  finally have "bit (take_bit (bits w) (uint (b - a))) (bits w - 1) = bit (take_bit (bits w) (sval w b - sval w a)) (bits w - 1)"
    by simp
  then show ?thesis using k by (simp add: bit_simps)
qed

lemma flags_of_difference:
  fixes a b :: "64 word" and w :: reg_mode
  assumes "flags_of w (sval w b - sval w a) (b - a) = (z, n, v)"
  shows "n \<noteq> v \<longleftrightarrow> sval w b < sval w a" "z \<longleftrightarrow> sval w b = sval w a"
proof -
  have "- (2 * 2 ^ (bits w - 1)) < sval w b - sval w a" "sval w b - sval w a < 2 * 2 ^ (bits w - 1)"
    using signed_bounds [of w a] signed_bounds [of w b] by linarith+
  from sign_of_difference [OF this] assms show "n \<noteq> v \<longleftrightarrow> sval w b < sval w a"
    by (auto simp: flags_of_def bit_of_difference [unfolded One_nat_def])
  have "trunc w (b - a) = 0 \<longleftrightarrow> take_bit (bits w) (uint (b - a)) = 0"
    by (simp add: trunc_def word_uint_eq_iff unsigned_take_bit_eq)
  also have "\<dots> \<longleftrightarrow> take_bit (bits w) (uint b) = take_bit (bits w) (uint a)"
    unfolding uint_difference by (simp add: take_bit_eq_mod mod_eq_dvd_iff dvd_eq_mod_eq_0)
  also have "\<dots> \<longleftrightarrow> trunc w b = trunc w a"
    by (simp add: trunc_def word_uint_eq_iff unsigned_take_bit_eq)
  finally show "z \<longleftrightarrow> sval w b = sval w a" using assms by (simp add: flags_of_def signed_eq_iff)
qed

lemma jump_after_cmp:
  assumes "relation_mnemonic r = Inr m" "flags s = Some (flags_of w (sval w b - sval w a) (b - a))"
  shows "jump_taken m s = Some (rel_holds r (sval w b) (sval w a))"
proof -
  obtain z n v where f: "flags_of w (sval w b - sval w a) (b - a) = (z, n, v)" by (metis prod_cases3)
  show ?thesis using assms flags_of_difference [OF f] f by (cases r) auto
qed

section \<open>Jumps\<close>

text \<open>The second jump is taken if and only if the first one is not.\<close>

definition inverse_jumps :: "instr \<Rightarrow> instr \<Rightarrow> bool" where
  "inverse_jumps i j \<longleftrightarrow> (mne i, mne j) \<in> set [(M_Je, M_Jne), (M_Jne, M_Je), (M_Jg, M_Jle), (M_Jle, M_Jg),
     (M_Jl, M_Jge), (M_Jge, M_Jl)]"

lemma inverse_jumps_taken:
  "inverse_jumps i j \<Longrightarrow> jump_taken (mne j) s = map_option Not (jump_taken (mne i) s)"
  by (cases "flags s") (auto simp: inverse_jumps_def)

lemma inverse_relation_jumps:
  assumes "makeJump t r = Inr i" "getInverseRelation r = Inr r'" "makeJump u r' = Inr j"
  shows "inverse_jumps i j"
  using assms by (cases r) (auto simp: makeJump_def inverse_jumps_def instr1_def)

text \<open>
  The shape of the jump instructions of a block: the last one is a jump, and a jump before it is
  its inverse, as \<open>visitCond\<close> generates them.
\<close>

definition jumps_wf :: "instr list \<Rightarrow> bool" where
  "jumps_wf js \<longleftrightarrow> js \<noteq> [] \<longrightarrow> isJmp (last js) \<and>
     (length js \<ge> 2 \<and> isJmp (js ! (length js - 2)) \<longrightarrow> inverse_jumps (js ! (length js - 2)) (last js))"

text \<open>Replacing the end of a block by code without labels.\<close>

definition no_labels :: "instr list \<Rightarrow> bool" where
  "no_labels xs \<longleftrightarrow> list_all (\<lambda>i. mne i \<noteq> M_Label) xs"

lemma find_label_none: "no_labels xs \<Longrightarrow> find_label t xs = None"
  by (induction xs) (auto simp: no_labels_def)

lemma run_block_end_cong:
  assumes "\<And>s r. run_block ext nxt ys s = Some r \<Longrightarrow> run_block ext nxt zs s = Some r" "no_labels ys" "no_labels zs"
    and "run_block ext nxt (xs @ ys) s = Some r"
  shows "run_block ext nxt (xs @ zs) s = Some r"
  using assms(4)
proof (induction xs arbitrary: s rule: length_induct)
  case (1 xs)
  show ?case
  proof (cases xs)
    case Nil
    then show ?thesis using 1 assms(1) by simp
  next
    case (Cons i p)
    have ih: "run_block ext nxt (p' @ ys) s = Some r \<Longrightarrow> run_block ext nxt (p' @ zs) s = Some r"
      if "length p' \<le> length p" for p' s
      using 1(1) that Cons by auto
    have lab: "length q \<le> length p" if "find_label u p = Some q" for u q
      using find_label_length [OF that] by simp
    show ?thesis
      using 1(2) ih [of p] ih [OF lab] Cons
      by (auto simp: find_label_append find_label_none [OF assms(2)] find_label_none [OF assms(3)]
          split: if_splits option.splits bool.splits op.splits Option.bind_splits)
  qed
qed

lemma isJmp_no_label: "isJmp j \<Longrightarrow> mne j \<noteq> M_Label"
  by (auto simp: isJmp_def)

lemma op_str_Inr: "op_str x = Inr t \<longleftrightarrow> x = OP_STR t"
  by (cases x) auto

lemma drop_last_jump:
  assumes "isJmp j" "ops0 j = OP_STR nxt" "run_block ext nxt [j] s = Some r"
  shows "run_block ext nxt [] s = Some r"
  using assms by (auto split: bool.splits option.splits)

lemma drop_inverse_jump:
  assumes "isJmp i" "isJmp j" "inverse_jumps i j" "ops0 i = OP_STR nxt" "run_block ext nxt [i, j] s = Some r"
  shows "run_block ext nxt [j] s = Some r"
  using inverse_jumps_taken [OF assms(3), of s] assms isJmp_no_label [OF assms(2)]
  by (auto split: bool.splits option.splits)

lemma jump_opt_block_run:
  assumes "jump_opt_block nxt js = Inr (js', n)" "jumps_wf js" "run_block ext nxt (pre @ js) s = Some r"
  shows "run_block ext nxt (pre @ js') s = Some r"
proof (cases "js = []")
  case False
  define j where "j = last js"
  have js: "js = butlast js @ [j]" using False by (simp add: j_def)
  have j: "isJmp j" using assms(2) False by (simp add: jumps_wf_def j_def)
  obtain t where t: "ops0 j = OP_STR t"
    using assms(1) False by (auto simp: jump_opt_block_def j_def bindE_eq_Inr op_str_Inr)
  have nl: "no_labels [j]" using isJmp_no_label [OF j] by (simp add: no_labels_def)
  show ?thesis
  proof (cases "t = nxt")
    case True
    then have "js' = butlast js" using assms(1) False t by (simp add: jump_opt_block_def j_def)
    then show ?thesis
      using run_block_end_cong [of ext nxt "[j]" "[]" "pre @ butlast js" s r]
        drop_last_jump [OF j] t True js assms(3) nl by (simp add: no_labels_def)
  next
    case other: False
    show ?thesis
    proof (cases "js' = js")
      case changed: False
      let ?i = "js ! (length js - 2)"
      have i: "length js \<ge> 2" "isJmp ?i" "ops0 ?i = OP_STR nxt" "js' = remove_at (length js - 2) js"
        using assms(1) False other changed t
        by (auto simp: jump_opt_block_def j_def Let_def bindE_eq_Inr op_str_Inr split: if_splits)
      define k where "k = length js - 2"
      have k: "Suc k < length js" "js ! Suc k = j" "drop (Suc (Suc k)) js = []"
        using i(1) False by (auto simp: k_def j_def last_conv_nth Suc_diff_Suc numeral_2_eq_2)
      have inv: "inverse_jumps (js ! k) j" using assms(2) False i by (simp add: jumps_wf_def k_def j_def)
      have "js' = take k js @ [j]"
        using i(4) k by (simp add: k_def [symmetric] remove_at_def flip: Cons_nth_drop_Suc)
      moreover have "js = take k js @ [js ! k, j]" using split_pair [OF k(1)] k by simp
      moreover have "no_labels [js ! k, j]" using isJmp_no_label i(2) nl by (simp add: no_labels_def k_def)
      ultimately show ?thesis
        using run_block_end_cong [of ext nxt "[js ! k, j]" "[j]" "pre @ take k js" s r]
          drop_inverse_jump [OF _ j inv] i nl assms(3) by (simp add: k_def)
    qed (use assms in simp)
  qed
qed (use assms in \<open>simp add: jump_opt_block_def\<close>)

end
