(* ===== verification/Asm_Claims.thy ===== *)
theory Asm_Claims
  imports Asm_Jumps
begin

text \<open>
  The properties of the assembly optimizers on whole functions, and two optimizations that are not
  correct in general.
\<close>

section \<open>Jumps\<close>

text \<open>The block at index \<open>k\<close> becomes \<open>c\<close>.\<close>

definition jump_opt_at :: "basic_block list \<Rightarrow> nat \<Rightarrow> basic_block \<Rightarrow> bool" where
  "jump_opt_at bs k c \<longleftrightarrow> (\<exists>js. c = (bs ! k)\<lparr>jumpInstrs := js\<rparr> \<and>
    (if Suc k < length bs then \<exists>m. jump_opt_block (getLabelStr (bs ! Suc k)) (jumpInstrs (bs ! k)) = Inr (js, m)
     else js = jumpInstrs (bs ! k)))"

lemma jump_opt_at_Suc [simp]: "jump_opt_at (b # bs) (Suc k) c = jump_opt_at bs k c"
  by (simp add: jump_opt_at_def)

lemma jump_opt_blocks_nth:
  "jump_opt_blocks bs = Inr (bs', n) \<Longrightarrow> length bs' = length bs \<and> (\<forall>k < length bs. jump_opt_at bs k (bs' ! k))"
proof (induction bs arbitrary: bs' n rule: jump_opt_blocks.induct)
  case (1 b c bs)
  then obtain js m bs1 k where r: "jump_opt_block (getLabelStr c) (jumpInstrs b) = Inr (js, m)"
      "jump_opt_blocks (c # bs) = Inr (bs1, k)" "bs' = b\<lparr>jumpInstrs := js\<rparr> # bs1"
    by (auto simp: bindE_eq_Inr)
  note ih = "1.IH" [OF r(1) refl r(2)]
  have "jump_opt_at (b # c # bs) i (bs' ! i)" if "i < length (b # c # bs)" for i
    using ih r that by (cases i) (auto simp: jump_opt_at_def [of _ 0])
  then show ?case using ih r by simp
qed (auto simp: jump_opt_at_def)

lemma jump_opt_at_refines:
  assumes "jump_opt_at (orderedBasicBlocks f) k c" "k < length (orderedBasicBlocks f)"
    and wf: "jumps_wf (jumpInstrs (orderedBasicBlocks f ! k))"
  shows "refines_at (next_label f k) (block_code (orderedBasicBlocks f ! k)) (block_code c)"
    and "getLabelStr c = getLabelStr (orderedBasicBlocks f ! k)"
proof -
  let ?b = "orderedBasicBlocks f ! k"
  obtain js where c: "c = ?b\<lparr>jumpInstrs := js\<rparr>" and js: "js = jumpInstrs ?b \<or>
      (\<exists>m. jump_opt_block (next_label f k) (jumpInstrs ?b) = Inr (js, m))"
    using assms(1) by (auto simp: jump_opt_at_def next_label_def split: if_splits)
  have run: "run_block ext (next_label f k) (block_code c) s = Some r"
    if "run_block ext (next_label f k) (block_code ?b) s = Some r" for ext s r
    using js jump_opt_block_run [OF _ wf, of _ js _ ext "startPhiInstrs ?b @ instrs ?b @ phiInstrs ?b" s r] that
    by (auto simp: c block_code_def)
  show "refines_at (next_label f k) (block_code ?b) (block_code c)"
    unfolding refines_at_def by (blast elim: block_refinesD [OF block_refines_refl] dest: run)
  show "getLabelStr c = getLabelStr ?b" by (simp add: c getLabelStr_def)
qed

text \<open>
  C24: Removing redundant jumps keeps the behaviour of a function: if the jumps of each block have the
  shape that the code generator gives them, every run of the function that reaches its epilog is
  also a run of the optimized function, with the same registers and memory at the end.
\<close>

theorem jump_optimizer_correct:
  assumes "\<forall>b \<in> set (orderedBasicBlocks f). jumps_wf (jumpInstrs b)"
    and "AsmJumpOptimizer f = Inr (f', n)"
    and "run_fn ext block_code f m l s = Some t"
  shows "\<exists>t'. run_fn ext block_code f' m l s = Some t' \<and> regs t' = regs t \<and> mem t' = mem t"
proof -
  obtain bs where bs: "jump_opt_blocks (orderedBasicBlocks f) = Inr (bs, n)" "f' = f\<lparr>orderedBasicBlocks := bs\<rparr>"
    using assms(2) by (auto simp: AsmJumpOptimizer_def bindE_eq_Inr)
  note nth = jump_opt_blocks_nth [OF bs(1)]
  have "refines_at (next_label f k) (block_code (orderedBasicBlocks f ! k)) (block_code (bs ! k))"
    if k: "k < length (orderedBasicBlocks f)" for k
    using nth assms(1) k by (intro jump_opt_at_refines) auto
  moreover have "map getLabelStr bs = map getLabelStr (orderedBasicBlocks f)"
    using nth assms(1) jump_opt_at_refines(2) by (auto simp: list_eq_iff_nth_eq)
  ultimately have "fn_refines block_code f f'" using bs(2) by (intro fn_refinesI) auto
  then show ?thesis using assms(3) unfolding fn_refines_def sim_def by fastforce
qed

definition ex_blk :: "nat \<Rightarrow> instr list \<Rightarrow> instr list \<Rightarrow> basic_block" where
  "ex_blk n is js = (newBasicBlock n [])\<lparr>instrs := is, jumpInstrs := js, flattenedInstrs := []\<rparr>"

definition ex_fn :: asm_function where
  "ex_fn = \<lparr>fnName = ''f'', ARsize = 16, orderedBasicBlocks =
     [ex_blk 1 [] [instr2 M_Cmp (OP_IMM 0) rbx [], instr1 M_Je (OP_STR ''.L2'') [], instr1 M_Jne (OP_STR ''.L3'') []],
      ex_blk 2 [instr2 M_Mov (OP_IMM 5) rbx []] [instr1 M_Jmp (OP_STR ''.L3'') []],
      ex_blk 3 [] []]\<rparr>"

definition ex_state :: asm_state where
  "ex_state = \<lparr>regs = (\<lambda>_. 0), mem = (\<lambda>_. 0), flags = None\<rparr>"

definition ex_calls :: calls where
  "ex_calls = (\<lambda>_ _. None)"

lemma is_none_False: "Option.is_none x = False \<Longrightarrow> \<exists>y. x = Some y"
  by (cases x) simp_all

theorem jump_optimizer_correct_witness:
  "\<exists>f' n t. AsmJumpOptimizer ex_fn = Inr (f', n) \<and> n = 2 \<and> run_fn ex_calls block_code f' 3 ''.L1'' ex_state = Some t"
proof -
  have "case AsmJumpOptimizer ex_fn of Inr (f', n) \<Rightarrow> n = 2 | Inl _ \<Rightarrow> False" by code_simp
  then obtain f' n where o: "AsmJumpOptimizer ex_fn = Inr (f', n)" "n = 2" by (auto split: sum.splits)
  have "Option.is_none (run_fn ex_calls block_code ex_fn 3 ''.L1'' ex_state) = False" by code_simp
  then obtain t where "run_fn ex_calls block_code ex_fn 3 ''.L1'' ex_state = Some t" using is_none_False by blast
  moreover have "\<forall>b \<in> set (orderedBasicBlocks ex_fn). jumps_wf (jumpInstrs b)" by code_simp
  ultimately show ?thesis using jump_optimizer_correct [of ex_fn f' n ex_calls 3 "''.L1''" ex_state t] o by blast
qed

section \<open>Sums of constants\<close>

text \<open>
  C25: Merging additions and subtractions of constants keeps the behaviour of every function of a program whose
  additions and subtractions are on 64 bits: a run to the epilog is also a run of the optimized
  function, with the same registers and memory, and no jump depends on a changed flag.
\<close>

theorem arith_optimizer_correct:
  assumes "\<forall>f \<in> set p. \<forall>b \<in> set (orderedBasicBlocks f). list_all wide_arith (flattenedInstrs b)"
    and "run_blocks AsmArithOptimizer p = Inr p'" "k < length p"
    and "run_fn ext flattenedInstrs (p ! k) m l s = Some t"
  shows "\<exists>t'. run_fn ext flattenedInstrs (p' ! k) m l s = Some t' \<and> regs t' = regs t \<and> mem t' = mem t"
proof -
  have "fn_refines flattenedInstrs (p ! k) (p' ! k)"
    using sums.run_blocks_refines [of p p'] assms by (simp add: sums_on_block list_all2_conv_all_nth)
  then obtain t' where "run_fn ext flattenedInstrs (p' ! k) m l s = Some t'" "sim True t t'"
    using assms(4) sim_refl unfolding fn_refines_def by blast
  then show ?thesis by (auto simp: sim_def)
qed

definition ex_flat :: "instr list \<Rightarrow> asm_function" where
  "ex_flat is = \<lparr>fnName = ''f'', ARsize = 16, orderedBasicBlocks =
     [(newBasicBlock 1 [])\<lparr>instrs := is, flattenedInstrs := is\<rparr>]\<rparr>"

definition ex_sums :: "instr list" where
  "ex_sums = [instr2 M_Add (OP_IMM 8) rsp [], instr2 M_Sub (OP_IMM 24) rsp [], instr2 M_Mov rsp rbx []]"

theorem arith_optimizer_correct_witness:
  "\<exists>p' t. run_blocks AsmArithOptimizer [ex_flat ex_sums] = Inr p'
    \<and> run_fn ex_calls flattenedInstrs (p' ! 0) 3 ''.L1'' ex_state = Some t"
proof -
  have "case run_blocks AsmArithOptimizer [ex_flat ex_sums] of Inr p' \<Rightarrow> True | Inl _ \<Rightarrow> False" by code_simp
  then obtain p' where o: "run_blocks AsmArithOptimizer [ex_flat ex_sums] = Inr p'" by (auto split: sum.splits)
  have "Option.is_none (run_fn ex_calls flattenedInstrs (ex_flat ex_sums) 3 ''.L1'' ex_state) = False" by code_simp
  then obtain t where "run_fn ex_calls flattenedInstrs (ex_flat ex_sums) 3 ''.L1'' ex_state = Some t" using is_none_False by blast
  moreover have "\<forall>f \<in> set [ex_flat ex_sums]. \<forall>b \<in> set (orderedBasicBlocks f). list_all wide_arith (flattenedInstrs b)"
    by code_simp
  ultimately show ?thesis
    using arith_optimizer_correct [of "[ex_flat ex_sums]" p' 0 ex_calls 3 "''.L1''" ex_state t] o by auto
qed

section \<open>Redundant moves\<close>

text \<open>
  C26: The first two loops on moves keep the behaviour of a block: a load of the value that the
  instruction before it stored is dropped, or read from the register, provided that the store is 64
  bits wide, and so is a load that is dropped.
\<close>

theorem mov_optimizer_loops_correct:
  assumes "pairs same_ok xs" "mov_pass1 0 xs 0 = Inr (ys, n)"
    and "pairs other_ok ys" "mov_pass2 0 ys n = Inr (zs, m)"
    and "run_block ext nxt xs s = Some (l, t)"
  shows "\<exists>t'. run_block ext nxt zs s = Some (l, t') \<and> regs t' = regs t \<and> mem t' = mem t"
proof -
  have "block_refines xs zs"
    using mov1.opt_refines [OF assms(1,2)] mov2.opt_refines [OF assms(3,4)] by (rule block_refines_trans)
  then obtain t' where "run_block ext nxt zs s = Some (l, t')" "sim True t t'"
    by (rule block_refinesD [OF _ sim_refl assms(5)])
  then show ?thesis by (auto simp: sim_def)
qed

definition ex_movs :: "instr list" where
  "ex_movs = [instr2 M_Mov rbx (OP_IND RN_bp RM_R (-8)) [], instr2 M_Mov (OP_IND RN_bp RM_R (-8)) rbx [],
     instr2 M_Mov rbx (OP_IND RN_bp RM_R (-16)) [], instr2 M_Movl (OP_IND RN_bp RM_R (-16)) (OP_REG RN_cx RM_E) []]"

definition ex_movs1 :: "instr list" where
  "ex_movs1 = [instr2 M_Mov rbx (OP_IND RN_bp RM_R (-8)) [],
     instr2 M_Mov rbx (OP_IND RN_bp RM_R (-16)) [], instr2 M_Movl (OP_IND RN_bp RM_R (-16)) (OP_REG RN_cx RM_E) []]"

definition ex_movs2 :: "instr list" where
  "ex_movs2 = [instr2 M_Mov rbx (OP_IND RN_bp RM_R (-8)) [],
     instr2 M_Mov rbx (OP_IND RN_bp RM_R (-16)) [], instr2 M_Movl (OP_REG RN_bx RM_E) (OP_REG RN_cx RM_E) []]"

theorem mov_optimizer_loops_correct_witness:
  "mov_pass1 0 ex_movs 0 = Inr (ex_movs1, 1) \<and> mov_pass2 0 ex_movs1 1 = Inr (ex_movs2, 2)
    \<and> (\<exists>l t'. run_block ex_calls ''.L2'' ex_movs2 ex_state = Some (l, t'))"
proof -
  have r: "mov_pass1 0 ex_movs 0 = Inr (ex_movs1, 1)" "mov_pass2 0 ex_movs1 1 = Inr (ex_movs2, 2)" by code_simp+
  have "Option.is_none (run_block ex_calls ''.L2'' ex_movs ex_state) = False" by code_simp
  then obtain l t where "run_block ex_calls ''.L2'' ex_movs ex_state = Some (l, t)" by (metis is_none_False surj_pair)
  moreover have "pairs same_ok ex_movs" "pairs other_ok ex_movs1" by code_simp+
  ultimately show ?thesis
    using mov_optimizer_loops_correct [of ex_movs ex_movs1 1 ex_movs2 2 ex_calls "''.L2''" ex_state l t] r by auto
qed

section \<open>Cheaper instructions\<close>

text \<open>
  C27: Exchanging instructions for cheaper ones (no addition of 0, \<open>inc\<close> and \<open>dec\<close> for 1, \<open>xor\<close> to clear a
  register) keeps the effect of the instructions of a block on registers and memory, if the
  additions are on 64 bits.
\<close>

theorem simple_optimizer_correct:
  assumes "list_all wide_arith (instrs b)" "AsmSimpleOptimizer b = Inr (b', n)"
    and "exec_code ext (instrs b) s = Some t"
  shows "\<exists>t'. exec_code ext (instrs b') s = Some t' \<and> regs t' = regs t \<and> mem t' = mem t"
proof -
  have "instrs b' = fst (simple_opt_list (instrs b))"
    using assms(2) by (auto simp: AsmSimpleOptimizer_def Let_def case_prod_beta split: if_splits)
  then obtain t' where "exec_code ext (instrs b') s = Some t'" "sim False t t'"
    using simple_opt_list_refines [OF assms(1)] assms(3) unfolding refines_def by metis
  then show ?thesis by (auto simp: sim_def)
qed

definition ex_cheap :: "instr list" where
  "ex_cheap = [instr2 M_Mov (OP_IMM 0) rbx [], instr2 M_Add (OP_IMM 1) rbx [], instr2 M_Add (OP_IMM 0) rbx [],
     instr2 M_Add (OP_IMM 1) rbx [], instr2 M_Sub (OP_IMM 1) rbx []]"

theorem simple_optimizer_correct_witness:
  "\<exists>b' t'. AsmSimpleOptimizer (ex_blk 1 ex_cheap []) = Inr (b', 4) \<and> exec_code ex_calls (instrs b') ex_state = Some t'"
proof -
  have "case AsmSimpleOptimizer (ex_blk 1 ex_cheap []) of Inr (b', n) \<Rightarrow> n = 4 | Inl _ \<Rightarrow> False" by code_simp
  then obtain b' where o: "AsmSimpleOptimizer (ex_blk 1 ex_cheap []) = Inr (b', 4)" by (auto split: sum.splits)
  have "Option.is_none (exec_code ex_calls (instrs (ex_blk 1 ex_cheap [])) ex_state) = False" by code_simp
  then obtain t where "exec_code ex_calls (instrs (ex_blk 1 ex_cheap [])) ex_state = Some t" using is_none_False by blast
  moreover have "list_all wide_arith (instrs (ex_blk 1 ex_cheap []))" by code_simp
  ultimately show ?thesis
    using simple_optimizer_correct [of "ex_blk 1 ex_cheap []" b' 4 ex_calls ex_state t] o by auto
qed

section \<open>Optimizations that change the result\<close>

text \<open>
  The third loop on moves drops a load although the instruction between the store and the load, if
  it is not a move, changes the register.
\<close>

definition ex_between :: "instr list" where
  "ex_between = [instr2 M_Movq rax (OP_IND RN_bp RM_R (-8)) [], instr2 M_Add (OP_IMM 1) rax [],
     instr2 M_Movq (OP_IND RN_bp RM_R (-8)) rax []]"

lemma mov_loop3_changes_result:
  "mov_pass3 0 ex_between 0 = Inr (take 2 ex_between, 1)"
  "map_option (\<lambda>t. regs t RN_ax) (exec_code ex_calls ex_between ex_state) = Some 0"
  "map_option (\<lambda>t. regs t RN_ax) (exec_code ex_calls (take 2 ex_between) ex_state) = Some 1"
  by code_simp+

text \<open>
  The alias optimizer drops a move between registers although an instruction behind the renamed
  ones reads and changes the target.
\<close>

definition ex_alias :: "instr list" where
  "ex_alias = [instr2 M_Mov (OP_IMM 7) rbx [], instr2 M_Mov rbx rcx [], instr2 M_Mov rcx rax [],
     instr2 M_Add (OP_IMM 1) rcx [], instr2 M_Mov rcx rax []]"

definition ex_alias' :: "instr list" where
  "ex_alias' = [instr2 M_Mov (OP_IMM 7) rbx [], instr2 M_Mov rbx rax [],
     instr2 M_Add (OP_IMM 1) rcx [], instr2 M_Mov rcx rax []]"

lemma alias_optimizer_changes_result:
  "alias_opt 0 ex_alias 0 = Inr (ex_alias', 1)"
  "map_option (\<lambda>t. regs t RN_ax) (exec_code ex_calls ex_alias ex_state) = Some 8"
  "map_option (\<lambda>t. regs t RN_ax) (exec_code ex_calls ex_alias' ex_state) = Some 1"
  by code_simp+

text \<open>
  The fourth loop goes on with a pointer to the instruction that it has just erased; for the last
  instruction of a block the pointer is past the end.
\<close>

definition ex_stale :: "instr list" where
  "ex_stale = [instr2 M_Cmp (OP_IMM 0) rbx [], instr2 M_Movq (OP_IND RN_bp RM_R (-8)) rcx [],
     instr2 M_Movq (OP_IND RN_bp RM_R (-8)) rcx []]"

lemma mov_loop4_stale_pointer: "mov_pass4 2 ex_stale 0 = Inl BadAccess"
  by code_simp

end
