(* ===== verification/Firm.thy ===== *)
theory Firm
  imports Asm
begin

text \<open>
  Graphs of the library libfirm and the passes over them (\<open>firm_pass.hpp\<close>).  The library is not part
  of the sources: a graph is a parameter, the record of the library functions that the compiler
  calls on its nodes.  A node is identified by its number.  The order in which a pass
  visits the nodes is computed by a recursive walk against the edges; \<open>None\<close> stands for running out
  of fuel, the depth of the recursion.
\<close>

section \<open>Graphs\<close>

type_synonym node = nat

text \<open>The opcodes with a visit function in some pass, and the others that \<open>initNode\<close> accepts and rejects.\<close>

datatype opcode = iro_Add | iro_Address | iro_Anchor | iro_Bad | iro_Block | iro_Call | iro_Cmp | iro_Cond
  | iro_Const | iro_Conv | iro_Div | iro_End | iro_Jmp | iro_Load | iro_Minus | iro_Mod | iro_Mul | iro_Not
  | iro_Phi | iro_Proj | iro_Return | iro_Start | iro_Store | iro_Sub | iro_Unknown | iro_Other | iro_Invalid

datatype ir_mode = mode_Is | mode_Ls | mode_P | mode_Bu | mode_b | mode_T | mode_M | mode_X | mode_Other

record ir_graph =
  get_irn_opcode :: "node \<Rightarrow> opcode"
  get_irn_mode :: "node \<Rightarrow> ir_mode"
  get_nodes_block :: "node \<Rightarrow> node"
  irn_in :: "node \<Rightarrow> node list"           \<comment> \<open>\<open>get_irn_n(node, i)\<close> for \<open>i < get_irn_arity(node)\<close>\<close>
  out_edges :: "node \<Rightarrow> node list"        \<comment> \<open>\<open>foreach_out_edge_safe\<close>\<close>
  block_succs :: "node \<Rightarrow> node list"      \<comment> \<open>\<open>foreach_block_succ\<close>\<close>
  get_left :: "node \<Rightarrow> node"              \<comment> \<open>\<open>get_Add_left\<close>, \<open>get_Sub_left\<close>, ..., \<open>get_Cmp_left\<close>\<close>
  get_right :: "node \<Rightarrow> node"
  get_op :: "node \<Rightarrow> node"                \<comment> \<open>\<open>get_Conv_op\<close>, \<open>get_Minus_op\<close>, \<open>get_Not_op\<close>\<close>
  get_tarval_long :: "node \<Rightarrow> int"        \<comment> \<open>of the \<open>get_Const_tarval\<close> of a node\<close>
  get_Proj_num :: "node \<Rightarrow> nat"
  get_Proj_pred :: "node \<Rightarrow> node"
  pn_Cond_false :: nat                   \<comment> \<open>constants of the library\<close>
  pn_Cond_true :: nat
  get_Cmp_relation :: "node \<Rightarrow> ir_relation"
  get_Cond_selector :: "node \<Rightarrow> node"
  get_Call_ptr :: "node \<Rightarrow> node"
  get_Call_params :: "node \<Rightarrow> node list"
  get_Call_n_ress :: "node \<Rightarrow> nat"        \<comment> \<open>\<open>get_method_n_ress(get_Call_type(node))\<close>\<close>
  get_Call_callee :: "node \<Rightarrow> string"     \<comment> \<open>the name of the callee\<close>
  get_Address_entity :: "node \<Rightarrow> string"  \<comment> \<open>the name of the entity\<close>
  get_Return_ress :: "node \<Rightarrow> node list"
  get_Load_ptr :: "node \<Rightarrow> node"
  get_Store_value :: "node \<Rightarrow> node"
  get_Store_ptr :: "node \<Rightarrow> node"
  get_Phi_preds :: "node \<Rightarrow> node list"
  get_Phi_loop :: "node \<Rightarrow> bool"
  get_Block_cfgpreds :: "node \<Rightarrow> node list"
  gdb_node_helper :: "node \<Rightarrow> string"
  get_irg_end :: node
  get_irg_start_block :: node
  get_irg_end_block :: node
  get_irg_args :: node
  irg_is_method :: bool                  \<comment> \<open>\<open>is_Method_type\<close> of the type of the entity\<close>
  irg_name :: string                     \<comment> \<open>\<open>get_entity_name(get_irg_entity(graph))\<close>\<close>
  irg_ld_name :: string                  \<comment> \<open>\<open>get_entity_ld_name\<close>\<close>

definition is_Const :: "ir_graph \<Rightarrow> node \<Rightarrow> bool" where "is_Const G n \<longleftrightarrow> get_irn_opcode G n = iro_Const"
definition is_Conv :: "ir_graph \<Rightarrow> node \<Rightarrow> bool" where "is_Conv G n \<longleftrightarrow> get_irn_opcode G n = iro_Conv"
definition is_Unknown :: "ir_graph \<Rightarrow> node \<Rightarrow> bool" where "is_Unknown G n \<longleftrightarrow> get_irn_opcode G n = iro_Unknown"
definition is_Phi :: "ir_graph \<Rightarrow> node \<Rightarrow> bool" where "is_Phi G n \<longleftrightarrow> get_irn_opcode G n = iro_Phi"
definition is_Block :: "ir_graph \<Rightarrow> node \<Rightarrow> bool" where "is_Block G n \<longleftrightarrow> get_irn_opcode G n = iro_Block"
definition is_Proj :: "ir_graph \<Rightarrow> node \<Rightarrow> bool" where "is_Proj G n \<longleftrightarrow> get_irn_opcode G n = iro_Proj"
definition is_Cond :: "ir_graph \<Rightarrow> node \<Rightarrow> bool" where "is_Cond G n \<longleftrightarrow> get_irn_opcode G n = iro_Cond"
definition is_Cmp :: "ir_graph \<Rightarrow> node \<Rightarrow> bool" where "is_Cmp G n \<longleftrightarrow> get_irn_opcode G n = iro_Cmp"
definition is_Address :: "ir_graph \<Rightarrow> node \<Rightarrow> bool" where "is_Address G n \<longleftrightarrow> get_irn_opcode G n = iro_Address"
definition is_Anchor :: "ir_graph \<Rightarrow> node \<Rightarrow> bool" where "is_Anchor G n \<longleftrightarrow> get_irn_opcode G n = iro_Anchor"
definition is_Jmp :: "ir_graph \<Rightarrow> node \<Rightarrow> bool" where "is_Jmp G n \<longleftrightarrow> get_irn_opcode G n = iro_Jmp"
definition is_Bad :: "ir_graph \<Rightarrow> node \<Rightarrow> bool" where "is_Bad G n \<longleftrightarrow> get_irn_opcode G n = iro_Bad"

lemmas is_opcode_defs = is_Const_def is_Conv_def is_Unknown_def is_Phi_def is_Block_def is_Proj_def
  is_Cond_def is_Cmp_def is_Address_def is_Anchor_def is_Jmp_def is_Bad_def

section \<open>The walk\<close>

definition is_loop_breaker :: "ir_graph \<Rightarrow> node \<Rightarrow> bool" where
  "is_loop_breaker G n \<longleftrightarrow> is_Phi G n \<or> is_Block G n"

text \<open>The visited marks and the nodes on which \<open>initNode\<close> was called, in this order.\<close>

fun init_topological :: "nat \<Rightarrow> ir_graph \<Rightarrow> node \<Rightarrow> node list \<times> node list \<Rightarrow> (node list \<times> node list) option"
  and init_preds :: "nat \<Rightarrow> ir_graph \<Rightarrow> node list \<Rightarrow> node list \<times> node list \<Rightarrow> (node list \<times> node list) option" where
  "init_topological 0 G irn s = None"
| "init_topological (Suc k) G irn (vis, inits) =
     (if irn \<in> set vis then Some (vis, inits)
      else
        (let vis1 = (if is_loop_breaker G irn then irn # vis else vis) in
         Option.bind (if is_Block G irn then Some (vis1, inits)
                      else init_topological k G (get_nodes_block G irn) (vis1, inits)) (\<lambda>s1.
         Option.bind (init_preds k G (irn_in G irn) s1) (\<lambda>(vis2, inits2).
           Some (irn # vis2,
             if is_loop_breaker G irn \<or> irn \<notin> set vis2 then inits2 @ [irn] else inits2)))))"
| "init_preds k G [] s = Some s"
| "init_preds k G (p # ps) s = Option.bind (init_topological k G p s) (init_preds k G ps)"

definition initNodesTopological :: "nat \<Rightarrow> ir_graph \<Rightarrow> node list option" where
  "initNodesTopological k G = map_option snd (init_topological k G (get_irg_end G) ([], []))"

text \<open>\<open>defaultInitOp\<close> for all opcodes: the queue of the default pass.\<close>

definition initWorkQueue :: "nat \<Rightarrow> ir_graph \<Rightarrow> node list option" where
  "initWorkQueue k G = map_option (filter (\<lambda>n. \<not> is_Const G n)) (initNodesTopological k G)"

text \<open>The loop of \<open>run\<close>: a visit returns the new state and the nodes that it enqueues.\<close>

fun run_queue :: "nat \<Rightarrow> (node \<Rightarrow> 's \<Rightarrow> 'e + 's \<times> node list) \<Rightarrow> node list \<Rightarrow> 's \<Rightarrow> ('e + 's) option" where
  "run_queue k visit [] s = Some (Inr s)"
| "run_queue 0 visit (n # ns) s = None"
| "run_queue (Suc k) visit (n # ns) s =
     (case visit n s of Inl e \<Rightarrow> Some (Inl e) | Inr (s', ms) \<Rightarrow> run_queue k visit (ns @ ms) s')"

section \<open>The order of the walk\<close>

definition preds :: "ir_graph \<Rightarrow> node \<Rightarrow> node set" where
  "preds G n = set (irn_in G n) \<union> (if is_Block G n then {} else {get_nodes_block G n})"

inductive reaches :: "ir_graph \<Rightarrow> node \<Rightarrow> node \<Rightarrow> bool" for G n where
  refl: "reaches G n n"
| step: "reaches G n m \<Longrightarrow> p \<in> preds G m \<Longrightarrow> reaches G n p"

text \<open>
  The invariant: visited nodes that are not yet initialized are loop breakers on the stack, and the
  operands of initialized nodes come before them unless they are loop breakers.
\<close>

definition ordered :: "ir_graph \<Rightarrow> node list \<Rightarrow> bool" where
  "ordered G ns \<longleftrightarrow> (\<forall>i < length ns. \<forall>p \<in> preds G (ns ! i). is_loop_breaker G p \<or> p \<in> set (take i ns))"

definition walk_inv :: "ir_graph \<Rightarrow> node list \<times> node list \<Rightarrow> bool" where
  "walk_inv G s \<longleftrightarrow> (case s of (vis, inits) \<Rightarrow> set inits \<subseteq> set vis \<and> distinct inits \<and> ordered G inits
     \<and> (\<forall>n \<in> set vis. n \<in> set inits \<or> is_loop_breaker G n)
     \<and> (\<forall>n \<in> set inits. preds G n \<subseteq> set vis))"

text \<open>What a step of the walk does: it visits and initializes only nodes that were not visited.\<close>

definition extends :: "node list \<times> node list \<Rightarrow> node list \<times> node list \<Rightarrow> bool" where
  "extends s t \<longleftrightarrow> (\<exists>new. snd t = snd s @ new \<and> set new \<inter> set (fst s) = {} \<and> set (fst t) = set (fst s) \<union> set new)"

lemma extends_refl [simp]: "extends s s"
  by (auto simp: extends_def)

lemma extends_trans: "extends s t \<Longrightarrow> extends t u \<Longrightarrow> extends s u"
  unfolding extends_def by (elim exE conjE) (rule exI, auto)

lemma ordered_snoc: "ordered G (ns @ [n]) \<longleftrightarrow> ordered G ns \<and> (\<forall>p \<in> preds G n. is_loop_breaker G p \<or> p \<in> set ns)"
  by (auto simp: ordered_def less_Suc_eq nth_append)

lemma walk_inv_simp: "walk_inv G (vis, inits) \<longleftrightarrow> set inits \<subseteq> set vis \<and> distinct inits \<and> ordered G inits
    \<and> (\<forall>n \<in> set vis. n \<in> set inits \<or> is_loop_breaker G n) \<and> (\<forall>n \<in> set inits. preds G n \<subseteq> set vis)"
  by (simp add: walk_inv_def)

lemma walk_finish:
  assumes "walk_inv G (vis2, inits2)" "preds G n \<subseteq> set vis2" "n \<notin> set vis"
    and "extends (if is_loop_breaker G n then n # vis else vis, inits) (vis2, inits2)"
  defines "r \<equiv> (if is_loop_breaker G n \<or> n \<notin> set vis2 then inits2 @ [n] else inits2)"
  assumes "set inits \<subseteq> set vis"
  shows "walk_inv G (n # vis2, r) \<and> extends (vis, inits) (n # vis2, r)"
proof -
  obtain new where new: "inits2 = inits @ new" "set new \<inter> set (if is_loop_breaker G n then n # vis else vis) = {}"
      "set vis2 = set (if is_loop_breaker G n then n # vis else vis) \<union> set new"
    using assms(4) unfolding extends_def by auto
  have fresh: "is_loop_breaker G n \<Longrightarrow> n \<notin> set inits2" using new assms(3,6) by auto
  have inv: "set inits2 \<subseteq> set vis2" "distinct inits2" "ordered G inits2"
      "\<forall>n \<in> set vis2. n \<in> set inits2 \<or> is_loop_breaker G n" "\<forall>n \<in> set inits2. preds G n \<subseteq> set vis2"
    using assms(1) unfolding walk_inv_simp by blast+
  show ?thesis
  proof (cases "is_loop_breaker G n \<or> n \<notin> set vis2")
    case True
    then have n: "n \<notin> set inits2" using fresh inv by auto
    have "walk_inv G (n # vis2, inits2 @ [n])"
      using inv n assms(2) by (auto simp: walk_inv_simp ordered_snoc)
    moreover have "extends (vis, inits) (n # vis2, inits2 @ [n])"
      unfolding extends_def using new assms(3) by (auto split: if_splits intro!: exI [of _ "new @ [n]"])
    ultimately show ?thesis using True by (simp add: r_def)
  next
    case False
    have "walk_inv G (n # vis2, inits2)" using inv False by (auto simp: walk_inv_simp)
    moreover have "extends (vis, inits) (n # vis2, inits2)"
      unfolding extends_def using new False by (auto split: if_splits intro!: exI [of _ new])
    ultimately show ?thesis using False by (simp add: r_def)
  qed
qed

lemma extends_visited: "extends s t \<Longrightarrow> set (fst s) \<subseteq> set (fst t)"
  by (auto simp: extends_def)

lemma init_topological_inv:
  "init_topological k G irn s = Some t \<Longrightarrow> walk_inv G s \<Longrightarrow> walk_inv G t \<and> extends s t \<and> irn \<in> set (fst t)"
  "init_preds k G ps s = Some t \<Longrightarrow> walk_inv G s \<Longrightarrow> walk_inv G t \<and> extends s t \<and> set ps \<subseteq> set (fst t)"
proof (induction k G irn s and k G ps s arbitrary: t and t rule: init_topological_init_preds.induct)
  case (2 k G irn vis inits)
  show ?case
  proof (cases "irn \<in> set vis")
    case False
    define vis1 where "vis1 = (if is_loop_breaker G irn then irn # vis else vis)"
    let ?blk = "if is_Block G irn then Some (vis1, inits)
          else init_topological k G (get_nodes_block G irn) (vis1, inits)"
    have "Option.bind ?blk (\<lambda>s1. Option.bind (init_preds k G (irn_in G irn) s1) (\<lambda>(vis2, inits2).
        Some (irn # vis2, if is_loop_breaker G irn \<or> irn \<notin> set vis2 then inits2 @ [irn] else inits2))) = Some t"
      using "2.prems"(1) by (simp only: vis1_def Let_def init_topological.simps False if_False)
    then obtain s1 s2 where s1: "?blk = Some s1" and s2': "init_preds k G (irn_in G irn) s1 = Some s2"
      and t': "(case s2 of (vis2, inits2) \<Rightarrow>
        Some (irn # vis2, if is_loop_breaker G irn \<or> irn \<notin> set vis2 then inits2 @ [irn] else inits2)) = Some t"
      unfolding Option.bind_eq_Some_conv by blast
    obtain vis2 inits2 where "s2 = (vis2, inits2)" by fastforce
    then have s2: "init_preds k G (irn_in G irn) s1 = Some (vis2, inits2)"
      and t: "t = (irn # vis2, if is_loop_breaker G irn \<or> irn \<notin> set vis2 then inits2 @ [irn] else inits2)"
      using s2' t' by simp_all
    have i1: "walk_inv G (vis1, inits)" using "2.prems"(2) by (auto simp: walk_inv_simp vis1_def)
    have b: "walk_inv G s1 \<and> extends (vis1, inits) s1 \<and> (is_Block G irn \<or> get_nodes_block G irn \<in> set (fst s1))"
    proof (cases "is_Block G irn")
      case True
      then show ?thesis using s1 i1 by simp
    next
      case nb: False
      with s1 have "init_topological k G (get_nodes_block G irn) (vis1, inits) = Some s1" by simp
      from "2.IH"(1) [OF False vis1_def nb this i1] show ?thesis by simp
    qed
    from "2.IH"(2) [OF False vis1_def _ s2] s1 b
    have c: "walk_inv G (vis2, inits2)" "extends s1 (vis2, inits2)" "set (irn_in G irn) \<subseteq> set vis2" by auto
    have "preds G irn \<subseteq> set vis2"
      using b c(3) extends_visited [OF c(2)] by (auto simp: preds_def)
    from walk_finish [OF c(1) this False, of inits] show ?thesis
      using extends_trans [of "(vis1, inits)" s1 "(vis2, inits2)"] b c "2.prems"(2) t
      by (auto simp: vis1_def walk_inv_simp)
  qed (use 2 in auto)
next
  case (4 k G p ps s)
  then obtain u where u: "init_topological k G p s = Some u" "init_preds k G ps u = Some t"
    by (auto split: Option.bind_splits)
  note a = "4.IH"(1) [OF u(1) "4.prems"(2)]
  then have b: "walk_inv G t \<and> extends u t \<and> set ps \<subseteq> set (fst t)" using "4.IH"(2) [OF u] by blast
  then have "set (fst u) \<subseteq> set (fst t)" using extends_visited [of u t] by blast
  then show ?case using a b extends_trans [of s u t] by auto
qed auto

section \<open>Termination of the walk\<close>

text \<open>
  The recursion ends if every cycle of the graph contains a loop breaker: the nodes that are none
  have a rank that decreases along their operands.  \<open>bs\<close> holds the loop breakers of the graph.
\<close>

definition ranked :: "ir_graph \<Rightarrow> (node \<Rightarrow> nat) \<Rightarrow> nat \<Rightarrow> node list \<Rightarrow> bool" where
  "ranked G rank r bs \<longleftrightarrow> (\<forall>n. rank n \<le> r) \<and> (\<forall>n. is_loop_breaker G n \<longrightarrow> n \<in> set bs)
     \<and> (\<forall>n. \<not> is_loop_breaker G n \<longrightarrow> (\<forall>p \<in> preds G n. is_loop_breaker G p \<or> rank p < rank n))"

definition unvisited :: "node list \<Rightarrow> node list \<Rightarrow> nat" where
  "unvisited bs vis = card (set bs - set vis)"

definition fuel_for :: "ir_graph \<Rightarrow> (node \<Rightarrow> nat) \<Rightarrow> nat \<Rightarrow> node list \<Rightarrow> node list \<Rightarrow> node \<Rightarrow> nat" where
  "fuel_for G rank r bs vis n =
     (if n \<in> set vis then 1
      else if is_loop_breaker G n then unvisited bs vis * (r + 2) + 1
      else unvisited bs vis * (r + 2) + rank n + 2)"

lemma unvisited_mono: "set vis \<subseteq> set vis' \<Longrightarrow> unvisited bs vis' \<le> unvisited bs vis"
  unfolding unvisited_def by (rule card_mono) auto

lemma unvisited_Cons: "n \<in> set bs \<Longrightarrow> n \<notin> set vis \<Longrightarrow> unvisited bs vis = Suc (unvisited bs (n # vis))"
proof -
  assume n: "n \<in> set bs" "n \<notin> set vis"
  then have "set bs - set vis = insert n (set bs - set (n # vis))" by auto
  then have "card (set bs - set vis) = card (insert n (set bs - set (n # vis)))" by (rule arg_cong)
  also have "\<dots> = Suc (card (set bs - set (n # vis)))" by (rule card_insert_disjoint) auto
  finally show ?thesis unfolding unvisited_def .
qed

lemma fuel_mono:
  assumes "set vis \<subseteq> set vis'"
  shows "fuel_for G rank r bs vis' n \<le> fuel_for G rank r bs vis n"
proof -
  have "unvisited bs vis' * (r + 2) \<le> unvisited bs vis * (r + 2)" using unvisited_mono [OF assms] by (rule mult_le_mono1)
  then show ?thesis
    using assms subsetD [OF assms, of n] unfolding fuel_for_def by (simp split: if_splits)
qed

lemma fuel_step:
  assumes "ranked G rank r bs" "n \<notin> set vis" "p \<in> preds G n"
  shows "fuel_for G rank r bs (if is_loop_breaker G n then n # vis else vis) p < fuel_for G rank r bs vis n"
proof (cases "is_loop_breaker G n")
  case True
  have "unvisited bs vis = Suc (unvisited bs (n # vis))" using assms True by (intro unvisited_Cons) (auto simp: ranked_def)
  moreover have "rank p \<le> r" using assms by (auto simp: ranked_def)
  ultimately show ?thesis using True assms(2) by (auto simp: fuel_for_def)
next
  case False
  then have "is_loop_breaker G p \<or> rank p < rank n" using assms by (auto simp: ranked_def)
  then show ?thesis using False assms(2) by (auto simp: fuel_for_def)
qed

lemma init_total:
  assumes "ranked G rank r bs"
  shows "fuel_for G rank r bs (fst s) irn \<le> k \<Longrightarrow> walk_inv G s \<Longrightarrow> \<exists>t. init_topological k G irn s = Some t"
    and "\<forall>p \<in> set ps. fuel_for G rank r bs (fst s) p \<le> k \<Longrightarrow> walk_inv G s \<Longrightarrow> \<exists>t. init_preds k G ps s = Some t"
  using assms
proof (induction k G irn s and k G ps s rule: init_topological_init_preds.induct)
  case (1 G irn s)
  then show ?case by (auto simp: fuel_for_def split: if_splits)
next
  case (2 k G irn vis inits)
  show ?case
  proof (cases "irn \<in> set vis")
    case False
    define vis1 where "vis1 = (if is_loop_breaker G irn then irn # vis else vis)"
    have i1: "walk_inv G (vis1, inits)" using "2.prems"(2) by (auto simp: walk_inv_simp vis1_def)
    have f: "fuel_for G rank r bs vis1 p \<le> k" if "p \<in> preds G irn" for p
      using fuel_step [OF "2.prems"(3) False that] "2.prems"(1) by (simp add: vis1_def)
    let ?blk = "if is_Block G irn then Some (vis1, inits)
          else init_topological k G (get_nodes_block G irn) (vis1, inits)"
    have "\<exists>s1. ?blk = Some s1 \<and> walk_inv G s1 \<and> set vis1 \<subseteq> set (fst s1)"
    proof (cases "is_Block G irn")
      case True
      then show ?thesis using i1 by simp
    next
      case nb: False
      then have "get_nodes_block G irn \<in> preds G irn" by (simp add: preds_def)
      then obtain s1 where "init_topological k G (get_nodes_block G irn) (vis1, inits) = Some s1"
        using "2.IH"(1) [OF False vis1_def nb _ i1 "2.prems"(3)] f by auto
      then show ?thesis using nb init_topological_inv(1) [OF _ i1] extends_visited by fastforce
    qed
    then obtain s1 where s1: "?blk = Some s1" "walk_inv G s1" "set vis1 \<subseteq> set (fst s1)" by blast
    have "\<forall>p \<in> set (irn_in G irn). fuel_for G rank r bs (fst s1) p \<le> k"
    proof
      fix p assume "p \<in> set (irn_in G irn)"
      then have "fuel_for G rank r bs vis1 p \<le> k" by (intro f) (simp add: preds_def)
      then show "fuel_for G rank r bs (fst s1) p \<le> k"
        using fuel_mono [OF s1(3), of G rank r bs p] by (meson le_trans)
    qed
    then obtain s2 where "init_preds k G (irn_in G irn) s1 = Some s2"
      using "2.IH"(2) [OF False vis1_def s1(1) _ s1(2) "2.prems"(3)] by auto
    then have "Option.bind ?blk (\<lambda>s1. Option.bind (init_preds k G (irn_in G irn) s1) (\<lambda>(vis2, inits2).
        Some (irn # vis2, if is_loop_breaker G irn \<or> irn \<notin> set vis2 then inits2 @ [irn] else inits2))) \<noteq> None"
      using s1(1) by (auto simp: case_prod_beta)
    then have "init_topological (Suc k) G irn (vis, inits) \<noteq> None"
      by (simp only: vis1_def Let_def init_topological.simps False if_False not_False_eq_True)
    then show ?thesis by auto
  qed (use 2 in simp)
next
  case (4 k G p ps s)
  then obtain u where u: "init_topological k G p s = Some u" by auto
  note inv = init_topological_inv(1) [OF u "4.prems"(2)]
  have "\<forall>q \<in> set ps. fuel_for G rank r bs (fst u) q \<le> k"
  proof
    fix q assume "q \<in> set ps"
    then have "fuel_for G rank r bs (fst s) q \<le> k" using "4.prems"(1) by simp
    then show "fuel_for G rank r bs (fst u) q \<le> k"
      using fuel_mono [OF extends_visited, of s u G rank r bs q] inv by (meson le_trans)
  qed
  then show ?case using "4.IH"(2) u inv "4.prems"(3) by auto
qed auto

section \<open>Properties of the walk\<close>

lemma reaches_trans: "reaches G b c \<Longrightarrow> reaches G a b \<Longrightarrow> reaches G a c"
  by (induction rule: reaches.induct) (auto intro: reaches.intros)

lemma reaches_pred: "p \<in> preds G n \<Longrightarrow> reaches G p m \<Longrightarrow> reaches G n m"
  by (blast intro: reaches_trans reaches.intros)

lemma walk_reaches:
  "init_topological k G irn s = Some t \<Longrightarrow> walk_inv G s \<Longrightarrow> \<forall>n \<in> set (fst t) - set (fst s). reaches G irn n"
  "init_preds k G ps s = Some t \<Longrightarrow> walk_inv G s \<Longrightarrow> \<forall>n \<in> set (fst t) - set (fst s). \<exists>p \<in> set ps. reaches G p n"
proof (induction k G irn s and k G ps s arbitrary: t and t rule: init_topological_init_preds.induct)
  case (2 k G irn vis inits)
  show ?case
  proof (cases "irn \<in> set vis")
    case False
    define vis1 where "vis1 = (if is_loop_breaker G irn then irn # vis else vis)"
    have i1: "walk_inv G (vis1, inits)" using "2.prems"(2) by (auto simp: walk_inv_simp vis1_def)
    let ?blk = "if is_Block G irn then Some (vis1, inits)
          else init_topological k G (get_nodes_block G irn) (vis1, inits)"
    have "Option.bind ?blk (\<lambda>s1. Option.bind (init_preds k G (irn_in G irn) s1) (\<lambda>(vis2, inits2).
        Some (irn # vis2, if is_loop_breaker G irn \<or> irn \<notin> set vis2 then inits2 @ [irn] else inits2))) = Some t"
      using "2.prems"(1) by (simp only: vis1_def Let_def init_topological.simps False if_False)
    then obtain s1 s2 where s1: "?blk = Some s1" and s2: "init_preds k G (irn_in G irn) s1 = Some s2"
      and t: "fst t = irn # fst s2"
      unfolding Option.bind_eq_Some_conv by (auto simp: case_prod_beta)
    have b: "(\<forall>n \<in> set (fst s1) - set vis1. reaches G irn n) \<and> walk_inv G s1"
    proof (cases "is_Block G irn")
      case True
      then show ?thesis using s1 i1 by auto
    next
      case nb: False
      then have p: "get_nodes_block G irn \<in> preds G irn" by (simp add: preds_def)
      from nb s1 have r: "init_topological k G (get_nodes_block G irn) (vis1, inits) = Some s1" by simp
      from "2.IH"(1) [OF False vis1_def nb r i1] reaches_pred [OF p] init_topological_inv(1) [OF r i1]
      show ?thesis by auto
    qed
    from "2.IH"(2) [OF False vis1_def s1 s2] b
    have "\<forall>n \<in> set (fst s2) - set (fst s1). \<exists>p \<in> set (irn_in G irn). reaches G p n" by blast
    then have "\<forall>n \<in> set (fst s2) - set (fst s1). reaches G irn n"
      using reaches_pred [of _ G irn] by (fastforce simp: preds_def)
    then show ?thesis using b t by (auto simp: vis1_def intro: reaches.refl split: if_splits)
  qed (use 2 in auto)
next
  case (4 k G p ps s)
  then obtain u where u: "init_topological k G p s = Some u" "init_preds k G ps u = Some t"
    by (auto split: Option.bind_splits)
  then show ?case
    using "4.IH"(1) [OF u(1) "4.prems"(2)] "4.IH"(2) [OF u] init_topological_inv(1) [OF u(1) "4.prems"(2)] by auto
qed auto

lemma walk_inv_start [simp]: "walk_inv G ([], [])"
  by (simp add: walk_inv_simp ordered_def)

text \<open>
  C32: The walk that orders the nodes of a graph for a pass initializes exactly the nodes that the end node
  reaches, each of them once, and every node after its operands and its block, except for those
  that are phi or block nodes and may be part of a loop.
\<close>

theorem walk_topological:
  assumes "initNodesTopological k G = Some ns"
  shows "distinct ns \<and> set ns = {n. reaches G (get_irg_end G) n}
    \<and> (\<forall>i < length ns. \<forall>p \<in> preds G (ns ! i). is_loop_breaker G p \<or> p \<in> set (take i ns))"
proof -
  obtain vis where run: "init_topological k G (get_irg_end G) ([], []) = Some (vis, ns)"
    using assms by (auto simp: initNodesTopological_def)
  note inv = init_topological_inv(1) [OF run walk_inv_start]
  have all: "set vis = set ns" using inv by (auto simp: extends_def)
  have "n \<in> set ns" if "reaches G (get_irg_end G) n" for n
    using that
  proof (induction rule: reaches.induct)
    case refl
    then show ?case using inv all by simp
  next
    case (step m p)
    then show ?case using inv all by (auto simp: walk_inv_simp)
  qed
  moreover have "\<forall>n \<in> set ns. reaches G (get_irg_end G) n" using walk_reaches(1) [OF run] all by simp
  ultimately have "set ns = {n. reaches G (get_irg_end G) n}" by blast
  then show ?thesis using inv by (auto simp: walk_inv_simp ordered_def)
qed

text \<open>
  C33: The walk ends on every graph in which each cycle contains a phi or block node: recursion to the depth
  (number of phi and block nodes + 1) times (length of the longest path without them + 2) is enough.
\<close>

theorem walk_terminates:
  assumes "ranked G rank r bs" "(length bs + 1) * (r + 2) \<le> k"
  shows "\<exists>ns. initNodesTopological k G = Some ns"
proof -
  have "unvisited bs [] \<le> length bs" by (simp add: unvisited_def card_length)
  then have "unvisited bs [] * (r + 2) \<le> length bs * (r + 2)" by (rule mult_le_mono1)
  moreover have "rank (get_irg_end G) \<le> r" using assms(1) by (simp add: ranked_def)
  ultimately have "fuel_for G rank r bs (fst ([], [])) (get_irg_end G) \<le> k"
    using assms(2) by (auto simp: fuel_for_def)
  from init_total(1) [OF assms(1) this walk_inv_start] show ?thesis
    by (auto simp: initNodesTopological_def)
qed

section \<open>An example\<close>

definition empty_graph :: ir_graph where
  "empty_graph = \<lparr>get_irn_opcode = (\<lambda>_. iro_Other), get_irn_mode = (\<lambda>_. mode_Other), get_nodes_block = (\<lambda>_. 0),
     irn_in = (\<lambda>_. []), out_edges = (\<lambda>_. []), block_succs = (\<lambda>_. []), get_left = (\<lambda>_. 0), get_right = (\<lambda>_. 0),
     get_op = (\<lambda>_. 0), get_tarval_long = (\<lambda>_. 0), get_Proj_num = (\<lambda>_. 0), get_Proj_pred = (\<lambda>_. 0), pn_Cond_false = 0, pn_Cond_true = 1,
     get_Cmp_relation = (\<lambda>_. Rel_other), get_Cond_selector = (\<lambda>_. 0), get_Call_ptr = (\<lambda>_. 0),
     get_Call_params = (\<lambda>_. []), get_Call_n_ress = (\<lambda>_. 0), get_Call_callee = (\<lambda>_. []),
     get_Address_entity = (\<lambda>_. []), get_Return_ress = (\<lambda>_. []), get_Load_ptr = (\<lambda>_. 0),
     get_Store_value = (\<lambda>_. 0), get_Store_ptr = (\<lambda>_. 0), get_Phi_preds = (\<lambda>_. []), get_Phi_loop = (\<lambda>_. False),
     get_Block_cfgpreds = (\<lambda>_. []), gdb_node_helper = (\<lambda>_. []), get_irg_end = 0, get_irg_start_block = 0,
     get_irg_end_block = 0, get_irg_args = 0, irg_is_method = True, irg_name = [], irg_ld_name = []\<rparr>"

text \<open>Values for some nodes, and a default for the others.\<close>

definition at_nodes :: "(node \<times> 'a) list \<Rightarrow> 'a \<Rightarrow> node \<Rightarrow> 'a" where
  "at_nodes xs d n = (case map_of xs n of Some x \<Rightarrow> x | None \<Rightarrow> d)"

text \<open>A loop that counts: block 1 has the phi node 5 of the constant 6 and of the sum 7 of both.\<close>

definition loop_graph :: ir_graph where
  "loop_graph = empty_graph\<lparr>
     get_irn_opcode := at_nodes [(0, iro_Block), (1, iro_Block), (9, iro_Block), (2, iro_End), (3, iro_Jmp), (4, iro_Jmp),
       (5, iro_Phi), (6, iro_Const), (7, iro_Add), (8, iro_Return)] iro_Other,
     get_nodes_block := at_nodes [(4, 1), (5, 1), (7, 1), (8, 1), (2, 9)] 0,
     irn_in := at_nodes [(1, [3, 4]), (5, [6, 7]), (7, [5, 6]), (8, [7]), (9, [8])] [],
     get_irg_end := 2, get_irg_start_block := 0, get_irg_end_block := 9\<rparr>"

definition loop_rank :: "node \<Rightarrow> nat" where
  "loop_rank = at_nodes [(7, 1), (8, 2)] 0"

lemma loop_graph_ranked: "ranked loop_graph loop_rank 2 [0, 1, 5, 9]"
  by (auto simp: ranked_def loop_graph_def empty_graph_def loop_rank_def at_nodes_def is_loop_breaker_def
      is_opcode_defs preds_def split: if_splits)

theorem walk_topological_witness:
  "initNodesTopological 20 loop_graph = Some [0, 3, 4, 1, 6, 7, 5, 8, 9, 2]
    \<and> distinct [0, 3, 4, 1, 6, 7, 5, 8, 9, 2 :: node]
    \<and> set [0, 3, 4, 1, 6, 7, 5, 8, 9, 2] = {n. reaches loop_graph (get_irg_end loop_graph) n}"
proof -
  have "initNodesTopological 20 loop_graph = Some [0, 3, 4, 1, 6, 7, 5, 8, 9, 2]" by code_simp
  then show ?thesis using walk_topological [of 20 loop_graph "[0, 3, 4, 1, 6, 7, 5, 8, 9, 2]"] by blast
qed

theorem walk_terminates_witness: "\<exists>ns. initNodesTopological 20 loop_graph = Some ns"
  by (rule walk_terminates [OF loop_graph_ranked]) simp

end
