(* ===== verification/Fn_Remove.thy ===== *)
theory Fn_Remove
  imports Firm
begin

text \<open>
  The removal of functions that are not called (\<open>unused_fn_remove_pass.hpp\<close>).  A function is the index
  of its graph in the program, which stands for the pointer to the graph.
\<close>

datatype pass_error =
    NoFuel       \<comment> \<open>the walk over a graph does not end\<close>
  | InvalidNode  \<comment> \<open>\<open>errorInvalid\<close>: the compiler exits\<close>
  | NoGraph      \<comment> \<open>a pointer that is not a graph of the program\<close>

section \<open>Model\<close>

text \<open>\<open>FindReferencedFunctionsPass\<close>: the callees of the call nodes in the order of the walk.\<close>

definition getReferencedFunctions :: "nat \<Rightarrow> ir_graph \<Rightarrow> pass_error + string list" where
  "getReferencedFunctions k G =
     (case initNodesTopological k G of
        None \<Rightarrow> Inl NoFuel
      | Some ns \<Rightarrow>
          if list_ex (\<lambda>n. get_irn_opcode G n = iro_Invalid) ns then Inl InvalidNode
          else Inr (map (get_Call_callee G) (filter (\<lambda>n. get_irn_opcode G n = iro_Call) ns)))"

definition getGraphForFnName :: "ir_graph list \<Rightarrow> string \<Rightarrow> nat option" where
  "getGraphForFnName gs nm = List.find (\<lambda>i. irg_name (gs ! i) = nm) [0..<length gs]"

definition initWorkList :: "ir_graph list \<Rightarrow> nat list" where
  "initWorkList gs = (case getGraphForFnName gs ''main'' of Some i \<Rightarrow> [i] | None \<Rightarrow> [])"

text \<open>The loop of \<open>ProgramPass::run\<close> with \<open>visitMethod\<close>.\<close>

function remove_loop :: "nat \<Rightarrow> ir_graph list \<Rightarrow> nat list \<Rightarrow> nat list \<Rightarrow> pass_error + nat list" where
  "remove_loop k gs [] refd = Inr refd"
| "remove_loop k gs (g # q) refd =
     (if g \<in> set refd then remove_loop k gs q refd
      else if g \<ge> length gs then Inl NoGraph
      else bindE (getReferencedFunctions k (gs ! g)) (\<lambda>names.
        remove_loop k gs (q @ List.map_filter (getGraphForFnName gs) names) (g # refd)))"
  by pat_completeness auto
termination
proof (relation "measures [\<lambda>(k, gs, q, refd). card ({..<length gs} - set refd), \<lambda>(k, gs, q, refd). length q]")
  fix k :: nat and gs :: "ir_graph list" and q refd :: "nat list" and g :: nat and names :: "string list"
  assume "g \<notin> set refd" "\<not> g \<ge> length gs"
  then have "g \<in> {..<length gs} - set refd" by simp
  then have "card ({..<length gs} - set refd - {g}) < card ({..<length gs} - set refd)"
    by (intro card_Diff1_less) simp_all
  moreover have "{..<length gs} - set (g # refd) = {..<length gs} - set refd - {g}" by fastforce
  ultimately have "card ({..<length gs} - set (g # refd)) < card ({..<length gs} - set refd)" by (simp only:)
  then show "((k, gs, q @ List.map_filter (getGraphForFnName gs) names, g # refd), k, gs, g # q, refd)
      \<in> measures [\<lambda>(k, gs, q, refd). card ({..<length gs} - set refd), \<lambda>(k, gs, q, refd). length q]"
    by simp
qed simp_all

text \<open>\<open>after\<close>: the graphs that were not referenced are erased, the order of the others is kept.\<close>

definition UnusedFnRmPass :: "nat \<Rightarrow> ir_graph list \<Rightarrow> pass_error + ir_graph list" where
  "UnusedFnRmPass k gs = bindE (remove_loop k gs (initWorkList gs) []) (\<lambda>refd.
     Inr (nths gs (set refd)))"

section \<open>Correctness\<close>

definition calls_to :: "nat \<Rightarrow> ir_graph list \<Rightarrow> nat \<Rightarrow> nat \<Rightarrow> bool" where
  "calls_to k gs i j \<longleftrightarrow> (\<exists>names nm. getReferencedFunctions k (gs ! i) = Inr names \<and> nm \<in> set names
     \<and> getGraphForFnName gs nm = Some j)"

text \<open>The functions that \<open>main\<close> may call, directly or not.\<close>

inductive reachable :: "nat \<Rightarrow> ir_graph list \<Rightarrow> nat \<Rightarrow> bool" for k gs where
  main: "getGraphForFnName gs ''main'' = Some i \<Longrightarrow> reachable k gs i"
| call: "reachable k gs i \<Longrightarrow> calls_to k gs i j \<Longrightarrow> reachable k gs j"

lemma getGraphForFnName_less: "getGraphForFnName gs nm = Some i \<Longrightarrow> i < length gs \<and> irg_name (gs ! i) = nm"
  by (auto simp: getGraphForFnName_def find_Some_iff)

lemma set_map_filter: "set (List.map_filter f xs) = {y. \<exists>x \<in> set xs. f x = Some y}"
  by (induction xs) (auto simp: List.map_filter_def image_def)

lemma reachable_less: "reachable k gs i \<Longrightarrow> i < length gs"
  by (induction rule: reachable.induct) (auto simp: calls_to_def dest: getGraphForFnName_less)

definition loop_inv :: "nat \<Rightarrow> ir_graph list \<Rightarrow> nat set \<Rightarrow> nat set \<Rightarrow> bool" where
  "loop_inv k gs q refd \<longleftrightarrow> q \<union> refd \<subseteq> {i. reachable k gs i}
     \<and> {i. getGraphForFnName gs ''main'' = Some i} \<subseteq> q \<union> refd
     \<and> (\<forall>i \<in> refd. {j. calls_to k gs i j} \<subseteq> q \<union> refd)"

lemma callees_calls:
  "getReferencedFunctions k (gs ! g) = Inr names \<Longrightarrow>
    set (List.map_filter (getGraphForFnName gs) names) = {j. calls_to k gs g j}"
  by (auto simp: set_map_filter calls_to_def)

lemma loop_inv_step:
  assumes "loop_inv k gs (insert g q) refd"
  shows "loop_inv k gs (q \<union> {j. calls_to k gs g j}) (insert g refd)"
proof -
  have "{j. calls_to k gs g j} \<subseteq> {j. reachable k gs j}"
    using assms by (auto simp: loop_inv_def intro: reachable.call)
  then show ?thesis using assms unfolding loop_inv_def by blast
qed

lemma loop_inv_seen: "loop_inv k gs (insert g q) refd \<Longrightarrow> g \<in> refd \<Longrightarrow> loop_inv k gs q refd"
  by (simp add: loop_inv_def insert_absorb)

lemma loop_inv_done: "loop_inv k gs {} refd \<Longrightarrow> refd = {i. reachable k gs i}"
proof -
  assume inv: "loop_inv k gs {} refd"
  have "i \<in> refd" if "reachable k gs i" for i
    using that by (induction rule: reachable.induct) (use inv in \<open>auto simp: loop_inv_def\<close>)
  then show ?thesis using inv by (auto simp: loop_inv_def)
qed

lemma remove_loop_exact:
  assumes "\<forall>G \<in> set gs. \<exists>names. getReferencedFunctions k G = Inr names"
  shows "loop_inv k gs (set q) (set refd) \<Longrightarrow> \<exists>refd'. remove_loop k gs q refd = Inr refd' \<and> set refd' = {i. reachable k gs i}"
  using assms
proof (induction k gs q refd rule: remove_loop.induct)
  case (1 k gs refd)
  then show ?case by (simp add: loop_inv_done)
next
  case (2 k gs g q refd)
  show ?case
  proof (cases "g \<in> set refd")
    case True
    then have "loop_inv k gs (set q) (set refd)" using "2.prems"(1) loop_inv_seen [of k gs g] by simp
    then show ?thesis using "2.IH"(1) True "2.prems"(2) by simp
  next
    case False
    have "reachable k gs g" using "2.prems"(1) by (simp add: loop_inv_def)
    then have g: "g < length gs" by (rule reachable_less)
    then obtain names where n: "getReferencedFunctions k (gs ! g) = Inr names" using "2.prems"(2) nth_mem by blast
    have "loop_inv k gs (set (q @ List.map_filter (getGraphForFnName gs) names)) (set (g # refd))"
      using loop_inv_step [of k gs g "set q" "set refd"] "2.prems"(1) callees_calls [OF n] by simp
    from "2.IH"(2) [OF False _ n this "2.prems"(2)] False g n show ?thesis by simp
  qed
qed

text \<open>
  C34: Removing unused functions ends and keeps, in their order, exactly the functions that are reachable from
  \<open>main\<close> by calls; without a function \<open>main\<close> it removes all of them.
\<close>

theorem unused_functions_exact:
  assumes "\<forall>G \<in> set gs. \<exists>names. getReferencedFunctions k G = Inr names"
  shows "UnusedFnRmPass k gs = Inr (nths gs {i. reachable k gs i})"
proof -
  have "loop_inv k gs (set (initWorkList gs)) (set [])"
    by (auto simp: loop_inv_def initWorkList_def intro: reachable.main split: option.splits)
  then obtain refd where "remove_loop k gs (initWorkList gs) [] = Inr refd" "set refd = {i. reachable k gs i}"
    using remove_loop_exact [OF assms] by blast
  then show ?thesis by (simp add: UnusedFnRmPass_def)
qed

text \<open>A function with one block, that calls the given functions.\<close>

definition call_graph :: "string \<Rightarrow> string list \<Rightarrow> ir_graph" where
  "call_graph nm callees = empty_graph\<lparr>irg_name := nm, irg_ld_name := nm, get_irg_end := 1,
     get_irn_opcode := (\<lambda>n. if n = 0 then iro_Block else if n = 1 then iro_End else iro_Call),
     irn_in := (\<lambda>n. if n = 1 then map ((+) 2) [0..<length callees] else []),
     get_Call_callee := (\<lambda>n. if n < length callees + 2 then callees ! (n - 2) else [])\<rparr>"

definition ex_fns :: "ir_graph list" where
  "ex_fns = [call_graph ''a'' [''b''], call_graph ''b'' [''a''], call_graph ''c'' [''d'', ''print_int''],
     call_graph ''main'' [''c''], call_graph ''d'' [''d'']]"

theorem unused_functions_exact_witness:
  "map irg_name (nths ex_fns {i. reachable 10 ex_fns i}) = [''c'', ''main'', ''d'']"
proof -
  have "list_all (\<lambda>G. case getReferencedFunctions 10 G of Inr _ \<Rightarrow> True | Inl _ \<Rightarrow> False) ex_fns" by code_simp
  then have "\<forall>G \<in> set ex_fns. \<exists>names. getReferencedFunctions 10 G = Inr names"
    unfolding list_all_iff by (metis (mono_tags, lifting) obj_sumE sum.simps(5))
  from unused_functions_exact [OF this]
  have r: "UnusedFnRmPass 10 ex_fns = Inr (nths ex_fns {i. reachable 10 ex_fns i})" .
  have "case UnusedFnRmPass 10 ex_fns of Inr gs \<Rightarrow> map irg_name gs = [''c'', ''main'', ''d''] | Inl _ \<Rightarrow> False"
    by code_simp
  then show ?thesis using r by simp
qed

end
