(* ===== verification/Asm_Pass.thy ===== *)
theory Asm_Pass
  imports Firm
begin

text \<open>
  The code generator (\<open>asm_pass.hpp\<close>, \<open>asm_pass.cpp\<close>, \<open>getRegMode\<close> of \<open>asm.cpp\<close>): each value of a graph has a
  stack slot, and each node is translated to a few instructions on fixed registers.  Visit functions
  are computations on the state of \<open>AsmMethodPass\<close> that may fail: an assertion, or a null pointer
  (\<open>BadAccess\<close>), which is \<open>None\<close> for nodes and blocks.
\<close>

section \<open>Computations\<close>

text \<open>The state: the members of \<open>StackSlotManager\<close> and the function under construction.\<close>

record cg =
  currentOffset :: int
  offsets :: "node \<Rightarrow> int option"
  tmpSlots :: "node \<Rightarrow> int option"
  func :: asm_function

type_synonym 'a cgm = "cg \<Rightarrow> asm_error + 'a \<times> cg"

definition retC :: "'a \<Rightarrow> 'a cgm" where
  "retC x = (\<lambda>s. Inr (x, s))"

definition bindC :: "'a cgm \<Rightarrow> ('a \<Rightarrow> 'b cgm) \<Rightarrow> 'b cgm" where
  "bindC m f = (\<lambda>s. bindE (m s) (\<lambda>(x, s'). f x s'))"

definition seqC :: "'a cgm \<Rightarrow> 'b cgm \<Rightarrow> 'b cgm" where
  "seqC m m' = bindC m (\<lambda>_. m')"

definition failC :: "asm_error \<Rightarrow> 'a cgm" where
  "failC e = (\<lambda>s. Inl e)"

definition assertC :: "bool \<Rightarrow> unit cgm" where
  "assertC b = (if b then retC () else failC AsmAssert)"

definition liftC :: "asm_error + 'a \<Rightarrow> 'a cgm" where
  "liftC r = (\<lambda>s. bindE r (\<lambda>x. Inr (x, s)))"

text \<open>A pointer that is dereferenced.\<close>

definition deref :: "'a option \<Rightarrow> 'a cgm" where
  "deref x = (case x of Some y \<Rightarrow> retC y | None \<Rightarrow> failC BadAccess)"

fun forC :: "'a list \<Rightarrow> ('a \<Rightarrow> unit cgm) \<Rightarrow> unit cgm" where
  "forC [] f = retC ()"
| "forC (x # xs) f = seqC (f x) (forC xs f)"

fun is_imm_op :: "op \<Rightarrow> bool" where
  "is_imm_op (OP_IMM _) = True"
| "is_imm_op _ = False"

section \<open>Graph queries\<close>

definition getProjSucc :: "ir_graph \<Rightarrow> node \<Rightarrow> node option" where
  "getProjSucc G n = List.find (is_Proj G) (out_edges G n)"

definition getSucc :: "ir_graph \<Rightarrow> node \<Rightarrow> opcode \<Rightarrow> ir_mode \<Rightarrow> node option" where
  "getSucc G n opc mode = List.find (\<lambda>m. get_irn_opcode G m = opc \<and> get_irn_mode G m = mode) (out_edges G n)"

definition getNthSucc :: "ir_graph \<Rightarrow> node \<Rightarrow> nat \<Rightarrow> node option" where
  "getNthSucc G n k = (if k < length (out_edges G n) then Some (out_edges G n ! k) else None)"

definition getNumSuccessors :: "ir_graph \<Rightarrow> node \<Rightarrow> nat" where
  "getNumSuccessors G n = length (out_edges G n)"

definition nodeStr :: "ir_graph \<Rightarrow> node \<Rightarrow> string" where
  "nodeStr G n = gdb_node_helper G n @ '' '' @ nat_to_string n"

fun getRegMode :: "ir_mode \<Rightarrow> asm_error + reg_mode" where
  "getRegMode mode_Is = Inr RM_E"
| "getRegMode mode_P = Inr RM_R"
| "getRegMode mode_Bu = Inr RM_L"
| "getRegMode mode_T = Inr RM_R"
| "getRegMode mode_Ls = Inr RM_R"
| "getRegMode _ = Inl AsmAssert"

definition regModeOf :: "ir_graph \<Rightarrow> node \<Rightarrow> reg_mode cgm" where
  "regModeOf G n = liftC (getRegMode (get_irn_mode G n))"

section \<open>Stack slots\<close>

definition newSlot :: "int cgm" where
  "newSlot = (\<lambda>s. if currentOffset s + 8 > 2 ^ 31 - 1 then Inl IntOverflow
     else Inr (- currentOffset s, s\<lparr>currentOffset := currentOffset s + 8\<rparr>))"

definition getStackSlot :: "ir_graph \<Rightarrow> node \<Rightarrow> int cgm" where
  "getStackSlot G n = seqC (assertC (\<not> is_Block G n)) (\<lambda>s.
     case offsets s n of
       Some off \<Rightarrow> Inr (off, s)
     | None \<Rightarrow> bindC newSlot (\<lambda>off s. Inr (off, s\<lparr>offsets := (offsets s)(n \<mapsto> off)\<rparr>)) s)"

definition hasSlot :: "node \<Rightarrow> cg \<Rightarrow> bool" where
  "hasSlot n s \<longleftrightarrow> offsets s n \<noteq> None"

definition copySlot :: "ir_graph \<Rightarrow> node \<Rightarrow> node \<Rightarrow> unit cgm" where
  "copySlot G from to = (\<lambda>s.
     seqC (assertC (\<not> hasSlot to s))
       (bindC (if hasSlot from s then retC (the (offsets s from)) else getStackSlot G from) (\<lambda>off s.
          Inr ((), s\<lparr>offsets := (offsets s)(to := (case offsets s to of None \<Rightarrow> Some off | Some x \<Rightarrow> Some x))\<rparr>))) s)"

definition setSlot :: "node \<Rightarrow> int \<Rightarrow> unit cgm" where
  "setSlot n off = (\<lambda>s. seqC (assertC (\<not> hasSlot n s)) (\<lambda>s. Inr ((), s\<lparr>offsets := (offsets s)(n \<mapsto> off)\<rparr>)) s)"

definition getTmpSlot :: "ir_graph \<Rightarrow> node \<Rightarrow> int cgm" where
  "getTmpSlot G n = seqC (assertC (is_Phi G n)) (\<lambda>s.
     case tmpSlots s n of
       Some off \<Rightarrow> Inr (off, s)
     | None \<Rightarrow> bindC newSlot (\<lambda>off s. Inr (off, s\<lparr>tmpSlots := (tmpSlots s)(n \<mapsto> off)\<rparr>)) s)"

text \<open>A \<open>long\<close> becomes an \<open>int\<close> modulo \<open>2^32\<close>.\<close>

definition int_of_long :: "int \<Rightarrow> int" where
  "int_of_long v = (v + 2 ^ 31) mod 2 ^ 32 - 2 ^ 31"

definition slotOp :: "int \<Rightarrow> op" where
  "slotOp off = OP_IND RN_bp RM_R off"

definition getNodeOp :: "ir_graph \<Rightarrow> node \<Rightarrow> op cgm" where
  "getNodeOp G n =
     (if is_Const G n then retC (OP_IMM (int_of_long (get_tarval_long G n)))
      else if is_Conv G n \<and> is_Const G (get_op G n) then
        retC (OP_IMM (int_of_long (get_tarval_long G (get_op G n))))
      else bindC (getStackSlot G n) (\<lambda>off. retC (slotOp off)))"

section \<open>Blocks\<close>

definition nodeBB :: "ir_graph \<Rightarrow> node \<Rightarrow> nat option cgm" where
  "nodeBB G n = (let block = (if is_Block G n then n else get_nodes_block G n) in
     seqC (assertC (is_Block G block)) (\<lambda>s. Inr (map_option bb_node (getBB block (func s)), s)))"

definition blockLabel :: "ir_graph \<Rightarrow> node \<Rightarrow> string cgm" where
  "blockLabel G n = seqC (assertC (is_Block G n)) (retC (getBlockLabel n))"

text \<open>Pushing an instruction through the pointer to a block, with one of the \<open>push\<close> methods.\<close>

definition update_bb :: "nat \<Rightarrow> (basic_block \<Rightarrow> basic_block) \<Rightarrow> asm_function \<Rightarrow> asm_function" where
  "update_bb k u f = f\<lparr>orderedBasicBlocks := map (\<lambda>b. if bb_node b = k then u b else b) (orderedBasicBlocks f)\<rparr>"

definition push :: "(instr \<Rightarrow> basic_block \<Rightarrow> basic_block) \<Rightarrow> nat option \<Rightarrow> instr \<Rightarrow> unit cgm" where
  "push p bb i = bindC (deref bb) (\<lambda>k s. Inr ((), s\<lparr>func := update_bb k (p i) (func s)\<rparr>))"

section \<open>Visiting nodes\<close>

text \<open>Moves of the operand of a node to a register, operations on registers, moves to the slot of a node.\<close>

definition emit_from :: "ir_graph \<Rightarrow> nat option \<Rightarrow> mnemonic \<Rightarrow> node \<Rightarrow> op \<Rightarrow> unit cgm" where
  "emit_from G bb m n dst = bindC (getNodeOp G n) (\<lambda>src. push pushInstr bb (instr2 m src dst []))"

definition emit_to :: "ir_graph \<Rightarrow> nat option \<Rightarrow> mnemonic \<Rightarrow> op \<Rightarrow> node \<Rightarrow> string \<Rightarrow> unit cgm" where
  "emit_to G bb m src n c = bindC (getNodeOp G n) (\<lambda>dst. push pushInstr bb (instr2 m src dst c))"

definition visitConv :: "ir_graph \<Rightarrow> node \<Rightarrow> unit cgm" where
  "visitConv G n =
     (let pred = get_op G n in
      if is_Const G pred then retC ()
      else if is_Unknown G pred then retC ()
      else copySlot G pred n)"

definition visitAdd :: "ir_graph \<Rightarrow> node \<Rightarrow> unit cgm" where
  "visitAdd G n = bindC (nodeBB G n) (\<lambda>bb.
     let l = get_left G n; r = get_right G n;
         (leftNode, rightNode) = (if is_Const G r then (r, l) else (l, r)) in
     seqC (emit_from G bb M_Mov rightNode rbx)
    (seqC (emit_from G bb M_Add leftNode rbx)
          (emit_to G bb M_Mov rbx n (nodeStr G n))))"

definition visitSub :: "ir_graph \<Rightarrow> node \<Rightarrow> unit cgm" where
  "visitSub G n = bindC (nodeBB G n) (\<lambda>bb.
     seqC (emit_from G bb M_Mov (get_left G n) rbx)
    (seqC (emit_from G bb M_Sub (get_right G n) rbx)
          (emit_to G bb M_Mov rbx n [])))"

definition visitMul :: "ir_graph \<Rightarrow> node \<Rightarrow> unit cgm" where
  "visitMul G n = bindC (nodeBB G n) (\<lambda>bb.
     seqC (emit_from G bb M_Mov (get_right G n) rbx)
    (seqC (emit_from G bb M_IMul (get_left G n) rbx)
          (emit_to G bb M_Mov rbx n [])))"

text \<open>The common part of \<open>visitDiv\<close> and \<open>visitMod\<close>: the operands, extended to 64 bits, and the division.\<close>

definition emit_extended :: "nat option \<Rightarrow> op \<Rightarrow> reg_name \<Rightarrow> unit cgm" where
  "emit_extended bb x r =
     (if is_imm_op x then
        seqC (push pushInstr bb (instr2 M_Mov x (OP_REG r RM_R) []))
             (push pushInstr bb (instr2 M_Movslq (OP_REG r RM_E) (OP_REG r RM_R) []))
      else push pushInstr bb (instr2 M_Movslq x (OP_REG r RM_R) []))"

definition emit_division :: "ir_graph \<Rightarrow> nat option \<Rightarrow> node \<Rightarrow> unit cgm" where
  "emit_division G bb n =
     bindC (getNodeOp G (get_left G n)) (\<lambda>leftOp.
     bindC (getNodeOp G (get_right G n)) (\<lambda>rightOp.
     seqC (emit_extended bb leftOp RN_ax)
    (seqC (emit_extended bb rightOp RN_cx)
    (seqC (push pushInstr bb (instr0 M_Cqto))
          (push pushInstr bb (instr1 M_Div rcx []))))))"

definition visitDiv :: "ir_graph \<Rightarrow> node \<Rightarrow> unit cgm" where
  "visitDiv G n = bindC (nodeBB G n) (\<lambda>bb. bindC (regModeOf G n) (\<lambda>regMode.
     seqC (emit_division G bb n)
       (case getSucc G n iro_Proj mode_Ls of
          None \<Rightarrow> retC ()
        | Some succ \<Rightarrow> emit_to G bb M_Movq (OP_REG RN_ax regMode) succ [])))"

text \<open>\<open>visitMod\<close> asserts \<open>is_Proj(succ)\<close> before it tests for a null pointer.\<close>

definition visitMod :: "ir_graph \<Rightarrow> node \<Rightarrow> unit cgm" where
  "visitMod G n = bindC (nodeBB G n) (\<lambda>bb. bindC (regModeOf G n) (\<lambda>regMode.
     seqC (emit_division G bb n)
    (bindC (deref (getSucc G n iro_Proj mode_Ls)) (\<lambda>succ.
       emit_to G bb M_Movq (OP_REG RN_dx regMode) succ []))))"

definition visitMinus :: "ir_graph \<Rightarrow> node \<Rightarrow> unit cgm" where
  "visitMinus G n = bindC (nodeBB G n) (\<lambda>bb. bindC (regModeOf G n) (\<lambda>regMode.
     seqC (emit_from G bb M_Mov (get_op G n) (OP_REG RN_bx regMode))
    (seqC (push pushInstr bb (instr1 M_Neg (OP_REG RN_bx regMode) []))
          (emit_to G bb (mov_mnemonic regMode) (OP_REG RN_bx regMode) n []))))"

text \<open>The arguments of a call of a MiniJava method, from the lowest address on.\<close>

fun emit_args :: "ir_graph \<Rightarrow> nat option \<Rightarrow> node list \<Rightarrow> int \<Rightarrow> unit cgm" where
  "emit_args G bb [] off = retC ()"
| "emit_args G bb (p # ps) off =
     bindC (getNodeOp G p) (\<lambda>paramOp.
     bindC (if is_imm_op paramOp then retC paramOp
            else seqC (push pushInstr bb (instr2 M_Mov paramOp rcx [])) (retC rcx)) (\<lambda>x.
     seqC (push pushInstr bb (instr2 M_Movq x (OP_IND RN_sp RM_R off) []))
          (emit_args G bb ps (off + 8))))"

definition emit_result :: "ir_graph \<Rightarrow> nat option \<Rightarrow> node \<Rightarrow> string \<Rightarrow> unit cgm" where
  "emit_result G bb n c =
     (if get_Call_n_ress G n > 0 then
        seqC (assertC (get_Call_n_ress G n = 1))
          (case getSucc G n iro_Proj mode_T of
             None \<Rightarrow> retC ()
           | Some projSucc \<Rightarrow>
               (case getProjSucc G projSucc of
                  None \<Rightarrow> retC ()
                | Some resultProj \<Rightarrow> emit_to G bb M_Mov rax resultProj c))
      else retC ())"

definition visitCall :: "ir_graph \<Rightarrow> node \<Rightarrow> unit cgm" where
  "visitCall G n = bindC (nodeBB G n) (\<lambda>bb.
     if bb = None then retC ()
     else
       (let address = get_Call_ptr G n; funcName = get_Address_entity G address;
            params = get_Call_params G n; c = ''Result of '' @ funcName in
        seqC (assertC (is_Address G address))
          (if funcName = ''print_int'' \<or> funcName = ''write_int'' then
             seqC (assertC (length params = 1))
            (seqC (emit_from G bb M_Mov (params ! 0) (OP_REG RN_di RM_R))
            (seqC (push pushInstr bb (instr1 M_Call (OP_STR funcName) []))
                  (emit_result G bb n c)))
           else if funcName = ''allocate'' then
             seqC (assertC (length params = 2))
            (bindC (getNodeOp G (params ! 0)) (\<lambda>o0. bindC (regModeOf G (params ! 0)) (\<lambda>m0.
             seqC (push pushInstr bb (instr2 M_Mov o0 (OP_REG RN_di m0) []))
            (bindC (getNodeOp G (params ! 1)) (\<lambda>o1. bindC (regModeOf G (params ! 1)) (\<lambda>m1.
             seqC (push pushInstr bb (instr2 M_Mov o1 (OP_REG RN_si m1) []))
            (seqC (push pushInstr bb (instr1 M_Call (OP_STR ''calloc'') []))
                  (emit_result G bb n c))))))))
           else
             (let addSize = int (length params) * 8 in
              seqC (if addSize > 0 then push pushInstr bb (instr2 M_Sub (OP_IMM addSize) rsp []) else retC ())
             (seqC (emit_args G bb params 0)
             (seqC (push pushInstr bb (instr1 M_Call (OP_STR funcName) []))
             (seqC (if addSize > 0 then push pushInstr bb (instr2 M_Add (OP_IMM addSize) rsp []) else retC ())
                   (emit_result G bb n c))))))))"

section \<open>Comparisons and control flow\<close>

definition visitCmp :: "ir_graph \<Rightarrow> node \<Rightarrow> unit cgm" where
  "visitCmp G n = bindC (nodeBB G n) (\<lambda>bb.
     if bb = None then retC ()
     else
       bindC (regModeOf G (get_left G n)) (\<lambda>m.
       bindC (getNodeOp G (get_left G n)) (\<lambda>leftOp.
       seqC (push pushJumpInstr bb (makeMov m leftOp (OP_REG RN_bx m) []))
      (bindC (getNodeOp G (get_right G n)) (\<lambda>rightOp.
       push pushJumpInstr bb (instr2 M_Cmp rightOp (OP_REG RN_bx m) (nodeStr G n)))))))"

definition visitCond :: "ir_graph \<Rightarrow> node \<Rightarrow> unit cgm" where
  "visitCond G n = bindC (nodeBB G n) (\<lambda>bb.
     if bb = None then retC ()
     else
       (let selector = get_Cond_selector G n; relation = get_Cmp_relation G selector in
        seqC (assertC (is_Cmp G selector))
       (bindC (deref (getNthSucc G n 0)) (\<lambda>p0.
        bindC (if get_Proj_num G p0 \<noteq> pn_Cond_false G then
                 bindC (deref (getNthSucc G n 1)) (\<lambda>p1.
                   seqC (assertC (get_Proj_num G p1 = pn_Cond_false G)) (retC (p1, Some p0)))
               else retC (p0, getNthSucc G n 1)) (\<lambda>(falseProj, trueProj').
        seqC (assertC (is_Proj G falseProj))
       (seqC (assertC (get_Proj_num G falseProj = pn_Cond_false G))
       (bindC (deref trueProj') (\<lambda>trueProj.
        seqC (assertC (get_Proj_num G trueProj = pn_Cond_true G))
       (bindC (deref (getNthSucc G falseProj 0)) (\<lambda>falseBlock.
        seqC (assertC (is_Block G falseBlock))
       (bindC (deref (getNthSucc G trueProj 0)) (\<lambda>trueBlock.
        seqC (assertC (is_Block G trueBlock))
          (if falseBlock = trueBlock then
             bindC (liftC (makeJump (getBlockLabel trueBlock) Rel_true)) (push pushJumpInstr bb)
           else
             bindC (liftC (makeJump (getBlockLabel trueBlock) relation)) (\<lambda>j1.
             seqC (push pushJumpInstr bb j1)
            (bindC (liftC (getInverseRelation relation)) (\<lambda>inv.
             bindC (liftC (makeJump (getBlockLabel falseBlock) inv)) (push pushJumpInstr bb)))))))))))))))))"

definition visitJmp :: "ir_graph \<Rightarrow> node \<Rightarrow> unit cgm" where
  "visitJmp G n = bindC (nodeBB G n) (\<lambda>bb.
     if bb = None then retC ()
     else bindC (deref (getNthSucc G n 0)) (\<lambda>target.
       seqC (assertC (is_Block G target))
         (bindC (liftC (makeJump (getBlockLabel target) Rel_true)) (push pushJumpInstr bb))))"

definition visitEnd :: "ir_graph \<Rightarrow> node \<Rightarrow> unit cgm" where
  "visitEnd G n = bindC (nodeBB G n) (\<lambda>bb. retC ())"

definition visitReturn :: "ir_graph \<Rightarrow> node \<Rightarrow> unit cgm" where
  "visitReturn G n = bindC (nodeBB G n) (\<lambda>bb.
     if bb = None then retC ()
     else bindC (deref (getNthSucc G n 0)) (\<lambda>succ.
       seqC (assertC (is_Block G succ))
      (seqC (case get_Return_ress G n of [] \<Rightarrow> retC () | x # _ \<Rightarrow> emit_from G bb M_Mov x rax)
            (bindC (liftC (makeJump (getBlockLabel succ) Rel_true)) (push pushJumpInstr bb)))))"

section \<open>Memory\<close>

text \<open>
  \<open>visitLoad\<close> takes the first successor that is not of mode M among the first two; a load without
  such a successor is skipped.
\<close>

definition visitLoad :: "ir_graph \<Rightarrow> node \<Rightarrow> unit cgm" where
  "visitLoad G n = bindC (nodeBB G n) (\<lambda>bb.
     if bb = None then retC ()
     else
       (let pred = get_Load_ptr G n in
        bindC (deref (getNthSucc G n 0)) (\<lambda>s0.
        case (if get_irn_mode G s0 = mode_M then getNthSucc G n 1 else Some s0) of
          None \<Rightarrow> retC ()
        | Some succ \<Rightarrow>
            seqC (assertC (get_irn_mode G succ \<noteq> mode_M))
           (bindC (regModeOf G pred) (\<lambda>predRegMode.
            bindC (regModeOf G succ) (\<lambda>succRegMode.
            bindC (getNodeOp G pred) (\<lambda>src.
            seqC (push pushInstr bb (makeMov predRegMode src (OP_REG RN_bx predRegMode) ''1) Load''))
           (seqC (push pushInstr bb (makeMov succRegMode (OP_IND RN_bx predRegMode 0) (OP_REG RN_cx succRegMode) ''2) Load''))
                 (emit_to G bb M_Movq rcx succ ''3) Load'')))))))))"

definition visitStore :: "ir_graph \<Rightarrow> node \<Rightarrow> unit cgm" where
  "visitStore G n = bindC (nodeBB G n) (\<lambda>bb.
     if bb = None then retC ()
     else
       (let source = get_Store_value G n; dest = get_Store_ptr G n in
        seqC (assertC (get_irn_mode G dest = mode_P))
       (bindC (regModeOf G dest) (\<lambda>destMode.
        bindC (getNodeOp G dest) (\<lambda>destOp.
        seqC (push pushInstr bb (makeMov destMode destOp rbx ''1) Store''))
       (bindC (getNodeOp G source) (\<lambda>sourceOp.
        bindC (if is_imm_op sourceOp then retC sourceOp
               else seqC (push pushInstr bb (makeMov destMode sourceOp (OP_REG RN_cx destMode) ''2) Store''))
                 (bindC (regModeOf G source) (\<lambda>m. retC (OP_REG RN_cx m)))) (\<lambda>tmpOp.
        bindC (regModeOf G source) (\<lambda>sourceMode.
        push pushInstr bb (makeMov sourceMode tmpOp (OP_IND RN_bx RM_R 0) ''3) Store''))))))))))"

section \<open>Phi nodes\<close>

definition r15 :: op where "r15 = OP_REG RN_r15 RM_R"

text \<open>The two operands of a phi node and the two control flow predecessors of its block.\<close>

definition phi_pred :: "ir_graph \<Rightarrow> node \<Rightarrow> nat \<Rightarrow> node cgm" where
  "phi_pred G n i = deref (if i < length (get_Phi_preds G n) then Some (get_Phi_preds G n ! i) else None)"

definition cfg_pred :: "ir_graph \<Rightarrow> node \<Rightarrow> nat \<Rightarrow> node cgm" where
  "cfg_pred G n i = (let cs = get_Block_cfgpreds G (get_nodes_block G n) in
     deref (if i < length cs then Some (cs ! i) else None))"

text \<open>One of the two cases of \<open>generateBoolPhi\<close>: the value of an operand into the slot of the phi node.\<close>

definition bool_case :: "ir_graph \<Rightarrow> nat option \<Rightarrow> node \<Rightarrow> node \<Rightarrow> string \<Rightarrow> unit cgm" where
  "bool_case G bb n pred c =
     bindC (getNodeOp G pred) (\<lambda>srcOp.
     bindC (if is_imm_op srcOp then retC srcOp
            else seqC (push pushStartPhiInstr bb (instr2 M_Movq srcOp r15 c)) (retC r15)) (\<lambda>x.
     bindC (getStackSlot G n) (\<lambda>off.
     push pushStartPhiInstr bb (instr2 M_Movq x (slotOp off) ''phi dst''))))"

definition generateBoolPhi :: "ir_graph \<Rightarrow> node \<Rightarrow> unit cgm" where
  "generateBoolPhi G n = bindC (nodeBB G n) (\<lambda>bb.
     bindC (phi_pred G n 0) (\<lambda>tp. bindC (cfg_pred G n 0) (\<lambda>tj.
     bindC (phi_pred G n 1) (\<lambda>fp. bindC (cfg_pred G n 1) (\<lambda>fj.
     seqC (assertC (is_Proj G tj))
    (seqC (assertC (is_Proj G fj))
    (bindC (if get_Proj_num G fj \<noteq> pn_Cond_false G then
              seqC (assertC (get_Proj_num G tj = pn_Cond_false G)) (retC (fp, fj, tp, tj))
            else retC (tp, tj, fp, fj)) (\<lambda>(truePred, trueProj, falsePred, falseProj).
     seqC (assertC (get_Proj_num G trueProj = pn_Cond_true G))
    (seqC (assertC (get_Proj_num G falseProj = pn_Cond_false G))
     (let condNode = get_Proj_pred G trueProj; selector = get_Cond_selector G condNode;
          relation = get_Cmp_relation G selector;
          falseLabel = ''false_'' @ nat_to_string n; phiLabel = ''phi_'' @ nat_to_string n in
      seqC (assertC (is_Cond G condNode))
     (seqC (assertC (is_Cmp G selector))
     (bindC (liftC (getInverseRelation relation)) (\<lambda>inv.
      bindC (liftC (makeJump falseLabel inv)) (\<lambda>j.
      seqC (push pushStartPhiInstr bb j)
     (seqC (bool_case G bb n truePred ''phi tmp 3'')
     (bindC (liftC (makeJump phiLabel Rel_true)) (\<lambda>j2.
      seqC (push pushStartPhiInstr bb j2)
     (seqC (push pushStartPhiInstr bb (instr1 M_Label (OP_STR falseLabel) []))
     (seqC (bool_case G bb n falsePred ''phi tmp 4'')
           (push pushStartPhiInstr bb (instr1 M_Label (OP_STR phiLabel) [])))))))))))))))))))))"

definition generateSwapPhi :: "ir_graph \<Rightarrow> node \<Rightarrow> unit cgm" where
  "generateSwapPhi G n = bindC (nodeBB G n) (\<lambda>bb.
     bindC (getNodeOp G n) (\<lambda>srcOp.
     seqC (push pushStartPhiInstr bb (instr2 M_Movq srcOp r15 []))
    (bindC (getTmpSlot G n) (\<lambda>tmp.
     seqC (push pushStartPhiInstr bb (instr2 M_Movq r15 (slotOp tmp) (''swap phi old val '' @ nodeStr G n)))
    (bindC (phi_pred G n 0) (\<lambda>p0. bindC (cfg_pred G n 0) (\<lambda>j0.
     bindC (phi_pred G n 1) (\<lambda>p1. bindC (cfg_pred G n 1) (\<lambda>j1.
     let (phiPred, phiProj, otherPred, otherProj) =
           (if \<not> is_Phi G p0 then (p1, j1, p0, j0) else (p0, j0, p1, j1)) in
     seqC (assertC (is_Phi G phiPred))
    (seqC (assertC (\<not> is_Phi G otherPred))
    (bindC (nodeBB G phiProj) (\<lambda>predBB.
     bindC (nodeBB G phiPred) (\<lambda>phiBB.
     seqC (assertC (phiBB = bb))
    (bindC (getTmpSlot G phiPred) (\<lambda>t.
     seqC (push pushPhiInstr predBB (instr2 M_Movq (slotOp t) r15 []))
    (bindC (getStackSlot G n) (\<lambda>off.
     seqC (push pushPhiInstr predBB (instr2 M_Movq r15 (slotOp off) []))
    (bindC (nodeBB G otherPred) (\<lambda>otherBB.
     seqC (assertC (otherBB \<noteq> bb))
    (bindC (getNodeOp G otherPred) (\<lambda>x.
     seqC (push pushPhiInstr otherBB (instr2 M_Movq x r15 ''phi tmp 2''))
    (bindC (getStackSlot G n) (\<lambda>off2.
     push pushPhiInstr otherBB (instr2 M_Movq r15 (slotOp off2) (nodeStr G n @ '' commit'')))))))))))))))))))))))))"

definition normal_pred :: "ir_graph \<Rightarrow> nat option \<Rightarrow> node \<Rightarrow> nat \<Rightarrow> unit cgm" where
  "normal_pred G bb n i =
     bindC (phi_pred G n i) (\<lambda>phiPred. bindC (cfg_pred G n i) (\<lambda>blockPredNode.
     bindC (nodeBB G blockPredNode) (\<lambda>predBB.
     seqC (assertC (predBB \<noteq> bb))
    (bindC (if is_Phi G phiPred then bindC (getTmpSlot G phiPred) (\<lambda>t. retC (slotOp t))
            else getNodeOp G phiPred) (\<lambda>srcOp.
     bindC (if is_imm_op srcOp then retC srcOp
            else seqC (push pushPhiInstr predBB (instr2 M_Movq srcOp r15
                   (''1) Normal '' @ nodeStr G n @ '' for pred '' @ nodeStr G phiPred))) (retC r15)) (\<lambda>x.
     bindC (getNodeOp G n) (\<lambda>dst.
     push pushPhiInstr predBB (instr2 M_Movq x dst
       (''2) Normal '' @ nodeStr G n @ '' for pred '' @ nodeStr G phiPred)))))))))"

definition generateNormalPhi :: "ir_graph \<Rightarrow> node \<Rightarrow> bool \<Rightarrow> unit cgm" where
  "generateNormalPhi G n writeInTmpSlot = bindC (nodeBB G n) (\<lambda>bb.
     seqC (assertC (length (get_Phi_preds G n) = 2))
    (seqC (if writeInTmpSlot then
             bindC (getNodeOp G n) (\<lambda>x.
             seqC (push pushStartPhiInstr bb (instr2 M_Movq x rbx (''1) Write in tmp slot of '' @ nodeStr G n)))
            (bindC (getTmpSlot G n) (\<lambda>t.
             push pushStartPhiInstr bb (instr2 M_Movq rbx (slotOp t) (''2) Write in tmp slot of '' @ nodeStr G n)))))
           else retC ())
    (seqC (normal_pred G bb n 0) (normal_pred G bb n 1))))"

definition is_swap :: "ir_graph \<Rightarrow> node \<Rightarrow> bool" where
  "is_swap G n = list_ex (\<lambda>pred. is_Phi G pred \<and> n \<in> set (get_Phi_preds G pred)
     \<and> get_nodes_block G n = get_nodes_block G pred) (get_Phi_preds G n)"

definition visitPhi :: "ir_graph \<Rightarrow> node \<Rightarrow> unit cgm" where
  "visitPhi G n =
     (if get_Phi_loop G n then retC ()
      else bindC (nodeBB G n) (\<lambda>bb.
        if bb = None then retC ()
        else
          (let writeInTmpSlot = list_ex (is_Phi G) (out_edges G n) in
           seqC (assertC (length (get_Phi_preds G n) = 2))
          (bindC (cfg_pred G n 0) (\<lambda>c0. bindC (cfg_pred G n 1) (\<lambda>c1.
           let needsLabels = (get_nodes_block G c0 = get_nodes_block G c1) in
           if is_swap G n then generateSwapPhi G n
           else if needsLabels then generateBoolPhi G n
           else generateNormalPhi G n writeInTmpSlot))))))"

section \<open>Functions\<close>

text \<open>
  \<open>AsmMethodPass::before\<close>: the slots of the parameters, above the saved base pointer and return
  address.  The number of a \<open>Proj\<close> node is unsigned, so the offset is computed modulo \<open>2^32\<close>.
\<close>

definition amp_before :: "ir_graph \<Rightarrow> unit cgm" where
  "amp_before G =
     seqC (assertC (irg_is_method G))
    (let argProj = get_irg_args G in
     seqC (assertC (is_Proj G argProj))
    (bindC (deref (getNthSucc G argProj 0)) (\<lambda>a.
     seqC (assertC (is_Anchor G a))
          (forC (drop 1 (out_edges G argProj)) (\<lambda>succ. setSlot succ (int_of_long (16 + int (get_Proj_num G succ) * 8)))))))"

text \<open>The constructor: the blocks in breadth-first order, \<open>k\<close> bounds the length of the queue's history.\<close>

fun enlist_blocks :: "nat \<Rightarrow> ir_graph \<Rightarrow> node list \<Rightarrow> asm_function \<Rightarrow> asm_function option" where
  "enlist_blocks k G [] f = Some f"
| "enlist_blocks 0 G (b # q) f = None"
| "enlist_blocks (Suc k) G (b # q) f =
     (if b \<in> set (map bb_node (orderedBasicBlocks f)) then enlist_blocks k G q f
      else enlist_blocks k G (q @ block_succs G b) (newBB b [] f))"

definition move_end_block :: "ir_graph \<Rightarrow> asm_function \<Rightarrow> asm_function" where
  "move_end_block G f =
     (case List.extract (\<lambda>b. bb_node b = get_irg_end_block G) (orderedBasicBlocks f) of
        None \<Rightarrow> f
      | Some (xs, b, ys) \<Rightarrow> f\<lparr>orderedBasicBlocks := xs @ ys @ [b]\<rparr>)"

definition newAsmMethodPass :: "nat \<Rightarrow> ir_graph \<Rightarrow> string \<Rightarrow> cg option" where
  "newAsmMethodPass k G name =
     map_option (\<lambda>f. \<lparr>currentOffset = 8, offsets = Map.empty, tmpSlots = Map.empty, func = move_end_block G f\<rparr>)
       (enlist_blocks k G [get_irg_start_block G] \<lparr>fnName = name, ARsize = 0, orderedBasicBlocks = []\<rparr>)"

text \<open>\<open>visitNode\<close>: nodes without a visit function of their own are only printed.\<close>

definition amp_visitNode :: "ir_graph \<Rightarrow> node \<Rightarrow> unit cgm" where
  "amp_visitNode G n =
     (case get_irn_opcode G n of
        iro_Conv \<Rightarrow> visitConv G n | iro_Call \<Rightarrow> visitCall G n | iro_Add \<Rightarrow> visitAdd G n
      | iro_Mul \<Rightarrow> visitMul G n | iro_Cond \<Rightarrow> visitCond G n | iro_Cmp \<Rightarrow> visitCmp G n
      | iro_Jmp \<Rightarrow> visitJmp G n | iro_Load \<Rightarrow> visitLoad G n | iro_Return \<Rightarrow> visitReturn G n
      | iro_End \<Rightarrow> visitEnd G n | iro_Store \<Rightarrow> visitStore G n | iro_Sub \<Rightarrow> visitSub G n
      | iro_Phi \<Rightarrow> visitPhi G n | iro_Mod \<Rightarrow> visitMod G n | iro_Div \<Rightarrow> visitDiv G n
      | iro_Minus \<Rightarrow> visitMinus G n | _ \<Rightarrow> retC ())"

definition amp_after :: "ir_graph \<Rightarrow> unit cgm" where
  "amp_after G = (\<lambda>s. let f = (func s)\<lparr>ARsize := currentOffset s\<rparr> in
     case orderedBasicBlocks f of
       [] \<Rightarrow> Inl BadAccess
     | b # _ \<Rightarrow> seqC (assertC (bb_node b = get_irg_start_block G)) (retC ()) (s\<lparr>func := f\<rparr>))"

definition amp_visitNodes :: "ir_graph \<Rightarrow> node list \<Rightarrow> unit cgm" where
  "amp_visitNodes G ns =
     (if list_ex (\<lambda>n. get_irn_opcode G n = iro_Invalid) ns then failC AsmInvalidNode
      else forC ns (amp_visitNode G))"

text \<open>
  \<open>AsmPass::visitMethod\<close>: no visit enqueues nodes, so the pass runs over the initial queue.  The
  walk that fills the queue calls \<open>initNode\<close>, which exits for a node with an invalid opcode.
\<close>

definition visitMethod :: "nat \<Rightarrow> ir_graph \<Rightarrow> (asm_error + asm_function) option" where
  "visitMethod k G =
     Option.bind (newAsmMethodPass k G (irg_ld_name G)) (\<lambda>s.
     Option.bind (initWorkQueue k G) (\<lambda>ns.
     Some (bindE (seqC (amp_before G) (seqC (amp_visitNodes G ns) (amp_after G)) s) (\<lambda>(_, s'). Inr (func s')))))"

fun asm_pass :: "nat \<Rightarrow> ir_graph list \<Rightarrow> (asm_error + asm_program) option" where
  "asm_pass k [] = Some (Inr [])"
| "asm_pass k (G # gs) =
     Option.bind (visitMethod k G) (\<lambda>r. case r of
       Inl e \<Rightarrow> Some (Inl e)
     | Inr f \<Rightarrow> map_option (\<lambda>rs. bindE rs (\<lambda>fs. Inr (f # fs))) (asm_pass k gs))"

end
