(* ===== verification/Asm_Pass_Props.thy ===== *)
theory Asm_Pass_Props
  imports Asm_Pass Asm_Peephole
begin

text \<open>
  Properties that all visit functions of the code generator share.  The locale \<open>cg_relation\<close> is the
  interface to the state: a relation between the states before and after that every access to the
  slots and every push of an instruction respects.  Its lemmas lift the relation to all visit
  functions.  The interpretations: the invariant of the stack slots, growth of the state, and a
  condition on the instructions of all blocks.
\<close>

lemma bindC_Inr: "bindC m f s = Inr (y, t) \<longleftrightarrow> (\<exists>x u. m s = Inr (x, u) \<and> f x u = Inr (y, t))"
  by (auto simp: bindC_def bindE_eq_Inr)

lemma seqC_Inr: "seqC m m' s = Inr (y, t) \<longleftrightarrow> (\<exists>x u. m s = Inr (x, u) \<and> m' u = Inr (y, t))"
  by (simp add: seqC_def bindC_Inr)

lemma retC_Inr [simp]: "retC x s = Inr (y, t) \<longleftrightarrow> y = x \<and> t = s"
  by (auto simp: retC_def)

lemma failC_Inr [simp]: "failC e s \<noteq> Inr r"
  by (simp add: failC_def)

lemma assertC_Inr [simp]: "assertC b s = Inr (y, t) \<longleftrightarrow> b \<and> t = s"
  by (simp add: assertC_def)

lemma liftC_Inr [simp]: "liftC r s = Inr (y, t) \<longleftrightarrow> r = Inr y \<and> t = s"
  by (auto simp: liftC_def bindE_eq_Inr)

lemma deref_Inr [simp]: "deref p s = Inr (y, t) \<longleftrightarrow> p = Some y \<and> t = s"
  by (auto simp: deref_def split: option.split)

lemma regModeOf_Inr [simp]: "regModeOf G n s = Inr (m, t) \<longleftrightarrow> getRegMode (get_irn_mode G n) = Inr m \<and> t = s"
  by (simp add: regModeOf_def)

lemma nodeBB_Inr: "nodeBB G n s = Inr (bb, t) \<Longrightarrow> t = s"
  by (auto simp: nodeBB_def Let_def seqC_Inr)

section \<open>Relations that the state accesses respect\<close>

text \<open>The methods that push an instruction to one of the lists of a block.\<close>

definition is_push :: "(instr \<Rightarrow> basic_block \<Rightarrow> basic_block) \<Rightarrow> bool" where
  "is_push p \<longleftrightarrow> p = pushInstr \<or> p = pushJumpInstr \<or> p = pushPhiInstr \<or> p = pushStartPhiInstr"

lemma is_push_intros [simp]: "is_push pushInstr" "is_push pushJumpInstr" "is_push pushPhiInstr" "is_push pushStartPhiInstr"
  by (simp_all add: is_push_def)

locale cg_relation =
  fixes R :: "cg \<Rightarrow> cg \<Rightarrow> bool" and G :: ir_graph
  assumes R_refl: "R s s"
    and R_trans: "R s t \<Longrightarrow> R t r \<Longrightarrow> R s r"
    and R_slot: "getStackSlot G n s = Inr (off, t) \<Longrightarrow> R s t"
    and R_tmp: "getTmpSlot G n s = Inr (off, t) \<Longrightarrow> R s t"
    and R_copy: "copySlot G a b s = Inr (u, t) \<Longrightarrow> R s t"
    and R_push: "is_push p \<Longrightarrow> wide_arith i \<Longrightarrow> push p bb i s = Inr (u, t) \<Longrightarrow> R s t"
begin

definition resp :: "'a cgm \<Rightarrow> bool" where
  "resp m \<longleftrightarrow> (\<forall>s x t. m s = Inr (x, t) \<longrightarrow> R s t)"

lemma respD: "resp m \<Longrightarrow> m s = Inr (x, t) \<Longrightarrow> R s t"
  unfolding resp_def by blast

lemma resp_pure [intro]:
  "resp (retC x)" "resp (failC e)" "resp (assertC b)" "resp (liftC r)" "resp (deref p)" "resp (regModeOf G n)"
  by (auto simp: resp_def intro: R_refl)

lemma resp_nodeBB [intro]: "resp (nodeBB G n)"
  unfolding resp_def using R_refl nodeBB_Inr by blast

lemma resp_bind [intro]: "resp m \<Longrightarrow> (\<And>x. resp (f x)) \<Longrightarrow> resp (bindC m f)"
proof -
  assume m: "resp m" and f: "\<And>x. resp (f x)"
  show ?thesis
    unfolding resp_def
  proof (intro allI impI)
    fix s y t assume "bindC m f s = Inr (y, t)"
    then obtain x u where "m s = Inr (x, u)" "f x u = Inr (y, t)" by (auto simp: bindC_Inr)
    then show "R s t" using respD [OF m] respD [OF f] R_trans by blast
  qed
qed

lemma resp_seq [intro]: "resp m \<Longrightarrow> resp m' \<Longrightarrow> resp (seqC m m')"
  unfolding seqC_def by blast

lemma resp_if [intro]: "(b \<Longrightarrow> resp m) \<Longrightarrow> (\<not> b \<Longrightarrow> resp m') \<Longrightarrow> resp (if b then m else m')"
  by simp

lemma resp_slots [intro]: "resp (getStackSlot G n)" "resp (getTmpSlot G n)" "resp (copySlot G a b)"
  unfolding resp_def using R_slot R_tmp R_copy by blast+

lemma resp_push [intro]: "is_push p \<Longrightarrow> wide_arith i \<Longrightarrow> resp (push p bb i)"
  unfolding resp_def using R_push by blast

lemma resp_getNodeOp [intro]: "resp (getNodeOp G n)"
  unfolding getNodeOp_def by blast

lemma resp_for: "(\<And>x. resp (f x)) \<Longrightarrow> resp (forC xs f)"
  by (induction xs) auto

lemma resp_jump [intro]:
  "(\<And>j. wide_arith j \<Longrightarrow> resp (f j)) \<Longrightarrow> resp (bindC (liftC (makeJump t rel)) f)"
proof -
  assume f: "\<And>j. wide_arith j \<Longrightarrow> resp (f j)"
  have "wide_arith j" if "makeJump t rel = Inr j" for j
    using that by (cases rel) (auto simp: makeJump_def wide_arith_def instr1_def)
  then show ?thesis using f unfolding resp_def by (auto simp: bindC_Inr)
qed

lemma wide_instrs [simp]:
  "m \<noteq> M_Add \<Longrightarrow> m \<noteq> M_Sub \<Longrightarrow> wide_arith (instr2 m a b c)"
  "op_mode b = RM_R \<Longrightarrow> wide_arith (instr2 m a b c)"
  "m \<noteq> M_Add \<Longrightarrow> m \<noteq> M_Sub \<Longrightarrow> wide_arith (instr1 m a c)"
  "m \<noteq> M_Add \<Longrightarrow> m \<noteq> M_Sub \<Longrightarrow> wide_arith (instr0 m)"
  "wide_arith (makeMov md a b c)"
  by (auto simp: wide_arith_def instr2_def instr1_def instr0_def makeMov_def)
     (cases md; simp)+

lemma mov_mnemonic_neq [simp]: "mov_mnemonic md \<noteq> M_Add" "mov_mnemonic md \<noteq> M_Sub"
  by (cases md; simp)+

lemma reg_modes [simp]: "op_mode rbx = RM_R" "op_mode rsp = RM_R"
  by (simp_all add: rbx_def rsp_def)

lemma resp_emit_from [intro]: "op_mode dst = RM_R \<or> m \<notin> {M_Add, M_Sub} \<Longrightarrow> resp (emit_from G bb m n dst)"
  unfolding emit_from_def by (intro resp_bind resp_push) auto

lemma resp_emit_to [intro]: "m \<notin> {M_Add, M_Sub} \<Longrightarrow> resp (emit_to G bb m src n c)"
  unfolding emit_to_def by (intro resp_bind resp_push) auto

lemma resp_emit_division [intro]: "resp (emit_division G bb n)"
  unfolding emit_division_def emit_extended_def by (intro resp_bind resp_seq resp_if resp_push) auto

lemma resp_arith: "resp (visitAdd G n)" "resp (visitSub G n)" "resp (visitMul G n)" "resp (visitMinus G n)"
  unfolding visitAdd_def visitSub_def visitMul_def visitMinus_def Let_def case_prod_beta
  by (intro resp_bind resp_seq resp_push resp_emit_from resp_emit_to; auto)+

lemma resp_division: "resp (visitDiv G n)" "resp (visitMod G n)"
  unfolding visitDiv_def visitMod_def by (intro resp_bind resp_seq; auto split: option.split)+

lemma resp_visitConv: "resp (visitConv G n)"
  unfolding visitConv_def Let_def by (intro resp_if) auto

lemma resp_emit_args [intro]: "resp (emit_args G bb ps off)"
  by (induction ps arbitrary: off) (auto intro!: resp_bind resp_seq resp_if resp_push)

lemma resp_emit_result [intro]: "resp (emit_result G bb n c)"
  unfolding emit_result_def by (auto split: option.split)

lemma resp_visitCall: "resp (visitCall G n)"
  unfolding visitCall_def Let_def
  by (intro resp_bind resp_seq resp_if resp_push; auto)

lemma resp_visitCmp: "resp (visitCmp G n)"
  unfolding visitCmp_def by (intro resp_bind resp_seq resp_if resp_push; auto)

lemma resp_visitCond: "resp (visitCond G n)"
  unfolding visitCond_def Let_def case_prod_beta
  by (intro resp_bind resp_jump resp_seq resp_if resp_push; auto)

lemma resp_flow: "resp (visitJmp G n)" "resp (visitEnd G n)" "resp (visitReturn G n)"
  unfolding visitJmp_def visitEnd_def visitReturn_def
  by (intro resp_bind resp_jump resp_seq resp_if resp_push; auto split: list.split)+

lemma resp_memory: "resp (visitLoad G n)" "resp (visitStore G n)"
  unfolding visitLoad_def visitStore_def Let_def
  by (intro resp_bind resp_seq resp_if resp_push; auto split: option.split)+

lemma resp_phi_pred [intro]: "resp (phi_pred G n i)" "resp (cfg_pred G n i)"
  unfolding phi_pred_def cfg_pred_def Let_def by blast+

lemma resp_bool_case [intro]: "resp (bool_case G bb n pred c)"
  unfolding bool_case_def by (intro resp_bind resp_seq resp_if resp_push; auto)

lemma resp_generateBoolPhi: "resp (generateBoolPhi G n)"
  unfolding generateBoolPhi_def Let_def case_prod_beta
  by (intro resp_bind resp_jump resp_seq resp_if resp_push; auto)

lemma resp_generateSwapPhi: "resp (generateSwapPhi G n)"
  unfolding generateSwapPhi_def Let_def case_prod_beta
  by (intro resp_bind resp_seq resp_if resp_push; auto)

lemma resp_normal_pred [intro]: "resp (normal_pred G bb n i)"
  unfolding normal_pred_def by (intro resp_bind resp_seq resp_if resp_push; auto)

lemma resp_generateNormalPhi: "resp (generateNormalPhi G n w)"
  unfolding generateNormalPhi_def by (intro resp_bind resp_seq resp_if resp_push; auto)

lemma resp_visitPhi: "resp (visitPhi G n)"
  unfolding visitPhi_def Let_def
  by (intro resp_bind resp_seq resp_if resp_generateBoolPhi resp_generateSwapPhi resp_generateNormalPhi; auto)

lemma resp_visitNode: "resp (amp_visitNode G n)"
  unfolding amp_visitNode_def
  by (auto split: opcode.split intro: resp_arith resp_division resp_visitConv resp_visitCall resp_visitCmp
      resp_visitCond resp_flow resp_memory resp_visitPhi)

lemma visitNode_R: "amp_visitNode G n s = Inr (u, t) \<Longrightarrow> R s t"
  using respD [OF resp_visitNode] by blast

lemma visitNodes_R: "forC ns (amp_visitNode G) s = Inr (u, t) \<Longrightarrow> R s t"
  by (rule respD [OF resp_for]) (rule resp_visitNode)

end

section \<open>The stack slots\<close>

text \<open>
  Slots are multiples of 8.  Those of parameters are at 16 and above, the others below 0 and within
  the frame; the temporary slots of phi nodes are distinct and not used by any other node.
\<close>

definition slot_ok :: "int \<Rightarrow> int \<Rightarrow> bool" where
  "slot_ok sz off \<longleftrightarrow> 8 dvd off \<and> - sz < off \<and> off < 2 ^ 31 \<and> (off < 0 \<or> 16 \<le> off)"

definition slot_inv :: "cg \<Rightarrow> bool" where
  "slot_inv s \<longleftrightarrow> 8 \<le> currentOffset s \<and> 8 dvd currentOffset s \<and> currentOffset s \<le> 2 ^ 31 - 1
     \<and> (\<forall>n off. offsets s n = Some off \<longrightarrow> slot_ok (currentOffset s) off)
     \<and> (\<forall>n off. tmpSlots s n = Some off \<longrightarrow> slot_ok (currentOffset s) off \<and> off < 0)
     \<and> (\<forall>n m off. tmpSlots s n = Some off \<longrightarrow> offsets s m \<noteq> Some off \<and> (m \<noteq> n \<longrightarrow> tmpSlots s m \<noteq> Some off))"

lemma slot_ok_mono: "slot_ok a off \<Longrightarrow> a \<le> b \<Longrightarrow> slot_ok b off"
  by (auto simp: slot_ok_def)

lemma newSlot_Inr:
  "newSlot s = Inr (off, t) \<longleftrightarrow> off = - currentOffset s \<and> t = s\<lparr>currentOffset := currentOffset s + 8\<rparr>
    \<and> currentOffset s + 8 \<le> 2 ^ 31 - 1"
  by (auto simp: newSlot_def)

lemma getStackSlot_cases:
  assumes "getStackSlot G n s = Inr (off, t)"
  obtains (old) "offsets s n = Some off" "t = s"
    | (new) "offsets s n = None" "off = - currentOffset s" "currentOffset s + 8 \<le> 2 ^ 31 - 1"
        "t = s\<lparr>currentOffset := currentOffset s + 8, offsets := (offsets s)(n \<mapsto> off)\<rparr>"
  using assms by (auto simp: getStackSlot_def seqC_Inr bindC_Inr newSlot_Inr split: option.splits)

lemma getTmpSlot_cases:
  assumes "getTmpSlot G n s = Inr (off, t)"
  obtains (old) "tmpSlots s n = Some off" "t = s"
    | (new) "tmpSlots s n = None" "off = - currentOffset s" "currentOffset s + 8 \<le> 2 ^ 31 - 1"
        "t = s\<lparr>currentOffset := currentOffset s + 8, tmpSlots := (tmpSlots s)(n \<mapsto> off)\<rparr>"
  using assms by (auto simp: getTmpSlot_def seqC_Inr bindC_Inr newSlot_Inr split: option.splits)

lemma slot_ok_new: "8 \<le> c \<Longrightarrow> 8 dvd c \<Longrightarrow> slot_ok (c + 8) (- c)" for c :: int
  by (auto simp: slot_ok_def)

lemma slot_inv_new:
  assumes "slot_inv s" "currentOffset s + 8 \<le> 2 ^ 31 - 1"
  shows "slot_inv (s\<lparr>currentOffset := currentOffset s + 8, offsets := (offsets s)(n \<mapsto> - currentOffset s)\<rparr>)"
    and "tmpSlots s n = None \<Longrightarrow>
      slot_inv (s\<lparr>currentOffset := currentOffset s + 8, tmpSlots := (tmpSlots s)(n \<mapsto> - currentOffset s)\<rparr>)"
proof -
  have c: "8 \<le> currentOffset s" "8 dvd currentOffset s" using assms(1) by (simp_all add: slot_inv_def)
  have old: "slot_ok (currentOffset s + 8) off \<and> off \<noteq> - currentOffset s" if "slot_ok (currentOffset s) off" for off
    using that slot_ok_mono [of "currentOffset s" off "currentOffset s + 8"] by (auto simp: slot_ok_def)
  have fresh: "tmpSlots s m \<noteq> Some (- currentOffset s)" "offsets s m \<noteq> Some (- currentOffset s)" for m
    using assms(1) old unfolding slot_inv_def by blast+
  note new = slot_ok_new [OF c]
  show "slot_inv (s\<lparr>currentOffset := currentOffset s + 8, offsets := (offsets s)(n \<mapsto> - currentOffset s)\<rparr>)"
    using assms c old new fresh unfolding slot_inv_def by (auto split: if_splits)
  show "slot_inv (s\<lparr>currentOffset := currentOffset s + 8, tmpSlots := (tmpSlots s)(n \<mapsto> - currentOffset s)\<rparr>)"
    if "tmpSlots s n = None"
    using assms c old new fresh unfolding slot_inv_def by (auto split: if_splits)
qed

lemma getStackSlot_inv: "getStackSlot G n s = Inr (off, t) \<Longrightarrow> slot_inv s \<Longrightarrow> slot_inv t \<and> offsets t n = Some off"
  by (erule getStackSlot_cases) (use slot_inv_new(1) in auto)

lemma getTmpSlot_inv: "getTmpSlot G n s = Inr (off, t) \<Longrightarrow> slot_inv s \<Longrightarrow> slot_inv t \<and> tmpSlots t n = Some off"
  by (erule getTmpSlot_cases) (use slot_inv_new(2) in auto)

lemma copySlot_Inr:
  assumes "copySlot G a b s = Inr (u, t)"
  obtains off r where "offsets s b = None" "(if hasSlot a s then off = the (offsets s a) \<and> r = s else getStackSlot G a s = Inr (off, r))"
    "t = r\<lparr>offsets := (offsets r)(b := (case offsets r b of None \<Rightarrow> Some off | Some x \<Rightarrow> Some x))\<rparr>"
  using assms by (auto simp: copySlot_def seqC_Inr bindC_Inr hasSlot_def split: if_splits)

lemma copySlot_inv:
  assumes "copySlot G a b s = Inr (u, t)" "slot_inv s"
  shows "slot_inv t"
  using assms(1)
proof (rule copySlot_Inr)
  fix off r
  assume r: "if hasSlot a s then off = the (offsets s a) \<and> r = s else getStackSlot G a s = Inr (off, r)"
    and t: "t = r\<lparr>offsets := (offsets r)(b := (case offsets r b of None \<Rightarrow> Some off | Some x \<Rightarrow> Some x))\<rparr>"
  have "slot_inv r \<and> offsets r a = Some off"
    using r assms(2) getStackSlot_inv by (auto simp: hasSlot_def split: if_splits)
  then show ?thesis unfolding t slot_inv_def by (auto split: option.splits if_splits)
qed

lemma push_slots: "push p bb i s = Inr (u, t) \<Longrightarrow> currentOffset t = currentOffset s \<and> offsets t = offsets s \<and> tmpSlots t = tmpSlots s"
  by (auto simp: push_def bindC_Inr)

interpretation slots: cg_relation "\<lambda>s t. slot_inv s \<longrightarrow> slot_inv t" G for G
proof unfold_locales
  fix p i bb and s t :: cg and u assume "push p bb i s = Inr (u, t)"
  from push_slots [OF this] show "slot_inv s \<longrightarrow> slot_inv t" by (simp add: slot_inv_def)
qed (use getStackSlot_inv getTmpSlot_inv copySlot_inv in \<open>blast+\<close>)

text \<open>Slots are never moved and the frame only grows.\<close>

definition grows :: "cg \<Rightarrow> cg \<Rightarrow> bool" where
  "grows s t \<longleftrightarrow> offsets s \<subseteq>\<^sub>m offsets t \<and> tmpSlots s \<subseteq>\<^sub>m tmpSlots t \<and> currentOffset s \<le> currentOffset t"

lemma grows_refl [simp]: "grows s s"
  by (simp add: grows_def)

lemma grows_trans: "grows s t \<Longrightarrow> grows t u \<Longrightarrow> grows s u"
  unfolding grows_def using map_le_trans order_trans by blast

lemma map_le_new: "m n = None \<Longrightarrow> m \<subseteq>\<^sub>m m(n \<mapsto> x)"
  by (auto simp: map_le_def)

lemma getStackSlot_grows: "getStackSlot G n s = Inr (off, t) \<Longrightarrow> grows s t"
  by (erule getStackSlot_cases) (auto simp: grows_def map_le_new)

lemma getTmpSlot_grows: "getTmpSlot G n s = Inr (off, t) \<Longrightarrow> grows s t"
  by (erule getTmpSlot_cases) (auto simp: grows_def map_le_new)

lemma copySlot_grows:
  assumes "copySlot G a b s = Inr (u, t)" shows "grows s t"
  using assms
proof (rule copySlot_Inr)
  fix off r
  assume r: "if hasSlot a s then off = the (offsets s a) \<and> r = s else getStackSlot G a s = Inr (off, r)"
    and t: "t = r\<lparr>offsets := (offsets r)(b := (case offsets r b of None \<Rightarrow> Some off | Some x \<Rightarrow> Some x))\<rparr>"
  have "grows s r" using r getStackSlot_grows by (auto split: if_splits)
  moreover have "grows r t" unfolding t grows_def by (auto simp: map_le_def split: option.splits)
  ultimately show ?thesis by (rule grows_trans)
qed

interpretation growth: cg_relation grows G for G
proof unfold_locales
  fix p i bb and s t :: cg and u assume "push p bb i s = Inr (u, t)"
  from push_slots [OF this] show "grows s t" by (simp add: grows_def)
qed (use getStackSlot_grows getTmpSlot_grows copySlot_grows grows_trans in \<open>auto\<close>)

section \<open>The blocks\<close>

definition block_instrs :: "basic_block \<Rightarrow> instr set" where
  "block_instrs b = set (startPhiInstrs b) \<union> set (instrs b) \<union> set (phiInstrs b) \<union> set (jumpInstrs b)"

definition wide_blocks :: "asm_function \<Rightarrow> bool" where
  "wide_blocks f \<longleftrightarrow> (\<forall>b \<in> set (orderedBasicBlocks f). (\<forall>i \<in> block_instrs b. wide_arith i) \<and> flattenedInstrs b = [])"

definition same_blocks :: "asm_function \<Rightarrow> asm_function \<Rightarrow> bool" where
  "same_blocks f g \<longleftrightarrow> fnName g = fnName f \<and> ARsize g = ARsize f
     \<and> map bb_node (orderedBasicBlocks g) = map bb_node (orderedBasicBlocks f) \<and> (wide_blocks f \<longrightarrow> wide_blocks g)"

lemma slot_func:
  "getStackSlot G n s = Inr (off, t) \<Longrightarrow> func t = func s"
  "getTmpSlot G n s = Inr (off, t) \<Longrightarrow> func t = func s"
  by (auto elim: getStackSlot_cases getTmpSlot_cases)

lemma copySlot_func: "copySlot G a b s = Inr (u, t) \<Longrightarrow> func t = func s"
  by (auto elim!: copySlot_Inr dest: slot_func split: if_splits)

lemma push_func:
  assumes "push p bb i s = Inr (u, t)"
  obtains k where "bb = Some k" "t = s\<lparr>func := update_bb k (p i) (func s)\<rparr>"
  using assms by (auto simp: push_def bindC_Inr)

lemma is_push_node: "is_push p \<Longrightarrow> bb_node (p i b) = bb_node b \<and> flattenedInstrs (p i b) = flattenedInstrs b
    \<and> block_instrs (p i b) = insert i (block_instrs b)"
  by (auto simp: is_push_def pushInstr_def pushJumpInstr_def pushPhiInstr_def pushStartPhiInstr_def block_instrs_def)

lemma update_bb_same:
  assumes "is_push p" "wide_arith i"
  shows "same_blocks f (update_bb k (p i) f)"
  using is_push_node [OF assms(1)] assms(2)
  by (auto simp: same_blocks_def update_bb_def wide_blocks_def intro!: map_cong)

interpretation blocks: cg_relation "\<lambda>s t. same_blocks (func s) (func t)" G for G
proof unfold_locales
  fix s t r :: cg
  show "same_blocks (func s) (func s)" by (simp add: same_blocks_def)
  show "same_blocks (func s) (func r)" if "same_blocks (func s) (func t)" "same_blocks (func t) (func r)"
    using that by (auto simp: same_blocks_def)
  show "same_blocks (func s) (func t)" if "is_push p" "wide_arith i" "push p bb i s = Inr (u, t)" for p i bb u
    using that(3) update_bb_same [OF that(1,2)] by (auto elim!: push_func)
qed (auto dest: slot_func copySlot_func simp: same_blocks_def)

end
