(* ===== verification/Asm_Pass_Fn.thy ===== *)
theory Asm_Pass_Fn
  imports Asm_Pass_Props "HOL-Library.Multiset"
begin

text \<open>Properties of the functions that the code generator produces from a graph.\<close>

section \<open>Enlisting the blocks\<close>

inductive block_reach :: "ir_graph \<Rightarrow> node \<Rightarrow> bool" for G where
  start: "block_reach G (get_irg_start_block G)"
| succ: "block_reach G b \<Longrightarrow> c \<in> set (block_succs G b) \<Longrightarrow> block_reach G c"

definition enlist_inv :: "ir_graph \<Rightarrow> node set \<Rightarrow> node set \<Rightarrow> bool" where
  "enlist_inv G q ns \<longleftrightarrow> q \<union> ns \<subseteq> {b. block_reach G b} \<and> get_irg_start_block G \<in> q \<union> ns
     \<and> (\<forall>b \<in> ns. set (block_succs G b) \<subseteq> q \<union> ns)"

lemma enlist_inv_done: "enlist_inv G {} ns \<Longrightarrow> ns = {b. block_reach G b}"
proof -
  assume inv: "enlist_inv G {} ns"
  have "b \<in> ns" if "block_reach G b" for b
    using that by induction (use inv in \<open>auto simp: enlist_inv_def\<close>)
  then show ?thesis using inv by (auto simp: enlist_inv_def)
qed

lemma enlist_inv_new:
  assumes "enlist_inv G (insert b q) ns"
  shows "enlist_inv G (q \<union> set (block_succs G b)) (insert b ns)"
proof -
  have "block_reach G b" using assms by (simp add: enlist_inv_def)
  then have "set (block_succs G b) \<subseteq> {c. block_reach G c}" by (auto intro: block_reach.succ)
  then show ?thesis using assms unfolding enlist_inv_def by blast
qed

definition nodes_of :: "asm_function \<Rightarrow> node list" where
  "nodes_of f = map bb_node (orderedBasicBlocks f)"

definition empty_blocks :: "asm_function \<Rightarrow> bool" where
  "empty_blocks f \<longleftrightarrow> (\<forall>b \<in> set (orderedBasicBlocks f). \<exists>n. b = newBasicBlock n [])"

lemma newBB_simps [simp]:
  "nodes_of (newBB b c f) = nodes_of f @ [b]" "fnName (newBB b c f) = fnName f" "ARsize (newBB b c f) = ARsize f"
  by (simp_all add: nodes_of_def newBB_def newBasicBlock_def)

lemma empty_blocks_newBB: "empty_blocks f \<Longrightarrow> empty_blocks (newBB b [] f)"
  by (auto simp: empty_blocks_def newBB_def)

lemma enlist_step:
  "enlist_blocks (Suc k) G (b # q) f = (if b \<in> set (nodes_of f) then enlist_blocks k G q f
     else enlist_blocks k G (q @ block_succs G b) (newBB b [] f))"
  by (simp add: nodes_of_def)

lemma enlist_blocks_inv:
  "enlist_blocks k G q f = Some g \<Longrightarrow> enlist_inv G (set q) (set (nodes_of f)) \<Longrightarrow> distinct (nodes_of f) \<Longrightarrow> empty_blocks f
    \<Longrightarrow> set (nodes_of g) = {b. block_reach G b} \<and> distinct (nodes_of g) \<and> empty_blocks g \<and> fnName g = fnName f"
proof (induction k G q f rule: enlist_blocks.induct)
  case (1 k G f)
  then show ?case using enlist_inv_done by simp
next
  case (3 k G b q f)
  show ?case
  proof (cases "b \<in> set (nodes_of f)")
    case True
    then have "enlist_inv G (set q) (set (nodes_of f))" using "3.prems"(2) by (simp add: enlist_inv_def insert_absorb)
    then show ?thesis using "3.IH"(1) "3.prems" True by (simp add: enlist_step nodes_of_def [symmetric] del: enlist_blocks.simps)
  next
    case False
    have "enlist_inv G (set (q @ block_succs G b)) (set (nodes_of (newBB b [] f)))"
      using enlist_inv_new "3.prems"(2) by simp
    moreover have "distinct (nodes_of (newBB b [] f))" using "3.prems"(3) False by simp
    moreover have "enlist_blocks k G (q @ block_succs G b) (newBB b [] f) = Some g"
      using "3.prems"(1) False by (simp only: enlist_step if_False)
    ultimately show ?thesis
      using "3.IH"(2) False empty_blocks_newBB [OF "3.prems"(4), of b] by (simp add: nodes_of_def)
  qed
qed simp

lemma move_end_block_props:
  "mset (nodes_of (move_end_block G f)) = mset (nodes_of f)"
  "set (orderedBasicBlocks (move_end_block G f)) = set (orderedBasicBlocks f)"
  "fnName (move_end_block G f) = fnName f" "ARsize (move_end_block G f) = ARsize f"
  "get_irg_end_block G \<in> set (nodes_of f) \<Longrightarrow> last (nodes_of (move_end_block G f)) = get_irg_end_block G"
  by (auto simp: move_end_block_def nodes_of_def extract_Some_iff extract_None_iff split: option.splits)

lemma newAsmMethodPass_inv:
  assumes "newAsmMethodPass k G name = Some s"
  shows "slot_inv s" "wide_blocks (func s)" "fnName (func s) = name" "distinct (nodes_of (func s))"
    "set (nodes_of (func s)) = {b. block_reach G b}"
    "block_reach G (get_irg_end_block G) \<Longrightarrow> last (nodes_of (func s)) = get_irg_end_block G"
proof -
  define f0 where "f0 = \<lparr>fnName = name, ARsize = 0, orderedBasicBlocks = []\<rparr>"
  obtain f where f: "enlist_blocks k G [get_irg_start_block G] f0 = Some f"
      and s: "s = \<lparr>currentOffset = 8, offsets = Map.empty, tmpSlots = Map.empty, func = move_end_block G f\<rparr>"
    using assms by (auto simp: newAsmMethodPass_def f0_def)
  have "enlist_inv G {get_irg_start_block G} {}" by (simp add: enlist_inv_def block_reach.start)
  then have inv: "set (nodes_of f) = {b. block_reach G b} \<and> distinct (nodes_of f) \<and> empty_blocks f \<and> fnName f = fnName f0"
    by (intro enlist_blocks_inv [OF f]) (simp_all add: f0_def nodes_of_def empty_blocks_def)
  note mv = move_end_block_props [of G f]
  show "slot_inv s" by (simp add: s slot_inv_def)
  show "wide_blocks (func s)"
    using inv mv(2) by (fastforce simp: s wide_blocks_def empty_blocks_def newBasicBlock_def block_instrs_def)
  show "fnName (func s) = name" using inv mv(3) by (simp add: s f0_def)
  show "distinct (nodes_of (func s))" using inv mset_eq_imp_distinct_iff [OF mv(1)] by (simp add: s)
  show "set (nodes_of (func s)) = {b. block_reach G b}" using inv mset_eq_setD [OF mv(1)] by (simp add: s)
  show "last (nodes_of (func s)) = get_irg_end_block G" if "block_reach G (get_irg_end_block G)"
    using that inv mv(5) by (simp add: s)
qed

section \<open>Parameters\<close>

lemma setSlot_Inr: "setSlot n off s = Inr (u, t) \<longleftrightarrow> offsets s n = None \<and> t = s\<lparr>offsets := (offsets s)(n \<mapsto> off)\<rparr>"
  by (auto simp: setSlot_def seqC_Inr hasSlot_def)

definition param_slot :: "ir_graph \<Rightarrow> node \<Rightarrow> int" where
  "param_slot G p = int_of_long (16 + int (get_Proj_num G p) * 8)"

text \<open>The parameters of a method, and the bound on their number.\<close>

definition params :: "ir_graph \<Rightarrow> node list" where
  "params G = drop 1 (out_edges G (get_irg_args G))"

definition params_ok :: "ir_graph \<Rightarrow> bool" where
  "params_ok G \<longleftrightarrow> list_all (\<lambda>p. get_Proj_num G p < 2 ^ 27) (params G)"

lemma param_slot_ok:
  assumes "get_Proj_num G p < 2 ^ 27" "8 \<le> c"
  shows "param_slot G p = 16 + int (get_Proj_num G p) * 8" "slot_ok c (param_slot G p)" "16 \<le> param_slot G p"
proof -
  have "0 \<le> 16 + int (get_Proj_num G p) * 8" "16 + int (get_Proj_num G p) * 8 < 2 ^ 31" using assms by auto
  then have "(16 + int (get_Proj_num G p) * 8 + 2 ^ 31) mod 2 ^ 32 = 16 + int (get_Proj_num G p) * 8 + 2 ^ 31"
    by (intro mod_pos_pos_trivial) auto
  then show s: "param_slot G p = 16 + int (get_Proj_num G p) * 8" by (simp add: param_slot_def int_of_long_def)
  then show "slot_ok c (param_slot G p)" "16 \<le> param_slot G p" using assms by (auto simp: slot_ok_def)
qed

lemma param_slots:
  "forC xs (\<lambda>p. setSlot p (param_slot G p)) s = Inr (u, t) \<Longrightarrow> slot_inv s \<Longrightarrow> \<forall>p \<in> set xs. get_Proj_num G p < 2 ^ 27 \<Longrightarrow>
     slot_inv t \<and> func t = func s \<and> (\<forall>p \<in> set xs. offsets t p = Some (param_slot G p)) \<and> offsets s \<subseteq>\<^sub>m offsets t"
proof (induction xs arbitrary: s)
  case (Cons p xs)
  let ?r = "s\<lparr>offsets := (offsets s)(p \<mapsto> param_slot G p)\<rparr>"
  have r: "offsets s p = None" "forC xs (\<lambda>p. setSlot p (param_slot G p)) ?r = Inr (u, t)"
    using Cons.prems(1) by (auto simp: seqC_Inr setSlot_Inr)
  have "slot_ok (currentOffset s) (param_slot G p)" "16 \<le> param_slot G p"
    using Cons.prems(2,3) by (auto simp: slot_inv_def intro!: param_slot_ok)
  moreover have "off < 0" if "tmpSlots s n = Some off" for n off using Cons.prems(2) that by (auto simp: slot_inv_def)
  ultimately have "slot_inv ?r" using Cons.prems(2) unfolding slot_inv_def by (auto split: if_splits) force+
  then have ih: "slot_inv t \<and> func t = func ?r \<and> (\<forall>p \<in> set xs. offsets t p = Some (param_slot G p))
      \<and> offsets ?r \<subseteq>\<^sub>m offsets t" by (rule Cons.IH [OF r(2)]) (use Cons.prems(3) in simp)
  then have le: "(offsets s)(p \<mapsto> param_slot G p) \<subseteq>\<^sub>m offsets t" by (simp del: fun_upd_apply)
  then have "offsets t p = Some (param_slot G p)" by (auto simp: map_le_def dom_def)
  moreover have "offsets s \<subseteq>\<^sub>m offsets t" by (rule map_le_trans [OF map_le_new [of "offsets s" p] le]) (rule r(1))
  ultimately show ?case using ih by simp
qed simp

lemma before_slots:
  assumes "amp_before G s = Inr (u, t)" "slot_inv s" "params_ok G"
  shows "slot_inv t" "func t = func s" "\<forall>p \<in> set (params G). offsets t p = Some (param_slot G p)"
proof -
  have "forC (params G) (\<lambda>p. setSlot p (param_slot G p)) s = Inr (u, t)"
    using assms(1) by (auto simp: amp_before_def Let_def seqC_Inr bindC_Inr params_def param_slot_def)
  from param_slots [OF this assms(2)] assms(3)
  show "slot_inv t" "func t = func s" "\<forall>p \<in> set (params G). offsets t p = Some (param_slot G p)"
    by (simp_all add: params_ok_def list_all_iff)
qed

section \<open>Functions\<close>

lemma visitMethodE:
  assumes "visitMethod k G = Some (Inr f)"
  obtains s0 s1 s2 ns where "newAsmMethodPass k G (irg_ld_name G) = Some s0" "initWorkQueue k G = Some ns"
    "amp_before G s0 = Inr ((), s1)" "forC ns (amp_visitNode G) s1 = Inr ((), s2)"
    "f = (func s2)\<lparr>ARsize := currentOffset s2\<rparr>" "nodes_of f \<noteq> []" "hd (nodes_of f) = get_irg_start_block G"
proof -
  obtain s0 ns r s where a: "newAsmMethodPass k G (irg_ld_name G) = Some s0" "initWorkQueue k G = Some ns"
      "seqC (amp_before G) (seqC (amp_visitNodes G ns) (amp_after G)) s0 = Inr (r, s)" "f = func s"
    using assms by (auto simp: visitMethod_def bindE_eq_Inr split: Option.bind_splits)
  then obtain s1 s2 where b: "amp_before G s0 = Inr ((), s1)" "forC ns (amp_visitNode G) s1 = Inr ((), s2)"
      "amp_after G s2 = Inr (r, s)"
    by (auto simp: seqC_Inr amp_visitNodes_def failC_def split: if_splits)
  have "f = (func s2)\<lparr>ARsize := currentOffset s2\<rparr>" "nodes_of f \<noteq> []" "hd (nodes_of f) = get_irg_start_block G"
    using b(3) a(4) by (auto simp: amp_after_def Let_def seqC_Inr nodes_of_def split: list.splits)
  with a b that show thesis by blast
qed

text \<open>
  C28: The code generator produces a function with exactly one block, and so one label, for every block of the graph that
  is reachable, the start block first and the end block last.  Its frame is a positive
  multiple of 8 bytes that fits 32 bits, and additions and subtractions have 64 bit targets,
  as the optimizers require.
\<close>

theorem generated_function:
  assumes "visitMethod k G = Some (Inr f)" "params_ok G"
  shows "fnName f = irg_ld_name G
    \<and> distinct (nodes_of f) \<and> set (nodes_of f) = {b. block_reach G b}
    \<and> hd (nodes_of f) = get_irg_start_block G
    \<and> (block_reach G (get_irg_end_block G) \<longrightarrow> last (nodes_of f) = get_irg_end_block G)
    \<and> 8 \<le> ARsize f \<and> 8 dvd ARsize f \<and> ARsize f < 2 ^ 31 \<and> wide_blocks f"
  using assms(1)
proof (rule visitMethodE)
  fix s0 s1 s2 ns
  assume r: "newAsmMethodPass k G (irg_ld_name G) = Some s0" "initWorkQueue k G = Some ns"
    "amp_before G s0 = Inr ((), s1)" "forC ns (amp_visitNode G) s1 = Inr ((), s2)"
    "f = (func s2)\<lparr>ARsize := currentOffset s2\<rparr>" "nodes_of f \<noteq> []" "hd (nodes_of f) = get_irg_start_block G"
  note i0 = newAsmMethodPass_inv [OF r(1)]
  note i1 = before_slots [OF r(3) i0(1) assms(2)]
  have i2: "slot_inv s2" using slots.visitNodes_R [OF r(4)] i1(1) by simp
  have b2: "same_blocks (func s0) (func s2)" using blocks.visitNodes_R [OF r(4)] i1(2) by simp
  have n: "nodes_of f = nodes_of (func s0)" using b2 by (simp add: r(5) same_blocks_def nodes_of_def)
  show ?thesis
    using i0 i2 b2 r(7) unfolding n by (auto simp: r(5) same_blocks_def slot_inv_def wide_blocks_def)
qed

end
