(* ===== verification/Asm_Pass_Sem.thy ===== *)
theory Asm_Pass_Sem
  imports Asm_Pass_Fn Asm_Jumps
begin

text \<open>
  The generated instructions compute what the nodes of the graph mean, in the semantics of
  \<open>Asm_Sem\<close>: the value of a node is its constant or the contents of its stack slot.
\<close>

section \<open>Values of nodes\<close>

definition node_op :: "ir_graph \<Rightarrow> cg \<Rightarrow> node \<Rightarrow> op option" where
  "node_op G s n =
     (if is_Const G n then Some (OP_IMM (int_of_long (get_tarval_long G n)))
      else if is_Conv G n \<and> is_Const G (get_op G n) then
        Some (OP_IMM (int_of_long (get_tarval_long G (get_op G n))))
      else map_option slotOp (offsets s n))"

definition slot_val :: "asm_state \<Rightarrow> int \<Rightarrow> 64 word" where
  "slot_val m off = read_mem 8 (regs m RN_bp + word_of_int off) (mem m)"

fun op_val :: "asm_state \<Rightarrow> op \<Rightarrow> 64 word" where
  "op_val m (OP_IMM v) = word_of_int v"
| "op_val m (OP_IND b md off) = read_mem 8 (regs m b + word_of_int off) (mem m)"
| "op_val m (OP_REG r md) = regs m r"
| "op_val m _ = 0"

definition node_val :: "ir_graph \<Rightarrow> cg \<Rightarrow> asm_state \<Rightarrow> node \<Rightarrow> 64 word option" where
  "node_val G s m n = map_option (op_val m) (node_op G s n)"

text \<open>The operands of nodes: constants and slots.\<close>

definition is_node_op :: "op \<Rightarrow> bool" where
  "is_node_op x \<longleftrightarrow> (\<exists>v. x = OP_IMM v) \<or> (\<exists>off. x = slotOp off)"

lemma node_op_shape: "node_op G s n = Some x \<Longrightarrow> is_node_op x"
  by (auto simp: node_op_def is_node_op_def split: if_splits)

lemma read_node_op: "is_node_op x \<Longrightarrow> read_op RM_R x m = Some (op_val m x)"
  by (auto simp: is_node_op_def slotOp_def addr_of_def)

lemma node_op_grows: "node_op G s n = Some x \<Longrightarrow> grows s t \<Longrightarrow> node_op G t n = Some x"
  by (auto simp: node_op_def grows_def map_le_def dom_def split: if_splits)

lemma getNodeOp_Inr:
  assumes "getNodeOp G n s = Inr (x, t)"
  shows "node_op G t n = Some x" "grows s t" "func t = func s"
proof -
  show "node_op G t n = Some x"
    using assms by (auto simp: getNodeOp_def node_op_def bindC_Inr elim!: getStackSlot_cases split: if_splits)
  show "grows s t" using growth.respD [OF growth.resp_getNodeOp assms] .
  show "func t = func s"
    using assms by (auto simp: getNodeOp_def bindC_Inr dest: slot_func split: if_splits)
qed

section \<open>Emitted code\<close>

definition append_instrs :: "instr list \<Rightarrow> basic_block \<Rightarrow> basic_block" where
  "append_instrs is b = b\<lparr>instrs := instrs b @ is\<rparr>"

lemma update_append: "update_bb k (append_instrs ys) (update_bb k (append_instrs xs) f) = update_bb k (append_instrs (xs @ ys)) f"
  by (simp add: update_bb_def append_instrs_def)

text \<open>A computation that appends code to a block.\<close>

definition emits :: "nat option \<Rightarrow> instr list \<Rightarrow> cg \<Rightarrow> cg \<Rightarrow> bool" where
  "emits bb code s t \<longleftrightarrow> grows s t \<and> (\<exists>k. bb = Some k \<and> func t = update_bb k (append_instrs code) (func s))"

lemma emits_trans: "emits bb xs s t \<Longrightarrow> emits bb ys t u \<Longrightarrow> emits bb (xs @ ys) s u"
  by (auto simp: emits_def update_append intro: grows_trans)

lemma push_emits: "push pushInstr bb i s = Inr (u, t) \<Longrightarrow> emits bb [i] s t"
proof (erule push_func)
  fix k assume "bb = Some k" "t = s\<lparr>func := update_bb k (pushInstr i) (func s)\<rparr>"
  then show ?thesis
    by (auto simp: emits_def grows_def pushInstr_def append_instrs_def update_bb_def)
qed

lemma emit_from_emits:
  assumes "emit_from G bb m n dst s = Inr (u, t)"
  obtains x where "node_op G t n = Some x" "emits bb [instr2 m x dst []] s t"
proof -
  obtain x r where x: "getNodeOp G n s = Inr (x, r)" "push pushInstr bb (instr2 m x dst []) r = Inr (u, t)"
    using assms by (auto simp: emit_from_def bindC_Inr)
  note g = getNodeOp_Inr [OF x(1)] and p = push_emits [OF x(2)]
  have "emits bb [instr2 m x dst []] s t" using p g by (auto simp: emits_def intro: grows_trans)
  moreover have "node_op G t n = Some x" using node_op_grows [OF g(1)] p by (auto simp: emits_def)
  ultimately show thesis by (rule that [rotated])
qed

lemma emit_to_emits:
  assumes "emit_to G bb m src n c s = Inr (u, t)"
  obtains x where "node_op G t n = Some x" "emits bb [instr2 m src x c] s t"
proof -
  obtain x r where x: "getNodeOp G n s = Inr (x, r)" "push pushInstr bb (instr2 m src x c) r = Inr (u, t)"
    using assms by (auto simp: emit_to_def bindC_Inr)
  note g = getNodeOp_Inr [OF x(1)] and p = push_emits [OF x(2)]
  have "emits bb [instr2 m src x c] s t" using p g by (auto simp: emits_def intro: grows_trans)
  moreover have "node_op G t n = Some x" using node_op_grows [OF g(1)] p by (auto simp: emits_def)
  ultimately show thesis by (rule that [rotated])
qed

section \<open>Slots do not overlap\<close>

lemma read_write_other:
  assumes "\<And>i. i < 8 \<Longrightarrow> 8 \<le> unat (b + word_of_nat i - a)"
  shows "read_mem 8 b (write_mem 8 a v m) = read_mem 8 b m"
proof (rule bit_word_eqI)
  fix k assume "k < LENGTH(64)"
  then have k: "k < 64" by simp
  then have "k div 8 < 8" by auto
  then have "\<not> unat (b + word_of_nat (k div 8) - a) < 8" using assms [of "k div 8"] by simp
  then show "bit (read_mem 8 b (write_mem 8 a v m)) k = bit (read_mem 8 b m) k"
    using k by (simp add: bit_read_mem write_mem_def)
qed

lemma slot_distance:
  fixes off off' :: int and p :: "64 word"
  assumes "8 dvd off" "8 dvd off'" "off \<noteq> off'" "- (2 ^ 62) < off' - off" "off' - off < 2 ^ 62" "i < 8"
  shows "8 \<le> unat (p + word_of_int off' + word_of_nat i - (p + word_of_int off))"
proof -
  define d where "d = off' - off"
  have d: "8 dvd d" "d \<noteq> 0" "- (2 ^ 62) < d" "d < 2 ^ 62" using assms by (auto simp: d_def)
  then have far: "d \<ge> 8 \<or> d \<le> - 8" by (auto elim!: dvdE)
  have "p + word_of_int off' + word_of_nat i - (p + word_of_int off) = word_of_int (d + int i)"
    by (simp add: d_def)
  moreover have u: "uint (word_of_int (d + int i) :: 64 word) = (d + int i) mod 2 ^ 64"
    by (subst uint_word_of_int) simp
  moreover have "8 \<le> (d + int i) mod 2 ^ 64"
  proof (cases "d \<ge> 8")
    case True
    then have "(d + int i) mod 2 ^ 64 = d + int i" using d assms(6) by (intro mod_pos_pos_trivial) auto
    then show ?thesis using True by linarith
  next
    case False
    then have "d \<le> - 8" using far by blast
    then have "(d + int i) mod 2 ^ 64 = d + int i + 2 ^ 64"
      using d assms(6) by (subst mod_add_self2 [symmetric], intro mod_pos_pos_trivial) auto
    then show ?thesis using d assms(6) by simp
  qed
  ultimately show ?thesis by (metis le_nat_iff nat_numeral nat_mono uint_ge_0 unat_eq_nat_uint)
qed

lemma slot_write_other:
  assumes "slot_ok sz off" "slot_ok sz off'" "off \<noteq> off'" "sz < 2 ^ 31"
  shows "read_mem 8 (p + word_of_int off') (write_mem 8 (p + word_of_int off) v m) = read_mem 8 (p + word_of_int off') m"
  by (rule read_write_other, rule slot_distance) (use assms in \<open>auto simp: slot_ok_def\<close>)

text \<open>A run stores a value in a slot and leaves the other slots and the stack and base pointers alone.\<close>

definition stores :: "cg \<Rightarrow> asm_state \<Rightarrow> asm_state \<Rightarrow> int \<Rightarrow> 64 word \<Rightarrow> bool" where
  "stores s m m' off v \<longleftrightarrow> slot_val m' off = v
     \<and> (\<forall>off'. slot_ok (currentOffset s) off' \<longrightarrow> off' \<noteq> off \<longrightarrow> slot_val m' off' = slot_val m off')
     \<and> regs m' RN_bp = regs m RN_bp \<and> regs m' RN_sp = regs m RN_sp"

lemma read_write_8: "read_mem 8 a (write_mem 8 a v m) = v"
  using read_write_mem [of 8 a v m] by simp

lemma storesI:
  assumes "slot_inv s" "offsets s n = Some off"
    and "regs m' RN_bp = regs m RN_bp" "regs m' RN_sp = regs m RN_sp"
    and "mem m' = write_mem 8 (regs m RN_bp + word_of_int off) v (mem m)"
  shows "stores s m m' off v"
proof -
  have "slot_ok (currentOffset s) off" "currentOffset s < 2 ^ 31" using assms(1,2) by (auto simp: slot_inv_def)
  then show ?thesis
    using assms(3-5) slot_write_other [of "currentOffset s" off] by (auto simp: stores_def slot_val_def read_write_8)
qed

section \<open>Arithmetic\<close>

lemma op_val_bx [simp]: "is_node_op x \<Longrightarrow> op_val (write_reg RM_R RN_bx v m) x = op_val m x"
  by (auto simp: is_node_op_def slotOp_def write_reg_def)

lemma instr2_simps [simp]:
  "ops0 (instr2 i a b c) = a" "ops1 (instr2 i a b c) = b" "nOps (instr2 i a b c) = 2" "mne (instr2 i a b c) = i"
  by (simp_all add: instr2_def)

lemma exec_load_node:
  assumes "is_node_op x" "mn = M_Mov \<or> mn = M_Movq"
  shows "exec_instr ext (instr2 mn x (OP_REG r RM_R) c) m = Some (write_reg RM_R r (op_val m x) m)"
  using assms by (auto simp: exec_mov isMov_def instr_width_def read_node_op)

lemma exec_store_node:
  assumes "mn = M_Mov \<or> mn = M_Movq"
  shows "exec_instr ext (instr2 mn (OP_REG r RM_R) (slotOp off) c) m =
    Some (m\<lparr>mem := write_mem 8 (regs m RN_bp + word_of_int off) (regs m r) (mem m)\<rparr>)"
  using assms by (auto simp: exec_mov isMov_def instr_width_def slotOp_def addr_of_def)

fun arith_word :: "mnemonic \<Rightarrow> 64 word \<Rightarrow> 64 word \<Rightarrow> 64 word" where
  "arith_word M_Add x y = x + y"
| "arith_word M_Sub x y = x - y"
| "arith_word M_IMul x y = x * y"
| "arith_word _ x y = 0"

lemma exec_arith_node:
  assumes "is_node_op x" "mn \<in> {M_Add, M_Sub, M_IMul}"
  shows "exec_instr ext (instr2 mn x rbx c) m =
    Some (write_reg RM_R RN_bx (arith_word mn (regs m RN_bx) (op_val m x)) (m\<lparr>flags := None\<rparr>))"
  using assms by (auto simp: exec_instr_def instr_width_def arith_def rbx_def read_node_op)

lemma exec_binop:
  assumes "is_node_op a" "is_node_op b" "mn \<in> {M_Add, M_Sub, M_IMul}"
  obtains m' where "exec_code ext [instr2 M_Mov a rbx c1, instr2 mn b rbx c2, instr2 M_Mov rbx (slotOp off) c3] m = Some m'"
    "regs m' = (regs m)(RN_bx := arith_word mn (op_val m a) (op_val m b))"
    "mem m' = write_mem 8 (regs m RN_bp + word_of_int off) (arith_word mn (op_val m a) (op_val m b)) (mem m)"
proof -
  let ?v = "arith_word mn (op_val m a) (op_val m b)"
  have x: "exec_instr ext (instr2 M_Mov a rbx c1) m = Some (write_reg RM_R RN_bx (op_val m a) m)" for m
    using exec_load_node [OF assms(1), of M_Mov ext RN_bx] by (simp add: rbx_def)
  have z: "exec_instr ext (instr2 M_Mov rbx (slotOp off) c3) m =
      Some (m\<lparr>mem := write_mem 8 (regs m RN_bp + word_of_int off) (regs m RN_bx) (mem m)\<rparr>)" for m
    using exec_store_node [of M_Mov ext RN_bx] by (simp add: rbx_def)
  define m1 where "m1 = write_reg RM_R RN_bx (op_val m a) m"
  define m2 where "m2 = write_reg RM_R RN_bx ?v (m1\<lparr>flags := None\<rparr>)"
  have m1: "regs m1 RN_bx = op_val m a" "op_val m1 b = op_val m b"
    using op_val_bx [OF assms(2)] by (simp_all add: m1_def write_reg_def)
  have "exec_code ext [instr2 M_Mov a rbx c1, instr2 mn b rbx c2, instr2 M_Mov rbx (slotOp off) c3] m =
      Some (m2\<lparr>mem := write_mem 8 (regs m2 RN_bp + word_of_int off) (regs m2 RN_bx) (mem m2)\<rparr>)"
    using exec_arith_node [OF assms(2,3), of ext c2 m1] m1 by (simp add: x z flip: m1_def m2_def)
  then show thesis
    by (rule that) (simp_all add: m2_def m1_def write_reg_def)
qed

text \<open>The mnemonic of an arithmetic node.\<close>

fun arith_mnemonic :: "opcode \<Rightarrow> mnemonic option" where
  "arith_mnemonic iro_Add = Some M_Add"
| "arith_mnemonic iro_Sub = Some M_Sub"
| "arith_mnemonic iro_Mul = Some M_IMul"
| "arith_mnemonic _ = None"

lemma emits3:
  assumes "seqC (emit_from G bb M_Mov a rbx) (seqC (emit_from G bb mn b rbx) (emit_to G bb M_Mov rbx n c)) s = Inr (u, t)"
  obtains x y z where "emits bb [instr2 M_Mov x rbx [], instr2 mn y rbx [], instr2 M_Mov rbx z c] s t"
    "node_op G t a = Some x" "node_op G t b = Some y" "node_op G t n = Some z"
proof -
  obtain s1 s2 where r: "emit_from G bb M_Mov a rbx s = Inr ((), s1)" "emit_from G bb mn b rbx s1 = Inr ((), s2)"
      "emit_to G bb M_Mov rbx n c s2 = Inr (u, t)"
    using assms by (auto simp: seqC_Inr)
  obtain x where x: "node_op G s1 a = Some x" "emits bb [instr2 M_Mov x rbx []] s s1" by (rule emit_from_emits [OF r(1)])
  obtain y where y: "node_op G s2 b = Some y" "emits bb [instr2 mn y rbx []] s1 s2" by (rule emit_from_emits [OF r(2)])
  obtain z where z: "node_op G t n = Some z" "emits bb [instr2 M_Mov rbx z c] s2 t" by (rule emit_to_emits [OF r(3)])
  have "emits bb [instr2 M_Mov x rbx [], instr2 mn y rbx [], instr2 M_Mov rbx z c] s t"
    using emits_trans [OF x(2) emits_trans [OF y(2) z(2)]] by simp
  moreover have "grows s1 t" "grows s2 t" using y(2) z(2) by (auto simp: emits_def intro: grows_trans)
  ultimately show thesis using x(1) y(1) z(1) node_op_grows by (intro that) blast+
qed

lemma node_op_slot:
  assumes "node_op G t n = Some z" "get_irn_opcode G n \<noteq> iro_Const" "get_irn_opcode G n \<noteq> iro_Conv"
  obtains off where "z = slotOp off" "offsets t n = Some off"
  using assms by (auto simp: node_op_def is_opcode_defs)

text \<open>
  C29: The instructions for an addition, subtraction or multiplication store in the slot of the node the result of the
  operation on the values of its operands, modulo \<open>2^64\<close>, and change no other slot.
\<close>

theorem arith_node_correct:
  assumes "slot_inv s" "amp_visitNode G n s = Inr (u, t)" "arith_mnemonic (get_irn_opcode G n) = Some mn"
  shows "\<exists>k code off. func t = update_bb k (append_instrs code) (func s) \<and> node_op G t n = Some (slotOp off)
    \<and> (\<forall>ext m. \<exists>x y m'. node_val G t m (get_left G n) = Some x \<and> node_val G t m (get_right G n) = Some y
        \<and> exec_code ext code m = Some m' \<and> stores t m m' off (arith_word mn x y))"
proof -
  have "\<exists>a b bb c. ((a = get_left G n \<and> b = get_right G n) \<or> (b = get_left G n \<and> a = get_right G n \<and> mn \<noteq> M_Sub))
      \<and> seqC (emit_from G bb M_Mov a rbx) (seqC (emit_from G bb mn b rbx) (emit_to G bb M_Mov rbx n c)) s = Inr (u, t)"
    using assms(2,3) nodeBB_Inr
    by (cases "get_irn_opcode G n")
      (fastforce simp: amp_visitNode_def visitAdd_def visitSub_def visitMul_def Let_def bindC_Inr split: if_splits)+
  then obtain a b bb c where ab: "(a = get_left G n \<and> b = get_right G n) \<or> (b = get_left G n \<and> a = get_right G n \<and> mn \<noteq> M_Sub)"
      and run: "seqC (emit_from G bb M_Mov a rbx) (seqC (emit_from G bb mn b rbx) (emit_to G bb M_Mov rbx n c)) s = Inr (u, t)"
    by blast
  obtain x y z where e: "emits bb [instr2 M_Mov x rbx [], instr2 mn y rbx [], instr2 M_Mov rbx z c] s t"
      and o: "node_op G t a = Some x" "node_op G t b = Some y" "node_op G t n = Some z"
    by (rule emits3 [OF run])
  have mn: "mn \<in> {M_Add, M_Sub, M_IMul}" using assms(3) by (cases "get_irn_opcode G n") auto
  have "get_irn_opcode G n \<noteq> iro_Const" "get_irn_opcode G n \<noteq> iro_Conv" using assms(3) by auto
  then obtain off where off: "z = slotOp off" "offsets t n = Some off" by (rule node_op_slot [OF o(3)])
  have inv: "slot_inv t" using slots.visitNode_R [OF assms(2)] assms(1) by blast
  have run': "\<exists>m'. exec_code ext [instr2 M_Mov x rbx [], instr2 mn y rbx [], instr2 M_Mov rbx z c] m = Some m'
      \<and> stores t m m' off (arith_word mn (op_val m x) (op_val m y))" for ext m
  proof (rule exec_binop [OF node_op_shape [OF o(1)] node_op_shape [OF o(2)] mn])
    fix m'
    assume "exec_code ext [instr2 M_Mov x rbx [], instr2 mn y rbx [], instr2 M_Mov rbx (slotOp off) c] m = Some m'"
      "regs m' = (regs m)(RN_bx := arith_word mn (op_val m x) (op_val m y))"
      "mem m' = write_mem 8 (regs m RN_bp + word_of_int off) (arith_word mn (op_val m x) (op_val m y)) (mem m)"
    then show ?thesis using storesI [OF inv off(2)] off(1) by auto
  qed
  have comm: "arith_word mn v w = arith_word mn w v" if "mn \<noteq> M_Sub" for v w
    using mn that by (auto simp: add.commute mult.commute)
  obtain k where "func t = update_bb k (append_instrs [instr2 M_Mov x rbx [], instr2 mn y rbx [], instr2 M_Mov rbx z c]) (func s)"
    using e by (auto simp: emits_def)
  moreover have "\<exists>x' y' m'. node_val G t m (get_left G n) = Some x' \<and> node_val G t m (get_right G n) = Some y'
      \<and> exec_code ext [instr2 M_Mov x rbx [], instr2 mn y rbx [], instr2 M_Mov rbx z c] m = Some m'
      \<and> stores t m m' off (arith_word mn x' y')" for ext m
    using ab run' [of ext m] o comm [of "op_val m x" "op_val m y"] by (auto simp: node_val_def)
  ultimately show ?thesis using o(3) off(1) by blast
qed

end
