(* ===== verification/Asm_Pass_Div.thy ===== *)
theory Asm_Pass_Div
  imports Asm_Pass_Sem
begin

text \<open>The instructions for divisions and remainders.\<close>

section \<open>Signed values\<close>

lemma sval_R: "- (2 ^ 63) \<le> k \<Longrightarrow> k < 2 ^ 63 \<Longrightarrow> sval RM_R (word_of_int k) = k"
  by (simp add: sval_def signed_take_bit_int_eq_self signed_take_bit_take_bit uint_word_of_int_eq)

lemma sval_E_range: "- (2 ^ 31) \<le> sval RM_E v" "sval RM_E v < 2 ^ 31"
  using signed_bounds [of RM_E v] by simp_all

lemma sval_trunc: "sval w (trunc w v) = sval w v"
  by (simp add: signed_eq_iff trunc_def)

text \<open>The dividend in \<open>rdx:rax\<close> after \<open>cqto\<close>.\<close>

lemma dividend:
  assumes "- (2 ^ 31) \<le> l" "l < 2 ^ 31"
  defines "a \<equiv> word_of_int l :: 64 word"
  shows "2 ^ 64 * sval RM_R (if bit a 63 then - 1 else 0) + uint a = l"
proof (cases "l < 0")
  case True
  have b: "bit a 63 \<longleftrightarrow> odd (l div 2 ^ 63)" unfolding a_def bit_word_of_int_iff bit_iff_odd [of l] by simp
  have "l div 2 ^ 63 = - 1" using True assms by (intro int_div_pos_eq [of _ _ _ "l + 2 ^ 63"]) auto
  then have "bit a 63" using b by simp
  have u: "uint a = l + 2 ^ 64"
  proof -
    have "uint a = l mod 2 ^ 64" unfolding a_def by (subst uint_word_of_int) simp
    also have "\<dots> = (l + 2 ^ 64) mod 2 ^ 64" by simp
    also have "\<dots> = l + 2 ^ 64" using assms True by (intro mod_pos_pos_trivial) auto
    finally show ?thesis .
  qed
  note \<open>bit a 63\<close>
  moreover have "sval RM_R (- 1) = - 1" using sval_R [of "- 1"] by simp
  ultimately show ?thesis using u by simp
next
  case False
  have "uint a = l mod 2 ^ 64" unfolding a_def by (subst uint_word_of_int) simp
  then have u: "uint a = l" using assms False by (simp add: mod_pos_pos_trivial)
  have "l div 2 ^ 63 = 0" using False assms by (intro div_pos_pos_trivial) auto
  then have "\<not> bit a 63" unfolding a_def bit_word_of_int_iff bit_iff_odd [of l] by simp
  moreover have "sval RM_R 0 = 0" using sval_R [of 0] by simp
  ultimately show ?thesis using u by simp
qed

lemma sdiv_range:
  fixes l r :: int
  assumes "- (2 ^ 31) \<le> l" "l < 2 ^ 31" "r \<noteq> 0"
  shows "- (2 ^ 63) \<le> l sdiv r" "l sdiv r < 2 ^ 63"
proof -
  have "\<bar>l sdiv r\<bar> \<le> \<bar>l\<bar>"
  proof -
    have "\<bar>l\<bar> div \<bar>r\<bar> \<le> \<bar>l\<bar>" using int_div_le_self [of "\<bar>l\<bar>" "\<bar>r\<bar>"] by (cases "l = 0") auto
    moreover have "0 \<le> \<bar>l\<bar> div \<bar>r\<bar>" by (simp add: pos_imp_zdiv_nonneg_iff div_int_pos_iff)
    ultimately have "\<bar>\<bar>l\<bar> div \<bar>r\<bar>\<bar> \<le> \<bar>l\<bar>" by simp
    then show ?thesis by (auto simp: signed_divide_int_def abs_mult sgn_if)
  qed
  then show "- (2 ^ 63) \<le> l sdiv r" "l sdiv r < 2 ^ 63" using assms by auto
qed

section \<open>Code\<close>

lemma read_mem_4: "read_mem 4 a m = take_bit 32 (read_mem 8 a m)"
  by (rule bit_word_eqI) (auto simp: bit_read_mem bit_take_bit_iff)

definition extend_code :: "op \<Rightarrow> reg_name \<Rightarrow> instr list" where
  "extend_code x r =
     (if is_imm_op x then [instr2 M_Mov x (OP_REG r RM_R) [], instr2 M_Movslq (OP_REG r RM_E) (OP_REG r RM_R) []]
      else [instr2 M_Movslq x (OP_REG r RM_R) []])"

lemma emit_extended_emits: "emit_extended bb x r s = Inr (u, t) \<Longrightarrow> emits bb (extend_code x r) s t"
  using push_emits emits_trans [of bb "[i]" s _ "[j]" t for i j]
  by (fastforce simp: emit_extended_def extend_code_def seqC_Inr split: if_splits)

lemma exec_movslq_reg:
  "exec_instr ext (instr2 M_Movslq (OP_REG r RM_E) (OP_REG r RM_R) c) m
     = Some (write_reg RM_R r (word_of_int (sval RM_E (regs m r))) m)"
  by (simp add: exec_instr_def sval_trunc)

lemma exec_movslq_slot:
  "exec_instr ext (instr2 M_Movslq (slotOp off) (OP_REG r RM_R) c) m
     = Some (write_reg RM_R r (word_of_int (sval RM_E (op_val m (slotOp off)))) m)"
proof -
  have "sval RM_E (read_mem 4 a (mem m)) = sval RM_E (read_mem 8 a (mem m))" for a
    using sval_trunc [of RM_E "read_mem 8 a (mem m)"] by (simp add: read_mem_4 trunc_def)
  then show ?thesis by (simp add: exec_instr_def slotOp_def addr_of_def)
qed

lemma exec_extend:
  assumes "is_node_op x"
  shows "exec_code ext (extend_code x r) m = Some (write_reg RM_R r (word_of_int (sval RM_E (op_val m x))) m)"
  using assms
  by (auto simp: is_node_op_def extend_code_def exec_load_node [unfolded is_node_op_def] exec_movslq_reg
      write_reg_def exec_movslq_slot simp: slotOp_def [symmetric])

lemma exec_idiv:
  assumes "regs m RN_ax = word_of_int l" "regs m RN_cx = word_of_int r" "r \<noteq> 0"
    and l: "- (2 ^ 31) \<le> l" "l < 2 ^ 31" and r: "- (2 ^ 31) \<le> r" "r < 2 ^ 31"
  shows "exec_code ext [instr0 M_Cqto, instr1 M_Div rcx []] m = Some (m\<lparr>flags := None,
    regs := (regs m)(RN_ax := word_of_int (l sdiv r), RN_dx := word_of_int (l smod r))\<rparr>)"
proof -
  define d :: "64 word" where "d = (if bit (word_of_int l :: 64 word) 63 then - 1 else 0)"
  have x: "2 ^ 64 * sval RM_R d + uint (word_of_int l :: 64 word) = l" unfolding d_def by (rule dividend [OF l])
  have y: "sval RM_R (word_of_int r) = r" using r by (intro sval_R) auto
  have cqto: "exec_instr ext (instr0 M_Cqto) m = Some (write_reg RM_R RN_dx d m)"
    using assms(1) by (simp add: exec_instr_def instr0_def d_def)
  have "exec_instr ext (instr1 M_Div rcx []) (write_reg RM_R RN_dx d m) = Some (m\<lparr>flags := None,
      regs := (regs m)(RN_ax := word_of_int (l sdiv r), RN_dx := word_of_int (l smod r))\<rparr>)"
    using assms(1-3) x y sdiv_range [OF l assms(3)]
    by (simp add: exec_instr_def instr1_def rcx_def write_reg_def Let_def fun_upd_twist)
  then show ?thesis using cqto by simp
qed

text \<open>The code of a division: the operands as 32 bit values, extended to 64 bits.\<close>

definition division_code :: "op \<Rightarrow> op \<Rightarrow> instr list" where
  "division_code x y = extend_code x RN_ax @ extend_code y RN_cx @ [instr0 M_Cqto, instr1 M_Div rcx []]"

lemma op_val_regs: "is_node_op x \<Longrightarrow> r \<noteq> RN_bp \<Longrightarrow> op_val (write_reg RM_R r v m) x = op_val m x"
  by (auto simp: is_node_op_def slotOp_def write_reg_def)

lemma exec_division:
  assumes "is_node_op x" "is_node_op y"
  defines "l \<equiv> \<lambda>m. sval RM_E (op_val m x)" and "r \<equiv> \<lambda>m. sval RM_E (op_val m y)"
  assumes "r m \<noteq> 0"
  obtains m' where "exec_code ext (division_code x y) m = Some m'" "mem m' = mem m"
    "regs m' RN_ax = word_of_int (l m sdiv r m)" "regs m' RN_dx = word_of_int (l m smod r m)"
    "regs m' RN_bp = regs m RN_bp" "regs m' RN_sp = regs m RN_sp"
proof -
  define m1 where "m1 = write_reg RM_R RN_ax (word_of_int (l m)) m"
  define m2 where "m2 = write_reg RM_R RN_cx (word_of_int (r m)) m1"
  have 1: "exec_code ext (extend_code x RN_ax) m = Some m1"
    using exec_extend [OF assms(1)] by (simp add: m1_def l_def)
  have 2: "exec_code ext (extend_code y RN_cx) m1 = Some m2"
    using exec_extend [OF assms(2), of ext RN_cx m1] op_val_regs [OF assms(2), of RN_ax]
    by (simp add: m2_def r_def m1_def)
  have "regs m2 RN_ax = word_of_int (l m)" "regs m2 RN_cx = word_of_int (r m)"
    by (simp_all add: m1_def m2_def write_reg_def)
  from exec_idiv [OF this assms(5)] sval_E_range
  have "exec_code ext [instr0 M_Cqto, instr1 M_Div rcx []] m2 = Some (m2\<lparr>flags := None,
      regs := (regs m2)(RN_ax := word_of_int (l m sdiv r m), RN_dx := word_of_int (l m smod r m))\<rparr>)"
    unfolding l_def r_def by blast
  then have "exec_code ext (division_code x y) m = Some (m2\<lparr>flags := None,
      regs := (regs m2)(RN_ax := word_of_int (l m sdiv r m), RN_dx := word_of_int (l m smod r m))\<rparr>)"
    unfolding division_code_def exec_code_append by (simp add: 1 2 del: exec_code.simps)
  then show thesis by (rule that) (simp_all add: m1_def m2_def write_reg_def)
qed

lemma emit_division_emits:
  assumes "emit_division G bb n s = Inr (u, t)"
  obtains x y where "node_op G t (get_left G n) = Some x" "node_op G t (get_right G n) = Some y"
    "emits bb (division_code x y) s t"
proof -
  obtain x y s1 s2 s3 s4 s5 where r: "getNodeOp G (get_left G n) s = Inr (x, s1)" "getNodeOp G (get_right G n) s1 = Inr (y, s2)"
      "emit_extended bb x RN_ax s2 = Inr ((), s3)" "emit_extended bb y RN_cx s3 = Inr ((), s4)"
      "push pushInstr bb (instr0 M_Cqto) s4 = Inr ((), s5)" "push pushInstr bb (instr1 M_Div rcx []) s5 = Inr (u, t)"
    using assms by (auto simp: emit_division_def seqC_Inr bindC_Inr)
  note g = getNodeOp_Inr [OF r(1)] getNodeOp_Inr [OF r(2)]
  have e: "emits bb (division_code x y) s2 t"
    unfolding division_code_def
    using emits_trans [OF emit_extended_emits [OF r(3)] emits_trans [OF emit_extended_emits [OF r(4)]
        emits_trans [OF push_emits [OF r(5)] push_emits [OF r(6)]]]] by simp
  then have "grows s2 t" by (simp add: emits_def)
  then have "node_op G t (get_left G n) = Some x" "node_op G t (get_right G n) = Some y"
    using g node_op_grows grows_trans by blast+
  moreover have "emits bb (division_code x y) s t" using e g by (auto simp: emits_def intro: grows_trans)
  ultimately show thesis by (rule that)
qed

fun division_result :: "opcode \<Rightarrow> int \<Rightarrow> int \<Rightarrow> int" where
  "division_result iro_Div l r = l sdiv r"
| "division_result iro_Mod l r = l smod r"
| "division_result _ l r = 0"

text \<open>
  C30: The instructions for a division or remainder store in the slot of its result the quotient or the
  remainder of the low 32 bits of the operands as signed numbers, rounded towards zero as in Java.
  They run to their end for every divisor but zero, also for the smallest number and \<open>-1\<close>.
\<close>

theorem division_node_correct:
  assumes "slot_inv s" "amp_visitNode G n s = Inr (u, t)" "get_irn_opcode G n = iro_Div \<or> get_irn_opcode G n = iro_Mod"
    and "get_irn_mode G n = mode_T" "getSucc G n iro_Proj mode_Ls = Some p"
  shows "\<exists>k code off. func t = update_bb k (append_instrs code) (func s) \<and> node_op G t p = Some (slotOp off)
    \<and> (\<forall>ext m. \<exists>x y. node_val G t m (get_left G n) = Some x \<and> node_val G t m (get_right G n) = Some y
        \<and> (sval RM_E y \<noteq> 0 \<longrightarrow> (\<exists>m'. exec_code ext code m = Some m' \<and>
             stores t m m' off (word_of_int (division_result (get_irn_opcode G n) (sval RM_E x) (sval RM_E y))))))"
proof -
  define rg where "rg = (if get_irn_opcode G n = iro_Div then RN_ax else RN_dx)"
  have "\<exists>bb s1. emit_division G bb n s = Inr ((), s1) \<and> emit_to G bb M_Movq (OP_REG rg RM_R) p [] s1 = Inr (u, t)"
    using assms(2-5)
    by (auto simp: amp_visitNode_def visitDiv_def visitMod_def rg_def bindC_Inr seqC_Inr dest!: nodeBB_Inr) blast+
  then obtain bb s1 where r: "emit_division G bb n s = Inr ((), s1)" "emit_to G bb M_Movq (OP_REG rg RM_R) p [] s1 = Inr (u, t)"
    by blast
  obtain x y where xy: "node_op G s1 (get_left G n) = Some x" "node_op G s1 (get_right G n) = Some y"
      "emits bb (division_code x y) s s1"
    by (rule emit_division_emits [OF r(1)])
  obtain z where z: "node_op G t p = Some z" "emits bb [instr2 M_Movq (OP_REG rg RM_R) z []] s1 t"
    by (rule emit_to_emits [OF r(2)])
  have "get_irn_opcode G p = iro_Proj" using assms(5) by (auto simp: getSucc_def find_Some_iff)
  then obtain off where off: "z = slotOp off" "offsets t p = Some off" using node_op_slot [OF z(1)] by auto
  have inv: "slot_inv t" using slots.visitNode_R [OF assms(2)] assms(1) by blast
  have "grows s1 t" using z(2) by (simp add: emits_def)
  then have o: "node_op G t (get_left G n) = Some x" "node_op G t (get_right G n) = Some y"
    using xy node_op_grows by blast+
  define code where "code = division_code x y @ [instr2 M_Movq (OP_REG rg RM_R) (slotOp off) []]"
  have run: "\<exists>m'. exec_code ext code m = Some m' \<and>
      stores t m m' off (word_of_int (division_result (get_irn_opcode G n) (sval RM_E (op_val m x)) (sval RM_E (op_val m y))))"
    if "sval RM_E (op_val m y) \<noteq> 0" for ext m
  proof (rule exec_division [OF node_op_shape [OF xy(1)] node_op_shape [OF xy(2)] that])
    fix m1
    assume m1: "exec_code ext (division_code x y) m = Some m1" "mem m1 = mem m"
      "regs m1 RN_ax = word_of_int (sval RM_E (op_val m x) sdiv sval RM_E (op_val m y))"
      "regs m1 RN_dx = word_of_int (sval RM_E (op_val m x) smod sval RM_E (op_val m y))"
      "regs m1 RN_bp = regs m RN_bp" "regs m1 RN_sp = regs m RN_sp"
    let ?v = "word_of_int (division_result (get_irn_opcode G n) (sval RM_E (op_val m x)) (sval RM_E (op_val m y)))"
    let ?m' = "m1\<lparr>mem := write_mem 8 (regs m1 RN_bp + word_of_int off) (regs m1 rg) (mem m1)\<rparr>"
    have "regs m1 rg = ?v" using m1(3,4) assms(3) by (auto simp: rg_def)
    then have "stores t m ?m' off ?v" using m1 by (intro storesI [OF inv off(2)]) simp_all
    moreover have "exec_code ext code m = Some ?m'"
      using m1(1) by (simp add: code_def exec_code_append exec_store_node)
    ultimately show ?thesis by blast
  qed
  obtain k where "func t = update_bb k (append_instrs code) (func s)"
    using emits_trans [OF xy(3) z(2)] off(1) by (auto simp: emits_def code_def)
  moreover have "\<exists>x' y'. node_val G t m (get_left G n) = Some x' \<and> node_val G t m (get_right G n) = Some y'
        \<and> (sval RM_E y' \<noteq> 0 \<longrightarrow> (\<exists>m'. exec_code ext code m = Some m' \<and>
             stores t m m' off (word_of_int (division_result (get_irn_opcode G n) (sval RM_E x') (sval RM_E y')))))" for ext m
    using run o by (auto simp: node_val_def)
  ultimately show ?thesis using z(1) off(1) by blast
qed

end
