(* ===== verification/Asm_Pass_Branch.thy ===== *)
theory Asm_Pass_Branch
  imports Asm_Pass_Div
begin

text \<open>The instructions for comparisons and branches, and for loads and stores.\<close>

section \<open>Operands of all sizes\<close>

lemma read_mem_part: "n \<le> 8 \<Longrightarrow> read_mem n a m = take_bit (8 * n) (read_mem 8 a m)"
  by (rule bit_word_eqI) (auto simp: bit_read_mem bit_take_bit_iff simp del: read_mem.simps)

lemma read_mem_bits8: "read_mem (bits w div 8) a m = trunc w (read_mem 8 a m)"
proof -
  have "bits w div 8 \<le> 8" "8 * (bits w div 8) = bits w" by (cases w; simp)+
  then show ?thesis using read_mem_part [of "bits w div 8" a m] by (simp only: trunc_def)
qed

lemma read_node_op_w: "is_node_op x \<Longrightarrow> read_op w x m = Some (trunc w (op_val m x))"
  by (auto simp: is_node_op_def slotOp_def addr_of_def read_mem_bits8)

lemma trunc_trunc [simp]: "trunc w (trunc w v) = trunc w v"
  by (simp add: trunc_def)

lemma trunc_written: "trunc w (regs (write_reg w r v m) r) = trunc w v"
  by (cases w) (auto simp: write_reg_def trunc_def bit_eq_iff bit_simps)

section \<open>Branches\<close>

definition append_jumps :: "instr list \<Rightarrow> basic_block \<Rightarrow> basic_block" where
  "append_jumps is b = b\<lparr>jumpInstrs := jumpInstrs b @ is\<rparr>"

definition emits_jumps :: "nat option \<Rightarrow> instr list \<Rightarrow> cg \<Rightarrow> cg \<Rightarrow> bool" where
  "emits_jumps bb code s t \<longleftrightarrow> grows s t \<and> (\<exists>k. bb = Some k \<and> func t = update_bb k (append_jumps code) (func s))"

lemma emits_jumps_trans: "emits_jumps bb xs s t \<Longrightarrow> emits_jumps bb ys t u \<Longrightarrow> emits_jumps bb (xs @ ys) s u"
  by (auto simp: emits_jumps_def update_bb_def append_jumps_def intro: grows_trans)

lemma push_emits_jumps: "push pushJumpInstr bb i s = Inr (u, t) \<Longrightarrow> emits_jumps bb [i] s t"
proof (erule push_func)
  fix k assume "bb = Some k" "t = s\<lparr>func := update_bb k (pushJumpInstr i) (func s)\<rparr>"
  then show ?thesis by (auto simp: emits_jumps_def grows_def pushJumpInstr_def append_jumps_def update_bb_def)
qed

definition cmp_code :: "reg_mode \<Rightarrow> op \<Rightarrow> op \<Rightarrow> string \<Rightarrow> instr list" where
  "cmp_code w x y c = [makeMov w x (OP_REG RN_bx w) [], instr2 M_Cmp y (OP_REG RN_bx w) c]"

lemma visitCmp_emits:
  assumes "visitCmp G n s = Inr (u, t)" "nodeBB G n s = Inr (bb, s)" "bb \<noteq> None"
  obtains w x y where "getRegMode (get_irn_mode G (get_left G n)) = Inr w" "node_op G t (get_left G n) = Some x"
    "node_op G t (get_right G n) = Some y" "emits_jumps bb (cmp_code w x y (nodeStr G n)) s t"
proof -
  obtain w x y s1 s2 s3 where r: "getRegMode (get_irn_mode G (get_left G n)) = Inr w"
      "getNodeOp G (get_left G n) s = Inr (x, s1)" "push pushJumpInstr bb (makeMov w x (OP_REG RN_bx w) []) s1 = Inr ((), s2)"
      "getNodeOp G (get_right G n) s2 = Inr (y, s3)" "push pushJumpInstr bb (instr2 M_Cmp y (OP_REG RN_bx w) (nodeStr G n)) s3 = Inr (u, t)"
    using assms by (auto simp: visitCmp_def bindC_Inr seqC_Inr)
  note g = getNodeOp_Inr [OF r(2)] getNodeOp_Inr [OF r(4)] and p = push_emits_jumps [OF r(3)] push_emits_jumps [OF r(5)]
  have a: "emits_jumps bb [makeMov w x (OP_REG RN_bx w) []] s s2" using p(1) g(2,3) by (auto simp: emits_jumps_def intro: grows_trans)
  have b: "emits_jumps bb [instr2 M_Cmp y (OP_REG RN_bx w) (nodeStr G n)] s2 t" using p(2) g(5,6) by (auto simp: emits_jumps_def intro: grows_trans)
  have "grows s1 t" "grows s3 t" using p g b by (auto simp: emits_jumps_def intro: grows_trans)
  then have "node_op G t (get_left G n) = Some x" "node_op G t (get_right G n) = Some y"
    using g(1,4) node_op_grows by blast+
  with r(1) emits_jumps_trans [OF a b] show thesis by (intro that) (simp_all add: cmp_code_def)
qed

text \<open>The target blocks of a conditional jump: the first successors of its two projections.\<close>

definition cond_target :: "ir_graph \<Rightarrow> node \<Rightarrow> nat \<Rightarrow> node option" where
  "cond_target G n num = Option.bind (List.find (\<lambda>p. get_Proj_num G p = num) (take 2 (out_edges G n)))
     (\<lambda>p. getNthSucc G p 0)"

lemma find_two:
  assumes "getNthSucc G n 0 = Some p" "getNthSucc G n 1 = Some q"
  shows "take 2 (out_edges G n) = [p, q]"
  using assms by (cases "out_edges G n"; cases "tl (out_edges G n)") (auto simp: getNthSucc_def split: if_splits)

lemma cond_targets:
  assumes "bindC (deref (getNthSucc G n 0)) (\<lambda>p0.
        bindC (if get_Proj_num G p0 \<noteq> pn_Cond_false G then
                 bindC (deref (getNthSucc G n 1)) (\<lambda>p1.
                   seqC (assertC (get_Proj_num G p1 = pn_Cond_false G)) (retC (p1, Some p0)))
               else retC (p0, getNthSucc G n 1)) (\<lambda>(falseProj, trueProj').
        seqC (assertC (is_Proj G falseProj))
       (seqC (assertC (get_Proj_num G falseProj = pn_Cond_false G))
       (bindC (deref trueProj') (\<lambda>trueProj.
        seqC (assertC (get_Proj_num G trueProj = pn_Cond_true G))
       (bindC (deref (getNthSucc G falseProj 0)) (\<lambda>falseBlock.
        seqC (assertC (is_Block G falseBlock))
       (bindC (deref (getNthSucc G trueProj 0)) (\<lambda>trueBlock.
        seqC (assertC (is_Block G trueBlock)) (J falseBlock trueBlock)))))))))) s = Inr (u, t)"
  shows "\<exists>p q fp tp fb tb. getNthSucc G n 0 = Some p \<and> getNthSucc G n 1 = Some q \<and> {fp, tp} = {p, q}
      \<and> get_Proj_num G fp = pn_Cond_false G \<and> get_Proj_num G tp = pn_Cond_true G
      \<and> getNthSucc G fp 0 = Some fb \<and> getNthSucc G tp 0 = Some tb \<and> J fb tb s = Inr (u, t)"
proof -
  obtain p where p: "getNthSucc G n 0 = Some p" using assms by (auto simp: bindC_Inr)
  show ?thesis
  proof (cases "get_Proj_num G p = pn_Cond_false G")
    case True
    with assms p show ?thesis by (auto simp: bindC_Inr seqC_Inr) blast
  next
    case False
    with assms p show ?thesis
      by (simp add: bindC_Inr seqC_Inr) (metis insert_commute)
  qed
qed

lemma visitCond_emits:
  assumes "visitCond G n s = Inr (u, t)" "nodeBB G n s = Inr (bb, s)" "bb \<noteq> None"
    and "pn_Cond_true G \<noteq> pn_Cond_false G"
  obtains tb fb where "cond_target G n (pn_Cond_true G) = Some tb" "cond_target G n (pn_Cond_false G) = Some fb"
    "tb = fb \<Longrightarrow> \<exists>j. makeJump (getBlockLabel tb) Rel_true = Inr j \<and> emits_jumps bb [j] s t"
    "tb \<noteq> fb \<Longrightarrow> \<exists>r j1 j2. getInverseRelation (get_Cmp_relation G (get_Cond_selector G n)) = Inr r
       \<and> makeJump (getBlockLabel tb) (get_Cmp_relation G (get_Cond_selector G n)) = Inr j1
       \<and> makeJump (getBlockLabel fb) r = Inr j2 \<and> emits_jumps bb [j1, j2] s t"
proof -
  let ?rel = "get_Cmp_relation G (get_Cond_selector G n)"
  let ?jumps = "\<lambda>fb tb. if fb = tb then bindC (liftC (makeJump (getBlockLabel tb) Rel_true)) (push pushJumpInstr bb)
      else bindC (liftC (makeJump (getBlockLabel tb) ?rel)) (\<lambda>j1. seqC (push pushJumpInstr bb j1)
        (bindC (liftC (getInverseRelation ?rel)) (\<lambda>inv.
         bindC (liftC (makeJump (getBlockLabel fb) inv)) (push pushJumpInstr bb))))"
  have "\<exists>p q fp tp fb tb. getNthSucc G n 0 = Some p \<and> getNthSucc G n 1 = Some q \<and> {fp, tp} = {p, q}
      \<and> get_Proj_num G fp = pn_Cond_false G \<and> get_Proj_num G tp = pn_Cond_true G
      \<and> getNthSucc G fp 0 = Some fb \<and> getNthSucc G tp 0 = Some tb \<and> ?jumps fb tb s = Inr (u, t)"
    using assms(1-3) by (intro cond_targets) (simp add: visitCond_def Let_def bindC_Inr [of "nodeBB G n"] seqC_Inr [of "assertC _"])
  then obtain p q fp tp fb tb where pq: "getNthSucc G n 0 = Some p" "getNthSucc G n 1 = Some q" "{fp, tp} = {p, q}"
      and num: "get_Proj_num G fp = pn_Cond_false G" "get_Proj_num G tp = pn_Cond_true G"
      and b: "getNthSucc G fp 0 = Some fb" "getNthSucc G tp 0 = Some tb" and j: "?jumps fb tb s = Inr (u, t)"
    by blast
  have tg: "cond_target G n (pn_Cond_true G) = Some tb" "cond_target G n (pn_Cond_false G) = Some fb"
    using find_two [OF pq(1,2)] pq(3) num b assms(4) by (auto simp: cond_target_def doubleton_eq_iff)
  show thesis
  proof (rule that [OF tg])
    show "\<exists>j. makeJump (getBlockLabel tb) Rel_true = Inr j \<and> emits_jumps bb [j] s t" if "tb = fb"
      using j that by (auto simp: bindC_Inr dest: push_emits_jumps)
    show "\<exists>r j1 j2. getInverseRelation ?rel = Inr r \<and> makeJump (getBlockLabel tb) ?rel = Inr j1
       \<and> makeJump (getBlockLabel fb) r = Inr j2 \<and> emits_jumps bb [j1, j2] s t" if "tb \<noteq> fb"
      using j that emits_jumps_trans [of bb "[x]" s _ "[y]" t for x y]
      by (auto simp: bindC_Inr seqC_Inr dest!: push_emits_jumps)
  qed
qed

lemma exec_cmp_code:
  assumes "is_node_op x" "is_node_op y"
  obtains m' where "exec_code ext (cmp_code w x y c) m = Some m'" "mem m' = mem m" "\<And>r. r \<noteq> RN_bx \<Longrightarrow> regs m' r = regs m r"
    "\<exists>a b. flags m' = Some (flags_of w (sval w b - sval w a) (b - a)) \<and> sval w b = sval w (op_val m x) \<and> sval w a = sval w (op_val m y)"
proof -
  define m1 where "m1 = write_reg w RN_bx (trunc w (op_val m x)) m"
  have y: "op_val m1 y = op_val m y"
    using assms(2) by (auto simp: is_node_op_def slotOp_def m1_def write_reg_def split: reg_mode.split)
  have a: "exec_instr ext (makeMov w x (OP_REG RN_bx w) []) m = Some m1"
    using assms(1) by (cases w) (simp_all add: makeMov_def exec_mov isMov_def instr_width_def read_node_op_w m1_def)
  have b: "exec_instr ext (instr2 M_Cmp y (OP_REG RN_bx w) c) m1 = Some (m1\<lparr>flags := Some (flags_of w
      (sval w (trunc w (regs m1 RN_bx)) - sval w (trunc w (op_val m y))) (trunc w (regs m1 RN_bx) - trunc w (op_val m y)))\<rparr>)"
    using assms(2) y by (simp add: exec_instr_def instr_width_def read_node_op_w)
  have v: "trunc w (regs m1 RN_bx) = trunc w (op_val m x)" by (simp add: m1_def trunc_written)
  show thesis
  proof (rule that)
    show "exec_code ext (cmp_code w x y c) m = Some (m1\<lparr>flags := Some (flags_of w
      (sval w (trunc w (op_val m x)) - sval w (trunc w (op_val m y))) (trunc w (op_val m x) - trunc w (op_val m y)))\<rparr>)"
      using a b v by (simp add: cmp_code_def)
    show "\<exists>a b. flags (m1\<lparr>flags := Some (flags_of w
          (sval w (trunc w (op_val m x)) - sval w (trunc w (op_val m y))) (trunc w (op_val m x) - trunc w (op_val m y)))\<rparr>)
        = Some (flags_of w (sval w b - sval w a) (b - a)) \<and> sval w b = sval w (op_val m x) \<and> sval w a = sval w (op_val m y)"
      by (rule exI [of _ "trunc w (op_val m y)"], rule exI [of _ "trunc w (op_val m x)"]) (simp add: sval_trunc)
  qed (auto simp: m1_def write_reg_def)
qed

lemma run_block_append:
  "exec_code ext is s = Some t \<Longrightarrow> \<forall>i \<in> set is. \<not> isJmp i \<Longrightarrow> run_block ext nxt (is @ js) s = run_block ext nxt js t"
  by (induction "is" arbitrary: s) (auto split: Option.bind_splits)

lemma makeJump_Inr: "makeJump l r = Inr j \<Longrightarrow> \<exists>mn. relation_mnemonic r = Inr mn \<and> j = instr1 mn (OP_STR l) []"
  by (auto simp: makeJump_def bindE_eq_Inr)

lemma relation_isJmp: "relation_mnemonic r = Inr mn \<Longrightarrow> isJmp (instr1 mn x c)"
  by (cases r) (auto simp: isJmp_def instr1_def)

lemma run_jump:
  assumes "makeJump l r = Inr j" "\<exists>a b. flags m = Some (flags_of w (sval w b - sval w a) (b - a)) \<and> sval w b = x \<and> sval w a = y"
    and "\<forall>i \<in> set is. mne i \<noteq> M_Label"
  shows "run_block ext nxt (j # is) m = (if rel_holds r x y then Some (l, m) else run_block ext nxt is m)"
proof -
  obtain mn where j: "relation_mnemonic r = Inr mn" "j = instr1 mn (OP_STR l) []" using makeJump_Inr [OF assms(1)] by blast
  have "find_label l is = None" using assms(3) by (induction "is") auto
  moreover have "jump_taken mn m = Some (rel_holds r x y)" using jump_after_cmp [OF j(1)] assms(2) by blast
  ultimately show ?thesis using relation_isJmp [OF j(1)] by (simp add: j(2) instr1_def)
qed

text \<open>
  C31: The instructions for a comparison and the conditional jump that depends on it leave the block
  for the successor of the true projection if and only if the relation of the comparison holds
  between the values of its operands as signed numbers of their size, and for the successor of the
  false projection otherwise.  They change neither the memory nor a register other than \<open>rbx\<close>.
\<close>

theorem branch_correct:
  assumes "visitCmp G c s = Inr (u, t)" "visitCond G n t = Inr (v, r)" "get_Cond_selector G n = c"
    and "nodeBB G c s = Inr (Some k, s)" "nodeBB G n t = Inr (Some k, t)" "pn_Cond_true G \<noteq> pn_Cond_false G"
  shows "\<exists>tb fb w code. cond_target G n (pn_Cond_true G) = Some tb \<and> cond_target G n (pn_Cond_false G) = Some fb
    \<and> getRegMode (get_irn_mode G (get_left G c)) = Inr w
    \<and> func r = update_bb k (append_jumps code) (func s)
    \<and> (\<forall>ext nxt m. \<exists>x y m'. node_val G r m (get_left G c) = Some x \<and> node_val G r m (get_right G c) = Some y
        \<and> run_block ext nxt code m =
            Some (getBlockLabel (if rel_holds (get_Cmp_relation G c) (sval w x) (sval w y) then tb else fb), m')
        \<and> mem m' = mem m \<and> (\<forall>q. q \<noteq> RN_bx \<longrightarrow> regs m' q = regs m q))"
proof -
  obtain w x y where c: "getRegMode (get_irn_mode G (get_left G c)) = Inr w" "node_op G t (get_left G c) = Some x"
      "node_op G t (get_right G c) = Some y" "emits_jumps (Some k) (cmp_code w x y (nodeStr G c)) s t"
    by (rule visitCmp_emits [OF assms(1,4)]) simp
  obtain tb fb where b: "cond_target G n (pn_Cond_true G) = Some tb" "cond_target G n (pn_Cond_false G) = Some fb"
    "tb = fb \<Longrightarrow> \<exists>j. makeJump (getBlockLabel tb) Rel_true = Inr j \<and> emits_jumps (Some k) [j] t r"
    "tb \<noteq> fb \<Longrightarrow> \<exists>r' j1 j2. getInverseRelation (get_Cmp_relation G c) = Inr r'
       \<and> makeJump (getBlockLabel tb) (get_Cmp_relation G c) = Inr j1
       \<and> makeJump (getBlockLabel fb) r' = Inr j2 \<and> emits_jumps (Some k) [j1, j2] t r"
    using visitCond_emits [OF assms(2,5) _ assms(6)] assms(3) by blast
  define P where "P = (\<lambda>js. emits_jumps (Some k) js t r \<and> (\<forall>ext nxt m p q.
      (\<exists>a b. flags m = Some (flags_of w (sval w b - sval w a) (b - a)) \<and> sval w b = p \<and> sval w a = q) \<longrightarrow>
      run_block ext nxt js m = Some (getBlockLabel (if rel_holds (get_Cmp_relation G c) p q then tb else fb), m)))"
  have "\<exists>js. P js"
  proof (cases "tb = fb")
    case True
    then obtain j where "makeJump (getBlockLabel tb) Rel_true = Inr j" "emits_jumps (Some k) [j] t r" using b(3) by blast
    then have "P [j]" using True run_jump [of "getBlockLabel tb" Rel_true j _ w _ _ "[]"] by (auto simp: P_def simp del: run_block.simps(2))
    then show ?thesis ..
  next
    case False
    then obtain r' j1 j2 where j: "getInverseRelation (get_Cmp_relation G c) = Inr r'"
       "makeJump (getBlockLabel tb) (get_Cmp_relation G c) = Inr j1" "makeJump (getBlockLabel fb) r' = Inr j2"
       "emits_jumps (Some k) [j1, j2] t r" using b(4) by blast
    have "mne j2 \<noteq> M_Label" using makeJump_Inr [OF j(3)] by (cases r') (auto simp: instr1_def)
    then have "P [j1, j2]"
      using j(4) run_jump [OF j(2), of _ w _ _ "[j2]"] run_jump [OF j(3), of _ w _ _ "[]"] inverse_rel_holds [OF j(1)]
      by (auto simp: P_def simp del: run_block.simps(2))
    then show ?thesis ..
  qed
  then obtain js where js: "P js" ..
  then have e: "emits_jumps (Some k) js t r" by (simp add: P_def)
  then have "grows t r" by (simp add: emits_jumps_def)
  then have o: "node_op G r (get_left G c) = Some x" "node_op G r (get_right G c) = Some y"
    using c(2,3) node_op_grows by blast+
  define code where "code = cmp_code w x y (nodeStr G c) @ js"
  have run: "\<exists>m'. run_block ext nxt code m = Some (getBlockLabel (if rel_holds (get_Cmp_relation G c)
        (sval w (op_val m x)) (sval w (op_val m y)) then tb else fb), m')
      \<and> mem m' = mem m \<and> (\<forall>q. q \<noteq> RN_bx \<longrightarrow> regs m' q = regs m q)" for ext nxt m
  proof (rule exec_cmp_code [OF node_op_shape [OF c(2)] node_op_shape [OF c(3)]])
    fix m'
    assume m': "exec_code ext (cmp_code w x y (nodeStr G c)) m = Some m'" "mem m' = mem m"
      "\<And>r. r \<noteq> RN_bx \<Longrightarrow> regs m' r = regs m r"
      "\<exists>a b. flags m' = Some (flags_of w (sval w b - sval w a) (b - a)) \<and> sval w b = sval w (op_val m x) \<and> sval w a = sval w (op_val m y)"
    have "run_block ext nxt code m = run_block ext nxt js m'"
      unfolding code_def by (rule run_block_append [OF m'(1)], cases w) (auto simp: cmp_code_def makeMov_def isJmp_def)
    then show ?thesis using js m' unfolding P_def by metis
  qed
  have "func r = update_bb k (append_jumps code) (func s)"
    using emits_jumps_trans [OF c(4) e] by (auto simp: emits_jumps_def code_def)
  then show ?thesis
    using b(1,2) c(1) run o
    by (intro exI [of _ tb] exI [of _ fb] exI [of _ w] exI [of _ code]) (simp add: node_val_def)
qed

end
