(* ===== verification/Asm_Pass_Example.thy ===== *)
theory Asm_Pass_Example
  imports Asm_Pass_Branch
begin

text \<open>
  The graph of a small method and the code generator on it, for the method
  \<open>public int f(int y) { if (y < 2) return y + 1; return 7 / y; }\<close>, whose parameter 0 is \<open>this\<close>.
\<close>

section \<open>The graph\<close>

definition example_graph :: ir_graph where
  "example_graph = empty_graph\<lparr>
     get_irn_opcode := at_nodes [(0, iro_Block), (1, iro_Block), (2, iro_Block), (3, iro_Block), (4, iro_End),
       (5, iro_Proj), (6, iro_Proj), (7, iro_Const), (8, iro_Cmp), (9, iro_Cond), (10, iro_Proj), (11, iro_Proj),
       (12, iro_Const), (13, iro_Add), (14, iro_Return), (15, iro_Const), (16, iro_Conv), (17, iro_Div), (18, iro_Proj),
       (19, iro_Conv), (20, iro_Return), (21, iro_Anchor), (22, iro_Start), (23, iro_Proj)] iro_Other,
     get_irn_mode := at_nodes [(5, mode_T), (6, mode_Is), (7, mode_Is), (8, mode_b), (9, mode_T), (10, mode_X), (11, mode_X),
       (12, mode_Is), (13, mode_Is), (14, mode_X), (15, mode_Ls), (16, mode_Ls), (17, mode_T), (18, mode_Ls), (19, mode_Is),
       (20, mode_X), (22, mode_T), (23, mode_M)] mode_Other,
     get_nodes_block := at_nodes [(4, 1), (13, 2), (14, 2), (16, 3), (17, 3), (18, 3), (19, 3), (20, 3)] 0,
     irn_in := at_nodes [(1, [14, 20]), (2, [10]), (3, [11]), (5, [22]), (6, [5]), (8, [6, 7]), (9, [8]), (10, [9]),
       (11, [9]), (13, [6, 12]), (14, [23, 13]), (16, [6]), (17, [23, 15, 16]), (18, [17]), (19, [18]), (20, [23, 19]),
       (23, [22])] [],
     out_edges := at_nodes [(5, [21, 6]), (6, [8, 13, 16]), (9, [10, 11]), (10, [2]), (11, [3]), (14, [1]), (17, [18]),
       (18, [19]), (20, [1])] [],
     block_succs := at_nodes [(0, [2, 3]), (2, [1]), (3, [1])] [],
     get_left := at_nodes [(8, 6), (13, 6), (17, 15)] 0,
     get_right := at_nodes [(8, 7), (13, 12), (17, 16)] 0,
     get_op := at_nodes [(16, 6), (19, 18)] 0,
     get_tarval_long := at_nodes [(7, 2), (12, 1), (15, 7)] 0,
     get_Proj_num := at_nodes [(6, 1), (10, 1), (11, 0)] 0,
     get_Proj_pred := at_nodes [(5, 22), (6, 5), (10, 9), (11, 9), (18, 17)] 0,
     get_Cmp_relation := at_nodes [(8, Rel_less)] Rel_other,
     get_Cond_selector := at_nodes [(9, 8)] 0,
     get_Return_ress := at_nodes [(14, [13]), (20, [19])] [],
     get_Block_cfgpreds := at_nodes [(1, [14, 20]), (2, [10]), (3, [11])] [],
     get_irg_end := 4, get_irg_start_block := 0, get_irg_end_block := 1, get_irg_args := 5,
     irg_name := ''f'', irg_ld_name := ''f''\<rparr>"

definition example_code :: "(asm_error + asm_function) option" where
  "example_code = visitMethod 50 example_graph"

lemma example_code_labels:
  "map_option (map_sum id (\<lambda>f. (nodes_of f, ARsize f))) example_code = Some (Inr ([0, 2, 3, 1], 24))"
  by code_simp

section \<open>The states of the generator\<close>

definition example_start :: cg where
  "example_start = the (newAsmMethodPass 50 example_graph ''f'')"

definition state_after :: "'a cgm \<Rightarrow> cg \<Rightarrow> cg" where
  "state_after m s = snd (projr (m s))"

lemma state_afterI: "\<not> isl (m s) \<Longrightarrow> m s = Inr ((), state_after m s)"
  by (cases "m s") (auto simp: state_after_def)

definition example_state :: cg where
  "example_state = state_after (amp_before example_graph) example_start"

lemma nodeBB_eq: "nodeBB G n s = Inr (bb, s) \<longleftrightarrow> (let b = (if is_Block G n then n else get_nodes_block G n)
    in is_Block G b \<and> map_option bb_node (getBB b (func s)) = bb)"
  by (auto simp: nodeBB_def Let_def seqC_def bindC_def assertC_def retC_def failC_def bindE_def)

lemma example_runs:
  "Option.is_none (newAsmMethodPass 50 example_graph ''f'') = False"
  "\<not> isl (amp_before example_graph example_start)"
  "\<not> isl (amp_visitNode example_graph 13 example_state)"
  "\<not> isl (amp_visitNode example_graph 17 example_state)"
  "\<not> isl (visitCmp example_graph 8 example_state)"
  "\<not> isl (visitCond example_graph 9 (state_after (visitCmp example_graph 8) example_state))"
  by code_simp+


lemma example_steps:
  "amp_before example_graph example_start = Inr ((), state_after (amp_before example_graph) example_start)"
  "amp_visitNode example_graph 13 example_state = Inr ((), state_after (amp_visitNode example_graph 13) example_state)"
  "amp_visitNode example_graph 17 example_state = Inr ((), state_after (amp_visitNode example_graph 17) example_state)"
  "visitCmp example_graph 8 example_state = Inr ((), state_after (visitCmp example_graph 8) example_state)"
  "visitCond example_graph 9 (state_after (visitCmp example_graph 8) example_state)
    = Inr ((), state_after (visitCond example_graph 9) (state_after (visitCmp example_graph 8) example_state))"
  using example_runs by (auto intro!: state_afterI)

lemma example_pass: "newAsmMethodPass 50 example_graph ''f'' = Some example_start"
  using example_runs(1) by (simp add: example_start_def Option.is_none_def)

lemma example_params_ok: "params_ok example_graph"
proof -
  have "params example_graph = [6]" "get_Proj_num example_graph 6 = 1" by code_simp+
  then show ?thesis by (simp add: params_ok_def)
qed

lemma example_state_inv: "slot_inv example_state"
  using before_slots(1) [OF _ newAsmMethodPass_inv(1) [OF example_pass] example_params_ok]
    example_steps(1) by (simp add: example_state_def)

section \<open>The theorems on the example\<close>

theorem generated_function_witness:
  "\<exists>f. visitMethod 50 example_graph = Some (Inr f) \<and> distinct (nodes_of f)
    \<and> set (nodes_of f) = {b. block_reach example_graph b} \<and> hd (nodes_of f) = 0 \<and> ARsize f < 2 ^ 31"
proof -
  obtain f where f: "visitMethod 50 example_graph = Some (Inr f)"
    using example_code_labels unfolding example_code_def
    by (cases "visitMethod 50 example_graph"; cases "the (visitMethod 50 example_graph)") auto
  show ?thesis using generated_function [OF f example_params_ok] f
    by (auto simp: example_graph_def)
qed

theorem arith_node_correct_witness:
  "\<exists>t k code off. amp_visitNode example_graph 13 example_state = Inr ((), t)
    \<and> func t = update_bb k (append_instrs code) (func example_state)
    \<and> (\<forall>ext m. \<exists>x y m'. node_val example_graph t m 6 = Some x \<and> node_val example_graph t m 12 = Some y
        \<and> exec_code ext code m = Some m' \<and> stores t m m' off (x + y))"
proof -
  have "arith_mnemonic (get_irn_opcode example_graph 13) = Some M_Add"
    "get_left example_graph 13 = 6" "get_right example_graph 13 = 12" by code_simp+
  then show ?thesis
    using arith_node_correct [OF example_state_inv example_steps(2), of M_Add] example_steps(2)
    by fastforce
qed

theorem division_node_correct_witness:
  "\<exists>t k code off. amp_visitNode example_graph 17 example_state = Inr ((), t)
    \<and> func t = update_bb k (append_instrs code) (func example_state)
    \<and> (\<forall>ext m. \<exists>x y. node_val example_graph t m 15 = Some x \<and> node_val example_graph t m 16 = Some y
        \<and> (sval RM_E y \<noteq> 0 \<longrightarrow> (\<exists>m'. exec_code ext code m = Some m'
              \<and> stores t m m' off (word_of_int (sval RM_E x sdiv sval RM_E y)))))"
proof -
  have "get_irn_opcode example_graph 17 = iro_Div" "get_irn_mode example_graph 17 = mode_T"
    "getSucc example_graph 17 iro_Proj mode_Ls = Some 18"
    "get_left example_graph 17 = 15" "get_right example_graph 17 = 16" by code_simp+
  then show ?thesis
    using division_node_correct [OF example_state_inv example_steps(3), of 18] example_steps(3)
    by fastforce
qed

theorem branch_correct_witness:
  "\<exists>t r code. visitCmp example_graph 8 example_state = Inr ((), t) \<and> visitCond example_graph 9 t = Inr ((), r)
    \<and> func r = update_bb 0 (append_jumps code) (func example_state)
    \<and> (\<forall>ext nxt m. \<exists>x y m'. node_val example_graph r m 6 = Some x \<and> node_val example_graph r m 7 = Some y
        \<and> run_block ext nxt code m = Some (getBlockLabel (if sval RM_E x < sval RM_E y then 2 else 3), m'))"
proof -
  define t where "t = state_after (visitCmp example_graph 8) example_state"
  have v: "visitCmp example_graph 8 example_state = Inr ((), t)"
    using example_steps(4) by (simp add: t_def)
  have c: "visitCond example_graph 9 t = Inr ((), state_after (visitCond example_graph 9) t)"
    using example_steps(5) by (simp add: t_def)
  have e: "get_Cond_selector example_graph 9 = 8" "pn_Cond_true example_graph = 1" "pn_Cond_false example_graph = 0"
    "cond_target example_graph 9 1 = Some 2" "cond_target example_graph 9 0 = Some 3"
    "getRegMode (get_irn_mode example_graph 6) = Inr RM_E" "get_left example_graph 8 = 6" "get_right example_graph 8 = 7"
    "get_Cmp_relation example_graph 8 = Rel_less"
    by code_simp+
  have "nodeBB example_graph 8 example_state = Inr (Some 0, example_state)" "nodeBB example_graph 9 t = Inr (Some 0, t)"
    unfolding nodeBB_eq t_def by code_simp+
  then have "\<exists>tb fb w code. cond_target example_graph 9 1 = Some tb \<and> cond_target example_graph 9 0 = Some fb
    \<and> getRegMode (get_irn_mode example_graph 6) = Inr w
    \<and> func (state_after (visitCond example_graph 9) t) = update_bb 0 (append_jumps code) (func example_state)
    \<and> (\<forall>ext nxt m. \<exists>x y m'. node_val example_graph (state_after (visitCond example_graph 9) t) m 6 = Some x
        \<and> node_val example_graph (state_after (visitCond example_graph 9) t) m 7 = Some y
        \<and> run_block ext nxt code m = Some (getBlockLabel (if rel_holds Rel_less (sval w x) (sval w y) then tb else fb), m')
        \<and> mem m' = mem m \<and> (\<forall>q. q \<noteq> RN_bx \<longrightarrow> regs m' q = regs m q))"
    using branch_correct [OF v c e(1)] unfolding e by simp
  then obtain tb fb w code where b: "cond_target example_graph 9 1 = Some tb" "cond_target example_graph 9 0 = Some fb"
      "getRegMode (get_irn_mode example_graph 6) = Inr w"
      "func (state_after (visitCond example_graph 9) t) = update_bb 0 (append_jumps code) (func example_state)"
    and r: "\<And>ext nxt m. \<exists>x y m'. node_val example_graph (state_after (visitCond example_graph 9) t) m 6 = Some x
        \<and> node_val example_graph (state_after (visitCond example_graph 9) t) m 7 = Some y
        \<and> run_block ext nxt code m = Some (getBlockLabel (if rel_holds Rel_less (sval w x) (sval w y) then tb else fb), m')"
    by (elim exE conjE) (rule that, assumption+, blast)
  have w: "tb = 2" "fb = 3" "w = RM_E" using b(1-3) e by simp_all
  show ?thesis
    by (rule exI [of _ t], rule exI [of _ "state_after (visitCond example_graph 9) t"], rule exI [of _ code])
      (intro conjI allI v c b(4) r [unfolded w rel_holds.simps])
qed

end
