(* ===== verification/Const_Prop.thy ===== *)
theory Const_Prop
  imports Firm
begin

text \<open>
  Constant propagation (\<open>const_prop_pass.hpp\<close>).  The values of libfirm (\<open>ir_tarval\<close>) and the functions
  on them are not part of the sources: a constant is a value of a type parameter, and the functions
  are the record \<open>tv_ops\<close>.  The pass keeps a value for every node (its link) and the control flow
  that it has seen.  A visit returns the new state and the nodes that it enqueues.
\<close>

section \<open>Values and state\<close>

datatype 'v tarval = TV_unknown | TV_bad | TV 'v

record 'v tv_ops =
  get_Const_tarval :: "node \<Rightarrow> 'v tarval"
  tarval_add :: "'v \<Rightarrow> 'v \<Rightarrow> 'v tarval"
  tarval_sub :: "'v \<Rightarrow> 'v \<Rightarrow> 'v tarval"
  tarval_mul :: "'v \<Rightarrow> 'v \<Rightarrow> 'v tarval"
  tarval_div :: "'v \<Rightarrow> 'v \<Rightarrow> 'v tarval"
  tarval_mod :: "'v \<Rightarrow> 'v \<Rightarrow> 'v tarval"
  tarval_neg :: "'v \<Rightarrow> 'v tarval"
  tarval_not :: "'v \<Rightarrow> 'v tarval"
  tarval_convert_to :: "'v \<Rightarrow> ir_mode \<Rightarrow> 'v tarval"
  tarval_cmp :: "'v \<Rightarrow> 'v \<Rightarrow> ir_relation"
  tarval_b_true :: 'v
  tarval_b_false :: 'v
  get_memop_mem :: "node \<Rightarrow> node option"   \<comment> \<open>\<open>None\<close> unless \<open>is_memop\<close>\<close>

fun tarval_is_constant :: "'v tarval \<Rightarrow> bool" where
  "tarval_is_constant (TV v) = True"
| "tarval_is_constant _ = False"

record 'v cp =
  vals :: "node \<Rightarrow> 'v tarval"
  cfv :: "node \<rightharpoonup> bool"      \<comment> \<open>\<open>controlFlowVisited\<close>\<close>

datatype cp_error = CpAssert | CpInvalidNode

type_synonym 'v cp_visit = "'v cp \<Rightarrow> cp_error + 'v cp \<times> node list"

section \<open>Helpers\<close>

definition setNodeLink :: "ir_graph \<Rightarrow> node \<Rightarrow> 'v tarval \<Rightarrow> 'v cp_visit" where
  "setNodeLink G n val st =
     (if vals st n \<noteq> val then Inr (st\<lparr>vals := (vals st)(n := val)\<rparr>, out_edges G n) else Inr (st, []))"

definition maybeMarkControlFlow :: "ir_graph \<Rightarrow> node \<Rightarrow> bool \<Rightarrow> 'v cp_visit" where
  "maybeMarkControlFlow G n taken st =
     (if \<not> (is_Proj G n \<or> is_Jmp G n \<or> is_Bad G n) then Inl CpAssert
      else if cfv st n = Some taken then Inr (st, [])
      else if \<not> taken then Inr (st\<lparr>cfv := (cfv st)(n \<mapsto> False)\<rparr>, [])
      else
        (let block = get_nodes_block G n in
         if block = get_irg_start_block G then Inr (st\<lparr>cfv := (cfv st)(n \<mapsto> True)\<rparr>, [])
         else
           (let arr = get_Block_cfgpreds G block;
                visitorReachable = list_ex (\<lambda>a. cfv st a \<noteq> None) arr;
                currentlyTaken = list_ex (\<lambda>a. cfv st a = Some True) arr in
            if visitorReachable then
              Inr (st\<lparr>cfv := (cfv st)(n \<mapsto> currentlyTaken)\<rparr>,
                if currentlyTaken then
                  concat (map (\<lambda>targetBlock. filter (\<lambda>irn. get_irn_mode G irn = mode_X \<or> is_Phi G irn)
                    (out_edges G targetBlock)) (out_edges G n))
                else [])
            else Inr (st, [n]))))"

definition transfer :: "'v cp \<Rightarrow> node \<Rightarrow> node \<Rightarrow> ('v \<Rightarrow> 'v \<Rightarrow> 'v tarval) \<Rightarrow> 'v tarval" where
  "transfer st left right evalFn =
     (case (vals st left, vals st right) of
        (TV a, TV b) \<Rightarrow> evalFn a b
      | (a, b) \<Rightarrow> if a = TV_bad \<or> b = TV_bad then TV_bad else TV_unknown)"

section \<open>Initialization\<close>

definition cp_init :: "'v tv_ops \<Rightarrow> ir_graph \<Rightarrow> node \<Rightarrow> 'v tarval" where
  "cp_init tv G n =
     (case get_irn_opcode G n of
        iro_Const \<Rightarrow> get_Const_tarval tv n
      | iro_Add \<Rightarrow> TV_unknown | iro_Sub \<Rightarrow> TV_unknown | iro_Mul \<Rightarrow> TV_unknown | iro_Div \<Rightarrow> TV_unknown
      | iro_Mod \<Rightarrow> TV_unknown | iro_Phi \<Rightarrow> TV_unknown
      | _ \<Rightarrow> TV_bad)"

text \<open>
  The initial values of the nodes and the queue; constants are not enqueued.  The edges of libfirm
  lead to nodes of the walk only, so the link of another node is never read.
\<close>

definition cp_start :: "'v tv_ops \<Rightarrow> ir_graph \<Rightarrow> node list \<Rightarrow> 'v cp \<times> node list" where
  "cp_start tv G ns = (\<lparr>vals = cp_init tv G, cfv = Map.empty\<rparr>, filter (\<lambda>n. \<not> is_Const G n) ns)"

section \<open>Visits\<close>

definition visitUnary :: "ir_graph \<Rightarrow> node \<Rightarrow> ('v \<Rightarrow> 'v tarval) \<Rightarrow> 'v cp_visit" where
  "visitUnary G n f st =
     (case vals st (get_op G n) of TV v \<Rightarrow> setNodeLink G n (f v) st | opVal \<Rightarrow> setNodeLink G n opVal st)"

text \<open>The part of \<open>visitProj\<close> for control flow: the mark that the condition allows.\<close>

definition cond_value :: "'v tv_ops \<Rightarrow> ir_graph \<Rightarrow> 'v cp \<Rightarrow> node \<Rightarrow> cp_error + bool" where
  "cond_value tv G st n =
     (let cond = get_Proj_pred G n; cmp = get_Cond_selector G cond in
      if \<not> is_Cond G cond then Inl CpAssert
      else
        (case vals st cmp of
           TV c \<Rightarrow>
             if c \<noteq> tarval_b_true tv \<and> c \<noteq> tarval_b_false tv then Inl CpAssert
             else Inr ((c = tarval_b_true tv) = (get_Proj_num G n = pn_Cond_true G))
         | _ \<Rightarrow> Inr True))"

definition cp_visitProj :: "'v tv_ops \<Rightarrow> ir_graph \<Rightarrow> node \<Rightarrow> 'v cp_visit" where
  "cp_visitProj tv G n st =
     bindE (if get_irn_mode G n = mode_X then bindE (cond_value tv G st n) (\<lambda>taken. maybeMarkControlFlow G n taken st)
            else Inr (st, [])) (\<lambda>(st1, q1).
     if get_irn_mode G n \<noteq> mode_M then
       bindE (setNodeLink G n (vals st1 (get_Proj_pred G n)) st1) (\<lambda>(st2, q2). Inr (st2, q1 @ q2))
     else Inr (st1, q1))"

fun phi_loop :: "'v tv_ops \<Rightarrow> 'v cp \<Rightarrow> (node \<times> node) list \<Rightarrow> 'v tarval \<Rightarrow> 'v tarval" where
  "phi_loop tv st [] val = val"
| "phi_loop tv st ((pred, blockPred) # ps) val =
     (if cfv st blockPred = Some False then phi_loop tv st ps val
      else
        (case (val, vals st pred) of
           (TV_bad, _) \<Rightarrow> TV_bad
         | (_, TV_bad) \<Rightarrow> TV_bad
         | (TV_unknown, predVal) \<Rightarrow> phi_loop tv st ps predVal
         | (TV a, TV_unknown) \<Rightarrow> phi_loop tv st ps val
         | (TV a, TV b) \<Rightarrow> if tarval_cmp tv a b \<noteq> Rel_equal then TV_bad else phi_loop tv st ps val))"

definition phi_args :: "ir_graph \<Rightarrow> node \<Rightarrow> (node \<times> node) list" where
  "phi_args G n = zip (get_Phi_preds G n) (get_Block_cfgpreds G (get_nodes_block G n))"

definition cp_visitPhi :: "'v tv_ops \<Rightarrow> ir_graph \<Rightarrow> node \<Rightarrow> 'v cp_visit" where
  "cp_visitPhi tv G n st =
     (if get_Phi_preds G n = [] \<or> length (get_Phi_preds G n) > length (get_Block_cfgpreds G (get_nodes_block G n))
      then Inl CpAssert
      else setNodeLink G n (phi_loop tv st (phi_args G n) TV_unknown) st)"

definition cmp_result :: "ir_relation \<Rightarrow> ir_relation \<Rightarrow> cp_error + bool" where
  "cmp_result wanted relation =
     (case wanted of
        Rel_equal \<Rightarrow> Inr (relation = Rel_equal)
      | Rel_less_greater \<Rightarrow> Inr (relation = Rel_less \<or> relation = Rel_greater)
      | Rel_less \<Rightarrow> Inr (relation = Rel_less)
      | Rel_less_equal \<Rightarrow> Inr (relation = Rel_less \<or> relation = Rel_equal)
      | Rel_greater \<Rightarrow> Inr (relation = Rel_greater)
      | Rel_greater_equal \<Rightarrow> Inr (relation = Rel_greater \<or> relation = Rel_equal)
      | _ \<Rightarrow> Inl CpAssert)"

definition cp_visitCmp :: "'v tv_ops \<Rightarrow> ir_graph \<Rightarrow> node \<Rightarrow> 'v cp_visit" where
  "cp_visitCmp tv G n st =
     (case (vals st (get_left G n), vals st (get_right G n)) of
        (TV a, TV b) \<Rightarrow>
          bindE (cmp_result (get_Cmp_relation G n) (tarval_cmp tv a b)) (\<lambda>r.
            setNodeLink G n (TV (if r then tarval_b_true tv else tarval_b_false tv)) st)
      | (a, b) \<Rightarrow> setNodeLink G n (if a = TV_bad \<or> b = TV_bad then TV_bad else TV_unknown) st)"

definition cp_visitNode :: "'v tv_ops \<Rightarrow> ir_graph \<Rightarrow> node \<Rightarrow> 'v cp_visit" where
  "cp_visitNode tv G n st =
     (let binary = (\<lambda>f. setNodeLink G n (transfer st (get_left G n) (get_right G n) f) st) in
      case get_irn_opcode G n of
        iro_Add \<Rightarrow> binary (tarval_add tv) | iro_Sub \<Rightarrow> binary (tarval_sub tv) | iro_Mul \<Rightarrow> binary (tarval_mul tv)
      | iro_Div \<Rightarrow> binary (tarval_div tv) | iro_Mod \<Rightarrow> binary (tarval_mod tv)
      | iro_Minus \<Rightarrow> visitUnary G n (tarval_neg tv) st
      | iro_Not \<Rightarrow> visitUnary G n (tarval_not tv) st
      | iro_Conv \<Rightarrow> visitUnary G n (\<lambda>v. tarval_convert_to tv v (get_irn_mode G n)) st
      | iro_Cond \<Rightarrow> Inr (st, out_edges G n)
      | iro_Proj \<Rightarrow> cp_visitProj tv G n st
      | iro_Jmp \<Rightarrow> maybeMarkControlFlow G n True st
      | iro_Bad \<Rightarrow> if get_irn_mode G n = mode_X then maybeMarkControlFlow G n False st else Inr (st, [])
      | iro_Phi \<Rightarrow> cp_visitPhi tv G n st
      | iro_Cmp \<Rightarrow> cp_visitCmp tv G n st
      | iro_Invalid \<Rightarrow> Inl CpInvalidNode
      | _ \<Rightarrow> Inr (st, []))"

section \<open>Substitution\<close>

text \<open>
  The exchanges that \<open>substituteNode\<close> asks the library for, in order: a node against a constant, against
  a jump, against a bad node, or against another node of the graph.  The code walks over the graph a second time while
  it exchanges nodes; here the decisions are taken for the nodes of the first walk on the graph as it was before the
  exchanges, and the exchanges themselves are left to the library.  So the list may have exchanges for nodes that the
  second walk does not reach any more.
\<close>

datatype 'v replacement = R_Const 'v | R_Jmp node | R_Bad | R_Node node

definition substituteNode :: "'v tv_ops \<Rightarrow> ir_graph \<Rightarrow> 'v cp \<Rightarrow> node \<Rightarrow> cp_error + (node \<times> 'v replacement) list" where
  "substituteNode tv G st n =
     (if is_Const G n then Inr []
      else
        (case vals st n of
           TV v \<Rightarrow>
             Inr ((case get_memop_mem tv n of
                     None \<Rightarrow> []
                   | Some mem_target \<Rightarrow>
                       (case List.find (\<lambda>m. is_Proj G m \<and> get_irn_mode G m = mode_M) (out_edges G n) of
                          None \<Rightarrow> [] | Some succNode \<Rightarrow> [(succNode, R_Node mem_target)]))
                  @ [(n, R_Const v)])
         | _ \<Rightarrow>
             if is_Proj G n \<and> get_irn_mode G n = mode_X then
               (let cond = get_Proj_pred G n; cmp = get_Cond_selector G cond in
                if \<not> is_Cond G cond then Inl CpAssert
                else
                  (case vals st cmp of
                     TV c \<Rightarrow>
                       if c \<noteq> tarval_b_true tv \<and> c \<noteq> tarval_b_false tv then Inl CpAssert
                       else if (c = tarval_b_true tv) = (get_Proj_num G n = pn_Cond_true G)
                       then Inr [(n, R_Jmp (get_nodes_block G n))]
                       else Inr [(n, R_Bad)]
                   | _ \<Rightarrow> Inr []))
             else Inr []))"

fun substituteNodes :: "'v tv_ops \<Rightarrow> ir_graph \<Rightarrow> 'v cp \<Rightarrow> node list \<Rightarrow> cp_error + (node \<times> 'v replacement) list" where
  "substituteNodes tv G st [] = Inr []"
| "substituteNodes tv G st (n # ns) =
     bindE (substituteNode tv G st n) (\<lambda>xs. bindE (substituteNodes tv G st ns) (\<lambda>ys. Inr (xs @ ys)))"

text \<open>The whole pass; \<open>k\<close> bounds the depth of the walk and the number of visits.\<close>

definition ConstPropPass :: "nat \<Rightarrow> 'v tv_ops \<Rightarrow> ir_graph \<Rightarrow> (cp_error + 'v cp \<times> (node \<times> 'v replacement) list) option" where
  "ConstPropPass k tv G =
     Option.bind (initNodesTopological k G) (\<lambda>ns.
       if list_ex (\<lambda>n. get_irn_opcode G n = iro_Invalid) ns then Some (Inl CpInvalidNode)
       else
         (let (st0, q0) = cp_start tv G ns in
          map_option (\<lambda>r. bindE r (\<lambda>st. bindE (substituteNodes tv G st ns) (\<lambda>xs. Inr (st, xs))))
            (run_queue k (cp_visitNode tv G) q0 st0)))"

end
