(* ===== verification/Const_Prop_Sound.thy ===== *)
theory Const_Prop_Sound
  imports Const_Prop
begin

text \<open>
  Soundness of constant propagation: when the work list is empty, the values of the nodes are a
  solution of the data flow equations, and a node with a constant value has this value in every
  execution that takes no edge marked as not taken.
\<close>

section \<open>The order on values\<close>

definition tv_le :: "'v tarval \<Rightarrow> 'v tarval \<Rightarrow> bool" where
  "tv_le a b \<longleftrightarrow> a = TV_unknown \<or> b = TV_bad \<or> a = b"

lemma tv_le_simps [simp]: "tv_le TV_unknown b" "tv_le a TV_bad" "tv_le a a" "tv_le TV_bad b \<longleftrightarrow> b = TV_bad"
  "tv_le (TV x) (TV y) \<longleftrightarrow> x = y" "\<not> tv_le (TV x) TV_unknown" "tv_le a TV_unknown \<longleftrightarrow> a = TV_unknown"
  by (auto simp: tv_le_def)

lemma tv_le_trans: "tv_le a b \<Longrightarrow> tv_le b c \<Longrightarrow> tv_le a c"
  by (auto simp: tv_le_def)

text \<open>What is used of the library: a comparison says equal exactly for equal constants.\<close>

definition cmp_exact :: "'v tv_ops \<Rightarrow> bool" where
  "cmp_exact tv \<longleftrightarrow> (\<forall>a b. tarval_cmp tv a b = Rel_equal \<longleftrightarrow> a = b)"

fun tv_join :: "'v tv_ops \<Rightarrow> 'v tarval \<Rightarrow> 'v tarval \<Rightarrow> 'v tarval" where
  "tv_join tv TV_unknown b = b"
| "tv_join tv a TV_unknown = a"
| "tv_join tv (TV a) (TV b) = (if tarval_cmp tv a b \<noteq> Rel_equal then TV_bad else TV a)"
| "tv_join tv _ _ = TV_bad"

lemma tv_join_upper: "cmp_exact tv \<Longrightarrow> tv_le a (tv_join tv a b)" "cmp_exact tv \<Longrightarrow> tv_le b (tv_join tv a b)"
  by (cases a; cases b; simp add: cmp_exact_def)+

lemma tv_join_least: "cmp_exact tv \<Longrightarrow> tv_le a y \<Longrightarrow> tv_le b y \<Longrightarrow> tv_le (tv_join tv a b) y"
  by (cases a; cases b; cases y; simp add: cmp_exact_def)

lemma phi_loop_bad [simp]: "phi_loop tv st ps TV_bad = TV_bad"
  by (induction ps) auto

lemma phi_loop_Cons: "phi_loop tv st ((p, c) # ps) val =
  phi_loop tv st ps (if cfv st c = Some False then val else tv_join tv val (vals st p))"
  by (cases val; cases "vals st p") simp_all

text \<open>The loop over the operands of a phi node computes their least upper bound.\<close>

lemma phi_loop_upper:
  assumes "cmp_exact tv"
  shows "tv_le val (phi_loop tv st ps val)"
    and "(p, c) \<in> set ps \<Longrightarrow> cfv st c \<noteq> Some False \<Longrightarrow> tv_le (vals st p) (phi_loop tv st ps val)"
proof -
  show le: "tv_le val (phi_loop tv st ps val)" for ps val
    by (induction ps arbitrary: val) (auto simp: phi_loop_Cons simp del: phi_loop.simps(2), meson tv_le_trans tv_join_upper(1) [OF assms])
  show "tv_le (vals st p) (phi_loop tv st ps val)" if "(p, c) \<in> set ps" "cfv st c \<noteq> Some False"
    using that
  proof (induction ps arbitrary: val)
    case (Cons x ps)
    show ?case
    proof (cases "x = (p, c)")
      case True
      then show ?thesis
        using Cons.prems(2) tv_le_trans [OF tv_join_upper(2) [OF assms] le] by (simp add: phi_loop_Cons del: phi_loop.simps(2))
    next
      case False
      then have "(p, c) \<in> set ps" using Cons.prems(1) by simp
      then show ?thesis using Cons.IH Cons.prems(2) by (cases x) (simp add: phi_loop_Cons del: phi_loop.simps(2))
    qed
  qed simp
qed

lemma phi_loop_least:
  assumes "cmp_exact tv"
  shows "tv_le val y \<Longrightarrow> (\<And>p c. (p, c) \<in> set ps \<Longrightarrow> cfv st c \<noteq> Some False \<Longrightarrow> tv_le (vals st p) y)
    \<Longrightarrow> tv_le (phi_loop tv st ps val) y"
proof (induction ps arbitrary: val)
  case (Cons x ps)
  obtain p c where x: "x = (p, c)" by (cases x)
  have "tv_le (if cfv st c = Some False then val else tv_join tv val (vals st p)) y"
    using Cons.prems x by (auto intro: tv_join_least [OF assms])
  then show ?case unfolding x phi_loop_Cons by (rule Cons.IH) (use Cons.prems(2) in auto)
qed simp

section \<open>The equations\<close>

fun binary_fn :: "'v tv_ops \<Rightarrow> opcode \<Rightarrow> ('v \<Rightarrow> 'v \<Rightarrow> 'v tarval) option" where
  "binary_fn tv iro_Add = Some (tarval_add tv)"
| "binary_fn tv iro_Sub = Some (tarval_sub tv)"
| "binary_fn tv iro_Mul = Some (tarval_mul tv)"
| "binary_fn tv iro_Div = Some (tarval_div tv)"
| "binary_fn tv iro_Mod = Some (tarval_mod tv)"
| "binary_fn tv _ = None"

definition unary_fn :: "'v tv_ops \<Rightarrow> ir_graph \<Rightarrow> node \<Rightarrow> ('v \<Rightarrow> 'v tarval) option" where
  "unary_fn tv G n = (case get_irn_opcode G n of
       iro_Minus \<Rightarrow> Some (tarval_neg tv)
     | iro_Not \<Rightarrow> Some (tarval_not tv)
     | iro_Conv \<Rightarrow> Some (\<lambda>v. tarval_convert_to tv v (get_irn_mode G n))
     | _ \<Rightarrow> None)"

definition cmp_fn :: "'v tv_ops \<Rightarrow> ir_graph \<Rightarrow> node \<Rightarrow> 'v \<Rightarrow> 'v \<Rightarrow> 'v tarval" where
  "cmp_fn tv G n a b = (case cmp_result (get_Cmp_relation G n) (tarval_cmp tv a b) of
       Inr r \<Rightarrow> TV (if r then tarval_b_true tv else tarval_b_false tv) | Inl e \<Rightarrow> TV_unknown)"

definition lift1 :: "('v \<Rightarrow> 'v tarval) \<Rightarrow> 'v tarval \<Rightarrow> 'v tarval" where
  "lift1 f x = (case x of TV v \<Rightarrow> f v | _ \<Rightarrow> x)"

text \<open>The value that a visit gives to a node, apart from phi nodes.\<close>

definition node_fn :: "'v tv_ops \<Rightarrow> ir_graph \<Rightarrow> 'v cp \<Rightarrow> node \<Rightarrow> 'v tarval option" where
  "node_fn tv G st n =
     (case binary_fn tv (get_irn_opcode G n) of
        Some f \<Rightarrow> Some (transfer st (get_left G n) (get_right G n) f)
      | None \<Rightarrow>
         (case unary_fn tv G n of
            Some f \<Rightarrow> Some (lift1 f (vals st (get_op G n)))
          | None \<Rightarrow>
              if is_Cmp G n then Some (transfer st (get_left G n) (get_right G n) (cmp_fn tv G n))
              else if is_Proj G n \<and> get_irn_mode G n \<noteq> mode_M then Some (vals st (get_Proj_pred G n))
              else None))"

definition operands :: "'v tv_ops \<Rightarrow> ir_graph \<Rightarrow> node \<Rightarrow> node set" where
  "operands tv G n =
     (if \<not> Option.is_none (unary_fn tv G n) then {get_op G n}
      else if \<not> Option.is_none (binary_fn tv (get_irn_opcode G n)) \<or> is_Cmp G n then {get_left G n, get_right G n}
      else if is_Proj G n then {get_Proj_pred G n}
      else if is_Phi G n then set (get_Phi_preds G n)
      else {})"

lemma node_fn_cong:
  "\<forall>p \<in> operands tv G n. vals st p = vals st' p \<Longrightarrow> node_fn tv G st n = node_fn tv G st' n"
  by (cases "get_irn_opcode G n") (auto simp: node_fn_def operands_def unary_fn_def is_opcode_defs transfer_def)

lemma phi_loop_cong:
  "\<forall>(p, c) \<in> set ps. vals st p = vals st' p \<and> (cfv st c = Some False \<longleftrightarrow> cfv st' c = Some False)
    \<Longrightarrow> phi_loop tv st ps val = phi_loop tv st' ps val"
  by (induction ps arbitrary: val) (auto simp: phi_loop_Cons simp del: phi_loop.simps(2))


section \<open>The effect of a visit\<close>

text \<open>A visit changes the value of the visited node only, and enqueues its users if it does.\<close>

definition changes_val :: "ir_graph \<Rightarrow> node \<Rightarrow> 'v tarval \<Rightarrow> 'v cp \<Rightarrow> 'v cp \<times> node list \<Rightarrow> bool" where
  "changes_val G n v st r \<longleftrightarrow> (case r of (st', ms) \<Rightarrow> vals st' = (vals st)(n := v)
     \<and> (vals st n \<noteq> v \<longrightarrow> set (out_edges G n) \<subseteq> set ms))"

lemma setNodeLink_changes:
  "setNodeLink G n v st = Inr r \<Longrightarrow> changes_val G n v st r \<and> cfv (fst r) = cfv st"
  by (auto simp: setNodeLink_def changes_val_def split: if_splits)

text \<open>The control flow marks: a new mark \<open>True\<close> outside of the start block enqueues the phi nodes behind it.\<close>

definition marks :: "ir_graph \<Rightarrow> node \<Rightarrow> 'v cp \<Rightarrow> 'v cp \<times> node list \<Rightarrow> bool" where
  "marks G n st r \<longleftrightarrow> (case r of (st', ms) \<Rightarrow> cfv st' = cfv st \<or>
     (\<exists>b. cfv st' = (cfv st)(n \<mapsto> b) \<and> (b \<and> get_nodes_block G n \<noteq> get_irg_start_block G \<longrightarrow>
        (\<forall>t \<in> set (out_edges G n). \<forall>p \<in> set (out_edges G t). is_Phi G p \<longrightarrow> p \<in> set ms))))"

lemma marksI: "cfv st' = (cfv st)(n \<mapsto> b) \<Longrightarrow>
    (b \<Longrightarrow> get_nodes_block G n \<noteq> get_irg_start_block G \<Longrightarrow>
      \<forall>t \<in> set (out_edges G n). \<forall>p \<in> set (out_edges G t). is_Phi G p \<longrightarrow> p \<in> set ms) \<Longrightarrow> marks G n st (st', ms)"
  by (auto simp: marks_def)

lemma maybeMark_marks:
  assumes "maybeMarkControlFlow G n taken st = Inr r"
  shows "marks G n st r" "vals (fst r) = vals st"
proof -
  show "vals (fst r) = vals st"
    using assms by (auto simp: maybeMarkControlFlow_def Let_def split: if_splits)
  obtain st' ms where r: "r = (st', ms)" by (cases r)
  show "marks G n st r"
  proof (cases "cfv st' = cfv st")
    case True
    then show ?thesis by (simp add: marks_def r)
  next
    case False
    then obtain b where "cfv st' = (cfv st)(n \<mapsto> b)"
      and "b \<Longrightarrow> get_nodes_block G n \<noteq> get_irg_start_block G \<Longrightarrow>
        \<forall>t \<in> set (out_edges G n). \<forall>p \<in> set (out_edges G t). is_Phi G p \<longrightarrow> p \<in> set ms"
      using assms by (auto simp: maybeMarkControlFlow_def r Let_def split: if_splits) blast+
    then show ?thesis unfolding r by (rule marksI)
  qed
qed

lemma visitUnary_eq: "visitUnary G n f st = setNodeLink G n (lift1 f (vals st (get_op G n))) st"
  by (simp add: visitUnary_def lift1_def split: tarval.split)

lemma cp_visitCmp_eq: "cp_visitCmp tv G n st = Inr r \<Longrightarrow>
    setNodeLink G n (transfer st (get_left G n) (get_right G n) (cmp_fn tv G n)) st = Inr r"
  by (auto simp: cp_visitCmp_def transfer_def cmp_fn_def bindE_eq_Inr split: tarval.splits)

definition new_val :: "'v tv_ops \<Rightarrow> ir_graph \<Rightarrow> 'v cp \<Rightarrow> node \<Rightarrow> 'v tarval" where
  "new_val tv G st n = (case node_fn tv G st n of
       Some w \<Rightarrow> w
     | None \<Rightarrow> if is_Phi G n then phi_loop tv st (phi_args G n) TV_unknown else vals st n)"

lemma unchanged: "vals (fst r) = vals st \<Longrightarrow> changes_val G n (vals st n) st r"
  by (auto simp: changes_val_def split: prod.split)

lemma visitProj_effect:
  assumes "cp_visitProj tv G n st = Inr r" "get_irn_opcode G n = iro_Proj"
  shows "changes_val G n (new_val tv G st n) st r" "marks G n st r"
proof -
  obtain st1 q1 where m: "(if get_irn_mode G n = mode_X then bindE (cond_value tv G st n) (\<lambda>taken. maybeMarkControlFlow G n taken st)
      else Inr (st, [])) = Inr (st1, q1)"
      and 2: "(if get_irn_mode G n \<noteq> mode_M then
         bindE (setNodeLink G n (vals st1 (get_Proj_pred G n)) st1) (\<lambda>(st2, q2). Inr (st2, q1 @ q2))
       else Inr (st1, q1)) = Inr r"
    using assms(1) unfolding cp_visitProj_def by (auto simp: bindE_eq_Inr)
  have 1: "marks G n st (st1, q1)" "vals st1 = vals st"
    using m maybeMark_marks [of G n _ st "(st1, q1)"] by (auto simp: bindE_eq_Inr marks_def split: if_splits)
  have nv: "new_val tv G st n = (if get_irn_mode G n \<noteq> mode_M then vals st (get_Proj_pred G n) else vals st n)"
    using assms(2) by (simp add: new_val_def node_fn_def unary_fn_def is_opcode_defs)
  show "changes_val G n (new_val tv G st n) st r"
    using 1(2) 2 nv by (auto simp: bindE_eq_Inr changes_val_def setNodeLink_def split: if_splits)
  show "marks G n st r"
    using 1(1) 2 by (fastforce simp: bindE_eq_Inr marks_def setNodeLink_def split: if_splits)
qed

lemma cp_visit_effect:
  assumes "cp_visitNode tv G n st = Inr r"
  shows "changes_val G n (new_val tv G st n) st r" "marks G n st r" "is_Phi G n \<Longrightarrow> cfv (fst r) = cfv st"
proof -
  have same: "marks G n st r" if "cfv (fst r) = cfv st" using that by (cases r) (simp add: marks_def)
  have link: "changes_val G n (new_val tv G st n) st r \<and> cfv (fst r) = cfv st"
    if "setNodeLink G n (new_val tv G st n) st = Inr r" using setNodeLink_changes [OF that] .
  have mark: "changes_val G n (vals st n) st r \<and> marks G n st r" if "maybeMarkControlFlow G n taken st = Inr r" for taken
    using maybeMark_marks [OF that] unchanged by blast
  have "changes_val G n (new_val tv G st n) st r \<and> marks G n st r \<and> (is_Phi G n \<longrightarrow> cfv (fst r) = cfv st)"
  proof (cases "get_irn_opcode G n")
    case iro_Proj
    then have "cp_visitProj tv G n st = Inr r" using assms by (simp add: cp_visitNode_def)
    from visitProj_effect [OF this iro_Proj] show ?thesis using iro_Proj by (simp add: is_Phi_def)
  next
    case iro_Cmp
    then have "setNodeLink G n (new_val tv G st n) st = Inr r"
      using assms cp_visitCmp_eq [of tv G n st r]
      by (simp add: cp_visitNode_def new_val_def node_fn_def unary_fn_def is_opcode_defs)
    then show ?thesis using link same by blast
  next
    case iro_Phi
    then have "setNodeLink G n (new_val tv G st n) st = Inr r"
      using assms by (simp add: cp_visitNode_def cp_visitPhi_def new_val_def node_fn_def unary_fn_def is_opcode_defs split: if_splits)
    then show ?thesis using link same by blast
  next
    case iro_Jmp
    then show ?thesis using assms mark by (auto simp: cp_visitNode_def new_val_def node_fn_def unary_fn_def is_opcode_defs)
  next
    case iro_Bad
    then show ?thesis
      using assms mark same unchanged [of r st G n]
      by (auto simp: cp_visitNode_def new_val_def node_fn_def unary_fn_def is_opcode_defs split: if_splits)
  qed (use assms link same unchanged [of r st G n] in
      \<open>auto simp: cp_visitNode_def new_val_def node_fn_def unary_fn_def is_opcode_defs visitUnary_eq\<close>)
  then show "changes_val G n (new_val tv G st n) st r" "marks G n st r" "is_Phi G n \<Longrightarrow> cfv (fst r) = cfv st"
    by blast+
qed


section \<open>Graphs\<close>

text \<open>
  What the pass relies on of a graph: the inputs of a node are its operands, the edges are the
  inverse of the inputs, and the start block has no phi nodes and depends on no other block.
\<close>

definition in_start :: "ir_graph \<Rightarrow> node \<Rightarrow> bool" where
  "in_start G n \<longleftrightarrow> get_nodes_block G n = get_irg_start_block G \<and> \<not> is_Block G n"

definition cp_graph :: "'v tv_ops \<Rightarrow> ir_graph \<Rightarrow> node list \<Rightarrow> bool" where
  "cp_graph tv G ns \<longleftrightarrow> (\<forall>n \<in> set ns.
       operands tv G n \<subseteq> set (irn_in G n) \<and> (\<forall>p \<in> operands tv G n. n \<in> set (out_edges G p))
     \<and> (is_Cond G n \<longrightarrow> get_Cond_selector G n \<in> set (irn_in G n))
     \<and> (is_Phi G n \<longrightarrow> n \<in> set (out_edges G (get_nodes_block G n)) \<and>
         (\<forall>c \<in> set (get_Block_cfgpreds G (get_nodes_block G n)).
            c \<in> set ns \<and> get_nodes_block G n \<in> set (out_edges G c)))
     \<and> (in_start G n \<longrightarrow> \<not> is_Phi G n \<and> (\<forall>p \<in> set (irn_in G n). p \<in> set ns \<and> in_start G p)))"

lemma cp_graphD:
  assumes "cp_graph tv G ns" "n \<in> set ns"
  shows "operands tv G n \<subseteq> set (irn_in G n)" "p \<in> operands tv G n \<Longrightarrow> n \<in> set (out_edges G p)"
    "is_Cond G n \<Longrightarrow> get_Cond_selector G n \<in> set (irn_in G n)"
    "is_Phi G n \<Longrightarrow> n \<in> set (out_edges G (get_nodes_block G n))"
    "in_start G n \<Longrightarrow> \<not> is_Phi G n"
    "in_start G n \<Longrightarrow> p \<in> set (irn_in G n) \<Longrightarrow> p \<in> set ns \<and> in_start G p"
    "is_Phi G n \<Longrightarrow> c \<in> set (get_Block_cfgpreds G (get_nodes_block G n)) \<Longrightarrow>
      c \<in> set ns \<and> get_nodes_block G n \<in> set (out_edges G c)"
  using bspec [OF assms(1) [unfolded cp_graph_def] assms(2)] by simp_all

text \<open>The order of the walk: the inputs of a node of the start block come before the node.\<close>

definition before :: "'a list \<Rightarrow> 'a \<Rightarrow> 'a \<Rightarrow> bool" where
  "before ns p n \<longleftrightarrow> (\<exists>xs ys. ns = xs @ n # ys \<and> p \<in> set xs)"

lemma start_before:
  assumes "cp_graph tv G ns" "ordered G ns" "n \<in> set ns" "in_start G n" "p \<in> set (irn_in G n)"
  shows "before ns p n" "p \<in> set ns" "in_start G p"
proof -
  show p: "p \<in> set ns" "in_start G p" using cp_graphD [OF assms(1,3)] assms(4,5) by simp_all
  then have "\<not> is_loop_breaker G p" using cp_graphD(5) [OF assms(1)] by (simp add: is_loop_breaker_def in_start_def)
  obtain i where i: "i < length ns" "ns ! i = n" using assms(3) by (auto simp: in_set_conv_nth)
  have "p \<in> preds G n" using assms(5) by (simp add: preds_def)
  then have "p \<in> set (take i ns)" using assms(2) i \<open>\<not> is_loop_breaker G p\<close> unfolding ordered_def by blast
  then show "before ns p n" using id_take_nth_drop [OF i(1)] i(2) unfolding before_def by blast
qed

lemma before_trans: "distinct ns \<Longrightarrow> before ns p m \<Longrightarrow> before ns m n \<Longrightarrow> before ns p n"
  unfolding before_def
proof (elim exE conjE)
  fix xs ys us vs
  assume "distinct ns" "ns = xs @ m # ys" "p \<in> set xs" "ns = us @ n # vs" "m \<in> set us"
  then have "p \<in> set us"
    by (auto simp: append_eq_append_conv2 append_eq_Cons_conv Cons_eq_append_conv)
  then show "\<exists>xs ys. ns = xs @ n # ys \<and> p \<in> set xs" using \<open>ns = us @ n # vs\<close> by blast
qed

lemma before_irrefl: "distinct ns \<Longrightarrow> \<not> before ns n n"
  by (auto simp: before_def)

lemma before_prefix:
  assumes "distinct ns" "before ns p n" "P p" "filter P ns = dn @ sf" "n \<in> set dn"
  shows "p \<in> set dn"
proof -
  obtain xs ys where ns: "ns = xs @ n # ys" "p \<in> set xs" using assms(2) by (auto simp: before_def)
  have d: "distinct (dn @ sf)" using assms(1,4) by (metis distinct_filter)
  have "n \<in> set (filter P ns)" using assms(4,5) by simp
  then have "P n" by simp
  then have "filter P xs @ n # filter P ys = dn @ sf" using assms(4) ns by simp
  then have "set (filter P xs) \<subseteq> set dn"
    using assms(5) d by (auto simp: append_eq_append_conv2 Cons_eq_append_conv append_eq_Cons_conv)
  then show ?thesis using ns(2) assms(3) by auto
qed


section \<open>The start block\<close>

text \<open>
  The nodes of the start block get their final values in the first round, since their inputs are
  visited before them: \<open>dn\<close> are the nodes of the initial queue that were visited.
\<close>

definition final :: "'v tv_ops \<Rightarrow> ir_graph \<Rightarrow> 'v cp \<Rightarrow> node \<Rightarrow> bool" where
  "final tv G st n \<longleftrightarrow> (\<forall>v. node_fn tv G st n = Some v \<longrightarrow> vals st n = v)
     \<and> (is_Proj G n \<and> get_irn_mode G n = mode_X \<longrightarrow> (\<exists>t. cond_value tv G st n = Inr t \<and> cfv st n = Some t))"

definition start_inv :: "'v tv_ops \<Rightarrow> ir_graph \<Rightarrow> node list \<Rightarrow> node set \<Rightarrow> 'v cp \<Rightarrow> bool" where
  "start_inv tv G ns dn st \<longleftrightarrow> (\<forall>n \<in> set ns. in_start G n \<longrightarrow>
       (n \<in> dn \<longrightarrow> final tv G st n) \<and> (is_Proj G n \<and> n \<notin> dn \<longrightarrow> cfv st n = None)
     \<and> (is_Jmp G n \<longrightarrow> cfv st n \<noteq> Some False))"

lemma final_cong:
  assumes "final tv G st n" "vals st' n = vals st n" "cfv st' n = cfv st n" "is_Proj G n \<longrightarrow> get_Proj_pred G n \<in> operands tv G n"
    and "\<forall>p \<in> operands tv G n. vals st' p = vals st p"
    and "is_Proj G n \<Longrightarrow> is_Cond G (get_Proj_pred G n) \<Longrightarrow>
      vals st' (get_Cond_selector G (get_Proj_pred G n)) = vals st (get_Cond_selector G (get_Proj_pred G n))"
  shows "final tv G st' n"
proof -
  have "node_fn tv G st' n = node_fn tv G st n" using assms(5) by (intro node_fn_cong) simp
  moreover have "cond_value tv G st' n = cond_value tv G st n" if "is_Proj G n"
    using assms(6) that by (auto simp: cond_value_def Let_def split: tarval.split)
  ultimately show ?thesis using assms(1-3) by (simp add: final_def)
qed

lemma vals_only:
  assumes "vals st' = vals st"
  shows "node_fn tv G st' n = node_fn tv G st n" "cond_value tv G st' n = cond_value tv G st n"
  using node_fn_cong [of tv G n st' st] assms by (simp_all add: cond_value_def Let_def)

lemma proj_operand: "is_Proj G n \<Longrightarrow> get_Proj_pred G n \<in> operands tv G n"
  by (auto simp: operands_def unary_fn_def is_opcode_defs)

text \<open>Visiting a node again that has its final value changes nothing.\<close>

lemma visit_final:
  assumes "cp_visitNode tv G n st = Inr (st', ms)" "final tv G st n" "in_start G n" "\<not> is_Phi G n"
    and "is_Jmp G n \<longrightarrow> cfv st n \<noteq> Some False"
  shows "vals st' = vals st" "cfv st n \<noteq> None \<Longrightarrow> is_Proj G n \<Longrightarrow> cfv st' = cfv st"
proof -
  have "new_val tv G st n = vals st n"
    using assms(2,4) by (auto simp: new_val_def final_def split: option.split)
  then show "vals st' = vals st" using cp_visit_effect(1) [OF assms(1)] by (simp add: changes_val_def)
  show "cfv st' = cfv st" if c: "cfv st n \<noteq> None" "is_Proj G n"
  proof (cases "get_irn_mode G n = mode_X")
    case True
    then obtain t where t: "cond_value tv G st n = Inr t" "cfv st n = Some t" using assms(2) c(2) by (auto simp: final_def)
    have "maybeMarkControlFlow G n t st = Inr (st, [])" using t(2) that by (simp add: maybeMarkControlFlow_def)
    then show ?thesis
      using assms(1) that True t(1)
      by (auto simp: cp_visitNode_def cp_visitProj_def is_Proj_def setNodeLink_def bindE_eq_Inr split: if_splits)
  next
    case False
    then show ?thesis
      using assms(1) that
      by (auto simp: cp_visitNode_def cp_visitProj_def is_Proj_def setNodeLink_def bindE_eq_Inr split: if_splits)
  qed
qed


text \<open>The first visit of a conditional jump of the start block.\<close>

lemma visit_start_proj:
  assumes "cp_visitNode tv G n st = Inr (st', ms)" "is_Proj G n" "in_start G n" "get_irn_mode G n = mode_X" "cfv st n = None"
  shows "\<exists>t. cond_value tv G st n = Inr t \<and> cfv st' n = Some t"
proof -
  obtain t where t: "cond_value tv G st n = Inr t" "cfv st' = cfv (fst (projr (maybeMarkControlFlow G n t st)))"
      "\<not> isl (maybeMarkControlFlow G n t st)"
    using assms(1,2,4)
    by (auto simp: cp_visitNode_def cp_visitProj_def is_Proj_def setNodeLink_def bindE_eq_Inr split: if_splits)
  then show ?thesis
    using assms(3,5) by (auto simp: maybeMarkControlFlow_def in_start_def Let_def split: if_splits)
qed

lemma visit_cfv_other:
  assumes "cp_visitNode tv G n st = Inr (st', ms)"
  shows "m \<noteq> n \<Longrightarrow> cfv st' m = cfv st m" "m \<noteq> n \<Longrightarrow> vals st' m = vals st m"
    "\<not> is_Proj G n \<Longrightarrow> \<not> is_Jmp G n \<Longrightarrow> \<not> is_Bad G n \<Longrightarrow> cfv st' = cfv st"
    "is_Bad G n \<Longrightarrow> cfv st n = Some False \<Longrightarrow> cfv st' n = Some False"
    "is_Jmp G n \<Longrightarrow> in_start G n \<Longrightarrow> cfv st' n = Some True"
proof -
  show "m \<noteq> n \<Longrightarrow> cfv st' m = cfv st m" using cp_visit_effect(2) [OF assms] by (auto simp: marks_def)
  show "m \<noteq> n \<Longrightarrow> vals st' m = vals st m" using cp_visit_effect(1) [OF assms] by (simp add: changes_val_def)
  show "\<not> is_Proj G n \<Longrightarrow> \<not> is_Jmp G n \<Longrightarrow> \<not> is_Bad G n \<Longrightarrow> cfv st' = cfv st"
    using assms setNodeLink_changes [of G n _ st "(st', ms)"]
    by (cases "get_irn_opcode G n") (auto simp: cp_visitNode_def is_opcode_defs visitUnary_eq cp_visitPhi_def dest: cp_visitCmp_eq split: if_splits)
  show "is_Bad G n \<Longrightarrow> cfv st n = Some False \<Longrightarrow> cfv st' n = Some False"
    using assms by (auto simp: cp_visitNode_def is_Bad_def maybeMarkControlFlow_def split: if_splits)
  show "is_Jmp G n \<Longrightarrow> in_start G n \<Longrightarrow> cfv st' n = Some True"
    using assms by (auto simp: cp_visitNode_def is_Jmp_def in_start_def maybeMarkControlFlow_def Let_def split: if_splits)
qed


text \<open>One visit: \<open>dn\<close> and \<open>sf\<close> are the visited and the remaining nodes of the initial queue.\<close>

definition cp_step :: "'v tv_ops \<Rightarrow> ir_graph \<Rightarrow> node list \<Rightarrow> node list \<Rightarrow> node list \<Rightarrow> node \<Rightarrow> 'v cp \<Rightarrow> 'v cp \<Rightarrow> node list \<Rightarrow> bool" where
  "cp_step tv G ns dn sf n st st' ms \<longleftrightarrow> cp_graph tv G ns \<and> ordered G ns \<and> distinct ns
     \<and> filter (\<lambda>n. \<not> is_Const G n) ns = dn @ sf \<and> (n \<in> set sf \<longrightarrow> sf = n # tl sf)
     \<and> start_inv tv G ns (set dn) st \<and> cp_visitNode tv G n st = Inr (st', ms)"

lemma cp_stepD:
  assumes "cp_step tv G ns dn sf n st st' ms"
  shows "cp_graph tv G ns" "ordered G ns" "distinct ns" "filter (\<lambda>n. \<not> is_Const G n) ns = dn @ sf"
    "n \<in> set sf \<Longrightarrow> sf = n # tl sf" "start_inv tv G ns (set dn) st" "cp_visitNode tv G n st = Inr (st', ms)"
  using assms by (auto simp: cp_step_def)

lemma start_invD:
  assumes "start_inv tv G ns dn st" "n \<in> set ns" "in_start G n"
  shows "n \<in> dn \<Longrightarrow> final tv G st n" "is_Proj G n \<Longrightarrow> n \<notin> dn \<Longrightarrow> cfv st n = None" "is_Jmp G n \<Longrightarrow> cfv st n \<noteq> Some False"
  using assms by (auto simp: start_inv_def)

lemma const_final: "is_Const G n \<Longrightarrow> final tv G st n"
  by (simp add: final_def node_fn_def unary_fn_def is_opcode_defs)

lemma visited_before:
  assumes "cp_step tv G ns dn sf n st st' ms" "m \<in> set dn" "before ns p m" "p \<in> set ns" "in_start G p"
  shows "vals st' p = vals st p"
proof (cases "p = n")
  case True
  note d = cp_stepD [OF assms(1)]
  have "final tv G st n"
  proof (cases "is_Const G n")
    case False
    then have "n \<in> set dn" using before_prefix [OF d(3) _ _ d(4) assms(2)] assms(3) True by simp
    then show ?thesis using start_invD(1) [OF d(6)] assms(4,5) True by simp
  qed (rule const_final)
  then show ?thesis
    using visit_final(1) [OF d(7)] cp_graphD(5) [OF d(1)] start_invD(3) [OF d(6)] assms(4,5) True by simp
qed (rule visit_cfv_other(2) [OF cp_stepD(7) [OF assms(1)]])

lemma start_inputs:
  assumes "cp_graph tv G ns" "ordered G ns" "distinct ns" "m \<in> set ns" "in_start G m"
  shows "p \<in> operands tv G m \<Longrightarrow> before ns p m \<and> p \<in> set ns \<and> in_start G p"
    and "is_Proj G m \<Longrightarrow> is_Cond G (get_Proj_pred G m) \<Longrightarrow> p = get_Cond_selector G (get_Proj_pred G m) \<Longrightarrow>
      before ns p m \<and> p \<in> set ns \<and> in_start G p"
proof -
  show op: "before ns p m \<and> p \<in> set ns \<and> in_start G p" if "p \<in> operands tv G m" for p
    using start_before [OF assms(1,2,4,5)] cp_graphD(1) [OF assms(1,4)] that by blast
  assume "is_Proj G m" and c: "is_Cond G (get_Proj_pred G m)" and p: "p = get_Cond_selector G (get_Proj_pred G m)"
  then have "get_Proj_pred G m \<in> operands tv G m" using proj_operand by blast
  note r = op [OF this]
  have "p \<in> set (irn_in G (get_Proj_pred G m))" using cp_graphD(3) [OF assms(1)] r c p by simp
  with start_before [OF assms(1,2)] r have "before ns p (get_Proj_pred G m) \<and> p \<in> set ns \<and> in_start G p" by blast
  then show "before ns p m \<and> p \<in> set ns \<and> in_start G p" using before_trans [OF assms(3)] r by blast
qed

lemma start_step_final:
  assumes "cp_step tv G ns dn sf n st st' ms" "m \<in> set ns" "in_start G m" "m \<in> set dn"
  shows "final tv G st' m"
proof -
  note d = cp_stepD [OF assms(1)]
  have m: "final tv G st m" using start_invD(1) [OF d(6)] assms by simp
  note i = start_inputs [OF d(1,2,3) assms(2,3)]
  show ?thesis
  proof (cases "m = n")
    case True
    note v = visit_final [OF d(7) _ _ cp_graphD(5) [OF d(1)]]
    have same: "vals st' = vals st" using v(1) m assms(2,3) True start_invD(3) [OF d(6)] by blast
    have "cfv st' = cfv st" if "is_Proj G n" "get_irn_mode G n = mode_X"
      using v(2) m assms(2,3) True start_invD(3) [OF d(6)] that by (auto simp: final_def)
    then show ?thesis using m True by (auto simp: final_def same vals_only [OF same])
  next
    case False
    show ?thesis
      by (rule final_cong [OF m visit_cfv_other(2) [OF d(7) False] visit_cfv_other(1) [OF d(7) False]])
        (use proj_operand visited_before [OF assms(1,4)] i in blast)+
  qed
qed


lemma start_step_new:
  assumes "cp_step tv G ns dn sf n st st' ms" "n \<in> set ns" "in_start G n" "n \<notin> set dn"
  shows "final tv G st' n"
proof -
  note d = cp_stepD [OF assms(1)]
  note i = start_inputs [OF d(1,2,3) assms(2,3)]
  have ne: "vals st' p = vals st p" if "before ns p n" for p
    using visit_cfv_other(2) [OF d(7)] before_irrefl [OF d(3)] that by metis
  have fn: "node_fn tv G st' n = node_fn tv G st n" using i(1) ne by (intro node_fn_cong) blast
  have cv: "cond_value tv G st' n = cond_value tv G st n" if "is_Proj G n"
    using i(2) [OF that] ne by (simp add: cond_value_def Let_def)
  have "vals st' n = new_val tv G st n" using cp_visit_effect(1) [OF d(7)] by (simp add: changes_val_def)
  then have "vals st' n = v" if "node_fn tv G st n = Some v" for v using that by (simp add: new_val_def)
  moreover have "\<exists>t. cond_value tv G st n = Inr t \<and> cfv st' n = Some t" if "is_Proj G n" "get_irn_mode G n = mode_X"
    by (rule visit_start_proj [OF d(7) that(1) assms(3) that(2)]) (use start_invD(2) [OF d(6) assms(2,3)] assms(4) that in blast)
  ultimately show ?thesis using fn cv by (simp add: final_def)
qed

lemma start_step:
  assumes "cp_step tv G ns dn sf n st st' ms"
  shows "start_inv tv G ns (set (if n \<in> set sf then dn @ [n] else dn)) st'"
  unfolding start_inv_def
proof (intro ballI impI conjI)
  fix m assume m: "m \<in> set ns" "in_start G m"
  note d = cp_stepD [OF assms]
  let ?dn = "set (if n \<in> set sf then dn @ [n] else dn)"
  show "final tv G st' m" if "m \<in> ?dn"
    using that start_step_final [OF assms m] start_step_new [OF assms] m by (cases "m \<in> set dn") (auto split: if_splits)
  show "cfv st' m = None" if p: "is_Proj G m \<and> m \<notin> ?dn"
  proof -
    have "m \<in> set (dn @ sf)" using p m(1) unfolding d(4) [symmetric] by (auto simp: is_opcode_defs)
    then have "m \<noteq> n" using p by (auto split: if_splits)
    then show ?thesis
      using visit_cfv_other(1) [OF d(7)] start_invD(2) [OF d(6) m] p by (auto split: if_splits)
  qed
  show "cfv st' m \<noteq> Some False" if "is_Jmp G m"
    using visit_cfv_other(1,5) [OF d(7)] start_invD(3) [OF d(6) m] that m by (cases "m = n") auto
qed

text \<open>A control flow mark of the start block does not change from \<open>False\<close> to \<open>True\<close>.\<close>

lemma start_no_flip:
  assumes "cp_step tv G ns dn sf n st st' ms" "n \<in> set ns" "in_start G n" "cfv st n = Some False"
  shows "cfv st' n = Some False"
proof -
  note d = cp_stepD [OF assms(1)]
  note inv = start_invD [OF d(6) assms(2,3)]
  show ?thesis
  proof (cases "is_Proj G n")
    case True
    then have "final tv G st n" using inv(1,2) assms(4) by (cases "n \<in> set dn") auto
    moreover have "\<not> is_Jmp G n" using True by (simp add: is_opcode_defs)
    ultimately show ?thesis
      using visit_final(2) [OF d(7) _ assms(3) cp_graphD(5) [OF d(1) assms(2,3)]] True assms(4) by simp
  next
    case False
    moreover have "\<not> is_Jmp G n" using inv(3) assms(4) by blast
    ultimately show ?thesis using visit_cfv_other(3,4) [OF d(7)] assms(4) by (cases "is_Bad G n") simp_all
  qed
qed


section \<open>Stable states\<close>

definition stable :: "'v tv_ops \<Rightarrow> ir_graph \<Rightarrow> 'v cp \<Rightarrow> node \<Rightarrow> bool" where
  "stable tv G st n \<longleftrightarrow> (\<forall>v. node_fn tv G st n = Some v \<longrightarrow> vals st n = v)
     \<and> (is_Phi G n \<longrightarrow> tv_le (phi_loop tv st (phi_args G n) TV_unknown) (vals st n))"

lemma phi_operands: "is_Phi G m \<Longrightarrow> (p, c) \<in> set (phi_args G m) \<Longrightarrow>
    p \<in> operands tv G m \<and> c \<in> set (get_Block_cfgpreds G (get_nodes_block G m))"
  by (auto simp: phi_args_def operands_def unary_fn_def is_opcode_defs dest: set_zip_leftD set_zip_rightD)

lemma new_taken_edge:
  assumes "cp_step tv G ns dn sf n st st' ms" "m \<in> set ns" "is_Phi G m" "m \<notin> set ms"
    and "c \<in> set (get_Block_cfgpreds G (get_nodes_block G m))" "cfv st c = Some False"
  shows "cfv st' c = Some False"
proof (rule ccontr)
  note d = cp_stepD [OF assms(1)]
  assume new: "cfv st' c \<noteq> Some False"
  then have c: "c = n" using visit_cfv_other(1) [OF d(7)] assms(6) by metis
  have n: "n \<in> set ns" "get_nodes_block G m \<in> set (out_edges G n)" "m \<in> set (out_edges G (get_nodes_block G m))"
    using cp_graphD(4,7) [OF d(1) assms(2,3)] assms(5) c by auto
  have "is_Proj G n \<or> is_Jmp G n \<or> is_Bad G n" using visit_cfv_other(3) [OF d(7)] new c assms(6) by metis
  then have b: "\<not> is_Block G n" by (auto simp: is_opcode_defs)
  show False
  proof (cases "get_nodes_block G n = get_irg_start_block G")
    case True
    then show False using start_no_flip [OF assms(1) n(1)] b new c assms(6) by (simp add: in_start_def)
  next
    case False
    have "\<exists>b. cfv st' = (cfv st)(n \<mapsto> b)" using cp_visit_effect(2) [OF d(7)] new c assms(6) by (auto simp: marks_def)
    then have "cfv st' n = Some True" using new c by auto
    then have "p \<in> set ms" if "t \<in> set (out_edges G n)" "p \<in> set (out_edges G t)" "is_Phi G p" for t p
      using cp_visit_effect(2) [OF d(7)] False new c assms(6) that by (auto simp: marks_def)
    then show False using n assms(3,4) by blast
  qed
qed

lemma stable_step:
  assumes "cp_step tv G ns dn sf n st st' ms" "cmp_exact tv" "m \<in> set ns" "m = n \<or> stable tv G st m" "m \<notin> set ms"
  shows "stable tv G st' m"
proof -
  note d = cp_stepD [OF assms(1)] and e = cp_visit_effect [OF cp_stepD(7) [OF assms(1)]]
  have V: "vals st' p = vals st p" if "p \<in> operands tv G m" for p
  proof (cases "p = n \<and> vals st' n \<noteq> vals st n")
    case True
    then have "m \<in> set ms" using e(1) cp_graphD(2) [OF d(1) assms(3) that] by (auto simp: changes_val_def)
    then show ?thesis using assms(5) by simp
  qed (use visit_cfv_other(2) [OF d(7)] in metis)
  have fn: "node_fn tv G st' m = node_fn tv G st m" using V by (intro node_fn_cong) simp
  have nv: "vals st' n = new_val tv G st n" using e(1) by (simp add: changes_val_def)
  have "vals st' m = v" if "node_fn tv G st' m = Some v" for v
  proof -
    have "node_fn tv G st m = Some v" using that fn by simp
    then show ?thesis
      using assms(4) nv visit_cfv_other(2) [OF d(7), of m] by (cases "m = n") (simp_all add: new_val_def stable_def)
  qed
  moreover have "tv_le (phi_loop tv st' (phi_args G m) TV_unknown) (vals st' m)" if phi: "is_Phi G m"
  proof (cases "m = n")
    case True
    have "phi_loop tv st' (phi_args G m) TV_unknown = phi_loop tv st (phi_args G m) TV_unknown"
      using e(3) phi V phi_operands [OF phi] True by (intro phi_loop_cong) auto
    moreover have "new_val tv G st n = phi_loop tv st (phi_args G m) TV_unknown"
      using phi True by (simp add: new_val_def node_fn_def unary_fn_def is_opcode_defs)
    ultimately show ?thesis using nv True by simp
  next
    case False
    have old: "tv_le (phi_loop tv st (phi_args G m) TV_unknown) (vals st m)" using assms(4) False phi by (simp add: stable_def)
    show ?thesis
    proof (rule phi_loop_least [OF assms(2)])
      fix p c assume pc: "(p, c) \<in> set (phi_args G m)" "cfv st' c \<noteq> Some False"
      then have "cfv st c \<noteq> Some False"
        using new_taken_edge [OF assms(1,3) phi assms(5)] phi_operands [OF phi] by blast
      then have "tv_le (vals st p) (phi_loop tv st (phi_args G m) TV_unknown)" by (rule phi_loop_upper(2) [OF assms(2) pc(1)])
      then show "tv_le (vals st' p) (vals st' m)"
        using old tv_le_trans V phi_operands [OF phi pc(1)] visit_cfv_other(2) [OF d(7) False] by metis
    qed simp
  qed
  ultimately show ?thesis by (simp add: stable_def)
qed


section \<open>The work list\<close>

lemma run_queue_stable:
  assumes "cp_graph tv G ns" "ordered G ns" "distinct ns" "cmp_exact tv"
  shows "run_queue k (cp_visitNode tv G) (sf @ ex) st = Some (Inr st') \<Longrightarrow>
    filter (\<lambda>n. \<not> is_Const G n) ns = dn @ sf \<Longrightarrow> start_inv tv G ns (set dn) st \<Longrightarrow>
    (\<And>m. m \<in> set ns \<Longrightarrow> m \<in> set (sf @ ex) \<or> stable tv G st m) \<Longrightarrow> \<forall>m \<in> set ns. stable tv G st' m"
proof (induction k arbitrary: sf ex st dn)
  case 0
  then show ?case by (cases "sf @ ex") auto
next
  case (Suc k)
  show ?case
  proof (cases "sf @ ex")
    case Nil
    then show ?thesis using Suc.prems by auto
  next
    case (Cons n q)
    then obtain st1 ms where v: "cp_visitNode tv G n st = Inr (st1, ms)" "run_queue k (cp_visitNode tv G) (q @ ms) st1 = Some (Inr st')"
      using Suc.prems(1) by (auto split: sum.splits)
    define sf' where "sf' = (if sf = [] then [] else tl sf)"
    define dn' where "dn' = (if sf = [] then dn else dn @ [n])"
    have q: "q = sf' @ (if sf = [] then tl ex else ex)" using Cons by (cases sf) (auto simp: sf'_def)
    have hd: "sf \<noteq> [] \<Longrightarrow> sf = n # tl sf" using Cons by (cases sf) auto
    then have "n \<in> set sf \<longrightarrow> sf = n # tl sf" by (cases sf) simp_all
    then have step: "cp_step tv G ns dn sf n st st1 ms"
      using assms(1-3) Suc.prems(2,3) v(1) by (simp add: cp_step_def)
    have dn: "filter (\<lambda>n. \<not> is_Const G n) ns = dn' @ sf'" using Suc.prems(2) hd by (cases sf) (simp_all add: dn'_def sf'_def)
    have "(if n \<in> set sf then dn @ [n] else dn) = dn'" using hd by (cases sf) (auto simp: dn'_def)
    then have inv: "start_inv tv G ns (set dn') st1" using start_step [OF step] by simp
    have "m \<in> set (q @ ms) \<or> stable tv G st1 m" if "m \<in> set ns" for m
      using stable_step [OF step assms(4) that] Suc.prems(4) [OF that] Cons by auto
    then show ?thesis using Suc.IH [of sf' "(if sf = [] then tl ex else ex) @ ms" st1 dn'] v(2) dn inv q by simp
  qed
qed

text \<open>Nodes without an equation keep their initial values.\<close>

lemma visit_keeps: "cp_visitNode tv G n st = Inr (st', ms) \<Longrightarrow> node_fn tv G st m = None \<Longrightarrow> \<not> is_Phi G m \<Longrightarrow> vals st' m = vals st m"
  using cp_visit_effect(1) [of tv G n st "(st', ms)"] by (auto simp: changes_val_def new_val_def)

lemma node_fn_None: "node_fn tv G st n = None \<longleftrightarrow> node_fn tv G st' n = None"
  by (auto simp: node_fn_def split: option.splits)

lemma run_queue_keeps:
  "run_queue k (cp_visitNode tv G) q st = Some (Inr st') \<Longrightarrow> node_fn tv G st m = None \<Longrightarrow> \<not> is_Phi G m \<Longrightarrow> vals st' m = vals st m"
proof (induction k "cp_visitNode tv G" q st rule: run_queue.induct)
  case (3 k n ns st)
  then obtain st1 ms where "cp_visitNode tv G n st = Inr (st1, ms)" "run_queue k (cp_visitNode tv G) (ns @ ms) st1 = Some (Inr st')"
    by (auto split: sum.splits)
  then show ?case using "3.hyps" [of "(st1, ms)" st1 ms] "3.prems" visit_keeps node_fn_None by metis
qed auto

lemma walk_order:
  assumes "initNodesTopological k G = Some ns"
  shows "distinct ns" "ordered G ns" "n \<in> set ns \<Longrightarrow> p \<in> preds G n \<Longrightarrow> p \<in> set ns"
proof -
  obtain vis where run: "init_topological k G (get_irg_end G) ([], []) = Some (vis, ns)"
    using assms by (auto simp: initNodesTopological_def)
  note inv = init_topological_inv(1) [OF run walk_inv_start]
  then show "distinct ns" "ordered G ns" by (auto simp: walk_inv_simp)
  have "set vis = set ns" using inv by (auto simp: extends_def)
  then show "n \<in> set ns \<Longrightarrow> p \<in> preds G n \<Longrightarrow> p \<in> set ns" using inv by (auto simp: walk_inv_simp)
qed

lemma start_state:
  assumes "cp_start tv G ns = (st, q)"
  shows "start_inv tv G ns {} st" "q = filter (\<lambda>n. \<not> is_Const G n) ns" "vals st = cp_init tv G"
  using assms by (auto simp: cp_start_def start_inv_def)

lemma const_prop_stable:
  assumes "ConstPropPass k tv G = Some (Inr (st, xs))" "initNodesTopological k G = Some ns" "cp_graph tv G ns" "cmp_exact tv"
  shows "n \<in> set ns \<Longrightarrow> stable tv G st n"
    and "node_fn tv G st n = None \<Longrightarrow> \<not> is_Phi G n \<Longrightarrow> vals st n = cp_init tv G n"
    and "substituteNodes tv G st ns = Inr xs"
proof -
  obtain st0 q0 where s0: "cp_start tv G ns = (st0, q0)" by fastforce
  then have run: "run_queue k (cp_visitNode tv G) q0 st0 = Some (Inr st)" and sub: "substituteNodes tv G st ns = Inr xs"
    using assms(1,2) by (auto simp: ConstPropPass_def bindE_eq_Inr split: if_splits)
  note i = start_state [OF s0] and w = walk_order [OF assms(2)]
  have "\<forall>m \<in> set ns. stable tv G st m"
  proof (rule run_queue_stable [OF assms(3) w(2,1) assms(4), of k q0 "[]" st0 st "[]"])
    show "m \<in> set (q0 @ []) \<or> stable tv G st0 m" if "m \<in> set ns" for m
      using that i(2) by (cases "is_Const G m") (simp_all add: stable_def node_fn_def unary_fn_def is_opcode_defs)
  qed (use run i in simp_all)
  then show "n \<in> set ns \<Longrightarrow> stable tv G st n" by blast
  show "vals st n = cp_init tv G n" if "node_fn tv G st n = None" "\<not> is_Phi G n"
    using run_queue_keeps [OF run, of n] that node_fn_None [of tv G st n st0] i(3) by simp
  show "substituteNodes tv G st ns = Inr xs" by (rule sub)
qed


section \<open>Executions\<close>

text \<open>
  Nodes whose value the pass knows nothing about: loads, calls, parameters and the like, and the
  projections of them.
\<close>

inductive opaque :: "ir_graph \<Rightarrow> node \<Rightarrow> bool" for G where
  other: "get_irn_opcode G n \<notin> {iro_Add, iro_Sub, iro_Mul, iro_Div, iro_Mod, iro_Minus, iro_Not, iro_Conv, iro_Cmp,
     iro_Phi, iro_Const, iro_Proj} \<Longrightarrow> opaque G n"
| mem: "is_Proj G n \<Longrightarrow> get_irn_mode G n = mode_M \<Longrightarrow> opaque G n"
| proj: "is_Proj G n \<Longrightarrow> opaque G (get_Proj_pred G n) \<Longrightarrow> opaque G n"

text \<open>
  An execution assigns values to nodes one after the other, in any order and as often as it likes, from
  the latest values of their operands.  A phi node takes the value of the operand for an edge that may
  be taken.  An operation without a result, such as a division by zero, may give any value.
\<close>

inductive execution :: "'v tv_ops \<Rightarrow> ir_graph \<Rightarrow> node list \<Rightarrow> (node \<Rightarrow> bool) \<Rightarrow> (node \<rightharpoonup> 'v) \<Rightarrow> bool" for tv G ns taken where
  init: "execution tv G ns taken Map.empty"
| const: "execution tv G ns taken \<rho> \<Longrightarrow> n \<in> set ns \<Longrightarrow> is_Const G n \<Longrightarrow> get_Const_tarval tv n = TV v
    \<Longrightarrow> execution tv G ns taken (\<rho>(n \<mapsto> v))"
| binary: "execution tv G ns taken \<rho> \<Longrightarrow> n \<in> set ns \<Longrightarrow> binary_fn tv (get_irn_opcode G n) = Some f
    \<Longrightarrow> \<rho> (get_left G n) = Some a \<Longrightarrow> \<rho> (get_right G n) = Some b \<Longrightarrow> f a b = TV v \<or> f a b = TV_bad
    \<Longrightarrow> execution tv G ns taken (\<rho>(n \<mapsto> v))"
| unary: "execution tv G ns taken \<rho> \<Longrightarrow> n \<in> set ns \<Longrightarrow> unary_fn tv G n = Some f
    \<Longrightarrow> \<rho> (get_op G n) = Some a \<Longrightarrow> f a = TV v \<or> f a = TV_bad \<Longrightarrow> execution tv G ns taken (\<rho>(n \<mapsto> v))"
| cmp: "execution tv G ns taken \<rho> \<Longrightarrow> n \<in> set ns \<Longrightarrow> is_Cmp G n
    \<Longrightarrow> \<rho> (get_left G n) = Some a \<Longrightarrow> \<rho> (get_right G n) = Some b \<Longrightarrow> cmp_fn tv G n a b = TV v
    \<Longrightarrow> execution tv G ns taken (\<rho>(n \<mapsto> v))"
| proj: "execution tv G ns taken \<rho> \<Longrightarrow> n \<in> set ns \<Longrightarrow> is_Proj G n \<Longrightarrow> get_irn_mode G n \<noteq> mode_M
    \<Longrightarrow> \<rho> (get_Proj_pred G n) = Some v \<Longrightarrow> execution tv G ns taken (\<rho>(n \<mapsto> v))"
| phi: "execution tv G ns taken \<rho> \<Longrightarrow> n \<in> set ns \<Longrightarrow> is_Phi G n \<Longrightarrow> (p, c) \<in> set (phi_args G n) \<Longrightarrow> taken c
    \<Longrightarrow> \<rho> p = Some v \<Longrightarrow> execution tv G ns taken (\<rho>(n \<mapsto> v))"
| opaque: "execution tv G ns taken \<rho> \<Longrightarrow> n \<in> set ns \<Longrightarrow> opaque G n \<Longrightarrow> execution tv G ns taken (\<rho>(n \<mapsto> v))"

definition agrees :: "'v tarval \<Rightarrow> 'v \<Rightarrow> bool" where
  "agrees x v \<longleftrightarrow> x = TV_bad \<or> x = TV v"

lemma agrees_le: "agrees x v \<Longrightarrow> tv_le x y \<Longrightarrow> agrees y v"
  by (auto simp: agrees_def tv_le_def)

lemma opaque_bad:
  assumes "opaque G n" "n \<in> set ns" "\<And>m. m \<in> set ns \<Longrightarrow> stable tv G st m"
    and "\<And>m. node_fn tv G st m = None \<Longrightarrow> \<not> is_Phi G m \<Longrightarrow> vals st m = cp_init tv G m"
    and "\<And>m. m \<in> set ns \<Longrightarrow> is_Proj G m \<Longrightarrow> get_Proj_pred G m \<in> set ns"
  shows "vals st n = TV_bad"
  using assms(1,2)
proof (induction rule: opaque.induct)
  case (other n)
  then have "node_fn tv G st n = None" "\<not> is_Phi G n" "cp_init tv G n = TV_bad"
    by (cases "get_irn_opcode G n"; simp add: node_fn_def unary_fn_def is_opcode_defs cp_init_def)+
  then show ?case using assms(4) by simp
next
  case (mem n)
  then have "node_fn tv G st n = None" "\<not> is_Phi G n" "cp_init tv G n = TV_bad"
    by (simp_all add: node_fn_def unary_fn_def is_opcode_defs cp_init_def)
  then show ?case using assms(4) by simp
next
  case (proj n)
  have p: "vals st (get_Proj_pred G n) = TV_bad" using proj assms(5) by blast
  show ?case
  proof (cases "get_irn_mode G n = mode_M")
    case True
    then have "node_fn tv G st n = None" "\<not> is_Phi G n" "cp_init tv G n = TV_bad"
      using proj(1) by (simp_all add: node_fn_def unary_fn_def is_opcode_defs cp_init_def)
    then show ?thesis using assms(4) by simp
  next
    case False
    then have "node_fn tv G st n = Some (vals st (get_Proj_pred G n))"
      using proj(1) by (simp add: node_fn_def unary_fn_def is_opcode_defs)
    then show ?thesis using assms(3) [OF proj(4)] p by (simp add: stable_def)
  qed
qed

lemma stable_agrees:
  assumes "execution tv G ns (\<lambda>c. cfv st c \<noteq> Some False) \<rho>" "cmp_exact tv" "\<And>m. m \<in> set ns \<Longrightarrow> stable tv G st m"
    and "\<And>m. node_fn tv G st m = None \<Longrightarrow> \<not> is_Phi G m \<Longrightarrow> vals st m = cp_init tv G m"
    and "\<And>m. m \<in> set ns \<Longrightarrow> is_Proj G m \<Longrightarrow> get_Proj_pred G m \<in> set ns"
  shows "\<rho> n = Some v \<Longrightarrow> agrees (vals st n) v"
  using assms(1)
proof (induction arbitrary: n v rule: execution.induct)
  case (const \<rho> m u)
  have "vals st m = TV u"
    using assms(4) [of m] const by (simp add: node_fn_def unary_fn_def is_opcode_defs cp_init_def)
  then show ?case using const by (auto simp: agrees_def split: if_splits)
next
  case (binary \<rho> m f a b u)
  have "vals st m = transfer st (get_left G m) (get_right G m) f"
    using assms(3) [OF binary(2)] binary(3) by (simp add: stable_def node_fn_def)
  then have "agrees (vals st m) u"
    using binary.IH [OF binary(4)] binary.IH [OF binary(5)] binary(6) by (auto simp: agrees_def transfer_def split: tarval.splits)
  then show ?case using binary by (auto split: if_splits)
next
  case (unary \<rho> m f a u)
  have "binary_fn tv (get_irn_opcode G m) = None" using unary(3) by (auto simp: unary_fn_def split: opcode.splits)
  then have "vals st m = lift1 f (vals st (get_op G m))"
    using assms(3) [OF unary(2)] unary(3) by (simp add: stable_def node_fn_def)
  then have "agrees (vals st m) u" using unary.IH [OF unary(4)] unary(5) by (auto simp: agrees_def lift1_def)
  then show ?case using unary by (auto split: if_splits)
next
  case (cmp \<rho> m a b u)
  have "vals st m = transfer st (get_left G m) (get_right G m) (cmp_fn tv G m)"
    using assms(3) [OF cmp(2)] cmp(3) by (simp add: stable_def node_fn_def unary_fn_def is_opcode_defs)
  then have "agrees (vals st m) u"
    using cmp.IH [OF cmp(4)] cmp.IH [OF cmp(5)] cmp(6) by (auto simp: agrees_def transfer_def split: tarval.splits)
  then show ?case using cmp by (auto split: if_splits)
next
  case (proj \<rho> m u)
  have "vals st m = vals st (get_Proj_pred G m)"
    using assms(3) [OF proj(2)] proj(3,4) by (simp add: stable_def node_fn_def unary_fn_def is_opcode_defs)
  then have "agrees (vals st m) u" using proj.IH [OF proj(5)] by simp
  then show ?case using proj by (auto split: if_splits)
next
  case (phi \<rho> m p c u)
  have le: "tv_le (phi_loop tv st (phi_args G m) TV_unknown) (vals st m)"
    using assms(3) [OF phi(2)] phi(3) by (simp add: stable_def)
  have "agrees (vals st m) u"
    by (rule agrees_le [OF phi.IH [OF phi(6)] tv_le_trans [OF phi_loop_upper(2) [OF assms(2) phi(4,5)] le]])
  then show ?case using phi by (auto split: if_splits)
next
  case (opaque \<rho> m u)
  have "vals st m = TV_bad" by (rule opaque_bad [OF opaque(3,2) assms(3,4,5)])
  then show ?case using opaque by (auto simp: agrees_def split: if_splits)
qed simp

lemma substituteNode_const:
  assumes "substituteNode tv G st m = Inr ys" "(n, R_Const v) \<in> set ys"
  shows "vals st n = TV v"
proof (cases "vals st m")
  case (TV u)
  then show ?thesis using assms by (cases "is_Const G m") (auto simp: substituteNode_def split: option.splits)
next
  case TV_unknown
  then show ?thesis
    using assms by (cases "vals st (get_Cond_selector G (get_Proj_pred G m))") (auto simp: substituteNode_def Let_def split: if_splits)
next
  case TV_bad
  then show ?thesis
    using assms by (cases "vals st (get_Cond_selector G (get_Proj_pred G m))") (auto simp: substituteNode_def Let_def split: if_splits)
qed

lemma substituteNodes_const:
  "substituteNodes tv G st ns = Inr xs \<Longrightarrow> (n, R_Const v) \<in> set xs \<Longrightarrow> vals st n = TV v"
proof (induction ns arbitrary: xs)
  case (Cons m ns)
  then obtain ys zs where "substituteNode tv G st m = Inr ys" "substituteNodes tv G st ns = Inr zs" "xs = ys @ zs"
    by (auto simp: bindE_eq_Inr)
  then show ?case using Cons substituteNode_const [of tv G st m ys n v] by auto
qed simp

text \<open>
  C35: Constant propagation is sound: a node that the pass replaces by a constant has this value in every
  execution of the graph that takes no edge which the pass has marked as not taken.
\<close>

theorem const_prop_sound:
  assumes "ConstPropPass k tv G = Some (Inr (st, xs))" "initNodesTopological k G = Some ns"
    and "cp_graph tv G ns" "cmp_exact tv" "execution tv G ns (\<lambda>c. cfv st c \<noteq> Some False) \<rho>"
  shows "\<forall>n v w. (n, R_Const v) \<in> set xs \<and> \<rho> n = Some w \<longrightarrow> w = v"
proof (intro allI impI)
  fix n v w assume n: "(n, R_Const v) \<in> set xs \<and> \<rho> n = Some w"
  note c = const_prop_stable [OF assms(1-4)]
  have "get_Proj_pred G m \<in> set ns" if "m \<in> set ns" "is_Proj G m" for m
    using walk_order(3) [OF assms(2) that(1)] cp_graphD(1) [OF assms(3) that(1)] proj_operand [OF that(2)]
    by (auto simp: preds_def)
  then have "agrees (vals st n) w" using stable_agrees [OF assms(5,4) c(1,2)] n by blast
  moreover have "vals st n = TV v" using substituteNodes_const [OF c(3)] n by blast
  ultimately show "w = v" by (simp add: agrees_def)
qed


section \<open>An example\<close>

definition wrap32 :: "int \<Rightarrow> int" where
  "wrap32 v = (v + 2 ^ 31) mod 2 ^ 32 - 2 ^ 31"

text \<open>Values of 32 bits, with constants at the nodes 6, 7, 12 and 13.\<close>

definition int_ops :: "int tv_ops" where
  "int_ops = \<lparr>get_Const_tarval = at_nodes [(6, TV 2), (7, TV 3), (12, TV 5), (13, TV 9)] TV_bad,
     tarval_add = (\<lambda>a b. TV (wrap32 (a + b))), tarval_sub = (\<lambda>a b. TV (wrap32 (a - b))),
     tarval_mul = (\<lambda>a b. TV (wrap32 (a * b))),
     tarval_div = (\<lambda>a b. if b = 0 then TV_bad else TV (a div b)), tarval_mod = (\<lambda>a b. if b = 0 then TV_bad else TV (a mod b)),
     tarval_neg = (\<lambda>a. TV (wrap32 (- a))), tarval_not = (\<lambda>a. TV (1 - a)), tarval_convert_to = (\<lambda>a m. TV a),
     tarval_cmp = (\<lambda>a b. if a = b then Rel_equal else if a < b then Rel_less else Rel_greater),
     tarval_b_true = 1, tarval_b_false = 0, get_memop_mem = (\<lambda>_. None)\<rparr>"

text \<open>\<open>int x = 2; int y; if (x < 3) y = x + 5; else y = 9; return y;\<close>\<close>

definition if_graph :: ir_graph where
  "if_graph = empty_graph\<lparr>
     get_irn_opcode := at_nodes [(0, iro_Block), (1, iro_Block), (2, iro_Block), (3, iro_Block), (4, iro_Block), (5, iro_End),
       (6, iro_Const), (7, iro_Const), (8, iro_Cmp), (9, iro_Cond), (10, iro_Proj), (11, iro_Proj), (12, iro_Const),
       (13, iro_Const), (14, iro_Add), (15, iro_Jmp), (16, iro_Jmp), (17, iro_Phi), (18, iro_Return)] iro_Other,
     get_irn_mode := at_nodes [(8, mode_b), (9, mode_T), (10, mode_X), (11, mode_X), (15, mode_X), (16, mode_X),
       (18, mode_X)] mode_Is,
     get_nodes_block := at_nodes [(5, 4), (14, 1), (15, 1), (16, 2), (17, 3), (18, 3)] 0,
     irn_in := at_nodes [(1, [10]), (2, [11]), (3, [15, 16]), (4, [18]), (8, [6, 7]), (9, [8]), (10, [9]), (11, [9]),
       (14, [6, 12]), (17, [14, 13]), (18, [17])] [],
     out_edges := at_nodes [(1, [14, 15]), (2, [16]), (3, [17, 18]), (6, [8, 14]), (7, [8]), (8, [9]), (9, [10, 11]), (10, [1]),
       (11, [2]), (12, [14]), (13, [17]), (14, [17]), (15, [3]), (16, [3]), (17, [18]), (18, [4])] [],
     get_left := at_nodes [(8, 6), (14, 6)] 0, get_right := at_nodes [(8, 7), (14, 12)] 0,
     get_Proj_num := at_nodes [(10, 1), (11, 0)] 0, get_Proj_pred := at_nodes [(10, 9), (11, 9)] 0,
     get_Cmp_relation := at_nodes [(8, Rel_less)] Rel_other, get_Cond_selector := at_nodes [(9, 8)] 0,
     get_Phi_preds := at_nodes [(17, [14, 13])] [],
     get_Block_cfgpreds := at_nodes [(1, [10]), (2, [11]), (3, [15, 16]), (4, [18])] [],
     get_irg_end := 5, get_irg_start_block := 0, get_irg_end_block := 4\<rparr>"

lemma if_graph_pass:
  "map_option (map_sum id (\<lambda>(st, xs). (cfv st 15, cfv st 16, xs))) (ConstPropPass 40 int_ops if_graph)
    = Some (Inr (Some True, Some False, [(8, R_Const 1), (10, R_Jmp 0), (11, R_Bad), (14, R_Const 7), (17, R_Const 7)]))"
  by code_simp

lemma if_graph_ok:
  "initNodesTopological 40 if_graph = Some [0, 6, 7, 8, 9, 10, 1, 15, 11, 2, 16, 3, 12, 14, 13, 17, 18, 4, 5]"
  "cp_graph int_ops if_graph [0, 6, 7, 8, 9, 10, 1, 15, 11, 2, 16, 3, 12, 14, 13, 17, 18, 4, 5]"
  by code_simp+

lemma if_graph_nodes:
  "is_Const if_graph 6" "is_Const if_graph 12" "get_Const_tarval int_ops 6 = TV 2" "get_Const_tarval int_ops 12 = TV 5"
  "get_irn_opcode if_graph 14 = iro_Add" "get_left if_graph 14 = 6" "get_right if_graph 14 = 12"
  "tarval_add int_ops 2 5 = TV 7" "is_Phi if_graph 17" "(14, 15) \<in> set (phi_args if_graph 17)"
  by code_simp+

theorem const_prop_sound_witness:
  "\<exists>st xs \<rho> w. ConstPropPass 40 int_ops if_graph = Some (Inr (st, xs)) \<and> (17, R_Const 7) \<in> set xs
    \<and> execution int_ops if_graph [0, 6, 7, 8, 9, 10, 1, 15, 11, 2, 16, 3, 12, 14, 13, 17, 18, 4, 5]
        (\<lambda>c. cfv st c \<noteq> Some False) \<rho> \<and> \<rho> 17 = Some w \<and> w = 7"
proof -
  let ?ns = "[0, 6, 7, 8, 9, 10, 1, 15, 11, 2, 16, 3, 12, 14, 13, 17, 18, 4, 5]"
  obtain r where "ConstPropPass 40 int_ops if_graph = Some r"
      "map_sum id (\<lambda>(st, xs). (cfv st 15, cfv st 16, xs)) r
        = Inr (Some True, Some False, [(8, R_Const 1), (10, R_Jmp 0), (11, R_Bad), (14, R_Const 7), (17, R_Const 7)])"
    using if_graph_pass by (auto simp only: map_option_eq_Some)
  then obtain st xs where r: "ConstPropPass 40 int_ops if_graph = Some (Inr (st, xs))" "cfv st 15 = Some True"
      "xs = [(8, R_Const 1), (10, R_Jmp 0), (11, R_Bad), (14, R_Const 7), (17, R_Const 7)]"
    by (cases r) auto
  let ?t = "\<lambda>c. cfv st c \<noteq> Some False"
  note g = if_graph_nodes
  have e1: "execution int_ops if_graph ?ns ?t (Map.empty(6 \<mapsto> 2))"
    by (rule execution.const [OF execution.init _ g(1,3)]) simp
  have e2: "execution int_ops if_graph ?ns ?t ((Map.empty(6 \<mapsto> 2))(12 \<mapsto> 5))"
    by (rule execution.const [OF e1 _ g(2,4)]) simp
  have e3: "execution int_ops if_graph ?ns ?t ((Map.empty(6 \<mapsto> 2))(12 \<mapsto> 5, 14 \<mapsto> 7))"
    by (rule execution.binary [OF e2, where f = "tarval_add int_ops" and a = 2 and b = 5]) (simp_all add: g)
  have e4: "execution int_ops if_graph ?ns ?t ((Map.empty(6 \<mapsto> 2))(12 \<mapsto> 5, 14 \<mapsto> 7, 17 \<mapsto> 7))"
    by (rule execution.phi [OF e3 _ g(9,10)]) (simp_all add: r(2))
  have c: "cmp_exact int_ops" by (simp add: cmp_exact_def int_ops_def)
  have "\<exists>\<rho> w. execution int_ops if_graph ?ns ?t \<rho> \<and> \<rho> 17 = Some w"
    by (rule exI, rule exI, rule conjI [OF e4]) simp
  then obtain \<rho> w where w: "execution int_ops if_graph ?ns ?t \<rho>" "\<rho> 17 = Some w" by blast
  have "(17, R_Const 7) \<in> set xs" using r(3) by simp
  then have "w = 7" using const_prop_sound [OF r(1) if_graph_ok c w(1)] w(2) by blast
  then show ?thesis using r(1) w \<open>(17, R_Const 7) \<in> set xs\<close> by blast
qed

end
