(* ===== verification/Pretty_Printer.thy ===== *)
theory Pretty_Printer
  imports Parser
begin

text \<open>
  The pretty printer (\<open>pprinter.hpp\<close>).  A visit function returns the text that it writes and the new
  value of the flag \<open>requireParenthesis\<close>, which is part of the state of the visitor; \<open>indentLevel\<close>
  is passed down, since every visit restores it.  \<open>std::sort\<close> in \<open>acceptChildren\<close> is a sort by
  name.
\<close>

section \<open>Expressions\<close>

fun binaryOperationToString :: "binop \<Rightarrow> string" where
  "binaryOperationToString Op_Assign = ''=''"
| "binaryOperationToString Op_Or = ''||''"
| "binaryOperationToString Op_And = ''&&''"
| "binaryOperationToString Op_Equals = ''==''"
| "binaryOperationToString Op_NotEquals = ''!=''"
| "binaryOperationToString Op_Less = ''<''"
| "binaryOperationToString Op_LessEquals = ''<=''"
| "binaryOperationToString Op_Greater = ''>''"
| "binaryOperationToString Op_GreaterEquals = ''>=''"
| "binaryOperationToString Op_Plus = ''+''"
| "binaryOperationToString Op_Minus = ''-''"
| "binaryOperationToString Op_Mul = ''*''"
| "binaryOperationToString Op_Div = ''/''"
| "binaryOperationToString Op_Mod = ''%''"
| "binaryOperationToString Op_None = ''NONE''"

fun unaryOperationToString :: "unop \<Rightarrow> string" where
  "unaryOperationToString UOp_Neg = ''-''"
| "unaryOperationToString UOp_Not = ''!''"
| "unaryOperationToString UOp_None = ''NONE''"

fun pp_primType :: "prim_type \<Rightarrow> string" where
  "pp_primType PT_Boolean = ''boolean''"
| "pp_primType PT_Int = ''int''"
| "pp_primType PT_Void = ''void''"
| "pp_primType PT_None = ''NONE''"

fun pp_basicType :: "basic_type \<Rightarrow> string" where
  "pp_basicType (PrimitiveType l p) = pp_primType p"
| "pp_basicType (ClassType l n d) = n"

fun pp_type :: "ast_type \<Rightarrow> string" where
  "pp_type (BasicType b) = pp_basicType b"
| "pp_type (ArrayType l b dim) = pp_basicType b @ concat (replicate (nat dim) ''[]'')"

definition elementType :: "ast_type \<Rightarrow> basic_type" where
  "elementType t = (case t of BasicType b \<Rightarrow> b | ArrayType l b d \<Rightarrow> b)"

definition typeDimension :: "ast_type \<Rightarrow> int" where
  "typeDimension t = (case t of BasicType b \<Rightarrow> 0 | ArrayType l b d \<Rightarrow> d)"

text \<open>\<open>maybePlaceParenthesis\<close>: the helper starts with the flag off.\<close>

definition parenthesize :: "bool \<Rightarrow> string \<Rightarrow> string" where
  "parenthesize rp s = (if rp then ''('' @ s @ '')'' else s)"

fun pp_expr :: "expr \<Rightarrow> bool \<Rightarrow> string \<times> bool"
  and pp_moreArgs :: "expr list \<Rightarrow> bool \<Rightarrow> string \<times> bool" where
  "pp_expr (NewArrayExpression l t ty e) rp =
     (let (s, rp1) = pp_expr e False in
      (''new '' @ pp_basicType (elementType ty) @ ''['' @ s @ '']''
         @ concat (replicate (nat (typeDimension ty - 1)) ''[]''), rp1))"
| "pp_expr (NewObjectExpression l t n d) rp = (''new '' @ n @ ''()'', False)"
| "pp_expr (IntLiteral l t v) rp = (parenthesize rp (int_to_string v), v < 0)"
| "pp_expr (BoolLiteral l t b) rp = (if b then ''true'' else ''false'', False)"
| "pp_expr (NullLiteral l t) rp = (''null'', False)"
| "pp_expr (ThisLiteral l t) rp = (''this'', False)"
| "pp_expr (VarRef l t n d) rp = (n, False)"
| "pp_expr (MethodInvocation l t e n args d sys) rp =
     (let (s, rp1) = pp_expr e rp;
          (as, rp2) = (case args of [] \<Rightarrow> ([], rp1)
            | a # rest_args \<Rightarrow> (let (s1, r1) = pp_expr a rp1; (s2, r2) = pp_moreArgs rest_args r1 in (s1 @ s2, r2))) in
      (s @ ''.'' @ n @ ''('' @ as @ '')'', rp2))"
| "pp_expr (FieldAccess l t e n d) rp = (let (s, rp1) = pp_expr e rp in (s @ ''.'' @ n, rp1))"
| "pp_expr (ArrayAccess l t a i) rp =
     (let (s1, rp1) = pp_expr a rp; (s2, rp2) = pp_expr i rp1 in (s1 @ ''['' @ s2 @ '']'', rp2))"
| "pp_expr (BinaryExpression l t a b op) rp =
     (let (s1, rp1) = pp_expr a (op \<noteq> Op_Assign);
          (s2, rp2) = pp_expr b (if op \<noteq> Op_Assign then True else rp1) in
      (parenthesize rp (s1 @ '' '' @ binaryOperationToString op @ '' '' @ s2), rp2))"
| "pp_expr (UnaryExpression l t e op) rp =
     (let (s, rp1) = pp_expr e True in (parenthesize rp (unaryOperationToString op @ s), rp1))"
| "pp_moreArgs [] rp = ([], rp)"
| "pp_moreArgs (a # rest_args) rp =
     (let (s1, rp1) = pp_expr a rp; (s2, rp2) = pp_moreArgs rest_args rp1 in ('', '' @ s1 @ s2, rp2))"

section \<open>Statements\<close>

definition newline :: "string \<Rightarrow> nat \<Rightarrow> string" where
  "newline ind lvl = CHR 0x0A # concat (replicate lvl ind)"

definition pp_optExpr :: "expr option \<Rightarrow> bool \<Rightarrow> string \<times> bool" where
  "pp_optExpr e rp = (case e of None \<Rightarrow> ([], rp) | Some e \<Rightarrow> pp_expr e rp)"

text \<open>\<open>dynamic_cast<ast::Block *>\<close>\<close>

fun isBlockStmt :: "stmt \<Rightarrow> bool" where
  "isBlockStmt (Block l c ss lonely) = True"
| "isBlockStmt _ = False"

fun pp_stmt :: "string \<Rightarrow> nat \<Rightarrow> stmt \<Rightarrow> bool \<Rightarrow> string \<times> bool"
  and pp_stmts :: "string \<Rightarrow> nat \<Rightarrow> stmt list \<Rightarrow> bool \<Rightarrow> string \<times> bool"
  and printStatementAsBlock :: "string \<Rightarrow> nat \<Rightarrow> stmt option \<Rightarrow> bool \<Rightarrow> string \<times> bool"
  and printElseStatementAsBlock :: "string \<Rightarrow> nat \<Rightarrow> stmt option \<Rightarrow> bool \<Rightarrow> string \<times> bool" where
  "pp_stmt ind lvl (Block l c ss lonely) rp =
     (if lonely then (''{ }'', rp)
      else (let (s, rp1) = pp_stmts ind (Suc lvl) ss rp in (''{'' @ s @ newline ind lvl @ ''}'', rp1)))"
| "pp_stmt ind lvl (VariableDeclaration l c t n e i) rp =
     (let (s, rp1) = pp_optExpr e rp in
      (pp_type t @ '' '' @ n @ (if e = None then [] else '' = '' @ s) @ '';'', rp1))"
| "pp_stmt ind lvl (ExpressionStatement l c e) rp = (let (s, rp1) = pp_expr e rp in (s @ '';'', rp1))"
| "pp_stmt ind lvl (IfStatement l c e a b) rp =
     (let (s1, rp1) = pp_expr e rp;
          (s2, rp2) = printStatementAsBlock ind lvl a rp1;
          (s3, rp3) = printElseStatementAsBlock ind lvl b rp2 in
      (''if ('' @ s1 @ '') '' @ s2 @ s3, rp3))"
| "pp_stmt ind lvl (WhileStatement l c e a) rp =
     (let (s1, rp1) = pp_expr e rp; (s2, rp2) = printStatementAsBlock ind lvl a rp1 in
      (''while ('' @ s1 @ '') '' @ s2, rp2))"
| "pp_stmt ind lvl (ReturnStatement l c e) rp =
     (case e of
        None \<Rightarrow> (''return;'', rp)
      | Some e \<Rightarrow> (let (s, rp1) = pp_expr e rp in (''return '' @ s @ '';'', rp1)))"
| "pp_stmts ind lvl [] rp = ([], rp)"
| "pp_stmts ind lvl (x # xs) rp =
     (let (s1, rp1) = pp_stmt ind lvl x rp; (s2, rp2) = pp_stmts ind lvl xs rp1 in
      (newline ind lvl @ s1 @ s2, rp2))"
| "printStatementAsBlock ind lvl None rp = (''{ }'', rp)"
| "printStatementAsBlock ind lvl (Some x) rp =
     (if isBlockStmt x then pp_stmt ind lvl x rp
      else (let (s, rp1) = pp_stmt ind (Suc lvl) x rp in
        (''{'' @ newline ind (Suc lvl) @ s @ newline ind lvl @ ''}'', rp1)))"
| "printElseStatementAsBlock ind lvl None rp = ([], rp)"
| "printElseStatementAsBlock ind lvl (Some x) rp =
     (if isBlockStmt x then
        (if lonelyEmpty x then ([], rp)
         else (let (s, rp1) = pp_stmt ind lvl x rp in (newline ind lvl @ ''else '' @ s, rp1)))
      else (let (s, rp1) = pp_stmt ind (Suc lvl) x rp in
        (newline ind lvl @ ''else {'' @ newline ind (Suc lvl) @ s @ newline ind lvl @ ''}'', rp1)))"


section \<open>Members, classes and programs\<close>

definition pp_field :: "string \<Rightarrow> nat \<Rightarrow> field \<Rightarrow> string" where
  "pp_field ind lvl f = newline ind lvl @ ''public '' @ pp_type (f_type f) @ '' '' @ f_name f @ '';''"

definition pp_parameter :: "parameter \<Rightarrow> string" where
  "pp_parameter p = pp_type (p_type p) @ '' '' @ p_name p"

fun pp_parameters :: "parameter list \<Rightarrow> string" where
  "pp_parameters [] = []"
| "pp_parameters (p # ps) = pp_parameter p @ concat (map (\<lambda>q. '', '' @ pp_parameter q) ps)"

definition pp_method :: "string \<Rightarrow> nat \<Rightarrow> regular_method \<Rightarrow> bool \<Rightarrow> string \<times> bool" where
  "pp_method ind lvl m rp =
     (let (s, rp1) = pp_stmt ind lvl (rm_block m) rp in
      (newline ind lvl @ ''public '' @ pp_type (rm_returnType m) @ '' '' @ rm_name m @ ''(''
        @ pp_parameters (rm_parameters m) @ '') '' @ s, rp1))"

definition pp_mainMethod :: "string \<Rightarrow> nat \<Rightarrow> main_method \<Rightarrow> bool \<Rightarrow> string \<times> bool" where
  "pp_mainMethod ind lvl m rp =
     (let (s, rp1) = pp_stmt ind lvl (mm_block m) rp in
      (newline ind lvl @ ''public static void '' @ mm_name m @ ''(String[] '' @ mm_argName m @ '') '' @ s, rp1))"

text \<open>Printing the elements of a list one after the other.\<close>

fun pp_each :: "('a \<Rightarrow> bool \<Rightarrow> string \<times> bool) \<Rightarrow> 'a list \<Rightarrow> bool \<Rightarrow> string \<times> bool" where
  "pp_each p [] rp = ([], rp)"
| "pp_each p (x # xs) rp = (let (s1, rp1) = p x rp; (s2, rp2) = pp_each p xs rp1 in (s1 @ s2, rp2))"

definition pp_class :: "string \<Rightarrow> klass \<Rightarrow> bool \<Rightarrow> string \<times> bool" where
  "pp_class ind k rp =
     (let (ms, rp1) = pp_each (pp_method ind 1) (sort_key rm_name (c_methods k)) rp;
          (mains, rp2) = pp_each (pp_mainMethod ind 1) (sort_key mm_name (c_mainMethods k)) rp1 in
      (''class '' @ c_name k @ '' {''
        @ newline ind 1 @ ''/* fields: */'' @ concat (map (pp_field ind 1) (sort_key f_name (c_fields k)))
        @ [CHR 0x0A] @ newline ind 1 @ ''/* methods: */'' @ ms
        @ [CHR 0x0A] @ newline ind 1 @ ''/* main methods: */'' @ mains
        @ newline ind 0 @ ''}'' @ newline ind 0, rp2))"

definition pp_program :: "string \<Rightarrow> program \<Rightarrow> string" where
  "pp_program ind p = fst (pp_each (pp_class ind) (sort_key c_name (pr_classes p)) False)"

definition parseAndPrintAst :: "nat \<Rightarrow> pstate \<Rightarrow> parse_error + string" where
  "parseAndPrintAst n ps = bindE (parseProgram n ps) (\<lambda>(p, ps1). Inr (pp_program [CHR 0x09] p))"

end
