(* ===== verification/Dot.thy ===== *)
theory Dot
  imports Pretty_Printer
begin

text \<open>
  The output of the tree as a graph (\<open>dotvisitor.hpp\<close>, \<open>dotvisitor.cpp\<close>).  The members of
  \<open>DotVisitor\<close> are a record, the stream is the list of the statements written to it.  A key of
  \<open>nodeNames\<close>, the address of a node, is the kind and the source location of the node; the
  definition attributes of the tree are resolved to such keys in the program.  A failed \<open>assert\<close> is
  \<open>None\<close>.
\<close>

section \<open>The state of the visitor\<close>

datatype dot_key =
    DK_Class source_location | DK_Field source_location | DK_Method source_location
  | DK_Parameter source_location | DK_VarDecl source_location

datatype dot_shape = SHAPE_NONE | SHAPE_BOX

datatype dot_item =
    DotHead
  | DotTail
  | DotNode string string dot_shape
  | DotEdge string string string
  | DotWeakEdge string string string

record dot =
  nodeCounter :: nat
  parentNode :: string
  nextEdgeLabel :: string
  nodeNames :: "(dot_key \<times> string) list"
  nodeStack :: "string list"
  dot_stream :: "dot_item list"
  dot_errors :: "string list"

definition newDotVisitor :: dot where
  "newDotVisitor = \<lparr>nodeCounter = 0, parentNode = [], nextEdgeLabel = [], nodeNames = [], nodeStack = [],
     dot_stream = [], dot_errors = []\<rparr>"

definition dot_nl :: string where "dot_nl = [CHR 0x0A]"
definition dquote :: string where "dquote = [CHR 0x22]"

fun dot_text :: "dot_item \<Rightarrow> string" where
  "dot_text DotHead = ''digraph G {'' @ dot_nl @ ''rankdir=LR'' @ dot_nl"
| "dot_text DotTail = ''}'' @ dot_nl"
| "dot_text (DotNode n l sh) = n @ ''[label='' @ dquote @ l @ dquote
     @ (case sh of SHAPE_BOX \<Rightarrow> '', shape=box'' | SHAPE_NONE \<Rightarrow> []) @ '']'' @ dot_nl"
| "dot_text (DotEdge a b l) = a @ '' -> '' @ b @ '' [label='' @ dquote @ l @ dquote @ ''];'' @ dot_nl @ dot_nl"
| "dot_text (DotWeakEdge a b l) =
     a @ '' -> '' @ b @ '' [label='' @ dquote @ l @ dquote @ '' weight=0 style=dashed];'' @ dot_nl @ dot_nl"

definition edgeLabel :: "string \<Rightarrow> dot \<Rightarrow> dot" where
  "edgeLabel l d = d\<lparr>nextEdgeLabel := l\<rparr>"

definition newNodeName :: "dot \<Rightarrow> string \<times> dot" where
  "newNodeName d = (''node'' @ nat_to_string (nodeCounter d), d\<lparr>nodeCounter := Suc (nodeCounter d)\<rparr>)"

definition dot_write :: "dot_item list \<Rightarrow> dot \<Rightarrow> dot" where
  "dot_write xs d = d\<lparr>dot_stream := dot_stream d @ xs\<rparr>"

definition nodeDeclForExistingName :: "string \<Rightarrow> string \<Rightarrow> dot_shape \<Rightarrow> dot \<Rightarrow> dot" where
  "nodeDeclForExistingName n l sh d =
     (dot_write [DotNode n l sh, DotEdge (parentNode d) n (nextEdgeLabel d)] d)\<lparr>nextEdgeLabel := []\<rparr>"

definition nodeDecl :: "string \<Rightarrow> dot_key option \<Rightarrow> dot_shape \<Rightarrow> dot \<Rightarrow> string \<times> dot" where
  "nodeDecl l k sh d =
     (let (n, d) = newNodeName d;
          d = (case k of None \<Rightarrow> d | Some k \<Rightarrow> d\<lparr>nodeNames := (k, n) # nodeNames d\<rparr>) in
      (n, nodeDeclForExistingName n l sh d))"

definition weakEdgeToNode :: "string \<Rightarrow> string \<Rightarrow> dot \<Rightarrow> dot" where
  "weakEdgeToNode a b d = (dot_write [DotWeakEdge a b (nextEdgeLabel d)] d)\<lparr>nextEdgeLabel := []\<rparr>"

text \<open>\<open>nodeNames[node]\<close>, which is the empty string for a missing key\<close>

definition nodeName :: "dot_key \<Rightarrow> dot \<Rightarrow> string" where
  "nodeName k d = (case map_of (nodeNames d) k of None \<Rightarrow> [] | Some n \<Rightarrow> n)"

definition toplevelDecl :: "dot_key \<Rightarrow> string \<Rightarrow> dot \<Rightarrow> string \<times> dot" where
  "toplevelDecl k l d = (nodeName k d, dot_write [DotNode (nodeName k d) l SHAPE_NONE] d)"

text \<open>The top of the stack is the head of the list.\<close>

definition pushNode :: "string \<Rightarrow> dot \<Rightarrow> dot" where
  "pushNode n d = d\<lparr>nodeStack := n # nodeStack d, parentNode := n\<rparr>"

definition popNode :: "dot \<Rightarrow> dot option" where
  "popNode d = (case nodeStack d of
       [] \<Rightarrow> None
     | n # ns \<Rightarrow>
         if n = parentNode d
         then Some (d\<lparr>nodeStack := ns, parentNode := (case ns of [] \<Rightarrow> [] | m # _ \<Rightarrow> m)\<rparr>)
         else None)"

definition inNode :: "string \<Rightarrow> (dot \<Rightarrow> dot option) \<Rightarrow> dot \<Rightarrow> dot option" where
  "inNode n f d = Option.bind (f (pushNode n d)) popNode"

text \<open>The search for the definition of a name and the edge to it, or a message\<close>

definition linkDef :: "dot_key option \<Rightarrow> string \<Rightarrow> string option \<Rightarrow> dot \<Rightarrow> dot" where
  "linkDef k n msg d = (case Option.bind k (map_of (nodeNames d)) of
       Some m \<Rightarrow> weakEdgeToNode n m d
     | None \<Rightarrow> (case msg of None \<Rightarrow> d | Some e \<Rightarrow> d\<lparr>dot_errors := dot_errors d @ [e]\<rparr>))"

section \<open>Definition attributes as keys\<close>

definition class_key :: "program \<Rightarrow> string \<Rightarrow> dot_key option" where
  "class_key p n = map_option (\<lambda>k. DK_Class (c_loc k)) (find (\<lambda>k. c_name k = n) (pr_classes p))"

definition method_key :: "program \<Rightarrow> string \<times> string \<Rightarrow> dot_key option" where
  "method_key p cm =
     Option.bind (find (\<lambda>k. c_name k = fst cm) (pr_classes p)) (\<lambda>k.
       map_option (\<lambda>m. DK_Method (rm_loc m)) (find (\<lambda>m. rm_name m = snd cm) (c_methods k)))"

fun sym_key :: "sym_def \<Rightarrow> dot_key option" where
  "sym_key (Def_Field f) = Some (DK_Field (f_loc f))"
| "sym_key (Def_Parameter p) = Some (DK_Parameter (p_loc p))"
| "sym_key (Def_VarDecl d) = Some (DK_VarDecl (vd_loc d))"
| "sym_key Def_DummySystem = None"
| "sym_key Def_MainArg = None"

fun field_key :: "field_ref \<Rightarrow> dot_key option" where
  "field_key (FR_Field c f) = Some (DK_Field (f_loc f))"
| "field_key FR_SystemOut = None"
| "field_key FR_SystemIn = None"

section \<open>Types and expressions\<close>

fun dot_basicType :: "program \<Rightarrow> basic_type \<Rightarrow> dot \<Rightarrow> dot option" where
  "dot_basicType p (PrimitiveType l pt) d = (case pt of
       PT_Boolean \<Rightarrow> Some (snd (nodeDecl ''boolean'' None SHAPE_NONE d))
     | PT_Int \<Rightarrow> Some (snd (nodeDecl ''int'' None SHAPE_NONE d))
     | PT_Void \<Rightarrow> Some (snd (nodeDecl ''void'' None SHAPE_NONE d))
     | PT_None \<Rightarrow> None)"
| "dot_basicType p (ClassType l n def) d =
     (let (nn, d) = nodeDecl (''ClassType('' @ n @ '')'') None SHAPE_NONE d in
      Some (linkDef (Option.bind def (class_key p)) nn (Some ''no def found'') d))"

fun dot_type :: "program \<Rightarrow> ast_type \<Rightarrow> dot \<Rightarrow> dot option" where
  "dot_type p (BasicType b) d = dot_basicType p b d"
| "dot_type p (ArrayType l b dim) d =
     (let (nn, d) = nodeDecl (''ArrayType'' @ dot_nl @ ''Dimension: '' @ int_to_string dim) None SHAPE_NONE d in
      inNode nn (\<lambda>d. dot_basicType p b (edgeLabel ''Type'' d)) d)"

fun dot_unop :: "unop \<Rightarrow> string" where
  "dot_unop UOp_Not = ''Not''"
| "dot_unop UOp_Neg = ''Neg''"
| "dot_unop UOp_None = []"

definition dot_varRef :: "string \<Rightarrow> sym_def option \<Rightarrow> dot \<Rightarrow> dot option" where
  "dot_varRef n def d =
     (let (nn, d) = nodeDecl (''VarRef '' @ n) None SHAPE_NONE d in
      Some (linkDef (Option.bind def sym_key) nn None d))"

definition dot_newObject :: "program \<Rightarrow> string \<Rightarrow> string option \<Rightarrow> dot \<Rightarrow> dot option" where
  "dot_newObject p n def d =
     (let (nn, d) = nodeDecl (''New('' @ n @ '')'') None SHAPE_NONE d in
      Some (linkDef (Option.bind def (class_key p)) nn None d))"

fun dot_expr :: "program \<Rightarrow> expr \<Rightarrow> dot \<Rightarrow> dot option"
  and dot_exprs :: "program \<Rightarrow> expr list \<Rightarrow> dot \<Rightarrow> dot option" where
  "dot_expr p (NewArrayExpression l t ty e) d =
     (let (nn, d) = nodeDecl ''New Array'' None SHAPE_NONE d in
      inNode nn (\<lambda>d. Option.bind (dot_type p ty (edgeLabel ''Type'' d)) (\<lambda>d.
        dot_expr p e (edgeLabel ''Size'' d))) d)"
| "dot_expr p (NewObjectExpression l t n def) d = dot_newObject p n def d"
| "dot_expr p (IntLiteral l t v) d =
     Some (snd (nodeDecl (''Int('' @ int_to_string v @ '')'') None SHAPE_NONE d))"
| "dot_expr p (BoolLiteral l t b) d =
     Some (snd (nodeDecl (''Bool('' @ (if b then ''1'' else ''0'') @ '')'') None SHAPE_NONE d))"
| "dot_expr p (NullLiteral l t) d = Some (snd (nodeDecl ''null'' None SHAPE_NONE d))"
| "dot_expr p (ThisLiteral l t) d = Some (snd (nodeDecl ''this'' None SHAPE_NONE d))"
| "dot_expr p (VarRef l t n def) d = dot_varRef n def d"
| "dot_expr p (MethodInvocation l t e n args def sys) d =
     (let (nn, d) = nodeDecl (''MethodInvocation('' @ n @ '')'') None SHAPE_NONE d;
          d = linkDef (Option.bind def (method_key p)) nn (Some ''Method Decl not found!'') d in
      inNode nn (\<lambda>d. Option.bind (dot_expr p e d) (dot_exprs p args)) d)"
| "dot_expr p (FieldAccess l t e n def) d =
     (let (nn, d) = nodeDecl (''FieldAccess('' @ n @ '')'') None SHAPE_NONE d;
          d = linkDef (Option.bind def field_key) nn (Some ''Field Decl not found!'') d in
      inNode nn (dot_expr p e) d)"
| "dot_expr p (ArrayAccess l t a i) d =
     (let (nn, d) = nodeDecl ''ArrayAccess'' None SHAPE_NONE d in
      inNode nn (\<lambda>d. Option.bind (dot_expr p a d) (\<lambda>d. dot_expr p i (edgeLabel ''Index'' d))) d)"
| "dot_expr p (BinaryExpression l t a b bop) d =
     (let (nn, d) = nodeDecl (''BinaryExpression('' @ binaryOperationToString bop @ '')'') None SHAPE_NONE d in
      inNode nn (\<lambda>d. Option.bind (dot_expr p a d) (dot_expr p b)) d)"
| "dot_expr p (UnaryExpression l t e uop) d =
     (let (nn, d) = nodeDecl (''UnaryExpression('' @ dot_unop uop @ '')'') None SHAPE_NONE d in
      inNode nn (dot_expr p e) d)"
| "dot_exprs p [] d = Some d"
| "dot_exprs p (e # es) d = Option.bind (dot_expr p e d) (dot_exprs p es)"

section \<open>Statements\<close>

definition dot_optExpr :: "program \<Rightarrow> expr option \<Rightarrow> dot \<Rightarrow> dot option" where
  "dot_optExpr p e d = (case e of None \<Rightarrow> Some d | Some e \<Rightarrow> dot_expr p e d)"

text \<open>A branch of an if statement has a node of its own if it is present.\<close>

fun dot_stmt :: "program \<Rightarrow> stmt \<Rightarrow> dot \<Rightarrow> dot option"
  and dot_stmts :: "program \<Rightarrow> stmt list \<Rightarrow> dot \<Rightarrow> dot option"
  and dot_optStmt :: "program \<Rightarrow> stmt option \<Rightarrow> dot \<Rightarrow> dot option"
  and dot_branch :: "program \<Rightarrow> string \<Rightarrow> stmt option \<Rightarrow> dot \<Rightarrow> dot option" where
  "dot_stmt p (Block l c ss lonely) d = dot_stmts p ss d"
| "dot_stmt p (ExpressionStatement l c e) d = dot_expr p e d"
| "dot_stmt p (IfStatement l c e a b) d =
     (let (nn, d) = nodeDecl ''If'' None SHAPE_NONE d in
      inNode nn (\<lambda>d. Option.bind (dot_expr p e (edgeLabel ''Condition'' d)) (\<lambda>d.
        Option.bind (dot_branch p ''Then'' a d) (dot_branch p ''Else'' b))) d)"
| "dot_stmt p (WhileStatement l c e a) d =
     (let (nn, d) = nodeDecl ''While'' None SHAPE_NONE d in
      inNode nn (\<lambda>d. Option.bind (dot_expr p e (edgeLabel ''Condition'' d)) (dot_optStmt p a)) d)"
| "dot_stmt p (ReturnStatement l c e) d =
     (let (nn, d) = nodeDecl ''Return'' None SHAPE_BOX d in inNode nn (dot_optExpr p e) d)"
| "dot_stmt p (VariableDeclaration l c t n e i) d =
     (let (nn, d) = nodeDecl (''Variable Declaration('' @ n @ '')'') (Some (DK_VarDecl l)) SHAPE_NONE d in
      inNode nn (\<lambda>d. Option.bind (dot_type p t (edgeLabel ''Type'' d)) (\<lambda>d.
        (case e of None \<Rightarrow> Some d | Some e \<Rightarrow> dot_expr p e (edgeLabel ''Initializer'' d)))) d)"
| "dot_stmts p [] d = Some d"
| "dot_stmts p (x # xs) d = Option.bind (dot_stmt p x d) (dot_stmts p xs)"
| "dot_optStmt p None d = Some d"
| "dot_optStmt p (Some x) d = dot_stmt p x d"
| "dot_branch p nm None d = Some d"
| "dot_branch p nm (Some x) d = (let (nn, d) = nodeDecl nm None SHAPE_NONE d in inNode nn (dot_stmt p x) d)"

section \<open>Members, classes and programs\<close>

definition dot_field :: "program \<Rightarrow> field \<Rightarrow> dot \<Rightarrow> dot option" where
  "dot_field p f d =
     (let nn = nodeName (DK_Field (f_loc f)) d;
          d = nodeDeclForExistingName nn (''Field('' @ f_name f @ '')'') SHAPE_NONE d in
      inNode nn (\<lambda>d. dot_type p (f_type f) (edgeLabel ''Type'' d)) d)"

definition dot_parameter :: "program \<Rightarrow> parameter \<Rightarrow> dot \<Rightarrow> dot option" where
  "dot_parameter p x d =
     (let (nn, d) = nodeDecl (''Param('' @ p_name x @ '')'') (Some (DK_Parameter (p_loc x))) SHAPE_NONE d in
      inNode nn (dot_type p (p_type x)) d)"

fun dot_parameters :: "program \<Rightarrow> nat \<Rightarrow> parameter list \<Rightarrow> dot \<Rightarrow> dot option" where
  "dot_parameters p i [] d = Some d"
| "dot_parameters p i (x # xs) d =
     Option.bind (dot_parameter p x (edgeLabel (''Param '' @ nat_to_string i) d)) (dot_parameters p (Suc i) xs)"

definition dot_method :: "program \<Rightarrow> regular_method \<Rightarrow> dot \<Rightarrow> dot option" where
  "dot_method p m d =
     (let nn = nodeName (DK_Method (rm_loc m)) d;
          d = nodeDeclForExistingName nn (''Method('' @ rm_name m @ '')'') SHAPE_NONE d in
      inNode nn (\<lambda>d. Option.bind (dot_type p (rm_returnType m) (edgeLabel ''Return Type'' d)) (\<lambda>d.
        Option.bind (dot_parameters p 0 (rm_parameters m) d) (\<lambda>d.
        let (body, d) = nodeDecl ''Body'' None SHAPE_NONE d in inNode body (dot_stmt p (rm_block m)) d))) d)"

definition dot_mainMethod :: "program \<Rightarrow> main_method \<Rightarrow> dot \<Rightarrow> dot option" where
  "dot_mainMethod p m d =
     (let (nn, d) = nodeDecl (''MainMethod('' @ mm_name m @ '')'') None SHAPE_NONE d in
      inNode nn (dot_stmt p (mm_block m)) d)"

fun dot_each :: "('a \<Rightarrow> dot \<Rightarrow> dot option) \<Rightarrow> 'a list \<Rightarrow> dot \<Rightarrow> dot option" where
  "dot_each f [] d = Some d"
| "dot_each f (x # xs) d = Option.bind (f x d) (dot_each f xs)"

definition dot_class :: "program \<Rightarrow> klass \<Rightarrow> dot \<Rightarrow> dot option" where
  "dot_class p k d =
     (let (nn, d) = newNodeName d;
          d = d\<lparr>parentNode := nn\<rparr>;
          (nn, d) = toplevelDecl (DK_Class (c_loc k)) (''Class '' @ c_name k) d in
      inNode nn (\<lambda>d. Option.bind (dot_each (dot_field p) (sort_key f_name (c_fields k)) d) (\<lambda>d.
        Option.bind (dot_each (dot_method p) (sort_key rm_name (c_methods k)) d)
          (dot_each (dot_mainMethod p) (sort_key mm_name (c_mainMethods k))))) d)"

definition class_keys :: "klass \<Rightarrow> dot_key list" where
  "class_keys k = DK_Class (c_loc k) # map (DK_Field \<circ> f_loc) (c_fields k)
     @ map (DK_Method \<circ> rm_loc) (c_methods k)"

definition nameKey :: "dot_key \<Rightarrow> dot \<Rightarrow> dot" where
  "nameKey k d = (let (n, d) = newNodeName d in d\<lparr>nodeNames := (k, n) # nodeNames d\<rparr>)"

definition dot_program :: "program \<Rightarrow> dot \<Rightarrow> dot option" where
  "dot_program p d =
     (let d = fold nameKey (concat (map class_keys (pr_classes p))) (dot_write [DotHead] d) in
      Option.bind (dot_each (dot_class p) (sort_key c_name (pr_classes p)) d) (\<lambda>d.
        let d = dot_write [DotTail] d in if nodeStack d = [] then Some d else None))"

text \<open>\<open>Parser::parseAndDotAst\<close>; the result is what is written, or a failed assertion.\<close>

definition dot_output :: "program \<Rightarrow> string option" where
  "dot_output p = map_option (\<lambda>d. concat (map dot_text (dot_stream d))) (dot_program p newDotVisitor)"

definition parseAndDotAst :: "nat \<Rightarrow> pstate \<Rightarrow> parse_error + string option" where
  "parseAndDotAst n ps = bindE (parseProgram n ps) (\<lambda>(p, ps1). Inr (dot_output p))"

end
