(* ===== verification/Compiler.thy ===== *)
theory Compiler
  imports Parser_Claims Semantic Messages Dot Const_Prop Fn_Remove Asm_Pass Asm_Opt
begin

text \<open>
  The driver: \<open>compiler.hpp\<close>, \<open>compiler.cpp\<close>, \<open>optimizer.hpp\<close>, \<open>input_file.hpp\<close> and \<open>main\<close> of
  \<open>main.cpp\<close>.  A run ends with an exit status or is stopped; with it come the texts written to the two
  output streams.  The operating system, the library libfirm and the construction of graphs are the fields
  of two records.  So is the text of the progress messages that the code generator (\<open>defaultVisitOp\<close>) and
  the optimizers (\<open>printOptimizations\<close>) print on standard output.
\<close>

section \<open>Options and environment\<close>

record compiler_options =
  opt_inputFileName :: string
  opt_outputFileName :: string
  opt_echoFile :: bool
  opt_testLexer :: bool
  opt_fuzzLexer :: bool
  opt_testParser :: bool
  opt_fuzzParser :: bool
  opt_printAst :: bool
  opt_dotAst :: bool
  opt_checkSemantic :: bool
  opt_fuzzSemantic :: bool
  opt_dotAttrAst :: bool
  opt_printFirmGraph :: bool
  opt_compileFirm :: bool
  opt_noVerify :: bool
  opt_outputAssembly :: bool
  opt_optimize :: bool

definition default_options :: compiler_options where
  "default_options = \<lparr>opt_inputFileName = [], opt_outputFileName = [], opt_echoFile = False,
     opt_testLexer = False, opt_fuzzLexer = False, opt_testParser = False, opt_fuzzParser = False,
     opt_printAst = False, opt_dotAst = False, opt_checkSemantic = False, opt_fuzzSemantic = False,
     opt_dotAttrAst = False, opt_printFirmGraph = False, opt_compileFirm = False, opt_noVerify = False,
     opt_outputAssembly = False, opt_optimize = True\<rparr>"

record env =
  env_files :: "string \<Rightarrow> string option"   \<comment> \<open>the contents of the files that can be opened\<close>
  env_garbage :: "nat \<Rightarrow> int"               \<comment> \<open>the uninitialized buffer of the lexer\<close>
  env_alloc :: "addr list \<Rightarrow> addr"          \<comment> \<open>the allocator\<close>
  env_streams_good :: bool                  \<comment> \<open>\<open>std::cout.good() && std::cerr.good()\<close>\<close>
  env_out_of_range :: string                \<comment> \<open>\<open>what()\<close> of the library's \<open>std::out_of_range\<close>\<close>
  env_tmpfile :: string                     \<comment> \<open>\<open>"/proc/self/fd/"\<close> and the number of the file\<close>
  env_can_write :: "string \<Rightarrow> bool"
  env_gcc :: "string \<Rightarrow> string \<Rightarrow> int"       \<comment> \<open>\<open>system\<close> on the assembly text and the output name\<close>

record 'v firm_lib =
  lib_tarval :: "'v tv_ops"
  lib_construct :: "program \<Rightarrow> ir_graph list option"   \<comment> \<open>the graphs that \<open>FirmVisitor\<close> leaves in the library; \<open>None\<close>: a failed assertion\<close>
  lib_lower_highlevel :: "ir_graph \<Rightarrow> ir_graph"
  lib_exchange :: "(node \<times> 'v replacement) list \<Rightarrow> ir_graph \<Rightarrow> ir_graph"
  lib_remove_bads :: "ir_graph \<Rightarrow> ir_graph"
  lib_remove_unreachable :: "ir_graph \<Rightarrow> ir_graph"
  lib_verify :: "ir_graph \<Rightarrow> bool"
  lib_be_main :: "ir_graph list \<Rightarrow> string"
  lib_progress :: "compiler_options \<Rightarrow> program \<Rightarrow> string"
    \<comment> \<open>what is printed on standard output while a program is compiled: the messages of the passes, of the optimizers
      and of libfirm, up to the point where the compilation ends\<close>

section \<open>Results\<close>

text \<open>
  A \<open>CompilerError\<close> carries what its \<open>writeErrorMessage\<close> does: it writes a text, throws
  \<open>std::out_of_range\<close> behind a text that it has written, or (for a location report) does not return normally; what it
  has written in the last case is left out, since it does not happen for the locations of the lexer.
\<close>

datatype report = Report string | ReportThrows string | ReportStuck

datatype stop =
    Thrown_CompilerError report
  | Thrown_StdException string
  | Aborted                      \<comment> \<open>a failed assertion, \<open>std::terminate\<close> or undefined behaviour\<close>
  | Stuck
  | NoMoreFuel

type_synonym run_result = "(stop + int) \<times> string \<times> string"

definition EXIT_SUCCESS :: int where "EXIT_SUCCESS = 0"
definition EXIT_FAILURE :: int where "EXIT_FAILURE = 1"

definition lex_thrown :: "env \<Rightarrow> lex_error \<Rightarrow> stop" where
  "lex_thrown E e = (case e of
       LexError f l c m t \<Rightarrow> Thrown_CompilerError
         (case LexError_write f l c m t of Some s \<Rightarrow> Report s | None \<Rightarrow> ReportThrows (LexError_head f l c m))
     | BufferOverrun \<Rightarrow> Aborted
     | lex_error.OutOfRange \<Rightarrow> Thrown_StdException (env_out_of_range E)
     | AssertFailed \<Rightarrow> Aborted)"

definition loc_report :: "string option \<Rightarrow> report" where
  "loc_report r = (case r of Some s \<Rightarrow> Report s | None \<Rightarrow> ReportStuck)"

definition parse_thrown :: "env \<Rightarrow> parse_error \<Rightarrow> stop" where
  "parse_thrown E e = (case e of
       LexErr le \<Rightarrow> lex_thrown E le
     | ParseError loc f m ln \<Rightarrow> Thrown_CompilerError (loc_report (ParseError_write loc f m ln))
     | RuntimeError m \<Rightarrow> Thrown_StdException m
     | OutOfFuel \<Rightarrow> NoMoreFuel)"

definition sem_thrown :: "env \<Rightarrow> sem_error \<Rightarrow> stop" where
  "sem_thrown E e = (case e of
       SemanticError loc f m ln b \<Rightarrow> Thrown_CompilerError (loc_report (SemanticError_write loc f m ln b))
     | LineError le \<Rightarrow> lex_thrown E le
     | AssertFail \<Rightarrow> Aborted
     | NullDeref \<Rightarrow> Aborted)"

text \<open>The handlers \<open>catch (CompilerError &e)\<close> with and without a report, behind the text on standard output\<close>

definition catch_write :: "env \<Rightarrow> string \<Rightarrow> stop \<Rightarrow> run_result" where
  "catch_write E out s = (case s of
       Thrown_CompilerError (Report t) \<Rightarrow> (Inr EXIT_FAILURE, out, t)
     | Thrown_CompilerError (ReportThrows t) \<Rightarrow> (Inl (Thrown_StdException (env_out_of_range E)), out, t)
     | Thrown_CompilerError ReportStuck \<Rightarrow> (Inl Stuck, out, [])
     | _ \<Rightarrow> (Inl s, out, []))"

definition catch_silent :: "stop \<Rightarrow> run_result" where
  "catch_silent s = (case s of Thrown_CompilerError r \<Rightarrow> (Inr EXIT_FAILURE, [], []) | _ \<Rightarrow> (Inl s, [], []))"

section \<open>The input\<close>

text \<open>\<open>InputFile::getStream\<close>\<close>

definition getStream :: "env \<Rightarrow> compiler_options \<Rightarrow> stop + string" where
  "getStream E opts = (case env_files E (opt_inputFileName opts) of
       Some t \<Rightarrow> Inr t
     | None \<Rightarrow> Inl (Thrown_CompilerError (Report (ArgumentError_write
         (''Cannot open File '' @ [CHR 0x27] @ opt_inputFileName opts @ [CHR 0x27])))))"

definition mapL :: "('a \<Rightarrow> 'b) \<Rightarrow> 'a + 'c \<Rightarrow> 'b + 'c" where
  "mapL f r = (case r of Inl e \<Rightarrow> Inl (f e) | Inr x \<Rightarrow> Inr x)"

definition makeLexer :: "env \<Rightarrow> compiler_options \<Rightarrow> stop + lexer" where
  "makeLexer E opts = bindE (getStream E opts) (\<lambda>t.
     mapL (lex_thrown E) (newLexer (env_garbage E) LS_normal (opt_inputFileName opts) t))"

definition makeParser :: "env \<Rightarrow> compiler_options \<Rightarrow> stop + pstate" where
  "makeParser E opts = bindE (makeLexer E opts) (\<lambda>l. mapL (parse_thrown E) (newParser l []))"

text \<open>The objects are constructed outside of the \<open>try\<close> blocks of the modes.\<close>

definition with_input :: "stop + 'a \<Rightarrow> ('a \<Rightarrow> run_result) \<Rightarrow> run_result" where
  "with_input r f = (case r of Inl s \<Rightarrow> (Inl s, [], []) | Inr x \<Rightarrow> f x)"

section \<open>Modes\<close>

definition run_echoFile :: "env \<Rightarrow> compiler_options \<Rightarrow> run_result" where
  "run_echoFile E opts = with_input (getStream E opts) (\<lambda>t. (Inr EXIT_SUCCESS, t, []))"

fun lexTest_loop :: "nat \<Rightarrow> env \<Rightarrow> lexer \<Rightarrow> string \<Rightarrow> run_result" where
  "lexTest_loop 0 E l out = (Inl NoMoreFuel, out, [])"
| "lexTest_loop (Suc k) E l out = (case nextToken l of
       Inl e \<Rightarrow> catch_write E out (lex_thrown E e)
     | Inr (t, l') \<Rightarrow>
         (let out' = out @ tok_print t @ [CHR 0x0A] in
          if tok_type t = TT_Eof then (Inr EXIT_SUCCESS, out', []) else lexTest_loop k E l' out'))"

definition run_lexTest :: "nat \<Rightarrow> env \<Rightarrow> compiler_options \<Rightarrow> run_result" where
  "run_lexTest k E opts = with_input (makeLexer E opts) (\<lambda>l. lexTest_loop k E l [])"

fun lexFuzz_loop :: "nat \<Rightarrow> env \<Rightarrow> lexer \<Rightarrow> run_result" where
  "lexFuzz_loop 0 E l = (Inl NoMoreFuel, [], [])"
| "lexFuzz_loop (Suc k) E l = (case nextToken l of
       Inl e \<Rightarrow> catch_silent (lex_thrown E e)
     | Inr (t, l') \<Rightarrow> if tok_type t = TT_Eof then (Inr EXIT_SUCCESS, [], []) else lexFuzz_loop k E l')"

definition run_lexFuzz :: "nat \<Rightarrow> env \<Rightarrow> compiler_options \<Rightarrow> run_result" where
  "run_lexFuzz k E opts = with_input (makeLexer E opts) (lexFuzz_loop k E)"

definition run_parserTest :: "nat \<Rightarrow> env \<Rightarrow> compiler_options \<Rightarrow> run_result" where
  "run_parserTest k E opts = with_input (makeParser E opts) (\<lambda>ps. case parseProgram k ps of
       Inl e \<Rightarrow> catch_write E [] (parse_thrown E e)
     | Inr r \<Rightarrow> (Inr EXIT_SUCCESS, [], []))"

definition run_parserFuzz :: "nat \<Rightarrow> env \<Rightarrow> compiler_options \<Rightarrow> run_result" where
  "run_parserFuzz k E opts = with_input (makeParser E opts) (\<lambda>ps. case parseProgram k ps of
       Inl e \<Rightarrow> catch_silent (parse_thrown E e)
     | Inr r \<Rightarrow> (Inr EXIT_SUCCESS, [], []))"

definition run_astPrint :: "nat \<Rightarrow> env \<Rightarrow> compiler_options \<Rightarrow> run_result" where
  "run_astPrint k E opts = with_input (makeParser E opts) (\<lambda>ps. case parseAndPrintAst k ps of
       Inl e \<Rightarrow> catch_write E [] (parse_thrown E e)
     | Inr t \<Rightarrow> (Inr EXIT_SUCCESS, t, []))"

definition run_astDot :: "nat \<Rightarrow> env \<Rightarrow> compiler_options \<Rightarrow> run_result" where
  "run_astDot k E opts = with_input (makeParser E opts) (\<lambda>ps. case parseAndDotAst k ps of
       Inl e \<Rightarrow> catch_write E [] (parse_thrown E e)
     | Inr None \<Rightarrow> (Inl Aborted, [], [])
     | Inr (Some t) \<Rightarrow> (Inr EXIT_SUCCESS, t, []))"

text \<open>\<open>parseProgram\<close> followed by \<open>analyzeAstSemantic\<close>\<close>

definition parseAndAnalyze :: "nat \<Rightarrow> env \<Rightarrow> pstate \<Rightarrow> stop + program" where
  "parseAndAnalyze k E ps =
     bindE (mapL (parse_thrown E) (parseProgram k ps)) (\<lambda>(p, ps').
     bindE (mapL (sem_thrown E) (visitProgram (env_alloc E) (lexr ps') p)) (\<lambda>(p', st). Inr p'))"

definition run_checkSemantic :: "nat \<Rightarrow> env \<Rightarrow> compiler_options \<Rightarrow> run_result" where
  "run_checkSemantic k E opts = with_input (makeParser E opts) (\<lambda>ps. case parseAndAnalyze k E ps of
       Inl s \<Rightarrow> catch_write E [] s
     | Inr p \<Rightarrow> (Inr EXIT_SUCCESS, [], []))"

definition run_fuzzSemantic :: "nat \<Rightarrow> env \<Rightarrow> compiler_options \<Rightarrow> run_result" where
  "run_fuzzSemantic k E opts = with_input (makeParser E opts) (\<lambda>ps. case parseAndAnalyze k E ps of
       Inl s \<Rightarrow> catch_silent s
     | Inr p \<Rightarrow> (Inr EXIT_SUCCESS, [], []))"

definition run_attrAstDot :: "nat \<Rightarrow> env \<Rightarrow> compiler_options \<Rightarrow> run_result" where
  "run_attrAstDot k E opts = with_input (makeParser E opts) (\<lambda>ps. case parseAndAnalyze k E ps of
       Inl s \<Rightarrow> catch_write E [] s
     | Inr p \<Rightarrow> (case dot_output p of
           None \<Rightarrow> (Inl Aborted, [], [])
         | Some t \<Rightarrow> (Inr EXIT_SUCCESS, t, [])))"

section \<open>Compilation\<close>

text \<open>
  The result of a compilation besides the exit status: the assembly text that was written.  \<open>errorInvalid\<close>
  of the passes calls \<open>std::exit(1)\<close>.
\<close>

datatype pass_stop = PS_Exit int | PS_Stop stop

text \<open>\<open>ConstPropPass::run\<close>; \<open>substituteNodes\<close> cleans the graph up behind the exchanges.\<close>

definition run_ConstProp :: "nat \<Rightarrow> 'v firm_lib \<Rightarrow> ir_graph \<Rightarrow> pass_stop + ir_graph" where
  "run_ConstProp k L G = (case ConstPropPass k (lib_tarval L) G of
       None \<Rightarrow> Inl (PS_Stop NoMoreFuel)
     | Some (Inl CpAssert) \<Rightarrow> Inl (PS_Stop Aborted)
     | Some (Inl CpInvalidNode) \<Rightarrow> Inl (PS_Exit EXIT_FAILURE)
     | Some (Inr (st, xs)) \<Rightarrow>
         Inr (lib_remove_bads L (lib_remove_unreachable L (lib_remove_bads L (lib_exchange L xs G)))))"

text \<open>\<open>Optimizer::run\<close>: \<open>None\<close> if a graph fails the verification\<close>

definition run_Optimizer :: "nat \<Rightarrow> 'v firm_lib \<Rightarrow> bool \<Rightarrow> ir_graph list \<Rightarrow> pass_stop + ir_graph list option" where
  "run_Optimizer k L verify gs =
     bindE (mapE (run_ConstProp k L) gs) (\<lambda>gs1.
       if verify \<and> \<not> list_all (lib_verify L) gs1 then Inr None
       else (case UnusedFnRmPass k gs1 of
           Inl NoFuel \<Rightarrow> Inl (PS_Stop NoMoreFuel)
         | Inl InvalidNode \<Rightarrow> Inl (PS_Exit EXIT_FAILURE)
         | Inl NoGraph \<Rightarrow> Inl (PS_Stop Aborted)
         | Inr gs2 \<Rightarrow> Inr (Some gs2)))"

definition asm_thrown :: "env \<Rightarrow> asm_error \<Rightarrow> pass_stop" where
  "asm_thrown E e = (case e of
       asm_error.OutOfRange \<Rightarrow> PS_Stop (Thrown_StdException (env_out_of_range E))
     | AsmInvalidNode \<Rightarrow> PS_Exit EXIT_FAILURE
     | _ \<Rightarrow> PS_Stop Aborted)"

definition generateAsm :: "nat \<Rightarrow> env \<Rightarrow> compiler_options \<Rightarrow> ir_graph list \<Rightarrow> pass_stop + string" where
  "generateAsm k E opts gs = (case asm_pass k gs of
       None \<Rightarrow> Inl (PS_Stop NoMoreFuel)
     | Some r \<Rightarrow> mapL (asm_thrown E)
         (bindE r (\<lambda>p.
          bindE (if opt_optimize opts then optimize_asm p else flattenFunctions p) program_write)))"

text \<open>\<open>lowerFirmGraphs\<close>: the written text, or \<open>None\<close> for \<open>false\<close>\<close>

definition lowerFirmGraphs ::
    "nat \<Rightarrow> env \<Rightarrow> 'v firm_lib \<Rightarrow> compiler_options \<Rightarrow> string \<Rightarrow> ir_graph list \<Rightarrow> pass_stop + string option" where
  "lowerFirmGraphs k E L opts outName gs =
     (let gs1 = map (lib_remove_bads L \<circ> lib_remove_unreachable L \<circ> lib_remove_bads L) gs;
          assemblyName = (if opt_outputAssembly opts then outName @ ''.s'' else env_tmpfile E) in
      if \<not> opt_noVerify opts \<and> \<not> list_all (lib_verify L) gs1 then Inr None
      else
        bindE (if opt_compileFirm opts then Inr (lib_be_main L gs1)
               else bindE (generateAsm k E opts gs1) (\<lambda>t.
                 if env_can_write E assemblyName then Inr (t @ [CHR 0x0A])
                 else Inl (PS_Stop (Thrown_StdException
                   (''could not open file '' @ [CHR 0x27] @ assemblyName @ [CHR 0x27]))))) (\<lambda>t.
        if env_gcc E t outName \<noteq> 0 then Inl (PS_Stop (Thrown_StdException ''Error while linking binary''))
        else Inr (Some t)))"

definition compileProgram ::
    "nat \<Rightarrow> env \<Rightarrow> 'v firm_lib \<Rightarrow> compiler_options \<Rightarrow> program \<Rightarrow> pass_stop + string option" where
  "compileProgram k E L opts p = (case lib_construct L p of
       None \<Rightarrow> Inl (PS_Stop Aborted)
     | Some gs \<Rightarrow>
         (let gs1 = map (lib_lower_highlevel L) gs;
              outName = (if opt_outputFileName opts = [] then ''a.out'' else opt_outputFileName opts) in
          bindE (if opt_optimize opts then run_Optimizer k L (\<not> opt_noVerify opts) gs1 else Inr (Some gs1)) (\<lambda>r.
          case r of None \<Rightarrow> Inr None | Some gs2 \<Rightarrow> lowerFirmGraphs k E L opts outName gs2)))"

definition run_compile :: "nat \<Rightarrow> env \<Rightarrow> 'v firm_lib \<Rightarrow> compiler_options \<Rightarrow> run_result \<times> string option" where
  "run_compile k E L opts = (case makeParser E opts of
       Inl s \<Rightarrow> ((Inl s, [], []), None)
     | Inr ps \<Rightarrow> (case parseAndAnalyze k E ps of
           Inl s \<Rightarrow> (catch_write E [] s, None)
         | Inr p \<Rightarrow>
             (let out = lib_progress L opts p in
              case compileProgram k E L opts p of
               Inl (PS_Exit c) \<Rightarrow> ((Inr c, out, []), None)
             | Inl (PS_Stop s) \<Rightarrow> (catch_write E out s, None)
             | Inr None \<Rightarrow> ((Inr EXIT_FAILURE, out, []), None)
             | Inr (Some t) \<Rightarrow> ((Inr EXIT_SUCCESS, out, []), Some t))))"

section \<open>Options, run and main\<close>

definition exclusiveOptionsSum :: "bool list \<Rightarrow> int" where
  "exclusiveOptionsSum bs = sum_list (map (\<lambda>b. if b then 1 else 0) bs)"

definition exclusive_flags :: "compiler_options \<Rightarrow> bool list" where
  "exclusive_flags opts = [opt_echoFile opts, opt_testLexer opts, opt_fuzzLexer opts, opt_testParser opts,
     opt_fuzzParser opts, opt_printAst opts, opt_dotAst opts, opt_checkSemantic opts, opt_fuzzSemantic opts,
     opt_dotAttrAst opts, opt_compileFirm opts]"

definition exclusive_message :: string where
  "exclusive_message = ''Cannot have Options --echo, --lextext, --lexfuzz, --parsertest, --parserfuzz, ''
     @ ''--print-ast, --dot-ast, --check, --fuzz-check or --dot-attr-ast simultaneously''"

definition checkOptions :: "compiler_options \<Rightarrow> stop + unit" where
  "checkOptions opts =
     (if exclusiveOptionsSum (exclusive_flags opts) > 1
      then Inl (Thrown_CompilerError (Report (ArgumentError_write exclusive_message)))
      else Inr ())"

definition compiler_run :: "nat \<Rightarrow> env \<Rightarrow> 'v firm_lib \<Rightarrow> compiler_options \<Rightarrow> run_result \<times> string option" where
  "compiler_run k E L opts =
     (if opt_echoFile opts then (run_echoFile E opts, None)
      else if opt_testLexer opts then (run_lexTest k E opts, None)
      else if opt_fuzzLexer opts then (run_lexFuzz k E opts, None)
      else if opt_testParser opts then (run_parserTest k E opts, None)
      else if opt_fuzzParser opts then (run_parserFuzz k E opts, None)
      else if opt_printAst opts then (run_astPrint k E opts, None)
      else if opt_dotAst opts then (run_astDot k E opts, None)
      else if opt_checkSemantic opts then (run_checkSemantic k E opts, None)
      else if opt_fuzzSemantic opts then (run_fuzzSemantic k E opts, None)
      else if opt_dotAttrAst opts then (run_attrAstDot k E opts, None)
      else run_compile k E L opts)"

text \<open>The handlers of \<open>main\<close>: an exception that a report throws there ends in \<open>std::terminate\<close>.\<close>

definition main_catch :: "run_result \<Rightarrow> run_result" where
  "main_catch r = (case r of
       (Inl (Thrown_CompilerError (Report t)), out, err) \<Rightarrow> (Inr EXIT_FAILURE, out, err @ t)
     | (Inl (Thrown_CompilerError (ReportThrows t)), out, err) \<Rightarrow> (Inl Aborted, out, err @ t)
     | (Inl (Thrown_CompilerError ReportStuck), out, err) \<Rightarrow> (Inl Stuck, out, err)
     | (Inl (Thrown_StdException m), out, err) \<Rightarrow> (Inr EXIT_FAILURE, out, err
         @ co_run [Mode co_bold, Color co_red, Put ''error (std::exception): '', Color co_regular, Put m, Endl] make_colored)
     | r' \<Rightarrow> r')"

text \<open>\<open>main\<close> behind \<open>parseArguments\<close>\<close>

definition compiler_main :: "nat \<Rightarrow> env \<Rightarrow> 'v firm_lib \<Rightarrow> compiler_options \<Rightarrow> run_result \<times> string option" where
  "compiler_main k E L opts = (case checkOptions opts of
       Inl s \<Rightarrow> (main_catch (Inl s, [], []), None)
     | Inr _ \<Rightarrow>
         if \<not> env_streams_good E then ((Inr EXIT_FAILURE, [], []), None)
         else (let (r, t) = compiler_run k E L opts in (main_catch r, t)))"

end
