(* ===== verification/Dot_Graph.thy ===== *)
theory Dot_Graph
  imports Dot Ast_Wf "HOL-Library.Multiset"
begin

text \<open>
  The graph that the dot output describes: every assertion of the visitor holds, every node is declared
  once, every edge joins declared nodes, and the edges of the tree form a forest with one root for
  every class.
\<close>

section \<open>Trees without a missing primitive type\<close>

fun prim_basic :: "basic_type \<Rightarrow> bool" where
  "prim_basic (PrimitiveType l p) \<longleftrightarrow> p \<noteq> PT_None"
| "prim_basic (ClassType l n d) \<longleftrightarrow> True"

definition prim_type :: "ast_type \<Rightarrow> bool" where
  "prim_type t \<longleftrightarrow> prim_basic (elementType t)"

fun prim_expr :: "expr \<Rightarrow> bool" where
  "prim_expr (NewArrayExpression l t ty e) \<longleftrightarrow> prim_type ty \<and> prim_expr e"
| "prim_expr (MethodInvocation l t e n args d b) \<longleftrightarrow> prim_expr e \<and> (\<forall>a \<in> set args. prim_expr a)"
| "prim_expr (FieldAccess l t e n d) \<longleftrightarrow> prim_expr e"
| "prim_expr (ArrayAccess l t a i) \<longleftrightarrow> prim_expr a \<and> prim_expr i"
| "prim_expr (BinaryExpression l t a b op) \<longleftrightarrow> prim_expr a \<and> prim_expr b"
| "prim_expr (UnaryExpression l t e op) \<longleftrightarrow> prim_expr e"
| "prim_expr _ \<longleftrightarrow> True"

fun prim_stmt :: "stmt \<Rightarrow> bool" where
  "prim_stmt (Block l c ss b) \<longleftrightarrow> (\<forall>s \<in> set ss. prim_stmt s)"
| "prim_stmt (ExpressionStatement l c e) \<longleftrightarrow> prim_expr e"
| "prim_stmt (IfStatement l c e a b) \<longleftrightarrow>
     prim_expr e \<and> (\<forall>s \<in> set_option a. prim_stmt s) \<and> (\<forall>s \<in> set_option b. prim_stmt s)"
| "prim_stmt (WhileStatement l c e a) \<longleftrightarrow> prim_expr e \<and> (\<forall>s \<in> set_option a. prim_stmt s)"
| "prim_stmt (ReturnStatement l c e) \<longleftrightarrow> (\<forall>x \<in> set_option e. prim_expr x)"
| "prim_stmt (VariableDeclaration l c t n e i) \<longleftrightarrow> prim_type t \<and> (\<forall>x \<in> set_option e. prim_expr x)"

definition prim_method :: "regular_method \<Rightarrow> bool" where
  "prim_method m \<longleftrightarrow> prim_type (rm_returnType m) \<and> (\<forall>x \<in> set (rm_parameters m). prim_type (p_type x))
     \<and> prim_stmt (rm_block m)"

definition prim_class :: "klass \<Rightarrow> bool" where
  "prim_class k \<longleftrightarrow> (\<forall>f \<in> set (c_fields k). prim_type (f_type f)) \<and> (\<forall>m \<in> set (c_methods k). prim_method m)
     \<and> (\<forall>m \<in> set (c_mainMethods k). prim_stmt (mm_block m))"

definition prim_program :: "program \<Rightarrow> bool" where
  "prim_program p \<longleftrightarrow> (\<forall>k \<in> set (pr_classes p). prim_class k)"

lemma wf_prim_type: "wf_type t \<Longrightarrow> prim_type t"
proof (cases t)
  case (BasicType b)
  moreover assume "wf_type t"
  ultimately show ?thesis by (cases b) (auto simp: prim_type_def elementType_def)
next
  case (ArrayType l b d)
  moreover assume "wf_type t"
  ultimately show ?thesis by (cases b) (auto simp: prim_type_def elementType_def)
qed

lemma wf_prim_expr: "wf_expr e \<Longrightarrow> prim_expr e"
  by (induction e rule: wf_expr.induct) (auto simp: wf_prim_type split: ast_type.splits)

lemma wf_prim_stmt: "wf_stmt s \<Longrightarrow> prim_stmt s"
  by (induction s rule: wf_stmt.induct) (auto simp: wf_prim_type wf_prim_expr split: option.splits)

lemma wf_prim_program: "wf_program p \<Longrightarrow> prim_program p"
  by (auto simp: wf_program_def prim_program_def wf_class_def prim_class_def wf_field_def wf_method_def
      prim_method_def wf_params_def wf_main_def intro: wf_prim_type wf_prim_stmt)

section \<open>The graph of a stream\<close>

fun declaredNodes :: "dot_item list \<Rightarrow> string list" where
  "declaredNodes [] = []"
| "declaredNodes (DotNode n l sh # xs) = n # declaredNodes xs"
| "declaredNodes (_ # xs) = declaredNodes xs"

fun targets :: "dot_item list \<Rightarrow> string list" where
  "targets [] = []"
| "targets (DotEdge a b l # xs) = b # targets xs"
| "targets (_ # xs) = targets xs"

fun weakTargets :: "dot_item list \<Rightarrow> string list" where
  "weakTargets [] = []"
| "weakTargets (DotWeakEdge a b l # xs) = b # weakTargets xs"
| "weakTargets (_ # xs) = weakTargets xs"

text \<open>
  An edge follows the declaration of its target and comes from a node that is declared before; the
  first argument is the list of the nodes declared so far, the last one first.
\<close>

fun edges_ok :: "string list \<Rightarrow> dot_item list \<Rightarrow> bool" where
  "edges_ok seen [] = True"
| "edges_ok seen (DotNode n l sh # xs) = edges_ok (n # seen) xs"
| "edges_ok seen (DotEdge a b l # xs) = (seen \<noteq> [] \<and> b = hd seen \<and> a \<in> set (tl seen) \<and> edges_ok seen xs)"
| "edges_ok seen (DotWeakEdge a b l # xs) = (a \<in> set seen \<and> edges_ok seen xs)"
| "edges_ok seen (_ # xs) = edges_ok seen xs"

lemma declaredNodes_append [simp]: "declaredNodes (xs @ ys) = declaredNodes xs @ declaredNodes ys"
  by (induction xs rule: declaredNodes.induct) auto

lemma targets_append [simp]: "targets (xs @ ys) = targets xs @ targets ys"
  by (induction xs rule: targets.induct) auto

lemma weakTargets_append [simp]: "weakTargets (xs @ ys) = weakTargets xs @ weakTargets ys"
  by (induction xs rule: weakTargets.induct) auto

lemma edges_ok_append [simp]:
  "edges_ok seen (xs @ ys) \<longleftrightarrow> edges_ok seen xs \<and> edges_ok (rev (declaredNodes xs) @ seen) ys"
  by (induction seen xs rule: edges_ok.induct) auto

section \<open>The invariant\<close>

text \<open>
  \<open>P\<close> are the keys of the classes, fields and methods that are not declared yet and \<open>N\<close> their names; \<open>c\<close>
  is the number of roots.
\<close>

definition node_ident :: "nat \<Rightarrow> string" where
  "node_ident i = ''node'' @ nat_to_string i"

lemma node_ident_inject [simp]: "node_ident i = node_ident j \<longleftrightarrow> i = j"
  by (simp add: node_ident_def)

definition graph_inv :: "(dot_key \<Rightarrow> string) \<Rightarrow> dot_key set \<Rightarrow> nat \<Rightarrow> dot \<Rightarrow> bool" where
  "graph_inv N P c d \<longleftrightarrow>
     distinct (declaredNodes (dot_stream d))
     \<and> set (declaredNodes (dot_stream d)) \<union> N ` P \<subseteq> node_ident ` {..< nodeCounter d}
     \<and> inj_on N P \<and> N ` P \<inter> set (declaredNodes (dot_stream d)) = {}
     \<and> (\<forall>k \<in> P. map_of (nodeNames d) k = Some (N k))
     \<and> snd ` set (nodeNames d) \<subseteq> set (declaredNodes (dot_stream d)) \<union> N ` P
     \<and> set (weakTargets (dot_stream d)) \<subseteq> set (declaredNodes (dot_stream d)) \<union> N ` P
     \<and> edges_ok [] (dot_stream d)
     \<and> distinct (targets (dot_stream d))
     \<and> set (targets (dot_stream d)) \<subseteq> set (declaredNodes (dot_stream d))
     \<and> length (declaredNodes (dot_stream d)) = length (targets (dot_stream d)) + c"

definition dgood :: "bool \<Rightarrow> (dot_key \<Rightarrow> string) \<Rightarrow> dot_key set \<Rightarrow> nat \<Rightarrow> string list \<Rightarrow> dot \<Rightarrow> bool" where
  "dgood D N P c s d \<longleftrightarrow>
     nodeStack d = s \<and> s \<noteq> [] \<and> parentNode d = hd s
     \<and> (D \<longrightarrow> set s \<subseteq> set (declaredNodes (dot_stream d)) \<and> graph_inv N P c d)"

text \<open>A visit keeps the stack and declares the keys of \<open>P - Q\<close>.\<close>

definition visit_ok ::
  "bool \<Rightarrow> (dot_key \<Rightarrow> string) \<Rightarrow> dot_key set \<Rightarrow> dot_key set \<Rightarrow> (dot \<Rightarrow> dot option) \<Rightarrow> bool" where
  "visit_ok D N P Q f \<longleftrightarrow>
     (\<forall>c s d. dgood D N P c s d \<longrightarrow> (\<exists>d'. f d = Some d' \<and> dgood D N Q c s d'))"

lemma visit_bind [intro]:
  "visit_ok D N P Q f \<Longrightarrow> visit_ok D N Q R g \<Longrightarrow> visit_ok D N P R (\<lambda>d. Option.bind (f d) g)"
  unfolding visit_ok_def by (metis bind.bind_lunit)

lemma dgood_edgeLabel: "dgood D N P c s d \<Longrightarrow> dgood D N P c s (edgeLabel l d)"
  by (auto simp: dgood_def graph_inv_def edgeLabel_def)

lemma visit_edgeLabel [intro]: "visit_ok D N P Q f \<Longrightarrow> visit_ok D N P Q (\<lambda>d. f (edgeLabel l d))"
  unfolding visit_ok_def using dgood_edgeLabel by blast

lemma visit_Some [intro]: "visit_ok D N P P Some"
  by (simp add: visit_ok_def)

lemma dgood_push:
  "dgood D N P c s d \<Longrightarrow> D \<longrightarrow> n \<in> set (declaredNodes (dot_stream d)) \<Longrightarrow> dgood D N P c (n # s) (pushNode n d)"
  by (auto simp: dgood_def graph_inv_def pushNode_def)

lemma dgood_pop:
  "dgood D N P c (n # s) d \<Longrightarrow> s \<noteq> [] \<Longrightarrow> \<exists>d'. popNode d = Some d' \<and> dgood D N P c s d'"
  by (cases s) (auto simp: dgood_def graph_inv_def popNode_def)

lemma inNode_ok:
  assumes "visit_ok D N P Q f" and d: "dgood D N P c s d" and n: "D \<longrightarrow> n \<in> set (declaredNodes (dot_stream d))"
  shows "\<exists>d'. inNode n f d = Some d' \<and> dgood D N Q c s d'"
proof -
  obtain d1 where 1: "f (pushNode n d) = Some d1" "dgood D N Q c (n # s) d1"
    using assms(1) dgood_push [OF d n] unfolding visit_ok_def by blast
  have "s \<noteq> []" using d by (simp add: dgood_def)
  then obtain d2 where "popNode d1 = Some d2" "dgood D N Q c s d2" using dgood_pop [OF 1(2)] by blast
  then show ?thesis by (simp add: inNode_def 1)
qed

lemma fresh_node:
  assumes "graph_inv N P c d"
  shows "node_ident (nodeCounter d) \<notin> set (declaredNodes (dot_stream d)) \<union> N ` P"
  using assms by (auto simp: graph_inv_def)

text \<open>Declaring a node whose name is new, and keys outside of \<open>P\<close> for it.\<close>

lemma nodeDecl_ok:
  assumes d: "dgood D N P c s d" and k: "\<forall>x \<in> set_option k. x \<notin> P" and n: "nodeDecl l k sh d = (n, d')"
  shows "dgood D N P c s d'" and "n \<in> set (declaredNodes (dot_stream d'))"
proof -
  let ?n = "node_ident (nodeCounter d)"
  have n': "n = ?n" "dot_stream d' = dot_stream d @ [DotNode ?n l sh, DotEdge (parentNode d) ?n (nextEdgeLabel d)]"
    "nodeStack d' = nodeStack d" "parentNode d' = parentNode d" "nodeCounter d' = Suc (nodeCounter d)"
    "nodeNames d' = (case k of None \<Rightarrow> [] | Some x \<Rightarrow> [(x, ?n)]) @ nodeNames d"
    using n by (auto simp: nodeDecl_def newNodeName_def nodeDeclForExistingName_def dot_write_def node_ident_def
        split: option.splits)
  show "n \<in> set (declaredNodes (dot_stream d'))" by (simp add: n')
  have g: "graph_inv N P c d'" if D
  proof -
    have g: "graph_inv N P c d" and s: "set s \<subseteq> set (declaredNodes (dot_stream d))" "s \<noteq> []" "parentNode d = hd s"
      using d that by (auto simp: dgood_def)
    have fr: "?n \<notin> set (declaredNodes (dot_stream d))" "?n \<notin> N ` P" using fresh_node [OF g] by auto
    have par: "parentNode d \<in> set (declaredNodes (dot_stream d))" using s by auto
    have "?n \<notin> set (targets (dot_stream d))" using g fr by (auto simp: graph_inv_def)
    moreover have "map_of (nodeNames d') x = map_of (nodeNames d) x" if "x \<in> P" for x
      using k that by (auto simp: n' split: option.splits)
    moreover have "set (declaredNodes (dot_stream d')) \<union> N ` P \<subseteq> node_ident ` {..< nodeCounter d'}"
      using g by (auto simp: graph_inv_def n' lessThan_Suc)
    moreover have "snd ` set (nodeNames d') \<subseteq> set (declaredNodes (dot_stream d')) \<union> N ` P"
      using g by (auto simp: graph_inv_def n' split: option.splits)
    ultimately show ?thesis using g fr par by (auto simp: graph_inv_def n'(2))
  qed
  show "dgood D N P c s d'" using d g by (auto simp: dgood_def n')
qed

lemma linkDef_ok:
  assumes d: "dgood D N P c s d" and n: "D \<longrightarrow> n \<in> set (declaredNodes (dot_stream d))"
  shows "dgood D N P c s (linkDef k n msg d)"
    and "set (declaredNodes (dot_stream (linkDef k n msg d))) = set (declaredNodes (dot_stream d))"
proof -
  show "set (declaredNodes (dot_stream (linkDef k n msg d))) = set (declaredNodes (dot_stream d))"
    by (auto simp: linkDef_def weakEdgeToNode_def dot_write_def split: option.splits)
  show "dgood D N P c s (linkDef k n msg d)"
  proof (cases "Option.bind k (map_of (nodeNames d))")
    case None
    then show ?thesis using d by (auto simp: linkDef_def dgood_def graph_inv_def split: option.splits)
  next
    case (Some m)
    then have "m \<in> snd ` set (nodeNames d)" by (force dest: map_of_SomeD split: bind_splits)
    then show ?thesis using d n Some
      by (auto simp: linkDef_def weakEdgeToNode_def dot_write_def dgood_def graph_inv_def)
  qed
qed


section \<open>The visit functions\<close>

lemma visit_leaf [intro]: "visit_ok D N P P (\<lambda>d. Some (snd (nodeDecl l None sh d)))"
  unfolding visit_ok_def by (metis empty_iff nodeDecl_ok(1) option.set(1) surjective_pairing)

lemma visit_inNode [intro]:
  assumes "visit_ok D N P Q f" and "\<forall>x \<in> set_option k. x \<notin> P"
  shows "visit_ok D N P Q (\<lambda>d. let (nn, d) = nodeDecl l k sh d in inNode nn f d)"
  unfolding visit_ok_def
proof (intro allI impI)
  fix c s d
  assume d: "dgood D N P c s d"
  obtain nn d1 where n: "nodeDecl l k sh d = (nn, d1)" by (cases "nodeDecl l k sh d")
  note n1 = nodeDecl_ok [OF d assms(2) n]
  show "\<exists>d'. (let (nn, d) = nodeDecl l k sh d in inNode nn f d) = Some d' \<and> dgood D N Q c s d'"
    using inNode_ok [OF assms(1) n1(1)] n1(2) by (simp add: n)
qed

lemma visit_linked [intro]:
  "visit_ok D N P P (\<lambda>d. let (nn, d) = nodeDecl l None sh d in Some (linkDef k nn msg d))"
  unfolding visit_ok_def
proof (intro allI impI)
  fix c s d
  assume d: "dgood D N P c s d"
  obtain nn d1 where n: "nodeDecl l None sh d = (nn, d1)" by (cases "nodeDecl l None sh d")
  note n1 = nodeDecl_ok [OF d _ n]
  show "\<exists>d'. (let (nn, d) = nodeDecl l None sh d in Some (linkDef k nn msg d)) = Some d' \<and> dgood D N P c s d'"
    using linkDef_ok(1) [OF n1(1)] n1(2) by (simp add: n)
qed

lemma visit_linked_inNode [intro]:
  assumes "visit_ok D N P Q f"
  shows "visit_ok D N P Q (\<lambda>d. let (nn, d) = nodeDecl l None sh d; d = linkDef k nn msg d in inNode nn f d)"
  unfolding visit_ok_def
proof (intro allI impI)
  fix c s d
  assume d: "dgood D N P c s d"
  obtain nn d1 where n: "nodeDecl l None sh d = (nn, d1)" by (cases "nodeDecl l None sh d")
  note n1 = nodeDecl_ok [OF d _ n]
  have "dgood D N P c s (linkDef k nn msg d1)" and "nn \<in> set (declaredNodes (dot_stream (linkDef k nn msg d1)))"
    using n1 linkDef_ok by auto
  then show "\<exists>d'. (let (nn, d) = nodeDecl l None sh d; d = linkDef k nn msg d in inNode nn f d) = Some d'
      \<and> dgood D N Q c s d'"
    using inNode_ok [OF assms] by (simp add: n)
qed

lemma visit_eq: "(\<And>d. f d = g d) \<Longrightarrow> visit_ok D N P Q g \<Longrightarrow> visit_ok D N P Q f"
  by (simp add: visit_ok_def)

lemma dot_basicType_ok [intro]: "prim_basic b \<Longrightarrow> visit_ok D N P P (dot_basicType p b)"
proof (induction b rule: prim_basic.induct)
  case (1 l pt)
  then show ?case by (cases pt) (auto intro!: visit_eq [OF dot_basicType.simps(1)] visit_leaf)
next
  case (2 l n d)
  show ?case by (rule visit_eq [OF dot_basicType.simps(2)]) (rule visit_linked)
qed

lemma dot_type_ok [intro]: "prim_type t \<Longrightarrow> visit_ok D N P P (dot_type p t)"
proof (cases t)
  case (BasicType b)
  moreover assume "prim_type t"
  ultimately show ?thesis
    by (auto simp: prim_type_def elementType_def intro!: visit_eq [OF dot_type.simps(1)])
next
  case (ArrayType l b d)
  moreover assume "prim_type t"
  ultimately show ?thesis
    by (auto simp: prim_type_def elementType_def
        intro!: visit_eq [OF dot_type.simps(2)] visit_inNode visit_edgeLabel)
qed

lemma dot_exprs_ok [intro]:
  "(\<And>e. e \<in> set es \<Longrightarrow> visit_ok D N P P (dot_expr p e)) \<Longrightarrow> visit_ok D N P P (dot_exprs p es)"
proof (induction es)
  case Nil
  show ?case by (rule visit_eq [OF dot_exprs.simps(1)]) (rule visit_Some)
next
  case (Cons e es)
  show ?case by (rule visit_eq [OF dot_exprs.simps(2)], rule visit_bind [where Q = P])
      (simp add: Cons.prems, rule Cons.IH, simp add: Cons.prems)
qed

lemmas dot_expr_eqs = dot_expr.simps [THEN visit_eq]

lemmas visit_rules =
  visit_leaf visit_linked visit_linked_inNode visit_inNode visit_bind visit_edgeLabel visit_Some dot_type_ok
  visit_linked [unfolded Let_def] visit_linked_inNode [unfolded Let_def] visit_inNode [unfolded Let_def]

lemma dot_varRef_ok: "visit_ok D N P P (dot_varRef n def)"
  by (rule visit_eq [OF dot_varRef_def]) (rule visit_linked)

lemma dot_newObject_ok: "visit_ok D N P P (dot_newObject p n def)"
  by (rule visit_eq [OF dot_newObject_def]) (rule visit_linked)

lemma dot_expr_ok [intro]: "prim_expr e \<Longrightarrow> visit_ok D N P P (dot_expr p e)"
  by (induction e)
    (rule dot_expr_eqs, auto intro!: visit_rules dot_exprs_ok dot_varRef_ok dot_newObject_ok)+

lemma dot_optExpr_ok [intro]: "\<forall>x \<in> set_option e. prim_expr x \<Longrightarrow> visit_ok D N P P (dot_optExpr p e)"
  by (cases e) (auto intro!: visit_eq [OF dot_optExpr_def] visit_rules)

text \<open>The keys that are declared in advance\<close>

fun member_key :: "dot_key \<Rightarrow> bool" where
  "member_key (DK_Parameter l) = False"
| "member_key (DK_VarDecl l) = False"
| "member_key _ = True"

lemma dot_stmts_ok [intro]:
  "(\<And>s. s \<in> set ss \<Longrightarrow> visit_ok D N P P (dot_stmt p s)) \<Longrightarrow> visit_ok D N P P (dot_stmts p ss)"
proof (induction ss)
  case Nil
  show ?case by (rule visit_eq [OF dot_stmts.simps(1)]) (rule visit_Some)
next
  case (Cons e es)
  show ?case by (rule visit_eq [OF dot_stmts.simps(2)], rule visit_bind [where Q = P])
      (simp add: Cons.prems, rule Cons.IH, simp add: Cons.prems)
qed

lemma dot_optStmt_ok [intro]:
  "(\<And>s. a = Some s \<Longrightarrow> visit_ok D N P P (dot_stmt p s)) \<Longrightarrow> visit_ok D N P P (dot_optStmt p a)"
  by (cases a) (auto intro!: dot_optStmt.simps [THEN visit_eq] visit_rules)

lemma dot_branch_ok [intro]:
  "(\<And>s. a = Some s \<Longrightarrow> visit_ok D N P P (dot_stmt p s)) \<Longrightarrow> visit_ok D N P P (dot_branch p nm a)"
  by (cases a) (auto intro!: dot_branch.simps [THEN visit_eq] visit_rules)

lemmas dot_stmt_eqs = dot_stmt.simps [THEN visit_eq]

lemma dot_stmt_ok [intro]:
  assumes P: "\<forall>k \<in> P. member_key k"
  shows "prim_stmt s \<Longrightarrow> visit_ok D N P P (dot_stmt p s)"
proof (induction s)
  case (VariableDeclaration l c t n e i)
  have k: "DK_VarDecl l \<notin> P" using P by auto
  show ?case
    using VariableDeclaration k
    by (cases e) (rule dot_stmt_eqs, auto intro!: visit_rules dot_expr_ok)+
qed (rule dot_stmt_eqs, auto intro!: visit_rules dot_expr_ok dot_optExpr_ok dot_stmts_ok dot_branch_ok dot_optStmt_ok)+

lemma dot_parameter_ok:
  assumes P: "\<forall>k \<in> P. member_key k" and "prim_type (p_type x)"
  shows "visit_ok D N P P (dot_parameter p x)"
proof -
  have "DK_Parameter (p_loc x) \<notin> P" using P by auto
  then show ?thesis using assms(2) by (auto intro!: visit_eq [OF dot_parameter_def] visit_rules)
qed

lemma dot_parameters_ok:
  assumes P: "\<forall>k \<in> P. member_key k"
  shows "\<forall>x \<in> set xs. prim_type (p_type x) \<Longrightarrow> visit_ok D N P P (dot_parameters p i xs)"
proof (induction xs arbitrary: i)
  case Nil
  show ?case by (rule visit_eq [OF dot_parameters.simps(1)]) (rule visit_Some)
next
  case (Cons x xs)
  then show ?case
    by (intro visit_eq [OF dot_parameters.simps(2)] visit_bind [where Q = P] visit_edgeLabel)
      (auto intro: dot_parameter_ok [OF P])
qed

text \<open>Members and classes have names already.\<close>

lemma nodeName_pending: "graph_inv N P c d \<Longrightarrow> k \<in> P \<Longrightarrow> nodeName k d = N k"
  by (simp add: graph_inv_def nodeName_def)

lemma graph_inv_declare:
  assumes g: "graph_inv N P c d" and k: "k \<in> P"
    and s: "dot_stream d' = dot_stream d @ DotNode (N k) l sh # es"
    and es: "es = [] \<and> c' = Suc c \<or> es = [DotEdge a (N k) l'] \<and> c' = c \<and> a \<in> set (declaredNodes (dot_stream d))"
    and d: "nodeCounter d' = nodeCounter d" "nodeNames d' = nodeNames d"
  shows "graph_inv N (P - {k}) c' d'"
proof -
  have n: "N k \<notin> set (declaredNodes (dot_stream d))" using g k by (auto simp: graph_inv_def)
  then have t: "N k \<notin> set (targets (dot_stream d))" using g by (auto simp: graph_inv_def)
  have im: "N ` P = insert (N k) (N ` (P - {k}))" using k by blast
  have nim: "N k \<notin> N ` (P - {k})" using g k by (auto simp: graph_inv_def inj_on_def)
  have "inj_on N (P - {k})" using g by (auto simp: graph_inv_def inj_on_diff)
  then show ?thesis using es g n t nim unfolding graph_inv_def s d im by auto
qed

lemma visit_member:
  assumes "visit_ok D N (P - {k}) (P - {k}) f" and k: "D \<longrightarrow> k \<in> P"
  shows "visit_ok D N P (P - {k})
    (\<lambda>d. let nn = nodeName k d; d = nodeDeclForExistingName nn l sh d in inNode nn f d)"
  unfolding visit_ok_def
proof (intro allI impI)
  fix c s d
  assume d: "dgood D N P c s d"
  let ?n = "nodeName k d"
  let ?d = "nodeDeclForExistingName ?n l sh d"
  have n: "?n \<in> set (declaredNodes (dot_stream ?d))" by (simp add: nodeDeclForExistingName_def dot_write_def)
  have "graph_inv N (P - {k}) c ?d" if D
  proof -
    have g: "graph_inv N P c d" "k \<in> P" using d k that by (simp_all add: dgood_def)
    have "parentNode d \<in> set (declaredNodes (dot_stream d))" using d that by (auto simp: dgood_def)
    then show ?thesis
      by (intro graph_inv_declare [OF g, of _ l sh "[DotEdge (parentNode d) (N k) (nextEdgeLabel d)]"])
        (auto simp: nodeDeclForExistingName_def dot_write_def nodeName_pending [OF g])
  qed
  then have "dgood D N (P - {k}) c s ?d"
    using d by (auto simp: dgood_def nodeDeclForExistingName_def dot_write_def)
  from inNode_ok [OF assms(1) this] n
  show "\<exists>d'. (let nn = ?n; d = nodeDeclForExistingName nn l sh d in inNode nn f d) = Some d'
      \<and> dgood D N (P - {k}) c s d'" by (simp add: Let_def)
qed

lemma dot_field_ok:
  assumes "prim_type (f_type f)" and "D \<longrightarrow> DK_Field (f_loc f) \<in> P"
  shows "visit_ok D N P (P - {DK_Field (f_loc f)}) (dot_field p f)"
  using assms by (intro visit_eq [OF dot_field_def] visit_member visit_edgeLabel dot_type_ok)

lemma dot_method_ok:
  assumes P: "\<forall>k \<in> P. member_key k" and m: "prim_method m" and "D \<longrightarrow> DK_Method (rm_loc m) \<in> P"
  shows "visit_ok D N P (P - {DK_Method (rm_loc m)}) (dot_method p m)"
proof -
  let ?P = "P - {DK_Method (rm_loc m)}"
  have P': "\<forall>k \<in> ?P. member_key k" using P by auto
  show ?thesis
    using assms(3) m dot_parameters_ok [OF P', of "rm_parameters m"] dot_stmt_ok [OF P', of "rm_block m"]
    by (intro visit_eq [OF dot_method_def] visit_member visit_bind [where Q = ?P] visit_edgeLabel visit_inNode
        dot_type_ok) (auto simp: prim_method_def)
qed

lemma dot_mainMethod_ok:
  assumes P: "\<forall>k \<in> P. member_key k" and "prim_stmt (mm_block m)"
  shows "visit_ok D N P P (dot_mainMethod p m)"
  using dot_stmt_ok [OF P assms(2)] by (intro visit_eq [OF dot_mainMethod_def] visit_inNode) auto

lemma dot_each_ok:
  assumes f: "\<And>x Q. x \<in> set xs \<Longrightarrow> Q \<subseteq> P \<Longrightarrow> D \<longrightarrow> K x \<in> Q \<Longrightarrow> visit_ok D N Q (Q - {K x}) (f x)"
    and "D \<longrightarrow> distinct (map K xs) \<and> K ` set xs \<subseteq> P"
  shows "visit_ok D N P (P - K ` set xs) (dot_each f xs)"
  using assms
proof (induction xs arbitrary: P)
  case Nil
  show ?case by (rule visit_eq [OF dot_each.simps(1)]) (simp add: visit_Some)
next
  case (Cons x xs)
  have e: "P - K ` set (x # xs) = (P - {K x}) - K ` set xs" by auto
  show ?case unfolding e
  proof (rule visit_eq [OF dot_each.simps(2)], rule visit_bind [where Q = "P - {K x}"])
    show "visit_ok D N P (P - {K x}) (f x)" using Cons.prems by auto
    show "visit_ok D N (P - {K x}) (P - {K x} - K ` set xs) (dot_each f xs)"
    proof (rule Cons.IH)
      show "D \<longrightarrow> distinct (map K xs) \<and> K ` set xs \<subseteq> P - {K x}"
        using Cons.prems(2) by (force simp: image_iff)
    qed (use Cons.prems(1) in auto)
  qed
qed

lemma dot_each_plain:
  "(\<And>x. x \<in> set xs \<Longrightarrow> visit_ok D N P P (f x)) \<Longrightarrow> visit_ok D N P P (dot_each f xs)"
proof (induction xs)
  case Nil
  show ?case by (rule visit_eq [OF dot_each.simps(1)]) (rule visit_Some)
next
  case (Cons x xs)
  show ?case by (rule visit_eq [OF dot_each.simps(2)], rule visit_bind [where Q = P])
      (simp add: Cons.prems, rule Cons.IH, simp add: Cons.prems)
qed

text \<open>Between the classes the stack is empty.\<close>

definition tgood :: "bool \<Rightarrow> (dot_key \<Rightarrow> string) \<Rightarrow> dot_key set \<Rightarrow> nat \<Rightarrow> dot \<Rightarrow> bool" where
  "tgood D N P c d \<longleftrightarrow> nodeStack d = [] \<and> (D \<longrightarrow> graph_inv N P c d)"

lemma sort_key_image [simp]: "g ` set (sort_key f xs) = g ` set xs"
  by simp

lemma distinct_map_sort_key: "distinct (map g (sort_key f xs)) \<longleftrightarrow> distinct (map g xs)"
  by (simp add: distinct_map)

lemma class_members_ok:
  assumes P: "\<forall>x \<in> P. member_key x" and k: "prim_class k"
    and D: "D \<longrightarrow> distinct (class_keys k) \<and> set (class_keys k) - {DK_Class (c_loc k)} \<subseteq> P"
  shows "visit_ok D N P (P - (set (class_keys k) - {DK_Class (c_loc k)}))
    (\<lambda>d. Option.bind (dot_each (dot_field p) (sort_key f_name (c_fields k)) d) (\<lambda>d.
        Option.bind (dot_each (dot_method p) (sort_key rm_name (c_methods k)) d)
          (dot_each (dot_mainMethod p) (sort_key mm_name (c_mainMethods k)))))"
proof -
  let ?F = "DK_Field \<circ> f_loc" and ?M = "DK_Method \<circ> rm_loc"
  let ?P1 = "P - ?F ` set (sort_key f_name (c_fields k))"
  let ?P2 = "?P1 - ?M ` set (sort_key rm_name (c_methods k))"
  have e: "P - (set (class_keys k) - {DK_Class (c_loc k)}) = ?P2" by (auto simp: class_keys_def)
  have d: "D \<longrightarrow> distinct (map ?F (c_fields k)) \<and> distinct (map ?M (c_methods k))
      \<and> ?F ` set (c_fields k) \<subseteq> P \<and> ?M ` set (c_methods k) \<subseteq> ?P1"
    using D by (force simp: class_keys_def)
  have P2: "\<forall>x \<in> ?P2. member_key x" using P by auto
  have "visit_ok D N P ?P1 (dot_each (dot_field p) (sort_key f_name (c_fields k)))"
    by (rule dot_each_ok) (use d k in \<open>auto simp: distinct_map_sort_key prim_class_def intro!: dot_field_ok\<close>)
  moreover have "visit_ok D N ?P1 ?P2 (dot_each (dot_method p) (sort_key rm_name (c_methods k)))"
    by (rule dot_each_ok) (use d k P in \<open>auto simp: distinct_map_sort_key prim_class_def intro!: dot_method_ok\<close>)
  moreover have "visit_ok D N ?P2 ?P2 (dot_each (dot_mainMethod p) (sort_key mm_name (c_mainMethods k)))"
    by (rule dot_each_plain) (use k P2 in \<open>auto simp: prim_class_def intro!: dot_mainMethod_ok\<close>)
  ultimately show ?thesis unfolding e by (intro visit_bind [where Q = ?P1] visit_bind [where Q = ?P2])
qed

lemma graph_inv_counter:
  assumes "graph_inv N P c d" and "dot_stream d' = dot_stream d" "nodeNames d' = nodeNames d"
    and "nodeCounter d \<le> nodeCounter d'"
  shows "graph_inv N P c d'"
proof -
  have "node_ident ` {..< nodeCounter d} \<subseteq> node_ident ` {..< nodeCounter d'}" using assms(4) by auto
  with assms(1) show ?thesis
    unfolding graph_inv_def assms(2,3)
    by (elim conjE, intro conjI) (assumption | erule subset_trans)+
qed

lemma dot_class_ok:
  assumes d: "tgood D N P c d" and P: "\<forall>x \<in> P. member_key x" and k: "prim_class k"
    and D: "D \<longrightarrow> distinct (class_keys k) \<and> set (class_keys k) \<subseteq> P"
  shows "\<exists>d'. dot_class p k d = Some d' \<and> tgood D N (P - set (class_keys k)) (Suc c) d'"
proof -
  let ?k = "DK_Class (c_loc k)"
  let ?Q = "P - {?k}"
  let ?n = "nodeName ?k d"
  define d1 where "d1 = snd (toplevelDecl ?k (''Class '' @ c_name k)
    ((snd (newNodeName d))\<lparr>parentNode := fst (newNodeName d)\<rparr>))"
  have d1: "dot_stream d1 = dot_stream d @ [DotNode ?n (''Class '' @ c_name k) SHAPE_NONE]"
    "nodeStack d1 = nodeStack d" "nodeNames d1 = nodeNames d" "nodeCounter d1 = Suc (nodeCounter d)"
    by (simp_all add: d1_def toplevelDecl_def dot_write_def newNodeName_def nodeName_def)
  have g: "graph_inv N ?Q (Suc c) d1" if D
  proof -
    have g: "graph_inv N P c d" "?k \<in> P" using d D that by (auto simp: tgood_def class_keys_def)
    have "graph_inv N ?Q (Suc c) (d1\<lparr>nodeCounter := nodeCounter d\<rparr>)"
      by (rule graph_inv_declare [OF g, where es = "[]"]) (simp_all add: d1 nodeName_pending [OF g])
    then show ?thesis by (rule graph_inv_counter) (simp_all add: d1)
  qed
  have push: "dgood D N ?Q (Suc c) [?n] (pushNode ?n d1)"
    using d g by (auto simp: dgood_def tgood_def pushNode_def d1 graph_inv_def)
  have k': "?k \<in> set (class_keys k)" by (simp add: class_keys_def)
  then have e: "?Q - (set (class_keys k) - {?k}) = P - set (class_keys k)" by blast
  have "\<forall>x \<in> ?Q. member_key x" using P by blast
  moreover have "D \<longrightarrow> distinct (class_keys k) \<and> set (class_keys k) - {?k} \<subseteq> ?Q" using D by blast
  ultimately have v: "visit_ok D N ?Q (P - set (class_keys k))
     (\<lambda>d. Option.bind (dot_each (dot_field p) (sort_key f_name (c_fields k)) d) (\<lambda>d.
        Option.bind (dot_each (dot_method p) (sort_key rm_name (c_methods k)) d)
          (dot_each (dot_mainMethod p) (sort_key mm_name (c_mainMethods k)))))" (is "visit_ok D N ?Q ?R ?f")
    using class_members_ok [OF _ k, of ?Q D N p] unfolding e by blast
  obtain d2 where 2: "?f (pushNode ?n d1) = Some d2" "dgood D N ?R (Suc c) [?n] d2"
    using v push unfolding visit_ok_def by blast
  have "\<exists>d'. popNode d2 = Some d' \<and> tgood D N ?R (Suc c) d'"
    using 2(2) by (auto simp: dgood_def tgood_def popNode_def graph_inv_def)
  moreover have "dot_class p k d = Option.bind (?f (pushNode ?n d1)) popNode"
    by (simp add: dot_class_def inNode_def d1_def newNodeName_def toplevelDecl_def nodeName_def Let_def)
  ultimately show ?thesis using 2(1) by simp
qed

lemma dot_classes_ok:
  assumes "tgood D N P c d" and "\<forall>x \<in> P. member_key x" and "\<forall>k \<in> set ks. prim_class k"
    and "D \<longrightarrow> distinct (concat (map class_keys ks)) \<and> set (concat (map class_keys ks)) \<subseteq> P"
  shows "\<exists>d'. dot_each (dot_class p) ks d = Some d'
    \<and> tgood D N (P - set (concat (map class_keys ks))) (c + length ks) d'"
  using assms
proof (induction ks arbitrary: P c d)
  case Nil
  then show ?case by simp
next
  case (Cons k ks)
  let ?P = "P - set (class_keys k)"
  obtain d1 where 1: "dot_class p k d = Some d1" "tgood D N ?P (Suc c) d1"
  proof -
    have "prim_class k" using Cons.prems(3) by simp
    moreover have "D \<longrightarrow> distinct (class_keys k) \<and> set (class_keys k) \<subseteq> P"
      using Cons.prems(4) unfolding list.map concat.simps distinct_append set_append by blast
    ultimately show ?thesis using dot_class_ok [OF Cons.prems(1,2)] that by blast
  qed
  have D: "D \<longrightarrow> distinct (concat (map class_keys ks)) \<and> set (concat (map class_keys ks)) \<subseteq> ?P"
    using Cons.prems(4) unfolding list.map concat.simps distinct_append set_append by blast
  have "\<forall>x \<in> ?P. member_key x" "\<forall>k \<in> set ks. prim_class k" using Cons.prems(2,3) by simp_all
  from Cons.IH [OF 1(2) this D]
  obtain d2 where "dot_each (dot_class p) ks d1 = Some d2"
      "tgood D N (?P - set (concat (map class_keys ks))) (Suc c + length ks) d2" by blast
  moreover have "?P - set (concat (map class_keys ks)) = P - set (concat (map class_keys (k # ks)))"
    unfolding list.map concat.simps set_append by blast
  ultimately show ?case by (simp add: 1)
qed

section \<open>The whole program\<close>

lemma nameKeys_ok:
  assumes "graph_inv N P 0 d" and "\<forall>k \<in> set ks. k \<notin> P" and "distinct ks"
    and "dot_stream d = [DotHead]"
    and "\<forall>i < length ks. N (ks ! i) = node_ident (nodeCounter d + i)"
  shows "graph_inv N (P \<union> set ks) 0 (fold nameKey ks d)"
  using assms
proof (induction ks arbitrary: P d)
  case Nil
  then show ?case by simp
next
  case (Cons k ks)
  let ?d = "nameKey k d"
  have n: "N k = node_ident (nodeCounter d)" using Cons.prems(5) by force
  have d: "nodeCounter ?d = Suc (nodeCounter d)" "dot_stream ?d = [DotHead]"
    "nodeNames ?d = (k, N k) # nodeNames d"
    using Cons.prems(4) by (simp_all add: nameKey_def newNodeName_def n node_ident_def)
  have fr: "N k \<notin> N ` P" using fresh_node [OF Cons.prems(1)] by (simp add: n)
  have "graph_inv N (insert k P) 0 ?d"
    using Cons.prems(1,2,4) fr by (auto simp: graph_inv_def d n lessThan_Suc)
  then have "graph_inv N (insert k P \<union> set ks) 0 (fold nameKey ks ?d)"
  proof (rule Cons.IH)
    show "\<forall>i < length ks. N (ks ! i) = node_ident (nodeCounter ?d + i)" using Cons.prems(5) by (auto simp: d)
  qed (use Cons.prems d in auto)
  then show ?case by simp
qed

lemma key_names:
  assumes "distinct ks"
  obtains N where "\<forall>i < length ks. N (ks ! i) = node_ident i"
proof
  let ?N = "\<lambda>k. node_ident (THE i. i < length ks \<and> ks ! i = k)"
  show "\<forall>i < length ks. ?N (ks ! i) = node_ident i"
    using assms by (auto simp: nth_eq_iff_index_eq intro!: the_equality)
qed

lemma class_keys_members: "k \<in> set (concat (map class_keys ks)) \<Longrightarrow> member_key k"
  by (auto simp: class_keys_def)

lemma nodeStack_nameKeys: "nodeStack (fold nameKey ks d) = nodeStack d"
  by (induction ks arbitrary: d) (simp_all add: nameKey_def newNodeName_def)

lemma sorted_classes_keys:
  "set (concat (map class_keys (sort_key c_name ks))) = set (concat (map class_keys ks))"
  "distinct (concat (map class_keys ks)) \<Longrightarrow> distinct (concat (map class_keys (sort_key c_name ks)))"
proof -
  show "set (concat (map class_keys (sort_key c_name ks))) = set (concat (map class_keys ks))" by simp
  have "mset (concat (map class_keys (sort_key c_name ks))) = mset (concat (map class_keys ks))"
    by (metis (no_types) mset_concat mset_map mset_sort sum_mset_sum_list)
  then show "distinct (concat (map class_keys ks)) \<Longrightarrow> distinct (concat (map class_keys (sort_key c_name ks)))"
    using mset_eq_imp_distinct_iff by blast
qed

lemma dot_program_ok:
  assumes "prim_program p"
  shows "\<exists>d N. dot_program p newDotVisitor = Some d
    \<and> (distinct (concat (map class_keys (pr_classes p))) \<longrightarrow> graph_inv N {} (length (pr_classes p)) d)"
proof -
  let ?ks = "concat (map class_keys (pr_classes p))"
  let ?sorted = "sort_key c_name (pr_classes p)"
  let ?d1 = "fold nameKey ?ks (dot_write [DotHead] newDotVisitor)"
  obtain N where N: "distinct ?ks \<longrightarrow> (\<forall>i < length ?ks. N (?ks ! i) = node_ident i)"
    using key_names by metis
  have "graph_inv N {} 0 (dot_write [DotHead] newDotVisitor)"
    by (simp add: graph_inv_def dot_write_def newDotVisitor_def)
  from nameKeys_ok [OF this, of ?ks]
  have "distinct ?ks \<longrightarrow> graph_inv N (set ?ks) 0 ?d1"
    using N by (simp add: dot_write_def newDotVisitor_def del: set_concat)
  then have t: "tgood (distinct ?ks) N (set ?ks) 0 ?d1"
    by (simp add: tgood_def nodeStack_nameKeys dot_write_def newDotVisitor_def)
  have "\<forall>k \<in> set ?ks. member_key k" using class_keys_members by blast
  moreover have "\<forall>k \<in> set ?sorted. prim_class k" using assms by (simp add: prim_program_def)
  moreover have "distinct ?ks \<longrightarrow> distinct (concat (map class_keys ?sorted))
      \<and> set (concat (map class_keys ?sorted)) \<subseteq> set ?ks"
    using sorted_classes_keys by blast
  ultimately obtain d2 where 2: "dot_each (dot_class p) ?sorted ?d1 = Some d2"
      "tgood (distinct ?ks) N (set ?ks - set (concat (map class_keys ?sorted))) (0 + length ?sorted) d2"
    using dot_classes_ok [OF t] by blast
  let ?d3 = "dot_write [DotTail] d2"
  have "tgood (distinct ?ks) N {} (length (pr_classes p)) ?d3"
    using 2(2) unfolding sorted_classes_keys(1) by (simp add: tgood_def graph_inv_def dot_write_def)
  then show ?thesis by (auto simp: dot_program_def 2(1) tgood_def)
qed

section \<open>Properties\<close>

text \<open>
  C38: The dot output of a parsed program is written without a failed assertion and describes a forest.
  If the nodes of classes, fields and methods are distinct objects, every node is declared once, every
  edge comes directly behind the declaration of its target and starts at a node that is declared before, no
  node has two edges to it, exactly one node for every class has none, and the dashed edges lead to declared
  nodes.
\<close>

theorem dot_output_forest:
  assumes "prim_program p"
  shows "\<exists>d. dot_program p newDotVisitor = Some d \<and> nodeStack d = []
    \<and> (distinct (concat (map class_keys (pr_classes p))) \<longrightarrow>
        distinct (declaredNodes (dot_stream d)) \<and> edges_ok [] (dot_stream d)
        \<and> distinct (targets (dot_stream d))
        \<and> set (targets (dot_stream d)) \<subseteq> set (declaredNodes (dot_stream d))
        \<and> length (declaredNodes (dot_stream d)) = length (targets (dot_stream d)) + length (pr_classes p)
        \<and> set (weakTargets (dot_stream d)) \<subseteq> set (declaredNodes (dot_stream d)))"
proof -
  obtain d N where d: "dot_program p newDotVisitor = Some d"
      "distinct (concat (map class_keys (pr_classes p))) \<longrightarrow> graph_inv N {} (length (pr_classes p)) d"
    using dot_program_ok [OF assms] by blast
  have "nodeStack d = []" using d(1) by (auto simp: dot_program_def Let_def split: bind_splits if_splits)
  then show ?thesis using d by (auto simp: graph_inv_def)
qed

definition dot_loc :: "int \<Rightarrow> source_location" where
  "dot_loc i = mk_loc (mk_pos i 1) (mk_pos i 9)"

definition dot_example :: program where
  "dot_example =
     (let x = \<lparr>p_loc = dot_loc 4, p_type = BasicType (ClassType (dot_loc 5) ''A'' (Some ''A'')), p_name = ''x'', p_idx = 1\<rparr>;
          f = \<lparr>f_loc = dot_loc 2, f_type = BasicType (PrimitiveType (dot_loc 2) PT_Int), f_name = ''f''\<rparr> in
      \<lparr>pr_loc = dot_loc 1, pr_classes = [
        \<lparr>c_loc = dot_loc 1, c_name = ''A'', c_fields = [f],
         c_methods = [\<lparr>rm_loc = dot_loc 3, rm_returnType = BasicType (PrimitiveType (dot_loc 3) PT_Int), rm_name = ''m'',
           rm_mangledName = [], rm_parameters = [x],
           rm_block = Block (dot_loc 6) Return [ReturnStatement (dot_loc 7) Return
             (Some (FieldAccess (dot_loc 8) new_type (VarRef (dot_loc 9) new_type ''x'' (Some (Def_Parameter x))) ''f''
               (Some (FR_Field ''A'' f))))] False,
           rm_varDecls = []\<rparr>],
         c_mainMethods = []\<rparr>]\<rparr>)"

theorem dot_output_forest_witness:
  "prim_program dot_example \<and> distinct (concat (map class_keys (pr_classes dot_example)))
    \<and> (\<exists>d. dot_program dot_example newDotVisitor = Some d \<and> distinct (declaredNodes (dot_stream d))
        \<and> length (declaredNodes (dot_stream d)) = Suc (length (targets (dot_stream d))))"
proof -
  have 1: "prim_program dot_example" and 2: "distinct (concat (map class_keys (pr_classes dot_example)))"
    by code_simp+
  obtain d where d: "dot_program dot_example newDotVisitor = Some d" "distinct (declaredNodes (dot_stream d))"
      "length (declaredNodes (dot_stream d)) = length (targets (dot_stream d)) + length (pr_classes dot_example)"
    using dot_output_forest [OF 1] 2 by blast
  have "length (pr_classes dot_example) = 1" by code_simp
  then have 3: "length (declaredNodes (dot_stream d)) = Suc (length (targets (dot_stream d)))" using d(3) by simp
  show ?thesis by (intro conjI exI [of _ d] 1 2 d(1,2) 3)
qed

end
