(* ===== verification/Compiler_Claims.thy ===== *)
theory Compiler_Claims
  imports Compiler Dot_Graph Semantic_Claims Const_Prop_Sound Asm_Pass_Example
begin

text \<open>
  The properties of the driver: what the exit status of the modes says about the input, what the
  modes without output write, and what a successful compilation has checked and written.
\<close>

section \<open>Parsing and analysing a file\<close>

definition plain_options :: "compiler_options \<Rightarrow> bool" where
  "plain_options opts \<longleftrightarrow> list_all Not (exclusive_flags opts)"

definition parses :: "nat \<Rightarrow> env \<Rightarrow> string \<Rightarrow> string \<Rightarrow> bool" where
  "parses k E f t \<longleftrightarrow> (\<exists>p ps. parseInput (env_garbage E) f t [] k = Inr (p, ps))"

definition accepts :: "nat \<Rightarrow> env \<Rightarrow> string \<Rightarrow> string \<Rightarrow> bool" where
  "accepts k E f t \<longleftrightarrow> (\<exists>p ps p' st. parseInput (env_garbage E) f t [] k = Inr (p, ps)
     \<and> visitProgram (env_alloc E) (lexr ps) p = Inr (p', st))"

lemma mapL_simps [simp]: "mapL f (Inl e) = Inl (f e)" "mapL f (Inr x) = Inr x"
  by (simp_all add: mapL_def)

lemma mapL_eq_Inr [simp]: "mapL f r = Inr x \<longleftrightarrow> r = Inr x"
  by (cases r) simp_all

lemma with_input_simps [simp]: "with_input (Inl s) f = (Inl s, [], [])" "with_input (Inr x) f = f x"
  by (simp_all add: with_input_def)

lemma exit_codes [simp]: "EXIT_SUCCESS \<noteq> EXIT_FAILURE" "EXIT_FAILURE \<noteq> EXIT_SUCCESS"
  by (simp_all add: EXIT_SUCCESS_def EXIT_FAILURE_def)

text \<open>The parser of a readable file\<close>

lemma makeParser_cases:
  assumes f: "env_files E (opt_inputFileName opts) = Some t" and k: "length t < k"
  obtains (error) e where "makeParser E opts = Inl (parse_thrown E (LexErr e))" "is_LexError e"
      "parseInput (env_garbage E) (opt_inputFileName opts) t [] k = Inl (LexErr e)"
  | (parser) ps where "makeParser E opts = Inr ps" "pgood ps"
      "parseInput (env_garbage E) (opt_inputFileName opts) t [] k = parseProgram k ps"
      "res_ok wf_program (Suc (length t)) (parseProgram k ps)"
proof -
  obtain l where l: "newLexer (env_garbage E) LS_normal (opt_inputFileName opts) t = Inr l"
    using newLexer_Ex by blast
  have m: "makeParser E opts = mapL (parse_thrown E) (newParser l [])"
    by (simp add: makeParser_def makeLexer_def getStream_def f l)
  have i: "parseInput (env_garbage E) (opt_inputFileName opts) t [] k = bindE (newParser l []) (parseProgram k)"
    by (simp add: parseInput_def l liftLex_def)
  have r: "res_ok wf_program (Suc (length t)) (bindE (newParser l []) (parseProgram k))"
    using parseInput_res [OF k, of "env_garbage E" "opt_inputFileName opts" "[]"] i by simp
  show ?thesis
  proof (cases "newParser l []")
    case (Inl pe)
    then obtain e where "pe = LexErr e"
      by (auto simp: newParser_def p_readNextToken_def liftLex_def bindE_eq_Inl split: sum.splits)
    moreover have "perr_ok pe" using newParser_ok [OF l, of "[]"] Inl by (simp add: ps_ok_def)
    ultimately show ?thesis using error [of e] Inl m i by (simp add: perr_ok_def)
  next
    case (Inr ps)
    then show ?thesis using parser [of ps] m i r newParser_ok [OF l, of "[]"] by simp
  qed
qed




lemma main_catch_status:
  "fst (main_catch r) = Inr EXIT_SUCCESS \<longleftrightarrow> fst r = Inr EXIT_SUCCESS"
  by (auto simp: main_catch_def split: prod.splits sum.splits stop.splits report.splits)

lemma catch_status [simp]:
  "fst (catch_write E out s) \<noteq> Inr EXIT_SUCCESS" "fst (catch_silent s) \<noteq> Inr EXIT_SUCCESS"
  by (auto simp: catch_write_def catch_silent_def split: stop.splits report.splits)

lemma thrown_silent [simp]: "catch_silent (Thrown_CompilerError r) = (Inr EXIT_FAILURE, [], [])"
  by (simp add: catch_silent_def)

lemma checkOptions_one:
  assumes "plain_options opts"
  shows "checkOptions opts = Inr ()" "checkOptions (opts\<lparr>opt_testParser := True\<rparr>) = Inr ()"
    "checkOptions (opts\<lparr>opt_fuzzParser := True\<rparr>) = Inr ()" "checkOptions (opts\<lparr>opt_printAst := True\<rparr>) = Inr ()"
    "checkOptions (opts\<lparr>opt_dotAst := True\<rparr>) = Inr ()" "checkOptions (opts\<lparr>opt_checkSemantic := True\<rparr>) = Inr ()"
    "checkOptions (opts\<lparr>opt_fuzzSemantic := True\<rparr>) = Inr ()" "checkOptions (opts\<lparr>opt_fuzzLexer := True\<rparr>) = Inr ()"
  using assms
  by (simp_all add: plain_options_def checkOptions_def exclusive_flags_def exclusiveOptionsSum_def)

lemma plain_flags:
  assumes "plain_options opts"
  shows "\<not> opt_echoFile opts" "\<not> opt_testLexer opts" "\<not> opt_fuzzLexer opts" "\<not> opt_testParser opts"
    "\<not> opt_fuzzParser opts" "\<not> opt_printAst opts" "\<not> opt_dotAst opts" "\<not> opt_checkSemantic opts"
    "\<not> opt_fuzzSemantic opts" "\<not> opt_dotAttrAst opts" "\<not> opt_compileFirm opts"
  using assms by (simp_all add: plain_options_def exclusive_flags_def)

lemma main_mode:
  assumes "env_streams_good E" and "plain_options opts"
  shows
    "compiler_main k E L (opts\<lparr>opt_testParser := True\<rparr>) = (main_catch (run_parserTest k E (opts\<lparr>opt_testParser := True\<rparr>)), None)"
    "compiler_main k E L (opts\<lparr>opt_fuzzParser := True\<rparr>) = (main_catch (run_parserFuzz k E (opts\<lparr>opt_fuzzParser := True\<rparr>)), None)"
    "compiler_main k E L (opts\<lparr>opt_printAst := True\<rparr>) = (main_catch (run_astPrint k E (opts\<lparr>opt_printAst := True\<rparr>)), None)"
    "compiler_main k E L (opts\<lparr>opt_dotAst := True\<rparr>) = (main_catch (run_astDot k E (opts\<lparr>opt_dotAst := True\<rparr>)), None)"
    "compiler_main k E L (opts\<lparr>opt_checkSemantic := True\<rparr>)
       = (main_catch (run_checkSemantic k E (opts\<lparr>opt_checkSemantic := True\<rparr>)), None)"
    "compiler_main k E L (opts\<lparr>opt_fuzzSemantic := True\<rparr>)
       = (main_catch (run_fuzzSemantic k E (opts\<lparr>opt_fuzzSemantic := True\<rparr>)), None)"
    "compiler_main k E L (opts\<lparr>opt_fuzzLexer := True\<rparr>) = (main_catch (run_lexFuzz k E (opts\<lparr>opt_fuzzLexer := True\<rparr>)), None)"
    "compiler_main k E L opts = (let (r, t) = run_compile k E L opts in (main_catch r, t))"
  using assms by (simp_all add: compiler_main_def checkOptions_one compiler_run_def plain_flags)

lemma with_parser_status:
  assumes f: "env_files E (opt_inputFileName opts) = Some t" and k: "length t < k"
    and e: "\<And>ps e. parseProgram k ps = Inl e \<Longrightarrow> fst (F ps) \<noteq> Inr EXIT_SUCCESS"
    and p: "\<And>ps p ps'. parseProgram k ps = Inr (p, ps') \<Longrightarrow> wf_program p
      \<Longrightarrow> fst (F ps) = Inr EXIT_SUCCESS \<longleftrightarrow> Q p ps'"
  shows "fst (main_catch (with_input (makeParser E opts) F)) = Inr EXIT_SUCCESS
    \<longleftrightarrow> (\<exists>p ps. parseInput (env_garbage E) (opt_inputFileName opts) t [] k = Inr (p, ps) \<and> Q p ps)"
proof (cases rule: makeParser_cases [OF f k, case_names error parser])
  case (error e)
  then show ?thesis by (simp add: main_catch_status)
next
  case (parser ps)
  show ?thesis
  proof (cases "parseProgram k ps")
    case (Inl x)
    then show ?thesis using e [OF Inl] parser by (simp add: main_catch_status)
  next
    case (Inr x)
    obtain q ps' where x: "x = (q, ps')" by (cases x)
    then have "wf_program q" using parser(4) Inr by simp
    then show ?thesis using p [of ps q ps'] Inr x parser by (simp add: main_catch_status)
  qed
qed

lemma parse_mode_status:
  assumes "env_files E (opt_inputFileName opts) = Some t" and "length t < k"
    and "opt_inputFileName o' = opt_inputFileName opts"
    and "\<And>ps e. parseProgram k ps = Inl e \<Longrightarrow> fst (F ps) \<noteq> Inr EXIT_SUCCESS"
    and "\<And>ps p ps'. parseProgram k ps = Inr (p, ps') \<Longrightarrow> wf_program p \<Longrightarrow> fst (F ps) = Inr EXIT_SUCCESS"
  shows "fst (main_catch (with_input (makeParser E o') F)) = Inr EXIT_SUCCESS \<longleftrightarrow> parses k E (opt_inputFileName opts) t"
  using with_parser_status [of E o' t k F "\<lambda>_ _. True"] assms by (simp add: parses_def)

lemma check_mode_status:
  assumes "env_files E (opt_inputFileName opts) = Some t" and "length t < k"
    and "opt_inputFileName o' = opt_inputFileName opts"
    and "\<And>ps e. parseProgram k ps = Inl e \<Longrightarrow> fst (F ps) \<noteq> Inr EXIT_SUCCESS"
    and "\<And>ps p ps'. parseProgram k ps = Inr (p, ps') \<Longrightarrow> fst (F ps) = Inr EXIT_SUCCESS
      \<longleftrightarrow> (\<exists>p' st. visitProgram (env_alloc E) (lexr ps') p = Inr (p', st))"
  shows "fst (main_catch (with_input (makeParser E o') F)) = Inr EXIT_SUCCESS \<longleftrightarrow> accepts k E (opt_inputFileName opts) t"
  using with_parser_status [of E o' t k F "\<lambda>p ps. \<exists>p' st. visitProgram (env_alloc E) (lexr ps) p = Inr (p', st)"] assms
  by (simp add: accepts_def)

lemma dot_output_written: "wf_program p \<Longrightarrow> dot_output p \<noteq> None"
  using dot_program_ok [OF wf_prim_program] by (auto simp: dot_output_def)

definition exit_status :: "nat \<Rightarrow> env \<Rightarrow> 'v firm_lib \<Rightarrow> compiler_options \<Rightarrow> stop + int" where
  "exit_status k E L opts = fst (fst (compiler_main k E L opts))"







lemma main_catch_success: "main_catch r = (Inr EXIT_SUCCESS, out, err) \<Longrightarrow> r = (Inr EXIT_SUCCESS, out, err)"
  by (auto simp: main_catch_def split: prod.splits sum.splits stop.splits report.splits)

lemma catch_write_success: "catch_write E out s \<noteq> (Inr EXIT_SUCCESS, out', err)"
  using catch_status(1) [of E out s] by (metis fst_conv)

lemma mapE_Inl: "mapE f xs = Inl e \<Longrightarrow> \<exists>x. f x = Inl e"
  by (induction xs) (auto simp: bindE_eq_Inl)

lemma run_Optimizer_exit: "run_Optimizer k L v gs = Inl (PS_Exit c) \<Longrightarrow> c = EXIT_FAILURE"
  by (auto simp: run_Optimizer_def run_ConstProp_def bindE_eq_Inl split: if_splits sum.splits pass_error.splits
      option.splits cp_error.splits dest!: mapE_Inl)

lemma lowerFirmGraphs_exit: "lowerFirmGraphs k E L opts nm gs = Inl (PS_Exit c) \<Longrightarrow> c = EXIT_FAILURE"
  by (auto simp: lowerFirmGraphs_def Let_def bindE_eq_Inl generateAsm_def mapL_def asm_thrown_def
      split: if_splits option.splits sum.splits asm_error.splits)

lemma compileProgram_exit: "compileProgram k E L opts p = Inl (PS_Exit c) \<Longrightarrow> c = EXIT_FAILURE"
  by (auto simp: compileProgram_def Let_def bindE_eq_Inl
      split: option.splits if_splits dest!: run_Optimizer_exit lowerFirmGraphs_exit)

lemma run_compile_success:
  assumes "run_compile k E L opts = ((Inr EXIT_SUCCESS, out, err), w)"
  obtains ps p asmText where "makeParser E opts = Inr ps" "parseAndAnalyze k E ps = Inr p"
    "compileProgram k E L opts p = Inr (Some asmText)" "w = Some asmText" "err = []"
  using assms catch_write_success
  by (auto simp: run_compile_def Let_def split: sum.splits option.splits pass_stop.splits dest: compileProgram_exit)

text \<open>The graphs that the construction, the lowering and the optimizer leave for the back end\<close>

definition optimized_graphs ::
    "nat \<Rightarrow> 'v firm_lib \<Rightarrow> compiler_options \<Rightarrow> program \<Rightarrow> ir_graph list \<Rightarrow> bool" where
  "optimized_graphs k L opts p gs \<longleftrightarrow> (\<exists>gs0. lib_construct L p = Some gs0
     \<and> (if opt_optimize opts then run_Optimizer k L (\<not> opt_noVerify opts) (map (lib_lower_highlevel L) gs0) = Inr (Some gs)
        else gs = map (lib_lower_highlevel L) gs0))"

definition cleaned_graph :: "'v firm_lib \<Rightarrow> ir_graph \<Rightarrow> ir_graph" where
  "cleaned_graph L g = lib_remove_bads L (lib_remove_unreachable L (lib_remove_bads L g))"

lemma compileProgram_success:
  assumes "compileProgram k E L opts p = Inr (Some asmText)"
  obtains gs where "optimized_graphs k L opts p gs" "lowerFirmGraphs k E L opts
      (if opt_outputFileName opts = [] then ''a.out'' else opt_outputFileName opts) gs = Inr (Some asmText)"
  using assms by (auto simp: compileProgram_def optimized_graphs_def Let_def bindE_eq_Inr split: option.splits if_splits)

lemma lowerFirmGraphs_success:
  assumes "lowerFirmGraphs k E L opts nm gs = Inr (Some w)" and "\<not> opt_compileFirm opts"
  shows "(opt_noVerify opts \<or> list_all (lib_verify L) (map (cleaned_graph L) gs))
    \<and> (\<exists>prog prog' asmText. asm_pass k (map (cleaned_graph L) gs) = Some (Inr prog)
    \<and> (if opt_optimize opts then optimize_asm prog else flattenFunctions prog) = Inr prog'
    \<and> program_write prog' = Inr asmText \<and> w = asmText @ [CHR 0x0A] \<and> env_gcc E w nm = 0)"
proof -
  let ?gs = "map (cleaned_graph L) gs"
  have c: "lib_remove_bads L \<circ> lib_remove_unreachable L \<circ> lib_remove_bads L = cleaned_graph L"
    by (simp add: cleaned_graph_def fun_eq_iff)
  obtain asmText where t: "opt_noVerify opts \<or> list_all (lib_verify L) ?gs" "generateAsm k E opts ?gs = Inr asmText"
      "w = asmText @ [CHR 0x0A]" "env_gcc E w nm = 0"
    using assms by (auto simp: lowerFirmGraphs_def Let_def bindE_eq_Inr c split: if_splits)
  obtain prog prog' where "asm_pass k ?gs = Some (Inr prog)"
      "(if opt_optimize opts then optimize_asm prog else flattenFunctions prog) = Inr prog'"
      "program_write prog' = Inr asmText"
    using t(2) by (auto simp: generateAsm_def bindE_eq_Inr split: option.splits)
  with t show ?thesis by blast
qed

section \<open>Properties\<close>

text \<open>
  C36: The exit status of the modes of the front end.  On a readable file, \<open>--parsetest\<close>, \<open>--parsefuzz\<close>,
  \<open>--print-ast\<close> and \<open>--dot-ast\<close> succeed exactly if the text parses (the output as a graph never fails
  an assertion), and \<open>--check\<close> and \<open>--fuzz-check\<close> succeed exactly if the text parses and the semantic
  analysis accepts the program.
\<close>

theorem front_end_status:
  assumes "env_streams_good E" and "plain_options opts"
    and "env_files E (opt_inputFileName opts) = Some t" and "length t < k"
  shows "(exit_status k E L (opts\<lparr>opt_testParser := True\<rparr>) = Inr EXIT_SUCCESS \<longleftrightarrow> parses k E (opt_inputFileName opts) t)
    \<and> (exit_status k E L (opts\<lparr>opt_fuzzParser := True\<rparr>) = Inr EXIT_SUCCESS \<longleftrightarrow> parses k E (opt_inputFileName opts) t)
    \<and> (exit_status k E L (opts\<lparr>opt_printAst := True\<rparr>) = Inr EXIT_SUCCESS \<longleftrightarrow> parses k E (opt_inputFileName opts) t)
    \<and> (exit_status k E L (opts\<lparr>opt_dotAst := True\<rparr>) = Inr EXIT_SUCCESS \<longleftrightarrow> parses k E (opt_inputFileName opts) t)
    \<and> (exit_status k E L (opts\<lparr>opt_checkSemantic := True\<rparr>) = Inr EXIT_SUCCESS \<longleftrightarrow> accepts k E (opt_inputFileName opts) t)
    \<and> (exit_status k E L (opts\<lparr>opt_fuzzSemantic := True\<rparr>) = Inr EXIT_SUCCESS \<longleftrightarrow> accepts k E (opt_inputFileName opts) t)"
  unfolding exit_status_def main_mode [OF assms(1,2)] fst_conv run_parserTest_def run_parserFuzz_def
    run_astPrint_def run_astDot_def run_checkSemantic_def run_fuzzSemantic_def
  by (intro conjI parse_mode_status [OF assms(3,4)] check_mode_status [OF assms(3,4)])
    (auto simp: parseAndPrintAst_def parseAndDotAst_def parseAndAnalyze_def bindE_eq_Inr
      dest: dot_output_written split: option.splits sum.splits)

text \<open>A program that parses and is accepted\<close>

definition ex_text :: string where
  "ex_text = ''class A { public static void main(String[] a) { } }''"

definition ex_env :: "string \<Rightarrow> env" where
  "ex_env t = \<lparr>env_files = (\<lambda>f. if f = ''a.mj'' then Some t else None), env_garbage = (\<lambda>_. 0),
     env_alloc = ex_alloc, env_streams_good = True, env_out_of_range = ''out of range'',
     env_tmpfile = ''/proc/self/fd/3'', env_can_write = (\<lambda>_. True), env_gcc = (\<lambda>t f. 0)\<rparr>"

definition ex_options :: compiler_options where
  "ex_options = default_options\<lparr>opt_inputFileName := ''a.mj''\<rparr>"

definition ex_lib :: "int firm_lib" where
  "ex_lib = \<lparr>lib_tarval = int_ops, lib_construct = (\<lambda>p. Some [example_graph]), lib_lower_highlevel = (\<lambda>g. g),
     lib_exchange = (\<lambda>xs g. g), lib_remove_bads = (\<lambda>g. g), lib_remove_unreachable = (\<lambda>g. g),
     lib_verify = (\<lambda>g. True), lib_be_main = (\<lambda>gs. []), lib_progress = (\<lambda>opts p. ''  visiting node Start'')\<rparr>"

lemma ex_options_plain: "plain_options ex_options" "opt_inputFileName ex_options = ''a.mj''"
  by (simp_all add: plain_options_def exclusive_flags_def ex_options_def default_options_def)

lemma ex_env_simps: "env_streams_good (ex_env t)" "env_files (ex_env t) ''a.mj'' = Some t" "env_garbage (ex_env t) = (\<lambda>_. 0)"
    "env_alloc (ex_env t) = ex_alloc"
  by (simp_all add: ex_env_def)

lemma ex_accepts: "accepts 60 (ex_env ex_text) ''a.mj'' ex_text"
proof -
  have "mapR (\<lambda>(p, ps). mapR (\<lambda>x. ()) (visitProgram ex_alloc (lexr ps) p))
      (parseInput (\<lambda>_. 0) ''a.mj'' ex_text [] 60) = Inr (Inr ())"
    by code_simp
  then obtain p ps where p: "parseInput (\<lambda>_. 0) ''a.mj'' ex_text [] 60 = Inr (p, ps)"
      "mapR (\<lambda>x. ()) (visitProgram ex_alloc (lexr ps) p) = Inr ()"
    by (auto elim!: mapR_InrE)
  then show ?thesis unfolding accepts_def ex_env_simps by (auto elim!: mapR_InrE)
qed

theorem front_end_status_witness:
  "exit_status 60 (ex_env ex_text) ex_lib (ex_options\<lparr>opt_checkSemantic := True\<rparr>) = Inr EXIT_SUCCESS"
  using front_end_status [of "ex_env ex_text" ex_options ex_text 60 ex_lib] ex_accepts
  by (simp add: ex_env_simps ex_options_plain) (simp add: ex_text_def)



text \<open>
  C37: A successful compilation with the own back end has done all of its steps on the graphs of the
  program: the text parses, the analysis accepts the program, graphs are constructed for it, lowered and, if the
  options say so, optimized; every one of the resulting graphs passes the verification behind
  the last clean-up unless it is switched off; the code is generated for exactly these graphs and optimized as the
  options say, the written text is the printed program, the linker has returned zero, and nothing is
  reported on the error stream.
\<close>

theorem compile_success:
  assumes "env_streams_good E" and "plain_options opts"
    and "env_files E (opt_inputFileName opts) = Some t" and "length t < k"
    and "compiler_main k E L opts = ((Inr EXIT_SUCCESS, out, err), w)"
  shows "\<exists>p ps p' st gs prog prog' asmText.
    parseInput (env_garbage E) (opt_inputFileName opts) t [] k = Inr (p, ps)
    \<and> visitProgram (env_alloc E) (lexr ps) p = Inr (p', st)
    \<and> optimized_graphs k L opts p' gs
    \<and> (opt_noVerify opts \<or> list_all (lib_verify L) (map (cleaned_graph L) gs))
    \<and> asm_pass k (map (cleaned_graph L) gs) = Some (Inr prog)
    \<and> (if opt_optimize opts then optimize_asm prog else flattenFunctions prog) = Inr prog'
    \<and> program_write prog' = Inr asmText
    \<and> w = Some (asmText @ [CHR 0x0A])
    \<and> env_gcc E (asmText @ [CHR 0x0A]) (if opt_outputFileName opts = [] then ''a.out'' else opt_outputFileName opts) = 0
    \<and> err = []"
proof -
  have "run_compile k E L opts = ((Inr EXIT_SUCCESS, out, err), w)"
    using assms(5) by (auto simp: main_mode [OF assms(1,2)] dest!: main_catch_success split: prod.splits)
  then obtain ps p' asmText where r: "makeParser E opts = Inr ps" "parseAndAnalyze k E ps = Inr p'"
      "compileProgram k E L opts p' = Inr (Some asmText)" "w = Some asmText" "err = []"
    by (rule run_compile_success)
  obtain p ps' st where a: "parseProgram k ps = Inr (p, ps')" "visitProgram (env_alloc E) (lexr ps') p = Inr (p', st)"
    using r(2) by (auto simp: parseAndAnalyze_def bindE_eq_Inr)
  have i: "parseInput (env_garbage E) (opt_inputFileName opts) t [] k = Inr (p, ps')"
    using a(1) r(1) by (cases rule: makeParser_cases [OF assms(3,4)]) auto
  obtain gs where g: "optimized_graphs k L opts p' gs" "lowerFirmGraphs k E L opts
      (if opt_outputFileName opts = [] then ''a.out'' else opt_outputFileName opts) gs = Inr (Some asmText)"
    using r(3) by (rule compileProgram_success)
  show ?thesis
    using lowerFirmGraphs_success [OF g(2) plain_flags(11) [OF assms(2)]] i a(2) g(1) r(4,5) by blast
qed

text \<open>The example, without the optimizer; the library constructs the graph of a function.\<close>

lemma ex_generateAsm:
  "\<exists>asmText. generateAsm 60 (ex_env ex_text) (ex_options\<lparr>opt_optimize := False\<rparr>) [example_graph] = Inr asmText"
proof -
  have "case generateAsm 60 (ex_env ex_text) (ex_options\<lparr>opt_optimize := False\<rparr>) [example_graph] of
      Inl e \<Rightarrow> False | Inr asmText \<Rightarrow> True"
    by code_simp
  then show ?thesis by (auto split: sum.splits)
qed

lemma ex_compiles:
  "\<exists>out w. compiler_main 60 (ex_env ex_text) ex_lib (ex_options\<lparr>opt_optimize := False\<rparr>) = ((Inr EXIT_SUCCESS, out, []), Some w)"
proof -
  let ?E = "ex_env ex_text" and ?o = "ex_options\<lparr>opt_optimize := False\<rparr>"
  have o: "plain_options ?o" "opt_inputFileName ?o = ''a.mj''" "opt_noVerify ?o = False" "opt_compileFirm ?o = False"
    "opt_outputAssembly ?o = False" "opt_outputFileName ?o = []" "opt_optimize ?o = False"
    by (simp_all add: plain_options_def exclusive_flags_def ex_options_def default_options_def)
  have f: "env_files ?E (opt_inputFileName ?o) = Some ex_text" by (simp add: ex_env_simps o)
  have k: "length ex_text < 60" by (simp add: ex_text_def)
  obtain p ps p' st where a: "parseInput (env_garbage ?E) ''a.mj'' ex_text [] 60 = Inr (p, ps)"
      "visitProgram (env_alloc ?E) (lexr ps) p = Inr (p', st)"
    using ex_accepts unfolding accepts_def by blast
  obtain ps0 where r: "makeParser ?E ?o = Inr ps0" "parseProgram 60 ps0 = Inr (p, ps)"
    using a(1) by (cases rule: makeParser_cases [OF f k]) (auto simp: o)
  then have "parseAndAnalyze 60 ?E ps0 = Inr p'" using a(2) by (simp add: parseAndAnalyze_def)
  note r = r this
  obtain asmText where "generateAsm 60 ?E ?o [example_graph] = Inr asmText" using ex_generateAsm by blast
  then have "compileProgram 60 ?E ex_lib ?o p' = Inr (Some (asmText @ [CHR 0x0A]))"
    by (simp add: compileProgram_def lowerFirmGraphs_def ex_lib_def o ex_env_def)
  then show ?thesis by (simp add: main_mode [OF ex_env_simps(1) o(1)] run_compile_def r main_catch_def)
qed

theorem compile_success_witness:
  "\<exists>out prog prog' asmText. asm_pass 60 [example_graph] = Some (Inr prog) \<and> flattenFunctions prog = Inr prog'
     \<and> program_write prog' = Inr asmText
     \<and> compiler_main 60 (ex_env ex_text) ex_lib (ex_options\<lparr>opt_optimize := False\<rparr>)
         = ((Inr EXIT_SUCCESS, out, []), Some (asmText @ [CHR 0x0A]))"
proof -
  let ?E = "ex_env ex_text" and ?o = "ex_options\<lparr>opt_optimize := False\<rparr>"
  obtain out w where w: "compiler_main 60 ?E ex_lib ?o = ((Inr EXIT_SUCCESS, out, []), Some w)" using ex_compiles by blast
  have o: "plain_options ?o" "env_files ?E (opt_inputFileName ?o) = Some ex_text" "length ex_text < 60" "\<not> opt_optimize ?o"
    by (simp_all add: plain_options_def exclusive_flags_def ex_options_def default_options_def ex_env_def)
      (simp add: ex_text_def)
  have g: "optimized_graphs 60 ex_lib ?o p gs \<Longrightarrow> map (cleaned_graph ex_lib) gs = [example_graph]" for p gs
    using o(4) by (simp add: optimized_graphs_def cleaned_graph_def ex_lib_def)
  show ?thesis using compile_success [OF ex_env_simps(1) o(1-3) w] o(4) w g by fastforce
qed

end
