(* ===== verification/Spelling.thy ===== *)
theory Spelling
  imports Lexer_Claims
begin

text \<open>
  Texts made of lexemes with and without white space between them, and what the lexer reads
  from them.  The texts that the pretty printer writes are of this kind.
\<close>

section \<open>Where a lexeme ends\<close>

text \<open>No longer lexeme starts with \<open>s\<close> if the character \<open>c\<close> comes behind it.\<close>

definition follow :: "string \<Rightarrow> char \<Rightarrow> bool" where
  "follow s c \<longleftrightarrow>
     (if alnum (hd s) then \<not> alnum c
      else list_all (\<lambda>p. \<not> prefix (s @ [c]) p) (map fst op_table) \<and> (s = ''/'' \<longrightarrow> c \<noteq> CHR ''*''))"

definition stops :: "string \<Rightarrow> string \<Rightarrow> bool" where
  "stops s r \<longleftrightarrow> r = [] \<or> follow s (hd r)"

definition white :: "string \<Rightarrow> bool" where
  "white w \<longleftrightarrow> (\<forall>c \<in> set w. isSpace (schar c))"

lemma lexeme_cases:
  assumes "lexeme s = Some t"
  obtains (word) "alnum (hd s)" "\<forall>c \<in> set s. alnum c" | (oper) "\<not> alnum (hd s)" "s \<in> set (map fst op_table)"
proof -
  have ops: "\<forall>p \<in> set (map fst op_table). op_char (hd p)" by (simp add: op_eval)
  consider "is_ident s" | "is_intlit s" | "s \<in> set (map fst op_table)"
    using assms by (force simp: lexeme_def dest!: map_of_SomeD split: if_splits)
  then show ?thesis
  proof cases
    case 1
    then have "\<forall>c \<in> set s. alnum c" using alpha_alnum by (auto simp: is_ident_def split: list.splits)
    then show ?thesis using word lexeme_nonempty [OF assms] by (cases s) auto
  next
    case 2
    then have "\<forall>c \<in> set s. alnum c" using alpha_alnum
      by (auto simp: is_intlit_def isAlphaNumOrUnderscore_def schar_def split: list.splits)
    then show ?thesis using word lexeme_nonempty [OF assms] by (cases s) auto
  next
    case 3
    then have "op_char (hd s)" using ops by blast
    then show ?thesis using oper 3 by (simp add: op_char_def)
  qed
qed

lemma follow_space: "lexeme s = Some t \<Longrightarrow> isSpace (schar c) \<Longrightarrow> follow s c"
proof (erule lexeme_cases)
  assume c: "isSpace (schar c)"
  then have na: "\<not> alnum c" by (auto simp: isAlphaNumOrUnderscore_def isSpace_def)
  have ops: "\<forall>p \<in> set (map fst op_table). \<forall>d \<in> set p. \<not> isSpace (schar d)" by (simp add: op_eval)
  then have "\<not> prefix (s @ [c]) p" if "p \<in> set (map fst op_table)" for p
    using c that set_mono_prefix [of "s @ [c]" p] by auto
  then show "alnum (hd s) \<Longrightarrow> follow s c" "\<not> alnum (hd s) \<Longrightarrow> follow s c"
    using na c by (auto simp: follow_def list_all_iff isSpace_def schar_def)
qed

lemma follow_longest:
  assumes s: "lexeme s = Some t" and r: "stops s r" and p: "prefix p (s @ r)" "lexeme p = Some u"
  shows "length p \<le> length s"
proof (rule ccontr)
  assume "\<not> ?thesis"
  then obtain v where v: "p = s @ v" "v \<noteq> []" "prefix v r"
    using p(1) by (auto simp: prefix_append dest: prefix_length_le)
  then obtain c v' where c: "v = c # v'" "r \<noteq> []" "hd r = c" by (cases v; cases r) auto
  have hd: "hd p = hd s" using v(1) lexeme_nonempty [OF s] by simp
  from p(2) show False
  proof (cases rule: lexeme_cases)
    case word
    then show False using r c v(1) hd by (auto simp: stops_def follow_def)
  next
    case oper
    moreover have "prefix (s @ [c]) p" by (simp add: v(1) c(1))
    ultimately show False using r c hd by (auto simp: stops_def follow_def list_all_iff)
  qed
qed

lemma no_comment_start:
  assumes "lexeme s = Some t" and "stops s r"
  shows "\<not> prefix ''/*'' (s @ r)"
proof
  assume p: "prefix ''/*'' (s @ r)"
  have s: "s \<noteq> []" using lexeme_nonempty [OF assms(1)] .
  have "s = ''/'' \<and> r \<noteq> [] \<and> hd r = CHR ''*''"
  proof (cases "length s = 1")
    case True
    then show ?thesis using p by (cases s; cases r) auto
  next
    case False
    then obtain c d s' where "s = c # d # s'" using s by (cases s; cases "tl s") auto
    then have "s = CHR ''/'' # CHR ''*'' # s'" using p by auto
    then have "map_of op_table (CHR ''/'' # CHR ''*'' # s') = Some t" using assms(1) by (simp add: lexeme_op_char)
    then have "CHR ''/'' # CHR ''*'' # s' \<in> set (map fst op_table)" by (force dest: map_of_SomeD)
    moreover have "\<forall>p \<in> set (map fst op_table). \<not> prefix ''/*'' p" by (simp add: op_eval)
    ultimately show ?thesis by fastforce
  qed
  moreover have "\<not> alnum CHR ''/''" by (simp add: isAlphaNumOrUnderscore_def schar_def)
  ultimately show False using assms(2) by (auto simp: stops_def follow_def)
qed

section \<open>Reading a lexeme\<close>

lemma white_split:
  assumes "blank w'" and "w @ v = w' @ v'" and "white w" and "v \<noteq> []" "\<not> isSpace (schar (hd v))" "\<not> prefix ''/*'' v"
    and "v' = [] \<or> \<not> isSpace (schar (hd v'))"
  shows "w = w'"
  using assms(1,2,3)
proof (induction w' arbitrary: w rule: blank.induct)
  case blank_Nil
  show ?case
  proof (cases w)
    case (Cons d ds)
    then have "hd v' = d" "v' \<noteq> []" using blank_Nil.prems(1) by auto
    then show ?thesis using assms(7) blank_Nil.prems(2) Cons by (simp add: white_def)
  qed simp
next
  case (blank_space c w')
  show ?case
  proof (cases w)
    case Nil
    then show ?thesis using blank_space assms(4,5) by (cases v) auto
  next
    case (Cons d ds)
    then show ?thesis using blank_space by (auto simp: white_def)
  qed
next
  case (blank_comment u w')
  then obtain b where b: "u = ''/*'' @ b" by (auto simp: is_comment_def)
  show ?case
  proof (cases w)
    case Nil
    then have "prefix ''/*'' v" using blank_comment.prems b by (auto simp: prefix_def)
    then show ?thesis using assms(6) by blast
  next
    case (Cons d ds)
    then have "d = CHR ''/''" using blank_comment.prems b by simp
    then show ?thesis using Cons blank_comment.prems(2) by (simp add: white_def isSpace_def schar_def)
  qed
qed

lemma read_lexeme:
  assumes ok: "lex_ok st" and rest: "rest st = w @ s @ r" and w: "white w" and l: "lexeme s = Some ty" and r: "stops s r"
  shows "\<exists>t st'. readNextToken st = Inr (t, st') \<and> tok_str t = s \<and> tok_type t = ty
    \<and> lex_ok st' \<and> rest st' = r \<and> tokenLookahead st' = tokenLookahead st"
proof -
  have s: "s @ r \<noteq> []" "\<not> isSpace (schar (hd (s @ r)))" "\<not> prefix ''/*'' (s @ r)"
    using lexeme_nonempty [OF l] lexeme_chars [OF l] no_comment_start [OF l r] by simp_all
  have split: "v = s @ r" if "blank w'" "rest st = w' @ v" "v = [] \<or> \<not> isSpace (schar (hd v))" for w' v
    using white_split [OF that(1) _ w s that(3)] rest that(2) by simp
  show ?thesis
  proof (cases "readNextToken st")
    case (Inl e)
    with readNextToken_spec [OF ok]
    consider (comment) w' r' where "blank w'" "rest st = w' @ ''/*'' @ r'"
      | (char) w' c r' where "blank w'" "rest st = w' @ c # r'" "illegal_char c"
      by (auto simp: token_result_def)
    then show ?thesis
    proof cases
      case comment
      then have "''/*'' @ r' = s @ r" using split by (simp add: isSpace_def schar_def)
      then show ?thesis using s(3) by (metis prefixI)
    next
      case char
      then have "c # r' = s @ r" using split [of w' "c # r'"] by (simp add: illegal_char_def)
      then show ?thesis using lexeme_hd_legal [of c] l lexeme_nonempty [OF l] char(3) by (cases s) auto
    qed
  next
    case (Inr p)
    obtain t st' where p: "p = (t, st')" by (cases p)
    with Inr readNextToken_spec [OF ok] obtain w' where w': "blank w'" "lex_ok st'"
      "tokenLookahead st' = tokenLookahead st"
      "if tok_type t = TT_Eof then rest st = w' \<and> rest st' = [] \<and> tok_str t = ''EOF''
       else rest st = w' @ tok_str t @ rest st' \<and> lexeme (tok_str t) = Some (tok_type t)
          \<and> longest_lexeme (tok_str t) (tok_str t @ rest st')"
      by (auto simp: token_result_def)
    have nE: "tok_type t \<noteq> TT_Eof" using w'(1,4) split [of w' "[]"] s(1) by auto
    with w'(4) have t: "rest st = w' @ tok_str t @ rest st'" "lexeme (tok_str t) = Some (tok_type t)"
      "longest_lexeme (tok_str t) (tok_str t @ rest st')" by simp_all
    have "\<not> isSpace (schar (hd (tok_str t @ rest st')))"
      using lexeme_nonempty [OF t(2)] lexeme_chars [OF t(2)] by simp
    then have eq: "tok_str t @ rest st' = s @ r" using split [OF w'(1) t(1)] by blast
    then have "length s \<le> length (tok_str t)" using t(3) l by (auto simp: longest_lexeme_def)
    moreover have "length (tok_str t) \<le> length s"
      by (rule follow_longest [OF l r _ t(2)]) (simp flip: eq)
    ultimately have "tok_str t = s" "rest st' = r" using eq by (simp_all add: append_eq_append_conv)
    then show ?thesis using Inr p t(2) l w'(2,3) by simp
  qed
qed

section \<open>Texts of lexemes\<close>

inductive spells :: "string \<Rightarrow> string list \<Rightarrow> bool" where
  one: "lexeme s \<noteq> None \<Longrightarrow> spells s [s]"
| glue: "spells t ss \<Longrightarrow> spells u us \<Longrightarrow> follow (last ss) (hd u) \<Longrightarrow> spells (t @ u) (ss @ us)"
| space: "spells t ss \<Longrightarrow> spells u us \<Longrightarrow> white w \<Longrightarrow> w \<noteq> [] \<Longrightarrow> spells (t @ w @ u) (ss @ us)"

lemma spells_nonempty: "spells t ss \<Longrightarrow> t \<noteq> [] \<and> ss \<noteq> [] \<and> (\<forall>s \<in> set ss. lexeme s \<noteq> None)"
  by (induction rule: spells.induct) (auto dest: lexeme_nonempty)

lemma spells_hd: "spells t ss \<Longrightarrow> hd t = hd (hd ss)"
  by (induction rule: spells.induct) (auto dest!: spells_nonempty)

text \<open>Reading a list of lexemes with \<open>nextToken\<close>\<close>

fun reads :: "lexer \<Rightarrow> string list \<Rightarrow> lexer \<Rightarrow> bool" where
  "reads st [] st' \<longleftrightarrow> st' = st"
| "reads st (s # ss) st' \<longleftrightarrow> (\<exists>t st1. nextToken st = Inr (t, st1) \<and> tok_str t = s \<and> lexeme s = Some (tok_type t)
     \<and> reads st1 ss st')"

lemma reads_append: "reads st (ss @ us) st'' \<longleftrightarrow> (\<exists>st'. reads st ss st' \<and> reads st' us st'')"
  by (induction ss arbitrary: st) auto

lemma reads_tokenN:
  "reads st ss st' \<Longrightarrow> i < length ss
    \<Longrightarrow> \<exists>t. tokenN i st = Inr t \<and> tok_str t = ss ! i \<and> lexeme (ss ! i) = Some (tok_type t)"
proof (induction ss arbitrary: st i)
  case (Cons s ss)
  then show ?case by (cases i) fastforce+
qed simp

lemma reads_shift: "reads st ss st' \<Longrightarrow> tokenN (length ss + k) st = tokenN k st'"
  by (induction ss arbitrary: st) auto

lemma white_Nil [simp]: "white []"
  by (simp add: white_def)

lemma spells_reads:
  "spells t ss \<Longrightarrow> lex_ok st \<Longrightarrow> tokenLookahead st = [] \<Longrightarrow> rest st = w @ t @ r \<Longrightarrow> white w \<Longrightarrow> stops (last ss) r
    \<Longrightarrow> \<exists>st'. reads st ss st' \<and> lex_ok st' \<and> tokenLookahead st' = [] \<and> rest st' = r"
proof (induction arbitrary: st w r rule: spells.induct)
  case (one s)
  then obtain ty where ty: "lexeme s = Some ty" by blast
  have "stops s r" using one.prems by simp
  from read_lexeme [OF one.prems(1,3,4) ty this] one.prems(2)
  show ?case by (auto simp: nextToken_def ty)
next
  case (glue t ss u us)
  note ne = spells_nonempty [OF glue.hyps(1)] spells_nonempty [OF glue.hyps(2)]
  have "stops (last ss) (u @ r)" using glue.hyps(3) ne by (simp add: stops_def)
  with glue.IH(1) [of st w "u @ r"] glue.prems
  obtain st1 where 1: "reads st ss st1" "lex_ok st1" "tokenLookahead st1 = []" "rest st1 = u @ r" by auto
  with glue.IH(2) [of st1 "[]" r] glue.prems ne
  obtain st2 where "reads st1 us st2" "lex_ok st2" "tokenLookahead st2 = []" "rest st2 = r" by auto
  with 1(1) show ?case by (auto simp: reads_append)
next
  case (space t ss u us v)
  note ne = spells_nonempty [OF space.hyps(1)] spells_nonempty [OF space.hyps(2)]
  have "lexeme (last ss) \<noteq> None" using ne(1) by simp
  then have "follow (last ss) (hd v)" using follow_space space.hyps(3,4) by (auto simp: white_def)
  then have "stops (last ss) (v @ u @ r)" using space.hyps(4) by (simp add: stops_def)
  with space.IH(1) [of st w "v @ u @ r"] space.prems
  obtain st1 where 1: "reads st ss st1" "lex_ok st1" "tokenLookahead st1 = []" "rest st1 = v @ u @ r" by auto
  with space.IH(2) [of st1 v r] space.prems space.hyps(3) ne
  obtain st2 where "reads st1 us st2" "lex_ok st2" "tokenLookahead st2 = []" "rest st2 = r" by auto
  with 1(1) show ?case by (auto simp: reads_append)
qed

text \<open>The end of the text\<close>

lemma read_white_end:
  assumes "lex_ok st" "white (rest st)"
  shows "\<exists>t st'. readNextToken st = Inr (t, st') \<and> tok_type t = TT_Eof \<and> lex_ok st' \<and> rest st' = []"
proof (cases "readNextToken st")
  case (Inl e)
  with readNextToken_spec [OF assms(1)]
  consider (comment) w r' where "rest st = w @ ''/*'' @ r'" | (char) w c r' where "rest st = w @ c # r'" "illegal_char c"
    by (auto simp: token_result_def)
  then show ?thesis
  proof cases
    case comment
    then have "isSpace (schar CHR ''/'')" using assms(2) by (simp add: white_def)
    then show ?thesis by (simp add: isSpace_def schar_def)
  next
    case char
    then have "isSpace (schar c)" using assms(2) by (simp add: white_def)
    then show ?thesis using char by (simp add: illegal_char_def)
  qed
next
  case (Inr p)
  obtain t st' where p: "p = (t, st')" by (cases p)
  have "tok_type t = TT_Eof"
  proof (rule ccontr)
    assume "tok_type t \<noteq> TT_Eof"
    with Inr p readNextToken_spec [OF assms(1)] obtain w where
      w: "rest st = w @ tok_str t @ rest st'" and l: "lexeme (tok_str t) = Some (tok_type t)"
      by (auto simp: token_result_def)
    have "hd (tok_str t) \<in> set (rest st)" using w lexeme_nonempty [OF l] by simp
    then have "isSpace (schar (hd (tok_str t)))" using assms(2) unfolding white_def by (rule bspec [rotated])
    then show False using lexeme_chars [OF l] lexeme_nonempty [OF l] by simp
  qed
  then show ?thesis using Inr p readNextToken_spec [OF assms(1)] by (simp add: token_result_def)
qed

lemma tokens_of_text:
  assumes st: "lex_ok st" "tokenLookahead st = []" "rest st = t @ w" and t: "spells t ss" and w: "white w"
  shows "\<exists>x. tokenN k st = Inr x \<and> (k < length ss \<longrightarrow> tok_str x = ss ! k \<and> lexeme (ss ! k) = Some (tok_type x))
    \<and> (length ss \<le> k \<longrightarrow> tok_type x = TT_Eof)"
proof -
  have "lexeme (last ss) \<noteq> None" using spells_nonempty [OF t] by simp
  then have "stops (last ss) w" using follow_space w by (cases w) (auto simp: stops_def white_def)
  with spells_reads [OF t st(1,2), of "[]" w] st(3)
  obtain st' where st': "reads st ss st'" "lex_ok st'" "tokenLookahead st' = []" "rest st' = w" by auto
  show ?thesis
  proof (cases "k < length ss")
    case True
    then show ?thesis using reads_tokenN [OF st'(1) True] by auto
  next
    case False
    then obtain j where k: "k = length ss + j" by (metis le_iff_add not_less)
    obtain x st1 where x: "readNextToken st' = Inr (x, st1)" "tok_type x = TT_Eof" "lex_ok st1" "rest st1 = []"
      using read_white_end [OF st'(2)] st'(4) w by auto
    have "\<exists>y. tokenN j st' = Inr y \<and> tok_type y = TT_Eof"
      using x st'(3) readNextToken_queue [OF x(1)] tokenN_Eof [OF x(3,4)]
      by (cases j) (auto simp: nextToken_def)
    then show ?thesis using False by (simp add: k reads_shift [OF st'(1)])
  qed
qed

end
