(* ===== verification/Print_Tokens.thy ===== *)
theory Print_Tokens
  imports Spelling Pretty_Printer Ast_Wf
begin

text \<open>
  The tokens of the text that the pretty printer writes for an expression, and that the lexer reads
  exactly these from the text.
\<close>

section \<open>Tokens\<close>

definition paren :: "bool \<Rightarrow> string list \<Rightarrow> string list" where
  "paren rp ss = (if rp then ''('' # ss @ ['')''] else ss)"

definition int_toks :: "int \<Rightarrow> string list" where
  "int_toks v = (if v < 0 then [''-'', nat_to_string (nat (- v))] else [nat_to_string (nat v)])"

fun expr_toks :: "expr \<Rightarrow> bool \<Rightarrow> string list"
  and args_toks :: "expr list \<Rightarrow> bool \<Rightarrow> string list" where
  "expr_toks (NewArrayExpression l t ty e) rp =
     [''new'', pp_basicType (elementType ty), ''[''] @ expr_toks e False @ ['']'']
       @ concat (replicate (nat (typeDimension ty - 1)) [''['', '']''])"
| "expr_toks (NewObjectExpression l t n d) rp = [''new'', n, ''('', '')'']"
| "expr_toks (IntLiteral l t v) rp = paren rp (int_toks v)"
| "expr_toks (BoolLiteral l t b) rp = [if b then ''true'' else ''false'']"
| "expr_toks (NullLiteral l t) rp = [''null'']"
| "expr_toks (ThisLiteral l t) rp = [''this'']"
| "expr_toks (VarRef l t n d) rp = [n]"
| "expr_toks (MethodInvocation l t e n args d sys) rp =
     expr_toks e rp @ [''.'', n, ''('']
       @ (case args of [] \<Rightarrow> [] | a # more_args \<Rightarrow>
            (let r = snd (pp_expr e rp) in expr_toks a r @ args_toks more_args (snd (pp_expr a r))))
       @ ['')'']"
| "expr_toks (FieldAccess l t e n d) rp = expr_toks e rp @ [''.'', n]"
| "expr_toks (ArrayAccess l t a i) rp = expr_toks a rp @ [''[''] @ expr_toks i (snd (pp_expr a rp)) @ ['']'']"
| "expr_toks (BinaryExpression l t a b bop) rp =
     (let r = (if bop \<noteq> Op_Assign then True else snd (pp_expr a False)) in
      paren rp (expr_toks a (bop \<noteq> Op_Assign) @ [binaryOperationToString bop] @ expr_toks b r))"
| "expr_toks (UnaryExpression l t e uop) rp = paren rp (unaryOperationToString uop # expr_toks e True)"
| "args_toks [] rp = []"
| "args_toks (a # more_args) rp = '','' # expr_toks a rp @ args_toks more_args (snd (pp_expr a rp))"

section \<open>Printable expressions\<close>

text \<open>
  What can be read back.  The left side of a member access is printed without parentheses unless
  \<open>requireParenthesis\<close> is set, so it must not start with an operator or be a binary expression then; the left side
  of an assignment is printed without parentheses, so it must not be an assignment itself.
\<close>

fun operator_expr :: "expr \<Rightarrow> bool" where
  "operator_expr (BinaryExpression l t a b bop) = True"
| "operator_expr (UnaryExpression l t e uop) = True"
| "operator_expr (IntLiteral l t v) = (v < 0)"
| "operator_expr _ = False"

fun is_assign :: "expr \<Rightarrow> bool" where
  "is_assign (BinaryExpression l t a b bop) = (bop = Op_Assign)"
| "is_assign _ = False"

fun printable_basic :: "basic_type \<Rightarrow> bool" where
  "printable_basic (PrimitiveType l p) \<longleftrightarrow> p \<noteq> PT_None"
| "printable_basic (ClassType l n d) \<longleftrightarrow> ident n"

fun printable :: "expr \<Rightarrow> bool \<Rightarrow> bool"
  and printable_args :: "expr list \<Rightarrow> bool \<Rightarrow> bool" where
  "printable (NewArrayExpression l t ty e) rp \<longleftrightarrow>
     (case ty of ArrayType l' b dim \<Rightarrow> printable_basic b \<and> 1 \<le> dim | BasicType b \<Rightarrow> False) \<and> printable e False"
| "printable (NewObjectExpression l t n d) rp \<longleftrightarrow> ident n"
| "printable (IntLiteral l t v) rp \<longleftrightarrow> - (2 ^ 31) \<le> v \<and> v \<le> 2 ^ 31 - 1"
| "printable (BoolLiteral l t b) rp \<longleftrightarrow> True"
| "printable (NullLiteral l t) rp \<longleftrightarrow> True"
| "printable (ThisLiteral l t) rp \<longleftrightarrow> True"
| "printable (VarRef l t n d) rp \<longleftrightarrow> ident n"
| "printable (MethodInvocation l t e n args d sys) rp \<longleftrightarrow>
     (rp \<or> \<not> operator_expr e) \<and> printable e rp \<and> ident n
     \<and> (case args of [] \<Rightarrow> True | a # more_args \<Rightarrow>
          (let r = snd (pp_expr e rp) in printable a r \<and> printable_args more_args (snd (pp_expr a r))))"
| "printable (FieldAccess l t e n d) rp \<longleftrightarrow> (rp \<or> \<not> operator_expr e) \<and> printable e rp \<and> ident n"
| "printable (ArrayAccess l t a i) rp \<longleftrightarrow>
     (rp \<or> \<not> operator_expr a) \<and> printable a rp \<and> printable i (snd (pp_expr a rp))"
| "printable (BinaryExpression l t a b bop) rp \<longleftrightarrow>
     bop \<noteq> Op_None \<and> (bop = Op_Assign \<longrightarrow> \<not> is_assign a) \<and> printable a (bop \<noteq> Op_Assign)
     \<and> printable b (if bop \<noteq> Op_Assign then True else snd (pp_expr a False))"
| "printable (UnaryExpression l t e uop) rp \<longleftrightarrow> uop \<noteq> UOp_None \<and> printable e True"
| "printable_args [] rp \<longleftrightarrow> True"
| "printable_args (a # more_args) rp \<longleftrightarrow> printable a rp \<and> printable_args more_args (snd (pp_expr a rp))"

section \<open>Lexemes\<close>

definition delims :: "char list" where
  "delims = ''.([]),;''"

definition ends :: "string \<Rightarrow> bool" where
  "ends s \<longleftrightarrow> (\<forall>c \<in> set delims. follow s c)"

lemma not_alnum_delims: "c \<in> set delims \<Longrightarrow> \<not> alnum c"
  by (auto simp: delims_def isAlphaNumOrUnderscore_def schar_def)

lemma ends_word: "lexeme s = Some t \<Longrightarrow> alnum (hd s) \<Longrightarrow> ends s"
  using not_alnum_delims by (simp add: ends_def follow_def)

lemma ident_lexeme: "ident n \<Longrightarrow> lexeme n = Some TT_Identifier" "ident n \<Longrightarrow> alnum (hd n)"
proof -
  assume n: "ident n"
  then show l: "lexeme n = Some TT_Identifier" by (simp add: ident_def)
  have "TT_Identifier \<notin> snd ` set op_table" by (simp add: op_eval)
  then have "map_of op_table n \<noteq> Some TT_Identifier" by (force dest: map_of_SomeD)
  then have "is_ident n" using l by (auto simp: lexeme_def split: if_splits)
  then show "alnum (hd n)" using alpha_alnum by (auto simp: is_ident_def split: list.splits)
qed

lemma fixed_lexemes:
  "lexeme ''new'' = Some TT_New" "lexeme ''true'' = Some TT_True" "lexeme ''false'' = Some TT_False"
  "lexeme ''null'' = Some TT_Null" "lexeme ''this'' = Some TT_This" "lexeme ''int'' = Some TT_Int"
  "lexeme ''boolean'' = Some TT_Boolean" "lexeme ''void'' = Some TT_Void"
  "lexeme ''('' = Some TT_LParen" "lexeme '')'' = Some TT_RParen" "lexeme ''['' = Some TT_LBracket"
  "lexeme '']'' = Some TT_RBracket" "lexeme ''.'' = Some TT_Dot" "lexeme '','' = Some TT_Comma"
  "lexeme ''-'' = Some TT_Minus" "lexeme ''!'' = Some TT_Bang" "lexeme '';'' = Some TT_Semicolon"
  by code_simp+

lemma oper_lexemes:
  "lexeme ''='' = Some TT_Eq" "lexeme ''||'' = Some TT_VBarVBar" "lexeme ''&&'' = Some TT_AmpAmp"
  "lexeme ''=='' = Some TT_EqEq" "lexeme ''!='' = Some TT_BangEq" "lexeme ''<'' = Some TT_Lt"
  "lexeme ''<='' = Some TT_LtEq" "lexeme ''>'' = Some TT_Gt" "lexeme ''>='' = Some TT_GtEq"
  "lexeme ''+'' = Some TT_Plus" "lexeme ''*'' = Some TT_Star" "lexeme ''/'' = Some TT_Slash"
  "lexeme ''%'' = Some TT_Percent"
  by code_simp+

lemma word_starts:
  "alnum (hd ''new'')" "alnum (hd ''true'')" "alnum (hd ''false'')" "alnum (hd ''null'')" "alnum (hd ''this'')"
  "alnum (hd ''int'')" "alnum (hd ''boolean'')" "alnum (hd ''void'')"
  by code_simp+

lemma punct_follow:
  "follow ''('' c" "follow '')'' c" "follow ''['' c" "follow '']'' c" "follow ''.'' c" "follow '','' c" "follow '';'' c"
  by (simp_all add: follow_def op_eval isAlphaNumOrUnderscore_def schar_def)

lemma sign_follow:
  assumes "alnum c \<or> c = CHR ''(''"
  shows "follow ''-'' c" "follow ''!'' c"
proof -
  have "c \<noteq> CHR ''-''" "c \<noteq> CHR ''=''" using assms by (auto simp: isAlphaNumOrUnderscore_def schar_def)
  then show "follow ''-'' c" "follow ''!'' c"
    by (simp_all add: follow_def op_eval isAlphaNumOrUnderscore_def schar_def)
qed

lemma ends_close: "ends '')''" "ends '']''"
  by (simp_all add: ends_def punct_follow)

lemma is_digit_digit: "is_digit c \<Longrightarrow> digit c"
proof -
  assume "is_digit c"
  then have "48 \<le> (of_char c :: nat)" "(of_char c :: nat) \<le> 57" by (simp_all add: is_digit_def less_eq_char_def)
  then show ?thesis by (simp add: schar_def isDigit_def)
qed

lemma nat_to_string_hd: "0 < n \<Longrightarrow> hd (nat_to_string n) \<noteq> CHR ''0''"
proof (induction n rule: nat_to_string.induct)
  case (1 n)
  show ?case
  proof (cases "n < 10")
    case True
    have "digit_val CHR ''0'' = 0" by (simp add: digit_val_def)
    then show ?thesis using digit_char_props(2) [of n] True 1(2) by (auto simp: nat_to_string.simps [of n])
  next
    case False
    then show ?thesis using 1 by (auto simp: nat_to_string.simps [of n])
  qed
qed

lemma nat_lexeme: "lexeme (nat_to_string n) = Some TT_IntLiteral" "alnum (hd (nat_to_string n))"
proof -
  obtain c cs where c: "nat_to_string n = c # cs" by (cases "nat_to_string n") auto
  have d: "\<forall>x \<in> set (c # cs). digit x" using nat_to_string_digits [of _ n] is_digit_digit c by auto
  then show "alnum (hd (nat_to_string n))" using alpha_alnum by (simp add: c)
  have "is_intlit (nat_to_string n)"
  proof (cases "n = 0")
    case True
    have "nat_to_string 0 = ''0''" by code_simp
    then show ?thesis by (simp add: True is_intlit_def)
  next
    case False
    then show ?thesis using nat_to_string_hd [of n] d c by (auto simp: is_intlit_def)
  qed
  moreover have "\<not> is_ident (nat_to_string n)" using d by (auto simp: c is_ident_def isDigit_def isAlphaOrUnderscore_def)
  ultimately show "lexeme (nat_to_string n) = Some TT_IntLiteral" by (simp add: lexeme_def)
qed

lemma basic_lexeme:
  "printable_basic b \<Longrightarrow> lexeme (pp_basicType b) \<noteq> None \<and> alnum (hd (pp_basicType b))"
proof (cases b)
  case (PrimitiveType l p)
  moreover assume "printable_basic b"
  ultimately show ?thesis using fixed_lexemes(6-8) word_starts(6-8) by (cases p) simp_all
next
  case (ClassType l n d)
  moreover assume "printable_basic b"
  ultimately show ?thesis using ident_lexeme by simp
qed

section \<open>The text is spelled by the tokens\<close>

text \<open>Together with the spelling, where the text may be put: behind an operator and before a delimiter.\<close>

definition spelled :: "bool \<Rightarrow> string \<Rightarrow> string list \<Rightarrow> bool" where
  "spelled rp t ss \<longleftrightarrow> spells t ss \<and> ends (last ss) \<and> (rp \<longrightarrow> alnum (hd t) \<or> hd t = CHR ''('')"

lemma spelled_word: "lexeme s = Some ty \<Longrightarrow> alnum (hd s) \<Longrightarrow> spelled rp s [s]"
  by (simp add: spelled_def spells.one ends_word)

lemma spells_punct:
  assumes "spells u us" and "lexeme p = Some ty" and "\<And>c. follow p c"
  shows "spells (p @ u) (p # us)"
  using spells.glue [OF spells.one [of p] assms(1)] assms by simp

lemma spells_close:
  assumes "spells t ss" and "ends (last ss)" and "lexeme [c] = Some ty" and "c \<in> set delims"
  shows "spells (t @ [c]) (ss @ [[c]])"
  using spells.glue [OF assms(1) spells.one [of "[c]"]] assms by (simp add: ends_def)

lemma spells_parens: "spells t ss \<Longrightarrow> ends (last ss) \<Longrightarrow> spells (''('' @ t @ '')'') (''('' # ss @ ['')''])"
  using spells_punct [OF spells_close [of t ss "CHR '')''"] fixed_lexemes(9) punct_follow(1)] fixed_lexemes(10)
  by (simp add: delims_def)

lemma spelled_paren:
  assumes "spells t ss" and "ends (last ss)"
  shows "spelled rp (parenthesize rp t) (paren rp ss)"
  using spells_parens [OF assms] assms ends_close by (simp add: spelled_def parenthesize_def paren_def)

lemma spelled_append:
  assumes "spelled rp t ss" and "spells u us" and "hd u \<in> set delims" and "ends (last us)"
  shows "spelled rp (t @ u) (ss @ us)"
proof -
  have "spells t ss" "ends (last ss)" using assms(1) by (simp_all add: spelled_def)
  then have "spells (t @ u) (ss @ us)" using assms(2,3) by (auto simp: ends_def intro: spells.glue)
  then show ?thesis using assms spells_nonempty [OF assms(2)] spells_nonempty [of t ss] by (auto simp: spelled_def)
qed

lemma spells_dot: "ident n \<Longrightarrow> spells (''.'' @ n) [''.'', n]" "ident n \<Longrightarrow> ends n"
  using spells_punct [OF spells.one [of n] fixed_lexemes(13) punct_follow(5)] ident_lexeme ends_word
  by auto

lemma spells_space: "spells t ss \<Longrightarrow> spells u us \<Longrightarrow> spells (t @ '' '' @ u) (ss @ us)"
  using spells.space [of t ss u us "'' ''"] by (simp add: white_def)

lemma oper_lexeme: "bop \<noteq> Op_None \<Longrightarrow> lexeme (binaryOperationToString bop) \<noteq> None"
  using fixed_lexemes(15) oper_lexemes by (cases bop) simp_all

lemma spelled_args:
  assumes "\<And>a rp. a \<in> set as \<Longrightarrow> printable a rp \<Longrightarrow> spelled rp (fst (pp_expr a rp)) (expr_toks a rp)"
    and "spells t ss" "ends (last ss)" "printable_args as rp"
  shows "spells (t @ fst (pp_moreArgs as rp)) (ss @ args_toks as rp) \<and> ends (last (ss @ args_toks as rp))"
  using assms
proof (induction as arbitrary: t ss rp)
  case (Cons a as)
  have a: "spells (fst (pp_expr a rp)) (expr_toks a rp)" "ends (last (expr_toks a rp))"
    using Cons.prems(1) [of a rp] Cons.prems(4) by (simp_all add: spelled_def)
  have "spells (t @ '',''  @ '' '' @ fst (pp_expr a rp)) (ss @ '','' # expr_toks a rp)"
    using spells_space [OF spells_close [OF Cons.prems(2,3) fixed_lexemes(14)] a(1)] by (simp add: delims_def)
  moreover have "ends (last (ss @ '','' # expr_toks a rp))" using a spells_nonempty [OF a(1)] by simp
  ultimately have "spells ((t @ '',''  @ '' '' @ fst (pp_expr a rp)) @ fst (pp_moreArgs as (snd (pp_expr a rp))))
      ((ss @ '','' # expr_toks a rp) @ args_toks as (snd (pp_expr a rp)))
    \<and> ends (last ((ss @ '','' # expr_toks a rp) @ args_toks as (snd (pp_expr a rp))))"
    using Cons.prems(1,4) by (intro Cons.IH) auto
  then show ?case by (simp add: case_prod_beta Let_def)
qed simp

lemma spells_brackets:
  assumes "spells t ss" and "ends (last ss)" and "spells u us" and "ends (last us)"
  shows "spells (t @ ''['' @ u @ '']'') (ss @ [''[''] @ us @ ['']''])"
proof -
  have "spells (''['' @ u @ '']'') (''['' # us @ ['']''])"
    using spells_punct [OF spells_close [OF assms(3,4) fixed_lexemes(12)] fixed_lexemes(11) punct_follow(3)]
    by (simp add: delims_def)
  moreover have "follow (last ss) (hd (''['' @ u @ '']''))" using assms(2) by (simp add: ends_def delims_def)
  ultimately show ?thesis using spells.glue [OF assms(1)] by simp
qed

lemma spells_dims:
  "spells t ss \<Longrightarrow> ends (last ss)
    \<Longrightarrow> spells (t @ concat (replicate k ''[]'')) (ss @ concat (replicate k [''['', '']'']))
      \<and> ends (last (ss @ concat (replicate k [''['', '']''])))"
proof (induction k arbitrary: t ss)
  case (Suc k)
  have "spells ''[]'' [''['', '']'']"
    using spells_punct [OF spells.one [of "'']''"] fixed_lexemes(11) punct_follow(3)] fixed_lexemes(12) by simp
  moreover have "follow (last ss) (hd ''[]'')" using Suc.prems(2) by (simp add: ends_def delims_def)
  ultimately have "spells (t @ ''[]'') (ss @ [''['', '']''])" using spells.glue [OF Suc.prems(1)] by blast
  from Suc.IH [OF this] show ?case by (simp add: ends_close)
qed simp

lemma spelled_new_array:
  assumes "printable_basic b" and "spells t ss" and "ends (last ss)"
  shows "spelled rp (''new '' @ pp_basicType b @ ''['' @ t @ '']'' @ concat (replicate k ''[]''))
    ([''new'', pp_basicType b, ''[''] @ ss @ ['']''] @ concat (replicate k [''['', '']'']))"
proof -
  have b: "lexeme (pp_basicType b) \<noteq> None" "ends (pp_basicType b)"
    using basic_lexeme [OF assms(1)] ends_word by auto
  have "spells (''new'' @ '' '' @ pp_basicType b) ([''new''] @ [pp_basicType b])"
    by (rule spells_space) (use b spells.one fixed_lexemes(1) in auto)
  then have "spells ((''new'' @ '' '' @ pp_basicType b) @ ''['' @ t @ '']'') ((''new'' # [pp_basicType b]) @ [''[''] @ ss @ ['']''])"
    using b assms by (intro spells_brackets) auto
  from spells_dims [OF this, of k] show ?thesis using word_starts(1) ends_close by (simp add: spelled_def)
qed

lemma spelled_new_object:
  assumes "ident n"
  shows "spelled rp (''new '' @ n @ ''()'') [''new'', n, ''('', '')'']"
proof -
  have "spells (''new'' @ '' '' @ n) ([''new''] @ [n])"
    by (rule spells_space) (use spells.one fixed_lexemes(1) ident_lexeme [OF assms] in auto)
  moreover have "spells ''()'' [''('', '')'']"
    using spells_punct [OF spells.one [of "'')''"] fixed_lexemes(9) punct_follow(1)] fixed_lexemes(10) by simp
  moreover have "follow (last ([''new''] @ [n])) (hd ''()'')"
    using spells_dot(2) [OF assms] by (simp add: ends_def delims_def)
  ultimately have "spells ((''new'' @ '' '' @ n) @ ''()'') (([''new''] @ [n]) @ [''('', '')''])"
    by (rule spells.glue)
  then show ?thesis using word_starts(1) ends_close by (simp add: spelled_def)
qed

lemma spelled_int: "spelled rp (parenthesize rp (int_to_string v)) (paren rp (int_toks v))"
proof (rule spelled_paren)
  note d = nat_lexeme
  show "spells (int_to_string v) (int_toks v)"
    using spells.glue [OF spells.one [of "''-''"] spells.one [of "nat_to_string (nat (- v))"]]
      spells.one [of "nat_to_string (nat v)"] sign_follow(1) d fixed_lexemes(15)
    by (simp add: int_to_string_def int_toks_def)
  show "ends (last (int_toks v))" using d ends_word by (simp add: int_toks_def)
qed

lemma spelled_unary:
  assumes "spelled True t ss" and "uop \<noteq> UOp_None"
  shows "spelled rp (parenthesize rp (unaryOperationToString uop @ t)) (paren rp (unaryOperationToString uop # ss))"
proof (rule spelled_paren)
  have t: "spells t ss" "ends (last ss)" "alnum (hd t) \<or> hd t = CHR ''(''" using assms(1) by (simp_all add: spelled_def)
  have u: "lexeme (unaryOperationToString uop) \<noteq> None" "follow (unaryOperationToString uop) (hd t)"
    using assms(2) sign_follow [OF t(3)] fixed_lexemes(15,16) by (cases uop; simp)+
  show "spells (unaryOperationToString uop @ t) (unaryOperationToString uop # ss)"
    using spells.glue [OF spells.one [OF u(1)] t(1)] u(2) by simp
  show "ends (last (unaryOperationToString uop # ss))" using t spells_nonempty [OF t(1)] by simp
qed

lemma spelled_binary:
  assumes "spells t ss" and "spells u us" "ends (last us)" and "bop \<noteq> Op_None"
  shows "spelled rp (parenthesize rp (t @ '' '' @ binaryOperationToString bop @ '' '' @ u))
    (paren rp (ss @ [binaryOperationToString bop] @ us))"
proof (rule spelled_paren)
  show "spells (t @ '' '' @ binaryOperationToString bop @ '' '' @ u) (ss @ [binaryOperationToString bop] @ us)"
    by (intro spells_space assms(1,2) spells.one oper_lexeme assms(4))
  show "ends (last (ss @ [binaryOperationToString bop] @ us))" using assms(3) spells_nonempty [OF assms(2)] by simp
qed

lemma spelled_call:
  assumes "spelled rp t ss" and "ident n" and "as = [] \<and> as_toks = [] \<or> spells as as_toks \<and> ends (last as_toks)"
  shows "spelled rp (t @ ''.'' @ n @ ''('' @ as @ '')'') (ss @ [''.'', n, ''(''] @ as_toks @ ['')''])"
proof -
  have "spells (''('' @ as @ '')'') (''('' # as_toks @ ['')''])"
    using assms(3) spells_parens spells_punct [OF spells.one [of "'')''"] fixed_lexemes(9) punct_follow(1)] fixed_lexemes(10)
    by auto
  moreover have "follow (last [''.'', n]) (hd (''('' @ as @ '')''))"
    using spells_dot(2) [OF assms(2)] by (simp add: ends_def delims_def)
  ultimately have "spells ((''.'' @ n) @ ''('' @ as @ '')'') ([''.'', n] @ ''('' # as_toks @ ['')''])"
    by (rule spells.glue [OF spells_dot(1) [OF assms(2)]])
  from spelled_append [OF assms(1) this] ends_close show ?thesis by (simp add: delims_def)
qed

text \<open>The text that the printer writes is spelled by the tokens of the expression.\<close>

lemma pp_expr_spelled: "printable e rp \<Longrightarrow> spelled rp (fst (pp_expr e rp)) (expr_toks e rp)"
proof (induction e arbitrary: rp)
  case (NewArrayExpression l t ty e)
  then obtain l' b dim where ty: "ty = ArrayType l' b dim" "printable_basic b" by (auto split: ast_type.splits)
  show ?case
    using NewArrayExpression spelled_new_array [OF ty(2), of "fst (pp_expr e False)" "expr_toks e False" rp "nat (dim - 1)"]
    by (simp add: ty(1) spelled_def case_prod_beta Let_def elementType_def typeDimension_def)
next
  case (MethodInvocation l t e n args d sys)
  let ?r = "snd (pp_expr e rp)"
  let ?as = "case args of [] \<Rightarrow> [] | a # as \<Rightarrow> fst (pp_expr a ?r) @ fst (pp_moreArgs as (snd (pp_expr a ?r)))"
  let ?toks = "case args of [] \<Rightarrow> [] | a # as \<Rightarrow> expr_toks a ?r @ args_toks as (snd (pp_expr a ?r))"
  have e: "spelled rp (fst (pp_expr e rp)) (expr_toks e rp)" using MethodInvocation by simp
  have "?as = [] \<and> ?toks = [] \<or> spells ?as ?toks \<and> ends (last ?toks)"
  proof (cases args)
    case (Cons a as)
    have "spelled ?r (fst (pp_expr a ?r)) (expr_toks a ?r)" using MethodInvocation Cons by (simp add: Let_def)
    then have "spells ?as ?toks \<and> ends (last ?toks)"
      using spelled_args [of as "fst (pp_expr a ?r)" "expr_toks a ?r" "snd (pp_expr a ?r)"] MethodInvocation Cons
      by (simp add: Let_def spelled_def)
    then show ?thesis by blast
  qed simp
  from spelled_call [OF e _ this] MethodInvocation.prems
  show ?case by (simp add: case_prod_beta Let_def split: list.splits)
next
  case (FieldAccess l t e n d)
  have "spelled rp (fst (pp_expr e rp) @ ''.'' @ n) (expr_toks e rp @ [''.'', n])"
    using FieldAccess spells_dot by (intro spelled_append) (auto simp: delims_def)
  then show ?case by (simp add: case_prod_beta Let_def)
next
  case (ArrayAccess l t a i)
  let ?r = "snd (pp_expr a rp)"
  have a: "spelled rp (fst (pp_expr a rp)) (expr_toks a rp)" "spelled ?r (fst (pp_expr i ?r)) (expr_toks i ?r)"
    using ArrayAccess by auto
  have "spells (''['' @ fst (pp_expr i ?r) @ '']'') (''['' # expr_toks i ?r @ ['']''])"
    using spells_punct [OF spells_close [OF _ _ fixed_lexemes(12)] fixed_lexemes(11) punct_follow(3)] a(2)
    by (simp add: spelled_def delims_def)
  from spelled_append [OF a(1) this] ends_close show ?case by (simp add: case_prod_beta Let_def delims_def)
next
  case (BinaryExpression l t a b bop)
  let ?r = "if bop \<noteq> Op_Assign then True else snd (pp_expr a False)"
  have "spells (fst (pp_expr a (bop \<noteq> Op_Assign))) (expr_toks a (bop \<noteq> Op_Assign))"
      "spells (fst (pp_expr b ?r)) (expr_toks b ?r)" "ends (last (expr_toks b ?r))"
    using BinaryExpression by (simp_all add: spelled_def)
  from spelled_binary [OF this, of bop rp] BinaryExpression.prems
  show ?case by (cases "bop = Op_Assign") (simp_all add: case_prod_beta Let_def)
next
  case (UnaryExpression l t e uop)
  then show ?case using spelled_unary by (simp add: case_prod_beta Let_def)
qed (use spelled_new_object spelled_int spelled_word fixed_lexemes word_starts ident_lexeme in auto)

end
