(* ===== verification/Parse_Back.thy ===== *)
theory Parse_Back
  imports Print_Tokens Parser_Claims
begin

text \<open>
  What the parser makes of the tokens of an expression, up to source locations and the attributes
  that the semantic analysis fills in.  There is one rule for each form of expression; the fuel
  is hidden in \<open>ev\<close>, for all amounts from some bound on.
\<close>

section \<open>Expressions without locations and attributes\<close>

fun bare_basic :: "basic_type \<Rightarrow> basic_type" where
  "bare_basic (PrimitiveType l p) = PrimitiveType no_loc p"
| "bare_basic (ClassType l n d) = ClassType no_loc n None"

fun bare_type :: "ast_type \<Rightarrow> ast_type" where
  "bare_type (BasicType b) = BasicType (bare_basic b)"
| "bare_type (ArrayType l b dim) = ArrayType no_loc (bare_basic b) dim"

fun bare :: "expr \<Rightarrow> expr" where
  "bare (NewArrayExpression l t ty e) = NewArrayExpression no_loc new_type (bare_type ty) (bare e)"
| "bare (NewObjectExpression l t n d) = NewObjectExpression no_loc new_type n None"
| "bare (IntLiteral l t v) = IntLiteral no_loc new_type v"
| "bare (BoolLiteral l t b) = BoolLiteral no_loc new_type b"
| "bare (NullLiteral l t) = NullLiteral no_loc new_type"
| "bare (ThisLiteral l t) = ThisLiteral no_loc new_type"
| "bare (VarRef l t n d) = VarRef no_loc new_type n None"
| "bare (MethodInvocation l t e n args d sys) = MethodInvocation no_loc new_type (bare e) n (map bare args) None False"
| "bare (FieldAccess l t e n d) = FieldAccess no_loc new_type (bare e) n None"
| "bare (ArrayAccess l t a i) = ArrayAccess no_loc new_type (bare a) (bare i)"
| "bare (BinaryExpression l t a b bop) = BinaryExpression no_loc new_type (bare a) (bare b) bop"
| "bare (UnaryExpression l t e uop) = UnaryExpression no_loc new_type (bare e) uop"

section \<open>The tokens ahead\<close>

definition is_token :: "string \<Rightarrow> token \<Rightarrow> bool" where
  "is_token s t \<longleftrightarrow> tok_str t = s \<and> lexeme s = Some (tok_type t)"

definition ahead :: "pstate \<Rightarrow> string list \<Rightarrow> bool" where
  "ahead ps ss \<longleftrightarrow> ss \<noteq> [] \<and> is_token (hd ss) (curTok ps)
     \<and> (\<forall>k. \<exists>t. tokenN k (lexr ps) = Inr t \<and> (Suc k < length ss \<longrightarrow> is_token (ss ! Suc k) t))"

lemma ahead_cur: "ahead ps (s # ss) \<Longrightarrow> tok_str (curTok ps) = s \<and> lexeme s = Some (curType ps)"
  by (simp add: ahead_def is_token_def)

lemma ahead_type: "ahead ps (s # ss) \<Longrightarrow> lexeme s = Some ty \<Longrightarrow> curType ps = ty"
  by (simp add: ahead_def is_token_def)

lemma ahead_next:
  assumes "ahead ps (s # s' # ss)"
  shows "\<exists>ps'. p_readNextToken ps = Inr ps' \<and> ahead ps' (s' # ss)"
proof -
  have k: "\<exists>t. tokenN k (lexr ps) = Inr t \<and> (k < length (s' # ss) \<longrightarrow> is_token ((s' # ss) ! k) t)" for k
    using assms by (simp add: ahead_def)
  obtain t where t: "tokenN 0 (lexr ps) = Inr t" "is_token s' t" using k [of 0] by auto
  then obtain l where l: "nextToken (lexr ps) = Inr (t, l)" by (cases "nextToken (lexr ps)") auto
  have "\<exists>t. tokenN j l = Inr t \<and> (Suc j < length (s' # ss) \<longrightarrow> is_token ((s' # ss) ! Suc j) t)" for j
    using k [of "Suc j"] l by simp
  with t(2) l show ?thesis by (simp add: p_readNextToken_def liftLex_def ahead_def)
qed

lemma ahead_curTok: "p_readNextToken (ps\<lparr>curTok := t\<rparr>) = p_readNextToken ps"
  by (simp add: p_readNextToken_def)

lemma tokenN_behind: "tokenN (length q) (la q b) = mapR fst (readNextToken b)"
proof (induction q)
  case Nil
  show ?case by (cases "readNextToken b") (auto simp: nextToken_Nil split: prod.splits)
qed (simp add: nextToken_Cons)

lemma pushTokens_succeeds: "\<forall>k. \<exists>t. tokenN k st = Inr t \<Longrightarrow> \<exists>st'. pushTokens n st = Inr st'"
proof (induction n arbitrary: st)
  case (Suc n)
  obtain x where "tokenN (length (tokenLookahead st)) st = Inr x" using Suc.prems by blast
  with tokenN_behind [of "tokenLookahead st" st]
  obtain t st1 where t: "readNextToken st = Inr (t, st1)" by (cases "readNextToken st") (auto simp: la_id)
  have "tokenN k (la (tokenLookahead st @ [t]) st1) = tokenN k st" for k
    using tokenN_push1 [OF t, of k "tokenLookahead st"] by (simp add: la_id)
  then have "\<exists>st'. pushTokens n (la (tokenLookahead st @ [t]) st1) = Inr st'"
    using Suc.prems by (intro Suc.IH) simp
  then show ?case by (simp add: t la_def readNextToken_queue [OF t])
qed simp

lemma ahead_look:
  assumes "ahead ps (s # ss)"
  shows "\<exists>t ps'. p_lookAhead (Suc 0) ps = Inr (t, ps') \<and> ahead ps' (s # ss) \<and> curTok ps' = curTok ps
    \<and> (ss \<noteq> [] \<longrightarrow> is_token (hd ss) t)"
proof -
  have k: "\<forall>k. \<exists>t. tokenN k (lexr ps) = Inr t" using assms by (auto simp: ahead_def)
  obtain l' where "pushTokens (Suc (Suc 0) - length (tokenLookahead (lexr ps))) (lexr ps) = Inr l'"
    using pushTokens_succeeds [OF k] by blast
  then obtain t l where l: "lookAhead (Suc 0) (lexr ps) = Inr (t, l)"
    by (cases "Suc 0 \<le> length (tokenLookahead (lexr ps))") (auto simp: lookAhead_def peekAhead_def)
  note q = lookAhead_tokenN [OF l]
  have "ahead (ps\<lparr>lexr := l\<rparr>) (s # ss)" using assms by (simp add: ahead_def q(2))
  moreover have "ss \<noteq> [] \<longrightarrow> is_token (hd ss) t"
  proof
    assume "ss \<noteq> []"
    moreover have "\<exists>t. tokenN 0 (lexr ps) = Inr t \<and> (Suc 0 < length (s # ss) \<longrightarrow> is_token ((s # ss) ! Suc 0) t)"
      using assms unfolding ahead_def by blast
    ultimately show "is_token (hd ss) t" using q(1) by (cases ss) auto
  qed
  ultimately show ?thesis using l by (simp add: p_lookAhead_def liftLex_def)
qed

lemma ahead_intern: "ahead ps ss \<Longrightarrow> \<exists>ps'. intern n ps = (n, ps') \<and> ahead ps' ss \<and> curTok ps' = curTok ps"
  by (simp add: intern_def findOrInsert_def ahead_def)

lemma ahead_expect: "ahead ps (s # s' # ss) \<Longrightarrow> lexeme s = Some ty
    \<Longrightarrow> \<exists>ps'. expectAndNext ty ps = Inr ps' \<and> ahead ps' (s' # ss)"
  using ahead_next [of ps s s' ss] ahead_type [of ps s "s' # ss" ty] by (simp add: expectAndNext_def expect_def)

lemma ahead_ident: "ahead ps (n # s' # ss) \<Longrightarrow> ident n
    \<Longrightarrow> \<exists>ps'. expectGetIdentAndNext TT_Identifier ps = Inr (n, ps') \<and> ahead ps' (s' # ss)"
  using ahead_next [of ps n s' ss] ahead_cur [of ps n "s' # ss"]
  by (auto simp: expectGetIdentAndNext_def expect_def ident_def)

section \<open>Enough fuel\<close>

definition ev :: "(nat \<Rightarrow> nat \<Rightarrow> bool) \<Rightarrow> bool" where
  "ev P \<longleftrightarrow> (\<exists>k. \<forall>n \<ge> k. \<forall>m \<ge> k. P n m)"

lemma ev_mono: "ev P \<Longrightarrow> (\<And>n m. P n m \<Longrightarrow> Q n m) \<Longrightarrow> ev Q"
  unfolding ev_def by blast

lemma ev_conj: "ev P \<Longrightarrow> ev Q \<Longrightarrow> ev (\<lambda>n m. P n m \<and> Q n m)"
  unfolding ev_def by (metis dual_order.trans nle_le)

lemma ev_const [simp]: "ev (\<lambda>n m. P) \<longleftrightarrow> P"
  by (auto simp: ev_def)

lemma ev_Suc:
  assumes "ev (\<lambda>n m. P (Suc n) m)"
  shows "ev P"
proof -
  from assms obtain k where k: "\<forall>n \<ge> k. \<forall>m \<ge> k. P (Suc n) m" by (auto simp: ev_def)
  have "P n m" if "Suc k \<le> n" "Suc k \<le> m" for n m using k that by (cases n) auto
  then show ?thesis unfolding ev_def by blast
qed

lemma ev_diag:
  assumes "ev P" and "\<And>j. P (Suc j) j \<Longrightarrow> Q (Suc j)"
  shows "ev (\<lambda>n. Q)"
proof -
  from assms(1) obtain k where k: "\<forall>n \<ge> k. \<forall>m \<ge> k. P n m" by (auto simp: ev_def)
  have "Q m" if "Suc k \<le> m" for m using k assms(2) that by (cases m) auto
  then show ?thesis unfolding ev_def by blast
qed

lemma ev_shift: "ev P \<Longrightarrow> ev (\<lambda>n. P (Suc n))"
  unfolding ev_def by (metis le_Suc_eq)

section \<open>Results of the parsing functions\<close>

abbreviation pexp :: "nat \<Rightarrow> pstate \<Rightarrow> expr presult" where
  "pexp m \<equiv> precedenceParse m 0"

definition PLoop :: "expr \<Rightarrow> pstate \<Rightarrow> expr \<Rightarrow> pstate \<Rightarrow> bool" where
  "PLoop e0 ps0 e ps \<longleftrightarrow> ev (\<lambda>n m. postfixLoop n (pexp m) e0 ps0 = Inr (e, ps))"

definition Prim :: "pstate \<Rightarrow> expr \<Rightarrow> pstate \<Rightarrow> bool" where
  "Prim ps0 e ps \<longleftrightarrow> ev (\<lambda>n m. parsePrimary n (pexp m) ps0 = Inr (e, ps))"

definition Post :: "pstate \<Rightarrow> expr \<Rightarrow> pstate \<Rightarrow> bool" where
  "Post ps0 e ps \<longleftrightarrow> ev (\<lambda>n m. parsePostfixExpr n (pexp m) ps0 = Inr (e, ps))"

definition Unary :: "token list \<Rightarrow> pstate \<Rightarrow> expr \<Rightarrow> pstate \<Rightarrow> bool" where
  "Unary us ps0 e ps \<longleftrightarrow> ev (\<lambda>n m. parseUnary n (pexp m) us ps0 = Inr (e, ps))"

definition BLoop :: "int \<Rightarrow> token_pos \<Rightarrow> expr \<Rightarrow> pstate \<Rightarrow> expr \<Rightarrow> pstate \<Rightarrow> bool" where
  "BLoop mp sp e0 ps0 e ps \<longleftrightarrow> ev (\<lambda>n m. precLoop n (precedenceParse m) mp sp e0 ps0 = Inr (e, ps))"

definition Prec :: "int \<Rightarrow> pstate \<Rightarrow> expr \<Rightarrow> pstate \<Rightarrow> bool" where
  "Prec mp ps0 e ps \<longleftrightarrow> ev (\<lambda>n m. precedenceParse m mp ps0 = Inr (e, ps))"

definition Args :: "pstate \<Rightarrow> expr list \<Rightarrow> pstate \<Rightarrow> bool" where
  "Args ps0 es ps \<longleftrightarrow> ev (\<lambda>n m. parseArguments n (pexp m) ps0 = Inr (es, ps))"

lemma Prim_Post: "Prim ps0 e ps \<Longrightarrow> PLoop e ps e' ps' \<Longrightarrow> Post ps0 e' ps'"
  unfolding Prim_def PLoop_def Post_def
  by (drule (1) ev_conj, erule ev_mono) (simp add: parsePostfixExpr_def)

lemma PLoop_stop: "curType ps \<noteq> TT_Dot \<Longrightarrow> curType ps \<noteq> TT_LBracket \<Longrightarrow> PLoop e ps e ps"
  unfolding PLoop_def by (rule ev_Suc) simp

lemma BLoop_stop: "getOpPrec (curType ps) < mp \<Longrightarrow> BLoop mp sp e ps e ps"
  unfolding BLoop_def by (rule ev_Suc) simp

lemma Unary_Post:
  assumes "curType ps \<noteq> TT_Bang" "curType ps \<noteq> TT_Minus" and "curType ps = TT_IntLiteral \<longrightarrow> us = []"
    and "Post ps e ps'"
  shows "Unary us ps (wrapUnaries us e) ps'"
  unfolding Unary_def
  by (rule ev_Suc, rule ev_mono [OF assms(4) [unfolded Post_def, THEN ev_shift]]) (use assms in auto)

section \<open>Token lists that are read as an expression\<close>

abbreviation tt :: "string \<Rightarrow> ttype" where
  "tt s \<equiv> the (lexeme s)"

lemma ahead_tt: "ahead ps (s # ss) \<Longrightarrow> curType ps = tt s"
  by (simp add: ahead_def is_token_def)

text \<open>As a postfix expression, as a unary expression and as an expression of the lowest precedences\<close>

definition reads_post :: "string list \<Rightarrow> expr \<Rightarrow> bool" where
  "reads_post ss e \<longleftrightarrow> (\<forall>ps d tail. ahead ps (ss @ d # tail) \<and> tt d \<noteq> TT_LParen
       \<and> (tt d = TT_LBracket \<longrightarrow> tail \<noteq> [] \<and> tt (hd tail) \<noteq> TT_RBracket) \<longrightarrow>
     (\<exists>e' ps'. bare e' = bare e \<and> ahead ps' (d # tail) \<and> (\<forall>e2 ps2. PLoop e' ps' e2 ps2 \<longrightarrow> Post ps e2 ps2)))"

definition reads_unary :: "string list \<Rightarrow> expr \<Rightarrow> bool" where
  "reads_unary ss e \<longleftrightarrow> (\<forall>ps d tail. ahead ps (ss @ d # tail) \<and> tt d \<notin> {TT_LParen, TT_LBracket, TT_Dot} \<longrightarrow>
     (\<exists>e' ps'. bare e' = bare e \<and> ahead ps' (d # tail) \<and> Unary [] ps e' ps'))"

definition reads_prec :: "bool \<Rightarrow> string list \<Rightarrow> expr \<Rightarrow> bool" where
  "reads_prec assign ss e \<longleftrightarrow> (\<forall>mp ps d tail. ahead ps (ss @ d # tail) \<and> mp \<le> 1
       \<and> tt d \<notin> {TT_LParen, TT_LBracket, TT_Dot} \<and> getOpPrec (tt d) \<le> (if assign then 0 else 1) \<longrightarrow>
     (\<exists>e' ps'. bare e' = bare e \<and> ahead ps' (d # tail)
       \<and> (\<forall>e2 ps2. BLoop mp (startPos (curTok ps)) e' ps' e2 ps2 \<longrightarrow> Prec mp ps e2 ps2)))"

text \<open>As an argument list\<close>

definition reads_args :: "string list \<Rightarrow> expr list \<Rightarrow> bool" where
  "reads_args ss es \<longleftrightarrow> (\<forall>ps d tail. ahead ps (ss @ d # tail) \<and> tt d = TT_RParen \<longrightarrow>
     (\<exists>es' ps'. map bare es' = map bare es \<and> ahead ps' (d # tail) \<and> Args ps es' ps'))"

lemma reads_postD:
  assumes "reads_post ss e" "ahead ps (ss @ d # tail)" "tt d \<noteq> TT_LParen"
    "tt d = TT_LBracket \<longrightarrow> tail \<noteq> [] \<and> tt (hd tail) \<noteq> TT_RBracket"
  obtains e' ps' where "bare e' = bare e" "ahead ps' (d # tail)" "\<And>e2 ps2. PLoop e' ps' e2 ps2 \<Longrightarrow> Post ps e2 ps2"
  using assms unfolding reads_post_def by meson

lemma reads_unaryD:
  assumes "reads_unary ss e" "ahead ps (ss @ d # tail)" "tt d \<notin> {TT_LParen, TT_LBracket, TT_Dot}"
  obtains e' ps' where "bare e' = bare e" "ahead ps' (d # tail)" "Unary [] ps e' ps'"
  using assms unfolding reads_unary_def by meson

lemma reads_precD:
  assumes "reads_prec assign ss e" "ahead ps (ss @ d # tail)" "mp \<le> 1" "tt d \<notin> {TT_LParen, TT_LBracket, TT_Dot}"
    "getOpPrec (tt d) \<le> (if assign then 0 else 1)"
  obtains e' ps' where "bare e' = bare e" "ahead ps' (d # tail)"
    "\<And>e2 ps2. BLoop mp (startPos (curTok ps)) e' ps' e2 ps2 \<Longrightarrow> Prec mp ps e2 ps2"
  using assms unfolding reads_prec_def by meson

lemma reads_prec_full:
  assumes "reads_prec assign ss e" "ahead ps (ss @ d # tail)" "0 \<le> mp" "mp \<le> 1" "tt d \<notin> {TT_LParen, TT_LBracket, TT_Dot}"
    "getOpPrec (tt d) = - 1"
  obtains e' ps' where "bare e' = bare e" "ahead ps' (d # tail)" "Prec mp ps e' ps'"
proof (rule reads_precD [OF assms(1,2,4,5)])
  show "getOpPrec (tt d) \<le> (if assign then 0 else 1)" using assms(6) by simp
  fix e' ps'
  assume e': "bare e' = bare e" "ahead ps' (d # tail)"
    "\<And>e2 ps2. BLoop mp (startPos (curTok ps)) e' ps' e2 ps2 \<Longrightarrow> Prec mp ps e2 ps2"
  have "Prec mp ps e' ps'" by (rule e'(3), rule BLoop_stop) (use assms(3,6) ahead_tt [OF e'(2)] in simp)
  with that e'(1,2) show thesis by blast
qed

lemma getOpPrec_delims: "getOpPrec (tt '')'') = - 1" "getOpPrec (tt '']'') = - 1" "getOpPrec (tt '','') = - 1"
    "getOpPrec (tt '';'') = - 1"
  by (simp_all add: fixed_lexemes getOpPrec_def)

subsection \<open>Primary expressions\<close>

lemma reads_post_prim:
  assumes "\<And>ps d tail. ahead ps (ss @ d # tail) \<Longrightarrow> tt d \<noteq> TT_LParen
      \<Longrightarrow> tt d = TT_LBracket \<longrightarrow> tail \<noteq> [] \<and> tt (hd tail) \<noteq> TT_RBracket
      \<Longrightarrow> \<exists>e' ps'. bare e' = bare e \<and> ahead ps' (d # tail) \<and> Prim ps e' ps'"
  shows "reads_post ss e"
  unfolding reads_post_def using assms Prim_Post by meson

lemma reads_post_word:
  assumes "\<And>ps ps' d tail. p_readNextToken ps = Inr ps' \<Longrightarrow> ahead ps (s # d # tail) \<Longrightarrow> ahead ps' (d # tail)
    \<Longrightarrow> tt d \<noteq> TT_LParen \<Longrightarrow> \<exists>e' ps''. bare e' = bare e \<and> ahead ps'' (d # tail)
      \<and> (\<forall>n m. parsePrimary n (pexp m) ps = Inr (e', ps''))"
  shows "reads_post [s] e"
proof (rule reads_post_prim)
  fix ps d tail
  assume a: "ahead ps ([s] @ d # tail)" "tt d \<noteq> TT_LParen"
  then obtain ps' where ps': "p_readNextToken ps = Inr ps'" "ahead ps' (d # tail)" using ahead_next [of ps s d tail] by auto
  obtain e' ps'' where "bare e' = bare e" "ahead ps'' (d # tail)" "\<forall>n m. parsePrimary n (pexp m) ps = Inr (e', ps'')"
    using assms [OF ps'(1) _ ps'(2) a(2)] a(1) by auto
  then show "\<exists>e' ps'. bare e' = bare e \<and> ahead ps' (d # tail) \<and> Prim ps e' ps'"
    unfolding Prim_def ev_def by blast
qed

lemma reads_post_bool: "reads_post [if b then ''true'' else ''false''] (BoolLiteral l t b)"
  by (rule reads_post_word) (cases b; simp add: parsePrimary_def ahead_tt fixed_lexemes)

lemma reads_post_null: "reads_post [''null''] (NullLiteral l t)"
  by (rule reads_post_word) (simp add: parsePrimary_def ahead_tt fixed_lexemes)

lemma reads_post_this: "reads_post [''this''] (ThisLiteral l t)"
  by (rule reads_post_word) (simp add: parsePrimary_def ahead_tt fixed_lexemes)

lemma reads_post_var:
  assumes "ident n"
  shows "reads_post [n] (VarRef l t n d)"
proof (rule reads_post_word)
  fix ps ps' d' tail
  assume r: "p_readNextToken ps = Inr ps'" and a: "ahead ps (n # d' # tail)" "ahead ps' (d' # tail)" "tt d' \<noteq> TT_LParen"
  obtain ps'' where "intern n ps' = (n, ps'')" "ahead ps'' (d' # tail)" using ahead_intern [OF a(2)] by blast
  then show "\<exists>e' ps''. bare e' = bare (VarRef l t n d) \<and> ahead ps'' (d' # tail)
      \<and> (\<forall>k m. parsePrimary k (pexp m) ps = Inr (e', ps''))"
    using r ahead_tt [OF a(2)] ahead_cur [OF a(1)] assms a(3)
    by (intro exI [of _ ps''] exI [of _ "VarRef (mk_loc (startPos (curTok ps)) (endPos (curTok ps))) new_type n None"])
      (simp add: parsePrimary_def ident_def)
qed

lemma reads_post_int:
  assumes "0 \<le> v" "v \<le> 2 ^ 31 - 1"
  shows "reads_post [nat_to_string (nat v)] (IntLiteral l t v)"
proof (rule reads_post_word)
  fix ps ps' d tail
  assume r: "p_readNextToken ps = Inr ps'" and a: "ahead ps (nat_to_string (nat v) # d # tail)" "ahead ps' (d # tail)"
  have "curType ps = TT_IntLiteral" "tok_str (curTok ps) = nat_to_string (nat v)"
    using ahead_cur [OF a(1)] nat_lexeme(1) by simp_all
  then show "\<exists>e' ps''. bare e' = bare (IntLiteral l t v) \<and> ahead ps'' (d # tail)
      \<and> (\<forall>k m. parsePrimary k (pexp m) ps = Inr (e', ps''))"
    using r a(2) assms stoi_int_to_string [of v] by (simp add: parsePrimary_def int_to_string_def)
qed

lemma reads_post_paren:
  assumes "reads_prec a ss e"
  shows "reads_post (''('' # ss @ ['')'']) e"
proof (rule reads_post_prim)
  fix ps d tail
  assume a: "ahead ps ((''('' # ss @ ['')'']) @ d # tail)"
  obtain s us where ss: "ss @ ['')''] @ d # tail = s # us" by (cases ss) auto
  obtain ps1 where ps1: "p_readNextToken ps = Inr ps1" "ahead ps1 (ss @ '')'' # d # tail)"
    using ahead_next [of ps "''(''" s us] a ss by auto
  obtain e' ps2 where e': "bare e' = bare e" "ahead ps2 ('')'' # d # tail)" "Prec 0 ps1 e' ps2"
    by (rule reads_prec_full [OF assms ps1(2), of 0]) (auto simp: fixed_lexemes getOpPrec_def)
  obtain ps3 where "expectAndNext TT_RParen ps2 = Inr ps3" "ahead ps3 (d # tail)"
    using ahead_expect [OF e'(2) fixed_lexemes(10)] by auto
  moreover have "curType ps = TT_LParen" using ahead_tt [of ps "''(''"] a by (simp add: fixed_lexemes)
  ultimately show "\<exists>e' ps'. bare e' = bare e \<and> ahead ps' (d # tail) \<and> Prim ps e' ps'"
    using e' ps1(1) unfolding Prim_def Prec_def
    by (intro exI [of _ e'] exI [of _ ps3] conjI) (auto elim!: ev_mono simp: parsePrimary_def)
qed

lemma reads_post_new_object:
  assumes "ident n"
  shows "reads_post [''new'', n, ''('', '')''] (NewObjectExpression l t n d)"
proof (rule reads_post_prim)
  fix ps d' tail
  assume a: "ahead ps ([''new'', n, ''('', '')''] @ d' # tail)"
  have ty: "curType ps = TT_New" using ahead_tt [of ps "''new''"] a by (simp add: fixed_lexemes)
  obtain ps1 where 1: "expectAndNext TT_New ps = Inr ps1" "ahead ps1 (n # ''('' # '')'' # d' # tail)"
    using ahead_expect [of ps "''new''" n _ TT_New] a by (auto simp: fixed_lexemes)
  obtain tk ps2 where 2: "p_lookAhead (Suc 0) ps1 = Inr (tk, ps2)" "ahead ps2 (n # ''('' # '')'' # d' # tail)"
      "is_token ''('' tk"
    using ahead_look [OF 1(2)] by auto
  have tk: "tok_type tk = TT_LParen" using 2(3) by (simp add: is_token_def fixed_lexemes)
  obtain ps3 where 3: "expectGetIdentAndNext TT_Identifier ps2 = Inr (n, ps3)" "ahead ps3 (''('' # '')'' # d' # tail)"
    using ahead_ident [OF 2(2) assms] by blast
  obtain ps4 where 4: "p_readNextToken ps3 = Inr ps4" "ahead ps4 ('')'' # d' # tail)"
    using ahead_next [OF 3(2)] by blast
  obtain ps5 where 5: "expectAndNext TT_RParen ps4 = Inr ps5" "ahead ps5 (d' # tail)"
    using ahead_expect [OF 4(2) fixed_lexemes(10)] by blast
  let ?e = "NewObjectExpression (mk_loc (startPos (curTok ps)) (startPos (curTok ps4))) new_type n None"
  have "Prim ps ?e ps5"
    by (simp add: Prim_def parsePrimary_def parseNewExpr_def ty 1(1) 2(1) tk 3(1) 4(1) 5(1))
  with 5(2) show "\<exists>e' ps'. bare e' = bare (NewObjectExpression l t n d) \<and> ahead ps' (d' # tail) \<and> Prim ps e' ps'"
    by (intro exI [of _ ?e] exI [of _ ps5]) simp
qed

lemma reads_newDims:
  assumes "tt d = TT_LBracket \<longrightarrow> tail \<noteq> [] \<and> tt (hd tail) \<noteq> TT_RBracket"
  shows "ahead ps (concat (replicate k [''['', '']'']) @ d # tail)
    \<Longrightarrow> \<exists>q ps'. ahead ps' (d # tail) \<and> ev (\<lambda>n m. newDimLoop n p dim ps = Inr ((q, dim + int k), ps'))"
proof (induction k arbitrary: p dim ps)
  case 0
  then have a: "ahead ps (d # tail)" by simp
  show ?case
  proof (cases "tt d = TT_LBracket")
    case True
    obtain tk ps1 where 1: "p_lookAhead (Suc 0) ps = Inr (tk, ps1)" "ahead ps1 (d # tail)" "tail \<noteq> [] \<longrightarrow> is_token (hd tail) tk"
      using ahead_look [OF a] by blast
    have "tok_type tk \<noteq> TT_RBracket" using 1(3) assms True by (auto simp: is_token_def)
    then have "ev (\<lambda>n m. newDimLoop n p dim ps = Inr ((p, dim + int 0), ps1))"
      by - (rule ev_Suc, simp add: 1(1) ahead_tt [OF a] True)
    with 1(2) show ?thesis by blast
  next
    case False
    then have "ev (\<lambda>n m. newDimLoop n p dim ps = Inr ((p, dim + int 0), ps))"
      by - (rule ev_Suc, simp add: ahead_tt [OF a])
    with a show ?thesis by blast
  qed
next
  case (Suc k)
  obtain s us where us: "concat (replicate k [''['', '']'']) @ d # tail = s # us" by (cases k) auto
  have a: "ahead ps (''['' # '']'' # s # us)" using Suc.prems us by simp
  obtain tk ps1 where 1: "p_lookAhead (Suc 0) ps = Inr (tk, ps1)" "ahead ps1 (''['' # '']'' # s # us)" "is_token '']'' tk"
    using ahead_look [OF a] by auto
  obtain ps2 where 2: "p_readNextToken ps1 = Inr ps2" "ahead ps2 ('']'' # s # us)" using ahead_next [OF 1(2)] by blast
  obtain ps3 where 3: "p_readNextToken ps2 = Inr ps3" "ahead ps3 (s # us)" using ahead_next [OF 2(2)] by blast
  have ty: "curType ps = TT_LBracket" "tok_type tk = TT_RBracket"
    using ahead_tt [OF a] 1(3) by (simp_all add: is_token_def fixed_lexemes)
  from 3(2) us have "ahead ps3 (concat (replicate k [''['', '']'']) @ d # tail)" by simp
  from Suc.IH [OF this, of "endPos (curTok ps2)" "dim + 1"]
  obtain q ps' where q: "ahead ps' (d # tail)"
    "ev (\<lambda>n m. newDimLoop n (endPos (curTok ps2)) (dim + 1) ps3 = Inr ((q, dim + 1 + int k), ps'))" by blast
  have "ev (\<lambda>n m. newDimLoop n p dim ps = Inr ((q, dim + int (Suc k)), ps'))"
    by (rule ev_Suc, rule ev_mono [OF q(2)]) (simp add: ty 1(1) 2(1) 3(1) add_ac)
  with q(1) show ?case by blast
qed

lemma reads_basicType:
  assumes "ahead ps (pp_basicType b # s # ss)" and "printable_basic b"
  shows "\<exists>b' ps'. parseBasicType ps = Inr (b', ps') \<and> bare_basic b' = bare_basic b \<and> ahead ps' (s # ss)"
proof -
  obtain ps' where ps': "p_readNextToken ps = Inr ps'" "ahead ps' (s # ss)" using ahead_next [OF assms(1)] by blast
  show ?thesis
  proof (cases b)
    case (PrimitiveType l p)
    then show ?thesis using ps' ahead_tt [OF assms(1)] assms(2)
      by (cases p) (simp_all add: fixed_lexemes parseBasicType_def getTypeForToken_def)
  next
    case (ClassType l n d)
    then have "curType ps = TT_Identifier" "tok_str (curTok ps) = n"
      using ahead_cur [OF assms(1)] assms(2) by (simp_all add: ident_def)
    then show ?thesis using ps' ClassType by (simp add: parseBasicType_def)
  qed
qed

lemma reads_post_new_array:
  assumes "reads_prec a ss e" and "printable_basic b" and "1 \<le> dim"
  shows "reads_post ([''new'', pp_basicType b, ''[''] @ ss @ ['']''] @ concat (replicate (nat (dim - 1)) [''['', '']'']))
    (NewArrayExpression l t (ArrayType l' b dim) e)"
proof (rule reads_post_prim)
  fix ps d tail
  let ?dims = "concat (replicate (nat (dim - 1)) [''['', '']''])"
  assume a: "ahead ps (([''new'', pp_basicType b, ''[''] @ ss @ ['']''] @ ?dims) @ d # tail)"
    and d: "tt d = TT_LBracket \<longrightarrow> tail \<noteq> [] \<and> tt (hd tail) \<noteq> TT_RBracket"
  obtain x us where x: "ss @ '']'' # ?dims @ d # tail = x # us" by (cases ss) auto
  have ty: "curType ps = TT_New" using ahead_tt [of ps "''new''"] a by (simp add: fixed_lexemes)
  obtain ps1 where 1: "expectAndNext TT_New ps = Inr ps1" "ahead ps1 (pp_basicType b # ''['' # x # us)"
    using ahead_expect [of ps "''new''" "pp_basicType b" "''['' # x # us" TT_New] a x by (auto simp: fixed_lexemes)
  obtain tk ps2 where 2: "p_lookAhead (Suc 0) ps1 = Inr (tk, ps2)" "ahead ps2 (pp_basicType b # ''['' # x # us)"
      "is_token ''['' tk"
    using ahead_look [OF 1(2)] by auto
  have tk: "tok_type tk = TT_LBracket" using 2(3) by (simp add: is_token_def fixed_lexemes)
  obtain b' ps3 where 3: "parseBasicType ps2 = Inr (b', ps3)" "bare_basic b' = bare_basic b" "ahead ps3 (''['' # x # us)"
    using reads_basicType [OF 2(2) assms(2)] by blast
  obtain ps4 where 4: "p_readNextToken ps3 = Inr ps4" "ahead ps4 (ss @ '']'' # ?dims @ d # tail)"
    using ahead_next [OF 3(3)] x by auto
  obtain e' ps5 where 5: "bare e' = bare e" "ahead ps5 ('']'' # ?dims @ d # tail)" "Prec 0 ps4 e' ps5"
    by (rule reads_prec_full [OF assms(1) 4(2), of 0]) (auto simp: fixed_lexemes getOpPrec_def)
  obtain y vs where y: "?dims @ d # tail = y # vs" by (cases "?dims") auto
  obtain ps6 where 6: "expectAndNext TT_RBracket ps5 = Inr ps6" "ahead ps6 (?dims @ d # tail)"
    using ahead_expect [of ps5 "'']''" y vs TT_RBracket] 5(2) y by (auto simp: fixed_lexemes)
  obtain q ps7 where 7: "ahead ps7 (d # tail)"
      "ev (\<lambda>n m. newDimLoop n (endPos (curTok ps5)) 1 ps6 = Inr ((q, 1 + int (nat (dim - 1))), ps7))"
    using reads_newDims [OF d 6(2)] by blast
  let ?loc = "mk_loc (startPos (curTok ps)) q"
  let ?e = "NewArrayExpression ?loc new_type (ArrayType ?loc b' dim) e'"
  have "Prim ps ?e ps7"
    unfolding Prim_def
    by (rule ev_mono [OF ev_conj [OF 5(3) [unfolded Prec_def] 7(2)]])
      (use assms(3) in \<open>simp add: parsePrimary_def parseNewExpr_def ty 1(1) 2(1) tk 3(1) 4(1) 6(1) Let_def\<close>)
  with 7(1) 5(1) 3(2)
  show "\<exists>e' ps'. bare e' = bare (NewArrayExpression l t (ArrayType l' b dim) e) \<and> ahead ps' (d # tail) \<and> Prim ps e' ps'"
    by (intro exI [of _ ?e] exI [of _ ps7]) simp
qed

subsection \<open>Postfix operations\<close>

lemma reads_post_field:
  assumes "reads_post ss e" and "ident n"
  shows "reads_post (ss @ [''.'', n]) (FieldAccess l t e n f)"
  unfolding reads_post_def
proof (intro allI impI, elim conjE)
  fix ps d tail
  assume a: "ahead ps ((ss @ [''.'', n]) @ d # tail)" and d: "tt d \<noteq> TT_LParen"
  have a': "ahead ps (ss @ ''.'' # n # d # tail)" using a by simp
  obtain e' ps' where e': "bare e' = bare e" "ahead ps' (''.'' # n # d # tail)"
      "\<And>e2 ps2. PLoop e' ps' e2 ps2 \<Longrightarrow> Post ps e2 ps2"
    by (rule reads_postD [OF assms(1) a']) (auto simp: fixed_lexemes)
  have ty: "curType ps' = TT_Dot" using ahead_tt [OF e'(2)] by (simp add: fixed_lexemes)
  obtain ps1 where 1: "expectAndNext TT_Dot ps' = Inr ps1" "ahead ps1 (n # d # tail)"
    using ahead_expect [OF e'(2) fixed_lexemes(13)] by blast
  obtain ps2 where 2: "expectGetIdentAndNext TT_Identifier ps1 = Inr (n, ps2)" "ahead ps2 (d # tail)"
    using ahead_ident [OF 1(2) assms(2)] by blast
  have ty2: "curType ps2 \<noteq> TT_LParen" using ahead_tt [OF 2(2)] d by simp
  let ?e = "FieldAccess (mk_loc (startPos (curTok ps')) (endPos (curTok ps1))) new_type e' n None"
  have "Post ps e2 ps3" if "PLoop ?e ps2 e2 ps3" for e2 ps3
  proof (rule e'(3))
    show "PLoop e' ps' e2 ps3" unfolding PLoop_def
      by (rule ev_Suc, rule ev_mono [OF that [unfolded PLoop_def]])
        (simp add: ty parseMemberAccess_def 1(1) 2(1) ty2)
  qed
  with 2(2) e'(1) show "\<exists>e' ps'. bare e' = bare (FieldAccess l t e n f) \<and> ahead ps' (d # tail)
      \<and> (\<forall>e2 ps2. PLoop e' ps' e2 ps2 \<longrightarrow> Post ps e2 ps2)"
    by (intro exI [of _ ?e] exI [of _ ps2]) simp
qed

lemma reads_post_index:
  assumes "reads_post ss e" and "reads_prec b us i" and "us \<noteq> []" "tt (hd us) \<noteq> TT_RBracket"
  shows "reads_post (ss @ [''[''] @ us @ ['']'']) (ArrayAccess l t e i)"
  unfolding reads_post_def
proof (intro allI impI, elim conjE)
  fix ps d tail
  assume a: "ahead ps ((ss @ [''[''] @ us @ ['']'']) @ d # tail)"
  have a': "ahead ps (ss @ ''['' # us @ '']'' # d # tail)" using a by simp
  obtain x vs where us: "us = x # vs" using assms(3) by (cases us) auto
  obtain e' ps' where e': "bare e' = bare e" "ahead ps' (''['' # us @ '']'' # d # tail)"
      "\<And>e2 ps2. PLoop e' ps' e2 ps2 \<Longrightarrow> Post ps e2 ps2"
    by (rule reads_postD [OF assms(1) a']) (use assms(4) us in \<open>auto simp: fixed_lexemes\<close>)
  have ty: "curType ps' = TT_LBracket" using ahead_tt [OF e'(2)] by (simp add: fixed_lexemes)
  obtain ps1 where 1: "expectAndNext TT_LBracket ps' = Inr ps1" "ahead ps1 (us @ '']'' # d # tail)"
    using ahead_expect [of ps' "''[''" x "vs @ '']'' # d # tail" TT_LBracket] e'(2) us by (auto simp: fixed_lexemes)
  obtain i' ps2 where 2: "bare i' = bare i" "ahead ps2 ('']'' # d # tail)" "Prec 0 ps1 i' ps2"
    by (rule reads_prec_full [OF assms(2) 1(2), of 0]) (auto simp: fixed_lexemes getOpPrec_def)
  obtain ps3 where 3: "expectAndNext TT_RBracket ps2 = Inr ps3" "ahead ps3 (d # tail)"
    using ahead_expect [OF 2(2) fixed_lexemes(12)] by blast
  let ?e = "ArrayAccess (mk_loc (startPos (curTok ps')) (endPos (curTok ps3))) new_type e' i'"
  have "Post ps e2 ps4" if "PLoop ?e ps3 e2 ps4" for e2 ps4
  proof (rule e'(3))
    show "PLoop e' ps' e2 ps4" unfolding PLoop_def
      by (rule ev_Suc, rule ev_mono [OF ev_conj [OF 2(3) [unfolded Prec_def] that [unfolded PLoop_def]]])
        (simp add: ty parseArrayAccess_def 1(1) 3(1))
  qed
  with 3(2) 2(1) e'(1) show "\<exists>e' ps'. bare e' = bare (ArrayAccess l t e i) \<and> ahead ps' (d # tail)
      \<and> (\<forall>e2 ps2. PLoop e' ps' e2 ps2 \<longrightarrow> Post ps e2 ps2)"
    by (intro exI [of _ ?e] exI [of _ ps3]) simp
qed

lemma reads_post_call:
  assumes "reads_post ss e" and "ident n" and "reads_args us args"
  shows "reads_post (ss @ [''.'', n, ''(''] @ us @ ['')'']) (MethodInvocation l t e n args f sys)"
  unfolding reads_post_def
proof (intro allI impI, elim conjE)
  fix ps d tail
  assume a: "ahead ps ((ss @ [''.'', n, ''(''] @ us @ ['')'']) @ d # tail)"
  obtain x vs where x: "us @ '')'' # d # tail = x # vs" by (cases us) auto
  have a': "ahead ps (ss @ ''.'' # n # ''('' # x # vs)" using a x by simp
  obtain e' ps' where e': "bare e' = bare e" "ahead ps' (''.'' # n # ''('' # x # vs)"
      "\<And>e2 ps2. PLoop e' ps' e2 ps2 \<Longrightarrow> Post ps e2 ps2"
    by (rule reads_postD [OF assms(1) a']) (auto simp: fixed_lexemes)
  have ty: "curType ps' = TT_Dot" using ahead_tt [OF e'(2)] by (simp add: fixed_lexemes)
  obtain ps1 where 1: "expectAndNext TT_Dot ps' = Inr ps1" "ahead ps1 (n # ''('' # x # vs)"
    using ahead_expect [OF e'(2) fixed_lexemes(13)] by blast
  obtain ps2 where 2: "expectGetIdentAndNext TT_Identifier ps1 = Inr (n, ps2)" "ahead ps2 (''('' # x # vs)"
    using ahead_ident [OF 1(2) assms(2)] by blast
  have ty2: "curType ps2 = TT_LParen" using ahead_tt [OF 2(2)] by (simp add: fixed_lexemes)
  obtain ps3 where 3: "p_readNextToken ps2 = Inr ps3" "ahead ps3 (us @ '')'' # d # tail)"
    using ahead_next [OF 2(2)] x by auto
  obtain args' ps4 where 4: "map bare args' = map bare args" "ahead ps4 ('')'' # d # tail)" "Args ps3 args' ps4"
    using assms(3) 3(2) unfolding reads_args_def using fixed_lexemes(10) by (metis option.sel)
  obtain ps5 where 5: "expectAndNext TT_RParen ps4 = Inr ps5" "ahead ps5 (d # tail)"
    using ahead_expect [OF 4(2) fixed_lexemes(10)] by blast
  let ?e = "MethodInvocation (mk_loc (startPos (curTok ps')) (endPos (curTok ps4))) new_type e' n args' None False"
  have "Post ps e2 ps6" if "PLoop ?e ps5 e2 ps6" for e2 ps6
  proof (rule e'(3))
    show "PLoop e' ps' e2 ps6" unfolding PLoop_def
      by (rule ev_Suc, rule ev_mono [OF ev_conj [OF 4(3) [unfolded Args_def, THEN ev_shift] that [unfolded PLoop_def]]])
        (simp add: ty parseMemberAccess_def 1(1) 2(1) ty2 3(1) 5(1))
  qed
  with 5(2) 4(1) e'(1) show "\<exists>e' ps'. bare e' = bare (MethodInvocation l t e n args f sys) \<and> ahead ps' (d # tail)
      \<and> (\<forall>e2 ps2. PLoop e' ps' e2 ps2 \<longrightarrow> Post ps e2 ps2)"
    by (intro exI [of _ ?e] exI [of _ ps5]) simp
qed

subsection \<open>Arguments\<close>

definition reads_more :: "string list \<Rightarrow> expr list \<Rightarrow> bool" where
  "reads_more ss es \<longleftrightarrow> (ss = [] \<or> hd ss = '','') \<and>
     (\<forall>ps d tail. ahead ps (ss @ d # tail) \<and> tt d = TT_RParen \<longrightarrow>
       (\<exists>es' ps'. map bare es' = map bare es \<and> ahead ps' (d # tail)
         \<and> (\<forall>acc. ev (\<lambda>n m. argLoop n (pexp m) acc ps = Inr (acc @ es', ps')))))"

lemma reads_moreD:
  assumes "reads_more ss es" "ahead ps (ss @ d # tail)" "tt d = TT_RParen"
  obtains es' ps' where "map bare es' = map bare es" "ahead ps' (d # tail)"
    "\<And>acc. ev (\<lambda>n m. argLoop n (pexp m) acc ps = Inr (acc @ es', ps'))"
  using assms unfolding reads_more_def by meson

lemma reads_more_Nil: "reads_more [] []"
  unfolding reads_more_def
proof (intro conjI allI impI, simp, elim conjE)
  fix ps d tail
  assume a: "ahead ps ([] @ d # tail)" and d: "tt d = TT_RParen"
  have "ev (\<lambda>n m. argLoop n (pexp m) acc ps = Inr (acc @ [], ps))" for acc
    by (rule ev_Suc) (use ahead_tt [of ps d tail] a d in simp)
  with a show "\<exists>es' ps'. map bare es' = map bare [] \<and> ahead ps' (d # tail)
      \<and> (\<forall>acc. ev (\<lambda>n m. argLoop n (pexp m) acc ps = Inr (acc @ es', ps')))"
    by (intro exI [of _ "[]"] exI [of _ ps]) simp
qed

lemma more_delim:
  assumes "reads_more us es" and "tt d = TT_RParen"
  obtains d' vs where "us @ d # tail = d' # vs" "tt d' \<notin> {TT_LParen, TT_LBracket, TT_Dot}" "getOpPrec (tt d') = - 1"
proof (cases us)
  case Nil
  then show ?thesis using that [of d tail] assms(2) by (simp add: getOpPrec_def)
next
  case (Cons x xs)
  then have "x = '',''" using assms(1) by (simp add: reads_more_def)
  then show ?thesis using that [of x "xs @ d # tail"] Cons by (simp add: fixed_lexemes getOpPrec_def)
qed

lemma reads_more_Cons:
  assumes "reads_prec b ss e" and "reads_more us es"
  shows "reads_more ('','' # ss @ us) (e # es)"
  unfolding reads_more_def
proof (intro conjI allI impI, simp, elim conjE)
  fix ps d tail
  assume a: "ahead ps (('','' # ss @ us) @ d # tail)" and d: "tt d = TT_RParen"
  obtain d' vs where d': "us @ d # tail = d' # vs" "tt d' \<notin> {TT_LParen, TT_LBracket, TT_Dot}" "getOpPrec (tt d') = - 1"
    using more_delim [OF assms(2) d] .
  obtain x xs where x: "ss @ us @ d # tail = x # xs" by (cases ss; cases us) auto
  have ty: "curType ps = TT_Comma" using ahead_tt [of ps "'',''"] a by (simp add: fixed_lexemes)
  obtain ps1 where 1: "p_readNextToken ps = Inr ps1" "ahead ps1 (ss @ d' # vs)"
    using ahead_next [of ps "'',''" x xs] a x d'(1) by auto
  obtain e' ps2 where 2: "bare e' = bare e" "ahead ps2 (us @ d # tail)" "Prec 0 ps1 e' ps2"
    by (rule reads_prec_full [OF assms(1) 1(2), of 0]) (use d' in auto)
  obtain es' ps3 where 3: "map bare es' = map bare es" "ahead ps3 (d # tail)"
      "\<And>acc. ev (\<lambda>n m. argLoop n (pexp m) acc ps2 = Inr (acc @ es', ps3))"
    using reads_moreD [OF assms(2) 2(2) d] by blast
  have "ev (\<lambda>n m. argLoop n (pexp m) acc ps = Inr (acc @ e' # es', ps3))" for acc
    by (rule ev_Suc, rule ev_mono [OF ev_conj [OF 2(3) [unfolded Prec_def] 3(3) [of "acc @ [e']"]]])
      (simp add: ty 1(1))
  with 2(1) 3(1,2) show "\<exists>es' ps'. map bare es' = map bare (e # es) \<and> ahead ps' (d # tail)
      \<and> (\<forall>acc. ev (\<lambda>n m. argLoop n (pexp m) acc ps = Inr (acc @ es', ps')))"
    by (intro exI [of _ "e' # es'"] exI [of _ ps3]) simp
qed

lemma reads_args_Nil: "reads_args [] []"
  unfolding reads_args_def
proof (intro allI impI, elim conjE)
  fix ps d tail
  assume a: "ahead ps ([] @ d # tail)" and d: "tt d = TT_RParen"
  have "Args ps [] ps" using ahead_tt [of ps d tail] a d by (simp add: Args_def parseArguments_def exprStart_def)
  with a show "\<exists>es' ps'. map bare es' = map bare [] \<and> ahead ps' (d # tail) \<and> Args ps es' ps'"
    by (intro exI [of _ "[]"] exI [of _ ps]) simp
qed

lemma reads_args_Cons:
  assumes "reads_prec b ss e" and "ss \<noteq> []" "tt (hd ss) \<in> set exprStart" and "reads_more us es"
  shows "reads_args (ss @ us) (e # es)"
  unfolding reads_args_def
proof (intro allI impI, elim conjE)
  fix ps d tail
  assume a: "ahead ps ((ss @ us) @ d # tail)" and d: "tt d = TT_RParen"
  obtain d' vs where d': "us @ d # tail = d' # vs" "tt d' \<notin> {TT_LParen, TT_LBracket, TT_Dot}" "getOpPrec (tt d') = - 1"
    using more_delim [OF assms(4) d] .
  have a': "ahead ps (ss @ d' # vs)" using a d'(1) by simp
  have ty: "curType ps \<in> set exprStart" using a' assms(2,3) ahead_tt [of ps "hd ss"] by (cases ss) auto
  obtain e' ps2 where 2: "bare e' = bare e" "ahead ps2 (us @ d # tail)" "Prec 0 ps e' ps2"
    by (rule reads_prec_full [OF assms(1) a', of 0]) (use d' in auto)
  obtain es' ps3 where 3: "map bare es' = map bare es" "ahead ps3 (d # tail)"
      "\<And>acc. ev (\<lambda>n m. argLoop n (pexp m) acc ps2 = Inr (acc @ es', ps3))"
    using reads_moreD [OF assms(4) 2(2) d] by blast
  have "Args ps (e' # es') ps3" unfolding Args_def
    by (rule ev_mono [OF ev_conj [OF 2(3) [unfolded Prec_def] 3(3) [of "[e']"]]]) (simp add: parseArguments_def ty)
  with 2(1) 3(1,2) show "\<exists>es' ps'. map bare es' = map bare (e # es) \<and> ahead ps' (d # tail) \<and> Args ps es' ps'"
    by (intro exI [of _ "e' # es'"] exI [of _ ps3]) simp
qed

subsection \<open>Unary expressions\<close>

lemma reads_post_stop:
  assumes "reads_post ss e" "ahead ps (ss @ d # tail)" "tt d \<notin> {TT_LParen, TT_LBracket, TT_Dot}"
  obtains e' ps' where "bare e' = bare e" "ahead ps' (d # tail)" "Post ps e' ps'"
proof (rule reads_postD [OF assms(1,2)])
  show "tt d \<noteq> TT_LParen" "tt d = TT_LBracket \<longrightarrow> tail \<noteq> [] \<and> tt (hd tail) \<noteq> TT_RBracket" using assms(3) by simp_all
  fix e' ps'
  assume e': "bare e' = bare e" "ahead ps' (d # tail)" "\<And>e2 ps2. PLoop e' ps' e2 ps2 \<Longrightarrow> Post ps e2 ps2"
  have "Post ps e' ps'" by (rule e'(3), rule PLoop_stop) (use ahead_tt [OF e'(2)] assms(3) in auto)
  with that e'(1,2) show thesis by blast
qed

lemma reads_unary_post:
  assumes "reads_post ss e" and "ss \<noteq> []" "tt (hd ss) \<notin> {TT_Bang, TT_Minus}"
  shows "reads_unary ss e"
  unfolding reads_unary_def
proof (intro allI impI, elim conjE)
  fix ps d tail
  assume a: "ahead ps (ss @ d # tail)" and d: "tt d \<notin> {TT_LParen, TT_LBracket, TT_Dot}"
  obtain e' ps' where e': "bare e' = bare e" "ahead ps' (d # tail)" "Post ps e' ps'"
    using reads_post_stop [OF assms(1) a d] .
  have "curType ps = tt (hd ss)" using a assms(2) ahead_tt [of ps "hd ss"] by (cases ss) auto
  then have "Unary [] ps (wrapUnaries [] e') ps'" using assms(3) by (intro Unary_Post e'(3)) auto
  with e'(1,2) show "\<exists>e' ps'. bare e' = bare e \<and> ahead ps' (d # tail) \<and> Unary [] ps e' ps'"
    by (intro exI [of _ e'] exI [of _ ps']) (simp add: wrapUnaries_def)
qed

lemma Unary_step:
  assumes "curType ps \<in> {TT_Bang, TT_Minus}" "p_readNextToken ps = Inr ps1" "Unary (us @ [curTok ps]) ps1 e ps2"
  shows "Unary us ps e ps2"
  unfolding Unary_def by (rule ev_Suc, rule ev_mono [OF assms(3) [unfolded Unary_def]]) (use assms(1,2) in auto)

lemma reads_unary_op:
  assumes "reads_post ss e" and "ss \<noteq> []" "tt (hd ss) \<notin> {TT_Bang, TT_Minus, TT_IntLiteral}" and "uop \<noteq> UOp_None"
  shows "reads_unary (unaryOperationToString uop # ss) (UnaryExpression l t e uop)"
  unfolding reads_unary_def
proof (intro allI impI, elim conjE)
  fix ps d tail
  assume a: "ahead ps ((unaryOperationToString uop # ss) @ d # tail)" and d: "tt d \<notin> {TT_LParen, TT_LBracket, TT_Dot}"
  obtain x xs where ss: "ss = x # xs" using assms(2) by (cases ss) auto
  have ty: "curType ps \<in> {TT_Bang, TT_Minus}" "unary_getOpForToken (curType ps) = uop"
    using ahead_tt [of ps "unaryOperationToString uop"] a assms(4)
    by (cases uop; simp add: fixed_lexemes unary_getOpForToken_def)+
  obtain ps1 where 1: "p_readNextToken ps = Inr ps1" "ahead ps1 (ss @ d # tail)"
    using ahead_next [of ps _ x "xs @ d # tail"] a ss by auto
  obtain e' ps' where e': "bare e' = bare e" "ahead ps' (d # tail)" "Post ps1 e' ps'"
    using reads_post_stop [OF assms(1) 1(2) d] .
  have "curType ps1 = tt (hd ss)" using ahead_tt [of ps1 x] 1(2) ss by simp
  then have "Unary [curTok ps] ps1 (wrapUnaries [curTok ps] e') ps'" using assms(3) by (intro Unary_Post e'(3)) auto
  then have "Unary [] ps (wrapUnaries [curTok ps] e') ps'" using Unary_step [OF ty(1) 1(1), of "[]"] by simp
  with e'(1,2) ty(2) show "\<exists>e' ps'. bare e' = bare (UnaryExpression l t e uop) \<and> ahead ps' (d # tail) \<and> Unary [] ps e' ps'"
    by (intro exI [of _ "wrapUnaries [curTok ps] e'"] exI [of _ ps']) (simp add: wrapUnaries_def)
qed

text \<open>A negative literal: the sign is moved into the literal.\<close>

lemma reads_unary_negative:
  assumes "v < 0" "- (2 ^ 31) \<le> v"
  shows "reads_unary [''-'', nat_to_string (nat (- v))] (IntLiteral l t v)"
  unfolding reads_unary_def
proof (intro allI impI, elim conjE)
  fix ps d tail
  let ?s = "nat_to_string (nat (- v))"
  assume a: "ahead ps ([''-'', ?s] @ d # tail)" and d: "tt d \<notin> {TT_LParen, TT_LBracket, TT_Dot}"
  have ty: "curType ps = TT_Minus" using ahead_tt [of ps "''-''"] a by (simp add: fixed_lexemes)
  obtain ps1 where 1: "p_readNextToken ps = Inr ps1" "ahead ps1 (?s # d # tail)"
    using ahead_next [of ps _ ?s "d # tail"] a by auto
  have ty1: "curType ps1 = TT_IntLiteral" "tok_str (curTok ps1) = ?s"
    using ahead_cur [OF 1(2)] nat_lexeme(1) by simp_all
  obtain ps2 where 2: "p_readNextToken ps1 = Inr ps2" "ahead ps2 (d # tail)" using ahead_next [OF 1(2)] by blast
  let ?tok = "(curTok ps1)\<lparr>tok_str := ''-'' @ ?s\<rparr>"
  let ?e = "IntLiteral (singleTokenSrcLoc ?tok) new_type v"
  have "stoi (''-'' @ ?s) = Inr v" using stoi_int_to_string [of v] assms by (simp add: int_to_string_def)
  then have "Prim (ps1\<lparr>curTok := ?tok\<rparr>) ?e ps2"
    by (simp add: Prim_def parsePrimary_def ty1 ahead_curTok 2(1))
  moreover have "PLoop ?e ps2 ?e ps2" by (rule PLoop_stop) (use ahead_tt [OF 2(2)] d in auto)
  ultimately have "Post (ps1\<lparr>curTok := ?tok\<rparr>) ?e ps2" by (rule Prim_Post)
  then have "Unary [curTok ps] ps1 ?e ps2"
    unfolding Unary_def Post_def
    by - (rule ev_Suc, erule ev_mono [OF ev_shift], simp add: ty ty1 wrapUnaries_def)
  then have "Unary [] ps ?e ps2" using Unary_step [OF _ 1(1), of "[]"] ty by simp
  with 2(2) show "\<exists>e' ps'. bare e' = bare (IntLiteral l t v) \<and> ahead ps' (d # tail) \<and> Unary [] ps e' ps'"
    by (intro exI [of _ ?e] exI [of _ ps2]) simp
qed

subsection \<open>Binary expressions\<close>

lemma Prec_Unary:
  assumes "Unary [] ps e ps1" and "BLoop mp (startPos (curTok ps)) e ps1 e2 ps2"
  shows "Prec mp ps e2 ps2"
  unfolding Prec_def
  by (rule ev_diag [OF ev_conj [OF assms(1) [unfolded Unary_def] assms(2) [unfolded BLoop_def]]])
    (simp del: parseUnary.simps precLoop.simps)

lemma BLoop_step:
  assumes "mp \<le> getOpPrec (curType ps)" and "p_readNextToken ps = Inr ps1"
    and "Prec (if curType ps \<noteq> TT_Eq then getOpPrec (curType ps) + 1 else getOpPrec (curType ps)) ps1 r ps2"
    and "BLoop mp sp (BinaryExpression (mk_loc sp (endToken (eloc r))) new_type e r (binary_getOpForToken (curType ps)))
      ps2 e2 ps3"
  shows "BLoop mp sp e ps e2 ps3"
  unfolding BLoop_def
  by (rule ev_Suc, rule ev_mono [OF ev_conj [OF assms(3) [unfolded Prec_def] assms(4) [unfolded BLoop_def]]])
    (use assms(1,2) in auto)

lemma reads_prec_unary:
  assumes "reads_unary ss e"
  shows "reads_prec b ss e"
  unfolding reads_prec_def
proof (intro allI impI, elim conjE)
  fix mp :: int and ps d tail
  assume a: "ahead ps (ss @ d # tail)" and d: "tt d \<notin> {TT_LParen, TT_LBracket, TT_Dot}"
  obtain e' ps' where "bare e' = bare e" "ahead ps' (d # tail)" "Unary [] ps e' ps'"
    using reads_unaryD [OF assms a d] .
  then show "\<exists>e' ps'. bare e' = bare e \<and> ahead ps' (d # tail)
      \<and> (\<forall>e2 ps2. BLoop mp (startPos (curTok ps)) e' ps' e2 ps2 \<longrightarrow> Prec mp ps e2 ps2)"
    using Prec_Unary by (intro exI [of _ e'] exI [of _ ps']) simp
qed

lemma oper_tt:
  assumes "bop \<noteq> Op_None"
  shows "tt (binaryOperationToString bop) \<notin> {TT_LParen, TT_LBracket, TT_Dot}"
    and "binary_getOpForToken (tt (binaryOperationToString bop)) = bop"
    and "bop \<noteq> Op_Assign \<Longrightarrow> 2 \<le> getOpPrec (tt (binaryOperationToString bop))
      \<and> tt (binaryOperationToString bop) \<noteq> TT_Eq"
  using assms by (cases bop; simp add: fixed_lexemes oper_lexemes binary_getOpForToken_def getOpPrec_def)+

lemma reads_prec_binary:
  assumes "reads_unary ss a" and "reads_unary us b" and "us \<noteq> []" and "bop \<noteq> Op_None" "bop \<noteq> Op_Assign"
  shows "reads_prec False (ss @ [binaryOperationToString bop] @ us) (BinaryExpression l t a b bop)"
  unfolding reads_prec_def
proof (intro allI impI, elim conjE)
  fix mp :: int and ps d tail
  let ?op = "binaryOperationToString bop"
  assume a: "ahead ps ((ss @ [?op] @ us) @ d # tail)" and mp: "mp \<le> 1"
    and d: "tt d \<notin> {TT_LParen, TT_LBracket, TT_Dot}" "getOpPrec (tt d) \<le> (if False then 0 else 1)"
  note op = oper_tt [OF assms(4)]
  obtain x xs where us: "us = x # xs" using assms(3) by (cases us) auto
  have "ahead ps (ss @ ?op # us @ d # tail)" using a by simp
  from reads_unaryD [OF assms(1) this op(1)]
  obtain a' ps1 where 1: "bare a' = bare a" "ahead ps1 (?op # us @ d # tail)" "Unary [] ps a' ps1" .
  obtain ps2 where 2: "p_readNextToken ps1 = Inr ps2" "ahead ps2 (us @ d # tail)"
    using ahead_next [of ps1 ?op x "xs @ d # tail"] 1(2) us by auto
  from reads_unaryD [OF assms(2) 2(2) d(1)]
  obtain b' ps3 where 3: "bare b' = bare b" "ahead ps3 (d # tail)" "Unary [] ps2 b' ps3" .
  have ty: "curType ps1 = tt ?op" using ahead_tt [OF 1(2)] by simp
  have "Prec (getOpPrec (tt ?op) + 1) ps2 b' ps3"
    by (rule Prec_Unary [OF 3(3)], rule BLoop_stop) (use ahead_tt [OF 3(2)] d(2) op(3) [OF assms(5)] in simp)
  then have rhs: "Prec (if curType ps1 \<noteq> TT_Eq then getOpPrec (curType ps1) + 1 else getOpPrec (curType ps1)) ps2 b' ps3"
    using ty op(3) [OF assms(5)] by simp
  have le: "mp \<le> getOpPrec (curType ps1)" using mp ty op(3) [OF assms(5)] by simp
  let ?e = "BinaryExpression (mk_loc (startPos (curTok ps)) (endToken (eloc b'))) new_type a' b' bop"
  have "Prec mp ps e2 ps4" if "BLoop mp (startPos (curTok ps)) ?e ps3 e2 ps4" for e2 ps4
    by (rule Prec_Unary [OF 1(3)], rule BLoop_step [OF le 2(1) rhs]) (use that ty op(2) in simp)
  with 1(1) 3(1,2) show "\<exists>e' ps'. bare e' = bare (BinaryExpression l t a b bop) \<and> ahead ps' (d # tail)
      \<and> (\<forall>e2 ps2. BLoop mp (startPos (curTok ps)) e' ps' e2 ps2 \<longrightarrow> Prec mp ps e2 ps2)"
    by (intro exI [of _ ?e] exI [of _ ps3]) simp
qed

lemma reads_prec_assign:
  assumes "reads_prec False ss a" and "reads_prec c us b" and "us \<noteq> []"
  shows "reads_prec True (ss @ [''=''] @ us) (BinaryExpression l t a b Op_Assign)"
  unfolding reads_prec_def
proof (intro allI impI, elim conjE)
  fix mp :: int and ps d tail
  assume a: "ahead ps ((ss @ [''=''] @ us) @ d # tail)" and mp: "mp \<le> 1"
    and d: "tt d \<notin> {TT_LParen, TT_LBracket, TT_Dot}" "getOpPrec (tt d) \<le> (if True then 0 else 1)"
  have d': "getOpPrec (tt d) = - 1" using d(2) by (auto simp: getOpPrec_def split: if_splits)
  obtain x xs where us: "us = x # xs" using assms(3) by (cases us) auto
  have a': "ahead ps (ss @ ''='' # us @ d # tail)" using a by simp
  obtain a' ps1 where 1: "bare a' = bare a" "ahead ps1 (''='' # us @ d # tail)"
      "\<And>e2 ps2. BLoop mp (startPos (curTok ps)) a' ps1 e2 ps2 \<Longrightarrow> Prec mp ps e2 ps2"
    by (rule reads_precD [OF assms(1) a' mp]) (auto simp: oper_lexemes getOpPrec_def)
  obtain ps2 where 2: "p_readNextToken ps1 = Inr ps2" "ahead ps2 (us @ d # tail)"
    using ahead_next [of ps1 "''=''" x "xs @ d # tail"] 1(2) us by auto
  obtain b' ps3 where 3: "bare b' = bare b" "ahead ps3 (d # tail)" "Prec 1 ps2 b' ps3"
    by (rule reads_prec_full [OF assms(2) 2(2), of 1]) (use d(1) d' in auto)
  have ty: "curType ps1 = TT_Eq" using ahead_tt [OF 1(2)] by (simp add: oper_lexemes)
  then have rhs: "Prec (if curType ps1 \<noteq> TT_Eq then getOpPrec (curType ps1) + 1 else getOpPrec (curType ps1)) ps2 b' ps3"
    using 3(3) by (simp add: getOpPrec_def)
  have le: "mp \<le> getOpPrec (curType ps1)" using mp ty by (simp add: getOpPrec_def)
  let ?e = "BinaryExpression (mk_loc (startPos (curTok ps)) (endToken (eloc b'))) new_type a' b' Op_Assign"
  have "Prec mp ps e2 ps4" if "BLoop mp (startPos (curTok ps)) ?e ps3 e2 ps4" for e2 ps4
    by (rule 1(3), rule BLoop_step [OF le 2(1) rhs]) (use that ty in \<open>simp add: binary_getOpForToken_def\<close>)
  with 1(1) 3(1,2) show "\<exists>e' ps'. bare e' = bare (BinaryExpression l t a b Op_Assign) \<and> ahead ps' (d # tail)
      \<and> (\<forall>e2 ps2. BLoop mp (startPos (curTok ps)) e' ps' e2 ps2 \<longrightarrow> Prec mp ps e2 ps2)"
    by (intro exI [of _ ?e] exI [of _ ps3]) simp
qed

end
