(* ===== verification/Print_Parse.thy ===== *)
theory Print_Parse
  imports Parse_Back
begin

text \<open>
  Printing an expression and parsing the text gives the expression back.
\<close>

section \<open>The first token\<close>

text \<open>With parentheses required, an expression starts neither with an operator nor with a literal.\<close>

lemma expr_toks_start:
  "printable e rp \<Longrightarrow> expr_toks e rp \<noteq> [] \<and> tt (hd (expr_toks e rp)) \<in> set exprStart
     \<and> (rp \<longrightarrow> tt (hd (expr_toks e rp)) \<notin> {TT_Bang, TT_Minus, TT_IntLiteral})
     \<and> (\<not> operator_expr e \<longrightarrow> tt (hd (expr_toks e rp)) \<notin> {TT_Bang, TT_Minus})"
proof (induction e arbitrary: rp)
  case (BinaryExpression l t a b bop)
  then show ?case by (auto simp: paren_def Let_def fixed_lexemes exprStart_def)
next
  case (UnaryExpression l t e uop)
  then show ?case by (cases uop) (auto simp: paren_def Let_def fixed_lexemes exprStart_def)
next
  case (IntLiteral l t v)
  then show ?case by (auto simp: paren_def int_toks_def fixed_lexemes exprStart_def nat_lexeme)
next
  case (MethodInvocation l t e n args d sys)
  then show ?case by (cases rp) auto
qed (auto simp: fixed_lexemes exprStart_def ident_def Let_def)

section \<open>Every printable expression is read back\<close>

fun is_binary :: "expr \<Rightarrow> bool" where
  "is_binary (BinaryExpression l t a b bop) = True"
| "is_binary _ = False"

definition read_back :: "expr \<Rightarrow> bool \<Rightarrow> bool" where
  "read_back e rp \<longleftrightarrow> reads_prec (is_assign e \<and> \<not> rp) (expr_toks e rp) e
     \<and> (rp \<or> \<not> is_binary e \<longrightarrow> reads_unary (expr_toks e rp) e)
     \<and> (rp \<or> \<not> operator_expr e \<longrightarrow> reads_post (expr_toks e rp) e)"

lemma read_backD:
  "read_back e rp \<Longrightarrow> reads_prec (is_assign e \<and> \<not> rp) (expr_toks e rp) e"
  "read_back e True \<Longrightarrow> reads_unary (expr_toks e True) e"
  "read_back e rp \<Longrightarrow> rp \<or> \<not> operator_expr e \<Longrightarrow> reads_post (expr_toks e rp) e"
  unfolding read_back_def by blast+

lemma read_back_post:
  assumes "reads_post (expr_toks e rp) e" and "printable e rp" and "rp \<or> \<not> operator_expr e"
  shows "read_back e rp"
proof -
  have "reads_unary (expr_toks e rp) e"
    using expr_toks_start [OF assms(2)] assms(3) by (intro reads_unary_post assms(1)) auto
  then show ?thesis using assms(1) reads_prec_unary by (simp add: read_back_def)
qed

text \<open>In parentheses\<close>

lemma read_back_paren:
  assumes "expr_toks e True = ''('' # expr_toks e False @ ['')'']" and "reads_prec b (expr_toks e False) e" and "printable e True"
  shows "read_back e True"
  using reads_post_paren [OF assms(2)] assms(1,3) by (intro read_back_post) simp_all

lemma reads_more_args:
  assumes "\<And>a rp. a \<in> set as \<Longrightarrow> printable a rp \<Longrightarrow> read_back a rp" and "printable_args as rp"
  shows "reads_more (args_toks as rp) as"
  using assms
proof (induction as arbitrary: rp)
  case Nil
  show ?case by (simp add: reads_more_Nil)
next
  case (Cons a as)
  have "read_back a rp" using Cons.prems by simp
  moreover have "reads_more (args_toks as (snd (pp_expr a rp))) as" using Cons.prems by (intro Cons.IH) auto
  ultimately show ?case using reads_more_Cons by (auto simp: read_back_def)
qed

lemma read_back_call:
  assumes "printable (MethodInvocation l t e n args d sys) rp" and "read_back e rp"
    and IH: "\<And>a rp. a \<in> set args \<Longrightarrow> printable a rp \<Longrightarrow> read_back a rp"
  shows "read_back (MethodInvocation l t e n args d sys) rp"
proof (rule read_back_post)
  let ?r = "snd (pp_expr e rp)"
  let ?toks = "case args of [] \<Rightarrow> [] | a # as \<Rightarrow> expr_toks a ?r @ args_toks as (snd (pp_expr a ?r))"
  have args: "reads_args ?toks args"
  proof (cases args)
    case Nil
    then show ?thesis by (simp add: reads_args_Nil)
  next
    case (Cons a as)
    have p: "printable a ?r" "printable_args as (snd (pp_expr a ?r))" using assms(1) Cons by (simp_all add: Let_def)
    have "read_back a ?r" using IH p(1) Cons by simp
    moreover have "reads_more (args_toks as (snd (pp_expr a ?r))) as" using reads_more_args [OF IH p(2)] Cons by simp
    ultimately have "reads_args (expr_toks a ?r @ args_toks as (snd (pp_expr a ?r))) (a # as)"
      using expr_toks_start [OF p(1)] by (intro reads_args_Cons [OF read_backD(1)]) simp_all
    then show ?thesis using Cons by simp
  qed
  have e: "reads_post (expr_toks e rp) e" using assms(1,2) by (auto simp: read_back_def)
  show "reads_post (expr_toks (MethodInvocation l t e n args d sys) rp) (MethodInvocation l t e n args d sys)"
    using reads_post_call [OF e _ args, of n l t d sys] assms(1) by (cases args) (simp_all add: Let_def)
qed (use assms(1) in simp_all)

lemma read_back_printable: "printable e rp \<Longrightarrow> read_back e rp"
proof (induction e arbitrary: rp)
  case (NewArrayExpression l t ty e)
  then obtain l' b dim where ty: "ty = ArrayType l' b dim" "printable_basic b" "1 \<le> dim" by (auto split: ast_type.splits)
  have "reads_prec (is_assign e \<and> \<not> False) (expr_toks e False) e"
    using NewArrayExpression.prems by (intro read_backD(1) NewArrayExpression.IH) simp
  from reads_post_new_array [OF this ty(2,3), of l t l'] NewArrayExpression.prems
  show ?case by (intro read_back_post) (simp_all add: ty(1) elementType_def typeDimension_def)
next
  case (NewObjectExpression l t n d)
  then show ?case using reads_post_new_object by (intro read_back_post) auto
next
  case (IntLiteral l t v)
  have neg: "reads_unary (int_toks v) (IntLiteral l t v)" if "v < 0"
    using reads_unary_negative [OF that] IntLiteral that by (simp add: int_toks_def)
  have pos: "reads_post (int_toks v) (IntLiteral l t v)" if "\<not> v < 0"
    using reads_post_int [of v] IntLiteral that by (simp add: int_toks_def)
  have f: "read_back (IntLiteral l t v) False"
  proof (cases "v < 0")
    case True
    then show ?thesis using neg reads_prec_unary by (simp add: read_back_def paren_def)
  next
    case False
    then show ?thesis using pos IntLiteral by (intro read_back_post) (simp_all add: paren_def)
  qed
  show ?case
  proof (cases rp)
    case True
    then show ?thesis using f IntLiteral
      by (auto simp: read_back_def [of _ False] paren_def intro!: read_back_paren)
  qed (simp add: f)
next
  case (BoolLiteral l t b)
  show ?case by (rule read_back_post) (use reads_post_bool [of b l t] in simp_all)
next
  case (NullLiteral l t)
  show ?case by (rule read_back_post) (use reads_post_null [of l t] in simp_all)
next
  case (ThisLiteral l t)
  show ?case by (rule read_back_post) (use reads_post_this [of l t] in simp_all)
next
  case (VarRef l t n d)
  then show ?case using reads_post_var by (intro read_back_post) simp_all
next
  case (MethodInvocation l t e n args d sys)
  then show ?case by (intro read_back_call) auto
next
  case (FieldAccess l t e n d)
  have "reads_post (expr_toks e rp) e"
    using FieldAccess.prems by (intro read_backD(3) FieldAccess.IH) simp_all
  from reads_post_field [OF this, of n l t d] FieldAccess.prems show ?case by (intro read_back_post) simp_all
next
  case (ArrayAccess l t a i)
  have "tt (hd (expr_toks i (snd (pp_expr a rp)))) \<noteq> TT_RBracket" "expr_toks i (snd (pp_expr a rp)) \<noteq> []"
    using expr_toks_start [of i "snd (pp_expr a rp)"] ArrayAccess.prems by (auto simp: exprStart_def)
  moreover have "reads_post (expr_toks a rp) a" "read_back i (snd (pp_expr a rp))"
    using ArrayAccess.prems by (auto intro!: read_backD(3) ArrayAccess.IH)
  ultimately have "reads_post (expr_toks (ArrayAccess l t a i) rp) (ArrayAccess l t a i)"
    using reads_post_index [OF _ read_backD(1)] by simp
  then show ?case using ArrayAccess.prems by (intro read_back_post) simp_all
next
  case (BinaryExpression l t a b bop)
  let ?e = "BinaryExpression l t a b bop"
  let ?r = "if bop \<noteq> Op_Assign then True else snd (pp_expr a False)"
  have IH: "read_back a (bop \<noteq> Op_Assign)" "read_back b ?r" "expr_toks b ?r \<noteq> []"
    using BinaryExpression expr_toks_start [of b ?r] by simp_all
  have prec: "reads_prec (bop = Op_Assign) (expr_toks ?e False) ?e"
  proof (cases "bop = Op_Assign")
    case True
    then have "reads_prec False (expr_toks a False) a"
      using read_backD(1) [OF IH(1)] BinaryExpression.prems by simp
    from reads_prec_assign [OF this read_backD(1) [OF IH(2)] IH(3)] True show ?thesis
      by (simp add: paren_def Let_def)
  next
    case False
    then have "reads_unary (expr_toks a True) a" "reads_unary (expr_toks b True) b" "expr_toks b True \<noteq> []"
      using IH by (auto intro!: read_backD(2))
    from reads_prec_binary [OF this, of bop l t] False BinaryExpression.prems show ?thesis
      by (simp add: paren_def Let_def)
  qed
  show ?case
  proof (cases rp)
    case True
    then show ?thesis using prec BinaryExpression.prems by (auto simp: paren_def Let_def intro!: read_back_paren)
  next
    case False
    then show ?thesis using prec by (simp add: read_back_def)
  qed
next
  case (UnaryExpression l t e uop)
  let ?e = "UnaryExpression l t e uop"
  have "reads_post (expr_toks e True) e"
    using UnaryExpression.prems by (intro read_backD(3) UnaryExpression.IH) simp_all
  then have un: "reads_unary (expr_toks ?e False) ?e"
    using expr_toks_start [of e True] UnaryExpression.prems by (auto simp: paren_def intro!: reads_unary_op)
  show ?case
  proof (cases rp)
    case True
    then show ?thesis using reads_prec_unary [OF un] UnaryExpression.prems
      by (auto simp: paren_def intro!: read_back_paren)
  next
    case False
    then show ?thesis using un reads_prec_unary [OF un] by (simp add: read_back_def)
  qed
qed

section \<open>The printed text\<close>

text \<open>Constructing a \<open>Parser\<close> on a text and calling \<open>parseExpr\<close>\<close>

definition parseExprText :: "(nat \<Rightarrow> int) \<Rightarrow> string \<Rightarrow> string \<Rightarrow> string_table \<Rightarrow> nat \<Rightarrow> expr presult" where
  "parseExprText g f inp tbl n =
     bindE (liftLex (newLexer g LS_normal f inp)) (\<lambda>l. bindE (newParser l tbl) (parseExpr n))"

text \<open>The printer does not look at locations and attributes.\<close>

lemma pp_basicType_bare: "pp_basicType (bare_basic b) = pp_basicType b"
  by (cases b) simp_all

lemma pp_type_bare:
  "pp_basicType (elementType (bare_type ty)) = pp_basicType (elementType ty)"
  "typeDimension (bare_type ty) = typeDimension ty"
  by (cases ty; simp add: elementType_def typeDimension_def pp_basicType_bare)+

lemma pp_expr_bare: "pp_expr (bare e) rp = pp_expr e rp"
proof (induction e arbitrary: rp)
  case (MethodInvocation l t e n args d sys)
  have more: "\<forall>x \<in> set as. \<forall>r. pp_expr (bare x) r = pp_expr x r \<Longrightarrow> pp_moreArgs (map bare as) r = pp_moreArgs as r" for as r
    by (induction as arbitrary: r) (auto split: prod.splits)
  from MethodInvocation show ?case by (cases args) (auto simp: more split: prod.splits)
qed (simp_all add: pp_type_bare split: prod.splits)

lemma newParser_ahead:
  assumes "spells t ss" and "newLexer g LS_normal f t = Inr l"
  shows "\<exists>ps. newParser l tbl = Inr ps \<and> ahead ps ss"
proof -
  note l = newLexer_Inr [OF assms(2)]
  have tk: "\<exists>x. tokenN k l = Inr x \<and> (k < length ss \<longrightarrow> is_token (ss ! k) x)" for k
    using tokens_of_text [OF l(1) _ _ assms(1), of "[]" k] l by (auto simp: is_token_def)
  have ss: "ss \<noteq> []" using spells_nonempty [OF assms(1)] by simp
  obtain x where x: "tokenN 0 l = Inr x" "is_token (hd ss) x" using tk [of 0] ss by (auto simp: hd_conv_nth)
  then obtain l' where l': "nextToken l = Inr (x, l')" by (cases "nextToken l") auto
  have "\<exists>x. tokenN k l' = Inr x \<and> (Suc k < length ss \<longrightarrow> is_token (ss ! Suc k) x)" for k
    using tk [of "Suc k"] l' by simp
  then show ?thesis using x(2) l' ss by (simp add: newParser_def p_readNextToken_def liftLex_def ahead_def)
qed

lemma parseExpr_enough:
  assumes "Prec 0 ps e ps'" and "pgood ps" and "toks ps < n"
  shows "parseExpr n ps = Inr (e, ps')"
proof -
  obtain k where k: "\<forall>m \<ge> k. precedenceParse m 0 ps = Inr (e, ps')"
    using assms(1) unfolding Prec_def ev_def by blast
  have "parseExpr n ps \<noteq> Inl OutOfFuel"
    using consumerD [OF parseExpr_ok assms(2,3) order_refl] by (auto simp: res_ok_def perr_ok_def)
  moreover have "rle (parseExpr n ps) (parseExpr (max n k) ps)" by (rule parseExpr_fuel) simp
  ultimately show ?thesis using k by (simp add: rle_def parseExpr_def)
qed

section \<open>Properties\<close>

text \<open>
  C11: Printing and parsing expressions.  The text that the pretty printer writes for a printable
  expression, followed by a semicolon, is parsed by \<open>parseExpr\<close> without an error to the same
  expression, up to source locations and the attributes of the semantic analysis, and the parser
  stops in front of the semicolon; printing the result gives the same text again.  Printable means
  that names are identifiers, operators are set, integers fit 32 bits, array types have a dimension, and that the tree is not one
  of those for which the printer leaves out parentheses: an operator expression as the object of a
  member access or an array access at a place where \<open>requireParenthesis\<close> is off, or an assignment on the left
  of an assignment.
\<close>

theorem print_parse_expr:
  assumes "printable e False" and "length (fst (pp_expr e False)) + 1 < n"
  shows "\<exists>e' ps. parseExprText g f (fst (pp_expr e False) @ '';'') tbl n = Inr (e', ps)
    \<and> bare e' = bare e \<and> curType ps = TT_Semicolon \<and> pp_expr e' False = pp_expr e False"
proof -
  let ?t = "fst (pp_expr e False) @ '';''" and ?ss = "expr_toks e False @ [ '';'' ]"
  have "spelled False (fst (pp_expr e False)) (expr_toks e False)" using pp_expr_spelled [OF assms(1)] .
  then have t: "spells ?t ?ss" using fixed_lexemes(17) by (intro spells_close) (auto simp: spelled_def delims_def)
  obtain l where l: "newLexer g LS_normal f ?t = Inr l" using newLexer_Ex by blast
  obtain ps where ps: "newParser l tbl = Inr ps" "ahead ps (expr_toks e False @ '';'' # [])"
    using newParser_ahead [OF t l] by auto
  have good: "pgood ps" "toks ps < n" using newParser_ok [OF l, of tbl] ps(1) assms(2) by auto
  obtain e' ps' where e': "bare e' = bare e" "ahead ps' ('';'' # [])" "Prec 0 ps e' ps'"
    by (rule reads_prec_full [OF read_backD(1) [OF read_back_printable [OF assms(1)]] ps(2), of 0])
      (auto simp: fixed_lexemes getOpPrec_def)
  have "parseExprText g f ?t tbl n = Inr (e', ps')"
    using parseExpr_enough [OF e'(3) good] l ps(1) by (simp add: parseExprText_def liftLex_def)
  moreover have "pp_expr e' False = pp_expr e False" using pp_expr_bare [of e'] pp_expr_bare [of e] e'(1) by simp
  moreover have "curType ps' = TT_Semicolon" using ahead_tt [OF e'(2)] by (simp add: fixed_lexemes)
  ultimately show ?thesis using e'(1) by blast
qed

text \<open>The assignment \<open>x = -a.f[(y + 1) * -7]\<close>\<close>

definition roundTripExample :: expr where
  "roundTripExample =
     (let b = (\<lambda>x y bop. BinaryExpression no_loc new_type x y bop); v = (\<lambda>n. VarRef no_loc new_type n None);
          i = IntLiteral no_loc new_type in
      b (v ''x'') (UnaryExpression no_loc new_type (ArrayAccess no_loc new_type (FieldAccess no_loc new_type (v ''a'') ''f'' None)
        (b (b (v ''y'') (i 1) Op_Plus) (i (- 7)) Op_Mul)) UOp_Neg) Op_Assign)"

theorem print_parse_expr_witness:
  "fst (pp_expr roundTripExample False) = ''x = -a.f[(y + (1)) * (-7)]'' \<and>
   (\<exists>e' ps. parseExprText (\<lambda>_. 0) ''f'' ''x = -a.f[(y + (1)) * (-7)];'' [] 50 = Inr (e', ps)
     \<and> bare e' = roundTripExample \<and> curType ps = TT_Semicolon)"
proof -
  have n: "ident ''x''" "ident ''y''" "ident ''a''" "ident ''f''" by code_simp+
  have t: "fst (pp_expr roundTripExample False) = ''x = -a.f[(y + (1)) * (-7)]''" by code_simp
  have p: "printable roundTripExample False" using n by (simp add: roundTripExample_def Let_def)
  have b: "bare roundTripExample = roundTripExample" by (simp add: roundTripExample_def Let_def)
  show ?thesis using print_parse_expr [OF p, of 50 "\<lambda>_. 0" "''f''" "[]"] unfolding t b by auto
qed

end
