(* ===== verification/Firm_Library.thy ===== *)
theory Firm_Library
  imports Ast Firm
begin

text \<open>
  What the construction of graphs works on (\<open>firm_visitor.hpp\<close>).  The library libfirm is a parameter: a
  record of its functions.  The calls that create something or change the library's state are values of the type
  \<open>fop\<close>, with the arguments of the call; the result of a call is a function of the call and of the calls
  before it, which the visitor keeps in its state, the last one first.  The other functions of
  the library only observe.  Nodes, types, entities and graphs are pointers, that is, values of a type
  parameter; a pointer that may be null is an option.  Arguments of a call are evaluated from left to
  right.  Classes and methods, the keys of the visitor's tables, are identified by their names.
\<close>

section \<open>The library\<close>

datatype proj_num = PN_Cond_false | PN_Cond_true | PN_Load_M | PN_Load_res | PN_Call_M | PN_Call_T_result
  | PN_Div_M | PN_Div_res | PN_Mod_M | PN_Mod_res | PN_number nat

text \<open>The constructors of types and entities, and the calls that set their attributes\<close>

datatype type_op = T_reference_mode string nat nat | T_primitive ir_mode | T_method nat nat | T_param nat | T_res nat
  | T_pointer | T_array nat | T_class string | T_global_entity string | T_entity string | T_offset int
  | T_layout_fixed | T_size int

text \<open>The constructors of nodes in the current block; their operands are the arguments of the call.\<close>

datatype node_op = N_Const ir_mode int | N_Proj ir_mode proj_num | N_Phi ir_mode | N_Cmp ir_relation | N_Cond | N_Jmp
  | N_Bad ir_mode | N_Return | N_Address | N_Call | N_Load ir_mode | N_Store | N_Add | N_Sub | N_Mul | N_Minus
  | N_DivRL | N_Mod | N_Conv ir_mode | N_Member | N_Sel | N_Size ir_mode

datatype 'n fop =
    Set_optimize int
  | Set_modeP 'n
  | Type_call type_op "'n list"
  | New_node node_op "'n list"
  | New_ir_graph 'n nat
  | Set_current_ir_graph 'n
  | Irg_finalize_cons 'n
  | Dump_ir_graph 'n
  | Set_r_cur_block 'n 'n
  | Set_cur_block 'n
  | New_immBlock
  | Add_immBlock_pred 'n 'n
  | Mature_immBlock 'n
  | Keep_alive 'n
  | New_Block "'n list"
  | New_r_Block 'n "'n list"
  | New_r_Jmp 'n
  | Set_Block_cfgpred 'n nat 'n
  | Get_store
  | Set_store 'n
  | Get_value nat ir_mode
  | Set_value nat 'n
  | Set_r_value 'n nat 'n

abbreviation New_reference_mode :: "string \<Rightarrow> nat \<Rightarrow> nat \<Rightarrow> 'n fop" where
  "New_reference_mode n i j \<equiv> Type_call (T_reference_mode n i j) []"

abbreviation New_type_primitive :: "ir_mode \<Rightarrow> 'n fop" where
  "New_type_primitive m \<equiv> Type_call (T_primitive m) []"

abbreviation New_type_method :: "nat \<Rightarrow> nat \<Rightarrow> 'n fop" where
  "New_type_method i j \<equiv> Type_call (T_method i j) []"

abbreviation Set_method_param_type :: "'n \<Rightarrow> nat \<Rightarrow> 'n \<Rightarrow> 'n fop" where
  "Set_method_param_type t i p \<equiv> Type_call (T_param i) [t, p]"

abbreviation Set_method_res_type :: "'n \<Rightarrow> nat \<Rightarrow> 'n \<Rightarrow> 'n fop" where
  "Set_method_res_type t i p \<equiv> Type_call (T_res i) [t, p]"

abbreviation New_type_pointer :: "'n \<Rightarrow> 'n fop" where
  "New_type_pointer t \<equiv> Type_call T_pointer [t]"

abbreviation New_type_array :: "'n \<Rightarrow> nat \<Rightarrow> 'n fop" where
  "New_type_array t i \<equiv> Type_call (T_array i) [t]"

abbreviation New_type_class :: "string \<Rightarrow> 'n fop" where
  "New_type_class n \<equiv> Type_call (T_class n) []"

abbreviation New_global_entity :: "'n \<Rightarrow> string \<Rightarrow> 'n \<Rightarrow> 'n fop" where
  "New_global_entity ow n t \<equiv> Type_call (T_global_entity n) [ow, t]"

abbreviation New_entity :: "'n \<Rightarrow> string \<Rightarrow> 'n \<Rightarrow> 'n fop" where
  "New_entity ow n t \<equiv> Type_call (T_entity n) [ow, t]"

abbreviation Set_entity_offset :: "'n \<Rightarrow> int \<Rightarrow> 'n fop" where
  "Set_entity_offset e i \<equiv> Type_call (T_offset i) [e]"

abbreviation Set_type_state_fixed :: "'n \<Rightarrow> 'n fop" where
  "Set_type_state_fixed t \<equiv> Type_call T_layout_fixed [t]"

abbreviation Set_type_size :: "'n \<Rightarrow> int \<Rightarrow> 'n fop" where
  "Set_type_size t i \<equiv> Type_call (T_size i) [t]"

abbreviation New_Const_long :: "ir_mode \<Rightarrow> int \<Rightarrow> 'n fop" where
  "New_Const_long m i \<equiv> New_node (N_Const m i) []"

abbreviation New_Proj :: "'n \<Rightarrow> ir_mode \<Rightarrow> proj_num \<Rightarrow> 'n fop" where
  "New_Proj n m i \<equiv> New_node (N_Proj m i) [n]"

abbreviation New_Phi :: "'n list \<Rightarrow> ir_mode \<Rightarrow> 'n fop" where
  "New_Phi ns m \<equiv> New_node (N_Phi m) ns"

abbreviation New_Cmp :: "'n \<Rightarrow> 'n \<Rightarrow> ir_relation \<Rightarrow> 'n fop" where
  "New_Cmp l r rel \<equiv> New_node (N_Cmp rel) [l, r]"

abbreviation New_Cond :: "'n \<Rightarrow> 'n fop" where
  "New_Cond n \<equiv> New_node N_Cond [n]"

abbreviation New_Jmp :: "'n fop" where
  "New_Jmp \<equiv> New_node N_Jmp []"

abbreviation New_Bad :: "ir_mode \<Rightarrow> 'n fop" where
  "New_Bad m \<equiv> New_node (N_Bad m) []"

abbreviation New_Return :: "'n \<Rightarrow> 'n list \<Rightarrow> 'n fop" where
  "New_Return s ns \<equiv> New_node N_Return (s # ns)"

abbreviation New_Address :: "'n \<Rightarrow> 'n fop" where
  "New_Address e \<equiv> New_node N_Address [e]"

abbreviation New_Call :: "'n \<Rightarrow> 'n \<Rightarrow> 'n list \<Rightarrow> 'n \<Rightarrow> 'n fop" where
  "New_Call s c ns t \<equiv> New_node N_Call (s # c # t # ns)"

abbreviation New_Load :: "'n \<Rightarrow> 'n \<Rightarrow> ir_mode \<Rightarrow> 'n \<Rightarrow> 'n fop" where
  "New_Load s p m t \<equiv> New_node (N_Load m) [s, p, t]"

abbreviation New_Store :: "'n \<Rightarrow> 'n \<Rightarrow> 'n \<Rightarrow> 'n \<Rightarrow> 'n fop" where
  "New_Store s p v t \<equiv> New_node N_Store [s, p, v, t]"

abbreviation New_Add :: "'n \<Rightarrow> 'n \<Rightarrow> 'n fop" where
  "New_Add l r \<equiv> New_node N_Add [l, r]"

abbreviation New_Sub :: "'n \<Rightarrow> 'n \<Rightarrow> 'n fop" where
  "New_Sub l r \<equiv> New_node N_Sub [l, r]"

abbreviation New_Mul :: "'n \<Rightarrow> 'n \<Rightarrow> 'n fop" where
  "New_Mul l r \<equiv> New_node N_Mul [l, r]"

abbreviation New_Minus :: "'n \<Rightarrow> 'n fop" where
  "New_Minus n \<equiv> New_node N_Minus [n]"

abbreviation New_DivRL :: "'n \<Rightarrow> 'n \<Rightarrow> 'n \<Rightarrow> 'n fop" where
  "New_DivRL s l r \<equiv> New_node N_DivRL [s, l, r]"

abbreviation New_Mod :: "'n \<Rightarrow> 'n \<Rightarrow> 'n \<Rightarrow> 'n fop" where
  "New_Mod s l r \<equiv> New_node N_Mod [s, l, r]"

abbreviation New_Conv :: "'n \<Rightarrow> ir_mode \<Rightarrow> 'n fop" where
  "New_Conv n m \<equiv> New_node (N_Conv m) [n]"

abbreviation New_Member :: "'n \<Rightarrow> 'n \<Rightarrow> 'n fop" where
  "New_Member p e \<equiv> New_node N_Member [p, e]"

abbreviation New_Sel :: "'n \<Rightarrow> 'n \<Rightarrow> 'n \<Rightarrow> 'n fop" where
  "New_Sel p i t \<equiv> New_node N_Sel [p, i, t]"

abbreviation New_Size :: "ir_mode \<Rightarrow> 'n \<Rightarrow> 'n fop" where
  "New_Size m t \<equiv> New_node (N_Size m) [t]"

type_synonym 'n calls = "('n fop \<times> 'n) list"

record 'n libfirm =
  lf_run :: "'n calls \<Rightarrow> 'n fop \<Rightarrow> 'n"
  lf_cur_block :: "'n calls \<Rightarrow> 'n"                     \<comment> \<open>\<open>get_cur_block()\<close>\<close>
  lf_r_cur_block :: "'n calls \<Rightarrow> 'n \<Rightarrow> 'n"             \<comment> \<open>\<open>get_r_cur_block(graph)\<close>\<close>
  lf_start_block :: "'n \<Rightarrow> 'n"                         \<comment> \<open>\<open>get_irg_start_block(graph)\<close>\<close>
  lf_end_block :: "'n \<Rightarrow> 'n"                           \<comment> \<open>\<open>get_irg_end_block(graph)\<close>\<close>
  lf_args :: "'n \<Rightarrow> 'n"                                \<comment> \<open>\<open>get_irg_args(graph)\<close>\<close>
  lf_keepalives :: "'n calls \<Rightarrow> 'n \<Rightarrow> 'n option list"  \<comment> \<open>\<open>get_End_keepalive(get_irg_end(graph), i)\<close>\<close>
  lf_glob_type :: 'n                                  \<comment> \<open>\<open>get_glob_type()\<close>\<close>
  lf_irn_mode :: "'n \<Rightarrow> ir_mode"                       \<comment> \<open>\<open>get_irn_mode(node)\<close>\<close>
  lf_type_mode :: "'n \<Rightarrow> ir_mode option"               \<comment> \<open>\<open>get_type_mode(type)\<close>\<close>
  lf_is_Array_type :: "'n \<Rightarrow> bool"
  lf_type_size :: "'n calls \<Rightarrow> 'n \<Rightarrow> int"
  lf_entity_type :: "'n \<Rightarrow> 'n"
  lf_is_Member :: "'n \<Rightarrow> bool"
  lf_Member_entity :: "'n \<Rightarrow> 'n"
  lf_is_Sel :: "'n \<Rightarrow> bool"
  lf_points_to :: "'n \<Rightarrow> 'n"                           \<comment> \<open>\<open>get_pointer_points_to_type(type)\<close>\<close>
  lf_is_Block :: "'n \<Rightarrow> bool"
  lf_n_cfgpreds :: "'n calls \<Rightarrow> 'n \<Rightarrow> nat"            \<comment> \<open>\<open>get_Block_n_cfgpreds(block)\<close>\<close>
  lf_cfgpred :: "'n calls \<Rightarrow> 'n \<Rightarrow> nat \<Rightarrow> 'n"         \<comment> \<open>\<open>get_Block_cfgpred(block, i)\<close>\<close>
  lf_cfgpred_block :: "'n calls \<Rightarrow> 'n \<Rightarrow> nat \<Rightarrow> 'n option"
  lf_map_order :: "'n list \<Rightarrow> 'n list"                 \<comment> \<open>iteration over a \<open>std::unordered_map\<close>\<close>

section \<open>The state of the visitor\<close>

datatype 'n fvalue =
    VarValue nat ir_mode
  | FieldValue 'n
  | ArrayValue 'n 'n
  | RValue "'n option"

datatype method_ref = MainRef string string | MethodRef string string

record 'n firm_method =
  fm_graph :: 'n
  fm_entity :: 'n
  nParams :: nat
  fm_params :: "'n list"
  fm_localVars :: "var_decl list"

record 'n firm_class =
  fc_entity :: 'n
  fieldEntities :: "(field \<times> 'n) list"

text \<open>What the constructor creates\<close>

record 'n firm_globals =
  intType :: 'n
  sizeType :: 'n
  boolType :: 'n
  sysoutType :: 'n
  sysoutEntity :: 'n
  writeType :: 'n
  writeEntity :: 'n
  flushType :: 'n
  flushEntity :: 'n
  sysinType :: 'n
  sysinEntity :: 'n
  callocEntity :: 'n

record 'n fvisitor =
  printGraphs :: bool
  globals :: "'n firm_globals"
  currentClass :: "string option"
  currentProgram :: program
  currentMethod :: "method_ref option"
  classTable :: "string \<rightharpoonup> 'n firm_class"
  methodTable :: "method_ref \<rightharpoonup> 'n firm_method"
  nodeStack :: "'n fvalue list"
  reqBoolInfo :: "('n \<times> 'n) option list"
  firmGraphs :: "'n list"
  current_ir_graph :: "'n option"
  calls :: "'n calls"

datatype fv_error = FailedAssert | OutOfRangeThrown | NullPointer | Trapped | Uninitialised | NoFuel

type_synonym ('n, 'a) fv_m = "'n fvisitor \<Rightarrow> fv_error + 'a \<times> 'n fvisitor"

definition ret :: "'a \<Rightarrow> ('n, 'a) fv_m" where
  "ret x st = Inr (x, st)"

definition fails :: "fv_error \<Rightarrow> ('n, 'a) fv_m" where
  "fails e st = Inl e"

definition bnd :: "('n, 'a) fv_m \<Rightarrow> ('a \<Rightarrow> ('n, 'b) fv_m) \<Rightarrow> ('n, 'b) fv_m" where
  "bnd m f st = bindE (m st) (\<lambda>(x, st1). f x st1)"

definition seq :: "('n, 'a) fv_m \<Rightarrow> ('n, 'b) fv_m \<Rightarrow> ('n, 'b) fv_m" where
  "seq m k = bnd m (\<lambda>_. k)"

definition gets :: "('n fvisitor \<Rightarrow> 'a) \<Rightarrow> ('n, 'a) fv_m" where
  "gets f st = Inr (f st, st)"

definition modify :: "('n fvisitor \<Rightarrow> 'n fvisitor) \<Rightarrow> ('n, unit) fv_m" where
  "modify f st = Inr ((), f st)"

definition asserts :: "bool \<Rightarrow> ('n, unit) fv_m" where
  "asserts b = (if b then ret () else fails FailedAssert)"

definition the_or :: "fv_error \<Rightarrow> 'a option \<Rightarrow> ('n, 'a) fv_m" where
  "the_or e x = (case x of None \<Rightarrow> fails e | Some y \<Rightarrow> ret y)"

definition call :: "'n libfirm \<Rightarrow> 'n fop \<Rightarrow> ('n, 'n) fv_m" where
  "call lib op st = (let r = lf_run lib (calls st) op in Inr (r, st\<lparr>calls := (op, r) # calls st\<rparr>))"

text \<open>\<open>set_current_ir_graph\<close> also sets the global variable \<open>current_ir_graph\<close>.\<close>

definition setCurrentGraph :: "'n libfirm \<Rightarrow> 'n \<Rightarrow> ('n, unit) fv_m" where
  "setCurrentGraph lib g = seq (call lib (Set_current_ir_graph g)) (modify (\<lambda>st. st\<lparr>current_ir_graph := Some g\<rparr>))"

section \<open>Values\<close>

definition getModeForType :: "'n libfirm \<Rightarrow> 'n \<Rightarrow> ir_mode option" where
  "getModeForType lib t = (if lf_is_Array_type lib t then Some mode_P else lf_type_mode lib t)"

definition val_getMode :: "'n libfirm \<Rightarrow> 'n fvalue \<Rightarrow> ('n, ir_mode) fv_m" where
  "val_getMode lib v = (case v of
       VarValue i m \<Rightarrow> ret m
     | FieldValue n \<Rightarrow> the_or FailedAssert (getModeForType lib (lf_entity_type lib (lf_Member_entity lib n)))
     | ArrayValue n t \<Rightarrow> the_or NullPointer (getModeForType lib t)
     | RValue n \<Rightarrow> bnd (the_or NullPointer n) (\<lambda>n. ret (lf_irn_mode lib n)))"

definition loadFrom :: "'n libfirm \<Rightarrow> 'n \<Rightarrow> ir_mode \<Rightarrow> 'n \<Rightarrow> ('n, 'n) fv_m" where
  "loadFrom lib ptr m t =
     bnd (call lib Get_store) (\<lambda>s.
     bnd (call lib (New_Load s ptr m t)) (\<lambda>ld.
     bnd (call lib (New_Proj ld m PN_Load_res)) (\<lambda>res.
     bnd (call lib (New_Proj ld mode_M PN_Load_M)) (\<lambda>pm.
     seq (call lib (Set_store pm)) (ret res)))))"

text \<open>In \<open>ArrayValue::load\<close> the two projections are created in the other order.\<close>

definition loadElement :: "'n libfirm \<Rightarrow> 'n \<Rightarrow> ir_mode \<Rightarrow> 'n \<Rightarrow> ('n, 'n) fv_m" where
  "loadElement lib ptr m t =
     bnd (call lib Get_store) (\<lambda>s.
     bnd (call lib (New_Load s ptr m t)) (\<lambda>ld.
     bnd (call lib (New_Proj ld mode_M PN_Load_M)) (\<lambda>pm.
     bnd (call lib (New_Proj ld m PN_Load_res)) (\<lambda>res.
     seq (call lib (Set_store pm)) (ret res)))))"

definition val_load :: "'n libfirm \<Rightarrow> 'n fvalue \<Rightarrow> ('n, 'n option) fv_m" where
  "val_load lib v = (case v of
       VarValue i m \<Rightarrow> bnd (call lib (Get_value i m)) (\<lambda>n. ret (Some n))
     | FieldValue n \<Rightarrow>
         bnd (val_getMode lib v) (\<lambda>m.
         bnd (loadFrom lib n m (lf_entity_type lib (lf_Member_entity lib n))) (\<lambda>r. ret (Some r)))
     | ArrayValue n t \<Rightarrow>
         bnd (val_getMode lib v) (\<lambda>m. bnd (loadElement lib n m t) (\<lambda>r. ret (Some r)))
     | RValue n \<Rightarrow> ret n)"

definition storeTo :: "'n libfirm \<Rightarrow> 'n \<Rightarrow> 'n \<Rightarrow> 'n \<Rightarrow> ('n, unit) fv_m" where
  "storeTo lib ptr v t =
     bnd (call lib Get_store) (\<lambda>s.
     bnd (call lib (New_Store s ptr v t)) (\<lambda>st.
     bnd (call lib (New_Proj st mode_M PN_Load_M)) (\<lambda>pm.
     seq (call lib (Set_store pm)) (ret ()))))"

definition val_store :: "'n libfirm \<Rightarrow> 'n fvalue \<Rightarrow> 'n \<Rightarrow> ('n, unit) fv_m" where
  "val_store lib d v = (case d of
       VarValue i m \<Rightarrow> seq (call lib (Set_value i v)) (ret ())
     | FieldValue n \<Rightarrow> storeTo lib n v (lf_entity_type lib (lf_Member_entity lib n))
     | ArrayValue n t \<Rightarrow> storeTo lib n v t
     | RValue n \<Rightarrow> fails Trapped)"

section \<open>The two stacks\<close>

definition pushNode :: "'n fvalue \<Rightarrow> ('n, unit) fv_m" where
  "pushNode v = modify (\<lambda>st. st\<lparr>nodeStack := v # nodeStack st\<rparr>)"

definition popNode :: "('n, 'n fvalue) fv_m" where
  "popNode st = (case nodeStack st of [] \<Rightarrow> Inl FailedAssert | v # vs \<Rightarrow> Inr (v, st\<lparr>nodeStack := vs\<rparr>))"

text \<open>\<open>popNode()->load()\<close> where a node is needed\<close>

definition popLoad :: "'n libfirm \<Rightarrow> ('n, 'n) fv_m" where
  "popLoad lib = bnd popNode (\<lambda>v. bnd (val_load lib v) (the_or NullPointer))"

text \<open>\<open>auto node = popNode(); assert(node->load() == nullptr)\<close>\<close>

definition popNull :: "'n libfirm \<Rightarrow> ('n, unit) fv_m" where
  "popNull lib = bnd popNode (\<lambda>v. bnd (val_load lib v) (\<lambda>n. asserts (n = None)))"

definition pushRequiresNonBool :: "('n, unit) fv_m" where
  "pushRequiresNonBool = modify (\<lambda>st. st\<lparr>reqBoolInfo := None # reqBoolInfo st\<rparr>)"

definition pushRequiresBool :: "'n \<Rightarrow> 'n \<Rightarrow> ('n, unit) fv_m" where
  "pushRequiresBool t f = modify (\<lambda>st. st\<lparr>reqBoolInfo := Some (t, f) # reqBoolInfo st\<rparr>)"

definition popRequiresBoolInfo :: "('n, unit) fv_m" where
  "popRequiresBoolInfo st =
     (case reqBoolInfo st of [] \<Rightarrow> Inl FailedAssert | r # rs \<Rightarrow> Inr ((), st\<lparr>reqBoolInfo := rs\<rparr>))"

definition requiresBool :: "('n, bool) fv_m" where
  "requiresBool st = (case reqBoolInfo st of [] \<Rightarrow> Inl FailedAssert | r # rs \<Rightarrow> Inr (r \<noteq> None, st))"

text \<open>\<open>currentTrueTarget()\<close> and \<open>currentFalseTarget()\<close>\<close>

definition currentTargets :: "('n, 'n \<times> 'n) fv_m" where
  "currentTargets st = (case reqBoolInfo st of Some tf # rs \<Rightarrow> Inr (tf, st) | _ \<Rightarrow> Inl FailedAssert)"

section \<open>Types\<close>

function getIrType :: "'n libfirm \<Rightarrow> sem_type \<Rightarrow> ('n, 'n) fv_m" where
  "getIrType lib t = (case kind t of
       TK_Int \<Rightarrow> gets (\<lambda>st. intType (globals st))
     | TK_Bool \<Rightarrow> gets (\<lambda>st. boolType (globals st))
     | TK_Array \<Rightarrow> (case getArrayInnerType t of
           None \<Rightarrow> fails FailedAssert
         | Some inner \<Rightarrow>
             bnd (getIrType lib inner) (\<lambda>e.
             bnd (call lib (New_type_array e 0)) (\<lambda>a. call lib (New_type_pointer a))))
     | TK_Class \<Rightarrow>
         bnd (gets (\<lambda>st. findClassByName (currentProgram st) (tname t))) (\<lambda>k.
         bnd (the_or FailedAssert k) (\<lambda>k.
         bnd (gets (\<lambda>st. classTable st (c_name k))) (\<lambda>c.
         bnd (the_or OutOfRangeThrown c) (\<lambda>c. call lib (New_type_pointer (lf_entity_type lib (fc_entity c)))))))
     | _ \<Rightarrow> fails FailedAssert)"
  by pat_completeness auto
termination
  by (relation "measure (\<lambda>(lib, t). nat (dimension t))")
    (auto simp: getArrayInnerType_def Let_def split: if_splits)

definition getIrType_ast :: "'n libfirm \<Rightarrow> ast_type \<Rightarrow> ('n, 'n) fv_m" where
  "getIrType_ast lib t = bnd (the_or FailedAssert (getSemaType t)) (getIrType lib)"

definition getIrMode :: "sem_type \<Rightarrow> ('n, ir_mode) fv_m" where
  "getIrMode t = (case kind t of
       TK_Int \<Rightarrow> ret mode_Is
     | TK_Bool \<Rightarrow> ret mode_Bu
     | TK_Array \<Rightarrow> ret mode_P
     | TK_Class \<Rightarrow> ret mode_P
     | _ \<Rightarrow> fails FailedAssert)"

definition getIrMode_ast :: "ast_type \<Rightarrow> ('n, ir_mode) fv_m" where
  "getIrMode_ast t = bnd (the_or FailedAssert (getSemaType t)) getIrMode"

section \<open>Control flow and booleans\<close>

definition controlFlowToBoolean :: "'n libfirm \<Rightarrow> 'n \<Rightarrow> 'n \<Rightarrow> ('n, 'n) fv_m" where
  "controlFlowToBoolean lib falseTarget trueTarget =
     bnd (call lib (New_Block [falseTarget, trueTarget])) (\<lambda>exitBlock.
     seq (call lib (Set_cur_block exitBlock))
    (bnd (call lib (New_Const_long mode_Bu 0)) (\<lambda>falseNode.
     bnd (call lib (New_Const_long mode_Bu 1)) (\<lambda>trueNode.
     call lib (New_Phi [falseNode, trueNode] mode_Bu)))))"

definition condToBoolean :: "'n libfirm \<Rightarrow> 'n \<Rightarrow> ('n, 'n) fv_m" where
  "condToBoolean lib cond =
     bnd (call lib (New_Proj cond mode_X PN_Cond_false)) (\<lambda>projFalse.
     bnd (call lib (New_Proj cond mode_X PN_Cond_true)) (\<lambda>projTrue.
     controlFlowToBoolean lib projFalse projTrue))"

definition booleanToControlFlow :: "'n libfirm \<Rightarrow> 'n \<Rightarrow> 'n \<Rightarrow> 'n \<Rightarrow> ('n, unit) fv_m" where
  "booleanToControlFlow lib boolean trueBlock falseBlock =
     seq (asserts (lf_irn_mode lib boolean = mode_Bu))
    (bnd (call lib (New_Const_long mode_Bu 0)) (\<lambda>z.
     bnd (call lib (New_Cmp boolean z Rel_less_greater)) (\<lambda>cmp.
     bnd (call lib (New_Cond cmp)) (\<lambda>cond.
     bnd (call lib (New_Proj cond mode_X PN_Cond_true)) (\<lambda>projTrue.
     bnd (call lib (New_Proj cond mode_X PN_Cond_false)) (\<lambda>projFalse.
     seq (call lib (Add_immBlock_pred trueBlock projTrue))
    (seq (call lib (Add_immBlock_pred falseBlock projFalse))
     (ret ()))))))))"

text \<open>\<open>mature_immBlock(get_cur_block())\<close>\<close>

definition matureCurrent :: "'n libfirm \<Rightarrow> ('n, unit) fv_m" where
  "matureCurrent lib =
     bnd (gets (\<lambda>st. lf_cur_block lib (calls st))) (\<lambda>b. seq (call lib (Mature_immBlock b)) (ret ()))"

text \<open>A jump from the current block\<close>

definition jumpTo :: "'n libfirm \<Rightarrow> 'n \<Rightarrow> ('n, unit) fv_m" where
  "jumpTo lib b = bnd (call lib New_Jmp) (\<lambda>j. seq (call lib (Add_immBlock_pred b j)) (ret ()))"

text \<open>The call of a function with the update of the store, and its result\<close>

definition makeCall :: "'n libfirm \<Rightarrow> 'n \<Rightarrow> 'n list \<Rightarrow> 'n \<Rightarrow> ('n, 'n) fv_m" where
  "makeCall lib entity args ty =
     bnd (call lib Get_store) (\<lambda>s.
     bnd (call lib (New_Address entity)) (\<lambda>callee.
     bnd (call lib (New_Call s callee args ty)) (\<lambda>callNode.
     bnd (call lib (New_Proj callNode mode_M PN_Call_M)) (\<lambda>newStore.
     seq (call lib (Set_store newStore)) (ret callNode)))))"

definition callResult :: "'n libfirm \<Rightarrow> 'n \<Rightarrow> ir_mode \<Rightarrow> ('n, 'n) fv_m" where
  "callResult lib callNode m =
     bnd (call lib (New_Proj callNode mode_T PN_Call_T_result)) (\<lambda>tuple. call lib (New_Proj tuple m (PN_number 0)))"

end
