(* ===== verification/Graph_Build.thy ===== *)
theory Graph_Build
  imports Firm_Library
begin

text \<open>
  The construction of graphs (\<open>firm_visitor.cpp\<close>): one function for every visit function and for the helpers
  that they call, up to \<open>visitProgram\<close> and the constructor.  A null pointer where a node is needed is an
  error at the place where it is loaded.  A pointer to a field is told apart from the others of its class by the
  name, as pointers to methods and classes are.  The loop that collects the blocks of a graph takes fuel.
\<close>

section \<open>Expressions\<close>

text \<open>\<open>methods.at(currentMethod)\<close> and \<open>params[0]\<close>\<close>

definition currentFirmMethod :: "('n, 'n firm_method) fv_m" where
  "currentFirmMethod =
     bnd (gets (\<lambda>st. Option.bind (currentMethod st) (methodTable st))) (the_or OutOfRangeThrown)"

definition thisPointer :: "('n, 'n) fv_m" where
  "thisPointer =
     bnd currentFirmMethod (\<lambda>m. case fm_params m of [] \<Rightarrow> fails NullPointer | p # ps \<Rightarrow> ret p)"

definition pushNull :: "('n, unit) fv_m" where
  "pushNull = pushNode (RValue None)"

definition pushIrNode :: "'n \<Rightarrow> ('n, unit) fv_m" where
  "pushIrNode n = pushNode (RValue (Some n))"

definition visitBoolLiteral :: "'n libfirm \<Rightarrow> bool \<Rightarrow> ('n, unit) fv_m" where
  "visitBoolLiteral lib b =
     bnd requiresBool (\<lambda>rb.
     if rb then
       bnd currentTargets (\<lambda>(t, f).
       if b then
         seq (jumpTo lib t)
        (bnd (call lib (New_Bad mode_X)) (\<lambda>bad. seq (call lib (Add_immBlock_pred f bad)) pushNull))
       else
         bnd (call lib (New_Bad mode_X)) (\<lambda>bad.
         seq (call lib (Add_immBlock_pred t bad)) (seq (jumpTo lib f) pushNull)))
     else bnd (call lib (New_Const_long mode_Bu (if b then 1 else 0))) pushIrNode)"

text \<open>The part of \<open>visitVarRef\<close> that pushes the variable\<close>

definition pushVariable :: "'n libfirm \<Rightarrow> sym_def option \<Rightarrow> ('n, unit) fv_m" where
  "pushVariable lib d = (case d of
       Some (Def_Parameter p) \<Rightarrow>
         bnd currentFirmMethod (\<lambda>m.
         seq (asserts (0 \<le> p_idx p \<and> p_idx p < int (nParams m)))
        (bnd (getIrMode_ast (p_type p)) (\<lambda>md. pushNode (VarValue (nat (p_idx p)) md))))
     | Some (Def_VarDecl v) \<Rightarrow>
         bnd currentFirmMethod (\<lambda>m.
         bnd (getIrMode_ast (vd_type v)) (\<lambda>md. pushNode (VarValue (nat (int (nParams m) + vd_idx v)) md)))
     | Some (Def_Field f) \<Rightarrow>
         bnd (gets (\<lambda>st. Option.bind (currentClass st) (classTable st))) (\<lambda>c.
         bnd (the_or OutOfRangeThrown c) (\<lambda>c.
         case find (\<lambda>fe. f_name (fst fe) = f_name f) (fieldEntities c) of
           None \<Rightarrow> ret ()
         | Some fe \<Rightarrow>
             bnd thisPointer (\<lambda>this.
             bnd (call lib (New_Member this (snd fe))) (\<lambda>member.
             seq (asserts (lf_is_Member lib member)) (pushNode (FieldValue member))))))
     | _ \<Rightarrow> fails FailedAssert)"

definition visitVarRef :: "'n libfirm \<Rightarrow> sym_def option \<Rightarrow> ('n, unit) fv_m" where
  "visitVarRef lib d =
     (if d = Some Def_DummySystem then ret ()
      else
        seq (pushVariable lib d)
       (bnd popNode (\<lambda>out.
        bnd requiresBool (\<lambda>rb.
        if rb then
          bnd (val_getMode lib out) (\<lambda>m.
          if m = mode_Bu then
            bnd (bnd (val_load lib out) (the_or NullPointer)) (\<lambda>n.
            bnd currentTargets (\<lambda>(t, f). seq (booleanToControlFlow lib n t f) pushNull))
          else pushNode out)
        else pushNode out))))"

text \<open>The end of a visit that leaves a boolean value behind\<close>

definition pushBoolean :: "'n libfirm \<Rightarrow> 'n \<Rightarrow> ('n, unit) fv_m" where
  "pushBoolean lib n =
     bnd requiresBool (\<lambda>rb.
     if rb then bnd currentTargets (\<lambda>(t, f). seq (booleanToControlFlow lib n t f) pushNull)
     else pushIrNode n)"

definition newObject :: "'n libfirm \<Rightarrow> 'n list \<Rightarrow> ('n, unit) fv_m" where
  "newObject lib args =
     bnd (gets (\<lambda>st. callocEntity (globals st))) (\<lambda>calloc.
     bnd (makeCall lib calloc args (lf_entity_type lib calloc)) (\<lambda>callNode.
     bnd (callResult lib callNode mode_P) pushIrNode))"

definition sysCall :: "'n libfirm \<Rightarrow> ('n firm_globals \<Rightarrow> 'n) \<Rightarrow> 'n list \<Rightarrow> ('n firm_globals \<Rightarrow> 'n) \<Rightarrow> ('n, 'n) fv_m" where
  "sysCall lib entity args ty = bnd (gets globals) (\<lambda>g. makeCall lib (entity g) args (ty g))"

definition visitSysoutCall :: "'n libfirm \<Rightarrow> string \<Rightarrow> ('n, unit) fv_m" where
  "visitSysoutCall lib n =
     (if n = ''println'' then
        bnd (popLoad lib) (\<lambda>a. seq (sysCall lib sysoutEntity [a] sysoutType) pushNull)
      else if n = ''write'' then
        bnd (popLoad lib) (\<lambda>a. seq (sysCall lib writeEntity [a] writeType) pushNull)
      else if n = ''flush'' then seq (sysCall lib flushEntity [] flushType) pushNull
      else if n = ''read'' then
        bnd (sysCall lib sysinEntity [] sysinType) (\<lambda>callNode.
        bnd (callResult lib callNode mode_Is) pushIrNode)
      else fails FailedAssert)"

definition compareNodes :: "'n libfirm \<Rightarrow> 'n \<Rightarrow> 'n \<Rightarrow> ir_relation \<Rightarrow> ('n, 'n \<times> bool) fv_m" where
  "compareNodes lib l r rel =
     bnd (call lib (New_Cmp l r rel)) (\<lambda>cmp. bnd (call lib (New_Cond cmp)) (\<lambda>cond. ret (cond, True)))"

definition arithNode :: "'n libfirm \<Rightarrow> 'n fop \<Rightarrow> ('n, 'n \<times> bool) fv_m" where
  "arithNode lib op = bnd (call lib op) (\<lambda>n. ret (n, False))"

definition divNode :: "'n libfirm \<Rightarrow> ('n \<Rightarrow> 'n \<Rightarrow> 'n \<Rightarrow> 'n fop) \<Rightarrow> proj_num \<Rightarrow> proj_num \<Rightarrow> 'n \<Rightarrow> 'n
    \<Rightarrow> ('n, 'n \<times> bool) fv_m" where
  "divNode lib op pnM pnRes l r =
     bnd (call lib Get_store) (\<lambda>s.
     bnd (call lib (New_Conv l mode_Ls)) (\<lambda>cl.
     bnd (call lib (New_Conv r mode_Ls)) (\<lambda>cr.
     bnd (call lib (op s cl cr)) (\<lambda>d.
     bnd (call lib (New_Proj d mode_M pnM)) (\<lambda>pm.
     seq (call lib (Set_store pm))
    (bnd (call lib (New_Proj d mode_Ls pnRes)) (\<lambda>res.
     arithNode lib (New_Conv res mode_Is))))))))"

text \<open>The inner \<open>switch\<close>: the node and \<open>is_boolean\<close>\<close>

definition binaryNode :: "'n libfirm \<Rightarrow> binop \<Rightarrow> 'n \<Rightarrow> 'n \<Rightarrow> ('n, 'n \<times> bool) fv_m" where
  "binaryNode lib bop l r = (case bop of
       Op_Equals \<Rightarrow> compareNodes lib l r Rel_equal
     | Op_NotEquals \<Rightarrow> compareNodes lib l r Rel_less_greater
     | Op_Less \<Rightarrow> compareNodes lib l r Rel_less
     | Op_LessEquals \<Rightarrow> compareNodes lib l r Rel_less_equal
     | Op_Greater \<Rightarrow> compareNodes lib l r Rel_greater
     | Op_GreaterEquals \<Rightarrow> compareNodes lib l r Rel_greater_equal
     | Op_Plus \<Rightarrow> arithNode lib (New_Add l r)
     | Op_Minus \<Rightarrow> arithNode lib (New_Sub l r)
     | Op_Mul \<Rightarrow> arithNode lib (New_Mul l r)
     | Op_Div \<Rightarrow> divNode lib New_DivRL PN_Div_M PN_Div_res l r
     | Op_Mod \<Rightarrow> divNode lib New_Mod PN_Mod_M PN_Mod_res l r
     | _ \<Rightarrow> fails Trapped)"

definition finishBinary :: "'n libfirm \<Rightarrow> 'n \<times> bool \<Rightarrow> ('n, unit) fv_m" where
  "finishBinary lib = (\<lambda>(outNode, is_boolean).
     if is_boolean then
       bnd requiresBool (\<lambda>rb.
       if rb then
         bnd (call lib (New_Proj outNode mode_X PN_Cond_true)) (\<lambda>projTrue.
         bnd (call lib (New_Proj outNode mode_X PN_Cond_false)) (\<lambda>projFalse.
         bnd currentTargets (\<lambda>(t, f).
         seq (call lib (Add_immBlock_pred t projTrue))
        (seq (call lib (Add_immBlock_pred f projFalse)) pushNull))))
       else bnd (condToBoolean lib outNode) pushIrNode)
     else pushBoolean lib outNode)"

text \<open>The exchange of the two predecessors in \<open>visitUnaryExpression\<close>\<close>

definition swapPreds :: "'n libfirm \<Rightarrow> 'n \<Rightarrow> 'n \<Rightarrow> ('n, unit) fv_m" where
  "swapPreds lib trueTarget falseTarget =
     bnd (gets calls) (\<lambda>h.
     if trueTarget = falseTarget \<and> lf_n_cfgpreds lib h trueTarget = 2 then
       let trueProj = lf_cfgpred lib h trueTarget 0; falseProj = lf_cfgpred lib h trueTarget 1 in
       seq (call lib (Set_Block_cfgpred trueTarget 0 falseProj))
      (seq (call lib (Set_Block_cfgpred trueTarget 1 trueProj)) (ret ()))
     else ret ())"

definition notPhi :: "'n libfirm \<Rightarrow> 'n \<Rightarrow> ('n, unit) fv_m" where
  "notPhi lib target =
     seq (matureCurrent lib)
    (seq (call lib (Set_cur_block target))
    (bnd (call lib (New_Const_long mode_Bu 1)) (\<lambda>trueNode.
     bnd (call lib (New_Const_long mode_Bu 0)) (\<lambda>falseNode.
     bnd (call lib (New_Phi [trueNode, falseNode] mode_Bu)) (\<lambda>phi.
     seq (pushIrNode phi) (matureCurrent lib))))))"

text \<open>The code around the two operands of \<open>&&\<close> and \<open>||\<close>\<close>

definition logicalTargets :: "'n libfirm \<Rightarrow> ('n, 'n \<times> 'n) fv_m" where
  "logicalTargets lib =
     bnd requiresBool (\<lambda>rb.
     if rb then currentTargets
     else bnd (call lib New_immBlock) (\<lambda>t. bnd (call lib New_immBlock) (\<lambda>f. ret (t, f))))"

definition finishLogical :: "'n libfirm \<Rightarrow> 'n \<Rightarrow> 'n \<Rightarrow> ('n, unit) fv_m" where
  "finishLogical lib trueTarget falseTarget =
     bnd requiresBool (\<lambda>rb.
     if rb then pushNull
     else
       seq (call lib (Set_cur_block falseTarget))
      (bnd (call lib New_Jmp) (\<lambda>falseJmp.
       seq (call lib (Mature_immBlock falseTarget))
      (seq (call lib (Set_cur_block trueTarget))
      (bnd (call lib New_Jmp) (\<lambda>trueJmp.
       seq (call lib (Mature_immBlock trueTarget))
      (bnd (controlFlowToBoolean lib falseJmp trueJmp) pushIrNode)))))))"

definition logicalRight :: "'n libfirm \<Rightarrow> 'n \<Rightarrow> 'n \<Rightarrow> 'n \<Rightarrow> ('n, unit) fv_m \<Rightarrow> ('n, unit) fv_m" where
  "logicalRight lib rightBlock tt ft right =
     seq (call lib (Set_cur_block rightBlock))
    (seq (pushRequiresBool tt ft) (seq right (seq (popNull lib) (seq popRequiresBoolInfo
    (seq (call lib (Mature_immBlock rightBlock))
     (finishLogical lib tt ft))))))"

definition visitLogical :: "'n libfirm \<Rightarrow> bool \<Rightarrow> ('n, unit) fv_m \<Rightarrow> ('n, unit) fv_m \<Rightarrow> ('n, unit) fv_m" where
  "visitLogical lib isAnd left right =
     bnd (call lib New_immBlock) (\<lambda>rightBlock.
     bnd (logicalTargets lib) (\<lambda>(tt, ft).
     seq (if isAnd then pushRequiresBool rightBlock ft else pushRequiresBool tt rightBlock)
    (seq left (seq (popNull lib) (seq popRequiresBoolInfo
    (seq (matureCurrent lib) (logicalRight lib rightBlock tt ft right)))))))"

fun refersTo :: "field_ref option \<Rightarrow> field \<Rightarrow> bool" where
  "refersTo (Some (FR_Field c f)) f' \<longleftrightarrow> f_name f' = f_name f"
| "refersTo d f' \<longleftrightarrow> False"

fun visitExpr :: "'n libfirm \<Rightarrow> expr \<Rightarrow> ('n, unit) fv_m"
  and visitArgs :: "'n libfirm \<Rightarrow> expr list \<Rightarrow> ('n, 'n list) fv_m"
  and visitSysoutArgs :: "'n libfirm \<Rightarrow> expr list \<Rightarrow> ('n, unit) fv_m" where
  "visitExpr lib (IntLiteral l t v) = bnd (call lib (New_Const_long mode_Is v)) pushIrNode"
| "visitExpr lib (BoolLiteral l t b) = visitBoolLiteral lib b"
| "visitExpr lib (NullLiteral l t) = bnd (call lib (New_Const_long mode_P 0)) pushIrNode"
| "visitExpr lib (ThisLiteral l t) = bnd thisPointer pushIrNode"
| "visitExpr lib (VarRef l t n d) = visitVarRef lib d"
| "visitExpr lib (NewObjectExpression l t n d) =
     bnd (gets (\<lambda>st. Option.bind d (classTable st))) (\<lambda>c.
     bnd (the_or OutOfRangeThrown c) (\<lambda>c.
     bnd (call lib (New_Const_long mode_Ls 1)) (\<lambda>one.
     bnd (call lib (New_Size mode_Ls (lf_entity_type lib (fc_entity c)))) (\<lambda>sz. newObject lib [one, sz]))))"
| "visitExpr lib (NewArrayExpression l t ty e) =
     seq pushRequiresNonBool (seq (visitExpr lib e) (seq popRequiresBoolInfo
    (bnd (the_or FailedAssert (Option.bind (getSemaType ty) getArrayInnerType)) (\<lambda>inner.
     bnd (getIrType lib inner) (\<lambda>elementType.
     bnd (popLoad lib) (\<lambda>sz.
     bnd (call lib (New_Conv sz mode_Ls)) (\<lambda>cnt.
     bnd (call lib (New_Size mode_Ls elementType)) (\<lambda>elemSize. newObject lib [cnt, elemSize]))))))))"
| "visitExpr lib (ArrayAccess l t a i) =
     seq pushRequiresNonBool (seq (visitExpr lib a)
    (bnd (popLoad lib) (\<lambda>arrayAddr.
     seq (asserts (lf_irn_mode lib arrayAddr = mode_P))
    (seq (visitExpr lib i)
    (bnd (popLoad lib) (\<lambda>index.
     bnd (getIrType lib (targetType a)) (\<lambda>ptrType.
     bnd (call lib (New_Sel arrayAddr index (lf_points_to lib ptrType))) (\<lambda>sel.
     seq (asserts (lf_is_Sel lib sel))
    (seq popRequiresBoolInfo
    (bnd (the_or FailedAssert (getArrayInnerType (targetType a))) (\<lambda>inner.
     bnd (getIrType lib inner) (\<lambda>elementType.
     bnd requiresBool (\<lambda>rb.
     if rb then
       bnd (bnd (val_load lib (ArrayValue sel elementType)) (the_or NullPointer)) (\<lambda>n. pushBoolean lib n)
     else pushNode (ArrayValue sel elementType))))))))))))))"
| "visitExpr lib (FieldAccess l t e n d) =
     (if d = Some FR_SystemOut \<or> d = Some FR_SystemIn then ret ()
      else
        bnd (gets (\<lambda>st. Option.bind (findClassByName (currentProgram st) (tname (targetType e)))
               (\<lambda>k. classTable st (c_name k)))) (\<lambda>c.
        bnd (the_or OutOfRangeThrown c) (\<lambda>c.
        seq pushRequiresNonBool (seq (visitExpr lib e) (seq popRequiresBoolInfo
       (bnd (popLoad lib) (\<lambda>leftNode.
        seq (asserts (lf_irn_mode lib leftNode = mode_P))
       (bnd (the_or FailedAssert (find (\<lambda>fe. refersTo d (fst fe)) (fieldEntities c))) (\<lambda>fe.
        bnd (call lib (New_Member leftNode (snd fe))) (\<lambda>member.
        bnd requiresBool (\<lambda>rb.
        if rb then bnd (bnd (val_load lib (FieldValue member)) (the_or NullPointer)) (\<lambda>n. pushBoolean lib n)
        else pushNode (FieldValue member)))))))))))) "
| "visitExpr lib (MethodInvocation l t e n args d sys) =
     (if sys then seq (visitExpr lib e) (seq (visitSysoutArgs lib args) (visitSysoutCall lib n))
      else
        seq (asserts (isClass (targetType e)))
       (bnd (gets (\<lambda>st. Option.bind (findClassByName (currentProgram st) (tname (targetType e)))
               (\<lambda>k. classTable st (c_name k)))) (\<lambda>c.
        seq (the_or OutOfRangeThrown c)
       (bnd (gets (\<lambda>st. Option.bind d (\<lambda>(cn, mn). methodTable st (MethodRef cn mn)))) (\<lambda>m.
        bnd (the_or OutOfRangeThrown m) (\<lambda>m.
        seq pushRequiresNonBool
       (seq (visitExpr lib e)
       (bnd (popLoad lib) (\<lambda>this.
        bnd (visitArgs lib args) (\<lambda>as.
        seq popRequiresBoolInfo
       (bnd (makeCall lib (fm_entity m) (this # as) (lf_entity_type lib (fm_entity m))) (\<lambda>callNode.
        if isVoid t then pushNull
        else
          bnd (getIrMode t) (\<lambda>md. bnd (callResult lib callNode md) (\<lambda>result. pushBoolean lib result))))))))))))))"
| "visitExpr lib (UnaryExpression l t e uop) = (case uop of
       UOp_Not \<Rightarrow>
         bnd requiresBool (\<lambda>rb.
         if rb then
           bnd currentTargets (\<lambda>(tt, ft).
           seq (pushRequiresBool ft tt) (seq (visitExpr lib e) (seq (popNull lib) (seq popRequiresBoolInfo
          (seq (swapPreds lib tt ft) pushNull)))))
         else
           seq (matureCurrent lib)
          (bnd (call lib New_immBlock) (\<lambda>target.
           seq (pushRequiresBool target target) (seq (visitExpr lib e) (seq (popNull lib) (seq popRequiresBoolInfo
          (seq (swapPreds lib target target) (notPhi lib target))))))))
     | UOp_Neg \<Rightarrow> seq (visitExpr lib e) (bnd (popLoad lib) (\<lambda>n. bnd (call lib (New_Minus n)) pushIrNode))
     | UOp_None \<Rightarrow> fails FailedAssert)"
| "visitExpr lib (BinaryExpression l t a b bop) =
     (if bop = Op_Or \<or> bop = Op_And then
        visitLogical lib (bop = Op_And) (visitExpr lib a) (visitExpr lib b)
      else if bop = Op_Assign then
        seq pushRequiresNonBool (seq (visitExpr lib a)
       (bnd popNode (\<lambda>leftNode.
        seq (visitExpr lib b)
       (bnd (popLoad lib) (\<lambda>rightVal.
        seq popRequiresBoolInfo
       (seq (val_store lib leftNode rightVal) (finishBinary lib (rightVal, False))))))))
      else
        seq pushRequiresNonBool (seq (visitExpr lib a)
       (bnd (popLoad lib) (\<lambda>leftVal.
        seq (visitExpr lib b)
       (bnd (popLoad lib) (\<lambda>rightVal.
        seq popRequiresBoolInfo
       (bnd (binaryNode lib bop leftVal rightVal) (finishBinary lib))))))))"
| "visitArgs lib [] = ret []"
| "visitArgs lib (a # args) =
     seq (visitExpr lib a) (bnd (popLoad lib) (\<lambda>n. bnd (visitArgs lib args) (\<lambda>ns. ret (n # ns))))"
| "visitSysoutArgs lib [] = ret ()"
| "visitSysoutArgs lib (a # args) = seq (visitExpr lib a) (visitSysoutArgs lib args)"

section \<open>Statements\<close>

text \<open>\<open>current_ir_graph\<close>\<close>

definition currentGraph :: "('n, 'n) fv_m" where
  "currentGraph = bnd (gets current_ir_graph) (the_or NullPointer)"

text \<open>A return node as a predecessor of the end block; the results are evaluated before the store.\<close>

definition addReturn :: "'n libfirm \<Rightarrow> 'n \<Rightarrow> 'n list \<Rightarrow> ('n, unit) fv_m" where
  "addReturn lib graph results =
     bnd (call lib Get_store) (\<lambda>s.
     bnd (call lib (New_Return s results)) (\<lambda>r.
     seq (call lib (Add_immBlock_pred (lf_end_block lib graph) r)) (ret ())))"

definition visitReturn :: "'n libfirm \<Rightarrow> expr option \<Rightarrow> ('n, unit) fv_m" where
  "visitReturn lib e =
     bnd currentGraph (\<lambda>g.
     case e of
       Some e \<Rightarrow>
         seq pushRequiresNonBool (seq (visitExpr lib e) (seq popRequiresBoolInfo
        (bnd (popLoad lib) (\<lambda>n. addReturn lib g [n]))))
     | None \<Rightarrow>
         bnd (gets currentMethod) (\<lambda>m.
         case m of
           Some (MainRef c n) \<Rightarrow> bnd (call lib (New_Const_long mode_Is 0)) (\<lambda>z. addReturn lib g [z])
         | _ \<Rightarrow> addReturn lib g []))"

definition visitVariableDeclaration :: "'n libfirm \<Rightarrow> expr option \<Rightarrow> int option \<Rightarrow> ('n, unit) fv_m" where
  "visitVariableDeclaration lib e idx = (case e of
       None \<Rightarrow> ret ()
     | Some e \<Rightarrow>
         seq (visitExpr lib e)
        (bnd currentFirmMethod (\<lambda>m.
         bnd (the_or Uninitialised idx) (\<lambda>i.
         bnd currentGraph (\<lambda>g.
         bnd (popLoad lib) (\<lambda>n.
         seq (call lib (Set_r_value g (nat (int (nParams m) + i)) n)) (ret ())))))))"

text \<open>A condition with the blocks for its two outcomes\<close>

definition visitCondition :: "'n libfirm \<Rightarrow> expr \<Rightarrow> 'n \<Rightarrow> 'n \<Rightarrow> ('n, unit) fv_m" where
  "visitCondition lib e t f =
     seq (pushRequiresBool t f) (seq (visitExpr lib e) (seq (popNull lib) popRequiresBoolInfo))"

definition matureUnless :: "'n libfirm \<Rightarrow> 'n \<Rightarrow> 'n \<Rightarrow> ('n, unit) fv_m" where
  "matureUnless lib b other = (if b \<noteq> other then seq (call lib (Mature_immBlock b)) (ret ()) else ret ())"

definition targetBlock :: "'n libfirm \<Rightarrow> stmt option \<Rightarrow> 'n \<Rightarrow> ('n, 'n) fv_m" where
  "targetBlock lib s afterBlock = (if s = None then ret afterBlock else call lib New_immBlock)"

fun visitStmt :: "'n libfirm \<Rightarrow> stmt \<Rightarrow> ('n, unit) fv_m"
  and visitStmts :: "'n libfirm \<Rightarrow> stmt list \<Rightarrow> ('n, unit) fv_m"
  and visitBranch :: "'n libfirm \<Rightarrow> 'n \<Rightarrow> 'n \<Rightarrow> stmt option \<Rightarrow> ('n, unit) fv_m"
  and visitBody :: "'n libfirm \<Rightarrow> stmt option \<Rightarrow> ('n, unit) fv_m" where
  "visitStmt lib (Block l c ss lonely) = visitStmts lib ss"
| "visitStmt lib (ExpressionStatement l c e) = seq (visitExpr lib e) (seq popNode (ret ()))"
| "visitStmt lib (VariableDeclaration l c ty n e idx) = visitVariableDeclaration lib e idx"
| "visitStmt lib (ReturnStatement l c e) = visitReturn lib e"
| "visitStmt lib (IfStatement l c e thenStmt elseStmt) =
     bnd (call lib New_immBlock) (\<lambda>afterBlock.
     bnd (targetBlock lib thenStmt afterBlock) (\<lambda>thenBlock.
     bnd (targetBlock lib elseStmt afterBlock) (\<lambda>elseBlock.
     seq (visitCondition lib e thenBlock elseBlock)
    (seq (matureUnless lib thenBlock afterBlock)
    (seq (matureUnless lib elseBlock afterBlock)
    (seq (visitBranch lib thenBlock afterBlock thenStmt)
    (seq (visitBranch lib elseBlock afterBlock elseStmt)
    (seq (call lib (Mature_immBlock afterBlock))
    (seq (call lib (Set_cur_block afterBlock)) (ret ()))))))))))"
| "visitStmt lib (WhileStatement l c e body) =
     bnd (call lib New_immBlock) (\<lambda>whilePreHeader.
     seq (jumpTo lib whilePreHeader)
    (seq (call lib (Set_cur_block whilePreHeader))
    (bnd (call lib New_immBlock) (\<lambda>whileLoopHeader.
     seq (jumpTo lib whileLoopHeader)
    (seq (call lib (Set_cur_block whileLoopHeader))
    (seq (call lib (Mature_immBlock whileLoopHeader))
    (bnd (call lib New_immBlock) (\<lambda>loopBlock.
     bnd (call lib New_immBlock) (\<lambda>afterBlock.
     seq (visitCondition lib e loopBlock afterBlock)
    (seq (call lib (Mature_immBlock loopBlock))
    (seq (call lib (Mature_immBlock afterBlock))
    (seq (call lib (Set_cur_block loopBlock))
    (seq (call lib Get_store)
    (seq (visitBody lib body)
    (bnd (gets (\<lambda>st. lf_cur_block lib (calls st))) (\<lambda>b.
     seq (call lib (Keep_alive b))
    (seq (if body = None \<or> map_option cfb body = Some MayContinue then jumpTo lib whilePreHeader else ret ())
    (seq (call lib (Mature_immBlock whilePreHeader))
    (seq (call lib (Set_cur_block afterBlock)) (ret ()))))))))))))))))))))"
| "visitStmts lib [] = ret ()"
| "visitStmts lib (s # ss) = seq (visitStmt lib s) (visitStmts lib ss)"
| "visitBranch lib b afterBlock None = ret ()"
| "visitBranch lib b afterBlock (Some s) =
     seq (call lib (Set_cur_block b))
    (seq (visitStmt lib s)
     (if cfb s = MayContinue then jumpTo lib afterBlock else ret ()))"
| "visitBody lib None = ret ()"
| "visitBody lib (Some s) = visitStmt lib s"

section \<open>Critical edges\<close>

text \<open>
  The blocks that the end block and the blocks kept alive can be reached from, with the number of their
  predecessors, and the number of successors of every block.
\<close>

definition predBlocks :: "'n libfirm \<Rightarrow> 'n calls \<Rightarrow> 'n \<Rightarrow> 'n list" where
  "predBlocks lib h b =
     concat (map (\<lambda>i. case lf_cfgpred_block lib h b i of
         Some p \<Rightarrow> if lf_is_Block lib p then [p] else [] | None \<Rightarrow> []) [0..<lf_n_cfgpreds lib h b])"

fun collectBlocks :: "nat \<Rightarrow> 'n libfirm \<Rightarrow> 'n calls \<Rightarrow> ('n \<times> nat) list \<Rightarrow> ('n \<Rightarrow> nat) \<Rightarrow> 'n list
    \<Rightarrow> (('n \<times> nat) list \<times> ('n \<Rightarrow> nat)) option" where
  "collectBlocks 0 lib h numPreds numSuccs newBlocks = None"
| "collectBlocks (Suc n) lib h numPreds numSuccs newBlocks = (case newBlocks of
       [] \<Rightarrow> Some (numPreds, numSuccs)
     | b # bs \<Rightarrow>
         if b \<in> fst ` set numPreds then collectBlocks n lib h numPreds numSuccs bs
         else
           let ps = predBlocks lib h b in
           collectBlocks n lib h (numPreds @ [(b, lf_n_cfgpreds lib h b)])
             (fold (\<lambda>p m. m(p := m p + 1)) ps numSuccs) (bs @ ps))"

definition splitEdge :: "'n libfirm \<Rightarrow> 'n \<Rightarrow> ('n \<Rightarrow> nat) \<Rightarrow> 'n \<Rightarrow> nat \<Rightarrow> ('n, unit) fv_m" where
  "splitEdge lib graph numSuccs b i =
     bnd (gets calls) (\<lambda>h.
     case lf_cfgpred_block lib h b i of
       Some p \<Rightarrow>
         if numSuccs p > 1 then
           bnd (call lib (New_r_Block graph [lf_cfgpred lib h b i])) (\<lambda>newBlock.
           bnd (call lib (New_r_Jmp newBlock)) (\<lambda>newJmp.
           seq (call lib (Set_Block_cfgpred b i newJmp)) (ret ())))
         else ret ()
     | None \<Rightarrow> ret ())"

fun forEach :: "'a list \<Rightarrow> ('a \<Rightarrow> ('n, unit) fv_m) \<Rightarrow> ('n, unit) fv_m" where
  "forEach [] f = ret ()"
| "forEach (x # xs) f = seq (f x) (forEach xs f)"

definition remove_critical_edges :: "nat \<Rightarrow> 'n libfirm \<Rightarrow> 'n \<Rightarrow> ('n, unit) fv_m" where
  "remove_critical_edges fuel lib graph =
     bnd (gets calls) (\<lambda>h.
     bnd (the_or NoFuel (collectBlocks fuel lib h [] (\<lambda>_. 0)
            (lf_end_block lib graph # filter (lf_is_Block lib) (List.map_filter id (lf_keepalives lib h graph)))))
       (\<lambda>(numPreds, numSuccs).
     forEach (lf_map_order lib (map fst numPreds)) (\<lambda>b.
       let nPreds = the (map_of numPreds b) in
       if nPreds > 1 then forEach [0..<nPreds] (splitEdge lib graph numSuccs b) else ret ())))"

section \<open>Methods, classes and programs\<close>

text \<open>\<open>insert\<close> of a \<open>std::unordered_map\<close> keeps an entry that is there.\<close>

definition insert_new :: "'k \<Rightarrow> 'v \<Rightarrow> ('k \<rightharpoonup> 'v) \<Rightarrow> ('k \<rightharpoonup> 'v)" where
  "insert_new k v m = (if m k = None then m(k \<mapsto> v) else m)"

definition insertMethod :: "method_ref \<Rightarrow> 'n firm_method \<Rightarrow> ('n, unit) fv_m" where
  "insertMethod k m = modify (\<lambda>st. st\<lparr>methodTable := insert_new k m (methodTable st)\<rparr>)"

definition finishGraph :: "nat \<Rightarrow> 'n libfirm \<Rightarrow> 'n \<Rightarrow> ('n, unit) fv_m" where
  "finishGraph fuel lib graph =
     bnd (gets (\<lambda>st. lf_r_cur_block lib (calls st) graph)) (\<lambda>b.
     seq (call lib (Mature_immBlock b))
    (seq (call lib (Irg_finalize_cons graph))
    (seq (remove_critical_edges fuel lib graph)
    (bnd (gets printGraphs) (\<lambda>p.
     bnd currentGraph (\<lambda>g. if p then seq (call lib (Dump_ir_graph g)) (ret ()) else ret ()))))))"

definition pushGraph :: "'n \<Rightarrow> ('n, unit) fv_m" where
  "pushGraph g = modify (\<lambda>st. st\<lparr>firmGraphs := firmGraphs st @ [g]\<rparr>)"

definition visitMainMethod :: "nat \<Rightarrow> 'n libfirm \<Rightarrow> string \<Rightarrow> main_method \<Rightarrow> ('n, unit) fv_m" where
  "visitMainMethod fuel lib cls mm =
     bnd (call lib (New_type_method 0 1)) (\<lambda>ty.
     bnd (gets (\<lambda>st. intType (globals st))) (\<lambda>int_t.
     seq (call lib (Set_method_res_type ty 0 int_t))
    (bnd (call lib (New_entity (lf_glob_type lib) ''main'' ty)) (\<lambda>entity.
     bnd (call lib (New_ir_graph entity (length (mm_varDecls mm)))) (\<lambda>graph.
     seq (setCurrentGraph lib graph)
    (seq (insertMethod (MainRef cls (mm_name mm))
            \<lparr>fm_graph = graph, fm_entity = entity, nParams = 0, fm_params = [], fm_localVars = mm_varDecls mm\<rparr>)
    (seq (modify (\<lambda>st. st\<lparr>currentMethod := Some (MainRef cls (mm_name mm))\<rparr>))
    (seq (visitStmt lib (mm_block mm))
    (seq (if cfb (mm_block mm) = MayContinue
          then bnd (call lib (New_Const_long mode_Is 0)) (\<lambda>z. addReturn lib graph [z]) else ret ())
    (seq (finishGraph fuel lib graph) (pushGraph graph)))))))))))"

definition visitRegularMethod :: "nat \<Rightarrow> 'n libfirm \<Rightarrow> string \<Rightarrow> regular_method \<Rightarrow> ('n, unit) fv_m" where
  "visitRegularMethod fuel lib cls rm =
     bnd (gets (\<lambda>st. methodTable st (MethodRef cls (rm_name rm)))) (\<lambda>m.
     bnd (the_or OutOfRangeThrown m) (\<lambda>m.
     seq (modify (\<lambda>st. st\<lparr>currentMethod := Some (MethodRef cls (rm_name rm))\<rparr>))
    (seq (setCurrentGraph lib (fm_graph m))
    (seq (visitStmt lib (rm_block rm))
    (bnd (the_or FailedAssert (getSemaType (rm_returnType rm))) (\<lambda>rt.
     seq (if isVoid rt \<and> cfb (rm_block rm) = MayContinue then addReturn lib (fm_graph m) [] else ret ())
    (seq (finishGraph fuel lib (fm_graph m))
    (seq (call lib (Irg_finalize_cons (fm_graph m))) (pushGraph (fm_graph m))))))))))"

definition createClassEntity :: "'n libfirm \<Rightarrow> klass \<Rightarrow> ('n, unit) fv_m" where
  "createClassEntity lib k =
     bnd (call lib (New_type_class (c_name k))) (\<lambda>ct.
     bnd (call lib (New_entity (lf_glob_type lib) (c_name k) ct)) (\<lambda>e.
     modify (\<lambda>st. st\<lparr>classTable := insert_new (c_name k) \<lparr>fc_entity = e, fieldEntities = []\<rparr> (classTable st)\<rparr>)))"

fun setParamTypes :: "'n libfirm \<Rightarrow> 'n \<Rightarrow> nat \<Rightarrow> parameter list \<Rightarrow> ('n, unit) fv_m" where
  "setParamTypes lib mt i [] = ret ()"
| "setParamTypes lib mt i (p # ps) =
     bnd (getIrType_ast lib (p_type p)) (\<lambda>t.
     seq (call lib (Set_method_param_type mt i t)) (setParamTypes lib mt (Suc i) ps))"

fun paramNodes :: "'n libfirm \<Rightarrow> 'n \<Rightarrow> nat \<Rightarrow> parameter list \<Rightarrow> ('n, 'n list) fv_m" where
  "paramNodes lib args i [] = ret []"
| "paramNodes lib args i (p # ps) =
     bnd (getIrMode_ast (p_type p)) (\<lambda>m.
     bnd (call lib (New_Proj args m (PN_number i))) (\<lambda>n.
     seq (call lib (Set_value i n))
    (bnd (paramNodes lib args (Suc i) ps) (\<lambda>ns. ret (n # ns)))))"

definition declareMethod :: "'n libfirm \<Rightarrow> string \<Rightarrow> 'n \<Rightarrow> regular_method \<Rightarrow> ('n, unit) fv_m" where
  "declareMethod lib cls classType rm =
     bnd (the_or FailedAssert (getSemaType (rm_returnType rm))) (\<lambda>rt.
     let numReturnValues = (if isVoid rt then 0 else 1); params = rm_parameters rm in
     bnd (call lib (New_type_method (length params + 1) numReturnValues)) (\<lambda>mt.
     seq (if numReturnValues > 0
          then bnd (getIrType lib rt) (\<lambda>t. seq (call lib (Set_method_res_type mt 0 t)) (ret ())) else ret ())
    (bnd (call lib (New_type_pointer classType)) (\<lambda>thisType.
     seq (call lib (Set_method_param_type mt 0 thisType))
    (seq (setParamTypes lib mt 1 params)
    (bnd (call lib (New_entity classType (rm_mangledName rm) mt)) (\<lambda>entity.
     bnd (call lib (New_ir_graph entity (length params + 1 + length (rm_varDecls rm)))) (\<lambda>graph.
     seq (setCurrentGraph lib graph)
    (bnd (gets (\<lambda>st. lf_r_cur_block lib (calls st) graph)) (\<lambda>lastBlock.
     seq (call lib (Set_r_cur_block graph (lf_start_block lib graph)))
    (bnd (call lib (New_Proj (lf_args lib graph) mode_P (PN_number 0))) (\<lambda>this.
     bnd (paramNodes lib (lf_args lib graph) 1 params) (\<lambda>ns.
     seq (call lib (Set_r_cur_block graph lastBlock))
     (insertMethod (MethodRef cls (rm_name rm))
        \<lparr>fm_graph = graph, fm_entity = entity, nParams = length params + 1, fm_params = this # ns,
         fm_localVars = rm_varDecls rm\<rparr>))))))))))))))"

fun declareFields :: "'n libfirm \<Rightarrow> 'n \<Rightarrow> int \<Rightarrow> field list \<Rightarrow> ('n, int \<times> (field \<times> 'n) list) fv_m" where
  "declareFields lib classType offset [] = ret (offset, [])"
| "declareFields lib classType offset (f # fs) =
     bnd (getIrType_ast lib (f_type f)) (\<lambda>t.
     bnd (call lib (New_entity classType (f_name f) t)) (\<lambda>ent.
     seq (call lib (Set_entity_offset ent offset))
    (bnd (gets (\<lambda>st. lf_type_size lib (calls st) t)) (\<lambda>sz.
     bnd (declareFields lib classType (offset + sz) fs) (\<lambda>(size', fes). ret (size', (f, ent) # fes))))))"

definition visitClass :: "'n libfirm \<Rightarrow> klass \<Rightarrow> ('n, unit) fv_m" where
  "visitClass lib k =
     bnd (gets (\<lambda>st. classTable st (c_name k))) (\<lambda>c.
     bnd (the_or OutOfRangeThrown c) (\<lambda>c.
     let classType = lf_entity_type lib (fc_entity c) in
     seq (forEach (c_methods k) (declareMethod lib (c_name k) classType))
    (bnd (declareFields lib classType 0 (c_fields k)) (\<lambda>(size', fes).
     seq (modify (\<lambda>st. st\<lparr>classTable := (classTable st)(c_name k \<mapsto> c\<lparr>fieldEntities := fieldEntities c @ fes\<rparr>)\<rparr>))
    (seq (call lib (Set_type_state_fixed classType))
    (seq (call lib (Set_type_size classType size')) (ret ())))))))"

text \<open>\<open>acceptChildren\<close> of a class; the visits of its fields do nothing.\<close>

definition visitMembers :: "nat \<Rightarrow> 'n libfirm \<Rightarrow> klass \<Rightarrow> ('n, unit) fv_m" where
  "visitMembers fuel lib k =
     seq (modify (\<lambda>st. st\<lparr>currentClass := Some (c_name k)\<rparr>))
    (seq (forEach (sort_key rm_name (c_methods k)) (visitRegularMethod fuel lib (c_name k)))
     (forEach (sort_key mm_name (c_mainMethods k)) (visitMainMethod fuel lib (c_name k))))"

definition visitProgram :: "nat \<Rightarrow> 'n libfirm \<Rightarrow> program \<Rightarrow> ('n, unit) fv_m" where
  "visitProgram fuel lib p =
     seq (modify (\<lambda>st. st\<lparr>currentProgram := p\<rparr>))
    (seq (forEach (pr_classes p) (createClassEntity lib))
    (seq (forEach (pr_classes p) (visitClass lib))
    (seq (forEach (pr_classes p) (visitMembers fuel lib))
    (bnd (gets nodeStack) (\<lambda>vs. asserts (vs = []))))))"

text \<open>The constructor\<close>

definition step :: "'n libfirm \<Rightarrow> 'n fop \<Rightarrow> 'n calls \<Rightarrow> 'n \<times> 'n calls" where
  "step lib op h = (let r = lf_run lib h op in (r, (op, r) # h))"

definition newFirmVisitor :: "'n libfirm \<Rightarrow> bool \<Rightarrow> 'n calls \<Rightarrow> 'n fvisitor" where
  "newFirmVisitor lib print h0 =
     (let (_, h1) = step lib (Set_optimize 0) h0;
          (mode, h2) = step lib (New_reference_mode ''P64'' 64 64) h1;
          (_, h3) = step lib (Set_modeP mode) h2;
          (int_t, h4) = step lib (New_type_primitive mode_Is) h3;
          (size_t, h5) = step lib (New_type_primitive mode_Ls) h4;
          (bool_t, h6) = step lib (New_type_primitive mode_Bu) h5;
          (out_t, h7) = step lib (New_type_method 1 0) h6;
          (_, h8) = step lib (Set_method_param_type out_t 0 int_t) h7;
          (out_e, h9) = step lib (New_global_entity (lf_glob_type lib) ''print_int'' out_t) h8;
          (write_t, h10) = step lib (New_type_method 1 0) h9;
          (_, h11) = step lib (Set_method_param_type write_t 0 int_t) h10;
          (write_e, h12) = step lib (New_global_entity (lf_glob_type lib) ''write_int'' write_t) h11;
          (flush_t, h13) = step lib (New_type_method 0 0) h12;
          (flush_e, h14) = step lib (New_global_entity (lf_glob_type lib) ''flush_int'' flush_t) h13;
          (in_t, h15) = step lib (New_type_method 0 1) h14;
          (_, h16) = step lib (Set_method_res_type in_t 0 int_t) h15;
          (in_e, h17) = step lib (New_global_entity (lf_glob_type lib) ''read_int'' in_t) h16;
          (calloc_t, h18) = step lib (New_type_method 2 1) h17;
          (_, h19) = step lib (Set_method_param_type calloc_t 0 size_t) h18;
          (_, h20) = step lib (Set_method_param_type calloc_t 1 size_t) h19;
          (byte_t, h21) = step lib (New_type_primitive mode_Bu) h20;
          (ptr_t, h22) = step lib (New_type_pointer byte_t) h21;
          (_, h23) = step lib (Set_method_res_type calloc_t 0 ptr_t) h22;
          (calloc_e, h24) = step lib (New_global_entity (lf_glob_type lib) ''allocate'' calloc_t) h23
      in \<lparr>printGraphs = print,
          globals = \<lparr>intType = int_t, sizeType = size_t, boolType = bool_t, sysoutType = out_t, sysoutEntity = out_e,
            writeType = write_t, writeEntity = write_e, flushType = flush_t, flushEntity = flush_e,
            sysinType = in_t, sysinEntity = in_e, callocEntity = calloc_e\<rparr>,
          currentClass = None, currentProgram = \<lparr>pr_loc = no_loc, pr_classes = []\<rparr>, currentMethod = None,
          classTable = Map.empty, methodTable = Map.empty, nodeStack = [], reqBoolInfo = [None],
          firmGraphs = [], current_ir_graph = None, calls = h24\<rparr>)"

end
