(* ===== verification/Graph_Inv.thy ===== *)
theory Graph_Inv
  imports Graph_Build
begin

text \<open>
  What the construction relies on of the library, the protocol for blocks under construction, and
  weakest preconditions for the visitor's monad.
\<close>

section \<open>Weakest preconditions\<close>

text \<open>\<open>m\<close> returns from \<open>st\<close> without an error, and its result satisfies \<open>Q\<close>.\<close>

definition wp :: "('n, 'a) fv_m \<Rightarrow> ('a \<Rightarrow> 'n fvisitor \<Rightarrow> bool) \<Rightarrow> 'n fvisitor \<Rightarrow> bool" where
  "wp m Q st \<longleftrightarrow> (\<exists>x st'. m st = Inr (x, st') \<and> Q x st')"

named_theorems wps

lemma wp_bnd [wps]: "wp (bnd m f) Q st = wp m (\<lambda>x. wp (f x) Q) st"
  by (cases "m st") (auto simp: wp_def bnd_def)

lemma wp_seq [wps]: "wp (seq m k) Q st = wp m (\<lambda>_. wp k Q) st"
  by (simp add: seq_def wp_bnd)

lemma wp_ret [wps]: "wp (ret x) Q st = Q x st"
  by (simp add: wp_def ret_def)

lemma wp_gets [wps]: "wp (gets f) Q st = Q (f st) st"
  by (simp add: wp_def gets_def)

lemma wp_modify [wps]: "wp (modify f) Q st = Q () (f st)"
  by (simp add: wp_def modify_def)

lemma wp_asserts [wps]: "wp (asserts b) Q st \<longleftrightarrow> b \<and> Q () st"
  by (simp add: wp_def asserts_def ret_def fails_def)

lemma wp_the_or [wps]: "wp (the_or e x) Q st \<longleftrightarrow> (\<exists>y. x = Some y \<and> Q y st)"
  by (cases x) (simp_all add: wp_def the_or_def ret_def fails_def)

lemma wp_call: "wp (call lib op) Q st = Q (lf_run lib (calls st) op) (st\<lparr>calls := (op, lf_run lib (calls st) op) # calls st\<rparr>)"
  by (simp add: wp_def call_def Let_def)

lemma wp_pushNode [wps]: "wp (pushNode v) Q st = Q () (st\<lparr>nodeStack := v # nodeStack st\<rparr>)"
  by (simp add: pushNode_def wp_modify)

lemma wp_popNode [wps]: "nodeStack st = v # vs \<Longrightarrow> wp popNode Q st = Q v (st\<lparr>nodeStack := vs\<rparr>)"
  by (simp add: wp_def popNode_def)

lemma wp_pushNull [wps]: "wp pushNull Q st = Q () (st\<lparr>nodeStack := RValue None # nodeStack st\<rparr>)"
  by (simp add: pushNull_def wp_pushNode)

lemma wp_pushIrNode [wps]: "wp (pushIrNode n) Q st = Q () (st\<lparr>nodeStack := RValue (Some n) # nodeStack st\<rparr>)"
  by (simp add: pushIrNode_def wp_pushNode)

lemma wp_pushRequires [wps]:
  "wp pushRequiresNonBool Q st = Q () (st\<lparr>reqBoolInfo := None # reqBoolInfo st\<rparr>)"
  "wp (pushRequiresBool t f) Q st = Q () (st\<lparr>reqBoolInfo := Some (t, f) # reqBoolInfo st\<rparr>)"
  by (simp_all add: pushRequiresNonBool_def pushRequiresBool_def wp_modify)

lemma wp_popRequires [wps]: "reqBoolInfo st = r # rs \<Longrightarrow> wp popRequiresBoolInfo Q st = Q () (st\<lparr>reqBoolInfo := rs\<rparr>)"
  by (simp add: wp_def popRequiresBoolInfo_def)

lemma wp_requiresBool [wps]: "reqBoolInfo st = r # rs \<Longrightarrow> wp requiresBool Q st = Q (r \<noteq> None) st"
  by (simp add: wp_def requiresBool_def)

lemma wp_currentTargets [wps]: "reqBoolInfo st = Some tf # rs \<Longrightarrow> wp currentTargets Q st = Q tf st"
  by (simp add: wp_def currentTargets_def)

lemma wp_mono: "wp m P st \<Longrightarrow> (\<And>x st'. P x st' \<Longrightarrow> Q x st') \<Longrightarrow> wp m Q st"
  by (auto simp: wp_def)

section \<open>The protocol for blocks\<close>

text \<open>
  A block from \<open>new_immBlock\<close> is immature: predecessors may be added until \<open>mature_immBlock\<close>, and not
  afterwards.
\<close>

definition created :: "'n calls \<Rightarrow> 'n set" where
  "created h = {r. (New_immBlock, r) \<in> set h}"

definition matured :: "'n calls \<Rightarrow> 'n set" where
  "matured h = {b. \<exists>r. (Mature_immBlock b, r) \<in> set h}"

definition set_blocks :: "'n calls \<Rightarrow> 'n set" where
  "set_blocks h = {b. \<exists>r. (Set_cur_block b, r) \<in> set h \<or> (\<exists>g. (Set_r_cur_block g b, r) \<in> set h)}"

definition mentioned :: "'n calls \<Rightarrow> 'n set" where
  "mentioned h = (\<Union>(op, r) \<in> set h. insert r (set_fop op))"

fun preds_in_time :: "'n calls \<Rightarrow> bool" where
  "preds_in_time [] \<longleftrightarrow> True"
| "preds_in_time ((op, r) # h) \<longleftrightarrow>
     (case op of Add_immBlock_pred b n \<Rightarrow> b \<notin> matured h | _ \<Rightarrow> True) \<and> preds_in_time h"

section \<open>The library\<close>

text \<open>The calls that may change the current block\<close>

fun moves :: "'n fop \<Rightarrow> bool" where
  "moves (Set_cur_block b) = True"
| "moves (Set_r_cur_block g b) = True"
| "moves (Set_current_ir_graph g) = True"
| "moves (New_ir_graph e n) = True"
| "moves op = False"

definition end_blocks :: "'n libfirm \<Rightarrow> 'n set" where
  "end_blocks lib = range (lf_end_block lib)"

text \<open>
  The current block is the one that was set last; a new block is a pointer that did not occur before; the end block
  of a graph is neither its first block nor a new one.
\<close>

definition block_laws :: "'n libfirm \<Rightarrow> bool" where
  "block_laws lib \<longleftrightarrow>
     (\<forall>h b r. lf_cur_block lib ((Set_cur_block b, r) # h) = b) \<and>
     (\<forall>h op r. \<not> moves op \<longrightarrow> lf_cur_block lib ((op, r) # h) = lf_cur_block lib h) \<and>
     (\<forall>h op. op = New_immBlock \<or> (\<exists>ps. op = New_Block ps) \<longrightarrow>
        lf_run lib h op \<notin> mentioned h \<union> end_blocks lib \<union> {lf_cur_block lib h}) \<and>
     (\<forall>h. lf_cur_block lib h \<in> end_blocks lib \<longrightarrow> lf_cur_block lib h \<in> set_blocks h) \<and>
     (\<forall>h g. lf_r_cur_block lib h g \<in> end_blocks lib \<longrightarrow> lf_r_cur_block lib h g \<in> set_blocks h) \<and>
     (\<forall>g. lf_start_block lib g \<notin> end_blocks lib)"

text \<open>The modes of nodes, and the attributes of types, entities and address nodes\<close>

fun first_of :: "'a list \<Rightarrow> 'a option" where
  "first_of [] = None"
| "first_of (x # xs) = Some x"

fun result_mode :: "'n libfirm \<Rightarrow> 'n fop \<Rightarrow> ir_mode option" where
  "result_mode lib (New_node op ns) = (case op of
       N_Const m i \<Rightarrow> Some m
     | N_Proj m i \<Rightarrow> Some m
     | N_Phi m \<Rightarrow> Some m
     | N_Conv m \<Rightarrow> Some m
     | N_Size m \<Rightarrow> Some m
     | N_Add \<Rightarrow> map_option (lf_irn_mode lib) (first_of ns)
     | N_Sub \<Rightarrow> map_option (lf_irn_mode lib) (first_of ns)
     | N_Mul \<Rightarrow> map_option (lf_irn_mode lib) (first_of ns)
     | N_Minus \<Rightarrow> map_option (lf_irn_mode lib) (first_of ns)
     | _ \<Rightarrow> None)"
| "result_mode lib (Get_value i m) = Some m"
| "result_mode lib op = None"

definition node_laws :: "'n libfirm \<Rightarrow> bool" where
  "node_laws lib \<longleftrightarrow>
     (\<forall>h op m. result_mode lib op = Some m \<longrightarrow> lf_irn_mode lib (lf_run lib h op) = m) \<and>
     (\<forall>h m. lf_type_mode lib (lf_run lib h (New_type_primitive m)) = Some m
        \<and> \<not> lf_is_Array_type lib (lf_run lib h (New_type_primitive m))) \<and>
     (\<forall>h t. lf_type_mode lib (lf_run lib h (New_type_pointer t)) = Some mode_P) \<and>
     (\<forall>h ow n t. lf_entity_type lib (lf_run lib h (New_entity ow n t)) = t) \<and>
     (\<forall>h p e. lf_is_Member lib (lf_run lib h (New_Member p e)) \<and> lf_Member_entity lib (lf_run lib h (New_Member p e)) = e) \<and>
     (\<forall>h p i t. lf_is_Sel lib (lf_run lib h (New_Sel p i t)))"

text \<open>A graph has finitely many blocks.\<close>

definition finite_graphs :: "'n libfirm \<Rightarrow> bool" where
  "finite_graphs lib \<longleftrightarrow> (\<forall>h. finite {p. \<exists>b i. lf_cfgpred_block lib h b i = Some p})"

definition libfirm_laws :: "'n libfirm \<Rightarrow> bool" where
  "libfirm_laws lib \<longleftrightarrow> block_laws lib \<and> node_laws lib \<and> finite_graphs lib"

lemma cur_block_set: "block_laws lib \<Longrightarrow> lf_cur_block lib ((Set_cur_block b, r) # h) = b"
  unfolding block_laws_def by blast

lemma cur_block_keep: "block_laws lib \<Longrightarrow> \<not> moves op \<Longrightarrow> lf_cur_block lib ((op, r) # h) = lf_cur_block lib h"
  unfolding block_laws_def by blast

lemma block_fresh:
  assumes "block_laws lib"
  shows "lf_run lib h New_immBlock \<notin> mentioned h \<union> end_blocks lib \<union> {lf_cur_block lib h}"
    and "lf_run lib h (New_Block ps) \<notin> mentioned h \<union> end_blocks lib \<union> {lf_cur_block lib h}"
  using assms unfolding block_laws_def by blast+

lemma cur_block_set_blocks:
  assumes "block_laws lib"
  shows "lf_cur_block lib h \<in> end_blocks lib \<Longrightarrow> lf_cur_block lib h \<in> set_blocks h"
    and "lf_r_cur_block lib h g \<in> end_blocks lib \<Longrightarrow> lf_r_cur_block lib h g \<in> set_blocks h"
    and "lf_start_block lib g \<notin> end_blocks lib"
  using assms unfolding block_laws_def by blast+

section \<open>The invariant\<close>

text \<open>
  No predecessor has come too late, and every block is matured, apart from those in \<open>T\<close>, which still wait for
  predecessors, and those in \<open>U\<close>, which some visit function is about to mature.  The end blocks are in \<open>T\<close>.
  The current block is not in \<open>T\<close>.
\<close>

definition inv0 :: "'n libfirm \<Rightarrow> 'n set \<Rightarrow> 'n set \<Rightarrow> 'n calls \<Rightarrow> bool" where
  "inv0 lib T U h \<longleftrightarrow> preds_in_time h \<and> T \<inter> matured h = {} \<and> created h \<subseteq> matured h \<union> T \<union> U
     \<and> end_blocks lib \<subseteq> T \<and> T \<subseteq> mentioned h \<union> end_blocks lib \<and> set_blocks h \<inter> end_blocks lib = {}
     \<and> created h \<inter> end_blocks lib = {}"

definition inv :: "'n libfirm \<Rightarrow> 'n set \<Rightarrow> 'n set \<Rightarrow> 'n calls \<Rightarrow> bool" where
  "inv lib T U h \<longleftrightarrow> inv0 lib T U h \<and> lf_cur_block lib h \<notin> T"

fun quiet :: "'n fop \<Rightarrow> bool" where
  "quiet New_immBlock = False"
| "quiet (Add_immBlock_pred b n) = False"
| "quiet (Mature_immBlock b) = False"
| "quiet op = (\<not> moves op)"

lemma calls_simps:
  "created ((op, r) # h) = (if op = New_immBlock then insert r (created h) else created h)"
  "matured ((op, r) # h) = (case op of Mature_immBlock b \<Rightarrow> insert b (matured h) | _ \<Rightarrow> matured h)"
  "set_blocks ((op, r) # h) = (case op of Set_cur_block b \<Rightarrow> insert b (set_blocks h)
     | Set_r_cur_block g b \<Rightarrow> insert b (set_blocks h) | _ \<Rightarrow> set_blocks h)"
  "mentioned ((op, r) # h) = insert r (set_fop op) \<union> mentioned h"
  by (auto simp: created_def matured_def set_blocks_def mentioned_def split: fop.splits)

lemma matured_mentioned: "matured h \<subseteq> mentioned h"
proof
  fix b assume "b \<in> matured h"
  then obtain r where "(Mature_immBlock b, r) \<in> set h" by (auto simp: matured_def)
  then show "b \<in> mentioned h" unfolding mentioned_def by (rule UN_I) simp
qed

lemma quiet_moves: "quiet op \<Longrightarrow> \<not> moves op"
  by (cases op) auto

lemma inv0_quiet: "quiet op \<Longrightarrow> inv0 lib T U h \<Longrightarrow> inv0 lib T U ((op, r) # h)"
  by (cases op) (auto simp: inv0_def calls_simps)

lemma inv_quiet: "block_laws lib \<Longrightarrow> quiet op \<Longrightarrow> inv lib T U h \<Longrightarrow> inv lib T U ((op, r) # h)"
  by (simp add: inv_def inv0_quiet cur_block_keep quiet_moves)

text \<open>A quiet call; its result is given by the library.\<close>

lemma wp_quiet:
  assumes "block_laws lib" "inv lib T U (calls st)" and "quiet op"
    and "\<And>h h0. inv lib T U h \<Longrightarrow> Q (lf_run lib h0 op) (st\<lparr>calls := h\<rparr>)"
  shows "wp (call lib op) Q st"
  unfolding wp_call by (rule assms(4), rule inv_quiet [OF assms(1,3,2)])

lemma wp_new_immBlock:
  assumes "block_laws lib" "inv lib T U (calls st)"
    and "\<And>h b. inv lib (insert b T) U h \<Longrightarrow> b \<notin> T \<Longrightarrow> Q b (st\<lparr>calls := h\<rparr>)"
  shows "wp (call lib New_immBlock) Q st"
proof -
  let ?b = "lf_run lib (calls st) New_immBlock"
  have b: "?b \<notin> mentioned (calls st) \<union> end_blocks lib \<union> {lf_cur_block lib (calls st)}" by (rule block_fresh [OF assms(1)])
  have i: "inv0 lib T U (calls st)" "lf_cur_block lib (calls st) \<notin> T" using assms(2) by (simp_all add: inv_def)
  have m: "matured (calls st) \<subseteq> mentioned (calls st)" by (rule matured_mentioned)
  have bT: "?b \<notin> T" using i(1) b by (auto simp: inv0_def)
  have "inv0 lib (insert ?b T) U ((New_immBlock, ?b) # calls st)"
    using i(1) b m by (auto simp: inv0_def calls_simps)
  moreover have "lf_cur_block lib ((New_immBlock, ?b) # calls st) \<notin> insert ?b T"
    using cur_block_keep [OF assms(1), of New_immBlock] i(2) b by auto
  ultimately show ?thesis unfolding wp_call by (intro assms(3)) (simp_all add: inv_def bT)
qed

text \<open>A block with known predecessors, which becomes the current block\<close>

lemma wp_new_Block:
  assumes "block_laws lib" "inv lib T U (calls st)"
    and "\<And>h b. inv lib T U h \<Longrightarrow> b \<notin> T \<Longrightarrow> Q b (st\<lparr>calls := h\<rparr>)"
  shows "wp (call lib (New_Block ps)) Q st"
proof -
  let ?b = "lf_run lib (calls st) (New_Block ps)"
  have "?b \<notin> T" using block_fresh(2) [OF assms(1)] assms(2) by (auto simp: inv_def inv0_def)
  then show ?thesis unfolding wp_call using inv_quiet [OF assms(1) _ assms(2)] by (intro assms(3)) simp_all
qed

lemma wp_add_pred:
  assumes "block_laws lib" "inv lib T U (calls st)" "b \<in> T" and "\<And>h h0. inv lib T U h \<Longrightarrow> Q (lf_run lib h0 (Add_immBlock_pred b n)) (st\<lparr>calls := h\<rparr>)"
  shows "wp (call lib (Add_immBlock_pred b n)) Q st"
proof -
  have "inv lib T U ((Add_immBlock_pred b n, r) # calls st)" for r
    using assms(2,3) cur_block_keep [OF assms(1), of "Add_immBlock_pred b n"] by (auto simp: inv_def inv0_def calls_simps)
  then show ?thesis unfolding wp_call by (rule assms(4))
qed

text \<open>Maturing a block that does not wait for predecessors any more\<close>

lemma wp_mature:
  assumes "block_laws lib" "inv lib T U (calls st)" "b \<notin> end_blocks lib"
    and "\<And>h h0. inv lib (T - {b}) (U - {b}) h \<Longrightarrow> Q (lf_run lib h0 (Mature_immBlock b)) (st\<lparr>calls := h\<rparr>)"
  shows "wp (call lib (Mature_immBlock b)) Q st"
proof -
  have "inv lib (T - {b}) (U - {b}) ((Mature_immBlock b, r) # calls st)" for r
    using assms(2,3) cur_block_keep [OF assms(1), of "Mature_immBlock b"] by (auto simp: inv_def inv0_def calls_simps)
  then show ?thesis unfolding wp_call by (rule assms(4))
qed

lemma wp_set_cur:
  assumes "block_laws lib" "inv lib T U (calls st)" "b \<notin> end_blocks lib"
    and "\<And>h h0. inv lib (T - {b}) (if b \<in> T then insert b U else U) h \<Longrightarrow> Q (lf_run lib h0 (Set_cur_block b)) (st\<lparr>calls := h\<rparr>)"
  shows "wp (call lib (Set_cur_block b)) Q st"
proof -
  have "inv lib (T - {b}) (if b \<in> T then insert b U else U) ((Set_cur_block b, r) # calls st)" for r
    using assms(2,3) cur_block_set [OF assms(1)] by (auto simp: inv_def inv0_def calls_simps)
  then show ?thesis unfolding wp_call by (rule assms(4))
qed

end
