(* ===== verification/Typed_Ast.thy ===== *)
theory Typed_Ast
  imports Ast_Props Firm
begin

text \<open>
  Typed trees: what the construction of graphs needs of a program.  The annotated types of an expression
  and its operands fit together, the definitions that names refer to exist, and values have one of the modes that
  \<open>FirmVisitor::getIrMode\<close> knows.
\<close>

section \<open>Modes of types\<close>

definition kmode :: "sem_type \<Rightarrow> ir_mode option" where
  "kmode t = (case kind t of TK_Int \<Rightarrow> Some mode_Is | TK_Bool \<Rightarrow> Some mode_Bu | TK_Array \<Rightarrow> Some mode_P
     | TK_Class \<Rightarrow> Some mode_P | TK_Null \<Rightarrow> Some mode_P | _ \<Rightarrow> None)"

text \<open>Of a type that a variable can have\<close>

definition tmode :: "ast_type \<Rightarrow> ir_mode option" where
  "tmode t = Option.bind (getSemaType t) (\<lambda>s. if kind s = TK_Null then None else kmode s)"

function ir_typed :: "program \<Rightarrow> sem_type \<Rightarrow> bool" where
  "ir_typed P t \<longleftrightarrow> (case kind t of
       TK_Int \<Rightarrow> True
     | TK_Bool \<Rightarrow> True
     | TK_Array \<Rightarrow> (case getArrayInnerType t of None \<Rightarrow> False | Some inner \<Rightarrow> ir_typed P inner)
     | TK_Class \<Rightarrow> findClassByName P (tname t) \<noteq> None
     | _ \<Rightarrow> False)"
  by pat_completeness auto
termination
  by (relation "measure (\<lambda>(P, t). nat (dimension t))")
    (auto simp: getArrayInnerType_def Let_def split: if_splits)

declare ir_typed.simps [simp del]

section \<open>Typed expressions\<close>

text \<open>
  What the semantic analysis establishes for the trees that it accepts: the annotated types fit together, and the
  definitions that names refer to exist.
\<close>

record tctx =
  tc_prog :: program
  tc_class :: klass
  tc_main :: bool
  tc_params :: nat

fun lvalue :: "expr \<Rightarrow> bool" where
  "lvalue (VarRef l t n d) = True"
| "lvalue (FieldAccess l t e n d) = True"
| "lvalue (ArrayAccess l t a i) = True"
| "lvalue _ = False"

fun sys_ref :: "expr \<Rightarrow> bool" where
  "sys_ref (FieldAccess l t e n d) = (d = Some FR_SystemOut \<or> d = Some FR_SystemIn)"
| "sys_ref _ = False"

fun method_exists :: "program \<Rightarrow> (string \<times> string) option \<Rightarrow> bool" where
  "method_exists P (Some (c, m)) = (\<exists>k \<in> set (pr_classes P). c_name k = c \<and> m \<in> rm_name ` set (c_methods k))"
| "method_exists P None = False"

definition has_field :: "klass \<Rightarrow> field \<Rightarrow> sem_type \<Rightarrow> bool" where
  "has_field k f t \<longleftrightarrow> (case find (\<lambda>f'. f_name f' = f_name f) (c_fields k) of None \<Rightarrow> False | Some f' \<Rightarrow> tmode (f_type f') = kmode t)"

fun typed_var :: "tctx \<Rightarrow> sem_type \<Rightarrow> sym_def option \<Rightarrow> bool" where
  "typed_var \<Gamma> t (Some (Def_Parameter p)) \<longleftrightarrow> 0 \<le> p_idx p \<and> p_idx p < int (tc_params \<Gamma>) \<and> tmode (p_type p) = kmode t"
| "typed_var \<Gamma> t (Some (Def_VarDecl v)) \<longleftrightarrow> 0 \<le> vd_idx v \<and> tmode (vd_type v) = kmode t"
| "typed_var \<Gamma> t (Some (Def_Field f)) \<longleftrightarrow> \<not> tc_main \<Gamma> \<and> has_field (tc_class \<Gamma>) f t"
| "typed_var \<Gamma> t _ \<longleftrightarrow> False"

definition comparison :: "binop \<Rightarrow> bool" where
  "comparison bop \<longleftrightarrow> bop \<in> set [Op_Equals, Op_NotEquals, Op_Less, Op_LessEquals, Op_Greater, Op_GreaterEquals]"

definition arithmetic :: "binop \<Rightarrow> bool" where
  "arithmetic bop \<longleftrightarrow> bop \<in> set [Op_Plus, Op_Minus, Op_Mul, Op_Div, Op_Mod]"

fun typed_expr :: "tctx \<Rightarrow> expr \<Rightarrow> bool"
  and typed_args :: "tctx \<Rightarrow> expr list \<Rightarrow> bool" where
  "typed_expr \<Gamma> (IntLiteral l t v) \<longleftrightarrow> kind t = TK_Int"
| "typed_expr \<Gamma> (BoolLiteral l t b) \<longleftrightarrow> kind t = TK_Bool"
| "typed_expr \<Gamma> (NullLiteral l t) \<longleftrightarrow> kind t = TK_Null"
| "typed_expr \<Gamma> (ThisLiteral l t) \<longleftrightarrow> kind t = TK_Class \<and> \<not> tc_main \<Gamma>"
| "typed_expr \<Gamma> (VarRef l t n d) \<longleftrightarrow> kmode t \<noteq> None \<and> typed_var \<Gamma> t d"
| "typed_expr \<Gamma> (NewObjectExpression l t n d) \<longleftrightarrow> kind t = TK_Class \<and>
     (case d of None \<Rightarrow> False | Some c \<Rightarrow> c \<in> c_name ` set (pr_classes (tc_prog \<Gamma>)))"
| "typed_expr \<Gamma> (NewArrayExpression l t ty e) \<longleftrightarrow> kind t = TK_Array \<and> typed_expr \<Gamma> e \<and> kind (targetType e) = TK_Int
     \<and> (case Option.bind (getSemaType ty) getArrayInnerType of None \<Rightarrow> False | Some s \<Rightarrow> ir_typed (tc_prog \<Gamma>) s)"
| "typed_expr \<Gamma> (ArrayAccess l t a i) \<longleftrightarrow> typed_expr \<Gamma> a \<and> typed_expr \<Gamma> i \<and> kind (targetType a) = TK_Array
     \<and> kind (targetType i) = TK_Int \<and> ir_typed (tc_prog \<Gamma>) (targetType a)
     \<and> (case getArrayInnerType (targetType a) of None \<Rightarrow> False | Some s \<Rightarrow> kmode s = kmode t)"
| "typed_expr \<Gamma> (FieldAccess l t e n d) \<longleftrightarrow> typed_expr \<Gamma> e \<and> kind (targetType e) = TK_Class \<and> kmode t \<noteq> None
     \<and> (case findClassByName (tc_prog \<Gamma>) (tname (targetType e)) of None \<Rightarrow> False
        | Some k \<Rightarrow> (case d of Some (FR_Field c f) \<Rightarrow> has_field k f t | _ \<Rightarrow> False))"
| "typed_expr \<Gamma> (MethodInvocation l t e n args d sys) \<longleftrightarrow>
     (if sys then sys_ref e \<and> typed_args \<Gamma> args \<and>
        (n = ''println'' \<and> kind t = TK_Void \<and> length args = 1 \<or> n = ''write'' \<and> kind t = TK_Void \<and> length args = 1
         \<or> n = ''flush'' \<and> kind t = TK_Void \<and> args = [] \<or> n = ''read'' \<and> kind t = TK_Int \<and> args = [])
      else typed_expr \<Gamma> e \<and> kind (targetType e) = TK_Class \<and> findClassByName (tc_prog \<Gamma>) (tname (targetType e)) \<noteq> None
        \<and> method_exists (tc_prog \<Gamma>) d \<and> typed_args \<Gamma> args
        \<and> (kind t = TK_Void \<or> kmode t \<noteq> None \<and> kind t \<noteq> TK_Null))"
| "typed_expr \<Gamma> (UnaryExpression l t e uop) \<longleftrightarrow> typed_expr \<Gamma> e \<and>
     (uop = UOp_Not \<and> kind t = TK_Bool \<and> kind (targetType e) = TK_Bool
      \<or> uop = UOp_Neg \<and> kind t = TK_Int \<and> kind (targetType e) = TK_Int)"
| "typed_expr \<Gamma> (BinaryExpression l t a b bop) \<longleftrightarrow> typed_expr \<Gamma> a \<and> typed_expr \<Gamma> b \<and>
     (if bop = Op_Or \<or> bop = Op_And
      then kind t = TK_Bool \<and> kind (targetType a) = TK_Bool \<and> kind (targetType b) = TK_Bool
      else if bop = Op_Assign then lvalue a \<and> kmode t \<noteq> None \<and> kmode (targetType b) = kmode t
      else if comparison bop
      then kind t = TK_Bool \<and> kmode (targetType a) \<noteq> None \<and> kmode (targetType b) \<noteq> None
      else arithmetic bop \<and> kind t = TK_Int \<and> kind (targetType a) = TK_Int \<and> kind (targetType b) = TK_Int)"
| "typed_args \<Gamma> [] \<longleftrightarrow> True"
| "typed_args \<Gamma> (a # args) \<longleftrightarrow> typed_expr \<Gamma> a \<and> kmode (targetType a) \<noteq> None \<and> typed_args \<Gamma> args"

section \<open>Typed statements\<close>

fun typed_stmt :: "tctx \<Rightarrow> stmt \<Rightarrow> bool"
  and typed_stmts :: "tctx \<Rightarrow> stmt list \<Rightarrow> bool"
  and typed_body :: "tctx \<Rightarrow> stmt option \<Rightarrow> bool" where
  "typed_stmt \<Gamma> (Block l c ss lonely) \<longleftrightarrow> typed_stmts \<Gamma> ss"
| "typed_stmt \<Gamma> (ExpressionStatement l c e) \<longleftrightarrow> typed_expr \<Gamma> e"
| "typed_stmt \<Gamma> (VariableDeclaration l c ty n e idx) \<longleftrightarrow> (case e of None \<Rightarrow> True
     | Some e \<Rightarrow> typed_expr \<Gamma> e \<and> kmode (targetType e) \<noteq> None
         \<and> (case idx of None \<Rightarrow> False | Some i \<Rightarrow> 0 \<le> i))"
| "typed_stmt \<Gamma> (ReturnStatement l c e) \<longleftrightarrow> (case e of None \<Rightarrow> True
     | Some e \<Rightarrow> typed_expr \<Gamma> e \<and> kmode (targetType e) \<noteq> None)"
| "typed_stmt \<Gamma> (IfStatement l c e a b) \<longleftrightarrow>
     typed_expr \<Gamma> e \<and> kind (targetType e) = TK_Bool \<and> typed_body \<Gamma> a \<and> typed_body \<Gamma> b"
| "typed_stmt \<Gamma> (WhileStatement l c e b) \<longleftrightarrow> typed_expr \<Gamma> e \<and> kind (targetType e) = TK_Bool \<and> typed_body \<Gamma> b"
| "typed_stmts \<Gamma> [] \<longleftrightarrow> True"
| "typed_stmts \<Gamma> (s # ss) \<longleftrightarrow> typed_stmt \<Gamma> s \<and> typed_stmts \<Gamma> ss"
| "typed_body \<Gamma> None \<longleftrightarrow> True"
| "typed_body \<Gamma> (Some s) \<longleftrightarrow> typed_stmt \<Gamma> s"

section \<open>Typed programs\<close>

definition ast_typed :: "program \<Rightarrow> ast_type \<Rightarrow> bool" where
  "ast_typed P t \<longleftrightarrow> (case getSemaType t of None \<Rightarrow> False | Some s \<Rightarrow> ir_typed P s)"

definition ret_typed :: "program \<Rightarrow> ast_type \<Rightarrow> bool" where
  "ret_typed P t \<longleftrightarrow> (case getSemaType t of None \<Rightarrow> False | Some s \<Rightarrow> isVoid s \<or> ir_typed P s)"

definition method_ctx :: "program \<Rightarrow> klass \<Rightarrow> regular_method \<Rightarrow> tctx" where
  "method_ctx P k rm = \<lparr>tc_prog = P, tc_class = k, tc_main = False, tc_params = length (rm_parameters rm) + 1\<rparr>"

definition main_ctx :: "program \<Rightarrow> klass \<Rightarrow> main_method \<Rightarrow> tctx" where
  "main_ctx P k mm = \<lparr>tc_prog = P, tc_class = k, tc_main = True, tc_params = 0\<rparr>"

definition typed_method :: "program \<Rightarrow> klass \<Rightarrow> regular_method \<Rightarrow> bool" where
  "typed_method P k rm \<longleftrightarrow> ret_typed P (rm_returnType rm) \<and> list_all (\<lambda>p. ast_typed P (p_type p)) (rm_parameters rm) \<and> typed_stmt (method_ctx P k rm) (rm_block rm)"

definition typed_class :: "program \<Rightarrow> klass \<Rightarrow> bool" where
  "typed_class P k \<longleftrightarrow> list_all (\<lambda>f. ast_typed P (f_type f)) (c_fields k) \<and> distinct (map rm_name (c_methods k))
     \<and> list_all (typed_method P k) (c_methods k)
     \<and> list_all (\<lambda>mm. typed_stmt (main_ctx P k mm) (mm_block mm)) (c_mainMethods k)"

definition typed_program :: "program \<Rightarrow> bool" where
  "typed_program P \<longleftrightarrow> distinct (map c_name (pr_classes P)) \<and> list_all (typed_class P) (pr_classes P)"

end
