(* ===== verification/Graph_Expr.thy ===== *)
theory Graph_Expr
  imports Graph_Inv Typed_Ast
begin

text \<open>
  Typed expressions, the values and tables of the visitor that go with them, and the helpers that the
  visits of expressions call: no assertion fails in them, and they keep the protocol for blocks.
\<close>

declare getIrType.simps [simp del]

section \<open>The tables of the visitor\<close>

definition class_ok :: "'n libfirm \<Rightarrow> klass \<Rightarrow> 'n firm_class \<Rightarrow> bool" where
  "class_ok lib k c \<longleftrightarrow> map fst (fieldEntities c) = c_fields k
     \<and> (\<forall>(f, e) \<in> set (fieldEntities c). getModeForType lib (lf_entity_type lib e) = tmode (f_type f))"

definition types_ok :: "'n libfirm \<Rightarrow> program \<Rightarrow> 'n fvisitor \<Rightarrow> bool" where
  "types_ok lib P st \<longleftrightarrow> currentProgram st = P
     \<and> getModeForType lib (intType (globals st)) = Some mode_Is
     \<and> getModeForType lib (boolType (globals st)) = Some mode_Bu
     \<and> (\<forall>k \<in> set (pr_classes P). \<exists>c. classTable st (c_name k) = Some c)"

definition tables_ok :: "'n libfirm \<Rightarrow> program \<Rightarrow> 'n fvisitor \<Rightarrow> bool" where
  "tables_ok lib P st \<longleftrightarrow> types_ok lib P st
     \<and> (\<forall>k \<in> set (pr_classes P). \<exists>c. classTable st (c_name k) = Some c \<and> class_ok lib k c)
     \<and> (\<forall>k \<in> set (pr_classes P). \<forall>m \<in> set (c_methods k). methodTable st (MethodRef (c_name k) (rm_name m)) \<noteq> None)"

definition method_ok :: "'n libfirm \<Rightarrow> tctx \<Rightarrow> 'n fvisitor \<Rightarrow> bool" where
  "method_ok lib \<Gamma> st \<longleftrightarrow> tc_class \<Gamma> \<in> set (pr_classes (tc_prog \<Gamma>)) \<and> currentClass st = Some (c_name (tc_class \<Gamma>))
     \<and> current_ir_graph st \<noteq> None
     \<and> (\<exists>r m. currentMethod st = Some r \<and> methodTable st r = Some m \<and> nParams m = tc_params \<Gamma>
         \<and> (\<not> tc_main \<Gamma> \<longrightarrow> fm_params m \<noteq> [] \<and> lf_irn_mode lib (hd (fm_params m)) = mode_P))"

definition state_ok :: "'n libfirm \<Rightarrow> tctx \<Rightarrow> 'n fvisitor \<Rightarrow> bool" where
  "state_ok lib \<Gamma> st \<longleftrightarrow> tables_ok lib (tc_prog \<Gamma>) st \<and> method_ok lib \<Gamma> st"

lemma state_ok_frame [simp]:
  "state_ok lib \<Gamma> (st\<lparr>nodeStack := s\<rparr>) = state_ok lib \<Gamma> st"
  "state_ok lib \<Gamma> (st\<lparr>reqBoolInfo := r\<rparr>) = state_ok lib \<Gamma> st"
  "state_ok lib \<Gamma> (st\<lparr>calls := h\<rparr>) = state_ok lib \<Gamma> st"
  by (simp_all add: state_ok_def tables_ok_def types_ok_def method_ok_def)

text \<open>The rules for monadic composition as equations of predicates\<close>

lemma wp_fun [wps]:
  "wp (bnd m f) Q = wp m (\<lambda>x. wp (f x) Q)" "wp (seq m k) Q = wp m (\<lambda>_. wp k Q)" "wp (ret x) Q = Q x"
  by (simp_all add: fun_eq_iff wps)

text \<open>The order in which the updates of a state are written\<close>

lemma update_order [wps]:
  "st\<lparr>calls := h, nodeStack := s\<rparr> = st\<lparr>nodeStack := s, calls := h\<rparr>"
  "st\<lparr>calls := h, reqBoolInfo := r\<rparr> = st\<lparr>reqBoolInfo := r, calls := h\<rparr>"
  "st\<lparr>reqBoolInfo := r, nodeStack := s\<rparr> = st\<lparr>nodeStack := s, reqBoolInfo := r\<rparr>"
  by simp_all

section \<open>Values\<close>

definition load_mode :: "'n libfirm \<Rightarrow> 'n fvalue \<Rightarrow> ir_mode option" where
  "load_mode lib v = (case v of
       VarValue i m \<Rightarrow> Some m
     | FieldValue n \<Rightarrow> getModeForType lib (lf_entity_type lib (lf_Member_entity lib n))
     | ArrayValue n t \<Rightarrow> getModeForType lib t
     | RValue None \<Rightarrow> None
     | RValue (Some n) \<Rightarrow> Some (lf_irn_mode lib n))"

definition val_ok :: "'n libfirm \<Rightarrow> 'n fvalue \<Rightarrow> sem_type \<Rightarrow> bool" where
  "val_ok lib v t \<longleftrightarrow> (if kind t = TK_Void then v = RValue None else kmode t \<noteq> None \<and> load_mode lib v = kmode t)"

definition storable :: "'n fvalue \<Rightarrow> bool" where
  "storable v \<longleftrightarrow> (case v of RValue n \<Rightarrow> False | _ \<Rightarrow> True)"

lemma irn_mode_run: "node_laws lib \<Longrightarrow> result_mode lib op = Some m \<Longrightarrow> lf_irn_mode lib (lf_run lib h op) = m"
  unfolding node_laws_def by blast

lemma library_attributes:
  assumes "node_laws lib"
  shows "getModeForType lib (lf_run lib h (New_type_primitive m)) = Some m"
    and "getModeForType lib (lf_run lib h (New_type_pointer t)) = Some mode_P"
    and "lf_entity_type lib (lf_run lib h (New_entity ow n t)) = t"
    and "lf_is_Member lib (lf_run lib h (New_Member p e))" "lf_Member_entity lib (lf_run lib h (New_Member p e)) = e"
    and "lf_is_Sel lib (lf_run lib h (New_Sel p i t))"
  using assms unfolding node_laws_def getModeForType_def by simp_all

lemma wp_loadFrom:
  assumes L: "block_laws lib" "node_laws lib" and "inv lib T U (calls st)"
    and "\<And>h n. inv lib T U h \<Longrightarrow> lf_irn_mode lib n = m \<Longrightarrow> Q n (st\<lparr>calls := h\<rparr>)"
  shows "wp (loadFrom lib p m t) Q st" "wp (loadElement lib p m t) Q st"
  using assms(3) unfolding loadFrom_def loadElement_def
  by (auto simp: wps irn_mode_run [OF L(2)] intro!: wp_quiet [OF L(1), where T = T and U = U] assms(4))

lemma wp_val_load:
  assumes L: "block_laws lib" "node_laws lib" and "inv lib T U (calls st)" and "load_mode lib v = Some m"
    and "\<And>h n. inv lib T U h \<Longrightarrow> lf_irn_mode lib n = m \<Longrightarrow> Q (Some n) (st\<lparr>calls := h\<rparr>)"
  shows "wp (val_load lib v) Q st"
proof (cases v)
  case (VarValue i md)
  then show ?thesis using assms(3,4) unfolding val_load_def load_mode_def
    by (auto simp: wps irn_mode_run [OF L(2)] intro!: wp_quiet [OF L(1), where T = T and U = U] assms(5))
next
  case (FieldValue n)
  then show ?thesis using assms(3,4) unfolding val_load_def load_mode_def val_getMode_def
    by (auto simp: wps intro!: wp_loadFrom [OF L, where T = T and U = U] assms(5))
next
  case (ArrayValue n t)
  then show ?thesis using assms(3,4) unfolding val_load_def load_mode_def val_getMode_def
    by (auto simp: wps intro!: wp_loadFrom [OF L, where T = T and U = U] assms(5))
next
  case (RValue n)
  have "st\<lparr>calls := calls st\<rparr> = st" by simp
  then show ?thesis using assms(3,4) assms(5) [of "calls st"] RValue unfolding val_load_def load_mode_def
    by (auto simp: wps split: option.splits)
qed

lemma wp_popLoad:
  assumes L: "block_laws lib" "node_laws lib" and "inv lib T U (calls st)" and "nodeStack st = v # vs"
    and "load_mode lib v = Some m"
    and "\<And>h n. inv lib T U h \<Longrightarrow> lf_irn_mode lib n = m \<Longrightarrow> Q n (st\<lparr>nodeStack := vs, calls := h\<rparr>)"
  shows "wp (popLoad lib) Q st"
  unfolding popLoad_def wp_bnd wp_popNode [OF assms(4)]
  by (rule wp_val_load [OF L _ assms(5)]) (use assms(3) in \<open>auto simp: wps intro!: assms(6)\<close>)

lemma wp_popNull:
  assumes "nodeStack st = RValue None # vs" and "Q () (st\<lparr>nodeStack := vs\<rparr>)"
  shows "wp (popNull lib) Q st"
  using assms by (simp add: popNull_def wps val_load_def)

section \<open>Helpers of the visits\<close>

lemma wp_makeCall:
  assumes L: "block_laws lib" and "inv lib T U (calls st)"
    and "\<And>h n. inv lib T U h \<Longrightarrow> Q n (st\<lparr>calls := h\<rparr>)"
  shows "wp (makeCall lib e as t) Q st"
  using assms(2) unfolding makeCall_def
  by (auto simp: wps intro!: wp_quiet [OF L(1), where T = T and U = U] assms(3))

lemma wp_callResult:
  assumes L: "block_laws lib" "node_laws lib" and "inv lib T U (calls st)"
    and "\<And>h n. inv lib T U h \<Longrightarrow> lf_irn_mode lib n = m \<Longrightarrow> Q n (st\<lparr>calls := h\<rparr>)"
  shows "wp (callResult lib c m) Q st"
  using assms(3) unfolding callResult_def
  by (auto simp: wps irn_mode_run [OF L(2)] intro!: wp_quiet [OF L(1), where T = T and U = U] assms(4))

lemma wp_newObject:
  assumes L: "block_laws lib" "node_laws lib" and "inv lib T U (calls st)"
    and "\<And>h n. inv lib T U h \<Longrightarrow> lf_irn_mode lib n = mode_P
      \<Longrightarrow> Q () (st\<lparr>nodeStack := RValue (Some n) # nodeStack st, calls := h\<rparr>)"
  shows "wp (newObject lib as) Q st"
  unfolding newObject_def wp_bnd wp_gets
  by (rule wp_makeCall [OF L(1) assms(3)], rule wp_callResult [OF L]) (auto simp: wps intro!: assms(4))

lemma wp_booleanToControlFlow:
  assumes L: "block_laws lib" and "inv lib T U (calls st)" and "lf_irn_mode lib n = mode_Bu" and "t \<in> T" "f \<in> T"
    and "\<And>h. inv lib T U h \<Longrightarrow> Q () (st\<lparr>calls := h\<rparr>)"
  shows "wp (booleanToControlFlow lib n t f) Q st"
  using assms(2-5) unfolding booleanToControlFlow_def
  by (auto simp: wps intro!: wp_quiet [OF L(1), where T = T and U = U] wp_add_pred [OF L(1), where T = T and U = U] assms(6))

lemma wp_controlFlowToBoolean:
  assumes L: "block_laws lib" "node_laws lib" and "inv lib T U (calls st)"
    and "\<And>h n. inv lib T U h \<Longrightarrow> lf_irn_mode lib n = mode_Bu \<Longrightarrow> Q n (st\<lparr>calls := h\<rparr>)"
  shows "wp (controlFlowToBoolean lib x y) Q st"
  unfolding controlFlowToBoolean_def wp_bnd
proof (rule wp_new_Block [OF L(1) assms(3)])
  fix h b
  assume h: "inv lib T U h" "b \<notin> T"
  have b: "b \<notin> end_blocks lib" "T - {b} = T" using h by (auto simp: inv_def inv0_def)
  show "wp (seq (call lib (Set_cur_block b)) (bnd (call lib (New_Const_long mode_Bu 0)) (\<lambda>falseNode.
      bnd (call lib (New_Const_long mode_Bu 1)) (\<lambda>trueNode. call lib (New_Phi [falseNode, trueNode] mode_Bu))))) Q (st\<lparr>calls := h\<rparr>)"
    unfolding wp_seq
  proof (rule wp_set_cur [OF L(1) _ b(1), where T = T and U = U])
    fix h1
    assume "inv lib (T - {b}) (if b \<in> T then insert b U else U) h1"
    then have h1: "inv lib T U h1" using h(2) b(2) by simp
    show "wp (bnd (call lib (New_Const_long mode_Bu 0)) (\<lambda>falseNode.
        bnd (call lib (New_Const_long mode_Bu 1)) (\<lambda>trueNode. call lib (New_Phi [falseNode, trueNode] mode_Bu)))) Q
      (st\<lparr>calls := h, calls := h1\<rparr>)"
      using h1 by (auto simp: wps irn_mode_run [OF L(2)] intro!: wp_quiet [OF L(1), where T = T and U = U] assms(4))
  qed (use h in simp)
qed

text \<open>The outcome of a visit: a value, or a jump\<close>

definition outcome :: "'n libfirm \<Rightarrow> ('n \<times> 'n) option \<Rightarrow> sem_type \<Rightarrow> 'n fvalue \<Rightarrow> bool" where
  "outcome lib r t v \<longleftrightarrow> (if r = None then val_ok lib v t else v = RValue None)"

definition context_ok :: "'n set \<Rightarrow> ('n \<times> 'n) option \<Rightarrow> sem_type \<Rightarrow> bool" where
  "context_ok T r t \<longleftrightarrow> (case r of None \<Rightarrow> True | Some (x, y) \<Rightarrow> x \<in> T \<and> y \<in> T \<and> kind t = TK_Bool)"

lemma kmode_Bool: "kind t = TK_Bool \<Longrightarrow> kmode t = Some mode_Bu"
  by (simp add: kmode_def)

lemma val_ok_RValue: "kmode t = Some (lf_irn_mode lib n) \<Longrightarrow> val_ok lib (RValue (Some n)) t"
  by (auto simp: val_ok_def load_mode_def kmode_def)

lemma wp_pushBoolean:
  assumes L: "block_laws lib" and "inv lib T U (calls st)" and "reqBoolInfo st = r # rs" "context_ok T r t"
    and "kmode t = Some (lf_irn_mode lib n)"
    and "\<And>h v. inv lib T U h \<Longrightarrow> outcome lib r t v \<Longrightarrow> Q () (st\<lparr>nodeStack := v # nodeStack st, calls := h\<rparr>)"
  shows "wp (pushBoolean lib n) Q st"
proof (cases r)
  case None
  have "st\<lparr>calls := calls st\<rparr> = st" by simp
  then show ?thesis using assms(2,3,5) assms(6) [of "calls st" "RValue (Some n)"] None
    by (simp add: pushBoolean_def wps outcome_def val_ok_RValue)
next
  case (Some tf)
  obtain x y where tf: "tf = (x, y)" "x \<in> T" "y \<in> T" "kind t = TK_Bool"
    using assms(4) Some by (auto simp: context_ok_def)
  have m: "lf_irn_mode lib n = mode_Bu" using assms(5) kmode_Bool [OF tf(4)] by simp
  have "wp (booleanToControlFlow lib n x y) (\<lambda>_. wp pushNull Q) st"
    by (rule wp_booleanToControlFlow [OF L assms(2) m tf(2,3)])
      (use Some in \<open>auto simp: wps outcome_def intro!: assms(6)\<close>)
  then show ?thesis using assms(3) Some tf(1) by (simp add: pushBoolean_def wps)
qed

lemma state_ok_class:
  assumes "state_ok lib \<Gamma> st" and "k \<in> set (pr_classes (tc_prog \<Gamma>))"
  obtains c where "classTable st (c_name k) = Some c" "class_ok lib k c"
  using assms unfolding state_ok_def tables_ok_def by blast

lemma class_entity:
  assumes "class_ok lib k c" and "has_field k f t"
  shows "\<exists>fe. find (\<lambda>fe. f_name (fst fe) = f_name f) (fieldEntities c) = Some fe
    \<and> getModeForType lib (lf_entity_type lib (snd fe)) = kmode t"
proof -
  obtain f' where f': "find (\<lambda>f'. f_name f' = f_name f) (map fst (fieldEntities c)) = Some f'" "tmode (f_type f') = kmode t"
    using assms by (auto simp: class_ok_def has_field_def split: option.splits)
  have "find p (map g xs) = map_option g (find (\<lambda>x. p (g x)) xs)" for p and g :: "field \<times> 'a \<Rightarrow> field" and xs by (induction xs) auto
  then obtain fe where fe: "find (\<lambda>fe. f_name (fst fe) = f_name f) (fieldEntities c) = Some fe" "fst fe = f'" using f'(1) by auto
  then have "fe \<in> set (fieldEntities c)" by (auto simp: find_Some_iff)
  with fe f'(2) assms(1) show ?thesis unfolding class_ok_def by (cases fe) auto
qed

lemma wp_getIrType:
  assumes L: "block_laws lib" "node_laws lib"
  shows "types_ok lib P st \<Longrightarrow> ir_typed P t \<Longrightarrow> inv lib T U (calls st)
    \<Longrightarrow> (\<And>h n. inv lib T U h \<Longrightarrow> getModeForType lib n = kmode t \<Longrightarrow> Q n (st\<lparr>calls := h\<rparr>))
    \<Longrightarrow> wp (getIrType lib t) Q st"
proof (induction "nat (dimension t)" arbitrary: t Q st rule: less_induct)
  case less
  note run = wp_quiet [OF L(1), where T = T and U = U]
  have st: "st\<lparr>calls := calls st\<rparr> = st" by simp
  show ?case
  proof (cases "kind t")
    case TK_Array
    then obtain s where s: "getArrayInnerType t = Some s" "ir_typed P s"
      using less.prems(2) by (auto simp: ir_typed.simps [of P t] split: option.splits)
    have "nat (dimension s) < nat (dimension t)"
      using s(1) by (auto simp: getArrayInnerType_def Let_def split: if_splits)
    then have "wp (getIrType lib s) (\<lambda>e. wp (bnd (call lib (New_type_array e 0)) (\<lambda>a. call lib (New_type_pointer a))) Q) st"
      by (rule less.hyps [OF _ less.prems(1) s(2) less.prems(3)])
        (use TK_Array in \<open>auto simp: wps library_attributes [OF L(2)] kmode_def intro!: run less.prems(4)\<close>)
    then show ?thesis by (simp add: getIrType.simps [of lib t] TK_Array s(1) wps)
  next
    case TK_Class
    then obtain k where k: "findClassByName P (tname t) = Some k"
      using less.prems(2) by (auto simp: ir_typed.simps [of P t])
    obtain c where "classTable st (c_name k) = Some c"
      using less.prems(1) find_by_name_mem [OF k [unfolded findClassByName_def]] unfolding types_ok_def by blast
    then show ?thesis using less.prems(1,3,4) TK_Class k unfolding getIrType.simps [of lib t]
      by (auto simp: wps types_ok_def library_attributes [OF L(2)] kmode_def intro!: run)
  qed (use less.prems st in \<open>auto simp: getIrType.simps [of lib t] ir_typed.simps [of P t] wps types_ok_def kmode_def
      dest!: less.prems(4) [of "calls st"]\<close>)
qed

lemma wp_getIrMode_ast:
  assumes "tmode t = Some m" and "Q m st"
  shows "wp (getIrMode_ast t) Q st"
  using assms by (auto simp: getIrMode_ast_def wps tmode_def bind_eq_Some_conv kmode_def getIrMode_def
      split: if_splits type_kind.splits)

section \<open>The visits\<close>

lemma wp_thisPointer:
  assumes "state_ok lib \<Gamma> st" "\<not> tc_main \<Gamma>" and "\<And>p. lf_irn_mode lib p = mode_P \<Longrightarrow> Q p st"
  shows "wp thisPointer Q st"
proof -
  obtain r m where m: "currentMethod st = Some r" "methodTable st r = Some m" "fm_params m \<noteq> []"
      "lf_irn_mode lib (hd (fm_params m)) = mode_P"
    using assms(1,2) unfolding state_ok_def method_ok_def by blast
  then show ?thesis using assms(3) [of "hd (fm_params m)"]
    by (cases "fm_params m") (auto simp: thisPointer_def currentFirmMethod_def wps)
qed

text \<open>A variable is pushed as a value that can be stored to.\<close>

lemma wp_pushVariable:
  assumes L: "block_laws lib" "node_laws lib" and "state_ok lib \<Gamma> st" "kmode t \<noteq> None" "typed_var \<Gamma> t d" "inv lib T U (calls st)"
    and "\<And>h v. inv lib T U h \<Longrightarrow> load_mode lib v = kmode t \<Longrightarrow> storable v
      \<Longrightarrow> Q () (st\<lparr>nodeStack := v # nodeStack st, calls := h\<rparr>)"
  shows "wp (pushVariable lib d) Q st"
proof -
  have st: "st\<lparr>nodeStack := x, calls := calls st\<rparr> = st\<lparr>nodeStack := x\<rparr>" for x by simp
  obtain md where md: "kmode t = Some md" using assms(4) by blast
  have var: "Q () (st\<lparr>nodeStack := VarValue i md # nodeStack st\<rparr>)" for i
    using assms(7) [OF assms(6), of "VarValue i md"] md by (simp add: st load_mode_def storable_def)
  obtain r m where m: "currentMethod st = Some r" "methodTable st r = Some m" "nParams m = tc_params \<Gamma>"
    using assms(3) unfolding state_ok_def method_ok_def by blast
  from assms(5) consider (1) p where "d = Some (Def_Parameter p)" | (2) v where "d = Some (Def_VarDecl v)"
    | (3) f where "d = Some (Def_Field f)"
    by (cases "(\<Gamma>, t, d)" rule: typed_var.cases) auto
  then show ?thesis
  proof cases
    case 1
    then show ?thesis using m md var assms(5)
      by (auto simp: pushVariable_def currentFirmMethod_def wps intro!: wp_getIrMode_ast)
  next
    case 2
    then show ?thesis using m md var assms(5)
      by (auto simp: pushVariable_def currentFirmMethod_def wps intro!: wp_getIrMode_ast)
  next
    case 3
    then have f: "d = Some (Def_Field f)" "\<not> tc_main \<Gamma>" "has_field (tc_class \<Gamma>) f t"
      using assms(5) by simp_all
    have k: "tc_class \<Gamma> \<in> set (pr_classes (tc_prog \<Gamma>))" "currentClass st = Some (c_name (tc_class \<Gamma>))"
      using assms(3) unfolding state_ok_def method_ok_def by blast+
    obtain c where c: "classTable st (c_name (tc_class \<Gamma>)) = Some c" "class_ok lib (tc_class \<Gamma>) c"
      using state_ok_class [OF assms(3) k(1)] by blast
    obtain fe where fe: "find (\<lambda>fe. f_name (fst fe) = f_name f) (fieldEntities c) = Some fe"
        "getModeForType lib (lf_entity_type lib (snd fe)) = kmode t"
      using class_entity [OF c(2) f(3)] by auto
    then show ?thesis using f(1) k(2) c(1) fe assms(6) unfolding pushVariable_def
      by (auto simp: wps library_attributes [OF L(2)] load_mode_def storable_def
          intro!: wp_thisPointer [OF assms(3) f(2)] wp_quiet [OF L(1), where T = T and U = U] assms(7))
  qed
qed

lemma wp_visitVarRef:
  assumes L: "block_laws lib" "node_laws lib" and "state_ok lib \<Gamma> st" "kmode t \<noteq> None" "typed_var \<Gamma> t d" "inv lib T U (calls st)"
    and r: "reqBoolInfo st = r # rs" "context_ok T r t"
    and Q: "\<And>h v. inv lib T U h \<Longrightarrow> outcome lib r t v \<Longrightarrow> (r = None \<longrightarrow> storable v)
      \<Longrightarrow> Q () (st\<lparr>nodeStack := v # nodeStack st, calls := h\<rparr>)"
  shows "wp (visitVarRef lib d) Q st"
proof -
  have d: "d \<noteq> Some Def_DummySystem" using assms(5) by auto
  have void: "kind t \<noteq> TK_Void" using assms(4) by (auto simp: kmode_def)
  show ?thesis unfolding visitVarRef_def if_not_P [OF d] wp_seq
  proof (rule wp_pushVariable [OF L assms(3-6)])
    fix h v
    assume v: "inv lib T U h" "load_mode lib v = kmode t" "storable v"
    show "wp (bnd popNode (\<lambda>out. bnd requiresBool (\<lambda>rb. if rb then bnd (val_getMode lib out) (\<lambda>m.
          if m = mode_Bu then bnd (bnd (val_load lib out) (the_or NullPointer)) (\<lambda>n.
            bnd currentTargets (\<lambda>(t, f). seq (booleanToControlFlow lib n t f) pushNull)) else pushNode out)
        else pushNode out))) Q (st\<lparr>nodeStack := v # nodeStack st, calls := h\<rparr>)"
    proof (cases r)
      case None
      then show ?thesis using v r void assms(4) by (auto simp: wps outcome_def val_ok_def intro!: Q)
    next
      case (Some tf)
      then obtain x y where tf: "tf = (x, y)" "x \<in> T" "y \<in> T" "kind t = TK_Bool" using r(2) by (auto simp: context_ok_def)
      have m: "load_mode lib v = Some mode_Bu" using v(2) kmode_Bool [OF tf(4)] by simp
      have g: "wp (val_getMode lib v) Q' st' = Q' mode_Bu st'" for Q' st'
        using m v(3) by (cases v) (auto simp: val_getMode_def load_mode_def storable_def wps)
      show ?thesis using Some tf(1) r(1) v(1) tf(2,3)
        by (auto simp: wps g outcome_def intro!: wp_val_load [OF L _ m, where T = T and U = U]
            wp_booleanToControlFlow [OF L(1), where T = T and U = U] Q)
    qed
  qed
qed

lemma wp_visitBoolLiteral:
  assumes L: "block_laws lib" "node_laws lib" and "inv lib T U (calls st)"
    and r: "reqBoolInfo st = r # rs" "context_ok T r t" and "kind t = TK_Bool"
    and Q: "\<And>h v. inv lib T U h \<Longrightarrow> outcome lib r t v \<Longrightarrow> Q () (st\<lparr>nodeStack := v # nodeStack st, calls := h\<rparr>)"
  shows "wp (visitBoolLiteral lib b) Q st"
proof -
  note run = wp_quiet [OF L(1), where T = T and U = U] wp_add_pred [OF L(1), where T = T and U = U]
  show ?thesis
  proof (cases r)
    case None
    then show ?thesis using r assms(3,6)
      by (auto simp: visitBoolLiteral_def wps outcome_def irn_mode_run [OF L(2)] kmode_Bool val_ok_RValue intro!: run Q)
  next
    case (Some tf)
    then show ?thesis using r assms(3)
      by (auto simp: visitBoolLiteral_def wps outcome_def context_ok_def jumpTo_def intro!: run Q)
  qed
qed

lemma wp_compareNodes:
  assumes L: "block_laws lib" "node_laws lib" and "inv lib T U (calls st)"
    and "\<And>h n. inv lib T U h \<Longrightarrow> Q (n, True) (st\<lparr>calls := h\<rparr>)"
  shows "wp (compareNodes lib x y rel) Q st"
  using assms(3) unfolding compareNodes_def
  by (auto simp: wps intro!: wp_quiet [OF L(1), where T = T and U = U] assms(4))

lemma wp_arithNode:
  assumes L: "block_laws lib" "node_laws lib" and "inv lib T U (calls st)" and "quiet op" "result_mode lib op = Some mode_Is"
    and "\<And>h n. inv lib T U h \<Longrightarrow> lf_irn_mode lib n = mode_Is \<Longrightarrow> Q (n, False) (st\<lparr>calls := h\<rparr>)"
  shows "wp (arithNode lib op) Q st"
  using assms(3-5) unfolding arithNode_def
  by (auto simp: wps irn_mode_run [OF L(2)] intro!: wp_quiet [OF L(1), where T = T and U = U] assms(6))

lemma wp_divNode:
  assumes L: "block_laws lib" "node_laws lib" and "inv lib T U (calls st)" and "\<And>s a b. quiet (op s a b)"
    and "\<And>h n. inv lib T U h \<Longrightarrow> lf_irn_mode lib n = mode_Is \<Longrightarrow> Q (n, False) (st\<lparr>calls := h\<rparr>)"
  shows "wp (divNode lib op pm pr x y) Q st"
  using assms(3,4) unfolding divNode_def
  by (auto simp: wps intro!: wp_quiet [OF L(1), where T = T and U = U] wp_arithNode [OF L, where T = T and U = U] assms(5))

lemma wp_binaryNode:
  assumes L: "block_laws lib" "node_laws lib" and "inv lib T U (calls st)"
    and b: "b \<and> comparison bop \<or> \<not> b \<and> arithmetic bop \<and> lf_irn_mode lib x = mode_Is"
    and Q: "\<And>h n. inv lib T U h \<Longrightarrow> (\<not> b \<longrightarrow> lf_irn_mode lib n = mode_Is) \<Longrightarrow> Q (n, b) (st\<lparr>calls := h\<rparr>)"
  shows "wp (binaryNode lib bop x y) Q st"
proof -
  have c: "wp (compareNodes lib x y rel) Q st" if b for rel
    using that by (intro wp_compareNodes [OF L assms(3)]) (auto dest: Q)
  have a: "wp (arithNode lib op) Q st" if "\<not> b" "quiet op" "result_mode lib op = Some mode_Is" for op
    using that by (intro wp_arithNode [OF L assms(3)]) (auto dest: Q)
  have d: "wp (divNode lib op pm pr x y) Q st" if "\<not> b" "\<And>s a b. quiet (op s a b)" for op pm pr
    using that by (intro wp_divNode [OF L assms(3)]) (auto dest: Q)
  from b show ?thesis
    by (cases bop) (auto simp: binaryNode_def comparison_def arithmetic_def intro: c a d)
qed

lemma wp_finishBinary:
  assumes L: "block_laws lib" "node_laws lib" and "inv lib T U (calls st)" and r: "reqBoolInfo st = r # rs" "context_ok T r t"
    and "if b then kind t = TK_Bool else kmode t = Some (lf_irn_mode lib n)"
    and Q: "\<And>h v. inv lib T U h \<Longrightarrow> outcome lib r t v \<Longrightarrow> Q () (st\<lparr>nodeStack := v # nodeStack st, calls := h\<rparr>)"
  shows "wp (finishBinary lib (n, b)) Q st"
proof (cases b)
  case False
  then show ?thesis using assms(6) by (auto simp: finishBinary_def intro!: wp_pushBoolean [OF L(1) assms(3) r] Q)
next
  case True
  note run = wp_quiet [OF L(1), where T = T and U = U] wp_add_pred [OF L(1), where T = T and U = U]
  show ?thesis
  proof (cases r)
    case None
    then show ?thesis using r assms(3,6) True
      by (auto simp: finishBinary_def condToBoolean_def wps outcome_def kmode_Bool val_ok_RValue
          intro!: run wp_controlFlowToBoolean [OF L, where T = T and U = U] Q)
  next
    case (Some tf)
    then show ?thesis using r assms(3) True
      by (auto simp: finishBinary_def wps outcome_def context_ok_def intro!: run Q)
  qed
qed

section \<open>Conditions\<close>

lemma inv_mono: "inv lib T U h \<Longrightarrow> U \<subseteq> U' \<Longrightarrow> inv lib T U' h"
  by (auto simp: inv_def inv0_def)

lemma inv_mature: "inv lib (T - {b}) (U - {b}) h \<Longrightarrow> b \<notin> T \<Longrightarrow> inv lib T U h"
  using inv_mono [of lib T "U - {b}" h U] by simp

lemma wp_matureCurrent:
  assumes L: "block_laws lib" and "inv lib T U (calls st)" and Q: "\<And>h. inv lib T U h \<Longrightarrow> Q () (st\<lparr>calls := h\<rparr>)"
  shows "wp (matureCurrent lib) Q st"
  unfolding matureCurrent_def wp_bnd wp_gets wp_seq
proof (rule wp_mature [OF L assms(2)])
  let ?b = "lf_cur_block lib (calls st)"
  show "?b \<notin> end_blocks lib" using assms(2) by (auto simp: inv_def inv0_def)
  fix h
  assume "inv lib (T - {?b}) (U - {?b}) h"
  then have "inv lib T U h" by (rule inv_mature) (use assms(2) in \<open>simp add: inv_def\<close>)
  then show "wp (ret ()) Q (st\<lparr>calls := h\<rparr>)" by (simp add: wps Q)
qed

text \<open>A visit of an expression of type \<open>t\<close>\<close>

definition visits :: "'n libfirm \<Rightarrow> tctx \<Rightarrow> bool \<Rightarrow> sem_type \<Rightarrow> ('n, unit) fv_m \<Rightarrow> bool" where
  "visits lib \<Gamma> lv t m \<longleftrightarrow> (\<forall>T U st r rs Q. state_ok lib \<Gamma> st \<and> inv lib T U (calls st) \<and> reqBoolInfo st = r # rs
     \<and> context_ok T r t
     \<and> (\<forall>h v. inv lib T U h \<and> outcome lib r t v \<and> (lv \<and> r = None \<longrightarrow> storable v)
          \<longrightarrow> Q () (st\<lparr>nodeStack := v # nodeStack st, calls := h\<rparr>))
     \<longrightarrow> wp m Q st)"

lemma wp_visits:
  assumes "visits lib \<Gamma> lv t m" and "state_ok lib \<Gamma> st" "inv lib T U (calls st)" "reqBoolInfo st = r # rs" "context_ok T r t"
    and "\<And>h v. inv lib T U h \<Longrightarrow> outcome lib r t v \<Longrightarrow> lv \<and> r = None \<longrightarrow> storable v
      \<Longrightarrow> Q () (st\<lparr>nodeStack := v # nodeStack st, calls := h\<rparr>)"
  shows "wp m Q st"
  using assms(1) unfolding visits_def
  by (elim allE [of _ T] allE [of _ U] allE [of _ st] allE [of _ r] allE [of _ rs] allE [of _ Q])
    (use assms(2-6) in blast)

lemma visitsI:
  assumes "\<And>T U st r rs Q. state_ok lib \<Gamma> st \<Longrightarrow> inv lib T U (calls st) \<Longrightarrow> reqBoolInfo st = r # rs \<Longrightarrow> context_ok T r t
      \<Longrightarrow> (\<And>h v. inv lib T U h \<Longrightarrow> outcome lib r t v \<Longrightarrow> lv \<and> r = None \<longrightarrow> storable v
          \<Longrightarrow> Q () (st\<lparr>nodeStack := v # nodeStack st, calls := h\<rparr>)) \<Longrightarrow> wp m Q st"
  shows "visits lib \<Gamma> lv t m"
  unfolding visits_def by (intro allI impI, elim conjE, rule assms) blast+

text \<open>An expression of type boolean with two targets\<close>

lemma wp_condition:
  assumes "visits lib \<Gamma> lv t m" "kind t = TK_Bool" and "state_ok lib \<Gamma> st" "inv lib T U (calls st)" "x \<in> T" "y \<in> T"
    and "\<And>h. inv lib T U h \<Longrightarrow> wp k Q (st\<lparr>calls := h\<rparr>)"
  shows "wp (seq (pushRequiresBool x y) (seq m (seq (popNull lib) (seq popRequiresBoolInfo k)))) Q st"
  unfolding wp_seq wp_pushRequires
proof (rule wp_visits [OF assms(1), where r = "Some (x, y)" and rs = "reqBoolInfo st"])
  fix h v
  assume "inv lib T U h" "outcome lib (Some (x, y)) t v"
  moreover have "st\<lparr>reqBoolInfo := r # reqBoolInfo st, nodeStack := v # nodeStack st, calls := h, nodeStack := nodeStack st,
      reqBoolInfo := reqBoolInfo st\<rparr> = st\<lparr>calls := h\<rparr>" for r by simp
  ultimately show "wp (popNull lib) (\<lambda>_. wp popRequiresBoolInfo (\<lambda>_. wp k Q))
      (st\<lparr>reqBoolInfo := Some (x, y) # reqBoolInfo st,
         nodeStack := v # nodeStack (st\<lparr>reqBoolInfo := Some (x, y) # reqBoolInfo st\<rparr>), calls := h\<rparr>)"
    using assms(7) [of h] by (auto simp: outcome_def wp_popRequires intro!: wp_popNull)
qed (use assms in \<open>auto simp: context_ok_def\<close>)

lemma wp_set_cur_at:
  assumes "block_laws lib" "inv lib T U (calls st)" "b \<notin> end_blocks lib"
    and "\<And>h h0. inv lib (T - {b}) (if b \<in> T then insert b U else U) h \<Longrightarrow> lf_cur_block lib h = b
      \<Longrightarrow> Q (lf_run lib h0 (Set_cur_block b)) (st\<lparr>calls := h\<rparr>)"
  shows "wp (call lib (Set_cur_block b)) Q st"
proof -
  have "inv lib (T - {b}) (if b \<in> T then insert b U else U) ((Set_cur_block b, r) # calls st)" for r
    using assms(2,3) cur_block_set [OF assms(1)] by (auto simp: inv_def inv0_def calls_simps)
  then show ?thesis unfolding wp_call by (rule assms(4)) (rule cur_block_set [OF assms(1)])
qed

text \<open>\<open>&&\<close> and \<open>||\<close>: the targets are those of the context, or two new blocks.\<close>

definition pending :: "('n \<times> 'n) option \<Rightarrow> 'n \<Rightarrow> 'n \<Rightarrow> 'n set \<Rightarrow> 'n set" where
  "pending r x y T = (if r = None then insert y (insert x T) else T)"

definition fresh_targets :: "('n \<times> 'n) option \<Rightarrow> 'n \<Rightarrow> 'n \<Rightarrow> 'n set \<Rightarrow> bool" where
  "fresh_targets r x y T \<longleftrightarrow> (if r = None then x \<notin> T \<and> y \<notin> T \<and> x \<noteq> y else r = Some (x, y) \<and> x \<in> T \<and> y \<in> T)"

lemma wp_logicalTargets:
  assumes L: "block_laws lib" and "inv lib T U (calls st)" and r: "reqBoolInfo st = r # rs" "\<And>x y. r = Some (x, y) \<Longrightarrow> x \<in> T \<and> y \<in> T"
    and Q: "\<And>h x y. inv lib (pending r x y T) U h \<Longrightarrow> fresh_targets r x y T \<Longrightarrow> Q (x, y) (st\<lparr>calls := h\<rparr>)"
  shows "wp (logicalTargets lib) Q st"
proof (cases r)
  case None
  have "wp (call lib New_immBlock) (\<lambda>x. wp (call lib New_immBlock) (\<lambda>y. Q (x, y))) st"
  proof (rule wp_new_immBlock [OF L assms(2)])
    fix h x
    assume x: "inv lib (insert x T) U h" "x \<notin> T"
    show "wp (call lib New_immBlock) (\<lambda>y. Q (x, y)) (st\<lparr>calls := h\<rparr>)"
      by (rule wp_new_immBlock [OF L, where T = "insert x T" and U = U])
        (use x None in \<open>auto simp: pending_def fresh_targets_def intro!: Q\<close>)
  qed
  then show ?thesis using None r(1) by (simp add: logicalTargets_def wps)
next
  case (Some tf)
  obtain x y where tf: "tf = (x, y)" by (cases tf)
  have "st\<lparr>calls := calls st\<rparr> = st" by simp
  then show ?thesis using Q [of x y "calls st"] assms(2) r Some tf
    by (simp add: logicalTargets_def wps pending_def fresh_targets_def)
qed

text \<open>A block that has all its predecessors becomes the current one, is left by a jump and matured.\<close>

lemma wp_jump_from:
  assumes L: "block_laws lib" and "inv lib (insert x T) U (calls st)" "x \<notin> T" "x \<notin> end_blocks lib"
    and k: "\<And>h n. inv lib T U h \<Longrightarrow> wp (k n) Q (st\<lparr>calls := h\<rparr>)"
  shows "wp (seq (call lib (Set_cur_block x)) (bnd (call lib New_Jmp) (\<lambda>n. seq (call lib (Mature_immBlock x)) (k n)))) Q st"
  unfolding wp_seq wp_bnd
proof (rule wp_set_cur [OF L assms(2,4)])
  fix h
  assume "inv lib (insert x T - {x}) (if x \<in> insert x T then insert x U else U) h"
  then have h: "inv lib T (insert x U) h" using assms(3) by simp
  show "wp (call lib New_Jmp) (\<lambda>n. wp (call lib (Mature_immBlock x)) (\<lambda>_. wp (k n) Q)) (st\<lparr>calls := h\<rparr>)"
  proof (rule wp_quiet [OF L, where T = T and U = "insert x U"])
    fix h1 h0
    assume h1: "inv lib T (insert x U) h1"
    show "wp (call lib (Mature_immBlock x)) (\<lambda>_. wp (k (lf_run lib h0 New_Jmp)) Q) (st\<lparr>calls := h, calls := h1\<rparr>)"
      by (rule wp_mature [OF L _ assms(4), where T = T and U = "insert x U"])
        (use h1 assms(3) in \<open>auto intro!: k dest: inv_mono [where U' = U]\<close>)
  qed (use h in simp_all)
qed

lemma wp_finishLogical:
  assumes L: "block_laws lib" "node_laws lib" and "inv lib (pending r x y T) U (calls st)" and r: "reqBoolInfo st = r # rs"
    and f: "fresh_targets r x y T" and E: "end_blocks lib \<subseteq> T" and t: "kind t = TK_Bool"
    and Q: "\<And>h v. inv lib T U h \<Longrightarrow> outcome lib r t v \<Longrightarrow> Q () (st\<lparr>nodeStack := v # nodeStack st, calls := h\<rparr>)"
  shows "wp (finishLogical lib x y) Q st"
proof (cases r)
  case None
  then have xy: "x \<notin> T" "y \<notin> T" "x \<noteq> y" "x \<notin> end_blocks lib" "y \<notin> end_blocks lib" "inv lib (insert y (insert x T)) U (calls st)"
    using f E assms(3) by (auto simp: fresh_targets_def pending_def)
  have last: "wp (bnd (controlFlowToBoolean lib m n) pushIrNode) Q (st\<lparr>calls := h\<rparr>)" if "inv lib T U h" for h m n
    using that t None unfolding wp_bnd
    by (intro wp_controlFlowToBoolean [OF L, where T = T and U = U])
      (auto simp: wps outcome_def kmode_Bool val_ok_RValue intro!: Q)
  have "wp (seq (call lib (Set_cur_block y)) (bnd (call lib New_Jmp) (\<lambda>m. seq (call lib (Mature_immBlock y))
      (seq (call lib (Set_cur_block x)) (bnd (call lib New_Jmp) (\<lambda>n. seq (call lib (Mature_immBlock x))
        (bnd (controlFlowToBoolean lib m n) pushIrNode))))))) Q st"
    using xy last
    by (intro wp_jump_from [OF L(1), where T = "insert x T" and U = U] wp_jump_from [OF L(1), where T = T and U = U]) auto
  then show ?thesis using None r by (simp add: finishLogical_def wp_bnd wp_requiresBool)
next
  case (Some tf)
  have "st\<lparr>calls := calls st\<rparr> = st" by simp
  then show ?thesis using Some r assms(3) Q [of "calls st" "RValue None"]
    by (simp add: finishLogical_def wps pending_def outcome_def)
qed

lemma wp_logicalRight:
  assumes L: "block_laws lib" "node_laws lib" and "visits lib \<Gamma> lv tb mb" "kind tb = TK_Bool" and t: "kind t = TK_Bool"
    and st: "state_ok lib \<Gamma> st" "inv lib (insert R (pending r x y T)) U (calls st)" "reqBoolInfo st = r # rs"
    and f: "fresh_targets r x y T" "R \<notin> pending r x y T" and E: "end_blocks lib \<subseteq> T"
    and Q: "\<And>h v. inv lib T U h \<Longrightarrow> outcome lib r t v \<Longrightarrow> Q () (st\<lparr>nodeStack := v # nodeStack st, calls := h\<rparr>)"
  shows "wp (logicalRight lib R x y mb) Q st"
proof -
  let ?T = "pending r x y T"
  have xy: "x \<in> ?T" "y \<in> ?T" and RE: "R \<notin> end_blocks lib"
    using f E by (auto simp: fresh_targets_def pending_def split: if_splits)
  have last: "wp (seq (call lib (Mature_immBlock R)) (finishLogical lib x y)) Q (st\<lparr>calls := h\<rparr>)"
    if h: "inv lib ?T (insert R U) h" for h
    unfolding wp_seq
  proof (rule wp_mature [OF L(1) _ RE, where T = ?T and U = "insert R U"])
    fix h1
    assume "inv lib (?T - {R}) (insert R U - {R}) h1"
    then have "inv lib ?T U h1" using f(2) by (auto dest: inv_mono [where U' = U])
    then show "wp (finishLogical lib x y) Q (st\<lparr>calls := h, calls := h1\<rparr>)"
      using st(3) f E t by (intro wp_finishLogical [OF L, where r = r and rs = rs and T = T and U = U and t = t]) (auto intro!: Q)
  qed (use h in simp)
  show ?thesis unfolding logicalRight_def wp_seq [of "call lib (Set_cur_block R)"]
  proof (rule wp_set_cur [OF L(1) st(2) RE])
    fix h
    assume "inv lib (insert R ?T - {R}) (if R \<in> insert R ?T then insert R U else U) h"
    then have "inv lib ?T (insert R U) h" using f(2) by simp
    then show "wp (seq (pushRequiresBool x y) (seq mb (seq (popNull lib) (seq popRequiresBoolInfo
      (seq (call lib (Mature_immBlock R)) (finishLogical lib x y)))))) Q (st\<lparr>calls := h\<rparr>)"
      using xy st(1) last by (intro wp_condition [OF assms(3,4), where T = ?T and U = "insert R U"]) simp_all
  qed
qed

lemma wp_logical:
  assumes L: "block_laws lib" "node_laws lib" and "visits lib \<Gamma> lv ta ma" "kind ta = TK_Bool"
    and "visits lib \<Gamma> lv' tb mb" "kind tb = TK_Bool" and t: "kind t = TK_Bool"
    and st: "state_ok lib \<Gamma> st" "inv lib T U (calls st)" "reqBoolInfo st = r # rs" "context_ok T r t"
    and Q: "\<And>h v. inv lib T U h \<Longrightarrow> outcome lib r t v \<Longrightarrow> Q () (st\<lparr>nodeStack := v # nodeStack st, calls := h\<rparr>)"
  shows "wp (visitLogical lib c ma mb) Q st"
  unfolding visitLogical_def wp_bnd
proof (rule wp_new_immBlock [OF L(1) st(2)], rule wp_logicalTargets [OF L(1)])
  fix h R
  assume R: "inv lib (insert R T) U h" "R \<notin> T"
  show "inv lib (insert R T) U (calls (st\<lparr>calls := h\<rparr>))" "reqBoolInfo (st\<lparr>calls := h\<rparr>) = r # rs" using R(1) st(3) by simp_all
  show "x \<in> insert R T \<and> y \<in> insert R T" if "r = Some (x, y)" for x y using st(4) that by (auto simp: context_ok_def)
  fix h1 x y
  let ?T = "insert R (pending r x y T)"
  assume xy: "inv lib (pending r x y (insert R T)) U h1" "fresh_targets r x y (insert R T)"
  have E: "end_blocks lib \<subseteq> T" using st(2) by (simp add: inv_def inv0_def)
  have f: "fresh_targets r x y T" "R \<notin> pending r x y T" "x \<in> ?T" "y \<in> ?T" "R \<in> ?T"
    using xy(2) R(2) st(4) by (auto simp: fresh_targets_def pending_def context_ok_def split: if_splits)
  have h1: "inv lib ?T U h1" using xy(1) by (auto simp: pending_def insert_commute split: if_splits)
  have "wp (seq (pushRequiresBool x' y') (seq ma (seq (popNull lib) (seq popRequiresBoolInfo
      (seq (matureCurrent lib) (logicalRight lib R x y mb)))))) Q (st\<lparr>calls := h, calls := h1\<rparr>)"
    if "x' \<in> ?T" "y' \<in> ?T" for x' y'
  proof (rule wp_condition [OF assms(3,4), where T = ?T and U = U])
    fix h2
    assume "inv lib ?T U h2"
    then show "wp (seq (matureCurrent lib) (logicalRight lib R x y mb)) Q (st\<lparr>calls := h, calls := h1, calls := h2\<rparr>)"
      unfolding wp_seq using st(1,3) f E
      by (intro wp_matureCurrent [OF L(1), where T = ?T and U = U]
          wp_logicalRight [OF L assms(5,6) t, where T = T and U = U and r = r and rs = rs]) (simp_all add: Q)
  qed (use st(1) h1 that in simp_all)
  then show "wp (case (x, y) of (tt, ft) \<Rightarrow> seq (if c then pushRequiresBool R ft else pushRequiresBool tt R)
      (seq ma (seq (popNull lib) (seq popRequiresBoolInfo (seq (matureCurrent lib) (logicalRight lib R tt ft mb))))))
      Q (st\<lparr>calls := h, calls := h1\<rparr>)"
    using f by simp
qed

lemma wp_swapPreds:
  assumes L: "block_laws lib" and "inv lib T U (calls st)" and Q: "\<And>h. inv lib T U h \<Longrightarrow> Q () (st\<lparr>calls := h\<rparr>)"
  shows "wp (swapPreds lib x y) Q st"
proof -
  have "st\<lparr>calls := calls st\<rparr> = st" by simp
  then have "Q () st" using Q [OF assms(2)] by simp
  then show ?thesis using assms(2)
    by (auto simp: swapPreds_def wps Let_def intro!: wp_quiet [OF L, where T = T and U = U] Q)
qed

text \<open>Quiet calls in a known block\<close>

lemma wp_quiet_at:
  assumes "block_laws lib" "inv lib T U (calls st)" "lf_cur_block lib (calls st) = b" and "quiet op"
    and "\<And>h h0. inv lib T U h \<Longrightarrow> lf_cur_block lib h = b \<Longrightarrow> Q (lf_run lib h0 op) (st\<lparr>calls := h\<rparr>)"
  shows "wp (call lib op) Q st"
  unfolding wp_call
  by (rule assms(5) [OF inv_quiet [OF assms(1,4,2)]]) (simp add: cur_block_keep [OF assms(1) quiet_moves [OF assms(4)]] assms(3))

lemma wp_notPhi:
  assumes L: "block_laws lib" "node_laws lib" and "inv lib (insert b T) U (calls st)" "b \<notin> T" "end_blocks lib \<subseteq> T"
    and Q: "\<And>h n. inv lib T U h \<Longrightarrow> lf_irn_mode lib n = mode_Bu
      \<Longrightarrow> Q () (st\<lparr>nodeStack := RValue (Some n) # nodeStack st, calls := h\<rparr>)"
  shows "wp (notPhi lib b) Q st"
  unfolding notPhi_def wp_seq [of "matureCurrent lib"]
proof (rule wp_matureCurrent [OF L(1) assms(3)])
  have b: "b \<notin> end_blocks lib" using assms(4,5) by blast
  have last: "wp (matureCurrent lib) Q (st\<lparr>nodeStack := RValue (Some n) # nodeStack st, calls := h\<rparr>)"
    if h: "inv lib T (insert b U) h" "lf_cur_block lib h = b" "lf_irn_mode lib n = mode_Bu" for h n
    unfolding matureCurrent_def wp_bnd wp_gets wp_seq
  proof (rule wp_mature [OF L(1), where T = T and U = "insert b U"])
    fix h1
    assume "inv lib (T - {lf_cur_block lib (calls (st\<lparr>nodeStack := RValue (Some n) # nodeStack st, calls := h\<rparr>))})
      (insert b U - {lf_cur_block lib (calls (st\<lparr>nodeStack := RValue (Some n) # nodeStack st, calls := h\<rparr>))}) h1"
    then have "inv lib T U h1" using h(2) assms(4) by (auto dest: inv_mono [where U' = U])
    then show "wp (ret ()) Q (st\<lparr>nodeStack := RValue (Some n) # nodeStack st, calls := h, calls := h1\<rparr>)"
      using h(3) by (simp add: wps Q)
  qed (use h b in simp_all)
  fix h
  assume h: "inv lib (insert b T) U h"
  show "wp (seq (call lib (Set_cur_block b)) (bnd (call lib (New_Const_long mode_Bu 1)) (\<lambda>trueNode.
     bnd (call lib (New_Const_long mode_Bu 0)) (\<lambda>falseNode. bnd (call lib (New_Phi [trueNode, falseNode] mode_Bu)) (\<lambda>phi.
     seq (pushIrNode phi) (matureCurrent lib)))))) Q (st\<lparr>calls := h\<rparr>)"
    unfolding wp_seq [of "call lib (Set_cur_block b)"]
  proof (rule wp_set_cur_at [OF L(1) _ b, where T = "insert b T" and U = U])
    fix h1
    assume h1: "inv lib (insert b T - {b}) (if b \<in> insert b T then insert b U else U) h1" "lf_cur_block lib h1 = b"
    then have "inv lib T (insert b U) h1" using assms(4) by simp
    then show "wp (bnd (call lib (New_Const_long mode_Bu 1)) (\<lambda>trueNode.
       bnd (call lib (New_Const_long mode_Bu 0)) (\<lambda>falseNode. bnd (call lib (New_Phi [trueNode, falseNode] mode_Bu)) (\<lambda>phi.
       seq (pushIrNode phi) (matureCurrent lib))))) Q (st\<lparr>calls := h, calls := h1\<rparr>)"
      using h1(2) by (auto simp: wps irn_mode_run [OF L(2)]
          intro!: wp_quiet_at [OF L(1), where T = T and U = "insert b U" and b = b] last)
  qed (use h in simp)
qed

end
