(* ===== verification/Graph_Visit.thy ===== *)
theory Graph_Visit
  imports Graph_Expr
begin

text \<open>
  The visits of typed expressions: no assertion fails, a visit leaves one value of the mode of its type, or
  jumps to one of the two targets, and the protocol for blocks is kept.
\<close>

section \<open>Typed expressions are visited\<close>

lemma context_None: "context_ok T r t \<Longrightarrow> kind t \<noteq> TK_Bool \<Longrightarrow> r = None"
  by (cases r) (auto simp: context_ok_def)

lemma context_of_None [simp]: "context_ok T None t"
  by (simp add: context_ok_def)

text \<open>An operand: a visit that leaves a value, and its load\<close>

lemma wp_operand:
  assumes L: "block_laws lib" "node_laws lib" and "visits lib \<Gamma> lv t m" "kmode t = Some md"
    and st: "state_ok lib \<Gamma> st" "inv lib T U (calls st)" "reqBoolInfo st = None # rs"
    and k: "\<And>h n. inv lib T U h \<Longrightarrow> lf_irn_mode lib n = md \<Longrightarrow> wp (k n) Q (st\<lparr>calls := h\<rparr>)"
  shows "wp (seq m (bnd (popLoad lib) k)) Q st"
  unfolding wp_seq
proof (rule wp_visits [OF assms(3) st(1,2,3)])
  fix h v
  assume h: "inv lib T U h" "outcome lib None t v"
  then have v: "load_mode lib v = Some md" using assms(4) by (auto simp: outcome_def val_ok_def kmode_def split: if_splits)
  show "wp (bnd (popLoad lib) k) Q (st\<lparr>nodeStack := v # nodeStack st, calls := h\<rparr>)"
    unfolding wp_bnd
  proof (rule wp_popLoad [OF L _ _ v, where T = T and U = U and vs = "nodeStack st"])
    fix h1 n
    assume "inv lib T U h1" "lf_irn_mode lib n = md"
    moreover have "st\<lparr>nodeStack := v # nodeStack st, calls := h, nodeStack := nodeStack st, calls := h1\<rparr> = st\<lparr>calls := h1\<rparr>" by simp
    ultimately show "wp (k n) Q (st\<lparr>nodeStack := v # nodeStack st, calls := h, nodeStack := nodeStack st, calls := h1\<rparr>)"
      using k by simp
  qed (use h in simp_all)
qed simp

text \<open>Visits that are not reached with targets\<close>

lemma visits_valueI:
  assumes "kind t \<noteq> TK_Bool"
    and "\<And>T U st rs Q. state_ok lib \<Gamma> st \<Longrightarrow> inv lib T U (calls st) \<Longrightarrow> reqBoolInfo st = None # rs
      \<Longrightarrow> (\<And>h v. inv lib T U h \<Longrightarrow> val_ok lib v t \<Longrightarrow> Q () (st\<lparr>nodeStack := v # nodeStack st, calls := h\<rparr>)) \<Longrightarrow> wp m Q st"
  shows "visits lib \<Gamma> False t m"
proof (rule visitsI)
  fix T U st r rs Q
  assume "state_ok lib \<Gamma> st" "inv lib T U (calls st)" "reqBoolInfo st = r # rs" and r: "context_ok T r t"
    and Q: "\<And>h v. inv lib T U h \<Longrightarrow> outcome lib r t v \<Longrightarrow> False \<and> r = None \<longrightarrow> storable v
      \<Longrightarrow> Q () (st\<lparr>nodeStack := v # nodeStack st, calls := h\<rparr>)"
  with context_None [OF r assms(1)] show "wp m Q st"
    by (intro assms(2) [of st T U rs Q]) (auto simp: outcome_def)
qed

lemma visits_const:
  assumes L: "block_laws lib" "node_laws lib" and "kind t \<noteq> TK_Bool" "kmode t = Some m"
  shows "visits lib \<Gamma> False t (bnd (call lib (New_Const_long m v)) pushIrNode)"
proof (rule visits_valueI [OF assms(3)])
  fix T U st rs Q
  assume "state_ok lib \<Gamma> st" and st: "inv lib T U (calls st)"
    and Q: "\<And>h v. inv lib T U h \<Longrightarrow> val_ok lib v t \<Longrightarrow> Q () (st\<lparr>nodeStack := v # nodeStack st, calls := h\<rparr>)"
  from st assms(4) show "wp (bnd (call lib (New_Const_long m v)) pushIrNode) Q st"
    by (auto simp: wps irn_mode_run [OF L(2)] intro!: wp_quiet [OF L(1), where T = T and U = U] Q val_ok_RValue)
qed

lemma visits_literals:
  assumes L: "block_laws lib" "node_laws lib"
  shows "kind t = TK_Int \<Longrightarrow> visits lib \<Gamma> False t (visitExpr lib (IntLiteral l t v))"
    and "kind t = TK_Bool \<Longrightarrow> visits lib \<Gamma> False t (visitExpr lib (BoolLiteral l t b))"
    and "kind t = TK_Null \<Longrightarrow> visits lib \<Gamma> False t (visitExpr lib (NullLiteral l t))"
    and "kind t = TK_Class \<Longrightarrow> \<not> tc_main \<Gamma> \<Longrightarrow> visits lib \<Gamma> False t (visitExpr lib (ThisLiteral l t))"
proof -
  show "visits lib \<Gamma> False t (visitExpr lib (IntLiteral l t v))" if "kind t = TK_Int"
    using that by (simp add: visits_const [OF L] kmode_def)
  show "visits lib \<Gamma> False t (visitExpr lib (NullLiteral l t))" if "kind t = TK_Null"
    using that by (simp add: visits_const [OF L] kmode_def)
  show "visits lib \<Gamma> False t (visitExpr lib (BoolLiteral l t b))" if "kind t = TK_Bool"
    using that by (intro visitsI) (auto intro!: wp_visitBoolLiteral [OF L])
  show "visits lib \<Gamma> False t (visitExpr lib (ThisLiteral l t))" if "kind t = TK_Class" "\<not> tc_main \<Gamma>"
  proof (rule visits_valueI)
    fix T U st rs Q
    assume a: "state_ok lib \<Gamma> st" "inv lib T U (calls st)"
      and Q: "\<And>h v. inv lib T U h \<Longrightarrow> val_ok lib v t \<Longrightarrow> Q () (st\<lparr>nodeStack := v # nodeStack st, calls := h\<rparr>)"
    have "st\<lparr>nodeStack := s, calls := calls st\<rparr> = st\<lparr>nodeStack := s\<rparr>" for s by simp
    then have "Q () (st\<lparr>nodeStack := RValue (Some p) # nodeStack st\<rparr>)" if "lf_irn_mode lib p = mode_P" for p
      using Q [OF a(2), of "RValue (Some p)"] val_ok_RValue [of t lib p] that \<open>kind t = TK_Class\<close> by (simp add: kmode_def)
    then show "wp (visitExpr lib (ThisLiteral l t)) Q st"
      by (auto simp: wps intro!: wp_thisPointer [OF a(1) that(2)])
  qed (use that in simp)
qed

lemma visits_not:
  assumes L: "block_laws lib" "node_laws lib" and "visits lib \<Gamma> lv te (visitExpr lib e)" "kind te = TK_Bool" and t: "kind t = TK_Bool"
  shows "visits lib \<Gamma> False t (visitExpr lib (UnaryExpression l t e UOp_Not))"
proof (rule visitsI)
  fix T U st r rs Q
  assume st: "state_ok lib \<Gamma> st" "inv lib T U (calls st)" "reqBoolInfo st = r # rs" "context_ok T r t"
    and Q: "\<And>h v. inv lib T U h \<Longrightarrow> outcome lib r t v \<Longrightarrow> False \<and> r = None \<longrightarrow> storable v
      \<Longrightarrow> Q () (st\<lparr>nodeStack := v # nodeStack st, calls := h\<rparr>)"
  have E: "end_blocks lib \<subseteq> T" using st(2) by (simp add: inv_def inv0_def)
  show "wp (visitExpr lib (UnaryExpression l t e UOp_Not)) Q st"
  proof (cases r)
    case None
    have body: "wp (seq (pushRequiresBool b b) (seq (visitExpr lib e) (seq (popNull lib) (seq popRequiresBoolInfo
        (seq (swapPreds lib b b) (notPhi lib b)))))) Q (st\<lparr>calls := h\<rparr>)" if b: "inv lib (insert b T) U h" "b \<notin> T" for h b
    proof (rule wp_condition [OF assms(3,4), where T = "insert b T" and U = U])
      fix h1
      assume "inv lib (insert b T) U h1"
      then show "wp (seq (swapPreds lib b b) (notPhi lib b)) Q (st\<lparr>calls := h, calls := h1\<rparr>)"
        unfolding wp_seq using b(2) E t None
        by (intro wp_swapPreds [OF L(1), where T = "insert b T" and U = U] wp_notPhi [OF L, where T = T and U = U])
          (auto simp: outcome_def kmode_Bool intro!: Q val_ok_RValue)
    qed (use st(1) b in simp_all)
    have "wp (matureCurrent lib) (\<lambda>_. wp (call lib New_immBlock) (\<lambda>b. wp (seq (pushRequiresBool b b) (seq (visitExpr lib e)
        (seq (popNull lib) (seq popRequiresBoolInfo (seq (swapPreds lib b b) (notPhi lib b)))))) Q)) st"
      using body by (intro wp_matureCurrent [OF L(1) st(2)] wp_new_immBlock [OF L(1), where T = T and U = U]) simp_all
    then show ?thesis using None st(3) by (simp add: wp_bnd wp_requiresBool wp_seq [of "matureCurrent lib"] wp_fun(1))
  next
    case (Some tf)
    then obtain x y where xy: "tf = (x, y)" "x \<in> T" "y \<in> T" using st(4) by (auto simp: context_ok_def)
    have "wp (seq (pushRequiresBool y x) (seq (visitExpr lib e) (seq (popNull lib) (seq popRequiresBoolInfo
        (seq (swapPreds lib x y) pushNull))))) Q st"
      using xy(2,3) st(1,2) Some
      by (intro wp_condition [OF assms(3,4), where T = T and U = U])
        (auto simp: wps outcome_def intro!: wp_swapPreds [OF L(1), where T = T and U = U] Q)
    then show ?thesis using Some st(3) xy(1) by (simp add: wp_bnd wp_requiresBool wp_currentTargets)
  qed
qed

lemma visits_neg:
  assumes L: "block_laws lib" "node_laws lib" and e: "visits lib \<Gamma> lv te (visitExpr lib e)" "kind te = TK_Int" and t: "kind t = TK_Int"
  shows "visits lib \<Gamma> False t (visitExpr lib (UnaryExpression l t e UOp_Neg))"
proof (rule visits_valueI)
  fix T U st rs Q
  assume st: "state_ok lib \<Gamma> st" "inv lib T U (calls st)" "reqBoolInfo st = None # rs"
    and Q: "\<And>h v. inv lib T U h \<Longrightarrow> val_ok lib v t \<Longrightarrow> Q () (st\<lparr>nodeStack := v # nodeStack st, calls := h\<rparr>)"
  have te: "kmode te = Some mode_Is" using e(2) by (simp add: kmode_def)
  have "wp (seq (visitExpr lib e) (bnd (popLoad lib) (\<lambda>n. bnd (call lib (New_Minus n)) pushIrNode))) Q st"
    by (rule wp_operand [OF L e(1) te st])
      (use t in \<open>auto simp: wps irn_mode_run [OF L(2)] kmode_def intro!: wp_quiet [OF L(1), where T = T and U = U] Q val_ok_RValue\<close>)
  then show "wp (visitExpr lib (UnaryExpression l t e UOp_Neg)) Q st" by simp
qed (use t in simp)

lemma update_id [simp]:
  "st\<lparr>nodeStack := s, calls := calls st\<rparr> = st\<lparr>nodeStack := s\<rparr>" for st :: "'n fvisitor"
  by simp

text \<open>The operands of an expression are visited with a new context, which is taken away again afterwards.\<close>

lemma restore_context [simp]:
  "reqBoolInfo st = r # rs \<Longrightarrow> st\<lparr>reqBoolInfo := r # rs\<rparr> = st" for st :: "'n fvisitor"
  by simp

lemma visits_newObject:
  assumes L: "block_laws lib" "node_laws lib" and t: "kind t = TK_Class" and "k \<in> set (pr_classes (tc_prog \<Gamma>))" "d = Some (c_name k)"
  shows "visits lib \<Gamma> False t (visitExpr lib (NewObjectExpression l t n d))"
proof (rule visits_valueI)
  fix T U st rs Q
  assume st: "state_ok lib \<Gamma> st" "inv lib T U (calls st)"
    and Q: "\<And>h v. inv lib T U h \<Longrightarrow> val_ok lib v t \<Longrightarrow> Q () (st\<lparr>nodeStack := v # nodeStack st, calls := h\<rparr>)"
  obtain c where "classTable st (c_name k) = Some c" using state_ok_class [OF st(1) assms(4)] by blast
  then show "wp (visitExpr lib (NewObjectExpression l t n d)) Q st"
    using st(2) t assms(5)
    by (auto simp: wps kmode_def intro!: wp_quiet [OF L(1), where T = T and U = U] wp_newObject [OF L, where T = T and U = U]
        Q val_ok_RValue)
qed (use t in simp)

lemma wp_value:
  assumes e: "visits lib \<Gamma> lv t m" and st: "state_ok lib \<Gamma> st" "inv lib T U (calls st)"
    and k: "\<And>h v. inv lib T U h \<Longrightarrow> val_ok lib v t \<Longrightarrow> wp k Q (st\<lparr>nodeStack := v # nodeStack st, calls := h\<rparr>)"
  shows "wp (seq pushRequiresNonBool (seq m (seq popRequiresBoolInfo k))) Q st"
  unfolding wp_seq wp_pushRequires
proof (rule wp_visits [OF e, where T = T and U = U and r = None and rs = "reqBoolInfo st"])
  fix h v
  assume "inv lib T U h" "outcome lib None t v"
  with k [of h v] show "wp popRequiresBoolInfo (\<lambda>_. wp k Q)
      (st\<lparr>reqBoolInfo := None # reqBoolInfo st, nodeStack := v # nodeStack (st\<lparr>reqBoolInfo := None # reqBoolInfo st\<rparr>), calls := h\<rparr>)"
    by (simp add: wp_popRequires outcome_def)
qed (use st in simp_all)

lemma val_ok_load: "val_ok lib v t \<Longrightarrow> kmode t = Some m \<Longrightarrow> load_mode lib v = Some m"
  by (auto simp: val_ok_def kmode_def split: if_splits)

lemma visits_newArray:
  assumes L: "block_laws lib" "node_laws lib" and t: "kind t = TK_Array" and e: "visits lib \<Gamma> lv te (visitExpr lib e)" "kind te = TK_Int"
    and s: "Option.bind (getSemaType ty) getArrayInnerType = Some s" "ir_typed (tc_prog \<Gamma>) s"
  shows "visits lib \<Gamma> False t (visitExpr lib (NewArrayExpression l t ty e))"
proof (rule visits_valueI)
  fix T U st rs Q
  assume st: "state_ok lib \<Gamma> st" "inv lib T U (calls st)" "reqBoolInfo st = None # rs"
    and Q: "\<And>h v. inv lib T U h \<Longrightarrow> val_ok lib v t \<Longrightarrow> Q () (st\<lparr>nodeStack := v # nodeStack st, calls := h\<rparr>)"
  have tab: "types_ok lib (tc_prog \<Gamma>) (st\<lparr>nodeStack := x, calls := h\<rparr>)" for x h
    using st(1) by (simp add: state_ok_def tables_ok_def types_ok_def)
  let ?rest = "bnd (the_or FailedAssert (Option.bind (getSemaType ty) getArrayInnerType)) (\<lambda>inner.
     bnd (getIrType lib inner) (\<lambda>elementType. bnd (popLoad lib) (\<lambda>sz. bnd (call lib (New_Conv sz mode_Ls)) (\<lambda>cnt.
     bnd (call lib (New_Size mode_Ls elementType)) (\<lambda>elemSize. newObject lib [cnt, elemSize])))))"
  have rest: "wp ?rest Q (st\<lparr>nodeStack := v # nodeStack st, calls := h\<rparr>)"
    if h: "inv lib T U h" and v: "load_mode lib v = Some mode_Is" for h v
    unfolding s(1) wps using h t
    by (auto simp: wps kmode_def intro!: wp_getIrType [OF L tab s(2), where T = T and U = U] wp_popLoad [OF L _ _ v, where T = T and U = U]
        wp_quiet [OF L(1), where T = T and U = U] wp_newObject [OF L, where T = T and U = U] Q val_ok_RValue)
  have te: "kmode te = Some mode_Is" using e(2) by (simp add: kmode_def)
  have "wp (seq pushRequiresNonBool (seq (visitExpr lib e) (seq popRequiresBoolInfo ?rest))) Q st"
    using val_ok_load [OF _ te] rest by (intro wp_value [OF e(1) st(1,2)]) blast
  then show "wp (visitExpr lib (NewArrayExpression l t ty e)) Q st" by simp
qed (use t in simp)

text \<open>A place in memory as the outcome\<close>

lemma wp_place:
  assumes L: "block_laws lib" "node_laws lib" and st: "inv lib T U (calls st)" "reqBoolInfo st = r # rs" "context_ok T r t"
    and v: "load_mode lib v = kmode t" "kmode t \<noteq> None" "storable v"
    and Q: "\<And>h v. inv lib T U h \<Longrightarrow> outcome lib r t v \<Longrightarrow> r = None \<longrightarrow> storable v
      \<Longrightarrow> Q () (st\<lparr>nodeStack := v # nodeStack st, calls := h\<rparr>)"
  shows "wp (bnd requiresBool (\<lambda>rb. if rb then bnd (bnd (val_load lib v) (the_or NullPointer)) (\<lambda>n. pushBoolean lib n)
    else pushNode v)) Q st"
proof (cases r)
  case None
  have "outcome lib r t v" using v None by (auto simp: outcome_def val_ok_def kmode_def)
  then show ?thesis using Q [OF st(1), of v] v(3) st(2) None by (simp add: wps)
next
  case (Some tf)
  obtain m where m: "kmode t = Some m" "load_mode lib v = Some m" using v by auto
  show ?thesis using st m(1) Some
    by (auto simp: wps intro!: wp_val_load [OF L _ m(2), where T = T and U = U]
        wp_pushBoolean [OF L(1), where T = T and U = U and r = r and rs = rs and t = t] Q)
qed

lemma find_refersTo: "find (\<lambda>fe. refersTo (Some (FR_Field c f)) (fst fe)) fes = find (\<lambda>fe. f_name (fst fe) = f_name f) fes"
  by simp

lemma visits_fieldAccess:
  assumes L: "block_laws lib" "node_laws lib" and e: "visits lib \<Gamma> lv (targetType e) (visitExpr lib e)" "kind (targetType e) = TK_Class"
    and t: "kmode t \<noteq> None" and k: "findClassByName (tc_prog \<Gamma>) (tname (targetType e)) = Some k" "has_field k f t"
  shows "visits lib \<Gamma> True t (visitExpr lib (FieldAccess l t e n (Some (FR_Field c' f))))"
proof (rule visitsI)
  fix T U st r rs Q
  assume st: "state_ok lib \<Gamma> st" "inv lib T U (calls st)" "reqBoolInfo st = r # rs" "context_ok T r t"
    and Q: "\<And>h v. inv lib T U h \<Longrightarrow> outcome lib r t v \<Longrightarrow> True \<and> r = None \<longrightarrow> storable v
      \<Longrightarrow> Q () (st\<lparr>nodeStack := v # nodeStack st, calls := h\<rparr>)"
  obtain c where c: "classTable st (c_name k) = Some c" "class_ok lib k c"
    using state_ok_class [OF st(1)] find_by_name_mem [OF k(1) [unfolded findClassByName_def]] by blast
  have P: "currentProgram st = tc_prog \<Gamma>" using st(1) by (simp add: state_ok_def tables_ok_def types_ok_def)
  obtain fe where fe: "find (\<lambda>fe. f_name (fst fe) = f_name f) (fieldEntities c) = Some fe" "getModeForType lib (lf_entity_type lib (snd fe)) = kmode t"
    using class_entity [OF c(2) k(2)] by auto
  have te: "kmode (targetType e) = Some mode_P" using e(2) by (simp add: kmode_def)
  let ?rest = "bnd (popLoad lib) (\<lambda>leftNode. seq (asserts (lf_irn_mode lib leftNode = mode_P))
       (bnd (the_or FailedAssert (find (\<lambda>fe. f_name (fst fe) = f_name f) (fieldEntities c))) (\<lambda>fe.
        bnd (call lib (New_Member leftNode (snd fe))) (\<lambda>member. bnd requiresBool (\<lambda>rb.
        if rb then bnd (bnd (val_load lib (FieldValue member)) (the_or NullPointer)) (\<lambda>n. pushBoolean lib n)
        else pushNode (FieldValue member))))))"
  have "wp (seq pushRequiresNonBool (seq (visitExpr lib e) (seq popRequiresBoolInfo ?rest))) Q st"
  proof (rule wp_value [OF e(1) st(1,2)])
    fix h v
    assume h: "inv lib T U h" and "val_ok lib v (targetType e)"
    with te have v: "load_mode lib v = Some mode_P" by (intro val_ok_load)
    have member: "wp (bnd requiresBool (\<lambda>rb. if rb then bnd (bnd (val_load lib (FieldValue member)) (the_or NullPointer)) (\<lambda>n. pushBoolean lib n)
        else pushNode (FieldValue member))) Q (st\<lparr>calls := h1\<rparr>)"
      if "inv lib T U h1" "lf_Member_entity lib member = snd fe" for h1 member
      by (rule wp_place [OF L, where T = T and U = U and r = r and rs = rs and t = t])
        (use that st(3,4) fe(2) t in \<open>auto simp: load_mode_def storable_def intro!: Q\<close>)
    have id: "st\<lparr>nodeStack := v # nodeStack st, calls := h, nodeStack := nodeStack st, calls := h2, calls := h3\<rparr> = st\<lparr>calls := h3\<rparr>" for h2 h3
      by simp
    show "wp ?rest Q (st\<lparr>nodeStack := v # nodeStack st, calls := h\<rparr>)"
      unfolding wp_bnd [of "popLoad lib"]
    proof (rule wp_popLoad [OF L _ _ v, where T = T and U = U])
      fix h2 n
      assume "inv lib T U h2" "lf_irn_mode lib n = mode_P"
      then show "wp (seq (asserts (lf_irn_mode lib n = mode_P)) (bnd (the_or FailedAssert (find (\<lambda>fe. f_name (fst fe) = f_name f) (fieldEntities c)))
          (\<lambda>fe. bnd (call lib (New_Member n (snd fe))) (\<lambda>member. bnd requiresBool (\<lambda>rb.
            if rb then bnd (bnd (val_load lib (FieldValue member)) (the_or NullPointer)) (\<lambda>n. pushBoolean lib n)
            else pushNode (FieldValue member)))))) Q
          (st\<lparr>nodeStack := v # nodeStack st, calls := h, nodeStack := nodeStack st, calls := h2\<rparr>)"
        unfolding wp_seq wp_asserts wp_bnd [of "the_or e x" for e x] wp_the_or fe(1) wp_bnd [of "call lib op" for op]
        by (auto simp: library_attributes [OF L(2)] simp del: wp_fun intro!: wp_quiet [OF L(1), where T = T and U = U] member)
    qed (use h in simp_all)
  qed
  then show "wp (visitExpr lib (FieldAccess l t e n (Some (FR_Field c' f)))) Q st"
    using k(1) c(1) P by (simp add: wp_bnd [of "gets g" for g] wp_gets wp_bnd [of "the_or e x" for e x] wp_the_or find_refersTo del: refersTo.simps)
qed

text \<open>Operands in a context of their own\<close>

lemma wp_operand_at:
  assumes L: "block_laws lib" "node_laws lib" and "visits lib \<Gamma> lv t m" "kmode t = Some md"
    and st: "state_ok lib \<Gamma> st" "inv lib T U h0"
    and k: "\<And>h n. inv lib T U h \<Longrightarrow> lf_irn_mode lib n = md \<Longrightarrow> wp (k n) Q (st\<lparr>reqBoolInfo := None # rs, calls := h\<rparr>)"
  shows "wp (seq m (bnd (popLoad lib) k)) Q (st\<lparr>reqBoolInfo := None # rs, calls := h0\<rparr>)"
  using st k by (intro wp_operand [OF L assms(3,4), where T = T and U = U and rs = rs]) simp_all

lemma wp_operand_first:
  assumes L: "block_laws lib" "node_laws lib" and "visits lib \<Gamma> lv t m" "kmode t = Some md"
    and st: "state_ok lib \<Gamma> st" "inv lib T U (calls st)"
    and k: "\<And>h n. inv lib T U h \<Longrightarrow> lf_irn_mode lib n = md
      \<Longrightarrow> wp (k n) Q (st\<lparr>reqBoolInfo := None # reqBoolInfo st, calls := h\<rparr>)"
  shows "wp (seq pushRequiresNonBool (seq m (bnd (popLoad lib) k))) Q st"
  unfolding wp_seq [of pushRequiresNonBool] wp_pushRequires
  using wp_operand_at [OF L assms(3,4) st, where rs = "reqBoolInfo st" and k = k and Q = Q] k by simp

lemma wp_end_context:
  assumes "wp k Q (st\<lparr>calls := h\<rparr>)"
  shows "wp (seq popRequiresBoolInfo k) Q (st\<lparr>reqBoolInfo := None # reqBoolInfo st, calls := h\<rparr>)"
proof -
  have "st\<lparr>reqBoolInfo := None # reqBoolInfo st, calls := h, reqBoolInfo := reqBoolInfo st\<rparr> = st\<lparr>calls := h\<rparr>" by simp
  with assms show ?thesis by (simp add: wp_seq wp_popRequires)
qed

lemma ir_typed_inner:
  assumes "ir_typed P t" "kind t = TK_Array" "getArrayInnerType t = Some s"
  shows "ir_typed P s"
  using assms by (simp add: ir_typed.simps [of P t])

lemma visits_arrayAccess:
  assumes L: "block_laws lib" "node_laws lib" and a: "visits lib \<Gamma> lv (targetType a) (visitExpr lib a)" "kind (targetType a) = TK_Array"
    and i: "visits lib \<Gamma> lv' (targetType i) (visitExpr lib i)" "kind (targetType i) = TK_Int"
    and s: "ir_typed (tc_prog \<Gamma>) (targetType a)" "getArrayInnerType (targetType a) = Some s" "kmode s = kmode t"
  shows "visits lib \<Gamma> True t (visitExpr lib (ArrayAccess l t a i))"
proof (rule visitsI)
  fix T U st r rs Q
  assume st: "state_ok lib \<Gamma> st" "inv lib T U (calls st)" "reqBoolInfo st = r # rs" "context_ok T r t"
    and Q: "\<And>h v. inv lib T U h \<Longrightarrow> outcome lib r t v \<Longrightarrow> True \<and> r = None \<longrightarrow> storable v
      \<Longrightarrow> Q () (st\<lparr>nodeStack := v # nodeStack st, calls := h\<rparr>)"
  have ta: "kmode (targetType a) = Some mode_P" "kmode (targetType i) = Some mode_Is" using a(2) i(2) by (simp_all add: kmode_def)
  have s': "ir_typed (tc_prog \<Gamma>) s" by (rule ir_typed_inner [OF s(1) a(2) s(2)])
  have t: "kmode t \<noteq> None" using s' s(3) by (auto simp: ir_typed.simps [of _ s] kmode_def split: type_kind.splits)
  have tab: "types_ok lib (tc_prog \<Gamma>) (st\<lparr>reqBoolInfo := x, calls := h\<rparr>)" "types_ok lib (tc_prog \<Gamma>) (st\<lparr>calls := h\<rparr>)" for x h
    using st(1) by (simp_all add: state_ok_def tables_ok_def types_ok_def)
  let ?place = "\<lambda>sel et. bnd requiresBool (\<lambda>rb. if rb then
       bnd (bnd (val_load lib (ArrayValue sel et)) (the_or NullPointer)) (\<lambda>n. pushBoolean lib n)
     else pushNode (ArrayValue sel et))"
  let ?k = "\<lambda>sel. bnd (the_or FailedAssert (getArrayInnerType (targetType a))) (\<lambda>inner. bnd (getIrType lib inner) (?place sel))"
  have k: "wp (?k sel) Q (st\<lparr>calls := h\<rparr>)" if "inv lib T U h" for h sel
    unfolding wp_bnd [of "the_or e x" for e x] wp_the_or s(2) wp_bnd [of "getIrType lib x" for x]
    using that st(3,4) s(3) t
    by (auto simp: load_mode_def storable_def simp del: wp_fun
        intro!: wp_getIrType [OF L tab(2) s', where T = T and U = U] wp_place [OF L, where T = T and U = U and r = r and rs = rs and t = t] Q)
  have sel: "wp (bnd (getIrType lib (targetType a)) (\<lambda>p. bnd (call lib (New_Sel x y (lf_points_to lib p))) (\<lambda>sel.
      seq (asserts (lf_is_Sel lib sel)) (seq popRequiresBoolInfo (?k sel))))) Q (st\<lparr>reqBoolInfo := None # reqBoolInfo st, calls := h\<rparr>)"
    if "inv lib T U h" for h x y
    unfolding wp_bnd [of "getIrType lib (targetType a)"] wp_bnd [of "call lib op" for op] wp_seq [of "asserts b" for b] wp_asserts
    using that k by (auto simp: library_attributes [OF L(2)] simp del: wp_fun
        intro!: wp_getIrType [OF L tab(1) s(1), where T = T and U = U] wp_quiet [OF L(1), where T = T and U = U] wp_end_context)
  show "wp (visitExpr lib (ArrayAccess l t a i)) Q st"
    unfolding visitExpr.simps
  proof (rule wp_operand_first [OF L a(1) ta(1) st(1,2)])
    fix h n
    assume h: "inv lib T U h" "lf_irn_mode lib n = mode_P"
    then show "wp (seq (asserts (lf_irn_mode lib n = mode_P)) (seq (visitExpr lib i) (bnd (popLoad lib) (\<lambda>index.
        bnd (getIrType lib (targetType a)) (\<lambda>p. bnd (call lib (New_Sel n index (lf_points_to lib p))) (\<lambda>sel.
        seq (asserts (lf_is_Sel lib sel)) (seq popRequiresBoolInfo (?k sel)))))))) Q (st\<lparr>reqBoolInfo := None # reqBoolInfo st, calls := h\<rparr>)"
      unfolding wp_seq [of "asserts b" for b] wp_asserts
      using sel st(1) by (auto simp del: wp_fun intro!: wp_operand_at [OF L i(1) ta(2), where T = T and U = U])
  qed
qed

lemma wp_visitArgs:
  assumes L: "block_laws lib" "node_laws lib" and st: "state_ok lib \<Gamma> st"
  shows "\<forall>a \<in> set args. visits lib \<Gamma> (lvalue a) (targetType a) (visitExpr lib a) \<and> kmode (targetType a) \<noteq> None
    \<Longrightarrow> inv lib T U h0 \<Longrightarrow> (\<And>h ns. inv lib T U h \<Longrightarrow> Q ns (st\<lparr>reqBoolInfo := None # rs, calls := h\<rparr>))
    \<Longrightarrow> wp (visitArgs lib args) Q (st\<lparr>reqBoolInfo := None # rs, calls := h0\<rparr>)"
proof (induction args arbitrary: h0 Q)
  case (Cons a args)
  obtain md where a: "visits lib \<Gamma> (lvalue a) (targetType a) (visitExpr lib a)" "kmode (targetType a) = Some md" using Cons.prems(1) by auto
  show ?case unfolding visitArgs.simps
  proof (rule wp_operand_at [OF L a st Cons.prems(2)])
    fix h n
    assume "inv lib T U h"
    then show "wp (bnd (visitArgs lib args) (\<lambda>ns. ret (n # ns))) Q (st\<lparr>reqBoolInfo := None # rs, calls := h\<rparr>)"
      unfolding wp_bnd wp_ret using Cons.prems(1,3) by (intro Cons.IH) simp_all
  qed
qed (simp add: wps)

lemma visits_call:
  assumes L: "block_laws lib" "node_laws lib" and e: "visits lib \<Gamma> lv (targetType e) (visitExpr lib e)" "kind (targetType e) = TK_Class"
    and k: "findClassByName (tc_prog \<Gamma>) (tname (targetType e)) \<noteq> None" and d: "method_exists (tc_prog \<Gamma>) d"
    and args: "\<forall>a \<in> set args. visits lib \<Gamma> (lvalue a) (targetType a) (visitExpr lib a) \<and> kmode (targetType a) \<noteq> None"
    and t: "kind t = TK_Void \<or> kmode t \<noteq> None \<and> kind t \<noteq> TK_Null"
  shows "visits lib \<Gamma> False t (visitExpr lib (MethodInvocation l t e n args d False))"
proof (rule visitsI)
  fix T U st r rs Q
  assume st: "state_ok lib \<Gamma> st" "inv lib T U (calls st)" "reqBoolInfo st = r # rs" "context_ok T r t"
    and Q: "\<And>h v. inv lib T U h \<Longrightarrow> outcome lib r t v \<Longrightarrow> False \<and> r = None \<longrightarrow> storable v
      \<Longrightarrow> Q () (st\<lparr>nodeStack := v # nodeStack st, calls := h\<rparr>)"
  obtain k where k: "findClassByName (tc_prog \<Gamma>) (tname (targetType e)) = Some k" using assms(5) by blast
  obtain c where c: "classTable st (c_name k) = Some c"
    using state_ok_class [OF st(1)] find_by_name_mem [OF k [unfolded findClassByName_def]] by blast
  have P: "currentProgram st = tc_prog \<Gamma>" using st(1) by (simp add: state_ok_def tables_ok_def types_ok_def)
  obtain cn mn where cm: "d = Some (cn, mn)" using d by (cases d) auto
  obtain m where m: "methodTable st (MethodRef cn mn) = Some m"
    using d st(1) unfolding cm state_ok_def tables_ok_def by fastforce
  have te: "kmode (targetType e) = Some mode_P" using e(2) by (simp add: kmode_def)
  let ?res = "\<lambda>callNode. if isVoid t then pushNull
    else bnd (getIrMode t) (\<lambda>md. bnd (callResult lib callNode md) (\<lambda>result. pushBoolean lib result))"
  have res: "wp (?res x) Q (st\<lparr>calls := h\<rparr>)" if h: "inv lib T U h" for h x
  proof (cases "kind t = TK_Void")
    case True
    then have "r = None" using context_None [OF st(4)] by simp
    then have "outcome lib r t (RValue None)" using True by (simp add: outcome_def val_ok_def)
    then show ?thesis using Q [OF h] True by (simp add: isVoid_def wps)
  next
    case False
    then obtain md where md: "kmode t = Some md" "kind t \<noteq> TK_Null" using t by auto
    have "wp (getIrMode t) Q' st' = Q' md st'" for Q' and st' :: "'a fvisitor"
      using md by (auto simp: getIrMode_def kmode_def wps split: type_kind.splits)
    then show ?thesis using False h st(3,4) md(1)
      by (auto simp: isVoid_def wps intro!: wp_callResult [OF L, where T = T and U = U]
          wp_pushBoolean [OF L(1), where T = T and U = U and r = r and rs = rs and t = t] Q)
  qed
  have as: "wp (bnd (visitArgs lib args) (\<lambda>as. seq popRequiresBoolInfo (bnd (makeCall lib (fm_entity m) (x # as) y) ?res))) Q
      (st\<lparr>reqBoolInfo := None # reqBoolInfo st, calls := h\<rparr>)" if "inv lib T U h" for h x y
    unfolding wp_bnd [of "visitArgs lib args"]
    using that res
    by (auto simp: wp_bnd [of "makeCall lib a b c" for a b c] simp del: wp_fun intro!: wp_visitArgs [OF L st(1) args, where T = T and U = U] wp_end_context
        wp_makeCall [OF L(1), where T = T and U = U])
  have "wp (seq pushRequiresNonBool (seq (visitExpr lib e) (bnd (popLoad lib) (\<lambda>this. bnd (visitArgs lib args) (\<lambda>as. seq popRequiresBoolInfo
      (bnd (makeCall lib (fm_entity m) (this # as) (lf_entity_type lib (fm_entity m))) ?res)))))) Q st"
    using as by (intro wp_operand_first [OF L e(1) te st(1,2)]) simp
  then show "wp (visitExpr lib (MethodInvocation l t e n args d False)) Q st"
    using k c P m cm e(2)
    by (simp add: isClass_def wp_seq [of "asserts b" for b] wp_asserts wp_bnd [of "gets g" for g] wp_gets wp_seq [of "the_or e x" for e x]
        wp_bnd [of "the_or e x" for e x] wp_the_or)
qed

lemma visits_sysCall:
  assumes L: "block_laws lib" "node_laws lib" and e: "sys_ref e"
    and args: "\<forall>a \<in> set args. visits lib \<Gamma> (lvalue a) (targetType a) (visitExpr lib a) \<and> kmode (targetType a) \<noteq> None"
    and t: "n = ''println'' \<and> kind t = TK_Void \<and> length args = 1 \<or> n = ''write'' \<and> kind t = TK_Void \<and> length args = 1
      \<or> n = ''flush'' \<and> kind t = TK_Void \<and> args = [] \<or> n = ''read'' \<and> kind t = TK_Int \<and> args = []"
  shows "visits lib \<Gamma> False t (visitExpr lib (MethodInvocation l t e n args d True))"
proof (rule visits_valueI)
  fix T U st rs Q
  assume st: "state_ok lib \<Gamma> st" "inv lib T U (calls st)" "reqBoolInfo st = None # rs"
    and Q: "\<And>h v. inv lib T U h \<Longrightarrow> val_ok lib v t \<Longrightarrow> Q () (st\<lparr>nodeStack := v # nodeStack st, calls := h\<rparr>)"
  obtain l' t' e' n' d' where e': "e = FieldAccess l' t' e' n' d'" "d' = Some FR_SystemOut \<or> d' = Some FR_SystemIn"
    using e by (cases e) auto
  have sys: "wp (visitExpr lib e) Q' st' = Q' () st'" for Q' and st' :: "'a fvisitor" using e' by (auto simp: wps)
  have void: "kind t = TK_Void \<Longrightarrow> val_ok lib (RValue None) t" by (simp add: val_ok_def)
  note run = wp_makeCall [OF L(1), where T = T and U = U]
  show "wp (visitExpr lib (MethodInvocation l t e n args d True)) Q st"
  proof (cases args)
    case Nil
    then show ?thesis using t st(2) by (auto simp: wps sys visitSysoutCall_def sysCall_def kmode_def
        intro!: run wp_callResult [OF L, where T = T and U = U] Q void val_ok_RValue)
  next
    case (Cons a as)
    then have "as = []" and n: "n = ''println'' \<or> n = ''write''" "kind t = TK_Void" using t by auto
    obtain md where a: "visits lib \<Gamma> (lvalue a) (targetType a) (visitExpr lib a)" "kmode (targetType a) = Some md" using args Cons by auto
    have "wp (seq (visitExpr lib a) (bnd (popLoad lib) (\<lambda>x. seq (sysCall lib ent [x] ty) pushNull))) Q st" for ent ty
      by (rule wp_operand [OF L a st]) (use n(2) in \<open>auto simp: wps sysCall_def intro!: run Q void\<close>)
    then show ?thesis using n(1) Cons \<open>as = []\<close> by (auto simp: wps sys visitSysoutCall_def)
  qed
qed (use t in auto)

lemma visits_varRef:
  assumes L: "block_laws lib" "node_laws lib" and "kmode t \<noteq> None" "typed_var \<Gamma> t d"
  shows "visits lib \<Gamma> True t (visitExpr lib (VarRef l t n d))"
  by (rule visitsI) (unfold visitExpr.simps, rule wp_visitVarRef [OF L _ assms(3,4)], blast+)

lemma visits_binary:
  assumes L: "block_laws lib" "node_laws lib" and a: "visits lib \<Gamma> lv (targetType a) (visitExpr lib a)" "kmode (targetType a) = Some ma"
    and b: "visits lib \<Gamma> lv' (targetType b) (visitExpr lib b)" "kmode (targetType b) = Some mb"
    and bop: "c \<and> comparison bop \<and> kind t = TK_Bool \<or> \<not> c \<and> arithmetic bop \<and> kind t = TK_Int \<and> ma = mode_Is"
  shows "visits lib \<Gamma> False t (visitExpr lib (BinaryExpression l t a b bop))"
proof (rule visitsI)
  fix T U st r rs Q
  assume st: "state_ok lib \<Gamma> st" "inv lib T U (calls st)" "reqBoolInfo st = r # rs" "context_ok T r t"
    and Q: "\<And>h v. inv lib T U h \<Longrightarrow> outcome lib r t v \<Longrightarrow> False \<and> r = None \<longrightarrow> storable v
      \<Longrightarrow> Q () (st\<lparr>nodeStack := v # nodeStack st, calls := h\<rparr>)"
  have fin: "wp (bnd (binaryNode lib bop x y) (finishBinary lib)) Q (st\<lparr>calls := h\<rparr>)"
    if h: "inv lib T U h" "lf_irn_mode lib x = ma" for h x y
    unfolding wp_bnd
  proof (rule wp_binaryNode [OF L, where T = T and U = U and b = c])
    fix h1 n
    assume "inv lib T U h1" "\<not> c \<longrightarrow> lf_irn_mode lib n = mode_Is"
    then show "wp (finishBinary lib (n, c)) Q (st\<lparr>calls := h, calls := h1\<rparr>)"
      using st(3,4) bop by (intro wp_finishBinary [OF L, where T = T and U = U and r = r and rs = rs and t = t]) (auto simp: kmode_def intro!: Q)
  qed (use h bop in auto)
  have "wp (seq pushRequiresNonBool (seq (visitExpr lib a) (bnd (popLoad lib) (\<lambda>x. seq (visitExpr lib b)
      (bnd (popLoad lib) (\<lambda>y. seq popRequiresBoolInfo (bnd (binaryNode lib bop x y) (finishBinary lib)))))))) Q st"
    using fin st(1) by (intro wp_operand_first [OF L a st(1,2)] wp_operand_at [OF L b, where T = T and U = U] wp_end_context) simp_all
  moreover have "bop \<noteq> Op_Or" "bop \<noteq> Op_And" "bop \<noteq> Op_Assign" using bop by (auto simp: comparison_def arithmetic_def)
  ultimately show "wp (visitExpr lib (BinaryExpression l t a b bop)) Q st" by simp
qed

lemma wp_val_store:
  assumes L: "block_laws lib" and "storable v" "inv lib T U (calls st)" and Q: "\<And>h. inv lib T U h \<Longrightarrow> Q () (st\<lparr>calls := h\<rparr>)"
  shows "wp (val_store lib v n) Q st"
  using assms(2,3) by (cases v) (auto simp: val_store_def storeTo_def storable_def wps intro!: wp_quiet [OF L, where T = T and U = U] Q)

lemma visits_assign:
  assumes L: "block_laws lib" "node_laws lib" and a: "visits lib \<Gamma> True (targetType a) (visitExpr lib a)"
    and b: "visits lib \<Gamma> lv (targetType b) (visitExpr lib b)" "kmode (targetType b) = kmode t" "kmode t = Some m"
  shows "visits lib \<Gamma> False t (visitExpr lib (BinaryExpression l t a b Op_Assign))"
proof (rule visitsI)
  fix T U st r rs Q
  assume st: "state_ok lib \<Gamma> st" "inv lib T U (calls st)" "reqBoolInfo st = r # rs" "context_ok T r t"
    and Q: "\<And>h v. inv lib T U h \<Longrightarrow> outcome lib r t v \<Longrightarrow> False \<and> r = None \<longrightarrow> storable v
      \<Longrightarrow> Q () (st\<lparr>nodeStack := v # nodeStack st, calls := h\<rparr>)"
  have bm: "kmode (targetType b) = Some m" using b by simp
  have fin: "wp (seq (val_store lib v n) (finishBinary lib (n, False))) Q (st\<lparr>calls := h\<rparr>)"
    if "inv lib T U h" "lf_irn_mode lib n = m" "storable v" for h n v
    unfolding wp_seq using that st(3,4) b(3)
    by (intro wp_val_store [OF L(1), where T = T and U = U] wp_finishBinary [OF L, where T = T and U = U and r = r and rs = rs and t = t])
      (auto intro!: Q)
  have right: "wp (seq (visitExpr lib b) (bnd (popLoad lib) (\<lambda>n. seq popRequiresBoolInfo
      (seq (val_store lib v n) (finishBinary lib (n, False)))))) Q (st\<lparr>reqBoolInfo := None # reqBoolInfo st, calls := h\<rparr>)"
    if "inv lib T U h" "storable v" for h v
    using fin st(1) that by (intro wp_operand_at [OF L b(1) bm, where T = T and U = U] wp_end_context) simp_all
  have "wp (seq pushRequiresNonBool (seq (visitExpr lib a) (bnd popNode (\<lambda>v. seq (visitExpr lib b)
      (bnd (popLoad lib) (\<lambda>n. seq popRequiresBoolInfo (seq (val_store lib v n) (finishBinary lib (n, False))))))))) Q st"
    unfolding wp_seq [of pushRequiresNonBool] wp_seq [of "visitExpr lib a"] wp_pushRequires
  proof (rule wp_visits [OF a, where T = T and U = U and r = None and rs = "reqBoolInfo st"])
    fix h v
    assume "inv lib T U h" "outcome lib None (targetType a) v" "True \<and> None = None \<longrightarrow> storable v"
    then show "wp (bnd popNode (\<lambda>v. seq (visitExpr lib b)
        (bnd (popLoad lib) (\<lambda>n. seq popRequiresBoolInfo (seq (val_store lib v n) (finishBinary lib (n, False)))))))
      Q (st\<lparr>reqBoolInfo := None # reqBoolInfo st,
         nodeStack := v # nodeStack (st\<lparr>reqBoolInfo := None # reqBoolInfo st\<rparr>), calls := h\<rparr>)"
      using right [of h v] by (simp add: wp_bnd [of popNode] wp_popNode)
  qed (use st in simp_all)
  then show "wp (visitExpr lib (BinaryExpression l t a b Op_Assign)) Q st" by simp
qed

lemma visits_logical:
  assumes L: "block_laws lib" "node_laws lib" and a: "visits lib \<Gamma> lv ta (visitExpr lib a)" "kind ta = TK_Bool"
    and b: "visits lib \<Gamma> lv' tb (visitExpr lib b)" "kind tb = TK_Bool" and t: "kind t = TK_Bool"
    and bop: "bop = Op_Or \<or> bop = Op_And"
  shows "visits lib \<Gamma> False t (visitExpr lib (BinaryExpression l t a b bop))"
proof (rule visitsI)
  fix T U st r rs Q
  assume st: "state_ok lib \<Gamma> st" "inv lib T U (calls st)" "reqBoolInfo st = r # rs" "context_ok T r t"
    and Q: "\<And>h v. inv lib T U h \<Longrightarrow> outcome lib r t v \<Longrightarrow> False \<and> r = None \<longrightarrow> storable v
      \<Longrightarrow> Q () (st\<lparr>nodeStack := v # nodeStack st, calls := h\<rparr>)"
  have "wp (visitLogical lib (bop = Op_And) (visitExpr lib a) (visitExpr lib b)) Q st"
    by (rule wp_logical [OF L a b t st]) (use Q in blast)
  then show "wp (visitExpr lib (BinaryExpression l t a b bop)) Q st" using bop by simp
qed

text \<open>Every typed expression is visited as its type says.\<close>

lemma visits_typed:
  assumes L: "block_laws lib" "node_laws lib"
  shows "typed_expr \<Gamma> e \<Longrightarrow> visits lib \<Gamma> (lvalue e) (targetType e) (visitExpr lib e)"
    and "typed_args \<Gamma> args \<Longrightarrow> \<forall>a \<in> set args. visits lib \<Gamma> (lvalue a) (targetType a) (visitExpr lib a) \<and> kmode (targetType a) \<noteq> None"
proof (induction \<Gamma> e and \<Gamma> args rule: typed_expr_typed_args.induct)
  case (6 \<Gamma> l t n d)
  then obtain k where "kind t = TK_Class" "k \<in> set (pr_classes (tc_prog \<Gamma>))" "d = Some (c_name k)" by (auto split: option.splits)
  then show ?case unfolding lvalue.simps expr.sel by (rule visits_newObject [OF L])
next
  case (7 \<Gamma> l t ty e)
  then obtain s where "kind t = TK_Array" "typed_expr \<Gamma> e" "kind (targetType e) = TK_Int"
      "Option.bind (getSemaType ty) getArrayInnerType = Some s" "ir_typed (tc_prog \<Gamma>) s" by (auto split: option.splits)
  then show ?case unfolding lvalue.simps expr.sel using 7(1) by (intro visits_newArray [OF L]) blast+
next
  case (8 \<Gamma> l t a i)
  then obtain s where "typed_expr \<Gamma> a" "typed_expr \<Gamma> i" "kind (targetType a) = TK_Array" "kind (targetType i) = TK_Int"
      "ir_typed (tc_prog \<Gamma>) (targetType a)" "getArrayInnerType (targetType a) = Some s" "kmode s = kmode t"
    by (auto split: option.splits)
  then show ?case unfolding lvalue.simps expr.sel using 8(1,2) by (intro visits_arrayAccess [OF L]) blast+
next
  case (9 \<Gamma> l t e n d)
  then obtain k c f where f: "typed_expr \<Gamma> e" "kind (targetType e) = TK_Class" "kmode t \<noteq> None"
      "findClassByName (tc_prog \<Gamma>) (tname (targetType e)) = Some k" "has_field k f t"
    and d: "d = Some (FR_Field c f)" by (auto split: option.splits field_ref.splits)
  show ?case unfolding lvalue.simps expr.sel d by (rule visits_fieldAccess [OF L 9(1) [OF f(1)] f(2-)])
next
  case (10 \<Gamma> l t e n args d sys)
  show ?case
  proof (cases sys)
    case True
    then show ?thesis using 10 unfolding lvalue.simps expr.sel by (simp add: visits_sysCall [OF L] del: visitExpr.simps)
  next
    case False
    then have "typed_expr \<Gamma> e" "kind (targetType e) = TK_Class" "findClassByName (tc_prog \<Gamma>) (tname (targetType e)) \<noteq> None"
        "method_exists (tc_prog \<Gamma>) d" "typed_args \<Gamma> args" "kind t = TK_Void \<or> kmode t \<noteq> None \<and> kind t \<noteq> TK_Null"
      using 10(4) by simp_all
    then show ?thesis using 10(2,3) False unfolding lvalue.simps expr.sel by (auto intro!: visits_call [OF L] simp del: visitExpr.simps)
  qed
next
  case (11 \<Gamma> l t e uop)
  then show ?case by (auto intro: visits_not [OF L] visits_neg [OF L] simp del: visitExpr.simps)
next
  case (12 \<Gamma> l t a b bop)
  note ab = 12
  show ?case
  proof (cases "bop = Op_Or \<or> bop = Op_And")
    case True
    then show ?thesis using ab by (auto intro: visits_logical [OF L] simp del: visitExpr.simps)
  next
    case False
    show ?thesis
    proof (cases "bop = Op_Assign")
      case True
      then show ?thesis using ab by (auto intro!: visits_assign [OF L] simp del: visitExpr.simps)
    next
      case nassign: False
      obtain ma mb where m: "kmode (targetType a) = Some ma" "kmode (targetType b) = Some mb"
        using ab(3) False nassign by (auto simp: kmode_def split: if_splits)
      then have "comparison bop \<and> comparison bop \<and> kind t = TK_Bool
          \<or> \<not> comparison bop \<and> arithmetic bop \<and> kind t = TK_Int \<and> ma = mode_Is"
        using ab(3) False nassign by (auto simp: kmode_def split: if_splits)
      with m show ?thesis using ab unfolding lvalue.simps expr.sel by (intro visits_binary [OF L, where c = "comparison bop"]) simp_all
    qed
  qed
qed (auto intro!: visits_literals [OF L] visits_varRef [OF L] simp del: visitExpr.simps)

end
