(* ===== verification/Graph_Stmt.thy ===== *)
theory Graph_Stmt
  imports Graph_Visit
begin

text \<open>
  The visits of typed statements: no assertion fails, the two stacks are left as they were, and the
  protocol for blocks is kept.
\<close>

section \<open>Visits of statements\<close>

definition runs :: "'n libfirm \<Rightarrow> tctx \<Rightarrow> 'n set \<Rightarrow> ('n, unit) fv_m \<Rightarrow> bool" where
  "runs lib \<Gamma> T m \<longleftrightarrow> (\<forall>U st rs Q. state_ok lib \<Gamma> st \<and> inv lib T U (calls st) \<and> reqBoolInfo st = None # rs
     \<and> (\<forall>h. inv lib T U h \<longrightarrow> Q () (st\<lparr>calls := h\<rparr>)) \<longrightarrow> wp m Q st)"

lemma wp_runs:
  assumes "runs lib \<Gamma> T m" and "state_ok lib \<Gamma> st" "inv lib T U (calls st)" "reqBoolInfo st = None # rs"
    and "\<And>h. inv lib T U h \<Longrightarrow> Q () (st\<lparr>calls := h\<rparr>)"
  shows "wp m Q st"
  using assms(1) unfolding runs_def
  by (elim allE [of _ U] allE [of _ st] allE [of _ rs] allE [of _ Q]) (use assms(2-5) in blast)

lemma runsI:
  assumes "\<And>U st rs Q. state_ok lib \<Gamma> st \<Longrightarrow> inv lib T U (calls st) \<Longrightarrow> reqBoolInfo st = None # rs
      \<Longrightarrow> (\<And>h. inv lib T U h \<Longrightarrow> Q () (st\<lparr>calls := h\<rparr>)) \<Longrightarrow> wp m Q st"
  shows "runs lib \<Gamma> T m"
  unfolding runs_def by (intro allI impI, elim conjE, rule assms) blast+

lemma calls_id [simp]: "st\<lparr>calls := calls st\<rparr> = st" for st :: "'n fvisitor"
  by simp

lemma runs_ret: "runs lib \<Gamma> T (ret ())"
proof (rule runsI)
  fix U st rs Q
  assume "state_ok lib \<Gamma> st" and st: "inv lib T U (calls st)" and Q: "\<And>h. inv lib T U h \<Longrightarrow> Q () (st\<lparr>calls := h\<rparr>)"
  show "wp (ret ()) Q st" using Q [OF st] by (simp add: wp_ret)
qed

lemma runs_seq:
  assumes "runs lib \<Gamma> T m" "runs lib \<Gamma> T k"
  shows "runs lib \<Gamma> T (seq m k)"
proof (rule runsI)
  fix U st rs Q
  assume st: "state_ok lib \<Gamma> st" "inv lib T U (calls st)" "reqBoolInfo st = None # rs"
    and Q: "\<And>h. inv lib T U h \<Longrightarrow> Q () (st\<lparr>calls := h\<rparr>)"
  show "wp (seq m k) Q st" unfolding wp_seq
  proof (rule wp_runs [OF assms(1) st])
    fix h
    assume "inv lib T U h"
    then show "wp k Q (st\<lparr>calls := h\<rparr>)"
      by (intro wp_runs [OF assms(2), where U = U and rs = rs]) (use st Q in simp_all)
  qed
qed

lemma wp_jumpTo:
  assumes L: "block_laws lib" and "inv lib T U (calls st)" "b \<in> T" and Q: "\<And>h. inv lib T U h \<Longrightarrow> Q () (st\<lparr>calls := h\<rparr>)"
  shows "wp (jumpTo lib b) Q st"
  using assms(2,3) by (auto simp: jumpTo_def wps intro!: wp_quiet [OF L, where T = T and U = U]
      wp_add_pred [OF L, where T = T and U = U] Q)

lemma wp_addReturn:
  assumes L: "block_laws lib" and "inv lib T U (calls st)" and Q: "\<And>h. inv lib T U h \<Longrightarrow> Q () (st\<lparr>calls := h\<rparr>)"
  shows "wp (addReturn lib g ns) Q st"
proof -
  have "lf_end_block lib g \<in> T" using assms(2) by (auto simp: inv_def inv0_def end_blocks_def)
  then show ?thesis using assms(2) by (auto simp: addReturn_def wps intro!: wp_quiet [OF L, where T = T and U = U]
      wp_add_pred [OF L, where T = T and U = U] Q)
qed

lemma runs_exprStmt:
  assumes "visits lib \<Gamma> lv t (visitExpr lib e)"
  shows "runs lib \<Gamma> T (visitStmt lib (ExpressionStatement l c e))"
proof (rule runsI)
  fix U st rs Q
  assume st: "state_ok lib \<Gamma> st" "inv lib T U (calls st)" "reqBoolInfo st = None # rs"
    and Q: "\<And>h. inv lib T U h \<Longrightarrow> Q () (st\<lparr>calls := h\<rparr>)"
  show "wp (visitStmt lib (ExpressionStatement l c e)) Q st"
    unfolding visitStmt.simps wp_seq
    by (rule wp_visits [OF assms st]) (simp_all add: wps Q)
qed

lemma runs_varDecl:
  assumes L: "block_laws lib" "node_laws lib" and e: "\<And>x. e = Some x \<Longrightarrow> visits lib \<Gamma> (lvalue x) (targetType x) (visitExpr lib x)
    \<and> kmode (targetType x) \<noteq> None \<and> idx \<noteq> None"
  shows "runs lib \<Gamma> T (visitVariableDeclaration lib e idx)"
proof (cases e)
  case None
  then show ?thesis by (simp add: visitVariableDeclaration_def runs_ret)
next
  case (Some x)
  then obtain i md where x: "visits lib \<Gamma> (lvalue x) (targetType x) (visitExpr lib x)" "kmode (targetType x) = Some md" "idx = Some i"
    using e by blast
  show ?thesis
  proof (rule runsI)
    fix U st rs Q
    assume st: "state_ok lib \<Gamma> st" "inv lib T U (calls st)" "reqBoolInfo st = None # rs"
      and Q: "\<And>h. inv lib T U h \<Longrightarrow> Q () (st\<lparr>calls := h\<rparr>)"
    obtain g where g: "current_ir_graph st = Some g" using st(1) unfolding state_ok_def method_ok_def by blast
    obtain r m where m: "currentMethod st = Some r" "methodTable st r = Some m" using st(1) unfolding state_ok_def method_ok_def by blast
    have "wp (visitExpr lib x) (\<lambda>_. wp (bnd currentFirmMethod (\<lambda>m. bnd (the_or Uninitialised idx) (\<lambda>i. bnd currentGraph (\<lambda>g.
        bnd (popLoad lib) (\<lambda>n. seq (call lib (Set_r_value g (nat (int (nParams m) + i)) n)) (ret ())))))) Q) st"
    proof (rule wp_visits [OF x(1) st])
      fix h v
      assume h: "inv lib T U h" "outcome lib None (targetType x) v"
      then have v: "load_mode lib v = Some md" using x(2) by (auto simp: outcome_def intro: val_ok_load)
      show "wp (bnd currentFirmMethod (\<lambda>m. bnd (the_or Uninitialised idx) (\<lambda>i. bnd currentGraph (\<lambda>g.
        bnd (popLoad lib) (\<lambda>n. seq (call lib (Set_r_value g (nat (int (nParams m) + i)) n)) (ret ())))))) Q
        (st\<lparr>nodeStack := v # nodeStack st, calls := h\<rparr>)"
        using g m x(3) h(1) by (auto simp: wps currentFirmMethod_def currentGraph_def
            intro!: wp_popLoad [OF L _ _ v, where T = T and U = U] wp_quiet [OF L(1), where T = T and U = U] Q)
    qed simp
    then show "wp (visitVariableDeclaration lib e idx) Q st" by (simp add: visitVariableDeclaration_def Some wp_seq [of "visitExpr lib x"])
  qed
qed

lemma runs_return:
  assumes L: "block_laws lib" "node_laws lib" and e: "\<And>x. e = Some x \<Longrightarrow> visits lib \<Gamma> (lvalue x) (targetType x) (visitExpr lib x)
    \<and> kmode (targetType x) \<noteq> None"
  shows "runs lib \<Gamma> T (visitReturn lib e)"
proof (rule runsI)
  fix U st rs Q
  assume st: "state_ok lib \<Gamma> st" "inv lib T U (calls st)" "reqBoolInfo st = None # rs"
    and Q: "\<And>h. inv lib T U h \<Longrightarrow> Q () (st\<lparr>calls := h\<rparr>)"
  obtain g where g: "current_ir_graph st = Some g" using st(1) unfolding state_ok_def method_ok_def by blast
  obtain r where r: "currentMethod st = Some r" using st(1) unfolding state_ok_def method_ok_def by blast
  note run = wp_addReturn [OF L(1), where T = T and U = U]
  show "wp (visitReturn lib e) Q st"
  proof (cases e)
    case None
    then show ?thesis using g r st(2) unfolding visitReturn_def currentGraph_def
      by (cases r) (auto simp: wps intro!: wp_quiet [OF L(1), where T = T and U = U] run Q)
  next
    case (Some x)
    then obtain md where x: "visits lib \<Gamma> (lvalue x) (targetType x) (visitExpr lib x)" "kmode (targetType x) = Some md" using e by blast
    have "wp (seq pushRequiresNonBool (seq (visitExpr lib x) (seq popRequiresBoolInfo (bnd (popLoad lib) (\<lambda>n. addReturn lib g [n]))))) Q st"
    proof (rule wp_value [OF x(1) st(1,2)])
      fix h v
      assume h: "inv lib T U h" "val_ok lib v (targetType x)"
      then have v: "load_mode lib v = Some md" using x(2) by (intro val_ok_load)
      show "wp (bnd (popLoad lib) (\<lambda>n. addReturn lib g [n])) Q (st\<lparr>nodeStack := v # nodeStack st, calls := h\<rparr>)"
        using h by (auto simp: wps intro!: wp_popLoad [OF L _ _ v, where T = T and U = U] run Q)
    qed
    then show ?thesis by (simp add: visitReturn_def currentGraph_def Some g wp_bnd [of "bnd m f" for m f] wp_bnd [of "gets f" for f] wp_gets wp_the_or)
  qed
qed

section \<open>Branches and loops\<close>

lemma wp_visitCondition:
  assumes "visits lib \<Gamma> lv t (visitExpr lib e)" "kind t = TK_Bool" and "state_ok lib \<Gamma> st" "inv lib T U (calls st)" "x \<in> T" "y \<in> T"
    and Q: "\<And>h. inv lib T U h \<Longrightarrow> Q () (st\<lparr>calls := h\<rparr>)"
  shows "wp (visitCondition lib e x y) Q st"
proof -
  have "wp (seq (pushRequiresBool x y) (seq (visitExpr lib e) (seq (popNull lib) (seq popRequiresBoolInfo (ret ()))))) Q st"
    by (rule wp_condition [OF assms(1-6)]) (simp add: wp_ret Q)
  then show ?thesis by (simp add: visitCondition_def wps)
qed

lemma wp_targetBlock:
  assumes L: "block_laws lib" and "inv lib T U (calls st)" "after \<in> T"
    and Q: "\<And>h b. inv lib (insert b T) U h \<Longrightarrow> (if s = None then b = after else b \<notin> T) \<Longrightarrow> Q b (st\<lparr>calls := h\<rparr>)"
  shows "wp (targetBlock lib s after) Q st"
proof (cases s)
  case None
  then show ?thesis using assms(2,3) Q [of after "calls st"] by (simp add: targetBlock_def wps insert_absorb)
next
  case (Some x)
  then show ?thesis using assms(2) by (auto simp: targetBlock_def intro!: wp_new_immBlock [OF L, where T = T and U = U] Q)
qed

lemma wp_matureUnless:
  assumes L: "block_laws lib" and "inv lib (insert b T) U (calls st)" "after \<in> T" "end_blocks lib \<subseteq> T" "b = after \<or> b \<notin> T"
    and Q: "\<And>h. inv lib T U h \<Longrightarrow> Q () (st\<lparr>calls := h\<rparr>)"
  shows "wp (matureUnless lib b after) Q st"
proof (cases "b = after")
  case True
  then show ?thesis using assms(2,3) Q [of "calls st"] by (simp add: matureUnless_def wps insert_absorb)
next
  case False
  then have b: "b \<notin> T" "b \<notin> end_blocks lib" using assms(4,5) by blast+
  then have "wp (call lib (Mature_immBlock b)) (\<lambda>_. Q ()) st"
    by (intro wp_mature [OF L assms(2)]) (auto intro!: Q dest: inv_mono [where U' = U])
  then show ?thesis using False by (simp add: matureUnless_def wps)
qed

lemma wp_set_matured:
  assumes L: "block_laws lib" and "inv lib T U (calls st)" "b \<notin> T" and Q: "\<And>h n. inv lib T U h \<Longrightarrow> Q n (st\<lparr>calls := h\<rparr>)"
  shows "wp (call lib (Set_cur_block b)) Q st"
proof (rule wp_set_cur [OF L assms(2)])
  show "b \<notin> end_blocks lib" using assms(2,3) by (auto simp: inv_def inv0_def)
qed (use assms(3) Q in auto)

lemma wp_mature_last:
  assumes L: "block_laws lib" and "inv lib (insert b T) U (calls st)" "b \<notin> T" "end_blocks lib \<subseteq> T"
    and Q: "\<And>h n. inv lib T U h \<Longrightarrow> Q n (st\<lparr>calls := h\<rparr>)"
  shows "wp (call lib (Mature_immBlock b)) Q st"
  by (rule wp_mature [OF L assms(2)]) (use assms(3,4) in \<open>auto intro!: Q dest: inv_mono [where U' = U]\<close>)

lemma runs_branch:
  assumes L: "block_laws lib" and s: "\<And>x. s = Some x \<Longrightarrow> runs lib \<Gamma> T (visitStmt lib x)" and "s \<noteq> None \<longrightarrow> b \<notin> T" "after \<in> T"
  shows "runs lib \<Gamma> T (visitBranch lib b after s)"
proof (cases s)
  case None
  then show ?thesis by (simp add: runs_ret)
next
  case (Some x)
  show ?thesis
  proof (rule runsI)
    fix U st rs Q
    assume st: "state_ok lib \<Gamma> st" "inv lib T U (calls st)" "reqBoolInfo st = None # rs"
      and Q: "\<And>h. inv lib T U h \<Longrightarrow> Q () (st\<lparr>calls := h\<rparr>)"
    have b: "b \<notin> T" using assms(3) Some by simp
    have last: "wp (if cfb x = MayContinue then jumpTo lib after else ret ()) Q (st\<lparr>calls := h\<rparr>)" if "inv lib T U h" for h
      using that assms(4) Q by (auto simp: wp_ret intro!: wp_jumpTo [OF L, where T = T and U = U])
    have "wp (call lib (Set_cur_block b)) (\<lambda>_. wp (visitStmt lib x) (\<lambda>_. wp (if cfb x = MayContinue then jumpTo lib after else ret ()) Q)) st"
    proof (rule wp_set_matured [OF L st(2) b])
      fix h
      assume "inv lib T U h"
      then show "wp (visitStmt lib x) (\<lambda>_. wp (if cfb x = MayContinue then jumpTo lib after else ret ()) Q) (st\<lparr>calls := h\<rparr>)"
        using st last by (intro wp_runs [OF s [OF Some], where U = U and rs = rs]) simp_all
    qed
    then show "wp (visitBranch lib b after s) Q st" by (simp add: Some wp_fun)
  qed
qed

lemma runs_if:
  assumes L: "block_laws lib" and e: "visits lib \<Gamma> lv t (visitExpr lib e)" "kind t = TK_Bool"
    and a: "\<And>x T. a = Some x \<Longrightarrow> runs lib \<Gamma> T (visitStmt lib x)" and b: "\<And>x T. b = Some x \<Longrightarrow> runs lib \<Gamma> T (visitStmt lib x)"
  shows "runs lib \<Gamma> T (visitStmt lib (IfStatement l c e a b))"
proof (rule runsI)
  fix U st rs Q
  assume st: "state_ok lib \<Gamma> st" "inv lib T U (calls st)" "reqBoolInfo st = None # rs"
    and Q: "\<And>h. inv lib T U h \<Longrightarrow> Q () (st\<lparr>calls := h\<rparr>)"
  have E: "end_blocks lib \<subseteq> T" using st(2) by (simp add: inv_def inv0_def)
  have last: "wp (seq (call lib (Mature_immBlock r)) (seq (call lib (Set_cur_block r)) (ret ()))) Q (st\<lparr>calls := h\<rparr>)"
    if "inv lib (insert r T) U h" "r \<notin> T" for h r
    unfolding wp_seq wp_ret using that E
    by (intro wp_mature_last [OF L, where T = T and U = U] wp_set_matured [OF L, where T = T and U = U]) (simp_all add: Q)
  have branches: "wp (seq (visitBranch lib x r a) (seq (visitBranch lib y r b)
      (seq (call lib (Mature_immBlock r)) (seq (call lib (Set_cur_block r)) (ret ()))))) Q (st\<lparr>calls := h\<rparr>)"
    if h: "inv lib (insert r T) U h" "r \<notin> T" and xy: "if a = None then x = r else x \<notin> insert r T" "if b = None then y = r else y \<notin> insert r T"
    for h r x y
  proof -
    have x: "runs lib \<Gamma> (insert r T) (visitBranch lib x r a)" by (rule runs_branch [OF L a]) (use xy in auto)
    have y: "runs lib \<Gamma> (insert r T) (visitBranch lib y r b)" by (rule runs_branch [OF L b]) (use xy in auto)
    show ?thesis unfolding wp_seq [of "visitBranch lib x r a"] wp_seq [of "visitBranch lib y r b"]
      using h st(1,3) last
      by (intro wp_runs [OF x, where U = U and rs = rs] wp_runs [OF y, where U = U and rs = rs]) simp_all
  qed
  have targets: "wp (seq (visitCondition lib e x y) (seq (matureUnless lib x r) (seq (matureUnless lib y r)
      (seq (visitBranch lib x r a) (seq (visitBranch lib y r b)
      (seq (call lib (Mature_immBlock r)) (seq (call lib (Set_cur_block r)) (ret ())))))))) Q (st\<lparr>calls := h\<rparr>)"
    if h: "inv lib (insert y (insert x (insert r T))) U h" "r \<notin> T"
      and xy: "if a = None then x = r else x \<notin> insert r T" "if b = None then y = r else y \<notin> insert x (insert r T)" for h r x y
    unfolding wp_seq [of "visitCondition lib e x y"] wp_seq [of "matureUnless lib z r" for z]
    using h xy E st(1) branches [of r _ x y]
    by (intro wp_visitCondition [OF e, where T = "insert y (insert x (insert r T))" and U = U]
        wp_matureUnless [OF L, where T = "insert y (insert r T)" and U = U] wp_matureUnless [OF L, where T = "insert r T" and U = U])
      (auto simp: insert_commute split: if_splits)
  show "wp (visitStmt lib (IfStatement l c e a b)) Q st"
    unfolding visitStmt.simps wp_bnd [of "call lib op" for op] wp_bnd [of "targetBlock lib s x" for s x]
  proof (rule wp_new_immBlock [OF L st(2)])
    fix h r
    assume r: "inv lib (insert r T) U h" "r \<notin> T"
    let ?k = "\<lambda>x y. seq (visitCondition lib e x y) (seq (matureUnless lib x r) (seq (matureUnless lib y r)
      (seq (visitBranch lib x r a) (seq (visitBranch lib y r b)
      (seq (call lib (Mature_immBlock r)) (seq (call lib (Set_cur_block r)) (ret ())))))))"
    show "wp (targetBlock lib a r) (\<lambda>x. wp (targetBlock lib b r) (\<lambda>y. wp (?k x y) Q)) (st\<lparr>calls := h\<rparr>)"
    proof (rule wp_targetBlock [OF L, where T = "insert r T" and U = U])
      fix h1 x
      assume x: "inv lib (insert x (insert r T)) U h1" "if a = None then x = r else x \<notin> insert r T"
      show "wp (targetBlock lib b r) (\<lambda>y. wp (?k x y) Q) (st\<lparr>calls := h, calls := h1\<rparr>)"
        using x targets [OF _ r(2) x(2)]
        by (intro wp_targetBlock [OF L, where T = "insert x (insert r T)" and U = U]) (simp_all del: visitBranch.simps split del: if_split)
    qed (use r in simp_all)
  qed
qed

text \<open>The header of a loop is entered from the block before it, which waits for the jump back.\<close>

lemma wp_loopHeader:
  assumes L: "block_laws lib" and "inv lib T U (calls st)" "p \<notin> end_blocks lib"
    and k: "\<And>h. inv lib T U h \<Longrightarrow> wp k Q (st\<lparr>calls := h\<rparr>)"
  shows "wp (seq (call lib (Set_cur_block p)) (bnd (call lib New_immBlock) (\<lambda>b. seq (jumpTo lib b)
    (seq (call lib (Set_cur_block b)) (seq (call lib (Mature_immBlock b)) k))))) Q st"
proof -
  let ?h1 = "(Set_cur_block p, lf_run lib (calls st) (Set_cur_block p)) # calls st"
  let ?b = "lf_run lib ?h1 New_immBlock"
  have b: "?b \<notin> mentioned ?h1 \<union> end_blocks lib \<union> {lf_cur_block lib ?h1}" by (rule block_fresh [OF L])
  have m: "matured (calls st) \<subseteq> mentioned (calls st)" by (rule matured_mentioned)
  have i: "inv0 lib T U (calls st)" using assms(2) by (simp add: inv_def)
  then have T: "?b \<notin> T" using b by (auto simp: inv0_def calls_simps)
  have h: "inv lib T U ((Mature_immBlock ?b, r4) # (Set_cur_block ?b, r3) # (Add_immBlock_pred ?b j, r2) # (New_Jmp, r1)
      # (New_immBlock, ?b) # ?h1)" (is "inv lib T U ?h") for r1 r2 r3 r4 j
  proof -
    have "lf_cur_block lib ?h = ?b" using cur_block_set [OF L] cur_block_keep [OF L, of "Mature_immBlock ?b"] by simp
    moreover have "inv0 lib T U ?h" using i b m T assms(3) by (auto simp: inv0_def calls_simps)
    ultimately show ?thesis using T by (simp add: inv_def)
  qed
  show ?thesis using k [OF h] by (simp add: wp_seq wp_bnd wp_call jumpTo_def wp_ret)
qed

lemma runs_while:
  assumes L: "block_laws lib" and e: "visits lib \<Gamma> lv t (visitExpr lib e)" "kind t = TK_Bool" and b: "\<And>T. runs lib \<Gamma> T (visitBody lib b)"
  shows "runs lib \<Gamma> T (visitStmt lib (WhileStatement l c e b))"
proof (rule runsI)
  fix U st rs Q
  assume st: "state_ok lib \<Gamma> st" "inv lib T U (calls st)" "reqBoolInfo st = None # rs"
    and Q: "\<And>h. inv lib T U h \<Longrightarrow> Q () (st\<lparr>calls := h\<rparr>)"
  have E: "end_blocks lib \<subseteq> T" using st(2) by (simp add: inv_def inv0_def)
  let ?again = "\<lambda>p y. bnd (gets (\<lambda>st. lf_cur_block lib (calls st))) (\<lambda>z. seq (call lib (Keep_alive z))
    (seq (if b = None \<or> map_option cfb b = Some MayContinue then jumpTo lib p else ret ())
    (seq (call lib (Mature_immBlock p)) (seq (call lib (Set_cur_block y)) (ret ())))))"
  have again: "wp (?again p y) Q (st\<lparr>calls := h\<rparr>)" if h: "inv lib (insert p T) U h" "p \<notin> T" "y \<notin> T" for h p y
  proof -
    have fin: "wp (call lib (Mature_immBlock p)) (\<lambda>_. wp (call lib (Set_cur_block y)) (\<lambda>_. Q ())) (st\<lparr>calls := h1\<rparr>)"
      if "inv lib (insert p T) U h1" for h1
      using that h(2,3) E by (intro wp_mature_last [OF L, where T = T and U = U] wp_set_matured [OF L, where T = T and U = U]) (simp_all add: Q)
    show ?thesis unfolding wp_bnd wp_gets wp_seq wp_ret
    proof (rule wp_quiet [OF L, where T = "insert p T" and U = U])
      fix h1
      assume "inv lib (insert p T) U h1"
      then show "wp (if b = None \<or> map_option cfb b = Some MayContinue then jumpTo lib p else ret ()) (\<lambda>_. wp (call lib (Mature_immBlock p))
          (\<lambda>_. wp (call lib (Set_cur_block y)) (\<lambda>_. Q ()))) (st\<lparr>calls := h, calls := h1\<rparr>)"
        using fin by (auto simp: wp_ret intro!: wp_jumpTo [OF L, where T = "insert p T" and U = U])
    qed (use h in simp_all)
  qed
  let ?loop = "\<lambda>p x y. seq (call lib (Set_cur_block x)) (seq (call lib Get_store) (seq (visitBody lib b) (?again p y)))"
  have loop: "wp (?loop p x y) Q (st\<lparr>calls := h\<rparr>)" if h: "inv lib (insert p T) U h" "p \<notin> T" "x \<notin> insert p T" "y \<notin> T" for h p x y
    unfolding wp_seq [of "call lib op" for op] wp_seq [of "visitBody lib b"]
    using h st(1,3) again
    by (intro wp_set_matured [OF L, where T = "insert p T" and U = U] wp_quiet [OF L, where T = "insert p T" and U = U]
        wp_runs [OF b [of "insert p T"], where U = U and rs = rs]) simp_all
  let ?cond = "\<lambda>p x y. seq (visitCondition lib e x y) (seq (call lib (Mature_immBlock x)) (seq (call lib (Mature_immBlock y)) (?loop p x y)))"
  have cond: "wp (?cond p x y) Q (st\<lparr>calls := h\<rparr>)"
    if h: "inv lib (insert y (insert x (insert p T))) U h" "p \<notin> T" "x \<notin> insert p T" "y \<notin> insert x (insert p T)" for h p x y
  proof -
    have c: "insert y (insert x (insert p T)) = insert x (insert y (insert p T))" by blast
    show ?thesis unfolding wp_seq [of "visitCondition lib e x y"] wp_seq [of "call lib (Mature_immBlock z)" for z]
      using h st(1) E loop [of p _ x y]
      by (intro wp_visitCondition [OF e, where T = "insert x (insert y (insert p T))" and U = U]
          wp_mature_last [OF L, where T = "insert y (insert p T)" and U = U] wp_mature_last [OF L, where T = "insert p T" and U = U])
        (auto simp: c)
  qed
  have enter: "wp (bnd (call lib New_immBlock) (\<lambda>x. bnd (call lib New_immBlock) (?cond p x))) Q (st\<lparr>calls := h\<rparr>)"
    if h: "inv lib (insert p T) U h" "p \<notin> T" for h p
    unfolding wp_bnd [of "call lib New_immBlock"]
  proof (rule wp_new_immBlock [OF L, where T = "insert p T" and U = U])
    fix h1 x
    assume "inv lib (insert x (insert p T)) U h1" "x \<notin> insert p T"
    then show "wp (call lib New_immBlock) (\<lambda>y. wp (?cond p x y) Q) (st\<lparr>calls := h, calls := h1\<rparr>)"
      using h(2) cond [of _ x p] by (intro wp_new_immBlock [OF L, where T = "insert x (insert p T)" and U = U]) simp_all
  qed (use h in simp)
  show "wp (visitStmt lib (WhileStatement l c e b)) Q st"
    unfolding visitStmt.simps wp_bnd [of "call lib New_immBlock"]
  proof (rule wp_new_immBlock [OF L st(2)])
    fix h p
    assume p: "inv lib (insert p T) U h" "p \<notin> T"
    show "wp (seq (jumpTo lib p) (seq (call lib (Set_cur_block p)) (bnd (call lib New_immBlock) (\<lambda>b'. seq (jumpTo lib b')
        (seq (call lib (Set_cur_block b')) (seq (call lib (Mature_immBlock b'))
        (bnd (call lib New_immBlock) (\<lambda>x. bnd (call lib New_immBlock) (?cond p x))))))))) Q (st\<lparr>calls := h\<rparr>)"
      unfolding wp_seq [of "jumpTo lib p"] using p E enter
      by (intro wp_jumpTo [OF L, where T = "insert p T" and U = U] wp_loopHeader [OF L, where T = "insert p T" and U = U]) auto
  qed
qed

text \<open>Every typed statement keeps the stacks and the protocol.\<close>

lemma runs_typed:
  assumes L: "block_laws lib" "node_laws lib"
  shows "typed_stmt \<Gamma> s \<Longrightarrow> runs lib \<Gamma> T (visitStmt lib s)"
    and "typed_stmts \<Gamma> ss \<Longrightarrow> runs lib \<Gamma> T (visitStmts lib ss)"
    and "typed_body \<Gamma> b \<Longrightarrow> runs lib \<Gamma> T (visitBody lib b) \<and> (\<forall>x. b = Some x \<longrightarrow> runs lib \<Gamma> T (visitStmt lib x))"
proof (induction \<Gamma> s and \<Gamma> ss and \<Gamma> b arbitrary: T and T and T rule: typed_stmt_typed_stmts_typed_body.induct)
  case (2 \<Gamma> l c e)
  then show ?case by (intro runs_exprStmt [OF visits_typed(1) [OF L]]) simp
next
  case (3 \<Gamma> l c ty n e idx)
  then show ?case unfolding visitStmt.simps by (intro runs_varDecl [OF L]) (auto intro!: visits_typed(1) [OF L] split: option.splits)
next
  case (4 \<Gamma> l c e)
  then show ?case unfolding visitStmt.simps by (intro runs_return [OF L]) (auto intro!: visits_typed(1) [OF L])
next
  case (5 \<Gamma> l c e a b)
  then have "typed_expr \<Gamma> e" "kind (targetType e) = TK_Bool" "typed_body \<Gamma> a" "typed_body \<Gamma> b" by simp_all
  with 5(1,2) show ?case by (intro runs_if [OF L(1) visits_typed(1) [OF L]]) blast+
next
  case (6 \<Gamma> l c e b)
  then have "typed_expr \<Gamma> e" "kind (targetType e) = TK_Bool" "typed_body \<Gamma> b" by simp_all
  with 6(1) show ?case by (intro runs_while [OF L(1) visits_typed(1) [OF L]]) blast+
qed (auto intro!: runs_ret runs_seq)

end
