(* ===== verification/Graph_Program.thy ===== *)
theory Graph_Program
  imports Graph_Stmt
begin

text \<open>
  Whole programs: the visits of typed programs come to an end without a failed assertion, every block is
  matured, and no predecessor is added to a block that is matured.
\<close>

section \<open>Enough fuel\<close>

text \<open>From some fuel on the result is the same, and satisfies \<open>Q\<close>.\<close>

definition ewp :: "(nat \<Rightarrow> ('n, 'a) fv_m) \<Rightarrow> ('a \<Rightarrow> 'n fvisitor \<Rightarrow> bool) \<Rightarrow> 'n fvisitor \<Rightarrow> bool" where
  "ewp m Q st \<longleftrightarrow> (\<exists>x st' n0. (\<forall>n \<ge> n0. m n st = Inr (x, st')) \<and> Q x st')"

lemma ewp_wp: "wp m Q st \<Longrightarrow> ewp (\<lambda>n. m) Q st"
  by (auto simp: ewp_def wp_def)

lemma ewp_bnd:
  assumes "ewp m (\<lambda>x. ewp (\<lambda>n. f n x) Q) st"
  shows "ewp (\<lambda>n. bnd (m n) (f n)) Q st"
proof -
  obtain x st1 n0 where 1: "\<And>n. n \<ge> n0 \<Longrightarrow> m n st = Inr (x, st1)" "ewp (\<lambda>n. f n x) Q st1"
    using assms unfolding ewp_def [of m] by blast
  obtain y st2 n1 where 2: "\<And>n. n \<ge> n1 \<Longrightarrow> f n x st1 = Inr (y, st2)" "Q y st2" using 1(2) by (auto simp: ewp_def)
  have "bnd (m n) (f n) st = Inr (y, st2)" if "n \<ge> max n0 n1" for n using that 1(1) 2(1) by (simp add: bnd_def)
  then show ?thesis using 2(2) unfolding ewp_def by blast
qed

lemma ewp_seq: "ewp m (\<lambda>_. ewp k Q) st \<Longrightarrow> ewp (\<lambda>n. seq (m n) (k n)) Q st"
  unfolding seq_def by (rule ewp_bnd)

lemma ewp_bnd_wp: "wp m (\<lambda>x. ewp (\<lambda>n. f n x) Q) st \<Longrightarrow> ewp (\<lambda>n. bnd m (f n)) Q st"
  by (rule ewp_bnd, rule ewp_wp)

lemma ewp_seq_wp: "wp m (\<lambda>_. ewp k Q) st \<Longrightarrow> ewp (\<lambda>n. seq m (k n)) Q st"
  by (rule ewp_seq, rule ewp_wp)

text \<open>Loops over lists\<close>

lemma ewp_forEach:
  assumes "\<And>pre x post st. xs = pre @ x # post \<Longrightarrow> I pre st \<Longrightarrow> ewp (\<lambda>n. f n x) (\<lambda>_. I (pre @ [x])) st" and "I [] st"
  shows "ewp (\<lambda>n. forEach xs (f n)) (\<lambda>_. I xs) st"
proof -
  have "xs = pre @ post \<Longrightarrow> I pre st \<Longrightarrow> ewp (\<lambda>n. forEach post (f n)) (\<lambda>_. I xs) st" for pre post st
  proof (induction post arbitrary: pre st)
    case Nil
    then show ?case by (auto intro!: ewp_wp simp: wp_ret)
  next
    case (Cons x post)
    obtain y st1 n0 where 1: "\<And>n. n \<ge> n0 \<Longrightarrow> f n x st = Inr (y, st1)" "I (pre @ [x]) st1"
      using assms(1) [OF Cons.prems] by (auto simp: ewp_def)
    have "ewp (\<lambda>n. forEach post (f n)) (\<lambda>_. I xs) st1" using Cons.prems 1(2) by (intro Cons.IH [of "pre @ [x]"]) simp_all
    then have "ewp (\<lambda>n. f n x) (\<lambda>_. ewp (\<lambda>n. forEach post (f n)) (\<lambda>_. I xs)) st" using 1(1) unfolding ewp_def [of "\<lambda>n. f n x"] by blast
    then show ?case by (simp add: ewp_seq)
  qed
  from this [of "[]" xs] show ?thesis using assms(2) by simp
qed

lemma wp_forEach:
  assumes "\<And>pre x post st. xs = pre @ x # post \<Longrightarrow> I pre st \<Longrightarrow> wp (f x) (\<lambda>_. I (pre @ [x])) st" and "I [] st"
  shows "wp (forEach xs f) (\<lambda>_. I xs) st"
proof -
  have "ewp (\<lambda>n. forEach xs f) (\<lambda>_. I xs) st" by (rule ewp_forEach) (use assms in \<open>auto intro!: ewp_wp\<close>)
  then show ?thesis by (auto simp: ewp_def wp_def)
qed

section \<open>Critical edges\<close>

lemma predBlocks_subset: "set (predBlocks lib h b) \<subseteq> {p. \<exists>b i. lf_cfgpred_block lib h b i = Some p}"
  by (auto simp: predBlocks_def split: option.splits if_splits dest: sym)

lemma collectBlocks_ends:
  assumes "finite S" "{p. \<exists>b i. lf_cfgpred_block lib h b i = Some p} \<subseteq> S"
  shows "set ws \<subseteq> S \<Longrightarrow> \<exists>n0 r. \<forall>n \<ge> n0. collectBlocks n lib h np ns ws = Some r"
proof (induction "(card (S - fst ` set np), length ws)" arbitrary: np ns ws
    rule: wf_induct_rule [OF wf_lex_prod [OF wf_less_than wf_less_than]])
  case (1 np ws ns)
  show ?case
  proof (cases ws)
    case Nil
    have "collectBlocks n lib h np ns ws = Some (np, ns)" if "n \<ge> 1" for n using that Nil by (cases n) simp_all
    then show ?thesis by blast
  next
    case (Cons b bs)
    have step: "\<exists>n0 r. \<forall>n \<ge> n0. collectBlocks n lib h np ns ws = Some r"
      if eq: "\<And>n. collectBlocks (Suc n) lib h np ns ws = collectBlocks n lib h np' ns' ws'"
        and lt: "((card (S - fst ` set np'), length ws'), (card (S - fst ` set np), length ws)) \<in> less_than <*lex*> less_than" and sub: "set ws' \<subseteq> S" for np' ns' ws'
    proof -
      obtain n0 r where r: "\<And>n. n \<ge> n0 \<Longrightarrow> collectBlocks n lib h np' ns' ws' = Some r" using 1(1) [OF lt sub] by blast
      have "collectBlocks n lib h np ns ws = Some r" if "n \<ge> Suc n0" for n using that eq r by (cases n) simp_all
      then show ?thesis by blast
    qed
    show ?thesis
    proof (cases "b \<in> fst ` set np")
      case True
      show ?thesis by (rule step [of np ns bs]) (use True Cons 1(2) in auto)
    next
      case False
      have "S - fst ` set (np @ [(b, lf_n_cfgpreds lib h b)]) \<subset> S - fst ` set np" using False Cons 1(2) by auto
      then have c: "card (S - fst ` set (np @ [(b, lf_n_cfgpreds lib h b)])) < card (S - fst ` set np)"
        using assms(1) by (intro psubset_card_mono) auto
      show ?thesis
        by (rule step [of "np @ [(b, lf_n_cfgpreds lib h b)]" "fold (\<lambda>p m. m(p := m p + 1)) (predBlocks lib h b) ns"
              "bs @ predBlocks lib h b"])
          (use False Cons 1(2) c predBlocks_subset [of lib h b] assms(2) in \<open>auto simp: Let_def\<close>)
    qed
  qed
qed

section \<open>Between the methods\<close>

text \<open>Only the end blocks wait for predecessors, and every other block is matured.\<close>

definition base :: "'n libfirm \<Rightarrow> 'n calls \<Rightarrow> bool" where
  "base lib h \<longleftrightarrow> inv lib (end_blocks lib) {} h"

lemma base_inv0: "block_laws lib \<Longrightarrow> inv0 lib (end_blocks lib) {} h \<Longrightarrow> base lib h"
  using cur_block_set_blocks(1) [of lib h] unfolding base_def inv_def inv0_def by blast

lemma base_r_cur: "block_laws lib \<Longrightarrow> base lib h \<Longrightarrow> lf_r_cur_block lib h g \<notin> end_blocks lib"
  using cur_block_set_blocks(2) [of lib h g] unfolding base_def inv_def inv0_def by blast

lemma wp_base:
  assumes "block_laws lib" "base lib (calls st)" "quiet op" and "\<And>h h0. base lib h \<Longrightarrow> Q (lf_run lib h0 op) (st\<lparr>calls := h\<rparr>)"
  shows "wp (call lib op) Q st"
  by (rule wp_quiet [OF assms(1) assms(2) [unfolded base_def] assms(3)]) (rule assms(4), simp add: base_def)

lemma wp_base_mature:
  assumes "block_laws lib" "base lib (calls st)" "b \<notin> end_blocks lib" and "\<And>h n. base lib h \<Longrightarrow> Q n (st\<lparr>calls := h\<rparr>)"
  shows "wp (call lib (Mature_immBlock b)) Q st"
  by (rule wp_mature [OF assms(1) assms(2) [unfolded base_def] assms(3)]) (rule assms(4), use assms(3) in \<open>simp add: base_def\<close>)

text \<open>The calls that change the current graph or its current block\<close>

lemma wp_switch:
  assumes L: "block_laws lib" and "base lib (calls st)" and Q: "\<And>h r. base lib h \<Longrightarrow> Q r (st\<lparr>calls := h\<rparr>)"
  shows "wp (call lib (New_ir_graph e i)) Q st" and "wp (call lib (Set_current_ir_graph g)) Q st"
    and "b \<notin> end_blocks lib \<Longrightarrow> wp (call lib (Set_r_cur_block g b)) Q st"
  using assms(2) unfolding wp_call
  by (auto intro!: Q base_inv0 [OF L] simp: base_def inv_def inv0_def calls_simps)

lemma wp_setCurrentGraph:
  assumes L: "block_laws lib" and "base lib (calls st)" and Q: "\<And>h. base lib h \<Longrightarrow> Q () (st\<lparr>current_ir_graph := Some g, calls := h\<rparr>)"
  shows "wp (setCurrentGraph lib g) Q st"
  unfolding setCurrentGraph_def wp_seq wp_modify
proof (rule wp_switch(2) [OF L assms(2)])
  fix h
  assume "base lib h"
  have eq: "st\<lparr>calls := h, current_ir_graph := Some g\<rparr> = st\<lparr>current_ir_graph := Some g, calls := h\<rparr>" by simp
  show "Q () (st\<lparr>calls := h, current_ir_graph := Some g\<rparr>)" unfolding eq by (rule Q) fact
qed

text \<open>Only calls have been made since \<open>st\<close>.\<close>

definition only_calls :: "'n libfirm \<Rightarrow> 'n fvisitor \<Rightarrow> 'n fvisitor \<Rightarrow> bool" where
  "only_calls lib st st' \<longleftrightarrow> (\<exists>h. base lib h \<and> st' = st\<lparr>calls := h\<rparr>)"

lemma only_callsI: "base lib h \<Longrightarrow> only_calls lib st (st\<lparr>calls := h\<rparr>)"
  by (auto simp: only_calls_def)

lemma wp_splitEdge:
  assumes L: "block_laws lib" and "only_calls lib st0 st"
  shows "wp (splitEdge lib g ns b i) (\<lambda>_. only_calls lib st0) st"
proof -
  obtain h where h: "base lib h" "st = st0\<lparr>calls := h\<rparr>" using assms(2) by (auto simp: only_calls_def)
  show ?thesis using h(1) assms(2) unfolding splitEdge_def h(2)
    by (auto simp: wps intro!: wp_base [OF L] only_callsI split: option.splits)
qed

lemma ewp_remove_critical_edges:
  assumes L: "block_laws lib" "finite_graphs lib" and "base lib (calls st)" and Q: "\<And>h. base lib h \<Longrightarrow> Q () (st\<lparr>calls := h\<rparr>)"
  shows "ewp (\<lambda>n. remove_critical_edges n lib g) Q st"
proof -
  let ?ws = "lf_end_block lib g # filter (lf_is_Block lib) (List.map_filter id (lf_keepalives lib (calls st) g))"
  let ?S = "{p. \<exists>b i. lf_cfgpred_block lib (calls st) b i = Some p} \<union> set ?ws"
  have "finite ?S" using L(2) unfolding finite_graphs_def by blast
  then obtain n0 r where r: "\<And>n. n \<ge> n0 \<Longrightarrow> collectBlocks n lib (calls st) [] (\<lambda>_. 0) ?ws = Some r"
    using collectBlocks_ends [of ?S lib "calls st" ?ws "[]" "\<lambda>_. 0"] by blast
  obtain np ns where np: "r = (np, ns)" by (cases r)
  let ?body = "forEach (lf_map_order lib (map fst np)) (\<lambda>b. let nPreds = the (map_of np b) in
       if nPreds > 1 then forEach [0..<nPreds] (splitEdge lib g ns b) else ret ())"
  have st0: "only_calls lib st st" using assms(3) only_callsI [of lib "calls st" st] by simp
  have "wp ?body (\<lambda>_. only_calls lib st) st"
    by (rule wp_forEach [where I = "\<lambda>_. only_calls lib st"])
      (auto simp: Let_def wp_ret st0 intro!: wp_forEach [where I = "\<lambda>_. only_calls lib st"] wp_splitEdge [OF L(1)])
  then have "wp ?body Q st" by (rule wp_mono) (auto simp: only_calls_def intro!: Q)
  then obtain st' where "?body st = Inr ((), st')" "Q () st'" by (auto simp: wp_def)
  moreover have "remove_critical_edges n lib g st = ?body st" if "n \<ge> n0" for n
    using r [OF that] np by (simp add: remove_critical_edges_def bnd_def gets_def the_or_def ret_def)
  ultimately show ?thesis unfolding ewp_def by metis
qed

lemma ewp_finishGraph:
  assumes L: "block_laws lib" "finite_graphs lib" and "base lib (calls st)" "current_ir_graph st \<noteq> None"
    and Q: "\<And>h. base lib h \<Longrightarrow> Q () (st\<lparr>calls := h\<rparr>)"
  shows "ewp (\<lambda>n. finishGraph n lib g) Q st"
proof -
  obtain g' where g': "current_ir_graph st = Some g'" using assms(4) by blast
  have dump: "ewp (\<lambda>n. bnd (gets printGraphs) (\<lambda>p. bnd currentGraph (\<lambda>g. if p then seq (call lib (Dump_ir_graph g)) (ret ()) else ret ()))) Q
      (st\<lparr>calls := h\<rparr>)" if "base lib h" for h
    using that g' by (intro ewp_wp) (auto simp: wps currentGraph_def intro!: wp_base [OF L(1)] Q)
  show ?thesis unfolding finishGraph_def
  proof (rule ewp_bnd_wp, unfold wp_gets, rule ewp_seq_wp, rule wp_base_mature [OF L(1) assms(3) base_r_cur [OF L(1) assms(3)]])
    fix h
    assume "base lib h"
    then show "ewp (\<lambda>n. seq (call lib (Irg_finalize_cons g)) (seq (remove_critical_edges n lib g) (bnd (gets printGraphs)
        (\<lambda>p. bnd currentGraph (\<lambda>g. if p then seq (call lib (Dump_ir_graph g)) (ret ()) else ret ()))))) Q (st\<lparr>calls := h\<rparr>)"
      using dump by (intro ewp_seq_wp wp_base [OF L(1)] ewp_seq ewp_remove_critical_edges [OF L]) simp_all
  qed
qed

section \<open>Methods\<close>

definition method_good :: "'n libfirm \<Rightarrow> regular_method \<Rightarrow> 'n firm_method \<Rightarrow> bool" where
  "method_good lib rm m \<longleftrightarrow> nParams m = length (rm_parameters rm) + 1 \<and> fm_params m \<noteq> []
     \<and> lf_irn_mode lib (hd (fm_params m)) = mode_P"

definition table_good :: "'n libfirm \<Rightarrow> program \<Rightarrow> (method_ref \<rightharpoonup> 'n firm_method) \<Rightarrow> bool" where
  "table_good lib P t \<longleftrightarrow>
     (\<forall>c n m. t (MethodRef c n) = Some m \<longrightarrow> (\<exists>k \<in> set (pr_classes P). \<exists>rm \<in> set (c_methods k).
        c_name k = c \<and> rm_name rm = n \<and> method_good lib rm m))
     \<and> (\<forall>c n m. t (MainRef c n) = Some m \<longrightarrow> nParams m = 0)"

text \<open>Between two methods of a program whose classes are declared\<close>

definition prog_ok :: "'n libfirm \<Rightarrow> program \<Rightarrow> 'n fvisitor \<Rightarrow> bool" where
  "prog_ok lib P st \<longleftrightarrow> tables_ok lib P st \<and> table_good lib P (methodTable st) \<and> base lib (calls st)
     \<and> nodeStack st = [] \<and> reqBoolInfo st = [None]"

lemma distinct_key: "distinct (map f xs) \<Longrightarrow> x \<in> set xs \<Longrightarrow> y \<in> set xs \<Longrightarrow> f x = f y \<Longrightarrow> x = y"
  by (auto simp: distinct_map inj_on_def)

lemma typed_programD:
  assumes "typed_program P" "k \<in> set (pr_classes P)"
  shows "typed_class P k" "distinct (map c_name (pr_classes P))" "distinct (map rm_name (c_methods k))"
    and "rm \<in> set (c_methods k) \<Longrightarrow> typed_method P k rm"
    and "mm \<in> set (c_mainMethods k) \<Longrightarrow> typed_stmt (main_ctx P k mm) (mm_block mm)"
    and "f \<in> set (c_fields k) \<Longrightarrow> ast_typed P (f_type f)"
  using assms by (auto simp: typed_program_def typed_class_def list_all_iff)

lemma prog_ok_method:
  assumes P: "typed_program P" and st: "prog_ok lib P st" and "k \<in> set (pr_classes P)" "rm \<in> set (c_methods k)"
  shows "\<exists>m. methodTable st (MethodRef (c_name k) (rm_name rm)) = Some m \<and> method_good lib rm m"
proof -
  obtain m where m: "methodTable st (MethodRef (c_name k) (rm_name rm)) = Some m"
    using st assms(3,4) unfolding prog_ok_def tables_ok_def by blast
  then obtain k' rm' where r: "k' \<in> set (pr_classes P)" "rm' \<in> set (c_methods k')" "c_name k' = c_name k" "rm_name rm' = rm_name rm"
      "method_good lib rm' m"
    using st unfolding prog_ok_def table_good_def by blast
  have "k' = k" by (rule distinct_key [OF typed_programD(2) [OF P assms(3)] r(1) assms(3) r(3)])
  then have "rm' = rm" using distinct_key [OF typed_programD(3) [OF P assms(3)] _ assms(4) r(4)] r(2) by simp
  with m r(5) show ?thesis by blast
qed

lemma wp_typed_stmt:
  assumes L: "block_laws lib" "node_laws lib" and "typed_stmt \<Gamma> s" "state_ok lib \<Gamma> st" "base lib (calls st)" "reqBoolInfo st = [None]"
    and Q: "\<And>h. base lib h \<Longrightarrow> Q () (st\<lparr>calls := h\<rparr>)"
  shows "wp (visitStmt lib s) Q st"
  by (rule wp_runs [OF runs_typed(1) [OF L assms(3)] assms(4) assms(5) [unfolded base_def] assms(6)])
    (rule Q, simp add: base_def)

lemma wp_return_base:
  assumes "block_laws lib" "base lib (calls st)" and "\<And>h. base lib h \<Longrightarrow> Q () (st\<lparr>calls := h\<rparr>)"
  shows "wp (addReturn lib g ns) Q st"
  by (rule wp_addReturn [OF assms(1) assms(2) [unfolded base_def]]) (rule assms(3), simp add: base_def)

lemma tables_frame [simp]:
  "tables_ok lib P (st\<lparr>currentMethod := r\<rparr>) = tables_ok lib P st"
  "tables_ok lib P (st\<lparr>current_ir_graph := g\<rparr>) = tables_ok lib P st"
  "tables_ok lib P (st\<lparr>firmGraphs := gs\<rparr>) = tables_ok lib P st"
  "tables_ok lib P (st\<lparr>currentClass := c\<rparr>) = tables_ok lib P st"
  "tables_ok lib P (st\<lparr>calls := h\<rparr>) = tables_ok lib P st"
  by (simp_all add: tables_ok_def types_ok_def)

lemma prog_ok_frame [simp]:
  "prog_ok lib P (st\<lparr>currentMethod := r\<rparr>) = prog_ok lib P st"
  "prog_ok lib P (st\<lparr>current_ir_graph := g\<rparr>) = prog_ok lib P st"
  "prog_ok lib P (st\<lparr>firmGraphs := gs\<rparr>) = prog_ok lib P st"
  "prog_ok lib P (st\<lparr>currentClass := c\<rparr>) = prog_ok lib P st"
  by (simp_all add: prog_ok_def)

lemma prog_ok_base: "prog_ok lib P st \<Longrightarrow> base lib h \<Longrightarrow> prog_ok lib P (st\<lparr>calls := h\<rparr>)"
  by (simp add: prog_ok_def)

text \<open>The body of a method and the end of its graph\<close>

lemma ewp_body:
  assumes L: "libfirm_laws lib" and "typed_stmt \<Gamma> s" "state_ok lib \<Gamma> st" "prog_ok lib P st" "current_ir_graph st \<noteq> None"
    and m: "\<And>Q h. base lib h \<Longrightarrow> (\<And>h. base lib h \<Longrightarrow> Q () (st\<lparr>calls := h\<rparr>)) \<Longrightarrow> wp m Q (st\<lparr>calls := h\<rparr>)"
    and k: "\<And>h. base lib h \<Longrightarrow> wp k Q (st\<lparr>calls := h\<rparr>)"
  shows "ewp (\<lambda>n. seq (visitStmt lib s) (seq m (seq (finishGraph n lib g) k))) Q st"
proof (rule ewp_seq_wp, rule wp_typed_stmt [OF _ _ assms(2,3)])
  show "block_laws lib" "node_laws lib" using L by (simp_all add: libfirm_laws_def)
  show "base lib (calls st)" "reqBoolInfo st = [None]" using assms(4) by (simp_all add: prog_ok_def)
  have F: "block_laws lib" "finite_graphs lib" using L by (simp_all add: libfirm_laws_def)
  fix h
  assume h: "base lib h"
  show "ewp (\<lambda>n. seq m (seq (finishGraph n lib g) k)) Q (st\<lparr>calls := h\<rparr>)"
  proof (rule ewp_seq_wp, rule m [OF h], rule ewp_seq, rule ewp_finishGraph [OF F])
    fix h1 h2
    assume "base lib h2"
    then show "ewp (\<lambda>n. k) Q (st\<lparr>calls := h1, calls := h2\<rparr>)" using k by (intro ewp_wp) simp
  qed (use assms(5) in simp_all)
qed

lemma bnd_simps: "bnd (ret x) f = f x" "the_or e (Some x) = ret x"
  by (simp_all add: fun_eq_iff bnd_def ret_def the_or_def)

text \<open>A method adds one graph.\<close>

definition next_ok :: "'n libfirm \<Rightarrow> program \<Rightarrow> 'n fvisitor \<Rightarrow> nat \<Rightarrow> 'n fvisitor \<Rightarrow> bool" where
  "next_ok lib P st0 i st \<longleftrightarrow> prog_ok lib P st \<and> currentClass st = currentClass st0
     \<and> length (firmGraphs st) = length (firmGraphs st0) + i"

lemma next_okI:
  "prog_ok lib P st \<Longrightarrow> base lib h
    \<Longrightarrow> next_ok lib P st 1 (st\<lparr>currentMethod := r, current_ir_graph := g, calls := h, firmGraphs := firmGraphs st @ [x]\<rparr>)"
  by (simp add: next_ok_def prog_ok_def)

lemma ewp_visitRegularMethod:
  assumes L: "libfirm_laws lib" and P: "typed_program P" and k: "k \<in> set (pr_classes P)" "rm \<in> set (c_methods k)"
    and st: "prog_ok lib P st" "currentClass st = Some (c_name k)"
  shows "ewp (\<lambda>n. visitRegularMethod n lib (c_name k) rm) (\<lambda>_. next_ok lib P st 1) st"
proof -
  have B: "block_laws lib" using L by (simp add: libfirm_laws_def)
  obtain m where m: "methodTable st (MethodRef (c_name k) (rm_name rm)) = Some m" "method_good lib rm m"
    using prog_ok_method [OF P st(1) k] by blast
  obtain rt where rt: "getSemaType (rm_returnType rm) = Some rt" and body: "typed_stmt (method_ctx P k rm) (rm_block rm)"
    using typed_programD(4) [OF P k] by (auto simp: typed_method_def ret_typed_def split: option.splits)
  let ?st = "\<lambda>h. st\<lparr>currentMethod := Some (MethodRef (c_name k) (rm_name rm)), current_ir_graph := Some (fm_graph m), calls := h\<rparr>"
  have ok: "state_ok lib (method_ctx P k rm) (?st h)" "prog_ok lib P (?st h)" if "base lib h" for h
    using st k(1) m that unfolding state_ok_def method_ok_def method_ctx_def method_good_def prog_ok_def by auto
  have body: "ewp (\<lambda>n. seq (visitStmt lib (rm_block rm)) (seq (if isVoid rt \<and> cfb (rm_block rm) = MayContinue then addReturn lib (fm_graph m) [] else ret ())
      (seq (finishGraph n lib (fm_graph m)) (seq (call lib (Irg_finalize_cons (fm_graph m))) (pushGraph (fm_graph m))))))
      (\<lambda>_. next_ok lib P st 1) (?st h)" if h: "base lib h" for h
  proof (rule ewp_body [OF L body ok [OF h]])
    fix h1
    assume "base lib h1"
    then show "wp (seq (call lib (Irg_finalize_cons (fm_graph m))) (pushGraph (fm_graph m))) (\<lambda>_. next_ok lib P st 1) (?st h\<lparr>calls := h1\<rparr>)"
      using next_okI [OF st(1)] by (auto simp: wp_seq pushGraph_def wp_modify intro!: wp_base [OF B])
  qed (auto simp: wp_ret intro!: wp_return_base [OF B])
  show ?thesis unfolding visitRegularMethod_def rt bnd_simps
    using m(1) st(1) body
    by (intro ewp_bnd_wp) (simp add: wp_gets bnd_simps ewp_seq_wp wp_modify prog_ok_def wp_setCurrentGraph [OF B])
qed

lemma insert_new_simps [simp]:
  "insert_new (MainRef c n) m t (MethodRef c' n') = t (MethodRef c' n')"
  "insert_new (MethodRef c n) m t (MainRef c' n') = t (MainRef c' n')"
  "insert_new r m t r \<noteq> None"
  by (simp_all add: insert_new_def)

lemma insert_new_Some: "insert_new k v t k' = Some x \<Longrightarrow> t k' = Some x \<or> k' = k \<and> x = v"
  by (auto simp: insert_new_def split: if_splits)

lemma table_good_main: "table_good lib P t \<Longrightarrow> nParams m = 0 \<Longrightarrow> table_good lib P (insert_new (MainRef c n) m t)"
  by (auto simp: table_good_def dest!: insert_new_Some)

lemma prog_ok_main:
  assumes "prog_ok lib P st" "nParams m = 0"
  shows "prog_ok lib P (st\<lparr>methodTable := insert_new (MainRef c n) m (methodTable st)\<rparr>)"
  using assms table_good_main unfolding prog_ok_def by (auto simp: tables_ok_def types_ok_def)

lemma state_ok_main:
  assumes "prog_ok lib P st" "currentClass st = Some (c_name k)" "k \<in> set (pr_classes P)" and "currentMethod st = Some (MainRef c n)"
    "methodTable st (MainRef c n) \<noteq> None" "current_ir_graph st \<noteq> None"
  shows "state_ok lib (main_ctx P k mm) st"
  using assms unfolding state_ok_def method_ok_def main_ctx_def prog_ok_def table_good_def by auto

lemma ewp_visitMainMethod:
  assumes L: "libfirm_laws lib" and P: "typed_program P" and k: "k \<in> set (pr_classes P)" "mm \<in> set (c_mainMethods k)"
    and st: "prog_ok lib P st" "currentClass st = Some (c_name k)"
  shows "ewp (\<lambda>n. visitMainMethod n lib (c_name k) mm) (\<lambda>_. next_ok lib P st 1) st"
proof -
  have B: "block_laws lib" using L by (simp add: libfirm_laws_def)
  let ?r = "MainRef (c_name k) (mm_name mm)"
  let ?m = "\<lambda>e g. \<lparr>fm_graph = g, fm_entity = e, nParams = 0, fm_params = [], fm_localVars = mm_varDecls mm\<rparr>"
  let ?st = "\<lambda>e g h. st\<lparr>currentMethod := Some ?r, methodTable := insert_new ?r (?m e g) (methodTable st),
    current_ir_graph := Some g, calls := h\<rparr>"
  have ok: "prog_ok lib P (?st e g h)" "state_ok lib (main_ctx P k mm) (?st e g h)" if "base lib h" for e g h
  proof -
    show p: "prog_ok lib P (?st e g h)"
      using st(1) that prog_ok_main [of lib P "st\<lparr>currentMethod := Some ?r\<rparr>" "?m e g"] by (intro prog_ok_base) simp_all
    show "state_ok lib (main_ctx P k mm) (?st e g h)" by (rule state_ok_main [OF p]) (use st(2) k(1) in \<open>auto simp: insert_new_def\<close>)
  qed
  let ?k = "\<lambda>g n. seq (visitStmt lib (mm_block mm)) (seq (if cfb (mm_block mm) = MayContinue
      then bnd (call lib (New_Const_long mode_Is 0)) (\<lambda>z. addReturn lib g [z]) else ret ()) (seq (finishGraph n lib g) (pushGraph g)))"
  have body: "ewp (?k g) (\<lambda>_. next_ok lib P st 1) (?st e g h)" if h: "base lib h" for e g h
  proof (rule ewp_body [OF L typed_programD(5) [OF P k] ok(2) [OF h] ok(1) [OF h]])
    fix h1
    assume "base lib h1"
    then show "wp (pushGraph g) (\<lambda>_. next_ok lib P st 1) (?st e g h\<lparr>calls := h1\<rparr>)"
      using ok(1) [of h1] by (simp add: pushGraph_def wp_modify next_ok_def)
  qed (auto simp: wps intro!: wp_return_base [OF B] wp_base [OF B])
  have graph: "ewp (\<lambda>n. seq (setCurrentGraph lib g) (seq (insertMethod ?r (?m e g)) (seq (modify (\<lambda>st. st\<lparr>currentMethod := Some ?r\<rparr>)) (?k g n))))
      (\<lambda>_. next_ok lib P st 1) (st\<lparr>calls := h\<rparr>)" if h: "base lib h" for e g h
  proof (rule ewp_seq_wp, rule wp_setCurrentGraph [OF B])
    fix h1
    assume "base lib h1"
    let ?st1 = "st\<lparr>calls := h, current_ir_graph := Some g, calls := h1\<rparr>"
    have eq: "?st1\<lparr>methodTable := insert_new ?r (?m e g) (methodTable ?st1), currentMethod := Some ?r\<rparr> = ?st e g h1" by simp
    have "ewp (?k g) (\<lambda>_. next_ok lib P st 1) (?st1\<lparr>methodTable := insert_new ?r (?m e g) (methodTable ?st1), currentMethod := Some ?r\<rparr>)"
      unfolding eq by (rule body) fact
    then show "ewp (\<lambda>n. seq (insertMethod ?r (?m e g)) (seq (modify (\<lambda>st. st\<lparr>currentMethod := Some ?r\<rparr>)) (?k g n))) (\<lambda>_. next_ok lib P st 1) ?st1"
      by (intro ewp_seq_wp) (unfold insertMethod_def wp_modify, intro ewp_seq_wp, unfold wp_modify)
  qed (use h in simp)
  show ?thesis unfolding visitMainMethod_def
    using st(1) graph
    by (intro ewp_bnd_wp wp_base [OF B]) (simp_all add: prog_ok_def wp_gets ewp_bnd_wp ewp_seq_wp wp_base [OF B] wp_switch [OF B])
qed

section \<open>Declarations\<close>

lemma types_frame [simp]:
  "types_ok lib P (st\<lparr>calls := h\<rparr>) = types_ok lib P st"
  "types_ok lib P (st\<lparr>current_ir_graph := g\<rparr>) = types_ok lib P st"
  "types_ok lib P (st\<lparr>methodTable := t\<rparr>) = types_ok lib P st"
  by (simp_all add: types_ok_def)

lemma wp_base_IrType:
  assumes L: "block_laws lib" "node_laws lib" and "types_ok lib P st" "ir_typed P t" "base lib (calls st)"
    and Q: "\<And>h n. base lib h \<Longrightarrow> getModeForType lib n = kmode t \<Longrightarrow> Q n (st\<lparr>calls := h\<rparr>)"
  shows "wp (getIrType lib t) Q st"
  by (rule wp_getIrType [OF L assms(3,4) assms(5) [unfolded base_def]]) (simp add: Q base_def)

lemma ast_typed_mode: "ast_typed P t \<Longrightarrow> \<exists>s. getSemaType t = Some s \<and> ir_typed P s \<and> tmode t = kmode s \<and> kmode s \<noteq> None"
  unfolding ast_typed_def tmode_def kmode_def
  by (cases "getSemaType t") (auto simp: ir_typed.simps [of P s for s] split: type_kind.splits)

lemma wp_base_IrType_ast:
  assumes L: "block_laws lib" "node_laws lib" and "types_ok lib P st" "ast_typed P t" "base lib (calls st)"
    and Q: "\<And>h n. base lib h \<Longrightarrow> getModeForType lib n = tmode t \<Longrightarrow> Q n (st\<lparr>calls := h\<rparr>)"
  shows "wp (getIrType_ast lib t) Q st"
proof -
  obtain s where "getSemaType t = Some s" "ir_typed P s" "tmode t = kmode s" using ast_typed_mode [OF assms(4)] by blast
  with assms(3,5) Q show ?thesis by (simp add: getIrType_ast_def wps wp_base_IrType [OF L])
qed

lemma wp_setParamTypes:
  assumes L: "block_laws lib" "node_laws lib" and "types_ok lib P st"
  shows "\<forall>p \<in> set ps. ast_typed P (p_type p) \<Longrightarrow> base lib h0 \<Longrightarrow> (\<And>h. base lib h \<Longrightarrow> Q () (st\<lparr>calls := h\<rparr>))
    \<Longrightarrow> wp (setParamTypes lib mt i ps) Q (st\<lparr>calls := h0\<rparr>)"
proof (induction ps arbitrary: i h0)
  case (Cons p ps)
  have rest: "wp (setParamTypes lib mt (Suc i) ps) Q (st\<lparr>calls := h\<rparr>)" if "base lib h" for h
    using Cons.prems that by (intro Cons.IH) simp_all
  show ?case unfolding setParamTypes.simps wp_bnd wp_seq
    using Cons.prems(1,2) assms(3) rest
    by (intro wp_base_IrType_ast [OF L, where P = P] wp_base [OF L(1)]) simp_all
qed (simp add: wp_ret)

lemma wp_paramNodes:
  assumes L: "block_laws lib"
  shows "\<forall>p \<in> set ps. ast_typed P (p_type p) \<Longrightarrow> base lib h0 \<Longrightarrow> (\<And>h ns. base lib h \<Longrightarrow> Q ns (st\<lparr>calls := h\<rparr>))
    \<Longrightarrow> wp (paramNodes lib args i ps) Q (st\<lparr>calls := h0\<rparr>)"
proof (induction ps arbitrary: i h0 Q)
  case (Cons p ps)
  obtain md where md: "tmode (p_type p) = Some md" using Cons.prems(1) ast_typed_mode [of P "p_type p"] by auto
  have rest: "wp (paramNodes lib args (Suc i) ps) (\<lambda>ns. wp (ret (n # ns)) Q) (st\<lparr>calls := h\<rparr>)" if "base lib h" for h n
    using Cons.prems that by (intro Cons.IH) (simp_all add: wp_ret)
  show ?case unfolding paramNodes.simps wp_bnd wp_seq
    using Cons.prems(2) rest by (intro wp_getIrMode_ast [OF md] wp_base [OF L]) simp_all
qed (simp add: wp_ret)

lemma wp_declareMethod:
  assumes L: "block_laws lib" "node_laws lib" and rm: "typed_method P k rm" and st: "types_ok lib P st" "base lib (calls st)"
    and Q: "\<And>h g m. base lib h \<Longrightarrow> method_good lib rm m \<Longrightarrow>
      Q () (st\<lparr>current_ir_graph := Some g, methodTable := insert_new (MethodRef cls (rm_name rm)) m (methodTable st), calls := h\<rparr>)"
  shows "wp (declareMethod lib cls ct rm) Q st"
proof -
  obtain rt where rt: "getSemaType (rm_returnType rm) = Some rt" "isVoid rt \<or> ir_typed P rt"
    using rm by (auto simp: typed_method_def ret_typed_def split: option.splits)
  have ps: "\<forall>p \<in> set (rm_parameters rm). ast_typed P (p_type p)" using rm by (simp add: typed_method_def list_all_iff)
  let ?m = "\<lambda>entity graph this ns. \<lparr>fm_graph = graph, fm_entity = entity, nParams = length (rm_parameters rm) + 1, fm_params = this # ns,
         fm_localVars = rm_varDecls rm\<rparr>"
  let ?nodes = "\<lambda>entity graph. bnd (gets (\<lambda>st. lf_r_cur_block lib (calls st) graph)) (\<lambda>lastBlock.
     seq (call lib (Set_r_cur_block graph (lf_start_block lib graph)))
    (bnd (call lib (New_Proj (lf_args lib graph) mode_P (PN_number 0))) (\<lambda>this.
     bnd (paramNodes lib (lf_args lib graph) 1 (rm_parameters rm)) (\<lambda>ns.
     seq (call lib (Set_r_cur_block graph lastBlock)) (insertMethod (MethodRef cls (rm_name rm)) (?m entity graph this ns))))))"
  have nodes: "wp (?nodes e g) Q (st\<lparr>current_ir_graph := Some g, calls := h\<rparr>)" if h: "base lib h" for e g h
  proof -
    let ?b = "lf_r_cur_block lib h g"
    have b: "?b \<notin> end_blocks lib" "lf_start_block lib g \<notin> end_blocks lib" by (rule base_r_cur [OF L(1) h], rule cur_block_set_blocks(3) [OF L(1)])
    have ins: "wp (insertMethod (MethodRef cls (rm_name rm)) (?m e g n ns)) Q (st\<lparr>current_ir_graph := Some g, calls := h1\<rparr>)"
      if "base lib h1" "lf_irn_mode lib n = mode_P" for h1 n ns
    proof -
      have eq: "st\<lparr>current_ir_graph := Some g, calls := h1, methodTable := insert_new (MethodRef cls (rm_name rm)) (?m e g n ns)
          (methodTable (st\<lparr>current_ir_graph := Some g, calls := h1\<rparr>))\<rparr>
        = st\<lparr>current_ir_graph := Some g, methodTable := insert_new (MethodRef cls (rm_name rm)) (?m e g n ns) (methodTable st), calls := h1\<rparr>" by simp
      show ?thesis unfolding insertMethod_def wp_modify eq by (rule Q) (use that in \<open>simp_all add: method_good_def\<close>)
    qed
    have ns: "wp (paramNodes lib (lf_args lib g) 1 (rm_parameters rm)) (\<lambda>ns. wp (call lib (Set_r_cur_block g ?b))
        (\<lambda>_. wp (insertMethod (MethodRef cls (rm_name rm)) (?m e g n ns)) Q)) (st\<lparr>current_ir_graph := Some g, calls := h1\<rparr>)"
      if "base lib h1" "lf_irn_mode lib n = mode_P" for h1 n
      using that b ins
      by (intro wp_paramNodes [OF L(1) ps] wp_switch(3) [OF L(1)]) simp_all
    show ?thesis unfolding wp_bnd wp_gets wp_seq [of "call lib (Set_r_cur_block g x)" for x]
      using h b ns by (intro wp_switch(3) [OF L(1)] wp_base [OF L(1)]) (simp_all add: irn_mode_run [OF L(2)] wp_seq)
  qed
  have graph: "wp (bnd (call lib (New_entity ct (rm_mangledName rm) mt)) (\<lambda>entity. bnd (call lib (New_ir_graph entity i))
      (\<lambda>graph. seq (setCurrentGraph lib graph) (?nodes entity graph)))) Q (st\<lparr>calls := h\<rparr>)" if "base lib h" for mt i h
    unfolding wp_bnd [of "call lib op" for op] wp_seq [of "setCurrentGraph lib g" for g]
    using that nodes by (intro wp_base [OF L(1)] wp_switch(1) [OF L(1)] wp_setCurrentGraph [OF L(1)]) simp_all
  let ?params = "\<lambda>mt. bnd (call lib (New_type_pointer ct)) (\<lambda>thisType. seq (call lib (Set_method_param_type mt 0 thisType))
    (seq (setParamTypes lib mt 1 (rm_parameters rm)) (bnd (call lib (New_entity ct (rm_mangledName rm) mt)) (\<lambda>entity.
      bnd (call lib (New_ir_graph entity (length (rm_parameters rm) + 1 + length (rm_varDecls rm))))
      (\<lambda>graph. seq (setCurrentGraph lib graph) (?nodes entity graph))))))"
  have params: "wp (?params mt) Q (st\<lparr>calls := h\<rparr>)" if "base lib h" for mt h
    unfolding wp_bnd [of "call lib (New_type_pointer ct)"] wp_seq [of "call lib op" for op] wp_seq [of "setParamTypes lib mt i ps" for i ps]
    using that st(1) ps graph by (intro wp_base [OF L(1)]) (simp_all add: wp_setParamTypes [OF L, where P = P])
  have res: "wp (seq (if (if isVoid rt then 0 else 1) > (0::nat) then bnd (getIrType lib rt) (\<lambda>t. seq (call lib (Set_method_res_type mt 0 t)) (ret ()))
      else ret ()) k) Q (st\<lparr>calls := h\<rparr>)" if h: "base lib h" and k: "\<And>h. base lib h \<Longrightarrow> wp k Q (st\<lparr>calls := h\<rparr>)" for mt k h
  proof (cases "isVoid rt")
    case True
    then show ?thesis using k [OF h] by (simp add: wp_seq wp_ret)
  next
    case False
    then have "ir_typed P rt" using rt(2) by simp
    then have "wp (getIrType lib rt) (\<lambda>t. wp (call lib (Set_method_res_type mt 0 t)) (\<lambda>_. wp k Q)) (st\<lparr>calls := h\<rparr>)"
      using h st(1) k by (intro wp_base_IrType [OF L, where P = P] wp_base [OF L(1)]) simp_all
    then show ?thesis using False by (simp add: wp_fun)
  qed
  show ?thesis
    unfolding declareMethod_def rt(1) bnd_simps Let_def wp_bnd [of "call lib (New_type_method i j)" for i j]
    by (rule wp_base [OF L(1) st(2)]) (simp, rule res, assumption, rule params)
qed

lemma wp_declareFields:
  assumes L: "block_laws lib" "node_laws lib" and "types_ok lib P st"
  shows "\<forall>f \<in> set fs. ast_typed P (f_type f) \<Longrightarrow> base lib h0
    \<Longrightarrow> (\<And>h sz fes. base lib h \<Longrightarrow> map fst fes = fs
        \<Longrightarrow> \<forall>(f, e) \<in> set fes. getModeForType lib (lf_entity_type lib e) = tmode (f_type f) \<Longrightarrow> Q (sz, fes) (st\<lparr>calls := h\<rparr>))
    \<Longrightarrow> wp (declareFields lib ct off fs) Q (st\<lparr>calls := h0\<rparr>)"
proof (induction fs arbitrary: off h0 Q)
  case (Cons f fs)
  have rest: "wp (declareFields lib ct off fs) (\<lambda>(sz, fes). Q (sz, (f, e) # fes)) (st\<lparr>calls := h\<rparr>)"
    if "base lib h" "getModeForType lib (lf_entity_type lib e) = tmode (f_type f)" for off h e
    using Cons.prems that by (intro Cons.IH) (simp_all add: Cons.prems(3))
  show ?case
    unfolding declareFields.simps wp_bnd wp_seq wp_gets
    using Cons.prems(1,2) assms(3) rest
    by (intro wp_base_IrType_ast [OF L, where P = P] wp_base [OF L(1)])
      (simp_all add: library_attributes [OF L(2)] split_def wp_fun)
qed (simp add: wp_ret)

definition core :: "'n libfirm \<Rightarrow> program \<Rightarrow> 'n fvisitor \<Rightarrow> bool" where
  "core lib P st \<longleftrightarrow> types_ok lib P st \<and> table_good lib P (methodTable st) \<and> base lib (calls st)
     \<and> nodeStack st = [] \<and> reqBoolInfo st = [None] \<and> firmGraphs st = []"

text \<open>The classes in \<open>pre\<close> are declared, and the others are created.\<close>

definition decl_ok :: "'n libfirm \<Rightarrow> program \<Rightarrow> klass list \<Rightarrow> 'n fvisitor \<Rightarrow> bool" where
  "decl_ok lib P pre st \<longleftrightarrow> core lib P st
     \<and> (\<forall>k \<in> set pre. \<exists>c. classTable st (c_name k) = Some c \<and> class_ok lib k c)
     \<and> (\<forall>k \<in> set pre. \<forall>rm \<in> set (c_methods k). methodTable st (MethodRef (c_name k) (rm_name rm)) \<noteq> None)
     \<and> (\<forall>k \<in> set (pr_classes P). c_name k \<notin> c_name ` set pre \<longrightarrow> (\<exists>c. classTable st (c_name k) = Some c \<and> fieldEntities c = []))"

lemma decl_ok_all: "decl_ok lib P (pr_classes P) st \<Longrightarrow> prog_ok lib P st"
  unfolding decl_ok_def prog_ok_def tables_ok_def core_def by blast

lemma table_good_method:
  assumes "table_good lib P t" "k \<in> set (pr_classes P)" "rm \<in> set (c_methods k)" "method_good lib rm m"
  shows "table_good lib P (insert_new (MethodRef (c_name k) (rm_name rm)) m t)"
  using assms by (auto simp: table_good_def dest!: insert_new_Some)

definition declared :: "'n libfirm \<Rightarrow> program \<Rightarrow> klass \<Rightarrow> 'n fvisitor \<Rightarrow> regular_method list \<Rightarrow> 'n fvisitor \<Rightarrow> bool" where
  "declared lib P k st0 ms st \<longleftrightarrow> core lib P st \<and> classTable st = classTable st0
     \<and> (\<forall>r. methodTable st0 r \<noteq> None \<longrightarrow> methodTable st r \<noteq> None)
     \<and> (\<forall>rm \<in> set ms. methodTable st (MethodRef (c_name k) (rm_name rm)) \<noteq> None)"

lemma insert_new_keeps: "t r \<noteq> None \<Longrightarrow> insert_new k v t r \<noteq> None"
  by (auto simp: insert_new_def)

lemma wp_declareMethods:
  assumes L: "block_laws lib" "node_laws lib" and P: "typed_program P" and k: "k \<in> set (pr_classes P)" and "core lib P st"
  shows "wp (forEach (c_methods k) (declareMethod lib (c_name k) ct)) (\<lambda>_. declared lib P k st (c_methods k)) st"
proof (rule wp_forEach)
  show "declared lib P k st [] st" using assms(5) by (simp add: declared_def)
  fix pre rm post st1
  assume rm: "c_methods k = pre @ rm # post" and st1: "declared lib P k st pre st1"
  have m: "rm \<in> set (c_methods k)" using rm by simp
  have t: "types_ok lib P st1" "base lib (calls st1)" using st1 by (simp_all add: declared_def core_def)
  show "wp (declareMethod lib (c_name k) ct rm) (\<lambda>_. declared lib P k st (pre @ [rm])) st1"
  proof (rule wp_declareMethod [OF L typed_programD(4) [OF P k m] t])
    fix h g m'
    assume h: "base lib h" "method_good lib rm m'"
    have "table_good lib P (insert_new (MethodRef (c_name k) (rm_name rm)) m' (methodTable st1))"
      using st1 h(2) by (intro table_good_method [OF _ k m]) (simp_all add: declared_def core_def)
    then show "declared lib P k st (pre @ [rm]) (st1\<lparr>current_ir_graph := Some g,
        methodTable := insert_new (MethodRef (c_name k) (rm_name rm)) m' (methodTable st1), calls := h\<rparr>)"
      using st1 h(1) insert_new_keeps [of "methodTable st1"] insert_new_simps(3) [of "MethodRef (c_name k) (rm_name rm)" m' "methodTable st1"]
      unfolding declared_def core_def by (simp del: not_None_eq insert_new_simps(3))
  qed
qed

lemma wp_visitClass:
  assumes L: "block_laws lib" "node_laws lib" and P: "typed_program P" and k: "pr_classes P = pre @ k # post" and st: "decl_ok lib P pre st"
  shows "wp (visitClass lib k) (\<lambda>_. decl_ok lib P (pre @ [k])) st"
proof -
  have kP: "k \<in> set (pr_classes P)" using k by simp
  have d: "c_name k \<notin> c_name ` set pre" using typed_programD(2) [OF P kP] k by auto
  obtain c where c: "classTable st (c_name k) = Some c" "fieldEntities c = []" using st kP d unfolding decl_ok_def by blast
  let ?ct = "lf_entity_type lib (fc_entity c)"
  let ?fin = "\<lambda>(size', fes). seq (modify (\<lambda>st. st\<lparr>classTable := (classTable st)(c_name k \<mapsto> c\<lparr>fieldEntities := fieldEntities c @ fes\<rparr>)\<rparr>))
    (seq (call lib (Set_type_state_fixed ?ct)) (seq (call lib (Set_type_size ?ct size')) (ret ())))"
  have fin: "wp (bnd (declareFields lib ?ct 0 (c_fields k)) ?fin) (\<lambda>_. decl_ok lib P (pre @ [k])) st1"
    if st1: "declared lib P k st (c_methods k) st1" for st1
  proof -
    have t: "types_ok lib P st1" "base lib (calls st1)" using st1 by (simp_all add: declared_def core_def)
    have ok: "decl_ok lib P (pre @ [k]) (st1\<lparr>classTable := (classTable st1)(c_name k \<mapsto> c\<lparr>fieldEntities := fes\<rparr>), calls := h\<rparr>)"
      if h: "base lib h" "map fst fes = c_fields k" "\<forall>(f, e) \<in> set fes. getModeForType lib (lf_entity_type lib e) = tmode (f_type f)" for h fes
    proof -
      have "class_ok lib k (c\<lparr>fieldEntities := fes\<rparr>)" using h(2,3) by (simp add: class_ok_def)
      moreover have "c_name k' \<noteq> c_name k" if "k' \<in> set pre" for k' using d that by (metis imageI)
      moreover have "types_ok lib P (st1\<lparr>classTable := (classTable st1)(c_name k \<mapsto> x)\<rparr>)" for x using t(1) by (auto simp: types_ok_def)
      ultimately show ?thesis using st st1 h(1) unfolding decl_ok_def declared_def core_def by (auto simp: types_ok_def)
    qed
    have "wp (bnd (declareFields lib ?ct 0 (c_fields k)) ?fin) (\<lambda>_. decl_ok lib P (pre @ [k])) (st1\<lparr>calls := calls st1\<rparr>)"
      unfolding wp_bnd
    proof (rule wp_declareFields [OF L t(1) _ t(2)])
      fix h sz fes
      assume f: "base lib h" "map fst fes = c_fields k" "\<forall>(f, e) \<in> set fes. getModeForType lib (lf_entity_type lib e) = tmode (f_type f)"
      have eq: "st1\<lparr>calls := h, classTable := t, calls := h'\<rparr> = st1\<lparr>classTable := t, calls := h'\<rparr>" for t h' by simp
      show "wp (?fin (sz, fes)) (\<lambda>_. decl_ok lib P (pre @ [k])) (st1\<lparr>calls := h\<rparr>)"
        using f ok by (auto simp: wp_seq wp_modify wp_ret c(2) eq intro!: wp_base [OF L(1)])
    qed (use typed_programD(6) [OF P kP] in blast)
    then show ?thesis by simp
  qed
  have "core lib P st" using st by (simp add: decl_ok_def)
  from wp_declareMethods [OF L P kP this, of ?ct]
  have "wp (forEach (c_methods k) (declareMethod lib (c_name k) ?ct)) (\<lambda>_. wp (bnd (declareFields lib ?ct 0 (c_fields k)) ?fin)
      (\<lambda>_. decl_ok lib P (pre @ [k]))) st"
    by (rule wp_mono) (rule fin)
  then show ?thesis unfolding visitClass_def wp_bnd [of "gets f" for f] wp_gets c(1) bnd_simps Let_def wp_seq [of "forEach xs f" for xs f] .
qed

section \<open>Programs\<close>

lemma base_Nil: "block_laws lib \<Longrightarrow> base lib []"
  by (rule base_inv0) (auto simp: inv0_def created_def matured_def mentioned_def set_blocks_def)

lemma step_rule:
  assumes "block_laws lib" "base lib h" "quiet op" and "\<And>h' h0. base lib h' \<Longrightarrow> R (f (lf_run lib h0 op) h')"
  shows "R (case step lib op h of (r, h') \<Rightarrow> f r h')"
proof -
  have "base lib ((op, lf_run lib h op) # h)" using assms(1-3) unfolding base_def by (intro inv_quiet)
  then show ?thesis by (simp add: step_def Let_def assms(4))
qed

text \<open>The classes in \<open>pre\<close> are created.\<close>

definition created_ok :: "'n libfirm \<Rightarrow> program \<Rightarrow> klass list \<Rightarrow> 'n fvisitor \<Rightarrow> bool" where
  "created_ok lib P pre st \<longleftrightarrow> currentProgram st = P
     \<and> getModeForType lib (intType (globals st)) = Some mode_Is
     \<and> getModeForType lib (boolType (globals st)) = Some mode_Bu
     \<and> (\<forall>k \<in> set pre. classTable st (c_name k) \<noteq> None) \<and> (\<forall>n c. classTable st n = Some c \<longrightarrow> fieldEntities c = [])
     \<and> methodTable st = Map.empty \<and> base lib (calls st) \<and> nodeStack st = [] \<and> reqBoolInfo st = [None] \<and> firmGraphs st = []"

lemma created_ok_new:
  assumes L: "block_laws lib" "node_laws lib"
  shows "created_ok lib P [] (newFirmVisitor lib print []\<lparr>currentProgram := P\<rparr>)"
  unfolding newFirmVisitor_def Let_def
  by (rule step_rule [where R = "\<lambda>v. created_ok lib P [] (v\<lparr>currentProgram := P\<rparr>)", OF L(1) base_Nil [OF L(1)]], simp,
      (rule step_rule [where R = "\<lambda>v. created_ok lib P [] (v\<lparr>currentProgram := P\<rparr>)", OF L(1)], assumption, simp)+)
    (simp add: created_ok_def library_attributes [OF L(2)])

lemma wp_createClassEntity:
  assumes L: "block_laws lib" and st: "created_ok lib P pre st"
  shows "wp (createClassEntity lib k) (\<lambda>_. created_ok lib P (pre @ [k])) st"
proof -
  let ?c = "\<lambda>e. \<lparr>fc_entity = e, fieldEntities = []\<rparr>"
  have "created_ok lib P (pre @ [k]) (st\<lparr>calls := h, classTable := insert_new (c_name k) (?c e) (classTable st)\<rparr>)" if "base lib h" for h e
    using st that insert_new_keeps [of "classTable st"] unfolding created_ok_def
    by (auto simp: insert_new_def dest: insert_new_Some split: if_splits)
  moreover have "base lib (calls st)" using st by (simp add: created_ok_def)
  ultimately show ?thesis unfolding createClassEntity_def
    by (auto simp: wps intro!: wp_base [OF L])
qed

lemma created_ok_decl: "created_ok lib P (pr_classes P) st \<Longrightarrow> decl_ok lib P [] st"
  by (auto simp: created_ok_def decl_ok_def core_def types_ok_def table_good_def)

lemma ewp_mono: "ewp m Q st \<Longrightarrow> (\<And>x st'. Q x st' \<Longrightarrow> R x st') \<Longrightarrow> ewp m R st"
  unfolding ewp_def by blast

definition numMethods :: "klass \<Rightarrow> nat" where
  "numMethods k = length (c_methods k) + length (c_mainMethods k)"

lemma ewp_visitMembers:
  assumes L: "libfirm_laws lib" and P: "typed_program P" and k: "k \<in> set (pr_classes P)" and st: "prog_ok lib P st"
  shows "ewp (\<lambda>n. visitMembers n lib k) (\<lambda>_ st'. prog_ok lib P st' \<and> length (firmGraphs st') = length (firmGraphs st) + numMethods k) st"
proof -
  let ?st = "st\<lparr>currentClass := Some (c_name k)\<rparr>"
  have ok: "prog_ok lib P st1 \<and> currentClass st1 = Some (c_name k)" if "next_ok lib P ?st i st1" for i st1
    using that by (simp add: next_ok_def)
  have next_step: "next_ok lib P ?st (Suc i) st2" if "next_ok lib P ?st i st1" "next_ok lib P st1 1 st2" for i st1 st2
    using that by (simp add: next_ok_def)
  have methods: "ewp (\<lambda>n. forEach (sort_key rm_name (c_methods k)) (visitRegularMethod n lib (c_name k)))
      (\<lambda>_. next_ok lib P ?st (length (sort_key rm_name (c_methods k)))) ?st"
  proof (rule ewp_forEach [where I = "\<lambda>ms. next_ok lib P ?st (length ms)"])
    fix pre rm post st1
    assume rm: "sort_key rm_name (c_methods k) = pre @ rm # post" and st1: "next_ok lib P ?st (length pre) st1"
    have "rm \<in> set (sort_key rm_name (c_methods k))" unfolding rm by simp
    then have "rm \<in> set (c_methods k)" by simp
    from ewp_visitRegularMethod [OF L P k this] ok [OF st1]
    have "ewp (\<lambda>n. visitRegularMethod n lib (c_name k) rm) (\<lambda>_. next_ok lib P st1 1) st1" by blast
    then show "ewp (\<lambda>n. visitRegularMethod n lib (c_name k) rm) (\<lambda>_. next_ok lib P ?st (length (pre @ [rm]))) st1"
      by (rule ewp_mono) (use next_step [OF st1] in simp)
  qed (use st in \<open>simp add: next_ok_def\<close>)
  have mains: "ewp (\<lambda>n. forEach (sort_key mm_name (c_mainMethods k)) (visitMainMethod n lib (c_name k)))
      (\<lambda>_. next_ok lib P ?st (length (c_methods k) + length (sort_key mm_name (c_mainMethods k)))) st2"
    if st2: "next_ok lib P ?st (length (c_methods k)) st2" for st2
  proof (rule ewp_forEach [where I = "\<lambda>ms. next_ok lib P ?st (length (c_methods k) + length ms)"])
    fix pre mm post st1
    assume mm: "sort_key mm_name (c_mainMethods k) = pre @ mm # post" and st1: "next_ok lib P ?st (length (c_methods k) + length pre) st1"
    have "mm \<in> set (sort_key mm_name (c_mainMethods k))" unfolding mm by simp
    then have "mm \<in> set (c_mainMethods k)" by simp
    from ewp_visitMainMethod [OF L P k this] ok [OF st1]
    have "ewp (\<lambda>n. visitMainMethod n lib (c_name k) mm) (\<lambda>_. next_ok lib P st1 1) st1" by blast
    then show "ewp (\<lambda>n. visitMainMethod n lib (c_name k) mm) (\<lambda>_. next_ok lib P ?st (length (c_methods k) + length (pre @ [mm]))) st1"
      by (rule ewp_mono) (use next_step [OF st1] in simp)
  qed (use st2 in simp)
  show ?thesis unfolding visitMembers_def
  proof (rule ewp_seq_wp, unfold wp_modify, rule ewp_seq, rule ewp_mono [OF methods], rule ewp_mono [OF mains])
    fix st2 x y st3
    assume "next_ok lib P ?st (length (c_methods k) + length (sort_key mm_name (c_mainMethods k))) st3"
    then show "prog_ok lib P st3 \<and> length (firmGraphs st3) = length (firmGraphs st) + numMethods k"
      by (simp add: next_ok_def numMethods_def)
  qed simp
qed

lemma ewp_visitProgram:
  assumes L: "libfirm_laws lib" and P: "typed_program P"
  shows "ewp (\<lambda>n. visitProgram n lib P) (\<lambda>_ st. prog_ok lib P st \<and> length (firmGraphs st) = (\<Sum>k \<leftarrow> pr_classes P. numMethods k))
    (newFirmVisitor lib print [])"
proof -
  have B: "block_laws lib" "node_laws lib" using L by (simp_all add: libfirm_laws_def)
  let ?check = "bnd (gets nodeStack) (\<lambda>vs. asserts (vs = []))"
  let ?done = "\<lambda>ks st. prog_ok lib P st \<and> length (firmGraphs st) = (\<Sum>k \<leftarrow> ks. numMethods k)"
  have last: "wp ?check (\<lambda>_. ?done (pr_classes P)) st" if "?done (pr_classes P) st" for st
    using that by (simp add: wps prog_ok_def)
  have members: "ewp (\<lambda>n. forEach (pr_classes P) (visitMembers n lib)) (\<lambda>_. ?done (pr_classes P)) st" if st: "decl_ok lib P (pr_classes P) st" for st
  proof (rule ewp_forEach [where I = ?done])
    fix pre k post st1
    assume k: "pr_classes P = pre @ k # post" and st1: "?done pre st1"
    have "k \<in> set (pr_classes P)" using k by simp
    from ewp_visitMembers [OF L P this] st1
    have "ewp (\<lambda>n. visitMembers n lib k) (\<lambda>_ st'. prog_ok lib P st' \<and> length (firmGraphs st') = length (firmGraphs st1) + numMethods k) st1" by blast
    then show "ewp (\<lambda>n. visitMembers n lib k) (\<lambda>_. ?done (pre @ [k])) st1" by (rule ewp_mono) (use st1 in simp)
  qed (use decl_ok_all [OF st] st in \<open>simp add: decl_ok_def core_def\<close>)
  have classes: "wp (forEach (pr_classes P) (visitClass lib)) (\<lambda>_. decl_ok lib P (pr_classes P)) st" if "decl_ok lib P [] st" for st
    by (rule wp_forEach [where I = "decl_ok lib P"], rule wp_visitClass [OF B P]) (use that in simp_all)
  have entities: "wp (forEach (pr_classes P) (createClassEntity lib)) (\<lambda>_. created_ok lib P (pr_classes P)) st" if "created_ok lib P [] st" for st
    by (rule wp_forEach [where I = "created_ok lib P"], rule wp_createClassEntity [OF B(1)]) (use that in simp_all)
  show ?thesis unfolding visitProgram_def
  proof (rule ewp_seq_wp, unfold wp_modify, rule ewp_seq_wp, rule wp_mono [OF entities [OF created_ok_new [OF B]]],
      rule ewp_seq_wp, rule wp_mono [OF classes [OF created_ok_decl]], assumption, rule ewp_seq, rule ewp_mono [OF members], assumption)
    fix st3
    assume "?done (pr_classes P) st3"
    then show "ewp (\<lambda>n. ?check) (\<lambda>_. ?done (pr_classes P)) st3" by (intro ewp_wp last)
  qed
qed

end
