(* ===== verification/Semantic_Typed.thy ===== *)
theory Semantic_Typed
  imports Semantic_Accept Typed_Ast
begin

text \<open>
  The programs that the analysis accepts are typed, if they use \<open>System\<close> only in calls of its methods.
\<close>

section \<open>Types\<close>

lemma ir_typed_array:
  "kind t = TK_Array \<Longrightarrow> ir_typed P t \<longleftrightarrow> 1 \<le> dimension t \<and> (innerKind t = TK_Int \<or> innerKind t = TK_Bool
     \<or> innerKind t = TK_Class \<and> declared P (tname t))"
proof (induction "nat (dimension t)" arbitrary: t rule: less_induct)
  case less
  show ?case
  proof (cases "1 \<le> dimension t")
    case False
    then have "getArrayInnerType t = None" by (simp add: getArrayInnerType_def)
    then show ?thesis using False less.prems by (simp add: ir_typed.simps [of P t])
  next
    case True
    let ?u = "t\<lparr>dimension := dimension t - 1\<rparr>"
    show ?thesis
    proof (cases "dimension t = 1")
      case one: True
      let ?v = "t\<lparr>dimension := 0, kind := innerKind t, innerKind := TK_Unresolved\<rparr>"
      have s: "getArrayInnerType t = Some ?v" using less.prems one by (simp add: getArrayInnerType_def Let_def)
      have "ir_typed P ?v \<longleftrightarrow> innerKind t = TK_Int \<or> innerKind t = TK_Bool \<or> innerKind t = TK_Class \<and> declared P (tname t)"
        unfolding ir_typed.simps [of P ?v] by (cases "innerKind t") (simp_all add: declared_def getArrayInnerType_def)
      then show ?thesis unfolding ir_typed.simps [of P t] s using less.prems one by simp
    next
      case more: False
      have "ir_typed P ?u \<longleftrightarrow> innerKind t = TK_Int \<or> innerKind t = TK_Bool \<or> innerKind t = TK_Class \<and> declared P (tname t)"
        using less.hyps [of ?u] less.prems True more by simp
      moreover have "getArrayInnerType t = Some ?u" using less.prems True more by (simp add: getArrayInnerType_def Let_def)
      ultimately show ?thesis using less.prems True by (simp add: ir_typed.simps [of P t])
    qed
  qed
qed

lemma ir_typed_basic:
  "kind t = TK_Int \<Longrightarrow> ir_typed P t" "kind t = TK_Bool \<Longrightarrow> ir_typed P t"
  "kind t = TK_Class \<Longrightarrow> ir_typed P t \<longleftrightarrow> declared P (tname t)"
  "kind t = TK_Void \<Longrightarrow> \<not> ir_typed P t" "kind t = TK_Null \<Longrightarrow> \<not> ir_typed P t" "kind t = TK_Unresolved \<Longrightarrow> \<not> ir_typed P t"
  by (simp_all add: ir_typed.simps [of P t] declared_def)

lemma ir_typed_mode: "ir_typed P t \<Longrightarrow> kmode t \<noteq> None \<and> kind t \<noteq> TK_Null \<and> kind t \<noteq> TK_Void"
  by (cases "kind t") (auto simp: kmode_def ir_typed_basic)

lemma visitType_typed:
  assumes "visitType st t = Inr t'" "wf_type t" "getSemaType t = Some s" "\<not> isVoidOrVoidArray s"
  shows "ir_typed (s_program st) s"
proof (cases t)
  case (BasicType b)
  then show ?thesis using assms
    by (cases b) (auto simp: bindE_eq_Inr ir_typed_basic is_defs declared_def split: prim_type.splits option.splits)
next
  case (ArrayType l b d)
  then have "kind s = TK_Array" using assms(3) by (auto simp: bind_eq_Some_conv setArray_def split: if_splits)
  then show ?thesis using assms ArrayType
    by (cases b) (auto simp: bindE_eq_Inr ir_typed_array is_defs declared_def split: prim_type.splits option.splits if_splits)
qed

text \<open>Assignable types have the same mode.\<close>

lemma sem_ge_mode: "sem_ge t u \<Longrightarrow> kmode u = kmode t"
  by (auto simp: sem_ge_def sem_eq_def kmode_def split: if_splits type_kind.splits)

section \<open>System\<close>

text \<open>
  \<open>System\<close>, \<open>System.out\<close> and \<open>System.in\<close> occur only as the receivers of calls.
\<close>

fun plain_system :: "expr \<Rightarrow> bool" where
  "plain_system (NewArrayExpression l t ty e) = plain_system e"
| "plain_system (NewObjectExpression l t n d) = True"
| "plain_system (IntLiteral l t v) = True"
| "plain_system (BoolLiteral l t v) = True"
| "plain_system (NullLiteral l t) = True"
| "plain_system (ThisLiteral l t) = True"
| "plain_system (VarRef l t n d) = (d \<noteq> Some Def_DummySystem)"
| "plain_system (MethodInvocation l t e n args d sys) = ((sys \<or> plain_system e) \<and> (\<forall>a \<in> set args. plain_system a))"
| "plain_system (FieldAccess l t e n d) = plain_system e"
| "plain_system (ArrayAccess l t a i) = (plain_system a \<and> plain_system i)"
| "plain_system (BinaryExpression l t a b op) = (plain_system a \<and> plain_system b)"
| "plain_system (UnaryExpression l t e op) = plain_system e"

section \<open>Expressions\<close>

definition sig_ok :: "program \<Rightarrow> bool" where
  "sig_ok P \<longleftrightarrow> sorted (map c_name (pr_classes P)) \<and> (\<forall>k \<in> set (pr_classes P). distinct (map f_name (c_fields k))
     \<and> (\<forall>f \<in> set (c_fields k). ast_typed P (f_type f))
     \<and> (\<forall>m \<in> set (c_methods k). ret_typed P (rm_returnType m) \<and> (\<forall>p \<in> set (rm_parameters m). ast_typed P (p_type p))))"

fun def_typed :: "tctx \<Rightarrow> sym_def \<Rightarrow> bool" where
  "def_typed \<Gamma> (Def_Parameter p) \<longleftrightarrow> 0 \<le> p_idx p \<and> p_idx p < int (tc_params \<Gamma>) \<and> ast_typed (tc_prog \<Gamma>) (p_type p)"
| "def_typed \<Gamma> (Def_VarDecl v) \<longleftrightarrow> 0 \<le> vd_idx v \<and> ast_typed (tc_prog \<Gamma>) (vd_type v)"
| "def_typed \<Gamma> (Def_Field f) \<longleftrightarrow> f \<in> set (c_fields (tc_class \<Gamma>))"
| "def_typed \<Gamma> _ \<longleftrightarrow> True"

definition tenv :: "tctx \<Rightarrow> sstate \<Rightarrow> bool" where
  "tenv \<Gamma> st \<longleftrightarrow> s_program st = tc_prog \<Gamma> \<and> sig_ok (tc_prog \<Gamma>) \<and> tc_class \<Gamma> \<in> set (pr_classes (tc_prog \<Gamma>))
     \<and> s_class st = Some (tc_class \<Gamma>) \<and> (\<exists>m. s_method st = Some m \<and> (tc_main \<Gamma> \<longleftrightarrow> (\<exists>x. m = MainM x))
         \<and> ret_typed (tc_prog \<Gamma>) (method_returnType m))
     \<and> (\<forall>n d. st_lookup n (s_symTbl st) = Some d \<longrightarrow> def_typed \<Gamma> d)"

text \<open>A typed expression whose type exists\<close>

definition texpr :: "tctx \<Rightarrow> expr \<Rightarrow> bool" where
  "texpr \<Gamma> e \<longleftrightarrow> typed_expr \<Gamma> e \<and> (kind (targetType e) = TK_Void \<or> kind (targetType e) = TK_Null \<or> ir_typed (tc_prog \<Gamma>) (targetType e))"

lemma texpr_mode: "texpr \<Gamma> e \<Longrightarrow> kind (targetType e) \<noteq> TK_Void \<Longrightarrow> kmode (targetType e) \<noteq> None"
  by (auto simp: texpr_def kmode_def dest: ir_typed_mode)

lemma find_class_mem: "findClassByName P n = Some k \<Longrightarrow> k \<in> set (pr_classes P)"
  unfolding findClassByName_def by (rule find_by_name_mem)

lemma sig_ok_declared: "sig_ok P \<Longrightarrow> k \<in> set (pr_classes P) \<Longrightarrow> declared P (c_name k)"
  using find_by_name_sorted [of c_name "pr_classes P" "c_name k"]
  by (auto simp: sig_ok_def declared_def findClassByName_def find_None_iff)

lemma ast_typedD: "ast_typed P t \<Longrightarrow> getSemaType t = Some s \<Longrightarrow> ir_typed P s"
  by (simp add: ast_typed_def)

lemma tmode_ir: "getSemaType t = Some s \<Longrightarrow> ir_typed P s \<Longrightarrow> tmode t = kmode s"
  by (auto simp: tmode_def dest: ir_typed_mode)

lemma has_fieldI:
  assumes "distinct (map f_name (c_fields k))" "f \<in> set (c_fields k)" "tmode (f_type f) = kmode t"
  shows "has_field k f t"
proof -
  have "find (\<lambda>f'. f_name f' = f_name f) fs = Some f" if "distinct (map f_name fs)" "f \<in> set fs" for fs
    using that by (induction fs) auto
  with assms show ?thesis by (simp add: has_field_def)
qed

lemma texpr_varRef:
  assumes "visitVarRef st loc tt n = Inr e" "tenv \<Gamma> st" "plain_system e"
  shows "texpr \<Gamma> e"
proof -
  from visitVarRef_Inr [OF assms(1)] assms(3) obtain d t s where d: "e = VarRef loc s n (Some d)" "st_lookup n (s_symTbl st) = Some d"
      "d \<noteq> Def_MainArg" "def_getType d = Some t" "getSemaType t = Some s" by auto
  have D: "def_typed \<Gamma> d" using assms(2) d(2) by (auto simp: tenv_def)
  have k: "tc_class \<Gamma> \<in> set (pr_classes (tc_prog \<Gamma>))" "sig_ok (tc_prog \<Gamma>)" using assms(2) by (auto simp: tenv_def)
  have "\<not> (isMainM (s_method st) \<and> (case d of Def_Field _ \<Rightarrow> True | _ \<Rightarrow> False))"
    using assms(1) d(1-3) by (auto simp: visitVarRef_def)
  then have m: "\<not> tc_main \<Gamma>" if "d = Def_Field f" for f using assms(2) that by (auto simp: tenv_def isMainM_def)
  have s: "ir_typed (tc_prog \<Gamma>) s"
    using D d(4,5) k by (cases d) (auto simp: sig_ok_def intro: ast_typedD)
  have "typed_var \<Gamma> s (Some d)"
  proof (cases d)
    case (Def_Field f)
    then show ?thesis using D d(4,5) k m s by (auto simp: sig_ok_def intro!: has_fieldI tmode_ir)
  qed (use D d s in \<open>auto intro: tmode_ir\<close>)
  then show ?thesis using s ir_typed_mode [OF s] by (simp add: texpr_def d(1))
qed

lemma texpr_newArray:
  assumes "visitNewArrayExpression st loc tt t' sz = Inr e" and "visitType st t = Inr t'" "wf_type t" "\<exists>l b d. t = ArrayType l b d"
    and "tenv \<Gamma> st" "texpr \<Gamma> sz"
  shows "texpr \<Gamma> e"
proof -
  from visitNewArray_Inr [OF assms(1)] obtain s where s: "getSemaType t' = Some s" "\<not> isVoidOrVoidArray s" "isInt (targetType sz)"
      "e = NewArrayExpression loc s t' sz" by blast
  have st: "getSemaType t = Some s" using s(1) visitType_sema [OF assms(2)] by simp
  have i: "ir_typed (tc_prog \<Gamma>) s" using visitType_typed [OF assms(2,3) st s(2)] assms(5) by (simp add: tenv_def)
  have k: "kind s = TK_Array" using st assms(4) by (auto simp: bind_eq_Some_conv setArray_def split: if_splits)
  obtain u where u: "getArrayInnerType s = Some u" "ir_typed (tc_prog \<Gamma>) u"
    using i k by (auto simp: ir_typed.simps [of _ s] split: option.splits)
  show ?thesis using assms(6) s k i u by (simp add: texpr_def isInt_def)
qed

lemma texpr_fieldAccess:
  assumes "visitFieldAccess st loc tt l n = Inr e" "tenv \<Gamma> st" "texpr \<Gamma> l" "plain_system e"
  shows "texpr \<Gamma> e"
proof -
  from visitFieldAccess_Inr [OF assms(1)]
  obtain k f s where f: "e = FieldAccess loc s l n (Some (FR_Field (c_name k) f))" "isClass (targetType l)"
      "findClassByName (s_program st) (tname (targetType l)) = Some k" "findFieldInClass k n = Some f" "getSemaType (f_type f) = Some s"
  proof (elim disjE exE conjE, goal_cases)
    case (1 d)
    then show ?case using assms(4) by (cases l) auto
  qed blast
  have P: "s_program st = tc_prog \<Gamma>" "sig_ok (tc_prog \<Gamma>)" using assms(2) by (simp_all add: tenv_def)
  have m: "k \<in> set (pr_classes (tc_prog \<Gamma>))" "f \<in> set (c_fields k)"
    using f(3,4) P(1) find_class_mem by (auto simp: findFieldInClass_def intro: find_by_name_mem)
  have s: "ir_typed (tc_prog \<Gamma>) s" using P(2) m f(5) by (auto simp: sig_ok_def intro: ast_typedD)
  have "has_field k f s" using P(2) m f(5) s by (auto simp: sig_ok_def intro!: has_fieldI tmode_ir)
  then show ?thesis using f P(1) assms(3) s ir_typed_mode [OF s] by (simp add: texpr_def isClass_def)
qed

lemma texpr_arrayAccess:
  assumes "visitArrayAccess st loc a i = Inr e" "texpr \<Gamma> a" "texpr \<Gamma> i"
  shows "texpr \<Gamma> e"
proof -
  let ?u = "(targetType a)\<lparr>dimension := dimension (targetType a) - 1\<rparr>"
  let ?t = "if dimension ?u = 0 then ?u\<lparr>kind := innerKind ?u\<rparr> else ?u"
  from visitArrayAccess_Inr [OF assms(1)] have e: "e = ArrayAccess loc ?t a i" "isInt (targetType i)" "isArray (targetType a)"
    by (auto simp: Let_def)
  have k: "kind (targetType a) = TK_Array" using e(3) by (simp add: isArray_def)
  have r: "ir_typed (tc_prog \<Gamma>) (targetType a)" using assms(2) k by (auto simp: texpr_def)
  then obtain s where s: "getArrayInnerType (targetType a) = Some s" "ir_typed (tc_prog \<Gamma>) s"
    using k by (auto simp: ir_typed.simps [of _ "targetType a"] split: option.splits)
  have d: "1 \<le> dimension (targetType a)" "innerKind (targetType a) \<noteq> TK_Array" using r ir_typed_array [OF k] by auto
  have eq: "kind s = kind ?t" "kind s \<noteq> TK_Array \<longrightarrow> tname s = tname ?t" "kind s = TK_Array \<longrightarrow> s = ?t"
    using s(1) k d by (auto simp: getArrayInnerType_def Let_def split: if_splits)
  have "ir_typed (tc_prog \<Gamma>) ?t"
    using s(2) eq by (cases "kind s") (auto simp: ir_typed_basic simp del: if_split)
  moreover have "kmode s = kmode ?t" unfolding kmode_def eq(1) ..
  ultimately show ?thesis using assms(2,3) e k r s by (auto simp: texpr_def isInt_def)
qed

lemma texpr_unary:
  assumes "visitUnaryExpression st loc tt x op = Inr e" "texpr \<Gamma> x"
  shows "texpr \<Gamma> e"
  using assms by (auto simp: visitUnaryExpression_def texpr_def is_defs bindE_eq_Inr ir_typed_basic split: if_splits)

lemma texpr_lvalue: "texpr \<Gamma> e \<Longrightarrow> lvalue e \<Longrightarrow> kmode (targetType e) \<noteq> None"
proof (cases e)
  case (ArrayAccess l t a i)
  moreover assume "texpr \<Gamma> e"
  ultimately obtain s where "kind (targetType a) = TK_Array" "ir_typed (tc_prog \<Gamma>) (targetType a)"
      "getArrayInnerType (targetType a) = Some s" "kmode s = kmode t"
    by (auto simp: texpr_def split: option.splits)
  then show ?thesis using ir_typed_mode [of "tc_prog \<Gamma>" s] ArrayAccess by (simp add: ir_typed.simps [of _ "targetType a"])
qed (auto simp: texpr_def)

lemma is_rvalue_lvalue: "is_rvalue e \<longleftrightarrow> \<not> lvalue e"
  by (cases e) auto

lemma texpr_binary:
  assumes "visitBinaryExpression st loc tt l r op = Inr e" "texpr \<Gamma> l" "texpr \<Gamma> r"
  shows "texpr \<Gamma> e"
proof -
  consider (arith) "arithmetic op" | (less) "op \<in> set [Op_Less, Op_LessEquals, Op_Greater, Op_GreaterEquals]"
    | (logic) "op \<in> set [Op_Or, Op_And]" | (assign) "op = Op_Assign" | (eq) "op \<in> set [Op_Equals, Op_NotEquals]" | (none) "op = Op_None"
    by (cases op) (auto simp: arithmetic_def)
  then show ?thesis
  proof cases
    case arith
    then show ?thesis using assms
      by (auto simp: visitBinaryExpression_def texpr_def is_defs arithmetic_def comparison_def ir_typed_basic split: if_splits)
  next
    case less
    then show ?thesis using assms
      by (auto simp: visitBinaryExpression_def texpr_def is_defs comparison_def kmode_def ir_typed_basic split: if_splits)
  next
    case logic
    then show ?thesis using assms by (auto simp: visitBinaryExpression_def texpr_def is_defs ir_typed_basic split: if_splits)
  next
    case assign
    then have "e = BinaryExpression loc (targetType l) l r Op_Assign" "lvalue l" "sem_ge (targetType l) (targetType r)"
      using assms(1) by (auto simp: visitBinaryExpression_def Let_def bindE_eq_Inr is_rvalue_lvalue split: if_splits)
    then show ?thesis using assms(2,3) texpr_lvalue [OF assms(2)] sem_ge_mode by (auto simp: texpr_def)
  next
    case eq
    then have e: "e = BinaryExpression loc (setBool tt) l r op" "\<not> isVoid (targetType l)" "\<not> isVoid (targetType r)"
      using assms(1) by (auto simp: visitBinaryExpression_def Let_def bindE_eq_Inr split: if_splits)
    then have "kmode (targetType l) \<noteq> None" "kmode (targetType r) \<noteq> None" using assms(2,3) texpr_mode by (auto simp: isVoid_def)
    then show ?thesis using assms(2,3) e eq by (auto simp: texpr_def is_defs comparison_def ir_typed_basic)
  next
    case none
    then show ?thesis using assms(1) by (simp add: visitBinaryExpression_def)
  qed
qed

lemma texpr_systemCall:
  assumes "visitSystemCall st loc tt l n args = Inr e" "fieldaccess_def l = Some FR_SystemOut \<or> fieldaccess_def l = Some FR_SystemIn"
    and "\<forall>a \<in> set args. texpr \<Gamma> a"
  shows "texpr \<Gamma> e"
proof -
  have l: "sys_ref l" using assms(2) by (cases l) auto
  have args: "typed_args \<Gamma> as" if "\<forall>a \<in> set as. texpr \<Gamma> a \<and> kmode (targetType a) \<noteq> None" for as
    using that by (induction as) (auto simp: texpr_def)
  have int: "kmode t \<noteq> None" if "isInt t" for t using that by (simp add: isInt_def kmode_def)
  from assms(1) have "(n = ''println'' \<or> n = ''write'') \<and> length args = 1 \<and> isInt (targetType (hd args))
        \<and> e = MethodInvocation loc (setVoid tt) l n args None True
      \<or> n = ''flush'' \<and> args = [] \<and> e = MethodInvocation loc (setVoid tt) l n args None True
      \<or> n = ''read'' \<and> args = [] \<and> e = MethodInvocation loc (setInt tt) l n args None True"
    by (auto simp: visitSystemCall_def Let_def bindE_eq_Inr split: if_splits)
  moreover have "typed_args \<Gamma> args" if "length args = 1" "isInt (targetType (hd args))"
    using that int assms(3) by (intro args) (cases args; simp)
  ultimately show ?thesis using l by (auto simp: texpr_def is_defs ir_typed_basic)
qed

lemma checkArgs_modes:
  assumes "checkArgs st ps as = Inr ()" "length ps = length as" "\<forall>p \<in> set ps. ast_typed P (p_type p)" "a \<in> set as"
  shows "kmode (targetType a) \<noteq> None"
  using assms(2,1,3,4)
proof (induction ps as rule: list_induct2)
  case (Cons p ps x xs)
  from Cons.prems(1) obtain s where s: "getSemaType (p_type p) = Some s" "sem_ge s (targetType x)" "checkArgs st ps xs = Inr ()"
    by (auto simp: bindE_eq_Inr split: if_splits)
  have "kmode (targetType x) \<noteq> None"
    using Cons.prems(2) s ir_typed_mode [of P s] sem_ge_mode [OF s(2)] by (auto simp: ast_typed_def)
  then show ?case using Cons s(3) by auto
qed simp

lemma texpr_call:
  assumes "visitMethodInvocation st loc tt l n args = Inr e" "tenv \<Gamma> st"
    and "plain_system l \<Longrightarrow> texpr \<Gamma> l" "\<forall>a \<in> set args. texpr \<Gamma> a" "plain_system e"
  shows "texpr \<Gamma> e"
proof (cases "fieldaccess_def l = Some FR_SystemOut \<or> fieldaccess_def l = Some FR_SystemIn")
  case True
  then have "visitSystemCall st loc tt l n args = Inr e" using assms(1) by (auto simp: visitMethodInvocation_def bindE_eq_Inr)
  then show ?thesis using True assms(4) by (rule texpr_systemCall)
next
  case False
  with assms(1) obtain k m s where m: "e = MethodInvocation loc s l n args (Some (c_name k, rm_name m)) False"
      "isClass (targetType l)" "findClassByName (s_program st) (tname (targetType l)) = Some k" "findMethodInClass k n = Some m"
      "length (rm_parameters m) = length args" "checkArgs st (rm_parameters m) args = Inr ()" "getSemaType (rm_returnType m) = Some s"
    by (auto simp: visitMethodInvocation_def bindE_eq_Inr split: if_splits option.splits)
  have P: "s_program st = tc_prog \<Gamma>" "sig_ok (tc_prog \<Gamma>)" using assms(2) by (simp_all add: tenv_def)
  have k: "k \<in> set (pr_classes (tc_prog \<Gamma>))" "m \<in> set (c_methods k)"
    using m(3,4) P(1) find_class_mem by (auto simp: findMethodInClass_def intro: find_by_name_mem)
  have sig: "\<forall>p \<in> set (rm_parameters m). ast_typed (tc_prog \<Gamma>) (p_type p)" "ret_typed (tc_prog \<Gamma>) (rm_returnType m)"
    using P(2) k unfolding sig_ok_def by blast+
  then have s: "isVoid s \<or> ir_typed (tc_prog \<Gamma>) s" using m(7) by (simp add: ret_typed_def)
  have "typed_args \<Gamma> as" if "set as \<subseteq> set args" for as
    using that assms(4) checkArgs_modes [OF m(6,5) sig(1)] by (induction as) (auto simp: texpr_def)
  then have "typed_args \<Gamma> args" by simp
  moreover have "method_exists (tc_prog \<Gamma>) (Some (c_name k, rm_name m))" using k by auto
  moreover have "typed_expr \<Gamma> l" using assms(3,5) m(1) by (simp add: texpr_def)
  ultimately show ?thesis using m(1-3) P(1) s ir_typed_mode by (auto simp: texpr_def isClass_def isVoid_def)
qed

text \<open>The analysis turns the parser's expressions into typed ones.\<close>

lemma visitExpr_typed:
  "visitExpr st e = Inr e' \<Longrightarrow> tenv \<Gamma> st \<Longrightarrow> wf_expr e \<Longrightarrow> plain_system e' \<Longrightarrow> texpr \<Gamma> e'"
  "visitExprs st es = Inr es' \<Longrightarrow> tenv \<Gamma> st \<Longrightarrow> \<forall>e \<in> set es. wf_expr e \<Longrightarrow> \<forall>a \<in> set es'. plain_system a \<longrightarrow> texpr \<Gamma> a"
proof (induction st e and st es arbitrary: e' and es' rule: visitExpr_visitExprs.induct)
  case (1 st loc tt t sz)
  then obtain t' sz' where v: "visitType st t = Inr t'" "visitExpr st sz = Inr sz'" "visitNewArrayExpression st loc tt t' sz' = Inr e'"
    by (auto simp: bindE_eq_Inr)
  have w: "wf_type t" "\<exists>l b d. t = ArrayType l b d" "wf_expr sz" using "1.prems"(3) by (cases t; auto)+
  have "plain_system sz'" using visitNewArray_Inr [OF v(3)] "1.prems"(4) by auto
  then show ?case using 1(1) [OF v(1,2) "1.prems"(2) w(3)] by (intro texpr_newArray [OF v(3,1) w(1,2) "1.prems"(2)])
next
  case (2 st loc tt n d)
  then show ?case using sig_ok_declared [OF _ find_class_mem, of "tc_prog \<Gamma>"]
    by (auto simp: texpr_def is_defs ir_typed_basic declared_def tenv_def dest!: visitNewObject_Inr dest: find_class_mem)
next
  case (6 st loc tt)
  then show ?case using sig_ok_declared [of "tc_prog \<Gamma>" "tc_class \<Gamma>"]
    by (auto simp: texpr_def is_defs ir_typed_basic tenv_def isRegularM_def dest!: visitThis_Inr split: option.splits method_ref.splits)
next
  case (7 st loc tt n d)
  then show ?case by (auto intro: texpr_varRef)
next
  case (8 st loc tt l n args d b)
  then obtain l' args' where v: "visitExpr st l = Inr l'" "visitExprs st args = Inr args'" "visitMethodInvocation st loc tt l' n args' = Inr e'"
    by (auto simp: bindE_eq_Inr)
  have w: "wf_expr l" "\<forall>a \<in> set args. wf_expr a" using "8.prems"(3) by auto
  have "\<forall>a \<in> set args'. plain_system a" using visitMethodInvocation_Inr [OF v(3)] "8.prems"(4) by auto
  then show ?case using 8(1) [OF v(1) "8.prems"(2) w(1)] 8(2) [OF v(1,2) "8.prems"(2) w(2)] "8.prems"(2,4)
    by (intro texpr_call [OF v(3)]) blast+
next
  case (9 st loc tt l n d)
  then obtain l' where v: "visitExpr st l = Inr l'" "visitFieldAccess st loc tt l' n = Inr e'" by (auto simp: bindE_eq_Inr)
  have "plain_system l'" using visitFieldAccess_Inr [OF v(2)] "9.prems"(4) by auto
  then show ?case using 9(1) [OF v(1) "9.prems"(2)] "9.prems"(2-4) by (intro texpr_fieldAccess [OF v(2)]) simp_all
next
  case (10 st loc tt a i)
  then obtain a' i' where v: "visitExpr st a = Inr a'" "visitExpr st i = Inr i'" "visitArrayAccess st loc a' i' = Inr e'" by (auto simp: bindE_eq_Inr)
  have "plain_system a'" "plain_system i'" using visitArrayAccess_Inr [OF v(3)] "10.prems"(4) by auto
  then show ?case using 10(1) [OF v(1) "10.prems"(2)] 10(2) [OF v(1,2) "10.prems"(2)] "10.prems"(3) by (intro texpr_arrayAccess [OF v(3)]) simp_all
next
  case (11 st loc tt l r op)
  then obtain a' i' where v: "visitExpr st l = Inr a'" "visitExpr st r = Inr i'" "visitBinaryExpression st loc tt a' i' op = Inr e'"
    by (auto simp: bindE_eq_Inr)
  have "plain_system a'" "plain_system i'" using visitBinary_Inr [OF v(3)] "11.prems"(4) by auto
  then show ?case using 11(1) [OF v(1) "11.prems"(2)] 11(2) [OF v(1,2) "11.prems"(2)] "11.prems"(3) by (intro texpr_binary [OF v(3)]) simp_all
next
  case (12 st loc tt e op)
  then obtain a' where v: "visitExpr st e = Inr a'" "visitUnaryExpression st loc tt a' op = Inr e'" by (auto simp: bindE_eq_Inr)
  have "plain_system a'" using visitUnary_Inr [OF v(2)] "12.prems"(4) by auto
  then show ?case using 12(1) [OF v(1) "12.prems"(2)] "12.prems"(3) by (intro texpr_unary [OF v(2)]) simp
next
  case (14 st e es)
  then obtain a' es'' where v: "visitExpr st e = Inr a'" "visitExprs st es = Inr es''" "es' = a' # es''" by (auto simp: bindE_eq_Inr)
  show ?case using 14(1) [OF v(1) "14.prems"(2)] 14(2) [OF v(1,2) "14.prems"(2)] "14.prems"(3) v(3) by simp
qed (auto simp: texpr_def is_defs ir_typed_basic)

section \<open>Statements\<close>

definition method_env :: "tctx \<Rightarrow> sstate \<Rightarrow> bool" where
  "method_env \<Gamma> st \<longleftrightarrow> s_program st = tc_prog \<Gamma> \<and> sig_ok (tc_prog \<Gamma>) \<and> tc_class \<Gamma> \<in> set (pr_classes (tc_prog \<Gamma>))
     \<and> s_class st = Some (tc_class \<Gamma>) \<and> (\<exists>m. s_method st = Some m \<and> (tc_main \<Gamma> \<longleftrightarrow> (\<exists>x. m = MainM x))
         \<and> ret_typed (tc_prog \<Gamma>) (method_returnType m))"

definition scopes_typed :: "tctx \<Rightarrow> (string \<rightharpoonup> sym_def) list \<Rightarrow> sstate \<Rightarrow> bool" where
  "scopes_typed \<Gamma> fs st \<longleftrightarrow> st_rep (s_symTbl st) fs \<and> (\<forall>f \<in> set fs. \<forall>d \<in> ran f. def_typed \<Gamma> d)
     \<and> (\<forall>xs. s_alloc st xs \<notin> set xs) \<and> 0 \<le> s_varNr st"

definition tstate :: "tctx \<Rightarrow> (string \<rightharpoonup> sym_def) list \<Rightarrow> sstate \<Rightarrow> bool" where
  "tstate \<Gamma> fs st \<longleftrightarrow> method_env \<Gamma> st \<and> scopes_typed \<Gamma> fs st"

lemma tstate_env: "tstate \<Gamma> fs st \<Longrightarrow> tenv \<Gamma> st"
  using frames_ok_lookup [of fs "def_typed \<Gamma>"] by (auto simp: tstate_def method_env_def scopes_typed_def tenv_def st_lookup_rep)

lemma scopes_enter: "scopes_typed \<Gamma> fs st \<Longrightarrow> scopes_typed \<Gamma> (Map.empty # fs) (sem_enterScope st)"
proof -
  assume s: "scopes_typed \<Gamma> fs st"
  then have "s_alloc st (map sc_addr (scopes (s_symTbl st))) \<notin> set (map sc_addr (scopes (s_symTbl st)))"
    unfolding scopes_typed_def by blast
  then have "fresh_scope (s_alloc st (map sc_addr (scopes (s_symTbl st)))) (s_symTbl st)"
    by (simp add: fresh_scope_def)
  with s show ?thesis by (simp add: scopes_typed_def sem_enterScope_def symtab.enter_rep)
qed

lemma scopes_leave: "scopes_typed \<Gamma> (f # fs) st \<Longrightarrow> sem_leaveScope st = Inr st' \<Longrightarrow> scopes_typed \<Gamma> fs st'"
  using symtab.leave_rep [of "s_symTbl st" f fs] by (auto simp: scopes_typed_def sem_leaveScope_def)

lemma scopes_insert: "scopes_typed \<Gamma> (f # fs) st \<Longrightarrow> def_typed \<Gamma> d \<Longrightarrow> scopes_typed \<Gamma> (f(n \<mapsto> d) # fs) (sem_insert n d st)"
  by (auto simp: scopes_typed_def sem_insert_def symtab.ins_rep ran_def split: if_splits)

lemma method_env_same: "method_env \<Gamma> st \<Longrightarrow> same_env st st' \<Longrightarrow> method_env \<Gamma> st'"
  by (simp add: method_env_def same_env_def)

fun plain_stmt :: "stmt \<Rightarrow> bool" where
  "plain_stmt (Block l c ss flag) = (\<forall>s \<in> set ss. plain_stmt s)"
| "plain_stmt (ExpressionStatement l c e) = plain_system e"
| "plain_stmt (IfStatement l c e t f) = (plain_system e \<and> (case t of None \<Rightarrow> True | Some s \<Rightarrow> plain_stmt s)
     \<and> (case f of None \<Rightarrow> True | Some s \<Rightarrow> plain_stmt s))"
| "plain_stmt (WhileStatement l c e b) = (plain_system e \<and> (case b of None \<Rightarrow> True | Some s \<Rightarrow> plain_stmt s))"
| "plain_stmt (ReturnStatement l c e) = (case e of None \<Rightarrow> True | Some e \<Rightarrow> plain_system e)"
| "plain_stmt (VariableDeclaration l c t n e i) = (case e of None \<Rightarrow> True | Some e \<Rightarrow> plain_system e)"

definition plain_body :: "stmt option \<Rightarrow> bool" where
  "plain_body s = (case s of None \<Rightarrow> True | Some s \<Rightarrow> plain_stmt s)"

text \<open>What a visited statement satisfies\<close>

definition stmt_typed :: "tctx \<Rightarrow> (string \<rightharpoonup> sym_def) list \<Rightarrow> stmt \<Rightarrow> sstate \<Rightarrow> bool" where
  "stmt_typed \<Gamma> fs s st \<longleftrightarrow> (\<exists>f. tstate \<Gamma> (f # fs) st) \<and> (plain_stmt s \<longrightarrow> typed_stmt \<Gamma> s)"

lemma varDecl_typed:
  assumes "visitVariableDeclaration loc c t n e st = Inr (s, st')" "tstate \<Gamma> (f # fs) st" "wf_type t" "\<And>x. e = Some x \<Longrightarrow> wf_expr x"
  shows "stmt_typed \<Gamma> fs s st'"
proof -
  from visitVariableDeclaration_Inr [OF assms(1)] obtain i t' e' ty where v: "declare_var st loc t n = Inr (i, st')" "visitType st' t = Inr t'"
      "visitOptExpr st' e = Inr e'" "s = VariableDeclaration loc c t' n e' (Some i)" "getSemaType t = Some ty" "\<not> isVoidOrVoidArray ty"
      "\<And>x. e' = Some x \<Longrightarrow> sem_ge ty (targetType x)" by blast
  have env: "method_env \<Gamma> st'" using assms(2) declare_var_env [OF v(1)] by (auto simp: tstate_def intro: method_env_same)
  have ty: "ir_typed (tc_prog \<Gamma>) ty" using visitType_typed [OF v(2) assms(3) v(5,6)] env by (simp add: method_env_def)
  let ?d = "\<lparr>vd_loc = loc, vd_type = t, vd_name = n, vd_idx = s_varNr st\<rparr>"
  have i: "i = s_varNr st" "st' = (sem_insert n (Def_VarDecl ?d) st)\<lparr>s_varNr := s_varNr st + 1, s_varDecls := s_varDecls st @ [?d]\<rparr>"
    "0 \<le> s_varNr st"
    using declare_var_Inr [OF v(1)] assms(2) by (auto simp: tstate_def scopes_typed_def)
  have "scopes_typed \<Gamma> (f(n \<mapsto> Def_VarDecl ?d) # fs) (sem_insert n (Def_VarDecl ?d) st)"
    using assms(2) ty v(5) i(3) by (intro scopes_insert) (auto simp: tstate_def ast_typed_def)
  then have st': "tstate \<Gamma> (f(n \<mapsto> Def_VarDecl ?d) # fs) st'" using env unfolding i(2) by (simp add: tstate_def scopes_typed_def sem_insert_def)
  have "typed_stmt \<Gamma> s" if "plain_stmt s"
  proof (cases e')
    case None
    then show ?thesis using v(4) by simp
  next
    case (Some x')
    then obtain x where x: "e = Some x" "visitExpr st' x = Inr x'" using visitOptExpr_Inr [OF v(3)] by auto
    have "texpr \<Gamma> x'" using visitExpr_typed(1) [OF x(2) tstate_env [OF st'] assms(4) [OF x(1)]] that v(4) Some by simp
    moreover have "kmode (targetType x') \<noteq> None" using sem_ge_mode [OF v(7) [OF Some]] ir_typed_mode [OF ty] by simp
    ultimately show ?thesis using v(4) Some i by (simp add: texpr_def)
  qed
  then show ?thesis using st' by (auto simp: stmt_typed_def)
qed

lemma return_typed:
  assumes "visitReturnStatement loc e st = Inr s" "tstate \<Gamma> (f # fs) st" "\<And>x. e = Some x \<Longrightarrow> wf_expr x"
  shows "stmt_typed \<Gamma> fs s st"
proof -
  from visitReturnStatement_Inr [OF assms(1)] obtain e' m rt where v: "visitOptExpr st e = Inr e'" "s = ReturnStatement loc Return e'"
      "s_method st = Some m" "getSemaType (method_returnType m) = Some rt"
      "case e' of None \<Rightarrow> isVoid rt | Some x \<Rightarrow> \<not> isVoid rt \<and> sem_ge rt (targetType x)" by blast
  have "ret_typed (tc_prog \<Gamma>) (method_returnType m)" using assms(2) v(3) by (auto simp: tstate_def method_env_def)
  then have rt: "isVoid rt \<or> ir_typed (tc_prog \<Gamma>) rt" using v(4) by (simp add: ret_typed_def)
  have "typed_stmt \<Gamma> s" if "plain_stmt s"
  proof (cases e')
    case (Some x')
    then obtain x where x: "e = Some x" "visitExpr st x = Inr x'" using visitOptExpr_Inr [OF v(1)] by auto
    have "texpr \<Gamma> x'" using visitExpr_typed(1) [OF x(2) tstate_env [OF assms(2)] assms(3) [OF x(1)]] that v(2) Some by simp
    moreover have "kmode (targetType x') \<noteq> None" using v(5) Some rt sem_ge_mode [of rt "targetType x'"] ir_typed_mode [of _ rt] by auto
    ultimately show ?thesis using v(2) Some by (simp add: texpr_def)
  qed (use v(2) in simp)
  then show ?thesis using assms(2) by (auto simp: stmt_typed_def)
qed

lemma cutDead_prefix: "set (fst (cutDead ss)) \<subseteq> set ss"
  by (induction ss) (auto simp: Let_def split_def)

lemma typed_stmts_all: "typed_stmts \<Gamma> ss \<longleftrightarrow> (\<forall>s \<in> set ss. typed_stmt \<Gamma> s)"
  by (induction ss) auto

lemma visitOpt_typed:
  assumes "(case t of None \<Rightarrow> Inr (None, st)
      | Some s \<Rightarrow> bindE (visitStmt s st) (\<lambda>(s', st1). Inr (Some s', st1))) = Inr (t', st')"
    and "\<And>s s' st'. t = Some s \<Longrightarrow> visitStmt s st = Inr (s', st') \<Longrightarrow> stmt_typed \<Gamma> fs s' st'" and "\<exists>f. tstate \<Gamma> (f # fs) st"
  shows "(\<exists>f. tstate \<Gamma> (f # fs) st') \<and> (plain_body t' \<longrightarrow> typed_body \<Gamma> t')"
proof (cases t)
  case None
  then show ?thesis using assms(1,3) by simp
next
  case (Some s)
  with assms(1) obtain s' where "visitStmt s st = Inr (s', st')" "t' = Some s'" by (auto simp: bindE_eq_Inr)
  then show ?thesis using assms(2) [OF Some] by (auto simp: stmt_typed_def plain_body_def)
qed

lemma visitStmt_typed:
  "visitStmt s st = Inr (s', st') \<Longrightarrow> \<exists>f. tstate \<Gamma> (f # fs) st \<Longrightarrow> wf_stmt s \<Longrightarrow> stmt_typed \<Gamma> fs s' st'"
  "visitStmts ss st = Inr (ss', st') \<Longrightarrow> \<exists>f. tstate \<Gamma> (f # fs) st \<Longrightarrow> \<forall>s \<in> set ss. wf_stmt s
    \<Longrightarrow> (\<exists>f. tstate \<Gamma> (f # fs) st') \<and> (\<forall>s' \<in> set ss'. plain_stmt s' \<longrightarrow> typed_stmt \<Gamma> s')"
proof (induction s st and ss st arbitrary: s' st' fs and ss' st' fs rule: visitStmt_visitStmts.induct)
  case (1 loc c ss flag st)
  from "1.prems"(1) obtain ss' st1 where v: "visitStmts ss (sem_enterScope st) = Inr (ss', st1)"
    and l: "sem_leaveScope st1 = Inr st'" and s': "s' = Block loc (snd (cutDead ss')) (fst (cutDead ss')) flag"
    by (auto simp: bindE_eq_Inr case_prod_beta Let_def)
  obtain f where f: "tstate \<Gamma> (f # fs) st" using "1.prems"(2) by blast
  have "tstate \<Gamma> (Map.empty # f # fs) (sem_enterScope st)"
    using f scopes_enter [of \<Gamma> "f # fs" st] method_env_same [OF _ same_env_simps(1)] by (simp add: tstate_def)
  then have r: "\<exists>g. tstate \<Gamma> (g # f # fs) st1" "\<forall>s' \<in> set ss'. plain_stmt s' \<longrightarrow> typed_stmt \<Gamma> s'"
    using "1.IH" [OF v, of "f # fs"] "1.prems"(3) by auto
  then obtain g where "tstate \<Gamma> (g # f # fs) st1" by blast
  then have "tstate \<Gamma> (f # fs) st'"
    using scopes_leave [OF _ l] method_env_same [OF _ sem_leaveScope_env [OF l]] by (auto simp: tstate_def)
  moreover have "typed_stmt \<Gamma> s'" if "plain_stmt s'"
    using that r(2) cutDead_prefix [of ss'] by (auto simp: s' typed_stmts_all)
  ultimately show ?case by (auto simp: stmt_typed_def)
next
  case (2 loc c e st)
  from "2.prems"(1) obtain e' where e: "visitExpr st e = Inr e'" "s' = ExpressionStatement loc c e'" "st' = st" by (auto simp: bindE_eq_Inr)
  obtain f where f: "tstate \<Gamma> (f # fs) st" using "2.prems"(2) by blast
  then show ?case using visitExpr_typed(1) [OF e(1) tstate_env [OF f]] "2.prems"(3) e by (auto simp: stmt_typed_def texpr_def)
next
  case (3 loc c e t f st)
  from "3.prems"(1) obtain e' t' st1 f' where
    e: "visitExpr st e = Inr e'"
    and t: "(case t of None \<Rightarrow> Inr (None, st)
      | Some s \<Rightarrow> bindE (visitStmt s st) (\<lambda>(s', st1). Inr (Some s', st1))) = Inr (t', st1)"
    and f: "(case f of None \<Rightarrow> Inr (None, st1)
      | Some s \<Rightarrow> bindE (visitStmt s st1) (\<lambda>(s', st2). Inr (Some s', st2))) = Inr (f', st')"
    and s': "s' = IfStatement loc (combineCFB (optCFB t') (optCFB f')) e' t' f'" "isBool (targetType e')"
    by (auto simp: bindE_eq_Inr)
  obtain g where g: "tstate \<Gamma> (g # fs) st" using "3.prems"(2) by blast
  have w: "wf_expr e" "\<And>x. t = Some x \<Longrightarrow> wf_stmt x" "\<And>x. f = Some x \<Longrightarrow> wf_stmt x" using "3.prems"(3) by auto
  have 1: "(\<exists>f. tstate \<Gamma> (f # fs) st1) \<and> (plain_body t' \<longrightarrow> typed_body \<Gamma> t')"
    by (rule visitOpt_typed [OF t]) (use "3.IH"(1) [OF e] w(2) "3.prems"(2) in blast)+
  have 2: "(\<exists>f. tstate \<Gamma> (f # fs) st') \<and> (plain_body f' \<longrightarrow> typed_body \<Gamma> f')"
    by (rule visitOpt_typed [OF f]) (use "3.IH"(2) [OF e t HOL.refl] w(3) 1 in blast)+
  show ?case using visitExpr_typed(1) [OF e tstate_env [OF g] w(1)] s' 1 2
    by (auto simp: stmt_typed_def plain_body_def texpr_def isBool_def)
next
  case (4 loc c e b st)
  from "4.prems"(1) obtain e' b' where
    e: "visitExpr st e = Inr e'"
    and b: "(case b of None \<Rightarrow> Inr (None, st)
      | Some s \<Rightarrow> bindE (visitStmt s st) (\<lambda>(s', st1). Inr (Some s', st1))) = Inr (b', st')"
    and s': "s' = WhileStatement loc MayContinue e' b'" "isBool (targetType e')"
    by (auto simp: bindE_eq_Inr)
  obtain g where g: "tstate \<Gamma> (g # fs) st" using "4.prems"(2) by blast
  have w: "wf_expr e" "\<And>x. b = Some x \<Longrightarrow> wf_stmt x" using "4.prems"(3) by auto
  have 1: "(\<exists>f. tstate \<Gamma> (f # fs) st') \<and> (plain_body b' \<longrightarrow> typed_body \<Gamma> b')"
    by (rule visitOpt_typed [OF b]) (use "4.IH" [OF e] w(2) "4.prems"(2) in blast)+
  show ?case using visitExpr_typed(1) [OF e tstate_env [OF g] w(1)] s' 1
    by (auto simp: stmt_typed_def plain_body_def texpr_def isBool_def)
next
  case (5 loc c e st)
  then show ?case by (auto simp: bindE_eq_Inr intro!: return_typed)
next
  case (6 loc c t n e i st)
  then show ?case by (auto intro!: varDecl_typed)
next
  case (8 s ss st)
  from "8.prems"(1) obtain s1 st1 ss1 where v: "visitStmt s st = Inr (s1, st1)" "visitStmts ss st1 = Inr (ss1, st')" "ss' = s1 # ss1"
    by (auto simp: bindE_eq_Inr)
  have 1: "stmt_typed \<Gamma> fs s1 st1" using "8.IH"(1) [OF v(1) "8.prems"(2)] "8.prems"(3) by simp
  then have "\<exists>f. tstate \<Gamma> (f # fs) st1" by (simp add: stmt_typed_def)
  from "8.IH"(2) [OF v(1) HOL.refl v(2) this] 1 "8.prems"(3) v(3) show ?case by (simp add: stmt_typed_def)
qed auto

end
