(* ===== verification/Accepted_Typed.thy ===== *)
theory Accepted_Typed
  imports Semantic_Typed Semantic_Claims
begin

text \<open>
  Members, classes and programs: the signatures of an accepted program exist, its bodies are typed in the program
  that the analysis works on, and hence in the program that it returns.
\<close>

section \<open>Signatures\<close>

lemma visitField_typed:
  assumes "visitField f st = Inr f'" "wf_field f"
  shows "f_name f' = f_name f \<and> getSemaType (f_type f') = getSemaType (f_type f) \<and> ast_typed (s_program st) (f_type f)"
proof -
  from assms(1) obtain t s where t: "visitType st (f_type f) = Inr t" "getSemaType t = Some s" "\<not> isVoidOrVoidArray s" "f' = f\<lparr>f_type := t\<rparr>"
    by (auto simp: visitField_def bindE_eq_Inr split: if_splits)
  have s: "getSemaType (f_type f) = Some s" using t(2) visitType_sema [OF t(1)] by simp
  have "ir_typed (s_program st) s" using assms(2) by (intro visitType_typed [OF t(1) _ s t(3)]) (simp add: wf_field_def)
  with s t show ?thesis by (simp add: ast_typed_def)
qed

definition param_sim :: "program \<Rightarrow> parameter \<Rightarrow> parameter \<Rightarrow> bool" where
  "param_sim P p p' \<longleftrightarrow> p_idx p' = p_idx p \<and> getSemaType (p_type p') = getSemaType (p_type p) \<and> ast_typed P (p_type p)"

lemma visitParameter_typed:
  assumes "visitParameter p st = Inr (p', st')" "wf_type (p_type p)"
  shows "param_sim (s_program st) p p' \<and> ast_typed (s_program st) (p_type p') \<and> st' = sem_insert (p_name p) (Def_Parameter p') st"
proof -
  from assms(1) obtain t s where t: "visitType st (p_type p) = Inr t" "getSemaType t = Some s" "\<not> isVoidOrVoidArray s"
      "p' = p\<lparr>p_type := t\<rparr>" "st' = sem_insert (p_name p) (Def_Parameter p') st"
    by (auto simp: visitParameter_def bindE_eq_Inr Let_def split: if_splits)
  have s: "getSemaType (p_type p) = Some s" using t(2) visitType_sema [OF t(1)] by simp
  have "ir_typed (s_program st) s" by (rule visitType_typed [OF t(1) assms(2) s t(3)])
  with s t show ?thesis by (simp add: ast_typed_def param_sim_def)
qed

lemma visitParameters_typed:
  "visitParameters ps st = Inr (ps', st') \<Longrightarrow> \<forall>p \<in> set ps. wf_type (p_type p)
    \<Longrightarrow> list_all2 (param_sim (s_program st)) ps ps'
      \<and> (\<forall>\<Gamma> f fs. tstate \<Gamma> (f # fs) st \<longrightarrow> (\<forall>p \<in> set ps. 0 \<le> p_idx p \<and> p_idx p < int (tc_params \<Gamma>))
          \<longrightarrow> (\<exists>f'. tstate \<Gamma> (f' # fs) st'))"
proof (induction ps arbitrary: st ps')
  case (Cons p ps)
  from Cons.prems(1) obtain p' st1 ps'' where v: "visitParameter p st = Inr (p', st1)"
    "visitParameters ps st1 = Inr (ps'', st')" "ps' = p' # ps''"
    by (auto simp: bindE_eq_Inr)
  have p: "param_sim (s_program st) p p'" "ast_typed (s_program st) (p_type p')" "st1 = sem_insert (p_name p) (Def_Parameter p') st"
    using visitParameter_typed [OF v(1)] Cons.prems(2) by auto
  have P: "s_program st1 = s_program st" using p(3) by (simp add: sem_insert_def)
  have t: "tstate \<Gamma> (f(p_name p \<mapsto> Def_Parameter p') # fs) st1"
    if "tstate \<Gamma> (f # fs) st" "0 \<le> p_idx p" "p_idx p < int (tc_params \<Gamma>)" for \<Gamma> f fs
    using that p scopes_insert [of \<Gamma> f fs st "Def_Parameter p'" "p_name p"] method_env_same [OF _ same_env_simps(2)]
    by (auto simp: tstate_def param_sim_def method_env_def)
  show ?case using Cons.IH [OF v(2)] Cons.prems(2) v(3) p(1) P t by (simp, blast)
qed auto

lemma visitRegularMethod_parts:
  assumes "visitRegularMethod m st = Inr (m', st')"
  obtains rt ps st1 b st2 st3 s where
    "visitType ((sem_enterScope st)\<lparr>s_method := Some (RegularM m), s_varNr := 0, s_varDecls := []\<rparr>) (rm_returnType m) = Inr rt"
    "visitParameters (rm_parameters m) ((sem_enterScope st)\<lparr>s_method := Some (RegularM m), s_varNr := 0, s_varDecls := []\<rparr>) = Inr (ps, st1)"
    "visitStmt (rm_block m) st1 = Inr (b, st2)" "sem_leaveScope st2 = Inr st3" "getSemaType rt = Some s" "\<not> isVoidArray s"
    "st' = st3\<lparr>s_method := None\<rparr>" "rm_returnType m' = rt" "rm_parameters m' = ps" "rm_block m' = b" "rm_name m' = rm_name m"
  using assms
  by (auto simp: visitRegularMethod_def Let_def bindE_eq_Inr createMangledName_def split: if_splits option.splits)

definition method_sig :: "program \<Rightarrow> regular_method \<Rightarrow> bool" where
  "method_sig P m \<longleftrightarrow> ret_typed P (rm_returnType m) \<and> (\<forall>p \<in> set (rm_parameters m). ast_typed P (p_type p))"

lemma method_sig_visited:
  assumes "visitRegularMethod m st = Inr (m', st')" "wf_method m"
  shows "method_sig (s_program st) m"
proof -
  let ?st = "(sem_enterScope st)\<lparr>s_method := Some (RegularM m), s_varNr := 0, s_varDecls := []\<rparr>"
  from assms(1) obtain rt ps st1 s where v: "visitType ?st (rm_returnType m) = Inr rt" "visitParameters (rm_parameters m) ?st = Inr (ps, st1)"
      "getSemaType rt = Some s" "\<not> isVoidArray s"
    by (rule visitRegularMethod_parts)
  have P: "s_program ?st = s_program st" by (simp add: sem_enterScope_def)
  have w: "wf_type (rm_returnType m)" "\<forall>p \<in> set (rm_parameters m). wf_type (p_type p)"
    using assms(2) by (simp_all add: wf_method_def wf_params_def)
  have s: "getSemaType (rm_returnType m) = Some s" using v(3) visitType_sema [OF v(1)] by simp
  have "isVoid s \<or> ir_typed (s_program st) s"
    using visitType_typed [OF v(1) w(1) s] v(4) P by (auto simp: isVoidOrVoidArray_def)
  moreover have "list_all2 (param_sim (s_program st)) (rm_parameters m) ps" using visitParameters_typed [OF v(2) w(2)] P by simp
  then have "\<forall>p \<in> set (rm_parameters m). ast_typed (s_program st) (p_type p)"
    by (induction rule: list_all2_induct) (auto simp: param_sim_def)
  ultimately show ?thesis using s by (simp add: method_sig_def ret_typed_def)
qed

section \<open>Bodies\<close>

text \<open>The definitions that are visible between the methods of a class\<close>

definition class_state :: "program \<Rightarrow> klass \<Rightarrow> (string \<rightharpoonup> sym_def) list \<Rightarrow> sstate \<Rightarrow> bool" where
  "class_state P k fs st \<longleftrightarrow> s_program st = P \<and> s_class st = Some k \<and> st_rep (s_symTbl st) fs \<and> (\<forall>xs. s_alloc st xs \<notin> set xs)
     \<and> (\<forall>f \<in> set fs. \<forall>d \<in> ran f. d = Def_MainArg \<or> (\<exists>x \<in> set (c_fields k). d = Def_Field x))"

lemma class_state_typed:
  assumes "class_state P k fs st" "tc_class \<Gamma> = k"
  shows "scopes_typed \<Gamma> fs (st\<lparr>s_method := m, s_varNr := 0, s_varDecls := []\<rparr>)"
proof -
  have "def_typed \<Gamma> d" if "f \<in> set fs" "d \<in> ran f" for f d
  proof -
    have "d = Def_MainArg \<or> (\<exists>x \<in> set (c_fields k). d = Def_Field x)" using assms(1) that unfolding class_state_def by blast
    then show ?thesis using assms(2) by auto
  qed
  then show ?thesis using assms(1) by (simp add: class_state_def scopes_typed_def)
qed

lemma method_typed:
  assumes "visitRegularMethod m st = Inr (m', st')" "class_state P k fs st" "wf_method m" "m \<in> set (c_methods k)" "k \<in> set (pr_classes P)"
    and "sig_ok P"
  shows "class_state P k fs st' \<and> rm_name m' = rm_name m \<and> (plain_stmt (rm_block m') \<longrightarrow> typed_method P k m')"
proof -
  let ?st = "(sem_enterScope st)\<lparr>s_method := Some (RegularM m), s_varNr := 0, s_varDecls := []\<rparr>"
  from assms(1) obtain rt ps st1 b st2 st3 s where v: "visitType ?st (rm_returnType m) = Inr rt"
      "visitParameters (rm_parameters m) ?st = Inr (ps, st1)" "visitStmt (rm_block m) st1 = Inr (b, st2)" "sem_leaveScope st2 = Inr st3"
      "getSemaType rt = Some s" "st' = st3\<lparr>s_method := None\<rparr>" "rm_returnType m' = rt" "rm_parameters m' = ps" "rm_block m' = b" "rm_name m' = rm_name m"
    by (rule visitRegularMethod_parts)
  have P: "s_program st = P" "s_class st = Some k" using assms(2) by (simp_all add: class_state_def)
  have sig: "method_sig P m" using assms(4-6) by (auto simp: sig_ok_def method_sig_def)
  have sp: "list_all2 (param_sim P) (rm_parameters m) ps"
    using visitParameters_typed [OF v(2)] assms(3) P by (auto simp: wf_method_def wf_params_def sem_enterScope_def)
  have len: "length ps = length (rm_parameters m)" using list_all2_lengthD [OF sp] by simp
  let ?G = "method_ctx P k m'"
  have G: "tc_prog ?G = P" "tc_class ?G = k" "tc_main ?G = False" "tc_params ?G = length (rm_parameters m) + 1"
    using v(8) len by (simp_all add: method_ctx_def)
  have "scopes_typed ?G (Map.empty # fs) (sem_enterScope (st\<lparr>s_method := Some (RegularM m), s_varNr := 0, s_varDecls := []\<rparr>))"
    by (rule scopes_enter [OF class_state_typed [OF assms(2) G(2)]])
  then have t0: "tstate ?G (Map.empty # fs) ?st"
    using P sig assms(5,6) G by (simp add: tstate_def scopes_typed_def method_env_def sem_enterScope_def method_sig_def)
  have idx: "\<forall>p \<in> set (rm_parameters m). 0 \<le> p_idx p \<and> p_idx p < int (tc_params ?G)"
  proof
    fix p
    assume "p \<in> set (rm_parameters m)"
    then have "p_idx p \<in> set (map int [1..<Suc (length (rm_parameters m))])"
      using assms(3) unfolding wf_method_def wf_params_def by (metis image_eqI list.set_map)
    then show "0 \<le> p_idx p \<and> p_idx p < int (tc_params ?G)" unfolding G by auto
  qed
  have t1: "\<exists>f. tstate ?G (f # fs) st1"
    using visitParameters_typed [OF v(2)] assms(3) t0 idx by (auto simp: wf_method_def wf_params_def)
  have b: "stmt_typed ?G fs b st2" using visitStmt_typed(1) [OF v(3) t1] assms(3) by (simp add: wf_method_def)
  then obtain f2 where f2: "tstate ?G (f2 # fs) st2" by (auto simp: stmt_typed_def)
  have e: "s_program st3 = P" "s_class st3 = Some k"
    using f2 sem_leaveScope_env [OF v(4)] G by (auto simp: tstate_def method_env_def same_env_def)
  have "scopes_typed ?G fs st3" using f2 scopes_leave [OF _ v(4)] by (auto simp: tstate_def)
  then have "class_state P k fs st'" using assms(2) e v(6) by (simp add: class_state_def scopes_typed_def)
  moreover have "ret_typed P rt" using sig visitType_sema [OF v(1)] by (simp add: method_sig_def ret_typed_def)
  moreover have "list_all (\<lambda>p. ast_typed P (p_type p)) ps"
    using sp by (induction rule: list_all2_induct) (auto simp: param_sim_def ast_typed_def)
  ultimately show ?thesis using b v(7-10) by (auto simp: stmt_typed_def typed_method_def)
qed

lemma main_typed:
  assumes "visitMainMethod mm st = Inr (mm', st')" "class_state P k (f # fs) st" "wf_main mm" "k \<in> set (pr_classes P)" "sig_ok P"
  shows "(\<exists>f'. st_rep (s_symTbl st') (f' # fs)) \<and> (\<forall>xs. s_alloc st' xs \<notin> set xs)
    \<and> (plain_stmt (mm_block mm') \<longrightarrow> typed_stmt (main_ctx P k mm') (mm_block mm'))"
proof -
  let ?s0 = "st\<lparr>s_method := Some (MainM mm), s_varNr := 0, s_varDecls := []\<rparr>"
  let ?st = "sem_insert (mm_argName mm) Def_MainArg ?s0"
  from assms(1) obtain b st1 where v: "visitStmt (mm_block mm) ?st = Inr (b, st1)"
    "mm' = mm\<lparr>mm_block := b, mm_varDecls := s_varDecls st1\<rparr>"
    "s_symTbl st' = s_symTbl st1" "s_alloc st' = s_alloc st1"
    unfolding visitMainMethod_def Let_def bindE_eq_Inr by (auto simp del: if_split)
  let ?G = "main_ctx P k mm'"
  have G: "tc_prog ?G = P" "tc_class ?G = k" "tc_main ?G = True" by (simp_all add: main_ctx_def)
  have "scopes_typed ?G (f(mm_argName mm \<mapsto> Def_MainArg) # fs) ?st"
    by (rule scopes_insert [OF class_state_typed [OF assms(2) G(2)]]) simp
  moreover have "method_env ?G ?st"
    using assms(2,4,5) G by (simp add: method_env_def class_state_def sem_insert_def ret_typed_def is_defs)
  ultimately have t: "\<exists>f. tstate ?G (f # fs) ?st" by (auto simp: tstate_def)
  have "stmt_typed ?G fs b st1" using visitStmt_typed(1) [OF v(1) t] assms(3) by (simp add: wf_main_def)
  then show ?thesis using v by (auto simp: stmt_typed_def tstate_def scopes_typed_def)
qed

section \<open>Classes\<close>

definition field_sim :: "field \<Rightarrow> field \<Rightarrow> bool" where
  "field_sim f f' \<longleftrightarrow> f_name f' = f_name f \<and> getSemaType (f_type f') = getSemaType (f_type f)"

definition class_sim :: "klass \<Rightarrow> klass \<Rightarrow> bool" where
  "class_sim k k' \<longleftrightarrow> c_name k' = c_name k \<and> list_all2 field_sim (c_fields k) (c_fields k')
     \<and> map rm_name (c_methods k') = map rm_name (c_methods k)"

definition class_sig :: "program \<Rightarrow> klass \<Rightarrow> bool" where
  "class_sig P k \<longleftrightarrow> distinct (map f_name (c_fields k)) \<and> (\<forall>f \<in> set (c_fields k). ast_typed P (f_type f))
     \<and> (\<forall>m \<in> set (c_methods k). method_sig P m)"

definition sorted_members :: "klass \<Rightarrow> bool" where
  "sorted_members k \<longleftrightarrow> sorted (map f_name (c_fields k)) \<and> sorted (map rm_name (c_methods k))"

lemma visitClass_parts:
  assumes "visitClass k st = Inr (k', st')"
  obtains fs st1 ms st2 mms st3 where
    "visitFieldList (c_fields k) (sem_enterScope (st\<lparr>s_class := Some k\<rparr>)) = Inr (fs, st1)"
    "visitMethodList (c_methods k) st1 = Inr (ms, st2)" "visitMainMethodList (c_mainMethods k) st2 = Inr (mms, st3)"
    "sem_leaveScope st3 = Inr st'" "k' = k\<lparr>c_fields := fs, c_methods := ms, c_mainMethods := mms\<rparr>"
  using assms by (auto simp: visitClass_def Let_def bindE_eq_Inr split: option.splits)

lemma visitFieldList_typed:
  assumes "visitFieldList fs st = Inr (fs', st')" "\<forall>f \<in> set fs. wf_field f" "sorted (map f_name fs)"
  shows "list_all2 field_sim fs fs' \<and> (\<forall>f \<in> set fs. ast_typed (s_program st) (f_type f))
    \<and> st' = fold (\<lambda>f. sem_insert (f_name f) (Def_Field f)) fs st"
proof -
  let ?st = "fold (\<lambda>f. sem_insert (f_name f) (Def_Field f)) fs st"
  have "s_program (fold (\<lambda>f. sem_insert (f_name f) (Def_Field f)) xs st) = s_program st" for xs st
    by (induction xs arbitrary: st) (auto simp: sem_insert_def)
  then have P: "s_program ?st = s_program st" .
  from assms(1) have v: "mapM_st (\<lambda>f s. bindE (visitField f s) (\<lambda>f'. Inr (f', s))) fs ?st = Inr (fs', st')"
    using sort_key_sorted [OF assms(3)] by (auto simp: visitFieldList_def bindE_eq_Inr Let_def dest!: checkForDuplicates_Inr)
  have "st' = ?st \<and> list_all2 (\<lambda>f f'. field_sim f f' \<and> ast_typed (s_program st) (f_type f)) fs fs'"
    by (rule mapM_Inr [OF v, where I = "\<lambda>s. s = ?st"])
      (use assms(2) P in \<open>auto simp: bindE_eq_Inr field_sim_def dest!: visitField_typed\<close>)
  then have l: "st' = ?st" "list_all2 (\<lambda>f f'. field_sim f f' \<and> ast_typed (s_program st) (f_type f)) fs fs'" by simp_all
  from l(2) have "list_all2 field_sim fs fs' \<and> (\<forall>f \<in> set fs. ast_typed (s_program st) (f_type f))"
    by (induction rule: list_all2_induct) auto
  with l(1) show ?thesis by simp
qed

lemma visitMethodList_mapM:
  assumes "visitMethodList ms st = Inr (ms', st')" "sorted (map rm_name ms)"
  shows "mapM_st visitRegularMethod ms st = Inr (ms', st')"
  using assms(1) sort_key_sorted [OF assms(2)] by (auto simp: visitMethodList_def bindE_eq_Inr dest!: checkForDuplicates_Inr)

lemma class_sig_visited:
  assumes "visitClass k st = Inr (k', st')" "wf_class k" "sorted_members k"
  shows "class_sig (s_program st) k \<and> class_sim k k'"
proof -
  let ?st = "sem_enterScope (st\<lparr>s_class := Some k\<rparr>)"
  from assms(1) obtain fs st1 ms st2 mms st3 where v: "visitFieldList (c_fields k) ?st = Inr (fs, st1)"
      "visitMethodList (c_methods k) st1 = Inr (ms, st2)" "k' = k\<lparr>c_fields := fs, c_methods := ms, c_mainMethods := mms\<rparr>"
    by (rule visitClass_parts)
  have P: "s_program ?st = s_program st" by (simp add: sem_enterScope_def)
  have w: "\<forall>f \<in> set (c_fields k). wf_field f" "\<forall>m \<in> set (c_methods k). wf_method m" using assms(2) by (simp_all add: wf_class_def)
  have S: "sorted (map f_name (c_fields k))" "sorted (map rm_name (c_methods k))" using assms(3) by (simp_all add: sorted_members_def)
  note F = visitFieldList_typed [OF v(1) w(1) S(1), unfolded P] visitFieldList_Inr [OF v(1)]
  have "s_program st2 = s_program st \<and> list_all2 (\<lambda>m m'. rm_name m' = rm_name m \<and> method_sig (s_program st) m) (c_methods k) ms"
  proof (rule mapM_Inr [OF visitMethodList_mapM [OF v(2) S(2)], where I = "\<lambda>s. s_program s = s_program st"])
    fix m m' s s'
    assume "s_program s = s_program st" "visitRegularMethod m s = Inr (m', s')" "m \<in> set (c_methods k)"
    then show "s_program s' = s_program st \<and> rm_name m' = rm_name m \<and> method_sig (s_program st) m"
      using visitRegularMethod_Inr method_sig_visited [of m s m' s'] w(2) by auto
  qed (use F(2) P in simp)
  then have l: "list_all2 (\<lambda>m m'. rm_name m' = rm_name m \<and> method_sig (s_program st) m) (c_methods k) ms" by simp
  then have "map rm_name ms = map rm_name (c_methods k) \<and> (\<forall>m \<in> set (c_methods k). method_sig (s_program st) m)"
    by (induction rule: list_all2_induct) auto
  then show ?thesis using F v(3) by (simp add: class_sig_def class_sim_def)
qed

definition plain_class :: "klass \<Rightarrow> bool" where
  "plain_class k \<longleftrightarrow> (\<forall>m \<in> set (c_methods k). plain_stmt (rm_block m)) \<and> (\<forall>m \<in> set (c_mainMethods k). plain_stmt (mm_block m))"

definition between_classes :: "program \<Rightarrow> sstate \<Rightarrow> bool" where
  "between_classes P st \<longleftrightarrow> s_program st = P \<and> st_rep (s_symTbl st) [] \<and> (\<forall>xs. s_alloc st xs \<notin> set xs)"

lemma fields_class_state:
  assumes "class_state P k (f # fs) st" "set xs \<subseteq> set (c_fields k)"
  shows "\<exists>f'. class_state P k (f' # fs) (fold (\<lambda>x. sem_insert (f_name x) (Def_Field x)) xs st)"
  using assms
proof (induction xs arbitrary: f st)
  case (Cons x xs)
  have "class_state P k (f(f_name x \<mapsto> Def_Field x) # fs) (sem_insert (f_name x) (Def_Field x) st)"
    using Cons.prems by (auto simp: class_state_def sem_insert_def symtab.ins_rep ran_def split: if_splits)
  from Cons.IH [OF this] Cons.prems(2) show ?case by simp
qed auto

lemma class_typed:
  assumes "visitClass k st = Inr (k', st')" "wf_class k" "sorted_members k" "between_classes P st" "sig_ok P" "k \<in> set (pr_classes P)"
  shows "between_classes P st' \<and> (plain_class k' \<longrightarrow> (\<forall>m \<in> set (c_methods k'). typed_method P k m)
    \<and> (\<forall>m \<in> set (c_mainMethods k'). typed_stmt (main_ctx P k m) (mm_block m)))"
proof -
  let ?st = "sem_enterScope (st\<lparr>s_class := Some k\<rparr>)"
  from assms(1) obtain fs st1 ms st2 mms st3 where v: "visitFieldList (c_fields k) ?st = Inr (fs, st1)"
      "visitMethodList (c_methods k) st1 = Inr (ms, st2)" "visitMainMethodList (c_mainMethods k) st2 = Inr (mms, st3)"
      "sem_leaveScope st3 = Inr st'" "k' = k\<lparr>c_fields := fs, c_methods := ms, c_mainMethods := mms\<rparr>"
    by (rule visitClass_parts)
  have w: "\<forall>f \<in> set (c_fields k). wf_field f" "\<forall>m \<in> set (c_methods k). wf_method m" "\<forall>m \<in> set (c_mainMethods k). wf_main m"
    using assms(2) by (simp_all add: wf_class_def)
  have S: "sorted (map f_name (c_fields k))" "sorted (map rm_name (c_methods k))" using assms(3) by (simp_all add: sorted_members_def)
  have "s_alloc st (map sc_addr (scopes (s_symTbl st))) \<notin> set (map sc_addr (scopes (s_symTbl st)))"
    using assms(4) unfolding between_classes_def by blast
  then have "class_state P k [Map.empty] ?st"
    using assms(4) by (simp add: class_state_def between_classes_def sem_enterScope_def fresh_scope_def symtab.enter_rep)
  from fields_class_state [OF this subset_refl] obtain f where f: "class_state P k [f] st1"
    using visitFieldList_typed [OF v(1) w(1) S(1)] by auto
  have M: "class_state P k [f] st2 \<and> list_all2 (\<lambda>m m'. plain_stmt (rm_block m') \<longrightarrow> typed_method P k m') (c_methods k) ms"
    by (rule mapM_Inr [OF visitMethodList_mapM [OF v(2) S(2)], where I = "class_state P k [f]"])
      (use method_typed [OF _ _ _ _ assms(6,5)] w(2) f in blast)+
  have l: "length (c_mainMethods k) \<le> 1" using visitMainMethodList_Inr [OF v(3)] by simp
  have MM: "(\<exists>f. st_rep (s_symTbl st3) [f]) \<and> (\<forall>xs. s_alloc st3 xs \<notin> set xs)
      \<and> (\<forall>m \<in> set mms. plain_stmt (mm_block m) \<longrightarrow> typed_stmt (main_ctx P k m) (mm_block m))"
  proof (cases "c_mainMethods k")
    case Nil
    then show ?thesis using v(3) M by (auto simp: visitMainMethodList_def class_state_def)
  next
    case (Cons mm rest)
    then have "rest = []" using l by simp
    with Cons v(3) obtain mm' where m: "visitMainMethod mm st2 = Inr (mm', st3)" "mms = [mm']"
      by (auto simp: visitMainMethodList_def bindE_eq_Inr)
    show ?thesis using main_typed [OF m(1) conjunct1 [OF M] _ assms(6,5)] w(3) Cons m(2) by simp
  qed
  then obtain g where "st_rep (s_symTbl st3) [g]" by blast
  then have "st_rep (s_symTbl st') []" using symtab.leave_rep [of "s_symTbl st3" g "[]"] v(4) by (auto simp: sem_leaveScope_def)
  moreover have "s_program st' = P" "s_alloc st' = s_alloc st3"
    using visitClass_Inr [OF assms(1)] assms(4) sem_leaveScope_env [OF v(4)] by (simp_all add: between_classes_def same_env_def)
  moreover have "\<forall>m \<in> set ms. plain_stmt (rm_block m) \<longrightarrow> typed_method P k m"
    using conjunct2 [OF M] by (induction rule: list_all2_induct) auto
  ultimately show ?thesis using MM v(5) by (auto simp: between_classes_def plain_class_def)
qed

section \<open>From the sorted program to the visited one\<close>

definition prog_sim :: "program \<Rightarrow> program \<Rightarrow> bool" where
  "prog_sim P P' \<longleftrightarrow> list_all2 class_sim (pr_classes P) (pr_classes P')"

lemma prog_sim_names: "prog_sim P P' \<Longrightarrow> map c_name (pr_classes P') = map c_name (pr_classes P)"
  unfolding prog_sim_def by (induction rule: list_all2_induct) (auto simp: class_sim_def)

lemma prog_sim_find:
  assumes "prog_sim P P'" "sorted (map c_name (pr_classes P))"
  shows "rel_option class_sim (findClassByName P n) (findClassByName P' n)"
proof -
  have "rel_option class_sim (find (\<lambda>k. c_name k = n) xs) (find (\<lambda>k. c_name k = n) ys)" if "list_all2 class_sim xs ys" for xs ys
    using that by (induction rule: list_all2_induct) (auto simp: class_sim_def)
  then show ?thesis using assms prog_sim_names [OF assms(1)] by (simp add: findClassByName_def find_by_name_sorted prog_sim_def)
qed

lemma prog_sim_declared: "prog_sim P P' \<Longrightarrow> sorted (map c_name (pr_classes P)) \<Longrightarrow> declared P' n = declared P n"
  using prog_sim_find [of P P' n] by (auto simp: declared_def rel_option_iff split: option.splits)

lemma prog_sim_ir:
  assumes "prog_sim P P'" "sorted (map c_name (pr_classes P))"
  shows "ir_typed P' t = ir_typed P t"
  using prog_sim_declared [OF assms] by (cases "kind t") (auto simp: ir_typed_basic ir_typed_array)

lemma prog_sim_types:
  assumes "prog_sim P P'" "sorted (map c_name (pr_classes P))"
  shows "ast_typed P' t = ast_typed P t" "ret_typed P' t = ret_typed P t"
  unfolding ast_typed_def ret_typed_def prog_sim_ir [OF assms] by (rule HOL.refl)+

lemma prog_sim_method: "prog_sim P P' \<Longrightarrow> method_exists P d \<Longrightarrow> method_exists P' d"
proof (induction P d rule: method_exists.induct)
  case (1 P c m)
  then obtain k where k: "k \<in> set (pr_classes P)" "c_name k = c" "m \<in> set (map rm_name (c_methods k))" by auto
  obtain k' where k': "k' \<in> set (pr_classes P')" "class_sim k k'"
    using 1(1) k(1) unfolding prog_sim_def by (induction rule: list_all2_induct) auto
  have "m \<in> set (map rm_name (c_methods k'))" using k(3) k'(2) unfolding class_sim_def by metis
  then show ?case using k(2) k' by (auto simp: class_sim_def)
qed simp

lemma class_sim_field: "class_sim k k' \<Longrightarrow> has_field k f t \<Longrightarrow> has_field k' f t"
proof -
  have "rel_option field_sim (find (\<lambda>x. f_name x = n) xs) (find (\<lambda>x. f_name x = n) ys)" if "list_all2 field_sim xs ys" for xs ys n
    using that by (induction rule: list_all2_induct) (auto simp: field_sim_def)
  moreover assume "class_sim k k'" "has_field k f t"
  ultimately have "rel_option field_sim (find (\<lambda>x. f_name x = f_name f) (c_fields k)) (find (\<lambda>x. f_name x = f_name f) (c_fields k'))"
    by (simp add: class_sim_def)
  then show "has_field k' f t" using \<open>has_field k f t\<close>
    by (auto simp: has_field_def field_sim_def tmode_def rel_option_iff split: option.splits)
qed

definition ctx_sim :: "tctx \<Rightarrow> tctx \<Rightarrow> bool" where
  "ctx_sim \<Gamma> \<Gamma>' \<longleftrightarrow> prog_sim (tc_prog \<Gamma>) (tc_prog \<Gamma>') \<and> sorted (map c_name (pr_classes (tc_prog \<Gamma>)))
     \<and> class_sim (tc_class \<Gamma>) (tc_class \<Gamma>') \<and> tc_main \<Gamma>' = tc_main \<Gamma> \<and> tc_params \<Gamma>' = tc_params \<Gamma>"

lemma prog_sim_class_names: "prog_sim P P' \<Longrightarrow> c_name ` set (pr_classes P') = c_name ` set (pr_classes P)"
  using prog_sim_names [of P P'] by (metis list.set_map)

lemma typed_var_sim: "ctx_sim \<Gamma> \<Gamma>' \<Longrightarrow> typed_var \<Gamma> t d \<Longrightarrow> typed_var \<Gamma>' t d"
  by (induction \<Gamma> t d rule: typed_var.induct) (auto simp: ctx_sim_def intro: class_sim_field)

lemma typed_expr_sim:
  "typed_expr \<Gamma> e \<Longrightarrow> ctx_sim \<Gamma> \<Gamma>' \<Longrightarrow> typed_expr \<Gamma>' e"
  "typed_args \<Gamma> es \<Longrightarrow> ctx_sim \<Gamma> \<Gamma>' \<Longrightarrow> typed_args \<Gamma>' es"
proof (induction \<Gamma> e and \<Gamma> es rule: typed_expr_typed_args.induct)
  case (5 \<Gamma> l t n d)
  then show ?case by (auto intro: typed_var_sim)
next
  case (9 \<Gamma> l t e n d)
  have "rel_option class_sim (findClassByName (tc_prog \<Gamma>) (tname (targetType e))) (findClassByName (tc_prog \<Gamma>') (tname (targetType e)))"
    using 9 by (intro prog_sim_find) (simp_all add: ctx_sim_def)
  then show ?case using 9 by (auto simp: rel_option_iff split: option.splits field_ref.splits intro: class_sim_field)
next
  case (10 \<Gamma> l t e n args d sys)
  have "rel_option class_sim (findClassByName (tc_prog \<Gamma>) (tname (targetType e))) (findClassByName (tc_prog \<Gamma>') (tname (targetType e)))"
    using 10 by (intro prog_sim_find) (simp_all add: ctx_sim_def)
  then show ?case using 10 prog_sim_method [of "tc_prog \<Gamma>" "tc_prog \<Gamma>'" d]
    by (auto simp: rel_option_iff ctx_sim_def split: option.splits if_splits)
qed (auto simp: ctx_sim_def prog_sim_ir prog_sim_class_names split: option.splits)

lemma typed_stmt_sim:
  "typed_stmt \<Gamma> s \<Longrightarrow> ctx_sim \<Gamma> \<Gamma>' \<Longrightarrow> typed_stmt \<Gamma>' s"
  "typed_stmts \<Gamma> ss \<Longrightarrow> ctx_sim \<Gamma> \<Gamma>' \<Longrightarrow> typed_stmts \<Gamma>' ss"
  "typed_body \<Gamma> b \<Longrightarrow> ctx_sim \<Gamma> \<Gamma>' \<Longrightarrow> typed_body \<Gamma>' b"
  by (induction \<Gamma> s and \<Gamma> ss and \<Gamma> b rule: typed_stmt_typed_stmts_typed_body.induct)
    (auto intro: typed_expr_sim split: option.splits)

section \<open>Programs\<close>

definition plain_program :: "program \<Rightarrow> bool" where
  "plain_program P \<longleftrightarrow> (\<forall>k \<in> set (pr_classes P). plain_class k)"

text \<open>A class with typed bodies, and its form after the visit\<close>

definition class_done :: "program \<Rightarrow> klass \<Rightarrow> klass \<Rightarrow> bool" where
  "class_done P k k' \<longleftrightarrow> class_sig P k \<and> class_sim k k' \<and> distinct (map rm_name (c_methods k))
     \<and> (plain_class k' \<longrightarrow> (\<forall>m \<in> set (c_methods k'). typed_method P k m)
         \<and> (\<forall>m \<in> set (c_mainMethods k'). typed_stmt (main_ctx P k m) (mm_block m)))"

lemma class_done_typed:
  assumes "class_done P k k'" "plain_class k'" "prog_sim P P'" "sorted (map c_name (pr_classes P))"
  shows "typed_class P' k'"
proof -
  have sim: "class_sim k k'" and sig: "class_sig P k" and d: "distinct (map rm_name (c_methods k))"
    and b: "\<forall>m \<in> set (c_methods k'). typed_method P k m" "\<forall>m \<in> set (c_mainMethods k'). typed_stmt (main_ctx P k m) (mm_block m)"
    using assms(1,2) by (auto simp: class_done_def)
  have ctx: "ctx_sim (method_ctx P k m) (method_ctx P' k' m)" "ctx_sim (main_ctx P k mm) (main_ctx P' k' mm)" for m mm
    using assms(3,4) sim by (simp_all add: ctx_sim_def method_ctx_def main_ctx_def)
  have "\<forall>f' \<in> set (c_fields k'). ast_typed P (f_type f')"
  proof -
    have "list_all2 field_sim (c_fields k) (c_fields k')" "\<forall>f \<in> set (c_fields k). ast_typed P (f_type f)"
      using sim sig by (simp_all add: class_sim_def class_sig_def)
    then show ?thesis by (induction rule: list_all2_induct) (auto simp: field_sim_def ast_typed_def)
  qed
  moreover have "distinct (map rm_name (c_methods k'))" using sim d by (simp add: class_sim_def)
  moreover have "typed_method P' k' m" if "m \<in> set (c_methods k')" for m
    using b(1) that typed_stmt_sim(1) [OF _ ctx(1)] prog_sim_types [OF assms(3,4)] by (auto simp: typed_method_def)
  moreover have "typed_stmt (main_ctx P' k' m) (mm_block m)" if "m \<in> set (c_mainMethods k')" for m
    using b(2) that typed_stmt_sim(1) [OF _ ctx(2)] by blast
  ultimately show ?thesis using prog_sim_types [OF assms(3,4)] by (simp add: typed_class_def list_all_iff)
qed

lemma list_all2_conjD: "list_all2 (\<lambda>x y. R x y \<and> S x y) xs ys \<Longrightarrow> list_all2 R xs ys \<and> list_all2 S xs ys"
  by (induction rule: list_all2_induct) auto

lemma visitProgram_parts:
  assumes "visitProgram alloc l p = Inr (P', st)"
  obtains ks where "mapM_st visitClass (pr_classes (sorted_program p)) ((newSemanticVisitor alloc l p)\<lparr>s_program := sorted_program p\<rparr>) = Inr (ks, st)"
    "P' = (sorted_program p)\<lparr>pr_classes := ks\<rparr>"
proof -
  let ?ks = "sort_key c_name (map sortMembers (sort_key c_name (pr_classes p)))"
  from assms obtain ks where "mapM_st visitClass ?ks ((newSemanticVisitor alloc l p)\<lparr>s_program := p\<lparr>pr_classes := ?ks\<rparr>\<rparr>) = Inr (ks, st)"
      "P' = p\<lparr>pr_classes := ks\<rparr>"
    unfolding visitProgram_def Let_def bindE_eq_Inr
    by (auto simp: bindE_eq_Inr split: if_splits dest!: checkForDuplicates_Inr)
  then show ?thesis unfolding sort_classes by (intro that [of ks]) (simp_all add: sorted_program_def)
qed

lemma sorted_program_members:
  assumes "k \<in> set (pr_classes (sorted_program p))" "wf_program p"
  shows "sorted_members k" "wf_class k"
proof -
  obtain k0 where k0: "k = sortMembers k0" "k0 \<in> set (pr_classes p)" using assms(1) by (auto simp: sorted_program_def)
  show "sorted_members k" unfolding k0(1) by (simp add: sorted_members_def sortMembers_def sortFields_def sortMethods_def)
  show "wf_class k" using assms(2) k0 by (auto simp: wf_program_def wf_class_def sortMembers_def sortFields_def sortMethods_def)
qed

lemma accepted_typed:
  assumes "wf_program p" "\<And>xs. alloc xs \<notin> set xs" and v: "visitProgram alloc l p = Inr (P', st)" and "plain_program P'"
  shows "typed_program P'"
proof -
  let ?P = "sorted_program p"
  let ?st = "(newSemanticVisitor alloc l p)\<lparr>s_program := ?P\<rparr>"
  obtain ks where ks: "mapM_st visitClass (pr_classes ?P) ?st = Inr (ks, st)" "P' = ?P\<lparr>pr_classes := ks\<rparr>"
    by (rule visitProgram_parts [OF v])
  note members = sorted_program_members [OF _ assms(1)]
  have S: "sorted (map c_name (pr_classes ?P))" by (rule sorted_program_classes(1))
  have "s_program st = ?P \<and> list_all2 (\<lambda>k k'. class_sig ?P k \<and> class_sim k k') (pr_classes ?P) ks"
  proof (rule mapM_Inr [OF ks(1), where I = "\<lambda>s. s_program s = ?P"])
    fix k k' s s'
    assume "s_program s = ?P" "visitClass k s = Inr (k', s')" "k \<in> set (pr_classes ?P)"
    then show "s_program s' = ?P \<and> class_sig ?P k \<and> class_sim k k'"
      using class_sig_visited [of k s k' s'] members [of k] visitClass_Inr [of k s k' s'] by simp
  qed simp
  then have l: "list_all2 (\<lambda>k k'. class_sig ?P k \<and> class_sim k k') (pr_classes ?P) ks" ..
  from l have "\<forall>k \<in> set (pr_classes ?P). class_sig ?P k" by (induction rule: list_all2_induct) auto
  with S have sig: "sig_ok ?P" by (simp add: sig_ok_def class_sig_def method_sig_def)
  have sim: "prog_sim ?P P'" using list_all2_conjD [OF l] ks(2) by (simp add: prog_sim_def)
  have "between_classes ?P st \<and> list_all2 (class_done ?P) (pr_classes ?P) ks"
  proof (rule mapM_Inr [OF ks(1), where I = "between_classes ?P"])
    fix k k' s s'
    assume k: "between_classes ?P s" "visitClass k s = Inr (k', s')" "k \<in> set (pr_classes ?P)"
    have "class_sig ?P k \<and> class_sim k k'" using class_sig_visited [OF k(2) members(2,1) [OF k(3)]] k(1) by (simp add: between_classes_def)
    then show "between_classes ?P s' \<and> class_done ?P k k'"
      using class_typed [OF k(2) members(2,1) [OF k(3)] k(1) sig k(3)] visitClass_Inr [OF k(2)]
      by (simp add: class_done_def visited_class_def)
  qed (use assms(2) in \<open>simp add: between_classes_def newSemanticVisitor_def\<close>)
  then have "list_all2 (class_done ?P) (pr_classes ?P) ks" ..
  then have "\<forall>k' \<in> set ks. \<exists>k. class_done ?P k k'" by (induction rule: list_all2_induct) auto
  then have "\<forall>k' \<in> set ks. typed_class P' k'" using class_done_typed [OF _ _ sim S] assms(4) ks(2) by (auto simp: plain_program_def)
  moreover have "map c_name ks = map c_name (pr_classes ?P)"
    using prog_sim_names [OF sim] ks(2) by simp
  moreover have "distinct (map c_name (pr_classes ?P))"
    using visitProgram_Inr [OF v] by (simp add: sorted_program_def sortMembers_def distinct_map inj_on_def)
  ultimately show ?thesis using ks(2) by (simp add: typed_program_def list_all_iff)
qed

end
