(* ===== verification/Graph_Claims.thy ===== *)
theory Graph_Claims
  imports Graph_Program Accepted_Typed
begin

text \<open>
  What acceptance by the semantic analysis is good for: accepted programs are typed, and the construction of their
  graphs comes to an end without an error.  The laws of the library that the construction relies on are satisfied by
  a small library, which is defined here.
\<close>

section \<open>A library\<close>

text \<open>
  A pointer is made of a number that was not used before and of the call that it is the result of, or it is one of the
  parts that every graph has.
\<close>

datatype hnode = HNode nat "hnode fop" | HGlob | HFirst hnode | HStart hnode | HEnd hnode | HArgs hnode

fun op_mode :: "ir_mode fop \<Rightarrow> ir_mode" where
  "op_mode (New_node op ms) = (case op of
       N_Const m i \<Rightarrow> m
     | N_Proj m i \<Rightarrow> m
     | N_Phi m \<Rightarrow> m
     | N_Conv m \<Rightarrow> m
     | N_Size m \<Rightarrow> m
     | _ \<Rightarrow> (case ms of [] \<Rightarrow> mode_T | m # _ \<Rightarrow> m))"
| "op_mode (Get_value i m) = m"
| "op_mode _ = mode_T"

primrec hmode :: "hnode \<Rightarrow> ir_mode" where
  "hmode (HNode i op) = op_mode (map_fop hmode op)"
| "hmode HGlob = mode_T"
| "hmode (HFirst g) = mode_T"
| "hmode (HStart g) = mode_T"
| "hmode (HEnd g) = mode_T"
| "hmode (HArgs g) = mode_T"

primrec hnumber :: "hnode \<Rightarrow> nat" where
  "hnumber (HNode i op) = i"
| "hnumber HGlob = 0"
| "hnumber (HFirst g) = 0"
| "hnumber (HStart g) = 0"
| "hnumber (HEnd g) = 0"
| "hnumber (HArgs g) = 0"

text \<open>The current graph, and the current block of every graph\<close>

fun hgraph :: "hnode calls \<Rightarrow> hnode" where
  "hgraph [] = HGlob"
| "hgraph ((op, r) # h) = (case op of Set_current_ir_graph g \<Rightarrow> g | New_ir_graph e n \<Rightarrow> r | _ \<Rightarrow> hgraph h)"

fun hblock :: "hnode calls \<Rightarrow> hnode \<Rightarrow> hnode" where
  "hblock [] g = HFirst g"
| "hblock ((op, r) # h) g = (case op of
       Set_cur_block b \<Rightarrow> if hgraph h = g then b else hblock h g
     | Set_r_cur_block g' b \<Rightarrow> if g' = g then b else hblock h g
     | _ \<Rightarrow> hblock h g)"

text \<open>The predecessors of a block, and the block that a node was created in\<close>

fun hpreds :: "hnode calls \<Rightarrow> hnode \<Rightarrow> hnode list" where
  "hpreds [] b = []"
| "hpreds ((op, r) # h) b = (case op of
       Add_immBlock_pred b' n \<Rightarrow> if b' = b then hpreds h b @ [n] else hpreds h b
     | Set_Block_cfgpred b' i n \<Rightarrow> if b' = b then (hpreds h b)[i := n] else hpreds h b
     | New_Block ns \<Rightarrow> if r = b then ns else hpreds h b
     | New_r_Block g ns \<Rightarrow> if r = b then ns else hpreds h b
     | _ \<Rightarrow> hpreds h b)"

fun hplace :: "hnode calls \<Rightarrow> hnode \<Rightarrow> hnode option" where
  "hplace [] n = None"
| "hplace ((op, r) # h) n =
     (if r = n then (case op of New_r_Jmp b \<Rightarrow> Some b | _ \<Rightarrow> Some (hblock h (hgraph h))) else hplace h n)"

fun hkept :: "hnode calls \<Rightarrow> hnode \<Rightarrow> hnode option list" where
  "hkept [] g = []"
| "hkept ((op, r) # h) g = (case op of
       Keep_alive b \<Rightarrow> if hgraph h = g then hkept h g @ [Some b] else hkept h g
     | _ \<Rightarrow> hkept h g)"

fun htype_mode :: "hnode \<Rightarrow> ir_mode option" where
  "htype_mode (HNode i (Type_call (T_primitive m) ts)) = Some m"
| "htype_mode (HNode i (Type_call T_pointer ts)) = Some mode_P"
| "htype_mode _ = None"

fun hpart :: "hnode \<Rightarrow> hnode" where
  "hpart (HNode i (Type_call (T_entity n) [ow, t])) = t"
| "hpart (HNode i (Type_call (T_global_entity n) [ow, t])) = t"
| "hpart (HNode i (Type_call T_pointer [t])) = t"
| "hpart (HNode i (New_node N_Member [p, e])) = e"
| "hpart n = n"

fun his_block :: "hnode \<Rightarrow> bool" where
  "his_block (HNode i op) = (case op of New_immBlock \<Rightarrow> True | New_Block ns \<Rightarrow> True | New_r_Block g ns \<Rightarrow> True | _ \<Rightarrow> False)"
| "his_block (HFirst g) = True"
| "his_block (HStart g) = True"
| "his_block (HEnd g) = True"
| "his_block _ = False"

definition hfresh :: "hnode calls \<Rightarrow> nat" where
  "hfresh h = Suc (Max (hnumber ` insert (hblock h (hgraph h)) (mentioned h)))"

definition hlib :: "hnode libfirm" where
  "hlib = \<lparr>lf_run = (\<lambda>h op. HNode (hfresh h) op), lf_cur_block = (\<lambda>h. hblock h (hgraph h)), lf_r_cur_block = hblock,
     lf_start_block = HStart, lf_end_block = HEnd, lf_args = HArgs, lf_keepalives = hkept, lf_glob_type = HGlob,
     lf_irn_mode = hmode, lf_type_mode = htype_mode,
     lf_is_Array_type = (\<lambda>t. case t of HNode i (Type_call (T_array n) ts) \<Rightarrow> True | _ \<Rightarrow> False),
     lf_type_size = (\<lambda>h t. case htype_mode t of Some mode_Is \<Rightarrow> 4 | Some mode_Bu \<Rightarrow> 1 | _ \<Rightarrow> 8),
     lf_entity_type = hpart, lf_is_Member = (\<lambda>n. case n of HNode i (New_node N_Member ns) \<Rightarrow> True | _ \<Rightarrow> False),
     lf_Member_entity = hpart, lf_is_Sel = (\<lambda>n. case n of HNode i (New_node N_Sel ns) \<Rightarrow> True | _ \<Rightarrow> False),
     lf_points_to = hpart, lf_is_Block = his_block, lf_n_cfgpreds = (\<lambda>h b. length (hpreds h b)),
     lf_cfgpred = (\<lambda>h b i. if i < length (hpreds h b) then hpreds h b ! i else HGlob),
     lf_cfgpred_block = (\<lambda>h b i. if i < length (hpreds h b) then hplace h (hpreds h b ! i) else None),
     lf_map_order = (\<lambda>xs. xs)\<rparr>"

lemma hlib_simps [simp]:
  "lf_run hlib h op = HNode (hfresh h) op" "lf_cur_block hlib h = hblock h (hgraph h)" "lf_r_cur_block hlib = hblock"
  "lf_end_block hlib = HEnd" "lf_start_block hlib = HStart" "lf_irn_mode hlib = hmode" "lf_type_mode hlib = htype_mode"
  by (simp_all add: hlib_def)

lemma finite_mentioned: "finite (mentioned h)"
proof -
  have "finite (set_fop op)" for op :: "'a fop" by (cases op) auto
  then show ?thesis unfolding mentioned_def by auto
qed

lemma hfresh_new: "n \<in> insert (hblock h (hgraph h)) (mentioned h) \<Longrightarrow> hnumber n < hfresh h"
  unfolding hfresh_def less_Suc_eq_le by (rule Max_ge) (auto simp: finite_mentioned)

lemma hblock_set: "hblock h g \<in> range HEnd \<Longrightarrow> hblock h g \<in> set_blocks h"
proof (induction h)
  case (Cons c h)
  then show ?case by (cases c) (auto simp: calls_simps split: fop.splits if_splits)
qed auto

lemma hplace_finite: "finite {p. \<exists>n. hplace h n = Some p}"
proof (induction h)
  case (Cons c h)
  obtain op r where c: "c = (op, r)" by (cases c)
  have "{p. \<exists>n. hplace (c # h) n = Some p}
    \<subseteq> insert (the (hplace (c # h) r)) {p. \<exists>n. hplace h n = Some p}" unfolding c by auto
  then show ?case using Cons.IH by (meson finite.insertI finite_subset)
qed simp

lemma hlib_block_laws: "block_laws hlib"
proof -
  have keep: "hblock ((op, r) # h) g = hblock h g" "hgraph ((op, r) # h) = hgraph h" if "\<not> moves op" for op r h g
    using that by (cases op; simp)+
  have fresh: "HNode (hfresh h) op \<notin> insert (hblock h (hgraph h)) (mentioned h)" for h op
    using hfresh_new [of "HNode (hfresh h) op" h] by auto
  show ?thesis unfolding block_laws_def end_blocks_def
    using keep fresh hblock_set by auto
qed

lemma hlib_node_laws: "node_laws hlib"
proof -
  have "hmode (HNode i op) = m" if "result_mode hlib op = Some m" for i op m
    using that by (cases "(hlib, op)" rule: result_mode.cases) (auto split: node_op.splits list.splits elim!: first_of.elims)
  then show ?thesis unfolding node_laws_def by (simp add: hlib_def)
qed

lemma hlib_laws: "libfirm_laws hlib"
proof -
  have "{p. \<exists>b i. lf_cfgpred_block hlib h b i = Some p} \<subseteq> {p. \<exists>n. hplace h n = Some p}" for h
    by (auto simp: hlib_def split: if_splits)
  then have "finite_graphs hlib" unfolding finite_graphs_def using hplace_finite finite_subset by blast
  then show ?thesis by (simp add: libfirm_laws_def hlib_block_laws hlib_node_laws)
qed

lemma parsed_wf:
  assumes "parseInput g f inp tbl fuel = Inr (p, ps)"
  shows "wf_program p"
proof -
  let ?n = "max fuel (Suc (length inp))"
  have "parseInput g f inp tbl ?n = Inr (p, ps)"
    using parseInput_rle [of fuel ?n g f inp tbl] assms by (simp add: rle_def)
  then show ?thesis using parseInput_res [of inp ?n g f tbl] by (simp add: res_ok_def)
qed

section \<open>Properties\<close>

text \<open>
  C10: Accepted programs are typed.  If a source text is parsed and the analysis accepts the program, and \<open>System\<close> occurs
  in it only in calls of its methods, then the tree that the analysis leaves behind satisfies the typing rules of
  \<open>Typed_Ast\<close>: operands have the kinds that the operators need, every name refers to a parameter of the
  method, a numbered local variable or a field of the right class with a type of the same mode as the annotated one,
  fields and \<open>this\<close> are not used in \<open>main\<close>, receivers have a declared class, the called methods exist, conditions are
  boolean, the left sides of assignments can be stored to, and all types of fields, parameters and results are
  built from declared classes.
\<close>

theorem accepted_program_typed:
  assumes "parseInput g f inp tbl fuel = Inr (p, ps)" and "Semantic.visitProgram alloc (lexr ps) p = Inr (P, sst)"
    and "\<And>xs. alloc xs \<notin> set xs" and "plain_program P"
  shows "typed_program P"
  using accepted_typed [OF parsed_wf [OF assms(1)] assms(3,2,4)] .

text \<open>
  C3: The construction of graphs comes to an end for every accepted program.  If a source text is parsed and the
  analysis accepts the program, and \<open>System\<close> occurs in it only in calls of its methods, then the
  visitor returns from \<open>visitProgram\<close>: no assertion fails, no table lookup throws, no null pointer is used as a
  node, and the loop that splits critical edges ends.  Afterwards both stacks are as they were at the beginning, there
  is one graph for every method, every block that was created has been matured, and no predecessor was added to
  a block after that.
\<close>

theorem accepted_program_constructed:
  assumes "libfirm_laws lib" and "parseInput g f inp tbl fuel = Inr (p, ps)"
    and "Semantic.visitProgram alloc (lexr ps) p = Inr (P, sst)" "\<And>xs. alloc xs \<notin> set xs" and "plain_program P"
  shows "\<exists>n0 st. (\<forall>n \<ge> n0. Graph_Build.visitProgram n lib P (newFirmVisitor lib print []) = Inr ((), st))
    \<and> nodeStack st = [] \<and> reqBoolInfo st = [None] \<and> length (firmGraphs st) = (\<Sum>k \<leftarrow> pr_classes P. numMethods k)
    \<and> created (calls st) \<subseteq> matured (calls st) \<and> preds_in_time (calls st)"
proof -
  have "wf_program p" using assms(2) by (rule parsed_wf)
  then have "typed_program P" by (rule accepted_typed [OF _ assms(4,3,5)])
  from ewp_visitProgram [OF assms(1) this, of print] obtain n0 st
    where st: "\<And>n. n \<ge> n0 \<Longrightarrow> Graph_Build.visitProgram n lib P (newFirmVisitor lib print []) = Inr ((), st)"
      "Graph_Program.prog_ok lib P st" "length (firmGraphs st) = (\<Sum>k \<leftarrow> pr_classes P. numMethods k)"
    unfolding ewp_def by auto
  moreover have "created (calls st) \<subseteq> matured (calls st) \<and> preds_in_time (calls st)"
    using st(2) by (auto simp: Graph_Program.prog_ok_def base_def inv_def inv0_def)
  moreover have "nodeStack st = []" "reqBoolInfo st = [None]" using st(2) by (simp_all add: Graph_Program.prog_ok_def)
  ultimately show ?thesis by blast
qed

definition graph_text :: string where
  "graph_text = ''class A{public static void main(String[] a){while(1<2&&3<4){}}}''"

lemma graph_text_accepted:
  "mapR (\<lambda>(p, ps). mapR (\<lambda>(P, st). (plain_program P, map numMethods (pr_classes P))) (Semantic.visitProgram ex_alloc (lexr ps) p))
     (parseInput (\<lambda>_. 0) ''a.mj'' graph_text [] 7) = Inr (Inr (True, [1]))"
  by code_simp

lemma graph_text_program:
  obtains p ps P sst where "parseInput (\<lambda>_. 0) ''a.mj'' graph_text [] 7 = Inr (p, ps)"
    "Semantic.visitProgram ex_alloc (lexr ps) p = Inr (P, sst)" "plain_program P" "map numMethods (pr_classes P) = [1]"
proof -
  obtain p ps where p: "parseInput (\<lambda>_. 0) ''a.mj'' graph_text [] 7 = Inr (p, ps)"
      "mapR (\<lambda>(P, st). (plain_program P, map numMethods (pr_classes P))) (Semantic.visitProgram ex_alloc (lexr ps) p)
        = Inr (True, [1])"
    using graph_text_accepted by (auto elim!: mapR_InrE)
  then show thesis using that by (auto elim!: mapR_InrE)
qed

theorem accepted_program_typed_witness:
  "\<exists>p ps P sst. parseInput (\<lambda>_. 0) ''a.mj'' graph_text [] 7 = Inr (p, ps)
     \<and> Semantic.visitProgram ex_alloc (lexr ps) p = Inr (P, sst) \<and> typed_program P"
proof -
  obtain p ps P sst where P: "parseInput (\<lambda>_. 0) ''a.mj'' graph_text [] 7 = Inr (p, ps)"
      "Semantic.visitProgram ex_alloc (lexr ps) p = Inr (P, sst)" "plain_program P" "map numMethods (pr_classes P) = [1]"
    by (rule graph_text_program)
  then show ?thesis using accepted_program_typed [OF P(1,2) ex_alloc_fresh P(3)] by blast
qed

theorem accepted_program_constructed_witness:
  "\<exists>p ps P sst n0 st. parseInput (\<lambda>_. 0) ''a.mj'' graph_text [] 7 = Inr (p, ps)
     \<and> Semantic.visitProgram ex_alloc (lexr ps) p = Inr (P, sst)
     \<and> (\<forall>n \<ge> n0. Graph_Build.visitProgram n hlib P (newFirmVisitor hlib False []) = Inr ((), st))
     \<and> length (firmGraphs st) = 1 \<and> created (calls st) \<subseteq> matured (calls st)"
proof -
  obtain p ps P sst where P: "parseInput (\<lambda>_. 0) ''a.mj'' graph_text [] 7 = Inr (p, ps)"
      "Semantic.visitProgram ex_alloc (lexr ps) p = Inr (P, sst)" "plain_program P" "map numMethods (pr_classes P) = [1]"
    by (rule graph_text_program)
  from accepted_program_constructed [OF hlib_laws P(1,2) ex_alloc_fresh P(3), of False] P(1,2,4)
  show ?thesis by auto
qed

end
