(* ===== verification/Spec2Isabelle.thy ===== *)
theory Spec2Isabelle
  imports Semantic_Claims Messages Asm_Claims Fn_Remove Asm_Pass_Example Const_Prop_Sound Compiler_Claims
    Print_Parse Graph_Claims
begin

text \<open>
  A verification of \<open>mjc\<close>, a compiler for MiniJava written in C++ (\<open>src/src\<close>).

  \<^bold>\<open>The program.\<close>  \<open>main.cpp\<close> reads the options and runs a mode of the driver (\<open>compiler.cpp\<close>).  The text of
  the input file goes through the lexer (\<open>lexer.cpp\<close>), which the parser (\<open>parser.cpp\<close>) asks for tokens; the
  parser builds the tree (\<open>ast.hpp\<close>) and enters names into a string table.  The semantic analysis
  (\<open>semantic_visitor.cpp\<close>) resolves names in a symbol table (\<open>symboltable.cpp\<close>), checks types, removes
  dead statements, numbers local variables and mangles names.  \<open>firm_visitor.cpp\<close> builds a graph for every
  method with the library libfirm; constant propagation and the removal of unused functions work on these
  graphs (\<open>firm_pass.hpp\<close>, \<open>const_prop_pass.hpp\<close>, \<open>unused_fn_remove_pass.hpp\<close>), \<open>asm_pass.cpp\<close> generates
  assembly from them, \<open>asm_optimizer.cpp\<close> improves it and \<open>asm.cpp\<close> prints it for gcc.  Two more visitors
  print the tree: as a program (\<open>pprinter.hpp\<close>) and as a graph (\<open>dotvisitor.cpp\<close>).

  \<^bold>\<open>Conventions.\<close>  Stateful code is explicit state passing on records that have the members of the C++ classes;
  an exception, a failed assertion and undefined behaviour are values of error types (\<open>Inl\<close>, or \<open>None\<close> where
  there is only one way to fail), so that every early return of the code is a branch of the model.  C++ \<open>int\<close>
  is \<open>int\<close> with the ranges stated where they matter; sizes and columns that wrap around are words.  Definitions
  keep the names of the code where HOL allows it and are executable; the witnesses evaluate them.

  \<^bold>\<open>Theories and what they show.\<close>
  \<^item> \<open>Mjc_Prelude\<close>, \<open>Tokens\<close>: the error monad, decimal numbers, token types and locations.
  \<^item> \<open>Lexer\<close> is the model of the lexer: the buffered reader with its line state, all token readers,
    comments, the look-ahead queue.  \<open>Lexer_Spec\<close> says what a lexeme is; \<open>Lexer_Stream\<close>, \<open>Lexer_Props\<close> and
    \<open>Lexer_Queue\<close> connect the two; the locale \<open>token_source\<close> of \<open>Lexer_Queue\<close> is the interface between lexer and parser, and
    the lexer interprets it.  \<open>Lexer_Claims\<close>: no read outside of the buffer, longest match, exact positions,
    the reasons of errors, look-ahead without effect, and the round trip from tokens to text and back.
  \<^item> \<open>Ast\<close>, \<open>Ast_Props\<close>, \<open>Ast_Wf\<close>: the tree, semantic types as a preorder, binary search in sorted members,
    mangled names, and the well-formedness that the parser guarantees.
  \<^item> \<open>Symbol_Table\<close>: the table with its change log over an explicit store implements a stack of maps.
  \<^item> \<open>Parser\<close> has every parse function.  \<open>Parser_Total\<close>, \<open>Parser_Fuel\<close> and \<open>Parser_Claims\<close>: on every input the
    parser returns a well-formed tree or one of the two documented errors.
  \<^item> \<open>Semantic\<close> has every visit function of the analysis.  \<open>Semantic_Lemmas\<close>, \<open>Semantic_Safety\<close>, \<open>Semantic_Accept\<close>,
    \<open>Control_Flow\<close> and \<open>Semantic_Claims\<close>: no failed assertion and no null pointer on programs with closed
    signatures, unique names and labels in accepted programs, dead code removal keeps the control flow, and
    methods with a result return on every path.
  \<^item> \<open>Messages\<close>: coloured output and the reports of all errors, on 64 and 32 bit words.
  \<^item> \<open>Pretty_Printer\<close>, \<open>Dot\<close>, \<open>Dot_Graph\<close>: the two printers; the dot output is a forest.  \<open>Spelling\<close> (texts made of
    lexemes and what the lexer reads from them), \<open>Print_Tokens\<close> (the tokens of a printed expression),
    \<open>Parse_Back\<close> (what the parser makes of them, one rule for each form) and \<open>Print_Parse\<close>: printing an
    expression and parsing the text gives the expression back.
  \<^item> \<open>Typed_Ast\<close> has typing rules for annotated trees, which follow the needs of the graph construction;
    \<open>Semantic_Typed\<close>, \<open>Accepted_Typed\<close>: programs that the analysis accepts satisfy them.  \<open>Firm_Library\<close> and
    \<open>Graph_Build\<close> model \<open>firm_visitor.hpp\<close> and \<open>firm_visitor.cpp\<close>: every visit function, the two stacks and the
    splitting of critical edges, as computations that call the library and may fail.  \<open>Graph_Inv\<close> has the laws
    of the library and the invariant on its calls, \<open>Graph_Expr\<close>, \<open>Graph_Visit\<close>, \<open>Graph_Stmt\<close> and \<open>Graph_Program\<close> the
    rules for expressions, statements and programs; \<open>Graph_Claims\<close>: the construction ends without an error for
    every accepted program, and all blocks are matured at the right time.
  \<^item> \<open>Firm\<close>: graphs of libfirm as records of the functions that the passes call, and the walk over them: every
    node once, operands first, with a bound on its depth.  \<open>Fn_Remove\<close>: exactly the functions that
    \<open>main\<close> does not reach are removed.  \<open>Const_Prop\<close>, \<open>Const_Prop_Sound\<close>: the state at the end of the work
    list solves the data flow equations, hence a substituted constant is the value of its node.
  \<^item> \<open>Asm\<close>, \<open>Asm_Pass\<close>: instructions, blocks and functions; stack slots and the code for every node.
    \<open>Asm_Pass_Props\<close>, \<open>Asm_Pass_Fn\<close>: the shape of a generated function.  \<open>Asm_Sem\<close> gives instructions a
    meaning on registers and memory; \<open>Asm_Pass_Sem\<close>, \<open>Asm_Pass_Div\<close>, \<open>Asm_Pass_Branch\<close>: the code for arithmetic,
    division and conditional jumps computes what the nodes stand for.  \<open>Asm_Pass_Example\<close> has the
    example graph of the witnesses.
  \<^item> \<open>Asm_Opt\<close> has all seven optimizers.  \<open>Asm_Equiv\<close>, \<open>Asm_Peephole\<close>, \<open>Asm_Jumps\<close>, \<open>Asm_Claims\<close>: four of them (the
    moves for the first two loops) keep the meaning of programs; for others there are programs
    that they change.
  \<^item> \<open>Compiler\<close>, \<open>Compiler_Claims\<close>: the modes, options and handlers up to \<open>main\<close>; what the exit status of a mode
    says about the input, and what a successful compilation has done.

  \<^bold>\<open>Fuel.\<close>  Loops whose recursion is not structural take fuel.  The parser consumes a token at least
  every time it takes a unit, and a text has no more tokens than characters, so fuel above the length of
  the text is enough (and more fuel does not change a result).  The walk over a graph needs no more than
  a bound computed from the number of its phi nodes and blocks and the length of its other paths.
  The search for critical edges takes fuel too, and ends for every large enough amount, since a graph has finitely
  many blocks.  The work list of constant propagation need not get empty, so what is shown there is about runs that end.

  \<^bold>\<open>Parameters.\<close>  libfirm is not part of the sources.  The graph passes work on graphs given by the results of the
  library's access functions; what they rely on is stated in predicates such as \<open>cp_graph\<close>, with
  a concrete graph that satisfies them.  The graph construction works on a record of the library's functions, whose
  results may depend on all calls before; \<open>libfirm_laws\<close> states what it relies on (the current block is the one set
  last, new blocks are new pointers, nodes and types have the modes they were created with, a graph has
  finitely many blocks), and a library built from the history of calls satisfies the laws.  The graphs as the passes
  see them, behind the construction, are again a parameter of the driver.  Constants of the library (\<open>tarval\<close>) are an abstract type with operations.  The file
  system, the allocator and gcc are fields of an environment, and the text of the progress messages
  that the passes print on standard output is a parameter, too.

  \<^bold>\<open>Not modelled.\<close>  What the library makes of the calls that build graphs, the second walk of constant propagation
  over a graph that changes under it (the exchanges are decided on the graph before), the overflow of line and
  column numbers beyond $2^{31}$, the parsing of the command line by boost, \<open>runtime.c\<close> (calls of the C library), and
  the fuzzers under \<open>src/fuzzing\<close>, which are vendored.
\<close>

end
